(* ===== verification/Prelude.thy ===== *)
theory Prelude
  imports Main "HOL-Library.AList" "HOL-Library.Char_ord" "HOL-Library.List_Lexorder"
    "HOL-Library.Product_Lexorder"
begin

text \<open>
  What every component shares: the result type of fallible code, Python dictionaries as
  association lists in insertion order, the text functions of Python that the modelled
  code calls, and the generic list lemmas the component proofs rest on.

  Text is \<^typ>\<open>string\<close>: one \<^typ>\<open>char\<close> stands for one code point below 256, so a
  Python text of that range is represented exactly, and its UTF-8 encoding takes one byte
  below 128 and two above (\<open>utf8_len\<close>). \<open>str.lower\<close> and \<open>str.isspace\<close> are
  written for the ASCII range, where the code uses them.
\<close>

section \<open>Collections of rules\<close>

named_theorems table_simps \<open>transition tables, evaluated\<close>
named_theorems flow_simps \<open>unfolding of the sequencing combinators\<close>

section \<open>Fallible code\<close>

text \<open>
  \<open>Inl e\<close> is a raised exception, \<open>Inr v\<close> a returned value; \<open>bindR\<close> is sequencing:
  the first exception wins.
\<close>

fun bindR :: "'e + 'a \<Rightarrow> ('a \<Rightarrow> 'e + 'b) \<Rightarrow> 'e + 'b" where
  "bindR (Inl e) f = Inl e"
| "bindR (Inr v) f = f v"

definition guardR :: "bool \<Rightarrow> 'e \<Rightarrow> 'e + unit" where
  "guardR b e = (if b then Inr () else Inl e)"

fun isOK :: "'e + 'a \<Rightarrow> bool" where
  "isOK (Inl e) = False"
| "isOK (Inr v) = True"

lemma bindR_Inr_iff [simp]: "bindR m f = Inr r \<longleftrightarrow> (\<exists>v. m = Inr v \<and> f v = Inr r)"
  by (cases m) auto

lemma bindR_Inl_iff: "bindR m f = Inl e \<longleftrightarrow> m = Inl e \<or> (\<exists>v. m = Inr v \<and> f v = Inl e)"
  by (cases m) auto

lemma guardR_Inr [simp]: "guardR b e = Inr u \<longleftrightarrow> b"
  by (simp add: guardR_def)

lemma guardR_Inl [simp]: "guardR b e = Inl e' \<longleftrightarrow> \<not> b \<and> e' = e"
  by (auto simp: guardR_def)

lemma guardR_True [simp]: "guardR True e = Inr ()"
  by (simp add: guardR_def)

lemma guardR_False [simp]: "guardR False e = Inl e"
  by (simp add: guardR_def)

lemma isOK_iff: "isOK r \<longleftrightarrow> (\<exists>v. r = Inr v)"
  by (cases r) auto

text \<open>A loop over a list that stops at the first exception.\<close>

fun foldR :: "('a \<Rightarrow> 's \<Rightarrow> 'e + 's) \<Rightarrow> 'a list \<Rightarrow> 's \<Rightarrow> 'e + 's" where
  "foldR f [] s = Inr s"
| "foldR f (x # xs) s = bindR (f x s) (foldR f xs)"

lemma foldR_append: "foldR f (xs @ ys) s = bindR (foldR f xs s) (foldR f ys)"
proof (induction xs arbitrary: s)
  case (Cons x xs)
  then show ?case by (cases "f x s") auto
qed simp

lemma foldR_invariant:
  assumes "foldR f xs s = Inr t" and "I s"
    and "\<And>x s t. x \<in> set xs \<Longrightarrow> I s \<Longrightarrow> f x s = Inr t \<Longrightarrow> I t"
  shows "I t"
  using assms
proof (induction xs arbitrary: s)
  case (Cons x xs)
  from Cons.prems(1) obtain s' where s': "f x s = Inr s'" and rest: "foldR f xs s' = Inr t"
    by auto
  have "I s'" using Cons.prems(2,3) s' by auto
  with Cons.IH [OF rest] Cons.prems(3) show ?case by auto
qed simp

section \<open>Effects\<close>

text \<open>
  A method with effects is a function of the state it acts on: it raises or returns, and leaves
  a state. An exception does not undo what was done before it; only a transaction does.
\<close>

type_synonym ('s, 'e, 'a) act = "'s \<Rightarrow> ('e + 'a) \<times> 's"

definition ret :: "'a \<Rightarrow> ('s, 'e, 'a) act" where
  "ret v = (\<lambda>s. (Inr v, s))"

definition throw :: "'e \<Rightarrow> ('s, 'e, 'a) act" where
  "throw e = (\<lambda>s. (Inl e, s))"

definition bnd :: "('s, 'e, 'a) act \<Rightarrow> ('a \<Rightarrow> ('s, 'e, 'b) act) \<Rightarrow> ('s, 'e, 'b) act" where
  "bnd m f = (\<lambda>s. case m s of (Inl e, s') \<Rightarrow> (Inl e, s') | (Inr v, s') \<Rightarrow> f v s')"

definition andthen :: "('s, 'e, 'a) act \<Rightarrow> ('s, 'e, 'b) act \<Rightarrow> ('s, 'e, 'b) act" where
  "andthen m n = bnd m (\<lambda>_. n)"

definition reading :: "('s \<Rightarrow> 'a) \<Rightarrow> ('s, 'e, 'a) act" where
  "reading f = (\<lambda>s. (Inr (f s), s))"

definition modifying :: "('s \<Rightarrow> 's) \<Rightarrow> ('s, 'e, unit) act" where
  "modifying f = (\<lambda>s. (Inr (), f s))"

definition lifting :: "'e + 'a \<Rightarrow> ('s, 'e, 'a) act" where
  "lifting r = (\<lambda>s. (r, s))"

definition unless :: "bool \<Rightarrow> ('s, 'e, unit) act \<Rightarrow> ('s, 'e, unit) act" where
  "unless b m = (if b then ret () else m)"

definition whenever :: "bool \<Rightarrow> ('s, 'e, unit) act \<Rightarrow> ('s, 'e, unit) act" where
  "whenever b m = (if b then m else ret ())"

text \<open>\<open>try: m except ...: h\<close>.\<close>

definition catching :: "('s, 'e, 'a) act \<Rightarrow> ('e \<Rightarrow> ('s, 'e, 'a) act) \<Rightarrow> ('s, 'e, 'a) act" where
  "catching m h = (\<lambda>s. case m s of (Inl e, s') \<Rightarrow> h e s' | (Inr v, s') \<Rightarrow> (Inr v, s'))"

fun for_each :: "'x list \<Rightarrow> ('x \<Rightarrow> ('s, 'e, unit) act) \<Rightarrow> ('s, 'e, unit) act" where
  "for_each [] f = ret ()"
| "for_each (x # xs) f = andthen (f x) (for_each xs f)"

lemma for_each_append: "for_each (xs @ ys) f = andthen (for_each xs f) (for_each ys f)"
  by (induction xs) (auto simp: andthen_def bnd_def ret_def fun_eq_iff split: prod.splits sum.splits)

lemma andthen_ret [simp]: "andthen m (ret ()) = m"
  by (auto simp: andthen_def bnd_def ret_def fun_eq_iff split: prod.splits sum.splits)

text \<open>An action on a part of a state.\<close>

definition on_part :: "('s \<Rightarrow> 't) \<Rightarrow> ('t \<Rightarrow> 's \<Rightarrow> 's) \<Rightarrow> ('t, 'e, 'a) act \<Rightarrow> ('s, 'e, 'a) act" where
  "on_part get put m = (\<lambda>s. case m (get s) of (r, t) \<Rightarrow> (r, put t s))"

lemmas act_simps [flow_simps] = ret_def throw_def reading_def modifying_def lifting_def unless_def
  whenever_def on_part_def

lemma bnd_run [flow_simps]:
  "bnd m f s = (case m s of (Inl e, s') \<Rightarrow> (Inl e, s') | (Inr v, s') \<Rightarrow> f v s')"
  by (simp add: bnd_def)

lemma bnd_ret [simp]: "bnd (ret v) f = f v"
  by (simp add: bnd_def ret_def fun_eq_iff)

lemma andthen_run [flow_simps]:
  "andthen m n s = (case m s of (Inl e, s') \<Rightarrow> (Inl e, s') | (Inr v, s') \<Rightarrow> n s')"
  by (simp add: andthen_def bnd_def)

lemma catching_run [flow_simps]:
  "catching m h s = (case m s of (Inl e, s') \<Rightarrow> h e s' | (Inr v, s') \<Rightarrow> (Inr v, s'))"
  by (simp add: catching_def)

lemma bnd_Inr: "bnd m f s = (Inr v, s') \<longleftrightarrow> (\<exists>u t. m s = (Inr u, t) \<and> f u t = (Inr v, s'))"
  by (auto simp: bnd_def split: prod.splits sum.splits)

lemma bnd_Inl:
  "bnd m f s = (Inl e, s') \<longleftrightarrow> m s = (Inl e, s') \<or> (\<exists>u t. m s = (Inr u, t) \<and> f u t = (Inl e, s'))"
  by (auto simp: bnd_def split: prod.splits sum.splits)

lemma andthen_Inr: "andthen m n s = (Inr v, s') \<longleftrightarrow> (\<exists>u t. m s = (Inr u, t) \<and> n t = (Inr v, s'))"
  by (simp add: andthen_def bnd_Inr)

lemma andthen_Inl:
  "andthen m n s = (Inl e, s') \<longleftrightarrow> m s = (Inl e, s') \<or> (\<exists>u t. m s = (Inr u, t) \<and> n t = (Inl e, s'))"
  by (simp add: andthen_def bnd_Inl)

text \<open>What holds of the state whatever an action did, raising included.\<close>

definition keeps :: "('s \<Rightarrow> bool) \<Rightarrow> ('s, 'e, 'a) act \<Rightarrow> bool" where
  "keeps I m \<longleftrightarrow> (\<forall>s. I s \<longrightarrow> I (snd (m s)))"

named_theorems keeps_intros \<open>preservation, by the shape of the action\<close>

lemma keepsD: "keeps I m \<Longrightarrow> I s \<Longrightarrow> I (snd (m s))"
  by (simp add: keeps_def)

lemma keeps_ret [keeps_intros]: "keeps I (ret v)"
  and keeps_throw [keeps_intros]: "keeps I (throw e)"
  and keeps_reading [keeps_intros]: "keeps I (reading f)"
  and keeps_lifting [keeps_intros]: "keeps I (lifting r)"
  by (simp_all add: keeps_def flow_simps)

lemma keeps_bnd [keeps_intros]:
  "keeps I m \<Longrightarrow> (\<And>v. keeps I (f v)) \<Longrightarrow> keeps I (bnd m f)"
  by (auto simp: keeps_def bnd_def split: prod.splits sum.splits)

lemma keeps_andthen [keeps_intros]: "keeps I m \<Longrightarrow> keeps I n \<Longrightarrow> keeps I (andthen m n)"
  by (simp add: andthen_def keeps_bnd)

lemma keeps_catching [keeps_intros]:
  "keeps I m \<Longrightarrow> (\<And>e. keeps I (h e)) \<Longrightarrow> keeps I (catching m h)"
  by (auto simp: keeps_def catching_def split: prod.splits sum.splits)

lemma keeps_unless [keeps_intros]: "keeps I m \<Longrightarrow> keeps I (unless b m)"
  and keeps_whenever [keeps_intros]: "keeps I m \<Longrightarrow> keeps I (whenever b m)"
  by (simp_all add: unless_def whenever_def keeps_ret)

lemma keeps_for_each [keeps_intros]: "(\<And>x. keeps I (f x)) \<Longrightarrow> keeps I (for_each xs f)"
  by (induction xs) (simp_all add: keeps_intros)

lemma keeps_if [keeps_intros]: "keeps I m \<Longrightarrow> keeps I n \<Longrightarrow> keeps I (if b then m else n)"
  by simp

text \<open>
  What an action does from the states of \<open>P\<close>: it returns into \<open>Q\<close> or raises into \<open>E\<close>.
\<close>

definition triple :: "('s \<Rightarrow> bool) \<Rightarrow> ('s, 'e, 'a) act \<Rightarrow> ('a \<Rightarrow> 's \<Rightarrow> bool) \<Rightarrow> ('s \<Rightarrow> bool) \<Rightarrow> bool" where
  "triple P m Q E \<longleftrightarrow> (\<forall>s. P s \<longrightarrow> (case m s of (Inr v, s') \<Rightarrow> Q v s' | (Inl _, s') \<Rightarrow> E s'))"

lemma tripleD: "triple P m Q E \<Longrightarrow> P s \<Longrightarrow> m s = (Inr v, s') \<Longrightarrow> Q v s'"
  by (auto simp: triple_def)

lemma triple_raises: "triple P m Q E \<Longrightarrow> P s \<Longrightarrow> m s = (Inl e, s') \<Longrightarrow> E s'"
  by (auto simp: triple_def)

lemma triple_keeps: "triple I m (\<lambda>_. I) I \<longleftrightarrow> keeps I m"
proof -
  have "(case m s of (Inr v, s') \<Rightarrow> I s' | (Inl _, s') \<Rightarrow> I s') = I (snd (m s))" for s
    by (simp split: prod.splits sum.splits)
  then show ?thesis by (simp add: triple_def keeps_def)
qed

lemma triple_ret: "(\<And>s. P s \<Longrightarrow> Q v s) \<Longrightarrow> triple P (ret v) Q E"
  by (simp add: triple_def ret_def)

lemma triple_throw: "(\<And>s. P s \<Longrightarrow> E s) \<Longrightarrow> triple P (throw e) Q E"
  by (simp add: triple_def throw_def)

lemma triple_reading: "(\<And>s. P s \<Longrightarrow> Q (f s) s) \<Longrightarrow> triple P (reading f) Q E"
  by (simp add: triple_def reading_def)

lemma triple_modifying: "(\<And>s. P s \<Longrightarrow> Q () (f s)) \<Longrightarrow> triple P (modifying f) Q E"
  by (simp add: triple_def modifying_def)

lemma triple_lifting:
  "(\<And>v s. r = Inr v \<Longrightarrow> P s \<Longrightarrow> Q v s) \<Longrightarrow> (\<And>e s. r = Inl e \<Longrightarrow> P s \<Longrightarrow> E s) \<Longrightarrow> triple P (lifting r) Q E"
  by (cases r) (simp_all add: triple_def lifting_def)

lemma triple_bnd:
  "triple P m R E \<Longrightarrow> (\<And>v. triple (R v) (f v) Q E) \<Longrightarrow> triple P (bnd m f) Q E"
  by (fastforce simp: triple_def bnd_def split: prod.splits sum.splits)

lemma triple_andthen:
  "triple P m (\<lambda>_. R) E \<Longrightarrow> triple R n Q E \<Longrightarrow> triple P (andthen m n) Q E"
  unfolding andthen_def by (rule triple_bnd)

lemma triple_weaken:
  "triple P' m Q' E' \<Longrightarrow> (\<And>s. P s \<Longrightarrow> P' s) \<Longrightarrow> (\<And>v s. Q' v s \<Longrightarrow> Q v s) \<Longrightarrow> (\<And>s. E' s \<Longrightarrow> E s) \<Longrightarrow> triple P m Q E"
  by (fastforce simp: triple_def split: prod.splits sum.splits)

section \<open>Python dictionaries\<close>

text \<open>
  A dictionary is an association list in insertion order: \<open>d[k] = v\<close> overwrites in place
  or appends (\<^const>\<open>AList.update\<close>), \<open>d.get(k)\<close> is \<^const>\<open>map_of\<close>,
  \<open>d.values()\<close> is \<open>map snd\<close>.
\<close>

type_synonym ('k, 'v) dict = "('k \<times> 'v) list"

abbreviation dict_set :: "'k \<Rightarrow> 'v \<Rightarrow> ('k, 'v) dict \<Rightarrow> ('k, 'v) dict" where
  "dict_set \<equiv> AList.update"

abbreviation dict_get :: "('k, 'v) dict \<Rightarrow> 'k \<Rightarrow> 'v option" where
  "dict_get \<equiv> map_of"

abbreviation dict_values :: "('k, 'v) dict \<Rightarrow> 'v list" where
  "dict_values \<equiv> map snd"

abbreviation dict_keys :: "('k, 'v) dict \<Rightarrow> 'k list" where
  "dict_keys \<equiv> map fst"

lemma dict_get_set [simp]: "dict_get (dict_set k v d) k' = (if k' = k then Some v else dict_get d k')"
  by (simp add: update_conv)

lemma dict_keys_set:
  "dict_keys (dict_set k v d) = (if k \<in> set (dict_keys d) then dict_keys d else dict_keys d @ [k])"
  by (induction d) auto

lemma distinct_dict_set [simp]:
  "distinct (dict_keys (dict_set k v d)) = distinct (dict_keys d)"
  by (auto simp: dict_keys_set)

lemma dict_values_set_new:
  "k \<notin> set (dict_keys d) \<Longrightarrow> dict_values (dict_set k v d) = dict_values d @ [v]"
  by (induction d) auto

lemma dict_set_at:
  "distinct (dict_keys d) \<Longrightarrow> i < length d \<Longrightarrow> fst (d ! i) = k \<Longrightarrow> dict_set k v d = d[i := (k, v)]"
proof (induction d arbitrary: i)
  case (Cons a d)
  show ?case
  proof (cases i)
    case (Suc j)
    with Cons.prems have "k \<in> fst ` set d" by auto
    moreover have "fst a \<notin> fst ` set d" using Cons.prems(1) by simp
    ultimately have "fst a \<noteq> k" by metis
    with Suc Cons show ?thesis by (cases a) auto
  qed (use Cons in \<open>cases a; auto\<close>)
qed simp

lemma dict_get_None_iff: "dict_get d k = None \<longleftrightarrow> k \<notin> set (dict_keys d)"
  by (simp add: map_of_eq_None_iff)

section \<open>Python slices and sorts\<close>

text \<open>\<open>xs[i:j]\<close>: a negative bound counts from the end, both are clamped to the list.\<close>

definition slice_bound :: "nat \<Rightarrow> int \<Rightarrow> nat" where
  "slice_bound n i = (if i < 0 then nat (max 0 (int n + i)) else min n (nat i))"

definition py_slice :: "int \<Rightarrow> int \<Rightarrow> 'a list \<Rightarrow> 'a list" where
  "py_slice i j xs = (let a = slice_bound (length xs) i; b = slice_bound (length xs) j
                      in take (b - a) (drop a xs))"

lemma py_slice_prefix: "0 \<le> n \<Longrightarrow> py_slice 0 n xs = take (nat n) xs"
  by (simp add: py_slice_def slice_bound_def take_all_iff min_def)

lemma py_slice_range: "0 \<le> i \<Longrightarrow> 0 \<le> n \<Longrightarrow> py_slice i (i + n) xs = take (nat n) (drop (nat i) xs)"
  by (auto simp: py_slice_def slice_bound_def nat_add_distrib min_def Let_def)

text \<open>\<open>rows.sort(key=k, reverse=True)\<close>: descending keys, equal ones in their original order.\<close>

definition sort_desc :: "('a \<Rightarrow> 'k :: linorder) \<Rightarrow> 'a list \<Rightarrow> 'a list" where
  "sort_desc k xs = rev (sort_key k (rev xs))"

section \<open>Python text\<close>

lemma char_of_inj: "a < 256 \<Longrightarrow> b < 256 \<Longrightarrow> char_of (a :: nat) = char_of b \<longleftrightarrow> a = b"
  by (auto simp: char_of_eq_iff take_bit_eq_mod)

definition is_space :: "char \<Rightarrow> bool" where
  \<comment> \<open>\<open>str.isspace\<close> on ASCII: space, \<open>\t \n \v \f \r\<close> and the four separators 28--31\<close>
  "is_space c = (let n = of_char c in
     n = (32::nat) \<or> (9 \<le> n \<and> n \<le> 13) \<or> (28 \<le> n \<and> n \<le> 31))"

definition lower_char :: "char \<Rightarrow> char" where
  "lower_char c = (let n = (of_char c :: nat) in if 65 \<le> n \<and> n \<le> 90 then char_of (n + 32) else c)"

definition lower :: "string \<Rightarrow> string" where
  "lower = map lower_char"

definition upper_char :: "char \<Rightarrow> char" where
  "upper_char c = (let n = (of_char c :: nat) in if 97 \<le> n \<and> n \<le> 122 then char_of (n - 32) else c)"

definition upper :: "string \<Rightarrow> string" where
  "upper = map upper_char"

definition strip_by :: "(char \<Rightarrow> bool) \<Rightarrow> string \<Rightarrow> string" where
  "strip_by p s = rev (dropWhile p (rev (dropWhile p s)))"

definition strip :: "string \<Rightarrow> string" where
  "strip = strip_by is_space"

definition starts_with :: "string \<Rightarrow> string \<Rightarrow> bool" where
  "starts_with p s = (take (length p) s = p)"

definition ends_with :: "string \<Rightarrow> string \<Rightarrow> bool" where
  "ends_with p s = (length p \<le> length s \<and> drop (length s - length p) s = p)"

definition is_digit :: "char \<Rightarrow> bool" where
  "is_digit c = (let n = (of_char c :: nat) in 48 \<le> n \<and> n \<le> 57)"

text \<open>\<open>str.split()\<close> without argument: the maximal runs of non-space characters.\<close>

fun split_ws_acc :: "string \<Rightarrow> string \<Rightarrow> string list" where
  "split_ws_acc acc [] = (if acc = [] then [] else [rev acc])"
| "split_ws_acc acc (c # cs) =
     (if is_space c then (if acc = [] then split_ws_acc [] cs else rev acc # split_ws_acc [] cs)
      else split_ws_acc (c # acc) cs)"

definition split_ws :: "string \<Rightarrow> string list" where
  "split_ws = split_ws_acc []"

text \<open>\<open>re.split\<close> on a one-character class: every separator ends a (possibly empty) piece.\<close>

fun split_on :: "(char \<Rightarrow> bool) \<Rightarrow> string \<Rightarrow> string list" where
  "split_on p [] = [[]]"
| "split_on p (c # cs) =
     (if p c then [] # split_on p cs
      else (case split_on p cs of [] \<Rightarrow> [[c]] | w # ws \<Rightarrow> (c # w) # ws))"

lemma split_on_nonempty [simp]: "split_on p s \<noteq> []"
  by (induction s) (auto split: list.splits)

fun join_with :: "string \<Rightarrow> string list \<Rightarrow> string" where
  "join_with sep [] = []"
| "join_with sep [x] = x"
| "join_with sep (x # y # ys) = x @ sep @ join_with sep (y # ys)"

text \<open>Decimal text of a number, as \<open>str(int)\<close> writes it.\<close>

fun nat_digits :: "nat \<Rightarrow> string" where
  "nat_digits n = (if n < 10 then [char_of (48 + n)] else nat_digits (n div 10) @ [char_of (48 + n mod 10)])"

declare nat_digits.simps [simp del]

definition str_int :: "int \<Rightarrow> string" where
  "str_int i = (if i < 0 then CHR ''-'' # nat_digits (nat (- i)) else nat_digits (nat i))"

text \<open>\<open>int(text)\<close> on a text of decimal digits.\<close>

definition digits_value :: "string \<Rightarrow> nat" where
  "digits_value s = foldl (\<lambda>n c. 10 * n + (of_char c - 48)) 0 s"

lemma digits_value_snoc: "digits_value (s @ [c]) = 10 * digits_value s + (of_char c - 48)"
  by (simp add: digits_value_def)

lemma digits_value_nat_digits: "digits_value (nat_digits n) = n"
proof (induction n rule: nat_digits.induct)
  case (1 n)
  show ?case
  proof (cases "n < 10")
    case True
    then show ?thesis by (simp add: nat_digits.simps [of n] digits_value_def)
  next
    case False
    with 1 have "digits_value (nat_digits (n div 10)) = n div 10" by simp
    with False show ?thesis
      by (simp add: nat_digits.simps [of n] digits_value_snoc)
  qed
qed

lemma nat_digits_inj: "nat_digits m = nat_digits n \<longleftrightarrow> m = n"
  by (metis digits_value_nat_digits)

lemma nat_digits_not_Nil [simp]: "nat_digits n \<noteq> []"
  by (subst nat_digits.simps) simp

text \<open>Digits, and the characters of the text of an integer.\<close>

definition is_int_char :: "char \<Rightarrow> bool" where
  "is_int_char c \<longleftrightarrow> is_digit c \<or> c = CHR ''-''"

lemma is_digit_char_of [simp]: "k < 10 \<Longrightarrow> is_digit (char_of (48 + k :: nat))"
  by (simp add: is_digit_def)

lemma not_digit_minus [simp]: "\<not> is_digit CHR ''-''"
  by (simp add: is_digit_def)

lemma is_digit_nat_digits: "list_all is_digit (nat_digits n)"
proof (induction n rule: nat_digits.induct)
  case (1 n)
  then show ?case by (subst nat_digits.simps) simp
qed

lemma str_int_not_Nil [simp]: "str_int i \<noteq> []"
  by (simp add: str_int_def)

lemma is_int_char_str_int: "list_all is_int_char (str_int i)"
  using is_digit_nat_digits by (auto simp: str_int_def is_int_char_def list_all_iff)

lemma is_digit_hd_nat_digits: "is_digit (hd (nat_digits n))"
  using is_digit_nat_digits [of n] by (cases "nat_digits n") auto

lemma str_int_inj: "str_int i = str_int j \<longleftrightarrow> i = j"
proof
  assume eq: "str_int i = str_int j"
  have neg: "hd (str_int k) = CHR ''-'' \<longleftrightarrow> k < 0" for k
    using is_digit_hd_nat_digits [of "nat k"] not_digit_minus by (metis str_int_def list.sel(1))
  from neg [of i] neg [of j] eq have "i < 0 \<longleftrightarrow> j < 0" by simp
  with eq show "i = j" by (auto simp: str_int_def nat_digits_inj split: if_splits)
qed simp

section \<open>Sizes\<close>

definition utf8_len :: "string \<Rightarrow> nat" where
  "utf8_len s = sum_list (map (\<lambda>c. if (of_char c :: nat) < 128 then 1 else 2) s)"

lemma utf8_len_simps [simp]:
  "utf8_len [] = 0"
  "utf8_len (c # s) = (if (of_char c :: nat) < 128 then 1 else 2) + utf8_len s"
  "utf8_len (s @ t) = utf8_len s + utf8_len t"
  by (auto simp: utf8_len_def)

lemma utf8_len_ge_length: "length s \<le> utf8_len s"
  by (induction s) auto

section \<open>Lists\<close>

text \<open>The first element that satisfies a predicate, from the end: \<open>for x in reversed(xs)\<close>.\<close>

definition find_last :: "('a \<Rightarrow> bool) \<Rightarrow> 'a list \<Rightarrow> 'a option" where
  "find_last p xs = List.find p (rev xs)"

lemma find_last_snoc [simp]: "find_last p (xs @ [x]) = (if p x then Some x else find_last p xs)"
  by (simp add: find_last_def)

lemma find_last_Nil [simp]: "find_last p [] = None"
  by (simp add: find_last_def)

lemma find_last_Some: "find_last p xs = Some x \<Longrightarrow> p x \<and> x \<in> set xs"
  unfolding find_last_def find_Some_iff by (metis nth_mem set_rev)

lemma sum_list_update_nat:
  fixes f :: "'a \<Rightarrow> nat"
  assumes "i < length xs"
  shows "sum_list (map f (xs[i := y])) + f (xs ! i) = sum_list (map f xs) + f y"
  using assms
proof (induction xs arbitrary: i)
  case (Cons x xs)
  then show ?case by (cases i) auto
qed simp

lemma filter_eq_single:
  assumes "distinct xs" and "x \<in> set xs" and "\<And>y. y \<in> set xs \<Longrightarrow> p y \<longleftrightarrow> y = x"
  shows "filter p xs = [x]"
  using assms
proof (induction xs)
  case (Cons a xs)
  show ?case
  proof (cases "a = x")
    case True
    with Cons.prems have "\<forall>y \<in> set xs. \<not> p y" by auto
    then have "filter p xs = []" by simp
    with True Cons.prems show ?thesis by simp
  next
    case False
    with Cons show ?thesis by auto
  qed
qed simp

end
