(* ===== verification/States.thy ===== *)
theory States
  imports Prelude
begin

text \<open>
  \<open>domain/states.py\<close> and \<open>domain/transitions.py\<close>: every enumeration of the domain
  and every transition table. The tables are functions from a state to its set of targets;
  \<open>can_transition\<close> and \<open>is_terminal\<close> are the code's only readers of a table.
  The locales \<open>transition_table\<close> and \<open>ranked_table\<close> are what a client of a table may
  rely on; each table is interpreted.
\<close>

section \<open>Enumerations\<close>

datatype session_state =
  Session_READY | Session_RUNNING | Session_INTERRUPTING | Session_COMPLETED
  | Session_FAILED | Session_PAUSED

datatype conversation_state =
  Conv_NEW | Conv_ACTIVE | Conv_WAITING_MODEL_RESPONSE | Conv_RUNNING_PLAN | Conv_WAITING_USER
  | Conv_ROTATING | Conv_INTERRUPTED | Conv_COMPLETED | Conv_FAILED | Conv_CLOSED

datatype cycle_type = DISCOVERY | EXECUTION | CLARIFICATION | RESUME

datatype cycle_state = Cycle_RUNNING | Cycle_COMPLETED | Cycle_FAILED | Cycle_INTERRUPTED

datatype plan_type = Type_DISCOVERY_PLAN | Type_EXECUTION_PLAN | Type_PRIORITY_CLARIFICATION

datatype execution_policy = SEQUENTIAL | PARALLEL

datatype plan_state =
  Plan_PENDING | Plan_RUNNING | Plan_COMPLETED | Plan_STOPPED_ON_FAILURE
  | Plan_SHORT_CIRCUITED_ON_SUCCESS | Plan_INTERRUPTED | Plan_FAILED

datatype task_type = CMD | CHUNK_REQUEST

datatype task_state =
  Task_PENDING | Task_WAITING_DEPENDENCY | Task_RUNNING | Task_COMPLETED | Task_FAILED
  | Task_TIMED_OUT | Task_SKIPPED | Task_CANCELLED | Task_INTERRUPTED

datatype output_stream = STDOUT | STDERR

datatype context_window_state = HEALTHY | WARNING | SATURATED

datatype circuit_state = Circuit_CLOSED | Circuit_OPEN | Circuit_HALF_OPEN

datatype message_type =
  USER_REQUEST | DISCOVERY_PLAN | EXECUTION_PLAN | PRIORITY_CLARIFICATION | EXECUTION_RESULT
  | FINAL_ANSWER | USER_RESPONSE | CONTEXT_RESUME_REQUEST | CONTEXT_RESUME_ACK
  | PROTOCOL_CORRECTION_REQUEST | Msg_CHUNK_REQUEST | Msg_SYSTEM_ERROR

datatype message_direction = OUTBOUND | INBOUND

section \<open>Spellings\<close>

fun session_state_value :: "session_state \<Rightarrow> string" where
  "session_state_value Session_READY = ''READY''"
| "session_state_value Session_RUNNING = ''RUNNING''"
| "session_state_value Session_INTERRUPTING = ''INTERRUPTING''"
| "session_state_value Session_COMPLETED = ''COMPLETED''"
| "session_state_value Session_FAILED = ''FAILED''"
| "session_state_value Session_PAUSED = ''PAUSED''"

fun conversation_state_value :: "conversation_state \<Rightarrow> string" where
  "conversation_state_value Conv_NEW = ''NEW''"
| "conversation_state_value Conv_ACTIVE = ''ACTIVE''"
| "conversation_state_value Conv_WAITING_MODEL_RESPONSE = ''WAITING_MODEL_RESPONSE''"
| "conversation_state_value Conv_RUNNING_PLAN = ''RUNNING_PLAN''"
| "conversation_state_value Conv_WAITING_USER = ''WAITING_USER''"
| "conversation_state_value Conv_ROTATING = ''ROTATING''"
| "conversation_state_value Conv_INTERRUPTED = ''INTERRUPTED''"
| "conversation_state_value Conv_COMPLETED = ''COMPLETED''"
| "conversation_state_value Conv_FAILED = ''FAILED''"
| "conversation_state_value Conv_CLOSED = ''CLOSED''"

fun cycle_state_value :: "cycle_state \<Rightarrow> string" where
  "cycle_state_value Cycle_RUNNING = ''RUNNING''"
| "cycle_state_value Cycle_COMPLETED = ''COMPLETED''"
| "cycle_state_value Cycle_FAILED = ''FAILED''"
| "cycle_state_value Cycle_INTERRUPTED = ''INTERRUPTED''"

fun plan_state_value :: "plan_state \<Rightarrow> string" where
  "plan_state_value Plan_PENDING = ''PENDING''"
| "plan_state_value Plan_RUNNING = ''RUNNING''"
| "plan_state_value Plan_COMPLETED = ''COMPLETED''"
| "plan_state_value Plan_STOPPED_ON_FAILURE = ''STOPPED_ON_FAILURE''"
| "plan_state_value Plan_SHORT_CIRCUITED_ON_SUCCESS = ''SHORT_CIRCUITED_ON_SUCCESS''"
| "plan_state_value Plan_INTERRUPTED = ''INTERRUPTED''"
| "plan_state_value Plan_FAILED = ''FAILED''"

definition plan_protocol_value :: "plan_state \<Rightarrow> string" where
  "plan_protocol_value s = lower (plan_state_value s)"

fun task_state_value :: "task_state \<Rightarrow> string" where
  "task_state_value Task_PENDING = ''PENDING''"
| "task_state_value Task_WAITING_DEPENDENCY = ''WAITING_DEPENDENCY''"
| "task_state_value Task_RUNNING = ''RUNNING''"
| "task_state_value Task_COMPLETED = ''COMPLETED''"
| "task_state_value Task_FAILED = ''FAILED''"
| "task_state_value Task_TIMED_OUT = ''TIMED_OUT''"
| "task_state_value Task_SKIPPED = ''SKIPPED''"
| "task_state_value Task_CANCELLED = ''CANCELLED''"
| "task_state_value Task_INTERRUPTED = ''INTERRUPTED''"

definition task_protocol_value :: "task_state \<Rightarrow> string" where
  "task_protocol_value s = lower (task_state_value s)"

fun output_stream_value :: "output_stream \<Rightarrow> string" where
  "output_stream_value STDOUT = ''stdout''"
| "output_stream_value STDERR = ''stderr''"

fun window_state_value :: "context_window_state \<Rightarrow> string" where
  "window_state_value HEALTHY = ''HEALTHY''"
| "window_state_value WARNING = ''WARNING''"
| "window_state_value SATURATED = ''SATURATED''"

fun circuit_state_value :: "circuit_state \<Rightarrow> string" where
  "circuit_state_value Circuit_CLOSED = ''CLOSED''"
| "circuit_state_value Circuit_OPEN = ''OPEN''"
| "circuit_state_value Circuit_HALF_OPEN = ''HALF_OPEN''"

fun plan_type_value :: "plan_type \<Rightarrow> string" where
  "plan_type_value Type_DISCOVERY_PLAN = ''discovery_plan''"
| "plan_type_value Type_EXECUTION_PLAN = ''execution_plan''"
| "plan_type_value Type_PRIORITY_CLARIFICATION = ''priority_clarification''"

fun cycle_type_value :: "cycle_type \<Rightarrow> string" where
  "cycle_type_value DISCOVERY = ''discovery''"
| "cycle_type_value EXECUTION = ''execution''"
| "cycle_type_value CLARIFICATION = ''clarification''"
| "cycle_type_value RESUME = ''resume''"

fun execution_policy_value :: "execution_policy \<Rightarrow> string" where
  "execution_policy_value SEQUENTIAL = ''sequential''"
| "execution_policy_value PARALLEL = ''parallel''"

fun message_type_value :: "message_type \<Rightarrow> string" where
  "message_type_value USER_REQUEST = ''user_request''"
| "message_type_value DISCOVERY_PLAN = ''discovery_plan''"
| "message_type_value EXECUTION_PLAN = ''execution_plan''"
| "message_type_value PRIORITY_CLARIFICATION = ''priority_clarification''"
| "message_type_value EXECUTION_RESULT = ''execution_result''"
| "message_type_value FINAL_ANSWER = ''final_answer''"
| "message_type_value USER_RESPONSE = ''user_response''"
| "message_type_value CONTEXT_RESUME_REQUEST = ''context_resume_request''"
| "message_type_value CONTEXT_RESUME_ACK = ''context_resume_ack''"
| "message_type_value PROTOCOL_CORRECTION_REQUEST = ''protocol_correction_request''"
| "message_type_value Msg_CHUNK_REQUEST = ''chunk_request''"
| "message_type_value Msg_SYSTEM_ERROR = ''system_error''"

section \<open>Sets of message types and the two mappings\<close>

definition PLAN_MESSAGE_TYPES :: "message_type set" where
  "PLAN_MESSAGE_TYPES = {DISCOVERY_PLAN, EXECUTION_PLAN, PRIORITY_CLARIFICATION}"

definition SUBSTANTIVE_OUTBOUND_MESSAGE_TYPES :: "message_type set" where
  "SUBSTANTIVE_OUTBOUND_MESSAGE_TYPES = {USER_REQUEST, EXECUTION_RESULT, CONTEXT_RESUME_REQUEST}"

definition OUTBOUND_MESSAGE_TYPES :: "message_type set" where
  "OUTBOUND_MESSAGE_TYPES = SUBSTANTIVE_OUTBOUND_MESSAGE_TYPES \<union> {PROTOCOL_CORRECTION_REQUEST}"

definition INBOUND_MESSAGE_TYPES :: "message_type set" where
  "INBOUND_MESSAGE_TYPES = PLAN_MESSAGE_TYPES \<union> {FINAL_ANSWER, USER_RESPONSE, CONTEXT_RESUME_ACK}"

definition CONCLUDING_MESSAGE_TYPES :: "message_type set" where
  "CONCLUDING_MESSAGE_TYPES = {FINAL_ANSWER, USER_RESPONSE}"

lemmas message_type_sets = PLAN_MESSAGE_TYPES_def SUBSTANTIVE_OUTBOUND_MESSAGE_TYPES_def
  OUTBOUND_MESSAGE_TYPES_def INBOUND_MESSAGE_TYPES_def CONCLUDING_MESSAGE_TYPES_def

text \<open>\<open>None\<close> is the \<open>KeyError\<close> of \<open>mapping[message_type]\<close>.\<close>

fun plan_type_for_message :: "message_type \<Rightarrow> plan_type option" where
  "plan_type_for_message DISCOVERY_PLAN = Some Type_DISCOVERY_PLAN"
| "plan_type_for_message EXECUTION_PLAN = Some Type_EXECUTION_PLAN"
| "plan_type_for_message PRIORITY_CLARIFICATION = Some Type_PRIORITY_CLARIFICATION"
| "plan_type_for_message _ = None"

fun cycle_type_for_plan :: "plan_type \<Rightarrow> cycle_type" where
  "cycle_type_for_plan Type_DISCOVERY_PLAN = DISCOVERY"
| "cycle_type_for_plan Type_EXECUTION_PLAN = EXECUTION"
| "cycle_type_for_plan Type_PRIORITY_CLARIFICATION = CLARIFICATION"

lemma plan_type_for_message_iff:
  "(\<exists>p. plan_type_for_message m = Some p) \<longleftrightarrow> m \<in> PLAN_MESSAGE_TYPES"
  by (cases m) (simp_all add: message_type_sets)

lemma inbound_outbound_disjoint: "INBOUND_MESSAGE_TYPES \<inter> OUTBOUND_MESSAGE_TYPES = {}"
  by (auto simp: message_type_sets)

section \<open>Transition tables\<close>

fun CONVERSATION_TRANSITIONS :: "conversation_state \<Rightarrow> conversation_state set" where
  "CONVERSATION_TRANSITIONS Conv_NEW = {Conv_ACTIVE, Conv_FAILED}"
| "CONVERSATION_TRANSITIONS Conv_ACTIVE =
     {Conv_WAITING_MODEL_RESPONSE, Conv_INTERRUPTED, Conv_FAILED}"
| "CONVERSATION_TRANSITIONS Conv_WAITING_MODEL_RESPONSE =
     {Conv_RUNNING_PLAN, Conv_COMPLETED, Conv_ROTATING, Conv_INTERRUPTED, Conv_FAILED}"
| "CONVERSATION_TRANSITIONS Conv_RUNNING_PLAN =
     {Conv_WAITING_MODEL_RESPONSE, Conv_ROTATING, Conv_INTERRUPTED, Conv_FAILED}"
| "CONVERSATION_TRANSITIONS Conv_ROTATING = {Conv_CLOSED, Conv_INTERRUPTED, Conv_FAILED}"
| "CONVERSATION_TRANSITIONS Conv_WAITING_USER =
     {Conv_WAITING_MODEL_RESPONSE, Conv_ROTATING, Conv_FAILED}"
| "CONVERSATION_TRANSITIONS Conv_COMPLETED = {Conv_WAITING_USER, Conv_CLOSED, Conv_FAILED}"
| "CONVERSATION_TRANSITIONS Conv_INTERRUPTED = {}"
| "CONVERSATION_TRANSITIONS Conv_FAILED = {}"
| "CONVERSATION_TRANSITIONS Conv_CLOSED = {}"

definition ACTIVE_CONVERSATION_STATES :: "conversation_state set" where
  "ACTIVE_CONVERSATION_STATES =
     {Conv_ACTIVE, Conv_WAITING_MODEL_RESPONSE, Conv_RUNNING_PLAN, Conv_ROTATING}"

definition TERMINAL_CONVERSATION_STATES :: "conversation_state set" where
  "TERMINAL_CONVERSATION_STATES = {Conv_INTERRUPTED, Conv_FAILED, Conv_CLOSED}"

fun SESSION_TRANSITIONS :: "session_state \<Rightarrow> session_state set" where
  "SESSION_TRANSITIONS Session_READY = {Session_RUNNING}"
| "SESSION_TRANSITIONS Session_RUNNING =
     {Session_COMPLETED, Session_PAUSED, Session_INTERRUPTING, Session_FAILED}"
| "SESSION_TRANSITIONS Session_PAUSED = {Session_RUNNING, Session_READY, Session_FAILED}"
| "SESSION_TRANSITIONS Session_INTERRUPTING = {Session_READY, Session_FAILED}"
| "SESSION_TRANSITIONS Session_COMPLETED = {Session_RUNNING}"
| "SESSION_TRANSITIONS Session_FAILED = {}"

fun PLAN_TRANSITIONS :: "plan_state \<Rightarrow> plan_state set" where
  "PLAN_TRANSITIONS Plan_PENDING = {Plan_RUNNING, Plan_FAILED, Plan_INTERRUPTED}"
| "PLAN_TRANSITIONS Plan_RUNNING =
     {Plan_COMPLETED, Plan_STOPPED_ON_FAILURE, Plan_SHORT_CIRCUITED_ON_SUCCESS,
      Plan_INTERRUPTED, Plan_FAILED}"
| "PLAN_TRANSITIONS Plan_COMPLETED = {}"
| "PLAN_TRANSITIONS Plan_STOPPED_ON_FAILURE = {}"
| "PLAN_TRANSITIONS Plan_SHORT_CIRCUITED_ON_SUCCESS = {}"
| "PLAN_TRANSITIONS Plan_INTERRUPTED = {}"
| "PLAN_TRANSITIONS Plan_FAILED = {}"

fun TASK_TRANSITIONS :: "task_state \<Rightarrow> task_state set" where
  "TASK_TRANSITIONS Task_PENDING =
     {Task_WAITING_DEPENDENCY, Task_RUNNING, Task_SKIPPED, Task_INTERRUPTED}"
| "TASK_TRANSITIONS Task_WAITING_DEPENDENCY = {Task_PENDING, Task_SKIPPED, Task_INTERRUPTED}"
| "TASK_TRANSITIONS Task_RUNNING =
     {Task_COMPLETED, Task_FAILED, Task_TIMED_OUT, Task_CANCELLED, Task_INTERRUPTED}"
| "TASK_TRANSITIONS Task_COMPLETED = {}"
| "TASK_TRANSITIONS Task_FAILED = {}"
| "TASK_TRANSITIONS Task_TIMED_OUT = {}"
| "TASK_TRANSITIONS Task_SKIPPED = {}"
| "TASK_TRANSITIONS Task_CANCELLED = {}"
| "TASK_TRANSITIONS Task_INTERRUPTED = {}"

definition FAILED_TASK_STATES :: "task_state set" where
  "FAILED_TASK_STATES = {Task_FAILED, Task_TIMED_OUT}"

fun CYCLE_TRANSITIONS :: "cycle_state \<Rightarrow> cycle_state set" where
  "CYCLE_TRANSITIONS Cycle_RUNNING = {Cycle_COMPLETED, Cycle_FAILED, Cycle_INTERRUPTED}"
| "CYCLE_TRANSITIONS Cycle_COMPLETED = {}"
| "CYCLE_TRANSITIONS Cycle_FAILED = {}"
| "CYCLE_TRANSITIONS Cycle_INTERRUPTED = {}"

fun CONTEXT_WINDOW_TRANSITIONS :: "context_window_state \<Rightarrow> context_window_state set" where
  "CONTEXT_WINDOW_TRANSITIONS HEALTHY = {WARNING, SATURATED}"
| "CONTEXT_WINDOW_TRANSITIONS WARNING = {SATURATED}"
| "CONTEXT_WINDOW_TRANSITIONS SATURATED = {HEALTHY}"

fun CIRCUIT_TRANSITIONS :: "circuit_state \<Rightarrow> circuit_state set" where
  "CIRCUIT_TRANSITIONS Circuit_CLOSED = {Circuit_OPEN}"
| "CIRCUIT_TRANSITIONS Circuit_OPEN = {Circuit_HALF_OPEN}"
| "CIRCUIT_TRANSITIONS Circuit_HALF_OPEN = {Circuit_CLOSED, Circuit_OPEN}"

definition can_transition :: "('s \<Rightarrow> 's set) \<Rightarrow> 's \<Rightarrow> 's \<Rightarrow> bool" where
  "can_transition table current target \<longleftrightarrow> target \<in> table current"

definition is_terminal :: "('s \<Rightarrow> 's set) \<Rightarrow> 's \<Rightarrow> bool" where
  "is_terminal table state \<longleftrightarrow> table state = {}"

text \<open>The two sets the module computes from their tables.\<close>

definition TERMINAL_PLAN_STATES :: "plan_state set" where
  "TERMINAL_PLAN_STATES = {s. PLAN_TRANSITIONS s = {}}"

definition TERMINAL_TASK_STATES :: "task_state set" where
  "TERMINAL_TASK_STATES = {s. TASK_TRANSITIONS s = {}}"

lemma terminal_task_iff [table_simps]:
  "s \<in> TERMINAL_TASK_STATES \<longleftrightarrow>
     s \<notin> {Task_PENDING, Task_WAITING_DEPENDENCY, Task_RUNNING}"
  by (cases s) (simp_all add: TERMINAL_TASK_STATES_def)

lemma terminal_plan_iff [table_simps]:
  "s \<in> TERMINAL_PLAN_STATES \<longleftrightarrow> s \<notin> {Plan_PENDING, Plan_RUNNING}"
  by (cases s) (simp_all add: TERMINAL_PLAN_STATES_def)

lemmas [table_simps] = can_transition_def is_terminal_def ACTIVE_CONVERSATION_STATES_def
  TERMINAL_CONVERSATION_STATES_def FAILED_TASK_STATES_def

section \<open>What a client of a table relies on\<close>

locale transition_table =
  fixes table :: "'s \<Rightarrow> 's set"
    and terminals :: "'s set"
  assumes terminals_exact: "s \<in> terminals \<longleftrightarrow> is_terminal table s"
begin

lemma terminal_stuck: "s \<in> terminals \<Longrightarrow> \<not> can_transition table s t"
  by (simp add: terminals_exact is_terminal_def can_transition_def)

lemma terminal_absorbing:
  assumes "(can_transition table)\<^sup>*\<^sup>* s t" and "s \<in> terminals"
  shows "t = s"
  using assms by (induction rule: converse_rtranclp_induct) (auto dest: terminal_stuck)

lemma nonterminal_progress: "s \<notin> terminals \<Longrightarrow> \<exists>t. can_transition table s t"
  by (auto simp: terminals_exact is_terminal_def can_transition_def)

end

text \<open>
  A table whose every step lowers a rank: no state is ever entered twice and a run is no
  longer than the rank of its first state.
\<close>

locale ranked_table = transition_table +
  fixes rank :: "'s \<Rightarrow> nat"
  assumes rank_decreases: "can_transition table s t \<Longrightarrow> rank t < rank s"
begin

lemma rank_path: "(can_transition table)\<^sup>+\<^sup>+ s t \<Longrightarrow> rank t < rank s"
  by (induction rule: tranclp_induct) (auto dest: rank_decreases)

lemma never_revisits: "(can_transition table)\<^sup>+\<^sup>+ s t \<Longrightarrow> t \<noteq> s"
  using rank_path by fastforce

lemma path_length_bounded: "(can_transition table ^^ n) s t \<Longrightarrow> n + rank t \<le> rank s"
proof (induction n arbitrary: t)
  case (Suc n)
  then obtain u where "(can_transition table ^^ n) s u" and "can_transition table u t" by auto
  with Suc.IH rank_decreases show ?case by fastforce
qed simp

end

fun plan_rank :: "plan_state \<Rightarrow> nat" where
  "plan_rank Plan_PENDING = 2"
| "plan_rank Plan_RUNNING = 1"
| "plan_rank _ = 0"

fun cycle_rank :: "cycle_state \<Rightarrow> nat" where
  "cycle_rank Cycle_RUNNING = 1"
| "cycle_rank _ = 0"

interpretation conversation_table:
  transition_table CONVERSATION_TRANSITIONS TERMINAL_CONVERSATION_STATES
  by unfold_locales (rename_tac s, case_tac s, simp_all add: table_simps)

interpretation session_table: transition_table SESSION_TRANSITIONS "{Session_FAILED}"
  by unfold_locales (rename_tac s, case_tac s, simp_all add: table_simps)

interpretation task_table: transition_table TASK_TRANSITIONS TERMINAL_TASK_STATES
  by unfold_locales (rename_tac s, case_tac s, simp_all add: table_simps)

interpretation plan_table: ranked_table PLAN_TRANSITIONS TERMINAL_PLAN_STATES plan_rank
proof unfold_locales
  show "s \<in> TERMINAL_PLAN_STATES \<longleftrightarrow> is_terminal PLAN_TRANSITIONS s" for s
    by (cases s) (simp_all add: table_simps)
  show "can_transition PLAN_TRANSITIONS s t \<Longrightarrow> plan_rank t < plan_rank s" for s t
    by (cases s) (auto simp: table_simps)
qed

interpretation cycle_table:
  ranked_table CYCLE_TRANSITIONS "{Cycle_COMPLETED, Cycle_FAILED, Cycle_INTERRUPTED}" cycle_rank
proof unfold_locales
  show "s \<in> {Cycle_COMPLETED, Cycle_FAILED, Cycle_INTERRUPTED} \<longleftrightarrow> is_terminal CYCLE_TRANSITIONS s" for s
    by (cases s) (simp_all add: table_simps)
  show "can_transition CYCLE_TRANSITIONS s t \<Longrightarrow> cycle_rank t < cycle_rank s" for s t
    by (cases s) (auto simp: table_simps)
qed

interpretation window_table: transition_table CONTEXT_WINDOW_TRANSITIONS "{}"
  by unfold_locales (rename_tac s, case_tac s, simp_all add: table_simps)

interpretation circuit_table: transition_table CIRCUIT_TRANSITIONS "{}"
  by unfold_locales (rename_tac s, case_tac s, simp_all add: table_simps)

section \<open>The context window states are ordered by severity\<close>

text \<open>\<open>_SEVERITY\<close> of \<open>context/window.py\<close>: HEALTHY, then WARNING, then SATURATED.\<close>

fun window_severity :: "context_window_state \<Rightarrow> nat" where
  "window_severity HEALTHY = 0"
| "window_severity WARNING = 1"
| "window_severity SATURATED = 2"

lemma window_severity_inj: "window_severity a = window_severity b \<Longrightarrow> a = b"
  by (cases a; cases b) simp_all

instantiation context_window_state :: linorder
begin

definition less_eq_context_window_state :: "context_window_state \<Rightarrow> context_window_state \<Rightarrow> bool" where
  "less_eq_context_window_state a b \<longleftrightarrow> window_severity a \<le> window_severity b"

definition less_context_window_state :: "context_window_state \<Rightarrow> context_window_state \<Rightarrow> bool" where
  "less_context_window_state a b \<longleftrightarrow> window_severity a < window_severity b"

instance
  by standard
    (auto simp: less_eq_context_window_state_def less_context_window_state_def
      dest: window_severity_inj)

end

lemma window_le_SATURATED [simp]: "(s :: context_window_state) \<le> SATURATED"
  by (cases s) (simp_all add: less_eq_context_window_state_def)

lemma HEALTHY_le_window [simp]: "HEALTHY \<le> (s :: context_window_state)"
  by (simp add: less_eq_context_window_state_def)

lemma WARNING_le_SATURATED [simp]: "\<not> SATURATED \<le> WARNING" "\<not> WARNING \<le> HEALTHY" "\<not> SATURATED \<le> HEALTHY"
  by (simp_all add: less_eq_context_window_state_def)

end
