(* ===== verification/Canonical.thy ===== *)
theory Canonical
  imports States "HOL-Library.Multiset"
begin

text \<open>
  \<open>domain/canonical.py\<close>: JSON values, their canonical text (sorted keys, compact
  separators, UTF-8 kept), the sizes measured on it and the hash chain. \<open>hashlib.sha256\<close>
  is a parameter \<open>sha\<close>; everything else of the module is written out. The main result is
  that the canonical text determines the value up to the order of its object keys
  (\<open>canonical_json_eq_iff\<close>), which is what the audit chain hashes.
\<close>

section \<open>JSON values\<close>

text \<open>
  A float is kept as the text \<open>float.__repr__\<close> gives it; an object is an association
  list in the dictionary's order, its keys distinct (\<open>wf_json\<close>).
\<close>

datatype json =
  JNull | JBool bool | JInt int | JFloat string | JStr string
  | JArr "json list" | JObj "(string \<times> json) list"

definition is_float_char :: "char \<Rightarrow> bool" where
  "is_float_char c \<longleftrightarrow> is_int_char c \<or> c \<in> {CHR ''+'', CHR ''.'', CHR ''e'', CHR ''f'', CHR ''i'', CHR ''n'',
     CHR ''t'', CHR ''y'', CHR ''a'', CHR ''N'', CHR ''I''}"

definition is_float_text :: "string \<Rightarrow> bool" where
  \<comment> \<open>what \<open>float.__repr__\<close> or \<open>NaN\<close>, \<open>Infinity\<close> can be: no JSON structure in it, and never
      the text of an integer or of a literal\<close>
  "is_float_text s \<longleftrightarrow> s \<noteq> [] \<and> list_all is_float_char s
     \<and> (is_int_char (hd s) \<or> hd s = CHR ''N'' \<or> hd s = CHR ''I'') \<and> \<not> list_all is_int_char s"

fun wf_json :: "json \<Rightarrow> bool" where
  "wf_json (JFloat r) = is_float_text r"
| "wf_json (JArr xs) = list_all wf_json xs"
| "wf_json (JObj kvs) = (distinct (map fst kvs) \<and> list_all (\<lambda>kv. wf_json (snd kv)) kvs)"
| "wf_json _ = True"

section \<open>The canonical text\<close>

definition hex_digit :: "nat \<Rightarrow> char" where
  "hex_digit n = (if n < 10 then char_of (48 + n) else char_of (87 + n))"

text \<open>The escapes of \<open>json.dumps(ensure_ascii=False)\<close>.\<close>

definition json_escape :: "char \<Rightarrow> string" where
  "json_escape c =
     (if c = CHR 0x22 then [CHR 0x5C, CHR 0x22]
      else if c = CHR 0x5C then [CHR 0x5C, CHR 0x5C]
      else if c = CHR 0x0A then [CHR 0x5C, CHR ''n'']
      else if c = CHR 0x0D then [CHR 0x5C, CHR ''r'']
      else if c = CHR 0x09 then [CHR 0x5C, CHR ''t'']
      else if c = CHR 0x0C then [CHR 0x5C, CHR ''f'']
      else if c = CHR 0x08 then [CHR 0x5C, CHR ''b'']
      else if of_char c < (32::nat)
        then [CHR 0x5C, CHR ''u'', CHR ''0'', CHR ''0'',
              hex_digit (of_char c div 16), hex_digit (of_char c mod 16)]
      else [c])"

definition json_quote :: "string \<Rightarrow> string" where
  "json_quote s = CHR 0x22 # concat (map json_escape s) @ [CHR 0x22]"

fun canonical_json :: "json \<Rightarrow> string" where
  "canonical_json JNull = ''null''"
| "canonical_json (JBool b) = (if b then ''true'' else ''false'')"
| "canonical_json (JInt i) = str_int i"
| "canonical_json (JFloat r) = r"
| "canonical_json (JStr s) = json_quote s"
| "canonical_json (JArr xs) = ''['' @ join_with '','' (map canonical_json xs) @ '']''"
| "canonical_json (JObj kvs) =
     ''{'' @ join_with '',''
        (map (\<lambda>(k, v). json_quote k @ '':'' @ v)
           (sort_key fst (map (\<lambda>kv. (fst kv, canonical_json (snd kv))) kvs))) @ ''}''"

definition size_bytes :: "json \<Rightarrow> nat" where
  "size_bytes j = utf8_len (canonical_json j)"

definition chain_hash :: "(string \<Rightarrow> string) \<Rightarrow> string \<Rightarrow> json \<Rightarrow> string" where
  "chain_hash sha previous_event_hash event_without_hash =
     sha (previous_event_hash @ canonical_json event_without_hash)"

definition GENESIS_HASH :: string where
  "GENESIS_HASH = replicate 64 (CHR ''0'')"

section \<open>\<open>datetime.isoformat\<close>\<close>

text \<open>
  A timezone-aware UTC \<open>datetime\<close> is its number of microseconds since the epoch; its ISO
  text has microseconds only when they are not zero.
\<close>

definition civil_from_days :: "int \<Rightarrow> int \<times> int \<times> int" where
  "civil_from_days z0 =
     (let z = z0 + 719468; era = z div 146097; doe = z mod 146097;
          yoe = (doe - doe div 1460 + doe div 36524 - doe div 146096) div 365;
          y = yoe + era * 400; doy = doe - (365 * yoe + yoe div 4 - yoe div 100);
          mp = (5 * doy + 2) div 153; d = doy - (153 * mp + 2) div 5 + 1;
          m = (if mp < 10 then mp + 3 else mp - 9)
      in (if m \<le> 2 then y + 1 else y, m, d))"

definition pad_left :: "nat \<Rightarrow> int \<Rightarrow> string" where
  "pad_left w i = (let s = str_int i in replicate (w - length s) (CHR ''0'') @ s)"

definition isoformat :: "int \<Rightarrow> string" where
  "isoformat us =
     (let days = us div 86400000000; rest = us mod 86400000000;
          (y, m, d) = civil_from_days days;
          h = rest div 3600000000; mi = rest mod 3600000000 div 60000000;
          s = rest mod 60000000 div 1000000; micro = rest mod 1000000
      in pad_left 4 y @ ''-'' @ pad_left 2 m @ ''-'' @ pad_left 2 d @ ''T''
         @ pad_left 2 h @ '':'' @ pad_left 2 mi @ '':'' @ pad_left 2 s
         @ (if micro = 0 then [] else ''.'' @ pad_left 6 micro) @ ''+00:00'')"

section \<open>The value a canonical text stands for\<close>

text \<open>\<open>norm\<close> sorts the keys of every object: two Python values are equal as JSON data exactly
  when their normal forms are.\<close>

fun norm :: "json \<Rightarrow> json" where
  "norm (JArr xs) = JArr (map norm xs)"
| "norm (JObj kvs) = JObj (sort_key fst (map (\<lambda>kv. (fst kv, norm (snd kv))) kvs))"
| "norm j = j"

lemma sort_key_map_snd:
  "sort_key fst (map (\<lambda>kv. (fst kv, f (snd kv))) kvs) = map (\<lambda>kv. (fst kv, f (snd kv))) (sort_key fst kvs)"
proof (rule properties_for_sort_key)
  show "mset (map (\<lambda>kv. (fst kv, f (snd kv))) (sort_key fst kvs)) = mset (map (\<lambda>kv. (fst kv, f (snd kv))) kvs)"
    by simp
  show "sorted (map fst (map (\<lambda>kv. (fst kv, f (snd kv))) (sort_key fst kvs)))"
    by (simp add: comp_def)
  fix k assume "k \<in> set (map (\<lambda>kv. (fst kv, f (snd kv))) (sort_key fst kvs))"
  show "filter (\<lambda>x. fst k = fst x) (map (\<lambda>kv. (fst kv, f (snd kv))) (sort_key fst kvs))
      = filter (\<lambda>x. fst k = fst x) (map (\<lambda>kv. (fst kv, f (snd kv))) kvs)"
  proof -
    have "filter (\<lambda>x. fst x = fst k) (sort_key fst kvs) = filter (\<lambda>x. fst x = fst k) kvs"
      by (rule sort_key_stable)
    then show ?thesis by (simp add: filter_map comp_def eq_commute [of "fst k"])
  qed
qed

lemma canonical_json_obj:
  "canonical_json (JObj kvs) =
     ''{'' @ join_with '','' (map (\<lambda>kv. json_quote (fst kv) @ '':'' @ canonical_json (snd kv)) (sort_key fst kvs)) @ ''}''"
  by (simp add: sort_key_map_snd comp_def case_prod_beta)

declare canonical_json.simps(7) [simp del]

text \<open>The order in which a dictionary was filled never shows in its canonical text.\<close>

lemma canonical_json_key_order:
  assumes "mset kvs = mset kvs'" and "distinct (map fst kvs)"
  shows "canonical_json (JObj kvs) = canonical_json (JObj kvs')"
proof -
  have "sort_key fst kvs = sort_key fst kvs'"
  proof (rule sort_key_inj_key_eq)
    show "mset kvs = mset (sort_key fst kvs')" using assms(1) by simp
    show "inj_on fst (set kvs)" using assms(2) by (simp add: distinct_map)
    show "sorted (map fst (sort_key fst kvs'))" by simp
  qed
  then show ?thesis by (simp add: canonical_json_obj)
qed

section \<open>Unique readability\<close>

lemma hex_digit_inj: "a < 16 \<Longrightarrow> b < 16 \<Longrightarrow> hex_digit a = hex_digit b \<longleftrightarrow> a = b"
  by (auto simp: hex_digit_def char_of_inj split: if_splits)

lemma json_escape_cancel:
  assumes "json_escape c @ xs = json_escape d @ ys"
  shows "c = d \<and> xs = ys"
proof -
  have ctrl: "c = d" if "of_char c < (32::nat)" and "of_char d < (32::nat)"
    and "hex_digit (of_char c div 16) = hex_digit (of_char d div 16)"
    and "hex_digit (of_char c mod 16) = hex_digit (of_char d mod 16)"
  proof -
    have "(of_char c :: nat) div 16 = of_char d div 16" and "(of_char c :: nat) mod 16 = of_char d mod 16"
      using that by (simp_all add: hex_digit_inj)
    then have "(of_char c :: nat) = of_char d" by (metis div_mult_mod_eq)
    then show ?thesis by simp
  qed
  have bs: "CHR 0x5C \<noteq> e" if "\<not> of_char e < (32::nat)" "e \<noteq> CHR 0x5C" for e
    using that by auto
  show ?thesis
    using assms unfolding json_escape_def
    by (auto split: if_splits dest: ctrl)
qed

lemma json_escape_not_quote: "json_escape c @ xs \<noteq> CHR 0x22 # ys"
  by (auto simp: json_escape_def)

lemma json_escape_nonempty: "json_escape c \<noteq> []"
  by (auto simp: json_escape_def)

lemma json_quote_cancel:
  assumes "json_quote s @ xs = json_quote t @ ys"
  shows "s = t \<and> xs = ys"
proof -
  have "concat (map json_escape s) @ CHR 0x22 # xs = concat (map json_escape t) @ CHR 0x22 # ys
        \<Longrightarrow> s = t \<and> xs = ys"
  proof (induction s arbitrary: t)
    case Nil
    then show ?case
      by (cases t) (auto simp: json_escape_not_quote [symmetric] dest: sym)
  next
    case (Cons c s)
    show ?case
    proof (cases t)
      case Nil
      with Cons.prems show ?thesis by (simp add: json_escape_not_quote)
    next
      case (Cons d t')
      with Cons.prems have "json_escape c @ (concat (map json_escape s) @ CHR 0x22 # xs)
          = json_escape d @ (concat (map json_escape t') @ CHR 0x22 # ys)" by simp
      from json_escape_cancel [OF this] Cons.IH [of t'] Cons show ?thesis by simp
    qed
  qed
  with assms show ?thesis by (simp add: json_quote_def)
qed

text \<open>A text that follows a value inside a document starts with a closing or separating sign.\<close>

definition is_delim :: "char \<Rightarrow> bool" where
  "is_delim c \<longleftrightarrow> c \<in> {CHR '','', CHR '']'', CHR ''}''}"

lemma is_delim_simps [simp]: "is_delim CHR '',''" "is_delim CHR '']''" "is_delim CHR ''}''"
  by (simp_all add: is_delim_def)

lemma is_int_char_delim [simp]: "is_int_char c \<Longrightarrow> \<not> is_delim c"
  by (auto simp: is_delim_def is_int_char_def is_digit_def)

lemma is_float_char_delim: "is_float_char c \<Longrightarrow> \<not> is_delim c"
  by (auto simp: is_float_char_def) (auto simp: is_delim_def)

definition terminated :: "string \<Rightarrow> bool" where
  "terminated r \<longleftrightarrow> r = [] \<or> is_delim (hd r)"

lemma terminated_simps [simp]: "terminated []" "terminated (c # r) = is_delim c"
  by (simp_all add: terminated_def)

lemma token_cancel:
  assumes "s @ r = t @ r'" and "terminated r" and "terminated r'"
    and "list_all (\<lambda>c. \<not> is_delim c) s" and "list_all (\<lambda>c. \<not> is_delim c) t"
  shows "s = t \<and> r = r'"
proof -
  let ?P = "\<lambda>c. \<not> is_delim c"
  have tw: "takeWhile ?P (u @ v) = u" if "list_all ?P u" and "terminated v" for u v
    using that by (induction u) (cases v, auto)
  from tw [OF assms(4,2)] tw [OF assms(5,3)] assms(1) have "s = t" by metis
  with assms(1) show ?thesis by simp
qed

lemma str_int_no_delim: "list_all (\<lambda>c. \<not> is_delim c) (str_int i)"
  using is_int_char_str_int by (auto simp: list_all_iff)

lemma float_no_delim: "is_float_text r \<Longrightarrow> list_all (\<lambda>c. \<not> is_delim c) r"
  by (auto simp: is_float_text_def list_all_iff is_float_char_delim)

lemma float_not_int: "is_float_text (str_int i) \<Longrightarrow> False"
  by (simp add: is_float_text_def is_int_char_str_int)

fun json_kind :: "json \<Rightarrow> nat" where
  "json_kind JNull = 0"
| "json_kind (JBool b) = (if b then 1 else 2)"
| "json_kind (JInt i) = 3"
| "json_kind (JFloat r) = 3"
| "json_kind (JStr s) = 4"
| "json_kind (JArr xs) = 5"
| "json_kind (JObj kvs) = 6"

definition kind_of_char :: "char \<Rightarrow> nat" where
  "kind_of_char c = (if c = CHR ''n'' then 0 else if c = CHR ''t'' then 1 else if c = CHR ''f'' then 2
     else if c = CHR 0x22 then 4 else if c = CHR ''['' then 5 else if c = CHR ''{'' then 6 else 3)"

lemma kind_of_int_char: "is_int_char c \<Longrightarrow> kind_of_char c = 3"
  by (auto simp: kind_of_char_def is_int_char_def is_digit_def)

lemma canonical_json_start:
  assumes "wf_json a"
  shows "canonical_json a \<noteq> [] \<and> kind_of_char (hd (canonical_json a)) = json_kind a
         \<and> \<not> is_delim (hd (canonical_json a))"
proof (cases a)
  case (JInt i)
  have "is_int_char (hd (str_int i))"
    using is_int_char_str_int [of i] by (cases "str_int i") auto
  with JInt show ?thesis by (simp add: kind_of_int_char)
next
  case (JFloat r)
  with assms have "is_int_char (hd r) \<or> hd r = CHR ''N'' \<or> hd r = CHR ''I''" and "r \<noteq> []"
    by (simp_all add: is_float_text_def)
  then have "kind_of_char (hd r) = 3 \<and> \<not> is_delim (hd r)"
  proof (elim disjE)
    assume "is_int_char (hd r)"
    then show ?thesis by (simp add: kind_of_int_char)
  qed (simp_all add: kind_of_char_def is_delim_def)
  with JFloat \<open>r \<noteq> []\<close> show ?thesis by simp
qed (simp_all add: kind_of_char_def is_delim_def json_quote_def canonical_json_obj)

lemma join_with_tail:
  "join_with sep (x # xs) @ r = x @ (if xs = [] then r else sep @ join_with sep xs @ r)"
  by (cases xs) simp_all

lemma join_cancel:
  assumes "join_with '','' (map f xs) @ c # r = join_with '','' (map f ys) @ c # s"
    and "\<And>x y u v. x \<in> set xs \<Longrightarrow> y \<in> set ys \<Longrightarrow> terminated u \<Longrightarrow> terminated v
           \<Longrightarrow> f x @ u = f y @ v \<Longrightarrow> g x = g y \<and> u = v"
    and "\<And>x. x \<in> set xs \<union> set ys \<Longrightarrow> f x \<noteq> [] \<and> hd (f x) \<noteq> c"
    and "is_delim c" and "c \<noteq> CHR '',''"
  shows "map g xs = map g ys \<and> r = s"
  using assms
proof (induction xs arbitrary: ys)
  case Nil
  show ?case
  proof (cases ys)
    case (Cons y ys')
    with Nil.prems(1) have "c # r = f y @ (if ys' = [] then c # s else '','' @ join_with '','' (map f ys') @ c # s)"
      using join_with_tail [of "'',''" "f y" "map f ys'" "c # s"] by simp
    moreover have "f y \<noteq> []" "hd (f y) \<noteq> c" using Nil.prems(3) [of y] Cons by auto
    ultimately show ?thesis by (cases "f y") auto
  qed (use Nil in simp)
next
  case (Cons x xs)
  show ?case
  proof (cases ys)
    case Nil
    with Cons.prems(1) have "c # s = f x @ (if xs = [] then c # r else '','' @ join_with '','' (map f xs) @ c # r)"
      using join_with_tail [of "'',''" "f x" "map f xs" "c # r"] by simp
    moreover have "f x \<noteq> []" "hd (f x) \<noteq> c" using Cons.prems(3) [of x] by auto
    ultimately show ?thesis by (cases "f x") auto
  next
    case ys: (Cons y ys')
    let ?u = "if xs = [] then c # r else '','' @ join_with '','' (map f xs) @ c # r"
    let ?v = "if ys' = [] then c # s else '','' @ join_with '','' (map f ys') @ c # s"
    have "f x @ ?u = f y @ ?v"
      using Cons.prems(1) ys join_with_tail [of "'',''" "f x" "map f xs" "c # r"]
        join_with_tail [of "'',''" "f y" "map f ys'" "c # s"] by simp
    moreover have "terminated ?u" "terminated ?v" using Cons.prems(4) by simp_all
    ultimately have g: "g x = g y" and uv: "?u = ?v"
      using Cons.prems(2) [of x y ?u ?v] ys by auto
    have "xs = [] \<longleftrightarrow> ys' = []" using uv Cons.prems(5) by (auto split: if_splits)
    moreover have "map g xs = map g ys' \<and> r = s" if "xs \<noteq> []" "ys' \<noteq> []"
    proof (rule Cons.IH)
      show "join_with '','' (map f xs) @ c # r = join_with '','' (map f ys') @ c # s" using uv that by simp
    qed (use Cons.prems ys in auto)
    ultimately show ?thesis using uv g ys by (cases "xs = []") auto
  qed
qed

lemma wf_json_obj_value: "wf_json (JObj kvs) \<Longrightarrow> kv \<in> set kvs \<Longrightarrow> wf_json (snd kv)"
  by (auto simp: list_all_iff)

lemma canonical_json_cancel:
  assumes "wf_json a" and "wf_json b" and "terminated r" and "terminated s"
    and "canonical_json a @ r = canonical_json b @ s"
  shows "norm a = norm b \<and> r = s"
  using assms
proof (induction a arbitrary: b r s)
  case (JArr xs)
  have "json_kind b = 5"
    using canonical_json_start [OF JArr.prems(1)] canonical_json_start [OF JArr.prems(2)] JArr.prems(5)
    by (metis hd_append2 json_kind.simps(6))
  then obtain ys where b: "b = JArr ys" by (cases b) (auto split: if_splits)
  have "map norm xs = map norm ys \<and> r = s"
  proof (rule join_cancel)
    show "join_with '','' (map canonical_json xs) @ CHR '']'' # r = join_with '','' (map canonical_json ys) @ CHR '']'' # s"
      using JArr.prems(5) b by simp
    show "canonical_json x \<noteq> [] \<and> hd (canonical_json x) \<noteq> CHR '']''" if "x \<in> set xs \<union> set ys" for x
      using canonical_json_start [of x] JArr.prems(1,2) b that is_delim_simps(2) by (auto simp: list_all_iff)
  qed (use JArr b in \<open>auto simp: list_all_iff\<close>)
  with b show ?case by simp
next
  case (JObj kvs)
  have "json_kind b = 6"
    using canonical_json_start [OF JObj.prems(1)] canonical_json_start [OF JObj.prems(2)] JObj.prems(5)
    by (metis hd_append2 json_kind.simps(7))
  then obtain kvs' where b: "b = JObj kvs'" by (cases b) (auto split: if_splits)
  let ?f = "\<lambda>kv. json_quote (fst kv) @ '':'' @ canonical_json (snd kv)"
  let ?g = "\<lambda>kv. (fst kv, norm (snd kv))"
  have "map ?g (sort_key fst kvs) = map ?g (sort_key fst kvs') \<and> r = s"
  proof (rule join_cancel)
    show "join_with '','' (map ?f (sort_key fst kvs)) @ CHR ''}'' # r
        = join_with '','' (map ?f (sort_key fst kvs')) @ CHR ''}'' # s"
      using JObj.prems(5) b by (simp add: canonical_json_obj)
    show "?g x = ?g y \<and> u = v"
      if "x \<in> set (sort_key fst kvs)" "y \<in> set (sort_key fst kvs')" "terminated u" "terminated v"
        "?f x @ u = ?f y @ v" for x y u v
    proof -
      have "fst x = fst y" and "canonical_json (snd x) @ u = canonical_json (snd y) @ v"
        using json_quote_cancel [of "fst x" "'':'' @ canonical_json (snd x) @ u" "fst y"
            "'':'' @ canonical_json (snd y) @ v"] that(5) by auto
      moreover have "x \<in> set kvs" "y \<in> set kvs'" using that by auto
      moreover have "wf_json (snd x)" "wf_json (snd y)"
        using calculation(3,4) JObj.prems(1,2) b wf_json_obj_value by blast+
      moreover have "snd x \<in> Basic_BNFs.snds x" by (cases x) simp
      ultimately show ?thesis using JObj.IH that(3,4) by blast
    qed
  qed (auto simp: json_quote_def)
  with b show ?case by (simp add: sort_key_map_snd)
next
  case (JInt i)
  have "json_kind b = 3"
    using canonical_json_start [OF JInt.prems(1)] canonical_json_start [OF JInt.prems(2)] JInt.prems(5)
    by (metis hd_append2 json_kind.simps(3))
  then consider j where "b = JInt j" | t where "b = JFloat t" by (cases b) (auto split: if_splits)
  then show ?case
  proof cases
    case 1
    have "str_int i = str_int j \<and> r = s"
      using JInt.prems 1 by (intro token_cancel) (simp_all add: str_int_no_delim)
    with 1 show ?thesis by (simp add: str_int_inj)
  next
    case 2
    have "str_int i = t \<and> r = s"
      using JInt.prems 2 by (intro token_cancel) (simp_all add: str_int_no_delim float_no_delim)
    with 2 JInt.prems(2) float_not_int show ?thesis by auto
  qed
next
  case (JFloat q)
  have "json_kind b = 3"
    using canonical_json_start [OF JFloat.prems(1)] canonical_json_start [OF JFloat.prems(2)] JFloat.prems(5)
    by (metis hd_append2 json_kind.simps(4))
  then consider j where "b = JInt j" | t where "b = JFloat t" by (cases b) (auto split: if_splits)
  then show ?case
  proof cases
    case 1
    have "q = str_int j \<and> r = s"
      using JFloat.prems 1 by (intro token_cancel) (simp_all add: str_int_no_delim float_no_delim)
    with 1 JFloat.prems(1) float_not_int show ?thesis by auto
  next
    case 2
    have "q = t \<and> r = s"
      using JFloat.prems 2 by (intro token_cancel) (simp_all add: float_no_delim)
    with 2 show ?thesis by simp
  qed
next
  case (JStr t)
  have "json_kind b = 4"
    using canonical_json_start [OF JStr.prems(1)] canonical_json_start [OF JStr.prems(2)] JStr.prems(5)
    by (metis hd_append2 json_kind.simps(5))
  then obtain t' where "b = JStr t'" by (cases b) (auto split: if_splits)
  with JStr.prems(5) json_quote_cancel [of t r t' s] show ?case by simp
next
  case JNull
  have "json_kind b = 0"
    using canonical_json_start [OF JNull.prems(1)] canonical_json_start [OF JNull.prems(2)] JNull.prems(5)
    by (metis hd_append2 json_kind.simps(1))
  then have "b = JNull" by (cases b) (auto split: if_splits)
  with JNull.prems(5) show ?case by simp
next
  case (JBool p)
  have "json_kind b = json_kind (JBool p)"
    using canonical_json_start [OF JBool.prems(1)] canonical_json_start [OF JBool.prems(2)] JBool.prems(5)
    by (metis hd_append2)
  then have "b = JBool p" by (cases b) (auto split: if_splits)
  with JBool.prems(5) show ?case by (auto split: if_splits)
qed

lemma canonical_json_norm: "canonical_json (norm j) = canonical_json j"
proof (induction j)
  case (JObj kvs)
  have "snd kv \<in> Basic_BNFs.snds kv" for kv :: "string \<times> json" by (cases kv) simp
  then have IH: "\<And>kv. kv \<in> set kvs \<Longrightarrow> canonical_json (norm (snd kv)) = canonical_json (snd kv)"
    using JObj.IH by blast
  let ?n = "sort_key fst (map (\<lambda>kv. (fst kv, norm (snd kv))) kvs)"
  have "sort_key fst ?n = ?n" by (rule sort_key_id_if_sorted) simp
  with IH have eq: "map (\<lambda>kv. json_quote (fst kv) @ CHR '':'' # canonical_json (norm (snd kv))) (sort_key fst kvs)
      = map (\<lambda>kv. json_quote (fst kv) @ CHR '':'' # canonical_json (snd kv)) (sort_key fst kvs)" by simp
  have "canonical_json (norm (JObj kvs)) = ''{'' @ join_with '',''
      (map (\<lambda>kv. json_quote (fst kv) @ CHR '':'' # canonical_json (norm (snd kv))) (sort_key fst kvs)) @ ''}''"
    using \<open>sort_key fst ?n = ?n\<close> by (simp add: canonical_json_obj sort_key_map_snd comp_def)
  then show ?case by (simp only: eq canonical_json_obj) simp
qed (simp_all cong: map_cong)

text \<open>The canonical text is the JSON value, up to the order of the keys.\<close>

lemma canonical_json_eq_iff:
  assumes "wf_json a" and "wf_json b"
  shows "canonical_json a = canonical_json b \<longleftrightarrow> norm a = norm b"
  using canonical_json_cancel [OF assms, of "[]" "[]"] canonical_json_norm by (metis append_Nil2 terminated_simps(1))

text \<open>Equal as JSON objects, equal at every key.\<close>

lemma norm_obj_get:
  assumes "norm (JObj kvs) = norm (JObj kvs')" and "distinct (map fst kvs)" and "distinct (map fst kvs')"
  shows "map_option norm (map_of kvs k) = map_option norm (map_of kvs' k)"
proof -
  let ?m = "map (\<lambda>kv. (fst kv, norm (snd kv)))"
  have get: "map_of (sort_key fst (?m xs)) = map_option norm \<circ> map_of xs" if "distinct (map fst xs)" for xs :: "(string \<times> json) list"
  proof -
    have "map_of (sort_key fst (?m xs)) = map_of (?m xs)"
    proof (subst map_of_inject_set)
      have "distinct (map fst (?m xs))" using that by (simp add: comp_def)
      then show "distinct (map fst (?m xs))" .
      have "mset (map fst (sort_key fst (?m xs))) = mset (map fst (?m xs))" by (simp only: mset_map mset_sort)
      then show "distinct (map fst (sort_key fst (?m xs)))"
        using \<open>distinct (map fst (?m xs))\<close> mset_eq_imp_distinct_iff by blast
    qed simp
    also have "\<dots> = map_option norm \<circ> map_of xs"
      using map_of_map [of norm xs] by (simp add: case_prod_beta')
    finally show ?thesis .
  qed
  have "sort_key fst (?m kvs) = sort_key fst (?m kvs')" using assms(1) by simp
  then have "(map_option norm \<circ> map_of kvs) k = (map_option norm \<circ> map_of kvs') k"
    using get [OF assms(2)] get [OF assms(3)] by metis
  then show ?thesis by simp
qed

end
