(* ===== verification/Errors.thy ===== *)
theory Errors
  imports Canonical
begin

text \<open>
  \<open>domain/errors.py\<close>: the error taxonomy, the normalized error every failure is carried
  by, and the exception classes. \<open>exn\<close> is what Python code may raise: an \<open>AppError\<close>
  with its normalized error, a native time-out or network exception, or any other one (its
  class name and text). The message text of an \<open>AppError\<close> is not kept: no code branches on it.
\<close>

datatype error_type =
  AUTHN_ERROR | AUTHZ_ERROR | NETWORK_ERROR | TIMEOUT_ERROR | RATE_LIMIT_ERROR
  | MODEL_PROTOCOL_ERROR | MODEL_CONTEXT_WINDOW_ERROR | TASK_EXECUTION_ERROR | PERSISTENCE_ERROR
  | BUDGET_EXCEEDED | ROTATION_FAILED | INTERRUPTED | SYSTEM_ERROR

fun error_type_value :: "error_type \<Rightarrow> string" where
  "error_type_value AUTHN_ERROR = ''AUTHN_ERROR''"
| "error_type_value AUTHZ_ERROR = ''AUTHZ_ERROR''"
| "error_type_value NETWORK_ERROR = ''NETWORK_ERROR''"
| "error_type_value TIMEOUT_ERROR = ''TIMEOUT_ERROR''"
| "error_type_value RATE_LIMIT_ERROR = ''RATE_LIMIT_ERROR''"
| "error_type_value MODEL_PROTOCOL_ERROR = ''MODEL_PROTOCOL_ERROR''"
| "error_type_value MODEL_CONTEXT_WINDOW_ERROR = ''MODEL_CONTEXT_WINDOW_ERROR''"
| "error_type_value TASK_EXECUTION_ERROR = ''TASK_EXECUTION_ERROR''"
| "error_type_value PERSISTENCE_ERROR = ''PERSISTENCE_ERROR''"
| "error_type_value BUDGET_EXCEEDED = ''BUDGET_EXCEEDED''"
| "error_type_value ROTATION_FAILED = ''ROTATION_FAILED''"
| "error_type_value INTERRUPTED = ''INTERRUPTED''"
| "error_type_value SYSTEM_ERROR = ''SYSTEM_ERROR''"

datatype severity = Severity_LOW | Severity_MEDIUM | Severity_HIGH | Severity_CRITICAL

fun severity_value :: "severity \<Rightarrow> string" where
  "severity_value Severity_LOW = ''low''"
| "severity_value Severity_MEDIUM = ''medium''"
| "severity_value Severity_HIGH = ''high''"
| "severity_value Severity_CRITICAL = ''critical''"

definition RETRYABLE_ERROR_TYPES :: "error_type set" where
  "RETRYABLE_ERROR_TYPES = {NETWORK_ERROR, TIMEOUT_ERROR, RATE_LIMIT_ERROR}"

type_synonym details = "(string, json) dict"

record normalized_error =
  ne_error_type :: error_type
  ne_error_code :: string
  ne_severity :: severity
  ne_origin :: string
  ne_retryable :: bool
  ne_recoverable :: bool
  ne_attempt :: int
  ne_max_attempts :: int
  ne_details :: details

definition with_attempt :: "normalized_error \<Rightarrow> int \<Rightarrow> int \<Rightarrow> normalized_error" where
  "with_attempt e attempt max_attempts = e\<lparr>ne_attempt := attempt, ne_max_attempts := max_attempts\<rparr>"

definition err :: "error_type \<Rightarrow> string \<Rightarrow> string \<Rightarrow> severity \<Rightarrow> bool \<Rightarrow> bool \<Rightarrow> details \<Rightarrow> normalized_error" where
  "err ty code origin sev retryable recoverable details =
     \<lparr>ne_error_type = ty, ne_error_code = code, ne_severity = sev, ne_origin = origin,
      ne_retryable = retryable, ne_recoverable = recoverable, ne_attempt = 1, ne_max_attempts = 1,
      ne_details = details\<rparr>"

section \<open>Exceptions\<close>

datatype exn =
  App_Error normalized_error
  | Timeout_Exn string string   \<comment> \<open>\<open>TimeoutError\<close>, \<open>httpx.TimeoutException\<close>\<close>
  | Network_Exn string string   \<comment> \<open>\<open>OSError\<close>, \<open>httpx.TransportError\<close>\<close>
  | Other_Exn string string     \<comment> \<open>any other class, e.g. \<open>ValueError\<close>\<close>

abbreviation ValueError :: "string \<Rightarrow> exn" where
  "ValueError \<equiv> Other_Exn ''ValueError''"

definition InvalidTransitionError :: "string \<Rightarrow> string \<Rightarrow> string \<Rightarrow> exn" where
  "InvalidTransitionError entity current target =
     App_Error (err SYSTEM_ERROR ''INVALID_TRANSITION'' ''StateMachine'' Severity_CRITICAL False False
       [(''entity'', JStr entity), (''current'', JStr current), (''target'', JStr target)])"

definition ProtocolError :: "string \<Rightarrow> details \<Rightarrow> exn" where
  "ProtocolError code details =
     App_Error (err MODEL_PROTOCOL_ERROR code ''ProtocolAdapter'' Severity_HIGH False False details)"

definition PersistenceError :: "string \<Rightarrow> bool \<Rightarrow> details \<Rightarrow> exn" where
  "PersistenceError code transient details =
     App_Error (err PERSISTENCE_ERROR code ''ConversationStore'' Severity_CRITICAL transient transient
       ((''transient'', JBool transient) # details))"

definition BudgetExceededError :: "string \<Rightarrow> int \<Rightarrow> int \<Rightarrow> exn" where
  "BudgetExceededError limit limit_value consumed =
     App_Error (err BUDGET_EXCEEDED (''BUDGET_'' @ upper limit) ''ProtocolOrchestrator'' Severity_HIGH False False
       [(''limit'', JStr limit), (''limit_value'', JInt limit_value), (''consumed'', JInt consumed)])"

definition RotationFailedError :: "string \<Rightarrow> details \<Rightarrow> exn" where
  "RotationFailedError code details =
     App_Error (err ROTATION_FAILED code ''ContextReducer'' Severity_HIGH False False details)"

definition SessionInterruptedError :: "string \<Rightarrow> details \<Rightarrow> exn" where
  "SessionInterruptedError origin details =
     App_Error (err INTERRUPTED ''USER_INTERRUPT'' origin Severity_MEDIUM False True details)"

definition TransportError :: "error_type \<Rightarrow> string \<Rightarrow> bool \<Rightarrow> details \<Rightarrow> exn" where
  "TransportError ty code retryable details =
     App_Error (err ty code ''TransportGateway'' Severity_HIGH retryable True details)"

definition TaskExecutionError :: "string \<Rightarrow> details \<Rightarrow> exn" where
  "TaskExecutionError code details =
     App_Error (err TASK_EXECUTION_ERROR code ''CommandExecutor'' Severity_HIGH False True details)"

definition ConfigError :: "string \<Rightarrow> details \<Rightarrow> exn" where
  "ConfigError code details =
     App_Error (err SYSTEM_ERROR code ''Config'' Severity_CRITICAL False False details)"

definition GenericSystemError :: "string \<Rightarrow> string \<Rightarrow> bool \<Rightarrow> details \<Rightarrow> exn" where
  "GenericSystemError code origin transient details =
     App_Error (err SYSTEM_ERROR code origin Severity_HIGH transient transient
       ((''transient'', JBool transient) # details))"

text \<open>The code of an exception's normalized error, for the claims about which error is raised.\<close>

fun error_code_of :: "exn \<Rightarrow> string option" where
  "error_code_of (App_Error e) = Some (ne_error_code e)"
| "error_code_of _ = None"

lemmas app_errors = InvalidTransitionError_def ProtocolError_def PersistenceError_def
  BudgetExceededError_def RotationFailedError_def SessionInterruptedError_def TransportError_def
  TaskExecutionError_def ConfigError_def GenericSystemError_def

lemma app_error_codes [simp]:
  "error_code_of (InvalidTransitionError a b c) = Some ''INVALID_TRANSITION''"
  "error_code_of (ProtocolError code d) = Some code"
  "error_code_of (PersistenceError code t d) = Some code"
  "error_code_of (RotationFailedError code d) = Some code"
  "error_code_of (TransportError ty code r d) = Some code"
  "error_code_of (ConfigError code d) = Some code"
  "error_code_of (GenericSystemError code origin t d) = Some code"
  by (simp_all add: app_errors err_def)

section \<open>\<open>assert_transition\<close>\<close>

text \<open>\<open>domain/transitions.py\<close>: the single guard every state change goes through.\<close>

definition assert_transition ::
  "('s \<Rightarrow> 's set) \<Rightarrow> ('s \<Rightarrow> string) \<Rightarrow> 's \<Rightarrow> 's \<Rightarrow> string \<Rightarrow> exn + unit" where
  "assert_transition table value current target entity =
     guardR (can_transition table current target)
       (InvalidTransitionError entity (value current) (value target))"

lemma assert_transition_Inr [simp]:
  "assert_transition table val s t e = Inr u \<longleftrightarrow> can_transition table s t"
  by (simp add: assert_transition_def)

end
