(* ===== verification/Events.thy ===== *)
theory Events
  imports Errors
begin

text \<open>\<open>domain/events.py\<close>: the events of the bus. A time is its number of microseconds.\<close>

datatype event_type =
  SESSION_CREATED | SESSION_STATE_CHANGED | SESSION_PAUSED | CONVERSATION_CREATED
  | CONVERSATION_STATE_CHANGED | CYCLE_STARTED | CYCLE_ENDED | MESSAGE_OUTBOUND | MESSAGE_INBOUND
  | MESSAGE_REJECTED | MESSAGE_RETRANSMITTED | CORRECTION_REQUESTED | PLAN_RECEIVED
  | PLAN_STATE_CHANGED | TASK_STATE_CHANGED | TASK_OUTPUT | FINAL_ANSWER_RECEIVED
  | USER_RESPONSE_RECEIVED | FAILURE_RECORDED | RETRY_SCHEDULED | BREAKER_STATE_CHANGED
  | CONTEXT_WINDOW_STATE_CHANGED | ROTATION_STARTED | ROTATION_COMPLETED | Event_ROTATION_FAILED
  | BUDGET_UPDATED | Event_BUDGET_EXCEEDED | INTERRUPTION_REQUESTED | INTERRUPTION_COMPLETED
  | RECOVERY_STARTED | RECOVERY_ACTION | RECOVERY_COMPLETED | AUDIT_WARNING

fun event_type_value :: "event_type \<Rightarrow> string" where
  "event_type_value SESSION_CREATED = ''session.created''"
| "event_type_value SESSION_STATE_CHANGED = ''session.state_changed''"
| "event_type_value SESSION_PAUSED = ''session.paused''"
| "event_type_value CONVERSATION_CREATED = ''conversation.created''"
| "event_type_value CONVERSATION_STATE_CHANGED = ''conversation.state_changed''"
| "event_type_value CYCLE_STARTED = ''cycle.started''"
| "event_type_value CYCLE_ENDED = ''cycle.ended''"
| "event_type_value MESSAGE_OUTBOUND = ''message.outbound''"
| "event_type_value MESSAGE_INBOUND = ''message.inbound''"
| "event_type_value MESSAGE_REJECTED = ''message.rejected''"
| "event_type_value MESSAGE_RETRANSMITTED = ''message.retransmitted''"
| "event_type_value CORRECTION_REQUESTED = ''correction.requested''"
| "event_type_value PLAN_RECEIVED = ''plan.received''"
| "event_type_value PLAN_STATE_CHANGED = ''plan.state_changed''"
| "event_type_value TASK_STATE_CHANGED = ''task.state_changed''"
| "event_type_value TASK_OUTPUT = ''task.output''"
| "event_type_value FINAL_ANSWER_RECEIVED = ''final_answer.received''"
| "event_type_value USER_RESPONSE_RECEIVED = ''user_response.received''"
| "event_type_value FAILURE_RECORDED = ''failure.recorded''"
| "event_type_value RETRY_SCHEDULED = ''retry.scheduled''"
| "event_type_value BREAKER_STATE_CHANGED = ''breaker.state_changed''"
| "event_type_value CONTEXT_WINDOW_STATE_CHANGED = ''context.window_state_changed''"
| "event_type_value ROTATION_STARTED = ''rotation.started''"
| "event_type_value ROTATION_COMPLETED = ''rotation.completed''"
| "event_type_value Event_ROTATION_FAILED = ''rotation.failed''"
| "event_type_value BUDGET_UPDATED = ''budget.updated''"
| "event_type_value Event_BUDGET_EXCEEDED = ''budget.exceeded''"
| "event_type_value INTERRUPTION_REQUESTED = ''interruption.requested''"
| "event_type_value INTERRUPTION_COMPLETED = ''interruption.completed''"
| "event_type_value RECOVERY_STARTED = ''recovery.started''"
| "event_type_value RECOVERY_ACTION = ''recovery.action''"
| "event_type_value RECOVERY_COMPLETED = ''recovery.completed''"
| "event_type_value AUDIT_WARNING = ''audit.warning''"

definition NON_AUDITED_EVENT_TYPES :: "event_type set" where
  "NON_AUDITED_EVENT_TYPES = {TASK_OUTPUT}"

type_synonym time = int

record event =
  ev_event_type :: event_type
  ev_timestamp :: time
  ev_session_id :: string
  ev_conversation_id :: "string option"
  ev_cycle_id :: "string option"
  ev_plan_id :: "string option"
  ev_task_id :: "string option"
  ev_payload :: details

definition audited :: "event \<Rightarrow> bool" where
  "audited e \<longleftrightarrow> ev_event_type e \<notin> NON_AUDITED_EVENT_TYPES"

text \<open>\<open>None\<close> and optional values as JSON.\<close>

definition jopt :: "('a \<Rightarrow> json) \<Rightarrow> 'a option \<Rightarrow> json" where
  "jopt f x = (case x of None \<Rightarrow> JNull | Some v \<Rightarrow> f v)"

abbreviation jstr_opt :: "string option \<Rightarrow> json" where
  "jstr_opt \<equiv> jopt JStr"

abbreviation jint_opt :: "int option \<Rightarrow> json" where
  "jint_opt \<equiv> jopt JInt"

definition state_change_payload :: "string option \<Rightarrow> string \<Rightarrow> string option \<Rightarrow> details" where
  "state_change_payload previous current reason =
     [(''from'', jstr_opt previous), (''to'', JStr current)]
     @ (case reason of None \<Rightarrow> [] | Some r \<Rightarrow> [(''reason'', JStr r)])"

end
