(* ===== verification/Models.thy ===== *)
theory Models
  imports Events
begin

text \<open>
  \<open>domain/models.py\<close>: the persisted records, field by field. Times are microseconds since
  the epoch, sizes and counters Python integers, raw bytes a \<^typ>\<open>string\<close> (one character per byte).
  \<open>model_copy(update=...)\<close> is record update.
\<close>

record session_budget =
  max_cycles :: int
  max_plans :: int
  max_total_duration_ms :: int

record session_record =
  s_session_id :: string
  s_status :: session_state
  s_goal :: string
  s_user_message :: string
  s_user_id :: string
  s_auto_close_on_final_answer :: bool
  s_budget :: session_budget
  s_consumed_cycles :: int
  s_consumed_plans :: int
  s_rotations_count :: int
  s_current_conversation_id :: "string option"
  s_final_answer :: "details option"
  s_last_failure_id :: "string option"
  s_started_at :: "time option"
  s_ended_at :: "time option"
  s_interrupted_at :: "time option"
  s_created_at :: time
  s_updated_at :: time

record conversation_record =
  c_conversation_id :: string
  c_session_id :: string
  c_parent_conversation_id :: "string option"
  c_remote_conversation_id :: "string option"
  c_status :: conversation_state
  c_auto_close_on_final_answer :: bool
  c_context_window_state :: context_window_state
  c_context_bytes :: int
  c_protocol_error_count :: int
  c_last_model_response_state :: string
  c_current_cycle_id :: "string option"
  c_current_plan_id :: "string option"
  c_last_completed_plan_id :: "string option"
  c_final_answer_received :: bool
  c_last_outbound_message_id :: "string option"
  c_last_inbound_message_id :: "string option"
  c_get_cursor :: "string option"
  c_session_budget_json :: details
  c_closure_reason :: "string option"
  c_interrupted_at :: "time option"
  c_created_at :: time
  c_updated_at :: time

record cycle_record =
  cy_cycle_id :: string
  cy_conversation_id :: string
  cy_session_id :: string
  cy_cycle_type :: cycle_type
  cy_status :: cycle_state
  cy_retry_count :: int
  cy_outbound_message_id :: "string option"
  cy_inbound_message_id :: "string option"
  cy_plan_id :: "string option"
  cy_started_at :: time
  cy_ended_at :: "time option"

record plan_record =
  p_plan_id :: string
  p_session_id :: string
  p_conversation_id :: string
  p_cycle_id :: string
  p_plan_type :: plan_type
  p_objective :: string
  p_execution_policy :: execution_policy
  p_max_parallel_workers :: int
  p_status :: plan_state
  p_stop_reason :: "string option"
  p_task_count :: int
  p_completed_task_count :: int
  p_failed_task_count :: int
  p_skipped_task_count :: int
  p_cancelled_task_count :: int
  p_interrupted_task_count :: int
  p_default_max_output_bytes :: "int option"
  p_state_summary :: "details option"
  p_started_at :: "time option"
  p_ended_at :: "time option"
  p_created_at :: time
  p_updated_at :: time

record task_record =
  t_task_id :: string
  t_plan_id :: string
  t_session_id :: string
  t_conversation_id :: string
  t_order_index :: int
  t_type :: task_type
  t_cmd :: "string option"
  t_status :: task_state
  t_critical :: bool
  t_continue_on_error :: bool
  t_stop_plan_on_failure :: bool
  t_stop_plan_on_success :: bool
  t_stops_plan_on_failure :: bool
  t_depends_on :: "string list"
  t_resource_lock :: "string option"
  t_max_output_bytes :: "int option"
  t_max_output_bytes_applied :: "int option"
  t_timeout_ms :: "int option"
  t_timeout_ms_applied :: "int option"
  t_ref_task_id :: "string option"
  t_stream :: "output_stream option"
  t_byte_offset :: "int option"
  t_max_bytes :: "int option"
  t_attempt_count :: int
  t_exit_code :: "int option"
  t_timed_out :: bool
  t_stdout_ref :: "string option"
  t_stderr_ref :: "string option"
  t_truncated :: bool
  t_original_size_bytes :: "int option"
  t_stdout_total :: "int option"
  t_stderr_total :: "int option"
  t_stdout_range :: "(int \<times> int) option"
  t_stderr_range :: "(int \<times> int) option"
  t_reason :: "string option"
  t_pid :: "int option"
  t_process_group_id :: "int option"
  t_started_at :: "time option"
  t_ended_at :: "time option"
  t_duration_ms :: "int option"
  t_created_at :: time
  t_updated_at :: time

record message_record =
  m_message_id :: string
  m_session_id :: string
  m_conversation_id :: string
  m_direction :: message_direction
  m_message_type :: message_type
  m_payload :: details
  m_size_bytes :: int
  m_cycle_id :: "string option"
  m_post_confirmed :: bool
  m_posted_at :: "time option"
  m_received_at :: "time option"
  m_validation_status :: "string option"
  m_retransmission_of :: "string option"
  m_created_at :: time

record audit_event =
  a_event_id :: string
  a_sequence :: int
  a_previous_event_hash :: string
  a_event_hash :: string
  a_session_id :: string
  a_conversation_id :: "string option"
  a_cycle_id :: "string option"
  a_plan_id :: "string option"
  a_task_id :: "string option"
  a_event_type :: string
  a_timestamp :: time
  a_payload :: details

record failure_record =
  f_failure_id :: string
  f_session_id :: string
  f_conversation_id :: "string option"
  f_plan_id :: "string option"
  f_task_id :: "string option"
  f_error_type :: error_type
  f_error_code :: string
  f_severity :: severity
  f_origin :: string
  f_retryable :: bool
  f_recoverable :: bool
  f_attempt :: int
  f_max_attempts :: int
  f_details :: details
  f_timestamp :: time

record context_summary_record =
  cs_summary_id :: string
  cs_session_id :: string
  cs_source_conversation_id :: string
  cs_target_conversation_id :: string
  cs_summary_payload :: details
  cs_summary_size_bytes :: int
  cs_reduction_step :: int
  cs_created_at :: time

record blob_record =
  b_blob_id :: string
  b_session_id :: string
  b_task_id :: string
  b_blob_type :: output_stream
  b_content :: string
  b_size_bytes :: int
  b_created_at :: time

record retry_decision_record =
  rd_decision_id :: string
  rd_session_id :: string
  rd_conversation_id :: "string option"
  rd_cycle_id :: "string option"
  rd_operation :: string
  rd_error_type :: error_type
  rd_error_code :: string
  rd_attempt :: int
  rd_max_attempts :: int
  rd_decision :: string
  rd_delay_ms :: "int option"
  rd_created_at :: time

end
