(* ===== verification/Store.thy ===== *)
theory Store
  imports Models
begin

text \<open>
  \<open>persistence/memory.py\<close>: the conversation store. One dictionary per collection, an
  insertion order for stable listings, an append-only audit chain per session, savepoint
  transactions. Every method is an action on the \<open>store\<close> record; the records it raises are the
  code's \<open>PersistenceError\<close>s. A snapshot is the record itself: restoring it brings back the
  thirteen fields the code names and keeps \<open>fail_next_write\<close> and \<open>closed\<close>.

  The locale \<open>collection\<close> is the contract of a keyed collection (what a read returns after a
  write, accepted or refused); it is interpreted for the eight collections that have a reader by key.
\<close>

record store =
  st_sessions :: "(string, session_record) dict"
  st_conversations :: "(string, conversation_record) dict"
  st_cycles :: "(string, cycle_record) dict"
  st_plans :: "(string \<times> string, plan_record) dict"
  st_tasks :: "(string \<times> string, task_record) dict"
  st_messages :: "(string, message_record) dict"
  st_failures :: "(string, failure_record) dict"
  st_retry_decisions :: "(string, retry_decision_record) dict"
  st_summaries :: "(string, context_summary_record) dict"
  st_blobs :: "(string, blob_record) dict"
  st_audit :: "(string, audit_event list) dict"
  st_insertion_counter :: nat
  st_order :: "(string, nat) dict"
  st_fail_next_write :: bool
  st_closed :: bool

definition empty_store :: store where
  "empty_store = \<lparr>st_sessions = [], st_conversations = [], st_cycles = [], st_plans = [], st_tasks = [],
     st_messages = [], st_failures = [], st_retry_decisions = [], st_summaries = [], st_blobs = [],
     st_audit = [], st_insertion_counter = 0, st_order = [], st_fail_next_write = False,
     st_closed = False\<rparr>"

type_synonym 'a store_act = "(store, exn, 'a) act"

section \<open>Helpers\<close>

definition write_guard :: "unit store_act" where
  "write_guard st =
     (if st_closed st then (Inl (PersistenceError ''STORE_CLOSED'' False []), st)
      else if st_fail_next_write st
        then (Inl (PersistenceError ''SIMULATED_WRITE_FAILURE'' False []), st\<lparr>st_fail_next_write := False\<rparr>)
      else (Inr (), st))"

definition touch :: "string \<Rightarrow> store \<Rightarrow> store" where
  "touch key st =
     (if dict_get (st_order st) key \<noteq> None then st
      else st\<lparr>st_insertion_counter := st_insertion_counter st + 1,
              st_order := dict_set key (st_insertion_counter st + 1) (st_order st)\<rparr>)"

text \<open>\<open>self._order[key]\<close>; a missing key (a \<open>KeyError\<close> in Python) never occurs for a stored record:
  \<open>order_total\<close> below.\<close>

definition order_of :: "store \<Rightarrow> string \<Rightarrow> nat" where
  "order_of st key = (case dict_get (st_order st) key of Some n \<Rightarrow> n | None \<Rightarrow> 0)"

definition restore :: "store \<Rightarrow> store \<Rightarrow> store" where
  "restore snapshot st = snapshot\<lparr>st_fail_next_write := st_fail_next_write st, st_closed := st_closed st\<rparr>"

definition transaction :: "'a store_act \<Rightarrow> 'a store_act" where
  "transaction body st =
     (if st_closed st then (Inl (PersistenceError ''STORE_CLOSED'' False []), st)
      else case body st of
        (Inl e, st') \<Rightarrow> (Inl e, restore st st')
      | (Inr v, st') \<Rightarrow> (Inr v, st'))"

definition write_record :: "string \<Rightarrow> (store \<Rightarrow> store) \<Rightarrow> unit store_act" where
  "write_record key upd = andthen write_guard (modifying (\<lambda>st. touch key (upd st)))"

section \<open>Keys of the insertion order\<close>

definition session_order_key :: "session_record \<Rightarrow> string" where
  "session_order_key r = ''session:'' @ s_session_id r"

definition conversation_order_key :: "conversation_record \<Rightarrow> string" where
  "conversation_order_key r = ''conversation:'' @ c_conversation_id r"

definition cycle_order_key :: "cycle_record \<Rightarrow> string" where
  "cycle_order_key r = ''cycle:'' @ cy_cycle_id r"

definition plan_order_key :: "plan_record \<Rightarrow> string" where
  "plan_order_key r = ''plan:'' @ p_session_id r @ '':'' @ p_plan_id r"

definition task_order_key :: "task_record \<Rightarrow> string" where
  "task_order_key r = ''task:'' @ t_session_id r @ '':'' @ t_task_id r"

definition message_order_key :: "message_record \<Rightarrow> string" where
  "message_order_key r = ''message:'' @ m_message_id r"

definition failure_order_key :: "failure_record \<Rightarrow> string" where
  "failure_order_key r = ''failure:'' @ f_failure_id r"

definition retry_decision_order_key :: "retry_decision_record \<Rightarrow> string" where
  "retry_decision_order_key r = ''retry:'' @ rd_decision_id r"

definition context_summary_order_key :: "context_summary_record \<Rightarrow> string" where
  "context_summary_order_key r = ''summary:'' @ cs_summary_id r"

definition blob_order_key :: "blob_record \<Rightarrow> string" where
  "blob_order_key r = ''blob:'' @ b_blob_id r"

section \<open>Writes\<close>

definition save_session :: "session_record \<Rightarrow> unit store_act" where
  "save_session r = write_record (session_order_key r) (\<lambda>st. st\<lparr>st_sessions := dict_set (s_session_id r) r (st_sessions st)\<rparr>)"

definition save_conversation :: "conversation_record \<Rightarrow> unit store_act" where
  "save_conversation r = write_record (conversation_order_key r) (\<lambda>st. st\<lparr>st_conversations := dict_set (c_conversation_id r) r (st_conversations st)\<rparr>)"

definition save_cycle :: "cycle_record \<Rightarrow> unit store_act" where
  "save_cycle r = write_record (cycle_order_key r) (\<lambda>st. st\<lparr>st_cycles := dict_set (cy_cycle_id r) r (st_cycles st)\<rparr>)"

definition save_plan :: "plan_record \<Rightarrow> unit store_act" where
  "save_plan r = write_record (plan_order_key r) (\<lambda>st. st\<lparr>st_plans := dict_set ((p_session_id r, p_plan_id r)) r (st_plans st)\<rparr>)"

definition save_task :: "task_record \<Rightarrow> unit store_act" where
  "save_task r = write_record (task_order_key r) (\<lambda>st. st\<lparr>st_tasks := dict_set ((t_session_id r, t_task_id r)) r (st_tasks st)\<rparr>)"

definition save_message :: "message_record \<Rightarrow> unit store_act" where
  "save_message r = write_record (message_order_key r) (\<lambda>st. st\<lparr>st_messages := dict_set (m_message_id r) r (st_messages st)\<rparr>)"

definition save_failure :: "failure_record \<Rightarrow> unit store_act" where
  "save_failure r = write_record (failure_order_key r) (\<lambda>st. st\<lparr>st_failures := dict_set (f_failure_id r) r (st_failures st)\<rparr>)"

definition save_retry_decision :: "retry_decision_record \<Rightarrow> unit store_act" where
  "save_retry_decision r = write_record (retry_decision_order_key r) (\<lambda>st. st\<lparr>st_retry_decisions := dict_set (rd_decision_id r) r (st_retry_decisions st)\<rparr>)"

definition save_context_summary :: "context_summary_record \<Rightarrow> unit store_act" where
  "save_context_summary r = write_record (context_summary_order_key r) (\<lambda>st. st\<lparr>st_summaries := dict_set (cs_summary_id r) r (st_summaries st)\<rparr>)"

definition save_tasks :: "task_record list \<Rightarrow> unit store_act" where
  "save_tasks records = transaction (for_each records save_task)"

definition save_blob :: "blob_record \<Rightarrow> unit store_act" where
  "save_blob r =
     andthen write_guard
       (if b_size_bytes r \<noteq> int (length (b_content r))
        then throw (PersistenceError ''BLOB_SIZE_MISMATCH'' False [(''blob_id'', JStr (b_blob_id r))])
        else modifying (\<lambda>st. touch (blob_order_key r) (st\<lparr>st_blobs := dict_set (b_blob_id r) r (st_blobs st)\<rparr>)))"

section \<open>Reads\<close>

definition get_session :: "store \<Rightarrow> string \<Rightarrow> session_record option" where
  "get_session st k = dict_get (st_sessions st) k"

definition get_conversation :: "store \<Rightarrow> string \<Rightarrow> conversation_record option" where
  "get_conversation st k = dict_get (st_conversations st) k"

definition get_cycle :: "store \<Rightarrow> string \<Rightarrow> cycle_record option" where
  "get_cycle st k = dict_get (st_cycles st) k"

definition get_plan :: "store \<Rightarrow> string \<Rightarrow> string \<Rightarrow> plan_record option" where
  "get_plan st session_id plan_id = dict_get (st_plans st) (session_id, plan_id)"

definition get_task :: "store \<Rightarrow> string \<Rightarrow> string \<Rightarrow> task_record option" where
  "get_task st session_id task_id = dict_get (st_tasks st) (session_id, task_id)"

definition get_message :: "store \<Rightarrow> string \<Rightarrow> message_record option" where
  "get_message st k = dict_get (st_messages st) k"

definition get_blob :: "store \<Rightarrow> string \<Rightarrow> blob_record option" where
  "get_blob st k = dict_get (st_blobs st) k"

definition list_sessions :: "store \<Rightarrow> session_state list option \<Rightarrow> int \<Rightarrow> int \<Rightarrow> session_record list" where
  "list_sessions st statuses limit offset =
     py_slice offset (offset + limit)
       (sort_desc (\<lambda>s. (s_created_at s, s_session_id s))
         (filter (\<lambda>s. case statuses of None \<Rightarrow> True | Some wanted \<Rightarrow> s_status s \<in> set wanted)
           (dict_values (st_sessions st))))"

definition by_order :: "store \<Rightarrow> ('r \<Rightarrow> string) \<Rightarrow> 'r list \<Rightarrow> 'r list" where
  "by_order st key rows = sort_key (\<lambda>r. order_of st (key r)) rows"

definition list_conversations :: "store \<Rightarrow> string \<Rightarrow> conversation_record list" where
  "list_conversations st session_id =
     by_order st conversation_order_key
       (filter (\<lambda>c. c_session_id c = session_id) (dict_values (st_conversations st)))"

definition find_conversations_in_states :: "store \<Rightarrow> conversation_state list \<Rightarrow> conversation_record list" where
  "find_conversations_in_states st states =
     by_order st conversation_order_key
       (filter (\<lambda>c. c_status c \<in> set states) (dict_values (st_conversations st)))"

definition list_cycles :: "store \<Rightarrow> string \<Rightarrow> cycle_record list" where
  "list_cycles st conversation_id =
     by_order st cycle_order_key
       (filter (\<lambda>c. cy_conversation_id c = conversation_id) (dict_values (st_cycles st)))"

definition list_plans :: "store \<Rightarrow> string \<Rightarrow> string option \<Rightarrow> plan_record list" where
  "list_plans st session_id conversation_id =
     by_order st plan_order_key
       (filter (\<lambda>p. p_session_id p = session_id
                 \<and> (conversation_id = None \<or> Some (p_conversation_id p) = conversation_id))
         (dict_values (st_plans st)))"

definition find_plans_in_states :: "store \<Rightarrow> plan_state list \<Rightarrow> plan_record list" where
  "find_plans_in_states st states =
     by_order st plan_order_key (filter (\<lambda>p. p_status p \<in> set states) (dict_values (st_plans st)))"

definition plan_order :: "store \<Rightarrow> task_record \<Rightarrow> nat" where
  "plan_order st t = order_of st (''plan:'' @ t_session_id t @ '':'' @ t_plan_id t)"

definition list_tasks ::
  "store \<Rightarrow> string \<Rightarrow> string option \<Rightarrow> task_state list option \<Rightarrow> task_record list" where
  "list_tasks st session_id plan_id statuses =
     sort_key (\<lambda>t. (plan_order st t, t_order_index t))
       (filter (\<lambda>t. t_session_id t = session_id
                 \<and> (plan_id = None \<or> Some (t_plan_id t) = plan_id)
                 \<and> (case statuses of None \<Rightarrow> True | Some wanted \<Rightarrow> t_status t \<in> set wanted))
         (dict_values (st_tasks st)))"

definition find_tasks_in_states :: "store \<Rightarrow> task_state list \<Rightarrow> task_record list" where
  "find_tasks_in_states st states =
     sort_key (\<lambda>t. (plan_order st t, t_order_index t))
       (filter (\<lambda>t. t_status t \<in> set states) (dict_values (st_tasks st)))"

definition list_messages :: "store \<Rightarrow> string \<Rightarrow> message_direction option \<Rightarrow> message_record list" where
  "list_messages st conversation_id direction =
     by_order st message_order_key
       (filter (\<lambda>m. m_conversation_id m = conversation_id
                 \<and> (direction = None \<or> Some (m_direction m) = direction))
         (dict_values (st_messages st)))"

definition list_failures :: "store \<Rightarrow> string \<Rightarrow> failure_record list" where
  "list_failures st session_id =
     by_order st failure_order_key
       (filter (\<lambda>f. f_session_id f = session_id) (dict_values (st_failures st)))"

definition list_retry_decisions :: "store \<Rightarrow> string \<Rightarrow> retry_decision_record list" where
  "list_retry_decisions st session_id =
     by_order st retry_decision_order_key
       (filter (\<lambda>r. rd_session_id r = session_id) (dict_values (st_retry_decisions st)))"

definition get_context_summary_for_target :: "store \<Rightarrow> string \<Rightarrow> context_summary_record option" where
  "get_context_summary_for_target st target =
     List.find (\<lambda>s. cs_target_conversation_id s = target) (dict_values (st_summaries st))"

definition list_context_summaries :: "store \<Rightarrow> string \<Rightarrow> context_summary_record list" where
  "list_context_summaries st session_id =
     by_order st context_summary_order_key
       (filter (\<lambda>s. cs_session_id s = session_id) (dict_values (st_summaries st)))"

definition get_blob_for_task :: "store \<Rightarrow> string \<Rightarrow> string \<Rightarrow> output_stream \<Rightarrow> blob_record option" where
  "get_blob_for_task st session_id task_id blob_type =
     List.find (\<lambda>b. b_session_id b = session_id \<and> b_task_id b = task_id \<and> b_blob_type b = blob_type)
       (dict_values (st_blobs st))"

definition read_blob_range :: "store \<Rightarrow> string \<Rightarrow> int \<Rightarrow> int \<Rightarrow> exn + string" where
  "read_blob_range st blob_id offset max_bytes =
     (case dict_get (st_blobs st) blob_id of
        None \<Rightarrow> Inl (PersistenceError ''BLOB_NOT_FOUND'' False [(''blob_id'', JStr blob_id)])
      | Some blob \<Rightarrow>
          if offset < 0 \<or> max_bytes < 0
          then Inl (PersistenceError ''BLOB_RANGE_INVALID'' False
                 [(''blob_id'', JStr blob_id), (''offset'', JInt offset), (''max_bytes'', JInt max_bytes)])
          else Inr (py_slice offset (offset + max_bytes) (b_content blob)))"

section \<open>The audit chain\<close>

definition audit_chain :: "store \<Rightarrow> string \<Rightarrow> audit_event list" where
  "audit_chain st session_id = (case dict_get (st_audit st) session_id of None \<Rightarrow> [] | Some chain \<Rightarrow> chain)"

text \<open>\<open>setdefault\<close> leaves an empty chain behind even when the event is then refused.\<close>

definition append_audit_event :: "audit_event \<Rightarrow> unit store_act" where
  "append_audit_event event st =
     (case write_guard st of
        (Inl e, st') \<Rightarrow> (Inl e, st')
      | (Inr _, st') \<Rightarrow>
          let sid = a_session_id event; chain = audit_chain st' sid; audit = dict_set sid chain (st_audit st')
          in if a_sequence event \<in> set (map a_sequence chain)
                \<or> a_event_id event \<in> set (map a_event_id (concat (dict_values audit)))
             then (Inl (PersistenceError ''AUDIT_APPEND_ONLY_VIOLATION'' False
                     [(''event_id'', JStr (a_event_id event)), (''sequence'', JInt (a_sequence event))]),
                   st'\<lparr>st_audit := audit\<rparr>)
             else if chain \<noteq> [] \<and> a_sequence event \<noteq> a_sequence (last chain) + 1
             then (Inl (PersistenceError ''AUDIT_SEQUENCE_GAP'' False
                     [(''expected'', JInt (a_sequence (last chain) + 1)), (''got'', JInt (a_sequence event))]),
                   st'\<lparr>st_audit := audit\<rparr>)
             else (Inr (), st'\<lparr>st_audit := dict_set sid (chain @ [event]) audit\<rparr>))"

definition get_last_audit_event :: "store \<Rightarrow> string \<Rightarrow> audit_event option" where
  "get_last_audit_event st session_id =
     (let chain = audit_chain st session_id in if chain = [] then None else Some (last chain))"

definition list_audit_events :: "store \<Rightarrow> string \<Rightarrow> int option \<Rightarrow> int \<Rightarrow> audit_event list" where
  "list_audit_events st session_id after_sequence limit =
     py_slice 0 limit
       (filter (\<lambda>e. case after_sequence of None \<Rightarrow> True | Some n \<Rightarrow> n < a_sequence e)
         (audit_chain st session_id))"

definition count_audit_events :: "store \<Rightarrow> string \<Rightarrow> nat" where
  "count_audit_events st session_id = length (audit_chain st session_id)"

section \<open>Maintenance\<close>

definition reset :: "unit store_act" where
  "reset = andthen write_guard (modifying (restore empty_store))"

definition close :: "unit store_act" where
  "close = modifying (\<lambda>st. st\<lparr>st_closed := True\<rparr>)"

section \<open>A keyed collection\<close>

locale collection =
  fixes save :: "'r \<Rightarrow> unit store_act"
    and read :: "store \<Rightarrow> 'k \<Rightarrow> 'r option"
    and key :: "'r \<Rightarrow> 'k"
  assumes accepted: "save r st = (Inr u, st') \<Longrightarrow> read st' k = (if k = key r then Some r else read st k)"
    and refused: "save r st = (Inl e, st') \<Longrightarrow> read st' k = read st k"
begin

lemma read_back: "save r st = (Inr u, st') \<Longrightarrow> read st' (key r) = Some r"
  using accepted by simp

text \<open>After a batch, a key holds the last record written under it, and its old one otherwise.\<close>

lemma last_write_wins:
  assumes "for_each rs save st = (Inr (), st')"
  shows "read st' k = (case find_last (\<lambda>r. key r = k) rs of Some r \<Rightarrow> Some r | None \<Rightarrow> read st k)"
  using assms
proof (induction rs arbitrary: st' rule: rev_induct)
  case (snoc r rs)
  from snoc.prems obtain t where "for_each rs save st = (Inr (), t)" and "save r t = (Inr (), st')"
    by (auto simp: for_each_append andthen_Inr)
  with snoc.IH [of t] accepted [of r t "()" st'] show ?case by auto
qed (simp add: flow_simps)

end

lemma touch_data [simp]:
  "st_sessions (touch k st) = st_sessions st" "st_conversations (touch k st) = st_conversations st"
  "st_cycles (touch k st) = st_cycles st" "st_plans (touch k st) = st_plans st"
  "st_tasks (touch k st) = st_tasks st" "st_messages (touch k st) = st_messages st"
  "st_failures (touch k st) = st_failures st" "st_retry_decisions (touch k st) = st_retry_decisions st"
  "st_summaries (touch k st) = st_summaries st" "st_blobs (touch k st) = st_blobs st"
  "st_audit (touch k st) = st_audit st" "st_closed (touch k st) = st_closed st"
  "st_fail_next_write (touch k st) = st_fail_next_write st"
  by (simp_all add: touch_def)

lemma write_guard_cases:
  "write_guard st = (Inr u, st') \<longleftrightarrow> st' = st \<and> \<not> st_closed st \<and> \<not> st_fail_next_write st"
  "write_guard st = (Inl e, st') \<Longrightarrow> st' = st\<lparr>st_fail_next_write := st_fail_next_write st \<and> st_closed st\<rparr>"
  by (auto simp: write_guard_def split: if_splits)

lemma write_record_Inr:
  "write_record key upd st = (Inr u, st') \<longleftrightarrow>
     st' = touch key (upd st) \<and> \<not> st_closed st \<and> \<not> st_fail_next_write st"
  by (auto simp: write_record_def andthen_Inr write_guard_cases modifying_def)

lemma write_record_Inl:
  "write_record key upd st = (Inl e, st') \<Longrightarrow>
     st' = st\<lparr>st_fail_next_write := st_fail_next_write st \<and> st_closed st\<rparr>"
  by (auto simp: write_record_def andthen_Inl write_guard_cases modifying_def dest: write_guard_cases(2))

lemmas save_defs = save_session_def save_conversation_def save_cycle_def save_plan_def save_task_def
  save_message_def save_failure_def save_retry_decision_def save_context_summary_def

lemmas order_keys = session_order_key_def conversation_order_key_def cycle_order_key_def
  plan_order_key_def task_order_key_def message_order_key_def failure_order_key_def
  retry_decision_order_key_def context_summary_order_key_def blob_order_key_def

lemmas get_defs = get_session_def get_conversation_def get_cycle_def get_plan_def get_task_def
  get_message_def get_blob_def

interpretation sessions: collection save_session get_session s_session_id
  by unfold_locales (auto simp: save_defs get_defs write_record_Inr dest!: write_record_Inl)

interpretation conversations: collection save_conversation get_conversation c_conversation_id
  by unfold_locales (auto simp: save_defs get_defs write_record_Inr dest!: write_record_Inl)

interpretation cycles: collection save_cycle get_cycle cy_cycle_id
  by unfold_locales (auto simp: save_defs get_defs write_record_Inr dest!: write_record_Inl)

interpretation plans: collection save_plan "\<lambda>st (s, p). get_plan st s p" "\<lambda>r. (p_session_id r, p_plan_id r)"
  by unfold_locales (auto simp: save_defs get_defs write_record_Inr split: if_splits dest!: write_record_Inl)

interpretation tasks: collection save_task "\<lambda>st (s, t). get_task st s t" "\<lambda>r. (t_session_id r, t_task_id r)"
  by unfold_locales (auto simp: save_defs get_defs write_record_Inr split: if_splits dest!: write_record_Inl)

interpretation messages: collection save_message get_message m_message_id
  by unfold_locales (auto simp: save_defs get_defs write_record_Inr dest!: write_record_Inl)

lemma save_blob_Inr:
  "save_blob r st = (Inr u, st') \<longleftrightarrow>
     st' = touch (blob_order_key r) (st\<lparr>st_blobs := dict_set (b_blob_id r) r (st_blobs st)\<rparr>)
     \<and> \<not> st_closed st \<and> \<not> st_fail_next_write st \<and> b_size_bytes r = int (length (b_content r))"
  by (auto simp: save_blob_def andthen_Inr write_guard_cases modifying_def throw_def)

lemma save_blob_Inl:
  "save_blob r st = (Inl e, st') \<Longrightarrow>
     st' = st\<lparr>st_fail_next_write := st_fail_next_write st \<and> st_closed st\<rparr>"
  by (auto simp: save_blob_def andthen_Inl write_guard_cases modifying_def throw_def
      dest: write_guard_cases(2) split: if_splits)

interpretation blobs: collection save_blob get_blob b_blob_id
  by unfold_locales (auto simp: save_blob_Inr get_defs dest!: save_blob_Inl)

section \<open>Transactions\<close>

text \<open>What a transaction protects: everything but the two hooks.\<close>

definition same_data :: "store \<Rightarrow> store \<Rightarrow> bool" where
  "same_data a b \<longleftrightarrow> a\<lparr>st_fail_next_write := False, st_closed := False\<rparr>
                   = b\<lparr>st_fail_next_write := False, st_closed := False\<rparr>"

lemma same_data_restore [simp]: "same_data (restore st st') st"
  by (simp add: same_data_def restore_def)

lemma transaction_rolls_back:
  assumes "transaction body st = (Inl e, st')"
  shows "same_data st' st"
  using assms by (auto simp: transaction_def same_data_def restore_def split: if_splits prod.splits sum.splits)

lemma transaction_Inr:
  "transaction body st = (Inr v, st') \<longleftrightarrow> \<not> st_closed st \<and> body st = (Inr v, st')"
  by (auto simp: transaction_def split: prod.splits sum.splits)

lemma keeps_transaction [keeps_intros]:
  assumes "keeps I body" and "\<And>s t. I s \<Longrightarrow> same_data t s \<Longrightarrow> I t"
  shows "keeps I (transaction body)"
  using assms unfolding keeps_def transaction_def by (auto split: prod.splits sum.splits)

section \<open>Listings follow the order of the first write\<close>

text \<open>
  \<open>in_order pre okeys st\<close>: \<open>okeys\<close>, the insertion keys of a collection's records in the order
  of its dictionary, have increasing numbers, and the numbered keys with the collection's prefix are theirs.
\<close>

definition in_order :: "string \<Rightarrow> string list \<Rightarrow> store \<Rightarrow> bool" where
  "in_order pre okeys st \<longleftrightarrow>
     sorted_wrt (\<lambda>j k. order_of st j < order_of st k) okeys
     \<and> (\<forall>k. starts_with pre k \<and> dict_get (st_order st) k \<noteq> None \<longrightarrow> k \<in> set okeys)
     \<and> (\<forall>k \<in> set okeys. dict_get (st_order st) k \<noteq> None \<and> starts_with pre k)
     \<and> (\<forall>k. order_of st k \<le> st_insertion_counter st)"

lemma order_of_touch:
  "order_of (touch key st) k =
     (if k = key \<and> dict_get (st_order st) key = None then st_insertion_counter st + 1 else order_of st k)"
  by (auto simp: touch_def order_of_def)

lemma dict_get_touch:
  "dict_get (st_order (touch key st)) k =
     (if k = key \<and> dict_get (st_order st) key = None then Some (st_insertion_counter st + 1)
      else dict_get (st_order st) k)"
  by (auto simp: touch_def)

lemma counter_touch:
  "st_insertion_counter (touch key st) =
     (if dict_get (st_order st) key = None then st_insertion_counter st + 1 else st_insertion_counter st)"
  by (simp add: touch_def)

lemma order_of_same:
  "st_order st' = st_order st \<Longrightarrow> order_of st' k = order_of st k"
  by (simp add: order_of_def)

text \<open>A write of another collection, a write of a known record, and of a new one.\<close>

lemma in_order_cong:
  assumes "st_order st' = st_order st" and "st_insertion_counter st' = st_insertion_counter st"
  shows "in_order pre okeys st' = in_order pre okeys st"
  using assms by (simp add: in_order_def order_of_def)

lemma in_orderD:
  assumes "in_order pre okeys st"
  shows in_order_sorted: "sorted_wrt (\<lambda>j k. order_of st j < order_of st k) okeys"
    and in_order_owned: "starts_with pre k \<Longrightarrow> dict_get (st_order st) k \<noteq> None \<Longrightarrow> k \<in> set okeys"
    and in_order_known: "k \<in> set okeys \<Longrightarrow> dict_get (st_order st) k \<noteq> None"
    and in_order_prefix: "k \<in> set okeys \<Longrightarrow> starts_with pre k"
    and in_order_bound: "order_of st k \<le> st_insertion_counter st"
  using assms unfolding in_order_def by blast+

lemma in_orderI:
  assumes "sorted_wrt (\<lambda>j k. order_of st j < order_of st k) okeys"
    and "\<And>k. starts_with pre k \<Longrightarrow> dict_get (st_order st) k \<noteq> None \<Longrightarrow> k \<in> set okeys"
    and "\<And>k. k \<in> set okeys \<Longrightarrow> dict_get (st_order st) k \<noteq> None"
    and "\<And>k. k \<in> set okeys \<Longrightarrow> starts_with pre k"
    and "\<And>k. order_of st k \<le> st_insertion_counter st"
  shows "in_order pre okeys st"
  using assms unfolding in_order_def by blast

lemma order_bound_touch:
  assumes "in_order pre okeys st"
  shows "order_of (touch key st) k \<le> st_insertion_counter (touch key st)"
  using in_order_bound [OF assms, of k] by (simp add: order_of_touch counter_touch)

lemma in_order_touch_other:
  assumes "in_order pre okeys st" and "\<not> starts_with pre key"
  shows "in_order pre okeys (touch key st)"
proof (rule in_orderI)
  have same: "order_of (touch key st) k = order_of st k" if "k \<in> set okeys" for k
    using in_order_prefix [OF assms(1) that] assms(2) by (auto simp: order_of_touch)
  show "sorted_wrt (\<lambda>j k. order_of (touch key st) j < order_of (touch key st) k) okeys"
    by (rule sorted_wrt_mono_rel [OF _ in_order_sorted [OF assms(1)]]) (simp add: same)
  show "k \<in> set okeys" if "starts_with pre k" "dict_get (st_order (touch key st)) k \<noteq> None" for k
    using in_order_owned [OF assms(1) that(1)] that assms(2) by (auto simp: dict_get_touch split: if_splits)
  show "dict_get (st_order (touch key st)) k \<noteq> None" if "k \<in> set okeys" for k
    using in_order_known [OF assms(1) that] by (simp add: dict_get_touch)
qed (use order_bound_touch in_order_prefix assms in blast)+

lemma in_order_touch_known:
  assumes "in_order pre okeys st" and "key \<in> set okeys"
  shows "in_order pre okeys (touch key st)"
proof -
  have "touch key st = st" using in_order_known [OF assms] by (simp add: touch_def)
  with assms(1) show ?thesis by simp
qed

lemma in_order_touch_new:
  assumes "in_order pre okeys st" and "key \<notin> set okeys" and "starts_with pre key"
  shows "in_order pre (okeys @ [key]) (touch key st)"
proof (rule in_orderI)
  have fresh: "dict_get (st_order st) key = None" using in_order_owned [OF assms(1,3)] assms(2) by blast
  have same: "order_of (touch key st) k = order_of st k" if "k \<in> set okeys" for k
    using assms(2) that by (auto simp: order_of_touch)
  have "order_of (touch key st) k < order_of (touch key st) key" if "k \<in> set okeys" for k
    using in_order_bound [OF assms(1), of k] same [OF that] fresh by (simp add: order_of_touch le_imp_less_Suc)
  moreover have "sorted_wrt (\<lambda>j k. order_of (touch key st) j < order_of (touch key st) k) okeys"
    by (rule sorted_wrt_mono_rel [OF _ in_order_sorted [OF assms(1)]]) (simp add: same)
  ultimately show "sorted_wrt (\<lambda>j k. order_of (touch key st) j < order_of (touch key st) k) (okeys @ [key])"
    by (simp add: sorted_wrt_append)
  show "k \<in> set (okeys @ [key])" if "starts_with pre k" "dict_get (st_order (touch key st)) k \<noteq> None" for k
    using in_order_owned [OF assms(1) that(1)] that(2) by (auto simp: dict_get_touch split: if_splits)
  show "dict_get (st_order (touch key st)) k \<noteq> None" if "k \<in> set (okeys @ [key])" for k
    using in_order_known [OF assms(1), of k] that fresh by (auto simp: dict_get_touch)
  show "starts_with pre k" if "k \<in> set (okeys @ [key])" for k
    using in_order_prefix [OF assms(1), of k] that assms(3) by auto
qed (rule order_bound_touch [OF assms(1)])

lemma by_order_id:
  assumes "in_order pre (map okey rows) st"
  shows "by_order st okey (filter p rows) = filter p rows"
proof -
  have "sorted (map (\<lambda>r. order_of st (okey r)) rows)"
    using sorted_wrt_mono_rel [OF _ in_order_sorted [OF assms], of "\<lambda>j k. order_of st j \<le> order_of st k"]
    by (simp add: sorted_wrt_map)
  then have "sorted (map (\<lambda>r. order_of st (okey r)) (filter p rows))"
    by (rule sorted_filter)
  then show ?thesis by (simp add: by_order_def sort_key_id_if_sorted)
qed

text \<open>A dictionary keyed by its records' own key, and the insertion keys after a write.\<close>

definition keyed_by :: "('r \<Rightarrow> 'k) \<Rightarrow> ('k, 'r) dict \<Rightarrow> bool" where
  "keyed_by key d \<longleftrightarrow> distinct (dict_keys d) \<and> dict_keys d = map key (dict_values d)"

lemma keyed_by_set:
  assumes "keyed_by key d"
  shows "keyed_by key (dict_set (key r) r d)"
    and "map key (dict_values (dict_set (key r) r d))
         = (if key r \<in> set (map key (dict_values d)) then map key (dict_values d) else map key (dict_values d) @ [key r])"
proof -
  have eq: "dict_keys (dict_set (key r) r d) = map key (dict_values (dict_set (key r) r d))"
    using assms unfolding keyed_by_def by (induction d) auto
  moreover have "distinct (dict_keys (dict_set (key r) r d))"
    using assms unfolding keyed_by_def distinct_dict_set by blast
  ultimately show "keyed_by key (dict_set (key r) r d)" unfolding keyed_by_def by blast
  have old: "map key (dict_values d) = dict_keys d" using assms by (simp only: keyed_by_def)
  show "map key (dict_values (dict_set (key r) r d))
         = (if key r \<in> set (map key (dict_values d)) then map key (dict_values d) else map key (dict_values d) @ [key r])"
    by (simp only: eq [symmetric] old dict_keys_set)
qed

lemma in_order_own:
  assumes "in_order pre (map okey (dict_values d)) st" and "keyed_by key d"
    and okey: "\<And>x. okey x = pre @ key x"
    and "st_order st' = st_order st" and "st_insertion_counter st' = st_insertion_counter st"
  shows "in_order pre (map okey (dict_values (dict_set (key r) r d))) (touch (okey r) st')"
proof -
  have okeys: "map okey rows = map ((@) pre) (map key rows)" for rows by (simp add: okey)
  have st': "in_order pre (map okey (dict_values d)) st'"
    using assms(1) in_order_cong [OF assms(4,5)] by blast
  have mem: "okey r \<in> set (map okey (dict_values d)) \<longleftrightarrow> key r \<in> set (map key (dict_values d))"
    by (auto simp: okey)
  show ?thesis
  proof (cases "key r \<in> set (map key (dict_values d))")
    case True
    then have "map okey (dict_values (dict_set (key r) r d)) = map okey (dict_values d)"
      unfolding okeys keyed_by_set(2) [OF assms(2)] by simp
    with in_order_touch_known [OF st'] True mem show ?thesis by simp
  next
    case False
    then have "map okey (dict_values (dict_set (key r) r d)) = map okey (dict_values d) @ [okey r]"
      unfolding okeys keyed_by_set(2) [OF assms(2)] by (simp add: okey)
    with in_order_touch_new [OF st'] False mem show ?thesis by (simp add: okey starts_with_def)
  qed
qed

section \<open>The invariant of the store\<close>

text \<open>Messages and conversations are listed in the order of their first write.\<close>

definition messages_ordered :: "store \<Rightarrow> bool" where
  "messages_ordered st \<longleftrightarrow> keyed_by m_message_id (st_messages st)
     \<and> in_order ''message:'' (map message_order_key (dict_values (st_messages st))) st"

definition conversations_ordered :: "store \<Rightarrow> bool" where
  "conversations_ordered st \<longleftrightarrow> keyed_by c_conversation_id (st_conversations st)
     \<and> in_order ''conversation:'' (map conversation_order_key (dict_values (st_conversations st))) st"

text \<open>Every chain counts up by one, belongs to its session, and no event id occurs twice.\<close>

definition chain_wf :: "string \<Rightarrow> audit_event list \<Rightarrow> bool" where
  "chain_wf sid chain \<longleftrightarrow> successively (\<lambda>a b. a_sequence b = a_sequence a + 1) chain
     \<and> (\<forall>e \<in> set chain. a_session_id e = sid)"

definition audit_wf :: "store \<Rightarrow> bool" where
  "audit_wf st \<longleftrightarrow> (\<forall>sid. chain_wf sid (audit_chain st sid))
     \<and> distinct (map a_event_id (concat (dict_values (st_audit st))))"

definition store_ok :: "store \<Rightarrow> bool" where
  "store_ok st \<longleftrightarrow> messages_ordered st \<and> conversations_ordered st \<and> audit_wf st"

lemma store_ok_empty: "store_ok empty_store"
  by (simp add: store_ok_def messages_ordered_def conversations_ordered_def audit_wf_def chain_wf_def keyed_by_def
      in_order_def order_of_def empty_store_def audit_chain_def)

lemma store_ok_same_data:
  assumes "store_ok s" and "same_data t s"
  shows "store_ok t"
proof -
  have "t = s\<lparr>st_fail_next_write := st_fail_next_write t, st_closed := st_closed t\<rparr>"
    using assms(2) by (cases s; cases t) (simp add: same_data_def)
  then obtain a b where t: "t = s\<lparr>st_fail_next_write := a, st_closed := b\<rparr>" by blast
  show ?thesis using assms(1) unfolding t
    by (simp add: store_ok_def messages_ordered_def conversations_ordered_def audit_wf_def audit_chain_def in_order_def order_of_def)
qed

lemma store_ok_hooks: "store_ok st \<Longrightarrow> store_ok (st\<lparr>st_fail_next_write := a\<rparr>)"
  by (erule store_ok_same_data) (simp add: same_data_def)

lemma messages_ordered_other:
  assumes "messages_ordered st" and "\<not> starts_with ''message:'' key"
    and "st_messages st' = st_messages st" and "st_order st' = st_order st"
    and "st_insertion_counter st' = st_insertion_counter st"
  shows "messages_ordered (touch key st')"
  using assms in_order_touch_other [of _ _ st' key] in_order_cong [OF assms(4,5)]
  by (simp add: messages_ordered_def)

lemma conversations_ordered_other:
  assumes "conversations_ordered st" and "\<not> starts_with ''conversation:'' key"
    and "st_conversations st' = st_conversations st" and "st_order st' = st_order st"
    and "st_insertion_counter st' = st_insertion_counter st"
  shows "conversations_ordered (touch key st')"
  using assms in_order_touch_other [of _ _ st' key] in_order_cong [OF assms(4,5)]
  by (simp add: conversations_ordered_def)

lemma keeps_write_record:
  assumes "\<And>st. store_ok st \<Longrightarrow> store_ok (touch key (upd st))"
  shows "keeps store_ok (write_record key upd)"
  unfolding keeps_def
proof (intro allI impI)
  fix st assume "store_ok st"
  then show "store_ok (snd (write_record key upd st))"
    using assms [of st] store_ok_hooks [of st]
    by (simp add: write_record_def andthen_run write_guard_def modifying_def)
qed

lemma keeps_write_other:
  assumes "\<not> starts_with ''message:'' key" and "\<not> starts_with ''conversation:'' key"
    and "\<And>st. st_messages (upd st) = st_messages st \<and> st_conversations (upd st) = st_conversations st
           \<and> st_order (upd st) = st_order st \<and> st_insertion_counter (upd st) = st_insertion_counter st
           \<and> st_audit (upd st) = st_audit st"
  shows "keeps store_ok (write_record key upd)"
proof (rule keeps_write_record)
  fix st assume "store_ok st"
  then show "store_ok (touch key (upd st))"
    using assms messages_ordered_other [of st key "upd st"] conversations_ordered_other [of st key "upd st"]
    by (simp add: store_ok_def audit_wf_def audit_chain_def)
qed

lemma keeps_save_message [keeps_intros]: "keeps store_ok (save_message r)"
  unfolding save_message_def
proof (rule keeps_write_record)
  fix st assume ok: "store_ok st"
  let ?st' = "st\<lparr>st_messages := dict_set (m_message_id r) r (st_messages st)\<rparr>"
  have "in_order ''message:'' (map message_order_key (dict_values (dict_set (m_message_id r) r (st_messages st))))
          (touch (message_order_key r) ?st')"
    by (rule in_order_own [where st = st, OF _ _ message_order_key_def])
      (use ok in \<open>simp_all add: store_ok_def messages_ordered_def del: map_map\<close>)
  moreover have "conversations_ordered (touch (message_order_key r) ?st')"
    by (rule conversations_ordered_other [of st])
      (use ok in \<open>auto simp: store_ok_def message_order_key_def starts_with_def\<close>)
  ultimately show "store_ok (touch (message_order_key r) ?st')"
    using ok by (simp add: store_ok_def messages_ordered_def keyed_by_set audit_wf_def audit_chain_def)
qed

lemma keeps_save_conversation [keeps_intros]: "keeps store_ok (save_conversation r)"
  unfolding save_conversation_def
proof (rule keeps_write_record)
  fix st assume ok: "store_ok st"
  let ?st' = "st\<lparr>st_conversations := dict_set (c_conversation_id r) r (st_conversations st)\<rparr>"
  have "in_order ''conversation:'' (map conversation_order_key
            (dict_values (dict_set (c_conversation_id r) r (st_conversations st))))
          (touch (conversation_order_key r) ?st')"
    by (rule in_order_own [where st = st, OF _ _ conversation_order_key_def])
      (use ok in \<open>simp_all add: store_ok_def conversations_ordered_def del: map_map\<close>)
  moreover have "messages_ordered (touch (conversation_order_key r) ?st')"
    by (rule messages_ordered_other [of st])
      (use ok in \<open>auto simp: store_ok_def conversation_order_key_def starts_with_def\<close>)
  ultimately show "store_ok (touch (conversation_order_key r) ?st')"
    using ok by (simp add: store_ok_def conversations_ordered_def keyed_by_set audit_wf_def audit_chain_def)
qed

lemma keeps_saves [keeps_intros]:
  "keeps store_ok (save_session s)" "keeps store_ok (save_cycle cy)" "keeps store_ok (save_plan p)"
  "keeps store_ok (save_task t)" "keeps store_ok (save_failure f)" "keeps store_ok (save_retry_decision rd)"
  "keeps store_ok (save_context_summary cs)"
  by (simp_all add: save_defs keeps_write_other order_keys starts_with_def)

lemma keeps_save_blob [keeps_intros]: "keeps store_ok (save_blob r)"
proof -
  have "store_ok (touch (blob_order_key r) (st\<lparr>st_blobs := d\<rparr>))" if "store_ok st" for st d
    using that messages_ordered_other [of st "blob_order_key r" "st\<lparr>st_blobs := d\<rparr>"]
      conversations_ordered_other [of st "blob_order_key r" "st\<lparr>st_blobs := d\<rparr>"]
    by (simp add: store_ok_def audit_wf_def audit_chain_def blob_order_key_def starts_with_def)
  moreover have "keeps store_ok write_guard"
    by (auto simp: keeps_def write_guard_def store_ok_hooks)
  ultimately show ?thesis
    unfolding save_blob_def by (intro keeps_intros) (simp_all add: keeps_def modifying_def throw_def)
qed

lemma keeps_write_guard [keeps_intros]: "keeps store_ok write_guard"
  by (auto simp: keeps_def write_guard_def store_ok_hooks)

lemma keeps_save_tasks [keeps_intros]: "keeps store_ok (save_tasks ts)"
  unfolding save_tasks_def by (intro keeps_intros) (rule store_ok_same_data)

lemma chain_in_audit: "e \<in> set (audit_chain st sid) \<Longrightarrow> e \<in> set (concat (dict_values (st_audit st)))"
  by (cases "dict_get (st_audit st) sid") (auto simp: audit_chain_def dest!: map_of_SomeD intro!: bexI)

lemma concat_dict_set_new:
  "dict_get d k = None \<Longrightarrow> concat (dict_values (dict_set k [] d)) = concat (dict_values d)"
  by (simp add: dict_get_None_iff dict_values_set_new)

lemma mset_concat_dict_set:
  "dict_get d k = Some c \<Longrightarrow>
     mset (concat (dict_values (dict_set k (c @ [e]) d))) = add_mset e (mset (concat (dict_values d)))"
  by (induction d) (auto split: if_splits)

lemma distinct_map_mset: "mset xs = mset ys \<Longrightarrow> distinct (map f xs) = distinct (map f ys)"
  by (intro mset_eq_imp_distinct_iff) simp

lemma chain_wf_snoc:
  "chain_wf sid (xs @ [x]) \<longleftrightarrow> chain_wf sid xs \<and> a_session_id x = sid
     \<and> (xs = [] \<or> a_sequence x = a_sequence (last xs) + 1)"
  by (auto simp: chain_wf_def successively_append_iff)

text \<open>The dictionary of chains after \<open>setdefault\<close>, and after the append.\<close>

definition audit_open :: "string \<Rightarrow> store \<Rightarrow> (string, audit_event list) dict" where
  "audit_open sid st = dict_set sid (audit_chain st sid) (st_audit st)"

lemma audit_open_get [simp]:
  "dict_get (audit_open sid st) k = (if k = sid then Some (audit_chain st sid) else dict_get (st_audit st) k)"
  by (simp add: audit_open_def)

lemma audit_open_events [simp]: "concat (dict_values (audit_open sid st)) = concat (dict_values (st_audit st))"
proof (cases "dict_get (st_audit st) sid")
  case None
  then show ?thesis by (simp add: audit_open_def audit_chain_def concat_dict_set_new)
next
  case (Some c)
  then show ?thesis by (simp add: audit_open_def audit_chain_def update_triv)
qed

lemma audit_wf_open: "audit_wf st \<Longrightarrow> audit_wf (st\<lparr>st_audit := audit_open sid st\<rparr>)"
  by (auto simp: audit_wf_def audit_chain_def [of "st\<lparr>st_audit := x\<rparr>" for x]) (simp_all add: audit_chain_def)

lemma audit_wf_append:
  assumes "audit_wf st" and "sid = a_session_id e" and "a_event_id e \<notin> a_event_id ` set (concat (dict_values (st_audit st)))"
    and "audit_chain st sid = [] \<or> a_sequence e = a_sequence (last (audit_chain st sid)) + 1"
  shows "audit_wf (st\<lparr>st_audit := dict_set sid (audit_chain st sid @ [e]) (audit_open sid st)\<rparr>)"
proof -
  let ?audit = "dict_set sid (audit_chain st sid @ [e]) (audit_open sid st)"
  have "mset (concat (dict_values ?audit)) = mset (e # concat (dict_values (st_audit st)))"
    using mset_concat_dict_set [of "audit_open sid st" sid "audit_chain st sid" e] by simp
  from distinct_map_mset [OF this, of a_event_id]
  have "distinct (map a_event_id (concat (dict_values ?audit)))"
    using assms(1,3) by (simp add: audit_wf_def)
  moreover have "chain_wf k (audit_chain (st\<lparr>st_audit := ?audit\<rparr>) k)" for k
  proof -
    have "audit_chain (st\<lparr>st_audit := ?audit\<rparr>) k = (if k = sid then audit_chain st sid @ [e] else audit_chain st k)"
      by (simp add: audit_chain_def)
    then show ?thesis using assms(1,2,4) by (simp add: audit_wf_def chain_wf_snoc)
  qed
  ultimately show ?thesis by (simp add: audit_wf_def)
qed

lemma append_audit_unfold:
  "append_audit_event event st =
     (if st_closed st \<or> st_fail_next_write st then (Inl (projl (fst (write_guard st))), snd (write_guard st))
      else let sid = a_session_id event; chain = audit_chain st sid in
        if a_sequence event \<in> set (map a_sequence chain)
           \<or> a_event_id event \<in> a_event_id ` set (concat (dict_values (st_audit st)))
        then (Inl (PersistenceError ''AUDIT_APPEND_ONLY_VIOLATION'' False
                [(''event_id'', JStr (a_event_id event)), (''sequence'', JInt (a_sequence event))]),
              st\<lparr>st_audit := audit_open sid st\<rparr>)
        else if chain \<noteq> [] \<and> a_sequence event \<noteq> a_sequence (last chain) + 1
        then (Inl (PersistenceError ''AUDIT_SEQUENCE_GAP'' False
                [(''expected'', JInt (a_sequence (last chain) + 1)), (''got'', JInt (a_sequence event))]),
              st\<lparr>st_audit := audit_open sid st\<rparr>)
        else (Inr (), st\<lparr>st_audit := dict_set sid (chain @ [event]) (audit_open sid st)\<rparr>))"
  by (simp add: append_audit_event_def write_guard_def Let_def audit_open_events [unfolded audit_open_def]
      audit_open_def del: set_concat)

text \<open>What an append does: it refuses and leaves every chain as it was, or adds the event at the end.\<close>

lemma append_audit_Inl:
  assumes "append_audit_event event st = (Inl e, st')"
  shows "audit_chain st' sid = audit_chain st sid"
proof -
  have "audit_chain (snd (write_guard st)) sid = audit_chain st sid"
    by (simp add: write_guard_def audit_chain_def)
  moreover have "audit_chain (st\<lparr>st_audit := audit_open k st\<rparr>) sid = audit_chain st sid" for k
    by (simp add: audit_chain_def)
  ultimately show ?thesis using assms unfolding append_audit_unfold Let_def by (auto split: if_splits)
qed

lemma append_audit_Inr:
  assumes "append_audit_event event st = (Inr u, st')"
  shows "audit_chain st' sid = (if sid = a_session_id event then audit_chain st sid @ [event] else audit_chain st sid)"
    and "audit_chain st (a_session_id event) \<noteq> [] \<Longrightarrow>
           a_sequence event = a_sequence (last (audit_chain st (a_session_id event))) + 1"
    and "\<not> st_closed st" and "\<not> st_fail_next_write st"
    and "st' = st\<lparr>st_audit := st_audit st'\<rparr>"
proof -
  let ?k = "a_session_id event"
  have *: "\<not> st_closed st" "\<not> st_fail_next_write st"
    "st' = st\<lparr>st_audit := dict_set ?k (audit_chain st ?k @ [event]) (audit_open ?k st)\<rparr>"
    "audit_chain st ?k \<noteq> [] \<Longrightarrow> a_sequence event = a_sequence (last (audit_chain st ?k)) + 1"
    using assms unfolding append_audit_unfold Let_def by (simp_all split: if_splits)
  then show "audit_chain st' sid = (if sid = ?k then audit_chain st sid @ [event] else audit_chain st sid)"
    by (simp add: audit_chain_def)
  show "st' = st\<lparr>st_audit := st_audit st'\<rparr>" using *(3) by simp
qed (use assms in \<open>simp_all add: append_audit_unfold Let_def split: if_splits\<close>)

lemma keeps_append_audit [keeps_intros]: "keeps store_ok (append_audit_event event)"
  unfolding keeps_def
proof (intro allI impI)
  fix st assume ok: "store_ok st"
  have other: "store_ok (st\<lparr>st_audit := a\<rparr>)" if "audit_wf (st\<lparr>st_audit := a\<rparr>)" for a
    using ok that in_order_cong [of "st\<lparr>st_audit := a\<rparr>" st]
    by (simp add: store_ok_def messages_ordered_def conversations_ordered_def)
  have "store_ok (snd (write_guard st))" using keepsD [OF keeps_write_guard ok] .
  moreover have "audit_wf st" using ok by (simp add: store_ok_def)
  ultimately show "store_ok (snd (append_audit_event event st))"
    using audit_wf_open [of st "a_session_id event"] audit_wf_append [of st "a_session_id event" event]
    unfolding append_audit_unfold Let_def by (auto intro!: other)
qed

lemma keeps_reset [keeps_intros]: "keeps store_ok reset"
  unfolding reset_def
  by (intro keeps_intros)
    (auto simp: keeps_def modifying_def intro: store_ok_same_data [OF store_ok_empty])

lemma keeps_close [keeps_intros]: "keeps store_ok close"
  unfolding close_def by (auto simp: keeps_def modifying_def same_data_def intro: store_ok_same_data)

section \<open>Every sequence of calls\<close>

text \<open>
  The writing methods as a datatype. \<open>Transaction\<close> runs its calls in one \<open>with store.transaction()\<close>
  block that the first exception leaves; \<open>Guarded\<close> is a call whose exception the caller catches.
\<close>

datatype store_op =
  Save_session session_record | Save_conversation conversation_record | Save_cycle cycle_record
  | Save_plan plan_record | Save_task task_record | Save_tasks "task_record list"
  | Save_message message_record | Save_failure failure_record
  | Save_retry_decision retry_decision_record | Save_context_summary context_summary_record
  | Save_blob blob_record | Append_audit_event audit_event | Close
  | Transaction "store_op list" | Guarded store_op

fun run_op :: "store_op \<Rightarrow> unit store_act" and run_ops :: "store_op list \<Rightarrow> unit store_act" where
  "run_op (Save_session r) = save_session r"
| "run_op (Save_conversation r) = save_conversation r"
| "run_op (Save_cycle r) = save_cycle r"
| "run_op (Save_plan r) = save_plan r"
| "run_op (Save_task r) = save_task r"
| "run_op (Save_tasks rs) = save_tasks rs"
| "run_op (Save_message r) = save_message r"
| "run_op (Save_failure r) = save_failure r"
| "run_op (Save_retry_decision r) = save_retry_decision r"
| "run_op (Save_context_summary r) = save_context_summary r"
| "run_op (Save_blob r) = save_blob r"
| "run_op (Append_audit_event e) = append_audit_event e"
| "run_op Close = close"
| "run_op (Transaction ops) = transaction (run_ops ops)"
| "run_op (Guarded op) = catching (run_op op) (\<lambda>_. ret ())"
| "run_ops [] = ret ()"
| "run_ops (op # ops) = andthen (run_op op) (run_ops ops)"

lemma keeps_run: "keeps store_ok (run_op op)" "keeps store_ok (run_ops ops)"
  by (induction op and ops rule: run_op_run_ops.induct)
    (auto simp: keeps_intros intro!: keeps_transaction keeps_catching keeps_andthen
      intro: store_ok_same_data keeps_intros)

text \<open>Whatever was called, messages and conversations are listed in the order of their first write.\<close>

lemma list_messages_order:
  assumes "store_ok st"
  shows "list_messages st cid direction =
    filter (\<lambda>m. m_conversation_id m = cid \<and> (direction = None \<or> Some (m_direction m) = direction))
      (dict_values (st_messages st))"
  using assms unfolding store_ok_def messages_ordered_def list_messages_def
  by (intro by_order_id) blast

lemma list_conversations_order:
  assumes "store_ok st"
  shows "list_conversations st sid = filter (\<lambda>c. c_session_id c = sid) (dict_values (st_conversations st))"
    and "find_conversations_in_states st states =
           filter (\<lambda>c. c_status c \<in> set states) (dict_values (st_conversations st))"
  using assms unfolding store_ok_def conversations_ordered_def list_conversations_def find_conversations_in_states_def
  by (auto intro!: by_order_id simp del: map_map)

text \<open>Saving a message again never moves it in its conversation's listing; a new one comes last.\<close>

lemma list_messages_save:
  assumes "store_ok st" and "save_message r st = (Inr u, st')"
  shows "map m_message_id (list_messages st' (m_conversation_id r) None) =
    (if m_message_id r \<notin> set (dict_keys (st_messages st))
     then map m_message_id (list_messages st (m_conversation_id r) None) @ [m_message_id r]
     else map m_message_id (list_messages st' (m_conversation_id r) None))"
proof -
  have ok': "store_ok st'" using keepsD [OF keeps_save_message assms(1), of r] assms(2) by simp
  have "st_messages st' = dict_set (m_message_id r) r (st_messages st)"
    using assms(2) by (simp add: save_defs write_record_Inr)
  then show ?thesis
    by (simp add: list_messages_order [OF ok'] list_messages_order [OF assms(1)] dict_values_set_new)
qed

section \<open>The audit chain only grows\<close>

definition extends :: "store \<Rightarrow> store \<Rightarrow> bool" where
  "extends a b \<longleftrightarrow> (\<forall>sid. \<exists>new. audit_chain b sid = audit_chain a sid @ new)"

lemma extends_refl [simp]: "extends a a"
  by (simp add: extends_def)

lemma extends_trans: "extends a b \<Longrightarrow> extends b c \<Longrightarrow> extends a c"
  unfolding extends_def by (metis append_assoc)

lemma extends_same_audit: "st_audit b = st_audit a \<Longrightarrow> extends a b"
  by (simp add: extends_def audit_chain_def)

lemma keeps_extends_same: "(\<And>st. st_audit (snd (m st)) = st_audit st) \<Longrightarrow> keeps (extends a) m"
  unfolding keeps_def extends_def audit_chain_def by simp

lemma keeps_extends_write:
  "(\<And>st. st_audit (upd st) = st_audit st) \<Longrightarrow> keeps (extends a) (write_record key upd)"
  by (rule keeps_extends_same) (simp add: write_record_def andthen_run write_guard_def modifying_def)

lemma keeps_extends_saves:
  "keeps (extends a) (save_session s)" "keeps (extends a) (save_conversation c)"
  "keeps (extends a) (save_cycle cy)" "keeps (extends a) (save_plan p)"
  "keeps (extends a) (save_task t)" "keeps (extends a) (save_message m)" "keeps (extends a) (save_failure f)"
  "keeps (extends a) (save_retry_decision rd)" "keeps (extends a) (save_context_summary cs)"
  by (simp_all add: save_defs keeps_extends_write)

lemma keeps_extends_blob: "keeps (extends a) (save_blob r)"
  by (rule keeps_extends_same) (simp add: save_blob_def andthen_run write_guard_def modifying_def throw_def)

lemma keeps_extends_close: "keeps (extends a) close"
  by (rule keeps_extends_same) (simp add: close_def modifying_def)

lemma keeps_extends_append: "keeps (extends a) (append_audit_event e)"
  unfolding keeps_def
proof (intro allI impI)
  fix st assume "extends a st"
  moreover have "extends st (snd (append_audit_event e st))"
    by (cases "append_audit_event e st"; cases "fst (append_audit_event e st)")
      (auto simp: extends_def append_audit_Inl append_audit_Inr(1))
  ultimately show "extends a (snd (append_audit_event e st))" by (rule extends_trans)
qed

lemma keeps_extends_transaction:
  assumes "keeps (extends a) body"
  shows "keeps (extends a) (transaction body)"
proof (rule keeps_transaction [OF assms])
  show "extends a t" if "extends a s" "same_data t s" for s t
  proof -
    have "st_audit t = st_audit s" using that(2) by (cases s; cases t) (simp add: same_data_def)
    with that(1) show ?thesis by (simp add: extends_def audit_chain_def)
  qed
qed

lemma keeps_extends_run: "keeps (extends a) (run_op op)" "keeps (extends a) (run_ops ops)"
  by (induction op and ops rule: run_op_run_ops.induct)
    (auto simp: save_tasks_def keeps_extends_saves keeps_extends_blob keeps_extends_append keeps_extends_close
      intro!: keeps_extends_transaction keeps_catching keeps_andthen keeps_intros keeps_extends_saves)

section \<open>Properties of the store\<close>

text \<open>
  After any calls (failing ones, rolled back transactions and a closed store included), the
  messages of a conversation are listed in the order of their first write: rewriting a message
  (its confirmation, its validation) never moves it, which is what the resume and recovery code
  relies on when it reads the last message.
\<close>

theorem messages_listed_in_write_order:
  "list_messages (snd (run_ops ops empty_store)) cid None =
     filter (\<lambda>m. m_conversation_id m = cid) (dict_values (st_messages (snd (run_ops ops empty_store))))"
proof -
  have "store_ok (snd (run_ops ops empty_store))"
    using keepsD [OF keeps_run(2) store_ok_empty] .
  from list_messages_order [OF this] show ?thesis by simp
qed

text \<open>
  The audit trail is append-only: whatever is called, every session's chain is the one before
  followed by new events; no call of the store reorders, rewrites or drops an event.
\<close>

theorem audit_append_only:
  "\<exists>new. audit_chain (snd (run_ops ops st)) sid = audit_chain st sid @ new"
  using keepsD [OF keeps_extends_run(2) extends_refl, of st ops] by (simp add: extends_def)

text \<open>
  In every store that calls can build, a session's audit sequence numbers count up by one
  without a gap, every event is filed under its own session, and no event id occurs twice in the
  whole store.
\<close>

theorem audit_chains_consecutive:
  fixes ops :: "store_op list"
  defines "st \<equiv> snd (run_ops ops empty_store)"
  shows "successively (\<lambda>a b. a_sequence b = a_sequence a + 1) (audit_chain st sid)
     \<and> list_all (\<lambda>e. a_session_id e = sid) (audit_chain st sid)
     \<and> distinct (map a_event_id (concat (dict_values (st_audit st))))"
proof -
  have "store_ok st" using keepsD [OF keeps_run(2) store_ok_empty] by (simp add: st_def)
  then show ?thesis by (simp add: store_ok_def audit_wf_def chain_wf_def list_all_iff)
qed

text \<open>
  A transaction block is all or nothing: when an exception leaves it, every collection, the
  insertion order and the audit chains are those of its entry, nested blocks and blocks whose inner
  exceptions were caught included.
\<close>

theorem transaction_all_or_nothing:
  assumes "run_op (Transaction ops) st = (Inl e, st')"
  shows "same_data st' st"
  using assms transaction_rolls_back by simp

text \<open>Splitting a blob into ranges and reading them back.\<close>

definition read_chunks :: "store \<Rightarrow> string \<Rightarrow> nat \<Rightarrow> nat \<Rightarrow> (exn + string) list" where
  "read_chunks st blob_id n k = map (\<lambda>i. read_blob_range st blob_id (int (i * n)) (int n)) [0..<k]"

lemma take_drop_chunks:
  "concat (map (\<lambda>i. take n (drop (i * n) xs)) [0..<k]) = take (k * n) xs"
proof (induction k)
  case (Suc k)
  then show ?case by (simp add: take_add add.commute [of n])
qed simp

text \<open>
  Raw output is never lost to chunking: reading a stored blob by consecutive ranges of any
  positive size until its end returns pieces of at most that size whose concatenation is the
  content, byte for byte.
\<close>

theorem blob_chunks_roundtrip:
  assumes "get_blob st blob_id = Some blob" and "length (b_content blob) \<le> k * n"
  shows "\<exists>pieces. read_chunks st blob_id n k = map Inr pieces
     \<and> concat pieces = b_content blob \<and> list_all (\<lambda>piece. length piece \<le> n) pieces"
proof (intro exI conjI)
  let ?pieces = "map (\<lambda>i. take n (drop (i * n) (b_content blob))) [0..<k]"
  have "read_blob_range st blob_id (int (i * n)) (int n) = Inr (take n (drop (i * n) (b_content blob)))" for i
    using assms(1) by (simp add: read_blob_range_def get_blob_def py_slice_range del: of_nat_mult)
  then show "read_chunks st blob_id n k = map Inr ?pieces" by (simp add: read_chunks_def)
  show "concat ?pieces = b_content blob" using assms(2) by (simp add: take_drop_chunks)
  show "list_all (\<lambda>piece. length piece \<le> n) ?pieces" by (simp add: list_all_iff)
qed

definition sample_blob :: blob_record where
  "sample_blob = \<lparr>b_blob_id = ''b'', b_session_id = ''s'', b_task_id = ''t'', b_blob_type = STDOUT,
     b_content = ''abcde'', b_size_bytes = 5, b_created_at = 0\<rparr>"

theorem blob_chunks_roundtrip_witness:
  "\<exists>pieces. read_chunks (snd (save_blob sample_blob empty_store)) ''b'' 2 3 = map Inr pieces
     \<and> concat pieces = ''abcde'' \<and> list_all (\<lambda>piece. length piece \<le> 2) pieces"
  using blob_chunks_roundtrip [of "snd (save_blob sample_blob empty_store)" "''b''" sample_blob 3 2]
  by (simp add: save_blob_def sample_blob_def empty_store_def flow_simps write_guard_def get_blob_def)

theorem transaction_all_or_nothing_witness:
  "same_data (snd (run_op (Transaction [Save_blob sample_blob, Save_blob (sample_blob\<lparr>b_size_bytes := 4\<rparr>)]) empty_store))
     empty_store"
  by (rule transaction_all_or_nothing [where
        ops = "[Save_blob sample_blob, Save_blob (sample_blob\<lparr>b_size_bytes := 4\<rparr>)]" and st = empty_store and
        e = "PersistenceError ''BLOB_SIZE_MISMATCH'' False [(''blob_id'', JStr ''b'')]"])
    (simp add: transaction_def save_blob_def sample_blob_def empty_store_def flow_simps write_guard_def)

end
