(* ===== verification/App.thy ===== *)
theory App
  imports Store
begin

text \<open>
  The running application: \<open>domain/clock.py\<close>, \<open>domain/ids.py\<close>, \<open>observability/event_bus.py\<close> and
  \<open>observability/audit_log.py\<close>, and the state they share.

  The \<open>env\<close> record is what the process gets from outside: the readings of the two clocks and the
  hexadecimal UUIDs, each a sequence read one element at a time, and SHA-256. The \<open>app\<close> record holds
  the store, the audit log's cache of the last event of each session, the events the bus has delivered to
  its other subscribers, the bus counters and the state of the circuit breaker.
\<close>

section \<open>State\<close>

record env =
  e_now :: "nat \<Rightarrow> time"
  e_monotonic_ms :: "nat \<Rightarrow> int"
  e_uuid :: "nat \<Rightarrow> string"
  e_sha256_hex :: "string \<Rightarrow> string"

text \<open>The fields of \<open>resilience/circuit_breaker.py\<close>'s \<open>CircuitBreaker\<close>.\<close>

record breaker =
  br_session_id :: "string option"
  br_state :: circuit_state
  br_consecutive_failures :: int
  br_opened_at_ms :: "int option"
  br_half_open_calls :: int

record app =
  w_env :: env
  w_clock_reads :: nat
  w_mono_reads :: nat
  w_ids :: nat
  w_store :: store
  w_audit_last :: "(string, audit_event option) dict"
  w_delivered :: "event list"
  w_published_count :: nat
  w_subscriber_errors :: nat
  w_breaker :: breaker

type_synonym 'a app_act = "(app, exn, 'a) act"

abbreviation on_store :: "'a store_act \<Rightarrow> 'a app_act" where
  "on_store \<equiv> on_part w_store (\<lambda>st w. w\<lparr>w_store := st\<rparr>)"

section \<open>Clock and identifiers\<close>

definition clock_now :: "time app_act" where
  "clock_now w = (Inr (e_now (w_env w) (w_clock_reads w)), w\<lparr>w_clock_reads := w_clock_reads w + 1\<rparr>)"

definition clock_monotonic_ms :: "int app_act" where
  "clock_monotonic_ms w = (Inr (e_monotonic_ms (w_env w) (w_mono_reads w)), w\<lparr>w_mono_reads := w_mono_reads w + 1\<rparr>)"

definition new_id :: "string \<Rightarrow> string app_act" where
  "new_id prefix w = (Inr (prefix @ ''-'' @ e_uuid (w_env w) (w_ids w)), w\<lparr>w_ids := w_ids w + 1\<rparr>)"

definition new_session_id :: "string app_act" where "new_session_id = new_id ''sess''"
definition new_conversation_id :: "string app_act" where "new_conversation_id = new_id ''conv''"
definition new_message_id :: "string app_act" where "new_message_id = new_id ''msg''"
definition new_cycle_id :: "string app_act" where "new_cycle_id = new_id ''cyc''"
definition new_event_id :: "string app_act" where "new_event_id = new_id ''evt''"
definition new_blob_id :: "string app_act" where "new_blob_id = new_id ''blob''"
definition new_failure_id :: "string app_act" where "new_failure_id = new_id ''fail''"
definition new_summary_id :: "string app_act" where "new_summary_id = new_id ''sum''"
definition new_decision_id :: "string app_act" where "new_decision_id = new_id ''dec''"

lemmas id_defs = new_session_id_def new_conversation_id_def new_message_id_def new_cycle_id_def new_event_id_def new_blob_id_def
  new_failure_id_def new_summary_id_def new_decision_id_def new_id_def

section \<open>The event bus\<close>

record 's subscription =
  sub_name :: string
  sub_handler :: "event \<Rightarrow> ('s, exn, unit) act"
  sub_critical :: bool
  sub_event_types :: "event_type list option"

record 's event_bus =
  bus_subscriptions :: "'s subscription list"
  bus_published_count :: nat
  bus_subscriber_errors :: nat

definition subscribe :: "'s subscription \<Rightarrow> 's event_bus \<Rightarrow> exn + 's event_bus" where
  "subscribe sub bus =
     (if sub_name sub \<in> set (map sub_name (bus_subscriptions bus))
      then Inl (ValueError (''subscriber already registered: '' @ sub_name sub))
      else Inr (bus\<lparr>bus_subscriptions := bus_subscriptions bus @ [sub]\<rparr>))"

definition unsubscribe :: "string \<Rightarrow> 's event_bus \<Rightarrow> 's event_bus" where
  "unsubscribe name bus =
     bus\<lparr>bus_subscriptions := filter (\<lambda>s. sub_name s \<noteq> name) (bus_subscriptions bus)\<rparr>"

definition wants :: "'s subscription \<Rightarrow> event \<Rightarrow> bool" where
  "wants sub e = (case sub_event_types sub of None \<Rightarrow> True | Some types \<Rightarrow> ev_event_type e \<in> set types)"

text \<open>The loop of \<open>publish\<close>; the state carries the error counter.\<close>

fun deliver :: "'s subscription list \<Rightarrow> event \<Rightarrow> (nat \<times> 's, exn, unit) act" where
  "deliver [] e s = (Inr (), s)"
| "deliver (sub # subs) e (errors, s) =
     (if \<not> wants sub e then deliver subs e (errors, s)
      else case sub_handler sub e s of
        (Inr _, s') \<Rightarrow> deliver subs e (errors, s')
      | (Inl x, s') \<Rightarrow>
          if sub_critical sub then (Inl x, (errors + 1, s')) else deliver subs e (errors + 1, s'))"

definition bus_publish :: "event \<Rightarrow> ('s event_bus \<times> 's, exn, unit) act" where
  "bus_publish e = (\<lambda>(bus, s).
     case deliver (bus_subscriptions bus) e (bus_subscriber_errors bus, s) of
       (r, (errors, s')) \<Rightarrow>
         (r, (bus\<lparr>bus_published_count := bus_published_count bus + 1, bus_subscriber_errors := errors\<rparr>, s')))"

section \<open>The audit log\<close>

definition hash_input ::
  "string \<Rightarrow> int \<Rightarrow> string \<Rightarrow> string \<Rightarrow> string option \<Rightarrow> string option \<Rightarrow> string option \<Rightarrow> string option
   \<Rightarrow> string \<Rightarrow> time \<Rightarrow> details \<Rightarrow> json" where
  "hash_input event_id sequence previous_event_hash session_id conversation_id cycle_id plan_id task_id
     event_type timestamp payload =
   JObj [(''event_id'', JStr event_id), (''sequence'', JInt sequence),
     (''previous_event_hash'', JStr previous_event_hash), (''session_id'', JStr session_id),
     (''conversation_id'', jstr_opt conversation_id), (''cycle_id'', jstr_opt cycle_id),
     (''plan_id'', jstr_opt plan_id), (''task_id'', jstr_opt task_id), (''event_type'', JStr event_type),
     (''timestamp'', JStr (isoformat timestamp)), (''payload'', JObj payload)]"

definition audit_hash_input :: "audit_event \<Rightarrow> json" where
  "audit_hash_input e =
     hash_input (a_event_id e) (a_sequence e) (a_previous_event_hash e) (a_session_id e) (a_conversation_id e)
       (a_cycle_id e) (a_plan_id e) (a_task_id e) (a_event_type e) (a_timestamp e) (a_payload e)"

definition recompute_hash :: "(string \<Rightarrow> string) \<Rightarrow> audit_event \<Rightarrow> string" where
  "recompute_hash sha e = chain_hash sha (a_previous_event_hash e) (audit_hash_input e)"

definition last_of :: "string \<Rightarrow> audit_event option app_act" where
  "last_of sid w =
     (case dict_get (w_audit_last w) sid of
        Some cached \<Rightarrow> (Inr cached, w)
      | None \<Rightarrow> let e = get_last_audit_event (w_store w) sid
                in (Inr e, w\<lparr>w_audit_last := dict_set sid e (w_audit_last w)\<rparr>))"

definition make_audit_event :: "(string \<Rightarrow> string) \<Rightarrow> audit_event option \<Rightarrow> string \<Rightarrow> event \<Rightarrow> audit_event" where
  "make_audit_event sha previous event_id event =
     (let sequence = (case previous of None \<Rightarrow> 1 | Some p \<Rightarrow> a_sequence p + 1);
          previous_hash = (case previous of None \<Rightarrow> GENESIS_HASH | Some p \<Rightarrow> a_event_hash p);
          hashed = hash_input event_id sequence previous_hash (ev_session_id event) (ev_conversation_id event)
            (ev_cycle_id event) (ev_plan_id event) (ev_task_id event)
            (event_type_value (ev_event_type event)) (ev_timestamp event) (ev_payload event)
      in \<lparr>a_event_id = event_id, a_sequence = sequence, a_previous_event_hash = previous_hash,
          a_event_hash = chain_hash sha previous_hash hashed, a_session_id = ev_session_id event,
          a_conversation_id = ev_conversation_id event, a_cycle_id = ev_cycle_id event,
          a_plan_id = ev_plan_id event, a_task_id = ev_task_id event,
          a_event_type = event_type_value (ev_event_type event), a_timestamp = ev_timestamp event,
          a_payload = ev_payload event\<rparr>)"

definition audit_handle :: "event \<Rightarrow> audit_event option app_act" where
  "audit_handle event =
     (if \<not> audited event then ret None
      else bnd (last_of (ev_session_id event)) (\<lambda>previous.
           bnd new_event_id (\<lambda>event_id.
           bnd (reading (\<lambda>w. make_audit_event (e_sha256_hex (w_env w)) previous event_id event)) (\<lambda>audited.
           andthen (on_store (append_audit_event audited))
          (andthen (modifying (\<lambda>w. w\<lparr>w_audit_last := dict_set (ev_session_id event) (Some audited) (w_audit_last w)\<rparr>))
           (ret (Some audited)))))))"

text \<open>\<open>verify\<close>: pages of the store's listing, every link checked, the first failure stops the walk.\<close>

record audit_verification =
  av_valid :: bool
  av_checked :: nat
  av_first_broken_sequence :: "int option"
  av_reason :: "string option"

definition check_link :: "(string \<Rightarrow> string) \<Rightarrow> audit_event \<Rightarrow> int \<Rightarrow> string \<Rightarrow> string option" where
  "check_link sha e expected_sequence previous_hash =
     (if a_sequence e \<noteq> expected_sequence then Some ''SEQUENCE_GAP''
      else if a_previous_event_hash e \<noteq> previous_hash then Some ''PREVIOUS_HASH_MISMATCH''
      else if recompute_hash sha e \<noteq> a_event_hash e then Some ''HASH_MISMATCH''
      else None)"

fun check_page :: "(string \<Rightarrow> string) \<Rightarrow> audit_event list \<Rightarrow> nat \<Rightarrow> string \<Rightarrow> audit_verification + nat \<times> string" where
  "check_page sha [] checked previous_hash = Inr (checked, previous_hash)"
| "check_page sha (e # es) checked previous_hash =
     (case check_link sha e (int checked + 1) previous_hash of
        Some reason \<Rightarrow> Inl \<lparr>av_valid = False, av_checked = checked,
                            av_first_broken_sequence = Some (a_sequence e), av_reason = Some reason\<rparr>
      | None \<Rightarrow> check_page sha es (checked + 1) (a_event_hash e))"

definition verified :: "nat \<Rightarrow> audit_verification" where
  "verified n = \<lparr>av_valid = True, av_checked = n, av_first_broken_sequence = None, av_reason = None\<rparr>"

text \<open>A page size of zero makes \<open>page[-1]\<close> an \<open>IndexError\<close>.\<close>

function verify_pages ::
  "(string \<Rightarrow> string) \<Rightarrow> store \<Rightarrow> string \<Rightarrow> nat \<Rightarrow> int option \<Rightarrow> nat \<Rightarrow> string \<Rightarrow> exn + audit_verification" where
  "verify_pages sha st sid page_size after checked previous_hash =
     (let page = list_audit_events st sid after (int page_size)
      in case check_page sha page checked previous_hash of
           Inl broken \<Rightarrow> Inr broken
         | Inr (checked', previous_hash') \<Rightarrow>
             if length page < page_size then Inr (verified checked')
             else if page = [] then Inl (Other_Exn ''IndexError'' ''list index out of range'')
             else verify_pages sha st sid page_size (Some (a_sequence (last page))) checked' previous_hash')"
  by pat_completeness auto

definition verify :: "(string \<Rightarrow> string) \<Rightarrow> store \<Rightarrow> string \<Rightarrow> nat \<Rightarrow> exn + audit_verification" where
  "verify sha st sid page_size = verify_pages sha st sid page_size None 0 GENESIS_HASH"

section \<open>Publishing\<close>

text \<open>
  The audit log is the bus's first subscriber and critical; the others (tracker, telemetry, streams)
  only record what they are given.
\<close>

definition audit_subscription :: "app subscription" where
  "audit_subscription = \<lparr>sub_name = ''audit_log'', sub_handler = \<lambda>e. andthen (audit_handle e) (ret ()),
     sub_critical = True, sub_event_types = None\<rparr>"

definition stream_subscription :: "app subscription" where
  "stream_subscription = \<lparr>sub_name = ''stream'',
     sub_handler = \<lambda>e. modifying (\<lambda>w. w\<lparr>w_delivered := w_delivered w @ [e]\<rparr>),
     sub_critical = False, sub_event_types = None\<rparr>"

definition publish :: "event \<Rightarrow> unit app_act" where
  "publish e w =
     (case bus_publish e (\<lparr>bus_subscriptions = [audit_subscription, stream_subscription],
            bus_published_count = w_published_count w, bus_subscriber_errors = w_subscriber_errors w\<rparr>, w) of
        (r, (bus, w')) \<Rightarrow>
          (r, w'\<lparr>w_published_count := bus_published_count bus, w_subscriber_errors := bus_subscriber_errors bus\<rparr>))"

section \<open>Running an action of the application\<close>

lemma clock_now_run [flow_simps]:
  "clock_now w = (Inr (e_now (w_env w) (w_clock_reads w)), w\<lparr>w_clock_reads := w_clock_reads w + 1\<rparr>)"
  by (simp add: clock_now_def)

lemma deliver_all_succeed:
  assumes "\<And>sub s. sub \<in> set subs \<Longrightarrow> wants sub e \<Longrightarrow> sub_critical sub \<Longrightarrow> isOK (fst (sub_handler sub e s))"
  shows "isOK (fst (deliver subs e (n, s)))"
  using assms
proof (induction subs arbitrary: n s)
  case (Cons sub subs)
  have "isOK (fst (deliver subs e (m, t)))" for m t using Cons by simp
  with Cons.prems [of sub s] show ?case
    by (cases "sub_handler sub e s"; cases "fst (sub_handler sub e s)") auto
qed simp

lemma publish_run:
  "publish e w =
     (case audit_handle e w of
        (Inl x, w') \<Rightarrow> (Inl x, w'\<lparr>w_published_count := w_published_count w + 1,
                                  w_subscriber_errors := w_subscriber_errors w + 1\<rparr>)
      | (Inr _, w') \<Rightarrow> (Inr (), w'\<lparr>w_delivered := w_delivered w' @ [e], w_published_count := w_published_count w + 1,
                                   w_subscriber_errors := w_subscriber_errors w\<rparr>))"
  by (simp add: publish_def bus_publish_def audit_subscription_def stream_subscription_def wants_def flow_simps
      split: prod.splits sum.splits)

text \<open>Publishing changes no record of the store: only the audit chains and the write hook.\<close>

definition store_data :: "store \<Rightarrow> store" where
  "store_data st = st\<lparr>st_audit := [], st_fail_next_write := False\<rparr>"

lemma store_dataD:
  assumes "store_data a = store_data b"
  shows "st_sessions a = st_sessions b" "st_conversations a = st_conversations b" "st_cycles a = st_cycles b"
    "st_plans a = st_plans b" "st_tasks a = st_tasks b" "st_messages a = st_messages b"
    "st_failures a = st_failures b" "st_retry_decisions a = st_retry_decisions b"
    "st_summaries a = st_summaries b" "st_blobs a = st_blobs b" "st_order a = st_order b" "st_closed a = st_closed b"
  using assms by (cases a; cases b; simp add: store_data_def)+

lemma store_data_audit [simp]:
  "store_data (st\<lparr>st_audit := a\<rparr>) = store_data st" "store_data (st\<lparr>st_fail_next_write := f\<rparr>) = store_data st"
  by (simp_all add: store_data_def)

lemma append_audit_data: "append_audit_event e st = (r, st') \<Longrightarrow> store_data st' = store_data st"
  unfolding append_audit_unfold Let_def by (auto simp: write_guard_def split: if_splits)

lemma audit_handle_data: "audit_handle e w = (r, w') \<Longrightarrow> store_data (w_store w') = store_data (w_store w) \<and> w_breaker w' = w_breaker w"
  by (auto simp: audit_handle_def flow_simps id_defs last_of_def Let_def split: option.splits sum.splits prod.splits if_splits
      dest: append_audit_data)

lemma publish_data:
  "publish e w = (r, w') \<Longrightarrow> store_data (w_store w') = store_data (w_store w) \<and> w_breaker w' = w_breaker w"
  by (auto simp: publish_run split: prod.splits sum.splits dest: audit_handle_data)

lemma publish_records:
  assumes "publish e w = (r, w')"
  shows "st_sessions (w_store w') = st_sessions (w_store w) \<and> st_conversations (w_store w') = st_conversations (w_store w)
    \<and> st_cycles (w_store w') = st_cycles (w_store w) \<and> st_plans (w_store w') = st_plans (w_store w)
    \<and> st_tasks (w_store w') = st_tasks (w_store w) \<and> st_messages (w_store w') = st_messages (w_store w)
    \<and> st_failures (w_store w') = st_failures (w_store w)
    \<and> st_retry_decisions (w_store w') = st_retry_decisions (w_store w)
    \<and> st_summaries (w_store w') = st_summaries (w_store w) \<and> st_blobs (w_store w') = st_blobs (w_store w)
    \<and> st_order (w_store w') = st_order (w_store w) \<and> st_closed (w_store w') = st_closed (w_store w)
    \<and> w_breaker w' = w_breaker w"
  using publish_data [OF assms] store_dataD [of "w_store w'" "w_store w"] by simp

section \<open>The chain of a session\<close>

fun chain_valid :: "(string \<Rightarrow> string) \<Rightarrow> nat \<Rightarrow> string \<Rightarrow> audit_event list \<Rightarrow> bool" where
  "chain_valid sha n previous_hash [] = True"
| "chain_valid sha n previous_hash (e # es) =
     (check_link sha e (int n + 1) previous_hash = None \<and> chain_valid sha (n + 1) (a_event_hash e) es)"

definition last_hash :: "string \<Rightarrow> audit_event list \<Rightarrow> string" where
  "last_hash h es = (if es = [] then h else a_event_hash (last es))"

lemma last_hash_simps [simp]:
  "last_hash h [] = h" "last_hash h (e # es) = last_hash (a_event_hash e) es" "last_hash h (es @ [e]) = a_event_hash e"
  by (auto simp: last_hash_def)

lemma chain_valid_append:
  "chain_valid sha n h (xs @ ys) \<longleftrightarrow> chain_valid sha n h xs \<and> chain_valid sha (n + length xs) (last_hash h xs) ys"
  by (induction xs arbitrary: n h) auto

lemma check_page_valid:
  "check_page sha es n h = Inr r \<longleftrightarrow> chain_valid sha n h es \<and> r = (n + length es, last_hash h es)"
  by (induction es arbitrary: n h) (auto split: option.splits)

lemma check_link_None:
  "check_link sha e n h = None \<longleftrightarrow> a_sequence e = n \<and> a_previous_event_hash e = h \<and> recompute_hash sha e = a_event_hash e"
  by (simp add: check_link_def)

lemma chain_valid_sequence:
  "chain_valid sha n h es \<Longrightarrow> i < length es \<Longrightarrow> a_sequence (es ! i) = int (n + i) + 1"
proof (induction es arbitrary: n h i)
  case (Cons e es)
  then show ?case by (cases i) (auto simp: check_link_None)
qed simp

text \<open>The pages of a walk end: each page starts after the last sequence number of the one before.\<close>

definition events_after :: "store \<Rightarrow> string \<Rightarrow> int option \<Rightarrow> audit_event list" where
  "events_after st sid after =
     filter (\<lambda>e. case after of None \<Rightarrow> True | Some n \<Rightarrow> n < a_sequence e) (audit_chain st sid)"

lemma list_audit_take: "list_audit_events st sid after (int k) = take k (events_after st sid after)"
  by (simp add: list_audit_events_def events_after_def py_slice_prefix)

lemma last_page_in: "take k xs \<noteq> [] \<Longrightarrow> last (take k xs) \<in> set xs"
  by (metis in_set_takeD last_in_set)

termination verify_pages
proof (relation "measure (\<lambda>(_, st, sid, _, after, _, _). length (events_after st sid after))", goal_cases)
  case (2 sha st sid page_size after checked previous_hash page r checked' h')
  let ?e = "last page"
  have mem: "?e \<in> set (events_after st sid after)"
    using 2 last_page_in by (simp add: list_audit_take)
  let ?p = "\<lambda>e. case after of None \<Rightarrow> True | Some n \<Rightarrow> n < a_sequence e"
  have "events_after st sid (Some (a_sequence ?e)) = filter (\<lambda>x. a_sequence ?e < a_sequence x) (events_after st sid after)"
    using mem by (auto simp: events_after_def intro!: filter_cong split: option.splits)
  moreover have "length (filter (\<lambda>x. a_sequence ?e < a_sequence x) (events_after st sid after))
                 < length (events_after st sid after)"
    using mem by (intro length_filter_less [of ?e]) auto
  ultimately show ?case by simp
qed simp

declare verify_pages.simps [simp del]

section \<open>The walk over pages is the walk over the chain\<close>

definition verify_whole :: "(string \<Rightarrow> string) \<Rightarrow> audit_event list \<Rightarrow> nat \<Rightarrow> string \<Rightarrow> audit_verification" where
  "verify_whole sha es n h = (case check_page sha es n h of Inl b \<Rightarrow> b | Inr (m, _) \<Rightarrow> verified m)"

lemma check_page_append:
  "check_page sha (xs @ ys) n h =
     (case check_page sha xs n h of Inl b \<Rightarrow> Inl b | Inr (m, h') \<Rightarrow> check_page sha ys m h')"
  by (induction xs arbitrary: n h) (auto split: option.splits)

lemma successively_less:
  assumes "successively (\<lambda>a b. a_sequence b = a_sequence a + 1) es"
  shows "sorted_wrt (\<lambda>a b. a_sequence a < a_sequence b) es"
proof -
  have "successively (\<lambda>a b. a_sequence a < a_sequence b) es"
    using assms by (rule successively_mono) simp
  then show ?thesis by (simp add: successively_conv_sorted_wrt transp_def)
qed

lemma filter_after_last:
  assumes "sorted_wrt (\<lambda>a b. a_sequence a < a_sequence b) xs" and "0 < k" and "xs \<noteq> []"
  shows "filter (\<lambda>x. a_sequence (last (take k xs)) < a_sequence x) xs = drop k xs"
proof -
  let ?l = "last (take k xs)"
  have split: "xs = take k xs @ drop k xs" by simp
  have ne: "take k xs \<noteq> []" using assms by auto
  then have snoc: "take k xs = butlast (take k xs) @ [?l]" by simp
  have "sorted_wrt (\<lambda>a b. a_sequence a < a_sequence b) (butlast (take k xs) @ [?l])"
    using sorted_wrt_take [OF assms(1), of k] snoc by simp
  then have "\<forall>x \<in> set (butlast (take k xs) @ [?l]). a_sequence x \<le> a_sequence ?l"
    by (auto simp: sorted_wrt_append intro: less_imp_le)
  then have "\<forall>x \<in> set (take k xs). a_sequence x \<le> a_sequence ?l" using snoc by metis
  moreover have "\<forall>x \<in> set (drop k xs). a_sequence ?l < a_sequence x"
  proof -
    have "sorted_wrt (\<lambda>a b. a_sequence a < a_sequence b) (take k xs @ drop k xs)" using assms(1) by simp
    then show ?thesis using last_in_set [OF ne] unfolding sorted_wrt_append by blast
  qed
  ultimately have "filter (\<lambda>x. a_sequence ?l < a_sequence x) (take k xs @ drop k xs) = drop k xs"
    unfolding filter_append by (simp add: filter_empty_conv not_less filter_id_conv del: append_take_drop_id)
  then show ?thesis by simp
qed

lemma verify_pages_whole:
  assumes "sorted_wrt (\<lambda>a b. a_sequence a < a_sequence b) (audit_chain st sid)" and "0 < k"
  shows "verify_pages sha st sid k after n h = Inr (verify_whole sha (events_after st sid after) n h)"
proof (induction "length (events_after st sid after)" arbitrary: after n h rule: less_induct)
  case less
  let ?es = "events_after st sid after"
  let ?page = "take k ?es"
  have sorted: "sorted_wrt (\<lambda>a b. a_sequence a < a_sequence b) ?es"
    using assms(1) by (simp add: events_after_def sorted_wrt_filter)
  show ?case
  proof (cases "check_page sha ?page n h")
    case (Inl b)
    then have "check_page sha ?es n h = Inl b"
      using check_page_append [of sha ?page "drop k ?es" n h] by simp
    with Inl show ?thesis by (simp add: verify_pages.simps list_audit_take verify_whole_def)
  next
    case (Inr r)
    obtain m h' where r: "r = (m, h')" by (cases r)
    show ?thesis
    proof (cases "length ?page < k")
      case True
      then have "?page = ?es" by simp
      with Inr r True show ?thesis by (simp add: verify_pages.simps list_audit_take verify_whole_def)
    next
      case False
      with assms(2) have ne: "?page \<noteq> []" by auto
      then have nonempty: "?es \<noteq> []" by auto
      have "events_after st sid (Some (a_sequence (last ?page)))
            = filter (\<lambda>x. a_sequence (last ?page) < a_sequence x) ?es"
        using last_page_in [OF ne] by (auto simp: events_after_def intro!: filter_cong split: option.splits)
      then have rest: "events_after st sid (Some (a_sequence (last ?page))) = drop k ?es"
        using filter_after_last [OF sorted assms(2) nonempty] by simp
      have "verify_pages sha st sid k (Some (a_sequence (last ?page))) m h'
            = Inr (verify_whole sha (drop k ?es) m h')"
        using less [of "Some (a_sequence (last ?page))" m h'] rest nonempty assms(2) by simp
      moreover have "verify_whole sha ?es n h = verify_whole sha (drop k ?es) m h'"
        using check_page_append [of sha ?page "drop k ?es" n h] Inr r by (simp add: verify_whole_def)
      ultimately show ?thesis
        using Inr r False ne by (subst verify_pages.simps) (simp add: list_audit_take)
    qed
  qed
qed

section \<open>Every publication leaves a valid chain\<close>

definition audit_synced :: "app \<Rightarrow> bool" where
  "audit_synced w \<longleftrightarrow>
     (\<forall>sid. chain_valid (e_sha256_hex (w_env w)) 0 GENESIS_HASH (audit_chain (w_store w) sid))
     \<and> (\<forall>sid c. dict_get (w_audit_last w) sid = Some c \<longrightarrow> c = get_last_audit_event (w_store w) sid)"

lemma audit_synced_cong:
  assumes "w_env w' = w_env w" and "w_audit_last w' = w_audit_last w" and "st_audit (w_store w') = st_audit (w_store w)"
  shows "audit_synced w' = audit_synced w"
  using assms by (simp add: audit_synced_def audit_chain_def get_last_audit_event_def)

lemma last_of_run:
  assumes "audit_synced w"
  shows "\<exists>w'. last_of sid w = (Inr (get_last_audit_event (w_store w) sid), w')
     \<and> audit_synced w' \<and> w_store w' = w_store w \<and> w_env w' = w_env w"
  using assms unfolding last_of_def audit_synced_def
  by (cases "dict_get (w_audit_last w) sid") (auto simp: Let_def)

lemma make_audit_event_link:
  assumes "chain_valid sha 0 GENESIS_HASH chain"
  shows "chain_valid sha 0 GENESIS_HASH
           (chain @ [make_audit_event sha (if chain = [] then None else Some (last chain)) eid e])"
proof (cases "chain = []")
  case True
  then show ?thesis
    by (simp add: check_link_None make_audit_event_def recompute_hash_def audit_hash_input_def)
next
  case False
  have "a_sequence (last chain) = int (length chain)"
    using chain_valid_sequence [OF assms, of "length chain - 1"] False
    by (cases "length chain") (simp_all add: last_conv_nth)
  with False assms show ?thesis
    by (simp add: chain_valid_append check_link_None make_audit_event_def recompute_hash_def audit_hash_input_def
        last_hash_def Let_def)
qed

lemma audit_synced_append:
  assumes "audit_synced w" and chain: "\<And>k. audit_chain st' k = (if k = sid then audit_chain (w_store w) sid @ [e] else audit_chain (w_store w) k)"
    and "chain_valid (e_sha256_hex (w_env w)) 0 GENESIS_HASH (audit_chain (w_store w) sid @ [e])"
  shows "audit_synced (w\<lparr>w_ids := n, w_store := st', w_audit_last := dict_set sid (Some e) (w_audit_last w)\<rparr>)"
proof -
  have "get_last_audit_event st' k = (if k = sid then Some e else get_last_audit_event (w_store w) k)" for k
    by (simp add: get_last_audit_event_def chain)
  with assms show ?thesis unfolding audit_synced_def by simp
qed

lemma audit_handle_run:
  assumes "audited event" and "last_of (ev_session_id event) w = (Inr prev, w1)"
    and "new_event_id w1 = (Inr eid, w2)" and "e = make_audit_event (e_sha256_hex (w_env w2)) prev eid event"
    and "append_audit_event e (w_store w2) = (r, st')"
  shows "audit_handle event w = (case r of
       Inl x \<Rightarrow> (Inl x, w2\<lparr>w_store := st'\<rparr>)
     | Inr _ \<Rightarrow> (Inr (Some e), w2\<lparr>w_store := st',
                     w_audit_last := dict_set (ev_session_id event) (Some e) (w_audit_last w2)\<rparr>))"
proof (cases r)
  case (Inl x)
  with assms show ?thesis by (simp add: audit_handle_def flow_simps)
next
  case (Inr u)
  with assms show ?thesis by (simp add: audit_handle_def flow_simps)
qed

lemma keeps_audit_handle [keeps_intros]: "keeps audit_synced (audit_handle event)"
  unfolding keeps_def
proof (intro allI impI)
  fix w assume synced: "audit_synced w"
  let ?sid = "ev_session_id event"
  let ?sha = "e_sha256_hex (w_env w)"
  obtain w1 where w1: "last_of ?sid w = (Inr (get_last_audit_event (w_store w) ?sid), w1)" "audit_synced w1"
    "w_store w1 = w_store w" "w_env w1 = w_env w"
    using last_of_run [OF synced] by blast
  obtain eid where eid: "new_event_id w1 = (Inr eid, w1\<lparr>w_ids := w_ids w1 + 1\<rparr>)" by (simp add: id_defs)
  obtain e where e: "e = make_audit_event ?sha (get_last_audit_event (w_store w) ?sid) eid event" by blast
  have sid: "a_session_id e = ?sid" by (simp add: e make_audit_event_def Let_def)
  have link: "chain_valid ?sha 0 GENESIS_HASH (audit_chain (w_store w) ?sid @ [e])"
    using make_audit_event_link [of ?sha "audit_chain (w_store w) ?sid" eid event] synced
    by (simp add: audit_synced_def get_last_audit_event_def Let_def e del: chain_valid.simps)
  obtain r st' where app: "append_audit_event e (w_store w) = (r, st')" by (cases "append_audit_event e (w_store w)")
  show "audit_synced (snd (audit_handle event w))"
  proof (cases "audited event")
    case True
    note run = audit_handle_run [OF True w1(1) eid, of e r st']
    show ?thesis
    proof (cases r)
      case (Inl x)
      then have "\<And>sid. audit_chain st' sid = audit_chain (w_store w1) sid"
        using app append_audit_Inl w1(3) by simp
      then show ?thesis
        using run e app Inl w1 unfolding audit_synced_def by (simp add: get_last_audit_event_def)
    next
      case (Inr u)
      with app have app': "append_audit_event e (w_store w) = (Inr u, st')" by simp
      have "audit_synced (w1\<lparr>w_ids := w_ids w1 + 1, w_store := st', w_audit_last := dict_set ?sid (Some e) (w_audit_last w1)\<rparr>)"
        by (rule audit_synced_append [OF w1(2)])
          (use append_audit_Inr(1) [OF app'] sid link in \<open>simp_all add: w1(3,4)\<close>)
      with run e app Inr w1(3,4) show ?thesis by simp
    qed
  qed (use synced in \<open>simp add: audit_handle_def flow_simps\<close>)
qed

lemma keeps_publish [keeps_intros]: "keeps audit_synced (publish e)"
  unfolding keeps_def
proof (intro allI impI)
  fix w assume "audit_synced w"
  then have "audit_synced (snd (audit_handle e w))" by (rule keepsD [OF keeps_audit_handle])
  then show "audit_synced (snd (publish e w))"
    by (cases "audit_handle e w"; cases "fst (audit_handle e w)")
      (auto simp: publish_run elim!: audit_synced_cong [THEN iffD2, rotated -1])
qed

section \<open>Properties of the audit trail\<close>

text \<open>
  A life of the process as the audit trail sees it: publications (whose exceptions the caller
  handles), writes of the store that fail, and restarts, which forget the cache.
\<close>

datatype life_step = Publish event | Store_breaks | Restart

fun live :: "life_step \<Rightarrow> unit app_act" where
  "live (Publish e) = catching (publish e) (\<lambda>_. ret ())"
| "live Store_breaks = modifying (\<lambda>w. w\<lparr>w_store := (w_store w)\<lparr>st_fail_next_write := True\<rparr>\<rparr>)"
| "live Restart = modifying (\<lambda>w. w\<lparr>w_audit_last := []\<rparr>)"

definition new_breaker :: breaker where
  "new_breaker = \<lparr>br_session_id = None, br_state = Circuit_CLOSED, br_consecutive_failures = 0,
     br_opened_at_ms = None, br_half_open_calls = 0\<rparr>"

definition fresh_app :: "env \<Rightarrow> app" where
  "fresh_app env = \<lparr>w_env = env, w_clock_reads = 0, w_mono_reads = 0, w_ids = 0, w_store = empty_store,
     w_audit_last = [], w_delivered = [], w_published_count = 0, w_subscriber_errors = 0,
     w_breaker = new_breaker\<rparr>"

lemma audit_synced_fresh: "audit_synced (fresh_app env)"
  by (simp add: audit_synced_def fresh_app_def audit_chain_def empty_store_def)

lemma keeps_live: "keeps audit_synced (live step)"
proof (cases step)
  case (Publish e)
  then show ?thesis by (simp add: keeps_catching keeps_publish keeps_ret)
qed (auto simp: keeps_def modifying_def audit_synced_def audit_chain_def get_last_audit_event_def)

lemma chain_valid_sorted:
  assumes "chain_valid sha 0 h es"
  shows "sorted_wrt (\<lambda>a b. a_sequence a < a_sequence b) es"
  using chain_valid_sequence [OF assms] by (simp add: sorted_wrt_iff_nth_less)

lemma env_publish [simp]: "w_env (snd (publish e w)) = w_env w"
proof -
  have "w_env (snd (audit_handle e w)) = w_env w"
    by (auto simp: audit_handle_def flow_simps id_defs last_of_def Let_def split: option.splits sum.splits prod.splits)
  then show ?thesis
    by (cases "audit_handle e w"; cases "fst (audit_handle e w)") (auto simp: publish_run)
qed

lemma env_live [simp]: "w_env (snd (for_each steps live w)) = w_env w"
proof (induction steps arbitrary: w)
  case (Cons step steps)
  have "w_env (snd (live step w)) = w_env w"
  proof (cases step)
    case (Publish e)
    have "w_env (snd (publish e w)) = w_env w" by simp
    with Publish show ?thesis
      by (cases "publish e w"; cases "fst (publish e w)") (auto simp: flow_simps)
  qed (simp_all add: flow_simps)
  with Cons show ?case
    by (cases "live step w"; cases "fst (live step w)") (auto simp: flow_simps)
qed (simp add: flow_simps)

lemma audit_synced_verifies:
  assumes "audit_synced w" and "0 < page_size"
  shows "verify (e_sha256_hex (w_env w)) (w_store w) sid page_size = Inr (verified (length (audit_chain (w_store w) sid)))"
proof -
  have valid: "chain_valid (e_sha256_hex (w_env w)) 0 GENESIS_HASH (audit_chain (w_store w) sid)"
    using assms(1) by (simp add: audit_synced_def)
  have "events_after (w_store w) sid None = audit_chain (w_store w) sid" by (simp add: events_after_def)
  moreover have "check_page (e_sha256_hex (w_env w)) (audit_chain (w_store w) sid) 0 GENESIS_HASH
      = Inr (length (audit_chain (w_store w) sid), last_hash GENESIS_HASH (audit_chain (w_store w) sid))"
    using valid by (simp add: check_page_valid)
  ultimately show ?thesis
    using verify_pages_whole [OF chain_valid_sorted [OF valid] assms(2)]
    by (simp add: verify_def verify_whole_def)
qed

text \<open>
  The audit trail always verifies: after any sequence of publications, failed store writes and
  restarts, the verification of any session's chain, with any positive page size, accepts all of its
  events, whatever the clock, the identifiers and the hash function return.
\<close>

theorem audit_trail_verifies:
  fixes steps :: "life_step list" and env :: env
  defines "w \<equiv> snd (for_each steps live (fresh_app env))"
  assumes "0 < page_size"
  shows "verify (e_sha256_hex env) (w_store w) sid page_size = Inr (verified (length (audit_chain (w_store w) sid)))"
proof -
  have "audit_synced w"
    using keepsD [OF keeps_for_each [OF keeps_live] audit_synced_fresh] by (simp add: w_def)
  moreover have "w_env w = env" by (simp add: w_def) (simp add: fresh_app_def)
  ultimately show ?thesis using audit_synced_verifies [of w page_size sid] assms(2) by simp
qed

section \<open>Tampering\<close>

definition hashed_text :: "audit_event \<Rightarrow> string" where
  "hashed_text e = a_previous_event_hash e @ canonical_json (audit_hash_input e)"

definition same_event :: "audit_event \<Rightarrow> audit_event \<Rightarrow> bool" where
  "same_event a b \<longleftrightarrow> a_event_id a = a_event_id b \<and> a_sequence a = a_sequence b
     \<and> a_previous_event_hash a = a_previous_event_hash b \<and> a_event_hash a = a_event_hash b
     \<and> a_session_id a = a_session_id b \<and> a_conversation_id a = a_conversation_id b
     \<and> a_cycle_id a = a_cycle_id b \<and> a_plan_id a = a_plan_id b \<and> a_task_id a = a_task_id b
     \<and> a_event_type a = a_event_type b \<and> isoformat (a_timestamp a) = isoformat (a_timestamp b)
     \<and> norm (JObj (a_payload a)) = norm (JObj (a_payload b))"

lemma jstr_opt_norm [simp]: "norm (jstr_opt x) = norm (jstr_opt y) \<longleftrightarrow> x = y"
  by (cases x; cases y) (simp_all add: jopt_def)

lemma audit_hash_input_same:
  assumes "norm (audit_hash_input a) = norm (audit_hash_input b)" and "a_event_hash a = a_event_hash b"
  shows "same_event a b"
proof -
  note get = norm_obj_get [OF assms(1) [unfolded audit_hash_input_def hash_input_def]]
  have "a_event_id a = a_event_id b" using get [of "''event_id''"] by simp
  moreover have "a_sequence a = a_sequence b" using get [of "''sequence''"] by simp
  moreover have "a_previous_event_hash a = a_previous_event_hash b" using get [of "''previous_event_hash''"] by simp
  moreover have "a_session_id a = a_session_id b" using get [of "''session_id''"] by simp
  moreover have "a_conversation_id a = a_conversation_id b" using get [of "''conversation_id''"] by simp
  moreover have "a_cycle_id a = a_cycle_id b" using get [of "''cycle_id''"] by simp
  moreover have "a_plan_id a = a_plan_id b" using get [of "''plan_id''"] by simp
  moreover have "a_task_id a = a_task_id b" using get [of "''task_id''"] by simp
  moreover have "a_event_type a = a_event_type b" using get [of "''event_type''"] by simp
  moreover have "isoformat (a_timestamp a) = isoformat (a_timestamp b)" using get [of "''timestamp''"] by simp
  moreover have "norm (JObj (a_payload a)) = norm (JObj (a_payload b))" using get [of "''payload''"] by simp
  ultimately show ?thesis using assms(2) by (simp add: same_event_def)
qed

lemma wf_audit_hash_input: "wf_json (JObj (a_payload e)) \<Longrightarrow> wf_json (audit_hash_input e)"
  by (auto simp: audit_hash_input_def hash_input_def jopt_def split: option.splits)

text \<open>
  C26. The audit trail is tamper evident: two chains that both verify and end in the same hash are
  the same chain, event by event, field by field (payloads up to key order), provided SHA-256
  has no collision among their texts. Changing, inserting, reordering or dropping any event changes
  the last hash.
\<close>

theorem audit_tamper_evident:
  assumes "chain_valid sha 0 GENESIS_HASH xs" and "chain_valid sha 0 GENESIS_HASH ys"
    and "xs \<noteq> []" and "ys \<noteq> []" and "a_event_hash (last xs) = a_event_hash (last ys)"
    and collision_free: "\<And>a b. a \<in> set xs \<Longrightarrow> b \<in> set ys \<Longrightarrow> sha (hashed_text a) = sha (hashed_text b)
           \<Longrightarrow> hashed_text a = hashed_text b"
    and sha_length: "\<And>t. length (sha t) = 64"
    and "\<And>a. a \<in> set xs \<union> set ys \<Longrightarrow> wf_json (JObj (a_payload a))"
  shows "list_all2 same_event xs ys"
  using assms(1-6,8)
proof (induction xs arbitrary: ys rule: rev_induct)
  case (snoc x xs)
  obtain ys' y where ys: "ys = ys' @ [y]" using snoc.prems(4) by (metis append_butlast_last_id)
  have prev_length: "length (last_hash GENESIS_HASH zs) = 64" if "chain_valid sha 0 GENESIS_HASH zs" for zs
  proof (cases zs rule: rev_cases)
    case (snoc zs' z)
    with that have "recompute_hash sha z = a_event_hash z" by (auto simp: chain_valid_append check_link_None)
    then have "a_event_hash z = sha (hashed_text z)" by (simp add: recompute_hash_def chain_hash_def hashed_text_def)
    with snoc sha_length show ?thesis by simp
  qed (simp add: GENESIS_HASH_def)
  have links: "check_link sha x (int (length xs) + 1) (last_hash GENESIS_HASH xs) = None"
    "check_link sha y (int (length ys') + 1) (last_hash GENESIS_HASH ys') = None"
    and valid: "chain_valid sha 0 GENESIS_HASH xs" "chain_valid sha 0 GENESIS_HASH ys'"
    using snoc.prems(1,2) ys by (simp_all add: chain_valid_append)
  have hash: "a_event_hash x = a_event_hash y" using snoc.prems(5) ys by simp
  then have "sha (hashed_text x) = sha (hashed_text y)"
    using links unfolding check_link_None recompute_hash_def chain_hash_def hashed_text_def by metis
  then have texts: "hashed_text x = hashed_text y" using snoc.prems(6) [of x y] ys by simp
  have "length (a_previous_event_hash x) = 64" "length (a_previous_event_hash y) = 64"
    using links prev_length valid by (simp_all add: check_link_None)
  with texts have prev: "a_previous_event_hash x = a_previous_event_hash y"
    and "canonical_json (audit_hash_input x) = canonical_json (audit_hash_input y)"
    unfolding hashed_text_def by simp_all
  then have "norm (audit_hash_input x) = norm (audit_hash_input y)"
    using canonical_json_eq_iff snoc.prems(7) ys wf_audit_hash_input by (metis UnI1 UnI2 in_set_conv_decomp)
  then have same: "same_event x y" by (rule audit_hash_input_same) (rule hash)
  then have len: "length xs = length ys'" using links by (simp add: check_link_None same_event_def)
  show ?case
  proof (cases "xs = []")
    case True
    with len ys same show ?thesis by simp
  next
    case False
    with len have ne: "ys' \<noteq> []" by auto
    have "last_hash GENESIS_HASH xs = last_hash GENESIS_HASH ys'" using links prev by (simp add: check_link_None)
    with False ne have "a_event_hash (last xs) = a_event_hash (last ys')" by (simp add: last_hash_def)
    then have "list_all2 same_event xs ys'"
      using snoc.IH [OF valid False ne] snoc.prems(6,7) ys by auto
    with ys same show ?thesis by (simp add: list_all2_appendI)
  qed
qed simp

definition sample_audit_event :: "details \<Rightarrow> audit_event" where
  "sample_audit_event payload = \<lparr>a_event_id = ''e'', a_sequence = 1, a_previous_event_hash = GENESIS_HASH,
     a_event_hash = GENESIS_HASH, a_session_id = ''s'', a_conversation_id = None, a_cycle_id = None,
     a_plan_id = None, a_task_id = None, a_event_type = ''session.created'', a_timestamp = 0, a_payload = payload\<rparr>"

lemma sample_audit_text:
  "hashed_text (sample_audit_event [(''a'', JInt 1), (''b'', JNull)]) = hashed_text (sample_audit_event [(''b'', JNull), (''a'', JInt 1)])"
  by code_simp

theorem audit_tamper_evident_witness:
  "list_all2 same_event [sample_audit_event [(''a'', JInt 1), (''b'', JNull)]] [sample_audit_event [(''b'', JNull), (''a'', JInt 1)]]"
  by (rule audit_tamper_evident [of "\<lambda>_. GENESIS_HASH"])
    (auto simp: sample_audit_text check_link_None recompute_hash_def chain_hash_def, simp_all add: sample_audit_event_def GENESIS_HASH_def)

theorem audit_trail_verifies_witness:
  "verify (\<lambda>t. t) (w_store (snd (for_each [Restart] live
     (fresh_app \<lparr>e_now = int, e_monotonic_ms = int, e_uuid = \<lambda>_. [], e_sha256_hex = \<lambda>t. t\<rparr>)))) ''s'' 10
   = Inr (verified (length (audit_chain (w_store (snd (for_each [Restart] live
     (fresh_app \<lparr>e_now = int, e_monotonic_ms = int, e_uuid = \<lambda>_. [], e_sha256_hex = \<lambda>t. t\<rparr>)))) ''s'')))"
  using audit_trail_verifies [of 10 "\<lparr>e_now = int, e_monotonic_ms = int, e_uuid = \<lambda>_. [], e_sha256_hex = \<lambda>t. t\<rparr>" "[Restart]" "''s''"]
  by simp

definition sample_env :: env where
  "sample_env = \<lparr>e_now = int, e_monotonic_ms = (\<lambda>i. 1000 * int i), e_uuid = (\<lambda>i. replicate i (CHR ''0'')),
     e_sha256_hex = (\<lambda>_. GENESIS_HASH)\<rparr>"

section \<open>In a healthy application publishing succeeds\<close>

text \<open>
  The store is open and takes writes, the audit log is in step with it, UUIDs do not repeat and the audit
  events carry ids already drawn.
\<close>

definition drawn_ids :: "app \<Rightarrow> bool" where
  "drawn_ids w \<longleftrightarrow> (\<forall>e \<in> set (concat (dict_values (st_audit (w_store w)))).
     \<exists>n < w_ids w. a_event_id e = ''evt-'' @ e_uuid (w_env w) n)"

definition healthy :: "app \<Rightarrow> bool" where
  "healthy w \<longleftrightarrow> \<not> st_closed (w_store w) \<and> \<not> st_fail_next_write (w_store w) \<and> audit_synced w
     \<and> inj (e_uuid (w_env w)) \<and> drawn_ids w"

lemma healthy_fresh_app: "inj (e_uuid env) \<Longrightarrow> healthy (fresh_app env)"
  by (simp add: healthy_def audit_synced_fresh drawn_ids_def) (simp add: fresh_app_def empty_store_def)

lemma healthy_cong:
  assumes "healthy w" and "w_env w' = w_env w" and "w_audit_last w' = w_audit_last w"
    and "st_audit (w_store w') = st_audit (w_store w)" and "w_ids w \<le> w_ids w'"
    and "\<not> st_closed (w_store w')" and "\<not> st_fail_next_write (w_store w')"
  shows "healthy w'"
proof -
  have "drawn_ids w'"
    unfolding drawn_ids_def assms(2,4)
  proof
    fix e assume "e \<in> set (concat (dict_values (st_audit (w_store w))))"
    then obtain n where "n < w_ids w" and "a_event_id e = ''evt-'' @ e_uuid (w_env w) n"
      using assms(1) unfolding healthy_def drawn_ids_def by blast
    with assms(5) show "\<exists>n < w_ids w'. a_event_id e = ''evt-'' @ e_uuid (w_env w) n" by force
  qed
  then show ?thesis using assms by (simp add: healthy_def audit_synced_cong [OF assms(2,3,4)])
qed

lemma append_audit_succeeds:
  assumes "\<not> st_closed st" and "\<not> st_fail_next_write st"
    and "a_sequence e \<notin> a_sequence ` set (audit_chain st (a_session_id e))"
    and "a_event_id e \<notin> a_event_id ` set (concat (dict_values (st_audit st)))"
    and "audit_chain st (a_session_id e) = [] \<or> a_sequence e = a_sequence (last (audit_chain st (a_session_id e))) + 1"
  shows "append_audit_event e st = (Inr (), st\<lparr>st_audit :=
    dict_set (a_session_id e) (audit_chain st (a_session_id e) @ [e]) (audit_open (a_session_id e) st)\<rparr>)"
  using assms unfolding append_audit_unfold Let_def by auto

lemma next_sequence_new:
  assumes "chain_valid sha 0 GENESIS_HASH chain"
  shows "a_sequence (make_audit_event sha (if chain = [] then None else Some (last chain)) eid e) = int (length chain) + 1"
    and "int (length chain) + 1 \<notin> a_sequence ` set chain"
proof -
  have "chain \<noteq> [] \<Longrightarrow> a_sequence (last chain) = int (length chain)"
    using chain_valid_sequence [OF assms, of "length chain - 1"] by (cases "length chain") (simp_all add: last_conv_nth)
  then show "a_sequence (make_audit_event sha (if chain = [] then None else Some (last chain)) eid e) = int (length chain) + 1"
    by (simp add: make_audit_event_def Let_def)
  show "int (length chain) + 1 \<notin> a_sequence ` set chain"
    using chain_valid_sequence [OF assms] by (auto simp: in_set_conv_nth)
qed

lemma audit_handle_healthy:
  assumes "healthy w"
  shows "\<exists>x w'. audit_handle e w = (Inr x, w') \<and> healthy w' \<and> w_delivered w' = w_delivered w \<and> w_clock_reads w' = w_clock_reads w"
proof (cases "audited e")
  case True
  let ?sid = "ev_session_id e"
  let ?sha = "e_sha256_hex (w_env w)"
  let ?chain = "audit_chain (w_store w) ?sid"
  have synced: "audit_synced w" using assms by (simp add: healthy_def)
  obtain w1 where w1: "last_of ?sid w = (Inr (get_last_audit_event (w_store w) ?sid), w1)" "audit_synced w1"
    "w_store w1 = w_store w" "w_env w1 = w_env w"
    using last_of_run [OF synced] by blast
  have w1': "w_ids w1 = w_ids w \<and> w_delivered w1 = w_delivered w \<and> w_clock_reads w1 = w_clock_reads w"
    using w1(1) by (auto simp: last_of_def Let_def split: option.splits)
  obtain eid where eid: "eid = ''evt-'' @ e_uuid (w_env w) (w_ids w)" by blast
  have new: "new_event_id w1 = (Inr eid, w1\<lparr>w_ids := w_ids w1 + 1\<rparr>)" using w1' w1(4) by (simp add: id_defs eid)
  obtain x where x: "x = make_audit_event ?sha (get_last_audit_event (w_store w) ?sid) eid e" by blast
  have fields: "a_session_id x = ?sid" "a_event_id x = eid" by (simp_all add: x make_audit_event_def Let_def)
  have valid: "chain_valid ?sha 0 GENESIS_HASH ?chain" using synced by (simp add: audit_synced_def)
  have seq: "a_sequence x = int (length ?chain) + 1"
    using next_sequence_new(1) [OF valid] by (simp add: x get_last_audit_event_def Let_def)
  have "eid \<notin> a_event_id ` set (concat (dict_values (st_audit (w_store w))))"
  proof
    assume "eid \<in> a_event_id ` set (concat (dict_values (st_audit (w_store w))))"
    then obtain n where "n < w_ids w" and "eid = ''evt-'' @ e_uuid (w_env w) n"
      using assms by (auto simp: healthy_def drawn_ids_def)
    then show False using assms eid by (auto simp: healthy_def dest: injD)
  qed
  moreover have "?chain = [] \<or> a_sequence x = a_sequence (last ?chain) + 1"
  proof (cases "?chain = []")
    case False
    then show ?thesis
      using chain_valid_sequence [OF valid, of "length ?chain - 1"] seq by (cases "length ?chain") (simp_all add: last_conv_nth)
  qed simp
  ultimately have app: "append_audit_event x (w_store w) = (Inr (), (w_store w)\<lparr>st_audit :=
      dict_set ?sid (?chain @ [x]) (audit_open ?sid (w_store w))\<rparr>)" (is "_ = (_, ?st')")
    using append_audit_succeeds [of "w_store w" x, unfolded fields seq] next_sequence_new(2) [OF valid] assms
    unfolding healthy_def seq by blast
  have run: "audit_handle e w = (Inr (Some x), w1\<lparr>w_ids := w_ids w1 + 1, w_store := ?st',
      w_audit_last := dict_set ?sid (Some x) (w_audit_last w1)\<rparr>)" (is "_ = (_, ?w')")
    using audit_handle_run [OF True w1(1) new, of x] x app w1 by simp
  have "audit_synced ?w'" using keepsD [OF keeps_audit_handle synced, of e] run by simp
  moreover have "drawn_ids ?w'"
  proof -
    have "mset (concat (dict_values (dict_set ?sid (?chain @ [x]) (audit_open ?sid (w_store w)))))
        = mset (x # concat (dict_values (st_audit (w_store w))))"
      using mset_concat_dict_set [of "audit_open ?sid (w_store w)" ?sid ?chain x] by simp
    then have "set (concat (dict_values (dict_set ?sid (?chain @ [x]) (audit_open ?sid (w_store w)))))
        = insert x (set (concat (dict_values (st_audit (w_store w)))))"
      by (metis list.simps(15) set_mset_mset)
    then show ?thesis
      using assms fields eid w1(4) w1' unfolding healthy_def drawn_ids_def
      by (simp del: set_concat) (metis less_Suc_eq)
  qed
  ultimately have "healthy ?w'" using assms w1(3,4) by (simp add: healthy_def)
  then show ?thesis using run w1' by simp
qed (use assms in \<open>simp add: audit_handle_def flow_simps\<close>)

lemma publish_healthy:
  assumes "healthy w"
  shows "\<exists>w'. publish e w = (Inr (), w') \<and> healthy w' \<and> w_delivered w' = w_delivered w @ [e] \<and> w_clock_reads w' = w_clock_reads w"
proof -
  obtain x w1 where w1: "audit_handle e w = (Inr x, w1)" "healthy w1" "w_delivered w1 = w_delivered w" "w_clock_reads w1 = w_clock_reads w"
    using audit_handle_healthy [OF assms] by blast
  let ?w' = "w1\<lparr>w_delivered := w_delivered w1 @ [e], w_published_count := w_published_count w + 1,
      w_subscriber_errors := w_subscriber_errors w\<rparr>"
  have "healthy ?w'" by (rule healthy_cong [OF w1(2)]) (use w1(2) in \<open>simp_all add: healthy_def\<close>)
  then show ?thesis using w1 by (simp add: publish_run)
qed

end
