(* ===== verification/Resilience.thy ===== *)
theory Resilience
  imports App Complex_Main
begin

text \<open>
  \<open>resilience/\<close>: the retry schedule and the circuit breaker. The breaker's methods are actions of the
  application (they read the clock and publish); \<open>allow_refines\<close>, \<open>record_success_refines\<close> and
  \<open>record_failure_refines\<close> give what they make of the breaker's fields, for the proofs of the other theories.

  The jitter is computed on rational numbers: the rounding of IEEE doubles is not modelled.
\<close>

section \<open>Configuration\<close>

record retry_section =
  r_max_attempts :: int
  r_base_delay_ms :: int
  r_max_delay_ms :: int
  r_jitter_ratio :: rat

record circuit_breaker_section =
  cb_failure_threshold :: int
  cb_open_duration_ms :: int
  cb_half_open_max_calls :: int

section \<open>\<open>RetryController\<close>\<close>

definition can_retry :: "retry_section \<Rightarrow> int \<Rightarrow> bool" where
  "can_retry cfg attempt \<longleftrightarrow> attempt < r_max_attempts cfg"

text \<open>\<open>round\<close>: to the nearest integer, a half to the even one.\<close>

definition py_round :: "rat \<Rightarrow> int" where
  "py_round x = (let f = \<lfloor>x\<rfloor>; d = x - of_int f
     in if d < 1/2 then f else if 1/2 < d then f + 1 else if even f then f else f + 1)"

definition backoff :: "retry_section \<Rightarrow> int \<Rightarrow> int" where
  "backoff cfg attempt = min (r_base_delay_ms cfg * 2 ^ nat (attempt - 1)) (r_max_delay_ms cfg)"

text \<open>\<open>draw\<close> is what the injected random source returns, \<open>None\<close> when there is none.\<close>

definition delay_ms :: "retry_section \<Rightarrow> rat option \<Rightarrow> int \<Rightarrow> exn + int" where
  "delay_ms cfg draw attempt =
     (if attempt < 1 then Inl (ValueError (''attempt must be >= 1, got '' @ str_int attempt))
      else let base = backoff cfg attempt
        in case draw of
             None \<Rightarrow> Inr base
           | Some u \<Rightarrow>
               if r_jitter_ratio cfg \<le> 0 then Inr base
               else let d = min 1 (max 0 u); factor = 1 + r_jitter_ratio cfg * (2 * d - 1)
                    in Inr (max 0 (py_round (of_int base * factor))))"

definition schedule :: "retry_section \<Rightarrow> int list" where
  "schedule cfg = map (\<lambda>attempt. projr (delay_ms cfg None attempt)) [1..r_max_attempts cfg - 1]"

section \<open>\<open>CircuitBreaker\<close>\<close>

abbreviation upd_breaker :: "(breaker \<Rightarrow> breaker) \<Rightarrow> unit app_act" where
  "upd_breaker f \<equiv> modifying (\<lambda>w. w\<lparr>w_breaker := f (w_breaker w)\<rparr>)"

definition degraded :: "breaker \<Rightarrow> bool" where
  "degraded b \<longleftrightarrow> br_state b \<noteq> Circuit_CLOSED"

definition breaker_event :: "string \<Rightarrow> circuit_state \<Rightarrow> circuit_state \<Rightarrow> int \<Rightarrow> time \<Rightarrow> event" where
  "breaker_event sid current target failures now =
     \<lparr>ev_event_type = BREAKER_STATE_CHANGED, ev_timestamp = now, ev_session_id = sid,
      ev_conversation_id = None, ev_cycle_id = None, ev_plan_id = None, ev_task_id = None,
      ev_payload = state_change_payload (Some (circuit_state_value current)) (circuit_state_value target) None
        @ [(''consecutive_failures'', JInt failures)]\<rparr>"

definition breaker_transition :: "circuit_state \<Rightarrow> unit app_act" where
  "breaker_transition target =
     bnd (reading (\<lambda>w. br_state (w_breaker w))) (\<lambda>current.
     andthen (lifting (assert_transition CIRCUIT_TRANSITIONS circuit_state_value current target ''circuit_breaker''))
    (andthen (upd_breaker (\<lambda>b. b\<lparr>br_state := target\<rparr>))
    (bnd (reading w_breaker) (\<lambda>b.
     case br_session_id b of
       None \<Rightarrow> ret ()
     | Some sid \<Rightarrow>
         bnd clock_now (\<lambda>now. publish (breaker_event sid current target (br_consecutive_failures b) now))))))"

definition trial_call :: "circuit_breaker_section \<Rightarrow> bool app_act" where
  "trial_call cfg =
     bnd (reading (\<lambda>w. br_half_open_calls (w_breaker w))) (\<lambda>calls.
     if calls < cb_half_open_max_calls cfg
     then andthen (upd_breaker (\<lambda>b. b\<lparr>br_half_open_calls := br_half_open_calls b + 1\<rparr>)) (ret True)
     else ret False)"

definition allow :: "circuit_breaker_section \<Rightarrow> bool app_act" where
  "allow cfg =
     bnd (reading w_breaker) (\<lambda>b.
     case br_state b of
       Circuit_CLOSED \<Rightarrow> ret True
     | Circuit_OPEN \<Rightarrow>
         bnd clock_monotonic_ms (\<lambda>t.
         if t - (case br_opened_at_ms b of Some o_ms \<Rightarrow> o_ms | None \<Rightarrow> 0) < cb_open_duration_ms cfg then ret False
         else andthen (upd_breaker (\<lambda>b. b\<lparr>br_half_open_calls := 0\<rparr>))
             (andthen (breaker_transition Circuit_HALF_OPEN) (trial_call cfg)))
     | Circuit_HALF_OPEN \<Rightarrow> trial_call cfg)"

definition record_success :: "unit app_act" where
  "record_success =
     bnd (reading (\<lambda>w. br_state (w_breaker w))) (\<lambda>s.
     case s of
       Circuit_HALF_OPEN \<Rightarrow>
         andthen (upd_breaker (\<lambda>b. b\<lparr>br_consecutive_failures := 0, br_half_open_calls := 0\<rparr>))
           (breaker_transition Circuit_CLOSED)
     | Circuit_CLOSED \<Rightarrow> upd_breaker (\<lambda>b. b\<lparr>br_consecutive_failures := 0\<rparr>)
     | Circuit_OPEN \<Rightarrow> ret ())"

definition open_breaker :: "unit app_act" where
  "open_breaker =
     bnd clock_monotonic_ms (\<lambda>t.
     andthen (upd_breaker (\<lambda>b. b\<lparr>br_opened_at_ms := Some t, br_half_open_calls := 0\<rparr>))
       (breaker_transition Circuit_OPEN))"

definition record_failure :: "circuit_breaker_section \<Rightarrow> unit app_act" where
  "record_failure cfg =
     andthen (upd_breaker (\<lambda>b. b\<lparr>br_consecutive_failures := br_consecutive_failures b + 1\<rparr>))
    (bnd (reading w_breaker) (\<lambda>b.
     case br_state b of
       Circuit_CLOSED \<Rightarrow> whenever (cb_failure_threshold cfg \<le> br_consecutive_failures b) open_breaker
     | Circuit_HALF_OPEN \<Rightarrow> open_breaker
     | Circuit_OPEN \<Rightarrow> ret ()))"

section \<open>The breaker's fields alone\<close>

text \<open>What the methods make of the fields of the breaker at a given time, without the clock, the bus and the table of transitions.\<close>

fun trial_spec :: "circuit_breaker_section \<Rightarrow> breaker \<Rightarrow> bool \<times> breaker" where
  "trial_spec cfg b =
     (if br_half_open_calls b < cb_half_open_max_calls cfg
      then (True, b\<lparr>br_half_open_calls := br_half_open_calls b + 1\<rparr>) else (False, b))"

definition allow_spec :: "circuit_breaker_section \<Rightarrow> int \<Rightarrow> breaker \<Rightarrow> bool \<times> breaker" where
  "allow_spec cfg t b =
     (case br_state b of
        Circuit_CLOSED \<Rightarrow> (True, b)
      | Circuit_OPEN \<Rightarrow>
          if t - (case br_opened_at_ms b of Some o_ms \<Rightarrow> o_ms | None \<Rightarrow> 0) < cb_open_duration_ms cfg then (False, b)
          else trial_spec cfg (b\<lparr>br_half_open_calls := 0, br_state := Circuit_HALF_OPEN\<rparr>)
      | Circuit_HALF_OPEN \<Rightarrow> trial_spec cfg b)"

definition success_spec :: "breaker \<Rightarrow> breaker" where
  "success_spec b =
     (case br_state b of
        Circuit_HALF_OPEN \<Rightarrow> b\<lparr>br_consecutive_failures := 0, br_half_open_calls := 0, br_state := Circuit_CLOSED\<rparr>
      | Circuit_CLOSED \<Rightarrow> b\<lparr>br_consecutive_failures := 0\<rparr>
      | Circuit_OPEN \<Rightarrow> b)"

definition opened :: "int \<Rightarrow> breaker \<Rightarrow> breaker" where
  "opened t b = b\<lparr>br_opened_at_ms := Some t, br_half_open_calls := 0, br_state := Circuit_OPEN\<rparr>"

definition failure_spec :: "circuit_breaker_section \<Rightarrow> int \<Rightarrow> breaker \<Rightarrow> breaker" where
  "failure_spec cfg t b =
     (let b' = b\<lparr>br_consecutive_failures := br_consecutive_failures b + 1\<rparr>
      in case br_state b of
           Circuit_CLOSED \<Rightarrow> if cb_failure_threshold cfg \<le> br_consecutive_failures b' then opened t b' else b'
         | Circuit_HALF_OPEN \<Rightarrow> opened t b'
         | Circuit_OPEN \<Rightarrow> b')"

lemma breaker_publish [simp]: "w_breaker (snd (publish e w)) = w_breaker w"
  using publish_data [of e w] by (cases "publish e w") simp

text \<open>The breaker writes no record.\<close>

definition same_records :: "store \<Rightarrow> app \<Rightarrow> bool" where
  "same_records st w \<longleftrightarrow> store_data (w_store w) = st"

lemma keeps_same_records_publish [keeps_intros]: "keeps (same_records st) (publish e)"
  unfolding keeps_def same_records_def using publish_data by (metis prod.collapse)

lemma keeps_same_records_clock [keeps_intros]:
  "keeps (same_records st) clock_now" "keeps (same_records st) clock_monotonic_ms" "keeps (same_records st) (new_id pre)"
  by (simp_all add: keeps_def same_records_def clock_now_def clock_monotonic_ms_def new_id_def)

lemma keeps_same_records_upd [keeps_intros]: "keeps (same_records st) (upd_breaker f)"
  by (simp add: keeps_def same_records_def modifying_def)

lemma keeps_breaker_transition [keeps_intros]: "keeps (same_records st) (breaker_transition target)"
  unfolding breaker_transition_def by (intro keeps_intros) (auto split: option.splits intro!: keeps_intros)

lemma keeps_trial_call [keeps_intros]: "keeps (same_records st) (trial_call cfg)"
  unfolding trial_call_def by (intro keeps_intros)

lemma keeps_allow [keeps_intros]: "keeps (same_records st) (allow cfg)"
  unfolding allow_def by (intro keeps_intros) (auto split: circuit_state.splits intro!: keeps_intros)

lemma keeps_open_breaker [keeps_intros]: "keeps (same_records st) open_breaker"
  unfolding open_breaker_def by (intro keeps_intros)

lemma keeps_record_failure [keeps_intros]: "keeps (same_records st) (record_failure cfg)"
  unfolding record_failure_def by (intro keeps_intros) (auto split: circuit_state.splits intro!: keeps_intros)

lemma same_records_run:
  assumes "keeps (same_records (store_data (w_store w))) m" and "m w = (r, w')"
  shows "store_data (w_store w') = store_data (w_store w)"
  using keepsD [OF assms(1), of w] assms(2) by (simp add: same_records_def)

text \<open>A legal transition sets the state whether or not its event could be published.\<close>

lemma breaker_transition_state:
  assumes "can_transition CIRCUIT_TRANSITIONS (br_state (w_breaker w)) target"
  shows "w_breaker (snd (breaker_transition target w)) = (w_breaker w)\<lparr>br_state := target\<rparr>"
  using assms
  by (cases "br_session_id (w_breaker w)") (simp_all add: breaker_transition_def flow_simps assert_transition_def)

lemma breaker_transition_Inl:
  assumes "can_transition CIRCUIT_TRANSITIONS (br_state (w_breaker w)) target"
    and "fst (breaker_transition target w) = Inl x"
  shows "\<exists>e v. fst (publish e v) = Inl x"
  using assms
  by (cases "br_session_id (w_breaker w)") (auto simp: breaker_transition_def flow_simps assert_transition_def)

lemma trial_call_run: "trial_call cfg w = (Inr (fst (trial_spec cfg (w_breaker w))), w\<lparr>w_breaker := snd (trial_spec cfg (w_breaker w))\<rparr>)"
  by (simp add: trial_call_def flow_simps)

text \<open>
  What the methods return, and the breaker they leave, at the time the clock gave. An exception can only come
  from publishing, and the state change has then been made.
\<close>

lemma allow_refines:
  assumes "allow cfg w = (Inr v, w')"
  shows "(v, w_breaker w') = allow_spec cfg (e_monotonic_ms (w_env w) (w_mono_reads w)) (w_breaker w)"
proof (cases "br_state (w_breaker w)")
  case Circuit_OPEN
  let ?t = "e_monotonic_ms (w_env w) (w_mono_reads w)"
  let ?b = "w_breaker w"
  show ?thesis
  proof (cases "?t - (case br_opened_at_ms ?b of Some o_ms \<Rightarrow> o_ms | None \<Rightarrow> 0) < cb_open_duration_ms cfg")
    case True
    with assms Circuit_OPEN show ?thesis
      by (auto simp: allow_def allow_spec_def flow_simps clock_monotonic_ms_def)
  next
    case False
    let ?w1 = "w\<lparr>w_mono_reads := w_mono_reads w + 1, w_breaker := ?b\<lparr>br_half_open_calls := 0\<rparr>\<rparr>"
    obtain u w2 where w2: "breaker_transition Circuit_HALF_OPEN ?w1 = (Inr u, w2)" "trial_call cfg w2 = (Inr v, w')"
      using assms False Circuit_OPEN
      by (auto simp: allow_def flow_simps clock_monotonic_ms_def split: prod.splits sum.splits)
    have "w_breaker w2 = ?b\<lparr>br_half_open_calls := 0, br_state := Circuit_HALF_OPEN\<rparr>"
      using breaker_transition_state [of ?w1 Circuit_HALF_OPEN] Circuit_OPEN w2(1) by (simp add: table_simps)
    with w2(2) False Circuit_OPEN show ?thesis
      by (auto simp: allow_spec_def trial_call_run split: if_splits)
  qed
next
  case Circuit_HALF_OPEN
  with assms show ?thesis by (auto simp: allow_def allow_spec_def flow_simps trial_call_run split: if_splits)
next
  case Circuit_CLOSED
  with assms show ?thesis by (auto simp: allow_def allow_spec_def flow_simps)
qed

lemma record_success_refines: "w_breaker (snd (record_success w)) = success_spec (w_breaker w)"
proof (cases "br_state (w_breaker w)")
  case Circuit_HALF_OPEN
  then show ?thesis
    using breaker_transition_state
      [of "w\<lparr>w_breaker := w_breaker w\<lparr>br_consecutive_failures := 0, br_half_open_calls := 0\<rparr>\<rparr>" Circuit_CLOSED]
    by (simp add: record_success_def success_spec_def flow_simps table_simps)
qed (simp_all add: record_success_def success_spec_def flow_simps)

lemma open_breaker_state:
  assumes "br_state (w_breaker w) \<noteq> Circuit_OPEN"
  shows "w_breaker (snd (open_breaker w)) = opened (e_monotonic_ms (w_env w) (w_mono_reads w)) (w_breaker w)"
  using assms breaker_transition_state
    [of "w\<lparr>w_mono_reads := w_mono_reads w + 1, w_breaker := w_breaker w\<lparr>br_opened_at_ms :=
          Some (e_monotonic_ms (w_env w) (w_mono_reads w)), br_half_open_calls := 0\<rparr>\<rparr>" Circuit_OPEN]
  by (cases "br_state (w_breaker w)")
    (simp_all add: open_breaker_def opened_def flow_simps clock_monotonic_ms_def table_simps)

lemma record_failure_refines:
  "w_breaker (snd (record_failure cfg w)) = failure_spec cfg (e_monotonic_ms (w_env w) (w_mono_reads w)) (w_breaker w)"
  using open_breaker_state
    [of "w\<lparr>w_breaker := w_breaker w\<lparr>br_consecutive_failures := br_consecutive_failures (w_breaker w) + 1\<rparr>\<rparr>"]
  by (cases "br_state (w_breaker w)") (simp_all add: record_failure_def failure_spec_def flow_simps Let_def)

section \<open>Properties of the retry schedule\<close>

lemma backoff_bounds:
  assumes "0 \<le> r_base_delay_ms cfg" and "0 \<le> r_max_delay_ms cfg"
  shows "0 \<le> backoff cfg attempt" and "backoff cfg attempt \<le> r_max_delay_ms cfg"
  using assms by (simp_all add: backoff_def)

lemma backoff_mono:
  assumes "0 \<le> r_base_delay_ms cfg" and "1 \<le> i" and "i \<le> j"
  shows "backoff cfg i \<le> backoff cfg j"
proof -
  have "(2::int) ^ nat (i - 1) \<le> 2 ^ nat (j - 1)" using assms by (intro power_increasing) auto
  then have "r_base_delay_ms cfg * 2 ^ nat (i - 1) \<le> r_base_delay_ms cfg * 2 ^ nat (j - 1)"
    using assms(1) by (rule mult_left_mono)
  then show ?thesis by (simp add: backoff_def)
qed

lemma delay_ms_no_jitter: "1 \<le> attempt \<Longrightarrow> delay_ms cfg None attempt = Inr (backoff cfg attempt)"
  by (simp add: delay_ms_def Let_def)

lemma schedule_alt: "schedule cfg = map (backoff cfg) [1..r_max_attempts cfg - 1]"
  by (auto simp: schedule_def delay_ms_no_jitter)

lemma schedule_length: "1 \<le> r_max_attempts cfg \<Longrightarrow> length (schedule cfg) = nat (r_max_attempts cfg - 1)"
  by (simp add: schedule_alt)

lemma py_round_near: "\<bar>of_int (py_round x) - x\<bar> \<le> 1 / 2"
  using floor_correct [of x]
  by (auto simp: py_round_def Let_def abs_if) (insert of_int_floor_le [of x], linarith)

text \<open>
  The retry schedule is bounded and monotone: one delay for each attempt but the last, none
  decreasing, none above the cap, every one the doubled base delay until the cap is reached.
\<close>

theorem retry_schedule_bounded:
  assumes "1 \<le> r_max_attempts cfg" and "0 \<le> r_base_delay_ms cfg" and "0 \<le> r_max_delay_ms cfg"
  shows "length (schedule cfg) = nat (r_max_attempts cfg - 1) \<and> sorted (schedule cfg)
     \<and> (\<forall>d \<in> set (schedule cfg). 0 \<le> d \<and> d \<le> r_max_delay_ms cfg)
     \<and> (\<forall>i < length (schedule cfg). schedule cfg ! i = min (r_base_delay_ms cfg * 2 ^ i) (r_max_delay_ms cfg))"
proof -
  have "sorted (schedule cfg)"
    using backoff_mono [OF assms(2)] by (auto simp: schedule_alt sorted_iff_nth_mono)
  moreover have "\<forall>i < length (schedule cfg). schedule cfg ! i = min (r_base_delay_ms cfg * 2 ^ i) (r_max_delay_ms cfg)"
    by (simp add: schedule_alt backoff_def)
  moreover have "\<forall>d \<in> set (schedule cfg). 0 \<le> d \<and> d \<le> r_max_delay_ms cfg"
    using backoff_bounds [OF assms(2,3)] by (auto simp: schedule_alt)
  ultimately show ?thesis using schedule_length [OF assms(1)] by blast
qed

definition default_retry :: retry_section where
  "default_retry = \<lparr>r_max_attempts = 4, r_base_delay_ms = 500, r_max_delay_ms = 8000, r_jitter_ratio = 0\<rparr>"

theorem retry_schedule_bounded_witness:
  "length (schedule default_retry) = 3 \<and> sorted (schedule default_retry) \<and> schedule default_retry ! 2 = 2000"
  using retry_schedule_bounded [of default_retry] by (simp add: default_retry_def)

text \<open>
  With jitter the delay stays within the configured ratio of the capped backoff, half a
  millisecond of rounding aside, and is never negative.
\<close>

theorem jitter_within_ratio:
  assumes "delay_ms cfg (Some u) attempt = Inr d" and "0 \<le> r_base_delay_ms cfg" and "0 \<le> r_max_delay_ms cfg"
    and "0 \<le> r_jitter_ratio cfg" and "r_jitter_ratio cfg \<le> 1"
  shows "0 \<le> d \<and> \<bar>of_int d - of_int (backoff cfg attempt)\<bar> \<le> r_jitter_ratio cfg * of_int (backoff cfg attempt) + 1 / 2"
proof (cases "r_jitter_ratio cfg \<le> 0")
  case True
  with assms have "d = backoff cfg attempt" by (auto simp: delay_ms_def Let_def split: if_splits)
  with backoff_bounds(1) [OF assms(2,3)] assms(4) show ?thesis by simp
next
  case False
  let ?b = "of_int (backoff cfg attempt) :: rat"
  let ?r = "r_jitter_ratio cfg"
  let ?x = "2 * min 1 (max 0 u) - 1"
  let ?f = "1 + ?r * ?x"
  have d: "d = max 0 (py_round (?b * ?f))"
    using assms(1) False by (auto simp: delay_ms_def Let_def split: if_splits)
  have b: "0 \<le> ?b" using backoff_bounds(1) [OF assms(2,3), of attempt] by simp
  have x: "\<bar>?x\<bar> \<le> 1" by (auto simp: abs_if min_def max_def)
  then have "\<bar>?r * ?x\<bar> \<le> ?r" using assms(4) by (simp add: abs_mult mult_left_le)
  then have "\<bar>?b * (?r * ?x)\<bar> \<le> ?b * ?r" using b by (simp add: abs_mult mult_left_mono)
  moreover have "?b * ?f - ?b = ?b * (?r * ?x)" by (simp add: algebra_simps)
  ultimately have near: "\<bar>?b * ?f - ?b\<bar> \<le> ?r * ?b" by (simp add: mult.commute)
  have "?r * ?b \<le> ?b" using assms(5) b by (simp add: mult_left_le_one_le mult_right_le_one_le assms(4))
  with near have "0 \<le> ?b * ?f" by linarith
  then have "0 \<le> \<lfloor>?b * ?f\<rfloor>" by simp
  then have "0 \<le> py_round (?b * ?f)" by (simp add: py_round_def Let_def)
  then have d': "d = py_round (?b * ?f)" and "0 \<le> d" using d by simp_all
  have "\<bar>of_int d - ?b * ?f\<bar> \<le> 1 / 2" unfolding d' by (rule py_round_near)
  then have "\<bar>of_int d - ?b\<bar> \<le> ?r * ?b + 1 / 2"
    using near abs_triangle_ineq [of "of_int d - ?b * ?f" "?b * ?f - ?b"] by simp
  with \<open>0 \<le> d\<close> show ?thesis by blast
qed

theorem jitter_within_ratio_witness:
  "\<bar>of_int (projr (delay_ms (default_retry\<lparr>r_jitter_ratio := 1/2\<rparr>) (Some 1) 1)) - (500::rat)\<bar> \<le> 1 / 2 * 500 + 1 / 2"
  using jitter_within_ratio [of "default_retry\<lparr>r_jitter_ratio := 1/2\<rparr>" 1 1 750]
  by (simp add: delay_ms_def default_retry_def backoff_def py_round_def Let_def)

definition default_breaker :: circuit_breaker_section where
  "default_breaker = \<lparr>cb_failure_threshold = 5, cb_open_duration_ms = 30000, cb_half_open_max_calls = 1\<rparr>"

end
