(* ===== verification/Failures.thy ===== *)
theory Failures
  imports Resilience
begin

text \<open>
  \<open>resilience/failure_manager.py\<close>: classification of exceptions, the policy that decides what to do
  about a failure, and the persistence of both. The parameters \<open>retry\<close>, \<open>cb\<close> are the two
  configuration sections and \<open>draw\<close> the value of the random source when a jitter is configured.
\<close>

datatype decision_kind = Retry | Abort | Rotate | Pause | Fail

fun decision_kind_value :: "decision_kind \<Rightarrow> string" where
  "decision_kind_value Retry = ''retry''"
| "decision_kind_value Abort = ''abort''"
| "decision_kind_value Rotate = ''rotate''"
| "decision_kind_value Pause = ''pause''"
| "decision_kind_value Fail = ''fail''"

record decision =
  d_kind :: decision_kind
  d_delay_ms :: "int option"
  d_reason :: string

text \<open>\<open>Decision.__post_init__\<close>.\<close>

definition make_decision :: "decision_kind \<Rightarrow> int option \<Rightarrow> string \<Rightarrow> exn + decision" where
  "make_decision kind delay reason =
     (if kind = Retry \<and> (case delay of None \<Rightarrow> True | Some d \<Rightarrow> d < 0)
      then Inl (ValueError ''a retry decision requires a non-negative delay_ms'')
      else if kind \<noteq> Retry \<and> delay \<noteq> None
      then Inl (ValueError ''delay_ms is only meaningful for a retry'')
      else Inr \<lparr>d_kind = kind, d_delay_ms = delay, d_reason = reason\<rparr>)"

definition PAUSING_ERROR_TYPES :: "error_type set" where
  "PAUSING_ERROR_TYPES = {AUTHN_ERROR}"

definition BREAKER_FED_ERROR_TYPES :: "error_type set" where
  "BREAKER_FED_ERROR_TYPES = RETRYABLE_ERROR_TYPES \<union> {SYSTEM_ERROR}"

definition is_transient :: "normalized_error \<Rightarrow> bool" where
  "is_transient e \<longleftrightarrow> dict_get (ne_details e) ''transient'' = Some (JBool True)"

definition is_policy_retryable :: "normalized_error \<Rightarrow> bool" where
  "is_policy_retryable e \<longleftrightarrow>
     ne_error_type e \<in> RETRYABLE_ERROR_TYPES \<or> (ne_error_type e = SYSTEM_ERROR \<and> is_transient e)"

definition feeds_breaker :: "normalized_error \<Rightarrow> bool" where
  "feeds_breaker e \<longleftrightarrow>
     ne_error_type e \<in> BREAKER_FED_ERROR_TYPES \<and> (ne_error_type e \<noteq> SYSTEM_ERROR \<or> is_transient e)"

fun classify :: "exn \<Rightarrow> normalized_error" where
  "classify (App_Error e) = e"
| "classify (Timeout_Exn name message) =
     err TIMEOUT_ERROR ''OPERATION_TIMEOUT'' ''FailureManager'' Severity_HIGH True True
       [(''exception'', JStr name), (''message'', JStr message)]"
| "classify (Network_Exn name message) =
     err NETWORK_ERROR ''NETWORK_FAILURE'' ''FailureManager'' Severity_HIGH True True
       [(''exception'', JStr name), (''message'', JStr message)]"
| "classify (Other_Exn name message) =
     err SYSTEM_ERROR ''UNHANDLED_EXCEPTION'' ''FailureManager'' Severity_CRITICAL False False
       [(''type'', JStr name), (''message'', JStr message), (''exception'', JStr name)]"

text \<open>\<open>details.get("retry_after_ms")\<close>, when it is an integer and not a boolean.\<close>

definition retry_after :: "normalized_error \<Rightarrow> int option" where
  "retry_after e = (case dict_get (ne_details e) ''retry_after_ms'' of Some (JInt i) \<Rightarrow> Some i | _ \<Rightarrow> None)"

definition decide ::
  "retry_section \<Rightarrow> circuit_breaker_section \<Rightarrow> rat option \<Rightarrow> normalized_error \<Rightarrow> int \<Rightarrow> decision app_act" where
  "decide retry cb draw e attempt =
     (if ne_error_type e = MODEL_CONTEXT_WINDOW_ERROR
      then lifting (make_decision Rotate None ''context_window_exceeded'')
      else if ne_error_type e \<in> PAUSING_ERROR_TYPES
      then lifting (make_decision Pause None ''credentials_required'')
      else if is_policy_retryable e
      then if \<not> can_retry retry attempt then lifting (make_decision Fail None ''max_attempts_exhausted'')
           else bnd (allow cb) (\<lambda>allowed.
                if \<not> allowed then lifting (make_decision Fail None ''circuit_open'')
                else bnd (lifting (delay_ms retry draw attempt)) (\<lambda>delay.
                     lifting (make_decision Retry
                       (Some (case retry_after e of None \<Rightarrow> delay | Some ra \<Rightarrow> max delay ra)) ''retryable_error'')))
      else if ne_error_type e = INTERRUPTED then lifting (make_decision Abort None ''interrupted'')
      else lifting (make_decision Fail None (''non_retryable:'' @ error_type_value (ne_error_type e))))"

definition record_failure_of ::
  "normalized_error \<Rightarrow> string \<Rightarrow> string option \<Rightarrow> string option \<Rightarrow> string option \<Rightarrow> failure_record app_act" where
  "record_failure_of e sid cid pid tid =
     bnd clock_now (\<lambda>now.
     bnd new_failure_id (\<lambda>fid.
     bnd (ret \<lparr>f_failure_id = fid, f_session_id = sid, f_conversation_id = cid, f_plan_id = pid, f_task_id = tid,
               f_error_type = ne_error_type e, f_error_code = ne_error_code e, f_severity = ne_severity e,
               f_origin = ne_origin e, f_retryable = ne_retryable e, f_recoverable = ne_recoverable e,
               f_attempt = ne_attempt e, f_max_attempts = ne_max_attempts e, f_details = ne_details e,
               f_timestamp = now\<rparr>) (\<lambda>record.
     andthen (on_store (save_failure record))
    (andthen (publish \<lparr>ev_event_type = FAILURE_RECORDED, ev_timestamp = now, ev_session_id = sid,
          ev_conversation_id = cid, ev_cycle_id = None, ev_plan_id = pid, ev_task_id = tid,
          ev_payload = [(''failure_id'', JStr fid), (''error_type'', JStr (error_type_value (ne_error_type e))),
            (''error_code'', JStr (ne_error_code e)), (''severity'', JStr (severity_value (ne_severity e))),
            (''origin'', JStr (ne_origin e)), (''retryable'', JBool (ne_retryable e)),
            (''recoverable'', JBool (ne_recoverable e)), (''attempt'', JInt (ne_attempt e)),
            (''max_attempts'', JInt (ne_max_attempts e)), (''details'', JObj (ne_details e))]\<rparr>)
     (ret record)))))"

definition record_decision ::
  "retry_section \<Rightarrow> decision \<Rightarrow> normalized_error \<Rightarrow> string \<Rightarrow> string option \<Rightarrow> string option \<Rightarrow> string \<Rightarrow> int
   \<Rightarrow> retry_decision_record app_act" where
  "record_decision retry d e sid cid cycle operation attempt =
     bnd clock_now (\<lambda>now.
     bnd new_decision_id (\<lambda>did.
     bnd (ret \<lparr>rd_decision_id = did, rd_session_id = sid, rd_conversation_id = cid, rd_cycle_id = cycle,
               rd_operation = operation, rd_error_type = ne_error_type e, rd_error_code = ne_error_code e,
               rd_attempt = attempt, rd_max_attempts = r_max_attempts retry,
               rd_decision = decision_kind_value (d_kind d), rd_delay_ms = d_delay_ms d, rd_created_at = now\<rparr>) (\<lambda>record.
     andthen (on_store (save_retry_decision record))
    (andthen (whenever (d_kind d = Retry)
       (publish \<lparr>ev_event_type = RETRY_SCHEDULED, ev_timestamp = now, ev_session_id = sid,
          ev_conversation_id = cid, ev_cycle_id = cycle, ev_plan_id = None, ev_task_id = None,
          ev_payload = [(''decision_id'', JStr did), (''operation'', JStr operation), (''attempt'', JInt attempt),
            (''max_attempts'', JInt (r_max_attempts retry)), (''delay_ms'', jint_opt (d_delay_ms d)),
            (''error_type'', JStr (error_type_value (ne_error_type e))), (''error_code'', JStr (ne_error_code e)),
            (''reason'', JStr (d_reason d))]\<rparr>))
     (ret record)))))"

definition handle ::
  "retry_section \<Rightarrow> circuit_breaker_section \<Rightarrow> rat option \<Rightarrow> exn \<Rightarrow> int \<Rightarrow> string \<Rightarrow> string
   \<Rightarrow> string option \<Rightarrow> string option \<Rightarrow> string option \<Rightarrow> string option \<Rightarrow> (normalized_error \<times> decision) app_act" where
  "handle retry cb draw x attempt operation sid cid cycle pid tid =
     bnd (ret (with_attempt (classify x) attempt (r_max_attempts retry))) (\<lambda>e.
     andthen (record_failure_of e sid cid pid tid)
    (andthen (whenever (feeds_breaker e)
       (andthen (upd_breaker (\<lambda>b. b\<lparr>br_session_id := Some sid\<rparr>)) (record_failure cb)))
    (bnd (decide retry cb draw e attempt) (\<lambda>d.
     andthen (record_decision retry d e sid cid cycle operation attempt)
     (ret (e, d))))))"

definition note_success :: "unit app_act" where
  "note_success = record_success"

section \<open>The policy\<close>

text \<open>The decision as a pure function of the error, the attempt and the breaker's answer.\<close>

definition policy :: "retry_section \<Rightarrow> normalized_error \<Rightarrow> int \<Rightarrow> bool \<Rightarrow> decision" where
  "policy retry e attempt allowed =
     (if ne_error_type e = MODEL_CONTEXT_WINDOW_ERROR
      then \<lparr>d_kind = Rotate, d_delay_ms = None, d_reason = ''context_window_exceeded''\<rparr>
      else if ne_error_type e = AUTHN_ERROR
      then \<lparr>d_kind = Pause, d_delay_ms = None, d_reason = ''credentials_required''\<rparr>
      else if is_policy_retryable e
      then if \<not> can_retry retry attempt then \<lparr>d_kind = Fail, d_delay_ms = None, d_reason = ''max_attempts_exhausted''\<rparr>
           else if \<not> allowed then \<lparr>d_kind = Fail, d_delay_ms = None, d_reason = ''circuit_open''\<rparr>
           else \<lparr>d_kind = Retry, d_delay_ms = Some (case retry_after e of None \<Rightarrow> backoff retry attempt
                                               | Some ra \<Rightarrow> max (backoff retry attempt) ra),
                 d_reason = ''retryable_error''\<rparr>
      else if ne_error_type e = INTERRUPTED then \<lparr>d_kind = Abort, d_delay_ms = None, d_reason = ''interrupted''\<rparr>
      else \<lparr>d_kind = Fail, d_delay_ms = None, d_reason = ''non_retryable:'' @ error_type_value (ne_error_type e)\<rparr>)"

definition asks_breaker :: "retry_section \<Rightarrow> normalized_error \<Rightarrow> int \<Rightarrow> bool" where
  "asks_breaker retry e attempt \<longleftrightarrow> is_policy_retryable e \<and> can_retry retry attempt"

lemma policy_types:
  "ne_error_type e \<in> {MODEL_CONTEXT_WINDOW_ERROR, AUTHN_ERROR, INTERRUPTED} \<Longrightarrow> \<not> is_policy_retryable e"
  by (auto simp: is_policy_retryable_def RETRYABLE_ERROR_TYPES_def)

lemma decide_asking:
  assumes "asks_breaker retry e attempt" and "1 \<le> attempt" and "0 \<le> r_base_delay_ms retry" and "0 \<le> r_max_delay_ms retry"
  shows "decide retry cb None e attempt w =
    (case allow cb w of (Inl x, w') \<Rightarrow> (Inl x, w') | (Inr allowed, w') \<Rightarrow> (Inr (policy retry e attempt allowed), w'))"
proof -
  have ty: "ne_error_type e \<noteq> MODEL_CONTEXT_WINDOW_ERROR" "ne_error_type e \<noteq> AUTHN_ERROR"
    using assms(1) by (auto simp: asks_breaker_def is_policy_retryable_def RETRYABLE_ERROR_TYPES_def)
  have "0 \<le> (case retry_after e of None \<Rightarrow> backoff retry attempt | Some ra \<Rightarrow> max (backoff retry attempt) ra)"
    using backoff_bounds(1) [OF assms(3,4), of attempt] by (auto split: option.splits)
  with ty assms(1,2) show ?thesis
    by (auto simp: decide_def policy_def asks_breaker_def PAUSING_ERROR_TYPES_def flow_simps make_decision_def
        delay_ms_no_jitter split: prod.splits sum.splits option.splits)
qed

lemma decide_not_asking:
  assumes "\<not> asks_breaker retry e attempt"
  shows "decide retry cb draw e attempt w = (Inr (policy retry e attempt False), w)"
  using assms policy_types [of e]
  by (auto simp: decide_def policy_def asks_breaker_def PAUSING_ERROR_TYPES_def flow_simps make_decision_def)

text \<open>
  The failure policy is exactly its table: a context-window error rotates, an authentication error
  pauses, a transport-class error is retried while attempts remain and the breaker allows it, with the
  larger of the backoff and the server's hint as delay, an interruption aborts and everything else fails. The
  breaker is only asked, and a trial slot only used, when a retry is otherwise due.
\<close>

theorem decide_follows_policy:
  assumes "decide retry cb None e attempt w = (Inr d, w')" and "1 \<le> attempt"
    and "0 \<le> r_base_delay_ms retry" and "0 \<le> r_max_delay_ms retry"
  shows "d = policy retry e attempt (fst (allow_spec cb (e_monotonic_ms (w_env w) (w_mono_reads w)) (w_breaker w)))
     \<and> w_breaker w' = (if asks_breaker retry e attempt
          then snd (allow_spec cb (e_monotonic_ms (w_env w) (w_mono_reads w)) (w_breaker w)) else w_breaker w)"
proof (cases "asks_breaker retry e attempt")
  case True
  with assms obtain allowed where "allow cb w = (Inr allowed, w')" and "d = policy retry e attempt allowed"
    by (auto simp: decide_asking split: prod.splits sum.splits)
  with True allow_refines [of cb w allowed w'] show ?thesis by (metis fst_conv snd_conv)
next
  case False
  then have "policy retry e attempt v = policy retry e attempt False" for v
    by (auto simp: policy_def asks_breaker_def)
  with False assms(1) show ?thesis by (auto simp: decide_not_asking)
qed

definition rate_limited :: normalized_error where
  "rate_limited = err RATE_LIMIT_ERROR ''HTTP_429'' ''TransportGateway'' Severity_HIGH True True [(''retry_after_ms'', JInt 9000)]"

theorem decide_follows_policy_witness:
  "policy default_retry rate_limited 1 True =
     policy default_retry rate_limited 1 (fst (allow_spec default_breaker (e_monotonic_ms sample_env 0) new_breaker))
   \<and> d_delay_ms (policy default_retry rate_limited 1 True) = Some 9000"
proof (intro conjI)
  have "decide default_retry default_breaker None rate_limited 1 (fresh_app sample_env)
      = (Inr (policy default_retry rate_limited 1 True), fresh_app sample_env)"
    by (simp add: decide_asking asks_breaker_def is_policy_retryable_def RETRYABLE_ERROR_TYPES_def rate_limited_def err_def
        can_retry_def default_retry_def allow_def flow_simps fresh_app_def new_breaker_def)
  from decide_follows_policy [OF this]
  show "policy default_retry rate_limited 1 True =
     policy default_retry rate_limited 1 (fst (allow_spec default_breaker (e_monotonic_ms sample_env 0) new_breaker))"
    by (simp add: default_retry_def fresh_app_def)
  show "d_delay_ms (policy default_retry rate_limited 1 True) = Some 9000"
    by (simp add: policy_def rate_limited_def err_def retry_after_def is_policy_retryable_def RETRYABLE_ERROR_TYPES_def
        can_retry_def default_retry_def backoff_def)
qed

section \<open>What \<open>handle\<close> persists\<close>

lemma on_store_Inr: "on_store m w = (Inr u, w') \<longleftrightarrow> (\<exists>st'. m (w_store w) = (Inr u, st') \<and> w' = w\<lparr>w_store := st'\<rparr>)"
  by (auto simp: on_part_def split: prod.splits)

lemma record_failure_of_Inr:
  assumes "record_failure_of e sid cid pid tid w = (Inr f, w')"
  shows "dict_get (st_failures (w_store w')) (f_failure_id f) = Some f
     \<and> f_error_type f = ne_error_type e \<and> f_error_code f = ne_error_code e \<and> f_attempt f = ne_attempt e
     \<and> f_max_attempts f = ne_max_attempts e \<and> f_session_id f = sid \<and> f_details f = ne_details e
     \<and> st_retry_decisions (w_store w') = st_retry_decisions (w_store w) \<and> w_breaker w' = w_breaker w"
  using assms
  by (auto simp: record_failure_of_def bnd_Inr andthen_Inr clock_now_run id_defs on_store_Inr ret_def save_defs write_record_Inr
      dest!: publish_records)

lemma record_decision_Inr:
  assumes "record_decision retry d e sid cid cycle op attempt w = (Inr r, w')"
  shows "dict_get (st_retry_decisions (w_store w')) (rd_decision_id r) = Some r
     \<and> rd_decision r = decision_kind_value (d_kind d) \<and> rd_delay_ms r = d_delay_ms d \<and> rd_attempt r = attempt
     \<and> rd_session_id r = sid \<and> rd_error_type r = ne_error_type e
     \<and> st_failures (w_store w') = st_failures (w_store w) \<and> w_breaker w' = w_breaker w"
  using assms
  by (auto simp: record_decision_def bnd_Inr andthen_Inr clock_now_run id_defs on_store_Inr ret_def save_defs write_record_Inr
      whenever_def dest!: publish_records split: if_splits)

lemma keeps_decide [keeps_intros]: "keeps (same_records st) (decide retry cb draw e attempt)"
  unfolding decide_def by (intro keeps_intros)

lemma handle_Inr:
  assumes "handle retry cb draw x attempt op sid cid cycle pid tid w = (Inr (e, d), w')"
  shows "e = with_attempt (classify x) attempt (r_max_attempts retry)
    \<and> (\<exists>f w1 w2 w3 r. record_failure_of e sid cid pid tid w = (Inr f, w1)
         \<and> (if feeds_breaker e then record_failure cb (w1\<lparr>w_breaker := (w_breaker w1)\<lparr>br_session_id := Some sid\<rparr>\<rparr>) = (Inr (), w2)
            else w2 = w1)
         \<and> decide retry cb draw e attempt w2 = (Inr d, w3)
         \<and> record_decision retry d e sid cid cycle op attempt w3 = (Inr r, w'))"
  using assms unfolding handle_def
  by (auto simp: bnd_Inr andthen_Inr ret_def whenever_def modifying_def split: if_splits)

text \<open>
  Every handled failure is on record before the caller acts on the decision: when \<open>handle\<close>
  returns, the store holds a failure record with the normalized error and the attempt, and a decision
  record with the kind and the delay that were returned.
\<close>

theorem handled_failures_are_persisted:
  assumes "handle retry cb draw x attempt op sid cid cycle pid tid w = (Inr (e, d), w')"
  shows "\<exists>f r. dict_get (st_failures (w_store w')) (f_failure_id f) = Some f
      \<and> dict_get (st_retry_decisions (w_store w')) (rd_decision_id r) = Some r
      \<and> f_error_type f = ne_error_type (classify x) \<and> f_error_code f = ne_error_code (classify x)
      \<and> f_attempt f = attempt \<and> f_session_id f = sid
      \<and> rd_decision r = decision_kind_value (d_kind d) \<and> rd_delay_ms r = d_delay_ms d
      \<and> rd_attempt r = attempt \<and> rd_session_id r = sid"
proof -
  obtain f w1 w2 w3 r where e: "e = with_attempt (classify x) attempt (r_max_attempts retry)"
    and run: "record_failure_of e sid cid pid tid w = (Inr f, w1)"
      "if feeds_breaker e then record_failure cb (w1\<lparr>w_breaker := (w_breaker w1)\<lparr>br_session_id := Some sid\<rparr>\<rparr>) = (Inr (), w2)
       else w2 = w1"
      "decide retry cb draw e attempt w2 = (Inr d, w3)"
      "record_decision retry d e sid cid cycle op attempt w3 = (Inr r, w')"
    using handle_Inr [OF assms] by blast
  have "store_data (w_store w2) = store_data (w_store w1)"
    using run(2) same_records_run [OF keeps_record_failure, where w = "w1\<lparr>w_breaker := (w_breaker w1)\<lparr>br_session_id := Some sid\<rparr>\<rparr>"]
    by (auto split: if_splits)
  moreover have "store_data (w_store w3) = store_data (w_store w2)"
    using same_records_run [OF keeps_decide run(3)] .
  ultimately have "st_failures (w_store w3) = st_failures (w_store w1)" using store_dataD(7) by metis
  then have "dict_get (st_failures (w_store w')) (f_failure_id f) = Some f"
    using record_failure_of_Inr [OF run(1)] record_decision_Inr [OF run(4)] by simp
  then show ?thesis
    using record_failure_of_Inr [OF run(1)] record_decision_Inr [OF run(4)] e
    by (auto simp: with_attempt_def intro!: exI [of _ f] exI [of _ r])
qed

definition auth_error :: normalized_error where
  "auth_error = err AUTHN_ERROR ''HTTP_401'' ''TransportGateway'' Severity_HIGH False True []"

definition pausing :: decision where
  "pausing = \<lparr>d_kind = Pause, d_delay_ms = None, d_reason = ''credentials_required''\<rparr>"

definition handle_auth :: "(normalized_error \<times> decision) app_act" where
  "handle_auth = handle default_retry default_breaker None (App_Error auth_error) 1 ''POST'' ''s'' None None None None"

lemma publish_first:
  assumes "publish e w = (r, w')"
  shows "st_audit (w_store w) = [] \<and> w_audit_last w = [] \<and> \<not> st_closed (w_store w) \<and> \<not> st_fail_next_write (w_store w)
    \<longrightarrow> r = Inr () \<and> \<not> st_closed (w_store w') \<and> \<not> st_fail_next_write (w_store w')"
  using assms by (auto simp: publish_run audit_handle_def flow_simps last_of_def get_last_audit_event_def audit_chain_def
      id_defs append_audit_event_def write_guard_def Let_def split: if_splits)

lemma handle_auth_run:
  assumes "w_store w = empty_store" and "w_audit_last w = []"
  shows "\<exists>w'. handle_auth w = (Inr (with_attempt auth_error 1 4, pausing), w')"
proof -
  let ?e = "with_attempt auth_error 1 4"
  obtain f w1 where w1: "record_failure_of ?e ''s'' None None None w = (Inr f, w1)"
    "\<not> st_closed (w_store w1)" "\<not> st_fail_next_write (w_store w1)"
  proof -
    assume that: "\<And>f w1. record_failure_of ?e ''s'' None None None w = (Inr f, w1) \<Longrightarrow>
      \<not> st_closed (w_store w1) \<Longrightarrow> \<not> st_fail_next_write (w_store w1) \<Longrightarrow> thesis"
    have "\<exists>f w1. record_failure_of ?e ''s'' None None None w = (Inr f, w1) \<and> \<not> st_closed (w_store w1) \<and> \<not> st_fail_next_write (w_store w1)"
      unfolding record_failure_of_def
      by (simp add: bnd_run andthen_run clock_now_run id_defs on_part_def save_defs write_record_def write_guard_def
          modifying_def ret_def assms empty_store_def touch_def split: prod.splits sum.splits)
        (use assms(2) in \<open>auto dest!: publish_first\<close>)
    then show thesis using that by blast
  qed
  have e: "with_attempt (classify (App_Error auth_error)) 1 (r_max_attempts default_retry) = ?e"
    by (simp add: default_retry_def)
  have ty: "ne_error_type ?e = AUTHN_ERROR" by (simp add: with_attempt_def auth_error_def err_def)
  have "\<not> feeds_breaker ?e"
    using ty by (simp add: feeds_breaker_def BREAKER_FED_ERROR_TYPES_def RETRYABLE_ERROR_TYPES_def)
  moreover have "decide default_retry default_breaker None ?e 1 w1 = (Inr pausing, w1)"
    using ty by (simp add: decide_def PAUSING_ERROR_TYPES_def flow_simps make_decision_def pausing_def)
  moreover have "\<exists>r w2. record_decision default_retry pausing ?e ''s'' None None ''POST'' 1 w1 = (Inr r, w2)"
    using w1(2,3) by (simp add: record_decision_def flow_simps id_defs save_defs write_record_def write_guard_def pausing_def)
  ultimately show ?thesis
    using w1(1) unfolding handle_auth_def handle_def e by (auto simp: bnd_run andthen_run ret_def whenever_def)
qed

lemma handle_auth_ok:
  "handle_auth (fresh_app sample_env) = (Inr (with_attempt auth_error 1 4, pausing), snd (handle_auth (fresh_app sample_env)))"
  using handle_auth_run [of "fresh_app sample_env"] by (auto simp: fresh_app_def)

theorem handled_failures_are_persisted_witness:
  "\<exists>f r. dict_get (st_failures (w_store (snd (handle_auth (fresh_app sample_env))))) (f_failure_id f) = Some f
      \<and> dict_get (st_retry_decisions (w_store (snd (handle_auth (fresh_app sample_env))))) (rd_decision_id r) = Some r
      \<and> f_error_type f = AUTHN_ERROR \<and> rd_decision r = ''pause''"
  using handled_failures_are_persisted [OF handle_auth_ok [unfolded handle_auth_def]]
  by (auto simp: auth_error_def err_def handle_auth_def pausing_def)

end
