(* ===== verification/Breaking.thy ===== *)
theory Breaking
  imports Resilience
begin

text \<open>
  What the circuit breaker does over a history of calls. A history is any sequence of calls of the breaker's three methods on
  the application, with whatever the rest of the program does in between as long as it leaves the breaker's counters to
  the breaker. Its labels are what a caller sees: the answers, the outcomes it reports and the times the clock gave.
\<close>

section \<open>Histories\<close>

text \<open>A question with its answer (\<open>None\<close>: publishing the change of state raised), or a reported outcome; the time is the monotonic clock's.\<close>

datatype report = Asked "bool option" int | Succeeded | Failed int

definition now_ms :: "app \<Rightarrow> int" where
  "now_ms w = e_monotonic_ms (w_env w) (w_mono_reads w)"

inductive reported :: "circuit_breaker_section \<Rightarrow> app \<Rightarrow> report \<Rightarrow> app \<Rightarrow> bool" for cfg where
  asked: "allow cfg w = (r, w') \<Longrightarrow> reported cfg w (Asked (case r of Inl _ \<Rightarrow> None | Inr v \<Rightarrow> Some v) (now_ms w)) w'"
| succeeded: "record_success w = (r, w') \<Longrightarrow> reported cfg w Succeeded w'"
| failed: "record_failure cfg w = (r, w') \<Longrightarrow> reported cfg w (Failed (now_ms w)) w'"

inductive_cases reported_cases: "reported cfg w (Asked v t) w'" "reported cfg w Succeeded w'" "reported cfg w (Failed t) w'"

inductive history :: "circuit_breaker_section \<Rightarrow> app \<Rightarrow> report list \<Rightarrow> app \<Rightarrow> bool" for cfg w where
  nothing: "history cfg w [] w"
| meanwhile: "history cfg w ls w1 \<Longrightarrow> w_breaker w2 = (w_breaker w1)\<lparr>br_session_id := x\<rparr> \<Longrightarrow> history cfg w ls w2"
| call: "history cfg w ls w1 \<Longrightarrow> reported cfg w1 l w2 \<Longrightarrow> history cfg w (ls @ [l]) w2"

lemma history_one: "reported cfg w l w' \<Longrightarrow> history cfg w [l] w'"
  by (rule history.call [OF history.nothing, unfolded append_Nil])

lemma history_append: "history cfg w1 ys w2 \<Longrightarrow> history cfg w xs w1 \<Longrightarrow> history cfg w (xs @ ys) w2"
proof (induction rule: history.induct)
  case (call ls w1 l w2)
  then show ?case using history.call [of cfg w "xs @ ls" w1 l w2] by simp
qed (auto intro: meanwhile)

lemma history_split: "history cfg w (xs @ ys) w2 \<Longrightarrow> \<exists>w1. history cfg w xs w1 \<and> history cfg w1 ys w2"
proof (induction "xs @ ys" w2 arbitrary: ys rule: history.induct)
  case nothing
  then show ?case using history.nothing by auto
next
  case (meanwhile w1 w2 x)
  then show ?case using history.meanwhile by blast
next
  case (call ls w1 l w2)
  show ?case
  proof (cases ys rule: rev_cases)
    case Nil
    with call.hyps have "history cfg w xs w2" using history.call [OF call.hyps(1,3)] by simp
    with Nil show ?thesis using history.nothing by blast
  next
    case (snoc zs z)
    with call.hyps have "ls = xs @ zs" "l = z" by simp_all
    with call.hyps(2) snoc show ?thesis using history.call [OF _ call.hyps(3)] by blast
  qed
qed

section \<open>One call\<close>

text \<open>Closed with \<open>n\<close> failures counted; open since \<open>t0\<close>; half-open with \<open>n\<close> trials granted.\<close>

definition closed_after :: "int \<Rightarrow> app \<Rightarrow> bool" where
  "closed_after n w \<longleftrightarrow> br_state (w_breaker w) = Circuit_CLOSED \<and> br_consecutive_failures (w_breaker w) = n"

definition tripped :: "int \<Rightarrow> app \<Rightarrow> bool" where
  "tripped t0 w \<longleftrightarrow> br_state (w_breaker w) = Circuit_OPEN \<and> br_opened_at_ms (w_breaker w) = Some t0"

definition trying :: "int \<Rightarrow> app \<Rightarrow> bool" where
  "trying n w \<longleftrightarrow> br_state (w_breaker w) = Circuit_HALF_OPEN \<and> br_half_open_calls (w_breaker w) = n"

lemmas phases = closed_after_def tripped_def trying_def

lemma phases_meanwhile:
  assumes "w_breaker w' = (w_breaker w)\<lparr>br_session_id := x\<rparr>"
  shows "closed_after n w' = closed_after n w" "tripped t w' = tripped t w" "trying n w' = trying n w"
  using assms by (simp_all add: phases)

lemma closed_step:
  assumes "closed_after n w" and "reported cfg w l w'"
  shows "case l of Asked v t \<Rightarrow> v = Some True \<and> closed_after n w' | Succeeded \<Rightarrow> closed_after 0 w'
     | Failed t \<Rightarrow> if cb_failure_threshold cfg \<le> n + 1 then tripped t w' else closed_after (n + 1) w'"
  using assms(2)
proof cases
  case (asked r)
  with assms(1) show ?thesis by (auto simp: allow_def flow_simps phases)
next
  case (succeeded r)
  with assms(1) record_success_refines [of w] show ?thesis by (simp add: phases success_spec_def)
next
  case (failed r)
  with assms(1) record_failure_refines [of cfg w] show ?thesis
    by (simp add: phases failure_spec_def opened_def now_ms_def Let_def)
qed

lemma tripped_step:
  assumes "tripped t0 w" and "reported cfg w l w'"
  shows "case l of
      Asked v t \<Rightarrow> if t < t0 + cb_open_duration_ms cfg then v = Some False \<and> tripped t0 w'
        else (case v of None \<Rightarrow> trying 0 w' | Some True \<Rightarrow> trying 1 w' \<and> 1 \<le> cb_half_open_max_calls cfg
                | Some False \<Rightarrow> trying 0 w' \<and> cb_half_open_max_calls cfg \<le> 0)
    | _ \<Rightarrow> tripped t0 w'"
  using assms(2)
proof cases
  case (asked r)
  show ?thesis
  proof (cases r)
    case (Inr v)
    from allow_refines [OF asked(2) [unfolded Inr]] assms(1) asked(1) Inr show ?thesis
      by (auto simp: allow_spec_def phases now_ms_def split: if_splits)
  next
    case (Inl e)
    let ?w1 = "w\<lparr>w_mono_reads := w_mono_reads w + 1, w_breaker := (w_breaker w)\<lparr>br_half_open_calls := 0\<rparr>\<rparr>"
    have "\<not> now_ms w < t0 + cb_open_duration_ms cfg" using asked(2) Inl assms(1)
      by (auto simp: allow_def flow_simps clock_monotonic_ms_def phases now_ms_def split: if_splits)
    moreover have "trying 0 w'"
      using asked(2) Inl assms(1) breaker_transition_state [of ?w1 Circuit_HALF_OPEN]
      by (auto simp: allow_def flow_simps clock_monotonic_ms_def phases table_simps trial_call_run split: if_splits prod.splits sum.splits)
    ultimately show ?thesis using asked(1) Inl by simp
  qed
next
  case (succeeded r)
  with assms(1) record_success_refines [of w] show ?thesis by (simp add: phases success_spec_def)
next
  case (failed r)
  with assms(1) record_failure_refines [of cfg w] show ?thesis by (simp add: phases failure_spec_def)
qed

lemma trying_step:
  assumes "trying n w" and "reported cfg w l w'"
  shows "case l of Asked v t \<Rightarrow> v = Some (n < cb_half_open_max_calls cfg) \<and> trying (if n < cb_half_open_max_calls cfg then n + 1 else n) w'
     | Succeeded \<Rightarrow> closed_after 0 w' | Failed t \<Rightarrow> tripped t w'"
  using assms(2)
proof cases
  case (asked r)
  with assms(1) show ?thesis by (auto simp: allow_def flow_simps phases trial_call_run)
next
  case (succeeded r)
  with assms(1) record_success_refines [of w] show ?thesis by (simp add: phases success_spec_def)
next
  case (failed r)
  with assms(1) record_failure_refines [of cfg w] show ?thesis
    by (simp add: phases failure_spec_def opened_def now_ms_def Let_def)
qed

section \<open>What a history shows\<close>

text \<open>The failures reported since the last success; the answers given, in order.\<close>

definition streak :: "report list \<Rightarrow> nat" where
  "streak ls = length (filter (\<lambda>l. \<exists>t. l = Failed t) (takeWhile (\<lambda>l. l \<noteq> Succeeded) (rev ls)))"

fun answers :: "report list \<Rightarrow> bool list" where
  "answers [] = []"
| "answers (Asked (Some v) t # ls) = v # answers ls"
| "answers (_ # ls) = answers ls"

definition asks :: "report \<Rightarrow> bool" where
  "asks l \<longleftrightarrow> (\<exists>v t. l = Asked v t)"

lemma streak_snoc: "streak [] = 0" "streak (ls @ [Asked v t]) = streak ls" "streak (ls @ [Succeeded]) = 0" "streak (ls @ [Failed t]) = Suc (streak ls)"
  by (simp_all add: streak_def)

lemma answers_append: "answers (xs @ ys) = answers xs @ answers ys"
  by (induction xs rule: answers.induct) simp_all

lemma tripped_history:
  assumes "history cfg w ls w'" and "tripped t0 w" and "\<forall>v t. Asked v t \<in> set ls \<longrightarrow> t < t0 + cb_open_duration_ms cfg"
  shows "(\<forall>v t. Asked v t \<in> set ls \<longrightarrow> v = Some False) \<and> tripped t0 w'"
  using assms
proof (induction rule: history.induct)
  case (call ls w1 l w2)
  then have "tripped t0 w1" "\<forall>v t. Asked v t \<in> set ls \<longrightarrow> v = Some False" by auto
  with tripped_step [OF this(1) call.hyps(2)] call.prems(2) show ?case by (cases l) auto
qed (simp_all add: phases_meanwhile)

lemma trying_history:
  assumes "history cfg w ls w'" and "trying n w" and "list_all asks ls"
  shows "answers ls = replicate (min (length ls) (nat (cb_half_open_max_calls cfg - n))) True
       @ replicate (length ls - nat (cb_half_open_max_calls cfg - n)) False
     \<and> trying (n + int (min (length ls) (nat (cb_half_open_max_calls cfg - n)))) w'"
  using assms
proof (induction rule: history.induct)
  case (call ls w1 l w2)
  let ?k = "nat (cb_half_open_max_calls cfg - n)" and ?m = "n + int (min (length ls) (nat (cb_half_open_max_calls cfg - n)))"
  have so_far: "answers ls = replicate (min (length ls) ?k) True @ replicate (length ls - ?k) False" "trying ?m w1"
    using call by auto
  obtain v t where l: "l = Asked v t" using call.prems(2) by (auto simp: asks_def)
  have "?m < cb_half_open_max_calls cfg \<longleftrightarrow> length ls < ?k" by linarith
  with trying_step [OF so_far(2) call.hyps(2)] l have "v = Some (length ls < ?k)" "trying (if length ls < ?k then ?m + 1 else ?m) w2" by simp_all
  with so_far(1) l show ?case
    by (cases "length ls < ?k") (auto simp: answers_append replicate_append_same Suc_diff_le algebra_simps simp flip: replicate_Suc)
qed (simp_all add: phases_meanwhile)

lemma history_single:
  assumes "history cfg w [l] w'" and "P w" and "\<And>a b x. w_breaker b = (w_breaker a)\<lparr>br_session_id := x\<rparr> \<Longrightarrow> P b = P a \<and> Q b = Q a"
    and "\<And>a b. P a \<Longrightarrow> reported cfg a l b \<Longrightarrow> Q b"
  shows "Q w'"
proof -
  have "(ls = [] \<longrightarrow> P w') \<and> (ls = [l] \<longrightarrow> Q w')" if "history cfg w ls w'" for ls w'
    using that assms(2-4) by (induction rule: history.induct) auto
  then show ?thesis using assms(1) by blast
qed

section \<open>Properties\<close>

text \<open>
  C27. The breaker trips exactly at the threshold: from a closed breaker with no failure counted, as long as fewer
  failures than the threshold have been reported since the last success, every question is answered yes and the breaker
  stays closed; the report that makes it as many opens it at the time the clock then gives.
\<close>

theorem breaker_trips_at_threshold:
  assumes "closed_after 0 w" and "history cfg w ls w'" and "0 < cb_failure_threshold cfg"
    and "\<forall>xs ys. ls = xs @ ys \<longrightarrow> ys \<noteq> [] \<longrightarrow> int (streak xs) < cb_failure_threshold cfg"
  shows "(\<forall>v t. Asked v t \<in> set ls \<longrightarrow> v = Some True)
    \<and> (int (streak ls) < cb_failure_threshold cfg \<longrightarrow> closed_after (int (streak ls)) w')
    \<and> (cb_failure_threshold cfg \<le> int (streak ls) \<longrightarrow> (\<exists>t0. last ls = Failed t0 \<and> tripped t0 w'))"
  using assms(2,4)
proof (induction rule: history.induct)
  case nothing
  with assms(1,3) show ?case by (simp add: streak_snoc)
next
  case (call ls w1 l w2)
  have "\<forall>xs ys. ls = xs @ ys \<longrightarrow> ys \<noteq> [] \<longrightarrow> int (streak xs) < cb_failure_threshold cfg" using call.prems by auto
  moreover have "int (streak ls) < cb_failure_threshold cfg" using call.prems by blast
  ultimately have so_far: "closed_after (int (streak ls)) w1" "\<forall>v t. Asked v t \<in> set ls \<longrightarrow> v = Some True" using call.IH by auto
  with closed_step [OF so_far(1) call.hyps(2)] assms(3) \<open>int (streak ls) < _\<close> show ?case by (cases l) (auto simp: streak_snoc add.commute)
qed (simp add: phases_meanwhile)

text \<open>
  C28. An open breaker shields the server, then tries it: whatever is asked or reported, every question put before the
  open duration has passed since it opened is refused. The first question after it and those that follow are answered yes
  exactly as often as the configured number of trials, then no, until an outcome is reported; a success closes the
  breaker with no failure counted, a failure opens it again from the time of that report.
\<close>

theorem open_breaker_shields_then_tries:
  assumes "tripped t0 w" and "history cfg w (shut @ Asked v t # trials @ [outcome]) w'"
    and "\<forall>v t. Asked v t \<in> set shut \<longrightarrow> t < t0 + cb_open_duration_ms cfg" and "t0 + cb_open_duration_ms cfg \<le> t"
    and "list_all asks trials" and "\<not> asks outcome"
  shows "(\<forall>v t. Asked v t \<in> set shut \<longrightarrow> v = Some False)
    \<and> (\<exists>n. n = length trials + (if v = None then 0 else 1)
         \<and> answers (Asked v t # trials) = replicate (min n (nat (cb_half_open_max_calls cfg))) True @ replicate (n - nat (cb_half_open_max_calls cfg)) False)
    \<and> (outcome = Succeeded \<longrightarrow> closed_after 0 w') \<and> (\<forall>t1. outcome = Failed t1 \<longrightarrow> tripped t1 w')"
proof -
  obtain w1 where w1: "history cfg w shut w1" "history cfg w1 (Asked v t # trials @ [outcome]) w'" using history_split [OF assms(2)] by blast
  obtain w2 where w2: "history cfg w1 [Asked v t] w2" "history cfg w2 (trials @ [outcome]) w'"
    using history_split [of cfg w1 "[Asked v t]"] w1(2) by auto
  obtain w3 where w3: "history cfg w2 trials w3" "history cfg w3 [outcome] w'" using history_split [OF w2(2)] by blast
  have shut: "\<forall>v t. Asked v t \<in> set shut \<longrightarrow> v = Some False" "tripped t0 w1" using tripped_history [OF w1(1) assms(1,3)] by simp_all
  let ?max = "cb_half_open_max_calls cfg" and ?n = "length trials + (if v = None then 0 else 1)"
  have first: "case v of None \<Rightarrow> trying 0 w2 | Some True \<Rightarrow> trying 1 w2 \<and> 1 \<le> ?max | Some False \<Rightarrow> trying 0 w2 \<and> ?max \<le> 0"
    using w2(1) shut(2)
  proof (rule history_single)
    show "case v of None \<Rightarrow> trying 0 b | Some True \<Rightarrow> trying 1 b \<and> 1 \<le> ?max | Some False \<Rightarrow> trying 0 b \<and> ?max \<le> 0"
      if "tripped t0 a" "reported cfg a (Asked v t) b" for a b
      using tripped_step [OF that] assms(4) by simp
  qed (simp add: phases_meanwhile split: option.split bool.split)
  then obtain n where n: "trying n w2" "v = None \<and> n = 0 \<or> v = Some True \<and> n = 1 \<and> 1 \<le> ?max \<or> v = Some False \<and> n = 0 \<and> ?max \<le> 0"
    by (auto split: option.splits bool.splits)
  have k: "v = Some True \<Longrightarrow> nat ?max = Suc (nat (?max - n))" "v \<noteq> Some True \<Longrightarrow> nat (?max - n) = nat ?max" "v = Some False \<Longrightarrow> nat ?max = 0"
    using n(2) by auto
  have trials: "answers trials = replicate (min (length trials) (nat (?max - n))) True @ replicate (length trials - nat (?max - n)) False"
    and last: "\<exists>m. trying m w3" using trying_history [OF w3(1) n(1) assms(5)] by blast+
  have "answers (Asked v t # trials) = replicate (min ?n (nat ?max)) True @ replicate (?n - nat ?max) False"
    using n(2) trials k by (elim disjE) auto
  moreover have "(outcome = Succeeded \<longrightarrow> closed_after 0 w') \<and> (\<forall>t1. outcome = Failed t1 \<longrightarrow> tripped t1 w')"
    using w3(2) last
  proof (rule history_single)
    show "(outcome = Succeeded \<longrightarrow> closed_after 0 b) \<and> (\<forall>t1. outcome = Failed t1 \<longrightarrow> tripped t1 b)"
      if "\<exists>m. trying m a" "reported cfg a outcome b" for a b
      using that trying_step [OF _ that(2)] by (cases outcome) auto
  qed (simp add: phases_meanwhile)
  ultimately show ?thesis using shut(1) by blast
qed

section \<open>Witnesses\<close>

lemma failing_history: "\<exists>ls w'. history cfg w ls w' \<and> length ls = n \<and> (\<forall>l \<in> set ls. \<exists>t. l = Failed t)"
proof (induction n)
  case 0
  show ?case using history.nothing by auto
next
  case (Suc n)
  then obtain ls w1 where ls: "history cfg w ls w1" "length ls = n" "\<forall>l \<in> set ls. \<exists>t. l = Failed t" by blast
  obtain r w2 where "record_failure cfg w1 = (r, w2)" by (cases "record_failure cfg w1")
  then have "history cfg w (ls @ [Failed (now_ms w1)]) w2" using history.call [OF ls(1) reported.failed] by blast
  moreover have "length (ls @ [Failed (now_ms w1)]) = Suc n \<and> (\<forall>l \<in> set (ls @ [Failed (now_ms w1)]). \<exists>t. l = Failed t)" using ls(2,3) by simp
  ultimately show ?case by blast
qed

lemma streak_failing: "\<forall>l \<in> set ls. \<exists>t. l = Failed t \<Longrightarrow> streak ls = length ls"
  by (induction ls rule: rev_induct) (auto simp: streak_snoc)

theorem breaker_trips_at_threshold_witness:
  "\<exists>ls w' t0. history default_breaker (fresh_app sample_env) ls w' \<and> length ls = 5 \<and> tripped t0 w'"
proof -
  obtain ls w' where ls: "history default_breaker (fresh_app sample_env) ls w'" "length ls = 5" "\<forall>l \<in> set ls. \<exists>t. l = Failed t"
    using failing_history by blast
  have "closed_after 0 (fresh_app sample_env)" by (simp add: closed_after_def fresh_app_def new_breaker_def)
  moreover have "\<forall>xs ys. ls = xs @ ys \<longrightarrow> ys \<noteq> [] \<longrightarrow> int (streak xs) < cb_failure_threshold default_breaker"
  proof (intro allI impI)
    fix xs ys assume "ls = xs @ ys" "ys \<noteq> []"
    with ls(2,3) streak_failing [of xs] show "int (streak xs) < cb_failure_threshold default_breaker" by (cases ys) (auto simp: default_breaker_def)
  qed
  ultimately have "\<exists>t0. tripped t0 w'"
    using breaker_trips_at_threshold [of _ default_breaker ls w', OF _ ls(1)] streak_failing [OF ls(3)] ls(2) by (auto simp: default_breaker_def)
  with ls show ?thesis by blast
qed

definition open_since_0 :: breaker where
  "open_since_0 = \<lparr>br_session_id = None, br_state = Circuit_OPEN, br_consecutive_failures = 5,
     br_opened_at_ms = Some 0, br_half_open_calls = 0\<rparr>"

definition open_app :: app where
  "open_app = (fresh_app (sample_env\<lparr>e_monotonic_ms := \<lambda>_. 30000\<rparr>))\<lparr>w_breaker := open_since_0\<rparr>"

theorem open_breaker_shields_then_tries_witness:
  "\<exists>v w'. history default_breaker open_app [Asked v 30000, Succeeded] w' \<and> closed_after 0 w'"
proof -
  obtain r w1 where first: "allow default_breaker open_app = (r, w1)" by (cases "allow default_breaker open_app")
  obtain r2 w2 where second: "record_success w1 = (r2, w2)" by (cases "record_success w1")
  obtain v where "history default_breaker open_app ([] @ Asked v 30000 # [] @ [Succeeded]) w2"
    using history.call [OF history_one [OF reported.asked [OF first]] reported.succeeded [OF second]] by (auto simp: now_ms_def open_app_def fresh_app_def)
  moreover have "tripped 0 open_app" by (simp add: tripped_def open_app_def open_since_0_def)
  ultimately have "closed_after 0 w2"
    using open_breaker_shields_then_tries [of 0 open_app default_breaker "[]" v 30000 "[]" Succeeded w2] by (simp add: default_breaker_def asks_def)
  with \<open>history _ _ _ _\<close> show ?thesis by auto
qed

end
