(* ===== verification/Lifecycle.thy ===== *)
theory Lifecycle
  imports App
begin

text \<open>
  \<open>lifecycle/conversation_lifecycle.py\<close>: the owner of every session and conversation
  transition. A keyword argument of \<open>**updates\<close> is a value of \<open>session_update\<close> or
  \<open>conversation_update\<close>: one constructor per plain field, one for the fields the manager owns
  and one for what pydantic rejects (an unknown field or a value of the wrong type).
\<close>

section \<open>Field updates\<close>

datatype session_update =
  Set_goal string | Set_user_message string | Set_user_id string | Set_auto_close bool
  | Set_budget session_budget | Set_consumed_cycles int | Set_consumed_plans int | Set_rotations_count int
  | Set_current_conversation_id "string option" | Set_final_answer "details option"
  | Set_last_failure_id "string option" | Set_started_at "time option" | Set_ended_at "time option"
  | Set_interrupted_at "time option"
  | Session_managed_field string | Session_invalid_field string

fun apply_session_update :: "session_update \<Rightarrow> session_record \<Rightarrow> exn + session_record" where
  "apply_session_update (Set_goal v) s = Inr (s\<lparr>s_goal := v\<rparr>)"
| "apply_session_update (Set_user_message v) s = Inr (s\<lparr>s_user_message := v\<rparr>)"
| "apply_session_update (Set_user_id v) s = Inr (s\<lparr>s_user_id := v\<rparr>)"
| "apply_session_update (Set_auto_close v) s = Inr (s\<lparr>s_auto_close_on_final_answer := v\<rparr>)"
| "apply_session_update (Set_budget v) s = Inr (s\<lparr>s_budget := v\<rparr>)"
| "apply_session_update (Set_consumed_cycles v) s = Inr (s\<lparr>s_consumed_cycles := v\<rparr>)"
| "apply_session_update (Set_consumed_plans v) s = Inr (s\<lparr>s_consumed_plans := v\<rparr>)"
| "apply_session_update (Set_rotations_count v) s = Inr (s\<lparr>s_rotations_count := v\<rparr>)"
| "apply_session_update (Set_current_conversation_id v) s = Inr (s\<lparr>s_current_conversation_id := v\<rparr>)"
| "apply_session_update (Set_final_answer v) s = Inr (s\<lparr>s_final_answer := v\<rparr>)"
| "apply_session_update (Set_last_failure_id v) s = Inr (s\<lparr>s_last_failure_id := v\<rparr>)"
| "apply_session_update (Set_started_at v) s = Inr (s\<lparr>s_started_at := v\<rparr>)"
| "apply_session_update (Set_ended_at v) s = Inr (s\<lparr>s_ended_at := v\<rparr>)"
| "apply_session_update (Set_interrupted_at v) s = Inr (s\<lparr>s_interrupted_at := v\<rparr>)"
| "apply_session_update (Session_managed_field f) s = Inl (Other_Exn ''ValidationError'' f)"
| "apply_session_update (Session_invalid_field f) s = Inl (Other_Exn ''ValidationError'' f)"

datatype conversation_update =
  Set_parent_conversation_id "string option" | Set_remote_conversation_id "string option"
  | Set_conversation_auto_close bool | Set_context_bytes int | Set_protocol_error_count int
  | Set_last_model_response_state string | Set_current_cycle_id "string option"
  | Set_current_plan_id "string option" | Set_last_completed_plan_id "string option"
  | Set_final_answer_received bool | Set_last_outbound_message_id "string option"
  | Set_last_inbound_message_id "string option" | Set_get_cursor "string option"
  | Set_session_budget_json details | Set_closure_reason "string option"
  | Set_conversation_interrupted_at "time option"
  | Conversation_managed_field string | Conversation_invalid_field string

fun apply_conversation_update :: "conversation_update \<Rightarrow> conversation_record \<Rightarrow> exn + conversation_record" where
  "apply_conversation_update (Set_parent_conversation_id v) c = Inr (c\<lparr>c_parent_conversation_id := v\<rparr>)"
| "apply_conversation_update (Set_remote_conversation_id v) c = Inr (c\<lparr>c_remote_conversation_id := v\<rparr>)"
| "apply_conversation_update (Set_conversation_auto_close v) c = Inr (c\<lparr>c_auto_close_on_final_answer := v\<rparr>)"
| "apply_conversation_update (Set_context_bytes v) c = Inr (c\<lparr>c_context_bytes := v\<rparr>)"
| "apply_conversation_update (Set_protocol_error_count v) c = Inr (c\<lparr>c_protocol_error_count := v\<rparr>)"
| "apply_conversation_update (Set_last_model_response_state v) c = Inr (c\<lparr>c_last_model_response_state := v\<rparr>)"
| "apply_conversation_update (Set_current_cycle_id v) c = Inr (c\<lparr>c_current_cycle_id := v\<rparr>)"
| "apply_conversation_update (Set_current_plan_id v) c = Inr (c\<lparr>c_current_plan_id := v\<rparr>)"
| "apply_conversation_update (Set_last_completed_plan_id v) c = Inr (c\<lparr>c_last_completed_plan_id := v\<rparr>)"
| "apply_conversation_update (Set_final_answer_received v) c = Inr (c\<lparr>c_final_answer_received := v\<rparr>)"
| "apply_conversation_update (Set_last_outbound_message_id v) c = Inr (c\<lparr>c_last_outbound_message_id := v\<rparr>)"
| "apply_conversation_update (Set_last_inbound_message_id v) c = Inr (c\<lparr>c_last_inbound_message_id := v\<rparr>)"
| "apply_conversation_update (Set_get_cursor v) c = Inr (c\<lparr>c_get_cursor := v\<rparr>)"
| "apply_conversation_update (Set_session_budget_json v) c = Inr (c\<lparr>c_session_budget_json := v\<rparr>)"
| "apply_conversation_update (Set_closure_reason v) c = Inr (c\<lparr>c_closure_reason := v\<rparr>)"
| "apply_conversation_update (Set_conversation_interrupted_at v) c = Inr (c\<lparr>c_interrupted_at := v\<rparr>)"
| "apply_conversation_update (Conversation_managed_field f) c = Inl (Other_Exn ''ValidationError'' f)"
| "apply_conversation_update (Conversation_invalid_field f) c = Inl (Other_Exn ''ValidationError'' f)"

definition reject_managed_session_fields :: "session_update list \<Rightarrow> exn + unit" where
  "reject_managed_session_fields us =
     guardR (list_all (\<lambda>u. case u of Session_managed_field _ \<Rightarrow> False | _ \<Rightarrow> True) us) (ValueError ''session field(s) are owned'')"

definition reject_managed_conversation_fields :: "conversation_update list \<Rightarrow> exn + unit" where
  "reject_managed_conversation_fields us =
     guardR (list_all (\<lambda>u. case u of Conversation_managed_field _ \<Rightarrow> False | _ \<Rightarrow> True) us) (ValueError ''conversation field(s) are owned'')"

section \<open>Reading and publishing\<close>

definition require_session :: "string \<Rightarrow> session_record app_act" where
  "require_session sid =
     bnd (reading (\<lambda>w. get_session (w_store w) sid)) (\<lambda>r.
     case r of None \<Rightarrow> throw (Other_Exn ''KeyError'' (''unknown session: '' @ sid)) | Some s \<Rightarrow> ret s)"

definition require_conversation :: "string \<Rightarrow> conversation_record app_act" where
  "require_conversation cid =
     bnd (reading (\<lambda>w. get_conversation (w_store w) cid)) (\<lambda>r.
     case r of None \<Rightarrow> throw (Other_Exn ''KeyError'' (''unknown conversation: '' @ cid)) | Some c \<Rightarrow> ret c)"

definition lifecycle_publish :: "event_type \<Rightarrow> time \<Rightarrow> string \<Rightarrow> string option \<Rightarrow> details \<Rightarrow> unit app_act" where
  "lifecycle_publish ty now sid cid payload =
     publish \<lparr>ev_event_type = ty, ev_timestamp = now, ev_session_id = sid, ev_conversation_id = cid,
       ev_cycle_id = None, ev_plan_id = None, ev_task_id = None, ev_payload = payload\<rparr>"

definition budget_json :: "session_budget \<Rightarrow> details" where
  "budget_json b = [(''max_cycles'', JInt (max_cycles b)), (''max_plans'', JInt (max_plans b)),
                    (''max_total_duration_ms'', JInt (max_total_duration_ms b))]"

section \<open>Sessions\<close>

definition new_session :: "string \<Rightarrow> string \<Rightarrow> string \<Rightarrow> string \<Rightarrow> session_budget \<Rightarrow> bool \<Rightarrow> time \<Rightarrow> session_record" where
  "new_session sid goal user_message user_id budget auto_close now =
     \<lparr>s_session_id = sid, s_status = Session_READY, s_goal = goal, s_user_message = user_message,
      s_user_id = user_id, s_auto_close_on_final_answer = auto_close, s_budget = budget,
      s_consumed_cycles = 0, s_consumed_plans = 0, s_rotations_count = 0, s_current_conversation_id = None,
      s_final_answer = None, s_last_failure_id = None, s_started_at = None, s_ended_at = None,
      s_interrupted_at = None, s_created_at = now, s_updated_at = now\<rparr>"

definition create_session ::
  "string \<Rightarrow> string \<Rightarrow> string \<Rightarrow> session_budget \<Rightarrow> bool \<Rightarrow> string list \<Rightarrow> string option \<Rightarrow> session_record app_act" where
  "create_session goal user_message user_id budget auto_close skills effort =
     bnd clock_now (\<lambda>now.
     bnd new_session_id (\<lambda>sid.
     bnd (ret (new_session sid goal user_message user_id budget auto_close now)) (\<lambda>session.
     andthen (on_store (save_session session))
    (andthen (lifecycle_publish SESSION_CREATED now sid None
        [(''goal'', JStr goal), (''budget'', JObj (budget_json budget)), (''skills'', JArr (map JStr skills)),
         (''effort'', jstr_opt effort)])
     (ret session)))))"

definition conversation_waits_for_user :: "store \<Rightarrow> session_record \<Rightarrow> bool" where
  "conversation_waits_for_user st session =
     (case s_current_conversation_id session of
        None \<Rightarrow> False
      | Some cid \<Rightarrow> (case get_conversation st cid of
            None \<Rightarrow> False | Some c \<Rightarrow> c_status c = Conv_WAITING_USER))"

text \<open>The \<open>setdefault\<close> calls: the caller's updates come after, so they win.\<close>

definition session_defaults :: "session_record \<Rightarrow> session_state \<Rightarrow> time \<Rightarrow> session_update list" where
  "session_defaults current to now =
     (case to of
        Session_RUNNING \<Rightarrow>
          (if s_started_at current = None then [Set_started_at (Some now)] else []) @ [Set_ended_at None]
      | Session_COMPLETED \<Rightarrow> [Set_ended_at (Some now)]
      | Session_FAILED \<Rightarrow> [Set_ended_at (Some now)]
      | Session_INTERRUPTING \<Rightarrow> [Set_interrupted_at (Some now)]
      | _ \<Rightarrow> [])"

definition apply_session :: "session_update list \<Rightarrow> session_record \<Rightarrow> exn + session_record" where
  "apply_session us s = foldR apply_session_update us s"

definition transition_session ::
  "string \<Rightarrow> session_state \<Rightarrow> string option \<Rightarrow> session_update list \<Rightarrow> session_record app_act" where
  "transition_session sid to reason updates =
     bnd (require_session sid) (\<lambda>current.
     andthen (lifting (reject_managed_session_fields updates))
    (andthen (lifting (assert_transition SESSION_TRANSITIONS session_state_value (s_status current) to ''session''))
    (bnd (reading (\<lambda>w. conversation_waits_for_user (w_store w) current)) (\<lambda>waits.
     andthen (lifting (guardR (\<not> (s_status current = Session_COMPLETED \<and> to = Session_RUNNING
                                  \<and> s_auto_close_on_final_answer current \<and> \<not> waits))
        (InvalidTransitionError ''session'' (session_state_value (s_status current)) (session_state_value to))))
    (bnd clock_now (\<lambda>now.
     bnd (lifting (apply_session (session_defaults current to now @ updates) current)) (\<lambda>applied.
     bnd (ret (applied\<lparr>s_status := to, s_updated_at := now\<rparr>)) (\<lambda>session.
     andthen (on_store (save_session session))
    (andthen (lifecycle_publish SESSION_STATE_CHANGED now sid None
        (state_change_payload (Some (session_state_value (s_status current))) (session_state_value to) reason))
     (ret session))))))))))"

definition update_session :: "string \<Rightarrow> session_update list \<Rightarrow> session_record app_act" where
  "update_session sid updates =
     bnd (require_session sid) (\<lambda>current.
     andthen (lifting (reject_managed_session_fields updates))
    (bnd clock_now (\<lambda>now.
     bnd (lifting (apply_session updates current)) (\<lambda>applied.
     bnd (ret (applied\<lparr>s_updated_at := now\<rparr>)) (\<lambda>session.
     andthen (on_store (save_session session)) (ret session))))))"

section \<open>Conversations\<close>

definition new_conversation ::
  "string \<Rightarrow> session_record \<Rightarrow> string option \<Rightarrow> context_window_state \<Rightarrow> time \<Rightarrow> conversation_record" where
  "new_conversation cid session parent window now =
     \<lparr>c_conversation_id = cid, c_session_id = s_session_id session, c_parent_conversation_id = parent,
      c_remote_conversation_id = None, c_status = Conv_NEW,
      c_auto_close_on_final_answer = s_auto_close_on_final_answer session, c_context_window_state = window,
      c_context_bytes = 0, c_protocol_error_count = 0, c_last_model_response_state = ''none'',
      c_current_cycle_id = None, c_current_plan_id = None, c_last_completed_plan_id = None,
      c_final_answer_received = False, c_last_outbound_message_id = None, c_last_inbound_message_id = None,
      c_get_cursor = None, c_session_budget_json = budget_json (s_budget session), c_closure_reason = None,
      c_interrupted_at = None, c_created_at = now, c_updated_at = now\<rparr>"

definition check_parent :: "string \<Rightarrow> string option \<Rightarrow> unit app_act" where
  "check_parent sid parent_id =
     (case parent_id of None \<Rightarrow> ret ()
      | Some pid \<Rightarrow> bnd (require_conversation pid) (\<lambda>parent.
          lifting (guardR (c_session_id parent = sid) (ValueError ''parent conversation of another session''))))"

definition create_conversation ::
  "string \<Rightarrow> string option \<Rightarrow> context_window_state \<Rightarrow> conversation_record app_act" where
  "create_conversation sid parent_id window =
     bnd (require_session sid) (\<lambda>session.
     andthen (check_parent sid parent_id)
    (bnd clock_now (\<lambda>now.
     bnd new_conversation_id (\<lambda>cid.
     bnd (ret ((new_conversation cid session parent_id window now)\<lparr>c_session_id := sid\<rparr>)) (\<lambda>conversation.
     andthen (on_store (transaction (andthen (save_conversation conversation)
        (save_session (session\<lparr>s_current_conversation_id := Some cid, s_updated_at := now\<rparr>)))))
    (andthen (lifecycle_publish CONVERSATION_CREATED now sid (Some cid)
        [(''parent_conversation_id'', jstr_opt parent_id), (''context_window_state'', JStr (window_state_value window))])
     (ret conversation)))))))"

definition apply_conversation :: "conversation_update list \<Rightarrow> conversation_record \<Rightarrow> exn + conversation_record" where
  "apply_conversation us c = foldR apply_conversation_update us c"

definition commit_conversation_transition ::
  "conversation_record \<Rightarrow> conversation_state \<Rightarrow> string option \<Rightarrow> conversation_update list \<Rightarrow> conversation_record app_act" where
  "commit_conversation_transition current to reason updates =
     bnd clock_now (\<lambda>now.
     bnd (lifting (apply_conversation
            ((if to = Conv_INTERRUPTED then [Set_conversation_interrupted_at (Some now)] else []) @ updates) current)) (\<lambda>applied.
     bnd (ret (applied\<lparr>c_status := to, c_updated_at := now\<rparr>)) (\<lambda>conversation.
     andthen (on_store (save_conversation conversation))
    (andthen (lifecycle_publish CONVERSATION_STATE_CHANGED now (c_session_id conversation) (Some (c_conversation_id conversation))
        (state_change_payload (Some (conversation_state_value (c_status current))) (conversation_state_value to) reason))
     (ret conversation)))))"

definition transition_conversation ::
  "string \<Rightarrow> conversation_state \<Rightarrow> string option \<Rightarrow> conversation_update list \<Rightarrow> conversation_record app_act" where
  "transition_conversation cid to reason updates =
     bnd (require_conversation cid) (\<lambda>current.
     andthen (lifting (reject_managed_conversation_fields updates))
    (andthen (lifting (assert_transition CONVERSATION_TRANSITIONS conversation_state_value (c_status current) to ''conversation''))
     (commit_conversation_transition current to reason updates)))"

definition update_conversation :: "string \<Rightarrow> conversation_update list \<Rightarrow> conversation_record app_act" where
  "update_conversation cid updates =
     bnd (require_conversation cid) (\<lambda>current.
     andthen (lifting (reject_managed_conversation_fields updates))
    (bnd clock_now (\<lambda>now.
     bnd (lifting (apply_conversation updates current)) (\<lambda>applied.
     bnd (ret (applied\<lparr>c_updated_at := now\<rparr>)) (\<lambda>conversation.
     andthen (on_store (save_conversation conversation)) (ret conversation))))))"

definition interrupt_conversation :: "string \<Rightarrow> string \<Rightarrow> conversation_record app_act" where
  "interrupt_conversation cid reason =
     bnd (require_conversation cid) (\<lambda>current.
     andthen (lifting (guardR (c_status current \<in> ACTIVE_CONVERSATION_STATES)
        (InvalidTransitionError ''conversation'' (conversation_state_value (c_status current)) (conversation_state_value Conv_INTERRUPTED))))
    (andthen (lifting (assert_transition CONVERSATION_TRANSITIONS conversation_state_value (c_status current) Conv_INTERRUPTED ''conversation''))
     (commit_conversation_transition current Conv_INTERRUPTED (Some reason) [])))"

definition transition_context_window ::
  "string \<Rightarrow> context_window_state \<Rightarrow> string option \<Rightarrow> conversation_record app_act" where
  "transition_context_window cid to reason =
     bnd (require_conversation cid) (\<lambda>current.
     andthen (lifting (assert_transition CONTEXT_WINDOW_TRANSITIONS window_state_value (c_context_window_state current) to ''context_window''))
    (bnd clock_now (\<lambda>now.
     bnd (ret (current\<lparr>c_context_window_state := to, c_updated_at := now\<rparr>)) (\<lambda>conversation.
     andthen (on_store (save_conversation conversation))
    (andthen (lifecycle_publish CONTEXT_WINDOW_STATE_CHANGED now (c_session_id conversation) (Some cid)
        (state_change_payload (Some (window_state_value (c_context_window_state current))) (window_state_value to) reason
         @ [(''context_bytes'', JInt (c_context_bytes conversation))]))
     (ret conversation))))))"

section \<open>Which transitions the records can have made\<close>

definition session_path :: "session_state \<Rightarrow> session_state \<Rightarrow> bool" where
  "session_path s t \<longleftrightarrow> (can_transition SESSION_TRANSITIONS)\<^sup>*\<^sup>* s t"

definition conversation_path :: "conversation_state \<Rightarrow> conversation_state \<Rightarrow> bool" where
  "conversation_path s t \<longleftrightarrow> (can_transition CONVERSATION_TRANSITIONS)\<^sup>*\<^sup>* s t"

definition window_path :: "context_window_state \<Rightarrow> context_window_state \<Rightarrow> bool" where
  "window_path s t \<longleftrightarrow> (can_transition CONTEXT_WINDOW_TRANSITIONS)\<^sup>*\<^sup>* s t"

lemmas paths = session_path_def conversation_path_def window_path_def

lemma path_refl [simp]: "session_path s s" "conversation_path c c" "window_path x x"
  by (simp_all add: paths)

lemma path_step:
  "session_path s t \<Longrightarrow> can_transition SESSION_TRANSITIONS t u \<Longrightarrow> session_path s u"
  "conversation_path c d \<Longrightarrow> can_transition CONVERSATION_TRANSITIONS d e \<Longrightarrow> conversation_path c e"
  "window_path x y \<Longrightarrow> can_transition CONTEXT_WINDOW_TRANSITIONS y z \<Longrightarrow> window_path x z"
  by (simp_all add: paths)

text \<open>
  \<open>evolved st w\<close>: every session and conversation of the store \<open>st\<close> is still in \<open>w\<close>, its state reached by
  listed transitions, and records stand under their own id. \<open>fresh_ids\<close>: the identifiers still to be drawn
  are not in use.
\<close>

definition evolved :: "store \<Rightarrow> app \<Rightarrow> bool" where
  "evolved st w \<longleftrightarrow>
     (\<forall>sid s. get_session st sid = Some s \<longrightarrow>
        (\<exists>s'. get_session (w_store w) sid = Some s' \<and> session_path (s_status s) (s_status s')))
     \<and> (\<forall>cid c. get_conversation st cid = Some c \<longrightarrow>
        (\<exists>c'. get_conversation (w_store w) cid = Some c' \<and> conversation_path (c_status c) (c_status c')
              \<and> window_path (c_context_window_state c) (c_context_window_state c')))
     \<and> (\<forall>sid s. get_session (w_store w) sid = Some s \<longrightarrow> s_session_id s = sid)
     \<and> (\<forall>cid c. get_conversation (w_store w) cid = Some c \<longrightarrow> c_conversation_id c = cid)"

definition fresh_ids :: "app \<Rightarrow> bool" where
  "fresh_ids w \<longleftrightarrow> inj (e_uuid (w_env w))
     \<and> (\<forall>n \<ge> w_ids w. get_session (w_store w) (''sess-'' @ e_uuid (w_env w) n) = None
                    \<and> get_conversation (w_store w) (''conv-'' @ e_uuid (w_env w) n) = None)"

definition sound :: "store \<Rightarrow> app \<Rightarrow> bool" where
  "sound st w \<longleftrightarrow> evolved st w \<and> fresh_ids w"

lemma sound_same:
  assumes "sound st w" and "st_sessions (w_store w') = st_sessions (w_store w)"
    and "st_conversations (w_store w') = st_conversations (w_store w)" and "w_env w' = w_env w" and "w_ids w \<le> w_ids w'"
  shows "sound st w'"
  using assms by (simp add: sound_def evolved_def fresh_ids_def get_session_def get_conversation_def)

lemma audit_handle_ids: "audit_handle e w = (r, w') \<Longrightarrow> w_ids w \<le> w_ids w' \<and> w_env w' = w_env w"
  by (auto simp: audit_handle_def flow_simps id_defs last_of_def Let_def split: option.splits sum.splits prod.splits if_splits)

lemma publish_ids: "publish e w = (r, w') \<Longrightarrow> w_ids w \<le> w_ids w' \<and> w_env w' = w_env w"
  by (auto simp: publish_run split: prod.splits sum.splits dest: audit_handle_ids)

lemma keeps_sound_publish [keeps_intros]: "keeps (sound st) (publish e)"
  unfolding keeps_def
proof (intro allI impI)
  fix w assume "sound st w"
  obtain r w' where run: "publish e w = (r, w')" by (cases "publish e w")
  with \<open>sound st w\<close> show "sound st (snd (publish e w))"
    using publish_records [OF run] publish_ids [OF run] by (auto intro: sound_same)
qed

lemma keeps_sound_clock [keeps_intros]: "keeps (sound st) clock_now"
  by (auto simp: keeps_def clock_now_def intro: sound_same)

lemma keeps_sound_lifecycle_publish [keeps_intros]: "keeps (sound st) (lifecycle_publish ty now sid cid payload)"
  by (simp add: lifecycle_publish_def keeps_sound_publish)

text \<open>A session or conversation is replaced by one whose state is a listed step away.\<close>

lemma sound_replace_session:
  assumes "sound st w" and "get_session (w_store w) sid = Some current" and "s_session_id s' = sid"
    and "session_path (s_status current) (s_status s')"
    and st': "\<And>k. get_session (w_store w') k = (if k = sid then Some s' else get_session (w_store w) k)"
      "\<And>k. get_conversation (w_store w') k = get_conversation (w_store w) k"
    and "w_env w' = w_env w" and "w_ids w' = w_ids w"
  shows "sound st w'"
proof -
  have "session_path a (s_status s')" if "session_path a (s_status current)" for a
    using that assms(4) by (simp add: paths)
  with assms show ?thesis
    by (auto simp: sound_def evolved_def fresh_ids_def) (metis option.inject option.distinct(1))+
qed

lemma sound_replace_conversation:
  assumes "sound st w" and "get_conversation (w_store w) cid = Some current" and "c_conversation_id c' = cid"
    and "conversation_path (c_status current) (c_status c')"
    and "window_path (c_context_window_state current) (c_context_window_state c')"
    and st': "\<And>k. get_conversation (w_store w') k = (if k = cid then Some c' else get_conversation (w_store w) k)"
      "\<And>k. get_session (w_store w') k = get_session (w_store w) k"
    and "w_env w' = w_env w" and "w_ids w' = w_ids w"
  shows "sound st w'"
proof -
  have "conversation_path a (c_status c')" if "conversation_path a (c_status current)" for a
    using that assms(4) by (simp add: paths)
  moreover have "window_path a (c_context_window_state c')" if "window_path a (c_context_window_state current)" for a
    using that assms(5) by (simp add: paths)
  ultimately show ?thesis using assms
    by (auto simp: sound_def evolved_def fresh_ids_def) (metis option.inject option.distinct(1))+
qed

lemma apply_session_same:
  assumes "apply_session us s = Inr s'"
  shows "s_session_id s' = s_session_id s \<and> s_status s' = s_status s"
  using assms unfolding apply_session_def
proof (induction us arbitrary: s)
  case (Cons u us)
  then show ?case by (cases u) auto
qed simp

lemma apply_conversation_same:
  assumes "apply_conversation us c = Inr c'"
  shows "c_conversation_id c' = c_conversation_id c \<and> c_status c' = c_status c
    \<and> c_context_window_state c' = c_context_window_state c \<and> c_session_id c' = c_session_id c"
  using assms unfolding apply_conversation_def
proof (induction us arbitrary: c)
  case (Cons u us)
  then show ?case by (cases u) auto
qed simp

lemma save_session_sound:
  assumes "sound st w" and "get_session (w_store w) (s_session_id s') = Some current"
    and "session_path (s_status current) (s_status s')"
  shows "sound st (snd (on_store (save_session s') w))"
proof (cases "save_session s' (w_store w)")
  case (Pair r st')
  show ?thesis
  proof (cases r)
    case (Inl e)
    with Pair have "save_session s' (w_store w) = (Inl e, st')" by simp
    then have "st' = (w_store w)\<lparr>st_fail_next_write := st_fail_next_write (w_store w) \<and> st_closed (w_store w)\<rparr>"
      unfolding save_session_def by (rule write_record_Inl)
    with assms(1) Pair show ?thesis by (auto simp: on_part_def intro: sound_same)
  next
    case (Inr u)
    with Pair have run: "save_session s' (w_store w) = (Inr u, st')" by simp
    then have "get_conversation st' k = get_conversation (w_store w) k" for k
      by (auto simp: save_session_def write_record_Inr get_conversation_def)
    then show ?thesis
      using Pair sessions.accepted [OF run] by (intro sound_replace_session [OF assms(1,2) _ assms(3)]) (simp_all add: on_part_def)
  qed
qed

lemma save_conversation_sound:
  assumes "sound st w" and "get_conversation (w_store w) (c_conversation_id c') = Some current"
    and "conversation_path (c_status current) (c_status c')"
    and "window_path (c_context_window_state current) (c_context_window_state c')"
  shows "sound st (snd (on_store (save_conversation c') w))"
proof (cases "save_conversation c' (w_store w)")
  case (Pair r st')
  show ?thesis
  proof (cases r)
    case (Inl e)
    with Pair have "save_conversation c' (w_store w) = (Inl e, st')" by simp
    then have "st' = (w_store w)\<lparr>st_fail_next_write := st_fail_next_write (w_store w) \<and> st_closed (w_store w)\<rparr>"
      unfolding save_conversation_def by (rule write_record_Inl)
    with assms(1) Pair show ?thesis by (auto simp: on_part_def intro: sound_same)
  next
    case (Inr u)
    with Pair have run: "save_conversation c' (w_store w) = (Inr u, st')" by simp
    then have "get_session st' k = get_session (w_store w) k" for k
      by (auto simp: save_conversation_def write_record_Inr get_session_def)
    then show ?thesis
      using Pair conversations.accepted [OF run]
      by (intro sound_replace_conversation [OF assms(1,2) _ assms(3,4)]) (simp_all add: on_part_def)
  qed
qed

text \<open>The state between the reading of a record and its writing.\<close>

definition holding :: "store \<Rightarrow> session_record \<Rightarrow> app \<Rightarrow> bool" where
  "holding st s w \<longleftrightarrow> sound st w \<and> get_session (w_store w) (s_session_id s) = Some s"

definition holding_conv :: "store \<Rightarrow> conversation_record \<Rightarrow> app \<Rightarrow> bool" where
  "holding_conv st c w \<longleftrightarrow> sound st w \<and> get_conversation (w_store w) (c_conversation_id c) = Some c"

lemma triple_require_session:
  "triple (sound st) (require_session sid) (\<lambda>s w. holding st s w \<and> s_session_id s = sid) (sound st)"
  by (auto simp: triple_def require_session_def flow_simps holding_def sound_def evolved_def split: option.splits)

lemma triple_require_conversation:
  "triple (sound st) (require_conversation cid) (\<lambda>c w. holding_conv st c w \<and> c_conversation_id c = cid) (sound st)"
  by (auto simp: triple_def require_conversation_def flow_simps holding_conv_def sound_def evolved_def split: option.splits)

lemma holding_clock: "triple (holding st s) clock_now (\<lambda>_. holding st s) (sound st)"
  by (auto simp: triple_def clock_now_def holding_def intro: sound_same)

lemma holding_conv_clock: "triple (holding_conv st c) clock_now (\<lambda>_. holding_conv st c) (sound st)"
  by (auto simp: triple_def clock_now_def holding_conv_def intro: sound_same)

lemma triple_save_session:
  assumes "s_session_id s' = s_session_id s" and "session_path (s_status s) (s_status s')"
  shows "triple (holding st s) (on_store (save_session s')) (\<lambda>_. sound st) (sound st)"
  unfolding triple_def
proof (intro allI impI)
  fix w assume "holding st s w"
  then have "sound st (snd (on_store (save_session s') w))"
    using save_session_sound [of st w s' s] assms by (simp add: holding_def)
  then show "case on_store (save_session s') w of (Inr v, w') \<Rightarrow> sound st w' | (Inl _, w') \<Rightarrow> sound st w'"
    by (auto split: prod.splits sum.splits)
qed

lemma triple_save_conversation:
  assumes "c_conversation_id c' = c_conversation_id c" and "conversation_path (c_status c) (c_status c')"
    and "window_path (c_context_window_state c) (c_context_window_state c')"
  shows "triple (holding_conv st c) (on_store (save_conversation c')) (\<lambda>_. sound st) (sound st)"
  unfolding triple_def
proof (intro allI impI)
  fix w assume "holding_conv st c w"
  then have "sound st (snd (on_store (save_conversation c') w))"
    using save_conversation_sound [of st w c' c] assms by (simp add: holding_conv_def)
  then show "case on_store (save_conversation c') w of (Inr v, w') \<Rightarrow> sound st w' | (Inl _, w') \<Rightarrow> sound st w'"
    by (auto split: prod.splits sum.splits)
qed

lemma triple_lifting_unit:
  "(\<And>s. P s \<Longrightarrow> E s) \<Longrightarrow> triple P (lifting r) (\<lambda>v s. P s \<and> r = Inr v) E"
  by (rule triple_lifting) auto

lemma triple_assume: "(b \<Longrightarrow> triple P m Q E) \<Longrightarrow> triple (\<lambda>s. P s \<and> b) m Q E"
  by (auto simp: triple_def)

lemma holding_sound: "holding st s w \<Longrightarrow> sound st w" "holding_conv st c w \<Longrightarrow> sound st w"
  by (simp_all add: holding_def holding_conv_def)

lemma triple_after_save:
  "triple (sound st) (andthen (lifecycle_publish ty now sid cid payload) (ret r)) (\<lambda>_. sound st) (sound st)"
  unfolding triple_keeps by (intro keeps_intros)

lemma triple_commit_session:
  assumes "s_session_id s' = s_session_id s" and "session_path (s_status s) (s_status s')"
  shows "triple (holding st s) (andthen (on_store (save_session s')) (andthen (lifecycle_publish ty now sid cid payload) (ret r)))
    (\<lambda>_. sound st) (sound st)"
  by (rule triple_andthen [OF triple_save_session triple_after_save]) (use assms in simp_all)

lemma triple_commit_conversation:
  assumes "c_conversation_id c' = c_conversation_id c" and "conversation_path (c_status c) (c_status c')"
    and "window_path (c_context_window_state c) (c_context_window_state c')"
  shows "triple (holding_conv st c) (andthen (on_store (save_conversation c')) (andthen (lifecycle_publish ty now sid cid payload) (ret r)))
    (\<lambda>_. sound st) (sound st)"
  by (rule triple_andthen [OF triple_save_conversation triple_after_save]) (use assms in simp_all)

lemma triple_check:
  assumes "\<And>w. P w \<Longrightarrow> E w" and "r = Inr () \<Longrightarrow> triple P m Q E"
  shows "triple P (andthen (lifting r) m) Q E"
  using assms by (cases r) (auto simp: triple_def andthen_run lifting_def)

lemma triple_checked_value:
  assumes "\<And>w. P w \<Longrightarrow> E w" and "\<And>v. r = Inr v \<Longrightarrow> triple P (f v) Q E"
  shows "triple P (bnd (lifting r) f) Q E"
  using assms by (cases r) (auto simp: triple_def bnd_run lifting_def)

lemma triple_read:
  assumes "\<And>v. triple P (f v) Q E"
  shows "triple P (bnd (reading g) f) Q E"
  using assms by (auto simp: triple_def bnd_run reading_def)

lemma triple_with_session:
  assumes "\<And>s. s_session_id s = sid \<Longrightarrow> triple (holding st s) (f s) (\<lambda>_. sound st) (sound st)"
  shows "keeps (sound st) (bnd (require_session sid) f)"
  unfolding triple_keeps [symmetric]
  by (rule triple_bnd [OF triple_require_session], rule triple_assume, rule assms)

lemma triple_with_conversation:
  assumes "\<And>c. c_conversation_id c = cid \<Longrightarrow> triple (holding_conv st c) (f c) (\<lambda>_. sound st) (sound st)"
  shows "keeps (sound st) (bnd (require_conversation cid) f)"
  unfolding triple_keeps [symmetric]
  by (rule triple_bnd [OF triple_require_conversation], rule triple_assume, rule assms)

lemmas holding_steps = triple_check triple_checked_value triple_read triple_bnd [OF holding_clock]
  triple_bnd [OF holding_conv_clock]

lemma keeps_update_session [keeps_intros]: "keeps (sound st) (update_session sid updates)"
  unfolding update_session_def bnd_ret
  by (intro triple_with_session holding_steps triple_andthen [OF triple_save_session] triple_ret)
    (auto simp: holding_sound dest: apply_session_same)

lemma keeps_transition_session [keeps_intros]: "keeps (sound st) (transition_session sid to reason updates)"
  unfolding transition_session_def bnd_ret
  by (intro triple_with_session holding_steps triple_commit_session)
    (auto simp: holding_sound paths dest: apply_session_same)

lemma keeps_update_conversation [keeps_intros]: "keeps (sound st) (update_conversation cid updates)"
  unfolding update_conversation_def bnd_ret
  by (intro triple_with_conversation holding_steps triple_andthen [OF triple_save_conversation] triple_ret)
    (auto simp: holding_sound dest: apply_conversation_same)

lemma triple_commit_transition:
  assumes "can_transition CONVERSATION_TRANSITIONS (c_status c) to"
  shows "triple (holding_conv st c) (commit_conversation_transition c to reason updates) (\<lambda>_. sound st) (sound st)"
  unfolding commit_conversation_transition_def bnd_ret
  by (intro holding_steps triple_commit_conversation)
    (use assms in \<open>auto simp: holding_sound paths dest: apply_conversation_same\<close>)

lemma keeps_transition_conversation [keeps_intros]: "keeps (sound st) (transition_conversation cid to reason updates)"
  unfolding transition_conversation_def
  by (intro triple_with_conversation holding_steps triple_commit_transition) (auto simp: holding_sound)

lemma keeps_interrupt_conversation [keeps_intros]: "keeps (sound st) (interrupt_conversation cid reason)"
  unfolding interrupt_conversation_def
  by (intro triple_with_conversation holding_steps triple_commit_transition) (auto simp: holding_sound)

lemma keeps_transition_context_window [keeps_intros]: "keeps (sound st) (transition_context_window cid to reason)"
  unfolding transition_context_window_def bnd_ret
  by (intro triple_with_conversation holding_steps triple_commit_conversation) (auto simp: holding_sound paths)

lemma transaction_Inl_records:
  assumes "transaction body st = (Inl e, st')"
  shows "st_sessions st' = st_sessions st \<and> st_conversations st' = st_conversations st"
  using transaction_rolls_back [OF assms] by (cases st; cases st') (simp add: same_data_def)

lemma triple_iff_snd: "triple P m (\<lambda>_. I) I \<longleftrightarrow> (\<forall>s. P s \<longrightarrow> I (snd (m s)))"
proof -
  have "(case m s of (Inr v, s') \<Rightarrow> I s' | (Inl _, s') \<Rightarrow> I s') = I (snd (m s))" for s
    by (simp split: prod.splits sum.splits)
  then show ?thesis by (simp add: triple_def)
qed

lemma triple_snd: "triple P m (\<lambda>_. I) I \<Longrightarrow> P s \<Longrightarrow> I (snd (m s))"
  by (simp add: triple_iff_snd)

lemma triple_from_snd: "(\<And>s. P s \<Longrightarrow> I (snd (m s))) \<Longrightarrow> triple P m (\<lambda>_. I) I"
  by (simp add: triple_iff_snd)

lemma evolvedD:
  assumes "evolved st w"
  shows "get_session st sid = Some s \<Longrightarrow> \<exists>s'. get_session (w_store w) sid = Some s' \<and> session_path (s_status s) (s_status s')"
    and "get_conversation st cid = Some c \<Longrightarrow> \<exists>c'. get_conversation (w_store w) cid = Some c'
           \<and> conversation_path (c_status c) (c_status c') \<and> window_path (c_context_window_state c) (c_context_window_state c')"
    and "get_session (w_store w) sid = Some s \<Longrightarrow> s_session_id s = sid"
    and "get_conversation (w_store w) cid = Some c \<Longrightarrow> c_conversation_id c = cid"
  using assms unfolding evolved_def by blast+

lemma evolvedI:
  assumes "\<And>sid s. get_session st sid = Some s \<Longrightarrow> \<exists>s'. get_session (w_store w) sid = Some s' \<and> session_path (s_status s) (s_status s')"
    and "\<And>cid c. get_conversation st cid = Some c \<Longrightarrow> \<exists>c'. get_conversation (w_store w) cid = Some c'
           \<and> conversation_path (c_status c) (c_status c') \<and> window_path (c_context_window_state c) (c_context_window_state c')"
    and "\<And>sid s. get_session (w_store w) sid = Some s \<Longrightarrow> s_session_id s = sid"
    and "\<And>cid c. get_conversation (w_store w) cid = Some c \<Longrightarrow> c_conversation_id c = cid"
  shows "evolved st w"
  using assms unfolding evolved_def by blast

lemma create_session_run:
  "create_session goal user_message user_id budget auto_close skills effort w =
    (let now = e_now (w_env w) (w_clock_reads w);
         sid = ''sess'' @ ''-'' @ e_uuid (w_env w) (w_ids w);
         session = new_session sid goal user_message user_id budget auto_close now
     in andthen (on_store (save_session session))
       (andthen (lifecycle_publish SESSION_CREATED now sid None
          [(''goal'', JStr goal), (''budget'', JObj (budget_json budget)), (''skills'', JArr (map JStr skills)),
           (''effort'', jstr_opt effort)])
        (ret session)) (w\<lparr>w_clock_reads := w_clock_reads w + 1, w_ids := w_ids w + 1\<rparr>))"
  by (simp add: create_session_def bnd_run clock_now_run id_defs Let_def)

lemma sound_add_session:
  assumes "sound st w" and "s_session_id s = ''sess-'' @ e_uuid (w_env w) (w_ids w)"
    and st': "\<And>k. get_session (w_store w') k = (if k = s_session_id s then Some s else get_session (w_store w) k)"
      "\<And>k. get_conversation (w_store w') k = get_conversation (w_store w) k"
    and "w_env w' = w_env w" and "w_ids w' = w_ids w + 1"
  shows "sound st w'"
proof -
  have new: "get_session (w_store w) (s_session_id s) = None" using assms(1,2) by (simp add: sound_def fresh_ids_def)
  have "fresh_ids w'"
    unfolding fresh_ids_def assms(5,6)
  proof (intro conjI allI impI)
    show "inj (e_uuid (w_env w))" using assms(1) by (simp add: sound_def fresh_ids_def)
    fix n assume n: "w_ids w + 1 \<le> n"
    then have "e_uuid (w_env w) n \<noteq> e_uuid (w_env w) (w_ids w)"
      using assms(1) injD [of "e_uuid (w_env w)" n "w_ids w"] by (auto simp: sound_def fresh_ids_def)
    then show "get_session (w_store w') (''sess-'' @ e_uuid (w_env w) n) = None"
      and "get_conversation (w_store w') (''conv-'' @ e_uuid (w_env w) n) = None"
      using assms(1,2) st' n by (auto simp: sound_def fresh_ids_def)
  qed
  moreover have "evolved st w'"
  proof (rule evolvedI)
    note old = evolvedD [of st w]
    have e: "evolved st w" using assms(1) by (simp add: sound_def)
    show "\<exists>s'. get_session (w_store w') sid = Some s' \<and> session_path (s_status s0) (s_status s')"
      if "get_session st sid = Some s0" for sid s0
      using old(1) [OF e that] new by (auto simp: st')
    show "get_session (w_store w') sid = Some s0 \<Longrightarrow> s_session_id s0 = sid" for sid s0
      using old(3) [OF e] by (auto simp: st' split: if_splits)
  qed (use evolvedD [of st w] assms(1) in \<open>auto simp: st' sound_def\<close>)
  ultimately show ?thesis by (simp add: sound_def)
qed

lemma keeps_create_session [keeps_intros]:
  "keeps (sound st) (create_session goal user_message user_id budget auto_close skills effort)"
  unfolding keeps_def
proof (intro allI impI)
  fix w assume sound: "sound st w"
  let ?now = "e_now (w_env w) (w_clock_reads w)"
  let ?sid = "''sess'' @ ''-'' @ e_uuid (w_env w) (w_ids w)"
  let ?s = "new_session ?sid goal user_message user_id budget auto_close ?now"
  let ?w = "w\<lparr>w_clock_reads := w_clock_reads w + 1, w_ids := w_ids w + 1\<rparr>"
  have "sound st (snd (on_store (save_session ?s) ?w))"
  proof (cases "save_session ?s (w_store w)")
    case (Pair r st')
    show ?thesis
    proof (cases r)
      case (Inl e)
      with Pair have "save_session ?s (w_store w) = (Inl e, st')" by simp
      then have "st' = (w_store w)\<lparr>st_fail_next_write := st_fail_next_write (w_store w) \<and> st_closed (w_store w)\<rparr>"
        unfolding save_session_def by (rule write_record_Inl)
      with sound Pair show ?thesis by (auto simp: on_part_def intro: sound_same)
    next
      case (Inr u)
      with Pair have run: "save_session ?s (w_store w) = (Inr u, st')" by simp
      then have "get_conversation st' k = get_conversation (w_store w) k" for k
        by (auto simp: save_session_def write_record_Inr get_conversation_def)
      then show ?thesis
        using Pair sessions.accepted [OF run]
        by (intro sound_add_session [OF sound, of ?s]) (simp_all add: on_part_def new_session_def)
    qed
  qed
  then have "triple (\<lambda>w'. w' = ?w) (on_store (save_session ?s)) (\<lambda>_. sound st) (sound st)"
    by (auto simp: triple_def split: prod.splits sum.splits)
  from triple_snd [OF triple_andthen [OF this triple_after_save] refl]
  show "sound st (snd (create_session goal user_message user_id budget auto_close skills effort w))"
    unfolding create_session_run Let_def by simp
qed

lemma holding_check_parent: "triple (holding st s) (check_parent sid parent) (\<lambda>_. holding st s) (sound st)"
  by (auto simp: check_parent_def require_conversation_def triple_def flow_simps guardR_def holding_sound split: option.splits)

lemma sound_add_conversation:
  assumes "sound st w" and "c_conversation_id c = ''conv-'' @ e_uuid (w_env w) (w_ids w)"
    and "get_session (w_store w) (s_session_id s) = Some s" and "s_session_id s' = s_session_id s" and "s_status s' = s_status s"
    and st': "\<And>k. get_session (w_store w') k = (if k = s_session_id s then Some s' else get_session (w_store w) k)"
      "\<And>k. get_conversation (w_store w') k = (if k = c_conversation_id c then Some c else get_conversation (w_store w) k)"
    and "w_env w' = w_env w" and "w_ids w' = w_ids w + 1"
  shows "sound st w'"
proof -
  have new: "get_conversation (w_store w) (c_conversation_id c) = None" using assms(1,2) by (simp add: sound_def fresh_ids_def)
  have "fresh_ids w'"
    unfolding fresh_ids_def assms(8,9)
  proof (intro conjI allI impI)
    show "inj (e_uuid (w_env w))" using assms(1) by (simp add: sound_def fresh_ids_def)
    fix n assume n: "w_ids w + 1 \<le> n"
    then have "e_uuid (w_env w) n \<noteq> e_uuid (w_env w) (w_ids w)"
      using assms(1) injD [of "e_uuid (w_env w)" n "w_ids w"] by (auto simp: sound_def fresh_ids_def)
    then show "get_conversation (w_store w') (''conv-'' @ e_uuid (w_env w) n) = None"
      using assms(1,2) st' n by (auto simp: sound_def fresh_ids_def)
    have "get_session (w_store w) (''sess-'' @ e_uuid (w_env w) n) = None"
      using assms(1) n by (simp add: sound_def fresh_ids_def)
    then show "get_session (w_store w') (''sess-'' @ e_uuid (w_env w) n) = None"
      using assms(3) st'(1) by (metis option.distinct(1))
  qed
  moreover have "evolved st w'"
  proof (rule evolvedI)
    note old = evolvedD [of st w]
    have e: "evolved st w" using assms(1) by (simp add: sound_def)
    show "\<exists>s'. get_session (w_store w') sid = Some s' \<and> session_path (s_status s0) (s_status s')"
      if "get_session st sid = Some s0" for sid s0
      using old(1) [OF e that] assms(3,5) by (auto simp: st')
    show "get_session (w_store w') sid = Some s0 \<Longrightarrow> s_session_id s0 = sid" for sid s0
      using old(3) [OF e] assms(4) by (auto simp: st' split: if_splits)
    show "\<exists>c'. get_conversation (w_store w') cid = Some c' \<and> conversation_path (c_status c0) (c_status c')
        \<and> window_path (c_context_window_state c0) (c_context_window_state c')"
      if "get_conversation st cid = Some c0" for cid c0
      using old(2) [OF e that] new by (auto simp: st')
    show "get_conversation (w_store w') cid = Some c0 \<Longrightarrow> c_conversation_id c0 = cid" for cid c0
      using old(4) [OF e] by (auto simp: st' split: if_splits)
  qed
  ultimately show ?thesis by (simp add: sound_def)
qed

lemma create_both_run:
  assumes "transaction (andthen (save_conversation c) (save_session s)) st = (Inr u, st')"
  shows "get_session st' k = (if k = s_session_id s then Some s else get_session st k)"
    and "get_conversation st' k = (if k = c_conversation_id c then Some c else get_conversation st k)"
proof -
  from assms obtain st1 where c: "save_conversation c st = (Inr (), st1)" and s: "save_session s st1 = (Inr u, st')"
    by (auto simp: transaction_Inr andthen_Inr)
  have "get_session st1 k = get_session st k" and "get_conversation st' k = get_conversation st1 k"
    using c s by (auto simp: save_defs write_record_Inr get_session_def get_conversation_def)
  then show "get_session st' k = (if k = s_session_id s then Some s else get_session st k)"
    and "get_conversation st' k = (if k = c_conversation_id c then Some c else get_conversation st k)"
    using conversations.accepted [OF c] sessions.accepted [OF s] by simp_all
qed

lemma create_conversation_tail:
  assumes "holding st s w" and "s_session_id s = sid"
  shows "sound st (snd (bnd new_conversation_id (\<lambda>cid.
     andthen (on_store (transaction (andthen (save_conversation ((new_conversation cid s parent window now)\<lparr>c_session_id := sid\<rparr>))
        (save_session (s\<lparr>s_current_conversation_id := Some cid, s_updated_at := now\<rparr>)))))
    (andthen (lifecycle_publish CONVERSATION_CREATED now sid (Some cid) (payload cid)) (ret (result cid)))) w))"
proof -
  let ?cid = "''conv'' @ ''-'' @ e_uuid (w_env w) (w_ids w)"
  let ?c = "(new_conversation ?cid s parent window now)\<lparr>c_session_id := sid\<rparr>"
  let ?s = "s\<lparr>s_current_conversation_id := Some ?cid, s_updated_at := now\<rparr>"
  let ?w = "w\<lparr>w_ids := w_ids w + 1\<rparr>"
  let ?m = "transaction (andthen (save_conversation ?c) (save_session ?s))"
  have held: "sound st w" "get_session (w_store w) (s_session_id s) = Some s" using assms(1) by (simp_all add: holding_def)
  obtain r st' where run: "?m (w_store w) = (r, st')" by (cases "?m (w_store w)")
  have "sound st (?w\<lparr>w_store := st'\<rparr>)"
  proof (cases r)
    case (Inl e)
    with run transaction_Inl_records have "st_sessions st' = st_sessions (w_store w) \<and> st_conversations st' = st_conversations (w_store w)"
      by blast
    then show ?thesis by (intro sound_same [OF held(1)]) simp_all
  next
    case (Inr u)
    with run create_both_run have "\<And>k. get_session st' k = (if k = s_session_id ?s then Some ?s else get_session (w_store w) k)"
      and "\<And>k. get_conversation st' k = (if k = c_conversation_id ?c then Some ?c else get_conversation (w_store w) k)"
      by blast+
    then show ?thesis
      by (intro sound_add_conversation [OF held(1) _ held(2), of ?c ?s]) (simp_all add: new_conversation_def)
  qed
  then have "triple (\<lambda>w'. w' = ?w) (on_store ?m) (\<lambda>_. sound st) (sound st)"
    using run by (auto simp: triple_def on_part_def split: prod.splits sum.splits)
  from triple_snd [OF triple_andthen [OF this triple_after_save] refl, of CONVERSATION_CREATED now sid "Some ?cid" "payload ?cid" "result ?cid"]
  show ?thesis by (simp add: bnd_run id_defs)
qed

lemma keeps_create_conversation [keeps_intros]: "keeps (sound st) (create_conversation sid parent window)"
  unfolding create_conversation_def bnd_ret
proof (rule triple_with_session)
  fix s :: session_record assume sid: "s_session_id s = sid"
  have "triple (holding st s) (bnd new_conversation_id (\<lambda>cid.
     andthen (on_store (transaction (andthen (save_conversation ((new_conversation cid s parent window now)\<lparr>c_session_id := sid\<rparr>))
        (save_session (s\<lparr>s_current_conversation_id := Some cid, s_updated_at := now\<rparr>)))))
    (andthen (lifecycle_publish CONVERSATION_CREATED now sid (Some cid) (payload cid)) (ret (result cid))))) (\<lambda>_. sound st) (sound st)"
    for now payload result
    by (rule triple_from_snd, rule create_conversation_tail [OF _ sid])
  then show "triple (holding st s) (andthen (check_parent sid parent) (bnd clock_now (\<lambda>now. bnd new_conversation_id (\<lambda>cid.
     andthen (on_store (transaction (andthen (save_conversation ((new_conversation cid s parent window now)\<lparr>c_session_id := sid\<rparr>))
        (save_session (s\<lparr>s_current_conversation_id := Some cid, s_updated_at := now\<rparr>)))))
    (andthen (lifecycle_publish CONVERSATION_CREATED now sid (Some cid)
        [(''parent_conversation_id'', jstr_opt parent), (''context_window_state'', JStr (window_state_value window))])
     (ret ((new_conversation cid s parent window now)\<lparr>c_session_id := sid\<rparr>))))))) (\<lambda>_. sound st) (sound st)"
    by (intro triple_andthen [OF holding_check_parent] triple_bnd [OF holding_clock])
qed

section \<open>Properties of the lifecycle manager\<close>

datatype lifecycle_call =
  Create_session string string string session_budget bool "string list" "string option"
  | Transition_session string session_state "string option" "session_update list"
  | Update_session string "session_update list"
  | Create_conversation string "string option" context_window_state
  | Transition_conversation string conversation_state "string option" "conversation_update list"
  | Update_conversation string "conversation_update list"
  | Interrupt_conversation string string
  | Transition_context_window string context_window_state "string option"

fun lifecycle :: "lifecycle_call \<Rightarrow> unit app_act" where
  "lifecycle (Create_session goal msg user budget auto skills effort) =
     andthen (create_session goal msg user budget auto skills effort) (ret ())"
| "lifecycle (Transition_session sid to reason us) = andthen (transition_session sid to reason us) (ret ())"
| "lifecycle (Update_session sid us) = andthen (update_session sid us) (ret ())"
| "lifecycle (Create_conversation sid parent window) = andthen (create_conversation sid parent window) (ret ())"
| "lifecycle (Transition_conversation cid to reason us) = andthen (transition_conversation cid to reason us) (ret ())"
| "lifecycle (Update_conversation cid us) = andthen (update_conversation cid us) (ret ())"
| "lifecycle (Interrupt_conversation cid reason) = andthen (interrupt_conversation cid reason) (ret ())"
| "lifecycle (Transition_context_window cid to reason) = andthen (transition_context_window cid to reason) (ret ())"

definition lifecycle_calls :: "lifecycle_call list \<Rightarrow> app \<Rightarrow> app" where
  "lifecycle_calls calls w = snd (for_each calls (\<lambda>c. catching (lifecycle c) (\<lambda>_. ret ())) w)"

lemma keeps_lifecycle: "keeps (sound st) (lifecycle c)"
  by (cases c) (simp_all add: keeps_intros)

lemma sound_lifecycle_calls: "sound st w \<Longrightarrow> sound st (lifecycle_calls calls w)"
  unfolding lifecycle_calls_def
  by (rule keepsD [OF keeps_for_each]) (intro keeps_catching keeps_lifecycle keeps_ret)

lemma sound_fresh_app: "inj (e_uuid env) \<Longrightarrow> sound empty_store (fresh_app env)"
  by (simp add: sound_def evolved_def fresh_ids_def fresh_app_def empty_store_def get_session_def get_conversation_def)

lemma sound_now: "sound st w \<Longrightarrow> sound (w_store w) w"
  by (auto simp: sound_def intro!: evolvedI dest: evolvedD(3,4) intro: path_refl)

definition sample_budget :: session_budget where
  "sample_budget = \<lparr>max_cycles = 10, max_plans = 5, max_total_duration_ms = 60000\<rparr>"

lemma inj_sample_uuid: "inj (e_uuid sample_env)"
  by (auto simp: inj_def sample_env_def replicate_eq_replicate)

text \<open>
  A conversation that was interrupted, failed or closed stays so for ever: no later call moves it.
\<close>

theorem terminal_conversations_stay:
  assumes "fresh_ids w" and "\<forall>sid s. get_session (w_store w) sid = Some s \<longrightarrow> s_session_id s = sid"
    and "\<forall>cid c. get_conversation (w_store w) cid = Some c \<longrightarrow> c_conversation_id c = cid"
    and "get_conversation (w_store w) cid = Some c" and "c_status c \<in> {Conv_INTERRUPTED, Conv_FAILED, Conv_CLOSED}"
  shows "\<exists>c'. get_conversation (w_store (lifecycle_calls calls w)) cid = Some c' \<and> c_status c' = c_status c"
proof -
  have "evolved (w_store w) w" using assms(2,3) by (auto intro!: evolvedI)
  then have "sound (w_store w) (lifecycle_calls calls w)"
    using assms(1) by (intro sound_lifecycle_calls) (simp add: sound_def)
  then obtain c' where
    "get_conversation (w_store (lifecycle_calls calls w)) cid = Some c'" and "conversation_path (c_status c) (c_status c')"
    using evolvedD(2) [OF _ assms(4)] unfolding sound_def by blast
  then show ?thesis
    using conversation_table.terminal_absorbing assms(5)
    unfolding conversation_path_def TERMINAL_CONVERSATION_STATES_def by blast
qed

section \<open>A listed transition succeeds, another one changes nothing\<close>

lemma healthy_save_session:
  assumes "healthy w"
  shows "\<exists>w'. on_store (save_session s) w = (Inr (), w') \<and> healthy w' \<and> w_delivered w' = w_delivered w
    \<and> get_session (w_store w') k = (if k = s_session_id s then Some s else get_session (w_store w) k)"
proof -
  let ?st = "touch (session_order_key s) ((w_store w)\<lparr>st_sessions := dict_set (s_session_id s) s (st_sessions (w_store w))\<rparr>)"
  have run: "save_session s (w_store w) = (Inr (), ?st)"
    using assms by (simp add: healthy_def save_session_def write_record_Inr)
  moreover have "healthy (w\<lparr>w_store := ?st\<rparr>)"
    by (rule healthy_cong [OF assms]) (use assms in \<open>simp_all add: healthy_def\<close>)
  ultimately show ?thesis using sessions.accepted [OF run] by (simp add: on_part_def)
qed

lemma healthy_save_conversation:
  assumes "healthy w"
  shows "\<exists>w'. on_store (save_conversation c) w = (Inr (), w') \<and> healthy w' \<and> w_delivered w' = w_delivered w
    \<and> get_conversation (w_store w') k = (if k = c_conversation_id c then Some c else get_conversation (w_store w) k)"
proof -
  let ?st = "touch (conversation_order_key c) ((w_store w)\<lparr>st_conversations := dict_set (c_conversation_id c) c (st_conversations (w_store w))\<rparr>)"
  have run: "save_conversation c (w_store w) = (Inr (), ?st)"
    using assms by (simp add: healthy_def save_conversation_def write_record_Inr)
  moreover have "healthy (w\<lparr>w_store := ?st\<rparr>)"
    by (rule healthy_cong [OF assms]) (use assms in \<open>simp_all add: healthy_def\<close>)
  ultimately show ?thesis using conversations.accepted [OF run] by (simp add: on_part_def)
qed

definition lifecycle_event :: "event_type \<Rightarrow> time \<Rightarrow> string \<Rightarrow> string option \<Rightarrow> details \<Rightarrow> event" where
  "lifecycle_event ty now sid cid payload = \<lparr>ev_event_type = ty, ev_timestamp = now, ev_session_id = sid,
     ev_conversation_id = cid, ev_cycle_id = None, ev_plan_id = None, ev_task_id = None, ev_payload = payload\<rparr>"

lemma lifecycle_publish_alt: "lifecycle_publish ty now sid cid payload = publish (lifecycle_event ty now sid cid payload)"
  by (simp add: lifecycle_publish_def lifecycle_event_def)

definition refuses_reopening :: "store \<Rightarrow> session_record \<Rightarrow> session_state \<Rightarrow> bool" where
  "refuses_reopening st s to \<longleftrightarrow> s_status s = Session_COMPLETED \<and> to = Session_RUNNING
     \<and> s_auto_close_on_final_answer s \<and> \<not> conversation_waits_for_user st s"

lemma healthy_clock: "healthy w \<Longrightarrow> healthy (w\<lparr>w_clock_reads := n\<rparr>)"
  by (frule healthy_cong [where w' = "w\<lparr>w_clock_reads := n\<rparr>"]) (auto simp: healthy_def)

lemma apply_session_defaults: "apply_session (session_defaults s to now) s = Inr
  (case to of
     Session_RUNNING \<Rightarrow> s\<lparr>s_started_at := (if s_started_at s = None then Some now else s_started_at s), s_ended_at := None\<rparr>
   | Session_COMPLETED \<Rightarrow> s\<lparr>s_ended_at := Some now\<rparr>
   | Session_FAILED \<Rightarrow> s\<lparr>s_ended_at := Some now\<rparr>
   | Session_INTERRUPTING \<Rightarrow> s\<lparr>s_interrupted_at := Some now\<rparr>
   | _ \<Rightarrow> s)"
  by (cases to) (simp_all add: apply_session_def session_defaults_def)

text \<open>
  A session transition does all or nothing: when the table lists it (and it does not reopen an
  auto-closed session whose conversation is not waiting for the user), the new state and its time stamps are
  stored, and one event that carries the stored time stamp and both states follows; otherwise an
  invalid-transition error is raised and nothing at all has changed.
\<close>

theorem transition_session_outcome:
  assumes "healthy w" and "get_session (w_store w) sid = Some s" and "s_session_id s = sid"
  shows "if can_transition SESSION_TRANSITIONS (s_status s) to \<and> \<not> refuses_reopening (w_store w) s to
    then \<exists>s' w'. transition_session sid to reason [] w = (Inr s', w') \<and> healthy w'
       \<and> get_session (w_store w') sid = Some s' \<and> s_status s' = to
       \<and> s_updated_at s' = e_now (w_env w) (w_clock_reads w)
       \<and> (to = Session_RUNNING \<longrightarrow> s_started_at s' \<noteq> None \<and> s_ended_at s' = None)
       \<and> (to = Session_COMPLETED \<or> to = Session_FAILED \<longrightarrow> s_ended_at s' = Some (s_updated_at s'))
       \<and> w_delivered w' = w_delivered w @ [lifecycle_event SESSION_STATE_CHANGED (s_updated_at s') sid None
           (state_change_payload (Some (session_state_value (s_status s))) (session_state_value to) reason)]
    else transition_session sid to reason [] w =
       (Inl (InvalidTransitionError ''session'' (session_state_value (s_status s)) (session_state_value to)), w)"
proof (cases "can_transition SESSION_TRANSITIONS (s_status s) to \<and> \<not> refuses_reopening (w_store w) s to")
  case False
  then show ?thesis
    using assms by (auto simp: transition_session_def flow_simps require_session_def reject_managed_session_fields_def
        assert_transition_def guardR_def refuses_reopening_def)
next
  case True
  let ?now = "e_now (w_env w) (w_clock_reads w)"
  obtain a where a: "apply_session (session_defaults s to ?now) s = Inr a" by (simp add: apply_session_defaults)
  let ?s = "a\<lparr>s_status := to, s_updated_at := ?now\<rparr>"
  have id: "s_session_id ?s = sid" using apply_session_same [OF a] assms(3) by simp
  obtain w1 where w1: "on_store (save_session ?s) (w\<lparr>w_clock_reads := w_clock_reads w + 1\<rparr>) = (Inr (), w1)" "healthy w1"
    "w_delivered w1 = w_delivered w" "get_session (w_store w1) sid = Some ?s"
    using healthy_save_session [OF healthy_clock [OF assms(1)], of ?s "w_clock_reads w + 1" sid] id by auto
  let ?e = "lifecycle_event SESSION_STATE_CHANGED ?now sid None
      (state_change_payload (Some (session_state_value (s_status s))) (session_state_value to) reason)"
  obtain w2 where w2: "publish ?e w1 = (Inr (), w2)" "healthy w2" "w_delivered w2 = w_delivered w1 @ [?e]"
    using publish_healthy [OF w1(2)] by blast
  have "get_session (w_store w2) sid = Some ?s" using w1(4) publish_records [OF w2(1)] by (simp add: get_session_def)
  moreover have "transition_session sid to reason [] w = (Inr ?s, w2)"
    using True assms a w1(1) w2(1)
    by (simp add: transition_session_def bnd_run andthen_run lifting_def reading_def ret_def require_session_def
        reject_managed_session_fields_def assert_transition_def refuses_reopening_def clock_now_run lifecycle_publish_alt)
  moreover have "to = Session_RUNNING \<longrightarrow> s_started_at ?s \<noteq> None \<and> s_ended_at ?s = None"
    and "to = Session_COMPLETED \<or> to = Session_FAILED \<longrightarrow> s_ended_at ?s = Some ?now"
    using a by (auto simp: apply_session_defaults)
  ultimately show ?thesis using True w2 w1(3) by auto
qed

text \<open>
  The user's interrupt stops a conversation exactly in the four active states; in any other state it is
  refused and nothing has changed.
\<close>

theorem interrupt_conversation_outcome:
  assumes "healthy w" and "get_conversation (w_store w) cid = Some c" and "c_conversation_id c = cid"
  shows "if c_status c \<in> {Conv_ACTIVE, Conv_WAITING_MODEL_RESPONSE, Conv_RUNNING_PLAN, Conv_ROTATING}
    then \<exists>c' w'. interrupt_conversation cid reason w = (Inr c', w') \<and> healthy w'
       \<and> get_conversation (w_store w') cid = Some c' \<and> c_status c' = Conv_INTERRUPTED
       \<and> c_interrupted_at c' = Some (e_now (w_env w) (w_clock_reads w))
    else interrupt_conversation cid reason w =
       (Inl (InvalidTransitionError ''conversation'' (conversation_state_value (c_status c)) ''INTERRUPTED''), w)"
proof (cases "c_status c \<in> ACTIVE_CONVERSATION_STATES")
  case False
  then show ?thesis
    using assms by (auto simp: interrupt_conversation_def flow_simps require_conversation_def guardR_def ACTIVE_CONVERSATION_STATES_def)
next
  case True
  let ?now = "e_now (w_env w) (w_clock_reads w)"
  let ?c = "c\<lparr>c_interrupted_at := Some ?now, c_status := Conv_INTERRUPTED, c_updated_at := ?now\<rparr>"
  have ok: "can_transition CONVERSATION_TRANSITIONS (c_status c) Conv_INTERRUPTED"
    using True by (auto simp: table_simps)
  obtain w1 where w1: "on_store (save_conversation ?c) (w\<lparr>w_clock_reads := w_clock_reads w + 1\<rparr>) = (Inr (), w1)" "healthy w1"
    "get_conversation (w_store w1) cid = Some ?c"
    using healthy_save_conversation [OF healthy_clock [OF assms(1)], of ?c "w_clock_reads w + 1" cid] assms(3) by auto
  obtain w2 where w2: "publish (lifecycle_event CONVERSATION_STATE_CHANGED ?now (c_session_id c) (Some cid)
      (state_change_payload (Some (conversation_state_value (c_status c))) (conversation_state_value Conv_INTERRUPTED) (Some reason))) w1
      = (Inr (), w2)" "healthy w2"
    using publish_healthy [OF w1(2)] by blast
  have "get_conversation (w_store w2) cid = Some ?c" using w1(3) publish_records [OF w2(1)] by (simp add: get_conversation_def)
  moreover have "interrupt_conversation cid reason w = (Inr ?c, w2)"
    using True ok assms(2,3) w1(1) w2(1)
    by (simp add: interrupt_conversation_def commit_conversation_transition_def bnd_run andthen_run lifting_def reading_def ret_def
        require_conversation_def assert_transition_def apply_conversation_def clock_now_run lifecycle_publish_alt)
  ultimately show ?thesis using True w2(2) by (auto simp: ACTIVE_CONVERSATION_STATES_def)
qed

text \<open>Witnesses: a session that is created, started, given a conversation and interrupted.\<close>

lemma create_session_healthy:
  assumes "healthy w"
  shows "\<exists>s w'. create_session goal msg user budget auto skills effort w = (Inr s, w') \<and> healthy w'
    \<and> get_session (w_store w') (s_session_id s) = Some s \<and> s_status s = Session_READY"
proof -
  let ?now = "e_now (w_env w) (w_clock_reads w)"
  let ?sid = "''sess'' @ ''-'' @ e_uuid (w_env w) (w_ids w)"
  let ?s = "new_session ?sid goal msg user budget auto ?now"
  let ?w = "w\<lparr>w_clock_reads := w_clock_reads w + 1, w_ids := w_ids w + 1\<rparr>"
  have "healthy ?w" using assms by (rule healthy_cong) (use assms in \<open>auto simp: healthy_def\<close>)
  then obtain w1 where w1: "on_store (save_session ?s) ?w = (Inr (), w1)" "healthy w1" "get_session (w_store w1) ?sid = Some ?s"
    using healthy_save_session [of ?w ?s ?sid] by (auto simp: new_session_def)
  obtain w2 where w2: "publish (lifecycle_event SESSION_CREATED ?now ?sid None
      [(''goal'', JStr goal), (''budget'', JObj (budget_json budget)), (''skills'', JArr (map JStr skills)), (''effort'', jstr_opt effort)]) w1
      = (Inr (), w2)" "healthy w2"
    using publish_healthy [OF w1(2)] by blast
  have "create_session goal msg user budget auto skills effort w = (Inr ?s, w2)"
    using w1(1) w2(1) by (simp add: create_session_run Let_def andthen_run lifecycle_publish_alt ret_def)
  moreover have "get_session (w_store w2) ?sid = Some ?s" using w1(3) publish_records [OF w2(1)] by (simp add: get_session_def)
  ultimately show ?thesis using w2(2) by (auto simp: new_session_def)
qed

theorem transition_session_outcome_witness:
  "\<exists>sid s' w w'. transition_session sid Session_RUNNING None [] w = (Inr s', w') \<and> s_status s' = Session_RUNNING
     \<and> s_started_at s' \<noteq> None"
proof -
  obtain s w where w: "healthy w" "get_session (w_store w) (s_session_id s) = Some s" "s_status s = Session_READY"
    using create_session_healthy [OF healthy_fresh_app [OF inj_sample_uuid]] by metis
  from transition_session_outcome [OF w(1,2) refl, of Session_RUNNING None]
  show ?thesis using w(3) by (auto simp: can_transition_def refuses_reopening_def)
qed

definition sample_conversation :: "conversation_state \<Rightarrow> conversation_record" where
  "sample_conversation status = (new_conversation ''c'' (new_session ''s'' ''g'' ''m'' ''u'' sample_budget True 0) None HEALTHY 0)
     \<lparr>c_status := status\<rparr>"

lemma holding_sample_conversation:
  "\<exists>w. healthy w \<and> get_conversation (w_store w) ''c'' = Some (sample_conversation status)"
  using healthy_save_conversation [OF healthy_fresh_app [OF inj_sample_uuid], of "sample_conversation status" "''c''"]
  by (auto simp: sample_conversation_def new_conversation_def)

theorem interrupt_conversation_outcome_witness:
  "\<exists>w c' w'. interrupt_conversation ''c'' ''stop'' w = (Inr c', w') \<and> c_status c' = Conv_INTERRUPTED"
proof -
  obtain w where w: "healthy w" "get_conversation (w_store w) ''c'' = Some (sample_conversation Conv_RUNNING_PLAN)"
    using holding_sample_conversation by blast
  from interrupt_conversation_outcome [OF w, of "''stop''"]
  show ?thesis by (auto simp: sample_conversation_def new_conversation_def)
qed

definition failed_app :: app where
  "failed_app = (fresh_app sample_env)\<lparr>w_store := empty_store\<lparr>st_conversations := [(''c'', sample_conversation Conv_FAILED)]\<rparr>\<rparr>"

lemma failed_app_records:
  "get_session (w_store failed_app) sid = None"
  "get_conversation (w_store failed_app) cid = (if cid = ''c'' then Some (sample_conversation Conv_FAILED) else None)"
  by (simp_all add: failed_app_def get_session_def get_conversation_def empty_store_def)

theorem terminal_conversations_stay_witness:
  "\<exists>c'. get_conversation (w_store (lifecycle_calls [Transition_conversation ''c'' Conv_ACTIVE None []] failed_app)) ''c'' = Some c'
     \<and> c_status c' = Conv_FAILED"
proof -
  have "c_conversation_id (sample_conversation Conv_FAILED) = ''c''" and status: "c_status (sample_conversation Conv_FAILED) = Conv_FAILED"
    by (simp_all add: sample_conversation_def new_conversation_def)
  moreover have "fresh_ids failed_app"
    unfolding fresh_ids_def failed_app_records using inj_sample_uuid by (simp add: failed_app_def fresh_app_def)
  ultimately show ?thesis
    using terminal_conversations_stay [of failed_app "''c''" "sample_conversation Conv_FAILED" "[Transition_conversation ''c'' Conv_ACTIVE None []]"]
    by (simp add: failed_app_records)
qed

end
