(* ===== verification/Window.thy ===== *)
theory Window
  imports Lifecycle Complex_Main
begin

text \<open>
  \<open>context/window.py\<close>: the saturation metric of a conversation and its thresholds. The class is
  pure; its configuration is the record \<open>context_section\<close> of \<open>config.py\<close>, whose two ratios are the
  exact decimals \<open>Fraction(repr(ratio))\<close> reads. The methods \<open>evaluate\<close> and
  \<open>should_rotate_on_unusable_reply\<close> call each other; the inner call has no error, so it is
  \<open>evaluate_bytes\<close>, and \<open>evaluate_without_error\<close> shows the two agree.
\<close>

section \<open>Configuration and thresholds\<close>

record context_section =
  x_budget_bytes :: int
  x_warning_ratio :: rat
  x_saturation_ratio :: rat
  x_rotate_on_unusable_reply_in_warning :: bool
  x_max_rotations_per_session :: int
  x_summary_budget_bytes :: int

text \<open>The constraints of the configuration model (\<open>gt\<close>, \<open>lt\<close>, \<open>le\<close> of its fields).\<close>

definition valid_context_section :: "context_section \<Rightarrow> bool" where
  "valid_context_section cfg \<longleftrightarrow> 0 < x_budget_bytes cfg \<and> 0 < x_warning_ratio cfg \<and> x_warning_ratio cfg < 1
     \<and> 0 < x_saturation_ratio cfg \<and> x_saturation_ratio cfg \<le> 1 \<and> 0 \<le> x_max_rotations_per_session cfg
     \<and> 0 < x_summary_budget_bytes cfg"

definition GET_TIMEOUT_CODE :: string where
  "GET_TIMEOUT_CODE = ''MODEL_GET_TIMEOUT''"

record context_thresholds =
  warning_bytes :: int
  saturation_bytes :: int
  budget_bytes :: int

definition threshold :: "rat \<Rightarrow> int \<Rightarrow> int" where
  "threshold ratio budget = \<lceil>ratio * of_int budget\<rceil>"

definition thresholds :: "context_section \<Rightarrow> context_thresholds" where
  "thresholds cfg = \<lparr>warning_bytes = threshold (x_warning_ratio cfg) (x_budget_bytes cfg),
     saturation_bytes = threshold (x_saturation_ratio cfg) (x_budget_bytes cfg),
     budget_bytes = x_budget_bytes cfg\<rparr>"

section \<open>The metric\<close>

definition account :: "int \<Rightarrow> int \<Rightarrow> exn + int" where
  "account conversation_bytes message_bytes =
     (if conversation_bytes < 0 \<or> message_bytes < 0 then Inl (ValueError ''byte counts cannot be negative'')
      else Inr (conversation_bytes + message_bytes))"

definition instructions_bytes :: "string \<Rightarrow> int" where
  "instructions_bytes instructions = int (utf8_len instructions)"

section \<open>Evaluation\<close>

text \<open>The byte comparisons that end \<open>_compute\<close>.\<close>

definition compute_bytes :: "context_section \<Rightarrow> conversation_record \<Rightarrow> int \<Rightarrow> context_window_state" where
  "compute_bytes cfg c projected =
     (let current_bytes = c_context_bytes c; th = thresholds cfg
      in if current_bytes + projected > budget_bytes th then SATURATED
         else if current_bytes \<ge> saturation_bytes th then SATURATED
         else if current_bytes \<ge> warning_bytes th then WARNING
         else HEALTHY)"

definition not_below :: "context_window_state \<Rightarrow> context_window_state \<Rightarrow> context_window_state" where
  "not_below current computed = (if window_severity computed \<ge> window_severity current then computed else current)"

definition evaluate_bytes :: "context_section \<Rightarrow> conversation_record \<Rightarrow> context_window_state" where
  "evaluate_bytes cfg c = not_below (c_context_window_state c) (compute_bytes cfg c 0)"

definition should_rotate_on_unusable_reply :: "context_section \<Rightarrow> conversation_record \<Rightarrow> normalized_error \<Rightarrow> bool" where
  "should_rotate_on_unusable_reply cfg c e =
     (if \<not> x_rotate_on_unusable_reply_in_warning cfg then False
      else if evaluate_bytes cfg c = HEALTHY then False
      else if ne_error_type e = MODEL_PROTOCOL_ERROR then True
      else ne_error_type e = TIMEOUT_ERROR \<and> ne_error_code e = GET_TIMEOUT_CODE)"

definition compute :: "context_section \<Rightarrow> conversation_record \<Rightarrow> int \<Rightarrow> normalized_error option \<Rightarrow> context_window_state" where
  "compute cfg c projected error =
     (case error of
        Some e \<Rightarrow>
          if ne_error_type e = MODEL_CONTEXT_WINDOW_ERROR then SATURATED
          else if should_rotate_on_unusable_reply cfg c e then SATURATED
          else compute_bytes cfg c projected
      | None \<Rightarrow> compute_bytes cfg c projected)"

definition evaluate ::
  "context_section \<Rightarrow> conversation_record \<Rightarrow> int \<Rightarrow> normalized_error option \<Rightarrow> exn + context_window_state" where
  "evaluate cfg c projected error =
     (if projected < 0 then Inl (ValueError ''projected_outbound_bytes cannot be negative'')
      else Inr (not_below (c_context_window_state c) (compute cfg c projected error)))"

definition is_saturated :: "context_section \<Rightarrow> conversation_record \<Rightarrow> bool" where
  "is_saturated cfg c \<longleftrightarrow> evaluate_bytes cfg c = SATURATED"

section \<open>Lemmas\<close>

lemma evaluate_without_error: "evaluate cfg c 0 None = Inr (evaluate_bytes cfg c)"
  by (simp add: evaluate_def evaluate_bytes_def compute_def)

lemma threshold_le: "threshold r b \<le> n \<longleftrightarrow> r * of_int b \<le> of_int n"
  by (simp add: threshold_def ceiling_le_iff)

lemma threshold_in_budget:
  assumes "0 < r" "r \<le> 1" "0 < b"
  shows "0 < threshold r b \<and> threshold r b \<le> b"
proof -
  have "0 < r * of_int b" using assms by simp
  then have "0 < threshold r b" by (simp add: threshold_def)
  moreover have "r * of_int b \<le> of_int b" using assms by (simp add: mult_left_le_one_le)
  ultimately show ?thesis by (simp add: threshold_le)
qed

lemma not_below_max: "not_below a b = max a b"
  by (cases a; cases b) (simp_all add: not_below_def max_def less_eq_context_window_state_def)

lemma window_neq_SATURATED: "(s :: context_window_state) \<noteq> SATURATED \<longleftrightarrow> s \<le> WARNING"
  by (cases s) (simp_all add: less_eq_context_window_state_def)

lemma window_is_HEALTHY: "s = HEALTHY \<longleftrightarrow> (s :: context_window_state) \<le> HEALTHY"
  by (cases s) (simp_all add: less_eq_context_window_state_def)

lemma max_SATURATED: "max a b = SATURATED \<longleftrightarrow> a = SATURATED \<or> b = (SATURATED :: context_window_state)"
  by (cases a; cases b) (simp_all add: max_def less_eq_context_window_state_def)

lemma max_HEALTHY: "max a b = HEALTHY \<longleftrightarrow> a = HEALTHY \<and> b = (HEALTHY :: context_window_state)"
  by (cases a; cases b) (simp_all add: max_def less_eq_context_window_state_def)

lemmas window_max_simps = not_below_max max_SATURATED max_HEALTHY

text \<open>What the thresholds mean on the exact ratios, with no rounding.\<close>

definition over_saturation :: "context_section \<Rightarrow> int \<Rightarrow> bool" where
  "over_saturation cfg n \<longleftrightarrow> x_saturation_ratio cfg * of_int (x_budget_bytes cfg) \<le> of_int n"

definition over_warning :: "context_section \<Rightarrow> int \<Rightarrow> bool" where
  "over_warning cfg n \<longleftrightarrow> x_warning_ratio cfg * of_int (x_budget_bytes cfg) \<le> of_int n"

lemma compute_bytes_SATURATED:
  "compute_bytes cfg c p = SATURATED \<longleftrightarrow> c_context_bytes c + p > x_budget_bytes cfg \<or> over_saturation cfg (c_context_bytes c)"
  by (simp add: compute_bytes_def Let_def thresholds_def threshold_le over_saturation_def)

lemma compute_bytes_HEALTHY:
  "compute_bytes cfg c p = HEALTHY \<longleftrightarrow> c_context_bytes c + p \<le> x_budget_bytes cfg
     \<and> \<not> over_saturation cfg (c_context_bytes c) \<and> \<not> over_warning cfg (c_context_bytes c)"
  by (simp add: compute_bytes_def Let_def thresholds_def threshold_le over_saturation_def over_warning_def not_less)

text \<open>A window that is not healthy, whatever the last error was.\<close>

lemma should_rotate_iff:
  "should_rotate_on_unusable_reply cfg c e \<longleftrightarrow> x_rotate_on_unusable_reply_in_warning cfg
     \<and> evaluate_bytes cfg c \<noteq> HEALTHY
     \<and> (ne_error_type e = MODEL_PROTOCOL_ERROR \<or> ne_error_type e = TIMEOUT_ERROR \<and> ne_error_code e = GET_TIMEOUT_CODE)"
  by (simp add: should_rotate_on_unusable_reply_def)

lemma evaluate_Inr: "evaluate cfg c p cause = Inr s \<Longrightarrow> 0 \<le> p \<and> s = max (c_context_window_state c) (compute cfg c p cause)"
  by (auto simp: evaluate_def not_below_max split: if_splits)

section \<open>Properties\<close>

text \<open>
  The evaluated window never goes below the stored one, and the change it asks for is one the transition
  table of the lifecycle manager lists, so storing it is never refused.
\<close>

theorem window_evaluation_is_applicable:
  assumes "evaluate cfg c p cause = Inr s"
  shows "c_context_window_state c \<le> s \<and> (s = c_context_window_state c \<or> can_transition CONTEXT_WINDOW_TRANSITIONS (c_context_window_state c) s)"
  using evaluate_Inr [OF assms]
  by (cases "c_context_window_state c"; cases "compute cfg c p cause")
    (simp_all add: max_def less_eq_context_window_state_def can_transition_def)

text \<open>
  A message is never sent beyond the budget: when the evaluation before a POST does not answer SATURATED,
  the conversation with this message stays within the byte budget, its bytes are strictly below the exact
  saturation ratio of the budget, and the error was neither a context-window error nor an unusable reply of a
  window that had left HEALTHY while the rotation on unusable replies is on. Conversely SATURATED has one of
  these causes or was already stored.
\<close>

theorem window_saturated_iff:
  assumes "evaluate cfg c p cause = Inr s"
  shows "s = SATURATED \<longleftrightarrow>
      c_context_window_state c = SATURATED
    \<or> c_context_bytes c + p > x_budget_bytes cfg
    \<or> x_saturation_ratio cfg * of_int (x_budget_bytes cfg) \<le> of_int (c_context_bytes c)
    \<or> (\<exists>e. cause = Some e \<and> (ne_error_type e = MODEL_CONTEXT_WINDOW_ERROR
         \<or> x_rotate_on_unusable_reply_in_warning cfg
           \<and> (c_context_window_state c = WARNING
              \<or> x_warning_ratio cfg * of_int (x_budget_bytes cfg) \<le> of_int (c_context_bytes c))
           \<and> (ne_error_type e = MODEL_PROTOCOL_ERROR \<or> ne_error_type e = TIMEOUT_ERROR \<and> ne_error_code e = GET_TIMEOUT_CODE)))"
proof (cases cause)
  case None
  then show ?thesis
    using evaluate_Inr [OF assms] by (simp add: compute_def max_SATURATED compute_bytes_SATURATED over_saturation_def)
next
  case (Some e)
  have healthy: "evaluate_bytes cfg c \<noteq> HEALTHY \<longleftrightarrow> c_context_window_state c \<noteq> HEALTHY
      \<or> c_context_bytes c > x_budget_bytes cfg \<or> over_saturation cfg (c_context_bytes c) \<or> over_warning cfg (c_context_bytes c)"
    by (auto simp: evaluate_bytes_def window_max_simps compute_bytes_HEALTHY)
  have "s = SATURATED \<longleftrightarrow> c_context_window_state c = SATURATED \<or> ne_error_type e = MODEL_CONTEXT_WINDOW_ERROR
      \<or> should_rotate_on_unusable_reply cfg c e
      \<or> c_context_bytes c + p > x_budget_bytes cfg \<or> over_saturation cfg (c_context_bytes c)"
    using evaluate_Inr [OF assms] Some by (simp add: compute_def max_SATURATED compute_bytes_SATURATED)
  then show ?thesis
    using evaluate_Inr [OF assms] Some healthy
    unfolding should_rotate_iff over_saturation_def over_warning_def
    by (cases "c_context_window_state c") auto
qed

text \<open>
  Under a valid configuration both thresholds are positive and within the budget, and they are in the
  order of the ratios: a conversation warns before it saturates when the warning ratio is not above the
  saturation ratio.
\<close>

lemma thresholds_ordered:
  assumes "valid_context_section cfg"
  shows "0 < warning_bytes (thresholds cfg) \<and> warning_bytes (thresholds cfg) \<le> budget_bytes (thresholds cfg)
    \<and> 0 < saturation_bytes (thresholds cfg) \<and> saturation_bytes (thresholds cfg) \<le> budget_bytes (thresholds cfg)
    \<and> (x_warning_ratio cfg \<le> x_saturation_ratio cfg \<longrightarrow> warning_bytes (thresholds cfg) \<le> saturation_bytes (thresholds cfg))"
proof -
  have "x_warning_ratio cfg \<le> x_saturation_ratio cfg \<Longrightarrow>
      x_warning_ratio cfg * of_int (x_budget_bytes cfg) \<le> x_saturation_ratio cfg * of_int (x_budget_bytes cfg)"
    using assms by (simp add: valid_context_section_def mult_right_mono)
  then show ?thesis
    using assms threshold_in_budget [of "x_warning_ratio cfg"] threshold_in_budget [of "x_saturation_ratio cfg"]
    by (simp add: valid_context_section_def thresholds_def) (simp add: threshold_def ceiling_mono)
qed

section \<open>Witnesses\<close>

text \<open>The defaults of the configuration: 280000, 360000 and 400000 bytes.\<close>

definition default_context :: context_section where
  "default_context = \<lparr>x_budget_bytes = 400000, x_warning_ratio = 7/10, x_saturation_ratio = 9/10,
     x_rotate_on_unusable_reply_in_warning = True, x_max_rotations_per_session = 5, x_summary_budget_bytes = 32768\<rparr>"

definition conversation_of_size :: "int \<Rightarrow> conversation_record" where
  "conversation_of_size n = (sample_conversation Conv_ACTIVE)\<lparr>c_context_bytes := n\<rparr>"

lemma conversation_of_size_fields [simp]:
  "c_context_bytes (conversation_of_size n) = n" "c_context_window_state (conversation_of_size n) = HEALTHY"
  by (simp_all add: conversation_of_size_def sample_conversation_def new_conversation_def)

lemma default_thresholds: "thresholds default_context = \<lparr>warning_bytes = 280000, saturation_bytes = 360000, budget_bytes = 400000\<rparr>"
  by (simp add: thresholds_def threshold_def default_context_def)

lemma default_evaluation:
  "evaluate default_context (conversation_of_size 280000) 100000 None = Inr WARNING"
  "evaluate default_context (conversation_of_size 350000) 60000 None = Inr SATURATED"
  by (simp_all add: evaluate_def compute_def compute_bytes_def default_thresholds not_below_def)

theorem window_evaluation_is_applicable_witness:
  "can_transition CONTEXT_WINDOW_TRANSITIONS HEALTHY WARNING"
  using window_evaluation_is_applicable [OF default_evaluation(1)] by simp

theorem window_saturated_iff_witness:
  "350000 + 60000 > (400000 :: int)"
  using window_saturated_iff [OF default_evaluation(2)] by (auto simp: default_context_def)

end
