(* ===== verification/Reducer.thy ===== *)
theory Reducer
  imports Window
begin

text \<open>
  \<open>context/reducer.py\<close>: the structured summary of a session. The payload is a JSON object (an association
  list in insertion order); each reduction step maps an object to an object and raises what the Python
  subscripts would raise on a payload of another shape, so that "the only exception of \<open>compose\<close> is
  \<open>RotationFailedError\<close>" is a theorem about the payload \<open>_assemble\<close> builds. \<open>plan is last_terminal\<close> compares
  objects that the list holds once each: it is the position in the list.
\<close>

section \<open>Subscripts of JSON values\<close>

definition item :: "details \<Rightarrow> string \<Rightarrow> exn + json" where
  "item d k = (case dict_get d k of None \<Rightarrow> Inl (Other_Exn ''KeyError'' k) | Some v \<Rightarrow> Inr v)"

fun items :: "json \<Rightarrow> exn + json list" where
  "items (JArr xs) = Inr xs"
| "items _ = Inl (Other_Exn ''TypeError'' ''not a list'')"

fun fields :: "json \<Rightarrow> exn + details" where
  "fields (JObj kvs) = Inr kvs"
| "fields _ = Inl (Other_Exn ''TypeError'' ''not an object'')"

fun mapR :: "('a \<Rightarrow> 'e + 'b) \<Rightarrow> 'a list \<Rightarrow> 'e + 'b list" where
  "mapR f [] = Inr []"
| "mapR f (x # xs) = bindR (f x) (\<lambda>y. bindR (mapR f xs) (\<lambda>ys. Inr (y # ys)))"

lemma mapR_Inr: "(\<And>x. x \<in> set xs \<Longrightarrow> f x = Inr (g x)) \<Longrightarrow> mapR f xs = Inr (map g xs)"
  by (induction xs) auto

section \<open>Reduction steps\<close>

definition task_without_cmd :: "json \<Rightarrow> exn + json" where
  "task_without_cmd task = bindR (fields task) (\<lambda>t. Inr (JObj (filter (\<lambda>kv. fst kv \<noteq> ''cmd'') t)))"

definition plan_without_commands :: "json \<Rightarrow> exn + json" where
  "plan_without_commands plan =
     bindR (fields plan) (\<lambda>p.
     bindR (bindR (item p ''tasks'') items) (\<lambda>tasks.
     bindR (mapR task_without_cmd tasks) (\<lambda>reduced.
     Inr (JObj (dict_set ''tasks'' (JArr reduced) p)))))"

definition without_commands :: "details \<Rightarrow> exn + details" where
  "without_commands payload =
     bindR (bindR (item payload ''plan_ledger'') items) (\<lambda>ledger.
     bindR (mapR plan_without_commands ledger) (\<lambda>reduced.
     Inr (dict_set ''plan_ledger'' (JArr reduced) payload)))"

definition all_plan_states :: "plan_state list" where
  "all_plan_states = [Plan_PENDING, Plan_RUNNING, Plan_COMPLETED, Plan_STOPPED_ON_FAILURE,
     Plan_SHORT_CIRCUITED_ON_SUCCESS, Plan_INTERRUPTED, Plan_FAILED]"

definition plan_state_of :: "string \<Rightarrow> exn + plan_state" where
  "plan_state_of v = (case List.find (\<lambda>s. plan_state_value s = v) all_plan_states of
     None \<Rightarrow> Inl (ValueError v) | Some s \<Rightarrow> Inr s)"

definition is_terminal_entry :: "json \<Rightarrow> exn + bool" where
  "is_terminal_entry plan =
     bindR (fields plan) (\<lambda>p.
     bindR (item p ''status'') (\<lambda>status.
     case status of
       JStr s \<Rightarrow> bindR (plan_state_of (upper s)) (\<lambda>st. Inr (st \<in> TERMINAL_PLAN_STATES))
     | _ \<Rightarrow> Inl (ValueError ''not a PlanState'')))"

text \<open>\<open>next((p for p in reversed(ledger) if _is_terminal_entry(p)), None)\<close>, as a distance from the end.\<close>

fun first_terminal :: "json list \<Rightarrow> exn + nat option" where
  "first_terminal [] = Inr None"
| "first_terminal (p # ps) =
     bindR (is_terminal_entry p) (\<lambda>b.
     if b then Inr (Some 0) else bindR (first_terminal ps) (\<lambda>r. Inr (map_option Suc r)))"

definition keep_entry :: "nat option \<Rightarrow> nat \<times> json \<Rightarrow> exn + json list" where
  "keep_entry last_terminal ip =
     bindR (is_terminal_entry (snd ip)) (\<lambda>b. Inr (if \<not> b \<or> last_terminal = Some (fst ip) then [snd ip] else []))"

definition open_plans_and_last_terminal :: "details \<Rightarrow> exn + details" where
  "open_plans_and_last_terminal payload =
     bindR (bindR (item payload ''plan_ledger'') items) (\<lambda>ledger.
     bindR (first_terminal (rev ledger)) (\<lambda>distance.
     bindR (mapR (keep_entry (map_option (\<lambda>d. length ledger - 1 - d) distance)) (zip [0..<length ledger] ledger)) (\<lambda>kept.
     Inr (dict_set ''plan_ledger'' (JArr (concat kept)) payload))))"

definition without_pending_outputs :: "details \<Rightarrow> exn + details" where
  "without_pending_outputs payload = Inr (filter (\<lambda>kv. fst kv \<noteq> ''pending_outputs'') payload)"

definition REDUCTION_STEPS :: "(details \<Rightarrow> exn + details) list" where
  "REDUCTION_STEPS = [without_commands, open_plans_and_last_terminal, without_pending_outputs]"

section \<open>Assembly\<close>

definition STATE_SUMMARY_SECTIONS :: "string list" where
  "STATE_SUMMARY_SECTIONS = [''environment'', ''findings'', ''current_state'', ''next_expected_step'']"

definition SUMMARY_EXCEEDS_BUDGET :: string where
  "SUMMARY_EXCEEDS_BUDGET = ''SUMMARY_EXCEEDS_BUDGET''"

definition known_remote_id :: "conversation_record \<Rightarrow> string" where
  "known_remote_id c = (case c_remote_conversation_id c of
     None \<Rightarrow> c_conversation_id c | Some r \<Rightarrow> if r = [] then c_conversation_id c else r)"

definition last_state_summary :: "plan_record list \<Rightarrow> details option" where
  "last_state_summary plans = (case find_last (\<lambda>p. p_state_summary p \<noteq> None) plans of
     None \<Rightarrow> None | Some p \<Rightarrow> p_state_summary p)"

definition task_entry :: "task_record \<Rightarrow> json" where
  "task_entry t = JObj [(''task_id'', JStr (t_task_id t)), (''cmd'', jstr_opt (t_cmd t)),
     (''status'', JStr (task_protocol_value (t_status t))), (''exit_code'', jint_opt (t_exit_code t)),
     (''truncated'', JBool (t_truncated t)), (''original_size_bytes'', jint_opt (t_original_size_bytes t))]"

definition ledger_entry :: "store \<Rightarrow> plan_record \<Rightarrow> json" where
  "ledger_entry st plan =
     JObj [(''plan_id'', JStr (p_plan_id plan)), (''plan_type'', JStr (plan_type_value (p_plan_type plan))),
       (''objective'', JStr (p_objective plan)), (''status'', JStr (plan_protocol_value (p_status plan))),
       (''stop_reason'', jstr_opt (p_stop_reason plan)),
       (''tasks'', JArr (map task_entry (list_tasks st (p_session_id plan) (Some (p_plan_id plan)) None)))]"

definition pending_entry :: "store \<Rightarrow> string \<Rightarrow> task_record \<Rightarrow> output_stream \<times> (int \<times> int) option \<Rightarrow> json list" where
  "pending_entry st session_id task sd =
     (case get_blob_for_task st session_id (t_task_id task) (fst sd) of
        None \<Rightarrow> []
      | Some blob \<Rightarrow>
          if b_size_bytes blob = 0 then []
          else if (case snd sd of None \<Rightarrow> False | Some r \<Rightarrow> fst r = 0 \<and> snd r \<ge> b_size_bytes blob) then []
          else [JObj [(''task_id'', JStr (t_task_id task)), (''stream'', JStr (output_stream_value (fst sd))),
                      (''total_bytes'', JInt (b_size_bytes blob))]])"

definition pending_outputs :: "store \<Rightarrow> string \<Rightarrow> json list" where
  "pending_outputs st session_id =
     concat (map (\<lambda>task. if \<not> t_truncated task then []
        else concat (map (pending_entry st session_id task) [(STDOUT, t_stdout_range task), (STDERR, t_stderr_range task)]))
      (list_tasks st session_id None None))"

definition budget_section :: "session_record \<Rightarrow> json app_act" where
  "budget_section s =
     bnd (case s_started_at s of
            None \<Rightarrow> ret 0
          | Some started \<Rightarrow>
              bnd (case s_ended_at s of Some t \<Rightarrow> ret t | None \<Rightarrow> clock_now) (\<lambda>end_time.
              ret (max 0 ((end_time - started) div 1000)))) (\<lambda>consumed_duration_ms.
     ret (JObj [(''max_cycles'', JInt (max_cycles (s_budget s))), (''max_plans'', JInt (max_plans (s_budget s))),
       (''max_total_duration_ms'', JInt (max_total_duration_ms (s_budget s))),
       (''consumed_cycles'', JInt (s_consumed_cycles s)), (''consumed_plans'', JInt (s_consumed_plans s)),
       (''consumed_duration_ms'', JInt consumed_duration_ms)]))"

definition summary_sections :: "details option \<Rightarrow> details" where
  "summary_sections summary = (case summary of None \<Rightarrow> []
     | Some d \<Rightarrow> concat (map (\<lambda>k. case dict_get d k of None \<Rightarrow> [] | Some v \<Rightarrow> if v = JNull then [] else [(k, v)]) STATE_SUMMARY_SECTIONS))"

definition assemble :: "session_record \<Rightarrow> conversation_record \<Rightarrow> message_type \<Rightarrow> details app_act" where
  "assemble session source pending_message_type =
     bnd (reading w_store) (\<lambda>st.
     bnd (ret (list_plans st (s_session_id session) None)) (\<lambda>plans.
     bnd (budget_section session) (\<lambda>budget.
     ret ([(''goal'', JStr (s_goal session)), (''user_message'', JStr (s_user_message session))]
       @ summary_sections (last_state_summary plans)
       @ [(''plan_ledger'', JArr (map (ledger_entry st) plans)),
          (''pending_outputs'', JArr (pending_outputs st (s_session_id session))),
          (''budget'', budget),
          (''pending_message_type'', JStr (message_type_value pending_message_type)),
          (''original_conversation_id'', JStr (known_remote_id source))]))))"

section \<open>\<open>compose\<close>, \<open>persist\<close> and \<open>build\<close>\<close>

record summary_draft =
  d_payload :: details
  d_size_bytes :: int
  d_reduction_step :: int

definition json_size :: "details \<Rightarrow> int" where
  "json_size d = int (size_bytes (JObj d))"

text \<open>The \<open>for\<close> loop of \<open>compose\<close>: \<open>size\<close> and \<open>step\<close> are its local variables.\<close>

fun reduce_loop ::
  "int \<Rightarrow> (int \<times> (details \<Rightarrow> exn + details)) list \<Rightarrow> details \<times> int \<times> int \<Rightarrow> exn + details \<times> int \<times> int" where
  "reduce_loop budget [] (payload, sz, step) = Inr (payload, sz, step)"
| "reduce_loop budget ((index, reduce) # rest) (payload, sz, step) =
     (if sz \<le> budget then Inr (payload, sz, step)
      else bindR (reduce payload) (\<lambda>reduced. reduce_loop budget rest (reduced, json_size reduced, index)))"

definition compose_payload :: "int \<Rightarrow> details \<Rightarrow> exn + summary_draft" where
  "compose_payload budget payload0 =
     bindR (reduce_loop budget (zip [1..3] REDUCTION_STEPS) (payload0, json_size payload0, 0)) (\<lambda>(payload, sz, step).
     bindR (guardR (sz \<le> budget) (RotationFailedError SUMMARY_EXCEEDS_BUDGET
        [(''size_bytes'', JInt sz), (''budget_bytes'', JInt budget), (''step'', JInt step)])) (\<lambda>_.
     Inr \<lparr>d_payload = payload, d_size_bytes = sz, d_reduction_step = step\<rparr>))"

definition compose ::
  "context_section \<Rightarrow> session_record \<Rightarrow> conversation_record \<Rightarrow> message_type \<Rightarrow> summary_draft app_act" where
  "compose cfg session source pending_message_type =
     bnd (assemble session source pending_message_type) (\<lambda>payload.
     lifting (compose_payload (x_summary_budget_bytes cfg) payload))"

definition persist :: "summary_draft \<Rightarrow> string \<Rightarrow> string \<Rightarrow> string \<Rightarrow> context_summary_record app_act" where
  "persist draft session_id source_id target_id =
     bnd new_summary_id (\<lambda>sid.
     bnd clock_now (\<lambda>now.
     bnd (ret \<lparr>cs_summary_id = sid, cs_session_id = session_id, cs_source_conversation_id = source_id,
        cs_target_conversation_id = target_id, cs_summary_payload = d_payload draft,
        cs_summary_size_bytes = d_size_bytes draft, cs_reduction_step = d_reduction_step draft, cs_created_at = now\<rparr>) (\<lambda>rcd.
     andthen (on_store (save_context_summary rcd)) (ret rcd))))"

definition build ::
  "context_section \<Rightarrow> session_record \<Rightarrow> conversation_record \<Rightarrow> message_type \<Rightarrow> string \<Rightarrow> context_summary_record app_act" where
  "build cfg session source pending_message_type target_id =
     bnd (compose cfg session source pending_message_type) (\<lambda>draft.
     persist draft (s_session_id session) (c_conversation_id source) target_id)"

section \<open>The reduction steps on a well-formed ledger\<close>

text \<open>What a step does, on lists: \<open>keep_open T\<close> keeps what does not satisfy \<open>T\<close> and the last that does.\<close>

fun keep_open :: "('a \<Rightarrow> bool) \<Rightarrow> 'a list \<Rightarrow> 'a list" where
  "keep_open T [] = []"
| "keep_open T (x # xs) = (if T x \<and> list_ex T xs then keep_open T xs else x # keep_open T xs)"

lemma keep_open_map: "keep_open T (map f xs) = map f (keep_open (\<lambda>x. T (f x)) xs)"
  by (induction xs) (auto simp: list_ex_iff)

lemma keep_open_cong: "(\<And>x. x \<in> set xs \<Longrightarrow> T x = U x) \<Longrightarrow> keep_open T xs = keep_open U xs"
  by (induction xs) (auto simp: list_ex_iff)

lemma keep_open_set: "set (keep_open T xs) \<subseteq> set xs"
  by (induction xs) auto

lemma keep_open_filter: "filter (\<lambda>x. \<not> T x) (keep_open T xs) = filter (\<lambda>x. \<not> T x) xs"
  by (induction xs) auto

lemma keep_open_none: "\<not> list_ex T xs \<Longrightarrow> keep_open T xs = xs"
  by (induction xs) auto

lemma keep_open_snoc: "T x \<Longrightarrow> keep_open T (xs @ x # ys) = filter (\<lambda>x. \<not> T x) xs @ keep_open T (x # ys)"
  by (induction xs) (auto simp: list_ex_iff)

definition strip_task :: "json \<Rightarrow> json" where
  "strip_task t = (case t of JObj kvs \<Rightarrow> JObj (filter (\<lambda>kv. fst kv \<noteq> ''cmd'') kvs) | _ \<Rightarrow> t)"

definition entry_status :: "json \<Rightarrow> plan_state" where
  "entry_status p = (case p of JObj d \<Rightarrow> (case dict_get d ''status'' of
     Some (JStr s) \<Rightarrow> (case plan_state_of (upper s) of Inr st \<Rightarrow> st | Inl _ \<Rightarrow> Plan_PENDING) | _ \<Rightarrow> Plan_PENDING) | _ \<Rightarrow> Plan_PENDING)"

definition strip_plan :: "json \<Rightarrow> json" where
  "strip_plan p = (case p of JObj d \<Rightarrow> (case dict_get d ''tasks'' of
     Some (JArr ts) \<Rightarrow> JObj (dict_set ''tasks'' (JArr (map strip_task ts)) d) | _ \<Rightarrow> p) | _ \<Rightarrow> p)"

definition terminal_entry :: "json \<Rightarrow> bool" where
  "terminal_entry p \<longleftrightarrow> entry_status p \<in> TERMINAL_PLAN_STATES"

definition wf_entry :: "json \<Rightarrow> bool" where
  "wf_entry p \<longleftrightarrow> (\<exists>d s st ts. p = JObj d \<and> dict_get d ''status'' = Some (JStr s) \<and> plan_state_of (upper s) = Inr st
     \<and> dict_get d ''tasks'' = Some (JArr ts) \<and> (\<forall>t \<in> set ts. \<exists>kvs. t = JObj kvs))"

lemma wf_entryE:
  assumes "wf_entry p"
  obtains d s st ts where "p = JObj d" "dict_get d ''status'' = Some (JStr s)" "plan_state_of (upper s) = Inr st"
    "dict_get d ''tasks'' = Some (JArr ts)" "\<forall>t \<in> set ts. \<exists>kvs. t = JObj kvs"
  using assms unfolding wf_entry_def by blast

lemma is_terminal_entry_wf: "wf_entry p \<Longrightarrow> is_terminal_entry p = Inr (terminal_entry p)"
  by (erule wf_entryE) (simp add: is_terminal_entry_def item_def terminal_entry_def entry_status_def)

lemma plan_without_commands_wf: "wf_entry p \<Longrightarrow> plan_without_commands p = Inr (strip_plan p)"
proof (erule wf_entryE)
  fix d s st ts
  assume p: "p = JObj d" "dict_get d ''tasks'' = Some (JArr ts)" and ts: "\<forall>t \<in> set ts. \<exists>kvs. t = JObj kvs"
  have "mapR task_without_cmd ts = Inr (map strip_task ts)"
    by (rule mapR_Inr) (use ts in \<open>auto simp: task_without_cmd_def strip_task_def\<close>)
  with p show ?thesis by (simp add: plan_without_commands_def strip_plan_def item_def)
qed

lemma wf_strip_plan: "wf_entry p \<Longrightarrow> wf_entry (strip_plan p) \<and> entry_status (strip_plan p) = entry_status p"
proof (erule wf_entryE)
  fix d s st ts
  assume p: "p = JObj d" "dict_get d ''status'' = Some (JStr s)" "plan_state_of (upper s) = Inr st"
    "dict_get d ''tasks'' = Some (JArr ts)" and ts: "\<forall>t \<in> set ts. \<exists>kvs. t = JObj kvs"
  have "\<forall>t \<in> set (map strip_task ts). \<exists>kvs. t = JObj kvs" using ts by (auto simp: strip_task_def)
  with p show ?thesis by (simp add: wf_entry_def strip_plan_def entry_status_def)
qed

lemma first_terminal_wf:
  "(\<And>p. p \<in> set ps \<Longrightarrow> wf_entry p) \<Longrightarrow> first_terminal ps =
     Inr (if list_ex terminal_entry ps then Some (length (takeWhile (\<lambda>p. \<not> terminal_entry p) ps)) else None)"
  by (induction ps) (auto simp: is_terminal_entry_wf)

definition kept_entries :: "nat option \<Rightarrow> (nat \<times> json) list \<Rightarrow> json list" where
  "kept_entries j ips = concat (map (\<lambda>ip. if \<not> terminal_entry (snd ip) \<or> j = Some (fst ip) then [snd ip] else []) ips)"

lemma keep_entries_wf:
  "(\<And>p. p \<in> set (map snd ips) \<Longrightarrow> wf_entry p) \<Longrightarrow>
   bindR (mapR (keep_entry j) ips) (\<lambda>kept. Inr (f (concat kept))) = Inr (f (kept_entries j ips))"
proof -
  assume wf: "\<And>p. p \<in> set (map snd ips) \<Longrightarrow> wf_entry p"
  have "mapR (keep_entry j) ips = Inr (map (\<lambda>ip. if \<not> terminal_entry (snd ip) \<or> j = Some (fst ip) then [snd ip] else []) ips)"
    by (rule mapR_Inr) (use wf in \<open>auto simp: keep_entry_def is_terminal_entry_wf\<close>)
  then show ?thesis by (simp add: kept_entries_def)
qed

lemma kept_entries_other:
  "length is = length ps \<Longrightarrow> (\<And>i. i \<in> set is \<Longrightarrow> j \<noteq> Some i) \<Longrightarrow>
   kept_entries j (zip is ps) = filter (\<lambda>p. \<not> terminal_entry p) ps"
proof (induction ps arbitrary: "is")
  case Nil
  then show ?case by (simp add: kept_entries_def)
next
  case (Cons p ps)
  then obtain i is' where "is": "is = i # is'" by (cases "is") auto
  with Cons.IH [of is'] Cons.prems show ?case by (simp add: kept_entries_def)
qed

lemma open_plans_wf:
  assumes "dict_get payload ''plan_ledger'' = Some (JArr ledger)" and wf: "\<And>p. p \<in> set ledger \<Longrightarrow> wf_entry p"
  shows "open_plans_and_last_terminal payload = Inr (dict_set ''plan_ledger'' (JArr (keep_open terminal_entry ledger)) payload)"
proof -
  let ?j = "if list_ex terminal_entry ledger
     then Some (length ledger - 1 - length (takeWhile (\<lambda>p. \<not> terminal_entry p) (rev ledger))) else None"
  have first: "first_terminal (rev ledger) = Inr (if list_ex terminal_entry ledger
      then Some (length (takeWhile (\<lambda>p. \<not> terminal_entry p) (rev ledger))) else None)"
    using first_terminal_wf [of "rev ledger"] wf by (simp add: list_ex_iff)
  have "kept_entries ?j (zip [0..<length ledger] ledger) = keep_open terminal_entry ledger"
  proof (cases "list_ex terminal_entry ledger")
    case False
    then have "filter (\<lambda>p. \<not> terminal_entry p) ledger = ledger" by (simp add: list_ex_iff filter_id_conv)
    with False show ?thesis by (simp add: kept_entries_other keep_open_none)
  next
    case True
    then obtain xs x ys where parts: "ledger = xs @ x # ys" and x: "terminal_entry x" and ys: "\<forall>y \<in> set ys. \<not> terminal_entry y"
      using split_list_last_prop [of ledger terminal_entry] by (auto simp: list_ex_iff)
    have tw: "takeWhile (\<lambda>p. \<not> terminal_entry p) (rev ys @ x # rev xs) = rev ys"
      by (subst takeWhile_append2) (use x ys in auto)
    have "rev ledger = rev ys @ x # rev xs" by (simp add: parts)
    with tw have "length (takeWhile (\<lambda>p. \<not> terminal_entry p) (rev ledger)) = length ys" by (simp only: length_rev)
    then have "?j = Some (length ledger - 1 - length ys)" by (simp only: if_P [OF True])
    moreover have "length ledger - 1 - length ys = length xs" by (simp add: parts)
    ultimately have j: "?j = Some (length xs)" by (simp only:)
    have upt: "[0..<length ledger] = [0..<length xs] @ length xs # [Suc (length xs)..<length ledger]"
      using upt_add_eq_append [of 0 "length xs" "Suc (length ys)"] upt_conv_Cons [of "length xs" "length ledger"]
      by (simp add: parts del: upt_Suc)
    have "kept_entries ?j (zip [0..<length ledger] ledger)
        = kept_entries (Some (length xs)) (zip ([0..<length xs] @ length xs # [Suc (length xs)..<length ledger]) (xs @ x # ys))"
      by (simp only: j upt) (simp only: parts)
    also have "\<dots> = kept_entries (Some (length xs)) (zip [0..<length xs] xs) @ [x]
        @ kept_entries (Some (length xs)) (zip [Suc (length xs)..<length ledger] ys)"
      using x by (simp add: kept_entries_def)
    also have "\<dots> = filter (\<lambda>p. \<not> terminal_entry p) xs @ [x] @ filter (\<lambda>p. \<not> terminal_entry p) ys"
    proof -
      have "kept_entries (Some (length xs)) (zip [0..<length xs] xs) = filter (\<lambda>p. \<not> terminal_entry p) xs"
        by (rule kept_entries_other) auto
      moreover have "kept_entries (Some (length xs)) (zip [Suc (length xs)..<length ledger] ys) = filter (\<lambda>p. \<not> terminal_entry p) ys"
        by (rule kept_entries_other) (auto simp: parts not_less_eq_eq)
      ultimately show ?thesis by (simp only:)
    qed
    also have "\<dots> = keep_open terminal_entry ledger"
      using x ys by (simp add: parts keep_open_snoc keep_open_none list_ex_iff filter_id_conv)
    finally show ?thesis .
  qed
  moreover have "open_plans_and_last_terminal payload
      = bindR (mapR (keep_entry ?j) (zip [0..<length ledger] ledger)) (\<lambda>kept. Inr (dict_set ''plan_ledger'' (JArr (concat kept)) payload))"
    using assms(1) first by (simp add: open_plans_and_last_terminal_def item_def del: bindR_Inr_iff)
  moreover have "\<dots> = Inr (dict_set ''plan_ledger'' (JArr (kept_entries ?j (zip [0..<length ledger] ledger))) payload)"
    by (rule keep_entries_wf) (use wf in auto)
  ultimately show ?thesis by (simp only:)
qed

lemma without_commands_wf:
  assumes "dict_get payload ''plan_ledger'' = Some (JArr ledger)" and wf: "\<And>p. p \<in> set ledger \<Longrightarrow> wf_entry p"
  shows "without_commands payload = Inr (dict_set ''plan_ledger'' (JArr (map strip_plan ledger)) payload)"
proof -
  have "mapR plan_without_commands ledger = Inr (map strip_plan ledger)"
    by (rule mapR_Inr) (use wf in \<open>simp add: plan_without_commands_wf\<close>)
  with assms(1) show ?thesis by (simp add: without_commands_def item_def)
qed

text \<open>The payload after \<open>k\<close> reduction steps.\<close>

definition ledger_of :: "details \<Rightarrow> json list" where
  "ledger_of payload = (case dict_get payload ''plan_ledger'' of Some (JArr l) \<Rightarrow> l | _ \<Rightarrow> [])"

fun reduced :: "nat \<Rightarrow> details \<Rightarrow> details" where
  "reduced 0 payload = payload"
| "reduced (Suc 0) payload = dict_set ''plan_ledger'' (JArr (map strip_plan (ledger_of payload))) payload"
| "reduced (Suc (Suc 0)) payload =
     dict_set ''plan_ledger'' (JArr (keep_open terminal_entry (map strip_plan (ledger_of payload)))) payload"
| "reduced (Suc (Suc (Suc _))) payload =
     filter (\<lambda>kv. fst kv \<noteq> ''pending_outputs'')
       (dict_set ''plan_ledger'' (JArr (keep_open terminal_entry (map strip_plan (ledger_of payload)))) payload)"

definition wf_payload :: "details \<Rightarrow> bool" where
  "wf_payload payload \<longleftrightarrow> (\<exists>l. dict_get payload ''plan_ledger'' = Some (JArr l) \<and> (\<forall>p \<in> set l. wf_entry p))"

lemma dict_set_twice: "dict_set k v (dict_set k u d) = dict_set k v d"
  by (induction d) auto

lemma reduction_steps_wf:
  assumes "wf_payload payload"
  shows "without_commands (reduced 0 payload) = Inr (reduced 1 payload)"
    and "open_plans_and_last_terminal (reduced 1 payload) = Inr (reduced 2 payload)"
    and "without_pending_outputs (reduced 2 payload) = Inr (reduced 3 payload)"
proof -
  obtain l where l: "dict_get payload ''plan_ledger'' = Some (JArr l)" and wf: "\<And>p. p \<in> set l \<Longrightarrow> wf_entry p"
    using assms unfolding wf_payload_def by blast
  have ledger: "ledger_of payload = l" using l by (simp add: ledger_of_def)
  show "without_commands (reduced 0 payload) = Inr (reduced 1 payload)"
    using without_commands_wf [OF l wf] by (simp add: ledger)
  have "open_plans_and_last_terminal (reduced 1 payload)
      = Inr (dict_set ''plan_ledger'' (JArr (keep_open terminal_entry (map strip_plan l))) (reduced 1 payload))"
    by (rule open_plans_wf) (use wf_strip_plan wf in \<open>auto simp: ledger\<close>)
  then show "open_plans_and_last_terminal (reduced 1 payload) = Inr (reduced 2 payload)"
    by (simp add: ledger dict_set_twice numeral_2_eq_2)
  show "without_pending_outputs (reduced 2 payload) = Inr (reduced 3 payload)"
    by (simp add: without_pending_outputs_def numeral_2_eq_2 numeral_3_eq_3)
qed

section \<open>The assembled payload\<close>

lemma plan_state_of_protocol_value: "plan_state_of (upper (plan_protocol_value s)) = Inr s"
  by (cases s; simp only:; code_simp)

lemma wf_ledger_entry: "wf_entry (ledger_entry st p)"
  by (auto simp: wf_entry_def ledger_entry_def plan_state_of_protocol_value task_entry_def)

lemma entry_status_ledger: "entry_status (ledger_entry st p) = p_status p"
  by (simp add: entry_status_def ledger_entry_def plan_state_of_protocol_value)

definition duration_ms :: "session_record \<Rightarrow> time \<Rightarrow> int" where
  "duration_ms s now = (case s_started_at s of None \<Rightarrow> 0
     | Some started \<Rightarrow> max 0 (((case s_ended_at s of Some t \<Rightarrow> t | None \<Rightarrow> now) - started) div 1000))"

definition budget_of :: "session_record \<Rightarrow> time \<Rightarrow> json" where
  "budget_of s now = JObj [(''max_cycles'', JInt (max_cycles (s_budget s))), (''max_plans'', JInt (max_plans (s_budget s))),
       (''max_total_duration_ms'', JInt (max_total_duration_ms (s_budget s))),
       (''consumed_cycles'', JInt (s_consumed_cycles s)), (''consumed_plans'', JInt (s_consumed_plans s)),
       (''consumed_duration_ms'', JInt (duration_ms s now))]"

definition assembled :: "app \<Rightarrow> session_record \<Rightarrow> conversation_record \<Rightarrow> message_type \<Rightarrow> details" where
  "assembled w session source ty =
     [(''goal'', JStr (s_goal session)), (''user_message'', JStr (s_user_message session))]
     @ summary_sections (last_state_summary (list_plans (w_store w) (s_session_id session) None))
     @ [(''plan_ledger'', JArr (map (ledger_entry (w_store w)) (list_plans (w_store w) (s_session_id session) None))),
        (''pending_outputs'', JArr (pending_outputs (w_store w) (s_session_id session))),
        (''budget'', budget_of session (e_now (w_env w) (w_clock_reads w))),
        (''pending_message_type'', JStr (message_type_value ty)),
        (''original_conversation_id'', JStr (known_remote_id source))]"

definition after_budget :: "session_record \<Rightarrow> app \<Rightarrow> app" where
  "after_budget s w = (if s_started_at s \<noteq> None \<and> s_ended_at s = None then w\<lparr>w_clock_reads := w_clock_reads w + 1\<rparr> else w)"

lemma budget_section_run:
  "budget_section s w = (Inr (budget_of s (e_now (w_env w) (w_clock_reads w))), after_budget s w)"
  by (simp add: budget_section_def budget_of_def duration_ms_def after_budget_def bnd_run ret_def clock_now_run split: option.splits)

lemma assemble_run: "assemble session source ty w = (Inr (assembled w session source ty), after_budget session w)"
  by (simp add: assemble_def bnd_run reading_def budget_section_run assembled_def ret_def)

lemma summary_sections_keys: "k \<notin> set STATE_SUMMARY_SECTIONS \<Longrightarrow> dict_get (summary_sections d) k = None"
  by (auto simp: summary_sections_def dict_get_None_iff split: option.splits if_splits)

lemma assembled_items:
  "dict_get (assembled w session source ty) ''goal'' = Some (JStr (s_goal session))"
  "dict_get (assembled w session source ty) ''user_message'' = Some (JStr (s_user_message session))"
  "dict_get (assembled w session source ty) ''plan_ledger''
     = Some (JArr (map (ledger_entry (w_store w)) (list_plans (w_store w) (s_session_id session) None)))"
  "dict_get (assembled w session source ty) ''pending_outputs'' = Some (JArr (pending_outputs (w_store w) (s_session_id session)))"
  by (simp_all add: assembled_def map_add_def summary_sections_keys STATE_SUMMARY_SECTIONS_def)

lemma wf_assembled: "wf_payload (assembled w session source ty)"
  by (auto simp: wf_payload_def assembled_items wf_ledger_entry)

lemma ledger_of_assembled:
  "ledger_of (assembled w session source ty) = map (ledger_entry (w_store w)) (list_plans (w_store w) (s_session_id session) None)"
  by (simp add: ledger_of_def assembled_items)

section \<open>Properties\<close>

lemma compose_payload_steps:
  assumes "without_commands p0 = Inr p1" and "open_plans_and_last_terminal p1 = Inr p2" and "without_pending_outputs p2 = Inr p3"
  shows "compose_payload budget p0 =
    (if json_size p0 \<le> budget then Inr \<lparr>d_payload = p0, d_size_bytes = json_size p0, d_reduction_step = 0\<rparr>
     else if json_size p1 \<le> budget then Inr \<lparr>d_payload = p1, d_size_bytes = json_size p1, d_reduction_step = 1\<rparr>
     else if json_size p2 \<le> budget then Inr \<lparr>d_payload = p2, d_size_bytes = json_size p2, d_reduction_step = 2\<rparr>
     else if json_size p3 \<le> budget then Inr \<lparr>d_payload = p3, d_size_bytes = json_size p3, d_reduction_step = 3\<rparr>
     else Inl (RotationFailedError SUMMARY_EXCEEDS_BUDGET
         [(''size_bytes'', JInt (json_size p3)), (''budget_bytes'', JInt budget), (''step'', JInt 3)]))"
proof -
  have three: "[1..3] = [1, 2, 3 :: int]" by (simp add: upto.simps)
  show ?thesis
    unfolding compose_payload_def REDUCTION_STEPS_def three guardR_def using assms by (simp del: bindR_Inr_iff)
qed

lemma compose_payload_wf:
  assumes "wf_payload payload"
  shows "compose_payload budget payload =
    (case List.find (\<lambda>k. json_size (reduced k payload) \<le> budget) [0, 1, 2, 3] of
       Some k \<Rightarrow> Inr \<lparr>d_payload = reduced k payload, d_size_bytes = json_size (reduced k payload), d_reduction_step = int k\<rparr>
     | None \<Rightarrow> Inl (RotationFailedError SUMMARY_EXCEEDS_BUDGET
         [(''size_bytes'', JInt (json_size (reduced 3 payload))), (''budget_bytes'', JInt budget), (''step'', JInt 3)]))"
  unfolding compose_payload_steps [OF reduction_steps_wf [OF assms], unfolded reduced.simps(1)]
  by (simp del: reduced.simps(2-)) 

lemma compose_reduces_minimally_run:
  "compose cfg session source ty w =
    ((case List.find (\<lambda>k. json_size (reduced k (assembled w session source ty)) \<le> x_summary_budget_bytes cfg) [0, 1, 2, 3] of
        Some k \<Rightarrow> Inr \<lparr>d_payload = reduced k (assembled w session source ty),
          d_size_bytes = json_size (reduced k (assembled w session source ty)), d_reduction_step = int k\<rparr>
      | None \<Rightarrow> Inl (RotationFailedError SUMMARY_EXCEEDS_BUDGET
          [(''size_bytes'', JInt (json_size (reduced 3 (assembled w session source ty)))),
           (''budget_bytes'', JInt (x_summary_budget_bytes cfg)), (''step'', JInt 3)])),
     after_budget session w)"
  by (simp add: compose_def bnd_run assemble_run lifting_def compose_payload_wf [OF wf_assembled])

text \<open>
  C29. The summary is reduced exactly as much as the byte budget asks: \<open>compose\<close> reads the store without
  writing it, applies the least number of reduction steps (none, commands dropped, closed plans dropped,
  pending outputs dropped) after which the canonical size fits, and reports that size and that step; when even
  the third leaves it above the budget it raises \<open>RotationFailedError\<close> with the size reached, and it raises
  nothing else.
\<close>

theorem compose_reduces_minimally:
  "compose cfg session source ty w =
    ((case List.find (\<lambda>k. json_size (reduced k (assembled w session source ty)) \<le> x_summary_budget_bytes cfg) [0, 1, 2, 3] of
        Some k \<Rightarrow> Inr \<lparr>d_payload = reduced k (assembled w session source ty),
          d_size_bytes = json_size (reduced k (assembled w session source ty)), d_reduction_step = int k\<rparr>
      | None \<Rightarrow> Inl (RotationFailedError SUMMARY_EXCEEDS_BUDGET
          [(''size_bytes'', JInt (json_size (reduced 3 (assembled w session source ty)))),
           (''budget_bytes'', JInt (x_summary_budget_bytes cfg)), (''step'', JInt 3)])),
     after_budget session w)"
  by (rule compose_reduces_minimally_run)

text \<open>What no reduction touches.\<close>

lemma dict_get_filter_other: "(k \<noteq> k' \<Longrightarrow> dict_get (filter (\<lambda>kv. fst kv \<noteq> k') d) k = dict_get d k)"
  by (induction d) auto

lemma reduced_keeps_items: "k \<noteq> ''plan_ledger'' \<Longrightarrow> k \<noteq> ''pending_outputs'' \<Longrightarrow> dict_get (reduced n payload) k = dict_get payload k"
  by (cases "(n, payload)" rule: reduced.cases) (simp_all add: dict_get_filter_other)

definition entry_id :: "json \<Rightarrow> json option" where
  "entry_id p = (case p of JObj d \<Rightarrow> dict_get d ''plan_id'' | _ \<Rightarrow> None)"

definition ledger_view :: "details \<Rightarrow> (json option \<times> plan_state) list" where
  "ledger_view payload = map (\<lambda>p. (entry_id p, entry_status p)) (ledger_of payload)"

lemma strip_plan_view: "wf_entry p \<Longrightarrow> entry_id (strip_plan p) = entry_id p \<and> entry_status (strip_plan p) = entry_status p"
  using wf_strip_plan [of p] by (auto elim!: wf_entryE simp: entry_id_def strip_plan_def)

lemma ledger_of_dict_set: "ledger_of (dict_set ''plan_ledger'' (JArr l) d) = l"
  by (simp add: ledger_of_def)

lemma ledger_of_reduced_3: "ledger_of (filter (\<lambda>kv. fst kv \<noteq> ''pending_outputs'') d) = ledger_of d"
  by (simp add: ledger_of_def dict_get_filter_other)

lemma ledger_view_reduced:
  assumes "wf_payload payload"
  shows "ledger_view (reduced n payload)
    = (if n < 2 then ledger_view payload else keep_open (\<lambda>v. snd v \<in> TERMINAL_PLAN_STATES) (ledger_view payload))"
proof -
  obtain l where l: "dict_get payload ''plan_ledger'' = Some (JArr l)" and wf: "\<And>p. p \<in> set l \<Longrightarrow> wf_entry p"
    using assms unfolding wf_payload_def by blast
  have ledger: "ledger_of payload = l" using l by (simp add: ledger_of_def)
  have strip: "map (\<lambda>p. (entry_id (strip_plan p), entry_status (strip_plan p))) l = map (\<lambda>p. (entry_id p, entry_status p)) l"
    using wf strip_plan_view by simp
  have "map (\<lambda>p. (entry_id p, entry_status p)) (keep_open terminal_entry (map strip_plan l))
      = keep_open (\<lambda>v. snd v \<in> TERMINAL_PLAN_STATES) (map (\<lambda>p. (entry_id p, entry_status p)) (map strip_plan l))"
    by (simp add: keep_open_map [where T = "\<lambda>v. snd v \<in> TERMINAL_PLAN_STATES"] terminal_entry_def [abs_def] del: map_map)
  also have "\<dots> = keep_open (\<lambda>v. snd v \<in> TERMINAL_PLAN_STATES) (map (\<lambda>p. (entry_id p, entry_status p)) l)"
    by (simp only: map_map comp_def strip)
  finally have kept: "map (\<lambda>p. (entry_id p, entry_status p)) (keep_open terminal_entry (map strip_plan l))
      = keep_open (\<lambda>v. snd v \<in> TERMINAL_PLAN_STATES) (map (\<lambda>p. (entry_id p, entry_status p)) l)" .
  show ?thesis
    by (cases "(n, payload)" rule: reduced.cases)
      (simp_all add: ledger_view_def ledger_of_dict_set ledger_of_reduced_3 ledger kept comp_def wf strip_plan_view)
qed

lemma compose_Inr:
  assumes "compose cfg session source ty w = (Inr draft, w')"
  obtains k where "k \<le> 3" "draft = \<lparr>d_payload = reduced k (assembled w session source ty),
      d_size_bytes = json_size (reduced k (assembled w session source ty)), d_reduction_step = int k\<rparr>"
    "json_size (d_payload draft) \<le> x_summary_budget_bytes cfg"
proof -
  obtain k where k: "List.find (\<lambda>k. json_size (reduced k (assembled w session source ty)) \<le> x_summary_budget_bytes cfg) [0, 1, 2, 3] = Some k"
    and draft: "draft = \<lparr>d_payload = reduced k (assembled w session source ty),
      d_size_bytes = json_size (reduced k (assembled w session source ty)), d_reduction_step = int k\<rparr>"
    using assms unfolding compose_reduces_minimally_run by (auto split: option.splits)
  from k have "k \<in> set [0, 1, 2, 3]" and "json_size (reduced k (assembled w session source ty)) \<le> x_summary_budget_bytes cfg"
    unfolding find_Some_iff by (metis nth_mem)+
  with draft that show thesis by auto
qed

text \<open>
  Whatever was reduced, the child conversation is told what it needs: the goal, the user's message, the
  model's own notes, the budget, the expected message type and the original conversation stand unchanged in
  the summary; every plan that is not closed stays in the ledger, in order and with its status, and from the
  second step on the only closed plan is the last one.
\<close>

theorem reduction_keeps_the_essentials:
  assumes "compose cfg session source ty w = (Inr draft, w')"
  shows "list_all (\<lambda>k. dict_get (d_payload draft) k = dict_get (assembled w session source ty) k)
      ([''goal'', ''user_message''] @ STATE_SUMMARY_SECTIONS @ [''budget'', ''pending_message_type'', ''original_conversation_id''])
    \<and> ledger_view (d_payload draft)
      = (if d_reduction_step draft < 2 then id else keep_open (\<lambda>v. snd v \<in> TERMINAL_PLAN_STATES))
          (map (\<lambda>p. (Some (JStr (p_plan_id p)), p_status p)) (list_plans (w_store w) (s_session_id session) None))"
proof -
  obtain k where k: "d_payload draft = reduced k (assembled w session source ty)" "d_reduction_step draft = int k"
    by (rule compose_Inr [OF assms]) auto
  have "ledger_view (assembled w session source ty)
      = map (\<lambda>p. (Some (JStr (p_plan_id p)), p_status p)) (list_plans (w_store w) (s_session_id session) None)"
    by (simp add: ledger_view_def ledger_of_assembled entry_status_ledger comp_def) (simp add: entry_id_def ledger_entry_def)
  then show ?thesis
    using ledger_view_reduced [OF wf_assembled, of k w session source ty]
    by (simp add: k reduced_keeps_items STATE_SUMMARY_SECTIONS_def)
qed

section \<open>Writing the summary\<close>

lemma refused_summary:
  "save_context_summary r st = (Inl e, st') \<Longrightarrow> st' = st \<or> st' = st\<lparr>st_fail_next_write := False\<rparr>"
  unfolding save_context_summary_def
  by (drule write_record_Inl) (cases "st_fail_next_write st \<and> st_closed st"; cases st; simp)

lemma persist_outcome:
  obtains rcd v w2 where "persist draft sid src target w = (v, w2)"
    and "cs_session_id rcd = sid" and "cs_target_conversation_id rcd = target"
    and "cs_summary_payload rcd = d_payload draft" and "cs_summary_size_bytes rcd = d_size_bytes draft"
    and "v = Inr rcd \<and> dict_get (st_summaries (w_store w2)) (cs_summary_id rcd) = Some rcd
      \<or> (\<exists>e. v = Inl e) \<and> (w_store w2 = w_store w \<or> w_store w2 = (w_store w)\<lparr>st_fail_next_write := False\<rparr>)"
proof -
  let ?r = "\<lparr>cs_summary_id = ''sum-'' @ e_uuid (w_env w) (w_ids w), cs_session_id = sid, cs_source_conversation_id = src,
    cs_target_conversation_id = target, cs_summary_payload = d_payload draft, cs_summary_size_bytes = d_size_bytes draft,
    cs_reduction_step = d_reduction_step draft, cs_created_at = e_now (w_env w) (w_clock_reads w)\<rparr>"
  obtain x st where save: "save_context_summary ?r (w_store w) = (x, st)" by (cases "save_context_summary ?r (w_store w)")
  let ?w = "w\<lparr>w_ids := w_ids w + 1, w_clock_reads := w_clock_reads w + 1, w_store := st\<rparr>"
  have run: "persist draft sid src target w = (case x of Inl e \<Rightarrow> (Inl e, ?w) | Inr _ \<Rightarrow> (Inr ?r, ?w))"
    using save by (simp add: persist_def flow_simps id_defs clock_now_run split: sum.splits)
  show thesis
  proof (cases x)
    case (Inl e)
    then have "st = w_store w \<or> st = (w_store w)\<lparr>st_fail_next_write := False\<rparr>"
      using save refused_summary by simp
    with that [of "Inl e" ?w ?r] run Inl show thesis by simp
  next
    case (Inr u)
    then have "dict_get (st_summaries st) (cs_summary_id ?r) = Some ?r"
      using save by (auto simp: save_context_summary_def write_record_Inr touch_def)
    with that [of "Inr ?r" ?w ?r] run Inr show thesis by simp
  qed
qed

text \<open>
  \<open>build\<close> stores what it returns, or stores nothing: when it returns a record, the record is the stored
  summary of the target conversation's rotation and it fits the budget; when the summary cannot be reduced
  enough the store is the one before the call.
\<close>

theorem build_stores_its_result:
  shows "(case build cfg session source ty target w of
     (Inr r, w') \<Rightarrow> dict_get (st_summaries (w_store w')) (cs_summary_id r) = Some r
        \<and> cs_target_conversation_id r = target \<and> cs_session_id r = s_session_id session
        \<and> cs_summary_size_bytes r = json_size (cs_summary_payload r)
        \<and> cs_summary_size_bytes r \<le> x_summary_budget_bytes cfg
   | (Inl e, w') \<Rightarrow> w_store w' = w_store w \<or> w_store w' = (w_store w)\<lparr>st_fail_next_write := False\<rparr>)"
proof (cases "compose cfg session source ty w")
  case (Pair r w1)
  have st: "w_store w1 = w_store w"
    using Pair unfolding compose_reduces_minimally_run by (auto simp: after_budget_def)
  show ?thesis
  proof (cases r)
    case (Inl e)
    with Pair st show ?thesis by (simp add: build_def bnd_run)
  next
    case (Inr draft)
    have draft: "d_size_bytes draft = json_size (d_payload draft)" "d_size_bytes draft \<le> x_summary_budget_bytes cfg"
      by (rule compose_Inr [OF Pair [unfolded Inr]], simp)+
    obtain rcd v w2 where persist: "persist draft (s_session_id session) (c_conversation_id source) target w1 = (v, w2)"
      and rcd: "cs_session_id rcd = s_session_id session" "cs_target_conversation_id rcd = target"
        "cs_summary_payload rcd = d_payload draft" "cs_summary_size_bytes rcd = d_size_bytes draft"
      and outcome: "v = Inr rcd \<and> dict_get (st_summaries (w_store w2)) (cs_summary_id rcd) = Some rcd
        \<or> (\<exists>e. v = Inl e) \<and> (w_store w2 = w_store w \<or> w_store w2 = (w_store w)\<lparr>st_fail_next_write := False\<rparr>)"
      by (rule persist_outcome [of draft "s_session_id session" "c_conversation_id source" target w1]) (use st in auto)
    have "build cfg session source ty target w = (v, w2)"
      using Pair Inr persist by (simp add: build_def bnd_run)
    then show ?thesis using outcome rcd draft by auto
  qed
qed

section \<open>Witnesses\<close>

definition sample_session :: session_record where
  "sample_session = new_session ''s'' ''g'' ''m'' ''u'' sample_budget True 0"

definition sample_draft_budget :: context_section where
  "sample_draft_budget = default_context\<lparr>x_summary_budget_bytes :=
     json_size (assembled (fresh_app sample_env) sample_session (sample_conversation Conv_ACTIVE) EXECUTION_RESULT)\<rparr>"

lemma sample_compose:
  "compose sample_draft_budget sample_session (sample_conversation Conv_ACTIVE) EXECUTION_RESULT (fresh_app sample_env) =
     (Inr \<lparr>d_payload = assembled (fresh_app sample_env) sample_session (sample_conversation Conv_ACTIVE) EXECUTION_RESULT,
        d_size_bytes = x_summary_budget_bytes sample_draft_budget, d_reduction_step = 0\<rparr>, fresh_app sample_env)"
  unfolding compose_reduces_minimally_run
  by (simp add: sample_draft_budget_def after_budget_def sample_session_def new_session_def)

theorem reduction_keeps_the_essentials_witness:
  "ledger_view (assembled (fresh_app sample_env) sample_session (sample_conversation Conv_ACTIVE) EXECUTION_RESULT) = []"
  using reduction_keeps_the_essentials [OF sample_compose]
  by (simp add: list_plans_def by_order_def fresh_app_def empty_store_def)

end
