(* ===== verification/Utf8.thy ===== *)
theory Utf8
  imports Prelude
begin

text \<open>
  The text codec the code calls on task output: \<open>str.encode("utf-8")\<close> and
  \<open>bytes.decode("utf-8", errors="replace")\<close> of Python. A text is a list of code points, bytes are a list
  of numbers below 256 here and a \<^typ>\<open>string\<close> (one character per byte) in the records of the store.
  The decoder replaces each maximal invalid piece by one U+FFFD, as CPython does. \<open>utf8_roundtrip\<close>
  decodes what was encoded; \<open>decode_keeps_tail\<close> is what the shrinking loop of \<open>payload_guard\<close> rests on.
\<close>

type_synonym utext = "nat list"

definition valid_point :: "nat \<Rightarrow> bool" where
  "valid_point c \<longleftrightarrow> c < 0xD800 \<or> (0xE000 \<le> c \<and> c < 0x110000)"

definition valid_text :: "utext \<Rightarrow> bool" where
  "valid_text t \<longleftrightarrow> list_all valid_point t"

definition utf8_point :: "nat \<Rightarrow> nat list" where
  "utf8_point c =
     (if c < 0x80 then [c]
      else if c < 0x800 then [0xC0 + c div 64, 0x80 + c mod 64]
      else if c < 0x10000 then [0xE0 + c div 4096, 0x80 + c div 64 mod 64, 0x80 + c mod 64]
      else [0xF0 + c div 262144, 0x80 + c div 4096 mod 64, 0x80 + c div 64 mod 64, 0x80 + c mod 64])"

definition utf8_encode :: "utext \<Rightarrow> nat list" where
  "utf8_encode t = concat (map utf8_point t)"

definition REPLACEMENT :: nat where
  "REPLACEMENT = 0xFFFD"

definition continuation :: "nat \<Rightarrow> bool" where
  "continuation b \<longleftrightarrow> 0x80 \<le> b \<and> b < 0xC0"

text \<open>Which second bytes a leading byte admits (no overlong form, no surrogate, nothing above U+10FFFF).\<close>

definition second_ok :: "nat \<Rightarrow> nat \<Rightarrow> bool" where
  "second_ok b c \<longleftrightarrow> continuation c \<and> (b = 0xE0 \<longrightarrow> 0xA0 \<le> c) \<and> (b = 0xED \<longrightarrow> c < 0xA0)
     \<and> (b = 0xF0 \<longrightarrow> 0x90 \<le> c) \<and> (b = 0xF4 \<longrightarrow> c < 0x90)"

text \<open>One code point from the front of the bytes, and how many bytes it took.\<close>

definition decode_point :: "nat list \<Rightarrow> nat \<times> nat" where
  "decode_point bs =
     (case bs of
        [] \<Rightarrow> (REPLACEMENT, 1)
      | b # rest \<Rightarrow>
          if b < 0x80 then (b, 1)
          else if b < 0xC2 \<or> 0xF5 \<le> b then (REPLACEMENT, 1)
          else (case rest of
              [] \<Rightarrow> (REPLACEMENT, 1)
            | c # rest2 \<Rightarrow>
                if \<not> second_ok b c then (REPLACEMENT, 1)
                else if b < 0xE0 then ((b - 0xC0) * 64 + (c - 0x80), 2)
                else (case rest2 of
                    [] \<Rightarrow> (REPLACEMENT, 2)
                  | d # rest3 \<Rightarrow>
                      if \<not> continuation d then (REPLACEMENT, 2)
                      else if b < 0xF0 then ((b - 0xE0) * 4096 + (c - 0x80) * 64 + (d - 0x80), 3)
                      else (case rest3 of
                          [] \<Rightarrow> (REPLACEMENT, 3)
                        | e # _ \<Rightarrow>
                            if \<not> continuation e then (REPLACEMENT, 3)
                            else ((b - 0xF0) * 262144 + (c - 0x80) * 4096 + (d - 0x80) * 64 + (e - 0x80), 4)))))"

lemma decode_point_length: "1 \<le> snd (decode_point bs) \<and> (bs \<noteq> [] \<longrightarrow> snd (decode_point bs) \<le> length bs)"
  by (simp add: decode_point_def split: list.splits)

lemma decode_point_pos [simp]: "0 < snd (decode_point bs)"
  using decode_point_length [of bs] by linarith

function utf8_decode :: "nat list \<Rightarrow> utext" where
  "utf8_decode bs = (if bs = [] then [] else
     fst (decode_point bs) # utf8_decode (drop (snd (decode_point bs)) bs))"
  by pat_completeness auto
termination
  by (relation "measure length") auto

declare utf8_decode.simps [simp del]

lemma utf8_decode_Nil [simp]: "utf8_decode [] = []"
  by (subst utf8_decode.simps) simp

lemma utf8_decode_step:
  "bs \<noteq> [] \<Longrightarrow> utf8_decode bs = fst (decode_point bs) # utf8_decode (drop (snd (decode_point bs)) bs)"
  by (subst utf8_decode.simps) simp

section \<open>Round trip\<close>

lemma utf8_point_simps:
  "c < 0x80 \<Longrightarrow> utf8_point c = [c]"
  "0x80 \<le> c \<Longrightarrow> c < 0x800 \<Longrightarrow> utf8_point c = [0xC0 + c div 64, 0x80 + c mod 64]"
  "0x800 \<le> c \<Longrightarrow> c < 0x10000 \<Longrightarrow> utf8_point c = [0xE0 + c div 4096, 0x80 + c div 64 mod 64, 0x80 + c mod 64]"
  "0x10000 \<le> c \<Longrightarrow> utf8_point c = [0xF0 + c div 262144, 0x80 + c div 4096 mod 64, 0x80 + c div 64 mod 64, 0x80 + c mod 64]"
  by (simp_all add: utf8_point_def)

lemma utf8_point_not_Nil [simp]: "utf8_point c \<noteq> []"
  by (simp add: utf8_point_def)

lemma digits_64: "(c :: nat) div 4096 * 4096 + c div 64 mod 64 * 64 + c mod 64 = c"
proof -
  have "c div 64 = c div 4096 * 64 + c div 64 mod 64"
    using div_mult_mod_eq [of "c div 64" 64] by (simp add: div_mult2_eq [symmetric])
  then show ?thesis using div_mult_mod_eq [of c 64] by linarith
qed

lemma digits_64_4: "(c :: nat) div 262144 * 262144 + c div 4096 mod 64 * 4096 + c div 64 mod 64 * 64 + c mod 64 = c"
proof -
  have "c div 4096 = c div 262144 * 64 + c div 4096 mod 64"
    using div_mult_mod_eq [of "c div 4096" 64] by (simp add: div_mult2_eq [symmetric])
  then show ?thesis using digits_64 [of c] by linarith
qed

lemma decode_point_encoded:
  assumes "valid_point c"
  shows "decode_point (utf8_point c @ bs) = (c, length (utf8_point c))"
proof -
  consider (one) "c < 0x80" | (two) "0x80 \<le> c" "c < 0x800" | (three) "0x800 \<le> c" "c < 0x10000" | (four) "0x10000 \<le> c"
    by linarith
  then show ?thesis
  proof cases
    case two
    then have "2 \<le> c div 64" "c div 64 < 32" by auto
    with two show ?thesis
      by (simp add: utf8_point_simps decode_point_def second_ok_def continuation_def)
  next
    case three
    have "second_ok (0xE0 + c div 4096) (0x80 + c div 64 mod 64)"
    proof -
      have "c div 4096 = 0 \<Longrightarrow> 32 \<le> c div 64 mod 64"
      proof -
        assume "c div 4096 = 0"
        then have "c div 64 < 64" by (auto simp: div_eq_0_iff)
        moreover have "32 \<le> c div 64" using three by auto
        ultimately show ?thesis by simp
      qed
      moreover have "c div 4096 = 13 \<Longrightarrow> c div 64 mod 64 < 32"
      proof -
        assume h: "c div 4096 = 13"
        then have "53248 \<le> c" "c < 57344" by auto
        then have "c < 0xD800" using assms by (auto simp: valid_point_def)
        moreover have "c div 64 = 13 * 64 + c div 64 mod 64"
          using div_mult_mod_eq [of "c div 64" 64] h by (simp add: div_mult2_eq [symmetric])
        moreover have "c div 64 < 864" using \<open>c < 0xD800\<close> by auto
        ultimately show ?thesis by linarith
      qed
      moreover have "c div 4096 < 16" using three by auto
      ultimately show ?thesis by (auto simp: second_ok_def continuation_def)
    qed
    moreover have "c div 4096 < 16" using three by auto
    ultimately show ?thesis
      using three digits_64 [of c] by (simp add: utf8_point_simps decode_point_def continuation_def)
  next
    case four
    then have "c < 0x110000" using assms by (auto simp: valid_point_def)
    have top: "c div 262144 < 5" using \<open>c < 0x110000\<close> by auto
    have mid: "c div 4096 = c div 262144 * 64 + c div 4096 mod 64"
      using div_mult_mod_eq [of "c div 4096" 64] by (simp add: div_mult2_eq [symmetric])
    have "16 \<le> c div 4096" "c div 4096 < 272" using four \<open>c < 0x110000\<close> by auto
    with mid have "second_ok (0xF0 + c div 262144) (0x80 + c div 4096 mod 64)"
      by (auto simp: second_ok_def continuation_def)
    with top four show ?thesis
      using digits_64_4 [of c] by (simp add: utf8_point_simps decode_point_def continuation_def)
  qed (simp add: utf8_point_simps decode_point_def)
qed

lemma utf8_roundtrip: "valid_text t \<Longrightarrow> utf8_decode (utf8_encode t) = t"
proof (induction t)
  case (Cons c t)
  then have "decode_point (utf8_point c @ utf8_encode t) = (c, length (utf8_point c))"
    by (simp add: valid_text_def decode_point_encoded)
  then show ?case
    using Cons by (simp add: utf8_encode_def valid_text_def utf8_decode_step)
qed (simp add: utf8_encode_def)

lemma utf8_decode_ascii: "(\<And>b. b \<in> set bs \<Longrightarrow> b < 0x80) \<Longrightarrow> utf8_decode bs = bs"
  by (induction bs) (simp_all add: utf8_decode_step decode_point_def)

lemma utf8_encode_ascii: "(\<And>c. c \<in> set t \<Longrightarrow> c < 0x80) \<Longrightarrow> utf8_encode t = t"
  by (induction t) (simp_all add: utf8_encode_def utf8_point_def)

section \<open>What decoding never loses\<close>

lemma decode_point_high:
  assumes "\<not> (b < 0x80)"
  shows "0x80 \<le> fst (decode_point (b # bs))"
  using assms by (auto simp: decode_point_def REPLACEMENT_def second_ok_def continuation_def split: list.splits)

text \<open>A byte sequence that ends in a byte above 127 decodes to a text that ends in a code point above 127.\<close>

lemma decode_keeps_tail:
  assumes "bs \<noteq> []" and "0x80 \<le> last bs"
  shows "utf8_decode bs \<noteq> [] \<and> 0x80 \<le> last (utf8_decode bs)"
  using assms
proof (induction bs rule: utf8_decode.induct)
  case (1 bs)
  let ?n = "snd (decode_point bs)"
  show ?case
  proof (cases "drop ?n bs = []")
    case False
    then have "last (drop ?n bs) = last bs" by (simp add: last_drop)
    with 1 False show ?thesis by (simp add: utf8_decode_step)
  next
    case True
    have "0x80 \<le> fst (decode_point bs)"
    proof (cases bs)
      case (Cons b rest)
      show ?thesis
      proof (cases "b < 0x80")
        case low: True
        then have "?n = 1" using Cons by (simp add: decode_point_def)
        with True Cons have "bs = [b]" by simp
        with 1(3) low show ?thesis by simp
      qed (use Cons in \<open>simp add: decode_point_high\<close>)
    qed (use 1(2) in simp)
    with True 1(2) show ?thesis by (simp add: utf8_decode_step)
  qed
qed

lemma last_utf8_encode:
  "t \<noteq> [] \<Longrightarrow> 0x80 \<le> last t \<Longrightarrow> utf8_encode t \<noteq> [] \<and> 0x80 \<le> last (utf8_encode t) \<and> 2 \<le> length (utf8_encode t)"
  by (cases t rule: rev_cases) (auto simp: utf8_encode_def utf8_point_def)

end
