(* ===== verification/Payload.thy ===== *)
theory Payload
  imports Reducer Utf8
begin

text \<open>
  \<open>execution/payload_guard.py\<close> and the part of \<open>protocol/messages.py\<close> it works on: output budgets, the
  truncation of the two streams of a task, the re-truncation of an \<open>execution_result\<close> that is too large, and
  the chunks served from the stored blobs. Raw bytes are a \<^typ>\<open>string\<close>, one character per byte, as in the
  store; the text of a result is a list of code points. The loop of \<open>fit_message\<close> is a
  \<open>partial_function (option)\<close>: \<open>None\<close> is a loop that never ends.
\<close>

section \<open>Configuration, budgets and truncation\<close>

record payload_section =
  y_default_max_output_bytes :: int
  y_hard_max_output_bytes :: int
  y_max_message_bytes :: int
  y_max_state_summary_bytes :: int

definition effective_budget :: "payload_section \<Rightarrow> int option \<Rightarrow> int option \<Rightarrow> int" where
  "effective_budget cfg task_max plan_default =
     (let declared = (case task_max of Some b \<Rightarrow> b
        | None \<Rightarrow> (case plan_default of Some b \<Rightarrow> b | None \<Rightarrow> y_default_max_output_bytes cfg))
      in min declared (y_hard_max_output_bytes cfg))"

definition decode_output :: "string \<Rightarrow> utext" where
  "decode_output bytes = utf8_decode (map of_char bytes)"

record truncated_output =
  to_stdout_kept :: string
  to_stderr_kept :: string
  to_truncated :: bool
  to_original_size_bytes :: int
  to_stdout_total :: int
  to_stderr_total :: int
  to_stdout_range :: "int \<times> int"
  to_stderr_range :: "int \<times> int"

definition last_bytes :: "string \<Rightarrow> int \<Rightarrow> string" where
  \<comment> \<open>\<open>stream[total - keep:] if keep else b""\<close>\<close>
  "last_bytes stream keep = (if keep \<noteq> 0 then py_slice (int (length stream) - keep) (int (length stream)) stream else [])"

definition apply_budget :: "string \<Rightarrow> string \<Rightarrow> int \<Rightarrow> exn + truncated_output" where
  "apply_budget stdout stderr budget =
     (if budget < 0 then Inl (ValueError ''budget must be >= 0'')
      else let
        stderr_total = int (length stderr); stdout_total = int (length stdout);
        half = budget div 2;
        stderr_keep0 = min stderr_total half; stdout_keep0 = min stdout_total half;
        spare0 = budget - stderr_keep0 - stdout_keep0;
        taken = min spare0 (stderr_total - stderr_keep0);
        stderr_keep = stderr_keep0 + taken; spare = spare0 - taken;
        stdout_keep = stdout_keep0 + min spare (stdout_total - stdout_keep0)
      in Inr \<lparr>to_stdout_kept = last_bytes stdout stdout_keep, to_stderr_kept = last_bytes stderr stderr_keep,
           to_truncated = (stderr_keep < stderr_total \<or> stdout_keep < stdout_total),
           to_original_size_bytes = stderr_total + stdout_total,
           to_stdout_total = stdout_total, to_stderr_total = stderr_total,
           to_stdout_range = (stdout_total - stdout_keep, stdout_total),
           to_stderr_range = (stderr_total - stderr_keep, stderr_total)\<rparr>)"

section \<open>The content of an \<open>execution_result\<close>\<close>

datatype task_execution = Exec_ran | Exec_not_started | Exec_timed_out | Exec_stopped

fun task_execution_value :: "task_execution \<Rightarrow> string" where
  "task_execution_value Exec_ran = ''ran''"
| "task_execution_value Exec_not_started = ''not_started''"
| "task_execution_value Exec_timed_out = ''timed_out''"
| "task_execution_value Exec_stopped = ''stopped''"

record task_translation =
  tl_translated :: bool
  tl_from_dialect :: string
  tl_to_dialect :: string
  tl_original_cmd :: string
  tl_executed_cmd :: string
  tl_rules :: "string list"
  tl_reason :: "string option"

record task_result =
  tr_task_id :: string
  tr_status :: string
  tr_execution :: task_execution
  tr_exit_code :: "int option"
  tr_failure_is_verdict :: "bool option"
  tr_translation :: "task_translation option"
  tr_stdout :: utext
  tr_stderr :: utext
  tr_truncated :: bool
  tr_original_size_bytes :: "int option"
  tr_stdout_total :: "int option"
  tr_stderr_total :: "int option"
  tr_stdout_range :: "(int \<times> int) option"
  tr_stderr_range :: "(int \<times> int) option"
  tr_max_output_bytes_applied :: "int option"
  tr_timed_out :: bool
  tr_timeout_ms_applied :: "int option"
  tr_duration_ms :: "int option"
  tr_reason :: "string option"
  tr_ref_task_id :: "string option"
  tr_stream :: "output_stream option"
  tr_range :: "(int \<times> int) option"
  tr_total :: "int option"
  tr_eof :: "bool option"
  tr_data :: "utext option"

record task_ref =
  rf_task_id :: string
  rf_reason :: string
  rf_execution :: task_execution

record execution_result_content =
  er_plan_id :: string
  er_status :: string
  er_results :: "task_result list"
  er_skipped_tasks :: "task_ref list"
  er_cancelled_tasks :: "task_ref list"
  er_interrupted_tasks :: "task_ref list"
  er_stop_reason :: "string option"

section \<open>Its size\<close>

text \<open>
  \<open>model_dump(mode="json", exclude_none=True)\<close>: a field that is \<open>None\<close> is left out. The three texts of a
  result are written empty here, and \<open>text_size\<close> counts the escaped UTF-8 bytes each adds between its
  quotes: a text may hold any code point, the JSON values of this development hold those below 256.
\<close>

definition opt_field :: "string \<Rightarrow> ('a \<Rightarrow> json) \<Rightarrow> 'a option \<Rightarrow> details" where
  "opt_field k f x = (case x of None \<Rightarrow> [] | Some v \<Rightarrow> [(k, f v)])"

definition jrange :: "int \<times> int \<Rightarrow> json" where
  "jrange r = JArr [JInt (fst r), JInt (snd r)]"

definition translation_json :: "task_translation \<Rightarrow> json" where
  "translation_json t = JObj ([(''status'', JStr (if tl_translated t then ''translated'' else ''unchanged'')),
     (''from_dialect'', JStr (tl_from_dialect t)), (''to_dialect'', JStr (tl_to_dialect t)),
     (''original_cmd'', JStr (tl_original_cmd t)), (''executed_cmd'', JStr (tl_executed_cmd t)),
     (''rules'', JArr (map JStr (tl_rules t)))] @ opt_field ''reason'' JStr (tl_reason t))"

definition task_result_json :: "task_result \<Rightarrow> json" where
  "task_result_json r = JObj (
     [(''task_id'', JStr (tr_task_id r)), (''status'', JStr (tr_status r)),
      (''execution'', JStr (task_execution_value (tr_execution r)))]
     @ opt_field ''exit_code'' JInt (tr_exit_code r)
     @ opt_field ''failure_is_verdict'' JBool (tr_failure_is_verdict r)
     @ opt_field ''translation'' translation_json (tr_translation r)
     @ [(''stdout'', JStr []), (''stderr'', JStr []), (''truncated'', JBool (tr_truncated r))]
     @ opt_field ''original_size_bytes'' JInt (tr_original_size_bytes r)
     @ opt_field ''stdout_total'' JInt (tr_stdout_total r) @ opt_field ''stderr_total'' JInt (tr_stderr_total r)
     @ opt_field ''stdout_range'' jrange (tr_stdout_range r) @ opt_field ''stderr_range'' jrange (tr_stderr_range r)
     @ opt_field ''max_output_bytes_applied'' JInt (tr_max_output_bytes_applied r)
     @ [(''timed_out'', JBool (tr_timed_out r))]
     @ opt_field ''timeout_ms_applied'' JInt (tr_timeout_ms_applied r)
     @ opt_field ''duration_ms'' JInt (tr_duration_ms r) @ opt_field ''reason'' JStr (tr_reason r)
     @ opt_field ''ref_task_id'' JStr (tr_ref_task_id r)
     @ opt_field ''stream'' (\<lambda>s. JStr (output_stream_value s)) (tr_stream r)
     @ opt_field ''range'' jrange (tr_range r) @ opt_field ''total'' JInt (tr_total r)
     @ opt_field ''eof'' JBool (tr_eof r) @ opt_field ''data'' (\<lambda>_. JStr []) (tr_data r))"

definition task_ref_json :: "task_ref \<Rightarrow> json" where
  "task_ref_json r = JObj [(''task_id'', JStr (rf_task_id r)), (''reason'', JStr (rf_reason r)),
     (''execution'', JStr (task_execution_value (rf_execution r)))]"

definition content_json :: "execution_result_content \<Rightarrow> json" where
  "content_json c = JObj ([(''plan_id'', JStr (er_plan_id c)), (''status'', JStr (er_status c)),
     (''results'', JArr (map task_result_json (er_results c))),
     (''skipped_tasks'', JArr (map task_ref_json (er_skipped_tasks c))),
     (''cancelled_tasks'', JArr (map task_ref_json (er_cancelled_tasks c))),
     (''interrupted_tasks'', JArr (map task_ref_json (er_interrupted_tasks c)))]
     @ opt_field ''stop_reason'' JStr (er_stop_reason c))"

definition point_size :: "nat \<Rightarrow> nat" where
  "point_size c = (if c < 128 then utf8_len (json_escape (char_of c)) else length (utf8_point c))"

definition text_size :: "utext \<Rightarrow> nat" where
  "text_size t = sum_list (map point_size t)"

definition texts_size :: "task_result \<Rightarrow> nat" where
  "texts_size r = text_size (tr_stdout r) + text_size (tr_stderr r) + (case tr_data r of None \<Rightarrow> 0 | Some t \<Rightarrow> text_size t)"

definition message_size :: "execution_result_content \<Rightarrow> int" where
  "message_size c = int (size_bytes (content_json c)) + int (sum_list (map texts_size (er_results c)))"

section \<open>\<open>fit_message\<close>\<close>

fun result_text :: "output_stream \<Rightarrow> task_result \<Rightarrow> utext" where
  "result_text STDOUT r = tr_stdout r"
| "result_text STDERR r = tr_stderr r"

text \<open>\<open>_longest\<close>: the first result whose stream is longest, \<open>None\<close> when all are empty.\<close>

fun longest_from :: "output_stream \<Rightarrow> nat \<Rightarrow> nat option \<Rightarrow> nat \<Rightarrow> task_result list \<Rightarrow> nat option" where
  "longest_from s index best best_size [] = best"
| "longest_from s index best best_size (r # rs) =
     (let sz = length (utf8_encode (result_text s r))
      in if sz > best_size then longest_from s (Suc index) (Some index) sz rs
         else longest_from s (Suc index) best best_size rs)"

definition longest :: "output_stream \<Rightarrow> task_result list \<Rightarrow> nat option" where
  "longest s rs = longest_from s 0 None 0 rs"

fun with_stream :: "output_stream \<Rightarrow> utext \<Rightarrow> int \<times> int \<Rightarrow> int \<Rightarrow> task_result \<Rightarrow> task_result" where
  "with_stream STDOUT t rng size_total r = r\<lparr>tr_stdout := t, tr_stdout_range := Some rng, tr_stdout_total := Some size_total, tr_truncated := True\<rparr>"
| "with_stream STDERR t rng size_total r = r\<lparr>tr_stderr := t, tr_stderr_range := Some rng, tr_stderr_total := Some size_total, tr_truncated := True\<rparr>"

fun stream_range :: "output_stream \<Rightarrow> task_result \<Rightarrow> (int \<times> int) option" where
  "stream_range STDOUT r = tr_stdout_range r"
| "stream_range STDERR r = tr_stderr_range r"

fun stream_total :: "output_stream \<Rightarrow> task_result \<Rightarrow> int option" where
  "stream_total STDOUT r = tr_stdout_total r"
| "stream_total STDERR r = tr_stderr_total r"

definition halve :: "output_stream \<Rightarrow> task_result \<Rightarrow> task_result" where
  "halve s r =
     (let encoded = utf8_encode (result_text s r);
          keep = length encoded div 2;
          kept = (if keep \<noteq> 0 then drop (length encoded - keep) encoded else []);
          current_range = (case stream_range s r of None \<Rightarrow> (0, int (length encoded)) | Some c \<Rightarrow> c);
          stream_size = (case stream_total s r of None \<Rightarrow> snd current_range | Some t \<Rightarrow> t);
          range_end = snd current_range
      in with_stream s (utf8_decode kept) (range_end - int (length kept), range_end) stream_size r)"

text \<open>A \<open>while\<close> loop that stops when \<open>fits\<close> or when there is nothing left to shrink.\<close>

partial_function (option) shrink_until :: "('a \<Rightarrow> bool) \<Rightarrow> ('a \<Rightarrow> 'a option) \<Rightarrow> 'a \<Rightarrow> 'a option" where
  "shrink_until fits shrink x =
     (if fits x then Some x else case shrink x of None \<Rightarrow> Some x | Some y \<Rightarrow> shrink_until fits shrink y)"

definition shrink_results :: "task_result list \<Rightarrow> task_result list option" where
  "shrink_results results =
     (case longest STDOUT results of
        Some index \<Rightarrow> Some (results[index := halve STDOUT (results ! index)])
      | None \<Rightarrow> (case longest STDERR results of
            None \<Rightarrow> None
          | Some index \<Rightarrow> Some (results[index := halve STDERR (results ! index)])))"

definition fit_message :: "execution_result_content \<Rightarrow> int \<Rightarrow> execution_result_content option" where
  "fit_message content max_message_bytes =
     map_option (\<lambda>results. if results = er_results content then content else content\<lparr>er_results := results\<rparr>)
       (shrink_until (\<lambda>results. message_size (content\<lparr>er_results := results\<rparr>) \<le> max_message_bytes) shrink_results
          (er_results content))"

section \<open>\<open>serve_chunk\<close>\<close>

record chunk_result =
  ch_data :: string
  ch_range :: "int \<times> int"
  ch_total :: int
  ch_eof :: bool

datatype chunk_error_code = CHUNK_REF_NOT_FOUND | CHUNK_RANGE_INVALID

record chunk_error =
  ce_code :: chunk_error_code
  ce_details :: details

text \<open>The outer sum is an exception of the store, the inner one the answer.\<close>

definition serve_chunk ::
  "payload_section \<Rightarrow> store \<Rightarrow> string \<Rightarrow> string \<Rightarrow> output_stream \<Rightarrow> int \<Rightarrow> int \<Rightarrow> exn + (chunk_error + chunk_result)" where
  "serve_chunk cfg st session_id ref_task_id stream offset max_bytes =
     (case get_blob_for_task st session_id ref_task_id stream of
        None \<Rightarrow> Inr (Inl \<lparr>ce_code = CHUNK_REF_NOT_FOUND,
          ce_details = [(''ref_task_id'', JStr ref_task_id), (''stream'', JStr (output_stream_value stream))]\<rparr>)
      | Some blob \<Rightarrow>
          let blob_total = b_size_bytes blob; capped = min max_bytes (y_hard_max_output_bytes cfg)
          in if offset < 0 \<or> offset \<ge> blob_total \<or> capped \<le> 0
             then Inr (Inl \<lparr>ce_code = CHUNK_RANGE_INVALID,
               ce_details = [(''ref_task_id'', JStr ref_task_id), (''stream'', JStr (output_stream_value stream)),
                 (''offset'', JInt offset), (''max_bytes'', JInt max_bytes), (''total'', JInt blob_total)]\<rparr>)
             else bindR (read_blob_range st (b_blob_id blob) offset capped) (\<lambda>data.
               let range_end = offset + int (length data)
               in Inr (Inr \<lparr>ch_data = data, ch_range = (offset, range_end), ch_total = blob_total, ch_eof = (range_end \<ge> blob_total)\<rparr>)))"

section \<open>Truncation\<close>

lemma last_bytes_drop:
  assumes "0 \<le> keep" and "keep \<le> int (length stream)"
  shows "last_bytes stream keep = drop (nat (int (length stream) - keep)) stream"
  using assms by (auto simp: last_bytes_def py_slice_def slice_bound_def min_def Let_def)

lemma length_last_bytes: "0 \<le> keep \<Longrightarrow> keep \<le> int (length stream) \<Longrightarrow> int (length (last_bytes stream keep)) = keep"
  by (simp add: last_bytes_drop)

text \<open>
  C34. Truncation keeps as much as the budget allows and is fair to both streams: the bytes kept are the end
  of each stream, at the range reported; together they are exactly the budget, or everything when it all fits;
  each stream keeps at least its whole or half the budget; and \<open>truncated\<close> is reported exactly when something
  was lost. A negative budget is refused.
\<close>

theorem truncation_is_fair_and_maximal:
  "case apply_budget stdout stderr budget of
     Inl e \<Rightarrow> budget < 0
   | Inr t \<Rightarrow> 0 \<le> budget
       \<and> to_stdout_kept t = drop (nat (fst (to_stdout_range t))) stdout
       \<and> to_stderr_kept t = drop (nat (fst (to_stderr_range t))) stderr
       \<and> to_stdout_range t = (int (length stdout) - int (length (to_stdout_kept t)), int (length stdout))
       \<and> to_stderr_range t = (int (length stderr) - int (length (to_stderr_kept t)), int (length stderr))
       \<and> int (length (to_stdout_kept t)) + int (length (to_stderr_kept t)) = min budget (int (length stdout) + int (length stderr))
       \<and> min (int (length stdout)) (budget div 2) \<le> int (length (to_stdout_kept t))
       \<and> min (int (length stderr)) (budget div 2) \<le> int (length (to_stderr_kept t))
       \<and> to_original_size_bytes t = int (length stdout) + int (length stderr)
       \<and> (to_truncated t \<longleftrightarrow> \<not> (to_stdout_kept t = stdout \<and> to_stderr_kept t = stderr))"
proof (cases "budget < 0")
  case False
  let ?so = "int (length stdout)" and ?se = "int (length stderr)"
  obtain ke where ke: "ke = min ?se (budget div 2) + min (budget - min ?se (budget div 2) - min ?so (budget div 2)) (?se - min ?se (budget div 2))"
    by blast
  obtain ko where ko: "ko = min ?so (budget div 2) + min (budget - ke - min ?so (budget div 2)) (?so - min ?so (budget div 2))"
    by blast
  have bounds: "0 \<le> ke" "ke \<le> ?se" "0 \<le> ko" "ko \<le> ?so" "ko + ke = min budget (?so + ?se)"
    "min ?so (budget div 2) \<le> ko" "min ?se (budget div 2) \<le> ke"
    using False unfolding ko ke by (auto simp: min_def split: if_splits)
  have run: "apply_budget stdout stderr budget = Inr
    \<lparr>to_stdout_kept = last_bytes stdout ko, to_stderr_kept = last_bytes stderr ke, to_truncated = (ke < ?se \<or> ko < ?so),
     to_original_size_bytes = ?se + ?so, to_stdout_total = ?so, to_stderr_total = ?se,
     to_stdout_range = (?so - ko, ?so), to_stderr_range = (?se - ke, ?se)\<rparr>"
    using False by (simp add: apply_budget_def Let_def ko ke algebra_simps)
  have lost: "last_bytes s k \<noteq> s \<longleftrightarrow> k < int (length s)" if "0 \<le> k" "k \<le> int (length s)" for s k
  proof (cases "k = int (length s)")
    case True
    then show ?thesis by (simp add: last_bytes_drop)
  next
    case False
    then show ?thesis using that length_last_bytes [OF that] by force
  qed
  have len: "int (length (last_bytes stdout ko)) = ko" "int (length (last_bytes stderr ke)) = ke"
    using bounds by (simp_all add: length_last_bytes)
  have drops: "last_bytes stdout ko = drop (nat (?so - ko)) stdout" "last_bytes stderr ke = drop (nat (?se - ke)) stderr"
    using bounds by (simp_all add: last_bytes_drop)
  have loss: "ke < ?se \<or> ko < ?so \<longleftrightarrow> \<not> (last_bytes stdout ko = stdout \<and> last_bytes stderr ke = stderr)"
    using lost [OF bounds(1,2)] lost [OF bounds(3,4)] by blast
  show ?thesis
    unfolding run sum.case truncated_output.simps fst_conv snd_conv len
    by (intro conjI drops bounds(5-7) loss refl) (use False in linarith)+
qed (simp add: apply_budget_def)

section \<open>A loop that shrinks until it fits\<close>

lemma shrink_until_induct [consumes 1, case_names step]:
  assumes "shrink_until fits shrink x = Some z"
    and "\<And>loop x z. (\<And>y v. loop y = Some v \<Longrightarrow> P y v) \<Longrightarrow>
      (if fits x then Some x else case shrink x of None \<Rightarrow> Some x | Some y \<Rightarrow> loop y) = Some z \<Longrightarrow> P x z"
  shows "P x z"
proof -
  have "fits' = fits \<and> shrink' = shrink \<longrightarrow> P x z" if run: "shrink_until fits' shrink' x = Some z" for fits' shrink' x z
  proof (rule shrink_until.raw_induct [of "\<lambda>fits' shrink' x z. fits' = fits \<and> shrink' = shrink \<longrightarrow> P x z" "((fits', shrink'), x)" z, unfolded prod.case])
    fix loop f s y v
    assume loop: "\<And>f s y v. loop f s y = Some v \<Longrightarrow> f = fits \<and> s = shrink \<longrightarrow> P y v"
      and body: "(if f y then Some y else case s y of None \<Rightarrow> Some y | Some u \<Rightarrow> loop f s u) = Some v"
    show "f = fits \<and> s = shrink \<longrightarrow> P y v"
    proof
      assume fs: "f = fits \<and> s = shrink"
      show "P y v"
        by (rule assms(2) [of "loop fits shrink" y v]) (use loop body fs in \<open>blast+\<close>)
    qed
  qed (rule run)
  then show ?thesis using assms(1) by blast
qed

text \<open>A loop that never fits and always has something to shrink does not return.\<close>

lemma shrink_diverges:
  assumes "\<And>x. I x \<Longrightarrow> \<not> fits x \<and> (\<exists>y. shrink x = Some y \<and> I y)" and "I x"
  shows "shrink_until fits shrink x = None"
proof (rule ccontr)
  assume "shrink_until fits shrink x \<noteq> None"
  then obtain z where "shrink_until fits shrink x = Some z" by blast
  then have "\<not> I x"
  proof (induction rule: shrink_until_induct)
    case (step loop x z)
    show ?case
    proof
      assume "I x"
      with assms(1) obtain y where "\<not> fits x" "shrink x = Some y" "I y" by blast
      with step show False by auto
    qed
  qed
  with assms(2) show False by simp
qed

locale shrinking =
  fixes inv :: "'a \<Rightarrow> bool" and shrink :: "'a \<Rightarrow> 'a option" and left :: "'a \<Rightarrow> nat" and kept :: "'a \<Rightarrow> 'a \<Rightarrow> bool"
  assumes step: "inv x \<Longrightarrow> shrink x = Some y \<Longrightarrow> inv y \<and> left y < left x \<and> kept x y"
    and kept_refl: "kept x x"
    and kept_trans: "kept x y \<Longrightarrow> kept y z \<Longrightarrow> kept x z"
begin

lemma ends:
  assumes "inv x"
  shows "\<exists>y. shrink_until fits shrink x = Some y \<and> inv y \<and> kept x y \<and> (fits y \<or> shrink y = None)"
  using assms
proof (induction "left x" arbitrary: x rule: less_induct)
  case less
  show ?case
  proof (cases "\<not> fits x \<and> shrink x \<noteq> None")
    case True
    then obtain y where y: "shrink x = Some y" by blast
    from step [OF less.prems y] less.hyps [of y]
    obtain z where "shrink_until fits shrink y = Some z" "inv z" "kept y z" "fits z \<or> shrink z = None" by blast
    moreover have "shrink_until fits shrink x = shrink_until fits shrink y"
      using True y by (subst shrink_until.simps) simp
    ultimately show ?thesis using step [OF less.prems y] kept_trans by auto
  next
    case False
    then have "shrink_until fits shrink x = Some x" by (subst shrink_until.simps) auto
    with False less.prems kept_refl show ?thesis by blast
  qed
qed

end

section \<open>\<open>fit_message\<close> on ASCII output\<close>

abbreviation stream_bytes :: "output_stream \<Rightarrow> task_result \<Rightarrow> nat" where
  "stream_bytes s r \<equiv> length (utf8_encode (result_text s r))"

lemma longest_from_cases:
  "longest_from s index best n rs = best \<and> (\<forall>r \<in> set rs. stream_bytes s r \<le> n)
   \<or> (\<exists>j < length rs. longest_from s index best n rs = Some (index + j) \<and> n < stream_bytes s (rs ! j)
        \<and> (\<forall>r \<in> set rs. stream_bytes s r \<le> stream_bytes s (rs ! j)))"
proof (induction rs arbitrary: index best n)
  case (Cons r rs)
  show ?case
  proof (cases "n < stream_bytes s r")
    case True
    have eq: "longest_from s index best n (r # rs) = longest_from s (Suc index) (Some index) (stream_bytes s r) rs"
      using True by (simp add: Let_def)
    from Cons.IH [of "Suc index" "Some index" "stream_bytes s r"] show ?thesis
    proof (elim disjE exE conjE)
      assume "longest_from s (Suc index) (Some index) (stream_bytes s r) rs = Some index"
        and "\<forall>x \<in> set rs. stream_bytes s x \<le> stream_bytes s r"
      then show ?thesis using True eq by (intro disjI2 exI [of _ 0]) simp
    next
      fix j assume j: "j < length rs" "longest_from s (Suc index) (Some index) (stream_bytes s r) rs = Some (Suc index + j)"
        "stream_bytes s r < stream_bytes s (rs ! j)" "\<forall>x \<in> set rs. stream_bytes s x \<le> stream_bytes s (rs ! j)"
      then show ?thesis using True eq by (intro disjI2 exI [of _ "Suc j"]) auto
    qed
  next
    case False
    have eq: "longest_from s index best n (r # rs) = longest_from s (Suc index) best n rs"
      using False by (simp add: Let_def)
    from Cons.IH [of "Suc index" best n] show ?thesis
    proof (elim disjE exE conjE)
      assume "longest_from s (Suc index) best n rs = best" and "\<forall>x \<in> set rs. stream_bytes s x \<le> n"
      then show ?thesis using False eq by auto
    next
      fix j assume j: "j < length rs" "longest_from s (Suc index) best n rs = Some (Suc index + j)"
        "n < stream_bytes s (rs ! j)" "\<forall>x \<in> set rs. stream_bytes s x \<le> stream_bytes s (rs ! j)"
      then show ?thesis using False eq by (intro disjI2 exI [of _ "Suc j"]) auto
    qed
  qed
qed simp

lemma utf8_encode_Nil_iff [simp]: "utf8_encode t = [] \<longleftrightarrow> t = []"
  by (cases t) (simp_all add: utf8_encode_def)

lemma longest_Some:
  assumes "longest s rs = Some i"
  shows "i < length rs" and "result_text s (rs ! i) \<noteq> []"
  using longest_from_cases [of s 0 None 0 rs] assms by (auto simp: longest_def)

lemma longest_None: "longest s rs = None \<longleftrightarrow> (\<forall>r \<in> set rs. result_text s r = [])"
  using longest_from_cases [of s 0 None 0 rs] by (fastforce simp: longest_def)

lemma longest_only:
  assumes "\<forall>r \<in> set (pre @ post). result_text s r = []" and "result_text s r \<noteq> []"
  shows "longest s (pre @ r # post) = Some (length pre)"
proof (cases "longest s (pre @ r # post)")
  case None
  then show ?thesis using assms by (auto simp: longest_None)
next
  case (Some i)
  note i = longest_Some [OF Some]
  have "i = length pre"
  proof (rule ccontr)
    assume "i \<noteq> length pre"
    then have "(pre @ r # post) ! i \<in> set (pre @ post)"
      using i(1) by (cases "i < length pre") (auto simp: nth_append nth_Cons')
    with i(2) assms(1) show False by simp
  qed
  with Some show ?thesis by simp
qed

definition ascii_result :: "task_result \<Rightarrow> bool" where
  "ascii_result r \<longleftrightarrow> list_all (\<lambda>c. c < 128) (tr_stdout r) \<and> list_all (\<lambda>c. c < 128) (tr_stderr r)"

definition bytes_left :: "task_result list \<Rightarrow> nat" where
  "bytes_left rs = sum_list (map (\<lambda>r. length (tr_stdout r) + length (tr_stderr r)) rs)"

text \<open>What shrinking leaves of a result: the end of its streams, everything but their metadata.\<close>

definition shrunk :: "task_result \<Rightarrow> task_result \<Rightarrow> bool" where
  "shrunk r r' \<longleftrightarrow> (\<exists>i. tr_stdout r' = drop i (tr_stdout r)) \<and> (\<exists>j. tr_stderr r' = drop j (tr_stderr r))
     \<and> tr_task_id r' = tr_task_id r \<and> tr_status r' = tr_status r \<and> tr_exit_code r' = tr_exit_code r
     \<and> tr_reason r' = tr_reason r \<and> tr_data r' = tr_data r"

lemma shrunk_refl: "shrunk r r"
  unfolding shrunk_def by (metis drop0)

lemma shrunk_trans: "shrunk a b \<Longrightarrow> shrunk b c \<Longrightarrow> shrunk a c"
  unfolding shrunk_def by (metis drop_drop)

definition results_shrunk :: "task_result list \<Rightarrow> task_result list \<Rightarrow> bool" where
  "results_shrunk rs rs' \<longleftrightarrow> list_all2 shrunk rs rs'
     \<and> (map tr_stderr rs' = map tr_stderr rs \<or> list_all (\<lambda>r. tr_stdout r = []) rs')"

lemma halve_ascii:
  assumes "ascii_result r"
  shows "result_text s (halve s r) = drop (length (result_text s r) - length (result_text s r) div 2) (result_text s r)"
    and "ascii_result (halve s r)" and "shrunk r (halve s r)"
proof -
  let ?t = "result_text s r"
  have ascii: "\<And>c. c \<in> set ?t \<Longrightarrow> c < 128" using assms by (cases s) (auto simp: ascii_result_def list_all_iff)
  have enc: "utf8_encode ?t = ?t" using ascii by (simp add: utf8_encode_ascii)
  have kept: "(if length ?t div 2 \<noteq> 0 then drop (length ?t - length ?t div 2) ?t else []) = drop (length ?t - length ?t div 2) ?t"
    by simp
  have dec: "utf8_decode (drop n ?t) = drop n ?t" for n
    using ascii by (intro utf8_decode_ascii) (auto dest: in_set_dropD)
  obtain rng total where h: "halve s r = with_stream s (drop (length ?t - length ?t div 2) ?t) rng total r"
    unfolding halve_def Let_def enc kept dec by blast
  show "result_text s (halve s r) = drop (length ?t - length ?t div 2) ?t" using h by (cases s) simp_all
  show "ascii_result (halve s r)"
    using h assms by (cases s) (auto simp: ascii_result_def list_all_iff dest: in_set_dropD)
  show "shrunk r (halve s r)"
    using h drop0 by (cases s) (auto simp: shrunk_def intro: exI [of _ 0])
qed

lemma halve_other: "s \<noteq> s' \<Longrightarrow> result_text s' (halve s r) = result_text s' r"
  unfolding halve_def Let_def by (cases s; cases s') simp_all

lemma halve_result_smaller:
  assumes "ascii_result r" and "result_text s r \<noteq> []"
  shows "length (tr_stdout (halve s r)) + length (tr_stderr (halve s r)) < length (tr_stdout r) + length (tr_stderr r)"
  using halve_ascii(1) [OF assms(1), of s] halve_other [of s STDOUT r] halve_other [of s STDERR r] assms(2)
  by (cases s) auto

lemma shrink_results_cases:
  assumes "shrink_results rs = Some rs'"
  obtains s i where "i < length rs" and "result_text s (rs ! i) \<noteq> []" and "rs' = rs[i := halve s (rs ! i)]"
    and "s = STDOUT \<or> (\<forall>r \<in> set rs. tr_stdout r = [])"
proof (cases "longest STDOUT rs")
  case (Some i)
  then show thesis
    using assms longest_Some [OF Some] that [of i STDOUT] by (auto simp: shrink_results_def)
next
  case None
  then obtain i where i: "longest STDERR rs = Some i" using assms by (auto simp: shrink_results_def split: option.splits)
  have "rs' = rs[i := halve STDERR (rs ! i)]" using assms None i by (simp add: shrink_results_def)
  moreover have "\<forall>r \<in> set rs. tr_stdout r = []" using None by (simp add: longest_None)
  ultimately show thesis using longest_Some [OF i] that by blast
qed

lemma shrink_results_None: "shrink_results rs = None \<longleftrightarrow> (\<forall>r \<in> set rs. tr_stdout r = [] \<and> tr_stderr r = [])"
  using longest_None [of STDOUT rs] longest_None [of STDERR rs] by (auto simp: shrink_results_def split: option.splits)

lemma bytes_left_update:
  "i < length rs \<Longrightarrow> length (tr_stdout r) + length (tr_stderr r) < length (tr_stdout (rs ! i)) + length (tr_stderr (rs ! i))
   \<Longrightarrow> bytes_left (rs[i := r]) < bytes_left rs"
  using sum_list_update_nat [of i rs "\<lambda>r. length (tr_stdout r) + length (tr_stderr r)" r] by (simp add: bytes_left_def)

interpretation fitting: shrinking "list_all ascii_result" shrink_results bytes_left results_shrunk
proof
  fix rs rs' assume inv: "list_all ascii_result rs" and step: "shrink_results rs = Some rs'"
  obtain s i where i: "i < length rs" "result_text s (rs ! i) \<noteq> []" and rs': "rs' = rs[i := halve s (rs ! i)]"
    and first: "s = STDOUT \<or> (\<forall>r \<in> set rs. tr_stdout r = [])"
    by (rule shrink_results_cases [OF step])
  have ascii: "ascii_result (rs ! i)" using inv i(1) by (simp add: list_all_length)
  have "list_all ascii_result rs'"
    using inv halve_ascii(2) [OF ascii] by (auto simp: rs' list_all_iff dest!: set_update_subset_insert [THEN subsetD])
  moreover have "bytes_left rs' < bytes_left rs"
    unfolding rs' using i halve_result_smaller [OF ascii i(2)] by (intro bytes_left_update)
  moreover have "list_all2 shrunk rs rs'"
    using i(1) halve_ascii(3) [OF ascii] by (auto simp: rs' list_all2_conv_all_nth nth_list_update shrunk_refl)
  moreover have "map tr_stderr rs' = map tr_stderr rs \<or> list_all (\<lambda>r. tr_stdout r = []) rs'"
    using first
  proof
    assume s: "s = STDOUT"
    have "tr_stderr (halve STDOUT (rs ! i)) = tr_stderr (rs ! i)" using halve_other [of STDOUT STDERR] by simp
    then show ?thesis using i(1) by (simp add: rs' s map_update list_update_same_conv)
  next
    assume empty: "\<forall>r \<in> set rs. tr_stdout r = []"
    with i have "s = STDERR" by (cases s) auto
    then have "tr_stdout (halve s (rs ! i)) = []" using halve_other [of STDERR STDOUT] empty i(1) by simp
    with empty show ?thesis by (auto simp: rs' list_all_iff dest!: set_update_subset_insert [THEN subsetD])
  qed
  ultimately show "list_all ascii_result rs' \<and> bytes_left rs' < bytes_left rs \<and> results_shrunk rs rs'"
    by (simp add: results_shrunk_def)
next
  show "results_shrunk rs rs" for rs by (simp add: results_shrunk_def shrunk_refl list.rel_refl)
next
  fix a b c assume ab: "results_shrunk a b" and bc: "results_shrunk b c"
  have "list_all2 shrunk a c"
    by (rule list_all2_trans [of shrunk shrunk shrunk a b c]) (use ab bc shrunk_trans in \<open>auto simp: results_shrunk_def\<close>)
  moreover have "list_all (\<lambda>r. tr_stdout r = []) c" if "list_all (\<lambda>r. tr_stdout r = []) b"
    using that bc by (auto simp: results_shrunk_def list_all2_conv_all_nth list_all_length shrunk_def)
  ultimately show "results_shrunk a c" using ab bc by (auto simp: results_shrunk_def)
qed

text \<open>
  C33. \<open>fit_message\<close> returns for ASCII output, whatever the cap: the message then fits or every stream is
  empty; each stream left is the end of the one given and nothing but stream texts and their ranges changed;
  no \<open>stderr\<close> was touched while a \<open>stdout\<close> had something left.
\<close>

theorem fit_message_returns_on_ascii:
  assumes "list_all ascii_result (er_results content)"
  shows "\<exists>fitted. fit_message content cap = Some fitted
    \<and> (message_size fitted \<le> cap \<or> list_all (\<lambda>r. tr_stdout r = [] \<and> tr_stderr r = []) (er_results fitted))
    \<and> list_all2 shrunk (er_results content) (er_results fitted)
    \<and> (map tr_stderr (er_results fitted) = map tr_stderr (er_results content)
       \<or> list_all (\<lambda>r. tr_stdout r = []) (er_results fitted))
    \<and> fitted\<lparr>er_results := er_results content\<rparr> = content"
proof -
  let ?fits = "\<lambda>results. message_size (content\<lparr>er_results := results\<rparr>) \<le> cap"
  obtain rs where rs: "shrink_until ?fits shrink_results (er_results content) = Some rs"
    "results_shrunk (er_results content) rs" "?fits rs \<or> shrink_results rs = None"
    using fitting.ends [OF assms, of ?fits] by blast
  have "fit_message content cap = Some (content\<lparr>er_results := rs\<rparr>)"
    using rs(1) by (simp add: fit_message_def)
  moreover have "message_size (content\<lparr>er_results := rs\<rparr>) \<le> cap \<or> list_all (\<lambda>r. tr_stdout r = [] \<and> tr_stderr r = []) rs"
    using rs(3) by (auto simp: shrink_results_None list_all_iff)
  ultimately show ?thesis using rs(2) by (auto simp: results_shrunk_def)
qed

section \<open>\<open>fit_message\<close> on other output\<close>

lemma decode_stray_byte: "0x80 \<le> b \<Longrightarrow> utf8_decode [b] = [REPLACEMENT]"
  by (simp add: utf8_decode_step decode_point_def)

lemma utf8_encode_replacement: "utf8_encode [REPLACEMENT] = [0xEF, 0xBF, 0xBD]"
  by (simp add: utf8_encode_def utf8_point_def REPLACEMENT_def)

lemma halve_single:
  assumes "tr_stdout r = [c]" and "128 \<le> c" and "c < 0x10000"
  shows "\<exists>e t. halve STDOUT r = with_stream STDOUT [REPLACEMENT] (e - 1, e) t r"
proof -
  obtain b where b: "0x80 \<le> b" "drop (length (utf8_encode [c]) - length (utf8_encode [c]) div 2) (utf8_encode [c]) = [b]"
    "length (utf8_encode [c]) div 2 = 1"
  proof (cases "c < 0x800")
    case True
    then show thesis using that [of "0x80 + c mod 64"] assms(2) by (simp add: utf8_encode_def utf8_point_def)
  next
    case False
    then show thesis using that [of "0x80 + c mod 64"] assms(3) by (simp add: utf8_encode_def utf8_point_def)
  qed
  have t: "result_text STDOUT r = [c]" using assms(1) by simp
  show ?thesis
    unfolding halve_def Let_def t unfolding b(2) unfolding b(3) by (simp add: decode_stray_byte [OF b(1)]) blast
qed

lemma halve_fixpoint:
  assumes "tr_stdout r = [c]" and "128 \<le> c" and "c < 0x10000"
  shows "halve STDOUT (halve STDOUT r) = halve STDOUT r" and "tr_stdout (halve STDOUT r) = [REPLACEMENT]"
proof -
  obtain e t where h: "halve STDOUT r = with_stream STDOUT [REPLACEMENT] (e - 1, e) t r" using halve_single [OF assms] by blast
  show "tr_stdout (halve STDOUT r) = [REPLACEMENT]" by (simp add: h)
  show "halve STDOUT (halve STDOUT r) = halve STDOUT r"
    unfolding h by (simp add: halve_def Let_def utf8_encode_replacement decode_stray_byte)
qed

text \<open>
  C32. \<open>fit_message\<close> can run for ever: once the only \<open>stdout\<close> left is a single non-ASCII character, halving its
  bytes leaves a stray continuation byte, which decodes to U+FFFD, three bytes again. The loop then changes
  nothing, never empties that stream and never reaches \<open>stderr\<close>, whatever \<open>stderr\<close> holds, so it does not
  return whenever the message is above the cap before and after that step.
\<close>

theorem fit_message_diverges:
  assumes "er_results content = pre @ r # post" and "list_all (\<lambda>x. tr_stdout x = []) (pre @ post)"
    and "tr_stdout r = [c]" and "128 \<le> c" and "c < 0x10000"
    and "cap < message_size content"
    and "cap < message_size (content\<lparr>er_results := pre @ halve STDOUT r # post\<rparr>)"
  shows "fit_message content cap = None"
proof -
  let ?fits = "\<lambda>results. message_size (content\<lparr>er_results := results\<rparr>) \<le> cap"
  let ?last = "pre @ halve STDOUT r # post"
  note fixed = halve_fixpoint [OF assms(3-5)]
  have others: "\<forall>x \<in> set (pre @ post). result_text STDOUT x = []" using assms(2) by (simp add: list_all_iff)
  have step: "shrink_results (pre @ x # post) = Some (pre @ halve STDOUT x # post)" if "tr_stdout x \<noteq> []" for x
    using longest_only [of pre post STDOUT x] others that by (simp add: shrink_results_def)
  have "shrink_until ?fits shrink_results (er_results content) = None"
  proof (rule shrink_diverges [where I = "\<lambda>rs. rs = er_results content \<or> rs = ?last"])
    fix rs assume "rs = er_results content \<or> rs = ?last"
    then show "\<not> ?fits rs \<and> (\<exists>rs'. shrink_results rs = Some rs' \<and> (rs' = er_results content \<or> rs' = ?last))"
    proof
      assume rs: "rs = er_results content"
      have "shrink_results rs = Some ?last" using step [of r] assms(1,3) by (simp add: rs)
      with rs assms(6) show ?thesis by simp
    next
      assume rs: "rs = ?last"
      have "shrink_results rs = Some ?last" using step [of "halve STDOUT r"] fixed by (simp add: rs)
      with rs assms(7) show ?thesis by simp
    qed
  qed simp
  then show ?thesis by (simp add: fit_message_def)
qed

section \<open>Chunks\<close>

text \<open>The stored blobs: filed under their id, with the size of their content.\<close>

definition blobs_wf :: "store \<Rightarrow> bool" where
  "blobs_wf st \<longleftrightarrow> distinct (dict_keys (st_blobs st))
     \<and> (\<forall>(k, b) \<in> set (st_blobs st). b_blob_id b = k \<and> b_size_bytes b = int (length (b_content b)))"

lemma blobs_wf_same: "st_blobs t = st_blobs s \<Longrightarrow> blobs_wf s \<Longrightarrow> blobs_wf t"
  by (simp add: blobs_wf_def)

lemma keeps_blobs_same: "(\<And>st. st_blobs (snd (m st)) = st_blobs st) \<Longrightarrow> keeps blobs_wf m"
  by (simp add: keeps_def blobs_wf_def)

lemma keeps_blobs_write:
  "(\<And>st. st_blobs (upd st) = st_blobs st) \<Longrightarrow> keeps blobs_wf (write_record key upd)"
  by (rule keeps_blobs_same) (simp add: write_record_def andthen_run write_guard_def modifying_def)

lemma keeps_blobs_saves:
  "keeps blobs_wf (save_session s)" "keeps blobs_wf (save_conversation c)"
  "keeps blobs_wf (save_cycle cy)" "keeps blobs_wf (save_plan p)"
  "keeps blobs_wf (save_task t)" "keeps blobs_wf (save_message m)" "keeps blobs_wf (save_failure f)"
  "keeps blobs_wf (save_retry_decision rd)" "keeps blobs_wf (save_context_summary cs)"
  by (simp_all add: save_defs keeps_blobs_write)

lemma set_dict_set: "set (dict_set k v d) \<subseteq> insert (k, v) (set d)"
  by (induction d) auto

lemma keeps_blobs_save_blob: "keeps blobs_wf (save_blob r)"
  unfolding keeps_def
proof (intro allI impI)
  fix st assume wf: "blobs_wf st"
  show "blobs_wf (snd (save_blob r st))"
  proof (cases "save_blob r st")
    case (Pair v st')
    show ?thesis
    proof (cases v)
      case (Inl e)
      with Pair have "st_blobs st' = st_blobs st"
        by (auto simp: save_blob_def andthen_run write_guard_def throw_def modifying_def split: if_splits)
      with Pair show ?thesis using wf by (simp add: blobs_wf_def)
    next
      case (Inr u)
      with Pair have "st_blobs st' = dict_set (b_blob_id r) r (st_blobs st)" "b_size_bytes r = int (length (b_content r))"
        by (auto simp: save_blob_def andthen_run write_guard_def throw_def modifying_def split: if_splits)
      with Pair show ?thesis
        using wf set_dict_set [of "b_blob_id r" r "st_blobs st"] by (auto simp: blobs_wf_def)
    qed
  qed
qed

lemma keeps_blobs_append: "keeps blobs_wf (append_audit_event e)"
  by (rule keeps_blobs_same) (simp add: append_audit_unfold Let_def write_guard_def)

lemma keeps_blobs_close: "keeps blobs_wf close"
  by (rule keeps_blobs_same) (simp add: close_def modifying_def)

lemma keeps_blobs_transaction: "keeps blobs_wf body \<Longrightarrow> keeps blobs_wf (transaction body)"
proof (rule keeps_transaction)
  show "blobs_wf t" if "blobs_wf s" "same_data t s" for s t
    using that by (cases s; cases t) (simp add: same_data_def blobs_wf_def)
qed

lemma keeps_blobs_run: "keeps blobs_wf (run_op op)" "keeps blobs_wf (run_ops ops)"
  by (induction op and ops rule: run_op_run_ops.induct)
    (auto simp: save_tasks_def keeps_blobs_close keeps_blobs_saves keeps_blobs_save_blob keeps_blobs_append
      intro!: keeps_blobs_transaction keeps_catching keeps_andthen keeps_intros keeps_blobs_saves)

lemma blobs_wf_run: "blobs_wf (snd (run_ops ops empty_store))"
  by (rule keepsD [OF keeps_blobs_run(2)]) (simp add: blobs_wf_def empty_store_def)

lemma blob_of_task:
  assumes "blobs_wf st" and "get_blob_for_task st sid tid s = Some blob"
  shows "dict_get (st_blobs st) (b_blob_id blob) = Some blob" and "b_size_bytes blob = int (length (b_content blob))"
    and "b_session_id blob = sid" and "b_task_id blob = tid" and "b_blob_type blob = s"
proof -
  have "blob \<in> set (dict_values (st_blobs st))"
    and key: "b_session_id blob = sid \<and> b_task_id blob = tid \<and> b_blob_type blob = s"
    using assms(2) unfolding get_blob_for_task_def find_Some_iff by (metis nth_mem)+
  then obtain k where k: "(k, blob) \<in> set (st_blobs st)" by auto
  with assms(1) have "b_blob_id blob = k" "b_size_bytes blob = int (length (b_content blob))"
    and "distinct (dict_keys (st_blobs st))" by (auto simp: blobs_wf_def)
  with k key show "dict_get (st_blobs st) (b_blob_id blob) = Some blob" "b_size_bytes blob = int (length (b_content blob))"
    "b_session_id blob = sid" "b_task_id blob = tid" "b_blob_type blob = s" by auto
qed

lemma serve_chunk_run:
  assumes "blobs_wf st" and "get_blob_for_task st sid tid s = Some blob"
    and "off < length (b_content blob)" and "0 < maxb" and "0 < y_hard_max_output_bytes cfg"
  defines "n \<equiv> nat (min maxb (y_hard_max_output_bytes cfg))"
  shows "serve_chunk cfg st sid tid s (int off) maxb = Inr (Inr
    \<lparr>ch_data = take n (drop off (b_content blob)), ch_range = (int off, int (min (length (b_content blob)) (off + n))),
     ch_total = int (length (b_content blob)), ch_eof = (length (b_content blob) \<le> off + n)\<rparr>)"
proof -
  have "read_blob_range st (b_blob_id blob) (int off) (int n) = Inr (take n (drop off (b_content blob)))"
    using blob_of_task(1) [OF assms(1,2)] by (simp add: read_blob_range_def py_slice_range)
  moreover have "min maxb (y_hard_max_output_bytes cfg) = int n" and "0 < n" using assms(4,5) by (simp_all add: n_def)
  ultimately show ?thesis
    using assms(2,3) blob_of_task(2) [OF assms(1,2)] by (simp add: serve_chunk_def Let_def) (auto simp: min_def)
qed

text \<open>A client that asks for chunks until the end of the stream; \<open>None\<close> when a request is refused.\<close>

fun fetch_stream :: "nat \<Rightarrow> payload_section \<Rightarrow> store \<Rightarrow> string \<Rightarrow> string \<Rightarrow> output_stream \<Rightarrow> int \<Rightarrow> int \<Rightarrow> string option" where
  "fetch_stream 0 cfg st sid tid s maxb off = None"
| "fetch_stream (Suc n) cfg st sid tid s maxb off =
     (case serve_chunk cfg st sid tid s off maxb of
        Inr (Inr c) \<Rightarrow> if ch_eof c then Some (ch_data c)
          else map_option (\<lambda>rest. ch_data c @ rest) (fetch_stream n cfg st sid tid s maxb (snd (ch_range c)))
      | _ \<Rightarrow> None)"

lemma fetch_stream_from:
  assumes "blobs_wf st" and "get_blob_for_task st sid tid s = Some blob" and "0 < maxb" and "0 < y_hard_max_output_bytes cfg"
  shows "off < length (b_content blob) \<Longrightarrow> length (b_content blob) - off \<le> fuel
    \<Longrightarrow> fetch_stream fuel cfg st sid tid s maxb (int off) = Some (drop off (b_content blob))"
proof (induction fuel arbitrary: off)
  case (Suc fuel)
  let ?n = "nat (min maxb (y_hard_max_output_bytes cfg))"
  have n: "0 < ?n" using assms(3,4) by simp
  note run = serve_chunk_run [OF assms(1,2) Suc.prems(1) assms(3,4)]
  show ?case
  proof (cases "length (b_content blob) \<le> off + ?n")
    case True
    then show ?thesis by (simp add: run)
  next
    case False
    then have "fetch_stream fuel cfg st sid tid s maxb (int (off + ?n)) = Some (drop (off + ?n) (b_content blob))"
      using Suc.prems n by (intro Suc.IH) linarith+
    moreover have "take ?n (drop off (b_content blob)) @ drop (off + ?n) (b_content blob) = drop off (b_content blob)"
      by (metis append_take_drop_id drop_drop add.commute)
    ultimately show ?thesis using False by (simp add: run min_def)
  qed
qed simp

text \<open>
  C35. A truncated stream can always be recovered: for every non-empty stored stream of a store the calls can
  build, the \<open>chunk_request\<close>s a client makes one after the other, each at the end of the range served before,
  return the stored bytes exactly, whatever chunk size it asks for and whatever the hard limit, in at most as
  many requests as there are bytes.
\<close>

theorem chunk_requests_recover_the_stream:
  assumes "get_blob_for_task (snd (run_ops ops empty_store)) sid tid s = Some blob" and "b_content blob \<noteq> []"
    and "0 < maxb" and "0 < y_hard_max_output_bytes cfg"
  shows "fetch_stream (length (b_content blob)) cfg (snd (run_ops ops empty_store)) sid tid s maxb 0 = Some (b_content blob)"
  using fetch_stream_from [OF blobs_wf_run assms(1,3,4), of 0] assms(2) by simp

lemma pending_entryE:
  assumes "entry \<in> set (pending_entry st sid task (s, d))"
  obtains blob where "get_blob_for_task st sid (t_task_id task) s = Some blob" "b_size_bytes blob \<noteq> 0"
    "entry = JObj [(''task_id'', JStr (t_task_id task)), (''stream'', JStr (output_stream_value s)),
        (''total_bytes'', JInt (b_size_bytes blob))]"
  using assms by (cases "get_blob_for_task st sid (t_task_id task) s") (auto simp: pending_entry_def split: if_split_asm)

text \<open>
  Every pending output the summary of a rotation announces can be fetched: for each \<open>pending_outputs\<close>
  entry there is a task, a stream and a first \<open>chunk_request\<close> at offset 0 that is served with data.
\<close>

theorem pending_outputs_are_served:
  fixes ops :: "store_op list"
  defines "st \<equiv> snd (run_ops ops empty_store)"
  assumes "entry \<in> set (pending_outputs st sid)" and "0 < y_hard_max_output_bytes cfg" and "0 < maxb"
  shows "\<exists>tid s chunk. entry = JObj [(''task_id'', JStr tid), (''stream'', JStr (output_stream_value s)),
        (''total_bytes'', JInt (ch_total chunk))]
     \<and> serve_chunk cfg st sid tid s 0 maxb = Inr (Inr chunk) \<and> ch_data chunk \<noteq> []"
proof -
  obtain task s d where "entry \<in> set (pending_entry st sid task (s, d))"
    using assms(2) by (auto simp: pending_outputs_def split: if_splits)
  then obtain blob where blob: "get_blob_for_task st sid (t_task_id task) s = Some blob" "b_size_bytes blob \<noteq> 0"
    and entry: "entry = JObj [(''task_id'', JStr (t_task_id task)), (''stream'', JStr (output_stream_value s)),
        (''total_bytes'', JInt (b_size_bytes blob))]"
    by (rule pending_entryE)
  have wf: "blobs_wf st" by (simp add: st_def blobs_wf_run)
  have size: "b_size_bytes blob = int (length (b_content blob))" using blob_of_task(2) [OF wf blob(1)] .
  then have "0 < length (b_content blob)" using blob(2) by simp
  from serve_chunk_run [OF wf blob(1) this assms(4,3)] this assms(3,4) show ?thesis
    unfolding entry size by (intro exI [of _ "t_task_id task"] exI [of _ s] exI conjI) auto
qed

section \<open>Witnesses\<close>

definition sample_result :: task_result where
  "sample_result = \<lparr>tr_task_id = ''t'', tr_status = ''completed'', tr_execution = Exec_ran, tr_exit_code = Some 0,
     tr_failure_is_verdict = None, tr_translation = None, tr_stdout = [], tr_stderr = [], tr_truncated = False,
     tr_original_size_bytes = None, tr_stdout_total = None, tr_stderr_total = None, tr_stdout_range = None,
     tr_stderr_range = None, tr_max_output_bytes_applied = None, tr_timed_out = False, tr_timeout_ms_applied = None,
     tr_duration_ms = None, tr_reason = None, tr_ref_task_id = None, tr_stream = None, tr_range = None, tr_total = None,
     tr_eof = None, tr_data = None\<rparr>"

definition content_of :: "task_result list \<Rightarrow> execution_result_content" where
  "content_of rs = \<lparr>er_plan_id = ''p'', er_status = ''completed'', er_results = rs, er_skipped_tasks = [],
     er_cancelled_tasks = [], er_interrupted_tasks = [], er_stop_reason = None\<rparr>"

theorem fit_message_returns_on_ascii_witness:
  "\<exists>fitted. fit_message (content_of [sample_result\<lparr>tr_stdout := [97, 98]\<rparr>]) 0 = Some fitted
     \<and> list_all2 shrunk [sample_result\<lparr>tr_stdout := [97, 98]\<rparr>] (er_results fitted)"
  using fit_message_returns_on_ascii [of "content_of [sample_result\<lparr>tr_stdout := [97, 98]\<rparr>]" 0]
  by (auto simp: content_of_def sample_result_def ascii_result_def)

text \<open>One e-acute on \<open>stdout\<close> and 200000 bytes of \<open>stderr\<close>, under the default cap.\<close>

definition accented_result :: task_result where
  "accented_result = sample_result\<lparr>tr_stdout := [233], tr_stderr := replicate 200000 97\<rparr>"

lemma text_size_replicate: "text_size (replicate n 97) = n"
proof -
  have "point_size 97 = 1" by code_simp
  then show ?thesis by (simp add: text_size_def sum_list_replicate)
qed

lemma accented_size: "196608 < message_size (content_of [accented_result])"
  "196608 < message_size (content_of [halve STDOUT accented_result])"
proof -
  have "tr_stderr (halve STDOUT accented_result) = replicate 200000 97"
    using halve_other [of STDOUT STDERR accented_result] by (simp add: accented_result_def)
  then show "196608 < message_size (content_of [halve STDOUT accented_result])"
    by (simp add: message_size_def content_of_def texts_size_def text_size_replicate)
  show "196608 < message_size (content_of [accented_result])"
    by (simp add: message_size_def content_of_def texts_size_def text_size_replicate accented_result_def)
qed

theorem fit_message_diverges_witness:
  "fit_message (content_of [accented_result]) 196608 = None"
proof (rule fit_message_diverges [where pre = "[]" and post = "[]" and r = accented_result and c = 233])
  show "196608 < message_size ((content_of [accented_result])\<lparr>er_results := [] @ halve STDOUT accented_result # []\<rparr>)"
    using accented_size(2) by (simp add: content_of_def)
qed (use accented_size(1) in \<open>simp_all add: content_of_def accented_result_def\<close>)

definition sample_payload :: payload_section where
  "sample_payload = \<lparr>y_default_max_output_bytes = 8192, y_hard_max_output_bytes = 2, y_max_message_bytes = 196608,
     y_max_state_summary_bytes = 4096\<rparr>"

lemma sample_blob_stored: "get_blob_for_task (snd (run_ops [Save_blob sample_blob] empty_store)) ''s'' ''t'' STDOUT = Some sample_blob"
  by (simp add: get_blob_for_task_def save_blob_def sample_blob_def empty_store_def flow_simps write_guard_def)

lemma sample_blob_content: "b_content sample_blob = ''abcde''" "length ''abcde'' = 5"
  by (simp_all add: sample_blob_def)

theorem chunk_requests_recover_the_stream_witness:
  "fetch_stream 5 sample_payload (snd (run_ops [Save_blob sample_blob] empty_store)) ''s'' ''t'' STDOUT 4096 0 = Some ''abcde''"
proof -
  have "0 < y_hard_max_output_bytes sample_payload" by (simp add: sample_payload_def)
  from chunk_requests_recover_the_stream [OF sample_blob_stored _ _ this, of 4096]
  show ?thesis unfolding sample_blob_content by simp
qed

definition sample_task :: task_record where
  "sample_task = \<lparr>t_task_id = ''t'', t_plan_id = ''p'', t_session_id = ''s'', t_conversation_id = ''c'', t_order_index = 0,
     t_type = CMD, t_cmd = Some ''ls'', t_status = Task_COMPLETED, t_critical = False, t_continue_on_error = False,
     t_stop_plan_on_failure = False, t_stop_plan_on_success = False, t_stops_plan_on_failure = True, t_depends_on = [],
     t_resource_lock = None, t_max_output_bytes = None, t_max_output_bytes_applied = None, t_timeout_ms = None,
     t_timeout_ms_applied = None, t_ref_task_id = None, t_stream = None, t_byte_offset = None, t_max_bytes = None,
     t_attempt_count = 1, t_exit_code = Some 0, t_timed_out = False, t_stdout_ref = Some ''b'', t_stderr_ref = None,
     t_truncated = True, t_original_size_bytes = Some 5, t_stdout_total = Some 5, t_stderr_total = Some 0,
     t_stdout_range = Some (3, 5), t_stderr_range = Some (0, 0), t_reason = None, t_pid = None, t_process_group_id = None,
     t_started_at = None, t_ended_at = None, t_duration_ms = None, t_created_at = 0, t_updated_at = 0\<rparr>"

lemma sample_pending: "JObj [(''task_id'', JStr ''t''), (''stream'', JStr ''stdout''), (''total_bytes'', JInt 5)]
    \<in> set (pending_outputs (snd (run_ops [Save_task sample_task, Save_blob sample_blob] empty_store)) ''s'')"
  by (simp add: pending_outputs_def list_tasks_def pending_entry_def get_blob_for_task_def save_blob_def save_task_def
      write_record_def touch_def empty_store_def flow_simps write_guard_def sample_task_def sample_blob_def)

theorem pending_outputs_are_served_witness:
  "\<exists>chunk :: chunk_result. ch_total chunk = 5 \<and> ch_data chunk \<noteq> []"
proof -
  have "0 < y_hard_max_output_bytes sample_payload" by (simp add: sample_payload_def)
  from pending_outputs_are_served [OF sample_pending this, of 4096]
  show ?thesis by auto
qed

end
