(* ===== verification/Cycles.thy ===== *)
theory Cycles
  imports Payload
begin

text \<open>
  \<open>_find_cycle\<close> of \<open>protocol/adapter.py\<close>: the iterative depth-first search over the dependencies of a plan.
  The colours and the dependencies are dictionaries; a missing key is the \<open>KeyError\<close> Python raises, which
  the search never does on a plan whose dependencies are declared (\<open>find_cycle_correct\<close>). An iterator over
  a list is the list of what it has left.
\<close>

datatype colour = White | Grey | Black

definition lookup :: "(string, 'v) dict \<Rightarrow> string \<Rightarrow> exn + 'v" where
  "lookup d k = (case dict_get d k of None \<Rightarrow> Inl (Other_Exn ''KeyError'' k) | Some v \<Rightarrow> Inr v)"

definition index_of :: "string \<Rightarrow> string list \<Rightarrow> nat" where
  "index_of x xs = length (takeWhile (\<lambda>y. y \<noteq> x) xs)"

definition white_count :: "(string, colour) dict \<Rightarrow> nat" where
  "white_count color = length (filter (\<lambda>kv. snd kv = White) color)"

lemma white_count_set: "dict_get color x = Some White \<Longrightarrow> c \<noteq> White \<Longrightarrow> white_count (dict_set x c color) < white_count color"
  by (induction color) (auto simp: white_count_def split: if_splits)

lemma white_count_black: "white_count (dict_set x Black color) \<le> white_count color"
  by (induction color) (auto simp: white_count_def)

text \<open>The \<open>while stack\<close> loop: the colours it leaves, and the cycle it returns if any.\<close>

function search ::
  "(string, string list) dict \<Rightarrow> (string, colour) dict \<Rightarrow> string list \<Rightarrow> (string \<times> string list) list
   \<Rightarrow> exn + (string, colour) dict \<times> string list option" where
  "search deps color path [] = Inr (color, None)"
| "search deps color path ((node, []) # stack) = search deps (dict_set node Black color) (butlast path) stack"
| "search deps color path ((node, nxt # pending) # stack) =
     (case dict_get color nxt of
        None \<Rightarrow> Inl (Other_Exn ''KeyError'' nxt)
      | Some Grey \<Rightarrow> Inr (color, Some (drop (index_of nxt path) path @ [nxt]))
      | Some Black \<Rightarrow> search deps color path ((node, pending) # stack)
      | Some White \<Rightarrow> (case dict_get deps nxt of
            None \<Rightarrow> Inl (Other_Exn ''KeyError'' nxt)
          | Some ds \<Rightarrow> search deps (dict_set nxt Grey color) (path @ [nxt]) ((nxt, ds) # (node, pending) # stack)))"
  by pat_completeness auto

termination
  by (relation "measures [\<lambda>(deps, color, path, stack). white_count color,
        \<lambda>(deps, color, path, stack). sum_list (map (\<lambda>(n, p). Suc (length p)) stack)]")
    (use white_count_black le_imp_less_or_eq in \<open>auto simp: white_count_set\<close>)

fun search_from :: "(string, string list) dict \<Rightarrow> string list \<Rightarrow> (string, colour) dict \<Rightarrow> exn + string list option" where
  "search_from deps [] color = Inr None"
| "search_from deps (start # starts) color =
     bindR (lookup color start) (\<lambda>c.
     if c \<noteq> White then search_from deps starts color
     else bindR (lookup deps start) (\<lambda>ds.
       bindR (search deps (dict_set start Grey color) [start] [(start, ds)]) (\<lambda>(color', cycle).
       case cycle of Some p \<Rightarrow> Inr (Some p) | None \<Rightarrow> search_from deps starts color')))"

definition find_cycle :: "string list \<Rightarrow> (string, string list) dict \<Rightarrow> exn + string list option" where
  "find_cycle order deps = search_from deps order (fold (\<lambda>x. dict_set x White) order [])"

section \<open>Correctness of the search\<close>

text \<open>\<open>x \<rightarrow> d\<close> when \<open>d\<close> is a dependency of \<open>x\<close>.\<close>

definition depends :: "(string, string list) dict \<Rightarrow> (string \<times> string) set" where
  "depends deps = {(x, d). \<exists>ds. dict_get deps x = Some ds \<and> d \<in> set ds}"

definition closed_walk :: "(string, string list) dict \<Rightarrow> string list \<Rightarrow> bool" where
  "closed_walk deps p \<longleftrightarrow> 2 \<le> length p \<and> hd p = last p \<and> successively (\<lambda>x y. (x, y) \<in> depends deps) p"

definition declared :: "string list \<Rightarrow> (string, string list) dict \<Rightarrow> bool" where
  "declared order deps \<longleftrightarrow> (\<forall>x \<in> set order. \<exists>ds. dict_get deps x = Some ds \<and> set ds \<subseteq> set order)"

text \<open>What was seen of a node on the stack, before what it has left, is black; the node above it is next.\<close>

definition seen_black :: "(string, string list) dict \<Rightarrow> (string, colour) dict \<Rightarrow> string \<Rightarrow> string list \<Rightarrow> bool" where
  "seen_black deps color n rest \<longleftrightarrow>
     (\<exists>seen. dict_get deps n = Some (seen @ rest) \<and> (\<forall>d \<in> set seen. dict_get color d = Some Black))"

fun parents_ok :: "(string, string list) dict \<Rightarrow> (string, colour) dict \<Rightarrow> string \<Rightarrow> (string \<times> string list) list \<Rightarrow> bool" where
  "parents_ok deps color child [] = True"
| "parents_ok deps color child ((n, p) # stack) \<longleftrightarrow> seen_black deps color n (child # p) \<and> parents_ok deps color n stack"

fun stack_ok :: "(string, string list) dict \<Rightarrow> (string, colour) dict \<Rightarrow> (string \<times> string list) list \<Rightarrow> bool" where
  "stack_ok deps color [] = True"
| "stack_ok deps color ((n, p) # stack) \<longleftrightarrow> seen_black deps color n p \<and> parents_ok deps color n stack"

definition blacks :: "(string, colour) dict \<Rightarrow> string set" where
  "blacks color = {x. dict_get color x = Some Black}"

definition search_inv ::
  "string list \<Rightarrow> (string, string list) dict \<Rightarrow> (string, colour) dict \<Rightarrow> string list \<Rightarrow> (string \<times> string list) list \<Rightarrow> bool" where
  "search_inv order deps color path stack \<longleftrightarrow>
     path = rev (map fst stack) \<and> distinct path \<and> set path \<subseteq> set order
   \<and> (\<forall>x. dict_get color x = Some Grey \<longleftrightarrow> x \<in> set path)
   \<and> (\<forall>x. dict_get color x \<noteq> None \<longleftrightarrow> x \<in> set order)
   \<and> stack_ok deps color stack
   \<and> (\<forall>x d. x \<in> blacks color \<longrightarrow> (x, d) \<in> depends deps \<longrightarrow> d \<in> blacks color)
   \<and> (\<forall>x. x \<in> blacks color \<longrightarrow> (x, x) \<notin> (depends deps)\<^sup>+)"

lemma seen_black_mono:
  assumes "seen_black deps color n rest" and "\<And>d. dict_get color d = Some Black \<Longrightarrow> dict_get color' d = Some Black"
  shows "seen_black deps color' n rest"
  using assms unfolding seen_black_def by blast

lemma parents_ok_mono:
  assumes "parents_ok deps color c stack" and "\<And>d. dict_get color d = Some Black \<Longrightarrow> dict_get color' d = Some Black"
  shows "parents_ok deps color' c stack"
  using assms(1)
proof (induction stack arbitrary: c)
  case (Cons a stack)
  obtain n p where a: "a = (n, p)" by (cases a)
  then have "seen_black deps color n (c # p)" and "parents_ok deps color n stack" using Cons.prems by simp_all
  with Cons.IH a show ?case using seen_black_mono assms(2) by simp
qed simp

lemma seen_black_step:
  assumes "seen_black deps color n (d # rest)" and "dict_get color d = Some Black"
  shows "seen_black deps color n rest"
proof -
  obtain seen where "dict_get deps n = Some (seen @ d # rest)" "\<forall>x \<in> set seen. dict_get color x = Some Black"
    using assms(1) unfolding seen_black_def by blast
  with assms(2) show ?thesis unfolding seen_black_def by (intro exI [of _ "seen @ [d]"]) auto
qed

lemma seen_black_edge: "seen_black deps color n (d # rest) \<Longrightarrow> (n, d) \<in> depends deps"
  unfolding seen_black_def depends_def by auto

lemma path_edges: "parents_ok deps color c stack \<Longrightarrow> successively (\<lambda>x y. (x, y) \<in> depends deps) (rev (map fst stack) @ [c])"
proof (induction stack arbitrary: c)
  case (Cons a stack)
  obtain n p where a: "a = (n, p)" by (cases a)
  with Cons have "successively (\<lambda>x y. (x, y) \<in> depends deps) (rev (map fst stack) @ [n])" and "(n, c) \<in> depends deps"
    using seen_black_edge by auto
  with a show ?case using successively_append_iff [of "\<lambda>x y. (x, y) \<in> depends deps" "rev (map fst stack) @ [n]" "[c]"] by simp
qed simp

lemma drop_index_of: "x \<in> set xs \<Longrightarrow> \<exists>ys. drop (index_of x xs) xs = x # ys"
  by (induction xs) (auto simp: index_of_def)

lemma successively_drop: "successively P xs \<Longrightarrow> successively P (drop n xs)"
  using successively_append_iff [of P "take n xs" "drop n xs"] by simp

lemma cycle_found:
  assumes "parents_ok deps color node stack" and "(node, nxt) \<in> depends deps"
    and "path = rev (map fst stack) @ [node]" and "nxt \<in> set path"
  shows "closed_walk deps (drop (index_of nxt path) path @ [nxt])"
proof -
  obtain ys where ys: "drop (index_of nxt path) path = nxt # ys" using drop_index_of [OF assms(4)] by blast
  then have "index_of nxt path < length path" by (metis drop_all list.distinct(1) not_le)
  then have last: "last (nxt # ys) = node" using ys assms(3) by (metis last_drop last_snoc)
  have "successively (\<lambda>x y. (x, y) \<in> depends deps) (nxt # ys)"
    using path_edges [OF assms(1)] successively_drop ys assms(3) by metis
  then have "successively (\<lambda>x y. (x, y) \<in> depends deps) ((nxt # ys) @ [nxt])"
    unfolding successively_append_iff using last assms(2) by simp
  then show ?thesis unfolding closed_walk_def ys by simp
qed

lemma black_closed_walks:
  assumes "(x, y) \<in> (depends deps)\<^sup>*" and "x \<in> B" and "\<And>x d. x \<in> B \<Longrightarrow> (x, d) \<in> depends deps \<Longrightarrow> d \<in> B"
  shows "y \<in> B"
  using assms(1,2) by (induction rule: rtrancl_induct) (use assms(3) in auto)

lemma search_invD:
  assumes "search_inv order deps color path ((node, p) # stack)"
  shows "path = rev (map fst stack) @ [node]" and "distinct path" and "set path \<subseteq> set order"
    and "\<And>x. dict_get color x = Some Grey \<longleftrightarrow> x \<in> set path"
    and "\<And>x. dict_get color x \<noteq> None \<longleftrightarrow> x \<in> set order"
    and "seen_black deps color node p" and "parents_ok deps color node stack"
    and "\<And>x d. x \<in> blacks color \<Longrightarrow> (x, d) \<in> depends deps \<Longrightarrow> d \<in> blacks color"
    and "\<And>x. x \<in> blacks color \<Longrightarrow> (x, x) \<notin> (depends deps)\<^sup>+"
  using assms unfolding search_inv_def stack_ok.simps list.map(2) rev.simps(2) fst_conv by blast+

lemma search_finish:
  assumes inv: "search_inv order deps color path ((node, []) # stack)"
  shows "search_inv order deps (dict_set node Black color) (butlast path) stack"
proof -
  let ?color = "dict_set node Black color"
  have path: "path = rev (map fst stack) @ [node]" "distinct path" "set path \<subseteq> set order"
    and grey: "\<And>x. dict_get color x = Some Grey \<longleftrightarrow> x \<in> set path"
    and dom: "\<And>x. dict_get color x \<noteq> None \<longleftrightarrow> x \<in> set order"
    and sb: "seen_black deps color node []" and parents: "parents_ok deps color node stack"
    and closed: "\<And>x d. x \<in> blacks color \<Longrightarrow> (x, d) \<in> depends deps \<Longrightarrow> d \<in> blacks color"
    and acyclic: "\<And>x. x \<in> blacks color \<Longrightarrow> (x, x) \<notin> (depends deps)\<^sup>+"
    using search_invD [OF inv] by blast+
  have node: "dict_get color node = Some Grey" "node \<notin> blacks color" using grey [of node] path(1) by (simp_all add: blacks_def)
  have deps: "d \<in> blacks color" if "(node, d) \<in> depends deps" for d
    using sb that by (auto simp: seen_black_def depends_def blacks_def)
  have mono: "dict_get ?color d = Some Black" if "dict_get color d = Some Black" for d using that by simp
  have blacks: "blacks ?color = insert node (blacks color)" by (auto simp: blacks_def)
  have "(node, node) \<notin> (depends deps)\<^sup>+"
  proof
    assume "(node, node) \<in> (depends deps)\<^sup>+"
    then obtain d where "(node, d) \<in> depends deps" "(d, node) \<in> (depends deps)\<^sup>*" by (metis tranclD)
    then have "node \<in> blacks color" using black_closed_walks [of d node deps "blacks color"] deps closed by blast
    with node show False by simp
  qed
  moreover have "stack_ok deps ?color stack"
  proof (cases stack)
    case (Cons a rest)
    obtain m q where a: "a = (m, q)" by (cases a)
    then have "seen_black deps color m (node # q)" "parents_ok deps color m rest" using parents Cons by simp_all
    then have "seen_black deps ?color m (node # q)" "parents_ok deps ?color m rest"
      using seen_black_mono parents_ok_mono mono by blast+
    then show ?thesis using seen_black_step [of deps ?color m node q] by (simp add: Cons a)
  qed simp
  ultimately show ?thesis
    unfolding search_inv_def
    using path grey dom blacks closed acyclic deps node by (auto simp: butlast_append)
qed

lemma search_push:
  assumes inv: "search_inv order deps color path ((node, nxt # pending) # stack)" and white: "dict_get color nxt = Some White"
    and ds: "dict_get deps nxt = Some ds"
  shows "search_inv order deps (dict_set nxt Grey color) (path @ [nxt]) ((nxt, ds) # (node, pending) # stack)"
proof -
  let ?color = "dict_set nxt Grey color"
  have path: "path = rev (map fst stack) @ [node]" "distinct path" "set path \<subseteq> set order"
    and grey: "\<And>x. dict_get color x = Some Grey \<longleftrightarrow> x \<in> set path"
    and dom: "\<And>x. dict_get color x \<noteq> None \<longleftrightarrow> x \<in> set order"
    and sb: "seen_black deps color node (nxt # pending)" and parents: "parents_ok deps color node stack"
    and closed: "\<And>x d. x \<in> blacks color \<Longrightarrow> (x, d) \<in> depends deps \<Longrightarrow> d \<in> blacks color"
    and acyclic: "\<And>x. x \<in> blacks color \<Longrightarrow> (x, x) \<notin> (depends deps)\<^sup>+"
    using search_invD [OF inv] by blast+
  have new: "nxt \<notin> set path" "nxt \<in> set order" using grey [of nxt] dom [of nxt] white by auto
  have mono: "dict_get ?color d = Some Black" if "dict_get color d = Some Black" for d using that white by auto
  have "blacks ?color = blacks color" using white by (auto simp: blacks_def)
  moreover have "seen_black deps ?color nxt ds" using ds by (simp add: seen_black_def)
  moreover have "seen_black deps ?color node (nxt # pending)" "parents_ok deps ?color node stack"
    using seen_black_mono [OF sb] parents_ok_mono [OF parents] mono by blast+
  ultimately show ?thesis
    unfolding search_inv_def using path grey dom closed acyclic new by auto
qed

lemma search_skip:
  assumes inv: "search_inv order deps color path ((node, nxt # pending) # stack)" and "dict_get color nxt = Some Black"
  shows "search_inv order deps color path ((node, pending) # stack)"
  using search_invD(1-5,7-9) [OF inv] seen_black_step [OF search_invD(6) [OF inv] assms(2)]
  unfolding search_inv_def by simp

lemma search_next_declared:
  assumes "search_inv order deps color path ((node, nxt # pending) # stack)" and "declared order deps"
  shows "nxt \<in> set order" and "(node, nxt) \<in> depends deps"
proof -
  have "node \<in> set order" and sb: "seen_black deps color node (nxt # pending)" using search_invD [OF assms(1)] by auto
  then show "nxt \<in> set order" using assms(2) unfolding declared_def seen_black_def by fastforce
  show "(node, nxt) \<in> depends deps" by (rule seen_black_edge [OF sb])
qed

lemma search_correct:
  assumes "declared order deps" and "search_inv order deps color path stack"
  shows "case search deps color path stack of
      Inl _ \<Rightarrow> False
    | Inr (color', Some p) \<Rightarrow> closed_walk deps p
    | Inr (color', None) \<Rightarrow> search_inv order deps color' [] []"
  using assms
proof (induction deps color path stack rule: search.induct)
  case (1 deps color path)
  then show ?case by (simp add: search_inv_def)
next
  case (2 deps color path node stack)
  then show ?case using search_finish by simp
next
  case (3 deps color path node nxt pending stack)
  note declared = 3(3) and inv = 3(4)
  note nxt = search_next_declared [OF inv declared]
  obtain c where c: "dict_get color nxt = Some c" using nxt(1) search_invD(5) [OF inv, of nxt] by blast
  obtain ds where ds: "dict_get deps nxt = Some ds" using nxt(1) declared unfolding declared_def by blast
  show ?case
  proof (cases c)
    case White
    with 3(1,2) c ds declared search_push [OF inv] show ?thesis by simp
  next
    case Grey
    then have "nxt \<in> set path" using c search_invD(4) [OF inv] by blast
    with cycle_found [OF search_invD(7) [OF inv] nxt(2) search_invD(1) [OF inv]] c Grey show ?thesis by simp
  next
    case Black
    with 3(1,2) c declared search_skip [OF inv] show ?thesis by simp
  qed
qed

lemma search_visited:
  "search deps color path stack = Inr (color', r) \<Longrightarrow> dict_get color x \<noteq> Some White \<Longrightarrow> dict_get color' x \<noteq> Some White"
proof (induction deps color path stack rule: search.induct)
  case (3 deps color path node nxt pending stack)
  then show ?case by (auto split: option.splits colour.splits if_splits)
qed auto

lemma search_start:
  assumes "search_inv order deps color [] []" and "start \<in> set order" and "dict_get color start = Some White"
    and "dict_get deps start = Some ds"
  shows "search_inv order deps (dict_set start Grey color) [start] [(start, ds)]"
proof -
  have "blacks (dict_set start Grey color) = blacks color" using assms(3) by (auto simp: blacks_def)
  then show ?thesis using assms by (auto simp: search_inv_def seen_black_def)
qed

lemma search_from_correct:
  assumes "declared order deps"
  shows "search_inv order deps color [] [] \<Longrightarrow> set starts \<subseteq> set order \<Longrightarrow> set order \<subseteq> blacks color \<union> set starts \<Longrightarrow>
    (case search_from deps starts color of
       Inl _ \<Rightarrow> False
     | Inr (Some p) \<Rightarrow> closed_walk deps p
     | Inr None \<Rightarrow> \<forall>x \<in> set order. (x, x) \<notin> (depends deps)\<^sup>+)"
proof (induction starts arbitrary: color)
  case Nil
  then show ?case by (auto simp: search_inv_def)
next
  case (Cons start starts)
  from Cons.prems have start: "start \<in> set order" by simp
  then obtain c where c: "dict_get color start = Some c" using Cons.prems(1) unfolding search_inv_def by blast
  obtain ds where ds: "dict_get deps start = Some ds" using start assms unfolding declared_def by blast
  show ?case
  proof (cases "c = White")
    case False
    then have "start \<in> blacks color" using c Cons.prems(1) by (cases c) (auto simp: search_inv_def blacks_def)
    with Cons False c show ?thesis by (simp add: lookup_def) (use Cons in blast)
  next
    case True
    let ?r = "search deps (dict_set start Grey color) [start] [(start, ds)]"
    note correct = search_correct [OF assms search_start [OF Cons.prems(1) start c [unfolded True] ds]]
    show ?thesis
    proof (cases ?r)
      case (Inl e)
      with correct show ?thesis by simp
    next
      case (Inr r)
      obtain color' cycle where r: "r = (color', cycle)" by (cases r)
      show ?thesis
      proof (cases cycle)
        case (Some p)
        with correct Inr r c True ds show ?thesis by (simp add: lookup_def)
      next
        case None
        with correct Inr r have inv: "search_inv order deps color' [] []" by simp
        have visited: "dict_get color' x \<noteq> Some White" if "dict_get (dict_set start Grey color) x \<noteq> Some White" for x
          using search_visited [of deps _ _ _ color' cycle] Inr r that by blast
        have "set order \<subseteq> blacks color' \<union> set starts"
        proof
          fix x assume x: "x \<in> set order"
          then obtain d where d: "dict_get color' x = Some d" using inv unfolding search_inv_def by blast
          show "x \<in> blacks color' \<union> set starts"
          proof (cases "x \<in> set starts")
            case False
            then have "x \<in> blacks color \<or> x = start" using Cons.prems(3) x by auto
            then have "dict_get (dict_set start Grey color) x \<noteq> Some White" by (auto simp: blacks_def)
            then have "d \<noteq> White" using visited d by auto
            moreover have "d \<noteq> Grey" using inv d by (auto simp: search_inv_def)
            ultimately show ?thesis using d by (cases d) (simp_all add: blacks_def)
          qed simp
        qed
        with Cons.IH [OF inv] Cons.prems(2) Inr r None c True ds show ?thesis by (simp add: lookup_def)
      qed
    qed
  qed
qed

lemma initial_colours: "dict_get (fold (\<lambda>x. dict_set x White) order d) x = (if x \<in> set order then Some White else dict_get d x)"
  by (induction order arbitrary: d) auto

lemma find_cycle_sound:
  assumes "declared order deps"
  shows "case find_cycle order deps of
      Inl _ \<Rightarrow> False
    | Inr (Some p) \<Rightarrow> closed_walk deps p
    | Inr None \<Rightarrow> list_all (\<lambda>x. (x, x) \<notin> (depends deps)\<^sup>+) order"
proof -
  have "search_inv order deps (fold (\<lambda>x. dict_set x White) order []) [] []"
    by (auto simp: search_inv_def initial_colours blacks_def)
  from search_from_correct [OF assms this, of order] show ?thesis
    unfolding find_cycle_def list_all_iff by simp
qed

text \<open>
  The dependency search is right: on any plan whose dependencies are declared it returns (it terminates
  and no dictionary access fails), what it returns is a closed walk along the dependencies, and when it returns
  none, no task depends on itself through any chain.
\<close>

theorem find_cycle_correct:
  assumes "declared order deps"
  shows "case find_cycle order deps of
      Inl _ \<Rightarrow> False
    | Inr (Some p) \<Rightarrow> closed_walk deps p
    | Inr None \<Rightarrow> list_all (\<lambda>x. (x, x) \<notin> (depends deps)\<^sup>+) order"
  using find_cycle_sound [OF assms] .

lemma closed_walk_cycle: "closed_walk deps p \<Longrightarrow> (hd p, hd p) \<in> (depends deps)\<^sup>+"
proof -
  assume "closed_walk deps p"
  then obtain x y q where p: "p = x # y # q" and last: "last p = x" and walk: "successively (\<lambda>x y. (x, y) \<in> depends deps) p"
    unfolding closed_walk_def by (cases p; cases "tl p") auto
  have "successively (\<lambda>x y. (x, y) \<in> depends deps) (y # q) \<Longrightarrow> (y, last (y # q)) \<in> (depends deps)\<^sup>*" for y q
    by (induction q arbitrary: y) (auto intro: converse_rtrancl_into_rtrancl)
  then show ?thesis using walk last p by (auto intro: rtrancl_into_trancl2)
qed

theorem find_cycle_correct_witness:
  "\<exists>p. find_cycle [''a'', ''b''] [(''a'', [''b'']), (''b'', [''a''])] = Inr (Some p)
     \<and> closed_walk [(''a'', [''b'']), (''b'', [''a''])] p"
proof -
  have "declared [''a'', ''b''] [(''a'', [''b'']), (''b'', [''a''])]" by (simp add: declared_def)
  note correct = find_cycle_correct [OF this]
  have "find_cycle [''a'', ''b''] [(''a'', [''b'']), (''b'', [''a''])] = Inr (Some [''a'', ''b'', ''a''])"
    by (simp add: find_cycle_def lookup_def index_of_def)
  with correct show ?thesis by simp
qed

end
