(* ===== verification/Protocol.thy ===== *)
theory Protocol
  imports Cycles
begin

text \<open>
  \<open>protocol/messages.py\<close> and \<open>protocol/adapter.py\<close>: the contents of the messages, the table of expected
  replies, the outbound messages, the validation of a reply, the projection of an accepted plan onto records
  and the correction requests.

  Pydantic is not under \<open>src/\<close>: what it answers on an envelope and on a content is the record
  \<open>schemas\<close> of functions every parsing definition takes (\<open>sc_str\<close> is \<open>str\<close> of a JSON list or object, which
  only reaches error details). The rendering of its JSON schemas in the reminder of a correction request is
  the parameter \<open>digest\<close>.
\<close>

section \<open>Contents\<close>

record task_message =
  tm_task_id :: string
  tm_type :: task_type
  tm_cmd :: "string option"
  tm_critical :: "bool option"
  tm_continue_on_error :: "bool option"
  tm_stop_plan_on_failure :: "bool option"
  tm_stop_plan_on_success :: "bool option"
  tm_depends_on :: "string list"
  tm_resource_lock :: "string option"
  tm_max_output_bytes :: "int option"
  tm_timeout_ms :: "int option"
  tm_ref_task_id :: "string option"
  tm_stream :: "output_stream option"
  tm_byte_offset :: "int option"
  tm_max_bytes :: "int option"

record plan_content =
  pc_plan_id :: string
  pc_objective :: string
  pc_execution_policy :: execution_policy
  pc_max_parallel_workers :: "int option"
  pc_default_max_output_bytes :: "int option"
  pc_default_continue_on_error :: "bool option"
  pc_state_summary :: "details option"
  pc_tasks :: "task_message list"

record final_answer_content =
  fa_status :: string
  fa_diagnosis :: string
  fa_evidence :: "string list"
  fa_recommended_next_step :: "string option"
  fa_extra :: details

record user_response_content =
  ur_format :: string
  ur_body :: string
  ur_status :: string
  ur_expects_reply :: bool

record context_resume_ack_content =
  ack_original_conversation_id :: string
  ack_acknowledged :: bool

record envelope =
  en_type :: message_type
  en_conversation_id :: string
  en_message_id :: string
  en_content :: details

text \<open>The \<open>model_validator\<close> of a task; \<open>not x\<close> on an optional text is "absent or empty".\<close>

definition absent :: "string option \<Rightarrow> bool" where
  "absent x \<longleftrightarrow> x = None \<or> x = Some []"

definition shape_matches_type :: "task_message \<Rightarrow> exn + task_message" where
  "shape_matches_type t =
     (if tm_type t = CMD then
        if absent (tm_cmd t) \<or> strip (the (tm_cmd t)) = [] then Inl (ValueError ''a cmd task requires a non-empty cmd'')
        else if tm_ref_task_id t \<noteq> None \<or> tm_byte_offset t \<noteq> None \<or> tm_max_bytes t \<noteq> None
        then Inl (ValueError ''chunk fields are not allowed on a cmd task'')
        else Inr t
      else
        if tm_cmd t \<noteq> None then Inl (ValueError ''a chunk_request task must not carry a cmd'')
        else if absent (tm_ref_task_id t) then Inl (ValueError ''a chunk_request task requires ref_task_id'')
        else if tm_byte_offset t = None \<or> tm_max_bytes t = None
        then Inl (ValueError ''a chunk_request task requires byte_offset and max_bytes'')
        else Inr t)"

definition effective_stream :: "task_message \<Rightarrow> output_stream" where
  "effective_stream t = (case tm_stream t of None \<Rightarrow> STDOUT | Some s \<Rightarrow> s)"

section \<open>Expected replies\<close>

datatype outbound_situation =
  INITIAL_USER_REQUEST | FOLLOW_UP_USER_REQUEST | Sit_EXECUTION_RESULT | Sit_CONTEXT_RESUME_REQUEST

fun EXPECTED_INBOUND :: "outbound_situation \<Rightarrow> message_type set" where
  "EXPECTED_INBOUND INITIAL_USER_REQUEST = {DISCOVERY_PLAN}"
| "EXPECTED_INBOUND FOLLOW_UP_USER_REQUEST =
     {DISCOVERY_PLAN, EXECUTION_PLAN, PRIORITY_CLARIFICATION, FINAL_ANSWER, USER_RESPONSE}"
| "EXPECTED_INBOUND Sit_EXECUTION_RESULT = {EXECUTION_PLAN, PRIORITY_CLARIFICATION, FINAL_ANSWER, USER_RESPONSE}"
| "EXPECTED_INBOUND Sit_CONTEXT_RESUME_REQUEST = {CONTEXT_RESUME_ACK}"

definition expected_inbound_for :: "outbound_situation \<Rightarrow> bool \<Rightarrow> message_type set" where
  "expected_inbound_for situation allow_direct_response =
     (if situation = INITIAL_USER_REQUEST \<and> allow_direct_response
      then EXPECTED_INBOUND situation \<union> {USER_RESPONSE} else EXPECTED_INBOUND situation)"

definition last_substantive_outbound :: "message_record list \<Rightarrow> message_record option" where
  "last_substantive_outbound =
     find_last (\<lambda>m. m_direction m = OUTBOUND \<and> m_message_type m \<in> SUBSTANTIVE_OUTBOUND_MESSAGE_TYPES)"

definition situation_for :: "message_record \<Rightarrow> conversation_record \<Rightarrow> exn + outbound_situation" where
  "situation_for last_outbound conversation =
     (if m_direction last_outbound \<noteq> OUTBOUND then Inl (ValueError (m_message_id last_outbound @ '' is not an outbound message''))
      else case m_message_type last_outbound of
        USER_REQUEST \<Rightarrow> Inr (if c_final_answer_received conversation then FOLLOW_UP_USER_REQUEST else INITIAL_USER_REQUEST)
      | EXECUTION_RESULT \<Rightarrow> Inr Sit_EXECUTION_RESULT
      | CONTEXT_RESUME_REQUEST \<Rightarrow> Inr Sit_CONTEXT_RESUME_REQUEST
      | PROTOCOL_CORRECTION_REQUEST \<Rightarrow> Inl (ValueError ''protocol_correction_request sets no expectation'')
      | other \<Rightarrow> Inl (ValueError (message_type_value other @ '' is not an outbound message type'')))"

definition expected_inbound :: "bool \<Rightarrow> message_record option \<Rightarrow> conversation_record \<Rightarrow> exn + message_type set" where
  "expected_inbound allow_direct_response last_outbound conversation =
     (case last_outbound of
        None \<Rightarrow> Inr {}
      | Some m \<Rightarrow> bindR (situation_for m conversation) (\<lambda>s. Inr (expected_inbound_for s allow_direct_response)))"

section \<open>Helpers\<close>

definition all_message_types :: "message_type list" where
  "all_message_types = [USER_REQUEST, DISCOVERY_PLAN, EXECUTION_PLAN, PRIORITY_CLARIFICATION, EXECUTION_RESULT, FINAL_ANSWER,
     USER_RESPONSE, CONTEXT_RESUME_REQUEST, CONTEXT_RESUME_ACK, PROTOCOL_CORRECTION_REQUEST, Msg_CHUNK_REQUEST, Msg_SYSTEM_ERROR]"

definition sorted_values :: "message_type set \<Rightarrow> string list" where
  \<comment> \<open>\<open>sorted(m.value for m in types)\<close>\<close>
  "sorted_values types = sort (map message_type_value (filter (\<lambda>m. m \<in> types) all_message_types))"

definition peek_field :: "(json \<Rightarrow> string) \<Rightarrow> json \<Rightarrow> string \<Rightarrow> json" where
  "peek_field py_str raw key =
     (case raw of
        JObj d \<Rightarrow> (case dict_get d key of
            None \<Rightarrow> JNull
          | Some (JArr xs) \<Rightarrow> JStr (py_str (JArr xs))
          | Some (JObj kvs) \<Rightarrow> JStr (py_str (JObj kvs))
          | Some v \<Rightarrow> v)
      | _ \<Rightarrow> JNull)"

definition rejected_payload :: "json list \<Rightarrow> details" where
  "rejected_payload raw_messages =
     (case raw_messages of
        [JObj d] \<Rightarrow> d
      | [single] \<Rightarrow> [(''raw'', single)]
      | _ \<Rightarrow> [(''messages'', JArr raw_messages)])"

text \<open>One error of pydantic: the parts of its location, its type, its text.\<close>

record schema_error =
  se_loc :: "string list"
  se_type :: string
  se_msg :: string

definition error_loc :: "string \<Rightarrow> schema_error \<Rightarrow> string" where
  "error_loc prefix e =
     (let loc = join_with ''.'' (se_loc e)
      in if prefix = [] then loc else if loc = [] then prefix else prefix @ ''.'' @ loc)"

definition error_row :: "string \<Rightarrow> schema_error \<Rightarrow> string \<times> json" where
  "error_row prefix e = (error_loc prefix e,
     JObj [(''loc'', JStr (error_loc prefix e)), (''type'', JStr (se_type e)), (''msg'', JStr (se_msg e))])"

definition pydantic_errors :: "string \<Rightarrow> schema_error list \<Rightarrow> (string \<times> json) list" where
  "pydantic_errors prefix es = map (error_row prefix) es"

record schemas =
  sc_envelope :: "json \<Rightarrow> schema_error list + envelope"
  sc_plan :: "details \<Rightarrow> schema_error list + plan_content"
  sc_final_answer :: "details \<Rightarrow> schema_error list + final_answer_content"
  sc_user_response :: "details \<Rightarrow> schema_error list + user_response_content"
  sc_ack :: "details \<Rightarrow> schema_error list + context_resume_ack_content"
  sc_strict :: "message_type \<Rightarrow> string \<Rightarrow> schema_error list"
  sc_str :: "json \<Rightarrow> string"

section \<open>Validation of a reply\<close>

text \<open>The two passes of \<open>_validate_content\<close>: the default one, then the strict one on the canonical text.\<close>

definition validate_content :: "schemas \<Rightarrow> (details \<Rightarrow> schema_error list + 'a) \<Rightarrow> envelope \<Rightarrow> exn + 'a" where
  "validate_content sc parse e =
     (let first = parse (en_content e);
          errors = (case first of Inl es \<Rightarrow> pydantic_errors ''content'' es | Inr _ \<Rightarrow> []);
          strict = pydantic_errors ''content'' (sc_strict sc (en_type e) (canonical_json (JObj (en_content e))));
          all_errors = errors @ filter (\<lambda>row. fst row \<notin> fst ` set errors) strict;
          refusal = ProtocolError ''SCHEMA_INVALID'' [(''stage'', JStr ''content''),
            (''message_type'', JStr (message_type_value (en_type e))), (''message_id'', JStr (en_message_id e)),
            (''errors'', JArr (map snd all_errors))]
      in case first of
           Inl _ \<Rightarrow> Inl refusal
         | Inr content \<Rightarrow> if all_errors \<noteq> [] then Inl refusal else Inr content)"

fun check_task_ids :: "string \<Rightarrow> string set \<Rightarrow> task_message list \<Rightarrow> string list \<Rightarrow> exn + string list" where
  "check_task_ids plan_id known [] order = Inr order"
| "check_task_ids plan_id known (t # ts) order =
     (if tm_task_id t \<in> set order then Inl (ProtocolError ''DUPLICATE_TASK_ID''
        [(''task_id'', JStr (tm_task_id t)), (''plan_id'', JStr plan_id), (''scope'', JStr ''plan'')])
      else if tm_task_id t \<in> known then Inl (ProtocolError ''DUPLICATE_TASK_ID''
        [(''task_id'', JStr (tm_task_id t)), (''plan_id'', JStr plan_id), (''scope'', JStr ''session'')])
      else check_task_ids plan_id known ts (order @ [tm_task_id t]))"

fun check_dependencies :: "string \<Rightarrow> string set \<Rightarrow> string \<Rightarrow> string list \<Rightarrow> exn + unit" where
  "check_dependencies plan_id ids task_id [] = Inr ()"
| "check_dependencies plan_id ids task_id (d # ds) =
     (if d = task_id then Inl (ProtocolError ''SELF_DEPENDENCY'' [(''task_id'', JStr task_id), (''plan_id'', JStr plan_id)])
      else if d \<notin> ids then Inl (ProtocolError ''UNKNOWN_DEPENDENCY''
        [(''task_id'', JStr task_id), (''dependency'', JStr d), (''plan_id'', JStr plan_id)])
      else check_dependencies plan_id ids task_id ds)"

text \<open>The loop that fills \<open>deps\<close>.\<close>

fun collect_dependencies ::
  "string \<Rightarrow> string set \<Rightarrow> string set \<Rightarrow> task_message list \<Rightarrow> (string, string list) dict \<Rightarrow> exn + (string, string list) dict" where
  "collect_dependencies plan_id ids stored [] deps = Inr deps"
| "collect_dependencies plan_id ids stored (t # ts) deps =
     bindR (check_dependencies plan_id ids (tm_task_id t) (tm_depends_on t)) (\<lambda>_.
     if tm_type t = CHUNK_REQUEST \<and> (case tm_ref_task_id t of None \<Rightarrow> True | Some r \<Rightarrow> r \<notin> stored)
     then Inl (ProtocolError ''CHUNK_REF_UNKNOWN''
       [(''task_id'', JStr (tm_task_id t)), (''ref_task_id'', jstr_opt (tm_ref_task_id t)), (''plan_id'', JStr plan_id)])
     else collect_dependencies plan_id ids stored ts (dict_set (tm_task_id t) (tm_depends_on t) deps))"

definition check_sequential :: "plan_content \<Rightarrow> string list \<Rightarrow> exn + unit" where
  "check_sequential plan order =
     (case List.find (\<lambda>(t, d). index_of d order > index_of t order)
             (concat (map (\<lambda>t. map (\<lambda>d. (tm_task_id t, d)) (tm_depends_on t)) (pc_tasks plan))) of
        None \<Rightarrow> Inr ()
      | Some (t, d) \<Rightarrow> Inl (ProtocolError ''FORWARD_DEPENDENCY_IN_SEQUENTIAL''
          [(''task_id'', JStr t), (''dependency'', JStr d), (''plan_id'', JStr (pc_plan_id plan)),
           (''execution_policy'', JStr (execution_policy_value (pc_execution_policy plan)))]))"

definition resolve_continue_on_error :: "bool option \<Rightarrow> bool option \<Rightarrow> bool" where
  "resolve_continue_on_error own plan_default =
     (case own of Some b \<Rightarrow> b | None \<Rightarrow> (case plan_default of Some b \<Rightarrow> b | None \<Rightarrow> False))"

definition plan_warnings :: "plan_content \<Rightarrow> string list" where
  "plan_warnings plan =
     (if pc_execution_policy plan = PARALLEL \<and> pc_max_parallel_workers plan = None then [''DEFAULT_WORKERS_APPLIED''] else [])
     @ (if pc_execution_policy plan = SEQUENTIAL \<and> pc_max_parallel_workers plan \<noteq> None \<and> pc_max_parallel_workers plan \<noteq> Some 1
        then [''WORKERS_IGNORED_IN_SEQUENTIAL''] else [])
     @ map (\<lambda>t. ''CONTRADICTORY_FLAGS:'' @ tm_task_id t)
         (filter (\<lambda>t. tm_critical t = Some True
             \<and> resolve_continue_on_error (tm_continue_on_error t) (pc_default_continue_on_error plan)) (pc_tasks plan))"

text \<open>Raises, or returns the warnings.\<close>

definition validate_plan ::
  "payload_section \<Rightarrow> plan_content \<Rightarrow> string set \<Rightarrow> string set \<Rightarrow> string set \<Rightarrow> exn + string list" where
  "validate_plan cfg plan known_plan_ids known_task_ids stored =
     bindR (guardR (pc_plan_id plan \<notin> known_plan_ids) (ProtocolError ''DUPLICATE_PLAN_ID'' [(''plan_id'', JStr (pc_plan_id plan))])) (\<lambda>_.
     bindR (check_task_ids (pc_plan_id plan) known_task_ids (pc_tasks plan) []) (\<lambda>order.
     bindR (collect_dependencies (pc_plan_id plan) (set order) stored (pc_tasks plan) []) (\<lambda>deps.
     bindR (find_cycle order deps) (\<lambda>cycle.
     bindR (case cycle of None \<Rightarrow> Inr ()
            | Some p \<Rightarrow> Inl (ProtocolError ''DEPENDENCY_CYCLE''
                [(''cycle'', JArr (map JStr p)), (''plan_id'', JStr (pc_plan_id plan))])) (\<lambda>_.
     bindR (if pc_execution_policy plan = SEQUENTIAL then check_sequential plan order else Inr ()) (\<lambda>_.
     bindR (case pc_state_summary plan of None \<Rightarrow> Inr ()
            | Some d \<Rightarrow> guardR (int (size_bytes (JObj d)) \<le> y_max_state_summary_bytes cfg)
                (ProtocolError ''STATE_SUMMARY_TOO_LARGE'' [(''size_bytes'', JInt (int (size_bytes (JObj d)))),
                   (''max_bytes'', JInt (y_max_state_summary_bytes cfg)), (''plan_id'', JStr (pc_plan_id plan))])) (\<lambda>_.
     Inr (plan_warnings plan))))))))"

definition validate_user_response :: "payload_section \<Rightarrow> user_response_content \<Rightarrow> string \<Rightarrow> exn + unit" where
  "validate_user_response cfg response message_id =
     guardR (int (utf8_len (ur_body response)) \<le> y_max_message_bytes cfg)
       (ProtocolError ''USER_RESPONSE_TOO_LARGE'' [(''size_bytes'', JInt (int (utf8_len (ur_body response)))),
          (''max_bytes'', JInt (y_max_message_bytes cfg)), (''message_id'', JStr message_id)])"

definition validate_ack :: "context_resume_ack_content \<Rightarrow> string option \<Rightarrow> exn + unit" where
  "validate_ack ack expected_original =
     bindR (case expected_original of None \<Rightarrow> Inr ()
            | Some o_id \<Rightarrow> guardR (ack_original_conversation_id ack = o_id)
                (ProtocolError ''ACK_WRONG_ORIGINAL''
                   [(''received'', JStr (ack_original_conversation_id ack)), (''expected'', JStr o_id)])) (\<lambda>_.
     guardR (ack_acknowledged ack)
       (ProtocolError ''ACK_NOT_ACKNOWLEDGED'' [(''original_conversation_id'', JStr (ack_original_conversation_id ack))]))"

datatype inbound_content =
  Plan_content plan_content | Final_answer final_answer_content | User_response user_response_content
  | Resume_ack context_resume_ack_content

record inbound_message =
  im_envelope :: envelope
  im_content :: inbound_content
  im_message_type :: message_type
  im_plan_type :: "plan_type option"
  im_warnings :: "string list"
  im_size_bytes :: int

text \<open>What the caller knows of the session.\<close>

record known_ids =
  kn_message_ids :: "string set"
  kn_plan_ids :: "string set"
  kn_task_ids :: "string set"
  kn_stored_output_task_ids :: "string set"
  kn_expected_original :: "string option"

definition parse_content ::
  "schemas \<Rightarrow> payload_section \<Rightarrow> known_ids \<Rightarrow> envelope \<Rightarrow> exn + inbound_content \<times> plan_type option \<times> string list" where
  "parse_content sc cfg known e =
     (if en_type e \<in> PLAN_MESSAGE_TYPES then
        bindR (validate_content sc (sc_plan sc) e) (\<lambda>plan.
        bindR (validate_plan cfg plan (kn_plan_ids known) (kn_task_ids known) (kn_stored_output_task_ids known)) (\<lambda>warnings.
        Inr (Plan_content plan, plan_type_for_message (en_type e), warnings)))
      else if en_type e = FINAL_ANSWER then
        bindR (validate_content sc (sc_final_answer sc) e) (\<lambda>c. Inr (Final_answer c, None, []))
      else if en_type e = USER_RESPONSE then
        bindR (validate_content sc (sc_user_response sc) e) (\<lambda>c.
        bindR (validate_user_response cfg c (en_message_id e)) (\<lambda>_. Inr (User_response c, None, [])))
      else
        bindR (validate_content sc (sc_ack sc) e) (\<lambda>c.
        bindR (validate_ack c (kn_expected_original known)) (\<lambda>_. Inr (Resume_ack c, None, []))))"

definition check_type :: "message_type set \<Rightarrow> envelope \<Rightarrow> exn + unit" where
  "check_type expected e =
     (if en_type e \<notin> INBOUND_MESSAGE_TYPES then
        Inl (ProtocolError (if en_type e = Msg_SYSTEM_ERROR then ''SYSTEM_ERROR_NOT_ALLOWED_INBOUND'' else ''UNEXPECTED_MESSAGE_TYPE'')
          [(''received'', JStr (message_type_value (en_type e))), (''expected'', JArr (map JStr (sorted_values expected))),
           (''inbound'', JBool False), (''message_id'', JStr (en_message_id e))])
      else if en_type e \<notin> expected then
        Inl (ProtocolError ''UNEXPECTED_MESSAGE_TYPE''
          [(''received'', JStr (message_type_value (en_type e))), (''expected'', JArr (map JStr (sorted_values expected))),
           (''inbound'', JBool True), (''message_id'', JStr (en_message_id e))])
      else Inr ())"

definition parse_inbound ::
  "schemas \<Rightarrow> payload_section \<Rightarrow> json list \<Rightarrow> message_type set \<Rightarrow> conversation_record \<Rightarrow> known_ids \<Rightarrow> exn + inbound_message" where
  "parse_inbound sc cfg raw_messages expected conversation known =
     (case raw_messages of
        [] \<Rightarrow> Inl (ProtocolError ''EMPTY_REPLY'' [(''expected'', JInt 1), (''received'', JInt 0)])
      | [raw] \<Rightarrow>
          bindR (case sc_envelope sc raw of
                   Inr e \<Rightarrow> Inr e
                 | Inl es \<Rightarrow> Inl (ProtocolError ''SCHEMA_INVALID'' [(''stage'', JStr ''envelope''),
                     (''message_type'', peek_field (sc_str sc) raw ''type''),
                     (''errors'', JArr (map snd (pydantic_errors [] es)))])) (\<lambda>e.
          bindR (guardR (en_conversation_id e = known_remote_id conversation)
            (ProtocolError ''CONVERSATION_MISMATCH'' [(''received'', JStr (en_conversation_id e)),
               (''expected'', JStr (known_remote_id conversation)), (''message_id'', JStr (en_message_id e))])) (\<lambda>_.
          bindR (guardR (en_message_id e \<notin> kn_message_ids known)
            (ProtocolError ''DUPLICATE_MESSAGE_ID'' [(''message_id'', JStr (en_message_id e))])) (\<lambda>_.
          bindR (check_type expected e) (\<lambda>_.
          bindR (parse_content sc cfg known e) (\<lambda>(content, plan_type, warnings).
          Inr \<lparr>im_envelope = e, im_content = content, im_message_type = en_type e, im_plan_type = plan_type,
            im_warnings = warnings, im_size_bytes = int (size_bytes raw)\<rparr>)))))
      | _ \<Rightarrow> Inl (ProtocolError ''UNEXPECTED_EXTRA_MESSAGE'' [(''expected'', JInt 1), (''received'', JInt (int (length raw_messages))),
          (''message_ids'', JArr (map (\<lambda>m. peek_field (sc_str sc) m ''message_id'') raw_messages)),
          (''types'', JArr (map (\<lambda>m. peek_field (sc_str sc) m ''type'') raw_messages))]))"

section \<open>From an accepted plan to its records\<close>

text \<open>\<open>config.ExecutionSection\<close>, the numbers and switches the modelled code reads.\<close>

record execution_section =
  x_default_task_timeout_ms :: int
  x_max_task_timeout_ms :: int
  x_cancel_drain_timeout_ms :: int
  x_interrupt_drain_timeout_ms :: int
  x_verdict_programs :: "string list"

definition first_set :: "'a option \<Rightarrow> 'a option \<Rightarrow> 'a \<Rightarrow> 'a" where
  \<comment> \<open>the first value that is not \<open>None\<close>, else the default\<close>
  "first_set a b c = (case a of Some x \<Rightarrow> x | None \<Rightarrow> (case b of Some x \<Rightarrow> x | None \<Rightarrow> c))"

definition new_task_record :: "string \<Rightarrow> plan_record \<Rightarrow> int \<Rightarrow> task_type \<Rightarrow> time \<Rightarrow> task_record" where
  \<comment> \<open>a pending \<open>TaskRecord\<close> with the defaults of the model class\<close>
  "new_task_record task_id plan index ty now =
     \<lparr>t_task_id = task_id, t_plan_id = p_plan_id plan, t_session_id = p_session_id plan,
      t_conversation_id = p_conversation_id plan, t_order_index = index, t_type = ty, t_cmd = None,
      t_status = Task_PENDING, t_critical = False, t_continue_on_error = False, t_stop_plan_on_failure = False,
      t_stop_plan_on_success = False, t_stops_plan_on_failure = True, t_depends_on = [], t_resource_lock = None,
      t_max_output_bytes = None, t_max_output_bytes_applied = None, t_timeout_ms = None, t_timeout_ms_applied = None,
      t_ref_task_id = None, t_stream = None, t_byte_offset = None, t_max_bytes = None, t_attempt_count = 0,
      t_exit_code = None, t_timed_out = False, t_stdout_ref = None, t_stderr_ref = None, t_truncated = False,
      t_original_size_bytes = None, t_stdout_total = None, t_stderr_total = None, t_stdout_range = None,
      t_stderr_range = None, t_reason = None, t_pid = None, t_process_group_id = None, t_started_at = None,
      t_ended_at = None, t_duration_ms = None, t_created_at = now, t_updated_at = now\<rparr>"

definition build_task_record ::
  "payload_section \<Rightarrow> execution_section \<Rightarrow> task_message \<Rightarrow> int \<Rightarrow> plan_record \<Rightarrow> time \<Rightarrow> bool option \<Rightarrow> task_record" where
  "build_task_record cfg ex task index plan now default_continue_on_error =
     (let critical = (tm_critical task = Some True);
          continue_on_error = resolve_continue_on_error (tm_continue_on_error task) default_continue_on_error;
          stop_plan_on_failure = (tm_stop_plan_on_failure task = Some True);
          declared_budget = first_set (tm_max_output_bytes task) (p_default_max_output_bytes plan) (y_default_max_output_bytes cfg);
          declared_max = min (first_set (tm_max_bytes task) None (y_hard_max_output_bytes cfg)) (y_hard_max_output_bytes cfg);
          chunk_max = (case tm_max_output_bytes task of None \<Rightarrow> declared_max | Some b \<Rightarrow> min declared_max b);
          chunk = (tm_type task = CHUNK_REQUEST)
      in (new_task_record (tm_task_id task) plan index (tm_type task) now)
           \<lparr>t_cmd := tm_cmd task, t_critical := critical, t_continue_on_error := continue_on_error,
            t_stop_plan_on_failure := stop_plan_on_failure,
            t_stop_plan_on_success := (tm_stop_plan_on_success task = Some True),
            t_stops_plan_on_failure := (critical \<or> stop_plan_on_failure \<or> \<not> continue_on_error),
            t_depends_on := tm_depends_on task, t_resource_lock := tm_resource_lock task,
            t_max_output_bytes := tm_max_output_bytes task,
            t_max_output_bytes_applied := Some (if chunk then chunk_max else min declared_budget (y_hard_max_output_bytes cfg)),
            t_timeout_ms := tm_timeout_ms task,
            t_timeout_ms_applied := (if chunk then None
               else Some (min (first_set (tm_timeout_ms task) None (x_default_task_timeout_ms ex)) (x_max_task_timeout_ms ex))),
            t_ref_task_id := tm_ref_task_id task,
            t_stream := (if chunk then Some (effective_stream task) else None),
            t_byte_offset := tm_byte_offset task,
            t_max_bytes := (if chunk then Some chunk_max else None)\<rparr>)"

definition build_plan_record ::
  "plan_content \<Rightarrow> plan_type \<Rightarrow> session_record \<Rightarrow> conversation_record \<Rightarrow> string \<Rightarrow> time \<Rightarrow> plan_record" where
  "build_plan_record plan ty session conversation cycle_id now =
     \<lparr>p_plan_id = pc_plan_id plan, p_session_id = s_session_id session, p_conversation_id = c_conversation_id conversation,
      p_cycle_id = cycle_id, p_plan_type = ty, p_objective = pc_objective plan,
      p_execution_policy = pc_execution_policy plan,
      p_max_parallel_workers = (if pc_execution_policy plan = PARALLEL
         then (case pc_max_parallel_workers plan of None \<Rightarrow> 1 | Some n \<Rightarrow> if n = 0 then 1 else n) else 1),
      p_status = Plan_PENDING, p_stop_reason = None, p_task_count = int (length (pc_tasks plan)),
      p_completed_task_count = 0, p_failed_task_count = 0, p_skipped_task_count = 0, p_cancelled_task_count = 0,
      p_interrupted_task_count = 0, p_default_max_output_bytes = pc_default_max_output_bytes plan,
      p_state_summary = pc_state_summary plan, p_started_at = None, p_ended_at = None,
      p_created_at = now, p_updated_at = now\<rparr>"

definition plan_to_records ::
  "payload_section \<Rightarrow> execution_section \<Rightarrow> inbound_message \<Rightarrow> session_record \<Rightarrow> conversation_record \<Rightarrow> string \<Rightarrow> time
   \<Rightarrow> exn + plan_record \<times> task_record list" where
  "plan_to_records cfg ex inbound session conversation cycle_id now =
     (case (im_plan_type inbound, im_content inbound) of
        (Some ty, Plan_content plan) \<Rightarrow>
          let rec = build_plan_record plan ty session conversation cycle_id now
          in Inr (rec, map (\<lambda>(index, task). build_task_record cfg ex task index rec now (pc_default_continue_on_error plan))
                (zip (map int [0..<length (pc_tasks plan)]) (pc_tasks plan)))
      | _ \<Rightarrow> Inl (ValueError (message_type_value (im_message_type inbound) @ '' carries no plan'')))"

section \<open>What an accepted plan satisfies\<close>

definition task_ids :: "plan_content \<Rightarrow> string list" where
  "task_ids plan = map tm_task_id (pc_tasks plan)"

definition plan_edges :: "plan_content \<Rightarrow> (string \<times> string) set" where
  "plan_edges plan = {(tm_task_id t, d) | t d. t \<in> set (pc_tasks plan) \<and> d \<in> set (tm_depends_on t)}"

definition declared_before :: "plan_content \<Rightarrow> bool" where
  "declared_before plan \<longleftrightarrow>
     list_all (\<lambda>i. set (tm_depends_on (pc_tasks plan ! i)) \<subseteq> set (take i (task_ids plan))) [0..<length (pc_tasks plan)]"

text \<open>The rules of ADR-007 and ADR-005, as a predicate: what \<open>validate_plan\<close> decides.\<close>

definition executable_plan :: "payload_section \<Rightarrow> plan_content \<Rightarrow> string set \<Rightarrow> string set \<Rightarrow> string set \<Rightarrow> bool" where
  "executable_plan cfg plan known_plan_ids known_task_ids stored \<longleftrightarrow>
     pc_plan_id plan \<notin> known_plan_ids
   \<and> distinct (task_ids plan) \<and> list_all (\<lambda>x. x \<notin> known_task_ids) (task_ids plan)
   \<and> list_all (\<lambda>t. set (tm_depends_on t) \<subseteq> set (task_ids plan)) (pc_tasks plan)
   \<and> acyclic (plan_edges plan)
   \<and> list_all (\<lambda>t. tm_type t \<noteq> CHUNK_REQUEST \<or> tm_ref_task_id t \<in> Some ` stored) (pc_tasks plan)
   \<and> (pc_execution_policy plan = PARALLEL \<or> declared_before plan)
   \<and> (case pc_state_summary plan of None \<Rightarrow> True | Some d \<Rightarrow> int (size_bytes (JObj d)) \<le> y_max_state_summary_bytes cfg)"

definition protocol_error :: "exn \<Rightarrow> bool" where
  "protocol_error e \<longleftrightarrow> (\<exists>code d. e = ProtocolError code d)"

lemma protocol_errorI [simp]: "protocol_error (ProtocolError code d)"
  by (auto simp: protocol_error_def)

lemma check_task_ids_cases:
  "case check_task_ids pid known ts order of
     Inl e \<Rightarrow> protocol_error e \<and> \<not> (distinct (order @ map tm_task_id ts) \<and> list_all (\<lambda>t. tm_task_id t \<notin> known) ts)
   | Inr all_ids \<Rightarrow> all_ids = order @ map tm_task_id ts \<and> (distinct order \<longrightarrow> distinct all_ids) \<and> list_all (\<lambda>t. tm_task_id t \<notin> known) ts"
  by (induction pid known ts order rule: check_task_ids.induct) (auto split: sum.splits)

lemma check_dependencies_cases:
  "case check_dependencies pid known x ds of
     Inl e \<Rightarrow> protocol_error e \<and> \<not> (x \<notin> set ds \<and> set ds \<subseteq> known)
   | Inr _ \<Rightarrow> x \<notin> set ds \<and> set ds \<subseteq> known"
  by (induction ds) (auto split: sum.splits)

definition dependencies_ok :: "string set \<Rightarrow> string set \<Rightarrow> task_message list \<Rightarrow> bool" where
  "dependencies_ok ids stored ts \<longleftrightarrow>
     list_all (\<lambda>t. set (tm_depends_on t) \<subseteq> ids \<and> tm_task_id t \<notin> set (tm_depends_on t)
       \<and> (tm_type t \<noteq> CHUNK_REQUEST \<or> tm_ref_task_id t \<in> Some ` stored)) ts"

lemma chunk_ref_unknown:
  "(case r of None \<Rightarrow> True | Some x \<Rightarrow> x \<notin> stored) \<longleftrightarrow> r \<notin> Some ` stored"
  by (cases r) auto

lemma collect_dependencies_cases:
  "case collect_dependencies pid own stored ts deps of
     Inl e \<Rightarrow> protocol_error e \<and> \<not> dependencies_ok own stored ts
   | Inr deps' \<Rightarrow> dependencies_ok own stored ts \<and> deps' = fold (\<lambda>t. dict_set (tm_task_id t) (tm_depends_on t)) ts deps"
proof (induction ts arbitrary: deps)
  case (Cons t ts)
  show ?case
    using check_dependencies_cases [where pid = pid and known = own and x = "tm_task_id t" and ds = "tm_depends_on t"]
      Cons.IH [of "dict_set (tm_task_id t) (tm_depends_on t) deps"]
    by (auto simp: dependencies_ok_def chunk_ref_unknown split: sum.splits)
qed (simp add: dependencies_ok_def)

lemma collected_other:
  "x \<notin> tm_task_id ` set ts \<Longrightarrow>
    dict_get (fold (\<lambda>t. dict_set (tm_task_id t) (tm_depends_on t)) ts deps) x = dict_get deps x"
  by (induction ts arbitrary: deps) auto

lemma collected_task:
  "distinct (map tm_task_id ts) \<Longrightarrow> t \<in> set ts \<Longrightarrow>
    dict_get (fold (\<lambda>t. dict_set (tm_task_id t) (tm_depends_on t)) ts deps) (tm_task_id t) = Some (tm_depends_on t)"
  by (induction ts arbitrary: deps) (auto simp: collected_other)

lemma collected_edges:
  assumes "distinct (task_ids plan)"
  shows "depends (fold (\<lambda>t. dict_set (tm_task_id t) (tm_depends_on t)) (pc_tasks plan) []) = plan_edges plan"
proof -
  let ?deps = "fold (\<lambda>t. dict_set (tm_task_id t) (tm_depends_on t)) (pc_tasks plan) []"
  have d: "distinct (map tm_task_id (pc_tasks plan))" using assms by (simp add: task_ids_def)
  have "(x, y) \<in> depends ?deps \<longleftrightarrow> (x, y) \<in> plan_edges plan" for x y
  proof (cases "x \<in> tm_task_id ` set (pc_tasks plan)")
    case True
    then obtain t where t: "t \<in> set (pc_tasks plan)" "x = tm_task_id t" by blast
    have "s = t" if "s \<in> set (pc_tasks plan)" "tm_task_id s = tm_task_id t" for s
      using d t that by (metis distinct_map inj_onD)
    then show ?thesis using t collected_task [OF d t(1)] by (auto simp: depends_def plan_edges_def)
  qed (auto simp: depends_def plan_edges_def collected_other)
  then show ?thesis by auto
qed

lemma collected_declared:
  assumes "distinct (task_ids plan)" and "dependencies_ok (set (task_ids plan)) stored (pc_tasks plan)"
  shows "declared (task_ids plan) (fold (\<lambda>t. dict_set (tm_task_id t) (tm_depends_on t)) (pc_tasks plan) [])"
  using assms collected_task [of "pc_tasks plan"]
  by (fastforce simp: declared_def task_ids_def dependencies_ok_def list_all_iff)

lemma acyclic_plan:
  assumes "distinct (task_ids plan)"
  shows "acyclic (plan_edges plan) \<longleftrightarrow> list_all (\<lambda>x. (x, x) \<notin> (plan_edges plan)\<^sup>+) (task_ids plan)"
proof -
  have "x \<in> set (task_ids plan)" if "(x, y) \<in> (plan_edges plan)\<^sup>+" for x y
    using that by (induction rule: trancl_induct) (auto simp: plan_edges_def task_ids_def)
  then show ?thesis by (auto simp: acyclic_def list_all_iff)
qed

text \<open>Sequential order: the position of a dependency is below that of the task.\<close>

lemma index_of_nth: "distinct xs \<Longrightarrow> i < length xs \<Longrightarrow> index_of (xs ! i) xs = i"
proof (induction xs arbitrary: i)
  case (Cons a xs)
  then show ?case by (cases i) (auto simp: index_of_def)
qed simp

lemma index_of_less: "x \<in> set xs \<Longrightarrow> index_of x xs < n \<longleftrightarrow> x \<in> set (take n xs)"
proof (induction xs arbitrary: n)
  case (Cons a xs)
  then show ?case by (cases n) (auto simp: index_of_def)
qed simp

lemma declared_before_index:
  assumes "distinct (task_ids plan)" and "dependencies_ok (set (task_ids plan)) stored (pc_tasks plan)"
  shows "declared_before plan \<longleftrightarrow>
    (\<forall>t \<in> set (pc_tasks plan). \<forall>d \<in> set (tm_depends_on t). index_of d (task_ids plan) \<le> index_of (tm_task_id t) (task_ids plan))"
proof -
  let ?ids = "task_ids plan"
  have own: "index_of (tm_task_id (pc_tasks plan ! i)) ?ids = i" if "i < length (pc_tasks plan)" for i
    using index_of_nth [OF assms(1), of i] that by (simp add: task_ids_def)
  have strict: "d \<in> set (take i ?ids) \<longleftrightarrow> index_of d ?ids \<le> i"
    if "i < length (pc_tasks plan)" and "d \<in> set (tm_depends_on (pc_tasks plan ! i))" for i d
  proof -
    have d: "d \<in> set ?ids" "d \<noteq> tm_task_id (pc_tasks plan ! i)"
      using assms(2) that nth_mem [OF that(1)] by (auto simp: dependencies_ok_def list_all_iff)
    then have "index_of d ?ids \<noteq> i"
    proof -
      from d(1) obtain j where "j < length ?ids" "d = ?ids ! j" by (metis in_set_conv_nth)
      then have "index_of d ?ids = j" using index_of_nth [OF assms(1)] by simp
      then show ?thesis using d(2) \<open>d = ?ids ! j\<close> that(1) by (auto simp: task_ids_def)
    qed
    then show ?thesis using index_of_less [OF d(1), of i] by auto
  qed
  show ?thesis
    unfolding declared_before_def list_all_iff all_set_conv_all_nth [of "pc_tasks plan"]
    using strict own by (auto simp: subset_iff)
qed

lemma check_sequential_cases:
  assumes "distinct (task_ids plan)" and "dependencies_ok (set (task_ids plan)) stored (pc_tasks plan)"
  shows "case check_sequential plan (task_ids plan) of
    Inl e \<Rightarrow> protocol_error e \<and> \<not> declared_before plan | Inr _ \<Rightarrow> declared_before plan"
proof -
  let ?pairs = "concat (map (\<lambda>t. map (\<lambda>d. (tm_task_id t, d)) (tm_depends_on t)) (pc_tasks plan))"
  let ?late = "\<lambda>(t, d). index_of d (task_ids plan) > index_of t (task_ids plan)"
  have "declared_before plan \<longleftrightarrow> (\<forall>p \<in> set ?pairs. \<not> ?late p)"
    unfolding declared_before_index [OF assms] by (force simp: not_less)
  moreover have "List.find ?late ?pairs = None \<longleftrightarrow> (\<forall>p \<in> set ?pairs. \<not> ?late p)"
    unfolding find_None_iff by blast
  ultimately have "declared_before plan \<longleftrightarrow> List.find ?late ?pairs = None" by simp
  then show ?thesis
    unfolding check_sequential_def by (cases "List.find ?late ?pairs") auto
qed

lemma find_cycle_accepted:
  assumes "distinct (task_ids plan)" and "dependencies_ok (set (task_ids plan)) stored (pc_tasks plan)"
    and "deps = fold (\<lambda>t. dict_set (tm_task_id t) (tm_depends_on t)) (pc_tasks plan) []"
  shows "\<exists>cycle. find_cycle (task_ids plan) deps = Inr cycle \<and> (cycle = None \<longleftrightarrow> acyclic (plan_edges plan))"
proof -
  have decl: "declared (task_ids plan) deps" using collected_declared [OF assms(1,2)] assms(3) by simp
  have edges: "depends deps = plan_edges plan" using collected_edges [OF assms(1)] assms(3) by simp
  show ?thesis
    using find_cycle_sound [OF decl] closed_walk_cycle [of deps] unfolding acyclic_plan [OF assms(1)] edges
    by (fastforce simp: edges acyclic_plan [OF assms(1), symmetric] acyclic_def split: sum.splits option.splits)
qed

lemma executable_plan_iff:
  "executable_plan cfg plan known_plan_ids known_task_ids stored \<longleftrightarrow>
     pc_plan_id plan \<notin> known_plan_ids
   \<and> (distinct (task_ids plan) \<and> list_all (\<lambda>t. tm_task_id t \<notin> known_task_ids) (pc_tasks plan))
   \<and> dependencies_ok (set (task_ids plan)) stored (pc_tasks plan)
   \<and> acyclic (plan_edges plan)
   \<and> (pc_execution_policy plan \<noteq> SEQUENTIAL \<or> declared_before plan)
   \<and> (case pc_state_summary plan of None \<Rightarrow> True | Some d \<Rightarrow> int (size_bytes (JObj d)) \<le> y_max_state_summary_bytes cfg)"
proof -
  have "tm_task_id t \<notin> set (tm_depends_on t)" if "acyclic (plan_edges plan)" and "t \<in> set (pc_tasks plan)" for t
    using that by (auto simp: acyclic_def plan_edges_def intro: r_into_trancl)
  moreover have "list_all (\<lambda>x. x \<notin> known_task_ids) (task_ids plan) \<longleftrightarrow> list_all (\<lambda>t. tm_task_id t \<notin> known_task_ids) (pc_tasks plan)"
    by (simp add: task_ids_def list_all_iff)
  moreover have "pc_execution_policy plan = PARALLEL \<longleftrightarrow> pc_execution_policy plan \<noteq> SEQUENTIAL"
    by (cases "pc_execution_policy plan") auto
  ultimately show ?thesis
    unfolding executable_plan_def dependencies_ok_def list_all_iff by blast
qed

lemma validate_plan_cases:
  "case validate_plan cfg plan known_plan_ids known_task_ids stored of
     Inl e \<Rightarrow> protocol_error e \<and> \<not> executable_plan cfg plan known_plan_ids known_task_ids stored
   | Inr warnings \<Rightarrow> executable_plan cfg plan known_plan_ids known_task_ids stored \<and> warnings = plan_warnings plan"
proof (cases "pc_plan_id plan \<in> known_plan_ids")
  case new: False
  note ids = check_task_ids_cases [where pid = "pc_plan_id plan" and known = known_task_ids and ts = "pc_tasks plan" and order = "[]"]
  show ?thesis
  proof (cases "check_task_ids (pc_plan_id plan) known_task_ids (pc_tasks plan) []")
    case (Inr order)
    then have order: "order = task_ids plan" and dist: "distinct (task_ids plan)"
      and unknown: "list_all (\<lambda>t. tm_task_id t \<notin> known_task_ids) (pc_tasks plan)"
      using ids by (auto simp: task_ids_def)
    note deps = collect_dependencies_cases [where pid = "pc_plan_id plan" and own = "set (task_ids plan)"
      and stored = stored and ts = "pc_tasks plan" and deps = "[]"]
    show ?thesis
    proof (cases "collect_dependencies (pc_plan_id plan) (set (task_ids plan)) stored (pc_tasks plan) []")
      case (Inl e)
      with deps show ?thesis using new Inr order by (simp add: validate_plan_def executable_plan_iff)
    next
      case collected: (Inr deps')
      then have ok: "dependencies_ok (set (task_ids plan)) stored (pc_tasks plan)"
        and "deps' = fold (\<lambda>t. dict_set (tm_task_id t) (tm_depends_on t)) (pc_tasks plan) []" using deps by auto
      from find_cycle_accepted [OF dist this] obtain cycle where
        cycle: "find_cycle (task_ids plan) deps' = Inr cycle" "cycle = None \<longleftrightarrow> acyclic (plan_edges plan)" by blast
      show ?thesis
        using new Inr order collected cycle dist unknown ok check_sequential_cases [OF dist ok]
        by (cases cycle; cases "pc_state_summary plan")
          (auto simp: validate_plan_def executable_plan_iff guardR_def split: sum.splits)
    qed
  qed (use new ids in \<open>auto simp: validate_plan_def executable_plan_iff task_ids_def\<close>)
qed (simp add: validate_plan_def executable_plan_iff)

text \<open>
  C36. A plan is accepted exactly when it can be executed: \<open>validate_plan\<close> raises a \<open>ProtocolError\<close>, and no
  other exception, on every plan whose ids are not new and distinct, whose dependencies are undeclared, cyclic or
  (in sequential mode) declared later, whose chunk references are not stored or whose summary is too large; on
  every other plan it returns, with the warnings of ADR-009 and nothing else.
\<close>

theorem validate_plan_decides:
  "case validate_plan cfg plan known_plan_ids known_task_ids stored of
     Inl e \<Rightarrow> protocol_error e \<and> \<not> executable_plan cfg plan known_plan_ids known_task_ids stored
   | Inr warnings \<Rightarrow> executable_plan cfg plan known_plan_ids known_task_ids stored \<and> warnings = plan_warnings plan"
  by (rule validate_plan_cases)

lemma validate_content_Inl: "validate_content sc parse e = Inl x \<Longrightarrow> protocol_error x"
  by (auto simp: validate_content_def Let_def split: sum.splits if_splits)

lemma validate_content_Inr: "validate_content sc parse e = Inr c \<Longrightarrow> parse (en_content e) = Inr c"
  by (auto simp: validate_content_def Let_def split: sum.splits if_splits)

lemma validate_plan_Inl: "validate_plan cfg plan kp kt stored = Inl x \<Longrightarrow> protocol_error x"
  using validate_plan_cases [of cfg plan kp kt stored] by simp

lemma validate_plan_Inr: "validate_plan cfg plan kp kt stored = Inr w \<Longrightarrow> executable_plan cfg plan kp kt stored"
  using validate_plan_cases [of cfg plan kp kt stored] by simp

lemma validate_user_response_Inl: "validate_user_response cfg r i = Inl x \<Longrightarrow> protocol_error x"
  by (simp add: validate_user_response_def)

lemma validate_ack_Inl: "validate_ack a orig = Inl x \<Longrightarrow> protocol_error x"
  by (auto simp: validate_ack_def bindR_Inl_iff split: option.splits)

lemma parse_content_Inl: "parse_content sc cfg known e = Inl x \<Longrightarrow> protocol_error x"
  by (auto simp: parse_content_def bindR_Inl_iff split: if_splits
      dest: validate_content_Inl validate_plan_Inl validate_user_response_Inl validate_ack_Inl)

lemma check_type_Inl: "check_type expected e = Inl x \<Longrightarrow> protocol_error x"
  by (auto simp: check_type_def split: if_splits)

text \<open>
  C38. Every fault of a reply is a \<open>ProtocolError\<close>: whatever the model sent (no message, several, a bare
  string, a plan with a broken dependency), \<open>parse_inbound\<close> raises no other exception.
\<close>

theorem parse_inbound_raises_protocol_errors:
  "case parse_inbound sc cfg raws expected conversation known of Inl e \<Rightarrow> protocol_error e | Inr _ \<Rightarrow> True"
  by (auto simp: parse_inbound_def bindR_Inl_iff split: sum.split list.splits
      dest!: parse_content_Inl check_type_Inl)

text \<open>What a content must satisfy, by type.\<close>

fun content_ok :: "payload_section \<Rightarrow> known_ids \<Rightarrow> message_type \<Rightarrow> plan_type option \<Rightarrow> inbound_content \<Rightarrow> bool" where
  "content_ok cfg known ty plan_type (Plan_content plan) \<longleftrightarrow>
     ty \<in> PLAN_MESSAGE_TYPES \<and> plan_type = plan_type_for_message ty \<and> plan_type \<noteq> None
   \<and> executable_plan cfg plan (kn_plan_ids known) (kn_task_ids known) (kn_stored_output_task_ids known)"
| "content_ok cfg known ty plan_type (Final_answer _) \<longleftrightarrow> ty = FINAL_ANSWER \<and> plan_type = None"
| "content_ok cfg known ty plan_type (User_response r) \<longleftrightarrow>
     ty = USER_RESPONSE \<and> plan_type = None \<and> int (utf8_len (ur_body r)) \<le> y_max_message_bytes cfg"
| "content_ok cfg known ty plan_type (Resume_ack a) \<longleftrightarrow>
     ty = CONTEXT_RESUME_ACK \<and> plan_type = None \<and> ack_acknowledged a
   \<and> kn_expected_original known \<in> {None, Some (ack_original_conversation_id a)}"

lemma plan_type_known: "ty \<in> PLAN_MESSAGE_TYPES \<Longrightarrow> plan_type_for_message ty \<noteq> None"
  by (auto simp: PLAN_MESSAGE_TYPES_def)

lemma parse_content_Inr:
  assumes "parse_content sc cfg known e = Inr (content, plan_type, warnings)" and "en_type e \<in> INBOUND_MESSAGE_TYPES"
  shows "content_ok cfg known (en_type e) plan_type content"
  using assms plan_type_known [of "en_type e"]
  by (cases "kn_expected_original known") (auto simp: parse_content_def validate_user_response_def validate_ack_def INBOUND_MESSAGE_TYPES_def
      split: if_splits option.splits dest!: validate_plan_Inr)

lemma accepted_replyD:
  assumes "parse_inbound sc cfg raws expected conversation known = Inr im"
  shows "\<exists>raw e. raws = [raw] \<and> sc_envelope sc raw = Inr e \<and> im_envelope im = e \<and> im_message_type im = en_type e
    \<and> im_size_bytes im = int (size_bytes raw)
    \<and> en_type e \<in> expected \<inter> INBOUND_MESSAGE_TYPES \<and> en_conversation_id e = known_remote_id conversation
    \<and> en_message_id e \<notin> kn_message_ids known
    \<and> content_ok cfg known (en_type e) (im_plan_type im) (im_content im)"
  using assms by (auto simp: parse_inbound_def check_type_def split: list.splits sum.splits if_splits dest: parse_content_Inr)

text \<open>
  C37. A reply that is accepted is exactly one message that the table allows at this point: its type is an
  inbound type of the expected set, it names this conversation, its id is new, its recorded size is that of the
  raw message, and its content satisfies the rules of its type: an executable plan, a bounded response, or
  an acknowledgement of the right conversation.
\<close>

theorem accepted_reply:
  assumes "parse_inbound sc cfg raws expected conversation known = Inr im"
  shows "\<exists>raw e. raws = [raw] \<and> sc_envelope sc raw = Inr e \<and> im_envelope im = e \<and> im_message_type im = en_type e
    \<and> im_size_bytes im = int (size_bytes raw)
    \<and> en_type e \<in> expected \<inter> INBOUND_MESSAGE_TYPES \<and> en_conversation_id e = known_remote_id conversation
    \<and> en_message_id e \<notin> kn_message_ids known
    \<and> content_ok cfg known (en_type e) (im_plan_type im) (im_content im)"
  using accepted_replyD [OF assms] .

definition sample_schemas :: "envelope \<Rightarrow> plan_content \<Rightarrow> schemas" where
  \<comment> \<open>schemas that read one envelope and one plan, for the witnesses\<close>
  "sample_schemas e plan = \<lparr>sc_envelope = \<lambda>_. Inr e, sc_plan = \<lambda>_. Inr plan,
     sc_final_answer = \<lambda>_. Inl [], sc_user_response = \<lambda>_. Inl [], sc_ack = \<lambda>_. Inl [],
     sc_strict = \<lambda>_ _. [], sc_str = \<lambda>_. []\<rparr>"

definition small_task :: "string \<Rightarrow> string list \<Rightarrow> task_message" where
  "small_task task_id deps = \<lparr>tm_task_id = task_id, tm_type = CMD, tm_cmd = Some ''ls'', tm_critical = None,
     tm_continue_on_error = None, tm_stop_plan_on_failure = None, tm_stop_plan_on_success = None,
     tm_depends_on = deps, tm_resource_lock = None, tm_max_output_bytes = Some 900, tm_timeout_ms = None,
     tm_ref_task_id = None, tm_stream = None, tm_byte_offset = None, tm_max_bytes = None\<rparr>"

definition sample_plan :: "task_message list \<Rightarrow> plan_content" where
  "sample_plan tasks = \<lparr>pc_plan_id = ''p'', pc_objective = ''look'', pc_execution_policy = SEQUENTIAL,
     pc_max_parallel_workers = None, pc_default_max_output_bytes = None, pc_default_continue_on_error = None,
     pc_state_summary = None, pc_tasks = tasks\<rparr>"

definition sample_envelope :: envelope where
  "sample_envelope = \<lparr>en_type = DISCOVERY_PLAN, en_conversation_id = ''c'', en_message_id = ''m1'', en_content = []\<rparr>"

definition asked_conversation :: conversation_record where
  "asked_conversation = \<lparr>c_conversation_id = ''c'', c_session_id = ''s'', c_parent_conversation_id = None,
     c_remote_conversation_id = None, c_status = Conv_WAITING_MODEL_RESPONSE, c_auto_close_on_final_answer = True,
     c_context_window_state = HEALTHY, c_context_bytes = 0, c_protocol_error_count = 0,
     c_last_model_response_state = [], c_current_cycle_id = None, c_current_plan_id = None,
     c_last_completed_plan_id = None, c_final_answer_received = False, c_last_outbound_message_id = None,
     c_last_inbound_message_id = None, c_get_cursor = None, c_session_budget_json = [], c_closure_reason = None,
     c_interrupted_at = None, c_created_at = 0, c_updated_at = 0\<rparr>"

definition sample_known :: known_ids where
  "sample_known = \<lparr>kn_message_ids = {}, kn_plan_ids = {}, kn_task_ids = {}, kn_stored_output_task_ids = {},
     kn_expected_original = None\<rparr>"

definition small_payload :: payload_section where
  "small_payload = \<lparr>y_default_max_output_bytes = 500, y_hard_max_output_bytes = 800, y_max_message_bytes = 4000,
     y_max_state_summary_bytes = 100\<rparr>"

lemmas sample_defs = sample_schemas_def small_task_def sample_plan_def sample_envelope_def
  asked_conversation_def sample_known_def small_payload_def

definition sample_reply :: "task_message list \<Rightarrow> exn + inbound_message" where
  "sample_reply tasks = parse_inbound (sample_schemas sample_envelope (sample_plan tasks)) small_payload
     [JObj []] {DISCOVERY_PLAN} asked_conversation sample_known"

lemma sample_accepted: "\<exists>im. sample_reply [small_task ''a'' [], small_task ''b'' [''a'']] = Inr im"
  by (simp add: sample_reply_def parse_inbound_def parse_content_def validate_content_def validate_plan_def
      find_cycle_def lookup_def check_sequential_def index_of_def check_type_def sample_defs message_type_sets
      known_remote_id_def pydantic_errors_def Let_def del: bindR_Inr_iff)

theorem accepted_reply_witness:
  "\<exists>im. sample_reply [small_task ''a'' [], small_task ''b'' [''a'']] = Inr im
     \<and> content_ok small_payload sample_known DISCOVERY_PLAN (im_plan_type im) (im_content im)"
proof -
  obtain im where im: "sample_reply [small_task ''a'' [], small_task ''b'' [''a'']] = Inr im"
    using sample_accepted by blast
  from accepted_reply [OF im [unfolded sample_reply_def]] show ?thesis
    using im by (auto simp: sample_schemas_def sample_envelope_def)
qed

section \<open>Expectation and projection\<close>

lemma substantive_situation:
  assumes "last_substantive_outbound ms = Some m"
  shows "\<exists>s. situation_for m c = Inr s"
  using find_last_Some [OF assms [unfolded last_substantive_outbound_def]]
  by (auto simp: situation_for_def message_type_sets)

lemma expected_inbound_for_inbound: "expected_inbound_for s b \<subseteq> INBOUND_MESSAGE_TYPES"
  by (cases s) (auto simp: expected_inbound_for_def message_type_sets)

lemma find_last_append: "list_all (\<lambda>x. \<not> p x) ys \<Longrightarrow> find_last p (xs @ ys) = find_last p xs"
proof (induction ys rule: rev_induct)
  case (snoc y ys)
  then show ?case using find_last_snoc [of p "xs @ ys" y] by simp
qed simp

text \<open>
  The expectation read from a conversation's messages is always defined and made of inbound types, and
  nothing but a substantive message changes it: appending replies and correction requests leaves it as it was.
\<close>

theorem expectation_is_total_and_stable:
  assumes "list_all (\<lambda>m. m_direction m = INBOUND \<or> m_message_type m = PROTOCOL_CORRECTION_REQUEST) later"
  shows "\<exists>types. expected_inbound allow (last_substantive_outbound (ms @ later)) c = Inr types
    \<and> types \<subseteq> INBOUND_MESSAGE_TYPES
    \<and> expected_inbound allow (last_substantive_outbound ms) c = Inr types"
proof -
  have "last_substantive_outbound (ms @ later) = last_substantive_outbound ms"
    unfolding last_substantive_outbound_def
    by (rule find_last_append) (use assms in \<open>auto simp: list_all_iff message_type_sets\<close>)
  moreover have "\<exists>types. expected_inbound allow (last_substantive_outbound ms) c = Inr types \<and> types \<subseteq> INBOUND_MESSAGE_TYPES"
    using substantive_situation [of ms _ c] expected_inbound_for_inbound
    by (cases "last_substantive_outbound ms") (auto simp: expected_inbound_def)
  ultimately show ?thesis by auto
qed

theorem expectation_is_total_and_stable_witness:
  "\<exists>(m :: message_record) types. m_message_type m = PROTOCOL_CORRECTION_REQUEST
     \<and> expected_inbound True (last_substantive_outbound ([] @ [m])) asked_conversation = Inr types"
proof -
  let ?m = "\<lparr>m_message_id = ''m2'', m_session_id = ''s'', m_conversation_id = ''c'', m_direction = OUTBOUND,
    m_message_type = PROTOCOL_CORRECTION_REQUEST, m_payload = [], m_size_bytes = 2, m_cycle_id = None,
    m_post_confirmed = True, m_posted_at = None, m_received_at = None, m_validation_status = None,
    m_retransmission_of = None, m_created_at = 0\<rparr>"
  have "list_all (\<lambda>m. m_direction m = INBOUND \<or> m_message_type m = PROTOCOL_CORRECTION_REQUEST) [?m]" by simp
  from expectation_is_total_and_stable [OF this, of True "[]" asked_conversation] obtain types
    where "expected_inbound True (last_substantive_outbound ([] @ [?m])) asked_conversation = Inr types" by blast
  moreover have "m_message_type ?m = PROTOCOL_CORRECTION_REQUEST" by simp
  ultimately show ?thesis by (intro exI conjI)
qed

definition task_within :: "payload_section \<Rightarrow> execution_section \<Rightarrow> task_record \<Rightarrow> bool" where
  "task_within cfg ex t \<longleftrightarrow>
     (\<exists>b. t_max_output_bytes_applied t = Some b \<and> b \<le> y_hard_max_output_bytes cfg)
   \<and> (t_timeout_ms_applied t = None \<longleftrightarrow> t_type t = CHUNK_REQUEST)
   \<and> (\<forall>ms. t_timeout_ms_applied t \<noteq> Some ms \<or> ms \<le> x_max_task_timeout_ms ex)
   \<and> (t_stops_plan_on_failure t \<longleftrightarrow> t_critical t \<or> t_stop_plan_on_failure t \<or> \<not> t_continue_on_error t)"

lemma build_task_record_within: "task_within cfg ex (build_task_record cfg ex task i plan now dflt)"
  by (cases "tm_max_output_bytes task") (auto simp: task_within_def build_task_record_def new_task_record_def Let_def)

lemma build_task_record_fields:
  "t_task_id (build_task_record cfg ex task i plan now dflt) = tm_task_id task"
  "t_order_index (build_task_record cfg ex task i plan now dflt) = i"
  "t_status (build_task_record cfg ex task i plan now dflt) = Task_PENDING"
  "t_depends_on (build_task_record cfg ex task i plan now dflt) = tm_depends_on task"
  "t_plan_id (build_task_record cfg ex task i plan now dflt) = p_plan_id plan"
  by (simp_all add: build_task_record_def new_task_record_def Let_def)

text \<open>
  A plan that was accepted is always projected: \<open>plan_to_records\<close> does not raise on an accepted plan
  message, and gives one pending plan and one pending task per declared task, in order, with the same ids and
  dependencies, every output budget within the hard limit, every time-out within the maximum (and none on a chunk
  request), at least one worker, and the flag that stops the plan resolved as ADR-009 says.
\<close>

theorem accepted_plans_are_projected:
  assumes "parse_inbound sc cfg raws expected conversation known = Inr im" and "im_content im = Plan_content plan"
    and "case pc_max_parallel_workers plan of None \<Rightarrow> True | Some n \<Rightarrow> 0 \<le> n"
  shows "\<exists>p ts. plan_to_records cfg ex im session conversation cycle_id now = Inr (p, ts)
    \<and> p_status p = Plan_PENDING \<and> p_plan_id p = pc_plan_id plan \<and> p_task_count p = int (length ts) \<and> 1 \<le> p_max_parallel_workers p
    \<and> map t_task_id ts = task_ids plan \<and> map t_depends_on ts = map tm_depends_on (pc_tasks plan)
    \<and> map t_order_index ts = map int [0..<length ts]
    \<and> list_all (\<lambda>t. t_status t = Task_PENDING \<and> t_plan_id t = p_plan_id p \<and> task_within cfg ex t) ts"
proof -
  have "im_plan_type im \<noteq> None" using accepted_replyD [OF assms(1)] assms(2) by auto
  then obtain ty where ty: "im_plan_type im = Some ty" by auto
  let ?p = "build_plan_record plan ty session conversation cycle_id now"
  let ?ts = "map (\<lambda>(index, task). build_task_record cfg ex task index ?p now (pc_default_continue_on_error plan))
    (zip (map int [0..<length (pc_tasks plan)]) (pc_tasks plan))"
  have "plan_to_records cfg ex im session conversation cycle_id now = Inr (?p, ?ts)"
    using ty assms(2) by (simp add: plan_to_records_def Let_def)
  moreover have "map t_task_id ?ts = task_ids plan" "map t_depends_on ?ts = map tm_depends_on (pc_tasks plan)"
    "map t_order_index ?ts = map int [0..<length ?ts]"
    by (auto intro!: nth_equalityI simp: task_ids_def build_task_record_fields)
  moreover have "list_all (\<lambda>t. t_status t = Task_PENDING \<and> t_plan_id t = p_plan_id ?p \<and> task_within cfg ex t) ?ts"
    by (auto simp: list_all_iff build_task_record_fields build_task_record_within)
  moreover have "p_status ?p = Plan_PENDING \<and> p_plan_id ?p = pc_plan_id plan \<and> p_task_count ?p = int (length ?ts) \<and> 1 \<le> p_max_parallel_workers ?p"
    using assms(3) by (auto simp: build_plan_record_def split: option.splits)
  ultimately show ?thesis by blast
qed

theorem accepted_plans_are_projected_witness:
  "\<exists>im p ts. sample_reply [small_task ''a'' [], small_task ''b'' [''a'']] = Inr im
     \<and> plan_to_records small_payload (\<lparr>x_default_task_timeout_ms = 5, x_max_task_timeout_ms = 9, x_cancel_drain_timeout_ms = 1,
          x_interrupt_drain_timeout_ms = 1, x_verdict_programs = []\<rparr>) im sample_session asked_conversation ''y'' 0 = Inr (p, ts)
     \<and> map t_task_id ts = [''a'', ''b'']"
proof -
  obtain im where im: "sample_reply [small_task ''a'' [], small_task ''b'' [''a'']] = Inr im"
    using sample_accepted by blast
  have content: "im_content im = Plan_content (sample_plan [small_task ''a'' [], small_task ''b'' [''a'']])"
    using im by (auto simp: sample_reply_def parse_inbound_def parse_content_def sample_defs message_type_sets
      dest!: validate_content_Inr)
  have workers: "case pc_max_parallel_workers (sample_plan [small_task ''a'' [], small_task ''b'' [''a'']]) of None \<Rightarrow> True | Some n \<Rightarrow> 0 \<le> n"
    by (simp add: sample_plan_def)
  from accepted_plans_are_projected [OF im [unfolded sample_reply_def] content workers,
    where ex = "\<lparr>x_default_task_timeout_ms = 5, x_max_task_timeout_ms = 9, x_cancel_drain_timeout_ms = 1,
      x_interrupt_drain_timeout_ms = 1, x_verdict_programs = []\<rparr>" and session = sample_session and cycle_id = "''y''" and now = 0]
  obtain p ts where "plan_to_records small_payload (\<lparr>x_default_task_timeout_ms = 5, x_max_task_timeout_ms = 9, x_cancel_drain_timeout_ms = 1,
      x_interrupt_drain_timeout_ms = 1, x_verdict_programs = []\<rparr>) im sample_session asked_conversation ''y'' 0 = Inr (p, ts)"
    and "map t_task_id ts = task_ids (sample_plan [small_task ''a'' [], small_task ''b'' [''a'']])" by blast
  moreover have "task_ids (sample_plan [small_task ''a'' [], small_task ''b'' [''a'']]) = [''a'', ''b'']"
    by (simp add: task_ids_def sample_plan_def small_task_def)
  ultimately show ?thesis using im by (intro exI conjI) auto
qed

end
