(* ===== verification/Commands.thy ===== *)
theory Commands
  imports Errors
begin

text \<open>
  \<open>domain/shell.py\<close> and \<open>domain/commands.py\<close>: the shell that runs the commands and the exit codes by which
  it says a program could not be run, the program a command line invokes, and the recogniser of the programs
  whose non-zero exit is a verdict. \<open>shutil.which\<close> and the absolute path of a directory are parameters;
  \<open>shlex.split(posix=False)\<close> is written out.
\<close>

section \<open>Words of a command line\<close>

text \<open>
  The states of \<open>shlex\<close> without POSIX quoting: between words, in a word, in a quoted word. A quoted word ends
  at its closing quote; an unbalanced quote is \<open>None\<close>, the \<open>ValueError\<close> of \<open>shlex\<close>.
\<close>

datatype shlex_state = Between | In_word | Quoted char

definition shlex_space :: "char \<Rightarrow> bool" where
  "shlex_space c \<longleftrightarrow> c \<in> {CHR '' '', CHR 0x09, CHR 0x0D, CHR 0x0A}"

definition quote_char :: "char \<Rightarrow> bool" where
  "quote_char c \<longleftrightarrow> c \<in> {CHR 0x22, CHR 0x27}"

fun shlex :: "shlex_state \<Rightarrow> string \<Rightarrow> string \<Rightarrow> string list option" where
  "shlex Between token [] = Some []"
| "shlex Between token (c # cs) =
     (if shlex_space c then shlex Between [] cs
      else if quote_char c then shlex (Quoted c) [c] cs
      else shlex In_word [c] cs)"
| "shlex In_word token [] = Some [token]"
| "shlex In_word token (c # cs) =
     (if shlex_space c then map_option ((#) token) (shlex Between [] cs) else shlex In_word (token @ [c]) cs)"
| "shlex (Quoted q) token [] = None"
| "shlex (Quoted q) token (c # cs) =
     (if c = q then map_option ((#) (token @ [c])) (shlex Between [] cs) else shlex (Quoted q) (token @ [c]) cs)"

definition command_tokens :: "string \<Rightarrow> string list" where
  "command_tokens cmd = (case shlex Between [] cmd of Some ts \<Rightarrow> ts | None \<Rightarrow> split_ws cmd)"

definition bare :: "string \<Rightarrow> string" where
  "bare token = strip_by quote_char (strip token)"

text \<open>\<open>re.split("[/\\]", s)[-1]\<close>, and the first suffix of the list that can be removed.\<close>

definition base_name :: "string \<Rightarrow> string" where
  "base_name s = last (split_on (\<lambda>c. c = CHR ''/'' \<or> c = CHR 0x5C) s)"

fun without_suffix :: "string list \<Rightarrow> string \<Rightarrow> string" where
  "without_suffix [] name = name"
| "without_suffix (x # xs) name =
     (if ends_with x name \<and> length x < length name then take (length name - length x) name else without_suffix xs name)"

definition PROGRAM_SUFFIXES :: "string list" where
  "PROGRAM_SUFFIXES = [''.exe'', ''.cmd'', ''.bat'', ''.ps1'', ''.sh'']"

definition program_name :: "string \<Rightarrow> string" where
  "program_name token = without_suffix PROGRAM_SUFFIXES (lower (base_name (bare token)))"

definition ident_start :: "char \<Rightarrow> bool" where
  "ident_start c \<longleftrightarrow> (CHR ''A'' \<le> c \<and> c \<le> CHR ''Z'') \<or> (CHR ''a'' \<le> c \<and> c \<le> CHR ''z'') \<or> c = CHR ''_''"

text \<open>\<open>^[A-Za-z_][A-Za-z0-9_]*=\<close>.\<close>

definition is_assignment :: "string \<Rightarrow> bool" where
  "is_assignment t = (case t of [] \<Rightarrow> False
     | c # cs \<Rightarrow> ident_start c \<and> (case dropWhile (\<lambda>d. ident_start d \<or> is_digit d) cs of [] \<Rightarrow> False | d # _ \<Rightarrow> d = CHR ''=''))"

definition invoked :: "string option \<Rightarrow> string \<times> string option" where
  "invoked cmd =
     (case dropWhile is_assignment (command_tokens (case cmd of None \<Rightarrow> [] | Some s \<Rightarrow> s)) of
        [] \<Rightarrow> ([], None)
      | t # ts \<Rightarrow> (program_name t,
          map_option lower (List.find (\<lambda>w. w \<noteq> [] \<and> \<not> starts_with ''-'' w) (map bare ts))))"

section \<open>The shell\<close>

datatype shell_dialect = Dialect_POSIX | Dialect_POWERSHELL | Dialect_CMD | Dialect_UNKNOWN

fun shell_dialect_value :: "shell_dialect \<Rightarrow> string" where
  "shell_dialect_value Dialect_POSIX = ''posix''"
| "shell_dialect_value Dialect_POWERSHELL = ''powershell''"
| "shell_dialect_value Dialect_CMD = ''cmd''"
| "shell_dialect_value Dialect_UNKNOWN = ''unknown''"

datatype shell_source = Source_CONFIGURED | Source_DETECTED | Source_DEFAULT

definition POSIX_SHELL_CANDIDATES :: "string list" where
  "POSIX_SHELL_CANDIDATES = [''bash'', ''zsh'', ''sh'']"

definition WINDOWS_SHELL_CANDIDATES :: "string list" where
  "WINDOWS_SHELL_CANDIDATES = [''pwsh'', ''powershell'']"

definition DIALECT_BY_NAME :: "(string, shell_dialect) dict" where
  "DIALECT_BY_NAME = [(''bash'', Dialect_POSIX), (''sh'', Dialect_POSIX), (''zsh'', Dialect_POSIX), (''dash'', Dialect_POSIX),
     (''ash'', Dialect_POSIX), (''ksh'', Dialect_POSIX), (''powershell'', Dialect_POWERSHELL),
     (''pwsh'', Dialect_POWERSHELL), (''cmd'', Dialect_CMD)]"

definition POSIX_NOT_RUN :: "(int, string) dict" where
  "POSIX_NOT_RUN = [(127, ''COMMAND_NOT_FOUND''), (126, ''COMMAND_NOT_EXECUTABLE'')]"

fun NOT_RUN_EXIT_CODES :: "shell_dialect \<Rightarrow> (int, string) dict" where
  "NOT_RUN_EXIT_CODES Dialect_CMD = [(9009, ''COMMAND_NOT_FOUND'')]"
| "NOT_RUN_EXIT_CODES _ = POSIX_NOT_RUN"

definition shell_name :: "string \<Rightarrow> string" where
  "shell_name program =
     without_suffix [''.exe'', ''.cmd'', ''.bat'', ''.com''] (lower (base_name (bare program)))"

definition classify_shell :: "string \<Rightarrow> shell_dialect" where
  "classify_shell program = (case dict_get DIALECT_BY_NAME (shell_name program) of Some d \<Rightarrow> d | None \<Rightarrow> Dialect_UNKNOWN)"

definition command_not_run_reason :: "shell_dialect \<Rightarrow> int option \<Rightarrow> string option" where
  "command_not_run_reason dialect exit_code =
     (case exit_code of None \<Rightarrow> None | Some c \<Rightarrow> dict_get (NOT_RUN_EXIT_CODES dialect) c)"

record detected_shell =
  ds_program :: string
  ds_name :: string
  ds_dialect :: shell_dialect
  ds_source :: shell_source

definition shell_of :: "string \<Rightarrow> shell_source \<Rightarrow> detected_shell" where
  "shell_of program source =
     \<lparr>ds_program = program, ds_name = shell_name program, ds_dialect = classify_shell program, ds_source = source\<rparr>"

record execution_environment =
  ee_operating_system :: string
  ee_shell :: detected_shell
  ee_cwd :: string

definition operating_system_name :: "string \<Rightarrow> string" where
  "operating_system_name platform =
     (case dict_get [(''win32'', ''Windows''), (''darwin'', ''macOS''), (''linux'', ''Linux'')] platform of
        Some n \<Rightarrow> n | None \<Rightarrow> platform)"

text \<open>\<open>which\<close> answers \<open>Inl\<close> for an \<open>OSError\<close>; an empty answer counts as none.\<close>

fun probe_shells :: "(string \<Rightarrow> exn + string option) \<Rightarrow> string list \<Rightarrow> string option" where
  "probe_shells which [] = None"
| "probe_shells which (c # cs) =
     (case which c of
        Inr (Some found) \<Rightarrow> if found \<noteq> [] then Some found else probe_shells which cs
      | _ \<Rightarrow> probe_shells which cs)"

definition detect_shell :: "string option \<Rightarrow> bool \<Rightarrow> (string \<Rightarrow> exn + string option) \<Rightarrow> detected_shell" where
  "detect_shell configured windows which =
     (let pinned = strip (case configured of None \<Rightarrow> [] | Some s \<Rightarrow> s)
      in if pinned \<noteq> [] then shell_of pinned Source_CONFIGURED
         else case probe_shells which (if windows then WINDOWS_SHELL_CANDIDATES else POSIX_SHELL_CANDIDATES) of
           Some found \<Rightarrow> shell_of found Source_DETECTED
         | None \<Rightarrow> shell_of (if windows then ''powershell'' else ''/bin/sh'') Source_DEFAULT)"

definition describe_environment ::
  "(string \<Rightarrow> string) \<Rightarrow> string option \<Rightarrow> string \<Rightarrow> string \<Rightarrow> (string \<Rightarrow> exn + string option) \<Rightarrow> execution_environment" where
  "describe_environment absolute configured cwd platform which =
     \<lparr>ee_operating_system = operating_system_name platform,
      ee_shell = detect_shell configured (platform = ''win32'') which,
      ee_cwd = absolute (if cwd = [] then ''.'' else cwd)\<rparr>"

section \<open>Verdict programs\<close>

definition normalise_program_entry :: "string \<Rightarrow> exn + string" where
  "normalise_program_entry entry =
     (case split_ws entry of
        [] \<Rightarrow> Inl (ValueError ''must name a program'')
      | [p] \<Rightarrow> if program_name p = [] then Inl (ValueError (entry @ '': must name a program'')) else Inr (program_name p)
      | [p, a] \<Rightarrow>
          if program_name p = [] then Inl (ValueError (entry @ '': must name a program''))
          else if lower (bare a) = [] then Inl (ValueError (entry @ '': must name a sub-command after the program''))
          else Inr (program_name p @ '' '' @ lower (bare a))
      | _ \<Rightarrow> Inl (ValueError (entry @ '': an entry is a program, optionally followed by one sub-command'')))"

record verdict_programs =
  vp_programs :: "string set"
  vp_pairs :: "(string \<times> string) set"

definition add_entry :: "string \<Rightarrow> verdict_programs \<Rightarrow> exn + verdict_programs" where
  "add_entry entry vp =
     bindR (normalise_program_entry entry) (\<lambda>text.
     let program = takeWhile (\<lambda>c. c \<noteq> CHR '' '') text; argument = drop (length program + 1) text
     in Inr (if argument \<noteq> [] then vp\<lparr>vp_pairs := insert (program, argument) (vp_pairs vp)\<rparr>
             else vp\<lparr>vp_programs := insert program (vp_programs vp)\<rparr>))"

definition verdict_programs_of :: "string list \<Rightarrow> exn + verdict_programs" where
  "verdict_programs_of entries = foldR add_entry entries \<lparr>vp_programs = {}, vp_pairs = {}\<rparr>"

definition matches_verdict :: "verdict_programs \<Rightarrow> string option \<Rightarrow> bool" where
  "matches_verdict vp cmd =
     (let (program, argument) = invoked cmd
      in program \<noteq> [] \<and> (program \<in> vp_programs vp \<or> (case argument of None \<Rightarrow> False | Some a \<Rightarrow> (program, a) \<in> vp_pairs vp)))"

definition is_verdict :: "verdict_programs \<Rightarrow> string option \<Rightarrow> int option \<Rightarrow> bool \<Rightarrow> shell_dialect \<Rightarrow> bool" where
  "is_verdict vp cmd exit_code timed_out dialect \<longleftrightarrow>
     \<not> (timed_out \<or> exit_code = None \<or> exit_code = Some 0)
   \<and> command_not_run_reason dialect exit_code = None
   \<and> matches_verdict vp cmd"

end
