(* ===== verification/Collector.thy ===== *)
theory Collector
  imports Protocol Commands
begin

text \<open>
  \<open>execution/result_collector.py\<close>: the single \<open>execution_result\<close> of a terminal plan, built from its records,
  the truncated outputs and the served chunks. The dialect dictionary (\<open>ShellTranslator.translate\<close>) is a
  collaborator of the collector, given to its constructor: a function here, which may raise.
\<close>

record command_translation =
  ct_source :: shell_dialect
  ct_target :: shell_dialect
  ct_original :: string
  ct_executed :: string
  ct_rules :: "string list"
  ct_reason :: "string option"

definition translated :: "command_translation \<Rightarrow> bool" where
  "translated d \<longleftrightarrow> ct_reason d = None"

record collector =
  co_verdict_programs :: verdict_programs
  co_translate :: "string option \<Rightarrow> exn + command_translation option"
  co_dialect :: shell_dialect

definition RESULT_STATES :: "task_state set" where
  "RESULT_STATES = {Task_COMPLETED, Task_FAILED, Task_TIMED_OUT}"

definition REFERENCE_STATES :: "task_state set" where
  "REFERENCE_STATES = {Task_SKIPPED, Task_CANCELLED, Task_INTERRUPTED}"

definition result_translation :: "collector \<Rightarrow> task_record \<Rightarrow> exn + task_translation option" where
  "result_translation co task =
     bindR (co_translate co (t_cmd task)) (\<lambda>decided. Inr (map_option (\<lambda>d.
       \<lparr>tl_translated = translated d, tl_from_dialect = shell_dialect_value (ct_source d),
        tl_to_dialect = shell_dialect_value (ct_target d), tl_original_cmd = ct_original d,
        tl_executed_cmd = ct_executed d, tl_rules = ct_rules d, tl_reason = ct_reason d\<rparr>) decided))"

definition execution_of :: "task_record \<Rightarrow> task_execution" where
  "execution_of task =
     (if t_timed_out task \<or> t_status task = Task_TIMED_OUT then Exec_timed_out
      else if t_exit_code task = None then Exec_not_started else Exec_ran)"

definition result_reason :: "collector \<Rightarrow> task_record \<Rightarrow> task_execution \<Rightarrow> string option" where
  "result_reason co task execution =
     (if t_reason task \<noteq> None \<or> execution \<noteq> Exec_ran then t_reason task
      else command_not_run_reason (co_dialect co) (t_exit_code task))"

definition cmd_result :: "collector \<Rightarrow> task_record \<Rightarrow> truncated_output option \<Rightarrow> exn + task_result" where
  "cmd_result co task output =
     (let execution = execution_of task;
          verdict = (t_status task = Task_FAILED
            \<and> is_verdict (co_verdict_programs co) (t_cmd task) (t_exit_code task) (t_timed_out task) (co_dialect co))
      in bindR (result_translation co task) (\<lambda>translation. Inr
         \<lparr>tr_task_id = t_task_id task, tr_status = task_protocol_value (t_status task), tr_execution = execution,
          tr_exit_code = t_exit_code task, tr_failure_is_verdict = (if verdict then Some True else None),
          tr_translation = translation,
          tr_stdout = (case output of Some t \<Rightarrow> decode_output (to_stdout_kept t) | None \<Rightarrow> []),
          tr_stderr = (case output of Some t \<Rightarrow> decode_output (to_stderr_kept t) | None \<Rightarrow> []),
          tr_truncated = (case output of Some t \<Rightarrow> to_truncated t | None \<Rightarrow> t_truncated task),
          tr_original_size_bytes = (case output of Some t \<Rightarrow> Some (to_original_size_bytes t) | None \<Rightarrow> t_original_size_bytes task),
          tr_stdout_total = (case output of Some t \<Rightarrow> Some (to_stdout_total t) | None \<Rightarrow> t_stdout_total task),
          tr_stderr_total = (case output of Some t \<Rightarrow> Some (to_stderr_total t) | None \<Rightarrow> t_stderr_total task),
          tr_stdout_range = (case output of Some t \<Rightarrow> Some (to_stdout_range t) | None \<Rightarrow> t_stdout_range task),
          tr_stderr_range = (case output of Some t \<Rightarrow> Some (to_stderr_range t) | None \<Rightarrow> t_stderr_range task),
          tr_max_output_bytes_applied = t_max_output_bytes_applied task, tr_timed_out = t_timed_out task,
          tr_timeout_ms_applied = t_timeout_ms_applied task, tr_duration_ms = t_duration_ms task,
          tr_reason = result_reason co task execution, tr_ref_task_id = None, tr_stream = None, tr_range = None,
          tr_total = None, tr_eof = None, tr_data = None\<rparr>))"

definition chunk_task_result :: "task_record \<Rightarrow> chunk_result option \<Rightarrow> task_result" where
  "chunk_task_result task chunk =
     \<lparr>tr_task_id = t_task_id task, tr_status = task_protocol_value (t_status task), tr_execution = Exec_ran,
      tr_exit_code = None, tr_failure_is_verdict = None, tr_translation = None, tr_stdout = [], tr_stderr = [],
      tr_truncated = False, tr_original_size_bytes = None, tr_stdout_total = None, tr_stderr_total = None,
      tr_stdout_range = None, tr_stderr_range = None, tr_max_output_bytes_applied = None, tr_timed_out = False,
      tr_timeout_ms_applied = None, tr_duration_ms = t_duration_ms task, tr_reason = t_reason task,
      tr_ref_task_id = t_ref_task_id task,
      tr_stream = Some (case t_stream task of None \<Rightarrow> STDOUT | Some s \<Rightarrow> s),
      tr_range = map_option ch_range chunk, tr_total = map_option ch_total chunk, tr_eof = map_option ch_eof chunk,
      tr_data = map_option (\<lambda>c. decode_output (ch_data c)) chunk\<rparr>"

definition result_of_task ::
  "collector \<Rightarrow> (string, truncated_output) dict \<Rightarrow> (string, chunk_result) dict \<Rightarrow> task_record \<Rightarrow> exn + task_result" where
  "result_of_task co outputs chunks task =
     (if t_type task = CHUNK_REQUEST then Inr (chunk_task_result task (dict_get chunks (t_task_id task)))
      else cmd_result co task (dict_get outputs (t_task_id task)))"

definition reference_of_task :: "task_record \<Rightarrow> task_ref" where
  "reference_of_task task =
     \<lparr>rf_task_id = t_task_id task,
      rf_reason = (case t_reason task of Some r \<Rightarrow> if r = [] then task_protocol_value (t_status task) else r
         | None \<Rightarrow> task_protocol_value (t_status task)),
      rf_execution = (if t_status task \<in> {Task_CANCELLED, Task_INTERRUPTED} then Exec_stopped else Exec_not_started)\<rparr>"

definition add_task ::
  "collector \<Rightarrow> plan_record \<Rightarrow> (string, truncated_output) dict \<Rightarrow> (string, chunk_result) dict
   \<Rightarrow> task_record \<Rightarrow> execution_result_content \<Rightarrow> exn + execution_result_content" where
  "add_task co plan outputs chunks task c =
     (if t_plan_id task \<noteq> p_plan_id plan then Inl (ValueError (''task '' @ t_task_id task @ '' belongs to plan '' @ t_plan_id task))
      else if t_status task \<in> RESULT_STATES
        then bindR (result_of_task co outputs chunks task) (\<lambda>result. Inr (c\<lparr>er_results := er_results c @ [result]\<rparr>))
      else if t_status task = Task_SKIPPED then Inr (c\<lparr>er_skipped_tasks := er_skipped_tasks c @ [reference_of_task task]\<rparr>)
      else if t_status task = Task_CANCELLED then Inr (c\<lparr>er_cancelled_tasks := er_cancelled_tasks c @ [reference_of_task task]\<rparr>)
      else if t_status task = Task_INTERRUPTED then Inr (c\<lparr>er_interrupted_tasks := er_interrupted_tasks c @ [reference_of_task task]\<rparr>)
      else Inl (ValueError (''task '' @ t_task_id task @ '' is still '' @ task_state_value (t_status task))))"

definition collect ::
  "collector \<Rightarrow> plan_record \<Rightarrow> task_record list \<Rightarrow> (string, truncated_output) dict \<Rightarrow> (string, chunk_result) dict
   \<Rightarrow> exn + execution_result_content" where
  "collect co plan tasks outputs chunks =
     (if p_status plan = Plan_INTERRUPTED then Inl (ValueError (''plan '' @ p_plan_id plan @ '' is INTERRUPTED''))
      else if p_status plan \<in> {Plan_PENDING, Plan_RUNNING} then Inl (ValueError (''plan '' @ p_plan_id plan @ '' is not terminal''))
      else foldR (add_task co plan outputs chunks) (sort_key t_order_index tasks)
        \<lparr>er_plan_id = p_plan_id plan, er_status = plan_protocol_value (p_status plan), er_results = [],
         er_skipped_tasks = [], er_cancelled_tasks = [], er_interrupted_tasks = [], er_stop_reason = p_stop_reason plan\<rparr>)"

text \<open>
  What the content of a plan whose tasks are all terminal is, and what it raises: the dictionary, asked again for the
  command of a task that has a result, is the only part of it that can.
\<close>

definition with_status :: "task_state set \<Rightarrow> task_record list \<Rightarrow> task_record list" where
  "with_status S = filter (\<lambda>t. t_status t \<in> S)"

definition collected ::
  "collector \<Rightarrow> plan_record \<Rightarrow> task_record list \<Rightarrow> (string, truncated_output) dict \<Rightarrow> (string, chunk_result) dict
   \<Rightarrow> exn + execution_result_content" where
  "collected co plan tasks outputs chunks =
     bindR (mapR (result_of_task co outputs chunks) (with_status RESULT_STATES tasks)) (\<lambda>results. Inr
     \<lparr>er_plan_id = p_plan_id plan, er_status = plan_protocol_value (p_status plan),
      er_results = results,
      er_skipped_tasks = map reference_of_task (with_status {Task_SKIPPED} tasks),
      er_cancelled_tasks = map reference_of_task (with_status {Task_CANCELLED} tasks),
      er_interrupted_tasks = map reference_of_task (with_status {Task_INTERRUPTED} tasks),
      er_stop_reason = p_stop_reason plan\<rparr>)"

definition translator_error :: "collector \<Rightarrow> exn \<Rightarrow> bool" where
  "translator_error co e \<longleftrightarrow> (\<exists>cmd. co_translate co cmd = Inl e)"

lemma result_of_task_raises: "result_of_task co outputs chunks task = Inl e \<Longrightarrow> translator_error co e"
  by (auto simp: result_of_task_def cmd_result_def result_translation_def translator_error_def Let_def bindR_Inl_iff split: if_splits)

lemma mapR_raises: "mapR f xs = Inl e \<Longrightarrow> \<exists>x \<in> set xs. f x = Inl e"
  by (induction xs) (auto simp: bindR_Inl_iff)

lemma collected_raises: "collected co plan tasks outputs chunks = Inl e \<Longrightarrow> translator_error co e"
  by (auto simp: collected_def bindR_Inl_iff dest!: mapR_raises intro: result_of_task_raises)

lemma add_tasks:
  assumes "list_all (\<lambda>t. t_plan_id t = p_plan_id plan \<and> t_status t \<in> TERMINAL_TASK_STATES) ts"
  shows "foldR (add_task co plan outputs chunks) ts c =
    bindR (mapR (result_of_task co outputs chunks) (with_status RESULT_STATES ts)) (\<lambda>results. Inr (c\<lparr>
      er_results := er_results c @ results,
      er_skipped_tasks := er_skipped_tasks c @ map reference_of_task (with_status {Task_SKIPPED} ts),
      er_cancelled_tasks := er_cancelled_tasks c @ map reference_of_task (with_status {Task_CANCELLED} ts),
      er_interrupted_tasks := er_interrupted_tasks c @ map reference_of_task (with_status {Task_INTERRUPTED} ts)\<rparr>))"
  using assms
proof (induction ts arbitrary: c)
  case (Cons t ts)
  show ?case
  proof (cases "t_status t \<in> RESULT_STATES")
    case True
    then show ?thesis
      using Cons by (cases "result_of_task co outputs chunks t"; cases "mapR (result_of_task co outputs chunks) (with_status RESULT_STATES ts)")
        (auto simp: add_task_def with_status_def RESULT_STATES_def)
  next
    case False
    then show ?thesis
      using Cons by (cases "t_status t"; cases "mapR (result_of_task co outputs chunks) (with_status RESULT_STATES ts)")
        (simp_all add: add_task_def with_status_def RESULT_STATES_def terminal_task_iff)
  qed
qed (simp add: with_status_def)

lemma collect_terminal:
  assumes "list_all (\<lambda>t. t_plan_id t = p_plan_id plan \<and> t_status t \<in> TERMINAL_TASK_STATES) tasks"
    and "p_status plan \<in> TERMINAL_PLAN_STATES" and "p_status plan \<noteq> Plan_INTERRUPTED"
  shows "collect co plan tasks outputs chunks = collected co plan (sort_key t_order_index tasks) outputs chunks"
  using assms add_tasks [of plan "sort_key t_order_index tasks"]
  by (simp add: collect_def collected_def terminal_plan_iff list_all_iff)

end
