(* ===== verification/Runner.thy ===== *)
theory Runner
  imports Collector Failures
begin

text \<open>
  \<open>execution/plan_runner.py\<close>: one run of one plan. \<open>execution\<close> is the mutable state of \<open>_PlanExecution\<close>; a step
  acts on it and on the application (store, bus, clocks). Asyncio is explicit: a \<open>wake\<close> is what one return of
  \<open>asyncio.wait\<close> finds (the callbacks that ran meanwhile, the interruption token, the workers that ended) and the
  loop consumes a list of them, in order.

  The executor is the outside: a wake gives the result of a command it was asked to run. The dialect dictionary
  and the working spaces are collaborators given to the constructor, functions here; the dictionary may raise.
\<close>

section \<open>State and collaborators\<close>

record raw_execution =
  rx_stdout :: string
  rx_stderr :: string
  rx_exit_code :: "int option"
  rx_timed_out :: bool
  rx_cancelled :: bool
  rx_spawn_error :: "string option"
  rx_pid :: "int option"
  rx_process_group_id :: "int option"
  rx_started_monotonic_ms :: int
  rx_ended_monotonic_ms :: int
  rx_duration_ms :: int

definition raw_outcome :: "raw_execution \<Rightarrow> task_state" where
  "raw_outcome raw =
     (if rx_cancelled raw then Task_CANCELLED
      else if rx_timed_out raw then Task_TIMED_OUT
      else if rx_spawn_error raw = None \<and> rx_exit_code raw = Some 0 then Task_COMPLETED
      else Task_FAILED)"

record command_spec =
  sp_task_id :: string
  sp_cmd :: string
  sp_timeout_ms :: int
  sp_env :: "(string, string) dict option"

datatype ended =
  Raw_ended raw_execution | Chunk_ended "chunk_error + chunk_result" | Defect_ended normalized_error | Forced_end

datatype callback = On_spawn string int "int option" | On_output string output_stream int string

record wake =
  wk_callbacks :: "callback list"
  wk_interrupt :: bool
  wk_done :: "string list"
  wk_result :: "command_spec \<Rightarrow> exn + raw_execution"

text \<open>What a drain finds: who had ended before it, who was still running when it elapsed.\<close>

record drain =
  dr_callbacks :: "callback list"
  dr_done :: "string list"
  dr_late :: "string list"
  dr_result :: "command_spec \<Rightarrow> exn + raw_execution"

record runner =
  rn_payload :: payload_section
  rn_exec :: execution_section
  rn_collector :: collector
  rn_has_failure_manager :: bool
  rn_scratch :: "(string \<Rightarrow> (string, string) dict) option"

record plan_outcome =
  po_plan :: plan_record
  po_tasks :: "task_record list"
  po_execution_result :: "execution_result_content option"
  po_interrupted :: bool
  po_budget_exceeded :: bool
  po_stop_reason :: "string option"

record execution =
  xe_plan :: plan_record
  xe_session :: session_record
  xe_order :: "string list"
  xe_tasks :: "(string, task_record) dict"
  xe_workers :: int
  xe_tokens :: "(string, string option) dict"
  xe_running :: "string list"
  xe_started_monotonic :: "(string, int) dict"
  xe_held_locks :: "string set"
  xe_outputs :: "(string, truncated_output) dict"
  xe_chunks :: "(string, chunk_result) dict"
  xe_translations :: "(string, command_translation) dict"
  xe_stop_reason :: "string option"
  xe_interrupting :: bool
  xe_budget_exceeded :: bool
  xe_interrupted :: bool   \<comment> \<open>the interruption token\<close>
  xe_started :: bool       \<comment> \<open>\<open>started\<close> of \<open>_loop\<close>\<close>

type_synonym 'a run_act = "(app \<times> execution, exn, 'a) act"

abbreviation on_app :: "'a app_act \<Rightarrow> 'a run_act" where
  "on_app \<equiv> on_part fst (\<lambda>w s. (w, snd s))"

abbreviation exec_get :: "(execution \<Rightarrow> 'a) \<Rightarrow> 'a run_act" where
  "exec_get f \<equiv> reading (\<lambda>s. f (snd s))"

abbreviation exec_set :: "(execution \<Rightarrow> execution) \<Rightarrow> unit run_act" where
  "exec_set f \<equiv> modifying (\<lambda>s. (fst s, f (snd s)))"

text \<open>\<open>self._tasks[k]\<close>; the keys are those of \<open>order\<close>, and the dependencies are checked to be keys first.\<close>

definition task_at :: "execution \<Rightarrow> string \<Rightarrow> task_record" where
  "task_at x k = the (dict_get (xe_tasks x) k)"

definition task_status :: "execution \<Rightarrow> string \<Rightarrow> task_state" where
  "task_status x k = t_status (task_at x k)"

definition SCHEDULABLE_STATES :: "task_state set" where
  "SCHEDULABLE_STATES = {Task_PENDING, Task_WAITING_DEPENDENCY}"

definition new_execution :: "plan_record \<Rightarrow> task_record list \<Rightarrow> session_record \<Rightarrow> bool \<Rightarrow> execution" where
  "new_execution plan tasks session interrupted =
     (let ordered = sort_key t_order_index tasks
      in \<lparr>xe_plan = plan, xe_session = session, xe_order = map t_task_id ordered,
          xe_tasks = fold (\<lambda>t. dict_set (t_task_id t) t) ordered [],
          xe_workers = (if p_execution_policy plan = SEQUENTIAL then 1 else max 1 (p_max_parallel_workers plan)),
          xe_tokens = [], xe_running = [], xe_started_monotonic = [], xe_held_locks = {}, xe_outputs = [],
          xe_chunks = [], xe_translations = [], xe_stop_reason = None, xe_interrupting = False,
          xe_budget_exceeded = False, xe_interrupted = interrupted, xe_started = False\<rparr>)"

section \<open>Validation\<close>

text \<open>Kahn's algorithm: \<open>relax\<close> removes a scheduled task from the remaining dependencies and lists who becomes ready.\<close>

fun relax :: "string \<Rightarrow> (string, string list) dict \<Rightarrow> (string, string list) dict \<times> string list" where
  "relax current [] = ([], [])"
| "relax current ((k, ds) # rest) =
     (let (rest', more) = relax current rest; ds' = removeAll current ds
      in if current \<in> set ds then ((k, ds') # rest', if ds' = [] then k # more else more)
         else ((k, ds) # rest', more))"

definition blocked :: "(string, string list) dict \<Rightarrow> string list" where
  "blocked remaining = map fst (filter (\<lambda>kd. snd kd \<noteq> []) remaining)"

lemma relax_blocked:
  "length (blocked (fst (relax c rem))) + length (snd (relax c rem)) = length (blocked rem)"
  by (induction c rem rule: relax.induct) (auto simp: blocked_def Let_def split: prod.splits)

function kahn :: "(string, string list) dict \<Rightarrow> string list \<Rightarrow> nat \<Rightarrow> nat \<times> (string, string list) dict" where
  "kahn remaining [] scheduled = (scheduled, remaining)"
| "kahn remaining (current # ready) scheduled =
     kahn (fst (relax current remaining)) (ready @ snd (relax current remaining)) (scheduled + 1)"
  by pat_completeness auto
termination
proof (relation "measure (\<lambda>(remaining, ready, scheduled). length (blocked remaining) + length ready)")
  fix remaining :: "(string, string list) dict" and current ready and scheduled :: nat
  show "((fst (relax current remaining), ready @ snd (relax current remaining), scheduled + 1), remaining, current # ready, scheduled)
    \<in> measure (\<lambda>(remaining, ready, scheduled). length (blocked remaining) + length ready)"
    using relax_blocked [of current remaining] by simp
qed simp

definition initial_dependencies :: "execution \<Rightarrow> (string, string list) dict" where
  "initial_dependencies x = map (\<lambda>k. (k, t_depends_on (task_at x k))) (xe_order x)"

definition check_run_dependency :: "execution \<Rightarrow> string \<times> string \<Rightarrow> exn + unit" where
  "check_run_dependency x = (\<lambda>(k, d).
     if d \<notin> set (map fst (xe_tasks x)) then
       Inl (ValueError (''task '' @ k @ '' depends on unknown task '' @ d))
     else if p_execution_policy (xe_plan x) = SEQUENTIAL \<and> index_of d (xe_order x) \<ge> index_of k (xe_order x) then
       Inl (ValueError (''task '' @ k @ '' depends on '' @ d @ '', which does not precede it''))
     else Inr ())"

definition validate_dependencies :: "execution \<Rightarrow> exn + unit" where
  "validate_dependencies x =
     bindR (mapR (check_run_dependency x)
       (concat (map (\<lambda>k. map (Pair k) (t_depends_on (task_at x k))) (xe_order x)))) (\<lambda>_.
     let ready = map fst (filter (\<lambda>kd. snd kd = []) (initial_dependencies x));
         (scheduled, remaining) = kahn (initial_dependencies x) ready 0
     in guardR (scheduled = length (xe_order x))
          (ValueError (''dependency cycle among tasks '' @ join_with '', '' (blocked remaining))))"

definition validate_task :: "plan_record \<Rightarrow> task_record \<Rightarrow> exn + unit" where
  "validate_task plan t =
     bindR (guardR (t_plan_id t = p_plan_id plan)
       (ValueError (''task '' @ t_task_id t @ '' belongs to plan '' @ t_plan_id t))) (\<lambda>_.
     assert_transition TASK_TRANSITIONS task_state_value (t_status t) Task_RUNNING ''task'')"

definition validate_run :: "execution \<Rightarrow> exn + unit" where
  "validate_run x =
     bindR (assert_transition PLAN_TRANSITIONS plan_state_value (p_status (xe_plan x)) Plan_RUNNING ''plan'') (\<lambda>_.
     bindR (guardR (length (xe_tasks x) = length (xe_order x)) (ValueError ''duplicate task identifiers'')) (\<lambda>_.
     bindR (mapR (validate_task (xe_plan x)) (dict_values (xe_tasks x))) (\<lambda>_.
     validate_dependencies x)))"

section \<open>Persistence, then publication\<close>

record change =
  ch_task_id :: string
  ch_to :: task_state
  ch_reason :: "string option"
  ch_ended_at :: "time option"             \<comment> \<open>\<open>ended_at\<close> when the fields name it\<close>
  ch_fields :: "task_record \<Rightarrow> task_record" \<comment> \<open>the other fields\<close>

definition plain_change :: "string \<Rightarrow> task_state \<Rightarrow> string option \<Rightarrow> change" where
  "plain_change k to reason = \<lparr>ch_task_id = k, ch_to = to, ch_reason = reason, ch_ended_at = None, ch_fields = \<lambda>t. t\<rparr>"

definition changed_record :: "time \<Rightarrow> change \<Rightarrow> task_record \<Rightarrow> task_record" where
  "changed_record now c current =
     (let t = (ch_fields c current)\<lparr>t_status := ch_to c, t_updated_at := now\<rparr>;
          t' = (case ch_reason c of None \<Rightarrow> t | Some r \<Rightarrow> t\<lparr>t_reason := Some r\<rparr>)
      in case ch_ended_at c of Some e \<Rightarrow> t'\<lparr>t_ended_at := Some e\<rparr>
         | None \<Rightarrow> if ch_to c \<in> TERMINAL_TASK_STATES then t'\<lparr>t_ended_at := Some now\<rparr> else t')"

definition prepare_change :: "time \<Rightarrow> execution \<Rightarrow> change \<Rightarrow> exn + task_record \<times> task_record \<times> change" where
  "prepare_change now x c =
     (let current = task_at x (ch_task_id c)
      in bindR (assert_transition TASK_TRANSITIONS task_state_value (t_status current) (ch_to c) ''task'')
           (\<lambda>_. Inr (current, changed_record now c current, c)))"

definition publish_event :: "event_type \<Rightarrow> time \<Rightarrow> string option \<Rightarrow> details \<Rightarrow> unit run_act" where
  "publish_event ty now task_id payload =
     bnd (exec_get xe_plan) (\<lambda>plan.
     on_app (publish \<lparr>ev_event_type = ty, ev_timestamp = now, ev_session_id = p_session_id plan,
       ev_conversation_id = Some (p_conversation_id plan), ev_cycle_id = Some (p_cycle_id plan),
       ev_plan_id = Some (p_plan_id plan), ev_task_id = task_id, ev_payload = payload\<rparr>))"

definition translation_payload :: "execution \<Rightarrow> string \<Rightarrow> details" where
  "translation_payload x k =
     (case dict_get (xe_translations x) k of
        None \<Rightarrow> []
      | Some d \<Rightarrow> [(''translated_to'', JStr (shell_dialect_value (ct_target d))), (''translation_rules'', JArr (map JStr (ct_rules d)))]
          @ (case ct_reason d of None \<Rightarrow> [(''cmd_executed'', JStr (ct_executed d))] | Some r \<Rightarrow> [(''translation_note'', JStr r)]))"

definition change_payload :: "execution \<Rightarrow> task_record \<Rightarrow> task_record \<Rightarrow> change \<Rightarrow> details" where
  "change_payload x current record c =
     state_change_payload (Some (task_state_value (t_status current))) (task_state_value (t_status record)) (ch_reason c)
     @ (if t_status record = Task_RUNNING then translation_payload x (t_task_id record) else [])
     @ (if t_status current = Task_RUNNING
        then [(''exit_code'', jint_opt (t_exit_code record)), (''duration_ms'', jint_opt (t_duration_ms record)),
              (''timed_out'', JBool (t_timed_out record)), (''truncated'', JBool (t_truncated record))] else [])"

definition commit_change :: "time \<Rightarrow> task_record \<times> task_record \<times> change \<Rightarrow> unit run_act" where
  "commit_change now = (\<lambda>(current, record, c).
     andthen (exec_set (\<lambda>x. x\<lparr>xe_tasks := dict_set (t_task_id record) record (xe_tasks x)\<rparr>))
    (bnd (exec_get (\<lambda>x. change_payload x current record c)) (\<lambda>payload.
     publish_event TASK_STATE_CHANGED now (Some (t_task_id record)) payload)))"

definition apply_changes :: "(execution \<Rightarrow> change list) \<Rightarrow> blob_record list \<Rightarrow> unit run_act" where
  "apply_changes changes blobs =
     bnd (on_app clock_now) (\<lambda>now.
     bnd (exec_get (\<lambda>x. mapR (prepare_change now x) (changes x))) (\<lambda>prepared.
     bnd (lifting prepared) (\<lambda>applied.
     unless (applied = [] \<and> blobs = [])
       (andthen (on_app (on_store (transaction
          (andthen (for_each blobs save_blob) (for_each (map (\<lambda>a. fst (snd a)) applied) save_task)))))
        (for_each applied (commit_change now))))))"

definition counted :: "task_state set \<Rightarrow> execution \<Rightarrow> int" where
  "counted S x = int (length (filter (\<lambda>kt. t_status (snd kt) \<in> S) (xe_tasks x)))"

definition moved_plan :: "execution \<Rightarrow> plan_state \<Rightarrow> string option \<Rightarrow> time \<Rightarrow> plan_record" where
  "moved_plan x to stop_reason now =
     (let p = (xe_plan x)\<lparr>p_status := to, p_updated_at := now, p_task_count := int (length (xe_tasks x)),
            p_completed_task_count := counted {Task_COMPLETED} x, p_failed_task_count := counted FAILED_TASK_STATES x,
            p_skipped_task_count := counted {Task_SKIPPED} x, p_cancelled_task_count := counted {Task_CANCELLED} x,
            p_interrupted_task_count := counted {Task_INTERRUPTED} x\<rparr>;
          p' = (if to = Plan_RUNNING then p\<lparr>p_started_at := Some now\<rparr> else p)
      in if to \<in> TERMINAL_PLAN_STATES then p'\<lparr>p_ended_at := Some now, p_stop_reason := stop_reason\<rparr> else p')"

definition transition_plan :: "plan_state \<Rightarrow> string option \<Rightarrow> unit run_act" where
  "transition_plan to stop_reason =
     bnd (exec_get (\<lambda>x. p_status (xe_plan x))) (\<lambda>current.
     andthen (lifting (assert_transition PLAN_TRANSITIONS plan_state_value current to ''plan''))
    (bnd (on_app clock_now) (\<lambda>now.
     bnd (exec_get (\<lambda>x. moved_plan x to stop_reason now)) (\<lambda>plan.
     andthen (on_app (on_store (transaction (save_plan plan))))
    (andthen (exec_set (\<lambda>x. x\<lparr>xe_plan := plan\<rparr>))
     (publish_event PLAN_STATE_CHANGED now None
        (state_change_payload (Some (plan_state_value current)) (plan_state_value to) None
         @ (case stop_reason of None \<Rightarrow> [] | Some r \<Rightarrow> [(''stop_reason'', JStr r)]))))))))"

section \<open>Scheduling\<close>

definition dependencies_completed :: "execution \<Rightarrow> task_record \<Rightarrow> bool" where
  "dependencies_completed x t \<longleftrightarrow> list_all (\<lambda>d. task_status x d = Task_COMPLETED) (t_depends_on t)"

definition lock_set :: "task_record \<Rightarrow> string set" where
  "lock_set t = (case t_resource_lock t of None \<Rightarrow> {} | Some l \<Rightarrow> {l})"

definition launchable :: "execution \<Rightarrow> string set \<Rightarrow> string \<Rightarrow> bool" where
  "launchable x picked_locks k \<longleftrightarrow>
     task_status x k = Task_PENDING \<and> dependencies_completed x (task_at x k)
   \<and> lock_set (task_at x k) \<inter> (xe_held_locks x \<union> picked_locks) = {}"

fun pick :: "execution \<Rightarrow> string list \<Rightarrow> int \<Rightarrow> string set \<Rightarrow> string list" where
  "pick x [] slots picked_locks = []"
| "pick x (k # ks) slots picked_locks =
     (if slots \<le> 0 then []
      else if task_status x k \<in> TERMINAL_TASK_STATES then pick x ks slots picked_locks
      else if launchable x picked_locks k then k # pick x ks (slots - 1) (picked_locks \<union> lock_set (task_at x k))
      else if p_execution_policy (xe_plan x) = SEQUENTIAL then []
      else pick x ks slots picked_locks)"

definition ready :: "execution \<Rightarrow> string list" where
  "ready x = pick x (xe_order x) (xe_workers x - int (length (xe_running x))) {}"

definition decide_translation :: "runner \<Rightarrow> task_record \<Rightarrow> unit run_act" where
  "decide_translation rn t =
     (if t_type t \<noteq> CMD then ret ()
      else bnd (lifting (co_translate (rn_collector rn) (t_cmd t))) (\<lambda>decided. case decided of
        None \<Rightarrow> ret ()
      | Some d \<Rightarrow> exec_set (\<lambda>x. x\<lparr>xe_translations := dict_set (t_task_id t) d (xe_translations x)\<rparr>)))"

definition launch :: "runner \<Rightarrow> string \<Rightarrow> unit run_act" where
  "launch rn k =
     bnd (exec_get (\<lambda>x. task_at x k)) (\<lambda>t.
     andthen (exec_set (\<lambda>x. x\<lparr>xe_held_locks := xe_held_locks x \<union> lock_set t, xe_tokens := dict_set k None (xe_tokens x)\<rparr>))
    (andthen (decide_translation rn t)
    (bnd (on_app clock_now) (\<lambda>now.
     andthen (apply_changes (\<lambda>_. [\<lparr>ch_task_id = k, ch_to = Task_RUNNING, ch_reason = None, ch_ended_at = None,
       ch_fields = \<lambda>t. t\<lparr>t_started_at := Some now, t_attempt_count := 1\<rparr>\<rparr>]) [])
    (bnd (on_app clock_monotonic_ms) (\<lambda>ms.
     exec_set (\<lambda>x. x\<lparr>xe_started_monotonic := dict_set k ms (xe_started_monotonic x), xe_running := xe_running x @ [k]\<rparr>)))))))"

definition unfinished :: "execution \<Rightarrow> string list" where
  "unfinished x = filter (\<lambda>k. task_status x k \<notin> TERMINAL_TASK_STATES) (xe_order x)"

definition launch_ready :: "runner \<Rightarrow> unit run_act" where
  "launch_ready rn =
     bnd (exec_get ready) (\<lambda>ks.
     andthen (for_each ks (launch rn))
    (bnd (exec_get (\<lambda>x. x)) (\<lambda>x.
     whenever (xe_running x = [] \<and> unfinished x \<noteq> [])
       (throw (GenericSystemError ''PLAN_SCHEDULER_STALLED'' ''PlanRunner'' False
          [(''plan_id'', JStr (p_plan_id (xe_plan x))),
           (''tasks'', JObj (map (\<lambda>k. (k, JStr (task_state_value (task_status x k)))) (unfinished x)))])))))"

section \<open>Workers\<close>

definition task_timeout_ms :: "runner \<Rightarrow> task_record \<Rightarrow> int" where
  "task_timeout_ms rn t = (case t_timeout_ms_applied t of Some ms \<Rightarrow> ms
     | None \<Rightarrow> min (first_set (t_timeout_ms t) None (x_default_task_timeout_ms (rn_exec rn))) (x_max_task_timeout_ms (rn_exec rn)))"

definition task_budget :: "runner \<Rightarrow> execution \<Rightarrow> task_record \<Rightarrow> int" where
  "task_budget rn x t = (case t_max_output_bytes_applied t of Some b \<Rightarrow> b
     | None \<Rightarrow> effective_budget (rn_payload rn) (t_max_output_bytes t) (p_default_max_output_bytes (xe_plan x)))"

text \<open>\<open>CommandSpec.__post_init__\<close> raises on a blank command or a time-out that is not positive.\<close>

definition make_spec :: "runner \<Rightarrow> execution \<Rightarrow> task_record \<Rightarrow> exn + command_spec" where
  "make_spec rn x t =
     (let cmd = (case dict_get (xe_translations x) (t_task_id t) of Some d \<Rightarrow> ct_executed d
            | None \<Rightarrow> (case t_cmd t of None \<Rightarrow> [] | Some c \<Rightarrow> c));
          env = (case rn_scratch rn of None \<Rightarrow> None | Some f \<Rightarrow> if f (t_session_id t) = [] then None else Some (f (t_session_id t)))
      in if strip cmd = [] then Inl (ValueError ''cmd must not be blank'')
         else if task_timeout_ms rn t \<le> 0 then Inl (ValueError ''timeout_ms must be > 0'')
         else Inr \<lparr>sp_task_id = t_task_id t, sp_cmd = cmd, sp_timeout_ms = task_timeout_ms rn t, sp_env = env\<rparr>)"

definition serve_task :: "runner \<Rightarrow> store \<Rightarrow> execution \<Rightarrow> task_record \<Rightarrow> exn + (chunk_error + chunk_result)" where
  "serve_task rn st x t =
     serve_chunk (rn_payload rn) st (t_session_id t) (case t_ref_task_id t of None \<Rightarrow> [] | Some r \<Rightarrow> r)
       (case t_stream t of None \<Rightarrow> STDOUT | Some s \<Rightarrow> s) (case t_byte_offset t of None \<Rightarrow> 0 | Some b \<Rightarrow> b)
       (case t_max_bytes t of Some m \<Rightarrow> m | None \<Rightarrow> task_budget rn x t)"

text \<open>\<open>_execute\<close>: what the worker of a task returns or raises, the executor's answer being given.\<close>

definition worker_end :: "runner \<Rightarrow> (command_spec \<Rightarrow> exn + raw_execution) \<Rightarrow> store \<Rightarrow> execution \<Rightarrow> string \<Rightarrow> exn + ended" where
  "worker_end rn execute st x k =
     (let t = task_at x k
      in if t_type t = CHUNK_REQUEST then bindR (serve_task rn st x t) (\<lambda>r. Inr (Chunk_ended r))
         else bindR (make_spec rn x t) (\<lambda>spec.
           case execute spec of
             Inr raw \<Rightarrow> Inr (Raw_ended raw)
           | Inl (App_Error e) \<Rightarrow> if ne_error_type e = TASK_EXECUTION_ERROR then Inr (Defect_ended e) else Inl (App_Error e)
           | Inl other \<Rightarrow> Inl other))"

definition persist_pid :: "string \<Rightarrow> int \<Rightarrow> int option \<Rightarrow> unit run_act" where
  "persist_pid k pid pgid =
     bnd (on_app clock_now) (\<lambda>now.
     bnd (exec_get (\<lambda>x. (task_at x k)\<lparr>t_pid := Some pid, t_process_group_id := pgid, t_updated_at := now\<rparr>)) (\<lambda>record.
     andthen (on_app (on_store (save_task record)))
     (exec_set (\<lambda>x. x\<lparr>xe_tasks := dict_set k record (xe_tasks x)\<rparr>))))"

text \<open>The decoded data may hold any code point: it is kept as the list of its code points.\<close>

definition publish_output :: "string \<Rightarrow> output_stream \<Rightarrow> int \<Rightarrow> string \<Rightarrow> unit run_act" where
  "publish_output k stream offset data =
     bnd (on_app clock_now) (\<lambda>now.
     publish_event TASK_OUTPUT now (Some k)
       [(''stream'', JStr (output_stream_value stream)), (''offset'', JInt offset), (''size'', JInt (int (length data))),
        (''data'', JArr (map (\<lambda>c. JInt (int c)) (decode_output data)))])"

text \<open>A callback runs inside its worker: what it raises goes to the executor, not to the loop.\<close>

definition run_callback :: "callback \<Rightarrow> unit run_act" where
  "run_callback c =
     bnd (exec_get xe_running) (\<lambda>running.
     case c of
       On_spawn k pid pgid \<Rightarrow> whenever (k \<in> set running) (catching (persist_pid k pid pgid) (\<lambda>_. ret ()))
     | On_output k stream offset data \<Rightarrow> whenever (k \<in> set running) (catching (publish_output k stream offset data) (\<lambda>_. ret ())))"

section \<open>Ending a task\<close>

definition PLAN_STOPPED_REASON :: string where "PLAN_STOPPED_REASON = ''plan_stopped''"
definition INTERRUPT_REASON :: string where "INTERRUPT_REASON = ''user_interrupt''"
definition BUDGET_EXCEEDED_REASON :: string where "BUDGET_EXCEEDED_REASON = ''budget_exceeded''"
definition BUDGET_DURATION_STOP_REASON :: string where
  "BUDGET_DURATION_STOP_REASON = ''budget_exceeded:max_total_duration_ms''"
definition SPAWN_FAILED_REASON :: string where "SPAWN_FAILED_REASON = ''SPAWN_FAILED''"

definition cancelled_state :: "execution \<Rightarrow> task_state \<times> string option" where
  "cancelled_state x =
     (if xe_interrupting x then (Task_INTERRUPTED, Some INTERRUPT_REASON)
      else case xe_stop_reason x of
        Some r \<Rightarrow> (Task_CANCELLED, Some (PLAN_STOPPED_REASON @ '':'' @ r))
      | None \<Rightarrow> (Task_CANCELLED, Some PLAN_STOPPED_REASON))"

definition raw_state :: "execution \<Rightarrow> raw_execution \<Rightarrow> task_state \<times> string option" where
  "raw_state x raw =
     (if raw_outcome raw = Task_CANCELLED then cancelled_state x
      else if raw_outcome raw = Task_FAILED \<and> rx_spawn_error raw \<noteq> None then (Task_FAILED, Some SPAWN_FAILED_REASON)
      else (raw_outcome raw, None))"

fun chunk_error_code_value :: "chunk_error_code \<Rightarrow> string" where
  "chunk_error_code_value CHUNK_REF_NOT_FOUND = ''CHUNK_REF_NOT_FOUND''"
| "chunk_error_code_value CHUNK_RANGE_INVALID = ''CHUNK_RANGE_INVALID''"

text \<open>The state, the reason and the normalized failure of an end.\<close>

definition spawn_failure :: "task_record \<Rightarrow> string \<Rightarrow> normalized_error" where
  "spawn_failure t spawn_error =
     err TASK_EXECUTION_ERROR SPAWN_FAILED_REASON ''CommandExecutor'' Severity_HIGH False True
       [(''task_id'', JStr (t_task_id t)), (''cmd'', jstr_opt (t_cmd t)), (''error'', JStr spawn_error)]"

fun end_state :: "execution \<Rightarrow> ended \<Rightarrow> task_state \<times> string option" where
  "end_state x (Chunk_ended (Inr chunk)) = (Task_COMPLETED, None)"
| "end_state x (Chunk_ended (Inl e)) = (Task_FAILED, Some (chunk_error_code_value (ce_code e)))"
| "end_state x (Raw_ended raw) = raw_state x raw"
| "end_state x (Defect_ended e) = (Task_FAILED, Some (ne_error_code e))"
| "end_state x Forced_end = cancelled_state x"

fun end_failure :: "task_record \<Rightarrow> ended \<Rightarrow> normalized_error option" where
  "end_failure t (Raw_ended raw) = map_option (spawn_failure t) (rx_spawn_error raw)"
| "end_failure t (Defect_ended e) = Some e"
| "end_failure t _ = None"

definition stream_blob :: "task_record \<Rightarrow> time \<Rightarrow> output_stream \<Rightarrow> string \<Rightarrow> blob_record app_act" where
  "stream_blob t now stream content =
     bnd new_blob_id (\<lambda>blob_id.
     ret \<lparr>b_blob_id = blob_id, b_session_id = t_session_id t, b_task_id = t_task_id t, b_blob_type = stream,
          b_content = content, b_size_bytes = int (length content), b_created_at = now\<rparr>)"

definition output_fields :: "raw_execution \<Rightarrow> truncated_output \<Rightarrow> string \<Rightarrow> string \<Rightarrow> task_record \<Rightarrow> task_record" where
  "output_fields raw kept stdout_ref stderr_ref t =
     t\<lparr>t_exit_code := rx_exit_code raw, t_timed_out := rx_timed_out raw,
       t_pid := (if rx_pid raw \<noteq> None then rx_pid raw else t_pid t),
       t_process_group_id := (if rx_process_group_id raw \<noteq> None then rx_process_group_id raw else t_process_group_id t),
       t_stdout_ref := Some stdout_ref, t_stderr_ref := Some stderr_ref, t_truncated := to_truncated kept,
       t_original_size_bytes := Some (to_original_size_bytes kept), t_stdout_total := Some (to_stdout_total kept),
       t_stderr_total := Some (to_stderr_total kept), t_stdout_range := Some (to_stdout_range kept),
       t_stderr_range := Some (to_stderr_range kept)\<rparr>"

text \<open>What an end adds to the run before the transition: blobs, truncated output, served chunk.\<close>

definition record_output :: "runner \<Rightarrow> task_record \<Rightarrow> time \<Rightarrow> ended \<Rightarrow> (blob_record list \<times> (task_record \<Rightarrow> task_record)) run_act" where
  "record_output rn t now e =
     (case e of
        Chunk_ended (Inr chunk) \<Rightarrow>
          andthen (exec_set (\<lambda>x. x\<lparr>xe_chunks := dict_set (t_task_id t) chunk (xe_chunks x)\<rparr>)) (ret ([], \<lambda>t. t))
      | Raw_ended raw \<Rightarrow>
          bnd (on_app (stream_blob t now STDOUT (rx_stdout raw))) (\<lambda>out.
          bnd (on_app (stream_blob t now STDERR (rx_stderr raw))) (\<lambda>errs.
          bnd (exec_get (\<lambda>x. apply_budget (rx_stdout raw) (rx_stderr raw) (task_budget rn x t))) (\<lambda>r.
          bnd (lifting r) (\<lambda>kept.
          andthen (exec_set (\<lambda>x. x\<lparr>xe_outputs := dict_set (t_task_id t) kept (xe_outputs x)\<rparr>))
          (ret ([out, errs], output_fields raw kept (b_blob_id out) (b_blob_id errs)))))))
      | _ \<Rightarrow> ret ([], \<lambda>t. t))"

definition release_dependants :: "unit run_act" where
  "release_dependants =
     apply_changes (\<lambda>x. map (\<lambda>k. plain_change k Task_PENDING None)
       (filter (\<lambda>k. task_status x k = Task_WAITING_DEPENDENCY \<and> dependencies_completed x (task_at x k)) (xe_order x))) []"

text \<open>
  The worklist of \<open>_skip_dependants\<close>: each pop adds the schedulable dependants not yet skipped. The second
  component lists the tasks that can still be skipped; it shrinks by what is appended to the worklist.
\<close>

definition dependency_label :: "task_state \<Rightarrow> string" where
  "dependency_label s = (if s \<in> FAILED_TASK_STATES then ''dependency_failed'' else ''dependency_skipped'')"

lemma filter_split_length: "length (filter (\<lambda>k. \<not> p k) xs) + length (filter p xs) = length xs"
  by (induction xs) auto

function skip_from :: "execution \<Rightarrow> string list \<Rightarrow> (string \<times> task_state) list \<Rightarrow> change list" where
  "skip_from x candidates [] = []"
| "skip_from x candidates ((d, s) # worklist) =
     (let hit = filter (\<lambda>k. d \<in> set (t_depends_on (task_at x k))) candidates
      in map (\<lambda>k. plain_change k Task_SKIPPED (Some (dependency_label s @ '':'' @ d))) hit
         @ skip_from x (filter (\<lambda>k. d \<notin> set (t_depends_on (task_at x k))) candidates)
             (worklist @ map (\<lambda>k. (k, Task_SKIPPED)) hit))"
  by pat_completeness auto
termination
  by (relation "measure (\<lambda>(x, candidates, worklist). length candidates + length worklist)")
    (simp_all add: filter_split_length)

definition skip_dependants :: "string \<Rightarrow> task_state \<Rightarrow> unit run_act" where
  "skip_dependants ended_id s =
     apply_changes (\<lambda>x. skip_from x (filter (\<lambda>k. task_status x k \<in> SCHEDULABLE_STATES) (xe_order x)) [(ended_id, s)]) []"

definition record_run_failure :: "runner \<Rightarrow> task_record \<Rightarrow> normalized_error option \<Rightarrow> unit run_act" where
  "record_run_failure rn t failure =
     (case failure of
        None \<Rightarrow> ret ()
      | Some e \<Rightarrow> whenever (rn_has_failure_manager rn)
          (on_app (andthen (record_failure_of e (t_session_id t) (Some (t_conversation_id t)) (Some (t_plan_id t)) (Some (t_task_id t)))
             (ret ()))))"

definition finish :: "runner \<Rightarrow> string \<Rightarrow> ended \<Rightarrow> bool \<Rightarrow> task_state run_act" where
  "finish rn k e propagate =
     bnd (exec_get (\<lambda>x. task_at x k)) (\<lambda>t.
     bnd (on_app clock_now) (\<lambda>now.
     bnd (on_app clock_monotonic_ms) (\<lambda>ms.
     bnd (exec_get (\<lambda>x. ms - the (dict_get (xe_started_monotonic x) k))) (\<lambda>duration.
     bnd (record_output rn t now e) (\<lambda>(blobs, fields).
     bnd (exec_get (\<lambda>x. end_state x e)) (\<lambda>(to, reason).
     andthen (apply_changes (\<lambda>_. [\<lparr>ch_task_id = k, ch_to = to, ch_reason = reason, ch_ended_at = Some now,
        ch_fields = \<lambda>t. fields (t\<lparr>t_duration_ms := Some duration\<rparr>)\<rparr>]) blobs)
    (andthen (exec_set (\<lambda>x. x\<lparr>xe_held_locks := xe_held_locks x - lock_set t\<rparr>))
    (andthen (record_run_failure rn t (end_failure t e))
    (andthen (whenever propagate (if to = Task_COMPLETED then release_dependants else skip_dependants k to))
     (ret to))))))))))"

section \<open>Stop conditions\<close>

definition failure_is_verdict :: "runner \<Rightarrow> task_record \<Rightarrow> task_state \<Rightarrow> bool" where
  "failure_is_verdict rn t s \<longleftrightarrow> s = Task_FAILED \<and> t_type t = CMD
     \<and> is_verdict (co_verdict_programs (rn_collector rn)) (t_cmd t) (t_exit_code t) (t_timed_out t) (co_dialect (rn_collector rn))"

definition stop_condition :: "runner \<Rightarrow> task_record \<Rightarrow> task_state \<Rightarrow> (plan_state \<times> string) option" where
  "stop_condition rn t s =
     (if s = Task_COMPLETED \<and> t_stop_plan_on_success t
      then Some (Plan_SHORT_CIRCUITED_ON_SUCCESS, ''stop_plan_on_success:'' @ t_task_id t)
      else if s \<in> FAILED_TASK_STATES \<and> t_stops_plan_on_failure t
      then if failure_is_verdict rn t s \<and> \<not> (t_critical t \<or> t_stop_plan_on_failure t) then None
           else Some (Plan_STOPPED_ON_FAILURE,
             (if t_critical t then ''critical_task_failed'' else if t_stop_plan_on_failure t then ''stop_plan_on_failure'' else ''task_failed'')
             @ '':'' @ t_task_id t)
      else None)"

section \<open>Drains and outcomes\<close>

text \<open>\<open>token.cancel\<close> keeps the first reason.\<close>

definition cancel_token :: "string \<Rightarrow> string \<Rightarrow> execution \<Rightarrow> execution" where
  "cancel_token reason k x =
     (case dict_get (xe_tokens x) k of
        Some None \<Rightarrow> x\<lparr>xe_tokens := dict_set k (Some reason) (xe_tokens x)\<rparr> | _ \<Rightarrow> x)"

definition settled_end :: "runner \<Rightarrow> drain \<Rightarrow> store \<Rightarrow> execution \<Rightarrow> string \<Rightarrow> exn + ended" where
  "settled_end rn dr st x k = (if k \<in> set (dr_late dr) then Inr Forced_end else worker_end rn (dr_result dr) st x k)"

definition pop_and_finish :: "runner \<Rightarrow> bool \<Rightarrow> string \<times> (exn + ended) \<Rightarrow> task_state run_act" where
  "pop_and_finish rn propagate = (\<lambda>(k, r).
     andthen (exec_set (\<lambda>x. x\<lparr>xe_running := removeAll k (xe_running x)\<rparr>))
    (bnd (lifting r) (\<lambda>e. finish rn k e propagate)))"

definition drain_running :: "runner \<Rightarrow> drain \<Rightarrow> string \<Rightarrow> unit run_act" where
  "drain_running rn dr reason =
     andthen (exec_set (\<lambda>x. fold (cancel_token reason) (filter (\<lambda>k. k \<notin> set (dr_done dr)) (xe_running x)) x))
    (andthen (for_each (dr_callbacks dr) run_callback)
    (bnd (reading (\<lambda>s. map (\<lambda>k. (k, settled_end rn dr (w_store (fst s)) (snd s) k))
        (filter (\<lambda>k. k \<in> set (xe_running (snd s))) (xe_order (snd s))))) (\<lambda>settled.
     for_each settled (\<lambda>kr. andthen (pop_and_finish rn False kr) (ret ())))))"

definition mark_remaining :: "task_state \<Rightarrow> string \<Rightarrow> unit run_act" where
  "mark_remaining to reason =
     apply_changes (\<lambda>x. map (\<lambda>k. plain_change k to (Some reason))
       (filter (\<lambda>k. task_status x k \<in> SCHEDULABLE_STATES) (xe_order x))) []"

definition ordered_tasks :: "execution \<Rightarrow> task_record list" where
  "ordered_tasks x = map (task_at x) (xe_order x)"

definition make_outcome :: "execution_result_content option \<Rightarrow> bool \<Rightarrow> bool \<Rightarrow> plan_outcome run_act" where
  "make_outcome result interrupted budget_exceeded =
     exec_get (\<lambda>x. \<lparr>po_plan = xe_plan x, po_tasks = ordered_tasks x, po_execution_result = result,
       po_interrupted = interrupted, po_budget_exceeded = budget_exceeded, po_stop_reason = p_stop_reason (xe_plan x)\<rparr>)"

text \<open>\<open>_build_result\<close>, then the outcome; \<open>None\<close> when the loop of \<open>fit_message\<close> does not end.\<close>

definition outcome_with_result :: "runner \<Rightarrow> bool \<Rightarrow> plan_outcome option run_act" where
  "outcome_with_result rn budget_exceeded =
     bnd (exec_get (\<lambda>x. collect (rn_collector rn) (xe_plan x) (ordered_tasks x) (xe_outputs x) (xe_chunks x))) (\<lambda>r.
     bnd (lifting r) (\<lambda>content.
     case fit_message content (y_max_message_bytes (rn_payload rn)) of
       None \<Rightarrow> ret None
     | Some fitted \<Rightarrow> bnd (make_outcome (Some fitted) False budget_exceeded) (\<lambda>res. ret (Some res))))"

definition completed_run :: "runner \<Rightarrow> plan_outcome option run_act" where
  "completed_run rn =
     bnd (exec_get unfinished) (\<lambda>stuck.
     andthen (whenever (stuck \<noteq> [])
       (bnd (exec_get (\<lambda>x. p_plan_id (xe_plan x))) (\<lambda>pid.
        throw (GenericSystemError ''PLAN_TASKS_NOT_TERMINAL'' ''PlanRunner'' False
          [(''plan_id'', JStr pid), (''tasks'', JArr (map JStr stuck))]))))
    (andthen (transition_plan Plan_COMPLETED None) (outcome_with_result rn False)))"

definition stopped_run :: "runner \<Rightarrow> drain \<Rightarrow> plan_state \<times> string \<Rightarrow> plan_outcome option run_act" where
  "stopped_run rn dr = (\<lambda>(target, stop_reason).
     andthen (exec_set (\<lambda>x. x\<lparr>xe_stop_reason := Some stop_reason\<rparr>))
    (andthen (drain_running rn dr PLAN_STOPPED_REASON)
    (andthen (mark_remaining Task_SKIPPED (PLAN_STOPPED_REASON @ '':'' @ stop_reason))
    (andthen (transition_plan target (Some stop_reason)) (outcome_with_result rn False)))))"

definition interrupted_run :: "runner \<Rightarrow> drain \<Rightarrow> plan_outcome option run_act" where
  "interrupted_run rn dr =
     andthen (exec_set (\<lambda>x. x\<lparr>xe_interrupting := True\<rparr>))
    (andthen (drain_running rn dr INTERRUPT_REASON)
    (andthen (mark_remaining Task_INTERRUPTED INTERRUPT_REASON)
    (andthen (transition_plan Plan_INTERRUPTED (Some INTERRUPT_REASON))
    (bnd (make_outcome None True False) (\<lambda>res. ret (Some res))))))"

definition budget_failed_run :: "runner \<Rightarrow> plan_outcome option run_act" where
  "budget_failed_run rn =
     andthen (mark_remaining Task_SKIPPED BUDGET_EXCEEDED_REASON)
    (andthen (transition_plan Plan_FAILED (Some BUDGET_DURATION_STOP_REASON)) (outcome_with_result rn True))"

section \<open>The loop\<close>

definition check_deadline :: "unit run_act" where
  "check_deadline =
     bnd (exec_get (\<lambda>x. x)) (\<lambda>x.
     if xe_budget_exceeded x then ret ()
     else case s_started_at (xe_session x) of
       None \<Rightarrow> ret ()
     | Some started \<Rightarrow> bnd (on_app clock_now) (\<lambda>now.
         whenever (now - started \<ge> max_total_duration_ms (s_budget (xe_session x)) * 1000)
           (exec_set (\<lambda>x. x\<lparr>xe_budget_exceeded := True\<rparr>))))"

definition start_plan :: "unit run_act" where
  "start_plan =
     andthen (transition_plan Plan_RUNNING None)
    (andthen (bnd (exec_get (\<lambda>x. p_execution_policy (xe_plan x))) (\<lambda>policy.
       whenever (policy = PARALLEL)
         (apply_changes (\<lambda>x. map (\<lambda>k. plain_change k Task_WAITING_DEPENDENCY None)
            (filter (\<lambda>k. t_depends_on (task_at x k) \<noteq> []) (xe_order x))) [])))
     (exec_set (\<lambda>x. x\<lparr>xe_started := True\<rparr>)))"

text \<open>One turn of \<open>_loop\<close> up to \<open>asyncio.wait\<close>: \<open>Inl\<close> the run's end, \<open>Inr\<close> when it has to wait.\<close>

definition loop_head :: "runner \<Rightarrow> drain \<Rightarrow> (plan_outcome option + unit) run_act" where
  "loop_head rn dr =
     bnd (exec_get xe_interrupted) (\<lambda>interrupted.
     if interrupted then bnd (interrupted_run rn dr) (\<lambda>res. ret (Inl res))
     else andthen check_deadline
       (bnd (exec_get (\<lambda>x. x)) (\<lambda>x.
        andthen (if xe_budget_exceeded x then ret ()
                 else andthen (unless (xe_started x) start_plan) (launch_ready rn))
       (bnd (exec_get xe_running) (\<lambda>running.
        if running \<noteq> [] then ret (Inr ())
        else if xe_budget_exceeded x then bnd (budget_failed_run rn) (\<lambda>res. ret (Inl res))
        else bnd (completed_run rn) (\<lambda>res. ret (Inl res)))))))"

text \<open>The tasks that ended, in declaration order; a stop condition ends the run.\<close>

fun finish_all :: "runner \<Rightarrow> drain \<Rightarrow> (string \<times> (exn + ended)) list \<Rightarrow> (plan_outcome option + unit) run_act" where
  "finish_all rn dr [] = ret (Inr ())"
| "finish_all rn dr ((k, r) # rest) =
     bnd (exec_get xe_budget_exceeded) (\<lambda>over.
     bnd (pop_and_finish rn (\<not> over) (k, r)) (\<lambda>state.
     bnd (exec_get (\<lambda>x. stop_condition rn (task_at x k) state)) (\<lambda>stop.
     case (if over then None else stop) of
       None \<Rightarrow> finish_all rn dr rest
     | Some target \<Rightarrow> bnd (stopped_run rn dr target) (\<lambda>res. ret (Inl res)))))"

definition wake_up :: "runner \<Rightarrow> drain \<Rightarrow> wake \<Rightarrow> (plan_outcome option + unit) run_act" where
  "wake_up rn dr wk =
     andthen (for_each (wk_callbacks wk) run_callback)
    (andthen (exec_set (\<lambda>x. x\<lparr>xe_interrupted := (xe_interrupted x \<or> wk_interrupt wk)\<rparr>))
    (bnd (reading (\<lambda>s. map (\<lambda>k. (k, worker_end rn (wk_result wk) (w_store (fst s)) (snd s) k))
        (filter (\<lambda>k. k \<in> set (wk_done wk) \<and> k \<in> set (xe_running (snd s))) (xe_order (snd s))))) (\<lambda>finished.
     bnd (exec_get xe_interrupted) (\<lambda>interrupted.
     if interrupted then ret (Inr ()) else finish_all rn dr finished))))"

text \<open>Where a run is after the wakes it was given: waiting, in a re-truncation that never ends, or returned.\<close>

datatype progress = Waiting | Refitting_forever | Returned plan_outcome

fun run_end :: "plan_outcome option + unit \<Rightarrow> progress option" where
  "run_end (Inl (Some res)) = Some (Returned res)"
| "run_end (Inl None) = Some Refitting_forever"
| "run_end (Inr _) = None"

fun run_loop :: "runner \<Rightarrow> drain \<Rightarrow> wake list \<Rightarrow> progress run_act" where
  "run_loop rn dr [] =
     bnd (loop_head rn dr) (\<lambda>r. case run_end r of Some p \<Rightarrow> ret p | None \<Rightarrow> ret Waiting)"
| "run_loop rn dr (wk # wks) =
     bnd (loop_head rn dr) (\<lambda>r. case run_end r of
       Some p \<Rightarrow> ret p
     | None \<Rightarrow> bnd (wake_up rn dr wk) (\<lambda>r. case run_end r of Some p \<Rightarrow> ret p | None \<Rightarrow> run_loop rn dr wks))"

definition run_plan ::
  "runner \<Rightarrow> plan_record \<Rightarrow> task_record list \<Rightarrow> session_record \<Rightarrow> bool \<Rightarrow> drain \<Rightarrow> wake list \<Rightarrow> progress app_act" where
  "run_plan rn plan tasks session interrupted dr wakes w =
     (case andthen (lifting (validate_run (new_execution plan tasks session interrupted))) (run_loop rn dr wakes)
             (w, new_execution plan tasks session interrupted) of
        (r, (w', _)) \<Rightarrow> (r, w'))"

end
