(* ===== verification/Scheduling.thy ===== *)
theory Scheduling
  imports Runner
begin

text \<open>
  The scheduler of \<open>plan_runner.py\<close> is right: the invariant every step of a run keeps, what it implies at
  every point where the run waits, that the run never stalls and raises nothing of its own, and that it ends.

  Steps act on the application and on the state of the run; \<open>during\<close> speaks of the second and of what may be raised.
\<close>

section \<open>What a step does to the state of the run\<close>

definition during :: "(execution \<Rightarrow> bool) \<Rightarrow> 'a run_act \<Rightarrow> ('a \<Rightarrow> execution \<Rightarrow> bool) \<Rightarrow> (exn \<Rightarrow> bool) \<Rightarrow> bool" where
  "during P m Q X \<longleftrightarrow> (\<forall>w x. P x \<longrightarrow>
     (\<forall>v w' x'. m (w, x) = (Inr v, (w', x')) \<longrightarrow> Q v x') \<and> (\<forall>e s'. m (w, x) = (Inl e, s') \<longrightarrow> X e))"

definition raises :: "(exn \<Rightarrow> bool) \<Rightarrow> ('s, exn, 'a) act \<Rightarrow> bool" where
  "raises X m \<longleftrightarrow> (\<forall>s e s'. m s = (Inl e, s') \<longrightarrow> X e)"

lemma duringD: "during P m Q X \<Longrightarrow> P x \<Longrightarrow> m (w, x) = (Inr v, (w', x')) \<Longrightarrow> Q v x'"
  unfolding during_def by blast

lemma during_raises: "during P m Q X \<Longrightarrow> P x \<Longrightarrow> m (w, x) = (Inl e, s') \<Longrightarrow> X e"
  unfolding during_def by blast

lemma duringI:
  assumes "\<And>w x v w' x'. P x \<Longrightarrow> m (w, x) = (Inr v, (w', x')) \<Longrightarrow> Q v x'"
    and "\<And>w x e s'. P x \<Longrightarrow> m (w, x) = (Inl e, s') \<Longrightarrow> X e"
  shows "during P m Q X"
  unfolding during_def using assms by blast

lemma during_ret: "(\<And>x. P x \<Longrightarrow> Q v x) \<Longrightarrow> during P (ret v) Q X"
  by (simp add: during_def ret_def)

lemma during_throw: "(\<And>x. P x \<Longrightarrow> X e) \<Longrightarrow> during P (throw e) Q X"
  by (auto simp: during_def throw_def)

lemma during_get: "(\<And>x. P x \<Longrightarrow> Q (f x) x) \<Longrightarrow> during P (exec_get f) Q X"
  by (simp add: during_def reading_def)

lemma during_reading: "(\<And>w x. P x \<Longrightarrow> Q (f (w, x)) x) \<Longrightarrow> during P (reading f) Q X"
  by (simp add: during_def reading_def)

lemma during_set: "(\<And>x. P x \<Longrightarrow> Q () (f x)) \<Longrightarrow> during P (exec_set f) Q X"
  by (simp add: during_def modifying_def)

lemma during_lifting:
  "(\<And>v x. r = Inr v \<Longrightarrow> P x \<Longrightarrow> Q v x) \<Longrightarrow> (\<And>e x. r = Inl e \<Longrightarrow> P x \<Longrightarrow> X e) \<Longrightarrow> during P (lifting r) Q X"
  by (auto simp: during_def lifting_def)

lemma during_on_app: "raises X m \<Longrightarrow> (\<And>v x. P x \<Longrightarrow> Q v x) \<Longrightarrow> during P (on_app m) Q X"
  by (auto simp: during_def raises_def on_part_def split: prod.splits)

lemma during_bnd:
  assumes "during P m R X" and "\<And>v. during (R v) (f v) Q X"
  shows "during P (bnd m f) Q X"
proof (rule duringI)
  fix w x v w' x' assume "P x" and "bnd m f (w, x) = (Inr v, (w', x'))"
  then obtain u t y where "m (w, x) = (Inr u, (t, y))" "f u (t, y) = (Inr v, (w', x'))" by (auto simp: bnd_Inr)
  then show "Q v x'" using assms \<open>P x\<close> by (meson duringD)
next
  fix w x e s' assume "P x" and "bnd m f (w, x) = (Inl e, s')"
  then consider "m (w, x) = (Inl e, s')" | u t y where "m (w, x) = (Inr u, (t, y))" "f u (t, y) = (Inl e, s')"
    by (auto simp: bnd_Inl)
  then show "X e" using assms \<open>P x\<close> by cases (meson duringD during_raises)+
qed

lemma during_andthen: "during P m (\<lambda>_. R) X \<Longrightarrow> during R n Q X \<Longrightarrow> during P (andthen m n) Q X"
  unfolding andthen_def by (rule during_bnd)

lemma during_weaken:
  "during P' m Q' X \<Longrightarrow> (\<And>x. P x \<Longrightarrow> P' x) \<Longrightarrow> (\<And>v x. Q' v x \<Longrightarrow> Q v x) \<Longrightarrow> during P m Q X"
  unfolding during_def by blast

lemma during_pre: "during P' m Q X \<Longrightarrow> (\<And>x. P x \<Longrightarrow> P' x) \<Longrightarrow> during P m Q X"
  by (rule during_weaken)

lemma during_exn: "during P m Q X \<Longrightarrow> (\<And>e. X e \<Longrightarrow> Y e) \<Longrightarrow> during P m Q Y"
  unfolding during_def by blast

lemma during_assume: "(\<And>x. P x \<Longrightarrow> during (\<lambda>y. y = x) m Q X) \<Longrightarrow> during P m Q X"
  unfolding during_def by blast

lemma during_case_prop: "(b \<Longrightarrow> during P m Q X) \<Longrightarrow> (\<And>x. P x \<Longrightarrow> b) \<Longrightarrow> during P m Q X"
  unfolding during_def by blast

lemma during_whenever:
  "(b \<Longrightarrow> during P m Q X) \<Longrightarrow> (\<And>x. P x \<Longrightarrow> \<not> b \<Longrightarrow> Q () x) \<Longrightarrow> during P (whenever b m) Q X"
  by (cases b) (auto simp: whenever_def during_ret)

lemma during_unless:
  "(\<not> b \<Longrightarrow> during P m Q X) \<Longrightarrow> (\<And>x. P x \<Longrightarrow> b \<Longrightarrow> Q () x) \<Longrightarrow> during P (unless b m) Q X"
  by (cases b) (auto simp: unless_def during_ret)

lemma during_if: "(b \<Longrightarrow> during P m Q X) \<Longrightarrow> (\<not> b \<Longrightarrow> during P n Q X) \<Longrightarrow> during P (if b then m else n) Q X"
  by simp

text \<open>From one state: the rules that execute a step.\<close>

lemma at_get: "during (\<lambda>y. y = x) (k (f x)) Q X \<Longrightarrow> during (\<lambda>y. y = x) (bnd (exec_get f) k) Q X"
  by (auto simp: during_def bnd_def reading_def)

lemma at_set: "during (\<lambda>y. y = f x) n Q X \<Longrightarrow> during (\<lambda>y. y = x) (andthen (exec_set f) n) Q X"
  by (auto simp: during_def andthen_def bnd_def modifying_def)

lemma at_lifting:
  "(\<And>v. r = Inr v \<Longrightarrow> during (\<lambda>y. y = x) (k v) Q X) \<Longrightarrow> (\<And>e. r = Inl e \<Longrightarrow> X e) \<Longrightarrow> during (\<lambda>y. y = x) (bnd (lifting r) k) Q X"
  by (cases r) (auto simp: during_def bnd_def lifting_def)

lemma bnd_on_app: "raises X m \<Longrightarrow> (\<And>v. during P (k v) Q X) \<Longrightarrow> during P (bnd (on_app m) k) Q X"
  by (rule during_bnd [OF during_on_app [where Q = "\<lambda>_. P"]])

lemma andthen_on_app: "raises X m \<Longrightarrow> during P n Q X \<Longrightarrow> during P (andthen (on_app m) n) Q X"
  by (rule during_andthen [OF during_on_app [where Q = "\<lambda>_. P"]])

lemma during_for_each:
  assumes "\<And>seen y rest. ys = seen @ y # rest \<Longrightarrow> during (I (y # rest)) (f y) (\<lambda>_. I rest) X"
  shows "during (I ys) (for_each ys f) (\<lambda>_. I []) X"
proof -
  have "during (I zs) (for_each zs f) (\<lambda>_. I []) X" if "\<exists>seen. ys = seen @ zs" for zs
    using that
  proof (induction zs)
    case (Cons y rest)
    then obtain d where d: "ys = d @ y # rest" by blast
    then have "ys = (d @ [y]) @ rest" by simp
    with Cons.IH have rest: "during (I rest) (for_each rest f) (\<lambda>_. I []) X" by blast
    show ?case using assms [OF d] rest by (auto intro: during_andthen)
  qed (simp add: during_ret)
  then show ?thesis by blast
qed

section \<open>What the application raises\<close>

named_theorems raises_intros \<open>what an action raises, by its shape\<close>

definition persistence_error :: "exn \<Rightarrow> bool" where
  "persistence_error e \<longleftrightarrow> (\<exists>code transient d. e = PersistenceError code transient d)"

text \<open>What a run may raise of itself: an error of the store, or what the dictionary of dialects raises.\<close>

definition own_error :: "runner \<Rightarrow> exn \<Rightarrow> bool" where
  "own_error rn e \<longleftrightarrow> persistence_error e \<or> translator_error (rn_collector rn) e"

lemma own_errorI: "persistence_error e \<Longrightarrow> own_error rn e" "translator_error (rn_collector rn) e \<Longrightarrow> own_error rn e"
  by (simp_all add: own_error_def)

lemma persistence_errorI [simp]: "persistence_error (PersistenceError code transient d)"
  by (auto simp: persistence_error_def)

lemma raises_ret [raises_intros]: "raises X (ret v)"
  and raises_reading [raises_intros]: "raises X (reading f)"
  and raises_modifying [raises_intros]: "raises X (modifying g)"
  by (simp_all add: raises_def flow_simps)

lemma raises_bnd [raises_intros]: "raises X m \<Longrightarrow> (\<And>v. raises X (f v)) \<Longrightarrow> raises X (bnd m f)"
  unfolding raises_def bnd_Inl by blast

lemma raises_andthen [raises_intros]: "raises X m \<Longrightarrow> raises X n \<Longrightarrow> raises X (andthen m n)"
  by (simp add: andthen_def raises_bnd)

lemma raises_for_each [raises_intros]: "(\<And>y. raises X (f y)) \<Longrightarrow> raises X (for_each ys f)"
  by (induction ys) (simp_all add: raises_intros)

lemma raises_throw [raises_intros]: "X e \<Longrightarrow> raises X (throw e)"
  by (simp add: raises_def throw_def)

lemma raises_if [raises_intros]: "raises X m \<Longrightarrow> raises X n \<Longrightarrow> raises X (if b then m else n)"
  by simp

lemma raises_on_part [raises_intros]: "raises X m \<Longrightarrow> raises X (on_part g p m)"
  by (auto simp: raises_def on_part_def split: prod.splits)

lemma raises_write_guard [raises_intros]: "raises persistence_error write_guard"
  by (auto simp: raises_def write_guard_def split: if_splits)

lemma raises_transaction [raises_intros]: "raises persistence_error m \<Longrightarrow> raises persistence_error (transaction m)"
  by (auto simp: raises_def transaction_def split: if_splits prod.splits sum.splits)

lemma raises_saves [raises_intros]:
  "raises persistence_error (save_task t)" "raises persistence_error (save_plan p)"
  "raises persistence_error (save_blob b)" "raises persistence_error (save_failure f)"
  by (simp_all add: save_task_def save_plan_def save_blob_def save_failure_def write_record_def raises_intros)

lemma raises_append_audit [raises_intros]: "raises persistence_error (append_audit_event e)"
  by (auto simp: raises_def append_audit_event_def write_guard_def Let_def split: prod.splits sum.splits if_splits)

lemma raises_clocks [raises_intros]:
  "raises X clock_now" "raises X clock_monotonic_ms" "raises X (new_id p)" "raises X (last_of sid)"
  by (auto simp: raises_def clock_now_def clock_monotonic_ms_def new_id_def last_of_def Let_def split: option.splits)

lemma raises_audit_handle: "raises persistence_error (audit_handle e)"
  unfolding audit_handle_def new_event_id_def by (intro raises_intros)

lemma raises_publish [raises_intros]: "raises persistence_error (publish e)"
  using raises_audit_handle [of e] unfolding raises_def publish_run by (auto split: prod.splits sum.splits)

lemma raises_record_failure_of [raises_intros]: "raises persistence_error (record_failure_of e sid cid pid tid)"
  unfolding record_failure_of_def new_failure_id_def by (intro raises_intros)

lemma raises_stream_blob [raises_intros]: "raises X (stream_blob t now s c)"
  unfolding stream_blob_def new_blob_id_def by (intro raises_intros)

section \<open>What a set of changes does\<close>

definition same_task :: "task_record \<Rightarrow> task_record \<Rightarrow> bool" where
  "same_task t t' \<longleftrightarrow> t_task_id t' = t_task_id t \<and> t_plan_id t' = t_plan_id t \<and> t_depends_on t' = t_depends_on t
     \<and> t_resource_lock t' = t_resource_lock t \<and> t_type t' = t_type t \<and> t_order_index t' = t_order_index t
     \<and> t_max_output_bytes t' = t_max_output_bytes t \<and> t_max_output_bytes_applied t' = t_max_output_bytes_applied t"

lemma same_task_refl [simp]: "same_task t t"
  by (simp add: same_task_def)

lemma same_task_trans: "same_task a b \<Longrightarrow> same_task b c \<Longrightarrow> same_task a c"
  by (simp add: same_task_def)

definition keyed :: "execution \<Rightarrow> bool" where
  "keyed x \<longleftrightarrow> distinct (xe_order x) \<and> map fst (xe_tasks x) = xe_order x
     \<and> (\<forall>k \<in> set (xe_order x). t_task_id (task_at x k) = k)"

text \<open>Nothing but the records of the tasks changes, and of those only the state and the outcome.\<close>

definition moved :: "(string \<Rightarrow> task_state option) \<Rightarrow> execution \<Rightarrow> execution \<Rightarrow> bool" where
  "moved f x x' \<longleftrightarrow> (\<exists>ts. x' = x\<lparr>xe_tasks := ts\<rparr> \<and> map fst ts = map fst (xe_tasks x))
     \<and> (\<forall>k. same_task (task_at x k) (task_at x' k))
     \<and> (\<forall>k \<in> set (xe_order x). task_status x' k = (case f k of Some s \<Rightarrow> s | None \<Rightarrow> task_status x k))"

definition targets :: "change list \<Rightarrow> string \<Rightarrow> task_state option" where
  "targets cs = map_of (map (\<lambda>c. (ch_task_id c, ch_to c)) cs)"

definition change_ok :: "change \<Rightarrow> bool" where
  "change_ok c \<longleftrightarrow> (\<forall>t. same_task t (ch_fields c t))"

definition changes_ok :: "execution \<Rightarrow> change list \<Rightarrow> bool" where
  "changes_ok x cs \<longleftrightarrow> distinct (map ch_task_id cs)
     \<and> (\<forall>c \<in> set cs. ch_task_id c \<in> set (xe_order x) \<and> can_transition TASK_TRANSITIONS (task_status x (ch_task_id c)) (ch_to c) \<and> change_ok c)"

definition committed :: "(task_record \<times> task_record \<times> change) list \<Rightarrow> execution \<Rightarrow> execution" where
  "committed applied x = x\<lparr>xe_tasks := fold (\<lambda>(current, record, c). dict_set (t_task_id record) record) applied (xe_tasks x)\<rparr>"

lemma changed_record_same: "change_ok c \<Longrightarrow> same_task t (changed_record now c t)"
  by (auto simp: change_ok_def changed_record_def same_task_def Let_def split: option.splits)

lemma changed_record_status: "t_status (changed_record now c t) = ch_to c"
  by (simp add: changed_record_def Let_def split: option.splits)

lemma during_publish_event: "during P (publish_event ty now k payload) (\<lambda>_. P) persistence_error"
  unfolding publish_event_def by (rule during_assume, rule at_get, rule during_on_app) (auto intro: raises_publish)

lemma during_commit_change:
  "during (\<lambda>y. y = x) (commit_change now a) (\<lambda>_ y. y = committed [a] x) persistence_error"
  unfolding commit_change_def
  by (cases a, simp, rule at_set, rule at_get, rule during_weaken [OF during_publish_event]) (auto simp: committed_def)

lemma during_commits:
  "during (\<lambda>y. y = x) (for_each applied (commit_change now)) (\<lambda>_ y. y = committed applied x) persistence_error"
proof (induction applied arbitrary: x)
  case Nil
  then show ?case by (simp add: during_ret committed_def)
next
  case (Cons a applied)
  have "committed applied (committed [a] x) = committed (a # applied) x" by (simp add: committed_def split: prod.splits)
  then show ?case using during_andthen [OF during_commit_change [of x now a] Cons.IH [of "committed [a] x"]] by simp
qed

lemma prepared_changes:
  "mapR (prepare_change now x) cs =
     (case List.find (\<lambda>c. \<not> can_transition TASK_TRANSITIONS (task_status x (ch_task_id c)) (ch_to c)) cs of
        None \<Rightarrow> Inr (map (\<lambda>c. (task_at x (ch_task_id c), changed_record now c (task_at x (ch_task_id c)), c)) cs)
      | Some c \<Rightarrow> Inl (InvalidTransitionError ''task'' (task_state_value (task_status x (ch_task_id c))) (task_state_value (ch_to c))))"
  by (induction cs) (auto simp: prepare_change_def assert_transition_def guardR_def task_status_def Let_def split: option.splits)

lemma fold_updates_get:
  "distinct (map g cs) \<Longrightarrow> dict_get (fold (\<lambda>c. dict_set (g c) (h c)) cs d) k
     = (case map_of (map (\<lambda>c. (g c, h c)) cs) k of Some v \<Rightarrow> Some v | None \<Rightarrow> dict_get d k)"
proof (induction cs arbitrary: d)
  case (Cons c cs)
  then show ?case by (auto split: option.splits simp: map_of_eq_None_iff image_iff dest: map_of_SomeD)
qed simp

lemma fold_updates_keys:
  "set (map g cs) \<subseteq> set (map fst d) \<Longrightarrow> map fst (fold (\<lambda>c. dict_set (g c) (h c)) cs d) = map fst d"
proof (induction cs arbitrary: d)
  case (Cons c cs)
  have "map fst (dict_set (g c) (h c) d) = map fst d" using Cons.prems by (simp add: dict_keys_set)
  then show ?case using Cons.IH [of "dict_set (g c) (h c) d"] Cons.prems by simp
qed simp

lemma committed_moved:
  assumes "keyed x" and "changes_ok x cs"
  shows "moved (targets cs) x (committed (map (\<lambda>c. (task_at x (ch_task_id c), changed_record now c (task_at x (ch_task_id c)), c)) cs) x)"
    (is "moved _ _ ?x'")
proof -
  let ?g = ch_task_id and ?h = "\<lambda>c. changed_record now c (task_at x (ch_task_id c))"
  have dist: "distinct (map ?g cs)" using assms(2) by (simp add: changes_ok_def)
  have ids: "t_task_id (?h c) = ?g c" if "c \<in> set cs" for c
    using assms that changed_record_same [of c "task_at x (ch_task_id c)" now]
    by (auto simp: changes_ok_def keyed_def same_task_def)
  have tasks: "xe_tasks ?x' = fold (\<lambda>c. dict_set (?g c) (?h c)) cs (xe_tasks x)"
  proof -
    have "fold (\<lambda>(current, record, c). dict_set (t_task_id record) record)
        (map (\<lambda>c. (task_at x (ch_task_id c), ?h c, c)) bs) d = fold (\<lambda>c. dict_set (?g c) (?h c)) bs d"
      if "set bs \<subseteq> set cs" for bs d
      using that by (induction bs arbitrary: d) (auto simp: ids)
    then show ?thesis by (simp add: committed_def)
  qed
  have keys: "map fst (xe_tasks ?x') = map fst (xe_tasks x)"
    unfolding tasks by (rule fold_updates_keys) (use assms in \<open>auto simp: changes_ok_def keyed_def\<close>)
  have at: "task_at ?x' k = (case map_of (map (\<lambda>c. (?g c, ?h c)) cs) k of Some r \<Rightarrow> r | None \<Rightarrow> task_at x k)" for k
    unfolding task_at_def [of ?x' k] tasks fold_updates_get [OF dist] by (simp add: task_at_def split: option.splits)
  have hit: "\<exists>c \<in> set cs. k = ?g c \<and> r = ?h c \<and> targets cs k = Some (ch_to c)"
    if "map_of (map (\<lambda>c. (?g c, ?h c)) cs) k = Some r" for k r
  proof -
    from map_of_SomeD [OF that] obtain c where c: "c \<in> set cs" "k = ?g c" "r = ?h c" by auto
    moreover have "targets cs k = Some (ch_to c)"
      unfolding targets_def by (rule map_of_is_SomeI) (use dist c in \<open>auto simp: comp_def\<close>)
    ultimately show ?thesis by blast
  qed
  have miss: "targets cs k = None" if "map_of (map (\<lambda>c. (?g c, ?h c)) cs) k = None" for k
    using that by (auto simp: targets_def map_of_eq_None_iff image_image)
  have same: "same_task (task_at x k) (task_at ?x' k)" for k
    using assms(2) by (auto simp: at changes_ok_def changed_record_same dest!: hit split: option.splits)
  have status: "task_status ?x' k = (case targets cs k of Some s \<Rightarrow> s | None \<Rightarrow> task_status x k)" for k
    by (auto simp: task_status_def at changed_record_status dest: hit miss split: option.splits)
  show ?thesis
    unfolding moved_def using keys same status by (auto simp: committed_def)
qed

lemma during_apply_changes:
  assumes "\<And>x. P x \<Longrightarrow> keyed x \<and> changes_ok x (cs x)"
    and "\<And>x x'. P x \<Longrightarrow> moved (targets (cs x)) x x' \<Longrightarrow> Q x'"
  shows "during P (apply_changes cs blobs) (\<lambda>_. Q) persistence_error"
proof (rule during_assume)
  fix x assume P: "P x"
  have none: "List.find (\<lambda>c. \<not> can_transition TASK_TRANSITIONS (task_status x (ch_task_id c)) (ch_to c)) (cs x) = None"
    using assms(1) [OF P] by (auto simp: find_None_iff changes_ok_def)
  have refl: "moved (targets []) x x" by (auto simp: moved_def targets_def intro: exI [of _ "xe_tasks x"])
  have ok: "Q (committed (map (\<lambda>c. (task_at x (ch_task_id c), changed_record now c (task_at x (ch_task_id c)), c)) (cs x)) x)" for now
    using assms(2) [OF P committed_moved] assms(1) [OF P] by blast
  have idle: "Q x" if "cs x = []" using assms(2) [OF P, of x] refl that by simp
  show "during (\<lambda>y. y = x) (apply_changes cs blobs) (\<lambda>_. Q) persistence_error"
    unfolding apply_changes_def
  proof (rule bnd_on_app, intro raises_intros, rule at_get, rule at_lifting)
    fix now applied assume "mapR (prepare_change now x) (cs x) = Inr applied"
    then have applied: "applied = map (\<lambda>c. (task_at x (ch_task_id c), changed_record now c (task_at x (ch_task_id c)), c)) (cs x)"
      by (simp add: prepared_changes none)
    show "during (\<lambda>y. y = x) (unless (applied = [] \<and> blobs = []) (andthen (on_app (on_store (transaction
        (andthen (for_each blobs save_blob) (for_each (map (\<lambda>a. fst (snd a)) applied) save_task)))))
        (for_each applied (commit_change now)))) (\<lambda>_. Q) persistence_error"
      by (intro during_unless andthen_on_app raises_intros during_weaken [OF during_commits])
        (use idle ok applied in auto)
  qed (simp add: prepared_changes none)
qed

section \<open>The invariant of a run\<close>

definition deps :: "execution \<Rightarrow> string \<Rightarrow> string set" where
  "deps x k = set (t_depends_on (task_at x k))"

definition locks :: "execution \<Rightarrow> string \<Rightarrow> string set" where
  "locks x k = lock_set (task_at x k)"

text \<open>A list whose every element has its dependencies before it.\<close>

fun topological :: "(string \<Rightarrow> string set) \<Rightarrow> string set \<Rightarrow> string list \<Rightarrow> bool" where
  "topological d earlier [] = True"
| "topological d earlier (k # ks) \<longleftrightarrow> d k \<subseteq> earlier \<and> topological d (insert k earlier) ks"

text \<open>What the validation establishes and no step changes.\<close>

definition sound_run :: "runner \<Rightarrow> execution \<Rightarrow> bool" where
  "sound_run rn x \<longleftrightarrow> keyed x
   \<and> (\<forall>k \<in> set (xe_order x). t_plan_id (task_at x k) = p_plan_id (xe_plan x) \<and> deps x k \<subseteq> set (xe_order x)
        \<and> 0 \<le> task_budget rn x (task_at x k))
   \<and> (\<exists>ks. set ks = set (xe_order x) \<and> topological (deps x) {} ks)
   \<and> (p_execution_policy (xe_plan x) \<noteq> SEQUENTIAL \<or> topological (deps x) {} (xe_order x))
   \<and> 1 \<le> xe_workers x"

text \<open>
  The running tasks are the ones whose state says so, \<open>E\<close> holds those whose worker is being started or has just
  ended, \<open>L\<close> the locks taken or not yet given back on their behalf.
\<close>

definition staffed :: "string set \<Rightarrow> execution \<Rightarrow> bool" where
  "staffed E x \<longleftrightarrow> distinct (xe_running x) \<and> set (xe_running x) \<inter> E = {}
   \<and> set (xe_running x) \<union> E = {k \<in> set (xe_order x). task_status x k = Task_RUNNING}
   \<and> int (length (xe_running x) + card E) \<le> xe_workers x"

definition locked :: "string set \<Rightarrow> string set \<Rightarrow> execution \<Rightarrow> bool" where
  "locked E L x \<longleftrightarrow> xe_held_locks x = (\<Union>k \<in> set (xe_running x) \<union> E. locks x k) \<union> L
   \<and> (\<forall>j \<in> set (xe_running x) \<union> E. locks x j \<inter> L = {})
   \<and> (\<forall>j \<in> set (xe_running x) \<union> E. \<forall>k \<in> set (xe_running x) \<union> E. j = k \<or> locks x j \<inter> locks x k = {})"

text \<open>A task that was started had its dependencies completed.\<close>

definition fed :: "execution \<Rightarrow> bool" where
  "fed x \<longleftrightarrow> (\<forall>k \<in> set (xe_order x). task_status x k \<notin> {Task_RUNNING, Task_COMPLETED} \<or> (\<forall>d \<in> deps x k. task_status x d = Task_COMPLETED))"

definition occupied :: "string set \<Rightarrow> string set \<Rightarrow> execution \<Rightarrow> bool" where
  "occupied E L x \<longleftrightarrow> staffed E x \<and> locked E L x \<and> fed x"

lemmas occupied_defs = occupied_def staffed_def locked_def fed_def

text \<open>
  While the plan runs normally, no task waits for one that ended otherwise than \<open>COMPLETED\<close>, and a task in
  \<open>WAITING_DEPENDENCY\<close> really waits.
\<close>

definition clean_except :: "string set \<Rightarrow> execution \<Rightarrow> bool" where
  "clean_except D x \<longleftrightarrow> (\<forall>k \<in> set (xe_order x). task_status x k \<in> SCHEDULABLE_STATES \<longrightarrow>
     (\<forall>d \<in> deps x k - D. task_status x d \<in> TERMINAL_TASK_STATES \<longrightarrow> task_status x d = Task_COMPLETED))"

definition waiting :: "execution \<Rightarrow> bool" where
  "waiting x \<longleftrightarrow> (\<forall>k \<in> set (xe_order x). task_status x k = Task_WAITING_DEPENDENCY \<longrightarrow>
     (\<exists>d \<in> deps x k. task_status x d \<noteq> Task_COMPLETED))"

definition in_sequence :: "execution \<Rightarrow> bool" where
  "in_sequence x \<longleftrightarrow> p_execution_policy (xe_plan x) \<noteq> SEQUENTIAL \<or> (\<forall>k \<in> set (xe_order x). task_status x k \<noteq> Task_WAITING_DEPENDENCY)"

definition flowing :: "execution \<Rightarrow> bool" where
  "flowing x \<longleftrightarrow> clean_except {} x \<and> waiting x \<and> in_sequence x"

lemmas flowing_defs = flowing_def clean_except_def waiting_def in_sequence_def

text \<open>
  Before its first transition a run is \<open>fresh\<close>; then it is \<open>going\<close>, over the tasks \<open>ks\<close>, the tasks of \<open>T\<close> having
  ended.
\<close>

definition ended_tasks :: "execution \<Rightarrow> string set" where
  "ended_tasks x = {k \<in> set (xe_order x). task_status x k \<in> TERMINAL_TASK_STATES}"

definition fresh :: "runner \<Rightarrow> string list \<Rightarrow> execution \<Rightarrow> bool" where
  "fresh rn ks x \<longleftrightarrow> sound_run rn x \<and> xe_order x = ks \<and> \<not> xe_started x \<and> p_status (xe_plan x) = Plan_PENDING
     \<and> xe_running x = [] \<and> xe_held_locks x = {} \<and> (\<forall>k \<in> set ks. task_status x k = Task_PENDING)"

definition going :: "runner \<Rightarrow> string list \<Rightarrow> string set \<Rightarrow> string set \<Rightarrow> string set \<Rightarrow> execution \<Rightarrow> bool" where
  "going rn ks T E L x \<longleftrightarrow> sound_run rn x \<and> xe_order x = ks \<and> occupied E L x \<and> xe_started x
     \<and> p_status (xe_plan x) = Plan_RUNNING \<and> T \<subseteq> ended_tasks x"

lemma moved_simps:
  assumes "moved f x x'"
  shows "xe_order x' = xe_order x" "xe_plan x' = xe_plan x" "xe_workers x' = xe_workers x" "xe_running x' = xe_running x"
    "xe_held_locks x' = xe_held_locks x" "xe_started x' = xe_started x" "xe_budget_exceeded x' = xe_budget_exceeded x"
    "xe_interrupted x' = xe_interrupted x" "xe_session x' = xe_session x" "deps x' = deps x" "locks x' = locks x"
    "xe_started_monotonic x' = xe_started_monotonic x" "xe_stop_reason x' = xe_stop_reason x"
    "map fst (xe_tasks x') = map fst (xe_tasks x)" "xe_outputs x' = xe_outputs x" "xe_chunks x' = xe_chunks x"
  using assms by (auto simp: moved_def deps_def locks_def same_task_def lock_set_def fun_eq_iff)

lemma moved_status:
  "moved f x x' \<Longrightarrow> k \<in> set (xe_order x) \<Longrightarrow> task_status x' k = (case f k of Some s \<Rightarrow> s | None \<Rightarrow> task_status x k)"
  by (simp add: moved_def)

lemma moved_task: "moved f x x' \<Longrightarrow> same_task (task_at x k) (task_at x' k)"
  by (simp add: moved_def)

lemma keyed_moved: "keyed x \<Longrightarrow> moved f x x' \<Longrightarrow> keyed x'"
  using moved_task [of f x x'] by (simp add: keyed_def moved_simps same_task_def)

lemma sound_run_moved:
  assumes "sound_run rn x" and "moved f x x'"
  shows "sound_run rn x'"
proof -
  have "task_budget rn x' (task_at x' k) = task_budget rn x (task_at x k)"
    and "t_plan_id (task_at x' k) = t_plan_id (task_at x k)" for k
    using moved_task [OF assms(2), of k] by (simp_all add: task_budget_def same_task_def moved_simps [OF assms(2)] split: option.split)
  then show ?thesis
    using assms keyed_moved [OF _ assms(2)] by (simp add: sound_run_def moved_simps [OF assms(2)])
qed

section \<open>The scheduler always finds a task\<close>

lemma topological_minimal:
  assumes "topological d earlier ks" and "\<exists>k \<in> set ks. p k" and "\<forall>k \<in> earlier. \<not> p k"
  shows "\<exists>k \<in> set ks. p k \<and> (\<forall>j \<in> d k. \<not> p j)"
  using assms
proof (induction ks arbitrary: earlier)
  case (Cons k ks)
  show ?case
  proof (cases "p k")
    case True
    with Cons.prems show ?thesis by auto
  next
    case False
    with Cons show ?thesis by (fastforce dest: Cons.IH [of "insert k earlier"])
  qed
qed simp

lemma topological_first:
  assumes "topological d earlier (xs @ k # ys)"
  shows "d k \<subseteq> earlier \<union> set xs"
  using assms by (induction xs arbitrary: earlier) fastforce+

lemma first_unfinished:
  assumes "\<exists>k \<in> set ks. p k"
  obtains xs k ys where "ks = xs @ k # ys" "p k" "\<forall>j \<in> set xs. \<not> p j"
  using assms split_list_first_prop [of ks p] by blast

lemma pick_skips:
  "list_all (\<lambda>k. task_status x k \<in> TERMINAL_TASK_STATES) xs \<Longrightarrow> pick x (xs @ ys) slots ls = (if slots \<le> 0 then [] else pick x ys slots ls)"
  by (cases ys; induction xs) auto

lemma pick_nonempty:
  assumes "k \<in> set ks" and "launchable x ls k" and "0 < slots" and "p_execution_policy (xe_plan x) \<noteq> SEQUENTIAL"
  shows "pick x ks slots ls \<noteq> []"
  using assms by (induction ks) (auto simp: launchable_def terminal_task_iff)

text \<open>With nobody running and something left, the round picks at least one task.\<close>

lemma ready_when_idle:
  assumes "sound_run rn x" and "occupied {} {} x" and "flowing x" and "xe_running x = []" and "unfinished x \<noteq> []"
  shows "ready x \<noteq> []"
proof -
  let ?open = "\<lambda>k. k \<in> set (xe_order x) \<and> task_status x k \<notin> TERMINAL_TASK_STATES"
  have some_open: "\<exists>k \<in> set (xe_order x). ?open k" using assms(5) by (auto simp: unfinished_def filter_empty_conv)
  have held: "xe_held_locks x = {}" and running: "\<forall>k \<in> set (xe_order x). task_status x k \<noteq> Task_RUNNING"
    using assms(2,4) by (auto simp: occupied_defs)
  have slots: "0 < xe_workers x - int (length (xe_running x))" using assms(1,4) by (simp add: sound_run_def)
  have launch: "launchable x {} k" if "?open k" and "\<forall>j \<in> deps x k. \<not> ?open j" for k
  proof -
    have deps: "\<forall>d \<in> deps x k. d \<in> set (xe_order x)" using assms(1) that(1) by (auto simp: sound_run_def)
    have "task_status x k \<in> SCHEDULABLE_STATES"
      using that(1) running by (auto simp: SCHEDULABLE_STATES_def terminal_task_iff)
    then have complete: "\<forall>d \<in> deps x k. task_status x d = Task_COMPLETED"
      using assms(3) that deps unfolding flowing_defs by blast
    then have "task_status x k \<noteq> Task_WAITING_DEPENDENCY" using assms(3) that(1) unfolding flowing_defs by blast
    then show ?thesis
      using \<open>task_status x k \<in> SCHEDULABLE_STATES\<close> complete held
      by (auto simp: launchable_def dependencies_completed_def SCHEDULABLE_STATES_def list_all_iff deps_def)
  qed
  show ?thesis
  proof (cases "p_execution_policy (xe_plan x) = SEQUENTIAL")
    case True
    obtain xs k ys where order: "xe_order x = xs @ k # ys" and k: "?open k" and before: "\<forall>j \<in> set xs. \<not> ?open j"
      using some_open by (rule first_unfinished)
    have "topological (deps x) {} (xs @ k # ys)" using assms(1) True order by (auto simp: sound_run_def)
    from topological_first [OF this] have "\<forall>j \<in> deps x k. \<not> ?open j" using before by auto
    from launch [OF k this] have "launchable x {} k" .
    moreover have "list_all (\<lambda>k. task_status x k \<in> TERMINAL_TASK_STATES) xs"
      using before order by (auto simp: list_all_iff)
    ultimately show ?thesis using k slots by (simp add: ready_def order pick_skips)
  next
    case False
    obtain ks where ks: "set ks = set (xe_order x)" "topological (deps x) {} ks" using assms(1) by (auto simp: sound_run_def)
    from topological_minimal [OF ks(2), of ?open] some_open ks(1)
    obtain k where k: "?open k" "\<forall>j \<in> deps x k. \<not> ?open j" by auto
    then show ?thesis using pick_nonempty [OF _ launch [OF k] slots False] by (simp add: ready_def)
  qed
qed

section \<open>What the steps change\<close>

text \<open>The parts of the state the invariant does not read.\<close>

lemma view_frame [simp]:
  "task_at (x\<lparr>xe_tokens := a0\<rparr>) = task_at x"
  "task_at (x\<lparr>xe_translations := a1\<rparr>) = task_at x"
  "task_at (x\<lparr>xe_started_monotonic := a2\<rparr>) = task_at x"
  "task_at (x\<lparr>xe_outputs := a3\<rparr>) = task_at x"
  "task_at (x\<lparr>xe_chunks := a4\<rparr>) = task_at x"
  "task_at (x\<lparr>xe_stop_reason := a5\<rparr>) = task_at x"
  "task_at (x\<lparr>xe_interrupting := a6\<rparr>) = task_at x"
  "task_at (x\<lparr>xe_budget_exceeded := a7\<rparr>) = task_at x"
  "task_at (x\<lparr>xe_interrupted := a8\<rparr>) = task_at x"
  "task_at (x\<lparr>xe_started := a9\<rparr>) = task_at x"
  "task_at (x\<lparr>xe_running := a10\<rparr>) = task_at x"
  "task_at (x\<lparr>xe_held_locks := a11\<rparr>) = task_at x"
  "task_at (x\<lparr>xe_plan := a12\<rparr>) = task_at x"
  by (simp_all add: task_at_def fun_eq_iff)

lemma same_views:
  assumes "task_at y = task_at x"
  shows "task_status y = task_status x" "deps y = deps x" "locks y = locks x"
  using assms by (simp_all add: task_status_def deps_def locks_def fun_eq_iff)

lemmas view_frames [simp] =
  same_views [OF view_frame(1)] same_views [OF view_frame(2)] same_views [OF view_frame(3)] same_views [OF
  view_frame(4)] same_views [OF view_frame(5)] same_views [OF view_frame(6)] same_views [OF view_frame(7)]
  same_views [OF view_frame(8)] same_views [OF view_frame(9)] same_views [OF view_frame(10)] same_views [OF
  view_frame(11)] same_views [OF view_frame(12)] same_views [OF view_frame(13)]

lemma task_budget_cong: "p_default_max_output_bytes (xe_plan y) = p_default_max_output_bytes (xe_plan x) \<Longrightarrow> task_budget rn y = task_budget rn x"
  by (simp add: task_budget_def fun_eq_iff split: option.split)

lemma sound_run_cong:
  assumes "task_at y = task_at x" and "map fst (xe_tasks y) = map fst (xe_tasks x)" and "xe_order y = xe_order x"
    and "p_plan_id (xe_plan y) = p_plan_id (xe_plan x)" and "p_execution_policy (xe_plan y) = p_execution_policy (xe_plan x)"
    and "p_default_max_output_bytes (xe_plan y) = p_default_max_output_bytes (xe_plan x)" and "xe_workers y = xe_workers x"
  shows "sound_run rn y = sound_run rn x"
  using assms by (simp add: sound_run_def keyed_def same_views [OF assms(1)] task_budget_cong [OF assms(6)])

lemma sound_run_frame [simp]:
  "sound_run rn (x\<lparr>xe_tokens := a0\<rparr>) = sound_run rn x"
  "sound_run rn (x\<lparr>xe_translations := a1\<rparr>) = sound_run rn x"
  "sound_run rn (x\<lparr>xe_started_monotonic := a2\<rparr>) = sound_run rn x"
  "sound_run rn (x\<lparr>xe_outputs := a3\<rparr>) = sound_run rn x"
  "sound_run rn (x\<lparr>xe_chunks := a4\<rparr>) = sound_run rn x"
  "sound_run rn (x\<lparr>xe_stop_reason := a5\<rparr>) = sound_run rn x"
  "sound_run rn (x\<lparr>xe_interrupting := a6\<rparr>) = sound_run rn x"
  "sound_run rn (x\<lparr>xe_budget_exceeded := a7\<rparr>) = sound_run rn x"
  "sound_run rn (x\<lparr>xe_interrupted := a8\<rparr>) = sound_run rn x"
  "sound_run rn (x\<lparr>xe_started := a9\<rparr>) = sound_run rn x"
  "sound_run rn (x\<lparr>xe_running := a10\<rparr>) = sound_run rn x"
  "sound_run rn (x\<lparr>xe_held_locks := a11\<rparr>) = sound_run rn x"
  by (rule sound_run_cong; simp)+

lemma going_frame [simp]:
  "going rn ks T E L (x\<lparr>xe_tokens := a0\<rparr>) = going rn ks T E L x"
  "going rn ks T E L (x\<lparr>xe_translations := a1\<rparr>) = going rn ks T E L x"
  "going rn ks T E L (x\<lparr>xe_started_monotonic := a2\<rparr>) = going rn ks T E L x"
  "going rn ks T E L (x\<lparr>xe_outputs := a3\<rparr>) = going rn ks T E L x"
  "going rn ks T E L (x\<lparr>xe_chunks := a4\<rparr>) = going rn ks T E L x"
  "going rn ks T E L (x\<lparr>xe_stop_reason := a5\<rparr>) = going rn ks T E L x"
  "going rn ks T E L (x\<lparr>xe_interrupting := a6\<rparr>) = going rn ks T E L x"
  "going rn ks T E L (x\<lparr>xe_budget_exceeded := a7\<rparr>) = going rn ks T E L x"
  "going rn ks T E L (x\<lparr>xe_interrupted := a8\<rparr>) = going rn ks T E L x"
  by (simp_all add: going_def occupied_defs ended_tasks_def)

lemma flowing_frame [simp]:
  "flowing (x\<lparr>xe_tokens := a0\<rparr>) = flowing x"
  "flowing (x\<lparr>xe_translations := a1\<rparr>) = flowing x"
  "flowing (x\<lparr>xe_started_monotonic := a2\<rparr>) = flowing x"
  "flowing (x\<lparr>xe_outputs := a3\<rparr>) = flowing x"
  "flowing (x\<lparr>xe_chunks := a4\<rparr>) = flowing x"
  "flowing (x\<lparr>xe_stop_reason := a5\<rparr>) = flowing x"
  "flowing (x\<lparr>xe_interrupting := a6\<rparr>) = flowing x"
  "flowing (x\<lparr>xe_budget_exceeded := a7\<rparr>) = flowing x"
  "flowing (x\<lparr>xe_interrupted := a8\<rparr>) = flowing x"
  "flowing (x\<lparr>xe_started := a9\<rparr>) = flowing x"
  "flowing (x\<lparr>xe_running := a10\<rparr>) = flowing x"
  "flowing (x\<lparr>xe_held_locks := a11\<rparr>) = flowing x"
  by (simp_all add: flowing_defs)

text \<open>The effect of each kind of change on the occupation.\<close>

lemma fed_moved:
  assumes "fed x" and "moved f x x'" and "\<forall>k \<in> set (xe_order x). deps x k \<subseteq> set (xe_order x)"
    and "\<And>k s. k \<in> set (xe_order x) \<Longrightarrow> f k = Some s \<Longrightarrow> task_status x k \<noteq> Task_COMPLETED
      \<and> (s \<notin> {Task_RUNNING, Task_COMPLETED} \<or> (\<forall>d \<in> deps x k. task_status x d = Task_COMPLETED))"
  shows "fed x'"
proof -
  note st = moved_status [OF assms(2)]
  have keeps: "task_status x' d = Task_COMPLETED" if "d \<in> set (xe_order x)" "task_status x d = Task_COMPLETED" for d
    using st [OF that(1)] assms(4) [OF that(1)] that(2) by (cases "f d") auto
  show ?thesis
    unfolding fed_def moved_simps [OF assms(2)]
  proof
    fix k assume k: "k \<in> set (xe_order x)"
    have "task_status x' k \<notin> {Task_RUNNING, Task_COMPLETED} \<or> (\<forall>d \<in> deps x k. task_status x d = Task_COMPLETED)"
      using assms(1) st [OF k] assms(4) [OF k] k by (cases "f k") (auto simp: fed_def)
    then show "task_status x' k \<notin> {Task_RUNNING, Task_COMPLETED} \<or> (\<forall>d \<in> deps x k. task_status x' d = Task_COMPLETED)"
      using keeps assms(3) k by blast
  qed
qed

lemma staffed_moved:
  assumes "staffed E x" and "moved f x x'"
    and "\<And>k s. k \<in> set (xe_order x) \<Longrightarrow> f k = Some s \<Longrightarrow> s \<noteq> Task_RUNNING \<and> task_status x k \<noteq> Task_RUNNING"
  shows "staffed E x'"
proof -
  have "task_status x' k = Task_RUNNING \<longleftrightarrow> task_status x k = Task_RUNNING" if "k \<in> set (xe_order x)" for k
    using moved_status [OF assms(2) that] assms(3) [OF that] by (cases "f k") auto
  then have "{k \<in> set (xe_order x). task_status x' k = Task_RUNNING} = {k \<in> set (xe_order x). task_status x k = Task_RUNNING}"
    by auto
  then show ?thesis using assms(1) by (simp add: staffed_def moved_simps [OF assms(2)])
qed

lemma locked_moved: "locked E L x \<Longrightarrow> moved f x x' \<Longrightarrow> locked E L x'"
  by (simp add: locked_def moved_simps)

lemma sound_deps: "sound_run rn x \<Longrightarrow> \<forall>k \<in> set (xe_order x). deps x k \<subseteq> set (xe_order x)"
  by (simp add: sound_run_def)

lemma ended_moved:
  assumes "moved f x x'" and "\<And>k s. k \<in> set (xe_order x) \<Longrightarrow> f k = Some s \<Longrightarrow> task_status x k \<notin> TERMINAL_TASK_STATES"
  shows "ended_tasks x \<subseteq> ended_tasks x'"
proof
  fix k assume "k \<in> ended_tasks x"
  then show "k \<in> ended_tasks x'"
    using assms(2) [of k] moved_status [OF assms(1), of k] by (cases "f k") (auto simp: ended_tasks_def moved_simps [OF assms(1)])
qed

lemma going_other:
  assumes "going rn ks T E L x" and "moved f x x'"
    and "\<And>k s. k \<in> set ks \<Longrightarrow> f k = Some s \<Longrightarrow> s \<notin> {Task_RUNNING, Task_COMPLETED} \<and> task_status x k \<in> SCHEDULABLE_STATES"
  shows "going rn ks T E L x'"
proof -
  have order: "xe_order x = ks" and occ: "occupied E L x" and sound: "sound_run rn x"
    using assms(1) by (simp_all add: going_def)
  have idle: "task_status x k \<notin> {Task_RUNNING, Task_COMPLETED} \<and> task_status x k \<notin> TERMINAL_TASK_STATES"
    if "k \<in> set (xe_order x)" "f k = Some s" for k s
    using assms(3) [of k s] that order by (auto simp: SCHEDULABLE_STATES_def terminal_task_iff)
  have "ended_tasks x \<subseteq> ended_tasks x'" by (rule ended_moved [OF assms(2)]) (use idle in blast)
  moreover have "fed x'"
    by (rule fed_moved [OF _ assms(2) sound_deps [OF sound]]) (use occ idle assms(3) order in \<open>auto simp: occupied_def\<close>)
  moreover have "staffed E x'"
    by (rule staffed_moved [OF _ assms(2)]) (use occ idle assms(3) order in \<open>auto simp: occupied_def\<close>)
  ultimately show ?thesis
    using assms(1) sound_run_moved [OF sound assms(2)] locked_moved [OF _ assms(2), of E L]
    by (auto simp: going_def occupied_def moved_simps [OF assms(2)])
qed

text \<open>A launch: the locks are taken, the task is \<open>RUNNING\<close>, its worker is added.\<close>

lemma occupied_take:
  assumes "occupied {} {} x" and "launchable x {} k"
  shows "occupied {} (locks x k) (x\<lparr>xe_held_locks := xe_held_locks x \<union> locks x k\<rparr>)"
proof -
  have "lock_set (task_at x k) \<inter> xe_held_locks x = {}" using assms(2) by (simp add: launchable_def)
  then show ?thesis using assms(1) by (auto simp: occupied_defs locks_def)
qed

lemma occupied_started:
  assumes "occupied {} (locks x k) x" and "moved f x x'" and "f = (\<lambda>j. if j = k then Some Task_RUNNING else None)"
    and "k \<in> set (xe_order x)" and "task_status x k = Task_PENDING" and "\<forall>d \<in> deps x k. task_status x d = Task_COMPLETED"
    and "int (length (xe_running x)) < xe_workers x" and "sound_run rn x"
  shows "occupied {k} {} x'"
proof -
  have st: "task_status x' j = (if j = k then Task_RUNNING else task_status x j)" if "j \<in> set (xe_order x)" for j
    using moved_status [OF assms(2) that] assms(3) by simp
  have "{j \<in> set (xe_order x). task_status x' j = Task_RUNNING} = insert k {j \<in> set (xe_order x). task_status x j = Task_RUNNING}"
    using st assms(4) by auto
  moreover have "k \<notin> set (xe_running x)" using assms(1,5) by (auto simp: occupied_defs)
  ultimately have "staffed {k} x'"
    using assms(1,7) by (auto simp: occupied_def staffed_def moved_simps [OF assms(2)])
  moreover have "locked {k} {} x'"
    using assms(1) by (auto simp: occupied_def locked_def moved_simps [OF assms(2)])
  moreover have "fed x'"
    by (rule fed_moved [OF _ assms(2) sound_deps [OF assms(8)]]) (use assms in \<open>auto simp: occupied_def split: if_splits\<close>)
  ultimately show ?thesis by (simp add: occupied_def)
qed

lemma locked_same:
  assumes "set (xe_running y) \<union> F = set (xe_running x) \<union> E" and "xe_held_locks y = xe_held_locks x" and "locks y = locks x"
    and "locked E L x"
  shows "locked F L y"
  using assms(4) unfolding locked_def assms(1-3) .

lemma occupied_added:
  assumes "occupied {k} {} x"
  shows "occupied {} {} (x\<lparr>xe_running := xe_running x @ [k]\<rparr>)"
  using assms locked_same [of "x\<lparr>xe_running := xe_running x @ [k]\<rparr>" "{}" x "{k}" "{}"]
  by (auto simp: occupied_def staffed_def fed_def)

lemma occupied_removed:
  assumes "occupied {} {} x" and "k \<in> set (xe_running x)"
  shows "occupied {k} {} (x\<lparr>xe_running := removeAll k (xe_running x)\<rparr>)"
proof -
  let ?y = "x\<lparr>xe_running := removeAll k (xe_running x)\<rparr>"
  have "removeAll k (xe_running x) = remove1 k (xe_running x)"
    using assms by (simp add: occupied_defs distinct_remove1_removeAll)
  then have "length (removeAll k (xe_running x)) + 1 = length (xe_running x)"
    using assms(2) by (simp add: length_remove1) (metis One_nat_def Suc_pred length_pos_if_in_set)
  moreover have "set (xe_running ?y) \<union> {k} = set (xe_running x) \<union> {}" using assms(2) by auto
  ultimately show ?thesis
    using assms locked_same [of ?y "{k}" x "{}" "{}"] by (auto simp: occupied_def staffed_def fed_def distinct_removeAll)
qed

text \<open>An end: the task leaves \<open>RUNNING\<close>, then its locks are given back.\<close>

lemma going_ended:
  assumes "going rn ks T {k} {} x" and "moved f x x'" and "f = (\<lambda>j. if j = k then Some s else None)"
    and "s \<in> TERMINAL_TASK_STATES"
  shows "going rn ks (insert k T) {} (locks x k) x' \<and> task_status x' k = s"
proof -
  have order: "xe_order x = ks" and occ: "occupied {k} {} x" and sound: "sound_run rn x"
    using assms(1) by (simp_all add: going_def)
  have k: "k \<in> set (xe_order x)" "task_status x k = Task_RUNNING" "k \<notin> set (xe_running x)"
    using occ by (auto simp: occupied_def staffed_def)
  have st: "task_status x' j = (if j = k then s else task_status x j)" if "j \<in> set (xe_order x)" for j
    using moved_status [OF assms(2) that] assms(3) by simp
  have running: "{j \<in> set (xe_order x). task_status x' j = Task_RUNNING} = set (xe_running x)"
  proof -
    have "{j \<in> set (xe_order x). task_status x' j = Task_RUNNING} = {j \<in> set (xe_order x). task_status x j = Task_RUNNING} - {k}"
      using st assms(4) by (auto simp: terminal_task_iff split: if_splits)
    also have "\<dots> = (set (xe_running x) \<union> {k}) - {k}" using occ unfolding occupied_def staffed_def by metis
    finally show ?thesis using k(3) by simp
  qed
  have "staffed {} x'"
    using occ running k by (simp add: occupied_def staffed_def moved_simps [OF assms(2)])
  moreover have "locked {} (locks x k) x'"
    using occ k(3) by (auto simp: occupied_def locked_def moved_simps [OF assms(2)])
  moreover have "\<forall>d \<in> deps x k. task_status x d = Task_COMPLETED" using occ k by (auto simp: occupied_def fed_def)
  then have "fed x'"
    by (intro fed_moved [OF _ assms(2) sound_deps [OF sound]]) (use assms(3) occ k in \<open>auto simp: occupied_def split: if_splits\<close>)
  moreover have "insert k T \<subseteq> ended_tasks x'"
  proof -
    have "ended_tasks x \<subseteq> ended_tasks x'"
      by (rule ended_moved [OF assms(2)]) (use assms(3) k in \<open>auto simp: terminal_task_iff split: if_splits\<close>)
    then show ?thesis
      using assms(1,4) st [OF k(1)] k(1) by (auto simp: going_def ended_tasks_def moved_simps [OF assms(2)])
  qed
  ultimately show ?thesis
    using assms(1) st [OF k(1)] sound_run_moved [OF sound assms(2)] by (auto simp: going_def occupied_def moved_simps [OF assms(2)])
qed

lemma going_released:
  assumes "going rn ks T {} L x"
  shows "going rn ks T {} {} (x\<lparr>xe_held_locks := xe_held_locks x - L\<rparr>)"
proof -
  have "locked {} {} (x\<lparr>xe_held_locks := xe_held_locks x - L\<rparr>)"
    using assms by (auto simp: going_def occupied_def locked_def)
  then show ?thesis using assms by (auto simp: going_def occupied_def staffed_def fed_def ended_tasks_def)
qed

lemma going_removed:
  "going rn ks T {} {} x \<Longrightarrow> k \<in> set (xe_running x) \<Longrightarrow> going rn ks T {k} {} (x\<lparr>xe_running := removeAll k (xe_running x)\<rparr>)"
  using occupied_removed [of x k] by (auto simp: going_def ended_tasks_def)

section \<open>Launching\<close>

lemma pick_picks:
  assumes "distinct ks"
  shows "set (pick x ks slots ls) \<subseteq> set ks \<and> distinct (pick x ks slots ls)
    \<and> int (length (pick x ks slots ls)) \<le> max 0 slots
    \<and> (\<forall>k \<in> set (pick x ks slots ls). launchable x ls k)
    \<and> sorted_wrt (\<lambda>j k. locks x j \<inter> locks x k = {}) (pick x ks slots ls)"
  using assms
proof (induction ks arbitrary: slots ls)
  case (Cons k ks)
  note later = Cons.IH [of slots ls] Cons.IH [of "slots - 1" "ls \<union> lock_set (task_at x k)"]
  have weaker: "launchable x ls j" "locks x k \<inter> locks x j = {}" if "launchable x (ls \<union> lock_set (task_at x k)) j" for j
    using that by (auto simp: launchable_def locks_def)
  show ?case using Cons.prems later weaker by (auto simp: subset_iff)
qed simp

lemma clean_moved:
  assumes "clean_except D x" and "moved f x x'" and "sound_run rn x"
    and "\<And>k s. k \<in> set (xe_order x) \<Longrightarrow> f k = Some s \<Longrightarrow> s \<notin> SCHEDULABLE_STATES \<or> task_status x k \<in> SCHEDULABLE_STATES"
    and "\<And>k s. k \<in> set (xe_order x) \<Longrightarrow> f k = Some s \<Longrightarrow> s \<notin> TERMINAL_TASK_STATES \<or> s = Task_COMPLETED \<or> k \<in> D'"
  shows "clean_except (D \<union> D') x'"
  unfolding clean_except_def moved_simps [OF assms(2)]
proof (intro ballI impI)
  fix k d assume k: "k \<in> set (xe_order x)" "task_status x' k \<in> SCHEDULABLE_STATES" and d: "d \<in> deps x k - (D \<union> D')"
    "task_status x' d \<in> TERMINAL_TASK_STATES"
  have dk: "d \<in> set (xe_order x)" using sound_deps [OF assms(3)] k(1) d(1) by blast
  have "task_status x k \<in> SCHEDULABLE_STATES"
    using moved_status [OF assms(2) k(1)] assms(4) [OF k(1)] k(2) by (cases "f k") auto
  then have "task_status x d \<in> TERMINAL_TASK_STATES \<Longrightarrow> task_status x d = Task_COMPLETED"
    using assms(1) k(1) d(1) unfolding clean_except_def by blast
  then show "task_status x' d = Task_COMPLETED"
    using moved_status [OF assms(2) dk] assms(5) [OF dk] d by (cases "f d") auto
qed

lemma waiting_moved:
  assumes "waiting x" and "moved f x x'" and "sound_run rn x"
    and "\<And>k s. k \<in> set (xe_order x) \<Longrightarrow> f k = Some s \<Longrightarrow> s \<notin> {Task_COMPLETED, Task_WAITING_DEPENDENCY}"
  shows "waiting x'"
  unfolding waiting_def moved_simps [OF assms(2)]
proof (intro ballI impI)
  fix k assume k: "k \<in> set (xe_order x)" "task_status x' k = Task_WAITING_DEPENDENCY"
  have "task_status x k = Task_WAITING_DEPENDENCY"
    using moved_status [OF assms(2) k(1)] assms(4) [OF k(1)] k(2) by (cases "f k") auto
  then obtain d where d: "d \<in> deps x k" "task_status x d \<noteq> Task_COMPLETED" using assms(1) k(1) unfolding waiting_def by blast
  have dk: "d \<in> set (xe_order x)" using sound_deps [OF assms(3)] k(1) d(1) by blast
  have "task_status x' d \<noteq> Task_COMPLETED"
    using moved_status [OF assms(2) dk] assms(4) [OF dk] d(2) by (cases "f d") auto
  with d(1) show "\<exists>d \<in> deps x k. task_status x' d \<noteq> Task_COMPLETED" by blast
qed

lemma in_sequence_moved:
  assumes "in_sequence x" and "moved f x x'"
    and "\<And>k s. k \<in> set (xe_order x) \<Longrightarrow> f k = Some s \<Longrightarrow> s \<noteq> Task_WAITING_DEPENDENCY"
  shows "in_sequence x'"
proof -
  have "task_status x' k \<noteq> Task_WAITING_DEPENDENCY" if "k \<in> set (xe_order x)" "task_status x k \<noteq> Task_WAITING_DEPENDENCY" for k
    using moved_status [OF assms(2) that(1)] assms(3) [OF that(1)] that(2) by (cases "f k") auto
  then show ?thesis using assms(1) by (auto simp: in_sequence_def moved_simps [OF assms(2)])
qed

lemma flowing_started:
  assumes "flowing x" and "moved f x x'" and "f = (\<lambda>j. if j = k then Some Task_RUNNING else None)"
    and "task_status x k = Task_PENDING" and "k \<in> set (xe_order x)" and "sound_run rn x"
  shows "flowing x'"
proof -
  have "clean_except ({} \<union> {}) x'"
    by (rule clean_moved [OF _ assms(2,6)]) (use assms in \<open>auto simp: flowing_def SCHEDULABLE_STATES_def terminal_task_iff split: if_splits\<close>)
  moreover have "waiting x'"
    by (rule waiting_moved [OF _ assms(2,6)]) (use assms in \<open>auto simp: flowing_def split: if_splits\<close>)
  moreover have "in_sequence x'"
    by (rule in_sequence_moved [OF _ assms(2)]) (use assms in \<open>auto simp: flowing_def split: if_splits\<close>)
  ultimately show ?thesis by (simp add: flowing_def)
qed

text \<open>What a round of launches relies on, for the tasks still to be launched.\<close>

definition to_launch :: "runner \<Rightarrow> string list \<Rightarrow> string set \<Rightarrow> string list \<Rightarrow> execution \<Rightarrow> bool" where
  "to_launch rn ks T rest x \<longleftrightarrow> going rn ks T {} {} x \<and> flowing x \<and> \<not> xe_budget_exceeded x \<and> distinct rest \<and> set rest \<subseteq> set ks
   \<and> (\<forall>k \<in> set rest. launchable x {} k) \<and> sorted_wrt (\<lambda>j k. locks x j \<inter> locks x k = {}) rest
   \<and> int (length (xe_running x) + length rest) \<le> xe_workers x"

lemma launchable_deps: "launchable x ls k \<Longrightarrow> \<forall>d \<in> deps x k. task_status x d = Task_COMPLETED"
  by (simp add: launchable_def dependencies_completed_def list_all_iff deps_def)

lemma change_ok_simps [simp]: "change_ok (plain_change k s r)"
  "change_ok \<lparr>ch_task_id = k, ch_to = s, ch_reason = r, ch_ended_at = t, ch_fields = \<lambda>t. t\<lparr>t_started_at := a, t_attempt_count := b\<rparr>\<rparr>"
  by (simp_all add: change_ok_def plain_change_def same_task_def)

lemma targets_single [simp]: "targets [c] = (\<lambda>j. if j = ch_task_id c then Some (ch_to c) else None)"
  by (auto simp: targets_def)

lemma launched:
  assumes "to_launch rn ks T (k # rest) x"
    and "moved (\<lambda>j. if j = k then Some Task_RUNNING else None) (x\<lparr>xe_held_locks := xe_held_locks x \<union> locks x k\<rparr>) x'"
  shows "to_launch rn ks T rest (x'\<lparr>xe_running := xe_running x' @ [k]\<rparr>)"
proof -
  let ?y = "x\<lparr>xe_held_locks := xe_held_locks x \<union> locks x k\<rparr>"
  note m = moved_simps [OF assms(2)]
  have x: "sound_run rn x" "xe_order x = ks" "occupied {} {} x" "flowing x" "launchable x {} k" "k \<in> set ks"
    using assms(1) by (auto simp: to_launch_def going_def)
  have pending: "task_status x k = Task_PENDING" using x(5) by (simp add: launchable_def)
  have occ: "occupied {k} {} x'"
    by (rule occupied_started [OF _ assms(2) refl]) (use x assms(1) pending occupied_take [OF x(3,5)] launchable_deps [OF x(5)] in \<open>auto simp: to_launch_def\<close>)
  have lv: "flowing x'" by (rule flowing_started [OF _ assms(2) refl]) (use x pending in auto)
  have sound: "sound_run rn x'" using sound_run_moved [OF _ assms(2)] x(1) by simp
  have "ended_tasks ?y \<subseteq> ended_tasks x'"
    by (rule ended_moved [OF assms(2)]) (use pending in \<open>auto simp: terminal_task_iff split: if_splits\<close>)
  then have "going rn ks T {k} {} x'"
    using assms(1) occ sound m x(2) by (auto simp: to_launch_def going_def ended_tasks_def)
  then have going: "going rn ks T {} {} (x'\<lparr>xe_running := xe_running x' @ [k]\<rparr>)"
    using occupied_added [of k x'] by (auto simp: going_def ended_tasks_def)
  have "launchable (x'\<lparr>xe_running := xe_running x' @ [k]\<rparr>) {} j" if j: "j \<in> set rest" for j
  proof -
    have jk: "j \<noteq> k" "j \<in> set ks" "launchable x {} j" "locks x k \<inter> locks x j = {}" using assms(1) j by (auto simp: to_launch_def)
    have "\<forall>d \<in> deps x j. task_status x' d = Task_COMPLETED"
      using launchable_deps [OF jk(3)] moved_status [OF assms(2)] sound_deps [OF x(1)] pending jk(2) x(2) by fastforce
    then show ?thesis
      using jk m(11) moved_status [OF assms(2), of j] x(2) moved_task [OF assms(2), of j]
      by (auto simp: launchable_def dependencies_completed_def list_all_iff deps_def locks_def same_task_def lock_set_def m)
  qed
  then show ?thesis using assms(1) going lv m by (auto simp: to_launch_def)
qed

lemma during_decide_translation:
  assumes "\<And>x v. P x \<Longrightarrow> P (x\<lparr>xe_translations := v\<rparr>)"
  shows "during P (decide_translation rn t) (\<lambda>_. P) (own_error rn)"
proof -
  have answered: "during P (case decided of None \<Rightarrow> ret ()
      | Some d \<Rightarrow> exec_set (\<lambda>x. x\<lparr>xe_translations := dict_set (t_task_id t) d (xe_translations x)\<rparr>)) (\<lambda>_. P) (own_error rn)" for decided
    using assms by (cases decided) (auto intro: during_ret during_set)
  have "during P (lifting (co_translate (rn_collector rn) (t_cmd t))) (\<lambda>_. P) (own_error rn)"
    by (rule during_lifting, assumption, rule own_errorI(2)) (auto simp: translator_error_def)
  from during_bnd [OF this answered] show ?thesis
    unfolding decide_translation_def by (auto intro: during_ret)
qed

lemma to_launch_frame [simp]:
  "to_launch rn ks T rest (x\<lparr>xe_tokens := a\<rparr>) = to_launch rn ks T rest x"
  "to_launch rn ks T rest (x\<lparr>xe_translations := b\<rparr>) = to_launch rn ks T rest x"
  "to_launch rn ks T rest (x\<lparr>xe_started_monotonic := c\<rparr>) = to_launch rn ks T rest x"
  by (simp_all add: to_launch_def launchable_def dependencies_completed_def)

lemma during_launch:
  "during (to_launch rn ks T (k # rest)) (launch rn k) (\<lambda>_ x. to_launch rn ks T rest x \<and> xe_running x \<noteq> []) (own_error rn)"
proof (rule during_assume)
  fix x0 assume start: "to_launch rn ks T (k # rest) x0"
  let ?taken = "\<lambda>x. \<exists>x1. to_launch rn ks T (k # rest) x1 \<and> x = x1\<lparr>xe_held_locks := xe_held_locks x1 \<union> locks x1 k\<rparr>"
  let ?added = "\<lambda>x. to_launch rn ks T rest (x\<lparr>xe_running := xe_running x @ [k]\<rparr>)"
  have taken: "?taken (x0\<lparr>xe_held_locks := xe_held_locks x0 \<union> lock_set (task_at x0 k), xe_tokens := v\<rparr>)" for v
    using start by (intro exI [of _ "x0\<lparr>xe_tokens := v\<rparr>"]) (simp add: locks_def)
  have translated: "?taken (x\<lparr>xe_translations := v\<rparr>)" if "?taken x" for x v
  proof -
    from that obtain x1 where "to_launch rn ks T (k # rest) x1" "x = x1\<lparr>xe_held_locks := xe_held_locks x1 \<union> locks x1 k\<rparr>" by blast
    then show ?thesis by (intro exI [of _ "x1\<lparr>xe_translations := v\<rparr>"]) simp
  qed
  have apply_ok: "keyed x \<and> changes_ok x [c]"
    if "?taken x" and "ch_task_id c = k" "ch_to c = Task_RUNNING" "change_ok c" for x c
    using that by (auto simp: changes_ok_def to_launch_def going_def sound_run_def keyed_def launchable_def table_simps)
  show "during (\<lambda>y. y = x0) (launch rn k) (\<lambda>_ x. to_launch rn ks T rest x \<and> xe_running x \<noteq> []) (own_error rn)"
    unfolding launch_def
  proof (rule at_get, rule at_set, rule during_andthen [where R = ?taken])
    show "during (\<lambda>y. y = x0\<lparr>xe_held_locks := xe_held_locks x0 \<union> lock_set (task_at x0 k), xe_tokens := dict_set k None (xe_tokens x0)\<rparr>)
        (decide_translation rn (task_at x0 k)) (\<lambda>_. ?taken) (own_error rn)"
      by (rule during_pre [OF during_decide_translation]) (use taken translated in blast)+
    show "during ?taken (bnd (on_app clock_now) (\<lambda>now.
        andthen (apply_changes (\<lambda>_. [\<lparr>ch_task_id = k, ch_to = Task_RUNNING, ch_reason = None, ch_ended_at = None,
          ch_fields = \<lambda>t. t\<lparr>t_started_at := Some now, t_attempt_count := 1\<rparr>\<rparr>]) [])
       (bnd (on_app clock_monotonic_ms) (\<lambda>ms.
        exec_set (\<lambda>x. x\<lparr>xe_started_monotonic := dict_set k ms (xe_started_monotonic x), xe_running := xe_running x @ [k]\<rparr>)))))
      (\<lambda>_ x. to_launch rn ks T rest x \<and> xe_running x \<noteq> []) (own_error rn)"
    proof (rule during_exn [OF _ own_errorI(1)], intro bnd_on_app raises_intros during_andthen [where R = ?added])
      fix now
      show "during ?taken (apply_changes (\<lambda>_. [\<lparr>ch_task_id = k, ch_to = Task_RUNNING, ch_reason = None, ch_ended_at = None,
          ch_fields = \<lambda>t. t\<lparr>t_started_at := Some now, t_attempt_count := 1\<rparr>\<rparr>]) []) (\<lambda>_. ?added) persistence_error"
        (is "during _ (apply_changes (\<lambda>_. [?c]) []) _ _")
      proof (rule during_apply_changes)
        fix x assume "?taken x"
        then show "keyed x \<and> changes_ok x [?c]" by (rule apply_ok) simp_all
      next
        fix x x' assume "?taken x" and "moved (targets [?c]) x x'"
        then obtain x1 where x1: "to_launch rn ks T (k # rest) x1" "x = x1\<lparr>xe_held_locks := xe_held_locks x1 \<union> locks x1 k\<rparr>"
          and "moved (\<lambda>j. if j = k then Some Task_RUNNING else None) x x'"
          unfolding targets_single change.select_convs by blast
        then show "?added x'" using launched [OF x1(1)] by blast
      qed
      show "during ?added (exec_set (\<lambda>x. x\<lparr>xe_started_monotonic := dict_set k ms (xe_started_monotonic x), xe_running := xe_running x @ [k]\<rparr>))
        (\<lambda>_ x. to_launch rn ks T rest x \<and> xe_running x \<noteq> []) persistence_error" for ms
      proof (rule during_set)
        fix x assume "?added x"
        then have "to_launch rn ks T rest ((x\<lparr>xe_running := xe_running x @ [k]\<rparr>)\<lparr>xe_started_monotonic := dict_set k ms (xe_started_monotonic x)\<rparr>)"
          by (rule iffD2 [OF to_launch_frame(3)])
        moreover have "(x\<lparr>xe_running := xe_running x @ [k]\<rparr>)\<lparr>xe_started_monotonic := dict_set k ms (xe_started_monotonic x)\<rparr>
          = x\<lparr>xe_started_monotonic := dict_set k ms (xe_started_monotonic x), xe_running := xe_running x @ [k]\<rparr>" by simp
        ultimately show "to_launch rn ks T rest (x\<lparr>xe_started_monotonic := dict_set k ms (xe_started_monotonic x), xe_running := xe_running x @ [k]\<rparr>)
          \<and> xe_running (x\<lparr>xe_started_monotonic := dict_set k ms (xe_started_monotonic x), xe_running := xe_running x @ [k]\<rparr>) \<noteq> []" by simp
      qed
    qed
  qed
qed

lemma during_stall_check:
  "during (\<lambda>x. R x \<and> (xe_running x \<noteq> [] \<or> unfinished x = []))
     (bnd (exec_get (\<lambda>x. x)) (\<lambda>x. whenever (xe_running x = [] \<and> unfinished x \<noteq> []) (throw (e x))))
     (\<lambda>_ x. R x \<and> (xe_running x \<noteq> [] \<or> unfinished x = [])) X"
  by (rule during_assume, rule at_get [where f = "\<lambda>x. x"], rule during_whenever) auto

lemma during_launch_ready:
  "during (\<lambda>x. going rn ks T {} {} x \<and> flowing x \<and> \<not> xe_budget_exceeded x) (launch_ready rn)
     (\<lambda>_ x. (going rn ks T {} {} x \<and> flowing x \<and> \<not> xe_budget_exceeded x) \<and> (xe_running x \<noteq> [] \<or> unfinished x = [])) (own_error rn)"
proof (rule during_assume)
  fix x assume x: "going rn ks T {} {} x \<and> flowing x \<and> \<not> xe_budget_exceeded x"
  then have sound: "sound_run rn x" "xe_order x = ks" "occupied {} {} x" by (simp_all add: going_def)
  note picks = pick_picks [of "xe_order x" x "xe_workers x - int (length (xe_running x))" "{}"]
  have slots: "int (length (xe_running x)) \<le> xe_workers x" using sound(3) by (simp add: occupied_defs)
  have start: "to_launch rn ks T (ready x) x"
    using picks x sound slots by (auto simp: to_launch_def ready_def sound_run_def keyed_def)
  have nonempty: "ready x \<noteq> [] \<or> xe_running x \<noteq> [] \<or> unfinished x = []" using ready_when_idle [OF sound(1,3)] x by blast
  let ?I = "\<lambda>rest y. to_launch rn ks T rest y \<and> (xe_running y \<noteq> [] \<or> unfinished y = [] \<or> rest \<noteq> [])"
  have launches: "during (?I (ready x)) (for_each (ready x) (launch rn)) (\<lambda>_. ?I []) (own_error rn)"
    by (rule during_for_each) (auto intro!: during_weaken [OF during_launch])
  show "during (\<lambda>y. y = x) (launch_ready rn)
     (\<lambda>_ x. (going rn ks T {} {} x \<and> flowing x \<and> \<not> xe_budget_exceeded x) \<and> (xe_running x \<noteq> [] \<or> unfinished x = [])) (own_error rn)"
    unfolding launch_ready_def
    by (rule at_get, rule during_andthen [OF during_weaken [OF launches] during_stall_check])
      (use start nonempty in \<open>auto simp: to_launch_def\<close>)
qed

section \<open>Ending\<close>

lemma targets_plain: "targets (map (\<lambda>k. plain_change k s r) ks) = (\<lambda>j. if j \<in> set ks then Some s else None)"
proof
  fix j show "targets (map (\<lambda>k. plain_change k s r) ks) j = (if j \<in> set ks then Some s else None)"
    by (induction ks) (auto simp: targets_def plain_change_def)
qed

lemma plain_change_fields [simp]: "ch_task_id (plain_change k s r) = k" "ch_to (plain_change k s r) = s"
  by (simp_all add: plain_change_def)

lemma sound_keyed: "sound_run rn x \<Longrightarrow> keyed x" and sound_distinct: "sound_run rn x \<Longrightarrow> distinct (xe_order x)"
  by (simp_all add: sound_run_def keyed_def)

lemma during_plain_changes:
  assumes "\<And>x. P x \<Longrightarrow> sound_run rn x \<and> (\<forall>k \<in> set (xe_order x). p x k \<longrightarrow> s \<in> TASK_TRANSITIONS (task_status x k))"
    and "\<And>x x'. P x \<Longrightarrow> moved (\<lambda>j. if j \<in> set (xe_order x) \<and> p x j then Some s else None) x x' \<Longrightarrow> Q x'"
  shows "during P (apply_changes (\<lambda>x. map (\<lambda>k. plain_change k s r) (filter (p x) (xe_order x))) []) (\<lambda>_. Q) persistence_error"
proof (rule during_apply_changes)
  fix x assume "P x"
  with assms(1) [OF this] show "keyed x \<and> changes_ok x (map (\<lambda>k. plain_change k s r) (filter (p x) (xe_order x)))"
    by (auto simp: changes_ok_def sound_keyed sound_distinct comp_def table_simps)
next
  fix x x' assume "P x" "moved (targets (map (\<lambda>k. plain_change k s r) (filter (p x) (xe_order x)))) x x'"
  with assms(2) show "Q x'" by (simp add: targets_plain)
qed

text \<open>What a run keeps besides the occupation: the running list and the two flags.\<close>

definition steady :: "string list \<Rightarrow> bool \<Rightarrow> bool \<Rightarrow> execution \<Rightarrow> bool" where
  "steady R over interrupted x \<longleftrightarrow> xe_running x = R \<and> xe_budget_exceeded x = over \<and> xe_interrupted x = interrupted"

lemma steady_moved: "steady R over i x \<Longrightarrow> moved f x x' \<Longrightarrow> steady R over i x'"
  by (simp add: steady_def moved_simps)

lemma during_release_dependants:
  "during (\<lambda>x. going rn ks T {} {} x \<and> clean_except {} x \<and> in_sequence x \<and> steady R over i x) release_dependants
     (\<lambda>_ x. going rn ks T {} {} x \<and> flowing x \<and> steady R over i x) persistence_error"
  unfolding release_dependants_def
proof (rule during_plain_changes)
  fix x assume "going rn ks T {} {} x \<and> clean_except {} x \<and> in_sequence x \<and> steady R over i x"
  then show "sound_run rn x \<and> (\<forall>k \<in> set (xe_order x).
    task_status x k = Task_WAITING_DEPENDENCY \<and> dependencies_completed x (task_at x k) \<longrightarrow> Task_PENDING \<in> TASK_TRANSITIONS (task_status x k))"
    by (auto simp: going_def)
next
  fix x x'
  assume x: "going rn ks T {} {} x \<and> clean_except {} x \<and> in_sequence x \<and> steady R over i x"
    and m: "moved (\<lambda>j. if j \<in> set (xe_order x) \<and> (task_status x j = Task_WAITING_DEPENDENCY \<and> dependencies_completed x (task_at x j))
      then Some Task_PENDING else None) x x'"
  from x have sound: "sound_run rn x" by (simp add: going_def)
  have "going rn ks T {} {} x'"
    by (rule going_other [OF _ m]) (use x in \<open>auto simp: SCHEDULABLE_STATES_def split: if_splits\<close>)
  moreover have "clean_except ({} \<union> {}) x'"
    by (rule clean_moved [OF _ m sound]) (use x in \<open>auto simp: SCHEDULABLE_STATES_def terminal_task_iff split: if_splits\<close>)
  moreover have "in_sequence x'"
    by (rule in_sequence_moved [OF _ m]) (use x in \<open>auto split: if_splits\<close>)
  moreover have "waiting x'"
    unfolding waiting_def moved_simps [OF m]
  proof (intro ballI impI)
    fix k assume k: "k \<in> set (xe_order x)" "task_status x' k = Task_WAITING_DEPENDENCY"
    then have "\<not> dependencies_completed x (task_at x k)" using moved_status [OF m k(1)] by (auto split: if_splits)
    then obtain d where d: "d \<in> deps x k" "task_status x d \<noteq> Task_COMPLETED"
      by (auto simp: dependencies_completed_def list_all_iff deps_def)
    have "d \<in> set (xe_order x)" using sound_deps [OF sound] k(1) d(1) by blast
    from moved_status [OF m this] d(2) have "task_status x' d \<noteq> Task_COMPLETED" by (auto split: if_splits)
    with d(1) show "\<exists>d \<in> deps x k. task_status x' d \<noteq> Task_COMPLETED" by blast
  qed
  ultimately show "going rn ks T {} {} x' \<and> flowing x' \<and> steady R over i x'"
    using x steady_moved [OF _ m] by (simp add: flowing_def)
qed

text \<open>What \<open>_skip_dependants\<close> skips: whoever can still be skipped and depends on the task or on a skipped one.\<close>

lemma skip_from_changes:
  "distinct candidates \<Longrightarrow>
     set (map ch_task_id (skip_from x candidates worklist)) \<subseteq> set candidates
   \<and> distinct (map ch_task_id (skip_from x candidates worklist))
   \<and> (\<forall>c \<in> set (skip_from x candidates worklist). ch_to c = Task_SKIPPED \<and> change_ok c)"
proof (induction x candidates worklist rule: skip_from.induct)
  case (2 x candidates d s worklist)
  let ?hit = "filter (\<lambda>k. d \<in> set (t_depends_on (task_at x k))) candidates"
  let ?miss = "filter (\<lambda>k. d \<notin> set (t_depends_on (task_at x k))) candidates"
  let ?rest = "skip_from x ?miss (worklist @ map (\<lambda>k. (k, Task_SKIPPED)) ?hit)"
  let ?now = "map (\<lambda>k. plain_change k Task_SKIPPED (Some (dependency_label s @ '':'' @ d))) ?hit"
  have run: "skip_from x candidates ((d, s) # worklist) = ?now @ ?rest" by (simp add: Let_def)
  have now: "map ch_task_id ?now = ?hit" "\<forall>c \<in> set ?now. ch_to c = Task_SKIPPED \<and> change_ok c" by (simp_all add: comp_def)
  have apart: "set ?hit \<inter> set ?miss = {}" "set ?hit \<union> set ?miss = set candidates" by auto
  have IH: "set (map ch_task_id ?rest) \<subseteq> set ?miss" "distinct (map ch_task_id ?rest)"
    "\<forall>c \<in> set ?rest. ch_to c = Task_SKIPPED \<and> change_ok c"
    using 2(1) [OF refl distinct_filter [OF 2(2)]] by blast+
  have "set (map ch_task_id (?now @ ?rest)) \<subseteq> set candidates" unfolding map_append now(1) set_append using IH(1) apart by blast
  moreover have "distinct (map ch_task_id (?now @ ?rest))"
    unfolding map_append now(1) distinct_append using IH(1,2) apart(1) distinct_filter [OF 2(2)] by blast
  ultimately show ?case unfolding run using now(2) IH(3) by (simp add: ball_Un)
qed simp

lemma skip_from_closed:
  "k \<in> set candidates - set (map ch_task_id (skip_from x candidates worklist))
   \<Longrightarrow> deps x k \<inter> (fst ` set worklist \<union> set (map ch_task_id (skip_from x candidates worklist))) = {}"
proof (induction x candidates worklist rule: skip_from.induct)
  case (2 x candidates d s worklist)
  have "k \<in> set (filter (\<lambda>k. d \<notin> set (t_depends_on (task_at x k))) candidates)"
    using 2(2) by (auto simp: Let_def image_iff)
  with 2(1) [OF refl] 2(2) show ?case by (auto simp: Let_def deps_def image_image image_Un)
qed simp

declare skip_from.simps [simp del]

lemma targets_skipped:
  assumes "\<forall>c \<in> set cs. ch_to c = s"
  shows "targets cs = (\<lambda>j. if j \<in> set (map ch_task_id cs) then Some s else None)"
proof
  fix j show "targets cs j = (if j \<in> set (map ch_task_id cs) then Some s else None)"
    using assms by (induction cs) (auto simp: targets_def)
qed

lemma during_skip_dependants:
  "during (\<lambda>x. going rn ks T {} {} x \<and> clean_except {k} x \<and> waiting x \<and> in_sequence x \<and> steady R over i x) (skip_dependants k s)
     (\<lambda>_ x. going rn ks T {} {} x \<and> flowing x \<and> steady R over i x) persistence_error"
  unfolding skip_dependants_def
proof (rule during_apply_changes)
  fix x assume "going rn ks T {} {} x \<and> clean_except {k} x \<and> waiting x \<and> in_sequence x \<and> steady R over i x"
  then have x: "sound_run rn x" by (simp add: going_def)
  let ?open = "filter (\<lambda>k. task_status x k \<in> SCHEDULABLE_STATES) (xe_order x)"
  from skip_from_changes [OF distinct_filter [OF sound_distinct [OF x]], of x _ "[(k, s)]"] x
  show "keyed x \<and> changes_ok x (skip_from x ?open [(k, s)])"
    by (fastforce simp: changes_ok_def sound_keyed SCHEDULABLE_STATES_def table_simps)
next
  fix x x'
  assume x: "going rn ks T {} {} x \<and> clean_except {k} x \<and> waiting x \<and> in_sequence x \<and> steady R over i x"
  let ?open = "filter (\<lambda>k. task_status x k \<in> SCHEDULABLE_STATES) (xe_order x)"
  let ?cs = "skip_from x ?open [(k, s)]"
  let ?ids = "set (map ch_task_id ?cs)"
  assume change: "moved (targets ?cs) x x'"
  from x have sound: "sound_run rn x" "xe_order x = ks" by (simp_all add: going_def)
  have cs: "?ids \<subseteq> set ?open \<and> distinct (map ch_task_id ?cs) \<and> (\<forall>c \<in> set ?cs. ch_to c = Task_SKIPPED \<and> change_ok c)"
    by (rule skip_from_changes) (simp add: sound_distinct [OF sound(1)])
  then have target: "targets ?cs = (\<lambda>j. if j \<in> ?ids then Some Task_SKIPPED else None)" by (intro targets_skipped) blast
  have m: "moved (\<lambda>j. if j \<in> ?ids then Some Task_SKIPPED else None) x x'" using change unfolding target .
  have ids: "?ids \<subseteq> {j \<in> set ks. task_status x j \<in> SCHEDULABLE_STATES}" using cs sound(2) by auto
  note st = moved_status [OF m]
  have "going rn ks T {} {} x'" by (rule going_other [OF _ m]) (use x ids in \<open>auto split: if_splits\<close>)
  moreover have "waiting x'" by (rule waiting_moved [OF _ m sound(1)]) (use x in \<open>auto split: if_splits\<close>)
  moreover have "in_sequence x'" by (rule in_sequence_moved [OF _ m]) (use x in \<open>auto split: if_splits\<close>)
  moreover have "clean_except {} x'"
    unfolding clean_except_def moved_simps [OF m]
  proof (intro ballI impI)
    fix j d assume j: "j \<in> set (xe_order x)" "task_status x' j \<in> SCHEDULABLE_STATES" and d: "d \<in> deps x j - {}"
      "task_status x' d \<in> TERMINAL_TASK_STATES"
    have "j \<in> set ?open - ?ids" using st [OF j(1)] j by (auto simp: SCHEDULABLE_STATES_def split: if_splits)
    from skip_from_closed [OF this] have out: "d \<notin> ?ids" "d \<noteq> k" using d(1) by auto
    have "d \<in> set (xe_order x)" using sound_deps [OF sound(1)] j(1) d(1) by blast
    from st [OF this] out(1) have "task_status x' d = task_status x d" by simp
    then show "task_status x' d = Task_COMPLETED"
      using x \<open>j \<in> set ?open - ?ids\<close> j(1) d out(2) unfolding clean_except_def by auto
  qed
  ultimately show "going rn ks T {} {} x' \<and> flowing x' \<and> steady R over i x'"
    using x steady_moved [OF _ m] by (simp add: flowing_def)
qed

end
