(* ===== verification/Running.thy ===== *)
theory Running
  imports Scheduling
begin

text \<open>
  The rest of a run over the invariant of \<open>Scheduling\<close>: ending a task, the drains, the ends of a run, its loop;
  then what holds of every run of a plan that passed the validation.
\<close>

section \<open>Ending a task\<close>

lemma during_record_output:
  assumes "\<And>x v. P x \<Longrightarrow> P (x\<lparr>xe_outputs := v\<rparr>)" and "\<And>x v. P x \<Longrightarrow> P (x\<lparr>xe_chunks := v\<rparr>)"
    and "\<And>x. P x \<Longrightarrow> 0 \<le> task_budget rn x t"
  shows "during P (record_output rn t now e) (\<lambda>r x. P x \<and> (\<forall>u. same_task u (snd r u))) persistence_error"
proof (rule during_assume)
  fix x assume P: "P x"
  show "during (\<lambda>y. y = x) (record_output rn t now e) (\<lambda>r x. P x \<and> (\<forall>u. same_task u (snd r u))) persistence_error"
  proof (cases e)
    case (Raw_ended raw)
    show ?thesis
      unfolding record_output_def Raw_ended ended.case
    proof (intro bnd_on_app raises_intros, rule at_get, rule at_lifting)
      fix out errs kept assume "apply_budget (rx_stdout raw) (rx_stderr raw) (task_budget rn x t) = Inr kept"
      show "during (\<lambda>y. y = x) (andthen (exec_set (\<lambda>x. x\<lparr>xe_outputs := dict_set (t_task_id t) kept (xe_outputs x)\<rparr>))
          (ret ([out, errs], output_fields raw kept (b_blob_id out) (b_blob_id errs))))
        (\<lambda>r x. P x \<and> (\<forall>u. same_task u (snd r u))) persistence_error"
        by (rule at_set, rule during_ret) (use assms(1) [OF P] in \<open>auto simp: same_task_def output_fields_def\<close>)
    next
      fix out errs error assume "apply_budget (rx_stdout raw) (rx_stderr raw) (task_budget rn x t) = Inl error"
      then show "persistence_error error" using assms(3) [OF P] by (auto simp: apply_budget_def Let_def split: if_splits)
    qed
  next
    case (Chunk_ended r)
    have "during (\<lambda>y. y = x) (andthen (exec_set (\<lambda>x. x\<lparr>xe_chunks := dict_set (t_task_id t) chunk (xe_chunks x)\<rparr>)) (ret ([], \<lambda>t. t)))
        (\<lambda>r x. P x \<and> (\<forall>u. same_task u (snd r u))) persistence_error" for chunk
      by (rule at_set, rule during_ret) (use assms(2) [OF P] in auto)
    then show ?thesis
      using P unfolding record_output_def Chunk_ended ended.case by (cases r) (auto intro: during_ret)
  qed (auto simp: record_output_def P intro!: during_ret)
qed

lemma end_state_terminal:
  "end_state x e = (s, r) \<Longrightarrow> s \<in> TERMINAL_TASK_STATES \<and> s \<in> TASK_TRANSITIONS Task_RUNNING"
  by (cases "(x, e)" rule: end_state.cases)
    (auto simp: raw_state_def raw_outcome_def cancelled_state_def terminal_task_iff split: if_splits option.splits)

lemma flow_parts_frame [simp]:
  "clean_except D (x\<lparr>xe_held_locks := v\<rparr>) = clean_except D x"
  "waiting (x\<lparr>xe_held_locks := v\<rparr>) = waiting x" "in_sequence (x\<lparr>xe_held_locks := v\<rparr>) = in_sequence x"
  by (simp_all add: clean_except_def waiting_def in_sequence_def)

lemma steady_frame [simp]:
  "steady R over i (x\<lparr>xe_held_locks := v\<rparr>) = steady R over i x"
  "steady R over i (x\<lparr>xe_outputs := o'\<rparr>) = steady R over i x"
  "steady R over i (x\<lparr>xe_chunks := c\<rparr>) = steady R over i x"
  by (simp_all add: steady_def)

text \<open>After the transition of an ended task and before its dependants are released or skipped.\<close>

definition ending :: "runner \<Rightarrow> string list \<Rightarrow> string set \<Rightarrow> string \<Rightarrow> task_state \<Rightarrow> bool \<Rightarrow> execution \<Rightarrow> bool" where
  "ending rn ks T k s propagate x \<longleftrightarrow> going rn ks (insert k T) {} {} x
     \<and> (propagate \<longrightarrow> clean_except (if s = Task_COMPLETED then {} else {k}) x \<and> in_sequence x \<and> (s \<noteq> Task_COMPLETED \<longrightarrow> waiting x))"

lemma ended_to_ending:
  assumes "going rn ks T {k} {} x" and "moved f x x'" and "f = (\<lambda>j. if j = k then Some s else None)"
    and "s \<in> TERMINAL_TASK_STATES" and "propagate \<longrightarrow> flowing x"
  shows "ending rn ks T k s propagate (x'\<lparr>xe_held_locks := xe_held_locks x' - locks x k\<rparr>)"
proof -
  have sound: "sound_run rn x" using assms(1) by (simp add: going_def)
  have k: "task_status x k = Task_RUNNING" using assms(1) by (auto simp: going_def occupied_def staffed_def)
  let ?D = "if s = Task_COMPLETED then {} else {k}"
  have "clean_except ({} \<union> ?D) x'" if propagate
    by (rule clean_moved [OF _ assms(2) sound])
      (use assms(3-5) that in \<open>auto simp: flowing_def terminal_task_iff SCHEDULABLE_STATES_def split: if_splits\<close>)
  moreover have "in_sequence x'" if propagate
    by (rule in_sequence_moved [OF _ assms(2)]) (use assms(3-5) that in \<open>auto simp: flowing_def terminal_task_iff split: if_splits\<close>)
  moreover have "waiting x'" if propagate "s \<noteq> Task_COMPLETED"
    by (rule waiting_moved [OF _ assms(2) sound]) (use assms(3-5) that in \<open>auto simp: flowing_def terminal_task_iff split: if_splits\<close>)
  ultimately show ?thesis
    using going_released [of rn ks "insert k T" "locks x k" x'] going_ended [OF assms(1-4)] by (simp add: ending_def)
qed

lemma during_propagate:
  "during (\<lambda>x. ending rn ks T k s propagate x \<and> steady R over i x)
     (whenever propagate (if s = Task_COMPLETED then release_dependants else skip_dependants k s))
     (\<lambda>_ x. going rn ks (insert k T) {} {} x \<and> (propagate \<longrightarrow> flowing x) \<and> steady R over i x) persistence_error"
  by (intro during_whenever during_if during_weaken [OF during_release_dependants] during_weaken [OF during_skip_dependants])
    (auto simp: ending_def)

lemma during_record_run_failure: "during P (record_run_failure rn t f) (\<lambda>_. P) persistence_error"
  unfolding record_run_failure_def
  by (cases f) (auto intro!: during_ret during_whenever during_on_app raises_intros)

lemma during_finish:
  "during (\<lambda>x. going rn ks T {k} {} x \<and> (propagate \<longrightarrow> flowing x) \<and> steady R over i x) (finish rn k e propagate)
     (\<lambda>s x. going rn ks (insert k T) {} {} x \<and> (propagate \<longrightarrow> flowing x) \<and> steady R over i x) persistence_error"
proof (rule during_assume)
  fix x0 assume x0: "going rn ks T {k} {} x0 \<and> (propagate \<longrightarrow> flowing x0) \<and> steady R over i x0"
  let ?t = "task_at x0 k"
  let ?A = "\<lambda>x. (going rn ks T {k} {} x \<and> (propagate \<longrightarrow> flowing x) \<and> steady R over i x) \<and> task_at x k = ?t"
  let ?Q = "\<lambda>(s :: task_state) x. going rn ks (insert k T) {} {} x \<and> (propagate \<longrightarrow> flowing x) \<and> steady R over i x"
  have A0: "?A x0" using x0 by simp
  have k: "k \<in> set (xe_order x)" "task_status x k = Task_RUNNING" "sound_run rn x" if "?A x" for x
    using that by (auto simp: going_def occupied_def staffed_def)
  have budget: "0 \<le> task_budget rn x ?t" if "?A x" for x
    using k [OF that] that by (auto simp: sound_run_def)
  have tail: "during (\<lambda>y. y = x)
      (andthen (apply_changes (\<lambda>_. [\<lparr>ch_task_id = k, ch_to = to, ch_reason = reason, ch_ended_at = Some now,
          ch_fields = \<lambda>t. fields (t\<lparr>t_duration_ms := Some duration\<rparr>)\<rparr>]) blobs)
      (andthen (exec_set (\<lambda>x. x\<lparr>xe_held_locks := xe_held_locks x - lock_set ?t\<rparr>))
      (andthen (record_run_failure rn ?t (end_failure ?t e))
      (andthen (whenever propagate (if to = Task_COMPLETED then release_dependants else skip_dependants k to))
       (ret to))))) ?Q persistence_error"
    if A: "?A x" and fields: "\<forall>u. same_task u (fields u)" and to: "end_state x e = (to, reason)"
    for x to reason now fields duration blobs
  proof -
    let ?c = "\<lparr>ch_task_id = k, ch_to = to, ch_reason = reason, ch_ended_at = Some now,
      ch_fields = \<lambda>t. fields (t\<lparr>t_duration_ms := Some duration\<rparr>)\<rparr>"
    note to_ok = end_state_terminal [OF to]
    have "same_task t (fields (t\<lparr>t_duration_ms := Some duration\<rparr>))" for t
      by (rule same_task_trans [OF _ spec [OF fields]]) (simp add: same_task_def)
    then have ok: "keyed x \<and> changes_ok x [?c]"
      using k [OF A] to_ok by (simp add: changes_ok_def change_ok_def sound_keyed can_transition_def)
    show ?thesis
    proof (rule during_andthen [where R = "\<lambda>x. ending rn ks T k to propagate (x\<lparr>xe_held_locks := xe_held_locks x - lock_set ?t\<rparr>)
        \<and> steady R over i x"])
      show "during (\<lambda>y. y = x) (apply_changes (\<lambda>_. [?c]) blobs)
        (\<lambda>_ x. ending rn ks T k to propagate (x\<lparr>xe_held_locks := xe_held_locks x - lock_set ?t\<rparr>) \<and> steady R over i x) persistence_error"
      proof (rule during_apply_changes)
        fix y y' assume y: "y = x" and "moved (targets [?c]) y y'"
        then have m: "moved (\<lambda>j. if j = k then Some to else None) x y'" unfolding targets_single change.select_convs y by simp
        have "locks x k = lock_set ?t" using A by (simp add: locks_def)
        with ended_to_ending [OF _ m refl, of rn ks T propagate] A to_ok steady_moved [OF _ m]
        show "ending rn ks T k to propagate (y'\<lparr>xe_held_locks := xe_held_locks y' - lock_set ?t\<rparr>) \<and> steady R over i y'" by simp
      qed (use ok in simp)
      show "during (\<lambda>x. ending rn ks T k to propagate (x\<lparr>xe_held_locks := xe_held_locks x - lock_set ?t\<rparr>) \<and> steady R over i x)
        (andthen (exec_set (\<lambda>x. x\<lparr>xe_held_locks := xe_held_locks x - lock_set ?t\<rparr>))
        (andthen (record_run_failure rn ?t (end_failure ?t e))
        (andthen (whenever propagate (if to = Task_COMPLETED then release_dependants else skip_dependants k to))
         (ret to)))) ?Q persistence_error"
        by (rule during_andthen [where R = "\<lambda>x. ending rn ks T k to propagate x \<and> steady R over i x"],
            rule during_set, simp, rule during_andthen [OF during_record_run_failure],
            rule during_andthen [OF during_propagate], rule during_ret)
    qed
  qed
  show "during (\<lambda>y. y = x0) (finish rn k e propagate) ?Q persistence_error"
    unfolding finish_def
  proof (rule at_get, intro bnd_on_app raises_intros, rule at_get,
      rule during_bnd [OF during_pre [OF during_record_output [where P = ?A]]])
    fix now ms r
    show "during (\<lambda>x. ?A x \<and> (\<forall>u. same_task u (snd r u)))
      (case r of (blobs, flds) \<Rightarrow> bnd (exec_get (\<lambda>x. end_state x e)) (\<lambda>(to, reason).
         andthen (apply_changes (\<lambda>_. [\<lparr>ch_task_id = k, ch_to = to, ch_reason = reason, ch_ended_at = Some now,
          ch_fields = \<lambda>t. flds (t\<lparr>t_duration_ms := Some (ms - the (dict_get (xe_started_monotonic x0) k))\<rparr>)\<rparr>]) blobs)
        (andthen (exec_set (\<lambda>x. x\<lparr>xe_held_locks := xe_held_locks x - lock_set ?t\<rparr>))
        (andthen (record_run_failure rn ?t (end_failure ?t e))
        (andthen (whenever propagate (if to = Task_COMPLETED then release_dependants else skip_dependants k to))
         (ret to)))))) ?Q persistence_error"
    proof (rule during_assume)
      fix x assume x: "?A x \<and> (\<forall>u. same_task u (snd r u))"
      obtain blobs flds where r: "r = (blobs, flds)" by (cases r)
      obtain to reason where to: "end_state x e = (to, reason)" by (cases "end_state x e")
      show "during (\<lambda>y. y = x) (case r of (blobs, flds) \<Rightarrow> bnd (exec_get (\<lambda>x. end_state x e)) (\<lambda>(to, reason).
         andthen (apply_changes (\<lambda>_. [\<lparr>ch_task_id = k, ch_to = to, ch_reason = reason, ch_ended_at = Some now,
          ch_fields = \<lambda>t. flds (t\<lparr>t_duration_ms := Some (ms - the (dict_get (xe_started_monotonic x0) k))\<rparr>)\<rparr>]) blobs)
        (andthen (exec_set (\<lambda>x. x\<lparr>xe_held_locks := xe_held_locks x - lock_set ?t\<rparr>))
        (andthen (record_run_failure rn ?t (end_failure ?t e))
        (andthen (whenever propagate (if to = Task_COMPLETED then release_dependants else skip_dependants k to))
         (ret to)))))) ?Q persistence_error"
        unfolding r prod.case by (rule at_get, unfold to prod.case, rule tail) (use x r to in auto)
    qed
  qed (use A0 budget in auto)
qed

section \<open>Callbacks\<close>

definition quiet :: "'a run_act \<Rightarrow> bool" where
  "quiet m \<longleftrightarrow> (\<forall>w x r w' x'. m (w, x) = (r, (w', x')) \<longrightarrow> x' = x)"

lemma quietD: "quiet m \<Longrightarrow> m (w, x) = (r, (w', x')) \<Longrightarrow> x' = x"
  unfolding quiet_def by blast

lemma quiet_on_app: "quiet (on_app m)"
  by (auto simp: quiet_def on_part_def split: prod.splits)

lemma quiet_bnd: "quiet m \<Longrightarrow> (\<And>v. quiet (f v)) \<Longrightarrow> quiet (bnd m f)"
  by (fastforce simp: quiet_def bnd_def split: prod.splits sum.splits)

lemma quiet_reading: "quiet (reading f)"
  by (simp add: quiet_def reading_def)

lemma quiet_publish_output: "quiet (publish_output k s n d)"
  unfolding publish_output_def publish_event_def by (intro quiet_bnd quiet_on_app quiet_reading)

lemma moved_none:
  assumes "keyed x" and "k \<in> set (xe_order x)" and "same_task (task_at x k) r" and "t_status r = task_status x k"
  shows "moved (\<lambda>_. None) x (x\<lparr>xe_tasks := dict_set k r (xe_tasks x)\<rparr>)"
proof -
  have at: "task_at (x\<lparr>xe_tasks := dict_set k r (xe_tasks x)\<rparr>) j = (if j = k then r else task_at x j)" for j
    by (simp add: task_at_def)
  have "map fst (dict_set k r (xe_tasks x)) = map fst (xe_tasks x)" using assms(1,2) by (simp add: dict_keys_set keyed_def)
  then show ?thesis using assms(3,4) by (auto simp: moved_def at task_status_def)
qed

lemma moved_refl: "moved (\<lambda>_. None) x x"
  by (auto simp: moved_def intro: exI [of _ "xe_tasks x"])

lemma persist_pid_moved:
  assumes "persist_pid k pid pgid (w, x) = (r, (w', x'))" and "keyed x" and "k \<in> set (xe_order x)"
  shows "moved (\<lambda>_. None) x x'"
proof -
  obtain now w1 where now: "on_app clock_now (w, x) = (Inr now, (w1, x))"
    by (auto simp: on_part_def clock_now_def Let_def split: prod.splits)
  let ?r = "(task_at x k)\<lparr>t_pid := Some pid, t_process_group_id := pgid, t_updated_at := now\<rparr>"
  have run: "persist_pid k pid pgid (w, x) =
      andthen (on_app (on_store (save_task ?r))) (exec_set (\<lambda>x. x\<lparr>xe_tasks := dict_set k ?r (xe_tasks x)\<rparr>)) (w1, x)"
    by (simp add: persist_pid_def bnd_def now reading_def)
  have "x' = x \<or> x' = x\<lparr>xe_tasks := dict_set k ?r (xe_tasks x)\<rparr>"
    using assms(1) unfolding run andthen_def bnd_def
    by (auto simp: modifying_def dest!: quietD [OF quiet_on_app] split: prod.splits sum.splits)
  moreover have "moved (\<lambda>_. None) x (x\<lparr>xe_tasks := dict_set k ?r (xe_tasks x)\<rparr>)"
    by (rule moved_none) (use assms in \<open>auto simp: same_task_def task_status_def\<close>)
  ultimately show ?thesis using moved_refl by auto
qed

lemma during_catching:
  assumes "\<And>w x r w' x'. P x \<Longrightarrow> m (w, x) = (r, (w', x')) \<Longrightarrow> Q x'"
  shows "during P (catching m (\<lambda>_. ret ())) (\<lambda>_. Q) X"
  using assms by (fastforce simp: during_def catching_def ret_def split: prod.splits sum.splits)

lemma during_run_callback:
  assumes "\<And>x x'. P x \<Longrightarrow> moved (\<lambda>_. None) x x' \<Longrightarrow> P x'"
    and "\<And>x. P x \<Longrightarrow> keyed x \<and> set (xe_running x) \<subseteq> set (xe_order x)"
  shows "during P (run_callback c) (\<lambda>_. P) X"
proof (rule during_assume)
  fix x assume P: "P x"
  show "during (\<lambda>y. y = x) (run_callback c) (\<lambda>_. P) X"
    unfolding run_callback_def
    by (rule at_get, cases c)
      (use P assms persist_pid_moved
        in \<open>auto intro!: during_whenever during_catching dest: quietD [OF quiet_publish_output] simp: subset_iff\<close>)
qed

lemma during_callbacks:
  assumes "\<And>x x'. P x \<Longrightarrow> moved (\<lambda>_. None) x x' \<Longrightarrow> P x'"
    and "\<And>x. P x \<Longrightarrow> keyed x \<and> set (xe_running x) \<subseteq> set (xe_order x)"
  shows "during P (for_each cs run_callback) (\<lambda>_. P) X"
  by (rule during_for_each [where I = "\<lambda>_. P"]) (rule during_run_callback [OF assms])

lemma going_none: "going rn ks T E L x \<Longrightarrow> moved (\<lambda>_. None) x x' \<Longrightarrow> going rn ks T E L x'"
  by (rule going_other) auto

lemma flowing_none:
  assumes "flowing x" and "moved (\<lambda>_. None) x x'" and "sound_run rn x"
  shows "flowing x'"
  using clean_moved [of "{}" x "\<lambda>_. None" x' rn "{}"] waiting_moved [OF _ assms(2,3)] in_sequence_moved [OF _ assms(2)] assms
  by (simp add: flowing_def)

lemma going_running: "going rn ks T E L x \<Longrightarrow> keyed x \<and> set (xe_running x) \<subseteq> set (xe_order x)"
  by (auto simp: going_def sound_keyed occupied_def staffed_def)

section \<open>Drains\<close>

text \<open>What a worker may raise: the checks of \<open>CommandSpec\<close>, the store, the executor.\<close>

definition worker_error :: "(command_spec \<Rightarrow> exn + raw_execution) \<Rightarrow> exn \<Rightarrow> bool" where
  "worker_error execute e \<longleftrightarrow> persistence_error e
     \<or> e \<in> {ValueError ''cmd must not be blank'', ValueError ''timeout_ms must be > 0''} \<or> (\<exists>spec. execute spec = Inl e)"

lemma read_blob_range_error: "read_blob_range st b n m = Inl e \<Longrightarrow> persistence_error e"
  by (auto simp: read_blob_range_def Let_def split: option.splits if_splits)

lemma worker_end_error: "worker_end rn execute st x k = Inl e \<Longrightarrow> worker_error execute e"
  by (auto simp: worker_end_def worker_error_def serve_task_def serve_chunk_def make_spec_def Let_def bindR_Inl_iff
      dest!: read_blob_range_error split: if_splits sum.splits option.splits exn.splits)

lemma bnd_reading: "(\<And>w x. P x \<Longrightarrow> during (\<lambda>y. y = x) (k (f (w, x))) Q X) \<Longrightarrow> during P (bnd (reading f) k) Q X"
  by (auto simp: during_def bnd_def reading_def)

lemma during_pop_and_finish:
  assumes "\<And>e. persistence_error e \<Longrightarrow> X e" and "\<And>e. r = Inl e \<Longrightarrow> X e"
  shows "during (\<lambda>x. going rn ks T {} {} x \<and> (propagate \<longrightarrow> flowing x) \<and> steady R over i x \<and> k \<in> set R)
     (pop_and_finish rn propagate (k, r))
     (\<lambda>s x. going rn ks (insert k T) {} {} x \<and> (propagate \<longrightarrow> flowing x) \<and> steady (removeAll k R) over i x) X"
  unfolding pop_and_finish_def prod.case
proof (rule during_assume, rule at_set, rule at_lifting)
  fix x e assume x: "going rn ks T {} {} x \<and> (propagate \<longrightarrow> flowing x) \<and> steady R over i x \<and> k \<in> set R"
  show "during (\<lambda>y. y = x\<lparr>xe_running := removeAll k (xe_running x)\<rparr>) (finish rn k e propagate)
     (\<lambda>s x. going rn ks (insert k T) {} {} x \<and> (propagate \<longrightarrow> flowing x) \<and> steady (removeAll k R) over i x) X"
    by (rule during_exn [OF during_pre [OF during_finish]]) (use x going_removed [of rn ks T x k] assms(1) in \<open>auto simp: steady_def\<close>)
qed (rule assms(2))

lemma cancel_tokens_frame: "\<exists>v. fold (cancel_token reason) cs x = x\<lparr>xe_tokens := v\<rparr>"
proof (induction cs arbitrary: x)
  case Nil
  show ?case by (rule exI [of _ "xe_tokens x"]) simp
next
  case (Cons c cs)
  obtain u where "cancel_token reason c x = x\<lparr>xe_tokens := u\<rparr>"
    by (cases "dict_get (xe_tokens x) c"; cases "the (dict_get (xe_tokens x) c)") (auto simp: cancel_token_def intro: that [of "xe_tokens x"])
  moreover obtain v where "fold (cancel_token reason) cs (x\<lparr>xe_tokens := u\<rparr>) = x\<lparr>xe_tokens := u, xe_tokens := v\<rparr>" using Cons.IH by blast
  ultimately show ?case by auto
qed

lemma steady_tokens [simp]: "steady R over i (x\<lparr>xe_tokens := v\<rparr>) = steady R over i x"
  by (simp add: steady_def)

lemma steady_none: "steady R over i x \<Longrightarrow> moved (\<lambda>_. None) x x' \<Longrightarrow> steady R over i x'"
  by (rule steady_moved)

text \<open>Every running task is finished; what had ended keeps its outcome.\<close>

lemma during_finish_settled:
  assumes "\<And>e. persistence_error e \<Longrightarrow> X e" and "\<And>k e. (k, Inl e) \<in> set settled \<Longrightarrow> X e" and "distinct (map fst settled)"
  shows "during (\<lambda>x. going rn ks T {} {} x \<and> (\<exists>R. set R = fst ` set settled \<and> steady R over i x))
     (for_each settled (\<lambda>kr. andthen (pop_and_finish rn False kr) (ret ())))
     (\<lambda>_ x. going rn ks T {} {} x \<and> steady [] over i x) X"
proof (rule during_weaken [OF during_for_each [where I = "\<lambda>rest x. going rn ks T {} {} x \<and> (\<exists>R. set R = fst ` set rest \<and> steady R over i x)"]])
  fix seen kr rest assume split: "settled = seen @ kr # rest"
  obtain k r where kr: "kr = (k, r)" by (cases kr)
  have fresh: "k \<notin> fst ` set rest" using assms(3) split kr by auto
  have X: "r = Inl e \<Longrightarrow> X e" for e using assms(2) split kr by auto
  show "during (\<lambda>x. going rn ks T {} {} x \<and> (\<exists>R. set R = fst ` set (kr # rest) \<and> steady R over i x))
     (andthen (pop_and_finish rn False kr) (ret ()))
     (\<lambda>_ x. going rn ks T {} {} x \<and> (\<exists>R. set R = fst ` set rest \<and> steady R over i x)) X"
  proof (rule during_assume)
    fix x assume x: "going rn ks T {} {} x \<and> (\<exists>R. set R = fst ` set (kr # rest) \<and> steady R over i x)"
    then obtain R where R: "set R = insert k (fst ` set rest)" "steady R over i x" using kr by auto
    then have "set (removeAll k R) = fst ` set rest" using fresh by auto
    then show "during (\<lambda>y. y = x) (andthen (pop_and_finish rn False kr) (ret ()))
       (\<lambda>_ x. going rn ks T {} {} x \<and> (\<exists>R. set R = fst ` set rest \<and> steady R over i x)) X"
      unfolding kr
      by (intro during_andthen [OF during_pre [OF during_pop_and_finish [where R = R and over = over and i = i and T = T, OF assms(1) X]]] during_ret)
        (use x R in \<open>auto simp: going_def\<close>)
  qed
qed auto

lemma during_drain_running:
  assumes "\<And>e. persistence_error e \<Longrightarrow> X e" and "\<And>e. worker_error (dr_result dr) e \<Longrightarrow> X e"
  shows "during (\<lambda>x. going rn ks T {} {} x \<and> steady R over i x) (drain_running rn dr reason)
     (\<lambda>_ x. going rn ks T {} {} x \<and> steady [] over i x) X"
proof (rule during_assume)
  fix x assume x: "going rn ks T {} {} x \<and> steady R over i x"
  obtain v where v: "fold (cancel_token reason) (filter (\<lambda>k. k \<notin> set (dr_done dr)) (xe_running x)) x = x\<lparr>xe_tokens := v\<rparr>"
    using cancel_tokens_frame by blast
  let ?P = "\<lambda>x. going rn ks T {} {} x \<and> steady R over i x"
  let ?settled = "\<lambda>s. map (\<lambda>k. (k, settled_end rn dr (w_store (fst s)) (snd s) k)) (filter (\<lambda>k. k \<in> set (xe_running (snd s))) (xe_order (snd s)))"
  show "during (\<lambda>y. y = x) (drain_running rn dr reason) (\<lambda>_ x. going rn ks T {} {} x \<and> steady [] over i x) X"
    unfolding drain_running_def
  proof (rule at_set, rule during_andthen [where R = ?P])
    show "during (\<lambda>y. y = fold (cancel_token reason) (filter (\<lambda>k. k \<notin> set (dr_done dr)) (xe_running x)) x)
      (for_each (dr_callbacks dr) run_callback) (\<lambda>_. ?P) X"
      by (rule during_pre [OF during_callbacks [where P = ?P]]) (use x v going_none steady_none in \<open>auto dest: going_running\<close>)
    show "during ?P (bnd (reading ?settled) (\<lambda>settled. for_each settled (\<lambda>kr. andthen (pop_and_finish rn False kr) (ret ()))))
      (\<lambda>_ x. going rn ks T {} {} x \<and> steady [] over i x) X"
    proof (rule bnd_reading)
      fix w y assume y: "?P y"
      let ?ss = "?settled (w, y)"
      have ids: "map fst ?ss = filter (\<lambda>k. k \<in> set (xe_running y)) (xe_order y)" by (simp add: comp_def)
      have dist: "distinct (map fst ?ss)" unfolding ids using y by (auto simp: going_def dest: sound_distinct)
      have X: "X e" if "(k, Inl e) \<in> set ?ss" for k e
      proof -
        from that have "worker_end rn (dr_result dr) (w_store w) y k = Inl e" by (auto simp: settled_end_def split: if_splits)
        then show ?thesis by (rule assms(2) [OF worker_end_error])
      qed
      have "set R = fst ` set ?ss" using y going_running [of rn ks T "{}" "{}" y] by (auto simp: steady_def image_iff)
      then show "during (\<lambda>x. x = y) (for_each ?ss (\<lambda>kr. andthen (pop_and_finish rn False kr) (ret ())))
        (\<lambda>_ x. going rn ks T {} {} x \<and> steady [] over i x) X"
        by (intro during_pre [OF during_finish_settled [OF assms(1) X dist]]) (use y in \<open>blast | assumption\<close>)+
    qed
  qed
qed

section \<open>The ends of a run\<close>

text \<open>Nothing runs; then every task has ended; then the plan has, with its counters.\<close>

definition halted :: "runner \<Rightarrow> string list \<Rightarrow> plan_state \<Rightarrow> execution \<Rightarrow> bool" where
  "halted rn ks s x \<longleftrightarrow> sound_run rn x \<and> xe_order x = ks \<and> (\<forall>k \<in> set ks. task_status x k \<noteq> Task_RUNNING) \<and> fed x \<and> p_status (xe_plan x) = s"

definition settled :: "runner \<Rightarrow> string list \<Rightarrow> plan_state \<Rightarrow> execution \<Rightarrow> bool" where
  "settled rn ks s x \<longleftrightarrow> halted rn ks s x \<and> (\<forall>k \<in> set ks. task_status x k \<in> TERMINAL_TASK_STATES)"

definition tallied :: "execution \<Rightarrow> bool" where
  "tallied x \<longleftrightarrow> p_task_count (xe_plan x) = int (length (xe_tasks x))
   \<and> p_completed_task_count (xe_plan x) = counted {Task_COMPLETED} x \<and> p_failed_task_count (xe_plan x) = counted FAILED_TASK_STATES x
   \<and> p_skipped_task_count (xe_plan x) = counted {Task_SKIPPED} x \<and> p_cancelled_task_count (xe_plan x) = counted {Task_CANCELLED} x
   \<and> p_interrupted_task_count (xe_plan x) = counted {Task_INTERRUPTED} x"

lemma going_halted: "going rn ks T {} {} x \<Longrightarrow> xe_running x = [] \<Longrightarrow> halted rn ks Plan_RUNNING x"
  by (auto simp: going_def halted_def occupied_def staffed_def)

lemma fresh_halted: "fresh rn ks x \<Longrightarrow> halted rn ks Plan_PENDING x"
  by (auto simp: fresh_def halted_def fed_def)

lemma during_mark_remaining:
  assumes "to = Task_SKIPPED \<or> to = Task_INTERRUPTED"
  shows "during (halted rn ks s) (mark_remaining to reason) (\<lambda>_. settled rn ks s) persistence_error"
  unfolding mark_remaining_def
proof (rule during_plain_changes)
  fix x assume "halted rn ks s x"
  then show "sound_run rn x \<and> (\<forall>k \<in> set (xe_order x). task_status x k \<in> SCHEDULABLE_STATES \<longrightarrow> to \<in> TASK_TRANSITIONS (task_status x k))"
    using assms by (auto simp: halted_def SCHEDULABLE_STATES_def)
next
  fix x x' assume x: "halted rn ks s x"
    and m: "moved (\<lambda>j. if j \<in> set (xe_order x) \<and> task_status x j \<in> SCHEDULABLE_STATES then Some to else None) x x'"
  have sound: "sound_run rn x" using x by (simp add: halted_def)
  have st: "task_status x' k = (if task_status x k \<in> SCHEDULABLE_STATES then to else task_status x k)" if "k \<in> set (xe_order x)" for k
    using moved_status [OF m that] that by simp
  have "fed x'"
    by (rule fed_moved [OF _ m sound_deps [OF sound]])
      (use x assms in \<open>auto simp: halted_def SCHEDULABLE_STATES_def split: if_splits\<close>)
  then show "settled rn ks s x'"
    using x assms st sound_run_moved [OF sound m]
    by (auto simp: settled_def halted_def moved_simps [OF m] terminal_task_iff SCHEDULABLE_STATES_def)
qed

lemma moved_plan_simps:
  "p_plan_id (moved_plan x to r now) = p_plan_id (xe_plan x)" "p_status (moved_plan x to r now) = to"
  "p_execution_policy (moved_plan x to r now) = p_execution_policy (xe_plan x)"
  "p_default_max_output_bytes (moved_plan x to r now) = p_default_max_output_bytes (xe_plan x)"
  "p_session_id (moved_plan x to r now) = p_session_id (xe_plan x)"
  by (simp_all add: moved_plan_def Let_def)

lemma tallied_moved_plan: "tallied (x\<lparr>xe_plan := moved_plan x to r now\<rparr>)"
  by (simp add: tallied_def counted_def moved_plan_def Let_def)

lemma sound_run_plan: "sound_run rn (x\<lparr>xe_plan := moved_plan x to r now\<rparr>) = sound_run rn x"
  by (rule sound_run_cong) (simp_all add: moved_plan_simps)

lemma during_transition_plan:
  assumes "\<And>x. P x \<Longrightarrow> to \<in> PLAN_TRANSITIONS (p_status (xe_plan x))"
    and "\<And>x now. P x \<Longrightarrow> Q (x\<lparr>xe_plan := moved_plan x to r now\<rparr>)"
  shows "during P (transition_plan to r) (\<lambda>_. Q) persistence_error"
proof (rule during_assume)
  fix x assume P: "P x"
  show "during (\<lambda>y. y = x) (transition_plan to r) (\<lambda>_. Q) persistence_error"
    unfolding transition_plan_def
  proof (rule at_get, rule during_andthen [OF during_lifting [where Q = "\<lambda>_ y. y = x"]])
    show "during (\<lambda>y. y = x) (bnd (on_app clock_now) (\<lambda>now. bnd (exec_get (\<lambda>x. moved_plan x to r now)) (\<lambda>plan.
       andthen (on_app (on_store (transaction (save_plan plan))))
      (andthen (exec_set (\<lambda>x. x\<lparr>xe_plan := plan\<rparr>))
       (publish_event PLAN_STATE_CHANGED now None
        (state_change_payload (Some (plan_state_value (p_status (xe_plan x)))) (plan_state_value to) None
         @ (case r of None \<Rightarrow> [] | Some r \<Rightarrow> [(''stop_reason'', JStr r)]))))))) (\<lambda>_. Q) persistence_error"
      by (rule bnd_on_app, intro raises_intros, rule at_get, rule andthen_on_app, intro raises_intros, rule at_set,
          rule during_weaken [OF during_publish_event]) (use assms(2) [OF P] in auto)
  qed (use assms(1) [OF P] in \<open>auto simp: assert_transition_def guardR_def can_transition_def\<close>)
qed

lemma during_end_plan:
  assumes "to \<in> PLAN_TRANSITIONS s"
  shows "during (settled rn ks s) (transition_plan to r) (\<lambda>_ x. settled rn ks to x \<and> tallied x) persistence_error"
proof (rule during_transition_plan)
  fix x now assume "settled rn ks s x"
  then show "settled rn ks to (x\<lparr>xe_plan := moved_plan x to r now\<rparr>) \<and> tallied (x\<lparr>xe_plan := moved_plan x to r now\<rparr>)"
    by (auto simp: settled_def halted_def sound_run_plan tallied_moved_plan moved_plan_simps fed_def)
qed (use assms in \<open>simp add: settled_def halted_def\<close>)

text \<open>What a returned outcome says.\<close>

definition right_result :: "runner \<Rightarrow> plan_outcome \<Rightarrow> bool" where
  "right_result rn res \<longleftrightarrow> (case po_execution_result res of
     None \<Rightarrow> po_interrupted res
   | Some c \<Rightarrow> \<not> po_interrupted res \<and> (\<exists>outputs chunks content.
       collected (rn_collector rn) (po_plan res) (sort_key t_order_index (po_tasks res)) outputs chunks = Inr content
       \<and> fit_message content (y_max_message_bytes (rn_payload rn)) = Some c))"

definition count_status :: "task_state set \<Rightarrow> task_record list \<Rightarrow> int" where
  "count_status S ts = int (length (filter (\<lambda>t. t_status t \<in> S) ts))"

definition right_outcome :: "runner \<Rightarrow> string list \<Rightarrow> plan_outcome \<Rightarrow> bool" where
  "right_outcome rn ks res \<longleftrightarrow> map t_task_id (po_tasks res) = ks
   \<and> (\<forall>t \<in> set (po_tasks res). t_status t \<in> TERMINAL_TASK_STATES
        \<and> (t_status t = Task_COMPLETED \<longrightarrow> (\<forall>d \<in> set (t_depends_on t). \<exists>u \<in> set (po_tasks res). t_task_id u = d \<and> t_status u = Task_COMPLETED)))
   \<and> p_status (po_plan res) \<in> TERMINAL_PLAN_STATES
   \<and> (po_interrupted res \<longleftrightarrow> p_status (po_plan res) = Plan_INTERRUPTED)
   \<and> (po_budget_exceeded res \<longleftrightarrow> p_status (po_plan res) = Plan_FAILED)
   \<and> p_task_count (po_plan res) = int (length ks)
   \<and> p_completed_task_count (po_plan res) = count_status {Task_COMPLETED} (po_tasks res)
   \<and> p_failed_task_count (po_plan res) = count_status FAILED_TASK_STATES (po_tasks res)
   \<and> p_skipped_task_count (po_plan res) = count_status {Task_SKIPPED} (po_tasks res)
   \<and> p_cancelled_task_count (po_plan res) = count_status {Task_CANCELLED} (po_tasks res)
   \<and> p_interrupted_task_count (po_plan res) = count_status {Task_INTERRUPTED} (po_tasks res)
   \<and> right_result rn res"

lemma keyed_tasks:
  assumes "keyed x"
  shows "map snd (xe_tasks x) = ordered_tasks x"
proof -
  have order: "map fst (xe_tasks x) = xe_order x" and dist: "distinct (map fst (xe_tasks x))" using assms by (simp_all add: keyed_def)
  have "map snd (xe_tasks x) = map (\<lambda>kt. task_at x (fst kt)) (xe_tasks x)"
    using dist by (auto simp: task_at_def map_of_is_SomeI)
  also have "\<dots> = map (task_at x) (map fst (xe_tasks x))" by simp
  finally show ?thesis unfolding ordered_tasks_def order .
qed

lemma counted_ordered:
  assumes "keyed x"
  shows "counted S x = count_status S (ordered_tasks x)"
  unfolding keyed_tasks [OF assms, symmetric] by (simp add: counted_def count_status_def filter_map comp_def)

lemma right_outcomeI:
  assumes "settled rn ks s x" and "tallied x" and "s \<in> TERMINAL_PLAN_STATES"
    and "po_plan res = xe_plan x" and "po_tasks res = ordered_tasks x"
    and "po_interrupted res \<longleftrightarrow> s = Plan_INTERRUPTED" and "po_budget_exceeded res \<longleftrightarrow> s = Plan_FAILED" and "right_result rn res"
  shows "right_outcome rn ks res"
proof -
  have x: "sound_run rn x" "xe_order x = ks" "fed x" "p_status (xe_plan x) = s" "\<forall>k \<in> set ks. task_status x k \<in> TERMINAL_TASK_STATES"
    using assms(1) by (simp_all add: settled_def halted_def)
  have keyed: "keyed x" using sound_keyed [OF x(1)] .
  have ids: "t_task_id (task_at x k) = k" if "k \<in> set ks" for k using keyed x(2) that by (simp add: keyed_def)
  have "\<exists>j \<in> set ks. t_task_id (task_at x j) = d \<and> t_status (task_at x j) = Task_COMPLETED"
    if "k \<in> set ks" "t_status (task_at x k) = Task_COMPLETED" "d \<in> set (t_depends_on (task_at x k))" for k d
  proof (rule bexI [of _ d])
    show d: "d \<in> set ks" using sound_deps [OF x(1)] that x(2) by (auto simp: deps_def)
    show "t_task_id (task_at x d) = d \<and> t_status (task_at x d) = Task_COMPLETED"
      using x(2,3) that ids [OF d] by (auto simp: fed_def task_status_def deps_def)
  qed
  then have tasks: "\<forall>t \<in> set (ordered_tasks x). t_status t \<in> TERMINAL_TASK_STATES \<and> (t_status t = Task_COMPLETED \<longrightarrow>
      (\<forall>d \<in> set (t_depends_on t). \<exists>u \<in> set (ordered_tasks x). t_task_id u = d \<and> t_status u = Task_COMPLETED))"
    using x(2,5) by (simp add: ordered_tasks_def task_status_def)
  have order: "map t_task_id (ordered_tasks x) = ks" using ids x(2) by (simp add: ordered_tasks_def comp_def map_idI)
  have "length (xe_tasks x) = length ks" using keyed x(2) by (metis keyed_def length_map)
  then show ?thesis
    using assms(2,3,6-8) x(4) order tasks
    unfolding right_outcome_def assms(4,5) tallied_def counted_ordered [OF keyed] by simp
qed

lemma during_outcome_with_result:
  assumes "s \<in> TERMINAL_PLAN_STATES" and "s \<noteq> Plan_INTERRUPTED" and "over \<longleftrightarrow> s = Plan_FAILED"
    and "\<And>e. translator_error (rn_collector rn) e \<Longrightarrow> X e"
  shows "during (\<lambda>x. settled rn ks s x \<and> tallied x) (outcome_with_result rn over)
     (\<lambda>res _. \<forall>r. res = Some r \<longrightarrow> right_outcome rn ks r) X"
  unfolding outcome_with_result_def
proof (rule during_assume, rule at_get)
  fix x assume x: "settled rn ks s x \<and> tallied x"
  have sound: "sound_run rn x" "p_status (xe_plan x) = s" "xe_order x = ks" using x by (simp_all add: settled_def halted_def)
  have all: "list_all (\<lambda>t. t_plan_id t = p_plan_id (xe_plan x) \<and> t_status t \<in> TERMINAL_TASK_STATES) (ordered_tasks x)"
    using x sound by (auto simp: settled_def sound_run_def ordered_tasks_def task_status_def list_all_iff)
  note run = collect_terminal [OF all, of "rn_collector rn" "xe_outputs x" "xe_chunks x"]
  have run: "collect (rn_collector rn) (xe_plan x) (ordered_tasks x) (xe_outputs x) (xe_chunks x)
      = collected (rn_collector rn) (xe_plan x) (sort_key t_order_index (ordered_tasks x)) (xe_outputs x) (xe_chunks x)"
    by (rule run) (use sound assms in auto)
  show "during (\<lambda>y. y = x) (bnd (lifting (collect (rn_collector rn) (xe_plan x) (ordered_tasks x) (xe_outputs x) (xe_chunks x))) (\<lambda>content.
     case fit_message content (y_max_message_bytes (rn_payload rn)) of
       None \<Rightarrow> ret None
     | Some fitted \<Rightarrow> bnd (make_outcome (Some fitted) False over) (\<lambda>res. ret (Some res))))
     (\<lambda>res _. \<forall>r. res = Some r \<longrightarrow> right_outcome rn ks r) X"
  proof (rule at_lifting)
    fix content assume "collect (rn_collector rn) (xe_plan x) (ordered_tasks x) (xe_outputs x) (xe_chunks x) = Inr content"
    then have content: "collected (rn_collector rn) (xe_plan x) (sort_key t_order_index (ordered_tasks x)) (xe_outputs x) (xe_chunks x) = Inr content"
      using run by simp
    show "during (\<lambda>y. y = x) (case fit_message content (y_max_message_bytes (rn_payload rn)) of
       None \<Rightarrow> ret None
     | Some fitted \<Rightarrow> bnd (make_outcome (Some fitted) False over) (\<lambda>res. ret (Some res)))
     (\<lambda>res _. \<forall>r. res = Some r \<longrightarrow> right_outcome rn ks r) X"
    proof (cases "fit_message content (y_max_message_bytes (rn_payload rn))")
      case (Some fitted)
      then have fitted: "\<exists>outputs chunks content. collected (rn_collector rn) (xe_plan x) (sort_key t_order_index (ordered_tasks x)) outputs chunks = Inr content
          \<and> fit_message content (y_max_message_bytes (rn_payload rn)) = Some fitted" using content by blast
      show ?thesis
        unfolding Some option.case make_outcome_def
      proof (rule at_get, rule during_ret)
        fix y
        let ?res = "\<lparr>po_plan = xe_plan x, po_tasks = ordered_tasks x, po_execution_result = Some fitted,
          po_interrupted = False, po_budget_exceeded = over, po_stop_reason = p_stop_reason (xe_plan x)\<rparr>"
        have "right_outcome rn ks ?res"
          by (rule right_outcomeI [of rn ks s x]) (use x assms fitted in \<open>simp_all add: right_result_def\<close>)
        then show "\<forall>r. Some ?res = Some r \<longrightarrow> right_outcome rn ks r" by simp
      qed
    qed (simp add: during_ret)
  qed (use run assms(4) collected_raises in fastforce)
qed

lemma during_completed_run:
  "during (\<lambda>x. going rn ks T {} {} x \<and> xe_running x = [] \<and> unfinished x = []) (completed_run rn)
     (\<lambda>res _. \<forall>r. res = Some r \<longrightarrow> right_outcome rn ks r) (own_error rn)"
  unfolding completed_run_def
proof (rule during_assume, rule at_get)
  fix x assume x: "going rn ks T {} {} x \<and> xe_running x = [] \<and> unfinished x = []"
  then have start: "settled rn ks Plan_RUNNING x"
    using going_halted [of rn ks T x] by (auto simp: settled_def halted_def unfinished_def filter_empty_conv)
  show "during (\<lambda>y. y = x) (andthen (whenever (unfinished x \<noteq> [])
       (bnd (exec_get (\<lambda>x. p_plan_id (xe_plan x))) (\<lambda>pid.
        throw (GenericSystemError ''PLAN_TASKS_NOT_TERMINAL'' ''PlanRunner'' False
          [(''plan_id'', JStr pid), (''tasks'', JArr (map JStr (unfinished x)))]))))
    (andthen (transition_plan Plan_COMPLETED None) (outcome_with_result rn False)))
    (\<lambda>res _. \<forall>r. res = Some r \<longrightarrow> right_outcome rn ks r) (own_error rn)"
    by (rule during_andthen [OF during_whenever [where Q = "\<lambda>_. settled rn ks Plan_RUNNING"]],
        use x start in simp, use start in simp,
        rule during_andthen [OF during_exn [OF during_end_plan own_errorI(1)]], simp, assumption, rule during_outcome_with_result)
      (simp_all add: terminal_plan_iff own_errorI)
qed

lemma during_stopped_run:
  assumes "\<And>e. own_error rn e \<Longrightarrow> X e" and "\<And>e. worker_error (dr_result dr) e \<Longrightarrow> X e"
    and "s \<in> {Plan_STOPPED_ON_FAILURE, Plan_SHORT_CIRCUITED_ON_SUCCESS}"
  shows "during (going rn ks T {} {}) (stopped_run rn dr (s, r)) (\<lambda>res _. \<forall>r. res = Some r \<longrightarrow> right_outcome rn ks r) X"
  unfolding stopped_run_def prod.case
proof (rule during_assume, rule at_set)
  fix x assume x: "going rn ks T {} {} x"
  let ?x = "x\<lparr>xe_stop_reason := Some r\<rparr>"
  have start: "going rn ks T {} {} ?x \<and> steady (xe_running x) (xe_budget_exceeded x) (xe_interrupted x) ?x" using x by (simp add: steady_def)
  note drained = during_drain_running [OF assms(1) [OF own_errorI(1)] assms(2), where T = T and ks = ks and rn = rn and R = "xe_running x"
    and over = "xe_budget_exceeded x" and i = "xe_interrupted x" and reason = PLAN_STOPPED_REASON]
  show "during (\<lambda>y. y = ?x) (andthen (drain_running rn dr PLAN_STOPPED_REASON)
    (andthen (mark_remaining Task_SKIPPED (PLAN_STOPPED_REASON @ '':'' @ r))
    (andthen (transition_plan s (Some r)) (outcome_with_result rn False))))
    (\<lambda>res _. \<forall>r. res = Some r \<longrightarrow> right_outcome rn ks r) X"
  proof (rule during_andthen [where R = "halted rn ks Plan_RUNNING"])
    show "during (\<lambda>y. y = ?x) (drain_running rn dr PLAN_STOPPED_REASON) (\<lambda>_. halted rn ks Plan_RUNNING) X"
      by (rule during_weaken [OF drained]) (use start going_halted in \<open>auto simp: steady_def\<close>)
    show "during (halted rn ks Plan_RUNNING) (andthen (mark_remaining Task_SKIPPED (PLAN_STOPPED_REASON @ '':'' @ r))
      (andthen (transition_plan s (Some r)) (outcome_with_result rn False)))
      (\<lambda>res _. \<forall>r. res = Some r \<longrightarrow> right_outcome rn ks r) X"
      by (rule during_andthen [OF during_exn [OF during_mark_remaining assms(1) [OF own_errorI(1)]]], simp, assumption,
          rule during_andthen [OF during_exn [OF during_end_plan assms(1) [OF own_errorI(1)]]], use assms(3) in force, assumption,
          rule during_outcome_with_result)
        (use assms(1,3) own_errorI(2) in \<open>auto simp: terminal_plan_iff\<close>)
  qed
qed

lemma during_budget_failed_run:
  assumes "s \<in> {Plan_PENDING, Plan_RUNNING}"
  shows "during (halted rn ks s) (budget_failed_run rn) (\<lambda>res _. \<forall>r. res = Some r \<longrightarrow> right_outcome rn ks r) (own_error rn)"
  unfolding budget_failed_run_def
  by (rule during_andthen [OF during_exn [OF during_mark_remaining own_errorI(1)]], simp, assumption,
      rule during_andthen [OF during_exn [OF during_end_plan own_errorI(1)]], use assms in force, assumption,
      rule during_outcome_with_result)
    (auto simp: terminal_plan_iff own_errorI)

lemma drain_idle:
  assumes "xe_running x = []"
  shows "during (\<lambda>y. y = x) (drain_running rn dr reason) (\<lambda>_ y. y = x) X"
proof -
  have callback: "during (\<lambda>y. y = x) (run_callback c) (\<lambda>_ y. y = x) X" for c
    unfolding run_callback_def by (rule at_get, cases c) (simp_all add: assms whenever_def during_ret)
  show ?thesis
    unfolding drain_running_def
  proof (rule at_set, rule during_andthen [where R = "\<lambda>y. y = x"])
    show "during (\<lambda>y. y = fold (cancel_token reason) (filter (\<lambda>k. k \<notin> set (dr_done dr)) (xe_running x)) x)
      (for_each (dr_callbacks dr) run_callback) (\<lambda>_ y. y = x) X"
      using during_for_each [where I = "\<lambda>_ y. y = x", OF callback] assms by simp
    show "during (\<lambda>y. y = x) (bnd (reading (\<lambda>s. map (\<lambda>k. (k, settled_end rn dr (w_store (fst s)) (snd s) k))
        (filter (\<lambda>k. k \<in> set (xe_running (snd s))) (xe_order (snd s))))) (\<lambda>settled.
        for_each settled (\<lambda>kr. andthen (pop_and_finish rn False kr) (ret ())))) (\<lambda>_ y. y = x) X"
      by (rule bnd_reading) (use assms in \<open>simp add: during_ret\<close>)
  qed
qed

lemma during_interrupted_run:
  assumes "\<And>e. persistence_error e \<Longrightarrow> X e" and "\<And>e. worker_error (dr_result dr) e \<Longrightarrow> X e"
  shows "during (\<lambda>x. fresh rn ks x \<or> going rn ks T {} {} x) (interrupted_run rn dr)
     (\<lambda>res _. \<forall>r. res = Some r \<longrightarrow> right_outcome rn ks r) X"
  unfolding interrupted_run_def
proof (rule during_assume, rule at_set)
  fix x assume x: "fresh rn ks x \<or> going rn ks T {} {} x"
  let ?x = "x\<lparr>xe_interrupting := True\<rparr>"
  let ?halted = "\<lambda>x. halted rn ks Plan_PENDING x \<or> halted rn ks Plan_RUNNING x"
  have drained: "during (\<lambda>y. y = ?x) (drain_running rn dr INTERRUPT_REASON) (\<lambda>_. ?halted) X"
  proof (cases "fresh rn ks x")
    case True
    then have "fresh rn ks ?x" by (simp add: fresh_def)
    from fresh_halted [OF this] have "halted rn ks Plan_PENDING ?x" .
    moreover have "xe_running ?x = []" using True by (simp add: fresh_def)
    ultimately show ?thesis by (intro during_weaken [OF drain_idle [of ?x]]) auto
  next
    case False
    then have "going rn ks T {} {} ?x \<and> steady (xe_running x) (xe_budget_exceeded x) (xe_interrupted x) ?x"
      using x by (simp add: steady_def)
    then show ?thesis
      by (intro during_weaken [OF during_drain_running [OF assms, where T = T and ks = ks and rn = rn and R = "xe_running x"
        and over = "xe_budget_exceeded x" and i = "xe_interrupted x"]])
        (use going_halted in \<open>auto simp: steady_def\<close>)
  qed
  have marked: "during ?halted (mark_remaining Task_INTERRUPTED INTERRUPT_REASON)
    (\<lambda>_ x. settled rn ks Plan_PENDING x \<or> settled rn ks Plan_RUNNING x) X"
    using during_mark_remaining [of Task_INTERRUPTED rn ks Plan_PENDING INTERRUPT_REASON]
      during_mark_remaining [of Task_INTERRUPTED rn ks Plan_RUNNING INTERRUPT_REASON] assms(1)
    unfolding during_def by blast
  have ended: "during (\<lambda>x. settled rn ks Plan_PENDING x \<or> settled rn ks Plan_RUNNING x) (transition_plan Plan_INTERRUPTED (Some INTERRUPT_REASON))
    (\<lambda>_ x. settled rn ks Plan_INTERRUPTED x \<and> tallied x) X"
    using during_end_plan [of Plan_INTERRUPTED Plan_PENDING rn ks "Some INTERRUPT_REASON"]
      during_end_plan [of Plan_INTERRUPTED Plan_RUNNING rn ks "Some INTERRUPT_REASON"] assms(1)
    unfolding during_def by simp
  have outcome: "during (\<lambda>x. settled rn ks Plan_INTERRUPTED x \<and> tallied x) (bnd (make_outcome None True False) (\<lambda>res. ret (Some res)))
    (\<lambda>res _. \<forall>r. res = Some r \<longrightarrow> right_outcome rn ks r) X"
    unfolding make_outcome_def
    by (rule during_assume, rule at_get, rule during_ret)
      (auto simp: right_result_def terminal_plan_iff intro!: right_outcomeI [of rn ks Plan_INTERRUPTED])
  show "during (\<lambda>y. y = ?x) (andthen (drain_running rn dr INTERRUPT_REASON)
    (andthen (mark_remaining Task_INTERRUPTED INTERRUPT_REASON)
    (andthen (transition_plan Plan_INTERRUPTED (Some INTERRUPT_REASON))
    (bnd (make_outcome None True False) (\<lambda>res. ret (Some res))))))
    (\<lambda>res _. \<forall>r. res = Some r \<longrightarrow> right_outcome rn ks r) X"
    by (rule during_andthen [OF drained], rule during_andthen [OF marked], rule during_andthen [OF ended], rule outcome)
qed

section \<open>The loop\<close>

text \<open>Opened: \<open>RUNNING\<close>, before its first launch.\<close>

definition opened :: "runner \<Rightarrow> string list \<Rightarrow> execution \<Rightarrow> bool" where
  "opened rn ks x \<longleftrightarrow> sound_run rn x \<and> xe_order x = ks \<and> p_status (xe_plan x) = Plan_RUNNING
     \<and> xe_running x = [] \<and> xe_held_locks x = {} \<and> \<not> xe_budget_exceeded x
     \<and> (\<forall>k \<in> set ks. task_status x k = Task_PENDING
          \<or> task_status x k = Task_WAITING_DEPENDENCY \<and> p_execution_policy (xe_plan x) \<noteq> SEQUENTIAL \<and> deps x k \<noteq> {})"

lemma opened_going:
  assumes "opened rn ks x"
  shows "going rn ks {} {} {} (x\<lparr>xe_started := True\<rparr>) \<and> flowing (x\<lparr>xe_started := True\<rparr>)"
proof -
  let ?x = "x\<lparr>xe_started := True\<rparr>"
  have x: "sound_run rn x" "xe_order x = ks" "xe_running x = []" "xe_held_locks x = {}" "p_status (xe_plan x) = Plan_RUNNING"
    and st: "\<And>k. k \<in> set ks \<Longrightarrow> task_status x k = Task_PENDING
      \<or> task_status x k = Task_WAITING_DEPENDENCY \<and> p_execution_policy (xe_plan x) \<noteq> SEQUENTIAL \<and> deps x k \<noteq> {}"
    using assms by (simp_all add: opened_def)
  have deps: "\<And>k d. k \<in> set ks \<Longrightarrow> d \<in> deps x k \<Longrightarrow> d \<in> set ks" using sound_deps [OF x(1)] x(2) by blast
  have open_states: "\<And>k. k \<in> set ks \<Longrightarrow> task_status x k \<notin> TERMINAL_TASK_STATES \<and> task_status x k \<noteq> Task_RUNNING \<and> task_status x k \<noteq> Task_COMPLETED"
    using st by (force simp: terminal_task_iff)
  have "occupied {} {} ?x"
    using x open_states by (auto simp: occupied_defs sound_run_def)
  moreover have "flowing ?x"
    using open_states st deps x(2) by (fastforce simp: flowing_defs)
  ultimately show ?thesis using x by (simp add: going_def)
qed

lemma during_start_plan:
  "during (\<lambda>x. fresh rn ks x \<and> \<not> xe_budget_exceeded x) start_plan
     (\<lambda>_ x. going rn ks {} {} {} x \<and> flowing x \<and> \<not> xe_budget_exceeded x) persistence_error"
  unfolding start_plan_def
proof (rule during_andthen [where R = "\<lambda>x. opened rn ks x \<and> (\<forall>k \<in> set ks. task_status x k = Task_PENDING)"])
  show "during (\<lambda>x. fresh rn ks x \<and> \<not> xe_budget_exceeded x) (transition_plan Plan_RUNNING None)
    (\<lambda>_ x. opened rn ks x \<and> (\<forall>k \<in> set ks. task_status x k = Task_PENDING)) persistence_error"
    by (rule during_transition_plan) (auto simp: fresh_def opened_def sound_run_plan moved_plan_simps)
  show "during (\<lambda>x. opened rn ks x \<and> (\<forall>k \<in> set ks. task_status x k = Task_PENDING))
    (andthen (bnd (exec_get (\<lambda>x. p_execution_policy (xe_plan x))) (\<lambda>policy. whenever (policy = PARALLEL)
       (apply_changes (\<lambda>x. map (\<lambda>k. plain_change k Task_WAITING_DEPENDENCY None)
            (filter (\<lambda>k. t_depends_on (task_at x k) \<noteq> []) (xe_order x))) [])))
     (exec_set (\<lambda>x. x\<lparr>xe_started := True\<rparr>)))
    (\<lambda>_ x. going rn ks {} {} {} x \<and> flowing x \<and> \<not> xe_budget_exceeded x) persistence_error"
  proof (rule during_andthen [where R = "opened rn ks"])
    show "during (opened rn ks) (exec_set (\<lambda>x. x\<lparr>xe_started := True\<rparr>))
      (\<lambda>_ x. going rn ks {} {} {} x \<and> flowing x \<and> \<not> xe_budget_exceeded x) persistence_error"
      by (rule during_set) (use opened_going in \<open>auto simp: opened_def\<close>)
    show "during (\<lambda>x. opened rn ks x \<and> (\<forall>k \<in> set ks. task_status x k = Task_PENDING))
      (bnd (exec_get (\<lambda>x. p_execution_policy (xe_plan x))) (\<lambda>policy. whenever (policy = PARALLEL)
       (apply_changes (\<lambda>x. map (\<lambda>k. plain_change k Task_WAITING_DEPENDENCY None)
            (filter (\<lambda>k. t_depends_on (task_at x k) \<noteq> []) (xe_order x))) []))) (\<lambda>_. opened rn ks) persistence_error"
    proof (rule during_assume, rule at_get, rule during_whenever, rule during_plain_changes)
      fix x y assume x: "opened rn ks x \<and> (\<forall>k \<in> set ks. task_status x k = Task_PENDING)" and y: "y = x"
      then show "sound_run rn y \<and> (\<forall>k \<in> set (xe_order y). t_depends_on (task_at y k) \<noteq> [] \<longrightarrow> Task_WAITING_DEPENDENCY \<in> TASK_TRANSITIONS (task_status y k))"
        by (auto simp: opened_def)
      fix x' assume parallel: "p_execution_policy (xe_plan x) = PARALLEL"
        and m: "moved (\<lambda>j. if j \<in> set (xe_order y) \<and> t_depends_on (task_at y j) \<noteq> [] then Some Task_WAITING_DEPENDENCY else None) y x'"
      have "sound_run rn x'" by (rule sound_run_moved [OF _ m]) (use x y in \<open>simp add: opened_def\<close>)
      moreover have "task_status x' k = (if t_depends_on (task_at x k) \<noteq> [] then Task_WAITING_DEPENDENCY else Task_PENDING)" if "k \<in> set ks" for k
        using moved_status [OF m, of k] that x y by (auto simp: opened_def)
      ultimately show "opened rn ks x'"
        using x y parallel by (auto simp: opened_def moved_simps [OF m] deps_def)
    qed auto
  qed
qed

text \<open>Where the loop can be at its head, with the tasks of \<open>T\<close> ended.\<close>

definition looping :: "runner \<Rightarrow> string list \<Rightarrow> string set \<Rightarrow> execution \<Rightarrow> bool" where
  "looping rn ks T x \<longleftrightarrow> fresh rn ks x \<and> T = {} \<or> going rn ks T {} {} x \<and> (\<not> xe_budget_exceeded x \<longrightarrow> flowing x)"

lemma looping_over: "looping rn ks T x \<Longrightarrow> looping rn ks T (x\<lparr>xe_budget_exceeded := True\<rparr>)"
  by (auto simp: looping_def fresh_def)

lemma during_check_deadline:
  "during (looping rn ks T) check_deadline (\<lambda>_. looping rn ks T) persistence_error"
  unfolding check_deadline_def
  by (rule during_assume, rule at_get)
    (auto intro!: during_ret bnd_on_app during_whenever during_set raises_intros looping_over split: option.splits)

definition right_end :: "runner \<Rightarrow> string list \<Rightarrow> (execution \<Rightarrow> bool) \<Rightarrow> plan_outcome option + unit \<Rightarrow> execution \<Rightarrow> bool" where
  "right_end rn ks Q r x = (case r of Inl res \<Rightarrow> (\<forall>o'. res = Some o' \<longrightarrow> right_outcome rn ks o') | Inr _ \<Rightarrow> Q x)"

lemma right_end_Inl: "during P m (\<lambda>res _. \<forall>r. res = Some r \<longrightarrow> right_outcome rn ks r) X
  \<Longrightarrow> during P (bnd m (\<lambda>res. ret (Inl res))) (right_end rn ks Q) X"
  by (rule during_bnd, assumption, rule during_ret) (auto simp: right_end_def)

lemma during_launch_phase:
  assumes "\<not> xe_budget_exceeded y" and "looping rn ks T y"
  shows "during (\<lambda>x. x = y) (andthen (unless (xe_started y) start_plan) (launch_ready rn))
     (\<lambda>_ x. going rn ks T {} {} x \<and> flowing x \<and> \<not> xe_budget_exceeded x \<and> (xe_running x \<noteq> [] \<or> unfinished x = [])) (own_error rn)"
proof (rule during_andthen [where R = "\<lambda>x. going rn ks T {} {} x \<and> flowing x \<and> \<not> xe_budget_exceeded x"])
  show "during (\<lambda>x. x = y) (unless (xe_started y) start_plan) (\<lambda>_ x. going rn ks T {} {} x \<and> flowing x \<and> \<not> xe_budget_exceeded x) (own_error rn)"
  proof (cases "fresh rn ks y \<and> T = {}")
    case True
    then have "T = {}" by simp
    show ?thesis
      unfolding \<open>T = {}\<close>
      by (intro during_unless during_pre [OF during_exn [OF during_start_plan own_errorI(1)]]) (use True assms(1) in \<open>auto simp: fresh_def\<close>)
  next
    case False
    then show ?thesis using assms by (intro during_unless) (auto simp: looping_def going_def)
  qed
qed (rule during_weaken [OF during_launch_ready], auto)

lemma during_loop_head:
  assumes "\<And>e. own_error rn e \<Longrightarrow> X e" and "\<And>e. worker_error (dr_result dr) e \<Longrightarrow> X e"
  shows "during (looping rn ks T) (loop_head rn dr)
     (right_end rn ks (\<lambda>x. going rn ks T {} {} x \<and> (\<not> xe_budget_exceeded x \<longrightarrow> flowing x) \<and> xe_running x \<noteq> [])) X"
  unfolding loop_head_def
proof (rule during_assume, rule at_get, rule during_if)
  fix x assume x: "looping rn ks T x"
  let ?Q = "right_end rn ks (\<lambda>x. going rn ks T {} {} x \<and> (\<not> xe_budget_exceeded x \<longrightarrow> flowing x) \<and> xe_running x \<noteq> [])"
  show "during (\<lambda>y. y = x) (bnd (interrupted_run rn dr) (\<lambda>res. ret (Inl res))) ?Q X"
    by (rule right_end_Inl, rule during_pre [OF during_interrupted_run [OF assms(1) [OF own_errorI(1)] assms(2)]]) (use x in \<open>auto simp: looping_def\<close>)
  show "during (\<lambda>y. y = x) (andthen check_deadline
       (bnd (exec_get (\<lambda>x. x)) (\<lambda>x.
        andthen (if xe_budget_exceeded x then ret ()
                 else andthen (unless (xe_started x) start_plan) (launch_ready rn))
       (bnd (exec_get xe_running) (\<lambda>running.
        if running \<noteq> [] then ret (Inr ())
        else if xe_budget_exceeded x then bnd (budget_failed_run rn) (\<lambda>res. ret (Inl res))
        else bnd (completed_run rn) (\<lambda>res. ret (Inl res))))))) ?Q X"
  proof (rule during_exn [OF _ assms(1)], rule during_andthen [OF during_exn [OF during_pre [OF during_check_deadline] own_errorI(1)]], use x in simp,
      assumption, rule during_assume, rule at_get [where f = "\<lambda>x. x"])
    fix y assume y: "looping rn ks T y"
    have head: "during (\<lambda>z. z = y) (if xe_budget_exceeded y then ret () else andthen (unless (xe_started y) start_plan) (launch_ready rn))
      (\<lambda>_ z. if xe_budget_exceeded y then z = y else going rn ks T {} {} z \<and> flowing z \<and> \<not> xe_budget_exceeded z \<and> (xe_running z \<noteq> [] \<or> unfinished z = [])) (own_error rn)"
      using during_launch_phase [OF _ y] by (auto intro: during_ret)
    show "during (\<lambda>z. z = y) (andthen (if xe_budget_exceeded y then ret () else andthen (unless (xe_started y) start_plan) (launch_ready rn))
       (bnd (exec_get xe_running) (\<lambda>running.
        if running \<noteq> [] then ret (Inr ())
        else if xe_budget_exceeded y then bnd (budget_failed_run rn) (\<lambda>res. ret (Inl res))
        else bnd (completed_run rn) (\<lambda>res. ret (Inl res))))) ?Q (own_error rn)"
    proof (rule during_andthen [OF head], rule during_assume, rule at_get, intro during_if)
      fix z assume z: "if xe_budget_exceeded y then z = y else going rn ks T {} {} z \<and> flowing z \<and> \<not> xe_budget_exceeded z \<and> (xe_running z \<noteq> [] \<or> unfinished z = [])"
      show "during (\<lambda>y. y = z) (ret (Inr ())) ?Q (own_error rn)" if "xe_running z \<noteq> []"
        by (rule during_ret) (use y z that in \<open>auto simp: right_end_def looping_def fresh_def split: if_splits\<close>)
      show "during (\<lambda>y. y = z) (bnd (budget_failed_run rn) (\<lambda>res. ret (Inl res))) ?Q (own_error rn)" if "\<not> xe_running z \<noteq> []" "xe_budget_exceeded y"
      proof -
        have "\<exists>s \<in> {Plan_PENDING, Plan_RUNNING}. halted rn ks s z"
          using y z that fresh_halted [of rn ks z] going_halted [of rn ks T z] by (auto simp: looping_def)
        then obtain s where "s \<in> {Plan_PENDING, Plan_RUNNING}" "halted rn ks s z" by blast
        then show ?thesis by (intro right_end_Inl during_pre [OF during_budget_failed_run]) auto
      qed
      show "during (\<lambda>y. y = z) (bnd (completed_run rn) (\<lambda>res. ret (Inl res))) ?Q (own_error rn)" if "\<not> xe_running z \<noteq> []" "\<not> xe_budget_exceeded y"
        by (intro right_end_Inl during_pre [OF during_completed_run]) (use z that in auto)
    qed
  qed
qed

lemma stop_condition_target: "stop_condition rn t s = Some (p, r) \<Longrightarrow> p \<in> {Plan_STOPPED_ON_FAILURE, Plan_SHORT_CIRCUITED_ON_SUCCESS}"
  by (auto simp: stop_condition_def split: if_splits)

lemma during_finish_all:
  assumes "\<And>e. own_error rn e \<Longrightarrow> X e" and "\<And>e. worker_error (dr_result dr) e \<Longrightarrow> X e"
    and "\<And>k e. (k, Inl e) \<in> set fs \<Longrightarrow> X e" and "distinct (map fst fs)" and "fst ` set fs \<subseteq> set R"
  shows "during (\<lambda>x. going rn ks T {} {} x \<and> (\<not> over \<longrightarrow> flowing x) \<and> steady R over i x) (finish_all rn dr fs)
     (right_end rn ks (\<lambda>x. going rn ks (T \<union> fst ` set fs) {} {} x \<and> (\<not> over \<longrightarrow> flowing x) \<and> xe_budget_exceeded x = over \<and> xe_interrupted x = i)) X"
  using assms(3-)
proof (induction fs arbitrary: T R)
  case Nil
  then show ?case by (auto intro!: during_ret simp: right_end_def steady_def)
next
  case (Cons f fs)
  obtain k r where f: "f = (k, r)" by (cases f)
  let ?Q = "right_end rn ks (\<lambda>x. going rn ks (T \<union> fst ` set ((k, r) # fs)) {} {} x \<and> (\<not> over \<longrightarrow> flowing x) \<and> xe_budget_exceeded x = over \<and> xe_interrupted x = i)"
  have k: "k \<in> set R" and X: "\<And>e. r = Inl e \<Longrightarrow> X e" using Cons.prems f by auto
  have rest: "during (\<lambda>x. going rn ks (insert k T) {} {} x \<and> (\<not> over \<longrightarrow> flowing x) \<and> steady (removeAll k R) over i x) (finish_all rn dr fs) ?Q X"
    using Cons.IH [of "removeAll k R" "insert k T"] Cons.prems f by (simp add: subset_iff image_iff) (metis (no_types, lifting) fst_conv)
  show ?case
    unfolding f finish_all.simps
  proof (rule during_assume, rule at_get)
    fix x assume x: "going rn ks T {} {} x \<and> (\<not> over \<longrightarrow> flowing x) \<and> steady R over i x"
    then have over: "xe_budget_exceeded x = over" by (simp add: steady_def)
    show "during (\<lambda>y. y = x) (bnd (pop_and_finish rn (\<not> xe_budget_exceeded x) (k, r)) (\<lambda>state.
       bnd (exec_get (\<lambda>x. stop_condition rn (task_at x k) state)) (\<lambda>stop.
       case (if xe_budget_exceeded x then None else stop) of
         None \<Rightarrow> finish_all rn dr fs
       | Some target \<Rightarrow> bnd (stopped_run rn dr target) (\<lambda>res. ret (Inl res))))) ?Q X"
      unfolding over
    proof (rule during_bnd [OF during_pre [OF during_pop_and_finish [where T = T and R = R and over = over and i = i, OF assms(1) [OF own_errorI(1)] X]]])
      fix state
      show "during (\<lambda>x. going rn ks (insert k T) {} {} x \<and> (\<not> over \<longrightarrow> flowing x) \<and> steady (removeAll k R) over i x)
        (bnd (exec_get (\<lambda>x. stop_condition rn (task_at x k) state)) (\<lambda>stop.
         case (if over then None else stop) of
           None \<Rightarrow> finish_all rn dr fs
         | Some target \<Rightarrow> bnd (stopped_run rn dr target) (\<lambda>res. ret (Inl res)))) ?Q X"
      proof (rule during_assume, rule at_get)
        fix y assume y: "going rn ks (insert k T) {} {} y \<and> (\<not> over \<longrightarrow> flowing y) \<and> steady (removeAll k R) over i y"
        show "during (\<lambda>z. z = y) (case (if over then None else stop_condition rn (task_at y k) state) of
             None \<Rightarrow> finish_all rn dr fs | Some target \<Rightarrow> bnd (stopped_run rn dr target) (\<lambda>res. ret (Inl res))) ?Q X"
        proof (cases "if over then None else stop_condition rn (task_at y k) state")
          case None
          then show ?thesis using rest y by (auto intro: during_pre)
        next
          case (Some target)
          then have "fst target \<in> {Plan_STOPPED_ON_FAILURE, Plan_SHORT_CIRCUITED_ON_SUCCESS}"
            using stop_condition_target [of rn "task_at y k" state "fst target" "snd target"] by (simp split: if_splits)
          then show ?thesis
            unfolding Some option.case
            by (intro right_end_Inl during_pre [OF during_stopped_run [OF assms(1,2), where T = "insert k T" and s = "fst target"
              and r = "snd target" and rn = rn and ks = ks, unfolded prod.collapse]]) (use y in auto)
        qed
      qed
    qed (use x k in auto)
  qed
qed

text \<open>A wake ends the run, or the running tasks it reports have ended, or it interrupts.\<close>

lemma during_wake_up:
  assumes "\<And>e. own_error rn e \<Longrightarrow> X e" and "\<And>e. worker_error (dr_result dr) e \<Longrightarrow> X e" and "\<And>e. worker_error (wk_result wk) e \<Longrightarrow> X e"
  shows "during (\<lambda>x. going rn ks T {} {} x \<and> (\<not> xe_budget_exceeded x \<longrightarrow> flowing x) \<and> xe_running x = R) (wake_up rn dr wk)
     (right_end rn ks (\<lambda>x. looping rn ks T x \<and> (wk_interrupt wk \<longrightarrow> xe_interrupted x)
        \<and> (xe_interrupted x \<or> going rn ks (T \<union> (set (wk_done wk) \<inter> set R)) {} {} x \<and> (\<not> xe_budget_exceeded x \<longrightarrow> flowing x)))) X"
proof (rule during_assume)
  fix x assume x: "going rn ks T {} {} x \<and> (\<not> xe_budget_exceeded x \<longrightarrow> flowing x) \<and> xe_running x = R"
  let ?over = "xe_budget_exceeded x" and ?i = "xe_interrupted x"
  let ?P = "\<lambda>i y. going rn ks T {} {} y \<and> (\<not> ?over \<longrightarrow> flowing y) \<and> steady R ?over i y"
  let ?Q = "right_end rn ks (\<lambda>x. looping rn ks T x \<and> (wk_interrupt wk \<longrightarrow> xe_interrupted x)
        \<and> (xe_interrupted x \<or> going rn ks (T \<union> (set (wk_done wk) \<inter> set R)) {} {} x \<and> (\<not> xe_budget_exceeded x \<longrightarrow> flowing x)))"
  let ?fs = "\<lambda>s. map (\<lambda>k. (k, worker_end rn (wk_result wk) (w_store (fst s)) (snd s) k))
        (filter (\<lambda>k. k \<in> set (wk_done wk) \<and> k \<in> set (xe_running (snd s))) (xe_order (snd s)))"
  show "during (\<lambda>y. y = x) (wake_up rn dr wk) ?Q X"
    unfolding wake_up_def
  proof (rule during_andthen [where R = "?P ?i"])
    have none: "?P ?i y'" if "?P ?i y" "moved (\<lambda>_. None) y y'" for y y'
    proof -
      have "sound_run rn y" using that(1) by (simp add: going_def)
      then show ?thesis using that going_none [OF _ that(2)] steady_none [OF _ that(2)] flowing_none [OF _ that(2)] by blast
    qed
    have keys: "keyed y \<and> set (xe_running y) \<subseteq> set (xe_order y)" if "?P ?i y" for y using that going_running by blast
    show "during (\<lambda>y. y = x) (for_each (wk_callbacks wk) run_callback) (\<lambda>_. ?P ?i) X"
      by (rule during_pre [OF during_callbacks [where P = "?P ?i", OF none keys]]) (use x in \<open>auto simp: steady_def\<close>)
    show "during (?P ?i) (andthen (exec_set (\<lambda>x. x\<lparr>xe_interrupted := (xe_interrupted x \<or> wk_interrupt wk)\<rparr>))
      (bnd (reading ?fs) (\<lambda>finished. bnd (exec_get xe_interrupted) (\<lambda>interrupted. if interrupted then ret (Inr ()) else finish_all rn dr finished)))) ?Q X"
    proof (rule during_andthen [where R = "?P (?i \<or> wk_interrupt wk)"], rule during_set, simp add: steady_def, rule bnd_reading, rule at_get, rule during_if)
      fix w y assume y: "?P (?i \<or> wk_interrupt wk) y"
      show "during (\<lambda>z. z = y) (ret (Inr ())) ?Q X" if "xe_interrupted y"
        by (rule during_ret) (use y that in \<open>auto simp: right_end_def looping_def steady_def\<close>)
      let ?f = "?fs (w, y)"
      have ids: "map fst ?f = filter (\<lambda>k. k \<in> set (wk_done wk) \<and> k \<in> set (xe_running y)) (xe_order y)" by (simp add: comp_def)
      have dist: "distinct (map fst ?f)" unfolding ids using y by (auto simp: going_def dest: sound_distinct)
      have X: "X e" if "(k, Inl e) \<in> set ?f" for k e
      proof -
        from that have "worker_end rn (wk_result wk) (w_store w) y k = Inl e" by auto
        then show ?thesis by (rule assms(3) [OF worker_end_error])
      qed
      have done_ids: "fst ` set ?f = set (wk_done wk) \<inter> set R" using y going_running [of rn ks T "{}" "{}" y] by (auto simp: steady_def image_iff)
      show "during (\<lambda>z. z = y) (finish_all rn dr ?f) ?Q X"
        by (rule during_weaken [OF during_finish_all [OF assms(1,2) X dist, where R = R and T = T and over = ?over and i = "?i \<or> wk_interrupt wk"]])
          (use y done_ids in \<open>auto simp: right_end_def looping_def going_def split: sum.splits\<close>)
    qed
  qed
qed

text \<open>What the loop may raise, and what it leaves.\<close>

definition run_error :: "runner \<Rightarrow> drain \<Rightarrow> wake list \<Rightarrow> exn \<Rightarrow> bool" where
  "run_error rn dr wakes e \<longleftrightarrow> own_error rn e \<or> worker_error (dr_result dr) e \<or> (\<exists>wk \<in> set wakes. worker_error (wk_result wk) e)"

definition at_wait :: "runner \<Rightarrow> string list \<Rightarrow> execution \<Rightarrow> bool" where
  "at_wait rn ks x \<longleftrightarrow> (\<exists>T. going rn ks T {} {} x) \<and> xe_running x \<noteq> []"

definition right_progress :: "runner \<Rightarrow> string list \<Rightarrow> progress \<Rightarrow> execution \<Rightarrow> bool" where
  "right_progress rn ks p x = (case p of Waiting \<Rightarrow> at_wait rn ks x | Refitting_forever \<Rightarrow> True | Returned res \<Rightarrow> right_outcome rn ks res)"

lemma right_end_progress:
  "right_end rn ks Q r x \<Longrightarrow> run_end r = Some p \<Longrightarrow> right_progress rn ks p x"
  "right_end rn ks Q r x \<Longrightarrow> run_end r = None \<Longrightarrow> Q x"
  by (cases r rule: run_end.cases; auto simp: right_end_def right_progress_def)+

lemma during_run_end:
  assumes "run_end r = None \<Longrightarrow> during Q m (right_progress rn ks) X"
  shows "during (right_end rn ks Q r) (case run_end r of Some p \<Rightarrow> ret p | None \<Rightarrow> m) (right_progress rn ks) X"
proof (cases "run_end r")
  case None
  show ?thesis
    unfolding None option.case by (rule during_pre [OF assms [OF None]]) (rule right_end_progress(2) [OF _ None])
next
  case (Some p)
  then show ?thesis using right_end_progress(1) [OF _ Some] by (auto intro: during_ret)
qed

lemma during_run_loop:
  "during (looping rn ks T) (run_loop rn dr wakes) (right_progress rn ks) (run_error rn dr (us @ wakes))"
proof (induction wakes arbitrary: T us)
  case Nil
  show ?case
    unfolding run_loop.simps
    by (rule during_bnd [OF during_loop_head], simp add: run_error_def, simp add: run_error_def, rule during_run_end, rule during_ret)
      (auto simp: right_progress_def at_wait_def)
next
  case (Cons wk wks)
  have rest: "during (looping rn ks T) (run_loop rn dr wks) (right_progress rn ks) (run_error rn dr (us @ wk # wks))" for T
    using Cons.IH [of T "us @ [wk]"] by simp
  let ?P = "\<lambda>x. going rn ks T {} {} x \<and> (\<not> xe_budget_exceeded x \<longrightarrow> flowing x) \<and> xe_running x \<noteq> []"
  let ?m = "bnd (wake_up rn dr wk) (\<lambda>r. case run_end r of Some p \<Rightarrow> ret p | None \<Rightarrow> run_loop rn dr wks)"
  have err: "own_error rn e \<Longrightarrow> run_error rn dr (us @ wk # wks) e" "worker_error (dr_result dr) e \<Longrightarrow> run_error rn dr (us @ wk # wks) e"
    "worker_error (wk_result wk) e \<Longrightarrow> run_error rn dr (us @ wk # wks) e" for e by (simp_all add: run_error_def)
  have wait: "during ?P ?m (right_progress rn ks) (run_error rn dr (us @ wk # wks))"
  proof (rule during_assume)
    fix x assume x: "?P x"
    show "during (\<lambda>y. y = x) ?m (right_progress rn ks) (run_error rn dr (us @ wk # wks))"
      by (rule during_bnd [OF during_pre [OF during_wake_up [OF err, where T = T and R = "xe_running x" and ks = ks and rn = rn]]],
          assumption+, simp add: x, rule during_run_end, rule during_pre [OF rest]) auto
  qed
  show ?case
    unfolding run_loop.simps
    by (rule during_bnd [OF during_loop_head], simp add: run_error_def, simp add: run_error_def, rule during_run_end, rule wait)
qed

text \<open>Each wake was due: the run was waiting, and it reports a running task or the interruption.\<close>

fun due :: "runner \<Rightarrow> drain \<Rightarrow> wake list \<Rightarrow> app \<times> execution \<Rightarrow> bool" where
  "due rn dr [] s = True"
| "due rn dr (wk # wks) s =
     (case loop_head rn dr s of
        (Inr (Inr _), s1) \<Rightarrow>
          (wk_interrupt wk \<or> (\<exists>k \<in> set (xe_running (snd s1)). k \<in> set (wk_done wk)))
          \<and> (case wake_up rn dr wk s1 of (Inr (Inr _), s2) \<Rightarrow> due rn dr wks s2 | _ \<Rightarrow> True)
      | _ \<Rightarrow> True)"

lemma interrupted_returns: "xe_interrupted x \<Longrightarrow> loop_head rn dr (w, x) = (Inr r, s') \<Longrightarrow> \<exists>res. r = Inl res"
  unfolding loop_head_def by (auto simp: bnd_Inr reading_def ret_def split: if_splits)

lemma run_end_None: "run_end r = None \<longleftrightarrow> (\<exists>u. r = Inr u)" and run_end_Waiting: "run_end r \<noteq> Some Waiting"
  by (cases r rule: run_end.cases; simp)+

lemma bnd_run_end:
  assumes "bnd m (\<lambda>r. case run_end r of Some p \<Rightarrow> ret p | None \<Rightarrow> f r) s = (Inr Waiting, s')"
  obtains r t where "m s = (Inr r, t)" "run_end r = None" "f r t = (Inr Waiting, s')"
proof -
  from assms obtain r t where r: "m s = (Inr r, t)" "(case run_end r of Some p \<Rightarrow> ret p | None \<Rightarrow> f r) t = (Inr Waiting, s')"
    by (auto simp: bnd_Inr)
  then have "run_end r = None" using run_end_Waiting [of r] by (auto simp: ret_def split: option.splits)
  then show ?thesis using that r by simp
qed

lemma going_room:
  assumes "going rn ks T {} {} x" and "xe_running x \<noteq> []"
  shows "card T < length ks" and "T \<inter> set (xe_running x) = {}" and "finite T"
proof -
  have sub: "T \<subseteq> ended_tasks x" and run: "set (xe_running x) = {k \<in> set ks. task_status x k = Task_RUNNING}" and dist: "distinct ks"
    using assms(1) by (auto simp: going_def occupied_def staffed_def dest: sound_distinct)
  show disj: "T \<inter> set (xe_running x) = {}"
    using sub run by (auto simp: ended_tasks_def terminal_task_iff)
  have fin: "T \<subseteq> set ks" using sub assms(1) by (auto simp: ended_tasks_def going_def)
  then show "finite T" by (rule finite_subset) simp
  have "T \<subset> set ks" using fin disj run assms(2) by (metis (no_types, lifting) Int_absorb1 inf.commute mem_Collect_eq psubsetI set_empty subsetI)
  then have "card T < card (set ks)" by (intro psubset_card_mono) auto
  then show "card T < length ks" using dist by (simp add: distinct_card)
qed

lemma waits_bounded:
  assumes "looping rn ks T (snd s)" and "due rn dr wakes s" and "run_loop rn dr wakes s = (Inr Waiting, s')"
  shows "card T + length wakes < length ks"
  using assms
proof (induction wakes arbitrary: T s)
  case Nil
  obtain w x where s: "s = (w, x)" by (cases s)
  obtain r t where r: "loop_head rn dr s = (Inr r, t)" "run_end r = None"
    using Nil(3) unfolding run_loop.simps by (rule bnd_run_end)
  obtain w1 x1 where t: "t = (w1, x1)" by (cases t)
  have "right_end rn ks (\<lambda>x. going rn ks T {} {} x \<and> (\<not> xe_budget_exceeded x \<longrightarrow> flowing x) \<and> xe_running x \<noteq> []) r x1"
    using duringD [OF during_loop_head [where X = "\<lambda>_. True"]] Nil(1) r(1) s t by fastforce
  then show ?case using right_end_progress(2) [OF _ r(2)] going_room(1) by fastforce
next
  case (Cons wk wks)
  obtain w x where s: "s = (w, x)" by (cases s)
  obtain r t where r: "loop_head rn dr s = (Inr r, t)" "run_end r = None"
    and woken: "bnd (wake_up rn dr wk) (\<lambda>r. case run_end r of Some p \<Rightarrow> ret p | None \<Rightarrow> run_loop rn dr wks) t = (Inr Waiting, s')"
    using Cons.prems(3) unfolding run_loop.simps by (rule bnd_run_end)
  then obtain u where u: "r = Inr u" by (auto simp: run_end_None)
  obtain w1 x1 where t: "t = (w1, x1)" by (cases t)
  have "right_end rn ks (\<lambda>x. going rn ks T {} {} x \<and> (\<not> xe_budget_exceeded x \<longrightarrow> flowing x) \<and> xe_running x \<noteq> []) r x1"
    using duringD [OF during_loop_head [where X = "\<lambda>_. True"]] Cons.prems(1) r(1) s t by fastforce
  then have x1: "going rn ks T {} {} x1 \<and> (\<not> xe_budget_exceeded x1 \<longrightarrow> flowing x1) \<and> xe_running x1 \<noteq> []"
    using right_end_progress(2) [OF _ r(2)] by blast
  obtain v t2 where v: "wake_up rn dr wk t = (Inr v, t2)" "run_end v = None" and later: "run_loop rn dr wks t2 = (Inr Waiting, s')"
    using woken by (rule bnd_run_end)
  obtain w2 x2 where t2: "t2 = (w2, x2)" by (cases t2)
  let ?T = "T \<union> (set (wk_done wk) \<inter> set (xe_running x1))"
  have "right_end rn ks (\<lambda>x. looping rn ks T x \<and> (wk_interrupt wk \<longrightarrow> xe_interrupted x)
        \<and> (xe_interrupted x \<or> going rn ks ?T {} {} x \<and> (\<not> xe_budget_exceeded x \<longrightarrow> flowing x))) v x2"
    using duringD [OF during_wake_up [where X = "\<lambda>_. True" and R = "xe_running x1"]] x1 v(1) t t2 by fastforce
  then have x2: "looping rn ks T x2 \<and> (wk_interrupt wk \<longrightarrow> xe_interrupted x2)
        \<and> (xe_interrupted x2 \<or> going rn ks ?T {} {} x2 \<and> (\<not> xe_budget_exceeded x2 \<longrightarrow> flowing x2))"
    using right_end_progress(2) [OF _ v(2)] by blast
  have calm: "\<not> xe_interrupted x2"
  proof
    assume i: "xe_interrupted x2"
    from later obtain r3 t3 where "loop_head rn dr t2 = (Inr r3, t3)" "run_end r3 = None"
      by (cases wks) (auto elim: bnd_run_end)
    then show False using interrupted_returns [OF i, of rn dr w2 r3 t3] t2 by (auto simp: run_end_None)
  qed
  have due: "(wk_interrupt wk \<or> (\<exists>k \<in> set (xe_running x1). k \<in> set (wk_done wk))) \<and> due rn dr wks t2"
    using Cons.prems(2) r(1) u t v by (auto simp: run_end_None)
  then have hit: "set (wk_done wk) \<inter> set (xe_running x1) \<noteq> {}" using x2 calm by blast
  have "card T < card ?T"
    using going_room(2,3) [of rn ks T x1] x1 hit by (intro psubset_card_mono) auto
  moreover have "card ?T + length wks < length ks"
    by (rule Cons.IH [OF _ _ later]) (use x2 calm due t2 in \<open>auto simp: looping_def\<close>)
  ultimately show ?case by simp
qed

end
