(* ===== verification/Plans.thy ===== *)
theory Plans
  imports Running
begin

text \<open>
  From a plan to its run: what \<open>_PlanExecution._validate\<close> decides (its topological sort is Kahn's), that a plan
  the adapter accepted and projected passes it, and what holds of every run of a plan that passed it.
\<close>

section \<open>Kahn's algorithm\<close>

lemma relax_run:
  "relax c remaining = (map (\<lambda>(k, ds). (k, removeAll c ds)) remaining,
     map fst (filter (\<lambda>(k, ds). c \<in> set ds \<and> removeAll c ds = []) remaining))"
  by (induction c remaining rule: relax.induct) (auto simp: Let_def removeAll_id)

text \<open>\<open>scheduled\<close> and \<open>queue\<close> hold the tasks whose dependencies are all scheduled; the rest still waits for some.\<close>

definition kahn_inv :: "(string \<Rightarrow> string set) \<Rightarrow> string list \<Rightarrow> (string, string list) dict \<Rightarrow> string list \<Rightarrow> string list \<Rightarrow> bool" where
  "kahn_inv D keys remaining scheduled queue \<longleftrightarrow> distinct keys \<and> map fst remaining = keys
   \<and> (\<forall>(k, ds) \<in> set remaining. set ds = D k - set scheduled) \<and> distinct (scheduled @ queue)
   \<and> (\<forall>k. k \<in> set (scheduled @ queue) \<longleftrightarrow> k \<in> set keys \<and> D k \<subseteq> set scheduled)"

lemma kahn_inv_step:
  assumes "kahn_inv D keys remaining scheduled (c # queue)"
  shows "kahn_inv D keys (fst (relax c remaining)) (scheduled @ [c]) (queue @ snd (relax c remaining))"
proof -
  let ?more = "snd (relax c remaining)"
  have keys: "distinct keys" "map fst remaining = keys" and rem: "\<forall>(k, ds) \<in> set remaining. set ds = D k - set scheduled"
    and dist: "distinct (scheduled @ c # queue)"
    and known: "\<And>k. k \<in> set (scheduled @ c # queue) \<longleftrightarrow> k \<in> set keys \<and> D k \<subseteq> set scheduled"
    using assms by (auto simp: kahn_inv_def)
  have emptied: "removeAll c ds = [] \<longleftrightarrow> set ds \<subseteq> {c}" for ds by (metis set_removeAll Diff_eq_empty_iff set_empty)
  have more: "k \<in> set ?more \<longleftrightarrow> k \<in> set keys \<and> D k \<subseteq> insert c (set scheduled) \<and> \<not> D k \<subseteq> set scheduled" for k
  proof -
    have "k \<in> set ?more \<longleftrightarrow> (\<exists>ds. (k, ds) \<in> set remaining \<and> c \<in> set ds \<and> set ds \<subseteq> {c})"
      by (auto simp: relax_run emptied image_iff)
    also have "\<dots> \<longleftrightarrow> (\<exists>ds. (k, ds) \<in> set remaining) \<and> c \<in> D k - set scheduled \<and> D k - set scheduled \<subseteq> {c}"
      using rem by fastforce
    also have "(\<exists>ds. (k, ds) \<in> set remaining) \<longleftrightarrow> k \<in> set keys" using keys(2) by force
    finally show ?thesis by blast
  qed
  have "distinct ?more" using keys by (simp add: relax_run distinct_map_filter)
  then have "distinct ((scheduled @ [c]) @ queue @ ?more)" using dist more known by auto
  moreover have "\<forall>(k, ds) \<in> set (fst (relax c remaining)). set ds = D k - set (scheduled @ [c])"
    using rem by (auto simp: relax_run)
  moreover have "map fst (fst (relax c remaining)) = keys" using keys(2) by (auto simp: relax_run comp_def case_prod_unfold)
  moreover have "k \<in> set ((scheduled @ [c]) @ queue @ ?more) \<longleftrightarrow> k \<in> set keys \<and> D k \<subseteq> set (scheduled @ [c])" for k
    using more [of k] known [of k] by auto
  ultimately show ?thesis using keys(1) by (simp add: kahn_inv_def)
qed

lemma topological_append: "topological d earlier (xs @ ys) \<longleftrightarrow> topological d earlier xs \<and> topological d (earlier \<union> set xs) ys"
  by (induction xs arbitrary: earlier) auto

lemma kahn_run:
  assumes "kahn_inv D keys remaining scheduled queue" and "topological D {} scheduled" and "n = length scheduled"
  obtains done_tasks where "fst (kahn remaining queue n) = length done_tasks" "topological D {} done_tasks" "distinct done_tasks"
    "\<forall>k. k \<in> set done_tasks \<longleftrightarrow> k \<in> set keys \<and> D k \<subseteq> set done_tasks"
  using assms
proof (induction remaining queue n arbitrary: scheduled thesis rule: kahn.induct)
  case (1 remaining n)
  then show ?case by (auto simp: kahn_inv_def)
next
  case (2 remaining c queue n)
  have "D c \<subseteq> set scheduled" using 2(3) by (auto simp: kahn_inv_def)
  then have "topological D {} (scheduled @ [c])" using 2(4) by (simp add: topological_append)
  from 2(1) [OF _ kahn_inv_step [OF 2(3)] this] show ?case using 2(2,5) by auto
qed

lemma index_of_split: "k \<notin> set xs \<Longrightarrow> index_of k (xs @ k # ys) = length xs"
  unfolding index_of_def by (subst takeWhile_append2) auto

lemma topological_acyclic:
  assumes "topological D {} ks" and "distinct ks" and "\<And>k. k \<notin> set ks \<Longrightarrow> D k = {}"
  shows "acyclic {(k, d) | k d. d \<in> D k}"
proof -
  have before: "index_of d ks < index_of k ks" if "d \<in> D k" for k d
  proof -
    have k: "k \<in> set ks" using assms(3) that by blast
    then obtain xs ys where ks: "ks = xs @ k # ys" "k \<notin> set xs" using split_list_first by fastforce
    have "d \<in> set xs" using topological_first [of D "{}" xs k ys] assms(1) ks that by auto
    moreover have "index_of k ks = length xs" using ks index_of_split by simp
    ultimately show ?thesis using index_of_less [of d ks "length xs"] ks by simp
  qed
  have "{(k, d) | k d. d \<in> D k} \<subseteq> (measure (\<lambda>k. index_of k ks))\<inverse>" using before by auto
  moreover have "acyclic ((measure (\<lambda>k. index_of k ks))\<inverse>)" by (simp add: acyclic_converse wf_acyclic)
  ultimately show ?thesis by (rule acyclic_subset [rotated])
qed

lemma acyclic_all_done:
  assumes "acyclic {(k, d) | k d. k \<in> set keys \<and> d \<in> D k}" and "\<forall>k. k \<in> set xs \<longleftrightarrow> k \<in> set keys \<and> D k \<subseteq> set xs"
    and "\<And>k. k \<in> set keys \<Longrightarrow> D k \<subseteq> set keys"
  shows "set xs = set keys"
proof (rule ccontr)
  let ?E = "{(k, d) | k d. k \<in> set keys \<and> d \<in> D k}"
  assume "set xs \<noteq> set keys"
  then obtain k where k: "k \<in> set keys - set xs" using assms(2) by blast
  have "?E \<subseteq> set keys \<times> set keys" using assms(3) by blast
  then have "finite ?E" by (rule finite_subset) simp
  then have "wf (?E\<inverse>)" using assms(1) by (rule finite_acyclic_wf_converse)
  then obtain m where m: "m \<in> set keys - set xs" "\<And>d. (d, m) \<in> ?E\<inverse> \<Longrightarrow> d \<notin> set keys - set xs"
    using k by (rule wfE_min) blast
  then have "D m \<subseteq> set xs" using assms(3) by blast
  then show False using m(1) assms(2) by blast
qed

text \<open>The count reaches the number of tasks exactly when no task depends on itself, directly or not.\<close>

lemma kahn_decides:
  assumes "distinct keys" and "\<And>k. k \<in> set keys \<Longrightarrow> set (D k) \<subseteq> set keys"
  shows "fst (kahn (map (\<lambda>k. (k, D k)) keys) (filter (\<lambda>k. D k = []) keys) 0) = length keys
      \<longleftrightarrow> acyclic {(k, d) | k d. k \<in> set keys \<and> d \<in> set (D k)}"
    and "fst (kahn (map (\<lambda>k. (k, D k)) keys) (filter (\<lambda>k. D k = []) keys) 0) = length keys \<Longrightarrow> \<exists>ks. set ks = set keys \<and> topological (\<lambda>k. set (D k)) {} ks"
proof -
  let ?D = "\<lambda>k. set (D k)"
  let ?count = "fst (kahn (map (\<lambda>k. (k, D k)) keys) (filter (\<lambda>k. D k = []) keys) 0)"
  let ?acyclic = "acyclic {(k, d) | k d. k \<in> set keys \<and> d \<in> set (D k)}"
  have "kahn_inv ?D keys (map (\<lambda>k. (k, D k)) keys) [] (filter (\<lambda>k. D k = []) keys)"
    using assms(1) by (auto simp: kahn_inv_def comp_def)
  then obtain xs where xs: "?count = length xs" "topological ?D {} xs" "distinct xs" "\<forall>k. k \<in> set xs \<longleftrightarrow> k \<in> set keys \<and> ?D k \<subseteq> set xs"
    by (rule kahn_run) auto
  have all: "?count = length keys \<longleftrightarrow> set xs = set keys"
    using xs(1,3,4) assms(1) by (metis card_subset_eq distinct_card finite_set subsetI)
  then show "?count = length keys \<Longrightarrow> \<exists>ks. set ks = set keys \<and> topological ?D {} ks" using xs(2) by blast
  show "?count = length keys \<longleftrightarrow> ?acyclic"
  proof
    assume "?count = length keys"
    then have same: "set xs = set keys" using all by blast
    let ?E = "\<lambda>k. if k \<in> set keys then ?D k else {}"
    have "topological ?E {} xs"
    proof -
      have "topological ?E earlier ys" if "topological ?D earlier ys" for earlier ys
        using that by (induction ys arbitrary: earlier) auto
      then show ?thesis using xs(2) .
    qed
    then have "acyclic {(k, d) | k d. d \<in> ?E k}" by (rule topological_acyclic) (use xs(3) same in auto)
    moreover have "{(k, d) | k d. d \<in> ?E k} = {(k, d) | k d. k \<in> set keys \<and> d \<in> ?D k}" by (auto split: if_splits)
    ultimately show ?acyclic by simp
  next
    assume ?acyclic
    then show "?count = length keys" unfolding all by (rule acyclic_all_done [OF _ xs(4) assms(2)])
  qed
qed

section \<open>The state of a new run\<close>

lemma dict_fold_length:
  "length (fold (\<lambda>t. dict_set (g t) t) ts d) \<le> length d + length ts
   \<and> (length (fold (\<lambda>t. dict_set (g t) t) ts d) = length d + length ts
        \<longrightarrow> distinct (map g ts) \<and> set (map g ts) \<inter> set (map fst d) = {})"
proof (induction ts arbitrary: d)
  case (Cons t ts)
  have len: "length (dict_set (g t) t d) = (if g t \<in> set (map fst d) then length d else Suc (length d))"
    using arg_cong [OF dict_keys_set [of "g t" t d], of length] by simp
  show ?case
  proof (cases "g t \<in> set (map fst d)")
    case True
    then show ?thesis using Cons.IH [of "dict_set (g t) t d"] len by (auto simp: dict_keys_set)
  next
    case False
    then show ?thesis using Cons.IH [of "dict_set (g t) t d"] len by (auto simp: dict_keys_set image_iff)
  qed
qed simp

lemma dict_fold_distinct:
  "distinct (map g ts) \<Longrightarrow> set (map g ts) \<inter> set (map fst d) = {} \<Longrightarrow> fold (\<lambda>t. dict_set (g t) t) ts d = d @ map (\<lambda>t. (g t, t)) ts"
proof (induction ts arbitrary: d)
  case (Cons t ts)
  have "dict_set (g t) t d = d @ [(g t, t)]" using Cons.prems(2) by (induction d) auto
  then show ?case using Cons by (auto simp: image_iff)
qed simp

abbreviation run_order :: "task_record list \<Rightarrow> string list" where
  "run_order tasks \<equiv> map t_task_id (sort_key t_order_index tasks)"

lemma new_execution_simps [simp]:
  "xe_plan (new_execution plan tasks session i) = plan" "xe_order (new_execution plan tasks session i) = run_order tasks"
  "xe_running (new_execution plan tasks session i) = []" "xe_held_locks (new_execution plan tasks session i) = {}"
  "\<not> xe_started (new_execution plan tasks session i)"
  "1 \<le> xe_workers (new_execution plan tasks session i)"
  by (simp_all add: new_execution_def Let_def)

lemma new_execution_dict:
  "xe_tasks (new_execution plan tasks session i) = fold (\<lambda>t. dict_set (t_task_id t) t) (sort_key t_order_index tasks) []"
  by (simp add: new_execution_def Let_def)

lemma run_order_distinct: "distinct (run_order tasks) \<longleftrightarrow> distinct (map t_task_id tasks)"
proof -
  have "mset (run_order tasks) = mset (map t_task_id tasks)" by simp
  then show ?thesis by (metis mset_eq_imp_distinct_iff)
qed

lemma new_execution_tasks:
  assumes "distinct (map t_task_id tasks)"
  shows "xe_tasks (new_execution plan tasks session i) = map (\<lambda>t. (t_task_id t, t)) (sort_key t_order_index tasks)"
    and "t \<in> set tasks \<Longrightarrow> task_at (new_execution plan tasks session i) (t_task_id t) = t"
    and "keyed (new_execution plan tasks session i)"
proof -
  let ?ts = "sort_key t_order_index tasks" and ?x = "new_execution plan tasks session i"
  have dist: "distinct (map t_task_id ?ts)" using assms by (simp only: run_order_distinct)
  show tasks: "xe_tasks ?x = map (\<lambda>t. (t_task_id t, t)) ?ts" using dict_fold_distinct [OF dist, of "[]"] by (simp add: new_execution_dict)
  show at: "task_at ?x (t_task_id t) = t" if "t \<in> set tasks" for t
  proof -
    have "map_of (map (\<lambda>t. (t_task_id t, t)) ?ts) (t_task_id t) = Some t"
      using that dist by (intro map_of_is_SomeI) (auto simp: comp_def)
    then show ?thesis by (simp add: task_at_def tasks)
  qed
  show "keyed ?x" using dist at tasks by (auto simp: keyed_def comp_def)
qed

section \<open>What the validation decides\<close>

lemma mapR_ok: "(\<exists>ys. mapR f xs = Inr ys) \<longleftrightarrow> (\<forall>x \<in> set xs. \<exists>y. f x = Inr y)"
  by (induction xs) auto

lemma bindR_ok: "bindR m (\<lambda>_. k) = Inr r \<longleftrightarrow> (\<exists>v. m = Inr v) \<and> k = Inr r"
  by auto

lemma topological_index:
  assumes "distinct ks" and "\<And>k d. k \<in> set ks \<Longrightarrow> d \<in> D k \<Longrightarrow> d \<in> set ks \<and> index_of d ks < index_of k ks"
  shows "topological D {} ks"
proof -
  have "topological D (set xs) ys" if "ks = xs @ ys" for xs ys
    using that
  proof (induction ys arbitrary: xs)
    case (Cons k ys)
    have k: "index_of k ks = length xs" using Cons.prems assms(1) index_of_split by auto
    have "D k \<subseteq> set xs"
    proof
      fix d assume "d \<in> D k"
      with assms(2) [of k d] Cons.prems k have "d \<in> set ks" "index_of d ks < length xs" by auto
      then show "d \<in> set xs" using index_of_less [of d ks "length xs"] Cons.prems by simp
    qed
    moreover have "topological D (insert k (set xs)) ys" using Cons.IH [of "xs @ [k]"] Cons.prems by simp
    ultimately show ?case by simp
  qed simp
  from this [of "[]"] show ?thesis by simp
qed

text \<open>The plan is new, its tasks too; they are its own, under distinct names; dependencies are tasks of the plan, without a cycle.\<close>

definition task_edges :: "task_record list \<Rightarrow> (string \<times> string) set" where
  "task_edges tasks = {(t_task_id t, d) | t d. t \<in> set tasks \<and> d \<in> set (t_depends_on t)}"

definition runnable :: "plan_record \<Rightarrow> task_record list \<Rightarrow> bool" where
  "runnable plan tasks \<longleftrightarrow> p_status plan = Plan_PENDING \<and> distinct (map t_task_id tasks)
   \<and> list_all (\<lambda>t. t_plan_id t = p_plan_id plan \<and> t_status t = Task_PENDING) tasks
   \<and> snd ` task_edges tasks \<subseteq> set (map t_task_id tasks)
   \<and> (p_execution_policy plan = SEQUENTIAL \<longrightarrow> (\<forall>(k, d) \<in> task_edges tasks. index_of d (run_order tasks) < index_of k (run_order tasks)))
   \<and> acyclic (task_edges tasks)"

lemma validate_dependencies_decides:
  assumes "distinct (map t_task_id tasks)"
  shows "validate_dependencies (new_execution plan tasks session i) = Inr () \<longleftrightarrow>
     snd ` task_edges tasks \<subseteq> set (map t_task_id tasks)
   \<and> (p_execution_policy plan = SEQUENTIAL \<longrightarrow> (\<forall>(k, d) \<in> task_edges tasks. index_of d (run_order tasks) < index_of k (run_order tasks)))
   \<and> acyclic (task_edges tasks)"
    and "validate_dependencies (new_execution plan tasks session i) = Inr () \<Longrightarrow>
     \<exists>ks. set ks = set (run_order tasks) \<and> topological (deps (new_execution plan tasks session i)) {} ks"
proof -
  let ?x = "new_execution plan tasks session i" and ?ks = "run_order tasks"
  let ?D = "\<lambda>k. t_depends_on (task_at ?x k)"
  note at = new_execution_tasks(2) [OF assms]
  have dist: "distinct ?ks" using assms by (simp only: run_order_distinct)
  have ids: "set ?ks = set (map t_task_id tasks)" by simp
  have edges: "{(k, d) | k d. k \<in> set ?ks \<and> d \<in> set (?D k)} = task_edges tasks" using at by (auto simp: task_edges_def)
  have keys: "set (map fst (xe_tasks ?x)) = set ?ks" unfolding new_execution_tasks(1) [OF assms] by (simp add: comp_def)
  define checked where "checked \<longleftrightarrow> (\<forall>(k, d) \<in> task_edges tasks. d \<in> set ?ks \<and> (p_execution_policy plan = SEQUENTIAL \<longrightarrow> index_of d ?ks < index_of k ?ks))"
  have check: "(\<exists>v. mapR (check_run_dependency ?x) (concat (map (\<lambda>k. map (Pair k) (?D k)) (xe_order ?x))) = Inr v) \<longleftrightarrow> checked"
  proof -
    have one: "(\<exists>y. check_run_dependency ?x (k, d) = Inr y) \<longleftrightarrow> d \<in> set ?ks \<and> (p_execution_policy plan = SEQUENTIAL \<longrightarrow> index_of d ?ks < index_of k ?ks)" for k d
      unfolding check_run_dependency_def keys prod.case new_execution_simps by (simp add: not_le)
    have pairs: "set (concat (map (\<lambda>k. map (Pair k) (?D k)) (xe_order ?x))) = task_edges tasks" unfolding edges [symmetric] by auto
    show ?thesis
      unfolding mapR_ok pairs checked_def
    proof (intro ball_cong refl)
      fix p
      show "(\<exists>y. check_run_dependency ?x p = Inr y) = (case p of (k, d) \<Rightarrow> d \<in> set ?ks \<and> (p_execution_policy plan = SEQUENTIAL \<longrightarrow> index_of d ?ks < index_of k ?ks))"
        by (cases p) (simp only: one prod.case)
    qed
  qed
  have start: "map fst (filter (\<lambda>kd. snd kd = []) (initial_dependencies ?x)) = filter (\<lambda>k. ?D k = []) ?ks"
    by (simp add: initial_dependencies_def filter_map comp_def)
  let ?count = "fst (kahn (map (\<lambda>k. (k, ?D k)) ?ks) (filter (\<lambda>k. ?D k = []) ?ks) 0)"
  have run: "validate_dependencies ?x = Inr () \<longleftrightarrow> checked \<and> ?count = length ?ks"
    unfolding validate_dependencies_def bindR_ok check start
    by (auto simp: initial_dependencies_def guardR_def split: prod.splits)
  have decl: "set (?D k) \<subseteq> set ?ks" if checked "k \<in> set ?ks" for k using that unfolding checked_def edges [symmetric] by blast
  have kahn: "?count = length ?ks \<longleftrightarrow> acyclic (task_edges tasks)" if checked
    using kahn_decides(1) [OF dist, of ?D] decl [OF that] unfolding edges by blast
  have parts: "checked \<longleftrightarrow> snd ` task_edges tasks \<subseteq> set (map t_task_id tasks)
   \<and> (p_execution_policy plan = SEQUENTIAL \<longrightarrow> (\<forall>(k, d) \<in> task_edges tasks. index_of d ?ks < index_of k ?ks))"
    unfolding checked_def ids by (fastforce simp: image_subset_iff)
  show "validate_dependencies ?x = Inr () \<longleftrightarrow>
     snd ` task_edges tasks \<subseteq> set (map t_task_id tasks)
   \<and> (p_execution_policy plan = SEQUENTIAL \<longrightarrow> (\<forall>(k, d) \<in> task_edges tasks. index_of d ?ks < index_of k ?ks))
   \<and> acyclic (task_edges tasks)"
    unfolding run parts [symmetric] conj_assoc [symmetric] using kahn by blast
  show "\<exists>ks. set ks = set ?ks \<and> topological (deps ?x) {} ks" if "validate_dependencies ?x = Inr ()"
    using that kahn_decides(2) [OF dist, of ?D] decl unfolding run deps_def [abs_def] by blast
qed

lemma validate_run_runnable:
  "validate_run (new_execution plan tasks session i) = Inr () \<longleftrightarrow> runnable plan tasks"
proof (cases "distinct (map t_task_id tasks)")
  case True
  let ?x = "new_execution plan tasks session i"
  have tasks: "validate_task plan t = Inr u \<longleftrightarrow> t_plan_id t = p_plan_id plan \<and> t_status t = Task_PENDING" for t u
    by (cases "t_status t") (auto simp: validate_task_def guardR_def assert_transition_def can_transition_def)
  have vals: "set (dict_values (xe_tasks ?x)) = set tasks" unfolding new_execution_tasks(1) [OF True] by force
  have "(\<exists>ys. mapR (validate_task plan) (dict_values (xe_tasks ?x)) = Inr ys) \<longleftrightarrow>
      list_all (\<lambda>t. t_plan_id t = p_plan_id plan \<and> t_status t = Task_PENDING) tasks"
    unfolding mapR_ok vals by (simp add: tasks list_all_iff)
  moreover have "length (xe_tasks ?x) = length (xe_order ?x)" unfolding new_execution_tasks(1) [OF True] by simp
  moreover have "(\<exists>v. assert_transition PLAN_TRANSITIONS plan_state_value (p_status plan) Plan_RUNNING ''plan'' = Inr v) \<longleftrightarrow> p_status plan = Plan_PENDING"
    by (cases "p_status plan") (auto simp: assert_transition_def guardR_def can_transition_def)
  ultimately show ?thesis
    using validate_dependencies_decides(1) [OF True, of plan session i] True
    unfolding validate_run_def bindR_ok runnable_def by (auto simp: guardR_def)
next
  case False
  have "\<not> distinct (run_order tasks)" using False by (simp only: run_order_distinct not_False_eq_True)
  then have "length (xe_tasks (new_execution plan tasks session i)) \<noteq> length (run_order tasks)"
    using dict_fold_length [of t_task_id "sort_key t_order_index tasks" "[]"] by (auto simp: new_execution_dict)
  then show ?thesis
    using False by (auto simp: validate_run_def bindR_ok runnable_def guardR_def)
qed

lemma runnable_fresh:
  assumes "runnable plan tasks" and "\<forall>t \<in> set tasks. 0 \<le> task_budget rn (new_execution plan tasks session i) t"
  shows "fresh rn (run_order tasks) (new_execution plan tasks session i)"
proof -
  let ?x = "new_execution plan tasks session i"
  have dist: "distinct (map t_task_id tasks)" and valid: "validate_run ?x = Inr ()"
    using assms(1) by (simp_all add: validate_run_runnable runnable_def)
  have deps_ok: "validate_dependencies ?x = Inr ()" using valid by (auto simp: validate_run_def)
  note at = new_execution_tasks(2) [OF dist] and keyed = new_execution_tasks(3) [OF dist]
  have edge: "(k, d) \<in> task_edges tasks \<longleftrightarrow> k \<in> set (run_order tasks) \<and> d \<in> deps ?x k" for k d
    using at by (auto simp: task_edges_def deps_def)
  have closed: "deps ?x k \<subseteq> set (run_order tasks)" if "k \<in> set (run_order tasks)" for k
  proof
    fix d assume "d \<in> deps ?x k"
    then have "(k, d) \<in> task_edges tasks" using edge that by blast
    then have "d \<in> snd ` task_edges tasks" by force
    then show "d \<in> set (run_order tasks)" using assms(1) by (auto simp: runnable_def)
  qed
  have order: "\<forall>(k, d) \<in> task_edges tasks. index_of d (run_order tasks) < index_of k (run_order tasks)" if "p_execution_policy plan = SEQUENTIAL"
    using assms(1) that by (simp add: runnable_def)
  have "topological (deps ?x) {} (run_order tasks)" if "p_execution_policy plan = SEQUENTIAL"
  proof (rule topological_index)
    fix k d assume "k \<in> set (run_order tasks)" "d \<in> deps ?x k"
    then show "d \<in> set (run_order tasks) \<and> index_of d (run_order tasks) < index_of k (run_order tasks)"
      using order [OF that] closed edge [of k d] by blast
  qed (use dist in \<open>simp only: run_order_distinct\<close>)
  then have seq: "p_execution_policy plan \<noteq> SEQUENTIAL \<or> topological (deps ?x) {} (run_order tasks)" by blast
  have each: "t_plan_id (task_at ?x k) = p_plan_id plan \<and> 0 \<le> task_budget rn ?x (task_at ?x k) \<and> task_status ?x k = Task_PENDING"
    if "k \<in> set (run_order tasks)" for k
    using that assms at by (auto simp: runnable_def list_all_iff task_status_def)
  have all: "\<forall>k \<in> set (run_order tasks). t_plan_id (task_at ?x k) = p_plan_id plan \<and> deps ?x k \<subseteq> set (run_order tasks)
      \<and> 0 \<le> task_budget rn ?x (task_at ?x k)"
    using each closed by blast
  have "sound_run rn ?x"
    unfolding sound_run_def new_execution_simps
    by (intro conjI keyed all seq validate_dependencies_decides(2) [OF dist deps_ok] new_execution_simps(6))
  moreover have "p_status plan = Plan_PENDING" using assms(1) by (simp add: runnable_def)
  ultimately show ?thesis
    unfolding fresh_def new_execution_simps using each by (intro conjI refl new_execution_simps(5) ballI) blast+
qed

section \<open>The number of workers\<close>

text \<open>No step changes the number of workers the plan was given.\<close>

abbreviation staffed_by :: "int \<Rightarrow> app \<times> execution \<Rightarrow> bool" where
  "staffed_by n s \<equiv> xe_workers (snd s) = n"

lemma keeps_on_app: "keeps (staffed_by n) (on_app m)"
  by (auto simp: keeps_def on_part_def split: prod.splits)

lemma keeps_exec_set: "(\<And>x. xe_workers (f x) = xe_workers x) \<Longrightarrow> keeps (staffed_by n) (exec_set f)"
  by (simp add: keeps_def modifying_def)

lemmas keeps_run = keeps_intros keeps_on_app keeps_exec_set

lemma keeps_changes: "keeps (staffed_by n) (apply_changes cs blobs)" "keeps (staffed_by n) (transition_plan to r)"
    "keeps (staffed_by n) (publish_event ty now k payload)"
proof -
  show event: "keeps (staffed_by n) (publish_event ty now k payload)" for ty now k payload
    unfolding publish_event_def by (intro keeps_run)
  have commit: "keeps (staffed_by n) (commit_change now a)" for now a
    unfolding commit_change_def by (cases a) (auto intro!: keeps_run event)
  show "keeps (staffed_by n) (apply_changes cs blobs)"
    unfolding apply_changes_def by (intro keeps_run commit)
  show "keeps (staffed_by n) (transition_plan to r)"
    unfolding transition_plan_def by (intro keeps_run event) simp
qed

lemma keeps_launch_ready: "keeps (staffed_by n) (launch_ready rn)"
  unfolding launch_ready_def launch_def decide_translation_def
  by (auto intro!: keeps_run keeps_changes split: option.split)

lemma keeps_finish: "keeps (staffed_by n) (finish rn k e propagate)"
proof -
  have "keeps (staffed_by n) (record_output rn t now e)" for t now
    unfolding record_output_def by (cases e) (auto intro!: keeps_run split: sum.split)
  moreover have "keeps (staffed_by n) (record_run_failure rn t f)" for t f
    unfolding record_run_failure_def by (cases f) (auto intro!: keeps_run)
  ultimately show ?thesis
    unfolding finish_def release_dependants_def skip_dependants_def
    by (auto intro!: keeps_run keeps_changes split: prod.split)
qed

lemma keeps_callback: "keeps (staffed_by n) (run_callback c)"
  unfolding run_callback_def persist_pid_def publish_output_def
  by (cases c) (auto intro!: keeps_run keeps_changes)

lemma keeps_ends:
  "keeps (staffed_by n) (interrupted_run rn dr)" "keeps (staffed_by n) (stopped_run rn dr target)"
  "keeps (staffed_by n) (budget_failed_run rn)" "keeps (staffed_by n) (completed_run rn)"
proof -
  have result: "keeps (staffed_by n) (outcome_with_result rn over)" for over
    unfolding outcome_with_result_def make_outcome_def by (auto intro!: keeps_run split: option.split)
  have tokens: "xe_workers (fold (cancel_token r) ks x) = xe_workers x" for r ks x
    using cancel_tokens_frame [of r ks x] by auto
  have pop: "keeps (staffed_by n) (pop_and_finish rn b kr)" for b kr
    unfolding pop_and_finish_def by (cases kr) (auto intro!: keeps_run keeps_finish)
  have drain: "keeps (staffed_by n) (drain_running rn dr r)" for r
    unfolding drain_running_def by (intro keeps_run keeps_callback pop) (rule tokens)
  note ends = keeps_run keeps_changes drain result
  show "keeps (staffed_by n) (interrupted_run rn dr)" "keeps (staffed_by n) (stopped_run rn dr target)"
    "keeps (staffed_by n) (budget_failed_run rn)" "keeps (staffed_by n) (completed_run rn)"
    unfolding interrupted_run_def stopped_run_def budget_failed_run_def completed_run_def mark_remaining_def make_outcome_def
    by (cases target; auto intro!: ends)+
qed

lemma keeps_run_loop: "keeps (staffed_by n) (run_loop rn dr wakes)"
proof -
  have start: "keeps (staffed_by n) start_plan" "keeps (staffed_by n) check_deadline"
    unfolding start_plan_def check_deadline_def by (auto intro!: keeps_run keeps_changes split: option.split)
  have head: "keeps (staffed_by n) (loop_head rn dr)"
    unfolding loop_head_def by (intro keeps_run keeps_ends start keeps_launch_ready)
  have finish_all: "keeps (staffed_by n) (finish_all rn dr fs)" for fs
  proof (induction fs)
    case (Cons f fs)
    then show ?case by (cases f) (auto simp: pop_and_finish_def intro!: keeps_run keeps_finish keeps_ends split: option.split)
  qed (simp add: keeps_ret)
  have wake: "keeps (staffed_by n) (wake_up rn dr wk)" for wk
    unfolding wake_up_def by (intro keeps_run keeps_callback finish_all) simp
  have ended: "keeps (staffed_by n) m \<Longrightarrow> keeps (staffed_by n) (case run_end r of Some p \<Rightarrow> ret p | None \<Rightarrow> m)" for m r
    by (simp add: keeps_ret split: option.split)
  show ?thesis
    by (induction wakes) (simp_all only: run_loop.simps, (intro keeps_bnd head ended wake keeps_ret; assumption)+)
qed

section \<open>Every run of a plan that passed the validation\<close>

lemma run_from:
  assumes "validate_run (new_execution plan tasks session i) = Inr ()"
    and "\<forall>t \<in> set tasks. 0 \<le> task_budget rn (new_execution plan tasks session i) t"
  shows "looping rn (run_order tasks) {} (new_execution plan tasks session i)"
  using runnable_fresh [of plan tasks rn session i] assms by (simp add: validate_run_runnable looping_def)

text \<open>
  C25. The validation of a run accepts exactly the runnable plans: a new plan, its own new tasks under distinct
  names, dependencies that are tasks of the plan and, in a sequential plan, come before, and no dependency cycle.
  Kahn's count decides the last point.
\<close>

theorem validate_run_decides:
  "validate_run (new_execution plan tasks session interrupted) = Inr () \<longleftrightarrow> runnable plan tasks"
  by (rule validate_run_runnable)

text \<open>
  C1. At every point where a run waits, whatever ended in whatever order: somebody runs, the running tasks are
  the ones recorded as such, there are no more of them than the plan allows, all their dependencies are completed,
  and no two of them hold the same resource lock.
\<close>

theorem waiting_runs_are_scheduled_right:
  assumes "validate_run (new_execution plan tasks session interrupted) = Inr ()"
    and "\<forall>t \<in> set tasks. 0 \<le> task_budget rn (new_execution plan tasks session interrupted) t"
    and "run_loop rn dr wakes (w, new_execution plan tasks session interrupted) = (Inr Waiting, (w', x))"
  shows "xe_running x \<noteq> [] \<and> distinct (xe_running x)
    \<and> set (xe_running x) = {k \<in> set (run_order tasks). task_status x k = Task_RUNNING}
    \<and> int (length (xe_running x)) \<le> (if p_execution_policy plan = SEQUENTIAL then 1 else max 1 (p_max_parallel_workers plan))
    \<and> (\<forall>k \<in> set (xe_running x). dependencies_completed x (task_at x k))
    \<and> (\<forall>j \<in> set (xe_running x). \<forall>k \<in> set (xe_running x). j = k \<or> lock_set (task_at x j) \<inter> lock_set (task_at x k) = {})"
proof -
  from duringD [OF during_run_loop [where us = "[]"] run_from [OF assms(1,2)] assms(3)]
  obtain T where x: "going rn (run_order tasks) T {} {} x" "xe_running x \<noteq> []" by (auto simp: right_progress_def at_wait_def)
  have "xe_workers x = xe_workers (new_execution plan tasks session interrupted)"
    using keepsD [OF keeps_run_loop [where rn = rn and dr = dr and wakes = wakes], where s = "(w, new_execution plan tasks session interrupted)"] assms(3) by simp
  then have workers: "xe_workers x = (if p_execution_policy plan = SEQUENTIAL then 1 else max 1 (p_max_parallel_workers plan))"
    by (simp add: new_execution_def Let_def)
  have "dependencies_completed x (task_at x k)" if "k \<in> set (xe_running x)" for k
    using x(1) that by (auto simp: going_def occupied_defs dependencies_completed_def list_all_iff deps_def)
  then show ?thesis
    using x workers by (auto simp: going_def occupied_def staffed_def locked_def locks_def)
qed

text \<open>
  C4. Whatever the workers, the clocks, the store and the command translator do, a run raises nothing of its own: an
  exception that leaves it comes from the store, from a worker, or from the translator, asked how a command is to be
  launched or was launched (it can raise: \<open>int\<close> refuses some of the counts it reads). It never stalls, never finds a task that is not terminal at its end,
  never attempts a forbidden transition, and its report is always built.
\<close>

theorem run_raises_nothing_of_its_own:
  assumes "validate_run (new_execution plan tasks session interrupted) = Inr ()"
    and "\<forall>t \<in> set tasks. 0 \<le> task_budget rn (new_execution plan tasks session interrupted) t"
    and "run_plan rn plan tasks session interrupted dr wakes w = (Inl e, w')"
  shows "run_error rn dr wakes e"
proof -
  let ?x = "new_execution plan tasks session interrupted"
  obtain x' where "run_loop rn dr wakes (w, ?x) = (Inl e, (w', x'))"
    using assms(1,3) by (auto simp: run_plan_def andthen_def bnd_def lifting_def split: prod.splits)
  from during_raises [OF during_run_loop [where us = "[]"] run_from [OF assms(1,2)] this] show ?thesis by simp
qed

text \<open>
  C2. A run that returns leaves a terminal plan whose tasks all are terminal, in declaration order, a completed one
  only with completed dependencies; its counters are those of the tasks; it carries no report exactly when it was
  interrupted, and otherwise the fitted report of its tasks.
\<close>

theorem returned_runs_are_right:
  assumes "validate_run (new_execution plan tasks session interrupted) = Inr ()"
    and "\<forall>t \<in> set tasks. 0 \<le> task_budget rn (new_execution plan tasks session interrupted) t"
    and "run_plan rn plan tasks session interrupted dr wakes w = (Inr (Returned res), w')"
  shows "right_outcome rn (run_order tasks) res"
proof -
  let ?x = "new_execution plan tasks session interrupted"
  obtain x' where "run_loop rn dr wakes (w, ?x) = (Inr (Returned res), (w', x'))"
    using assms(1,3) by (auto simp: run_plan_def andthen_def bnd_def lifting_def split: prod.splits)
  from duringD [OF during_run_loop [where us = "[]"] run_from [OF assms(1,2)] this] show ?thesis by (simp add: right_progress_def)
qed

text \<open>
  C3. A run ends: when every wake is due (it reports a running task that ended, or the interruption), it waits at most
  as many times as the plan has tasks: given as many wakes, the run is not waiting for another.
\<close>

theorem runs_end:
  assumes "validate_run (new_execution plan tasks session interrupted) = Inr ()"
    and "\<forall>t \<in> set tasks. 0 \<le> task_budget rn (new_execution plan tasks session interrupted) t"
    and "due rn dr wakes (w, new_execution plan tasks session interrupted)"
    and "length tasks \<le> length wakes"
  shows "fst (run_plan rn plan tasks session interrupted dr wakes w) \<noteq> Inr Waiting"
proof
  let ?x = "new_execution plan tasks session interrupted"
  assume "fst (run_plan rn plan tasks session interrupted dr wakes w) = Inr Waiting"
  then obtain s' where "run_loop rn dr wakes (w, ?x) = (Inr Waiting, s')"
    using assms(1) by (auto simp: run_plan_def andthen_def bnd_def lifting_def split: prod.splits)
  from waits_bounded [OF _ assms(3) this] run_from [OF assms(1,2)] assms(4) show False by fastforce
qed

section \<open>From the reply of the model to a run\<close>

lemma accepted_plan_records:
  assumes "plan_to_records cfg ex im session conversation cycle_id now = Inr (p, ts)" and "im_content im = Plan_content plan"
  shows "map t_task_id ts = task_ids plan" "run_order ts = task_ids plan" "task_edges ts = plan_edges plan"
    "p_status p = Plan_PENDING" "p_execution_policy p = pc_execution_policy plan"
    "list_all (\<lambda>t. t_plan_id t = p_plan_id p \<and> t_status t = Task_PENDING) ts"
proof -
  obtain ty where ty: "im_plan_type im = Some ty" using assms by (auto simp: plan_to_records_def split: option.splits)
  have p: "p = build_plan_record plan ty session conversation cycle_id now"
    and ts: "ts = map (\<lambda>(index, task). build_task_record cfg ex task index p now (pc_default_continue_on_error plan))
      (zip (map int [0..<length (pc_tasks plan)]) (pc_tasks plan))"
    using assms ty by (auto simp: plan_to_records_def Let_def)
  show ids: "map t_task_id ts = task_ids plan"
    by (auto intro!: nth_equalityI simp: ts task_ids_def build_task_record_fields)
  have "map t_order_index ts = map int [0..<length (pc_tasks plan)]"
    by (auto intro!: nth_equalityI simp: ts build_task_record_fields)
  then have "sort_key t_order_index ts = ts" by (intro sort_key_id_if_sorted) (simp add: sorted_map mono_def)
  then show "run_order ts = task_ids plan" using ids by simp
  have "set (map (\<lambda>t. (t_task_id t, t_depends_on t)) ts) = set (map (\<lambda>t. (tm_task_id t, tm_depends_on t)) (pc_tasks plan))"
    by (rule arg_cong [of _ _ set]) (auto intro!: nth_equalityI simp: ts build_task_record_fields)
  moreover have "task_edges ts = {(k, d). \<exists>ds. (k, ds) \<in> set (map (\<lambda>t. (t_task_id t, t_depends_on t)) ts) \<and> d \<in> set ds}"
    by (auto simp: task_edges_def)
  moreover have "plan_edges plan = {(k, d). \<exists>ds. (k, ds) \<in> set (map (\<lambda>t. (tm_task_id t, tm_depends_on t)) (pc_tasks plan)) \<and> d \<in> set ds}"
    by (auto simp: plan_edges_def)
  ultimately show "task_edges ts = plan_edges plan" by simp
  show "p_status p = Plan_PENDING" "p_execution_policy p = pc_execution_policy plan"
    by (simp_all add: p build_plan_record_def)
  show "list_all (\<lambda>t. t_plan_id t = p_plan_id p \<and> t_status t = Task_PENDING) ts"
    by (auto simp: ts list_all_iff build_task_record_fields)
qed

lemma executable_plans_run:
  assumes "plan_to_records cfg ex im session conversation cycle_id now = Inr (p, ts)" and "im_content im = Plan_content plan"
    and "executable_plan cfg' plan kp kt stored"
  shows "runnable p ts"
proof -
  note r = accepted_plan_records [OF assms(1,2)]
  have plan: "distinct (task_ids plan)" "list_all (\<lambda>t. set (tm_depends_on t) \<subseteq> set (task_ids plan)) (pc_tasks plan)"
    "acyclic (plan_edges plan)" "pc_execution_policy plan = PARALLEL \<or> declared_before plan"
    using assms(3) by (simp_all add: executable_plan_def)
  have "index_of d (task_ids plan) < index_of k (task_ids plan)"
    if "pc_execution_policy plan = SEQUENTIAL" and edge: "(k, d) \<in> plan_edges plan" for k d
  proof -
    obtain n where n: "n < length (pc_tasks plan)" "k = task_ids plan ! n" "d \<in> set (tm_depends_on (pc_tasks plan ! n))"
      using edge by (auto simp: plan_edges_def task_ids_def in_set_conv_nth)
    then have "d \<in> set (take n (task_ids plan))" using plan(4) that(1) by (auto simp: declared_before_def list_all_iff)
    moreover have "index_of k (task_ids plan) = n" using index_of_nth [OF plan(1)] n(1,2) by (simp add: task_ids_def)
    ultimately show ?thesis using index_of_less [of d "task_ids plan" n] set_take_subset [of n "task_ids plan"] by blast
  qed
  moreover have "snd ` plan_edges plan \<subseteq> set (task_ids plan)" using plan(2) by (fastforce simp: plan_edges_def list_all_iff)
  ultimately show ?thesis using plan(1,3) r by (auto simp: runnable_def)
qed

text \<open>
  C5. A plan the adapter accepted and projected always passes the validation of its run: the two components agree on
  what an executable plan is.
\<close>

theorem accepted_plans_run:
  assumes "parse_inbound sc cfg raws expected conversation known = Inr im" and "im_content im = Plan_content plan"
    and "plan_to_records cfg ex im session conversation cycle_id now = Inr (p, ts)"
  shows "validate_run (new_execution p ts session interrupted) = Inr ()"
proof -
  have "executable_plan cfg plan (kn_plan_ids known) (kn_task_ids known) (kn_stored_output_task_ids known)"
    using accepted_replyD [OF assms(1)] assms(2) by auto
  then show ?thesis unfolding validate_run_runnable by (rule executable_plans_run [OF assms(3,2)])
qed

section \<open>In a healthy application the steps succeed\<close>

text \<open>A write that a store which is open and takes writes always accepts, the audit chains apart.\<close>

definition plain_write :: "unit store_act \<Rightarrow> bool" where
  "plain_write m \<longleftrightarrow> (\<forall>st. \<not> st_closed st \<longrightarrow> \<not> st_fail_next_write st \<longrightarrow>
     (\<exists>st'. m st = (Inr (), st') \<and> st_audit st' = st_audit st \<and> \<not> st_closed st' \<and> \<not> st_fail_next_write st'))"

lemma plain_writes:
  "plain_write (ret ())" "plain_write (save_task t)" "plain_write (save_plan p)"
  "plain_write m \<Longrightarrow> plain_write n \<Longrightarrow> plain_write (andthen m n)"
  "plain_write m \<Longrightarrow> plain_write (transaction m)"
  by (fastforce simp: plain_write_def ret_def save_task_def save_plan_def write_record_Inr andthen_Inr transaction_def)+

lemma plain_write_each: "(\<And>y. plain_write (f y)) \<Longrightarrow> plain_write (for_each ys f)"
  by (induction ys) (simp_all add: plain_writes)

lemma on_store_healthy:
  assumes "healthy w" and "plain_write m"
  shows "\<exists>w'. on_app (on_store m) (w, x) = (Inr (), (w', x)) \<and> healthy w'"
proof -
  obtain st where st: "m (w_store w) = (Inr (), st)" "st_audit st = st_audit (w_store w)" "\<not> st_closed st" "\<not> st_fail_next_write st"
    using assms unfolding plain_write_def healthy_def by blast
  have "healthy (w\<lparr>w_store := st\<rparr>)" by (rule healthy_cong [OF assms(1)]) (use st in simp_all)
  then show ?thesis using st(1) by (simp add: on_part_def)
qed

lemma publish_event_healthy:
  assumes "healthy w"
  shows "\<exists>w'. publish_event ty now k payload (w, x) = (Inr (), (w', x)) \<and> healthy w'"
proof -
  let ?e = "\<lparr>ev_event_type = ty, ev_timestamp = now, ev_session_id = p_session_id (xe_plan x), ev_conversation_id = Some (p_conversation_id (xe_plan x)),
    ev_cycle_id = Some (p_cycle_id (xe_plan x)), ev_plan_id = Some (p_plan_id (xe_plan x)), ev_task_id = k, ev_payload = payload\<rparr>"
  obtain w' where "publish ?e w = (Inr (), w')" "healthy w'" using publish_healthy [OF assms] by blast
  then show ?thesis by (simp add: publish_event_def bnd_def reading_def on_part_def)
qed

lemma on_clock: "on_app clock_now (w, x) = (Inr (e_now (w_env w) (w_clock_reads w)), (w\<lparr>w_clock_reads := w_clock_reads w + 1\<rparr>, x))"
  by (simp add: on_part_def clock_now_def Let_def flow_simps)

lemma transition_plan_healthy:
  assumes "healthy w" and "to \<in> PLAN_TRANSITIONS (p_status (xe_plan x))"
  shows "\<exists>w' now. transition_plan to r (w, x) = (Inr (), (w', x\<lparr>xe_plan := moved_plan x to r now\<rparr>)) \<and> healthy w'"
proof -
  let ?now = "e_now (w_env w) (w_clock_reads w)"
  obtain w1 where w1: "on_app (on_store (transaction (save_plan (moved_plan x to r ?now)))) (w\<lparr>w_clock_reads := w_clock_reads w + 1\<rparr>, x) = (Inr (), (w1, x))" "healthy w1"
    using on_store_healthy [OF healthy_clock [OF assms(1)]] plain_writes(3,5) by blast
  obtain w2 where w2: "publish_event PLAN_STATE_CHANGED ?now None
      (state_change_payload (Some (plan_state_value (p_status (xe_plan x)))) (plan_state_value to) None @ (case r of None \<Rightarrow> [] | Some r \<Rightarrow> [(''stop_reason'', JStr r)]))
      (w1, x\<lparr>xe_plan := moved_plan x to r ?now\<rparr>) = (Inr (), (w2, x\<lparr>xe_plan := moved_plan x to r ?now\<rparr>))" "healthy w2"
    using publish_event_healthy [OF w1(2)] by blast
  have "transition_plan to r (w, x) = (Inr (), (w2, x\<lparr>xe_plan := moved_plan x to r ?now\<rparr>))"
    using assms(2) w1(1) w2(1)
    by (simp add: transition_plan_def bnd_def andthen_def reading_def lifting_def modifying_def assert_transition_def guardR_def can_transition_def on_clock)
  then show ?thesis using w2(2) by blast
qed

lemma commits_healthy:
  "healthy w \<Longrightarrow> \<exists>w'. for_each applied (commit_change now) (w, x) = (Inr (), (w', committed applied x)) \<and> healthy w'"
proof (induction applied arbitrary: w x)
  case (Cons a applied)
  obtain old new c where a: "a = (old, new, c)" by (cases a)
  obtain w1 where w1: "commit_change now a (w, x) = (Inr (), (w1, committed [a] x))" "healthy w1"
    using publish_event_healthy [OF Cons.prems] a
    by (fastforce simp: commit_change_def bnd_def andthen_def reading_def modifying_def committed_def)
  have "committed applied (committed [a] x) = committed (a # applied) x" by (simp add: committed_def a)
  with Cons.IH [OF w1(2), of "committed [a] x"] w1(1) show ?case by (auto simp: andthen_def bnd_def)
qed (simp add: ret_def committed_def)

lemma apply_changes_healthy:
  assumes "healthy w" and "keyed x" and "changes_ok x (cs x)"
  shows "\<exists>w' now. apply_changes cs [] (w, x)
    = (Inr (), (w', committed (map (\<lambda>c. (task_at x (ch_task_id c), changed_record now c (task_at x (ch_task_id c)), c)) (cs x)) x)) \<and> healthy w'"
proof -
  let ?now = "e_now (w_env w) (w_clock_reads w)" and ?w = "w\<lparr>w_clock_reads := w_clock_reads w + 1\<rparr>"
  let ?applied = "map (\<lambda>c. (task_at x (ch_task_id c), changed_record ?now c (task_at x (ch_task_id c)), c)) (cs x)"
  have "List.find (\<lambda>c. \<not> can_transition TASK_TRANSITIONS (task_status x (ch_task_id c)) (ch_to c)) (cs x) = None"
    using assms(3) by (auto simp: find_None_iff changes_ok_def)
  then have prepared: "mapR (prepare_change ?now x) (cs x) = Inr ?applied" by (simp add: prepared_changes)
  have plain: "plain_write (transaction (andthen (for_each [] save_blob) (for_each (map (\<lambda>a. fst (snd a)) ?applied) save_task)))"
    unfolding for_each.simps by (intro plain_writes plain_write_each)
  obtain w1 where w1: "on_app (on_store (transaction (andthen (for_each [] save_blob) (for_each (map (\<lambda>a. fst (snd a)) ?applied) save_task)))) (?w, x)
      = (Inr (), (w1, x))" "healthy w1"
    using on_store_healthy [OF healthy_clock [OF assms(1)] plain] by blast
  obtain w2 where w2: "for_each ?applied (commit_change ?now) (w1, x) = (Inr (), (w2, committed ?applied x))" "healthy w2"
    using commits_healthy [OF w1(2)] by blast
  have "apply_changes cs [] (w, x) = (Inr (), (if ?applied = [] then ?w else w2, committed ?applied x))"
    using w1(1) w2(1)
    by (auto simp: apply_changes_def bnd_def andthen_def reading_def lifting_def unless_def ret_def on_clock prepared committed_def)
  then show ?thesis using w2(2) healthy_clock [OF assms(1)] by (cases "?applied = []") auto
qed

lemma launch_healthy:
  assumes "healthy w" and "keyed x" and "k \<in> set (xe_order x)" and "task_status x k = Task_PENDING" and "co_translate (rn_collector rn) = (\<lambda>_. Inr None)"
  shows "\<exists>w' x'. launch rn k (w, x) = (Inr (), (w', x')) \<and> healthy w' \<and> xe_running x' = xe_running x @ [k]"
proof -
  let ?x = "x\<lparr>xe_held_locks := xe_held_locks x \<union> lock_set (task_at x k), xe_tokens := dict_set k None (xe_tokens x)\<rparr>"
  let ?now = "e_now (w_env w) (w_clock_reads w)" and ?w = "w\<lparr>w_clock_reads := w_clock_reads w + 1\<rparr>"
  let ?c = "\<lparr>ch_task_id = k, ch_to = Task_RUNNING, ch_reason = None, ch_ended_at = None, ch_fields = \<lambda>t. t\<lparr>t_started_at := Some ?now, t_attempt_count := 1\<rparr>\<rparr>"
  have "keyed ?x" using assms(2) by (simp add: keyed_def)
  moreover have "changes_ok ?x [?c]" using assms(3,4) by (simp add: changes_ok_def can_transition_def)
  ultimately obtain w1 x1 where w1: "apply_changes (\<lambda>_. [?c]) [] (?w, ?x) = (Inr (), (w1, x1))" "healthy w1" "xe_running x1 = xe_running x"
    using apply_changes_healthy [OF healthy_clock [OF assms(1)], of ?x "\<lambda>_. [?c]" "w_clock_reads w + 1"] by (auto simp: committed_def)
  have decide: "decide_translation rn t = ret ()" for t using assms(5) by (simp add: decide_translation_def fun_eq_iff flow_simps)
  have "healthy (w1\<lparr>w_mono_reads := n\<rparr>)" for n
    by (rule healthy_cong [OF w1(2)]) (use w1(2) in \<open>simp_all add: healthy_def\<close>)
  moreover have "on_app clock_monotonic_ms (w1, x1) = (Inr (e_monotonic_ms (w_env w1) (w_mono_reads w1)), (w1\<lparr>w_mono_reads := w_mono_reads w1 + 1\<rparr>, x1))"
    by (simp add: on_part_def clock_monotonic_ms_def Let_def flow_simps)
  ultimately show ?thesis
    using w1(1,3)
    by (simp add: launch_def decide bnd_def andthen_def reading_def modifying_def ret_def on_clock)
qed

section \<open>Witnesses\<close>

definition solo_plan :: plan_record where
  "solo_plan = build_plan_record (sample_plan []) Type_DISCOVERY_PLAN sample_session (sample_conversation Conv_ACTIVE) ''y'' 0"

definition solo_task :: task_record where
  "solo_task = sample_task\<lparr>t_status := Task_PENDING, t_max_output_bytes_applied := Some 100\<rparr>"

definition solo_runner :: runner where
  "solo_runner = \<lparr>rn_payload = small_payload,
     rn_exec = \<lparr>x_default_task_timeout_ms = 5, x_max_task_timeout_ms = 9, x_cancel_drain_timeout_ms = 1, x_interrupt_drain_timeout_ms = 1, x_verdict_programs = []\<rparr>,
     rn_collector = \<lparr>co_verdict_programs = \<lparr>vp_programs = {}, vp_pairs = {}\<rparr>, co_translate = \<lambda>_. Inr None, co_dialect = Dialect_POSIX\<rparr>,
     rn_has_failure_manager = True, rn_scratch = None\<rparr>"

definition idle_drain :: drain where
  "idle_drain = \<lparr>dr_callbacks = [], dr_done = [], dr_late = [], dr_result = \<lambda>_. Inl (ValueError [])\<rparr>"

definition solo_wake :: wake where
  "solo_wake = \<lparr>wk_callbacks = [], wk_interrupt = False, wk_done = [''t''], wk_result = \<lambda>_. Inl (ValueError [])\<rparr>"

abbreviation solo :: "bool \<Rightarrow> execution" where
  "solo \<equiv> new_execution solo_plan [solo_task] sample_session"

lemma solo_simps:
  "p_status solo_plan = Plan_PENDING" "p_execution_policy solo_plan = SEQUENTIAL" "t_task_id solo_task = ''t''"
  "t_status solo_task = Task_PENDING" "t_depends_on solo_task = []" "t_resource_lock solo_task = None" "s_started_at sample_session = None"
  by (simp_all add: solo_plan_def build_plan_record_def sample_plan_def solo_task_def sample_task_def sample_session_def new_session_def)

lemma solo_runnable: "runnable solo_plan [solo_task]"
  by (simp add: runnable_def solo_simps task_edges_def acyclic_def) (simp add: solo_plan_def build_plan_record_def sample_plan_def solo_task_def sample_task_def)

lemma solo_valid: "validate_run (solo i) = Inr ()"
  using solo_runnable by (simp add: validate_run_runnable)

lemma solo_budget: "\<forall>t \<in> set [solo_task]. 0 \<le> task_budget solo_runner (solo i) t"
  by (simp add: task_budget_def solo_task_def)

lemma solo_task_at: "task_at (solo i) ''t'' = solo_task"
  using new_execution_tasks(2) [of "[solo_task]" solo_task] by (simp add: solo_simps)

lemma solo_keyed: "keyed (solo i)"
  by (rule new_execution_tasks(3)) simp

lemma solo_waits:
  obtains w x where "loop_head solo_runner idle_drain (fresh_app sample_env, solo False) = (Inr (Inr ()), (w, x))" "xe_running x = [''t'']"
proof -
  let ?w = "fresh_app sample_env" and ?x = "solo False"
  have flags: "\<not> xe_interrupted ?x" "\<not> xe_budget_exceeded ?x" "s_started_at (xe_session ?x) = None"
    by (simp_all add: new_execution_def Let_def solo_simps)
  obtain w1 now where w1: "transition_plan Plan_RUNNING None (?w, ?x) = (Inr (), (w1, ?x\<lparr>xe_plan := moved_plan ?x Plan_RUNNING None now\<rparr>))" "healthy w1"
    using transition_plan_healthy [OF healthy_fresh_app [OF inj_sample_uuid], of Plan_RUNNING ?x None] by (auto simp: solo_simps)
  let ?y = "?x\<lparr>xe_plan := moved_plan ?x Plan_RUNNING None now, xe_started := True\<rparr>"
  have start: "start_plan (?w, ?x) = (Inr (), (w1, ?y))"
    using w1(1) by (simp add: start_plan_def bnd_def andthen_def reading_def modifying_def whenever_def ret_def moved_plan_simps solo_simps)
  have at: "task_at ?y ''t'' = solo_task" by (simp add: solo_task_at)
  have workers: "xe_workers ?y = 1" by (simp add: new_execution_def Let_def solo_simps)
  have ready: "ready ?y = [''t'']"
    using workers at by (simp add: ready_def solo_simps launchable_def task_status_def dependencies_completed_def lock_set_def terminal_task_iff)
  have "keyed ?y" using solo_keyed [of False] by (simp add: keyed_def)
  then obtain w2 x2 where w2: "launch solo_runner ''t'' (w1, ?y) = (Inr (), (w2, x2))" "xe_running x2 = [''t'']"
    using launch_healthy [OF w1(2), of ?y "''t''" solo_runner] at by (auto simp: solo_simps task_status_def solo_runner_def)
  have "loop_head solo_runner idle_drain (?w, ?x) = (Inr (Inr ()), (w2, x2))"
    using flags start w2 ready
    by (simp add: loop_head_def check_deadline_def launch_ready_def bnd_def andthen_def reading_def unless_def whenever_def ret_def)
  with w2(2) show ?thesis by (rule that [rotated])
qed

theorem waiting_runs_are_scheduled_right_witness:
  "\<exists>w x. run_loop solo_runner idle_drain [] (fresh_app sample_env, solo False) = (Inr Waiting, (w, x))
     \<and> set (xe_running x) = {k \<in> {''t''}. task_status x k = Task_RUNNING} \<and> int (length (xe_running x)) \<le> 1"
proof -
  obtain w x where "loop_head solo_runner idle_drain (fresh_app sample_env, solo False) = (Inr (Inr ()), (w, x))" by (rule solo_waits)
  then have run: "run_loop solo_runner idle_drain [] (fresh_app sample_env, solo False) = (Inr Waiting, (w, x))"
    by (simp add: bnd_def ret_def)
  with waiting_runs_are_scheduled_right [OF solo_valid solo_budget run] show ?thesis by (auto simp: solo_simps)
qed

theorem runs_end_witness:
  "fst (run_plan solo_runner solo_plan [solo_task] sample_session False idle_drain [solo_wake] (fresh_app sample_env)) \<noteq> Inr Waiting"
proof -
  obtain w x where "loop_head solo_runner idle_drain (fresh_app sample_env, solo False) = (Inr (Inr ()), (w, x))" "xe_running x = [''t'']"
    by (rule solo_waits)
  then have "due solo_runner idle_drain [solo_wake] (fresh_app sample_env, solo False)"
    by (simp add: solo_wake_def split: prod.split sum.split)
  from runs_end [OF solo_valid solo_budget this] show ?thesis by simp
qed

lemma interrupted_solo:
  obtains w res where "run_plan solo_runner solo_plan [solo_task] sample_session True idle_drain [] (fresh_app sample_env) = (Inr (Returned res), w)"
proof -
  let ?w = "fresh_app sample_env" and ?x = "solo True"
  let ?y = "?x\<lparr>xe_interrupting := True\<rparr>"
  let ?cs = "\<lambda>x. map (\<lambda>k. plain_change k Task_INTERRUPTED (Some INTERRUPT_REASON)) (filter (\<lambda>k. task_status x k \<in> SCHEDULABLE_STATES) (xe_order x))"
  have flags: "xe_interrupted ?x" by (simp add: new_execution_def Let_def)
  have keyed: "keyed ?y" using solo_keyed [of True] by (simp add: keyed_def)
  have "changes_ok ?y (?cs ?y)"
    by (auto simp: changes_ok_def SCHEDULABLE_STATES_def can_transition_def solo_simps)
  then obtain w1 x1 where w1: "mark_remaining Task_INTERRUPTED INTERRUPT_REASON (?w, ?y) = (Inr (), (w1, x1))" "healthy w1" "xe_plan x1 = solo_plan"
    using apply_changes_healthy [OF healthy_fresh_app [OF inj_sample_uuid] keyed, of ?cs] by (auto simp: mark_remaining_def committed_def)
  obtain w2 now where w2: "transition_plan Plan_INTERRUPTED (Some INTERRUPT_REASON) (w1, x1)
      = (Inr (), (w2, x1\<lparr>xe_plan := moved_plan x1 Plan_INTERRUPTED (Some INTERRUPT_REASON) now\<rparr>))"
    using transition_plan_healthy [OF w1(2), of Plan_INTERRUPTED x1 "Some INTERRUPT_REASON"] w1(3) by (auto simp: solo_simps)
  have drain: "drain_running solo_runner idle_drain INTERRUPT_REASON (?w, ?y) = (Inr (), (?w, ?y))"
    by (simp add: drain_running_def idle_drain_def bnd_def andthen_def reading_def modifying_def ret_def)
  have "\<exists>res w. run_loop solo_runner idle_drain [] (?w, ?x) = (Inr (Returned res), w)"
    using flags drain w1(1) w2
    by (simp add: loop_head_def interrupted_run_def make_outcome_def bnd_def andthen_def reading_def modifying_def ret_def)
  then obtain res w x where "run_loop solo_runner idle_drain [] (?w, ?x) = (Inr (Returned res), (w, x))" by auto
  then have "run_plan solo_runner solo_plan [solo_task] sample_session True idle_drain [] ?w = (Inr (Returned res), w)"
    using solo_valid [of True] by (simp add: run_plan_def andthen_def bnd_def lifting_def del: run_loop.simps)
  then show ?thesis by (rule that)
qed

theorem returned_runs_are_right_witness:
  "\<exists>res w. run_plan solo_runner solo_plan [solo_task] sample_session True idle_drain [] (fresh_app sample_env) = (Inr (Returned res), w)
     \<and> right_outcome solo_runner [''t''] res"
proof -
  obtain w res where run: "run_plan solo_runner solo_plan [solo_task] sample_session True idle_drain [] (fresh_app sample_env) = (Inr (Returned res), w)"
    by (rule interrupted_solo)
  with returned_runs_are_right [OF solo_valid solo_budget run] show ?thesis by (auto simp: solo_simps)
qed

definition closed_app :: app where
  "closed_app = (fresh_app sample_env)\<lparr>w_store := empty_store\<lparr>st_closed := True\<rparr>\<rparr>"

theorem run_raises_nothing_of_its_own_witness:
  "\<exists>e w. run_plan solo_runner solo_plan [] sample_session True idle_drain [] closed_app = (Inl e, w) \<and> run_error solo_runner idle_drain [] e"
proof -
  let ?x = "new_execution solo_plan [] sample_session True"
  have valid: "validate_run ?x = Inr ()"
    unfolding validate_run_runnable by (simp add: runnable_def solo_simps task_edges_def acyclic_def)
  have "\<exists>e s. run_loop solo_runner idle_drain [] (closed_app, ?x) = (Inl e, s)"
    by (simp add: loop_head_def interrupted_run_def drain_running_def mark_remaining_def apply_changes_def transition_plan_def idle_drain_def
        new_execution_def Let_def solo_simps assert_transition_def guardR_def can_transition_def closed_app_def transaction_def
        on_part_def clock_now_def bnd_def andthen_def reading_def modifying_def lifting_def unless_def ret_def)
  then obtain e w x where "run_loop solo_runner idle_drain [] (closed_app, ?x) = (Inl e, (w, x))" by auto
  then have run: "run_plan solo_runner solo_plan [] sample_session True idle_drain [] closed_app = (Inl e, w)"
    using valid by (simp add: run_plan_def andthen_def bnd_def lifting_def del: run_loop.simps)
  from run_raises_nothing_of_its_own [OF valid _ run] run show ?thesis by auto
qed

theorem accepted_plans_run_witness:
  "\<exists>im p ts. sample_reply [small_task ''a'' [], small_task ''b'' [''a'']] = Inr im
     \<and> plan_to_records small_payload (rn_exec solo_runner) im sample_session asked_conversation ''y'' 0 = Inr (p, ts)
     \<and> validate_run (new_execution p ts sample_session False) = Inr ()"
proof -
  let ?plan = "sample_plan [small_task ''a'' [], small_task ''b'' [''a'']]"
  obtain im where im: "sample_reply [small_task ''a'' [], small_task ''b'' [''a'']] = Inr im" using sample_accepted by blast
  have content: "im_content im = Plan_content ?plan"
    using im by (auto simp: sample_reply_def parse_inbound_def parse_content_def sample_defs message_type_sets dest!: validate_content_Inr)
  then obtain ty where "im_plan_type im = Some ty" using accepted_replyD [OF im [unfolded sample_reply_def]] by auto
  then obtain p ts where records: "plan_to_records small_payload (rn_exec solo_runner) im sample_session asked_conversation ''y'' 0 = Inr (p, ts)"
    using content by (auto simp: plan_to_records_def Let_def)
  from accepted_plans_run [OF im [unfolded sample_reply_def] content records, of False] show ?thesis using im records by blast
qed

end
