(* ===== verification/Tables.thy ===== *)
theory Tables
  imports Lifecycle
begin

text \<open>
  What an action does to the records when nothing fails underneath: the store takes writes, publishing
  succeeds and every record is filed under its own key (\<open>sane\<close>). \<open>achieves\<close> and \<open>settles\<close> say that an action
  returns and what the tables then are; the handlers that sweep the store are proved with them.
\<close>

section \<open>Interrupted records\<close>

text \<open>
  The records the recovery and the interruption handler write; \<open>interruption/handler.py\<close> and
  \<open>orchestration/recovery.py\<close> build them alike, each with its own reason.
\<close>

definition interrupted_task :: "string \<Rightarrow> time \<Rightarrow> task_record \<Rightarrow> task_record" where
  "interrupted_task reason now t =
     t\<lparr>t_status := Task_INTERRUPTED, t_reason := Some reason, t_ended_at := Some now, t_updated_at := now,
       t_duration_ms := (case t_started_at t of
           Some started \<Rightarrow> if t_status t = Task_RUNNING then Some (max 0 ((now - started) div 1000)) else t_duration_ms t
         | None \<Rightarrow> t_duration_ms t)\<rparr>"

definition counted_in :: "task_state set \<Rightarrow> task_record list \<Rightarrow> int" where
  "counted_in S tasks = int (length (filter (\<lambda>t. t_status t \<in> S) tasks))"

definition interrupted_plan :: "string \<Rightarrow> time \<Rightarrow> task_record list \<Rightarrow> plan_record \<Rightarrow> plan_record" where
  "interrupted_plan reason now tasks p =
     p\<lparr>p_status := Plan_INTERRUPTED, p_stop_reason := Some reason, p_ended_at := Some now, p_updated_at := now,
       p_task_count := int (length tasks), p_completed_task_count := counted_in {Task_COMPLETED} tasks,
       p_failed_task_count := counted_in FAILED_TASK_STATES tasks, p_skipped_task_count := counted_in {Task_SKIPPED} tasks,
       p_cancelled_task_count := counted_in {Task_CANCELLED} tasks, p_interrupted_task_count := counted_in {Task_INTERRUPTED} tasks\<rparr>"

definition interrupted_cycle :: "time \<Rightarrow> cycle_record \<Rightarrow> cycle_record" where
  "interrupted_cycle now cy = cy\<lparr>cy_status := Cycle_INTERRUPTED, cy_ended_at := Some now\<rparr>"

section \<open>The tables of a store\<close>

text \<open>The records as finite maps, and the messages of a conversation in their order.\<close>

record tables =
  tb_tasks :: "string \<times> string \<Rightarrow> task_record option"
  tb_plans :: "string \<times> string \<Rightarrow> plan_record option"
  tb_cycles :: "string \<Rightarrow> cycle_record option"
  tb_conversations :: "string \<Rightarrow> conversation_record option"
  tb_sessions :: "string \<Rightarrow> session_record option"
  tb_messages :: "string \<Rightarrow> message_record list"

definition tables_of :: "store \<Rightarrow> tables" where
  "tables_of st = \<lparr>tb_tasks = dict_get (st_tasks st), tb_plans = dict_get (st_plans st), tb_cycles = dict_get (st_cycles st),
     tb_conversations = dict_get (st_conversations st), tb_sessions = dict_get (st_sessions st),
     tb_messages = (\<lambda>cid. list_messages st cid None)\<rparr>"

abbreviation task_key :: "task_record \<Rightarrow> string \<times> string" where "task_key t \<equiv> (t_session_id t, t_task_id t)"
abbreviation plan_key :: "plan_record \<Rightarrow> string \<times> string" where "plan_key p \<equiv> (p_session_id p, p_plan_id p)"

definition filed :: "store \<Rightarrow> bool" where
  "filed st \<longleftrightarrow> keyed_by task_key (st_tasks st) \<and> keyed_by plan_key (st_plans st) \<and> keyed_by cy_cycle_id (st_cycles st)
     \<and> keyed_by c_conversation_id (st_conversations st) \<and> keyed_by s_session_id (st_sessions st)"

definition sane :: "app \<Rightarrow> bool" where
  "sane w \<longleftrightarrow> healthy w \<and> filed (w_store w)"

abbreviation world :: "app \<Rightarrow> tables" where "world w \<equiv> tables_of (w_store w)"

lemma tables_get:
  "get_task st s k = tb_tasks (tables_of st) (s, k)" "get_plan st s k = tb_plans (tables_of st) (s, k)"
  "get_cycle st i = tb_cycles (tables_of st) i" "get_conversation st i = tb_conversations (tables_of st) i"
  "get_session st i = tb_sessions (tables_of st) i"
  by (simp_all add: tables_of_def get_defs)

lemma keyed_by_values: "keyed_by key d \<Longrightarrow> r \<in> set (dict_values d) \<longleftrightarrow> dict_get d (key r) = Some r"
proof -
  assume d: "keyed_by key d"
  then have "\<forall>(k, v) \<in> set d. k = key v" unfolding keyed_by_def by (induction d) auto
  moreover have "distinct (dict_keys d)" using d by (simp add: keyed_by_def)
  ultimately show ?thesis by (force simp: map_of_eq_Some_iff)
qed

lemma keyed_by_get: "keyed_by key d \<Longrightarrow> dict_get d k = Some r \<Longrightarrow> key r = k"
  unfolding keyed_by_def by (induction d) (auto split: if_splits)

lemma filed_keys:
  assumes "filed st"
  shows "tb_tasks (tables_of st) k = Some t \<Longrightarrow> task_key t = k" "tb_plans (tables_of st) k = Some p \<Longrightarrow> plan_key p = k"
    "tb_cycles (tables_of st) i = Some cy \<Longrightarrow> cy_cycle_id cy = i"
    "tb_conversations (tables_of st) i = Some c \<Longrightarrow> c_conversation_id c = i"
    "tb_sessions (tables_of st) i = Some s \<Longrightarrow> s_session_id s = i"
proof -
  show "task_key t = k" if "tb_tasks (tables_of st) k = Some t"
    by (rule keyed_by_get [of task_key "st_tasks st"]) (use assms that in \<open>simp_all add: filed_def tables_of_def\<close>)
  show "plan_key p = k" if "tb_plans (tables_of st) k = Some p"
    by (rule keyed_by_get [of plan_key "st_plans st"]) (use assms that in \<open>simp_all add: filed_def tables_of_def\<close>)
qed (use assms in \<open>auto simp: filed_def tables_of_def dest: keyed_by_get\<close>)

text \<open>The listings hold the records the tables hold.\<close>

lemma set_listings:
  assumes "filed st"
  shows "t \<in> set (find_tasks_in_states st S) \<longleftrightarrow> tb_tasks (tables_of st) (task_key t) = Some t \<and> t_status t \<in> set S"
    "p \<in> set (find_plans_in_states st SP) \<longleftrightarrow> tb_plans (tables_of st) (plan_key p) = Some p \<and> p_status p \<in> set SP"
    "c \<in> set (find_conversations_in_states st SC)
       \<longleftrightarrow> tb_conversations (tables_of st) (c_conversation_id c) = Some c \<and> c_status c \<in> set SC"
    "t \<in> set (list_tasks st sid (Some pid) None)
       \<longleftrightarrow> tb_tasks (tables_of st) (task_key t) = Some t \<and> t_session_id t = sid \<and> t_plan_id t = pid"
    "c \<in> set (list_conversations st sid) \<longleftrightarrow> tb_conversations (tables_of st) (c_conversation_id c) = Some c \<and> c_session_id c = sid"
    "cy \<in> set (list_cycles st cid) \<longleftrightarrow> tb_cycles (tables_of st) (cy_cycle_id cy) = Some cy \<and> cy_conversation_id cy = cid"
  using assms keyed_by_values [of task_key "st_tasks st" t] keyed_by_values [of plan_key "st_plans st" p]
    keyed_by_values [of cy_cycle_id "st_cycles st" cy] keyed_by_values [of c_conversation_id "st_conversations st" c]
  by (auto simp: filed_def tables_of_def find_tasks_in_states_def find_plans_in_states_def find_conversations_in_states_def
      list_tasks_def list_conversations_def list_cycles_def by_order_def simp del: set_map)

lemma distinct_list_tasks: "filed st \<Longrightarrow> distinct (list_tasks st sid pid states)"
proof -
  assume "filed st"
  then have "distinct (map task_key (dict_values (st_tasks st)))" unfolding filed_def keyed_by_def by metis
  then have "distinct (dict_values (st_tasks st))" by (simp only: distinct_map)
  then show ?thesis by (simp add: list_tasks_def)
qed

lemma distinct_sorted_filter: "distinct (map key vs) \<Longrightarrow> distinct (map key (sort_key f (filter p vs)))"
proof -
  assume "distinct (map key vs)"
  then have "distinct (map key (filter p vs))" by (rule distinct_map_filter)
  then show ?thesis by (metis distinct_map_mset mset_map mset_sort)
qed

lemma distinct_find_plans: "filed st \<Longrightarrow> distinct (map plan_key (find_plans_in_states st S))"
  unfolding find_plans_in_states_def by_order_def filed_def keyed_by_def by (rule distinct_sorted_filter) metis

lemma distinct_find_conversations: "filed st \<Longrightarrow> distinct (map c_conversation_id (find_conversations_in_states st S))"
  unfolding find_conversations_in_states_def by_order_def filed_def keyed_by_def by (rule distinct_sorted_filter) metis

section \<open>Writing one record\<close>

lemma list_messages_touch:
  "\<not> starts_with ''message:'' key \<Longrightarrow> list_messages (touch key st) = list_messages st"
proof -
  assume "\<not> starts_with ''message:'' key"
  then have "order_of (touch key st) (message_order_key m) = order_of st (message_order_key m)" for m
    by (auto simp: order_of_touch message_order_key_def starts_with_def)
  then show ?thesis by (intro ext) (simp add: list_messages_def by_order_def)
qed

lemma list_messages_same: "st_messages st' = st_messages st \<Longrightarrow> st_order st' = st_order st \<Longrightarrow> list_messages st' = list_messages st"
  by (intro ext) (simp add: list_messages_def by_order_def order_of_def)

lemma list_messages_fields:
  "list_messages (st\<lparr>st_tasks := ts\<rparr>) = list_messages st" "list_messages (st\<lparr>st_plans := ps\<rparr>) = list_messages st"
  "list_messages (st\<lparr>st_cycles := cys\<rparr>) = list_messages st" "list_messages (st\<lparr>st_conversations := cs\<rparr>) = list_messages st"
  "list_messages (st\<lparr>st_sessions := ss\<rparr>) = list_messages st"
  by (rule list_messages_same; simp)+

lemma sane_write:
  assumes "sane w" and "\<not> starts_with ''message:'' key"
    and upd: "st_audit (upd (w_store w)) = st_audit (w_store w)" "st_closed (upd (w_store w)) = st_closed (w_store w)"
      "st_fail_next_write (upd (w_store w)) = st_fail_next_write (w_store w)"
      "st_messages (upd (w_store w)) = st_messages (w_store w)" "st_order (upd (w_store w)) = st_order (w_store w)"
    and "filed (upd (w_store w))"
  shows "\<exists>w'. on_store (write_record key upd) w = (Inr (), w') \<and> sane w' \<and> world w' = tables_of (upd (w_store w))
    \<and> w_env w' = w_env w \<and> w_clock_reads w' = w_clock_reads w"
proof -
  let ?st = "touch key (upd (w_store w))"
  have ok: "\<not> st_closed (w_store w)" "\<not> st_fail_next_write (w_store w)" using assms(1) by (simp_all add: sane_def healthy_def)
  then have "on_store (write_record key upd) w = (Inr (), w\<lparr>w_store := ?st\<rparr>)"
    using write_record_Inr [of key upd "w_store w" "()" ?st] by (simp add: on_part_def)
  moreover have "healthy (w\<lparr>w_store := ?st\<rparr>)"
    by (rule healthy_cong [of w]) (use assms(1) upd ok in \<open>simp_all add: sane_def\<close>)
  moreover have "filed ?st" using assms(8) by (simp add: filed_def)
  moreover have "tables_of ?st = tables_of (upd (w_store w))"
    using list_messages_touch [OF assms(2)] by (simp add: tables_of_def)
  ultimately show ?thesis by (auto simp: sane_def)
qed

lemma filed_sets:
  assumes "filed st"
  shows "filed (st\<lparr>st_tasks := dict_set (task_key t) t (st_tasks st)\<rparr>)"
    "filed (st\<lparr>st_plans := dict_set (plan_key p) p (st_plans st)\<rparr>)"
    "filed (st\<lparr>st_cycles := dict_set (cy_cycle_id cy) cy (st_cycles st)\<rparr>)"
    "filed (st\<lparr>st_conversations := dict_set (c_conversation_id c) c (st_conversations st)\<rparr>)"
    "filed (st\<lparr>st_sessions := dict_set (s_session_id s) s (st_sessions st)\<rparr>)"
  using assms keyed_by_set(1) [of task_key "st_tasks st" t] keyed_by_set(1) [of plan_key "st_plans st" p]
  by (simp_all add: filed_def keyed_by_set(1))

definition achieves :: "tables \<Rightarrow> 'a app_act \<Rightarrow> ('a \<Rightarrow> tables \<Rightarrow> bool) \<Rightarrow> bool" where
  "achieves T m Q \<longleftrightarrow> (\<forall>w. sane w \<longrightarrow> world w = T \<longrightarrow> (\<exists>v w'. m w = (Inr v, w') \<and> sane w' \<and> Q v (world w')))"

lemma achieves_I:
  "(\<And>w. sane w \<Longrightarrow> world w = T \<Longrightarrow> \<exists>v w'. m w = (Inr v, w') \<and> sane w' \<and> Q v (world w')) \<Longrightarrow> achieves T m Q"
  by (simp add: achieves_def)

lemma achieves_weaken: "achieves T m Q \<Longrightarrow> (\<And>v T'. Q v T' \<Longrightarrow> Q' v T') \<Longrightarrow> achieves T m Q'"
  unfolding achieves_def by fast

lemma achieves_bnd:
  assumes "achieves T m R" and "\<And>v T'. R v T' \<Longrightarrow> achieves T' (f v) Q"
  shows "achieves T (bnd m f) Q"
proof (rule achieves_I)
  fix w assume "sane w" and "world w = T"
  then obtain v w1 where "m w = (Inr v, w1)" "sane w1" "R v (world w1)" using assms(1) unfolding achieves_def by blast
  moreover from this obtain u w2 where "f v w1 = (Inr u, w2)" "sane w2" "Q u (world w2)"
    using assms(2) unfolding achieves_def by blast
  ultimately show "\<exists>v w'. bnd m f w = (Inr v, w') \<and> sane w' \<and> Q v (world w')" by (auto simp: bnd_run)
qed

lemma achieves_andthen: "achieves T m (\<lambda>_. R) \<Longrightarrow> (\<And>T'. R T' \<Longrightarrow> achieves T' n Q) \<Longrightarrow> achieves T (andthen m n) Q"
  unfolding andthen_def by (rule achieves_bnd)

lemma achieves_ret: "Q v T \<Longrightarrow> achieves T (ret v) Q"
  by (auto simp: achieves_def ret_def)

lemma achieves_lifting: "achieves T (k v) Q \<Longrightarrow> r = Inr v \<Longrightarrow> achieves T (bnd (lifting r) k) Q"
  by (auto simp: achieves_def bnd_run lifting_def)

lemma achieves_check: "achieves T n Q \<Longrightarrow> r = Inr () \<Longrightarrow> achieves T (andthen (lifting r) n) Q"
  unfolding andthen_def by (rule achieves_lifting)

lemma achieves_reading:
  "(\<And>w. sane w \<Longrightarrow> world w = T \<Longrightarrow> achieves T (k (f w)) Q) \<Longrightarrow> achieves T (bnd (reading f) k) Q"
  by (auto simp: achieves_def bnd_run reading_def)

lemma sane_healthy_cong: "sane w \<Longrightarrow> healthy w' \<Longrightarrow> store_data (w_store w') = store_data (w_store w) \<Longrightarrow> sane w' \<and> world w' = world w"
  using store_dataD [of "w_store w'" "w_store w"] list_messages_same [of "w_store w'" "w_store w"]
  by (simp add: sane_def filed_def tables_of_def)

lemma achieves_clock: "achieves T clock_now (\<lambda>_ T'. T' = T)"
proof (rule achieves_I)
  fix w assume w: "sane w" "world w = T"
  then have "healthy (w\<lparr>w_clock_reads := w_clock_reads w + 1\<rparr>)" by (simp add: sane_def healthy_clock)
  with w show "\<exists>v w'. clock_now w = (Inr v, w') \<and> sane w' \<and> world w' = T" by (simp add: clock_now_run sane_def)
qed

lemma achieves_publish: "achieves T (publish e) (\<lambda>_ T'. T' = T)"
proof (rule achieves_I)
  fix w assume w: "sane w" "world w = T"
  then obtain w' where "publish e w = (Inr (), w')" "healthy w'" using publish_healthy [of w e] by (auto simp: sane_def)
  then show "\<exists>v w'. publish e w = (Inr v, w') \<and> sane w' \<and> world w' = T"
    using w sane_healthy_cong [of w w'] publish_data by blast
qed

lemma achieves_write:
  assumes "\<And>st. filed st \<Longrightarrow> filed (upd st)" and "\<not> starts_with ''message:'' key"
    and "\<And>st. st_audit (upd st) = st_audit st \<and> st_closed (upd st) = st_closed st \<and> st_fail_next_write (upd st) = st_fail_next_write st
      \<and> st_messages (upd st) = st_messages st \<and> st_order (upd st) = st_order st"
    and "\<And>st. tables_of st = T \<Longrightarrow> tables_of (upd st) = T'"
  shows "achieves T (on_store (write_record key upd)) (\<lambda>_ X. X = T')"
proof (rule achieves_I)
  fix w assume w: "sane w" "world w = T"
  then show "\<exists>v w'. on_store (write_record key upd) w = (Inr v, w') \<and> sane w' \<and> world w' = T'"
    using sane_write [OF w(1) assms(2), of upd] assms(1,3,4) by (auto simp: sane_def)
qed

lemma tables_of_upd:
  "tables_of (st\<lparr>st_tasks := dict_set (task_key t) t (st_tasks st)\<rparr>) = (tables_of st)\<lparr>tb_tasks := (tb_tasks (tables_of st))(task_key t \<mapsto> t)\<rparr>"
  "tables_of (st\<lparr>st_plans := dict_set (plan_key p) p (st_plans st)\<rparr>) = (tables_of st)\<lparr>tb_plans := (tb_plans (tables_of st))(plan_key p \<mapsto> p)\<rparr>"
  "tables_of (st\<lparr>st_cycles := dict_set (cy_cycle_id cy) cy (st_cycles st)\<rparr>)
     = (tables_of st)\<lparr>tb_cycles := (tb_cycles (tables_of st))(cy_cycle_id cy \<mapsto> cy)\<rparr>"
  "tables_of (st\<lparr>st_conversations := dict_set (c_conversation_id c) c (st_conversations st)\<rparr>)
     = (tables_of st)\<lparr>tb_conversations := (tb_conversations (tables_of st))(c_conversation_id c \<mapsto> c)\<rparr>"
  "tables_of (st\<lparr>st_sessions := dict_set (s_session_id s) s (st_sessions st)\<rparr>)
     = (tables_of st)\<lparr>tb_sessions := (tb_sessions (tables_of st))(s_session_id s \<mapsto> s)\<rparr>"
  by (auto simp: tables_of_def fun_eq_iff list_messages_fields)

lemma achieves_saves:
  "achieves T (on_store (save_task t)) (\<lambda>_ X. X = T\<lparr>tb_tasks := (tb_tasks T)(task_key t \<mapsto> t)\<rparr>)"
  "achieves T (on_store (save_plan p)) (\<lambda>_ X. X = T\<lparr>tb_plans := (tb_plans T)(plan_key p \<mapsto> p)\<rparr>)"
  "achieves T (on_store (save_cycle cy)) (\<lambda>_ X. X = T\<lparr>tb_cycles := (tb_cycles T)(cy_cycle_id cy \<mapsto> cy)\<rparr>)"
  "achieves T (on_store (save_conversation c)) (\<lambda>_ X. X = T\<lparr>tb_conversations := (tb_conversations T)(c_conversation_id c \<mapsto> c)\<rparr>)"
  "achieves T (on_store (save_session s)) (\<lambda>_ X. X = T\<lparr>tb_sessions := (tb_sessions T)(s_session_id s \<mapsto> s)\<rparr>)"
  unfolding save_task_def save_plan_def save_cycle_def save_conversation_def save_session_def
  by (rule achieves_write;
      auto simp: filed_sets tables_of_upd starts_with_def task_order_key_def plan_order_key_def cycle_order_key_def
        conversation_order_key_def session_order_key_def)+

lemma achieves_transaction:
  assumes "achieves T (on_store m) Q"
  shows "achieves T (on_store (transaction m)) Q"
proof (rule achieves_I)
  fix w assume w: "sane w" "world w = T"
  then obtain v w' where run: "on_store m w = (Inr v, w')" "sane w'" "Q v (world w')" using assms unfolding achieves_def by blast
  then obtain st' where "m (w_store w) = (Inr v, st')" "w' = w\<lparr>w_store := st'\<rparr>" by (auto simp: on_part_def split: prod.splits)
  moreover have "\<not> st_closed (w_store w)" using w(1) by (simp add: sane_def healthy_def)
  ultimately have "on_store (transaction m) w = (Inr v, w')" by (simp add: on_part_def transaction_def)
  with run show "\<exists>v w'. on_store (transaction m) w = (Inr v, w') \<and> sane w' \<and> Q v (world w')" by blast
qed

section \<open>The transitions of the lifecycle\<close>

lemma achieves_require_session:
  assumes "tb_sessions T sid = Some s" and "s_session_id s = sid \<Longrightarrow> achieves T (k s) Q"
  shows "achieves T (bnd (require_session sid) k) Q"
proof (rule achieves_I)
  fix w assume w: "sane w" "world w = T"
  then have "s_session_id s = sid" using assms(1) filed_keys(5) [of "w_store w"] by (auto simp: sane_def)
  moreover have "require_session sid w = (Inr s, w)"
    using assms(1) w(2) by (simp add: require_session_def bnd_run reading_def tables_get ret_def)
  ultimately show "\<exists>v w'. bnd (require_session sid) k w = (Inr v, w') \<and> sane w' \<and> Q v (world w')"
    using assms(2) w by (simp add: achieves_def bnd_run)
qed

lemma achieves_require_conversation:
  assumes "tb_conversations T cid = Some c" and "c_conversation_id c = cid \<Longrightarrow> achieves T (k c) Q"
  shows "achieves T (bnd (require_conversation cid) k) Q"
proof (rule achieves_I)
  fix w assume w: "sane w" "world w = T"
  then have "c_conversation_id c = cid" using assms(1) filed_keys(4) [of "w_store w"] by (auto simp: sane_def)
  moreover have "require_conversation cid w = (Inr c, w)"
    using assms(1) w(2) by (simp add: require_conversation_def bnd_run reading_def tables_get ret_def)
  ultimately show "\<exists>v w'. bnd (require_conversation cid) k w = (Inr v, w') \<and> sane w' \<and> Q v (world w')"
    using assms(2) w by (simp add: achieves_def bnd_run)
qed

lemma achieves_then_publish:
  assumes "achieves T m (\<lambda>_ X. X = T')" and "Q v T'"
  shows "achieves T (andthen m (andthen (lifecycle_publish ty now sid cid payload) (ret v))) Q"
  unfolding lifecycle_publish_def
  by (rule achieves_andthen [OF assms(1)], rule achieves_andthen [OF achieves_publish], rule achieves_ret) (use assms(2) in simp)

text \<open>What a session keeps across a transition without updates.\<close>

definition moved_session :: "session_state \<Rightarrow> session_record \<Rightarrow> session_record \<Rightarrow> bool" where
  "moved_session to s s' \<longleftrightarrow> (\<exists>now a. apply_session (session_defaults s to now) s = Inr a
     \<and> s' = a\<lparr>s_status := to, s_updated_at := now\<rparr>)"

lemma moved_session_fields:
  assumes "moved_session to s s'"
  shows "s_status s' = to" "s_session_id s' = s_session_id s" "s_current_conversation_id s' = s_current_conversation_id s"
proof -
  obtain now a where a: "apply_session (session_defaults s to now) s = Inr a" "s' = a\<lparr>s_status := to, s_updated_at := now\<rparr>"
    using assms unfolding moved_session_def by blast
  then show "s_status s' = to" "s_session_id s' = s_session_id s" "s_current_conversation_id s' = s_current_conversation_id s"
    by (cases to; simp add: apply_session_defaults; fastforce)+
qed

lemma achieves_transition_session:
  assumes "tb_sessions T sid = Some s" and "can_transition SESSION_TRANSITIONS (s_status s) to"
    and "s_status s \<noteq> Session_COMPLETED \<or> to \<noteq> Session_RUNNING"
  shows "achieves T (transition_session sid to reason [])
    (\<lambda>s' X. moved_session to s s' \<and> X = T\<lparr>tb_sessions := (tb_sessions T)(sid \<mapsto> s')\<rparr>)"
  unfolding transition_session_def bnd_ret
proof (intro achieves_require_session [OF assms(1)] achieves_check achieves_reading achieves_bnd [OF achieves_clock])
  fix waits now T'
  assume id: "s_session_id s = sid" and T': "T' = T"
  obtain a where a: "apply_session (session_defaults s to now) s = Inr a" by (simp add: apply_session_defaults)
  let ?s = "a\<lparr>s_status := to, s_updated_at := now\<rparr>"
  have sid: "s_session_id ?s = sid" using apply_session_same [OF a] id by simp
  show "achieves T' (bnd (lifting (apply_session (session_defaults s to now @ []) s)) (\<lambda>applied.
      andthen (on_store (save_session (applied\<lparr>s_status := to, s_updated_at := now\<rparr>)))
       (andthen (lifecycle_publish SESSION_STATE_CHANGED now sid None
          (state_change_payload (Some (session_state_value (s_status s))) (session_state_value to) reason))
        (ret (applied\<lparr>s_status := to, s_updated_at := now\<rparr>)))))
    (\<lambda>s' X. moved_session to s s' \<and> X = T\<lparr>tb_sessions := (tb_sessions T)(sid \<mapsto> s')\<rparr>)"
    unfolding T'
    by (rule achieves_lifting [OF achieves_then_publish [OF achieves_saves(5)]]) (use a sid in \<open>auto simp: moved_session_def\<close>)
qed (use assms in \<open>auto simp: reject_managed_session_fields_def assert_transition_def\<close>)

lemma achieves_commit_conversation:
  assumes "c_conversation_id c = cid" and "\<And>now. apply_conversation
      ((if to = Conv_INTERRUPTED then [Set_conversation_interrupted_at (Some now)] else []) @ us) c = Inr (a now)"
  shows "achieves T (commit_conversation_transition c to reason us)
    (\<lambda>c' X. (\<exists>now. c' = (a now)\<lparr>c_status := to, c_updated_at := now\<rparr>)
       \<and> X = T\<lparr>tb_conversations := (tb_conversations T)(cid \<mapsto> c')\<rparr>)"
  unfolding commit_conversation_transition_def bnd_ret
proof (rule achieves_bnd [OF achieves_clock])
  fix now T' assume T': "T' = T"
  let ?c = "(a now)\<lparr>c_status := to, c_updated_at := now\<rparr>"
  have cid: "c_conversation_id ?c = cid" using apply_conversation_same [OF assms(2)] assms(1) by simp
  show "achieves T' (bnd (lifting (apply_conversation
      ((if to = Conv_INTERRUPTED then [Set_conversation_interrupted_at (Some now)] else []) @ us) c)) (\<lambda>applied.
      andthen (on_store (save_conversation (applied\<lparr>c_status := to, c_updated_at := now\<rparr>)))
       (andthen (lifecycle_publish CONVERSATION_STATE_CHANGED now (c_session_id (applied\<lparr>c_status := to, c_updated_at := now\<rparr>))
          (Some (c_conversation_id (applied\<lparr>c_status := to, c_updated_at := now\<rparr>)))
          (state_change_payload (Some (conversation_state_value (c_status c))) (conversation_state_value to) reason))
        (ret (applied\<lparr>c_status := to, c_updated_at := now\<rparr>)))))
    (\<lambda>c' X. (\<exists>now. c' = (a now)\<lparr>c_status := to, c_updated_at := now\<rparr>)
       \<and> X = T\<lparr>tb_conversations := (tb_conversations T)(cid \<mapsto> c')\<rparr>)"
    unfolding T'
    by (rule achieves_lifting [OF achieves_then_publish [OF achieves_saves(4)]]) (use assms(2) cid in auto)
qed

definition interrupted_conversation :: "time \<Rightarrow> conversation_record \<Rightarrow> conversation_record" where
  "interrupted_conversation now c = c\<lparr>c_interrupted_at := Some now, c_status := Conv_INTERRUPTED, c_updated_at := now\<rparr>"

lemma achieves_interrupt_conversation:
  assumes "tb_conversations T cid = Some c" and "c_status c \<in> ACTIVE_CONVERSATION_STATES"
  shows "achieves T (interrupt_conversation cid reason)
    (\<lambda>c' X. (\<exists>now. c' = interrupted_conversation now c) \<and> X = T\<lparr>tb_conversations := (tb_conversations T)(cid \<mapsto> c')\<rparr>)"
  unfolding interrupt_conversation_def
proof (intro achieves_require_conversation [OF assms(1)] achieves_check)
  assume id: "c_conversation_id c = cid"
  show "achieves T (commit_conversation_transition c Conv_INTERRUPTED (Some reason) [])
    (\<lambda>c' X. (\<exists>now. c' = interrupted_conversation now c) \<and> X = T\<lparr>tb_conversations := (tb_conversations T)(cid \<mapsto> c')\<rparr>)"
    by (rule achieves_weaken [OF achieves_commit_conversation [OF id, of _ _ "\<lambda>now. c\<lparr>c_interrupted_at := Some now\<rparr>"]])
      (auto simp: apply_conversation_def interrupted_conversation_def)
qed (use assms in \<open>auto simp: table_simps assert_transition_def guardR_def\<close>)

lemma achieves_transition_conversation:
  assumes "tb_conversations T cid = Some c" and "can_transition CONVERSATION_TRANSITIONS (c_status c) to"
    and "to \<noteq> Conv_INTERRUPTED" and "apply_conversation us c = Inr a" and "reject_managed_conversation_fields us = Inr ()"
  shows "achieves T (transition_conversation cid to reason us)
    (\<lambda>c' X. (\<exists>now. c' = a\<lparr>c_status := to, c_updated_at := now\<rparr>) \<and> X = T\<lparr>tb_conversations := (tb_conversations T)(cid \<mapsto> c')\<rparr>)"
  unfolding transition_conversation_def
proof (intro achieves_require_conversation [OF assms(1)] achieves_check)
  assume id: "c_conversation_id c = cid"
  show "achieves T (commit_conversation_transition c to reason us)
    (\<lambda>c' X. (\<exists>now. c' = a\<lparr>c_status := to, c_updated_at := now\<rparr>) \<and> X = T\<lparr>tb_conversations := (tb_conversations T)(cid \<mapsto> c')\<rparr>)"
    by (rule achieves_commit_conversation [OF id]) (use assms(3,4) in simp)
qed (use assms in \<open>auto simp: assert_transition_def\<close>)

section \<open>Actions on the application and a report\<close>

definition settles :: "(tables \<Rightarrow> 'r \<Rightarrow> bool) \<Rightarrow> (app \<times> 'r, exn, 'a) act \<Rightarrow> ('a \<Rightarrow> tables \<Rightarrow> 'r \<Rightarrow> bool) \<Rightarrow> bool" where
  "settles P m Q \<longleftrightarrow> (\<forall>w r. sane w \<longrightarrow> P (world w) r \<longrightarrow>
     (\<exists>v w' r'. m (w, r) = (Inr v, (w', r')) \<and> sane w' \<and> Q v (world w') r'))"

lemma settles_I:
  "(\<And>w r. sane w \<Longrightarrow> P (world w) r \<Longrightarrow> \<exists>v w' r'. m (w, r) = (Inr v, (w', r')) \<and> sane w' \<and> Q v (world w') r') \<Longrightarrow> settles P m Q"
  by (simp add: settles_def)

lemma settlesD:
  "settles P m Q \<Longrightarrow> sane w \<Longrightarrow> P (world w) r \<Longrightarrow> \<exists>v w' r'. m (w, r) = (Inr v, (w', r')) \<and> sane w' \<and> Q v (world w') r'"
  by (simp add: settles_def)

lemma settles_weaken:
  assumes "settles P' m Q'" and "\<And>T r. P T r \<Longrightarrow> P' T r" and "\<And>v T r. Q' v T r \<Longrightarrow> Q v T r"
  shows "settles P m Q"
proof (rule settles_I)
  fix w r assume "sane w" and "P (world w) r"
  then show "\<exists>v w' r'. m (w, r) = (Inr v, (w', r')) \<and> sane w' \<and> Q v (world w') r'"
    using settlesD [OF assms(1), of w r] assms(2,3) by blast
qed

lemma settles_from: "(\<And>T r. P T r \<Longrightarrow> settles (\<lambda>X y. X = T \<and> y = r) m Q) \<Longrightarrow> settles P m Q"
  by (simp add: settles_def)

lemma settles_bnd:
  assumes "settles P m R" and "\<And>v. settles (R v) (f v) Q"
  shows "settles P (bnd m f) Q"
proof (rule settles_I)
  fix w r assume "sane w" and "P (world w) r"
  then obtain v w1 r1 where m: "m (w, r) = (Inr v, (w1, r1))" "sane w1" "R v (world w1) r1" using settlesD [OF assms(1)] by blast
  then show "\<exists>v w' r'. bnd m f (w, r) = (Inr v, (w', r')) \<and> sane w' \<and> Q v (world w') r'"
    using settlesD [OF assms(2) m(2,3)] by (simp add: bnd_run)
qed

lemma settles_andthen: "settles P m (\<lambda>_. R) \<Longrightarrow> settles R n Q \<Longrightarrow> settles P (andthen m n) Q"
  unfolding andthen_def by (rule settles_bnd)

lemma settles_ret: "(\<And>T r. P T r \<Longrightarrow> Q v T r) \<Longrightarrow> settles P (ret v) Q"
  by (auto simp: settles_def ret_def)

lemma settles_check: "settles P n Q \<Longrightarrow> a = Inr () \<Longrightarrow> settles P (andthen (lifting a) n) Q"
  by (auto simp: settles_def andthen_run lifting_def)

lemma settles_modifying: "(\<And>T r. P T r \<Longrightarrow> Q () T (f r)) \<Longrightarrow> settles P (modifying (\<lambda>s. (fst s, f (snd s)))) Q"
  by (auto simp: settles_def modifying_def)

lemma settles_reading:
  assumes "\<And>w r. sane w \<Longrightarrow> P (world w) r \<Longrightarrow> R (f (w, r)) (world w) r"
  shows "settles P (reading f) R"
  using assms by (auto simp: settles_def reading_def)

text \<open>A value that is read is the value at the state it is read in.\<close>

lemma settles_read:
  assumes "\<And>w r. sane w \<Longrightarrow> P (world w) r \<Longrightarrow> settles (\<lambda>X y. X = world w \<and> y = r) (k (f (w, r))) Q"
  shows "settles P (bnd (reading f) k) Q"
proof (rule settles_I)
  fix w r assume w: "sane w" "P (world w) r"
  then show "\<exists>v w' r'. bnd (reading f) k (w, r) = (Inr v, (w', r')) \<and> sane w' \<and> Q v (world w') r'"
    using settlesD [OF assms [OF w] w(1)] by (simp add: bnd_run reading_def)
qed

lemma settles_in_app:
  assumes "\<And>T r. P T r \<Longrightarrow> achieves T m (\<lambda>v X. Q v X r)"
  shows "settles P (on_part fst (\<lambda>w s. (w, snd s)) m) Q"
proof (rule settles_I)
  fix w r assume w: "sane w" "P (world w) r"
  then obtain v w' where "m w = (Inr v, w')" "sane w'" "Q v (world w') r" using assms unfolding achieves_def by blast
  then show "\<exists>v w' r'. on_part fst (\<lambda>w s. (w, snd s)) m (w, r) = (Inr v, (w', r')) \<and> sane w' \<and> Q v (world w') r'"
    by (simp add: on_part_def)
qed

lemma settles_for_each:
  assumes "\<And>seen y rest. ys = seen @ y # rest \<Longrightarrow> settles (I seen) (f y) (\<lambda>_. I (seen @ [y]))"
  shows "settles (I []) (for_each ys f) (\<lambda>_. I ys)"
proof -
  have "settles (I seen) (for_each rest f) (\<lambda>_. I ys)" if "ys = seen @ rest" for seen rest
    using that
  proof (induction rest arbitrary: seen)
    case (Cons y rest)
    have "settles (I seen) (f y) (\<lambda>_. I (seen @ [y]))" using assms Cons.prems by blast
    moreover have "settles (I (seen @ [y])) (for_each rest f) (\<lambda>_. I ys)" by (rule Cons.IH) (simp add: Cons.prems)
    ultimately show ?case by (auto intro: settles_andthen)
  qed (simp add: settles_ret)
  from this [of "[]" ys] show ?thesis by simp
qed

text \<open>\<open>M'\<close> is \<open>M\<close> with the records under the keys \<open>K\<close> replaced, each by a step from its old value.\<close>

definition stepped :: "('r \<Rightarrow> 'r \<Rightarrow> bool) \<Rightarrow> 'k set \<Rightarrow> ('k \<Rightarrow> 'r option) \<Rightarrow> ('k \<Rightarrow> 'r option) \<Rightarrow> bool" where
  "stepped st K M M' \<longleftrightarrow> (\<forall>k. if k \<in> K then \<exists>r r'. M k = Some r \<and> M' k = Some r' \<and> st r r' else M' k = M k)"

lemma stepped_refl: "stepped st {} M M"
  by (simp add: stepped_def)

lemma stepped_upd: "stepped st K M M' \<Longrightarrow> M k = Some r \<Longrightarrow> st r r' \<Longrightarrow> stepped st (insert k K) M (M'(k \<mapsto> r'))"
  unfolding stepped_def by (auto split: if_splits)

lemma steppedD:
  "stepped st K M M' \<Longrightarrow> k \<notin> K \<Longrightarrow> M' k = M k"
  "stepped st K M M' \<Longrightarrow> k \<in> K \<Longrightarrow> M k = Some r \<Longrightarrow> \<exists>r'. M' k = Some r' \<and> st r r'"
  "stepped st K M M' \<Longrightarrow> k \<in> K \<Longrightarrow> \<exists>r. M k = Some r"
  unfolding stepped_def by (metis option.inject)+

lemma stepped_none: "stepped st {} M M' \<Longrightarrow> M' = M"
  by (simp add: stepped_def fun_eq_iff)

text \<open>A record that no step can have produced is still the old one.\<close>

lemma stepped_kept:
  assumes "stepped st K M M'" and "M' k = Some r" and "\<And>a. \<not> st a r"
  shows "k \<notin> K \<and> M k = Some r"
proof -
  have "k \<notin> K"
  proof
    assume k: "k \<in> K"
    obtain a where "M k = Some a" using steppedD(3) [OF assms(1) k] by blast
    then show False using steppedD(2) [OF assms(1) k] assms(2,3) by fastforce
  qed
  then show ?thesis using steppedD(1) [OF assms(1)] assms(2) by simp
qed

section \<open>One table of the five\<close>

text \<open>
  \<open>after get upd st K T X\<close>: \<open>X\<close> is \<open>T\<close> but for one table, in which the records under \<open>K\<close> took the step \<open>st\<close>. The
  locale is what a field of the record \<open>tables\<close> offers; each of the five is interpreted.
\<close>

definition after ::
  "(tables \<Rightarrow> 'k \<Rightarrow> 'r option) \<Rightarrow> ((('k \<Rightarrow> 'r option) \<Rightarrow> 'k \<Rightarrow> 'r option) \<Rightarrow> tables \<Rightarrow> tables) \<Rightarrow> ('r \<Rightarrow> 'r \<Rightarrow> bool) \<Rightarrow> 'k set
    \<Rightarrow> tables \<Rightarrow> tables \<Rightarrow> bool" where
  "after get upd st K T X \<longleftrightarrow> (\<exists>M. X = upd (\<lambda>_. M) T \<and> stepped st K (get T) M)"

locale table_field =
  fixes get :: "tables \<Rightarrow> 'k \<Rightarrow> 'r option"
    and upd :: "(('k \<Rightarrow> 'r option) \<Rightarrow> 'k \<Rightarrow> 'r option) \<Rightarrow> tables \<Rightarrow> tables"
  assumes get_upd: "get (upd f T) = f (get T)"
    and upd_upd: "upd (\<lambda>_. M) (upd g T) = upd (\<lambda>_. M) T"
    and upd_same: "upd (\<lambda>_. get T) T = T"
begin

lemma after_same: "after get upd st {} T T"
  unfolding after_def by (rule exI [of _ "get T"]) (simp add: upd_same stepped_refl)

lemma after_step:
  assumes "after get upd st K T X" and "get T k = Some r" and "st r r'"
  shows "after get upd st (insert k K) T (upd (\<lambda>_. (get X)(k \<mapsto> r')) X)"
  using assms stepped_upd unfolding after_def by (fastforce simp: get_upd upd_upd)

lemma after_stepped: "after get upd st K T X \<Longrightarrow> stepped st K (get T) (get X)"
  by (auto simp: after_def get_upd)

lemma after_unchanged: "after get upd st K T X \<Longrightarrow> k \<notin> K \<Longrightarrow> get X k = get T k"
  using steppedD(1) [OF after_stepped] .

lemma after_known:
  assumes "after get upd st K T X" and "get X k = Some r" and "\<And>a. \<not> st a r"
  shows "k \<notin> K" "get T k = Some r"
  using stepped_kept [OF after_stepped [OF assms(1)] assms(2)] assms(3) by simp_all

end

interpretation task_table: table_field tb_tasks tb_tasks_update by unfold_locales simp_all
interpretation plan_table: table_field tb_plans tb_plans_update by unfold_locales simp_all
interpretation cycle_table: table_field tb_cycles tb_cycles_update by unfold_locales simp_all
interpretation conversation_records: table_field tb_conversations tb_conversations_update by unfold_locales simp_all
interpretation session_records: table_field tb_sessions tb_sessions_update by unfold_locales simp_all

end
