(* ===== verification/Recovery.thy ===== *)
theory Recovery
  imports Tables
begin

text \<open>
  \<open>orchestration/recovery.py\<close>: the restart policy. The coordinator reads the store a crash left behind and
  settles every task, plan, cycle, conversation and session that was under way. A step acts on the application
  and on the report of the call (\<open>_Run\<close>). \<open>terminate_orphan\<close> of the platform adapter, which acts on
  processes of the operating system, is an argument: its answer for a pid, a process group and a start time.
\<close>

section \<open>State and records\<close>

definition RESTART_REASON :: string where "RESTART_REASON = ''restart''"
definition RESUMABLE_REASON :: string where "RESUMABLE_REASON = ''resumable''"
definition ORPHAN_TERMINATED_REASON :: string where "ORPHAN_TERMINATED_REASON = ''orphan_terminated''"
definition NO_SESSION :: string where "NO_SESSION = ''*''"

definition OPEN_PLAN_STATES :: "plan_state list" where "OPEN_PLAN_STATES = [Plan_PENDING, Plan_RUNNING]"
definition OPEN_TASK_STATES :: "task_state list" where "OPEN_TASK_STATES = [Task_PENDING, Task_WAITING_DEPENDENCY]"
definition OPEN_SESSION_STATES :: "session_state list" where
  "OPEN_SESSION_STATES = [Session_RUNNING, Session_INTERRUPTING]"
definition UNDER_WAY_STATES :: "conversation_state list" where
  "UNDER_WAY_STATES = [Conv_ACTIVE, Conv_WAITING_MODEL_RESPONSE, Conv_RUNNING_PLAN, Conv_ROTATING]"
definition RESUMABLE_MESSAGE_TYPES :: "message_type list" where
  "RESUMABLE_MESSAGE_TYPES = [USER_REQUEST, EXECUTION_RESULT]"
definition FINISHED_CONVERSATION_STATES :: "conversation_state list" where
  "FINISHED_CONVERSATION_STATES = [Conv_COMPLETED, Conv_WAITING_USER, Conv_CLOSED]"

lemmas recovery_sets = OPEN_PLAN_STATES_def OPEN_TASK_STATES_def OPEN_SESSION_STATES_def UNDER_WAY_STATES_def
  RESUMABLE_MESSAGE_TYPES_def FINISHED_CONVERSATION_STATES_def

record recovery_action =
  ra_entity :: string
  ra_id :: string
  ra_from_state :: string
  ra_to_state :: string
  ra_reason :: string
  ra_session_id :: string
  ra_details :: details

record recovery_report =
  rr_actions :: "recovery_action list"
  rr_orphans_terminated :: "int list"
  rr_sessions_ready :: "string list"
  rr_sessions_resumable :: "string list"
  rr_started_at :: time
  rr_ended_at :: time
  rr_sessions_failed :: "string list"
  rr_sessions_completed :: "string list"

definition report_elapsed_ms :: "recovery_report \<Rightarrow> int" where
  "report_elapsed_ms r = max 0 ((rr_ended_at r - rr_started_at r) div 1000)"

definition report_summary :: "recovery_report \<Rightarrow> details" where
  "report_summary r =
     [(''actions'', JInt (int (length (rr_actions r)))),
      (''orphans_terminated'', JArr (map JInt (rr_orphans_terminated r))),
      (''sessions_ready'', JArr (map JStr (rr_sessions_ready r))),
      (''sessions_resumable'', JArr (map JStr (rr_sessions_resumable r))),
      (''sessions_failed'', JArr (map JStr (rr_sessions_failed r))),
      (''sessions_completed'', JArr (map JStr (rr_sessions_completed r))),
      (''elapsed_ms'', JInt (report_elapsed_ms r))]"

record recovery_findings =
  fi_running_tasks :: nat
  fi_open_plans :: nat
  fi_running_cycles :: nat
  fi_active_conversations :: nat
  fi_open_sessions :: nat

definition no_findings :: recovery_findings where
  "no_findings = \<lparr>fi_running_tasks = 0, fi_open_plans = 0, fi_running_cycles = 0, fi_active_conversations = 0, fi_open_sessions = 0\<rparr>"

definition findings_payload :: "recovery_findings \<Rightarrow> (string \<times> nat) list" where
  "findings_payload f =
     [(''running_tasks'', fi_running_tasks f), (''open_plans'', fi_open_plans f), (''running_cycles'', fi_running_cycles f),
      (''active_conversations'', fi_active_conversations f), (''open_sessions'', fi_open_sessions f)]"

definition findings_empty :: "recovery_findings \<Rightarrow> bool" where
  "findings_empty f \<longleftrightarrow> \<not> list_ex (\<lambda>kv. snd kv \<noteq> 0) (findings_payload f)"

record recovery_run =
  ru_started_at :: time
  ru_actions :: "recovery_action list"
  ru_orphans :: "int list"
  ru_ready :: "string list"
  ru_resumable :: "string list"
  ru_failed :: "string list"
  ru_completed :: "string list"
  ru_resumable_conversations :: "string list"

type_synonym 'a recovery_act = "(app \<times> recovery_run, exn, 'a) act"
type_synonym terminate_orphan = "int \<Rightarrow> int option \<Rightarrow> time \<Rightarrow> bool"

abbreviation in_app :: "'a app_act \<Rightarrow> 'a recovery_act" where
  "in_app \<equiv> on_part fst (\<lambda>w s. (w, snd s))"

abbreviation from_store :: "(store \<Rightarrow> 'a) \<Rightarrow> 'a recovery_act" where
  "from_store f \<equiv> reading (\<lambda>s. f (w_store (fst s)))"

abbreviation run_get :: "(recovery_run \<Rightarrow> 'a) \<Rightarrow> 'a recovery_act" where
  "run_get f \<equiv> reading (\<lambda>s. f (snd s))"

abbreviation run_set :: "(recovery_run \<Rightarrow> recovery_run) \<Rightarrow> unit recovery_act" where
  "run_set f \<equiv> modifying (\<lambda>s. (fst s, f (snd s)))"

section \<open>Bookkeeping\<close>

definition recovery_publish ::
  "event_type \<Rightarrow> string \<Rightarrow> details \<Rightarrow> string option \<Rightarrow> string option \<Rightarrow> string option \<Rightarrow> string option \<Rightarrow> time option \<Rightarrow> unit recovery_act" where
  "recovery_publish ty sid payload conversation cycle plan task timestamp =
     bnd (case timestamp of Some t \<Rightarrow> ret t | None \<Rightarrow> in_app clock_now) (\<lambda>now.
     in_app (publish \<lparr>ev_event_type = ty, ev_timestamp = now, ev_session_id = sid, ev_conversation_id = conversation,
       ev_cycle_id = cycle, ev_plan_id = plan, ev_task_id = task, ev_payload = payload\<rparr>))"

definition recovery_record ::
  "recovery_action \<Rightarrow> string option \<Rightarrow> string option \<Rightarrow> string option \<Rightarrow> string option \<Rightarrow> unit recovery_act" where
  "recovery_record action conversation cycle plan task =
     andthen (run_set (\<lambda>r. r\<lparr>ru_actions := ru_actions r @ [action]\<rparr>))
     (recovery_publish RECOVERY_ACTION (ra_session_id action)
        ([(''entity'', JStr (ra_entity action)), (''entity_id'', JStr (ra_id action)), (''id'', JStr (ra_id action)),
          (''from'', JStr (ra_from_state action)), (''to'', JStr (ra_to_state action)), (''reason'', JStr (ra_reason action))]
         @ (if ra_details action \<noteq> [] then [(''details'', JObj (ra_details action))] else []))
        conversation cycle plan task None)"

definition restart_action :: "string \<Rightarrow> string \<Rightarrow> string \<Rightarrow> string \<Rightarrow> string \<Rightarrow> recovery_action" where
  "restart_action entity eid from to sid =
     \<lparr>ra_entity = entity, ra_id = eid, ra_from_state = from, ra_to_state = to, ra_reason = RESTART_REASON,
      ra_session_id = sid, ra_details = []\<rparr>"

section \<open>Findings\<close>

text \<open>The pages of \<open>_open_sessions\<close>: the loop ends on the first page that is not full.\<close>

definition PAGE :: nat where "PAGE = 500"

definition session_page :: "store \<Rightarrow> nat \<Rightarrow> session_record list" where
  "session_page st offset = list_sessions st (Some OPEN_SESSION_STATES) (int PAGE) (int offset)"

lemma session_page_slice:
  "session_page st offset = take PAGE (drop offset (sort_desc (\<lambda>s. (s_created_at s, s_session_id s))
     (filter (\<lambda>s. s_status s \<in> set OPEN_SESSION_STATES) (dict_values (st_sessions st)))))"
  by (simp add: session_page_def list_sessions_def py_slice_range)

function open_sessions_from :: "store \<Rightarrow> nat \<Rightarrow> session_record list" where
  "open_sessions_from st offset =
     (let batch = session_page st offset
      in if length batch < PAGE then batch else batch @ open_sessions_from st (offset + PAGE))"
  by pat_completeness auto
termination
proof (relation "measure (\<lambda>(st, offset). length (dict_values (st_sessions st)) - offset)")
  fix st :: store and offset batch
  assume "batch = session_page st offset" and "\<not> length batch < PAGE"
  then have "PAGE \<le> length (filter (\<lambda>s. s_status s \<in> set OPEN_SESSION_STATES) (dict_values (st_sessions st))) - offset"
    by (simp add: session_page_slice sort_desc_def)
  then have "PAGE \<le> length (dict_values (st_sessions st)) - offset"
    by (rule order_trans) (intro diff_le_mono length_filter_le)
  then show "((st, offset + PAGE), (st, offset)) \<in> measure (\<lambda>(st, offset). length (dict_values (st_sessions st)) - offset)"
    by (simp add: PAGE_def del: length_map)
qed simp

definition open_sessions :: "store \<Rightarrow> session_record list" where
  "open_sessions st = open_sessions_from st 0"

definition count_finding ::
  "(recovery_findings \<Rightarrow> recovery_findings) \<Rightarrow> string \<Rightarrow> (string, recovery_findings) dict \<Rightarrow> (string, recovery_findings) dict" where
  "count_finding bump sid d =
     dict_set sid (bump (case dict_get d sid of None \<Rightarrow> no_findings | Some f \<Rightarrow> f)) d"

definition collect_findings :: "store \<Rightarrow> (string, recovery_findings) dict" where
  "collect_findings st =
     (let d1 = foldl (\<lambda>d t. count_finding (\<lambda>f. f\<lparr>fi_running_tasks := fi_running_tasks f + 1\<rparr>) (t_session_id t) d) []
                 (find_tasks_in_states st [Task_RUNNING]);
          d2 = foldl (\<lambda>d p. count_finding (\<lambda>f. f\<lparr>fi_open_plans := fi_open_plans f + 1\<rparr>) (p_session_id p) d) d1
                 (find_plans_in_states st OPEN_PLAN_STATES);
          d3 = foldl (\<lambda>d c. count_finding (\<lambda>f. f\<lparr>fi_active_conversations := fi_active_conversations f + 1\<rparr>) (c_session_id c) d) d2
                 (find_conversations_in_states st UNDER_WAY_STATES);
          d4 = foldl (\<lambda>d s. foldl (\<lambda>d c. foldl (\<lambda>d cy. if cy_status cy = Cycle_RUNNING
                        then count_finding (\<lambda>f. f\<lparr>fi_running_cycles := fi_running_cycles f + 1\<rparr>) (s_session_id s) d else d)
                      d (list_cycles st (c_conversation_id c)))
                    (count_finding (\<lambda>f. f\<lparr>fi_open_sessions := fi_open_sessions f + 1\<rparr>) (s_session_id s) d)
                    (list_conversations st (s_session_id s))) d3
                 (open_sessions st)
      in filter (\<lambda>(sid, f). \<not> findings_empty f) d4)"

section \<open>Tasks and plans\<close>

definition interrupt_task :: "task_record \<Rightarrow> plan_record option \<Rightarrow> unit recovery_act" where
  "interrupt_task t plan =
     andthen (lifting (assert_transition TASK_TRANSITIONS task_state_value (t_status t) Task_INTERRUPTED ''task''))
    (bnd (in_app clock_now) (\<lambda>now.
     bnd (ret (interrupted_task RESTART_REASON now t)) (\<lambda>after.
     andthen (in_app (on_store (transaction (save_task after))))
    (andthen (recovery_publish TASK_STATE_CHANGED (t_session_id t)
        (state_change_payload (Some (task_state_value (t_status t))) (task_state_value (t_status after)) (Some RESTART_REASON)
         @ (if t_status t = Task_RUNNING
            then [(''exit_code'', jint_opt (t_exit_code after)), (''duration_ms'', jint_opt (t_duration_ms after)),
                  (''timed_out'', JBool (t_timed_out after)), (''truncated'', JBool (t_truncated after))]
            else []))
        (Some (t_conversation_id t)) (map_option p_cycle_id plan) (Some (t_plan_id t)) (Some (t_task_id t)) (Some now))
     (recovery_record (restart_action ''task'' (t_task_id t) (task_state_value (t_status t)) (task_state_value (t_status after)) (t_session_id t))
        (Some (t_conversation_id t)) (map_option p_cycle_id plan) (Some (t_plan_id t)) (Some (t_task_id t)))))))"

definition terminate_task_orphan :: "terminate_orphan option \<Rightarrow> task_record \<Rightarrow> plan_record option \<Rightarrow> unit recovery_act" where
  "terminate_task_orphan platform t plan =
     (case (platform, t_pid t, t_started_at t) of
        (Some terminate, Some pid, Some started) \<Rightarrow>
          whenever (terminate pid (t_process_group_id t) started)
           (andthen (run_set (\<lambda>r. r\<lparr>ru_orphans := ru_orphans r @ [pid]\<rparr>))
            (recovery_record
              \<lparr>ra_entity = ''task'', ra_id = t_task_id t, ra_from_state = task_state_value (t_status t),
               ra_to_state = task_state_value (t_status t), ra_reason = ORPHAN_TERMINATED_REASON, ra_session_id = t_session_id t,
               ra_details = [(''pid'', JInt pid), (''process_group_id'', jint_opt (t_process_group_id t))]\<rparr>
              (Some (t_conversation_id t)) (map_option p_cycle_id plan) (Some (t_plan_id t)) (Some (t_task_id t))))
      | _ \<Rightarrow> ret ())"

definition interrupt_running_tasks :: "terminate_orphan option \<Rightarrow> unit recovery_act" where
  "interrupt_running_tasks platform =
     bnd (from_store (\<lambda>st. find_tasks_in_states st [Task_RUNNING])) (\<lambda>tasks.
     for_each tasks (\<lambda>t.
       bnd (from_store (\<lambda>st. get_plan st (t_session_id t) (t_plan_id t))) (\<lambda>plan.
       andthen (terminate_task_orphan platform t plan) (interrupt_task t plan))))"

definition interrupt_plan :: "plan_record \<Rightarrow> unit recovery_act" where
  "interrupt_plan plan =
     bnd (from_store (\<lambda>st. case get_plan st (p_session_id plan) (p_plan_id plan) of Some p \<Rightarrow> p | None \<Rightarrow> plan)) (\<lambda>current.
     andthen (lifting (assert_transition PLAN_TRANSITIONS plan_state_value (p_status current) Plan_INTERRUPTED ''plan''))
    (bnd (in_app clock_now) (\<lambda>now.
     bnd (from_store (\<lambda>st. list_tasks st (p_session_id current) (Some (p_plan_id current)) None)) (\<lambda>tasks.
     bnd (ret (interrupted_plan RESTART_REASON now tasks current)) (\<lambda>after.
     andthen (in_app (on_store (transaction (save_plan after))))
    (andthen (recovery_publish PLAN_STATE_CHANGED (p_session_id current)
        (state_change_payload (Some (plan_state_value (p_status current))) (plan_state_value (p_status after)) (Some RESTART_REASON)
         @ [(''stop_reason'', JStr RESTART_REASON)])
        (Some (p_conversation_id current)) (Some (p_cycle_id current)) (Some (p_plan_id current)) None (Some now))
     (recovery_record (restart_action ''plan'' (p_plan_id current) (plan_state_value (p_status current)) (plan_state_value (p_status after)) (p_session_id current))
        (Some (p_conversation_id current)) (Some (p_cycle_id current)) (Some (p_plan_id current)) None)))))))"

definition interrupt_pending_tasks_and_plans :: "unit recovery_act" where
  "interrupt_pending_tasks_and_plans =
     bnd (from_store (\<lambda>st. find_plans_in_states st OPEN_PLAN_STATES)) (\<lambda>plans.
     andthen
       (for_each plans (\<lambda>plan.
          bnd (from_store (\<lambda>st. list_tasks st (p_session_id plan) (Some (p_plan_id plan)) None)) (\<lambda>tasks.
          for_each tasks (\<lambda>t. whenever (t_status t \<in> set OPEN_TASK_STATES) (interrupt_task t (Some plan))))))
       (for_each plans interrupt_plan))"

section \<open>Conversations and cycles\<close>

definition pending_outbound :: "store \<Rightarrow> conversation_record \<Rightarrow> message_record option" where
  "pending_outbound st c =
     (let messages = list_messages st (c_conversation_id c) None
      in if messages = [] then None
         else if m_direction (last messages) \<noteq> OUTBOUND then None
         else if m_message_type (last messages) \<notin> set RESUMABLE_MESSAGE_TYPES then None
         else Some (last messages))"

definition parent_rotating :: "store \<Rightarrow> conversation_record \<Rightarrow> bool" where
  "parent_rotating st c =
     (case c_parent_conversation_id c of None \<Rightarrow> False
      | Some pid \<Rightarrow> (case get_conversation st pid of None \<Rightarrow> False | Some parent \<Rightarrow> c_status parent = Conv_ROTATING))"

definition is_resumable :: "store \<Rightarrow> conversation_record \<Rightarrow> bool" where
  "is_resumable st c =
     (if c_status c \<noteq> Conv_WAITING_MODEL_RESPONSE then False
      else case get_session st (c_session_id c) of
        None \<Rightarrow> False
      | Some session \<Rightarrow>
          if s_status session \<noteq> Session_RUNNING then False
          else if s_current_conversation_id session \<noteq> Some (c_conversation_id c) then False
          else if parent_rotating st c then False
          else pending_outbound st c \<noteq> None)"

definition interrupt_cycle :: "cycle_record \<Rightarrow> unit recovery_act" where
  "interrupt_cycle cy =
     andthen (lifting (assert_transition CYCLE_TRANSITIONS cycle_state_value (cy_status cy) Cycle_INTERRUPTED ''cycle''))
    (bnd (in_app clock_now) (\<lambda>now.
     bnd (ret (interrupted_cycle now cy)) (\<lambda>after.
     andthen (in_app (on_store (transaction (save_cycle after))))
    (andthen (recovery_publish CYCLE_ENDED (cy_session_id cy)
        (state_change_payload (Some (cycle_state_value (cy_status cy))) (cycle_state_value (cy_status after)) (Some RESTART_REASON)
         @ [(''status'', JStr (cycle_state_value (cy_status after))), (''duration_ms'', JInt (max 0 ((now - cy_started_at cy) div 1000))),
            (''retry_count'', JInt (cy_retry_count after)), (''inbound_message_type'', JNull)])
        (Some (cy_conversation_id cy)) (Some (cy_cycle_id cy)) (cy_plan_id cy) None (Some now))
     (recovery_record (restart_action ''cycle'' (cy_cycle_id cy) (cycle_state_value (cy_status cy)) (cycle_state_value (cy_status after)) (cy_session_id cy))
        (Some (cy_conversation_id cy)) (Some (cy_cycle_id cy)) (cy_plan_id cy) None)))))"

text \<open>The set \<open>seen\<close> lets every conversation id through once.\<close>

definition interrupt_cycles_of :: "string list \<Rightarrow> string \<Rightarrow> unit recovery_act" where
  "interrupt_cycles_of resumable cid =
     unless (cid \<in> set resumable)
       (bnd (from_store (\<lambda>st. list_cycles st cid)) (\<lambda>cycles.
        for_each cycles (\<lambda>cy. whenever (cy_status cy = Cycle_RUNNING) (interrupt_cycle cy))))"

fun interrupt_cycles :: "string list \<Rightarrow> string list \<Rightarrow> string list \<Rightarrow> unit recovery_act" where
  "interrupt_cycles resumable seen [] = ret ()"
| "interrupt_cycles resumable seen (cid # rest) =
     (if cid \<in> set seen then interrupt_cycles resumable seen rest
      else andthen (interrupt_cycles_of resumable cid) (interrupt_cycles resumable (cid # seen) rest))"

definition settle_conversation :: "string list \<Rightarrow> conversation_record \<Rightarrow> unit recovery_act" where
  "settle_conversation resumable c =
     (if c_conversation_id c \<in> set resumable
      then recovery_record
        \<lparr>ra_entity = ''conversation'', ra_id = c_conversation_id c, ra_from_state = conversation_state_value (c_status c),
         ra_to_state = conversation_state_value (c_status c), ra_reason = RESUMABLE_REASON, ra_session_id = c_session_id c, ra_details = []\<rparr>
        (Some (c_conversation_id c)) (c_current_cycle_id c) None None
      else bnd (in_app (interrupt_conversation (c_conversation_id c) RESTART_REASON)) (\<lambda>interrupted.
        recovery_record (restart_action ''conversation'' (c_conversation_id c) (conversation_state_value (c_status c))
            (conversation_state_value (c_status interrupted)) (c_session_id c))
          (Some (c_conversation_id c)) (c_current_cycle_id c) (c_current_plan_id c) None))"

definition settle_conversations :: "unit recovery_act" where
  "settle_conversations =
     bnd (from_store (\<lambda>st. find_conversations_in_states st UNDER_WAY_STATES)) (\<lambda>conversations.
     bnd (from_store (\<lambda>st. map c_conversation_id (filter (is_resumable st) conversations))) (\<lambda>resumable.
     andthen (run_set (\<lambda>r. r\<lparr>ru_resumable_conversations := resumable\<rparr>))
    (bnd (from_store (\<lambda>st. map c_conversation_id conversations
        @ concat (map (\<lambda>s. map c_conversation_id (list_conversations st (s_session_id s))) (open_sessions st)))) (\<lambda>cids.
     andthen (interrupt_cycles resumable [] cids)
     (for_each conversations (settle_conversation resumable))))))"

section \<open>Sessions\<close>

definition recovery_transition_session :: "session_record \<Rightarrow> session_state \<Rightarrow> session_record recovery_act" where
  "recovery_transition_session s to =
     bnd (in_app (transition_session (s_session_id s) to (Some RESTART_REASON) [])) (\<lambda>updated.
     andthen (recovery_record (restart_action ''session'' (s_session_id s) (session_state_value (s_status s))
         (session_state_value (s_status updated)) (s_session_id s)) (s_current_conversation_id s) None None None)
     (ret updated))"

definition finish_conversation :: "conversation_record \<Rightarrow> unit recovery_act" where
  "finish_conversation c =
     whenever (c_status c = Conv_COMPLETED)
       (bnd (ret (if c_auto_close_on_final_answer c then Conv_CLOSED else Conv_WAITING_USER)) (\<lambda>target.
        bnd (in_app (transition_conversation (c_conversation_id c) target (Some RESTART_REASON)
            (if target = Conv_CLOSED then [Set_closure_reason (Some ''auto_close'')] else []))) (\<lambda>finished.
        recovery_record (restart_action ''conversation'' (c_conversation_id c) (conversation_state_value (c_status c))
            (conversation_state_value (c_status finished)) (c_session_id c))
          (Some (c_conversation_id c)) None None None)))"

definition make_session_ready :: "session_record \<Rightarrow> unit recovery_act" where
  "make_session_ready s =
     bnd (if s_status s = Session_RUNNING then recovery_transition_session s Session_INTERRUPTING else ret s) (\<lambda>current.
     bnd (recovery_transition_session current Session_READY) (\<lambda>_.
     run_set (\<lambda>r. r\<lparr>ru_ready := ru_ready r @ [s_session_id s]\<rparr>)))"

definition settle_session :: "session_record \<Rightarrow> unit recovery_act" where
  "settle_session s =
     bnd (from_store (\<lambda>st. case s_current_conversation_id s of None \<Rightarrow> None | Some cid \<Rightarrow> get_conversation st cid)) (\<lambda>conversation.
     bnd (run_get ru_resumable_conversations) (\<lambda>resumable.
     if s_status s = Session_RUNNING \<and> (case conversation of None \<Rightarrow> False | Some c \<Rightarrow> c_conversation_id c \<in> set resumable)
     then run_set (\<lambda>r. r\<lparr>ru_resumable := ru_resumable r @ [s_session_id s]\<rparr>)
     else case (s_status s = Session_RUNNING, conversation) of
       (True, Some c) \<Rightarrow>
         if c_status c = Conv_FAILED
         then bnd (recovery_transition_session s Session_FAILED) (\<lambda>_.
           run_set (\<lambda>r. r\<lparr>ru_failed := ru_failed r @ [s_session_id s]\<rparr>))
         else if c_status c \<in> set FINISHED_CONVERSATION_STATES
         then andthen (finish_conversation c)
           (bnd (recovery_transition_session s Session_COMPLETED) (\<lambda>_.
            run_set (\<lambda>r. r\<lparr>ru_completed := ru_completed r @ [s_session_id s]\<rparr>)))
         else make_session_ready s
     | _ \<Rightarrow> make_session_ready s))"

definition settle_sessions :: "unit recovery_act" where
  "settle_sessions = bnd (from_store open_sessions) (\<lambda>sessions. for_each sessions settle_session)"

section \<open>The recovery\<close>

definition new_run :: "time \<Rightarrow> recovery_run" where
  "new_run now = \<lparr>ru_started_at = now, ru_actions = [], ru_orphans = [], ru_ready = [], ru_resumable = [], ru_failed = [],
     ru_completed = [], ru_resumable_conversations = []\<rparr>"

definition run_report :: "recovery_run \<Rightarrow> time \<Rightarrow> recovery_report" where
  "run_report r now = \<lparr>rr_actions = ru_actions r, rr_orphans_terminated = ru_orphans r, rr_sessions_ready = ru_ready r,
     rr_sessions_resumable = ru_resumable r, rr_started_at = ru_started_at r, rr_ended_at = now,
     rr_sessions_failed = ru_failed r, rr_sessions_completed = ru_completed r\<rparr>"

definition announce :: "event_type \<Rightarrow> string list \<Rightarrow> (string \<Rightarrow> details) \<Rightarrow> unit recovery_act" where
  "announce ty touched payload =
     for_each (if touched = [] then [NO_SESSION] else touched) (\<lambda>sid. recovery_publish ty sid (payload sid) None None None None None)"

definition recovery_steps :: "terminate_orphan option \<Rightarrow> recovery_report recovery_act" where
  "recovery_steps platform =
     bnd (from_store collect_findings) (\<lambda>findings.
     bnd (ret (sort (dict_keys findings))) (\<lambda>touched.
     andthen (announce RECOVERY_STARTED touched (\<lambda>sid.
         [(''findings'', JObj (map (\<lambda>(k, n). (k, JInt (int n)))
              (findings_payload (case dict_get findings sid of Some f \<Rightarrow> f | None \<Rightarrow> no_findings)))),
          (''sessions_found'', JInt (int (length touched)))]))
    (andthen (interrupt_running_tasks platform)
    (andthen interrupt_pending_tasks_and_plans
    (andthen settle_conversations
    (andthen settle_sessions
    (bnd (in_app clock_now) (\<lambda>now.
     bnd (run_get (\<lambda>r. run_report r now)) (\<lambda>report.
     andthen (announce RECOVERY_COMPLETED touched (\<lambda>_. report_summary report))
     (ret report))))))))))"

definition recover :: "terminate_orphan option \<Rightarrow> recovery_report app_act" where
  "recover platform =
     bnd clock_now (\<lambda>now w.
       case recovery_steps platform (w, new_run now) of (r, (w', _)) \<Rightarrow> (r, w'))"

end
