(* ===== verification/Settling.thy ===== *)
theory Settling
  imports Recovery
begin

text \<open>
  What each phase of the recovery does to the tables: the tasks and plans, the cycles and conversations, the
  sessions. Every lemma says that the phase returns and names the tables it leaves (\<open>settles\<close>).
\<close>

section \<open>Steps, and what they leave alone\<close>

text \<open>The part of the report that the settling of sessions decides; the actions and orphans only grow.\<close>

type_synonym verdict_lists = "string list \<times> string list \<times> string list \<times> string list \<times> string list"

definition lists :: "recovery_run \<Rightarrow> verdict_lists" where
  "lists r = (ru_ready r, ru_resumable r, ru_failed r, ru_completed r, ru_resumable_conversations r)"

abbreviation at :: "tables \<Rightarrow> verdict_lists \<Rightarrow> tables \<Rightarrow> recovery_run \<Rightarrow> bool" where
  "at T l \<equiv> (\<lambda>X r. X = T \<and> lists r = l)"

lemma lists_frame [simp]: "lists (r\<lparr>ru_actions := a\<rparr>) = lists r" "lists (r\<lparr>ru_orphans := b\<rparr>) = lists r"
  by (simp_all add: lists_def)

lemma settles_at: "(\<And>T l. P T l \<Longrightarrow> settles (at T l) m Q) \<Longrightarrow> settles (\<lambda>X r. P X (lists r)) m Q"
  by (simp add: settles_def)

lemma settles_publish: "settles (\<lambda>X r. P X (lists r)) (recovery_publish ty sid payload c cy p t now) (\<lambda>_ X r. P X (lists r))"
proof -
  have "settles (\<lambda>X r. P X (lists r)) (case now of Some t \<Rightarrow> ret t | None \<Rightarrow> in_app clock_now) (\<lambda>_ X r. P X (lists r))"
    by (cases now) (auto intro!: settles_ret settles_in_app achieves_weaken [OF achieves_clock])
  then show ?thesis
    unfolding recovery_publish_def
    by (rule settles_bnd) (auto intro!: settles_in_app achieves_weaken [OF achieves_publish])
qed

lemma settles_record: "settles (\<lambda>X r. P X (lists r)) (recovery_record a c cy p t) (\<lambda>_ X r. P X (lists r))"
  unfolding recovery_record_def by (rule settles_andthen [OF settles_modifying settles_publish]) simp

lemma settles_clock: "settles (\<lambda>X r. P X (lists r)) (in_app clock_now) (\<lambda>_ X r. P X (lists r))"
  by (auto intro!: settles_in_app achieves_weaken [OF achieves_clock])

lemma settles_save:
  assumes "achieves T (on_store m) (\<lambda>_ X. X = T')" and "P T' l"
  shows "settles (at T l) (in_app (on_store (transaction m))) (\<lambda>_ X r. P X (lists r))"
proof (rule settles_in_app, elim conjE)
  fix X :: tables and r assume "X = T" and "lists r = l"
  then show "achieves X (on_store (transaction m)) (\<lambda>v Y. P Y (lists r))"
    using achieves_weaken [OF achieves_transaction [OF assms(1)], of "\<lambda>v Y. P Y (lists r)"] assms(2) by simp
qed

lemma settles_reported:
  assumes "achieves T (on_store m) (\<lambda>_ X. X = T')" and "P T' l"
  shows "settles (at T l) (andthen (in_app (on_store (transaction m)))
     (andthen (recovery_publish ty sid payload c cy p t now) (recovery_record a c' cy' p' t'))) (\<lambda>_ X r. P X (lists r))"
  by (rule settles_andthen [OF settles_save [where P = P, OF assms]], rule settles_andthen [OF settles_publish settles_record])

lemma settles_announce: "settles (\<lambda>X r. P X (lists r)) (announce ty touched payload) (\<lambda>_ X r. P X (lists r))"
  unfolding announce_def by (rule settles_for_each [where I = "\<lambda>_ X r. P X (lists r)"]) (rule settles_publish)

section \<open>Tasks and plans are settled\<close>

definition task_interrupted :: "task_record \<Rightarrow> task_record \<Rightarrow> bool" where
  "task_interrupted t t' \<longleftrightarrow> (\<exists>now. t' = interrupted_task RESTART_REASON now t)"

abbreviation "tasks_after T K X \<equiv> after tb_tasks tb_tasks_update task_interrupted K T X"

lemma task_not_interrupted: "t_status t \<noteq> Task_INTERRUPTED \<Longrightarrow> \<not> task_interrupted a t"
  by (auto simp: task_interrupted_def interrupted_task_def)

lemma tasks_after_plans: "tasks_after T K X \<Longrightarrow> tb_plans X = tb_plans T"
  by (auto simp: after_def)

lemma settles_interrupt_task:
  assumes "tb_tasks T (task_key t) = Some t" and "Task_INTERRUPTED \<in> TASK_TRANSITIONS (t_status t)"
  shows "settles (\<lambda>X r. tasks_after T K X \<and> lists r = l) (interrupt_task t plan)
    (\<lambda>_ X r. tasks_after T (insert (task_key t) K) X \<and> lists r = l)"
proof (rule settles_at [where P = "\<lambda>X l'. tasks_after T K X \<and> l' = l"])
  fix X l' assume X: "tasks_after T K X \<and> l' = l"
  show "settles (at X l') (interrupt_task t plan) (\<lambda>_ Y r. tasks_after T (insert (task_key t) K) Y \<and> lists r = l)"
    unfolding interrupt_task_def bnd_ret
    apply (rule settles_check [OF settles_bnd [OF settles_clock]])
    subgoal for now
    proof (rule settles_reported [OF achieves_saves(1), where P = "\<lambda>X l'. tasks_after T (insert (task_key t) K) X \<and> l' = l"])
      have "task_interrupted t (interrupted_task RESTART_REASON now t)" by (auto simp: task_interrupted_def)
      moreover have "task_key (interrupted_task RESTART_REASON now t) = task_key t" by (simp add: interrupted_task_def)
      ultimately show "tasks_after T (insert (task_key t) K) (X\<lparr>tb_tasks := (tb_tasks X)(task_key (interrupted_task RESTART_REASON now t) \<mapsto> interrupted_task RESTART_REASON now t)\<rparr>) \<and> l' = l"
        using task_table.after_step [OF conjunct1 [OF X] assms(1)] X by metis
    qed
    by (use assms(2) in \<open>simp add: assert_transition_def can_transition_def\<close>)
qed

lemma settles_terminate_orphan:
  "settles (\<lambda>X r. P X (lists r)) (terminate_task_orphan platform t plan) (\<lambda>_ X r. P X (lists r))"
proof -
  have "settles (\<lambda>X r. P X (lists r)) (andthen (run_set (\<lambda>r. r\<lparr>ru_orphans := ru_orphans r @ [pid]\<rparr>)) (recovery_record a c cy p k))
      (\<lambda>_ X r. P X (lists r))" for pid a c cy p k
    by (rule settles_andthen [OF settles_modifying settles_record]) simp
  moreover have "settles (\<lambda>X r. P X (lists r)) (ret ()) (\<lambda>_ X r. P X (lists r))" by (rule settles_ret)
  ultimately show ?thesis unfolding terminate_task_orphan_def whenever_def by (auto split: option.splits)
qed

lemma tasks_from_store:
  assumes "sane w" and "tasks_after T K (world w)"
  shows "t \<in> set (list_tasks (w_store w) sid (Some pid) None)
    \<longleftrightarrow> tb_tasks (world w) (task_key t) = Some t \<and> t_session_id t = sid \<and> t_plan_id t = pid"
  using assms set_listings(4) by (auto simp: sane_def)

definition running_tasks :: "tables \<Rightarrow> (string \<times> string) set" where
  "running_tasks T = {k. \<exists>t. tb_tasks T k = Some t \<and> t_status t = Task_RUNNING}"

lemma settles_running_tasks:
  "settles (at T l) (interrupt_running_tasks platform) (\<lambda>_ X r. tasks_after T (running_tasks T) X \<and> lists r = l)"
  unfolding interrupt_running_tasks_def
proof (rule settles_read, elim conjE)
  fix w and r :: recovery_run assume w: "sane w" "world w = T" "lists r = l"
  let ?ts = "find_tasks_in_states (w_store (fst (w, r))) [Task_RUNNING]"
  have ts: "t \<in> set ?ts \<longleftrightarrow> tb_tasks T (task_key t) = Some t \<and> t_status t = Task_RUNNING" for t
    using w set_listings(1) by (auto simp: sane_def)
  have keys: "task_key ` set ?ts = running_tasks T"
    using ts filed_keys(1) [of "w_store w"] w by (fastforce simp: running_tasks_def sane_def)
  have "settles (\<lambda>X r. tasks_after T (task_key ` set []) X \<and> lists r = l) (for_each ?ts (\<lambda>t.
       bnd (from_store (\<lambda>st. get_plan st (t_session_id t) (t_plan_id t))) (\<lambda>plan.
       andthen (terminate_task_orphan platform t plan) (interrupt_task t plan))))
     (\<lambda>_ X r. tasks_after T (task_key ` set ?ts) X \<and> lists r = l)"
  proof (rule settles_for_each)
    fix seen t rest assume "?ts = seen @ t # rest"
    then have "t \<in> set ?ts" by simp
    then have t: "tb_tasks T (task_key t) = Some t" "t_status t = Task_RUNNING" using ts by auto
    have step: "settles (\<lambda>X r. tasks_after T (task_key ` set seen) X \<and> lists r = l)
        (andthen (terminate_task_orphan platform t plan) (interrupt_task t plan))
        (\<lambda>_ X r. tasks_after T (insert (task_key t) (task_key ` set seen)) X \<and> lists r = l)" for plan
      using t by (intro settles_andthen [OF settles_terminate_orphan [where P = "\<lambda>X l'. tasks_after T (task_key ` set seen) X \<and> l' = l"]]
          settles_interrupt_task) auto
    show "settles (\<lambda>X r. tasks_after T (task_key ` set seen) X \<and> lists r = l)
       (bnd (from_store (\<lambda>st. get_plan st (t_session_id t) (t_plan_id t))) (\<lambda>plan.
          andthen (terminate_task_orphan platform t plan) (interrupt_task t plan)))
       (\<lambda>_ X r. tasks_after T (task_key ` set (seen @ [t])) X \<and> lists r = l)"
      by (rule settles_read) (auto intro!: settles_weaken [OF step])
  qed
  then show "settles (\<lambda>X y. X = world w \<and> y = r) (for_each ?ts (\<lambda>t.
       bnd (from_store (\<lambda>st. get_plan st (t_session_id t) (t_plan_id t))) (\<lambda>plan.
       andthen (terminate_task_orphan platform t plan) (interrupt_task t plan))))
     (\<lambda>_ X r. tasks_after T (running_tasks T) X \<and> lists r = l)"
    unfolding keys by (rule settles_weaken) (use w task_table.after_same in auto)
qed

text \<open>The waiting tasks of a set of plans.\<close>

definition waiting_tasks :: "tables \<Rightarrow> (string \<times> string) set \<Rightarrow> (string \<times> string) set" where
  "waiting_tasks T ps = {k. \<exists>t. tb_tasks T k = Some t \<and> t_status t \<in> set OPEN_TASK_STATES \<and> (t_session_id t, t_plan_id t) \<in> ps}"

lemma settles_waiting_tasks:
  "settles (\<lambda>X r. tasks_after T K X \<and> lists r = l)
    (bnd (from_store (\<lambda>st. list_tasks st (p_session_id plan) (Some (p_plan_id plan)) None)) (\<lambda>tasks.
       for_each tasks (\<lambda>t. whenever (t_status t \<in> set OPEN_TASK_STATES) (interrupt_task t (Some plan)))))
    (\<lambda>_ X r. tasks_after T (K \<union> waiting_tasks T {plan_key plan}) X \<and> lists r = l)"
proof (rule settles_read, elim conjE)
  fix w and r :: recovery_run assume w: "sane w" "tasks_after T K (world w)" "lists r = l"
  let ?ts = "list_tasks (w_store (fst (w, r))) (p_session_id plan) (Some (p_plan_id plan)) None"
  let ?keys = "\<lambda>ts. task_key ` {t \<in> set ts. t_status t \<in> set OPEN_TASK_STATES}"
  have ts: "t \<in> set ?ts \<longleftrightarrow> tb_tasks (world w) (task_key t) = Some t \<and> t_session_id t = p_session_id plan \<and> t_plan_id t = p_plan_id plan" for t
    using tasks_from_store [OF w(1,2)] by simp
  have open_known: "tb_tasks T (task_key t) = Some t" if "t \<in> set ?ts" "t_status t \<in> set OPEN_TASK_STATES" for t
    using that ts task_table.after_known(2) [OF w(2) _ task_not_interrupted] by (auto simp: OPEN_TASK_STATES_def)
  have "K \<union> ?keys ?ts = K \<union> waiting_tasks T {plan_key plan}"
  proof
    show "K \<union> ?keys ?ts \<subseteq> K \<union> waiting_tasks T {plan_key plan}" using open_known ts by (auto simp: waiting_tasks_def)
    show "K \<union> waiting_tasks T {plan_key plan} \<subseteq> K \<union> ?keys ?ts"
    proof (rule Un_mono [OF order_refl, THEN order_trans], rule subsetI)
      fix k assume "k \<in> waiting_tasks T {plan_key plan}"
      then obtain t where t: "tb_tasks T k = Some t" "t_status t \<in> set OPEN_TASK_STATES" "t_session_id t = p_session_id plan"
        "t_plan_id t = p_plan_id plan" by (auto simp: waiting_tasks_def)
      show "k \<in> K \<union> ?keys ?ts"
      proof (cases "k \<in> K")
        case False
        then have k: "tb_tasks (world w) k = Some t" using task_table.after_unchanged [OF w(2)] t(1) by simp
        then have "task_key t = k" using filed_keys(1) [of "w_store w" k t] w(1) by (simp add: sane_def)
        then show ?thesis using k t ts [of t] by (intro UnI2 image_eqI [of _ _ t]) auto
      qed simp
    qed simp
  qed
  moreover have "settles (\<lambda>X r. tasks_after T (K \<union> ?keys []) X \<and> lists r = l)
     (for_each ?ts (\<lambda>t. whenever (t_status t \<in> set OPEN_TASK_STATES) (interrupt_task t (Some plan))))
     (\<lambda>_ X r. tasks_after T (K \<union> ?keys ?ts) X \<and> lists r = l)"
  proof (rule settles_for_each)
    fix seen t rest assume "?ts = seen @ t # rest"
    then have t: "t \<in> set ?ts" by simp
    show "settles (\<lambda>X r. tasks_after T (K \<union> ?keys seen) X \<and> lists r = l)
        (whenever (t_status t \<in> set OPEN_TASK_STATES) (interrupt_task t (Some plan)))
        (\<lambda>_ X r. tasks_after T (K \<union> ?keys (seen @ [t])) X \<and> lists r = l)"
    proof (cases "t_status t \<in> set OPEN_TASK_STATES")
      case True
      then have "?keys (seen @ [t]) = insert (task_key t) (?keys seen)" by auto
      then have K: "K \<union> ?keys (seen @ [t]) = insert (task_key t) (K \<union> ?keys seen)" by simp
      show ?thesis
        unfolding K whenever_def if_P [OF True]
        by (rule settles_interrupt_task [OF open_known [OF t True]]) (use True in \<open>auto simp: OPEN_TASK_STATES_def\<close>)
    next
      case False
      then have "?keys (seen @ [t]) = ?keys seen" by auto
      with False show ?thesis by (simp add: whenever_def settles_ret)
    qed
  qed
  ultimately show "settles (\<lambda>X y. X = world w \<and> y = r)
     (for_each ?ts (\<lambda>t. whenever (t_status t \<in> set OPEN_TASK_STATES) (interrupt_task t (Some plan))))
     (\<lambda>_ X r. tasks_after T (K \<union> waiting_tasks T {plan_key plan}) X \<and> lists r = l)"
    by (auto intro: settles_weaken simp: w)
qed

definition open_plan_keys :: "tables \<Rightarrow> (string \<times> string) set" where
  "open_plan_keys T = {k. \<exists>p. tb_plans T k = Some p \<and> p_status p \<in> set OPEN_PLAN_STATES}"

text \<open>The counters of an interrupted plan are those of its tasks as the tables \<open>M\<close> hold them.\<close>

definition plan_interrupted :: "(string \<times> string \<Rightarrow> task_record option) \<Rightarrow> plan_record \<Rightarrow> plan_record \<Rightarrow> bool" where
  "plan_interrupted M p p' \<longleftrightarrow> (\<exists>now ts. p' = interrupted_plan RESTART_REASON now ts p \<and> distinct ts
     \<and> set ts = {t. M (task_key t) = Some t \<and> t_session_id t = p_session_id p \<and> t_plan_id t = p_plan_id p})"

abbreviation "plans_after T K X \<equiv> after tb_plans tb_plans_update (plan_interrupted (tb_tasks T)) K T X"

lemma plans_after_tasks: "plans_after T K X \<Longrightarrow> tb_tasks X = tb_tasks T"
  by (auto simp: after_def)

lemma settles_interrupt_plan:
  assumes "tb_plans T (plan_key p) = Some p" and "p_status p \<in> set OPEN_PLAN_STATES" and "plan_key p \<notin> K"
  shows "settles (\<lambda>X r. plans_after T K X \<and> lists r = l) (interrupt_plan p) (\<lambda>_ X r. plans_after T (insert (plan_key p) K) X \<and> lists r = l)"
  unfolding interrupt_plan_def bnd_ret
  apply (rule settles_read)
  subgoal premises w for w r
  proof -
    have "tb_plans (world w) (plan_key p) = Some p"
      using w(2) plan_table.after_unchanged [of "plan_interrupted (tb_tasks T)" K T "world w" "plan_key p"] assms(1,3) by simp
    then have current: "(case get_plan (w_store (fst (w, r))) (p_session_id p) (p_plan_id p) of Some p \<Rightarrow> p | None \<Rightarrow> p) = p"
      by (simp add: tables_get)
    have clock: "settles (\<lambda>X y. X = world w \<and> y = r) (in_app clock_now) (\<lambda>_ X r. plans_after T K X \<and> lists r = l)"
      by (rule settles_weaken [OF settles_clock [where P = "\<lambda>X l'. plans_after T K X \<and> l' = l"]]) (use w(2) in auto)
    show ?thesis
      unfolding current
      apply (rule settles_check [OF settles_bnd [OF clock settles_read]])
      subgoal premises v for now v r'
      proof -
        let ?ts = "list_tasks (w_store (fst (v, r'))) (p_session_id p) (Some (p_plan_id p)) None"
        have T: "tb_tasks T = tb_tasks (world v)" using plans_after_tasks v(2) by metis
        have "plan_interrupted (tb_tasks T) p (interrupted_plan RESTART_REASON now ?ts p)"
          unfolding plan_interrupted_def T
          using v(1) set_listings(4) [of "w_store v"] distinct_list_tasks [of "w_store v"]
          by (intro exI [of _ now] exI [of _ ?ts]) (auto simp: sane_def)
        from plan_table.after_step [where st = "plan_interrupted (tb_tasks T)" and T = T, OF _ assms(1) this]
        show ?thesis
          by (intro settles_weaken [OF settles_reported [where T = "world v" and l = l
              and P = "\<lambda>X l'. plans_after T (insert (plan_key p) K) X \<and> l' = l", OF achieves_saves(2)]])
            (use v(2) in \<open>auto simp: interrupted_plan_def\<close>)
      qed
      by (use assms(2) in \<open>auto simp: assert_transition_def can_transition_def OPEN_PLAN_STATES_def\<close>)
  qed
  done

definition work_after :: "tables \<Rightarrow> tables \<Rightarrow> bool" where
  "work_after T X \<longleftrightarrow> (\<exists>M N. X = T\<lparr>tb_tasks := M, tb_plans := N\<rparr>
     \<and> stepped task_interrupted (running_tasks T \<union> waiting_tasks T (open_plan_keys T)) (tb_tasks T) M
     \<and> stepped (plan_interrupted M) (open_plan_keys T) (tb_plans T) N)"

lemma settles_pending_work:
  "settles (\<lambda>X r. tasks_after T (running_tasks T) X \<and> lists r = l) interrupt_pending_tasks_and_plans
     (\<lambda>_ X r. work_after T X \<and> lists r = l)"
  unfolding interrupt_pending_tasks_and_plans_def
  apply (rule settles_read)
  subgoal premises w for w r
  proof -
    let ?plans = "find_plans_in_states (w_store (fst (w, r))) OPEN_PLAN_STATES"
    let ?K = "\<lambda>ps. running_tasks T \<union> waiting_tasks T (plan_key ` set ps)"
    have plans: "tb_plans T = tb_plans (world w)" using w(2) tasks_after_plans by metis
    have "p \<in> set ?plans \<longleftrightarrow> tb_plans T (plan_key p) = Some p \<and> p_status p \<in> set OPEN_PLAN_STATES" for p
      using w(1) set_listings(2) plans by (simp add: sane_def)
    then have known: "\<forall>p \<in> set ?plans. tb_plans T (plan_key p) = Some p \<and> p_status p \<in> set OPEN_PLAN_STATES"
      and keys: "plan_key ` set ?plans = open_plan_keys T"
      using filed_keys(2) [of "w_store w"] w(1) plans by (fastforce simp: open_plan_keys_def sane_def)+
    have distinct: "distinct (map plan_key ?plans)" using w(1) by (simp add: sane_def distinct_find_plans)
    have one: "settles (\<lambda>X r. tasks_after T (?K []) X \<and> lists r = l)
      (for_each ?plans (\<lambda>plan. bnd (from_store (\<lambda>st. list_tasks st (p_session_id plan) (Some (p_plan_id plan)) None)) (\<lambda>tasks.
          for_each tasks (\<lambda>t. whenever (t_status t \<in> set OPEN_TASK_STATES) (interrupt_task t (Some plan))))))
      (\<lambda>_ X r. tasks_after T (?K ?plans) X \<and> lists r = l)"
      apply (rule settles_for_each)
      subgoal for seen plan rest
      proof -
        have K: "?K (seen @ [plan]) = ?K seen \<union> waiting_tasks T {plan_key plan}" by (auto simp: waiting_tasks_def)
        show ?thesis unfolding K by (rule settles_waiting_tasks)
      qed
      done
    have two: "settles (\<lambda>X r. tasks_after T (?K ?plans) X \<and> lists r = l) (for_each ?plans interrupt_plan) (\<lambda>_ X r. work_after T X \<and> lists r = l)"
    proof (rule settles_from)
      fix X and r' :: recovery_run assume X: "tasks_after T (?K ?plans) X \<and> lists r' = l"
      have plans: "settles (\<lambda>Y r. plans_after X (plan_key ` set []) Y \<and> lists r = l) (for_each ?plans interrupt_plan)
        (\<lambda>_ Y r. plans_after X (plan_key ` set ?plans) Y \<and> lists r = l)"
        apply (rule settles_for_each)
        subgoal premises prems for seen p rest
        proof -
          have "p \<in> set ?plans" using prems by (metis in_set_conv_decomp)
          then have p: "tb_plans X (plan_key p) = Some p" "p_status p \<in> set OPEN_PLAN_STATES"
            using known tasks_after_plans [OF conjunct1 [OF X]] by simp_all
          have "plan_key p \<notin> plan_key ` set seen" using distinct unfolding prems by auto
          from settles_interrupt_plan [OF p this] show ?thesis by simp
        qed
        done
      have work: "work_after T Y" if Y: "plans_after X (plan_key ` set ?plans) Y" for Y
      proof -
        obtain M where M: "X = T\<lparr>tb_tasks := M\<rparr>" "stepped task_interrupted (?K ?plans) (tb_tasks T) M"
          using X unfolding after_def by blast
        obtain N where N: "Y = X\<lparr>tb_plans := N\<rparr>" "stepped (plan_interrupted (tb_tasks X)) (plan_key ` set ?plans) (tb_plans X) N"
          using Y unfolding after_def by blast
        show ?thesis
          unfolding work_after_def keys [symmetric] by (intro exI [of _ M] exI [of _ N]) (use M N in simp)
      qed
      show "settles (\<lambda>Y r. Y = X \<and> r = r') (for_each ?plans interrupt_plan) (\<lambda>_ X r. work_after T X \<and> lists r = l)"
        by (rule settles_weaken [OF plans]) (use X plan_table.after_same work in auto)
    qed
    show ?thesis
      by (rule settles_weaken [OF settles_andthen [OF one two]]) (use w(2) in \<open>auto simp: waiting_tasks_def\<close>)
  qed
  done

section \<open>Conversations and cycles are settled\<close>

definition rotating_parent :: "tables \<Rightarrow> conversation_record \<Rightarrow> bool" where
  "rotating_parent T c \<longleftrightarrow> (\<exists>pid p. c_parent_conversation_id c = Some pid \<and> tb_conversations T pid = Some p \<and> c_status p = Conv_ROTATING)"

text \<open>
  What makes a conversation resumable: it waits for the model in the running session it is the current
  conversation of, no rotation is in flight, and its last message is a request or a result it sent.
\<close>

definition resumable :: "tables \<Rightarrow> conversation_record \<Rightarrow> bool" where
  "resumable T c \<longleftrightarrow> c_status c = Conv_WAITING_MODEL_RESPONSE
     \<and> (\<exists>s. tb_sessions T (c_session_id c) = Some s \<and> s_status s = Session_RUNNING
            \<and> s_current_conversation_id s = Some (c_conversation_id c))
     \<and> \<not> rotating_parent T c
     \<and> (\<exists>ms m. tb_messages T (c_conversation_id c) = ms @ [m] \<and> m_direction m = OUTBOUND
            \<and> m_message_type m \<in> {USER_REQUEST, EXECUTION_RESULT})"

lemma is_resumable_iff: "is_resumable st c \<longleftrightarrow> resumable (tables_of st) c"
proof -
  have "pending_outbound st c \<noteq> None \<longleftrightarrow> (\<exists>ms m. list_messages st (c_conversation_id c) None = ms @ [m]
      \<and> m_direction m = OUTBOUND \<and> m_message_type m \<in> {USER_REQUEST, EXECUTION_RESULT})"
    by (cases "list_messages st (c_conversation_id c) None" rule: rev_cases)
      (auto simp: pending_outbound_def Let_def RESUMABLE_MESSAGE_TYPES_def)
  moreover have "parent_rotating st c \<longleftrightarrow> rotating_parent (tables_of st) c"
    by (auto simp: parent_rotating_def rotating_parent_def tables_get split: option.splits)
  ultimately show ?thesis
    by (auto simp: is_resumable_def resumable_def tables_get tables_of_def split: option.splits)
qed

definition resumable_ids :: "tables \<Rightarrow> string set" where
  "resumable_ids T = {cid. \<exists>c. tb_conversations T cid = Some c \<and> resumable T c}"

lemma resumable_cong:
  "tb_conversations X = tb_conversations T \<Longrightarrow> tb_sessions X = tb_sessions T \<Longrightarrow> tb_messages X = tb_messages T
    \<Longrightarrow> resumable X = resumable T \<and> resumable_ids X = resumable_ids T"
  by (auto simp: resumable_def resumable_ids_def rotating_parent_def fun_eq_iff)

definition cycle_interrupted :: "cycle_record \<Rightarrow> cycle_record \<Rightarrow> bool" where
  "cycle_interrupted cy cy' \<longleftrightarrow> (\<exists>now. cy' = interrupted_cycle now cy)"

abbreviation "cycles_after T K X \<equiv> after tb_cycles tb_cycles_update cycle_interrupted K T X"

lemma cycle_not_interrupted: "cy_status cy \<noteq> Cycle_INTERRUPTED \<Longrightarrow> \<not> cycle_interrupted a cy"
  by (auto simp: cycle_interrupted_def interrupted_cycle_def)

lemma settles_interrupt_cycle:
  assumes "tb_cycles T (cy_cycle_id cy) = Some cy" and "cy_status cy = Cycle_RUNNING"
  shows "settles (\<lambda>X r. cycles_after T K X \<and> lists r = l) (interrupt_cycle cy)
    (\<lambda>_ X r. cycles_after T (insert (cy_cycle_id cy) K) X \<and> lists r = l)"
proof (rule settles_at [where P = "\<lambda>X l'. cycles_after T K X \<and> l' = l"])
  fix X l' assume X: "cycles_after T K X \<and> l' = l"
  show "settles (at X l') (interrupt_cycle cy) (\<lambda>_ Y r. cycles_after T (insert (cy_cycle_id cy) K) Y \<and> lists r = l)"
    unfolding interrupt_cycle_def bnd_ret
    apply (rule settles_check [OF settles_bnd [OF settles_clock]])
    subgoal for now
    proof (rule settles_reported [OF achieves_saves(3), where P = "\<lambda>X l'. cycles_after T (insert (cy_cycle_id cy) K) X \<and> l' = l"])
      have "cycle_interrupted cy (interrupted_cycle now cy)" by (auto simp: cycle_interrupted_def)
      moreover have "cy_cycle_id (interrupted_cycle now cy) = cy_cycle_id cy" by (simp add: interrupted_cycle_def)
      ultimately show "cycles_after T (insert (cy_cycle_id cy) K)
          (X\<lparr>tb_cycles := (tb_cycles X)(cy_cycle_id (interrupted_cycle now cy) \<mapsto> interrupted_cycle now cy)\<rparr>) \<and> l' = l"
        using cycle_table.after_step [OF conjunct1 [OF X] assms(1)] X by metis
    qed
    by (use assms(2) in \<open>simp add: assert_transition_def can_transition_def\<close>)
qed

text \<open>The running cycles of a set of conversations.\<close>

definition running_cycles :: "tables \<Rightarrow> string set \<Rightarrow> string set" where
  "running_cycles T cids = {i. \<exists>cy. tb_cycles T i = Some cy \<and> cy_status cy = Cycle_RUNNING \<and> cy_conversation_id cy \<in> cids}"

lemma settles_cycles_of:
  "settles (\<lambda>X r. cycles_after T (running_cycles T S) X \<and> lists r = l) (interrupt_cycles_of rs cid)
     (\<lambda>_ X r. cycles_after T (running_cycles T (S \<union> ({cid} - set rs))) X \<and> lists r = l)"
proof (cases "cid \<in> set rs")
  case True
  then have "{cid} - set rs = {}" by simp
  then show ?thesis using True by (simp add: interrupt_cycles_of_def unless_def settles_ret)
next
  case False
  then have S: "S \<union> ({cid} - set rs) = insert cid S" by auto
  show ?thesis
    unfolding S interrupt_cycles_of_def unless_def if_not_P [OF False]
    apply (rule settles_read)
    subgoal premises w for w r
    proof -
      let ?cys = "list_cycles (w_store (fst (w, r))) cid"
      let ?K = "\<lambda>cys :: cycle_record list. running_cycles T S \<union> cy_cycle_id ` {cy \<in> set cys. cy_status cy = Cycle_RUNNING}"
      have cys: "cy \<in> set ?cys \<longleftrightarrow> tb_cycles (world w) (cy_cycle_id cy) = Some cy \<and> cy_conversation_id cy = cid" for cy
        using w(1) set_listings(6) by (simp add: sane_def)
      have known: "tb_cycles T (cy_cycle_id cy) = Some cy" if "cy \<in> set ?cys" "cy_status cy = Cycle_RUNNING" for cy
        using that cys cycle_table.after_known(2) [OF conjunct1 [OF w(2)] _ cycle_not_interrupted] by auto
      have all: "?K ?cys = running_cycles T (insert cid S)"
      proof
        show "?K ?cys \<subseteq> running_cycles T (insert cid S)" using known cys by (auto simp: running_cycles_def)
        show "running_cycles T (insert cid S) \<subseteq> ?K ?cys"
        proof
          fix i assume "i \<in> running_cycles T (insert cid S)"
          then obtain cy where cy: "tb_cycles T i = Some cy" "cy_status cy = Cycle_RUNNING" "cy_conversation_id cy \<in> insert cid S"
            by (auto simp: running_cycles_def)
          show "i \<in> ?K ?cys"
          proof (cases "i \<in> running_cycles T S")
            case False
            then have "tb_cycles (world w) i = Some cy"
              using cycle_table.after_unchanged [OF conjunct1 [OF w(2)]] cy(1) by simp
            moreover from this have "cy_cycle_id cy = i" using filed_keys(3) [of "w_store w" i cy] w(1) by (simp add: sane_def)
            moreover have "cy_conversation_id cy = cid" using False cy by (auto simp: running_cycles_def)
            ultimately show ?thesis using cys [of cy] cy(2) by (intro UnI2 image_eqI [of _ _ cy]) auto
          qed simp
        qed
      qed
      have "settles (\<lambda>X r. cycles_after T (?K []) X \<and> lists r = l)
        (for_each ?cys (\<lambda>cy. whenever (cy_status cy = Cycle_RUNNING) (interrupt_cycle cy)))
        (\<lambda>_ X r. cycles_after T (?K ?cys) X \<and> lists r = l)"
        apply (rule settles_for_each)
        subgoal premises prems for seen cy rest
        proof (cases "cy_status cy = Cycle_RUNNING")
          case True
          have "cy \<in> set ?cys" using prems by (metis in_set_conv_decomp)
          moreover have K: "?K (seen @ [cy]) = insert (cy_cycle_id cy) (?K seen)" using True by auto
          ultimately show ?thesis
            unfolding K whenever_def if_P [OF True] using settles_interrupt_cycle [OF known True] True by blast
        next
          case False
          then have K: "?K (seen @ [cy]) = ?K seen" by auto
          show ?thesis unfolding K using False by (simp add: whenever_def settles_ret)
        qed
        done
      then show ?thesis unfolding all by (rule settles_weaken) (use w(2) in auto)
    qed
    done
qed

lemma settles_cycles:
  "settles (\<lambda>X r. cycles_after T (running_cycles T (set seen - set rs)) X \<and> lists r = l) (interrupt_cycles rs seen cids)
     (\<lambda>_ X r. cycles_after T (running_cycles T (set seen \<union> set cids - set rs)) X \<and> lists r = l)"
proof (induction rs seen cids rule: interrupt_cycles.induct)
  case (2 rs seen cid rest)
  show ?case
  proof (cases "cid \<in> set seen")
    case True
    moreover from this have "set seen \<union> set (cid # rest) = set seen \<union> set rest" by auto
    ultimately show ?thesis using 2(1) by simp
  next
    case False
    have one: "set seen - set rs \<union> ({cid} - set rs) = set (cid # seen) - set rs" by auto
    have all: "set seen \<union> set (cid # rest) - set rs = set (cid # seen) \<union> set rest - set rs" by auto
    from settles_cycles_of [of T "set seen - set rs" l rs cid] 2(2) [OF False]
    show ?thesis unfolding one all using False by (auto intro: settles_andthen)
  qed
qed (simp add: settles_ret)

lemma open_sessions_from_drop:
  "open_sessions_from st offset = drop offset (sort_desc (\<lambda>s. (s_created_at s, s_session_id s))
     (filter (\<lambda>s. s_status s \<in> set OPEN_SESSION_STATES) (dict_values (st_sessions st))))"
proof (induction st offset rule: open_sessions_from.induct)
  case (1 st offset)
  let ?all = "sort_desc (\<lambda>s. (s_created_at s, s_session_id s)) (filter (\<lambda>s. s_status s \<in> set OPEN_SESSION_STATES) (dict_values (st_sessions st)))"
  show ?case
  proof (cases "length (session_page st offset) < PAGE")
    case True
    then have "session_page st offset = drop offset ?all" by (simp add: session_page_slice)
    with True show ?thesis by (subst open_sessions_from.simps) (simp add: Let_def)
  next
    case False
    then have "open_sessions_from st offset = take PAGE (drop offset ?all) @ drop (offset + PAGE) ?all"
      using 1 by (subst open_sessions_from.simps) (simp add: Let_def session_page_slice)
    also have "drop (offset + PAGE) ?all = drop PAGE (drop offset ?all)" by (simp add: add.commute)
    finally show ?thesis by (simp only: append_take_drop_id)
  qed
qed

text \<open>Reading by pages reads every open session once.\<close>

lemma open_sessions_all:
  assumes "filed st"
  shows "s \<in> set (open_sessions st) \<longleftrightarrow> tb_sessions (tables_of st) (s_session_id s) = Some s \<and> s_status s \<in> set OPEN_SESSION_STATES"
    and "distinct (map s_session_id (open_sessions st))"
proof -
  have keyed: "keyed_by s_session_id (st_sessions st)" using assms by (simp add: filed_def)
  have all: "open_sessions st = sort_desc (\<lambda>s. (s_created_at s, s_session_id s))
      (filter (\<lambda>s. s_status s \<in> set OPEN_SESSION_STATES) (dict_values (st_sessions st)))"
    unfolding open_sessions_def open_sessions_from_drop by simp
  show "s \<in> set (open_sessions st) \<longleftrightarrow> tb_sessions (tables_of st) (s_session_id s) = Some s \<and> s_status s \<in> set OPEN_SESSION_STATES"
    unfolding all using keyed_by_values [OF keyed, of s] by (auto simp: sort_desc_def tables_of_def simp del: set_map)
  have "distinct (map s_session_id (dict_values (st_sessions st)))" using keyed unfolding keyed_by_def by metis
  from distinct_sorted_filter [OF this, of "\<lambda>_. 0 :: nat"]
  have "distinct (map s_session_id (filter (\<lambda>s. s_status s \<in> set OPEN_SESSION_STATES) (dict_values (st_sessions st))))"
    by (simp add: sort_key_const)
  then show "distinct (map s_session_id (open_sessions st))"
    unfolding all sort_desc_def distinct_map by simp
qed

definition conversation_interrupted :: "conversation_record \<Rightarrow> conversation_record \<Rightarrow> bool" where
  "conversation_interrupted c c' \<longleftrightarrow> (\<exists>now. c' = interrupted_conversation now c)"

definition under_way :: "tables \<Rightarrow> string set" where
  "under_way T = {cid. \<exists>c. tb_conversations T cid = Some c \<and> c_status c \<in> ACTIVE_CONVERSATION_STATES}"

definition of_open_session :: "tables \<Rightarrow> string set" where
  "of_open_session T = {cid. \<exists>c s. tb_conversations T cid = Some c \<and> tb_sessions T (c_session_id c) = Some s
     \<and> s_status s \<in> {Session_RUNNING, Session_INTERRUPTING}}"

definition dialogue_after :: "tables \<Rightarrow> tables \<Rightarrow> bool" where
  "dialogue_after T X \<longleftrightarrow> (\<exists>M N. X = T\<lparr>tb_cycles := M, tb_conversations := N\<rparr>
     \<and> stepped cycle_interrupted (running_cycles T (under_way T \<union> of_open_session T - resumable_ids T)) (tb_cycles T) M
     \<and> stepped conversation_interrupted (under_way T - resumable_ids T) (tb_conversations T) N)"

lemma under_way_states: "set UNDER_WAY_STATES = ACTIVE_CONVERSATION_STATES"
  by (auto simp: UNDER_WAY_STATES_def ACTIVE_CONVERSATION_STATES_def)

abbreviation "conversations_after T K X \<equiv> after tb_conversations tb_conversations_update conversation_interrupted K T X"

lemma settles_one_conversation:
  assumes "tb_conversations T (c_conversation_id c) = Some c" and "c_status c \<in> ACTIVE_CONVERSATION_STATES"
    and "c_conversation_id c \<notin> K"
  shows "settles (\<lambda>X r. conversations_after T K X \<and> lists r = l) (settle_conversation rs c)
    (\<lambda>_ X r. conversations_after T (K \<union> ({c_conversation_id c} - set rs)) X \<and> lists r = l)"
proof (cases "c_conversation_id c \<in> set rs")
  case True
  then have K: "K \<union> ({c_conversation_id c} - set rs) = K" by auto
  show ?thesis
    unfolding K settle_conversation_def if_P [OF True] by (rule settles_record [where P = "\<lambda>X l'. conversations_after T K X \<and> l' = l"])
next
  case False
  then have K: "K \<union> ({c_conversation_id c} - set rs) = insert (c_conversation_id c) K" by auto
  show ?thesis
    unfolding K settle_conversation_def if_not_P [OF False]
  proof (rule settles_bnd [OF _ settles_record [where P = "\<lambda>X l'. conversations_after T (insert (c_conversation_id c) K) X \<and> l' = l"]],
      rule settles_in_app, elim conjE)
    fix X and r :: recovery_run assume X: "conversations_after T K X" and r: "lists r = l"
    have c: "tb_conversations X (c_conversation_id c) = Some c" using conversation_records.after_unchanged [OF X assms(3)] assms(1) by simp
    show "achieves X (interrupt_conversation (c_conversation_id c) RESTART_REASON)
        (\<lambda>v Y. conversations_after T (insert (c_conversation_id c) K) Y \<and> lists r = l)"
      using conversation_records.after_step [OF X assms(1)] r
      by (intro achieves_weaken [OF achieves_interrupt_conversation [OF c assms(2)]]) (auto simp: conversation_interrupted_def)
  qed
qed

lemma settles_each_conversation:
  assumes "\<And>x. x \<in> set cs \<Longrightarrow> tb_conversations T (c_conversation_id x) = Some x \<and> c_status x \<in> ACTIVE_CONVERSATION_STATES"
    and "distinct (map c_conversation_id cs)"
  shows "settles (at T l) (for_each cs (settle_conversation rs))
    (\<lambda>_ X y. conversations_after T (c_conversation_id ` set cs - set rs) X \<and> lists y = l)"
proof -
  have "settles (\<lambda>X y. conversations_after T (c_conversation_id ` set ([] :: conversation_record list) - set rs) X \<and> lists y = l)
     (for_each cs (settle_conversation rs)) (\<lambda>_ X y. conversations_after T (c_conversation_id ` set cs - set rs) X \<and> lists y = l)"
    apply (rule settles_for_each [where I = "\<lambda>seen X y. conversations_after T (c_conversation_id ` set seen - set rs) X \<and> lists y = l"])
    subgoal premises prems for seen x rest
    proof -
      have x: "tb_conversations T (c_conversation_id x) = Some x" "c_status x \<in> ACTIVE_CONVERSATION_STATES"
        using assms(1) [of x] prems by simp_all
      have new: "c_conversation_id x \<notin> c_conversation_id ` set seen - set rs" using assms(2) unfolding prems by auto
      have K: "c_conversation_id ` set (seen @ [x]) - set rs = (c_conversation_id ` set seen - set rs) \<union> ({c_conversation_id x} - set rs)"
        by auto
      show ?thesis unfolding K by (rule settles_one_conversation [OF x new])
    qed
    done
  then show ?thesis by (rule settles_weaken) (use conversation_records.after_same in auto)
qed

text \<open>The conversations and cycles the coordinator looks at are the ones the policy speaks of.\<close>

definition ids_of_open_sessions :: "store \<Rightarrow> string list" where
  "ids_of_open_sessions st = concat (map (\<lambda>s. map c_conversation_id (list_conversations st (s_session_id s))) (open_sessions st))"

lemma listed_conversations:
  fixes w :: app
  defines "cs \<equiv> find_conversations_in_states (w_store w) UNDER_WAY_STATES"
  assumes filed: "filed (w_store w)" and T: "world w = T"
  shows "\<And>x. x \<in> set cs \<longleftrightarrow> tb_conversations T (c_conversation_id x) = Some x \<and> c_status x \<in> ACTIVE_CONVERSATION_STATES"
    and "c_conversation_id ` set cs = under_way T"
    and "set (map c_conversation_id (filter (is_resumable (w_store w)) cs)) = resumable_ids T"
    and "set (ids_of_open_sessions (w_store w)) = of_open_session T"
proof -
  have cs: "x \<in> set cs \<longleftrightarrow> tb_conversations T (c_conversation_id x) = Some x \<and> c_status x \<in> ACTIVE_CONVERSATION_STATES" for x
    using set_listings(3) [OF filed] T under_way_states by (simp add: cs_def)
  have cid: "c_conversation_id x = i" if "tb_conversations T i = Some x" for i x using that filed_keys(4) [OF filed] T by simp
  have keys: "c_conversation_id ` set cs = under_way T"
  proof (intro equalityI subsetI)
    fix i assume "i \<in> under_way T"
    then obtain x where x: "tb_conversations T i = Some x" "c_status x \<in> ACTIVE_CONVERSATION_STATES" by (auto simp: under_way_def)
    then have "x \<in> set cs" using cs [of x] cid [OF x(1)] by simp
    then show "i \<in> c_conversation_id ` set cs" using cid [OF x(1)] by force
  next
    fix i assume "i \<in> c_conversation_id ` set cs"
    then show "i \<in> under_way T" using cs unfolding under_way_def by blast
  qed
  have rs: "set (map c_conversation_id (filter (is_resumable (w_store w)) cs)) = resumable_ids T"
  proof (intro equalityI subsetI)
    fix i assume "i \<in> resumable_ids T"
    then obtain x where x: "tb_conversations T i = Some x" "resumable T x" by (auto simp: resumable_ids_def)
    moreover from this have "c_status x \<in> ACTIVE_CONVERSATION_STATES" by (simp add: resumable_def ACTIVE_CONVERSATION_STATES_def)
    ultimately have "x \<in> set cs" using cs [of x] cid [OF x(1)] by simp
    then show "i \<in> set (map c_conversation_id (filter (is_resumable (w_store w)) cs))" using cid [OF x(1)] x(2) T by (force simp: is_resumable_iff)
  next
    fix i assume "i \<in> set (map c_conversation_id (filter (is_resumable (w_store w)) cs))"
    then obtain x where "x \<in> set cs" "i = c_conversation_id x" "resumable T x" using T by (auto simp: is_resumable_iff)
    then show "i \<in> resumable_ids T" using cs [of x] unfolding resumable_ids_def by blast
  qed
  have lc: "x \<in> set (list_conversations (w_store w) sid) \<longleftrightarrow> tb_conversations T (c_conversation_id x) = Some x \<and> c_session_id x = sid" for x sid
    using set_listings(5) [OF filed] T by simp
  have os: "s \<in> set (open_sessions (w_store w)) \<longleftrightarrow> tb_sessions T (s_session_id s) = Some s \<and> s_status s \<in> set OPEN_SESSION_STATES" for s
    using open_sessions_all(1) [OF filed] T by simp
  have "(\<Union>s \<in> set (open_sessions (w_store w)). c_conversation_id ` set (list_conversations (w_store w) (s_session_id s))) = of_open_session T"
  proof (intro equalityI subsetI)
    fix i assume "i \<in> of_open_session T"
    then obtain x s where x: "tb_conversations T i = Some x" "tb_sessions T (c_session_id x) = Some s" "s_status s \<in> set OPEN_SESSION_STATES"
      by (auto simp: of_open_session_def OPEN_SESSION_STATES_def)
    have "s_session_id s = c_session_id x" using filed_keys(5) [OF filed] x(2) T by simp
    then have "s \<in> set (open_sessions (w_store w))" "x \<in> set (list_conversations (w_store w) (s_session_id s))"
      using os [of s] lc [of x] x cid [OF x(1)] by simp_all
    then show "i \<in> (\<Union>s \<in> set (open_sessions (w_store w)). c_conversation_id ` set (list_conversations (w_store w) (s_session_id s)))"
      using cid [OF x(1)] by blast
  next
    fix i assume "i \<in> (\<Union>s \<in> set (open_sessions (w_store w)). c_conversation_id ` set (list_conversations (w_store w) (s_session_id s)))"
    then obtain x s where "s \<in> set (open_sessions (w_store w))" "x \<in> set (list_conversations (w_store w) (s_session_id s))" "i = c_conversation_id x"
      by blast
    then show "i \<in> of_open_session T" using os [of s] lc [of x] by (auto simp: of_open_session_def OPEN_SESSION_STATES_def)
  qed
  then show "set (ids_of_open_sessions (w_store w)) = of_open_session T" by (simp add: ids_of_open_sessions_def)
  show "\<And>x. x \<in> set cs \<longleftrightarrow> tb_conversations T (c_conversation_id x) = Some x \<and> c_status x \<in> ACTIVE_CONVERSATION_STATES"
    by (rule cs)
  show "c_conversation_id ` set cs = under_way T"
    and "set (map c_conversation_id (filter (is_resumable (w_store w)) cs)) = resumable_ids T"
    by (fact keys, fact rs)
qed

lemma settles_dialogue:
  "settles (at T (a, b, c, d, e)) settle_conversations
     (\<lambda>_ X r. dialogue_after T X \<and> (\<exists>rs. set rs = resumable_ids T \<and> lists r = (a, b, c, d, rs)))"
  unfolding settle_conversations_def ids_of_open_sessions_def [symmetric]
  apply (rule settles_read)
  subgoal premises w for w r
  proof -
    let ?cs = "find_conversations_in_states (w_store (fst (w, r))) UNDER_WAY_STATES"
    let ?rs = "map c_conversation_id (filter (resumable T) ?cs)"
    let ?l = "(a, b, c, d, ?rs)"
    let ?K = "running_cycles T (under_way T \<union> of_open_session T - resumable_ids T)"
    have filed: "filed (w_store w)" and T: "world w = T" using w by (simp_all add: sane_def)
    note facts = listed_conversations [OF filed T]
    have rs: "set ?rs = resumable_ids T" using facts(3) T by (simp add: is_resumable_iff)
    have cycles: "settles (at T ?l) (interrupt_cycles ?rs [] (map c_conversation_id ?cs @ ids_of_open_sessions (w_store u)))
        (\<lambda>_ X y. cycles_after T ?K X \<and> lists y = ?l)" if u: "sane u" "world u = T" for u
    proof -
      have "set (map c_conversation_id ?cs @ ids_of_open_sessions (w_store u)) = under_way T \<union> of_open_session T"
        using facts(2) listed_conversations(4) [of u T] u by (simp add: sane_def)
      then show ?thesis
        by (intro settles_weaken [OF settles_cycles [of T "[]" ?rs ?l "map c_conversation_id ?cs @ ids_of_open_sessions (w_store u)"]])
          (use rs cycle_table.after_same in \<open>auto simp: running_cycles_def\<close>)
    qed
    have both: "settles (at T ?l) (andthen (interrupt_cycles ?rs [] (map c_conversation_id ?cs @ ids_of_open_sessions (w_store u)))
          (for_each ?cs (settle_conversation ?rs)))
        (\<lambda>_ X y. dialogue_after T X \<and> lists y = ?l)" if u: "sane u" "world u = T" for u
    proof (rule settles_andthen [OF cycles [OF u]], rule settles_from, elim conjE)
      fix X1 and y :: recovery_run assume X1: "cycles_after T ?K X1" and y: "lists y = ?l"
      then obtain M where M: "X1 = T\<lparr>tb_cycles := M\<rparr>" "stepped cycle_interrupted ?K (tb_cycles T) M" unfolding after_def by blast
      have each: "settles (at X1 ?l) (for_each ?cs (settle_conversation ?rs))
          (\<lambda>_ X y. conversations_after X1 (c_conversation_id ` set ?cs - set ?rs) X \<and> lists y = ?l)"
        by (rule settles_each_conversation) (use facts(1) M(1) filed distinct_find_conversations in auto)
      have "dialogue_after T X" if X: "conversations_after X1 (c_conversation_id ` set ?cs - set ?rs) X" for X
      proof -
        have "conversations_after X1 (under_way T - resumable_ids T) X" using X facts(2) rs by simp
        then obtain N where "X = X1\<lparr>tb_conversations := N\<rparr>"
          "stepped conversation_interrupted (under_way T - resumable_ids T) (tb_conversations X1) N"
          unfolding after_def by blast
        with M show ?thesis unfolding dialogue_after_def by (intro exI [of _ M] exI [of _ N]) simp
      qed
      then show "settles (\<lambda>X z. X = X1 \<and> z = y) (for_each ?cs (settle_conversation ?rs)) (\<lambda>_ X y. dialogue_after T X \<and> lists y = ?l)"
        by (intro settles_weaken [OF each]) (use y in auto)
    qed
    show ?thesis
      apply (rule settles_read)
      subgoal premises v for v r'
      proof -
        have is_resumable: "is_resumable (w_store (fst (v, r'))) = resumable T" using v w by (simp add: is_resumable_iff fun_eq_iff)
        show ?thesis
          unfolding is_resumable
          apply (rule settles_andthen [OF settles_modifying [where Q = "\<lambda>_ X y. X = T \<and> y = r\<lparr>ru_resumable_conversations := ?rs\<rparr>"]])
          subgoal using v w by auto
          apply (rule settles_read)
          subgoal premises u for u r''
            unfolding fst_conv by (rule settles_weaken [OF both [of u, unfolded fst_conv]]) (use u v w rs in \<open>auto simp: lists_def\<close>)
          done
      qed
      done
  qed
  done

section \<open>Sessions are settled\<close>

definition current_conversation :: "tables \<Rightarrow> session_record \<Rightarrow> conversation_record option" where
  "current_conversation T s = (case s_current_conversation_id s of None \<Rightarrow> None | Some cid \<Rightarrow> tb_conversations T cid)"

text \<open>What becomes of an open session, \<open>R\<close> being the ids of the resumable conversations.\<close>

definition session_verdict :: "string set \<Rightarrow> tables \<Rightarrow> session_record \<Rightarrow> session_state" where
  "session_verdict R T s =
     (case current_conversation T s of
        None \<Rightarrow> Session_READY
      | Some c \<Rightarrow>
          if s_status s \<noteq> Session_RUNNING then Session_READY
          else if c_conversation_id c \<in> R then Session_RUNNING
          else if c_status c = Conv_FAILED then Session_FAILED
          else if c_status c \<in> {Conv_COMPLETED, Conv_WAITING_USER, Conv_CLOSED} then Session_COMPLETED
          else Session_READY)"

definition finished_conversation :: "time \<Rightarrow> conversation_record \<Rightarrow> conversation_record" where
  "finished_conversation now c =
     c\<lparr>c_status := (if c_auto_close_on_final_answer c then Conv_CLOSED else Conv_WAITING_USER),
       c_closure_reason := (if c_auto_close_on_final_answer c then Some ''auto_close'' else c_closure_reason c),
       c_updated_at := now\<rparr>"

definition conversation_finished :: "conversation_record \<Rightarrow> conversation_record \<Rightarrow> bool" where
  "conversation_finished c c' \<longleftrightarrow> (\<exists>now. c' = finished_conversation now c)"

definition session_settled :: "string set \<Rightarrow> tables \<Rightarrow> session_record \<Rightarrow> session_record \<Rightarrow> bool" where
  "session_settled R T s s' \<longleftrightarrow> s_status s' = session_verdict R T s \<and> s_session_id s' = s_session_id s
     \<and> s_current_conversation_id s' = s_current_conversation_id s"

definition answered :: "string set \<Rightarrow> tables \<Rightarrow> session_record set \<Rightarrow> string set" where
  "answered R T ss = {cid. \<exists>c s. tb_conversations T cid = Some c \<and> c_status c = Conv_COMPLETED \<and> s \<in> ss
     \<and> session_verdict R T s = Session_COMPLETED \<and> s_current_conversation_id s = Some cid}"

definition sessions_part :: "string set \<Rightarrow> tables \<Rightarrow> string set \<Rightarrow> session_record set \<Rightarrow> tables \<Rightarrow> bool" where
  "sessions_part R T A ss X \<longleftrightarrow> (\<exists>N S. X = T\<lparr>tb_conversations := N, tb_sessions := S\<rparr>
     \<and> stepped conversation_finished A (tb_conversations T) N
     \<and> stepped (session_settled R T) (s_session_id ` {s \<in> ss. session_verdict R T s \<noteq> Session_RUNNING}) (tb_sessions T) S)"

abbreviation "sessions_after R T ss X \<equiv> sessions_part R T (answered R T ss) ss X"

definition verdict_lists :: "string set \<Rightarrow> tables \<Rightarrow> session_record list \<Rightarrow> string list \<Rightarrow> verdict_lists" where
  "verdict_lists R T ss rs =
     (let ids = (\<lambda>v. map s_session_id (filter (\<lambda>s. session_verdict R T s = v) ss))
      in (ids Session_READY, ids Session_RUNNING, ids Session_FAILED, ids Session_COMPLETED, rs))"

lemma settles_transition_session:
  assumes "tb_sessions X (s_session_id s) = Some s" and "to \<in> SESSION_TRANSITIONS (s_status s)" and "to \<noteq> Session_RUNNING"
  shows "settles (at X l) (recovery_transition_session s to)
    (\<lambda>s' Y r. moved_session to s s' \<and> Y = X\<lparr>tb_sessions := (tb_sessions X)(s_session_id s \<mapsto> s')\<rparr> \<and> lists r = l)"
  unfolding recovery_transition_session_def
proof (rule settles_bnd)
  show "settles (at X l) (in_app (transition_session (s_session_id s) to (Some RESTART_REASON) []))
    (\<lambda>s' Y r. moved_session to s s' \<and> Y = X\<lparr>tb_sessions := (tb_sessions X)(s_session_id s \<mapsto> s')\<rparr> \<and> lists r = l)"
    by (rule settles_in_app, elim conjE)
      (use assms in \<open>auto intro!: achieves_weaken [OF achieves_transition_session] simp: can_transition_def\<close>)
  fix s'
  let ?P = "\<lambda>Y l'. moved_session to s s' \<and> Y = X\<lparr>tb_sessions := (tb_sessions X)(s_session_id s \<mapsto> s')\<rparr> \<and> l' = l"
  show "settles (\<lambda>Y r. ?P Y (lists r))
     (andthen (recovery_record (restart_action ''session'' (s_session_id s) (session_state_value (s_status s))
         (session_state_value (s_status s')) (s_session_id s)) (s_current_conversation_id s) None None None) (ret s'))
     (\<lambda>s' Y r. moved_session to s s' \<and> Y = X\<lparr>tb_sessions := (tb_sessions X)(s_session_id s \<mapsto> s')\<rparr> \<and> lists r = l)"
    by (rule settles_andthen [OF settles_record [where P = ?P] settles_ret]) simp
qed

text \<open>A session moved for good, and the list it is put on.\<close>

definition settled_as :: "session_state \<Rightarrow> session_record \<Rightarrow> tables \<Rightarrow> tables \<Rightarrow> bool" where
  "settled_as to s X Y \<longleftrightarrow> (\<exists>s'. s_status s' = to \<and> s_session_id s' = s_session_id s
     \<and> s_current_conversation_id s' = s_current_conversation_id s \<and> Y = X\<lparr>tb_sessions := (tb_sessions X)(s_session_id s \<mapsto> s')\<rparr>)"

lemma sessions_part_step:
  assumes "sessions_part R T A ss X" and "tb_sessions T (s_session_id s) = Some s" and "settled_as (session_verdict R T s) s X Y"
    and "session_verdict R T s \<noteq> Session_RUNNING"
  shows "sessions_part R T A (insert s ss) Y"
proof -
  obtain N S where X: "X = T\<lparr>tb_conversations := N, tb_sessions := S\<rparr>" "stepped conversation_finished A (tb_conversations T) N"
    "stepped (session_settled R T) (s_session_id ` {s \<in> ss. session_verdict R T s \<noteq> Session_RUNNING}) (tb_sessions T) S"
    using assms(1) unfolding sessions_part_def by blast
  obtain s' where s': "session_settled R T s s'" "Y = X\<lparr>tb_sessions := (tb_sessions X)(s_session_id s \<mapsto> s')\<rparr>"
    using assms(3) unfolding settled_as_def session_settled_def by blast
  have ids: "s_session_id ` {x \<in> insert s ss. session_verdict R T x \<noteq> Session_RUNNING}
      = insert (s_session_id s) (s_session_id ` {x \<in> ss. session_verdict R T x \<noteq> Session_RUNNING})" using assms(4) by auto
  show ?thesis
    unfolding sessions_part_def ids
    by (intro exI [of _ N] exI [of _ "S(s_session_id s \<mapsto> s')"] conjI) (use X s' stepped_upd [OF X(3) assms(2)] in simp_all)
qed

lemma sessions_part_same:
  "sessions_part R T A ss X \<Longrightarrow> session_verdict R T s = Session_RUNNING \<Longrightarrow> sessions_part R T A (insert s ss) X"
proof -
  assume X: "sessions_part R T A ss X" and "session_verdict R T s = Session_RUNNING"
  then have "{x \<in> insert s ss. session_verdict R T x \<noteq> Session_RUNNING} = {x \<in> ss. session_verdict R T x \<noteq> Session_RUNNING}" by auto
  with X show ?thesis unfolding sessions_part_def by simp
qed

lemma sessions_part_answered:
  assumes "sessions_part R T A ss X" and "tb_conversations T cid = Some c"
  shows "sessions_part R T (insert cid A) ss (X\<lparr>tb_conversations := (tb_conversations X)(cid \<mapsto> finished_conversation now c)\<rparr>)"
proof -
  obtain N S where X: "X = T\<lparr>tb_conversations := N, tb_sessions := S\<rparr>" "stepped conversation_finished A (tb_conversations T) N"
    "stepped (session_settled R T) (s_session_id ` {s \<in> ss. session_verdict R T s \<noteq> Session_RUNNING}) (tb_sessions T) S"
    using assms(1) unfolding sessions_part_def by blast
  have "conversation_finished c (finished_conversation now c)" by (auto simp: conversation_finished_def)
  from stepped_upd [OF X(2) assms(2) this] show ?thesis
    unfolding sessions_part_def by (intro exI [of _ "N(cid \<mapsto> finished_conversation now c)"] exI [of _ S]) (use X in simp)
qed

lemma settles_transition_as:
  assumes "tb_sessions X (s_session_id s) = Some s" and "to \<in> SESSION_TRANSITIONS (s_status s)" and "to \<noteq> Session_RUNNING"
    and "\<And>r. lists r = l \<Longrightarrow> lists (f r) = l'"
  shows "settles (at X l) (bnd (recovery_transition_session s to) (\<lambda>_. run_set f)) (\<lambda>_ Y r. settled_as to s X Y \<and> lists r = l')"
proof (rule settles_bnd [OF settles_transition_session [OF assms(1-3)] settles_modifying], elim conjE)
  fix s' Y r assume "moved_session to s s'" and "Y = X\<lparr>tb_sessions := (tb_sessions X)(s_session_id s \<mapsto> s')\<rparr>" and "lists r = l"
  then show "settled_as to s X Y \<and> lists (f r) = l'"
    using assms(4) moved_session_fields [of to s s'] unfolding settled_as_def by blast
qed

lemma settles_make_ready:
  assumes "tb_sessions X (s_session_id s) = Some s" and "s_status s \<in> set OPEN_SESSION_STATES"
  shows "settles (at X (a, b, c, d, e)) (make_session_ready s)
    (\<lambda>_ Y r. settled_as Session_READY s X Y \<and> lists r = (a @ [s_session_id s], b, c, d, e))"
proof (cases "s_status s = Session_RUNNING")
  case True
  have id: "s_session_id s' = s_session_id s" if "moved_session to s s'" for to s' using moved_session_fields(2) [OF that] .
  show ?thesis
    unfolding make_session_ready_def if_P [OF True]
    apply (rule settles_bnd [OF settles_transition_session [OF assms(1)]])
      apply (simp_all add: True)
    apply (rule settles_from, elim conjE)
    subgoal premises p for s' X' r
    proof -
      have s': "tb_sessions X' (s_session_id s') = Some s'" "s_status s' = Session_INTERRUPTING"
        "s_session_id s' = s_session_id s" "s_current_conversation_id s' = s_current_conversation_id s"
        using p moved_session_fields by simp_all
      have ready: "settled_as Session_READY s X Y" if Y: "settled_as Session_READY s' X' Y" for Y
        using Y p s'(3,4) unfolding settled_as_def by auto
      show ?thesis
        by (rule settles_weaken [OF settles_transition_as [OF s'(1), of Session_READY "(a, b, c, d, e)" _ "(a @ [s_session_id s], b, c, d, e)"]])
          (use p s'(2) ready in \<open>auto simp: lists_def\<close>)
    qed
    done
next
  case False
  then have "s_status s = Session_INTERRUPTING" using assms(2) by (auto simp: OPEN_SESSION_STATES_def)
  then show ?thesis
    unfolding make_session_ready_def if_not_P [OF False] bnd_ret
    by (intro settles_transition_as [OF assms(1)]) (auto simp: lists_def)
qed

lemma sessions_after_conversation:
  assumes "sessions_after R T ss X"
  shows "current_conversation X s = None \<longleftrightarrow> current_conversation T s = None"
    and "current_conversation T s = Some c \<Longrightarrow> \<exists>c'. current_conversation X s = Some c' \<and> c_conversation_id c' = c_conversation_id c
       \<and> (c' = c \<and> the (s_current_conversation_id s) \<notin> answered R T ss
          \<or> c_status c = Conv_COMPLETED \<and> c_status c' \<in> {Conv_CLOSED, Conv_WAITING_USER} \<and> the (s_current_conversation_id s) \<in> answered R T ss)"
proof -
  obtain N S where X: "X = T\<lparr>tb_conversations := N, tb_sessions := S\<rparr>" "stepped conversation_finished (answered R T ss) (tb_conversations T) N"
    using assms(1) unfolding sessions_part_def by blast
  have one: "N cid = tb_conversations T cid \<and> cid \<notin> answered R T ss
      \<or> cid \<in> answered R T ss \<and> (\<exists>c c'. tb_conversations T cid = Some c \<and> N cid = Some c' \<and> c_status c = Conv_COMPLETED
          \<and> conversation_finished c c')" for cid
  proof (cases "cid \<in> answered R T ss")
    case True
    then obtain c where c: "tb_conversations T cid = Some c" "c_status c = Conv_COMPLETED" unfolding answered_def by blast
    with steppedD(2) [OF X(2) True c(1)] True show ?thesis by blast
  qed (use steppedD(1) [OF X(2)] in blast)
  have finished: "conversation_finished c c' \<Longrightarrow> c_conversation_id c' = c_conversation_id c \<and> c_status c' \<in> {Conv_CLOSED, Conv_WAITING_USER}" for c c'
    by (auto simp: conversation_finished_def finished_conversation_def split: if_splits)
  show "current_conversation X s = None \<longleftrightarrow> current_conversation T s = None"
    using one X(1) by (auto simp: current_conversation_def split: option.splits) (metis option.distinct(1))+
  show "\<exists>c'. current_conversation X s = Some c' \<and> c_conversation_id c' = c_conversation_id c
       \<and> (c' = c \<and> the (s_current_conversation_id s) \<notin> answered R T ss
          \<or> c_status c = Conv_COMPLETED \<and> c_status c' \<in> {Conv_CLOSED, Conv_WAITING_USER} \<and> the (s_current_conversation_id s) \<in> answered R T ss)"
    if "current_conversation T s = Some c"
  proof -
    obtain cid where cid: "s_current_conversation_id s = Some cid" "tb_conversations T cid = Some c"
      using \<open>current_conversation T s = Some c\<close> by (auto simp: current_conversation_def split: option.splits)
    show ?thesis using one [of cid] cid X(1) finished by (auto simp: current_conversation_def)
  qed
qed

lemma settles_finish_conversation:
  assumes "tb_conversations X (c_conversation_id c) = Some c"
  shows "settles (at X l) (finish_conversation c) (\<lambda>_ Y r. lists r = l \<and> (if c_status c = Conv_COMPLETED
     then \<exists>now. Y = X\<lparr>tb_conversations := (tb_conversations X)(c_conversation_id c \<mapsto> finished_conversation now c)\<rparr> else Y = X))"
proof (cases "c_status c = Conv_COMPLETED")
  case True
  let ?target = "if c_auto_close_on_final_answer c then Conv_CLOSED else Conv_WAITING_USER"
  let ?us = "if ?target = Conv_CLOSED then [Set_closure_reason (Some ''auto_close'')] else []"
  let ?a = "c\<lparr>c_closure_reason := (if c_auto_close_on_final_answer c then Some ''auto_close'' else c_closure_reason c)\<rparr>"
  have eq: "?a\<lparr>c_status := ?target, c_updated_at := now\<rparr> = finished_conversation now c" for now
    by (cases c) (simp add: finished_conversation_def)
  have "achieves X (transition_conversation (c_conversation_id c) ?target (Some RESTART_REASON) ?us)
     (\<lambda>c' Y. (\<exists>now. c' = ?a\<lparr>c_status := ?target, c_updated_at := now\<rparr>) \<and> Y = X\<lparr>tb_conversations := (tb_conversations X)(c_conversation_id c \<mapsto> c')\<rparr>)"
    by (rule achieves_transition_conversation [OF assms])
      (use True in \<open>auto simp: can_transition_def apply_conversation_def reject_managed_conversation_fields_def\<close>)
  then have "achieves X (transition_conversation (c_conversation_id c) ?target (Some RESTART_REASON) ?us)
     (\<lambda>c' Y. \<exists>now. Y = X\<lparr>tb_conversations := (tb_conversations X)(c_conversation_id c \<mapsto> finished_conversation now c)\<rparr>)"
    unfolding eq by (rule achieves_weaken) auto
  then have "settles (at X l) (in_app (transition_conversation (c_conversation_id c) ?target (Some RESTART_REASON) ?us))
     (\<lambda>_ Y r. lists r = l \<and> (\<exists>now. Y = X\<lparr>tb_conversations := (tb_conversations X)(c_conversation_id c \<mapsto> finished_conversation now c)\<rparr>))"
    by (intro settles_in_app) (auto elim!: achieves_weaken)
  then show ?thesis
    unfolding finish_conversation_def whenever_def if_P [OF True] bnd_ret
    by (rule settles_bnd) (rule settles_record [where P = "\<lambda>Y l'. l' = l
      \<and> (\<exists>now. Y = X\<lparr>tb_conversations := (tb_conversations X)(c_conversation_id c \<mapsto> finished_conversation now c)\<rparr>)"])
qed (auto simp: finish_conversation_def whenever_def intro!: settles_ret)

lemma answered_insert:
  assumes "current_conversation T s = Some c"
  shows "answered R T (insert s ss) = (if session_verdict R T s = Session_COMPLETED \<and> c_status c = Conv_COMPLETED
    then insert (the (s_current_conversation_id s)) (answered R T ss) else answered R T ss)"
  using assms by (auto simp: answered_def current_conversation_def split: option.splits)

lemma answered_insert_none: "session_verdict R T s \<noteq> Session_COMPLETED \<Longrightarrow> answered R T (insert s ss) = answered R T ss"
  by (auto simp: answered_def)

lemma sessions_after_session:
  "sessions_part R T A ss X \<Longrightarrow> sid \<notin> s_session_id ` ss \<Longrightarrow> tb_sessions X sid = tb_sessions T sid"
  unfolding sessions_part_def by (auto dest: steppedD(1))

definition settle_as :: "session_record \<Rightarrow> conversation_record option \<Rightarrow> string list \<Rightarrow> unit recovery_act" where
  "settle_as s conversation rs =
     (if s_status s = Session_RUNNING \<and> (case conversation of None \<Rightarrow> False | Some c \<Rightarrow> c_conversation_id c \<in> set rs)
     then run_set (\<lambda>r. r\<lparr>ru_resumable := ru_resumable r @ [s_session_id s]\<rparr>)
     else case (s_status s = Session_RUNNING, conversation) of
       (True, Some c) \<Rightarrow>
         if c_status c = Conv_FAILED
         then bnd (recovery_transition_session s Session_FAILED) (\<lambda>_.
           run_set (\<lambda>r. r\<lparr>ru_failed := ru_failed r @ [s_session_id s]\<rparr>))
         else if c_status c \<in> set FINISHED_CONVERSATION_STATES
         then andthen (finish_conversation c)
           (bnd (recovery_transition_session s Session_COMPLETED) (\<lambda>_.
            run_set (\<lambda>r. r\<lparr>ru_completed := ru_completed r @ [s_session_id s]\<rparr>)))
         else make_session_ready s
     | _ \<Rightarrow> make_session_ready s)"

lemma settle_session_alt:
  "settle_session s = bnd (from_store (\<lambda>st. current_conversation (tables_of st) s)) (\<lambda>conversation.
     bnd (run_get ru_resumable_conversations) (settle_as s conversation))"
  unfolding settle_session_def settle_as_def current_conversation_def tables_get ..

lemma verdict_lists_snoc:
  "verdict_lists R T (ss @ [s]) rs =
     (case verdict_lists R T ss rs of (a, b, c, d, e) \<Rightarrow>
        (if session_verdict R T s = Session_READY then a @ [s_session_id s] else a,
         if session_verdict R T s = Session_RUNNING then b @ [s_session_id s] else b,
         if session_verdict R T s = Session_FAILED then c @ [s_session_id s] else c,
         if session_verdict R T s = Session_COMPLETED then d @ [s_session_id s] else d, e))"
  by (simp add: verdict_lists_def Let_def)

text \<open>One session: the branch the code takes is the verdict, and it is carried out.\<close>

lemma settles_answered:
  assumes X: "sessions_after (set rs) T (set ss) X" and s: "tb_sessions T (s_session_id s) = Some s" "s_status s = Session_RUNNING"
    and new: "s_session_id s \<notin> s_session_id ` set ss" and v: "session_verdict (set rs) T s = Session_COMPLETED"
    and c: "current_conversation T s = Some c" "s_current_conversation_id s = Some (c_conversation_id c)"
    and c': "current_conversation X s = Some c'" "c_conversation_id c' = c_conversation_id c"
      "c' = c \<and> c_conversation_id c \<notin> answered (set rs) T (set ss)
       \<or> c_status c = Conv_COMPLETED \<and> c_status c' \<in> {Conv_CLOSED, Conv_WAITING_USER} \<and> c_conversation_id c \<in> answered (set rs) T (set ss)"
  shows "settles (at X (verdict_lists (set rs) T ss rs)) (andthen (finish_conversation c')
      (bnd (recovery_transition_session s Session_COMPLETED) (\<lambda>_. run_set (\<lambda>r. r\<lparr>ru_completed := ru_completed r @ [s_session_id s]\<rparr>))))
    (\<lambda>_ Y r. sessions_after (set rs) T (set (ss @ [s])) Y \<and> lists r = verdict_lists (set rs) T (ss @ [s]) rs)"
proof -
  let ?A = "answered (set rs) T (insert s (set ss))"
  obtain i j k l m where lists: "verdict_lists (set rs) T ss rs = (i, j, k, l, m)" by (cases "verdict_lists (set rs) T ss rs") auto
  have "tb_conversations T (c_conversation_id c) = Some c" "tb_conversations X (c_conversation_id c') = Some c'"
    using c c'(1,2) by (simp_all add: current_conversation_def)
  note cT = this(1) and cX = this(2)
  have part: "sessions_part (set rs) T ?A (set ss) Y"
    if Y: "if c_status c' = Conv_COMPLETED
       then \<exists>now. Y = X\<lparr>tb_conversations := (tb_conversations X)(c_conversation_id c' \<mapsto> finished_conversation now c')\<rparr> else Y = X" for Y
  proof (cases "c_status c' = Conv_COMPLETED")
    case True
    then have "c' = c" using c'(3) by auto
    with True show ?thesis using Y answered_insert [OF c(1), of "set rs" "set ss"] v c(2) sessions_part_answered [OF X cT] by auto
  next
    case False
    then have "?A = answered (set rs) T (set ss)" using answered_insert [OF c(1), of "set rs" "set ss"] v c(2) c'(3) by auto
    then show ?thesis using Y False X by simp
  qed
  show ?thesis
    unfolding lists
  proof (rule settles_andthen [OF settles_finish_conversation [OF cX]], rule settles_from, elim conjE)
    fix Y and r :: recovery_run
    assume r: "lists r = (i, j, k, l, m)" and Y: "if c_status c' = Conv_COMPLETED
       then \<exists>now. Y = X\<lparr>tb_conversations := (tb_conversations X)(c_conversation_id c' \<mapsto> finished_conversation now c')\<rparr> else Y = X"
    have sY: "tb_sessions Y (s_session_id s) = Some s" using sessions_after_session [OF part [OF Y] new] s(1) by simp
    show "settles (\<lambda>Z q. Z = Y \<and> q = r)
        (bnd (recovery_transition_session s Session_COMPLETED) (\<lambda>_. run_set (\<lambda>r. r\<lparr>ru_completed := ru_completed r @ [s_session_id s]\<rparr>)))
        (\<lambda>_ Y r. sessions_after (set rs) T (set (ss @ [s])) Y \<and> lists r = verdict_lists (set rs) T (ss @ [s]) rs)"
      by (rule settles_weaken [OF settles_transition_as [OF sY, of Session_COMPLETED "(i, j, k, l, m)" _ "(i, j, k, l @ [s_session_id s], m)"]])
        (use v s r lists sessions_part_step [OF part [OF Y] s(1)] in \<open>auto simp: verdict_lists_snoc lists_def\<close>)
  qed
qed

lemma settle_as_verdict:
  assumes "current_conversation T s = Some c"
    and "current_conversation X s = Some c'" "c_conversation_id c' = c_conversation_id c"
    and "c' = c \<or> c_status c = Conv_COMPLETED \<and> c_status c' \<in> {Conv_CLOSED, Conv_WAITING_USER}"
  shows "settle_as s (current_conversation X s) rs =
    (case session_verdict (set rs) T s of
       Session_RUNNING \<Rightarrow> run_set (\<lambda>r. r\<lparr>ru_resumable := ru_resumable r @ [s_session_id s]\<rparr>)
     | Session_FAILED \<Rightarrow> bnd (recovery_transition_session s Session_FAILED) (\<lambda>_.
         run_set (\<lambda>r. r\<lparr>ru_failed := ru_failed r @ [s_session_id s]\<rparr>))
     | Session_COMPLETED \<Rightarrow> andthen (finish_conversation c') (bnd (recovery_transition_session s Session_COMPLETED) (\<lambda>_.
         run_set (\<lambda>r. r\<lparr>ru_completed := ru_completed r @ [s_session_id s]\<rparr>)))
     | _ \<Rightarrow> make_session_ready s)"
    "session_verdict (set rs) T s \<in> {Session_RUNNING, Session_FAILED, Session_COMPLETED, Session_READY}"
    "session_verdict (set rs) T s \<noteq> Session_READY \<Longrightarrow> s_status s = Session_RUNNING"
  using assms by (auto simp: session_verdict_def settle_as_def FINISHED_CONVERSATION_STATES_def split: if_splits)

lemma settle_as_None: "settle_as s None rs = make_session_ready s"
  by (cases "s_status s = Session_RUNNING") (simp_all add: settle_as_def)

lemma settles_as_verdict:
  assumes X: "sessions_after (set rs) T (set ss) X" and s: "tb_sessions T (s_session_id s) = Some s" "s_status s \<in> set OPEN_SESSION_STATES"
    and new: "s_session_id s \<notin> s_session_id ` set ss"
    and filed: "\<And>cid c. tb_conversations T cid = Some c \<Longrightarrow> c_conversation_id c = cid"
  shows "settles (at X (verdict_lists (set rs) T ss rs)) (settle_as s (current_conversation X s) rs)
    (\<lambda>_ Y r. sessions_after (set rs) T (set (ss @ [s])) Y \<and> lists r = verdict_lists (set rs) T (ss @ [s]) rs)" (is "settles ?P _ ?Q")
proof -
  let ?v = "session_verdict (set rs) T s"
  obtain a b c d e where l: "verdict_lists (set rs) T ss rs = (a, b, c, d, e)" by (cases "verdict_lists (set rs) T ss rs") auto
  have sX: "tb_sessions X (s_session_id s) = Some s" using sessions_after_session [OF X new] s(1) by simp
  note step = sessions_part_step [OF X s(1)]
  have ready: "settles ?P (make_session_ready s) ?Q" if "?v = Session_READY"
    unfolding l
    by (rule settles_weaken [OF settles_make_ready [OF sX s(2)]])
      (use that step l in \<open>auto simp: verdict_lists_snoc answered_insert_none\<close>)
  show ?thesis
  proof (cases "current_conversation T s")
    case None
    then show ?thesis using sessions_after_conversation(1) [OF X, of s] ready by (simp add: settle_as_None session_verdict_def)
  next
    case (Some cc)
    then have cid: "s_current_conversation_id s = Some (c_conversation_id cc)"
      using filed by (auto simp: current_conversation_def split: option.splits)
    obtain c' where c': "current_conversation X s = Some c'" "c_conversation_id c' = c_conversation_id cc"
      "c' = cc \<and> c_conversation_id cc \<notin> answered (set rs) T (set ss)
       \<or> c_status cc = Conv_COMPLETED \<and> c_status c' \<in> {Conv_CLOSED, Conv_WAITING_USER} \<and> c_conversation_id cc \<in> answered (set rs) T (set ss)"
      using sessions_after_conversation(2) [OF X Some] cid by auto
    have "c' = cc \<or> c_status cc = Conv_COMPLETED \<and> c_status c' \<in> {Conv_CLOSED, Conv_WAITING_USER}" using c'(3) by blast
    note body = settle_as_verdict [OF Some c'(1,2) this, of rs]
    consider (running) "?v = Session_RUNNING" | (failed) "?v = Session_FAILED" | (completed) "?v = Session_COMPLETED" | (ready) "?v = Session_READY"
      using body(2) by auto
    then show ?thesis
    proof cases
      case running
      then have "sessions_after (set rs) T (set (ss @ [s])) X" using sessions_part_same [OF X running] by (simp add: answered_insert_none)
      then show ?thesis unfolding body(1) running l using running l by (auto intro!: settles_modifying simp: verdict_lists_snoc lists_def)
    next
      case failed
      then show ?thesis
        unfolding body(1) failed l session_state.case
        by (intro settles_weaken [OF settles_transition_as [OF sX, of Session_FAILED "(a, b, c, d, e)" _ "(a, b, c @ [s_session_id s], d, e)"]])
          (use failed step l body(3) in \<open>auto simp: verdict_lists_snoc answered_insert_none lists_def\<close>)
    next
      case completed
      then have run: "s_status s = Session_RUNNING" using body(3) by simp
      show ?thesis
        unfolding body(1) completed session_state.case by (rule settles_answered [OF X s(1) run new completed Some cid c'])
    next
      case ready
      then show ?thesis unfolding body(1) using \<open>?v = Session_READY \<Longrightarrow> settles ?P (make_session_ready s) ?Q\<close> by simp
    qed
  qed
qed

lemma settles_sessions:
  "settles (\<lambda>X r. X = T \<and> lists r = ([], [], [], [], rs)) settle_sessions
     (\<lambda>_ X r. \<exists>ss. sessions_after (set rs) T (set ss) X \<and> lists r = verdict_lists (set rs) T ss rs
        \<and> (\<forall>s. s \<in> set ss \<longleftrightarrow> tb_sessions T (s_session_id s) = Some s \<and> s_status s \<in> set OPEN_SESSION_STATES))"
  unfolding settle_sessions_def
  apply (rule settles_read)
  subgoal premises w for w r
  proof -
    let ?ss = "open_sessions (w_store (fst (w, r)))"
    have filed: "filed (w_store w)" and T: "world w = T" using w by (simp_all add: sane_def)
    have ss: "s \<in> set ?ss \<longleftrightarrow> tb_sessions T (s_session_id s) = Some s \<and> s_status s \<in> set OPEN_SESSION_STATES" for s
      using open_sessions_all(1) [OF filed] T by simp
    have convs: "tb_conversations T cid = Some c \<Longrightarrow> c_conversation_id c = cid" for cid c using filed_keys(4) [OF filed] T by simp
    have distinct: "distinct (map s_session_id ?ss)" using open_sessions_all(2) [OF filed] by simp
    let ?I = "\<lambda>ss X r. sessions_after (set rs) T (set ss) X \<and> lists r = verdict_lists (set rs) T ss rs"
    have loop: "settles (?I []) (for_each ?ss settle_session) (\<lambda>_. ?I ?ss)"
      apply (rule settles_for_each [where I = ?I])
      subgoal premises prems for seen s rest
      proof (rule settles_from, elim conjE)
        fix X and r :: recovery_run
        assume X: "sessions_after (set rs) T (set seen) X" and r: "lists r = verdict_lists (set rs) T seen rs"
        have "s \<in> set ?ss" using prems by simp
        then have s: "tb_sessions T (s_session_id s) = Some s" "s_status s \<in> set OPEN_SESSION_STATES" using ss by simp_all
        have new: "s_session_id s \<notin> s_session_id ` set seen" using distinct unfolding prems by auto
        have rs: "ru_resumable_conversations r = rs" using r by (simp add: lists_def verdict_lists_def Let_def)
        show "settles (\<lambda>Y y. Y = X \<and> y = r) (settle_session s) (\<lambda>_. ?I (seen @ [s]))"
          unfolding settle_session_alt
          apply (rule settles_read)
          subgoal premises v for v rv
            apply (rule settles_read)
            subgoal premises u for u ru
            proof -
              have same: "settle_as s (current_conversation (world (fst (v, rv))) s) (ru_resumable_conversations (snd (u, ru)))
                  = settle_as s (current_conversation X s) rs" using u v rs by simp
              show ?thesis
                unfolding same by (rule settles_weaken [OF settles_as_verdict [OF X s new convs]]) (use u v r in auto)
            qed
            done
          done
      qed
      done
    have start: "?I [] T r" if "lists r = ([], [], [], [], rs)" for r
      using that unfolding sessions_part_def
      by (auto simp: verdict_lists_def answered_def intro!: exI [of _ "tb_conversations T"] exI [of _ "tb_sessions T"] stepped_refl)
    show ?thesis by (rule settles_weaken [OF loop]) (use w start ss in auto)
  qed
  done

end
