(* ===== verification/Restart.thy ===== *)
theory Restart
  imports Settling
begin

text \<open>
  The restart policy as a relation between the tables before and after (\<open>recovered\<close>), that the recovery is an
  implementation of it, and what follows: nothing but resumable work is left, a second run changes nothing, and
  two situations the documentation calls resumable are not.
\<close>

section \<open>The restart policy\<close>

text \<open>The policy table over the records a crash left behind (\<open>T\<close>) and the records after it (\<open>X\<close>).\<close>

definition open_session :: "tables \<Rightarrow> session_record \<Rightarrow> bool" where
  "open_session T s \<longleftrightarrow> tb_sessions T (s_session_id s) = Some s \<and> s_status s \<in> {Session_RUNNING, Session_INTERRUPTING}"

definition answered_ids :: "tables \<Rightarrow> string set" where
  "answered_ids T = answered (resumable_ids T) T {s. open_session T s}"

definition conversation_settled :: "conversation_record \<Rightarrow> conversation_record \<Rightarrow> bool" where
  "conversation_settled c c' \<longleftrightarrow> (if c_status c = Conv_COMPLETED then conversation_finished c c' else conversation_interrupted c c')"

definition recovered :: "tables \<Rightarrow> tables \<Rightarrow> bool" where
  "recovered T X \<longleftrightarrow>
     stepped task_interrupted (running_tasks T \<union> waiting_tasks T (open_plan_keys T)) (tb_tasks T) (tb_tasks X)
     \<and> stepped (plan_interrupted (tb_tasks X)) (open_plan_keys T) (tb_plans T) (tb_plans X)
     \<and> stepped cycle_interrupted (running_cycles T (under_way T \<union> of_open_session T - resumable_ids T)) (tb_cycles T) (tb_cycles X)
     \<and> stepped conversation_settled (under_way T - resumable_ids T \<union> answered_ids T) (tb_conversations T) (tb_conversations X)
     \<and> stepped (session_settled (resumable_ids T) T)
         {sid. \<exists>s. tb_sessions T sid = Some s \<and> open_session T s \<and> session_verdict (resumable_ids T) T s \<noteq> Session_RUNNING}
         (tb_sessions T) (tb_sessions X)
     \<and> tb_messages X = tb_messages T"

lemma recoveredD:
  assumes "recovered T X"
  shows "stepped task_interrupted (running_tasks T \<union> waiting_tasks T (open_plan_keys T)) (tb_tasks T) (tb_tasks X)"
    "stepped (plan_interrupted (tb_tasks X)) (open_plan_keys T) (tb_plans T) (tb_plans X)"
    "stepped cycle_interrupted (running_cycles T (under_way T \<union> of_open_session T - resumable_ids T)) (tb_cycles T) (tb_cycles X)"
    "stepped conversation_settled (under_way T - resumable_ids T \<union> answered_ids T) (tb_conversations T) (tb_conversations X)"
    "stepped (session_settled (resumable_ids T) T)
       {sid. \<exists>s. tb_sessions T sid = Some s \<and> open_session T s \<and> session_verdict (resumable_ids T) T s \<noteq> Session_RUNNING}
       (tb_sessions T) (tb_sessions X)"
    "tb_messages X = tb_messages T"
  using assms unfolding recovered_def by blast+

definition reported :: "tables \<Rightarrow> recovery_report \<Rightarrow> bool" where
  "reported T report \<longleftrightarrow> (\<forall>v ids. (v, ids) \<in> {(Session_READY, rr_sessions_ready report), (Session_RUNNING, rr_sessions_resumable report),
       (Session_FAILED, rr_sessions_failed report), (Session_COMPLETED, rr_sessions_completed report)}
     \<longrightarrow> set ids = {sid. \<exists>s. tb_sessions T sid = Some s \<and> open_session T s \<and> session_verdict (resumable_ids T) T s = v})"

lemma stepped_status:
  assumes "stepped conversation_interrupted (under_way T - resumable_ids T) (tb_conversations T) N"
  shows "N cid = tb_conversations T cid \<and> cid \<notin> under_way T - resumable_ids T
    \<or> (\<exists>c c'. tb_conversations T cid = Some c \<and> N cid = Some c' \<and> c_status c \<in> ACTIVE_CONVERSATION_STATES \<and> c_status c' = Conv_INTERRUPTED
          \<and> c_conversation_id c' = c_conversation_id c \<and> cid \<notin> resumable_ids T)"
proof (cases "cid \<in> under_way T - resumable_ids T")
  case True
  then obtain c where c: "tb_conversations T cid = Some c" "c_status c \<in> ACTIVE_CONVERSATION_STATES" unfolding under_way_def by blast
  obtain c' where "N cid = Some c'" "conversation_interrupted c c'" using steppedD(2) [OF assms True c(1)] by blast
  then show ?thesis using c True by (auto simp: conversation_interrupted_def interrupted_conversation_def)
qed (use steppedD(1) [OF assms] in blast)

lemma verdict_after_dialogue:
  assumes "stepped conversation_interrupted (under_way T - resumable_ids T) (tb_conversations T) (tb_conversations Y)"
    and filed: "\<And>cid c. tb_conversations T cid = Some c \<Longrightarrow> c_conversation_id c = cid"
  shows "session_verdict (resumable_ids T) Y s = session_verdict (resumable_ids T) T s"
proof (cases "s_current_conversation_id s")
  case (Some cid)
  from stepped_status [OF assms(1), of cid] show ?thesis
  proof (elim disjE exE conjE)
    fix c c' assume c: "tb_conversations T cid = Some c" "tb_conversations Y cid = Some c'" "c_status c \<in> ACTIVE_CONVERSATION_STATES"
      "c_status c' = Conv_INTERRUPTED" "c_conversation_id c' = c_conversation_id c" "cid \<notin> resumable_ids T"
    then show ?thesis
      using Some filed [OF c(1)] by (auto simp: session_verdict_def current_conversation_def ACTIVE_CONVERSATION_STATES_def)
  qed (simp add: Some session_verdict_def current_conversation_def)
qed (simp add: session_verdict_def current_conversation_def)

lemma answered_after_dialogue:
  assumes "stepped conversation_interrupted (under_way T - resumable_ids T) (tb_conversations T) (tb_conversations Y)"
    and "\<And>cid c. tb_conversations T cid = Some c \<Longrightarrow> c_conversation_id c = cid"
  shows "answered (resumable_ids T) Y ss = answered (resumable_ids T) T ss"
proof -
  have "(\<exists>c. tb_conversations Y cid = Some c \<and> c_status c = Conv_COMPLETED) \<longleftrightarrow> (\<exists>c. tb_conversations T cid = Some c \<and> c_status c = Conv_COMPLETED)" for cid
    using stepped_status [OF assms(1), of cid]
  proof (elim disjE exE conjE)
    assume "tb_conversations Y cid = tb_conversations T cid"
    then show ?thesis by simp
  qed (auto simp: ACTIVE_CONVERSATION_STATES_def)
  moreover have "session_verdict (resumable_ids T) Y s = session_verdict (resumable_ids T) T s" for s
    by (rule verdict_after_dialogue [OF assms])
  moreover have "answered (resumable_ids T) Z ss = {cid. (\<exists>c. tb_conversations Z cid = Some c \<and> c_status c = Conv_COMPLETED)
      \<and> (\<exists>s \<in> ss. session_verdict (resumable_ids T) Z s = Session_COMPLETED \<and> s_current_conversation_id s = Some cid)}" for Z
    by (auto simp: answered_def)
  ultimately show ?thesis by simp
qed

text \<open>The three phases together are the policy.\<close>

lemma phases_recover:
  assumes work: "work_after T T1" and dialogue: "dialogue_after T1 T2" and sessions: "sessions_after (resumable_ids T1) T2 ss X"
    and ss: "\<And>s. s \<in> ss \<longleftrightarrow> open_session T2 s"
    and filed: "\<And>cid c. tb_conversations T cid = Some c \<Longrightarrow> c_conversation_id c = cid"
      "\<And>sid s. tb_sessions T sid = Some s \<Longrightarrow> s_session_id s = sid"
  shows "recovered T X"
proof -
  obtain M N where T1: "T1 = T\<lparr>tb_tasks := M, tb_plans := N\<rparr>"
    and tasks: "stepped task_interrupted (running_tasks T \<union> waiting_tasks T (open_plan_keys T)) (tb_tasks T) M"
    and plans: "stepped (plan_interrupted M) (open_plan_keys T) (tb_plans T) N"
    using work unfolding work_after_def by blast
  have R: "resumable_ids T1 = resumable_ids T" using resumable_cong [of T1 T] T1 by simp
  obtain C D where T2: "T2 = T1\<lparr>tb_cycles := C, tb_conversations := D\<rparr>"
    and cycles: "stepped cycle_interrupted (running_cycles T1 (under_way T1 \<union> of_open_session T1 - resumable_ids T1)) (tb_cycles T1) C"
    and convs: "stepped conversation_interrupted (under_way T1 - resumable_ids T1) (tb_conversations T1) D"
    using dialogue unfolding dialogue_after_def by blast
  have same: "under_way T1 = under_way T" "of_open_session T1 = of_open_session T" "\<And>S. running_cycles T1 S = running_cycles T S"
    by (simp_all add: T1 under_way_def of_open_session_def running_cycles_def)
  have convs': "stepped conversation_interrupted (under_way T - resumable_ids T) (tb_conversations T) (tb_conversations T2)"
    using convs R T1 T2 same by simp
  have ss': "ss = {s. open_session T s}" using ss T1 T2 by (auto simp: open_session_def)
  have verdict: "session_verdict (resumable_ids T) T2 s = session_verdict (resumable_ids T) T s" for s
    by (rule verdict_after_dialogue [OF convs' filed(1)])
  have answered: "answered (resumable_ids T1) T2 ss = answered_ids T"
    unfolding R answered_ids_def ss' by (rule answered_after_dialogue [OF convs' filed(1)])
  obtain E S where X: "X = T2\<lparr>tb_conversations := E, tb_sessions := S\<rparr>"
    and finished: "stepped conversation_finished (answered_ids T) (tb_conversations T2) E"
    and settled: "stepped (session_settled (resumable_ids T1) T2) (s_session_id ` {s \<in> ss. session_verdict (resumable_ids T1) T2 s \<noteq> Session_RUNNING}) (tb_sessions T2) S"
    using sessions unfolding sessions_part_def answered by blast
  have "stepped conversation_settled (under_way T - resumable_ids T \<union> answered_ids T) (tb_conversations T) E"
    unfolding stepped_def
  proof (intro allI)
    fix cid
    have A: "\<exists>c. tb_conversations T cid = Some c \<and> c_status c = Conv_COMPLETED" if "cid \<in> answered_ids T"
      using that unfolding answered_ids_def answered_def by blast
    show "if cid \<in> under_way T - resumable_ids T \<union> answered_ids T
       then \<exists>r r'. tb_conversations T cid = Some r \<and> E cid = Some r' \<and> conversation_settled r r' else E cid = tb_conversations T cid"
    proof (cases "cid \<in> answered_ids T")
      case True
      then obtain c where c: "tb_conversations T cid = Some c" "c_status c = Conv_COMPLETED" using A by blast
      then have "cid \<notin> under_way T" by (auto simp: under_way_def ACTIVE_CONVERSATION_STATES_def)
      then have "tb_conversations T2 cid = Some c" using steppedD(1) [OF convs'] c(1) by simp
      then show ?thesis using steppedD(2) [OF finished True] c True by (auto simp: conversation_settled_def)
    next
      case unanswered: False
      then have E: "E cid = tb_conversations T2 cid" by (rule steppedD(1) [OF finished])
      show ?thesis
      proof (cases "cid \<in> under_way T - resumable_ids T")
        case True
        then obtain c where c: "tb_conversations T cid = Some c" "c_status c \<noteq> Conv_COMPLETED"
          by (auto simp: under_way_def ACTIVE_CONVERSATION_STATES_def)
        then show ?thesis using steppedD(2) [OF convs' True c(1)] True E by (auto simp: conversation_settled_def)
      next
        case False
        with unanswered have "cid \<notin> under_way T - resumable_ids T \<union> answered_ids T" by simp
        then show ?thesis using E steppedD(1) [OF convs' False] by (simp only: if_False simp_thms)
      qed
    qed
  qed
  note conversations = this
  have ids: "s_session_id ` {s \<in> ss. session_verdict (resumable_ids T1) T2 s \<noteq> Session_RUNNING}
      = {sid. \<exists>s. tb_sessions T sid = Some s \<and> open_session T s \<and> session_verdict (resumable_ids T) T s \<noteq> Session_RUNNING}"
  proof -
    have "open_session T s \<Longrightarrow> tb_sessions T (s_session_id s) = Some s" for s by (simp add: open_session_def)
    then show ?thesis unfolding ss' R verdict using filed(2) by blast
  qed
  have settled_same: "session_settled (resumable_ids T1) T2 = session_settled (resumable_ids T) T"
    by (simp add: session_settled_def verdict R fun_eq_iff)
  have X_fields: "tb_tasks X = M" "tb_plans X = N" "tb_cycles X = C" "tb_conversations X = E" "tb_sessions X = S" "tb_messages X = tb_messages T"
    "tb_cycles T1 = tb_cycles T" "tb_sessions T2 = tb_sessions T"
    by (simp_all add: X T2 T1)
  show ?thesis
    unfolding recovered_def X_fields(1-5)
    using tasks plans cycles [unfolded R same X_fields] conversations settled [unfolded ids settled_same X_fields] X_fields(6) by blast
qed

definition phases :: "tables \<Rightarrow> tables \<Rightarrow> verdict_lists \<Rightarrow> bool" where
  "phases T X l \<longleftrightarrow> (\<exists>T1 T2 ss rs. work_after T T1 \<and> dialogue_after T1 T2 \<and> set rs = resumable_ids T1
     \<and> sessions_after (set rs) T2 (set ss) X \<and> l = verdict_lists (set rs) T2 ss rs \<and> (\<forall>s. s \<in> set ss \<longleftrightarrow> open_session T2 s))"

lemma settles_phases:
  "settles (at T ([], [], [], [], []))
     (andthen (interrupt_running_tasks platform) (andthen interrupt_pending_tasks_and_plans (andthen settle_conversations settle_sessions)))
     (\<lambda>_ X r. phases T X (lists r))"
proof (rule settles_andthen [OF settles_running_tasks], rule settles_andthen [OF settles_pending_work], rule settles_from, elim conjE)
  fix T1 and r :: recovery_run assume T1: "work_after T T1" and r: "lists r = ([], [], [], [], [])"
  have "settles (at T1 ([], [], [], [], [])) (andthen settle_conversations settle_sessions) (\<lambda>_ X r. phases T X (lists r))"
  proof (rule settles_andthen [OF settles_dialogue], rule settles_from, elim conjE exE)
    fix T2 and r :: recovery_run and rs
    assume T2: "dialogue_after T1 T2" and rs: "set rs = resumable_ids T1" "lists r = ([], [], [], [], rs)"
    show "settles (\<lambda>X y. X = T2 \<and> y = r) settle_sessions (\<lambda>_ X r. phases T X (lists r))"
    proof (rule settles_weaken [OF settles_sessions [of T2 rs]])
      fix X and q :: recovery_run
      assume "\<exists>ss. sessions_after (set rs) T2 (set ss) X \<and> lists q = verdict_lists (set rs) T2 ss rs
         \<and> (\<forall>s. s \<in> set ss \<longleftrightarrow> tb_sessions T2 (s_session_id s) = Some s \<and> s_status s \<in> set OPEN_SESSION_STATES)"
      then obtain ss where "sessions_after (set rs) T2 (set ss) X" "lists q = verdict_lists (set rs) T2 ss rs"
        "\<forall>s. s \<in> set ss \<longleftrightarrow> open_session T2 s"
        by (auto simp: open_session_def OPEN_SESSION_STATES_def)
      with T1 T2 rs(1) show "phases T X (lists q)" unfolding phases_def by blast
    qed (use rs(2) in simp)
  qed
  then show "settles (\<lambda>X y. X = T1 \<and> y = r) (andthen settle_conversations settle_sessions) (\<lambda>_ X r. phases T X (lists r))"
    by (rule settles_weaken) (use r in simp)
qed

lemma phases_policy:
  assumes "phases T X (lists r)"
    and filed: "\<And>cid c. tb_conversations T cid = Some c \<Longrightarrow> c_conversation_id c = cid"
      "\<And>sid s. tb_sessions T sid = Some s \<Longrightarrow> s_session_id s = sid"
  shows "recovered T X" "reported T (run_report r now)"
proof -
  obtain T1 T2 ss rs where p: "work_after T T1" "dialogue_after T1 T2" "set rs = resumable_ids T1"
    "sessions_after (set rs) T2 (set ss) X" "lists r = verdict_lists (set rs) T2 ss rs" "\<forall>s. s \<in> set ss \<longleftrightarrow> open_session T2 s"
    using assms(1) unfolding phases_def by blast
  show "recovered T X" using p filed by (intro phases_recover [of T T1 T2 "set ss" X]) simp_all
  obtain M N where T1: "T1 = T\<lparr>tb_tasks := M, tb_plans := N\<rparr>" using p(1) unfolding work_after_def by blast
  obtain C D where T2: "T2 = T1\<lparr>tb_cycles := C, tb_conversations := D\<rparr>"
    and convs: "stepped conversation_interrupted (under_way T1 - resumable_ids T1) (tb_conversations T1) D"
    using p(2) unfolding dialogue_after_def by blast
  have R: "set rs = resumable_ids T" using p(3) resumable_cong [of T1 T] T1 by simp
  have "stepped conversation_interrupted (under_way T - resumable_ids T) (tb_conversations T) (tb_conversations T2)"
    using convs p(3) R by (simp add: T1 T2 under_way_def)
  then have verdict: "session_verdict (set rs) T2 s = session_verdict (resumable_ids T) T s" for s
    unfolding R by (rule verdict_after_dialogue [OF _ filed(1)])
  have ss: "s \<in> set ss \<longleftrightarrow> open_session T s" for s using p(6) by (simp add: T1 T2 open_session_def)
  have "set (map s_session_id (filter (\<lambda>s. session_verdict (set rs) T2 s = v) ss))
      = {sid. \<exists>s. tb_sessions T sid = Some s \<and> open_session T s \<and> session_verdict (resumable_ids T) T s = v}" for v
  proof -
    have "open_session T s \<Longrightarrow> tb_sessions T (s_session_id s) = Some s" for s by (simp add: open_session_def)
    then show ?thesis using filed(2) ss verdict by fastforce
  qed
  then show "reported T (run_report r now)"
    using p(5) unfolding reported_def by (auto simp: lists_def verdict_lists_def Let_def run_report_def)
qed

lemma settles_recovery:
  assumes "\<And>cid c. tb_conversations T cid = Some c \<Longrightarrow> c_conversation_id c = cid"
    and "\<And>sid s. tb_sessions T sid = Some s \<Longrightarrow> s_session_id s = sid"
  shows "settles (at T ([], [], [], [], [])) (recovery_steps platform) (\<lambda>report X _. recovered T X \<and> reported T report)"
  unfolding recovery_steps_def bnd_ret
  apply (rule settles_read)
  subgoal premises w for w r
  proof -
    have flat: "andthen a (andthen b (andthen c (andthen d e))) = andthen (andthen a (andthen b (andthen c d))) e" for a b c :: "unit recovery_act" and d :: "unit recovery_act" and e :: "recovery_report recovery_act"
      by (rule ext) (simp add: andthen_run split: sum.splits prod.splits)
    have start: "settles (at T ([], [], [], [], [])) (announce ty touched payload) (\<lambda>_. at T ([], [], [], [], []))" for ty touched payload
      by (rule settles_announce [where P = "\<lambda>X l. X = T \<and> l = ([], [], [], [], [])"])
    have policy: "recovered T X \<and> reported T (run_report r now)" if "phases T X (lists r)" for X r now
      using phases_policy [OF that] assms by simp
    show ?thesis
      unfolding flat
      apply (rule settles_weaken [where P' = "at T ([], [], [], [], [])" and Q' = "\<lambda>report X _. recovered T X \<and> reported T report"])
        apply (rule settles_andthen [OF start settles_andthen [OF settles_phases settles_bnd [OF settles_clock]]])
        apply (rule settles_read)
      subgoal premises v for now v rv
      proof -
        have "settles (\<lambda>X r. phases T X (lists r)) (announce ty touched payload) (\<lambda>_ X r. phases T X (lists r))" for ty touched payload
          by (rule settles_announce)
        then have "settles (\<lambda>X r. phases T X (lists r)) (andthen (announce ty touched payload) (ret report))
          (\<lambda>rep X r. phases T X (lists r) \<and> rep = report)" for ty touched payload report
          by (rule settles_andthen) (simp add: settles_ret)
        then show ?thesis
        proof (rule settles_weaken, goal_cases)
          case (2 report X r)
          have "phases T (world v) (lists rv)" using v(2) by simp
          then show ?case using 2 policy by auto
        qed (use v in auto)
      qed
      using w by auto
  qed
  done

section \<open>After a recovery\<close>

lemma sessions_recovered:
  assumes "recovered T X" and "tb_sessions X sid = Some s'" and "s_status s' \<in> {Session_RUNNING, Session_INTERRUPTING}"
    and filed: "\<And>sid s. tb_sessions T sid = Some s \<Longrightarrow> s_session_id s = sid"
  shows "tb_sessions T sid = Some s' \<and> open_session T s' \<and> session_verdict (resumable_ids T) T s' = Session_RUNNING"
proof -
  let ?K = "{sid. \<exists>s. tb_sessions T sid = Some s \<and> open_session T s \<and> session_verdict (resumable_ids T) T s \<noteq> Session_RUNNING}"
  have st: "stepped (session_settled (resumable_ids T) T) ?K (tb_sessions T) (tb_sessions X)" by (rule recoveredD(5) [OF assms(1)])
  have "sid \<notin> ?K"
  proof
    assume K: "sid \<in> ?K"
    then obtain s where s: "tb_sessions T sid = Some s" "session_verdict (resumable_ids T) T s \<noteq> Session_RUNNING" by blast
    with steppedD(2) [OF st K] assms(2) have "s_status s' \<noteq> Session_RUNNING" "s_status s' = session_verdict (resumable_ids T) T s"
      by (auto simp: session_settled_def)
    moreover have "session_verdict (resumable_ids T) T s \<noteq> Session_INTERRUPTING"
      by (auto simp: session_verdict_def split: option.splits if_splits)
    ultimately show False using assms(3) by auto
  qed
  moreover from this have "tb_sessions T sid = Some s'" using steppedD(1) [OF st] assms(2) by simp
  moreover from this have "open_session T s'" using filed assms(3) by (simp add: open_session_def)
  ultimately show ?thesis by blast
qed

lemma conversations_recovered:
  assumes "recovered T X"
  shows "tb_conversations X cid = tb_conversations T cid \<and> cid \<notin> under_way T - resumable_ids T
    \<or> (\<exists>c c'. tb_conversations T cid = Some c \<and> tb_conversations X cid = Some c' \<and> c_session_id c' = c_session_id c
        \<and> c_status c' \<in> {Conv_INTERRUPTED, Conv_CLOSED, Conv_WAITING_USER} \<and> cid \<notin> resumable_ids T)"
proof -
  let ?K = "under_way T - resumable_ids T \<union> answered_ids T"
  have st: "stepped conversation_settled ?K (tb_conversations T) (tb_conversations X)" by (rule recoveredD(4) [OF assms])
  show ?thesis
  proof (cases "cid \<in> ?K")
    case True
    obtain c where c: "tb_conversations T cid = Some c" using steppedD(3) [OF st True] by blast
    have "cid \<notin> resumable_ids T" using True by (auto simp: resumable_ids_def answered_ids_def answered_def resumable_def)
    obtain c' where c': "tb_conversations X cid = Some c'" "conversation_settled c c'" using steppedD(2) [OF st True c] by blast
    then have "c_session_id c' = c_session_id c \<and> c_status c' \<in> {Conv_INTERRUPTED, Conv_CLOSED, Conv_WAITING_USER}"
      by (auto simp: conversation_settled_def conversation_finished_def conversation_interrupted_def finished_conversation_def
          interrupted_conversation_def split: if_splits)
    with c c'(1) \<open>cid \<notin> resumable_ids T\<close> show ?thesis by blast
  next
    case False
    then show ?thesis using steppedD(1) [OF st False] by blast
  qed
qed

text \<open>What was resumable still is, and nothing else is under way.\<close>

lemma resumable_recovered:
  assumes rec: "recovered T X" and "cid \<in> resumable_ids T"
    and filed: "\<And>sid s. tb_sessions T sid = Some s \<Longrightarrow> s_session_id s = sid" "\<And>cid c. tb_conversations T cid = Some c \<Longrightarrow> c_conversation_id c = cid"
  shows "cid \<in> resumable_ids X"
proof -
  obtain c where c: "tb_conversations T cid = Some c" "resumable T c" using assms(2) unfolding resumable_ids_def by blast
  then have cX: "tb_conversations X cid = Some c" using conversations_recovered [OF rec, of cid] assms(2) by auto
  obtain s where s: "tb_sessions T (c_session_id c) = Some s" "s_status s = Session_RUNNING" "s_current_conversation_id s = Some cid"
    using c filed(2) [OF c(1)] unfolding resumable_def by blast
  have "session_verdict (resumable_ids T) T s = Session_RUNNING"
    using s c(1) filed(2) [OF c(1)] assms(2) by (simp add: session_verdict_def current_conversation_def)
  then have "c_session_id c \<notin> {sid. \<exists>s. tb_sessions T sid = Some s \<and> open_session T s \<and> session_verdict (resumable_ids T) T s \<noteq> Session_RUNNING}"
    using s(1) by auto
  then have sX: "tb_sessions X (c_session_id c) = Some s" using steppedD(1) [OF recoveredD(5) [OF rec]] s(1) by simp
  have "\<not> rotating_parent X c"
  proof
    assume "rotating_parent X c"
    then obtain pid p where p: "c_parent_conversation_id c = Some pid" "tb_conversations X pid = Some p" "c_status p = Conv_ROTATING"
      unfolding rotating_parent_def by blast
    then have "tb_conversations T pid = Some p" using conversations_recovered [OF rec, of pid] by auto
    then show False using c(2) p unfolding resumable_def rotating_parent_def by blast
  qed
  moreover have "tb_messages X = tb_messages T" by (rule recoveredD(6) [OF rec])
  ultimately have "resumable X c" using c(2) sX s filed(2) [OF c(1)] unfolding resumable_def by simp
  then show ?thesis using cX unfolding resumable_ids_def by blast
qed

lemma under_way_recovered:
  assumes "recovered T X" and "cid \<in> under_way X"
  shows "cid \<in> resumable_ids T"
proof -
  obtain c where c: "tb_conversations X cid = Some c" "c_status c \<in> ACTIVE_CONVERSATION_STATES" using assms(2) unfolding under_way_def by blast
  then have "tb_conversations T cid = Some c" "cid \<notin> under_way T - resumable_ids T"
    using conversations_recovered [OF assms(1), of cid] by (auto simp: ACTIVE_CONVERSATION_STATES_def)
  then show ?thesis using c(2) unfolding under_way_def by blast
qed

lemma verdict_recovered:
  assumes rec: "recovered T X" and "open_session X s"
    and filed: "\<And>sid s. tb_sessions T sid = Some s \<Longrightarrow> s_session_id s = sid" "\<And>cid c. tb_conversations T cid = Some c \<Longrightarrow> c_conversation_id c = cid"
  shows "session_verdict (resumable_ids X) X s = Session_RUNNING" "tb_sessions T (s_session_id s) = Some s"
    "\<exists>cid. s_current_conversation_id s = Some cid \<and> cid \<in> resumable_ids X"
proof -
  have T: "tb_sessions T (s_session_id s) = Some s" "open_session T s" "session_verdict (resumable_ids T) T s = Session_RUNNING"
    using sessions_recovered [OF rec _ _ filed(1), of "s_session_id s" s] assms(2) unfolding open_session_def by simp_all
  obtain c where c: "current_conversation T s = Some c" "s_status s = Session_RUNNING" "c_conversation_id c \<in> resumable_ids T"
    using T(3) by (auto simp: session_verdict_def split: option.splits if_splits)
  obtain cid where cid: "s_current_conversation_id s = Some cid" "tb_conversations T cid = Some c" "c_conversation_id c = cid"
    using c(1) filed(2) by (auto simp: current_conversation_def split: option.splits)
  have "tb_conversations X cid = Some c" using conversations_recovered [OF rec, of cid] c(3) cid by auto
  moreover have R: "cid \<in> resumable_ids X" using resumable_recovered [OF rec, of cid] c(3) cid(3) filed by simp
  ultimately show "session_verdict (resumable_ids X) X s = Session_RUNNING"
    using c(2) cid by (simp add: session_verdict_def current_conversation_def)
  show "tb_sessions T (s_session_id s) = Some s" by (rule T(1))
  show "\<exists>cid. s_current_conversation_id s = Some cid \<and> cid \<in> resumable_ids X" using cid(1) R by blast
qed

text \<open>Tables the policy has nothing to do on.\<close>

definition nothing_to_do :: "tables \<Rightarrow> bool" where
  "nothing_to_do X \<longleftrightarrow> running_tasks X = {} \<and> open_plan_keys X = {} \<and> under_way X \<subseteq> resumable_ids X \<and> answered_ids X = {}
     \<and> running_cycles X (under_way X \<union> of_open_session X - resumable_ids X) = {}
     \<and> {sid. \<exists>s. tb_sessions X sid = Some s \<and> open_session X s \<and> session_verdict (resumable_ids X) X s \<noteq> Session_RUNNING} = {}"

lemma nothing_to_recover:
  assumes rec: "recovered T X"
    and filed: "\<And>sid s. tb_sessions T sid = Some s \<Longrightarrow> s_session_id s = sid" "\<And>cid c. tb_conversations T cid = Some c \<Longrightarrow> c_conversation_id c = cid"
  shows "nothing_to_do X"
  unfolding nothing_to_do_def
proof (intro conjI)
  show "running_tasks X = {}"
  proof (rule equals0I)
    fix k assume "k \<in> running_tasks X"
    then obtain t where t: "tb_tasks X k = Some t" "t_status t = Task_RUNNING" by (auto simp: running_tasks_def)
    then show False
      using stepped_kept [OF recoveredD(1) [OF rec] t(1)] task_not_interrupted [of t] by (auto simp: running_tasks_def)
  qed
  show "open_plan_keys X = {}"
  proof (rule equals0I)
    fix k assume "k \<in> open_plan_keys X"
    then obtain p where p: "tb_plans X k = Some p" "p_status p \<in> set OPEN_PLAN_STATES" by (auto simp: open_plan_keys_def)
    then have "\<not> plan_interrupted M a p" for M a by (auto simp: plan_interrupted_def interrupted_plan_def OPEN_PLAN_STATES_def)
    then show False using stepped_kept [OF recoveredD(2) [OF rec] p(1)] p(2) by (auto simp: open_plan_keys_def)
  qed
  show "under_way X \<subseteq> resumable_ids X" using under_way_recovered [OF rec] resumable_recovered [OF rec _ filed] by blast
  show "answered_ids X = {}"
    using verdict_recovered(1) [OF rec _ filed] unfolding answered_ids_def answered_def by auto
  show "{sid. \<exists>s. tb_sessions X sid = Some s \<and> open_session X s \<and> session_verdict (resumable_ids X) X s \<noteq> Session_RUNNING} = {}"
    using verdict_recovered(1) [OF rec _ filed] by auto
  show "running_cycles X (under_way X \<union> of_open_session X - resumable_ids X) = {}"
  proof (rule equals0I)
    fix i assume "i \<in> running_cycles X (under_way X \<union> of_open_session X - resumable_ids X)"
    then obtain cy where cy: "tb_cycles X i = Some cy" "cy_status cy = Cycle_RUNNING"
      "cy_conversation_id cy \<in> of_open_session X" "cy_conversation_id cy \<notin> resumable_ids X"
      using under_way_recovered [OF rec] resumable_recovered [OF rec _ filed] by (auto simp: running_cycles_def)
    then obtain c s where c: "tb_conversations X (cy_conversation_id cy) = Some c" "tb_sessions X (c_session_id c) = Some s"
      "s_status s \<in> {Session_RUNNING, Session_INTERRUPTING}" by (auto simp: of_open_session_def)
    obtain c0 where c0: "tb_conversations T (cy_conversation_id cy) = Some c0" "c_session_id c = c_session_id c0"
      using conversations_recovered [OF rec, of "cy_conversation_id cy"] c(1) by (metis option.inject)
    have "tb_sessions T (c_session_id c) = Some s" using sessions_recovered [OF rec c(2,3) filed(1)] by blast
    then have "cy_conversation_id cy \<in> of_open_session T - resumable_ids T"
      using c0 c(3) cy(4) resumable_recovered [OF rec _ filed] by (auto simp: of_open_session_def)
    moreover have "tb_cycles T i = Some cy"
      and "i \<notin> running_cycles T (under_way T \<union> of_open_session T - resumable_ids T)"
      using stepped_kept [OF recoveredD(3) [OF rec] cy(1)] cycle_not_interrupted [of cy] cy(2) by auto
    ultimately show False using cy(2) by (auto simp: running_cycles_def)
  qed
qed

lemma recovered_again:
  assumes rec: "recovered X Y" and "nothing_to_do X"
  shows "Y = X"
proof -
  note idle = assms(2) [unfolded nothing_to_do_def]
  have "waiting_tasks X {} = {}" by (simp add: waiting_tasks_def)
  then have "running_tasks X \<union> waiting_tasks X {} = {}" "open_plan_keys X = {}"
    "running_cycles X (under_way X \<union> of_open_session X - resumable_ids X) = {}" "under_way X - resumable_ids X \<union> answered_ids X = {}"
    "{sid. \<exists>s. tb_sessions X sid = Some s \<and> open_session X s \<and> session_verdict (resumable_ids X) X s \<noteq> Session_RUNNING} = {}"
    using idle by auto
  note d = recoveredD [OF rec, unfolded this]
  show "Y = X" using d(1-5) [THEN stepped_none] d(6) by (cases X; cases Y) simp
qed

text \<open>The start of \<open>recover\<close>: the report of the call begins empty.\<close>

lemma recover_achieves:
  assumes "healthy w" and "filed (w_store w)"
  shows "\<exists>report w'. recover platform w = (Inr report, w') \<and> healthy w' \<and> filed (w_store w')
     \<and> recovered (world w) (world w') \<and> reported (world w) report"
proof -
  let ?now = "e_now (w_env w) (w_clock_reads w)"
  let ?w = "w\<lparr>w_clock_reads := w_clock_reads w + 1\<rparr>"
  have "sane ?w" using assms healthy_clock by (simp add: sane_def)
  moreover have "lists (new_run ?now) = ([], [], [], [], [])" by (simp add: lists_def new_run_def)
  ultimately obtain report w' r' where "recovery_steps platform (?w, new_run ?now) = (Inr report, (w', r'))" "sane w'"
    "recovered (world w) (world w')" "reported (world w) report"
    using settlesD [OF settles_recovery [of "world w" platform], of ?w "new_run ?now"] filed_keys(4,5) [OF assms(2)] by auto
  then show ?thesis by (auto simp: recover_def bnd_run clock_now_run sane_def)
qed

text \<open>
  C6. The recovery always completes when the store takes writes, whatever a crash left behind, and does exactly
  what the restart policy says: running tasks, and the waiting tasks of open plans, are interrupted; open plans are
  interrupted with counters recomputed from their tasks; running cycles and conversations under way are
  interrupted unless their conversation is resumable; every open session gets its verdict; every other record
  is left as it was. The report lists the sessions by verdict.
\<close>

theorem recovery_implements_policy:
  assumes "healthy w" and "filed (w_store w)"
  shows "\<exists>report w'. recover platform w = (Inr report, w') \<and> recovered (tables_of (w_store w)) (tables_of (w_store w'))
     \<and> reported (tables_of (w_store w)) report"
  using recover_achieves [OF assms, of platform] by blast

text \<open>
  C7. After a recovery nothing is under way but what can be resumed: no task is running, no plan is open, and a
  conversation that is still active, or the current one of a session that is still running or interrupting, is
  one that the recovery itself would call resumable.
\<close>

theorem recovery_leaves_only_resumable_work:
  assumes "healthy w" and "filed (w_store w)" and "recover platform w = (Inr report, w')"
  shows "find_tasks_in_states (w_store w') [Task_RUNNING] = [] \<and> find_plans_in_states (w_store w') [Plan_PENDING, Plan_RUNNING] = []
     \<and> list_all (is_resumable (w_store w')) (find_conversations_in_states (w_store w') UNDER_WAY_STATES)
     \<and> list_all (\<lambda>s. \<exists>c. s_current_conversation_id s = Some (c_conversation_id c) \<and> is_resumable (w_store w') c
          \<and> get_conversation (w_store w') (c_conversation_id c) = Some c) (open_sessions (w_store w'))"
proof -
  let ?T = "world w" and ?X = "world w'"
  have rec: "recovered ?T ?X" and filed': "filed (w_store w')" using recover_achieves [OF assms(1,2), of platform] assms(3) by auto
  have quiet: "nothing_to_do ?X" by (rule nothing_to_recover [OF rec filed_keys(5) [OF assms(2)] filed_keys(4) [OF assms(2)]])
  note key = filed_keys(4) [OF filed']
  have "t \<notin> set (find_tasks_in_states (w_store w') [Task_RUNNING])" for t
    using quiet set_listings(1) [OF filed', of t "[Task_RUNNING]"] by (auto simp: nothing_to_do_def running_tasks_def)
  then have "find_tasks_in_states (w_store w') [Task_RUNNING] = []" by (metis list.set_intros(1) neq_Nil_conv)
  moreover have "p \<notin> set (find_plans_in_states (w_store w') [Plan_PENDING, Plan_RUNNING])" for p
    using quiet set_listings(2) [OF filed', of p "[Plan_PENDING, Plan_RUNNING]"]
    by (auto simp: nothing_to_do_def open_plan_keys_def OPEN_PLAN_STATES_def)
  then have "find_plans_in_states (w_store w') [Plan_PENDING, Plan_RUNNING] = []" by (metis list.set_intros(1) neq_Nil_conv)
  moreover have "is_resumable (w_store w') c" if "c \<in> set (find_conversations_in_states (w_store w') UNDER_WAY_STATES)" for c
  proof -
    have c: "tb_conversations ?X (c_conversation_id c) = Some c" "c_status c \<in> ACTIVE_CONVERSATION_STATES"
      using that set_listings(3) [OF filed'] by (simp_all add: under_way_states)
    then have "c_conversation_id c \<in> resumable_ids ?X" using quiet unfolding nothing_to_do_def under_way_def by blast
    then show ?thesis using c(1) unfolding is_resumable_iff resumable_ids_def by simp
  qed
  moreover have "\<exists>c. s_current_conversation_id s = Some (c_conversation_id c) \<and> is_resumable (w_store w') c
      \<and> get_conversation (w_store w') (c_conversation_id c) = Some c" if "s \<in> set (open_sessions (w_store w'))" for s
  proof -
    have "open_session ?X s" using that open_sessions_all(1) [OF filed'] by (simp add: open_session_def OPEN_SESSION_STATES_def)
    from verdict_recovered(3) [OF rec this filed_keys(5) [OF assms(2)] filed_keys(4) [OF assms(2)]]
    obtain cid c where "s_current_conversation_id s = Some cid" "tb_conversations ?X cid = Some c" "resumable ?X c"
      unfolding resumable_ids_def by blast
    then show ?thesis using key by (auto simp: is_resumable_iff tables_get)
  qed
  ultimately show ?thesis by (simp add: list_all_iff)
qed

text \<open>
  The recovery is idempotent: a second run, right after the first, completes as well and changes no record.
\<close>

theorem second_recovery_changes_nothing:
  assumes "healthy w" and "filed (w_store w)" and "recover platform w = (Inr report, w')"
  shows "\<exists>again w''. recover platform' w' = (Inr again, w'') \<and> tables_of (w_store w'') = tables_of (w_store w')"
proof -
  have rec: "recovered (world w) (world w')" and w': "healthy w'" "filed (w_store w')"
    using recover_achieves [OF assms(1,2), of platform] assms(3) by auto
  obtain again w'' where again: "recover platform' w' = (Inr again, w'')" "recovered (world w') (world w'')"
    using recover_achieves [OF w', of platform'] by blast
  have "world w'' = world w'"
    by (rule recovered_again [OF again(2) nothing_to_recover [OF rec filed_keys(5) [OF assms(2)] filed_keys(4) [OF assms(2)]]])
  with again show ?thesis by blast
qed

section \<open>What the recovery does not resume\<close>

lemma recovered_interrupts:
  assumes "recovered T X" and "tb_conversations T cid = Some c" and "c_status c \<in> ACTIVE_CONVERSATION_STATES" and "\<not> resumable T c"
  shows "\<exists>c'. tb_conversations X cid = Some c' \<and> c_status c' = Conv_INTERRUPTED"
proof -
  have "cid \<in> under_way T - resumable_ids T \<union> answered_ids T" using assms(2-4) by (auto simp: under_way_def resumable_ids_def)
  from steppedD(2) [OF recoveredD(4) [OF assms(1)] this assms(2)] obtain c' where c': "tb_conversations X cid = Some c'" "conversation_settled c c'"
    by blast
  have "c_status c \<noteq> Conv_COMPLETED" using assms(3) by (auto simp: ACTIVE_CONVERSATION_STATES_def)
  with c'(2) have "c_status c' = Conv_INTERRUPTED"
    by (auto simp: conversation_settled_def conversation_interrupted_def interrupted_conversation_def)
  with c'(1) show ?thesis by blast
qed

lemma recovered_keeps_session:
  assumes "recovered T X" and "tb_sessions T sid = Some s" and "s_status s \<notin> {Session_RUNNING, Session_INTERRUPTING}"
  shows "tb_sessions X sid = Some s"
proof -
  have "sid \<notin> {sid. \<exists>s. tb_sessions T sid = Some s \<and> open_session T s \<and> session_verdict (resumable_ids T) T s \<noteq> Session_RUNNING}"
    using assms(2,3) by (auto simp: open_session_def)
  then show ?thesis using steppedD(1) [OF recoveredD(5) [OF assms(1)]] assms(2) by simp
qed

text \<open>
  C39. A restart breaks a paused session: the session stays paused, as documented, but its conversation, which
  waited for the model with its request posted, is interrupted, so that nothing is left to resume.
\<close>

theorem restart_interrupts_paused_conversation:
  assumes "healthy w" and "filed (w_store w)" and "get_session (w_store w) sid = Some s" and "s_status s = Session_PAUSED"
    and "get_conversation (w_store w) cid = Some c" and "c_session_id c = sid" and "c_status c = Conv_WAITING_MODEL_RESPONSE"
  shows "\<exists>report w' c'. recover platform w = (Inr report, w') \<and> get_session (w_store w') sid = Some s
     \<and> get_conversation (w_store w') cid = Some c' \<and> c_status c' = Conv_INTERRUPTED"
proof -
  obtain report w' where w': "recover platform w = (Inr report, w')" "recovered (world w) (world w')"
    using recover_achieves [OF assms(1,2), of platform] by blast
  have "\<not> resumable (world w) c" using assms(3,4,6) by (simp add: resumable_def tables_get)
  then show ?thesis
    using w' recovered_interrupts [OF w'(2), of cid c] recovered_keeps_session [OF w'(2), of sid s] assms(3-7)
    by (auto simp: tables_get ACTIVE_CONVERSATION_STATES_def)
qed

text \<open>
  C40. A crash in the middle of a correction is not resumed: when the last message of the conversation is a
  correction request, or a reply the application refused, the conversation is interrupted.
\<close>

theorem restart_interrupts_correction:
  assumes "healthy w" and "filed (w_store w)" and "get_conversation (w_store w) cid = Some c" and "c_status c = Conv_WAITING_MODEL_RESPONSE"
    and "list_messages (w_store w) cid None = ms @ [m]" and "m_message_type m = PROTOCOL_CORRECTION_REQUEST \<or> m_direction m = INBOUND"
  shows "\<exists>report w' c'. recover platform w = (Inr report, w') \<and> get_conversation (w_store w') cid = Some c' \<and> c_status c' = Conv_INTERRUPTED"
proof -
  obtain report w' where w': "recover platform w = (Inr report, w')" "recovered (world w) (world w')"
    using recover_achieves [OF assms(1,2), of platform] by blast
  have "c_conversation_id c = cid" using filed_keys(4) [OF assms(2)] assms(3) by (simp add: tables_get)
  then have "\<not> resumable (world w) c" using assms(5,6) by (auto simp: resumable_def tables_of_def)
  then show ?thesis
    using w' recovered_interrupts [OF w'(2), of cid c] assms(3,4) by (auto simp: tables_get ACTIVE_CONVERSATION_STATES_def)
qed

text \<open>Witnesses: the store of a crash in the middle of a plan, and the one of a paused session.\<close>

definition crashed_session :: "session_state \<Rightarrow> session_record" where
  "crashed_session status = (new_session ''s'' ''g'' ''m'' ''u'' sample_budget True 0)\<lparr>s_status := status, s_current_conversation_id := Some ''c''\<rparr>"

definition crashed_plan :: plan_record where
  "crashed_plan = \<lparr>p_plan_id = ''p'', p_session_id = ''s'', p_conversation_id = ''c'', p_cycle_id = ''y'', p_plan_type = Type_EXECUTION_PLAN,
     p_objective = ''o'', p_execution_policy = SEQUENTIAL, p_max_parallel_workers = 1, p_status = Plan_RUNNING, p_stop_reason = None,
     p_task_count = 1, p_completed_task_count = 0, p_failed_task_count = 0, p_skipped_task_count = 0, p_cancelled_task_count = 0,
     p_interrupted_task_count = 0, p_default_max_output_bytes = None, p_state_summary = None, p_started_at = Some 0, p_ended_at = None,
     p_created_at = 0, p_updated_at = 0\<rparr>"

definition crashed_app :: "session_state \<Rightarrow> conversation_state \<Rightarrow> message_record list \<Rightarrow> app" where
  "crashed_app session conversation messages = (fresh_app sample_env)\<lparr>w_store := empty_store\<lparr>
     st_sessions := [(''s'', crashed_session session)], st_conversations := [(''c'', sample_conversation conversation)],
     st_plans := [((''s'', ''p''), crashed_plan)], st_messages := map (\<lambda>m. (m_message_id m, m)) messages\<rparr>\<rparr>"

lemma crashed_app_sane: "healthy (crashed_app x y ms)" "filed (w_store (crashed_app x y ms))"
proof -
  show "healthy (crashed_app x y ms)"
    by (rule healthy_cong [OF healthy_fresh_app [OF inj_sample_uuid]]) (simp_all add: crashed_app_def fresh_app_def empty_store_def)
  show "filed (w_store (crashed_app x y ms))"
    by (simp add: crashed_app_def fresh_app_def empty_store_def filed_def keyed_by_def crashed_session_def crashed_plan_def
        sample_conversation_def new_conversation_def new_session_def)
qed

lemma crashed_records:
  "get_session (w_store (crashed_app x y ms)) ''s'' = Some (crashed_session x)"
  "get_conversation (w_store (crashed_app x y ms)) ''c'' = Some (sample_conversation y)"
  by (simp_all add: crashed_app_def get_session_def get_conversation_def)

theorem recovery_implements_policy_witness:
  "\<exists>report w'. recover None (crashed_app Session_RUNNING Conv_RUNNING_PLAN []) = (Inr report, w')
     \<and> recovered (tables_of (w_store (crashed_app Session_RUNNING Conv_RUNNING_PLAN []))) (tables_of (w_store w'))"
  using recovery_implements_policy [OF crashed_app_sane, of None] by blast

theorem recovery_leaves_only_resumable_work_witness:
  "\<exists>report w'. recover None (crashed_app Session_RUNNING Conv_RUNNING_PLAN []) = (Inr report, w')
     \<and> find_plans_in_states (w_store w') [Plan_PENDING, Plan_RUNNING] = []"
proof -
  obtain report w' where w': "recover None (crashed_app Session_RUNNING Conv_RUNNING_PLAN []) = (Inr report, w')"
    using recover_achieves [OF crashed_app_sane] by blast
  with recovery_leaves_only_resumable_work [OF crashed_app_sane w'] show ?thesis by blast
qed

theorem second_recovery_changes_nothing_witness:
  "\<exists>report w' again w''. recover None (crashed_app Session_RUNNING Conv_RUNNING_PLAN []) = (Inr report, w')
     \<and> recover None w' = (Inr again, w'') \<and> tables_of (w_store w'') = tables_of (w_store w')"
proof -
  obtain report w' where w': "recover None (crashed_app Session_RUNNING Conv_RUNNING_PLAN []) = (Inr report, w')"
    using recover_achieves [OF crashed_app_sane] by blast
  with second_recovery_changes_nothing [OF crashed_app_sane w', of None] show ?thesis by blast
qed

theorem restart_interrupts_paused_conversation_witness:
  "\<exists>report w' c'. recover None (crashed_app Session_PAUSED Conv_WAITING_MODEL_RESPONSE []) = (Inr report, w')
     \<and> get_session (w_store w') ''s'' = Some (crashed_session Session_PAUSED)
     \<and> get_conversation (w_store w') ''c'' = Some c' \<and> c_status c' = Conv_INTERRUPTED"
  by (rule restart_interrupts_paused_conversation [OF crashed_app_sane crashed_records(1) _ crashed_records(2)])
    (simp_all add: crashed_session_def sample_conversation_def new_conversation_def new_session_def)

definition crashed_message :: message_record where
  "crashed_message = \<lparr>m_message_id = ''m'', m_session_id = ''s'', m_conversation_id = ''c'', m_direction = OUTBOUND,
     m_message_type = PROTOCOL_CORRECTION_REQUEST, m_payload = [], m_size_bytes = 0, m_cycle_id = None, m_post_confirmed = True,
     m_posted_at = Some 0, m_received_at = None, m_validation_status = None, m_retransmission_of = None, m_created_at = 0\<rparr>"

theorem restart_interrupts_correction_witness:
  "\<exists>report w' c'. recover None (crashed_app Session_RUNNING Conv_WAITING_MODEL_RESPONSE [crashed_message]) = (Inr report, w')
     \<and> get_conversation (w_store w') ''c'' = Some c' \<and> c_status c' = Conv_INTERRUPTED"
  by (rule restart_interrupts_correction [OF crashed_app_sane crashed_records(2), where ms = "[]" and m = crashed_message])
    (simp_all add: sample_conversation_def new_conversation_def crashed_message_def crashed_app_def list_messages_def by_order_def)

end
