(* ===== verification/Interruption.thy ===== *)
theory Interruption
  imports Tables
begin

text \<open>
  \<open>interruption/handler.py\<close>: the user's interrupt. The handler keeps a cancellation token and the event of the
  protocol loop per session; \<open>interrupt\<close> asks the loop to stop, waits for it for a bounded time, then sweeps what
  is left of the current conversation and puts the session back to \<open>READY\<close>. What runs while the handler
  awaits (the loop, other sessions, the transport) is the argument \<open>surroundings\<close>.
\<close>

section \<open>State\<close>

text \<open>\<open>CancellationToken\<close> of \<open>execution/executor.py\<close>: the first reason is kept.\<close>

record cancellation =
  ct_cancelled :: bool
  ct_reason :: "string option"

definition new_cancellation :: cancellation where
  "new_cancellation = \<lparr>ct_cancelled = False, ct_reason = None\<rparr>"

definition cancel :: "string \<Rightarrow> cancellation \<Rightarrow> cancellation" where
  "cancel reason t = \<lparr>ct_cancelled = True, ct_reason = (case ct_reason t of None \<Rightarrow> Some reason | Some r \<Rightarrow> Some r)\<rparr>"

text \<open>An \<open>asyncio.Event\<close> is a number; \<open>ih_set\<close> are the events that have been set.\<close>

record handler =
  ih_tokens :: "(string, cancellation) dict"
  ih_loops :: "(string, nat) dict"
  ih_events :: nat
  ih_set :: "nat list"
  ih_in_flight :: "string list"

type_synonym 'a handler_act = "(app \<times> handler, exn, 'a) act"

abbreviation h_app :: "'a app_act \<Rightarrow> 'a handler_act" where
  "h_app \<equiv> on_part fst (\<lambda>w s. (w, snd s))"

abbreviation h_store :: "(store \<Rightarrow> 'a) \<Rightarrow> 'a handler_act" where
  "h_store f \<equiv> reading (\<lambda>s. f (w_store (fst s)))"

abbreviation h_get :: "(handler \<Rightarrow> 'a) \<Rightarrow> 'a handler_act" where
  "h_get f \<equiv> reading (\<lambda>s. f (snd s))"

abbreviation h_set :: "(handler \<Rightarrow> handler) \<Rightarrow> unit handler_act" where
  "h_set f \<equiv> modifying (\<lambda>s. (fst s, f (snd s)))"

text \<open>
  The transport and what happens while the handler awaits: \<open>abandon\<close> cancels the calls in flight, the drain ends with the event set in time or not, and the loop may have
  changed the application and the handler; closing a remote conversation may fail, which is ignored.
\<close>

record surroundings =
  su_transport :: bool
  su_abandon :: "app \<times> handler \<Rightarrow> app \<times> handler"
  su_drain :: "app \<times> handler \<Rightarrow> app \<times> handler"
  su_set_in_time :: bool
  su_close_remote :: "string \<Rightarrow> unit handler_act"

record interruption_report =
  ir_session_id :: string
  ir_reason :: string
  ir_requested_at :: time
  ir_completed_at :: time
  ir_duration_ms :: int
  ir_within_timeout :: bool
  ir_loop_drained :: bool
  ir_nothing_to_interrupt :: bool
  ir_interrupted_task_ids :: "string list"
  ir_plan_id :: "string option"
  ir_cycle_id :: "string option"
  ir_conversation_id :: "string option"
  ir_session_status :: session_state

record sweep =
  sw_conversation_id :: "string option"
  sw_plan_id :: "string option"
  sw_cycle_id :: "string option"
  sw_interrupted_task_ids :: "string list"
  sw_interrupted :: "conversation_record list"

definition USER_INTERRUPT_REASON :: string where "USER_INTERRUPT_REASON = ''user_interrupt''"
definition INTERRUPTION_FAILED_REASON :: string where "INTERRUPTION_FAILED_REASON = ''interruption_failed''"
definition IDLE_SESSION_STATES :: "session_state set" where
  "IDLE_SESSION_STATES = {Session_READY, Session_COMPLETED, Session_FAILED}"
definition INTERRUPTIBLE_TASK_STATES :: "task_state set" where
  "INTERRUPTIBLE_TASK_STATES = {Task_RUNNING, Task_PENDING, Task_WAITING_DEPENDENCY}"

section \<open>Tokens and loops\<close>

definition token_for :: "string \<Rightarrow> handler \<Rightarrow> handler" where
  "token_for sid h = (if dict_get (ih_tokens h) sid = None then h\<lparr>ih_tokens := dict_set sid new_cancellation (ih_tokens h)\<rparr> else h)"

definition is_interrupting :: "handler \<Rightarrow> string \<Rightarrow> bool" where
  "is_interrupting h sid = (case dict_get (ih_tokens h) sid of None \<Rightarrow> False | Some t \<Rightarrow> ct_cancelled t)"

definition raise_if_interrupted :: "handler \<Rightarrow> string \<Rightarrow> exn + unit" where
  "raise_if_interrupted h sid =
     (case dict_get (ih_tokens h) sid of
        None \<Rightarrow> Inr ()
      | Some t \<Rightarrow> if ct_cancelled t
                 then Inl (SessionInterruptedError ''InterruptionHandler'' [(''session_id'', JStr sid), (''reason'', jstr_opt (ct_reason t))])
                 else Inr ())"

definition cancel_session :: "string \<Rightarrow> string \<Rightarrow> handler \<Rightarrow> handler" where
  "cancel_session sid reason h =
     (let h' = token_for sid h
      in case dict_get (ih_tokens h') sid of None \<Rightarrow> h' | Some t \<Rightarrow> h'\<lparr>ih_tokens := dict_set sid (cancel reason t) (ih_tokens h')\<rparr>)"

definition register_loop :: "string \<Rightarrow> handler \<Rightarrow> nat \<times> handler" where
  "register_loop sid h = (ih_events h, h\<lparr>ih_loops := dict_set sid (ih_events h) (ih_loops h), ih_events := ih_events h + 1\<rparr>)"

definition loop_finished :: "string \<Rightarrow> handler \<Rightarrow> handler" where
  "loop_finished sid h = (case dict_get (ih_loops h) sid of None \<Rightarrow> h | Some event \<Rightarrow> h\<lparr>ih_set := event # ih_set h\<rparr>)"

definition forget_loop :: "string \<Rightarrow> handler \<Rightarrow> handler" where
  "forget_loop sid h = h\<lparr>ih_loops := filter (\<lambda>(k, _). k \<noteq> sid) (ih_loops h)\<rparr>"

definition drain_loop :: "surroundings \<Rightarrow> string \<Rightarrow> bool handler_act" where
  "drain_loop su sid =
     bnd (h_get (\<lambda>h. dict_get (ih_loops h) sid)) (\<lambda>event.
     bnd (h_get ih_set) (\<lambda>done_events.
     case event of
       None \<Rightarrow> andthen (h_set (forget_loop sid)) (ret True)
     | Some e \<Rightarrow>
         if e \<in> set done_events then andthen (h_set (forget_loop sid)) (ret True)
         else andthen (modifying (su_drain su))
             (andthen (h_set (\<lambda>h. if dict_get (ih_loops h) sid = Some e then forget_loop sid h else h))
              (ret (su_set_in_time su)))))"

section \<open>The sweep\<close>

definition handler_publish ::
  "event_type \<Rightarrow> time \<Rightarrow> string \<Rightarrow> string option \<Rightarrow> string option \<Rightarrow> string option \<Rightarrow> string option \<Rightarrow> details \<Rightarrow> unit handler_act" where
  "handler_publish ty now sid conversation cycle plan task payload =
     h_app (publish \<lparr>ev_event_type = ty, ev_timestamp = now, ev_session_id = sid, ev_conversation_id = conversation,
       ev_cycle_id = cycle, ev_plan_id = plan, ev_task_id = task, ev_payload = payload\<rparr>)"

definition stop_task :: "task_record \<Rightarrow> plan_record \<Rightarrow> string \<Rightarrow> unit handler_act" where
  "stop_task t plan reason =
     andthen (lifting (assert_transition TASK_TRANSITIONS task_state_value (t_status t) Task_INTERRUPTED ''task''))
    (bnd (h_app clock_now) (\<lambda>now.
     bnd (ret (interrupted_task reason now t)) (\<lambda>after.
     andthen (h_app (on_store (transaction (save_task after))))
     (handler_publish TASK_STATE_CHANGED now (p_session_id plan) (Some (p_conversation_id plan)) (Some (p_cycle_id plan))
        (Some (p_plan_id plan)) (Some (t_task_id after))
        (state_change_payload (Some (task_state_value (t_status t))) (task_state_value (t_status after)) (Some reason)
         @ (if t_status t = Task_RUNNING
            then [(''exit_code'', jint_opt (t_exit_code after)), (''duration_ms'', jint_opt (t_duration_ms after)),
                  (''timed_out'', JBool (t_timed_out after)), (''truncated'', JBool (t_truncated after))]
            else []))))))"

definition stop_plan :: "plan_record \<Rightarrow> string \<Rightarrow> plan_record handler_act" where
  "stop_plan plan reason =
     andthen (lifting (assert_transition PLAN_TRANSITIONS plan_state_value (p_status plan) Plan_INTERRUPTED ''plan''))
    (bnd (h_app clock_now) (\<lambda>now.
     bnd (h_store (\<lambda>st. list_tasks st (p_session_id plan) (Some (p_plan_id plan)) None)) (\<lambda>tasks.
     bnd (ret (interrupted_plan reason now tasks plan)) (\<lambda>after.
     andthen (h_app (on_store (transaction (save_plan after))))
    (andthen (handler_publish PLAN_STATE_CHANGED now (p_session_id plan) (Some (p_conversation_id plan)) (Some (p_cycle_id plan))
        (Some (p_plan_id plan)) None
        (state_change_payload (Some (plan_state_value (p_status plan))) (plan_state_value (p_status after)) (Some reason)
         @ [(''stop_reason'', JStr reason)]))
     (ret after))))))"

definition stop_cycle :: "cycle_record \<Rightarrow> string \<Rightarrow> cycle_record handler_act" where
  "stop_cycle cy reason =
     andthen (lifting (assert_transition CYCLE_TRANSITIONS cycle_state_value (cy_status cy) Cycle_INTERRUPTED ''cycle''))
    (bnd (h_app clock_now) (\<lambda>now.
     bnd (ret (interrupted_cycle now cy)) (\<lambda>after.
     andthen (h_app (on_store (transaction (save_cycle after))))
    (andthen (handler_publish CYCLE_ENDED now (cy_session_id cy) (Some (cy_conversation_id cy)) (Some (cy_cycle_id cy)) None None
        (state_change_payload (Some (cycle_state_value (cy_status cy))) (cycle_state_value (cy_status after)) (Some reason)
         @ [(''status'', JStr (cycle_state_value (cy_status after))), (''duration_ms'', JInt (max 0 ((now - cy_started_at cy) div 1000))),
            (''retry_count'', JInt (cy_retry_count after)), (''inbound_message_type'', JNull)]))
     (ret after)))))"

definition sweep_open_plan :: "plan_record \<Rightarrow> string \<Rightarrow> string \<Rightarrow> plan_record handler_act" where
  "sweep_open_plan plan sid reason =
     (if p_status plan \<in> {Plan_PENDING, Plan_RUNNING}
      then bnd (h_store (\<lambda>st. list_tasks st sid (Some (p_plan_id plan)) None)) (\<lambda>tasks.
         andthen (for_each tasks (\<lambda>t. whenever (t_status t \<in> INTERRUPTIBLE_TASK_STATES) (stop_task t plan reason)))
         (stop_plan plan reason))
      else ret plan)"

definition sweep_plan :: "conversation_record \<Rightarrow> string \<Rightarrow> (string option \<times> string list) handler_act" where
  "sweep_plan c reason =
     (case c_current_plan_id c of
        None \<Rightarrow> ret (None, [])
      | Some pid \<Rightarrow>
          bnd (h_store (\<lambda>st. get_plan st (c_session_id c) pid)) (\<lambda>found.
          case found of
            None \<Rightarrow> ret (None, [])
          | Some plan \<Rightarrow>
              bnd (sweep_open_plan plan (c_session_id c) reason) (\<lambda>plan.
              if p_status plan \<noteq> Plan_INTERRUPTED then ret (None, [])
              else bnd (h_store (\<lambda>st. map t_task_id (filter (\<lambda>t. t_status t = Task_INTERRUPTED)
                       (list_tasks st (c_session_id c) (Some pid) None)))) (\<lambda>ids.
                   ret (Some pid, ids)))))"

definition sweep_cycle :: "conversation_record \<Rightarrow> string \<Rightarrow> string option handler_act" where
  "sweep_cycle c reason =
     (case c_current_cycle_id c of
        None \<Rightarrow> ret None
      | Some cycle_id \<Rightarrow>
          bnd (h_store (\<lambda>st. get_cycle st cycle_id)) (\<lambda>found.
          case found of
            None \<Rightarrow> ret None
          | Some cy \<Rightarrow>
              bnd (if cy_status cy = Cycle_RUNNING then stop_cycle cy reason else ret cy) (\<lambda>cy.
              ret (if cy_status cy = Cycle_INTERRUPTED then Some cycle_id else None))))"

definition sweep_conversation :: "conversation_record \<Rightarrow> string \<Rightarrow> conversation_record option handler_act" where
  "sweep_conversation c reason =
     bnd (h_store (\<lambda>st. get_conversation st (c_conversation_id c))) (\<lambda>fresh.
     case fresh of
       None \<Rightarrow> ret None
     | Some f \<Rightarrow>
         if c_status f \<notin> ACTIVE_CONVERSATION_STATES then ret None
         else bnd (h_app (interrupt_conversation (c_conversation_id f) reason)) (\<lambda>c. ret (Some c)))"

definition rotating_parent_of :: "store \<Rightarrow> conversation_record \<Rightarrow> conversation_record option" where
  "rotating_parent_of st c =
     (case c_parent_conversation_id c of
        None \<Rightarrow> None
      | Some pid \<Rightarrow> (case get_conversation st pid of
            None \<Rightarrow> None | Some parent \<Rightarrow> if c_status parent = Conv_ROTATING then Some parent else None))"

definition current_conversation_of :: "store \<Rightarrow> session_record \<Rightarrow> conversation_record option" where
  "current_conversation_of st s =
     (case s_current_conversation_id s of None \<Rightarrow> None | Some cid \<Rightarrow> get_conversation st cid)"

definition opt_list :: "'a option \<Rightarrow> 'a list" where
  "opt_list x = (case x of None \<Rightarrow> [] | Some v \<Rightarrow> [v])"

definition sweep_session :: "string \<Rightarrow> string \<Rightarrow> sweep handler_act" where
  "sweep_session sid reason =
     bnd (h_app (require_session sid)) (\<lambda>session.
     bnd (h_store (\<lambda>st. current_conversation_of st session)) (\<lambda>conversation.
     case conversation of
       None \<Rightarrow> ret \<lparr>sw_conversation_id = s_current_conversation_id session, sw_plan_id = None, sw_cycle_id = None,
                 sw_interrupted_task_ids = [], sw_interrupted = []\<rparr>
     | Some c \<Rightarrow>
         bnd (sweep_plan c reason) (\<lambda>(plan_id, task_ids).
         bnd (sweep_cycle c reason) (\<lambda>cycle_id.
         bnd (sweep_conversation c reason) (\<lambda>interrupted.
         bnd (h_store (\<lambda>st. rotating_parent_of st c)) (\<lambda>parent.
         bnd (case parent of
                None \<Rightarrow> ret None
              | Some p \<Rightarrow> bnd (sweep_plan p reason) (\<lambda>_. bnd (sweep_cycle p reason) (\<lambda>_. sweep_conversation p reason)))
             (\<lambda>interrupted_parent.
         ret \<lparr>sw_conversation_id = s_current_conversation_id session, sw_plan_id = plan_id, sw_cycle_id = cycle_id,
              sw_interrupted_task_ids = task_ids, sw_interrupted = opt_list interrupted @ opt_list interrupted_parent\<rparr>)))))))"

definition close_remote :: "surroundings \<Rightarrow> conversation_record list \<Rightarrow> unit handler_act" where
  "close_remote su conversations =
     whenever (su_transport su)
       (for_each conversations (\<lambda>c. case c_remote_conversation_id c of
          None \<Rightarrow> ret () | Some remote \<Rightarrow> catching (su_close_remote su remote) (\<lambda>_. ret ())))"

section \<open>The procedure\<close>

definition request_payload :: "string \<Rightarrow> conversation_record option \<Rightarrow> details" where
  "request_payload reason conversation =
     [(''reason'', JStr reason), (''conversation_id'', jopt (\<lambda>c. JStr (c_conversation_id c)) conversation),
      (''conversation_state'', jopt (\<lambda>c. JStr (conversation_state_value (c_status c))) conversation),
      (''plan_id'', jstr_opt (Option.bind conversation c_current_plan_id)),
      (''cycle_id'', jstr_opt (Option.bind conversation c_current_cycle_id))]"

definition completion_payload :: "interruption_report \<Rightarrow> details" where
  "completion_payload r =
     [(''reason'', JStr (ir_reason r)), (''duration_ms'', JInt (ir_duration_ms r)), (''within_timeout'', JBool (ir_within_timeout r)),
      (''loop_drained'', JBool (ir_loop_drained r)), (''interrupted_task_ids'', JArr (map JStr (ir_interrupted_task_ids r))),
      (''plan_id'', jstr_opt (ir_plan_id r)), (''cycle_id'', jstr_opt (ir_cycle_id r)),
      (''conversation_id'', jstr_opt (ir_conversation_id r)), (''interrupted_tasks'', JInt (int (length (ir_interrupted_task_ids r)))),
      (''interrupted_plan_id'', jstr_opt (ir_plan_id r)), (''interrupted_cycle_id'', jstr_opt (ir_cycle_id r)),
      (''within_drain_timeout'', JBool (ir_within_timeout r))]"

definition fail_session :: "string \<Rightarrow> unit handler_act" where
  "fail_session sid =
     catching (bnd (h_app (transition_session sid Session_FAILED (Some INTERRUPTION_FAILED_REASON) [])) (\<lambda>_. ret ())) (\<lambda>_. ret ())"

definition is_persistence_error :: "exn \<Rightarrow> bool" where
  "is_persistence_error e = (case e of App_Error n \<Rightarrow> ne_error_type n = PERSISTENCE_ERROR | _ \<Rightarrow> False)"

definition failing_session :: "string \<Rightarrow> 'a handler_act \<Rightarrow> 'a handler_act" where
  "failing_session sid m =
     catching m (\<lambda>e. if is_persistence_error e then andthen (fail_session sid) (throw e) else throw e)"

definition stop_and_sweep :: "surroundings \<Rightarrow> string \<Rightarrow> string \<Rightarrow> conversation_record option \<Rightarrow> time \<Rightarrow> (bool \<times> sweep \<times> session_record) handler_act" where
  "stop_and_sweep su sid reason conversation requested_at =
     andthen (handler_publish INTERRUPTION_REQUESTED requested_at sid (map_option c_conversation_id conversation) None None None
        (request_payload reason conversation))
    (andthen (h_set (cancel_session sid reason))
    (andthen (whenever (su_transport su) (modifying (su_abandon su)))
    (bnd (drain_loop su sid) (\<lambda>drained.
     bnd (sweep_session sid reason) (\<lambda>sweep.
     andthen (close_remote su (sw_interrupted sweep))
    (bnd (h_app (transition_session sid Session_READY (Some reason) [])) (\<lambda>ready.
     ret (drained, sweep, ready))))))))"

definition run_interruption :: "surroundings \<Rightarrow> int \<Rightarrow> session_record \<Rightarrow> string \<Rightarrow> interruption_report handler_act" where
  "run_interruption su timeout session reason =
     bnd (ret (s_session_id session)) (\<lambda>sid.
     bnd (h_app clock_now) (\<lambda>requested_at.
     bnd (h_app clock_monotonic_ms) (\<lambda>t0.
     bnd (h_store (\<lambda>st. current_conversation_of st session)) (\<lambda>conversation.
     andthen (whenever (s_status session = Session_RUNNING)
        (bnd (h_app (transition_session sid Session_INTERRUPTING (Some reason) [])) (\<lambda>_. ret ())))
    (bnd (failing_session sid (stop_and_sweep su sid reason conversation requested_at)) (\<lambda>(drained, sweep, ready).
     andthen (h_set (\<lambda>h. h\<lparr>ih_tokens := dict_set sid new_cancellation (ih_tokens h)\<rparr>))
    (bnd (h_app clock_now) (\<lambda>completed_at.
     bnd (h_app clock_monotonic_ms) (\<lambda>t1.
     bnd (ret \<lparr>ir_session_id = sid, ir_reason = reason, ir_requested_at = requested_at, ir_completed_at = completed_at,
        ir_duration_ms = max 0 (t1 - t0), ir_within_timeout = (max 0 (t1 - t0) \<le> timeout), ir_loop_drained = drained,
        ir_nothing_to_interrupt = False, ir_interrupted_task_ids = sw_interrupted_task_ids sweep, ir_plan_id = sw_plan_id sweep,
        ir_cycle_id = sw_cycle_id sweep, ir_conversation_id = sw_conversation_id sweep, ir_session_status = s_status ready\<rparr>) (\<lambda>report.
     andthen (handler_publish INTERRUPTION_COMPLETED completed_at sid (sw_conversation_id sweep) None None None (completion_payload report))
     (ret report)))))))))))"

definition idle_report :: "session_record \<Rightarrow> string \<Rightarrow> time \<Rightarrow> interruption_report" where
  "idle_report session reason now =
     \<lparr>ir_session_id = s_session_id session, ir_reason = reason, ir_requested_at = now, ir_completed_at = now, ir_duration_ms = 0,
      ir_within_timeout = True, ir_loop_drained = True, ir_nothing_to_interrupt = True, ir_interrupted_task_ids = [], ir_plan_id = None,
      ir_cycle_id = None, ir_conversation_id = s_current_conversation_id session, ir_session_status = s_status session\<rparr>"

text \<open>\<open>None\<close> is the caller that awaits the report of the interruption in flight.\<close>

definition interrupt :: "surroundings \<Rightarrow> int \<Rightarrow> string \<Rightarrow> string \<Rightarrow> interruption_report option handler_act" where
  "interrupt su timeout sid reason =
     bnd (h_get (\<lambda>h. sid \<in> set (ih_in_flight h))) (\<lambda>pending.
     if pending then ret None
     else bnd (h_store (\<lambda>st. get_session st sid)) (\<lambda>found.
       case found of
         None \<Rightarrow> throw (Other_Exn ''KeyError'' (''unknown session: '' @ sid))
       | Some session \<Rightarrow>
           if s_status session \<in> IDLE_SESSION_STATES
           then bnd (h_app clock_now) (\<lambda>now. ret (Some (idle_report session reason now)))
           else andthen (h_set (\<lambda>h. h\<lparr>ih_in_flight := sid # ih_in_flight h\<rparr>))
             (\<lambda>s. case run_interruption su timeout session reason s of
                (r, (w, h)) \<Rightarrow> (map_sum id Some r, (w, h\<lparr>ih_in_flight := removeAll sid (ih_in_flight h)\<rparr>)))))"

end
