(* ===== verification/Sweeping.thy ===== *)
theory Sweeping
  imports Interruption Restart
begin

text \<open>
  What the sweep of an interruption does to the tables, and what the whole procedure leaves. \<open>swept\<close> is the
  refinement target: records only ever take the step to their interrupted form.
\<close>

section \<open>Steps to an interrupted record\<close>

definition task_stopped :: "string \<Rightarrow> task_record \<Rightarrow> task_record \<Rightarrow> bool" where
  "task_stopped reason t t' \<longleftrightarrow> t_status t \<in> INTERRUPTIBLE_TASK_STATES \<and> (\<exists>now. t' = interrupted_task reason now t)"

definition plan_stopped :: "string \<Rightarrow> plan_record \<Rightarrow> plan_record \<Rightarrow> bool" where
  "plan_stopped reason p p' \<longleftrightarrow> p_status p \<in> {Plan_PENDING, Plan_RUNNING} \<and> (\<exists>now ts. p' = interrupted_plan reason now ts p)"

definition cycle_stopped :: "cycle_record \<Rightarrow> cycle_record \<Rightarrow> bool" where
  "cycle_stopped cy cy' \<longleftrightarrow> cy_status cy = Cycle_RUNNING \<and> (\<exists>now. cy' = interrupted_cycle now cy)"

definition dialogue_stopped :: "conversation_record \<Rightarrow> conversation_record \<Rightarrow> bool" where
  "dialogue_stopped c c' \<longleftrightarrow> c_status c \<in> ACTIVE_CONVERSATION_STATES \<and> (\<exists>now. c' = interrupted_conversation now c)"

lemmas stopped_defs = task_stopped_def plan_stopped_def cycle_stopped_def dialogue_stopped_def

text \<open>Every record is kept or takes one step, none is added or dropped.\<close>

definition moves :: "('r \<Rightarrow> 'r \<Rightarrow> bool) \<Rightarrow> ('k \<Rightarrow> 'r option) \<Rightarrow> ('k \<Rightarrow> 'r option) \<Rightarrow> bool" where
  "moves st M M' \<longleftrightarrow> (\<forall>k. rel_option (\<lambda>r r'. r' = r \<or> st r r') (M k) (M' k))"

lemma moves_refl: "moves st M M"
  by (simp add: moves_def option.rel_refl)

lemma moves_D: "moves st M M' \<Longrightarrow> M k = Some r \<Longrightarrow> \<exists>r'. M' k = Some r' \<and> (r' = r \<or> st r r')"
  unfolding moves_def by (auto dest!: spec [of _ k] simp: option_rel_Some1)

lemma moves_D2: "moves st M M' \<Longrightarrow> M' k = Some r' \<Longrightarrow> \<exists>r. M k = Some r \<and> (r' = r \<or> st r r')"
  unfolding moves_def by (auto dest!: spec [of _ k] simp: option_rel_Some2)

lemma moves_trans:
  assumes "moves st M M'" and "moves st M' M''" and "\<And>a b c. st a b \<Longrightarrow> \<not> st b c"
  shows "moves st M M''"
  unfolding moves_def
proof
  fix k
  have "rel_option (\<lambda>r r'. r' = r \<or> st r r') (M k) (M' k)" "rel_option (\<lambda>r r'. r' = r \<or> st r r') (M' k) (M'' k)"
    using assms(1,2) by (simp_all add: moves_def)
  then show "rel_option (\<lambda>r r'. r' = r \<or> st r r') (M k) (M'' k)"
    using assms(3) by (cases "M k"; cases "M' k"; cases "M'' k") auto
qed

lemma moves_upd: "M k = Some r \<Longrightarrow> st r r' \<Longrightarrow> moves st M (M(k \<mapsto> r'))"
  by (simp add: moves_def option.rel_refl)

lemma moves_stepped: "stepped st K M M' \<Longrightarrow> moves st M M'"
  unfolding moves_def
proof
  fix k assume s: "stepped st K M M'"
  show "rel_option (\<lambda>r r'. r' = r \<or> st r r') (M k) (M' k)"
  proof (cases "k \<in> K")
    case True
    then obtain r r' where "M k = Some r" "M' k = Some r'" "st r r'" using s unfolding stepped_def by (meson if_P)
    then show ?thesis by simp
  qed (use steppedD(1) [OF s] in \<open>simp add: option.rel_refl\<close>)
qed

text \<open>A record that takes no step stays.\<close>

lemma moves_kept: "moves st M M' \<Longrightarrow> M k = Some r \<Longrightarrow> (\<And>r'. \<not> st r r') \<Longrightarrow> M' k = Some r"
  using moves_D by fastforce

lemma stopped_once:
  "task_stopped reason a b \<Longrightarrow> \<not> task_stopped reason b c" "plan_stopped reason p q \<Longrightarrow> \<not> plan_stopped reason q s"
  "cycle_stopped x y \<Longrightarrow> \<not> cycle_stopped y z" "dialogue_stopped d e \<Longrightarrow> \<not> dialogue_stopped e f"
  by (auto simp: stopped_defs interrupted_task_def interrupted_plan_def interrupted_cycle_def interrupted_conversation_def
      INTERRUPTIBLE_TASK_STATES_def ACTIVE_CONVERSATION_STATES_def)

text \<open>An interrupted plan takes its open tasks along.\<close>

definition taken_along :: "string \<Rightarrow> tables \<Rightarrow> tables \<Rightarrow> bool" where
  "taken_along reason T X \<longleftrightarrow> (\<forall>key p q k t. tb_plans T key = Some p \<longrightarrow> tb_plans X key = Some q \<longrightarrow> plan_stopped reason p q
     \<longrightarrow> tb_tasks T k = Some t \<longrightarrow> (t_session_id t, t_plan_id t) = key \<longrightarrow> t_status t \<in> INTERRUPTIBLE_TASK_STATES
     \<longrightarrow> tb_tasks X k \<noteq> Some t)"

definition swept :: "string \<Rightarrow> tables \<Rightarrow> tables \<Rightarrow> bool" where
  "swept reason T X \<longleftrightarrow> moves (task_stopped reason) (tb_tasks T) (tb_tasks X) \<and> moves (plan_stopped reason) (tb_plans T) (tb_plans X)
     \<and> moves cycle_stopped (tb_cycles T) (tb_cycles X) \<and> moves dialogue_stopped (tb_conversations T) (tb_conversations X)
     \<and> taken_along reason T X \<and> tb_sessions X = tb_sessions T \<and> tb_messages X = tb_messages T"

lemma sweptD:
  assumes "swept reason T X"
  shows "moves (task_stopped reason) (tb_tasks T) (tb_tasks X)" "moves (plan_stopped reason) (tb_plans T) (tb_plans X)"
    "moves cycle_stopped (tb_cycles T) (tb_cycles X)" "moves dialogue_stopped (tb_conversations T) (tb_conversations X)"
    "taken_along reason T X" "tb_sessions X = tb_sessions T"
  using assms by (simp_all add: swept_def)

lemma not_self_stopped: "\<not> plan_stopped reason p p" "\<not> task_stopped reason t t"
  by (auto simp: stopped_defs interrupted_task_def interrupted_plan_def INTERRUPTIBLE_TASK_STATES_def dest: arg_cong [where f = p_status] arg_cong [where f = t_status])

lemma taken_along_same: "tb_plans X = tb_plans T \<Longrightarrow> taken_along reason T X"
  by (auto simp: taken_along_def not_self_stopped)

lemma swept_refl: "swept reason T T"
  by (simp add: swept_def moves_refl taken_along_same)

lemma taken_along_trans:
  assumes TU: "swept reason T U" and UX: "swept reason U X"
  shows "taken_along reason T X"
  unfolding taken_along_def
proof (intro allI impI)
  fix key p q k t
  assume p: "tb_plans T key = Some p" and q: "tb_plans X key = Some q" "plan_stopped reason p q"
    and t: "tb_tasks T k = Some t" "(t_session_id t, t_plan_id t) = key" "t_status t \<in> INTERRUPTIBLE_TASK_STATES"
  obtain u where u: "tb_tasks U k = Some u" "u = t \<or> task_stopped reason t u" using moves_D [OF sweptD(1) [OF TU] t(1)] by blast
  obtain p1 where p1: "tb_plans U key = Some p1" "p1 = p \<or> plan_stopped reason p p1" using moves_D [OF sweptD(2) [OF TU] p] by blast
  show "tb_tasks X k \<noteq> Some t"
  proof (cases "task_stopped reason t u")
    case True
    then have "tb_tasks X k = Some u" by (intro moves_kept [OF sweptD(1) [OF UX] u(1)]) (rule stopped_once)
    then show ?thesis using True not_self_stopped by auto
  next
    case False
    then have same: "u = t" using u(2) by blast
    then have "\<not> plan_stopped reason p p1"
      using sweptD(5) [OF TU] p p1(1) t u(1) unfolding taken_along_def by blast
    then have "p1 = p" using p1(2) by blast
    then show ?thesis using sweptD(5) [OF UX] p1(1) q t(2,3) u(1) same unfolding taken_along_def by blast
  qed
qed

lemma swept_trans: "swept reason T U \<Longrightarrow> swept reason U X \<Longrightarrow> swept reason T X"
  using taken_along_trans [of reason T U X] unfolding swept_def by (auto elim: moves_trans dest: stopped_once)

lemma swept_fields:
  "moves (task_stopped reason) (tb_tasks T) M \<Longrightarrow> swept reason T (T\<lparr>tb_tasks := M\<rparr>)"
  "moves cycle_stopped (tb_cycles T) C \<Longrightarrow> swept reason T (T\<lparr>tb_cycles := C\<rparr>)"
  "moves dialogue_stopped (tb_conversations T) D \<Longrightarrow> swept reason T (T\<lparr>tb_conversations := D\<rparr>)"
  by (simp_all add: swept_def moves_refl taken_along_same)

text \<open>The sweep never undoes what is at rest.\<close>

lemma plan_rest:
  "swept reason U X \<Longrightarrow> (\<forall>p. tb_plans U k = Some p \<longrightarrow> p_status p \<notin> {Plan_PENDING, Plan_RUNNING})
    \<Longrightarrow> (\<forall>p. tb_plans X k = Some p \<longrightarrow> p_status p \<notin> {Plan_PENDING, Plan_RUNNING})"
  using moves_D2 [OF sweptD(2)] by (fastforce simp: stopped_defs interrupted_plan_def)

lemma cycle_rest:
  "swept reason U X \<Longrightarrow> (\<forall>cy. tb_cycles U k = Some cy \<longrightarrow> cy_status cy \<noteq> Cycle_RUNNING)
    \<Longrightarrow> (\<forall>cy. tb_cycles X k = Some cy \<longrightarrow> cy_status cy \<noteq> Cycle_RUNNING)"
  using moves_D2 [OF sweptD(3)] by (fastforce simp: stopped_defs interrupted_cycle_def)

lemma dialogue_rest:
  "swept reason U X \<Longrightarrow> (\<forall>d. tb_conversations U k = Some d \<longrightarrow> c_status d \<notin> S) \<Longrightarrow> Conv_INTERRUPTED \<notin> S
    \<Longrightarrow> (\<forall>d. tb_conversations X k = Some d \<longrightarrow> c_status d \<notin> S)"
  using moves_D2 [OF sweptD(4)] by (fastforce simp: stopped_defs interrupted_conversation_def)

lemma interrupted_not_active: "Conv_INTERRUPTED \<notin> ACTIVE_CONVERSATION_STATES"
  by (simp add: ACTIVE_CONVERSATION_STATES_def)

section \<open>The steps of the sweep\<close>

abbreviation these :: "tables \<Rightarrow> handler \<Rightarrow> tables \<Rightarrow> handler \<Rightarrow> bool" where
  "these T y \<equiv> (\<lambda>X h. X = T \<and> h = y)"

lemma settles_h_clock: "settles (these T y) (h_app clock_now) (\<lambda>_. these T y)"
  by (auto intro!: settles_in_app achieves_weaken [OF achieves_clock])

lemma settles_h_publish: "settles (these T y) (handler_publish ty now sid c cy p t payload) (\<lambda>_. these T y)"
  unfolding handler_publish_def by (auto intro!: settles_in_app achieves_weaken [OF achieves_publish])

lemma settles_h_save:
  assumes "achieves T (on_store m) (\<lambda>_ X. X = T')"
  shows "settles (these T y) (h_app (on_store (transaction m))) (\<lambda>_. these T' y)"
  by (rule settles_in_app) (use achieves_weaken [OF achieves_transaction [OF assms]] in auto)

text \<open>A record is written and its event published.\<close>

lemma settles_h_reported:
  assumes "achieves T (on_store m) (\<lambda>_ X. X = T')"
  shows "settles (these T y) (andthen (h_app (on_store (transaction m))) (handler_publish ty now sid c cy p t payload)) (\<lambda>_. these T' y)"
  by (rule settles_andthen [OF settles_h_save [OF assms] settles_h_publish])

lemma settles_h_returned:
  assumes "achieves T (on_store m) (\<lambda>_ X. X = T')"
  shows "settles (these T y) (andthen (h_app (on_store (transaction m))) (andthen (handler_publish ty now sid c cy p t payload) (ret v)))
    (\<lambda>u X h. u = v \<and> X = T' \<and> h = y)"
  by (rule settles_andthen [OF settles_h_save [OF assms] settles_andthen [OF settles_h_publish settles_ret]]) simp

lemma settles_stop_task:
  assumes "t_status t \<in> INTERRUPTIBLE_TASK_STATES"
  shows "settles (these T y) (stop_task t plan reason)
    (\<lambda>_ X h. h = y \<and> (\<exists>now. X = T\<lparr>tb_tasks := (tb_tasks T)(task_key t \<mapsto> interrupted_task reason now t)\<rparr>))"
  unfolding stop_task_def bnd_ret
  apply (rule settles_check [OF settles_bnd [OF settles_h_clock]])
  subgoal for now
    by (rule settles_weaken [OF settles_h_reported [OF achieves_saves(1)]]) (auto simp: interrupted_task_def)
  by (use assms in \<open>auto simp: assert_transition_def can_transition_def INTERRUPTIBLE_TASK_STATES_def\<close>)

lemma settles_stop_plan:
  assumes "p_status p \<in> {Plan_PENDING, Plan_RUNNING}"
  shows "settles (these T y) (stop_plan p reason)
    (\<lambda>q X h. h = y \<and> (\<exists>now ts. q = interrupted_plan reason now ts p) \<and> X = T\<lparr>tb_plans := (tb_plans T)(plan_key p \<mapsto> q)\<rparr>)"
  unfolding stop_plan_def bnd_ret
  apply (rule settles_check [OF settles_bnd [OF settles_h_clock settles_read]])
  subgoal premises w for now w r
    by (rule settles_weaken [OF settles_h_returned [OF achieves_saves(2)]]) (use w in \<open>auto simp: interrupted_plan_def\<close>)
  by (use assms in \<open>auto simp: assert_transition_def can_transition_def\<close>)

lemma settles_stop_cycle:
  assumes "cy_status cy = Cycle_RUNNING"
  shows "settles (these T y) (stop_cycle cy reason)
    (\<lambda>q X h. h = y \<and> (\<exists>now. q = interrupted_cycle now cy) \<and> X = T\<lparr>tb_cycles := (tb_cycles T)(cy_cycle_id cy \<mapsto> q)\<rparr>)"
  unfolding stop_cycle_def bnd_ret
  apply (rule settles_check [OF settles_bnd [OF settles_h_clock]])
  subgoal for now
    by (rule settles_weaken [OF settles_h_returned [OF achieves_saves(3)]]) (auto simp: interrupted_cycle_def)
  by (use assms in \<open>auto simp: assert_transition_def can_transition_def\<close>)

section \<open>The parts of the sweep\<close>

definition stoppable :: "tables \<Rightarrow> string \<times> string \<Rightarrow> (string \<times> string) set" where
  "stoppable T key = {k. \<exists>t. tb_tasks T k = Some t \<and> t_status t \<in> INTERRUPTIBLE_TASK_STATES \<and> (t_session_id t, t_plan_id t) = key}"

lemma settles_stop_tasks:
  assumes w: "sane w" "world w = T"
  shows "settles (these T y)
    (for_each (list_tasks (w_store w) sid (Some pid) None) (\<lambda>t. whenever (t_status t \<in> INTERRUPTIBLE_TASK_STATES) (stop_task t plan reason)))
    (\<lambda>_ X h. after tb_tasks tb_tasks_update (task_stopped reason) (stoppable T (sid, pid)) T X \<and> h = y)"
proof -
  let ?ts = "list_tasks (w_store w) sid (Some pid) None"
  let ?keys = "\<lambda>ts :: task_record list. task_key ` {t \<in> set ts. t_status t \<in> INTERRUPTIBLE_TASK_STATES}"
  have ts: "t \<in> set ?ts \<longleftrightarrow> tb_tasks T (task_key t) = Some t \<and> t_session_id t = sid \<and> t_plan_id t = pid" for t
    using w set_listings(4) by (auto simp: sane_def)
  have "k \<in> ?keys ?ts \<longleftrightarrow> k \<in> stoppable T (sid, pid)" for k
  proof
    assume "k \<in> stoppable T (sid, pid)"
    then obtain t where t: "tb_tasks T k = Some t" "t_status t \<in> INTERRUPTIBLE_TASK_STATES" "t_session_id t = sid" "t_plan_id t = pid"
      by (auto simp: stoppable_def)
    then have "task_key t = k" using filed_keys(1) [of "w_store w" k t] w by (simp add: sane_def)
    then show "k \<in> ?keys ?ts" using t ts [of t] by (intro image_eqI [of _ _ t]) auto
  qed (use ts in \<open>auto simp: stoppable_def\<close>)
  then have "?keys ?ts = stoppable T (sid, pid)" by blast
  moreover have "settles (\<lambda>X h. after tb_tasks tb_tasks_update (task_stopped reason) (?keys []) T X \<and> h = y)
     (for_each ?ts (\<lambda>t. whenever (t_status t \<in> INTERRUPTIBLE_TASK_STATES) (stop_task t plan reason)))
     (\<lambda>_ X h. after tb_tasks tb_tasks_update (task_stopped reason) (?keys ?ts) T X \<and> h = y)"
  proof (rule settles_for_each, rule settles_from, elim conjE)
    fix seen t rest X h
    assume split: "?ts = seen @ t # rest" and X: "after tb_tasks tb_tasks_update (task_stopped reason) (?keys seen) T X" and h: "h = y"
    have t: "tb_tasks T (task_key t) = Some t" using ts [of t] split by auto
    show "settles (these X h) (whenever (t_status t \<in> INTERRUPTIBLE_TASK_STATES) (stop_task t plan reason))
        (\<lambda>_ X h. after tb_tasks tb_tasks_update (task_stopped reason) (?keys (seen @ [t])) T X \<and> h = y)"
    proof (cases "t_status t \<in> INTERRUPTIBLE_TASK_STATES")
      case True
      then have K: "?keys (seen @ [t]) = insert (task_key t) (?keys seen)" by auto
      have "task_stopped reason t (interrupted_task reason now t)" for now using True by (auto simp: task_stopped_def)
      from task_table.after_step [OF X t this] show ?thesis
        unfolding K whenever_def if_P [OF True] by (intro settles_weaken [OF settles_stop_task [OF True]]) (auto simp: h)
    next
      case False
      then have "?keys (seen @ [t]) = ?keys seen" by auto
      then show ?thesis unfolding whenever_def if_not_P [OF False] using X h by (intro settles_ret) (metis (lifting))
    qed
  qed
  ultimately have "settles (\<lambda>X h. after tb_tasks tb_tasks_update (task_stopped reason) {} T X \<and> h = y)
     (for_each ?ts (\<lambda>t. whenever (t_status t \<in> INTERRUPTIBLE_TASK_STATES) (stop_task t plan reason)))
     (\<lambda>_ X h. after tb_tasks tb_tasks_update (task_stopped reason) (stoppable T (sid, pid)) T X \<and> h = y)" by simp
  then show ?thesis by (rule settles_weaken) (use task_table.after_same in simp_all)
qed

lemma settles_sweep_open_plan:
  assumes "tb_plans T (sid, pid) = Some p" and "plan_key p = (sid, pid)"
  shows "settles (these T y) (sweep_open_plan p sid reason)
    (\<lambda>q X h. h = y \<and> swept reason T X \<and> tb_plans X (sid, pid) = Some q \<and> p_status q \<notin> {Plan_PENDING, Plan_RUNNING})"
proof (cases "p_status p \<in> {Plan_PENDING, Plan_RUNNING}")
  case True
  have ids: "p_session_id p = sid" "p_plan_id p = pid" using assms(2) by simp_all
  let ?K = "stoppable T (sid, pid)"
  let ?A = "\<lambda>X. after tb_tasks tb_tasks_update (task_stopped reason) ?K T X"
  have last: "swept reason T (X\<lparr>tb_plans := (tb_plans X)(plan_key p \<mapsto> q)\<rparr>)" if "?A X" "q = interrupted_plan reason now ts p" for X q now ts
  proof -
    obtain M where M: "X = T\<lparr>tb_tasks := M\<rparr>" "stepped (task_stopped reason) ?K (tb_tasks T) M" using \<open>?A X\<close> by (auto simp: after_def)
    have "M k \<noteq> Some t" if "tb_tasks T k = Some t" "(t_session_id t, t_plan_id t) = (sid, pid)" "t_status t \<in> INTERRUPTIBLE_TASK_STATES" for k t
      using steppedD(2) [OF M(2) _ that(1)] that not_self_stopped(2) by (fastforce simp: stoppable_def)
    moreover have "plan_stopped reason p q" using True that(2) by (auto simp: plan_stopped_def)
    ultimately show ?thesis
      unfolding swept_def taken_along_def M(1)
      using moves_stepped [OF M(2)] moves_upd [of "tb_plans T" "(sid, pid)" p "plan_stopped reason" q] assms
      by (auto simp: moves_refl not_self_stopped split: if_splits)
  qed
  show ?thesis
    unfolding sweep_open_plan_def if_P [OF True]
  proof (rule settles_read, elim conjE)
    fix w and r :: handler assume w: "sane w" "world w = T" "r = y"
    show "settles (\<lambda>X y. X = world w \<and> y = r)
       (andthen (for_each (list_tasks (w_store (fst (w, r))) sid (Some (p_plan_id p)) None)
          (\<lambda>t. whenever (t_status t \<in> INTERRUPTIBLE_TASK_STATES) (stop_task t p reason))) (stop_plan p reason))
       (\<lambda>q X h. h = y \<and> swept reason T X \<and> tb_plans X (sid, pid) = Some q \<and> p_status q \<notin> {Plan_PENDING, Plan_RUNNING})"
      unfolding w(2,3) fst_conv ids
      apply (rule settles_andthen [OF settles_stop_tasks [OF w(1,2)] settles_from])
      subgoal for X h
        by (rule settles_weaken [OF settles_stop_plan [OF True]]) (use last assms(2) in \<open>auto simp: interrupted_plan_def\<close>)
      done
  qed
next
  case False
  show ?thesis
    unfolding sweep_open_plan_def if_not_P [OF False] by (rule settles_ret) (use False assms(1) in \<open>auto simp: swept_refl\<close>)
qed

definition plan_at_rest :: "conversation_record \<Rightarrow> tables \<Rightarrow> bool" where
  "plan_at_rest c X \<longleftrightarrow> (\<forall>pid p. c_current_plan_id c = Some pid \<longrightarrow> tb_plans X (c_session_id c, pid) = Some p
     \<longrightarrow> p_status p \<notin> {Plan_PENDING, Plan_RUNNING})"

text \<open>The identifiers a sweep of a plan returns: the plan when it ended interrupted, with its interrupted tasks.\<close>

definition plan_reported :: "conversation_record \<Rightarrow> tables \<Rightarrow> string option \<times> string list \<Rightarrow> bool" where
  "plan_reported c X r \<longleftrightarrow>
     (case r of
        (None, ids) \<Rightarrow> ids = []
          \<and> (\<forall>pid p. c_current_plan_id c = Some pid \<longrightarrow> tb_plans X (c_session_id c, pid) = Some p \<longrightarrow> p_status p \<noteq> Plan_INTERRUPTED)
      | (Some pid, ids) \<Rightarrow> c_current_plan_id c = Some pid
          \<and> (\<exists>p. tb_plans X (c_session_id c, pid) = Some p \<and> p_status p = Plan_INTERRUPTED)
          \<and> set ids = {i. \<exists>t. tb_tasks X (c_session_id c, i) = Some t \<and> t_plan_id t = pid \<and> t_status t = Task_INTERRUPTED})"

lemma interrupted_ids:
  assumes "sane w"
  shows "set (map t_task_id (filter (\<lambda>t. t_status t = Task_INTERRUPTED) (list_tasks (w_store w) sid (Some pid) None)))
    = {i. \<exists>t. tb_tasks (world w) (sid, i) = Some t \<and> t_plan_id t = pid \<and> t_status t = Task_INTERRUPTED}" (is "?L = ?R")
proof (rule set_eqI)
  fix i
  have keys: "task_key t = (sid, i)" if "tb_tasks (world w) (sid, i) = Some t" for t
    using filed_keys(1) [of "w_store w" "(sid, i)" t] that assms by (simp add: sane_def)
  show "i \<in> ?L \<longleftrightarrow> i \<in> ?R"
    using set_listings(4) [of "w_store w" _ sid pid] assms keys unfolding sane_def by (auto simp: image_iff)
qed

lemma settles_sweep_plan:
  "settles (these T y) (sweep_plan c reason) (\<lambda>r X h. h = y \<and> swept reason T X \<and> plan_at_rest c X \<and> plan_reported c X r)"
proof (cases "c_current_plan_id c")
  case (Some pid)
  let ?Q = "\<lambda>r X h. h = y \<and> swept reason T X \<and> plan_at_rest c X \<and> plan_reported c X r"
  let ?rest = "\<lambda>plan. if p_status plan \<noteq> Plan_INTERRUPTED then ret (None, [])
     else bnd (h_store (\<lambda>st. map t_task_id (filter (\<lambda>t. t_status t = Task_INTERRUPTED) (list_tasks st (c_session_id c) (Some pid) None))))
       (\<lambda>ids. ret (Some pid, ids)) :: (string option \<times> string list) handler_act"
  have rest: "settles (\<lambda>X h. h = y \<and> swept reason T X \<and> tb_plans X (c_session_id c, pid) = Some q
      \<and> p_status q \<notin> {Plan_PENDING, Plan_RUNNING}) (?rest q) ?Q" for q
  proof (cases "p_status q = Plan_INTERRUPTED")
    case True
    then show ?thesis
      by simp (rule settles_read, rule settles_ret, use Some interrupted_ids in \<open>auto simp: plan_at_rest_def plan_reported_def\<close>)
  next
    case False
    then show ?thesis using Some by (auto simp: plan_at_rest_def plan_reported_def intro: settles_ret)
  qed
  show ?thesis
    unfolding sweep_plan_def Some option.case
  proof (rule settles_read, elim conjE)
    fix w and r :: handler assume w: "sane w" "world w = T" "r = y"
    show "settles (\<lambda>X y. X = world w \<and> y = r)
      (case get_plan (w_store (fst (w, r))) (c_session_id c) pid of None \<Rightarrow> ret (None, [])
        | Some plan \<Rightarrow> bnd (sweep_open_plan plan (c_session_id c) reason) ?rest) ?Q"
    proof (cases "tb_plans T (c_session_id c, pid)")
      case None
      then show ?thesis using w Some by (auto simp: tables_get plan_at_rest_def plan_reported_def swept_refl intro: settles_ret)
    next
      case p: (Some p)
      then have "plan_key p = (c_session_id c, pid)" using filed_keys(2) [of "w_store w" _ p] w by (auto simp: sane_def)
      from settles_bnd [OF settles_sweep_open_plan [OF p this] rest] show ?thesis using w p by (simp add: tables_get)
    qed
  qed
qed (auto simp: sweep_plan_def plan_at_rest_def plan_reported_def swept_refl intro: settles_ret)

definition cycle_at_rest :: "conversation_record \<Rightarrow> tables \<Rightarrow> bool" where
  "cycle_at_rest c X \<longleftrightarrow> (\<forall>i cy. c_current_cycle_id c = Some i \<longrightarrow> tb_cycles X i = Some cy \<longrightarrow> cy_status cy \<noteq> Cycle_RUNNING)"

lemma settles_sweep_cycle:
  "settles (these T y) (sweep_cycle c reason) (\<lambda>r X h. h = y \<and> swept reason T X \<and> cycle_at_rest c X)"
proof (cases "c_current_cycle_id c")
  case (Some i)
  let ?Q = "\<lambda>r X h. h = y \<and> swept reason T X \<and> cycle_at_rest c X"
  show ?thesis
    unfolding sweep_cycle_def Some option.case
  proof (rule settles_read, elim conjE)
    fix w and r :: handler assume w: "sane w" "world w = T" "r = y"
    let ?rest = "\<lambda>cy. ret (if cy_status cy = Cycle_INTERRUPTED then Some i else None) :: string option handler_act"
    show "settles (\<lambda>X y. X = world w \<and> y = r)
      (case get_cycle (w_store (fst (w, r))) i of None \<Rightarrow> ret None
        | Some cy \<Rightarrow> bnd (if cy_status cy = Cycle_RUNNING then stop_cycle cy reason else ret cy) ?rest) ?Q"
    proof (cases "tb_cycles T i")
      case None
      then show ?thesis using w Some by (auto simp: tables_get cycle_at_rest_def swept_refl intro: settles_ret)
    next
      case cy: (Some cy)
      have id: "cy_cycle_id cy = i" using filed_keys(3) [of "w_store w" i cy] cy w by (auto simp: sane_def)
      have moved: "swept reason T (T\<lparr>tb_cycles := (tb_cycles T)(i \<mapsto> interrupted_cycle now cy)\<rparr>)" if "cy_status cy = Cycle_RUNNING" for now
        using that cy by (intro swept_fields moves_upd [where r = cy]) (auto simp: cycle_stopped_def)
      have "settles (these T y) (if cy_status cy = Cycle_RUNNING then stop_cycle cy reason else ret cy) (\<lambda>_. ?Q ())"
      proof (cases "cy_status cy = Cycle_RUNNING")
        case True
        show ?thesis
          unfolding if_P [OF True] by (rule settles_weaken [OF settles_stop_cycle [OF True]])
            (use True Some id moved in \<open>auto simp: cycle_at_rest_def interrupted_cycle_def\<close>)
      next
        case False
        then show ?thesis using Some cy by (auto simp: cycle_at_rest_def swept_refl intro: settles_ret)
      qed
      then have "settles (these T y) (bnd (if cy_status cy = Cycle_RUNNING then stop_cycle cy reason else ret cy) ?rest) ?Q"
        by (rule settles_bnd) (rule settles_ret)
      moreover have "get_cycle (w_store (fst (w, r))) i = Some cy" using w cy by (simp add: tables_get)
      ultimately show ?thesis unfolding w(2,3) by (simp only: option.case)
    qed
  qed
qed (auto simp: sweep_cycle_def cycle_at_rest_def swept_refl intro: settles_ret)

definition dialogue_at_rest :: "conversation_record \<Rightarrow> tables \<Rightarrow> bool" where
  "dialogue_at_rest c X \<longleftrightarrow> (\<forall>d. tb_conversations X (c_conversation_id c) = Some d \<longrightarrow> c_status d \<notin> ACTIVE_CONVERSATION_STATES)"

lemma settles_sweep_conversation:
  "settles (these T y) (sweep_conversation c reason) (\<lambda>r X h. h = y \<and> swept reason T X \<and> dialogue_at_rest c X)"
  unfolding sweep_conversation_def
proof (rule settles_read, elim conjE)
  fix w and r :: handler assume w: "sane w" "world w = T" "r = y"
  let ?cid = "c_conversation_id c"
  let ?Q = "\<lambda>r X h. h = y \<and> swept reason T X \<and> dialogue_at_rest c X"
  show "settles (\<lambda>X y. X = world w \<and> y = r)
    (case get_conversation (w_store (fst (w, r))) ?cid of None \<Rightarrow> ret None
      | Some f \<Rightarrow> if c_status f \<notin> ACTIVE_CONVERSATION_STATES then ret None
          else bnd (h_app (interrupt_conversation (c_conversation_id f) reason)) (\<lambda>c. ret (Some c))) ?Q"
  proof (cases "\<exists>f. tb_conversations T ?cid = Some f \<and> c_status f \<in> ACTIVE_CONVERSATION_STATES")
    case True
    then obtain f where f: "tb_conversations T ?cid = Some f" "c_status f \<in> ACTIVE_CONVERSATION_STATES" by blast
    have id: "c_conversation_id f = ?cid" using filed_keys(4) [of "w_store w" _ f] f(1) w by (auto simp: sane_def)
    have "swept reason T (T\<lparr>tb_conversations := (tb_conversations T)(?cid \<mapsto> interrupted_conversation now f)\<rparr>)" for now
      using f by (intro swept_fields moves_upd [where r = f]) (auto simp: dialogue_stopped_def)
    then have "settles (these T y) (h_app (interrupt_conversation ?cid reason)) (\<lambda>_. ?Q ())"
      by (intro settles_in_app) (auto intro!: achieves_weaken [OF achieves_interrupt_conversation [OF f]]
          simp: dialogue_at_rest_def interrupted_conversation_def ACTIVE_CONVERSATION_STATES_def)
    from settles_bnd [OF this settles_ret [where Q = ?Q]] show ?thesis using w f id by (simp add: tables_get)
  next
    case False
    then show ?thesis using w
      by (auto simp: tables_get dialogue_at_rest_def swept_refl intro: settles_ret split: option.split)
  qed
qed

section \<open>The sweep of a session\<close>

text \<open>Nothing a conversation points to is under way any more, nor the conversation itself.\<close>

definition at_rest :: "conversation_record \<Rightarrow> tables \<Rightarrow> bool" where
  "at_rest c X \<longleftrightarrow> plan_at_rest c X \<and> cycle_at_rest c X \<and> dialogue_at_rest c X"

definition stable :: "string \<Rightarrow> (tables \<Rightarrow> bool) \<Rightarrow> bool" where
  "stable reason I \<longleftrightarrow> (\<forall>U X. swept reason U X \<longrightarrow> I U \<longrightarrow> I X)"

lemma stable_rest: "stable reason (plan_at_rest c)" "stable reason (cycle_at_rest c)" "stable reason (dialogue_at_rest c)"
  unfolding stable_def plan_at_rest_def cycle_at_rest_def dialogue_at_rest_def
  using plan_rest [of reason] cycle_rest [of reason] dialogue_rest [of reason, OF _ _ interrupted_not_active] by meson+

lemma stable_conj: "stable reason I \<Longrightarrow> stable reason J \<Longrightarrow> stable reason (\<lambda>X. I X \<and> J X)"
  by (simp add: stable_def)

lemma settles_stable:
  assumes "\<And>U. settles (these U y) m (\<lambda>r X h. h = y \<and> swept reason U X \<and> J X)" and "stable reason I"
  shows "settles (\<lambda>X h. h = y \<and> swept reason T X \<and> I X) m (\<lambda>r X h. h = y \<and> swept reason T X \<and> I X \<and> J X)"
proof (rule settles_from, elim conjE)
  fix U h assume U: "h = y" "swept reason T U" "I U"
  show "settles (these U h) m (\<lambda>r X h. h = y \<and> swept reason T X \<and> I X \<and> J X)"
    unfolding U(1) by (rule settles_weaken [OF assms(1) [of U]]) (use U assms(2) swept_trans in \<open>auto simp: stable_def\<close>)
qed

lemma settles_sweep_all:
  assumes "stable reason I" and "\<And>r i d. settles (\<lambda>X h. h = y \<and> swept reason T X \<and> I X \<and> at_rest c X) (k r i d) Q"
  shows "settles (\<lambda>X h. h = y \<and> swept reason T X \<and> I X)
    (bnd (sweep_plan c reason) (\<lambda>r. bnd (sweep_cycle c reason) (\<lambda>i. bnd (sweep_conversation c reason) (k r i)))) Q"
proof -
  have 1: "settles (these U y) (sweep_plan c reason) (\<lambda>r X h. h = y \<and> swept reason U X \<and> plan_at_rest c X)" for U
    by (rule settles_weaken [OF settles_sweep_plan]) auto
  let ?S = "\<lambda>J X h. h = y \<and> swept reason T X \<and> J X"
  note st1 = stable_conj [OF assms(1) stable_rest(1) [of reason c]]
  note st2 = stable_conj [OF st1 stable_rest(2) [of reason c]]
  have 2: "settles (?S I) (sweep_plan c reason) (\<lambda>_. ?S (\<lambda>X. I X \<and> plan_at_rest c X))"
    by (rule settles_stable [OF 1 assms(1)])
  have 3: "settles (?S (\<lambda>X. I X \<and> plan_at_rest c X)) (sweep_cycle c reason)
      (\<lambda>_. ?S (\<lambda>X. (I X \<and> plan_at_rest c X) \<and> cycle_at_rest c X))"
    by (rule settles_weaken [OF settles_stable [OF settles_sweep_cycle st1, where T = T]]) auto
  have 4: "settles (?S (\<lambda>X. (I X \<and> plan_at_rest c X) \<and> cycle_at_rest c X)) (sweep_conversation c reason)
      (\<lambda>_ X h. h = y \<and> swept reason T X \<and> I X \<and> at_rest c X)"
    by (rule settles_weaken [OF settles_stable [OF settles_sweep_conversation st2, where T = T]]) (auto simp: at_rest_def)
  show ?thesis by (rule settles_bnd [OF 2 settles_bnd [OF 3 settles_bnd [OF 4 assms(2)]]])
qed

text \<open>After the sweep, the session's conversation is at rest and its parent no longer rotates.\<close>

definition session_at_rest :: "string option \<Rightarrow> tables \<Rightarrow> bool" where
  "session_at_rest current X \<longleftrightarrow> (\<forall>cid c. current = Some cid \<longrightarrow> tb_conversations X cid = Some c \<longrightarrow>
     at_rest c X \<and> (\<forall>pid p. c_parent_conversation_id c = Some pid \<longrightarrow> tb_conversations X pid = Some p \<longrightarrow>
        c_status p \<noteq> Conv_ROTATING))"

text \<open>The conversation keeps its links when it is interrupted.\<close>

lemma swept_links:
  assumes "swept reason T X" and "tb_conversations T cid = Some c" and "tb_conversations X cid = Some d"
  shows "at_rest d X = at_rest c X" "c_parent_conversation_id d = c_parent_conversation_id c"
proof -
  have "d = c \<or> dialogue_stopped c d" using moves_D [OF sweptD(4) [OF assms(1)] assms(2)] assms(3) by auto
  then show "at_rest d X = at_rest c X" "c_parent_conversation_id d = c_parent_conversation_id c"
    by (auto simp: dialogue_stopped_def interrupted_conversation_def at_rest_def plan_at_rest_def cycle_at_rest_def dialogue_at_rest_def)
qed

lemma session_at_rest_I:
  assumes "swept reason T X" and "tb_conversations T cid = Some c" and "at_rest c X"
    and "\<And>pid p. c_parent_conversation_id c = Some pid \<Longrightarrow> tb_conversations X pid = Some p \<Longrightarrow> c_status p \<noteq> Conv_ROTATING"
  shows "session_at_rest (Some cid) X"
  using swept_links [OF assms(1,2)] assms(3,4) unfolding session_at_rest_def by auto

lemma bnd_right_ret: "bnd m ret = m"
  by (auto simp: bnd_def ret_def fun_eq_iff split: prod.splits sum.splits)

text \<open>The parent that rotates is swept too; any other is left.\<close>

definition parent_at_rest :: "conversation_record \<Rightarrow> tables \<Rightarrow> bool" where
  "parent_at_rest c X \<longleftrightarrow> (\<forall>pid p. c_parent_conversation_id c = Some pid \<longrightarrow> tb_conversations X pid = Some p \<longrightarrow>
     c_status p \<noteq> Conv_ROTATING)"

lemma settles_sweep_parent:
  assumes "\<And>r. settles (\<lambda>X h. h = y \<and> swept reason T X \<and> at_rest c X \<and> parent_at_rest c X) (k r) Q"
  shows "settles (\<lambda>X h. h = y \<and> swept reason T X \<and> at_rest c X)
    (bnd (h_store (\<lambda>st. rotating_parent_of st c)) (\<lambda>parent.
     bnd (case parent of None \<Rightarrow> ret None
       | Some p \<Rightarrow> bnd (sweep_plan p reason) (\<lambda>_. bnd (sweep_cycle p reason) (\<lambda>_. sweep_conversation p reason))) k)) Q"
proof (rule settles_read, elim conjE)
  fix w and h :: handler assume w: "sane w" "h = y" "swept reason T (world w)" "at_rest c (world w)"
  let ?R = "\<lambda>X h. h = y \<and> swept reason T X \<and> at_rest c X \<and> parent_at_rest c X"
  let ?swept = "case rotating_parent_of (w_store (fst (w, h))) c of None \<Rightarrow> ret None
       | Some p \<Rightarrow> bnd (sweep_plan p reason) (\<lambda>_. bnd (sweep_cycle p reason) (\<lambda>_. sweep_conversation p reason))"
  have "settles (\<lambda>X h'. X = world w \<and> h' = h) ?swept (\<lambda>_. ?R)"
  proof (cases "rotating_parent_of (w_store w) c")
    case None
    then have "parent_at_rest c (world w)"
      by (auto simp: parent_at_rest_def rotating_parent_of_def tables_get split: option.splits if_splits)
    then show ?thesis unfolding fst_conv None option.case by (intro settles_ret) (use w in auto)
  next
    case (Some p)
    then obtain pid where p: "c_parent_conversation_id c = Some pid" "tb_conversations (world w) pid = Some p" "c_status p = Conv_ROTATING"
      by (auto simp: rotating_parent_of_def tables_get split: option.splits if_splits)
    have id: "c_conversation_id p = pid" using filed_keys(4) [of "w_store w" pid p] p(2) w(1) by (simp add: sane_def)
    have st: "stable reason (at_rest c)" unfolding at_rest_def [abs_def] by (intro stable_conj stable_rest)
    have all: "settles (\<lambda>X h. h = y \<and> swept reason T X \<and> at_rest c X)
       (bnd (sweep_plan p reason) (\<lambda>r. bnd (sweep_cycle p reason) (\<lambda>i. bnd (sweep_conversation p reason) ret))) (\<lambda>_. ?R)"
    proof (rule settles_sweep_all [OF st], rule settles_ret, intro conjI; elim conjE)
      fix X h' assume "at_rest p X"
      then show "parent_at_rest c X" using p(1) id by (auto simp: parent_at_rest_def at_rest_def dialogue_at_rest_def table_simps)
    qed
    show ?thesis
      unfolding fst_conv Some option.case by (rule settles_weaken [OF all [unfolded bnd_right_ret]]) (use w in auto)
  qed
  then show "settles (\<lambda>X h'. X = world w \<and> h' = h) (bnd ?swept k) Q" by (rule settles_bnd [OF _ assms])
qed

lemma settles_sweep_session:
  assumes "tb_sessions T sid = Some s"
  shows "settles (these T y) (sweep_session sid reason)
    (\<lambda>sw X h. h = y \<and> swept reason T X \<and> session_at_rest (s_current_conversation_id s) X
       \<and> sw_conversation_id sw = s_current_conversation_id s)" (is "settles _ _ ?Q")
proof -
  let ?found = "\<lambda>conversation. case conversation of
       None \<Rightarrow> ret \<lparr>sw_conversation_id = s_current_conversation_id s, sw_plan_id = None, sw_cycle_id = None,
                 sw_interrupted_task_ids = [], sw_interrupted = []\<rparr>
     | Some c \<Rightarrow>
         bnd (sweep_plan c reason) (\<lambda>(plan_id, task_ids).
         bnd (sweep_cycle c reason) (\<lambda>cycle_id.
         bnd (sweep_conversation c reason) (\<lambda>interrupted.
         bnd (h_store (\<lambda>st. rotating_parent_of st c)) (\<lambda>parent.
         bnd (case parent of
                None \<Rightarrow> ret None
              | Some p \<Rightarrow> bnd (sweep_plan p reason) (\<lambda>_. bnd (sweep_cycle p reason) (\<lambda>_. sweep_conversation p reason)))
             (\<lambda>interrupted_parent.
         ret \<lparr>sw_conversation_id = s_current_conversation_id s, sw_plan_id = plan_id, sw_cycle_id = cycle_id,
              sw_interrupted_task_ids = task_ids, sw_interrupted = opt_list interrupted @ opt_list interrupted_parent\<rparr>)))))"
  have session: "settles (these T y) (h_app (require_session sid)) (\<lambda>u X h. u = s \<and> X = T \<and> h = y)"
    using achieves_require_session [OF assms, of ret "\<lambda>u X. u = s \<and> X = T"]
    by (intro settles_in_app) (auto simp: achieves_ret bnd_right_ret)
  have found: "settles (these T y) (?found (Option.bind (s_current_conversation_id s) (tb_conversations T))) ?Q"
  proof (cases "Option.bind (s_current_conversation_id s) (tb_conversations T)")
    case None
    then show ?thesis
      unfolding None option.case by (intro settles_ret) (use None in \<open>auto simp: session_at_rest_def swept_refl\<close>)
  next
    case (Some c)
    then obtain cid where cid: "s_current_conversation_id s = Some cid" "tb_conversations T cid = Some c" by (auto simp: bind_eq_Some_conv)
    have stay: "stable reason (\<lambda>X. True)" by (simp add: stable_def)
    show ?thesis
      unfolding Some option.case case_prod_unfold
      apply (rule settles_weaken [OF settles_sweep_all [OF stay settles_weaken [OF settles_sweep_parent [OF settles_ret]]], where T1 = T and y1 = y])
      using session_at_rest_I [OF _ cid(2)] cid by (auto simp: swept_refl parent_at_rest_def)
  qed
  show ?thesis
    unfolding sweep_session_def
    apply (rule settles_bnd [OF session])
    apply (rule settles_from, elim conjE)
    apply (rule settles_read, elim conjE)
    subgoal premises p for u X h w r
    proof -
      have at: "u = s" "world w = T" "r = y" using p by auto
      have "current_conversation_of (w_store (fst (w, r))) s = Option.bind (s_current_conversation_id s) (tb_conversations T)"
        by (cases "s_current_conversation_id s") (simp_all add: current_conversation_of_def tables_get at)
      then show ?thesis unfolding at using found by (simp only:)
    qed
    done
qed

section \<open>The whole procedure\<close>

text \<open>
  Orderly surroundings: what runs while the handler waits (the loop it drains among it) leaves the application sane and
  the session's record in one of the states \<open>S\<close>; closing a remote conversation writes nothing.
\<close>

definition left_in :: "session_state set \<Rightarrow> string \<Rightarrow> tables \<Rightarrow> bool" where
  "left_in S sid X \<longleftrightarrow> (\<exists>s. tb_sessions X sid = Some s \<and> s_status s \<in> S)"

definition orderly :: "session_state set \<Rightarrow> string \<Rightarrow> surroundings \<Rightarrow> bool" where
  "orderly S sid su \<longleftrightarrow> {Session_PAUSED, Session_INTERRUPTING} \<subseteq> S
   \<and> (\<forall>w h. sane w \<longrightarrow> left_in S sid (world w) \<longrightarrow> sane (fst (su_drain su (w, h))) \<and> left_in S sid (world (fst (su_drain su (w, h)))))
   \<and> (\<forall>w h. sane w \<longrightarrow> left_in S sid (world w) \<longrightarrow> sane (fst (su_abandon su (w, h))) \<and> left_in S sid (world (fst (su_abandon su (w, h)))))
   \<and> (\<forall>remote w h. sane w \<longrightarrow> sane (fst (snd (su_close_remote su remote (w, h))))
        \<and> world (fst (snd (su_close_remote su remote (w, h)))) = world w)"

lemma settles_elsewhere:
  assumes "\<And>w h. sane w \<Longrightarrow> P (world w) \<Longrightarrow> sane (fst (f (w, h))) \<and> Q (world (fst (f (w, h))))"
  shows "settles (\<lambda>X h. P X) (modifying f) (\<lambda>_ X h. Q X)"
  using assms by (auto simp: settles_def modifying_def split: prod.split) (metis prod.collapse)

lemma settles_any_publish: "settles (\<lambda>X h. P X h) (handler_publish ty now sid c cy p t payload) (\<lambda>_ X h. P X h)"
  unfolding handler_publish_def by (auto intro!: settles_in_app achieves_weaken [OF achieves_publish])

lemma settles_any_clock: "settles (\<lambda>X h. P X h) (h_app clock_now) (\<lambda>_ X h. P X h)"
  by (auto intro!: settles_in_app achieves_weaken [OF achieves_clock])

lemma settles_found:
  assumes "orderly S sid su" and "f = su_drain su \<or> f = su_abandon su"
  shows "settles (\<lambda>X h. left_in S sid X) (modifying f) (\<lambda>_ X h. left_in S sid X)"
  by (rule settles_elsewhere) (use assms in \<open>auto simp: orderly_def\<close>)

lemma settles_drain:
  assumes "orderly S sid su"
  shows "settles (\<lambda>X h. left_in S sid X) (drain_loop su sid) (\<lambda>_ X h. left_in S sid X)"
proof -
  let ?F = "\<lambda>X (h :: handler). left_in S sid X"
  have set: "settles ?F (andthen (h_set f) (ret b)) (\<lambda>_. ?F)" for f and b :: bool
    by (rule settles_andthen [OF settles_modifying settles_ret]) auto
  show ?thesis
    unfolding drain_loop_def
    apply (rule settles_read)
    apply (rule settles_read)
    apply (rule settles_weaken [where P' = ?F and Q' = "\<lambda>_. ?F"])
    using set settles_andthen [OF settles_found [OF assms disjI1 [OF refl]] set] by (auto split: option.split)
qed

lemma settles_close_remote:
  assumes "orderly S sid su"
  shows "settles (\<lambda>X h. P X) (close_remote su cs) (\<lambda>_ X h. P X)"
proof -
  have "settles (\<lambda>X h. P X) (catching (su_close_remote su remote) (\<lambda>_. ret ())) (\<lambda>_ X h. P X)" for remote
  proof (rule settles_I)
    fix w and h :: handler assume "sane w" "P (world w)"
    then show "\<exists>v w' h'. catching (su_close_remote su remote) (\<lambda>_. ret ()) (w, h) = (Inr v, w', h') \<and> sane w' \<and> P (world w')"
      using assms unfolding orderly_def
      by (cases "su_close_remote su remote (w, h)") (auto simp: catching_def ret_def split: sum.split dest!: spec [of _ w] spec [of _ h] spec [of _ remote])
  qed
  then show ?thesis
    unfolding close_remote_def whenever_def
    by (auto intro!: settles_ret settles_for_each [where I = "\<lambda>_ X h. P X"] split: option.split)
qed

section \<open>Procedures that may raise\<close>

text \<open>\<open>ends P m Q E\<close>: from a sane application with \<open>P\<close>, \<open>m\<close> either returns with \<open>Q\<close> or raises with \<open>E\<close>, and is sane then.\<close>

definition ends :: "(tables \<Rightarrow> 'y \<Rightarrow> bool) \<Rightarrow> (app \<times> 'y, exn, 'a) act \<Rightarrow> ('a \<Rightarrow> tables \<Rightarrow> 'y \<Rightarrow> bool)
   \<Rightarrow> (exn \<Rightarrow> tables \<Rightarrow> 'y \<Rightarrow> bool) \<Rightarrow> bool" where
  "ends P m Q E \<longleftrightarrow> (\<forall>w y. sane w \<longrightarrow> P (world w) y \<longrightarrow> (case m (w, y) of
     (Inr v, (w', y')) \<Rightarrow> sane w' \<and> Q v (world w') y' | (Inl e, (w', y')) \<Rightarrow> sane w' \<and> E e (world w') y'))"

lemma endsD:
  assumes "ends P m Q E" and "sane w" and "P (world w) y" and "m (w, y) = (r, (w', y'))"
  shows "sane w' \<and> (case r of Inr v \<Rightarrow> Q v (world w') y' | Inl e \<Rightarrow> E e (world w') y')"
  using assms by (cases r) (fastforce simp: ends_def)+

lemma ends_I:
  assumes "\<And>w y r w' y'. sane w \<Longrightarrow> P (world w) y \<Longrightarrow> m (w, y) = (r, (w', y')) \<Longrightarrow>
     sane w' \<and> (case r of Inr v \<Rightarrow> Q v (world w') y' | Inl e \<Rightarrow> E e (world w') y')"
  shows "ends P m Q E"
  unfolding ends_def
proof (intro allI impI)
  fix w y assume w: "sane w" "P (world w) y"
  obtain r w' y' where run: "m (w, y) = (r, (w', y'))" by (metis surj_pair)
  with assms [OF w run] show "case m (w, y) of (Inr v, (w', y')) \<Rightarrow> sane w' \<and> Q v (world w') y' | (Inl e, (w', y')) \<Rightarrow> sane w' \<and> E e (world w') y'"
    by (cases r) simp_all
qed

lemma ends_after:
  assumes "settles P m R" and "\<And>v. ends (R v) (f v) Q E"
  shows "ends P (bnd m f) Q E"
proof (rule ends_I)
  fix w y r w' y' assume w: "sane w" "P (world w) y" and run: "bnd m f (w, y) = (r, (w', y'))"
  obtain v w1 y1 where m: "m (w, y) = (Inr v, (w1, y1))" "sane w1" "R v (world w1) y1" using settlesD [OF assms(1) w] by blast
  with run have "f v (w1, y1) = (r, (w', y'))" by (simp add: bnd_run)
  with endsD [OF assms(2) m(2,3)] show "sane w' \<and> (case r of Inr v \<Rightarrow> Q v (world w') y' | Inl e \<Rightarrow> E e (world w') y')" by blast
qed

lemma ends_after_unit: "settles P m (\<lambda>_. R) \<Longrightarrow> ends R n Q E \<Longrightarrow> ends P (andthen m n) Q E"
  unfolding andthen_def by (rule ends_after)

lemma ends_then:
  assumes "ends P m R E" and "\<And>v. settles (R v) (f v) Q"
  shows "ends P (bnd m f) Q E"
proof (rule ends_I)
  fix w y r w' y' assume w: "sane w" "P (world w) y" and run: "bnd m f (w, y) = (r, (w', y'))"
  obtain x w1 y1 where m: "m (w, y) = (x, (w1, y1))" by (metis surj_pair)
  note middle = endsD [OF assms(1) w m]
  show "sane w' \<and> (case r of Inr v \<Rightarrow> Q v (world w') y' | Inl e \<Rightarrow> E e (world w') y')"
  proof (cases x)
    case (Inl e)
    with m run middle show ?thesis by (auto simp: bnd_run)
  next
    case (Inr v)
    with middle obtain u w2 y2 where "f v (w1, y1) = (Inr u, (w2, y2))" "sane w2" "Q u (world w2) y2"
      using settlesD [OF assms(2), of w1 v y1] by auto
    with m run Inr show ?thesis by (auto simp: bnd_run)
  qed
qed

lemma ends_catching:
  assumes "ends P m Q E" and "\<And>e X y. E e X y \<Longrightarrow> \<not> is_persistence_error e"
  shows "ends P (failing_session sid m) Q E"
proof (rule ends_I)
  fix w y r w' y' assume w: "sane w" "P (world w) y" and run: "failing_session sid m (w, y) = (r, (w', y'))"
  obtain x w1 y1 where m: "m (w, y) = (x, (w1, y1))" by (metis surj_pair)
  note middle = endsD [OF assms(1) w m]
  show "sane w' \<and> (case r of Inr v \<Rightarrow> Q v (world w') y' | Inl e \<Rightarrow> E e (world w') y')"
  proof (cases x)
    case (Inl e)
    with middle assms(2) have "\<not> is_persistence_error e" by auto
    with m run middle Inl show ?thesis by (auto simp: failing_session_def catching_def throw_def)
  next
    case (Inr v)
    with m run middle show ?thesis by (auto simp: failing_session_def catching_def)
  qed
qed

lemma ends_weaken: "ends P' m Q E \<Longrightarrow> (\<And>X y. P X y \<Longrightarrow> P' X y) \<Longrightarrow> ends P m Q E"
  by (simp add: ends_def)

lemma ends_read:
  "(\<And>w r. P (world w) r \<Longrightarrow> ends (\<lambda>X y. X = world w \<and> y = r) (k (f (w, r))) Q E) \<Longrightarrow> ends P (bnd (reading f) k) Q E"
  by (simp add: ends_def bnd_run reading_def)

section \<open>Back to \<open>READY\<close>, or not\<close>

text \<open>The session as it is once swept, in the state \<open>a\<close>: its conversation is at rest.\<close>

definition resting :: "string \<Rightarrow> session_record \<Rightarrow> tables \<Rightarrow> bool" where
  "resting sid s X \<longleftrightarrow> tb_sessions X sid = Some s \<and> session_at_rest (s_current_conversation_id s) X"

definition refused_ready :: "session_state set \<Rightarrow> string \<Rightarrow> exn \<Rightarrow> tables \<Rightarrow> bool" where
  "refused_ready S sid e X \<longleftrightarrow> (\<exists>s. resting sid s X \<and> s_status s \<in> S - {Session_PAUSED, Session_INTERRUPTING}
     \<and> e = InvalidTransitionError ''session'' (session_state_value (s_status s)) (session_state_value Session_READY))"

lemma refused_ready_plain: "refused_ready S sid e X \<Longrightarrow> \<not> is_persistence_error e"
  by (auto simp: refused_ready_def is_persistence_error_def app_errors err_def)

lemma ends_to_ready:
  "ends (\<lambda>X h. \<exists>s. resting sid s X \<and> s_status s \<in> S \<and> s_current_conversation_id s = current) (h_app (transition_session sid Session_READY reason []))
    (\<lambda>ready X h. s_status ready = Session_READY \<and> resting sid ready X \<and> s_current_conversation_id ready = current) (\<lambda>e X h. refused_ready S sid e X)"
  unfolding ends_def
proof (intro allI impI)
  fix w and h :: handler assume w: "sane w" and "\<exists>s. resting sid s (world w) \<and> s_status s \<in> S \<and> s_current_conversation_id s = current"
  then obtain s where s: "tb_sessions (world w) sid = Some s" "session_at_rest (s_current_conversation_id s) (world w)" "resting sid s (world w)"
    "s_current_conversation_id s = current" "s_status s \<in> S"
    by (auto simp: resting_def)
  show "case h_app (transition_session sid Session_READY reason []) (w, h) of
      (Inr v, (w', y')) \<Rightarrow> sane w' \<and> s_status v = Session_READY \<and> resting sid v (world w') \<and> s_current_conversation_id v = current
    | (Inl e, (w', y')) \<Rightarrow> sane w' \<and> refused_ready S sid e (world w')"
  proof (cases "can_transition SESSION_TRANSITIONS (s_status s) Session_READY")
    case True
    then have "achieves (world w) (transition_session sid Session_READY reason [])
        (\<lambda>s' Y. moved_session Session_READY s s' \<and> Y = (world w)\<lparr>tb_sessions := (tb_sessions (world w))(sid \<mapsto> s')\<rparr>)"
      by (rule achieves_transition_session [OF s(1)]) simp
    then obtain s' w' where run: "transition_session sid Session_READY reason [] w = (Inr s', w')" "sane w'" "moved_session Session_READY s s'"
      "world w' = (world w)\<lparr>tb_sessions := (tb_sessions (world w))(sid \<mapsto> s')\<rparr>" using w unfolding achieves_def by blast
    have "resting sid s' (world w')" using s(2) run(3,4) moved_session_fields
      by (auto simp: resting_def session_at_rest_def at_rest_def plan_at_rest_def cycle_at_rest_def dialogue_at_rest_def)
    with run s(4) moved_session_fields [OF run(3)] show ?thesis by (simp add: on_part_def)
  next
    case False
    then have "s_status s \<in> S - {Session_PAUSED, Session_INTERRUPTING}" using s(5) by (auto simp: can_transition_def)
    moreover have "get_session (w_store w) sid = Some s" using s(1) by (simp add: tables_get)
    moreover have "s_session_id s = sid" using filed_keys(5) [of "w_store w" sid s] s(1) w by (simp add: sane_def)
    ultimately show ?thesis
      using transition_session_outcome [of w sid s Session_READY reason] False w s(3) by (auto simp: on_part_def refused_ready_def sane_def)
  qed
qed

lemma ends_stop_and_sweep:
  assumes "orderly S sid su"
  shows "ends (\<lambda>X h. left_in S sid X) (stop_and_sweep su sid reason c asked)
    (\<lambda>(drained, sw, ready) X h. s_status ready = Session_READY \<and> resting sid ready X \<and> s_current_conversation_id ready = sw_conversation_id sw)
    (\<lambda>e X h. refused_ready S sid e X)"
proof -
  let ?F = "\<lambda>X (h :: handler). left_in S sid X"
  let ?R = "\<lambda>sw X (h :: handler). \<exists>s. resting sid s X \<and> s_status s \<in> S \<and> s_current_conversation_id s = sw_conversation_id sw"
  have abandon: "settles ?F (whenever (su_transport su) (modifying (su_abandon su))) (\<lambda>_. ?F)"
    unfolding whenever_def using settles_found [OF assms disjI2 [OF refl]] by (auto intro: settles_ret)
  have cancel: "settles ?F (h_set (cancel_session sid reason)) (\<lambda>_. ?F)" by (rule settles_modifying)
  have sweep: "settles ?F (sweep_session sid reason) ?R"
  proof (rule settles_from)
    fix X h assume "left_in S sid X"
    then obtain s where s: "tb_sessions X sid = Some s" "s_status s \<in> S" by (auto simp: left_in_def)
    show "settles (these X h) (sweep_session sid reason) ?R"
      by (rule settles_weaken [OF settles_sweep_session [OF s(1)]]) (use s sweptD(6) in \<open>auto simp: resting_def\<close>)
  qed
  have ready: "ends (?R sw) (bnd (h_app (transition_session sid Session_READY (Some reason) [])) (\<lambda>ready. ret (drained, sw, ready)))
      (\<lambda>(drained, sw, ready) X h. s_status ready = Session_READY \<and> resting sid ready X \<and> s_current_conversation_id ready = sw_conversation_id sw)
      (\<lambda>e X h. refused_ready S sid e X)" for sw and drained :: bool
    by (rule ends_then [OF ends_to_ready]) (rule settles_ret; simp)
  show ?thesis
    unfolding stop_and_sweep_def
    by (rule ends_after_unit [OF settles_any_publish ends_after_unit [OF cancel ends_after_unit [OF abandon
          ends_after [OF settles_drain [OF assms] ends_after [OF sweep ends_after_unit [OF settles_close_remote [OF assms] ready]]]]]])
qed

lemma achieves_monotonic: "achieves T clock_monotonic_ms (\<lambda>_ X. X = T)"
proof (rule achieves_I)
  fix w assume w: "sane w" "world w = T"
  then have "healthy (w\<lparr>w_mono_reads := w_mono_reads w + 1\<rparr>)"
    by (intro healthy_cong [of w "w\<lparr>w_mono_reads := w_mono_reads w + 1\<rparr>"]) (simp_all add: sane_def healthy_def)
  with w show "\<exists>v w'. clock_monotonic_ms w = (Inr v, w') \<and> sane w' \<and> world w' = T" by (simp add: clock_monotonic_ms_def sane_def)
qed

lemma settles_any_monotonic: "settles (\<lambda>X h. P X h) (h_app clock_monotonic_ms) (\<lambda>_ X h. P X h)"
  by (auto intro!: settles_in_app achieves_weaken [OF achieves_monotonic])

definition well_reported :: "string option \<Rightarrow> interruption_report \<Rightarrow> bool" where
  "well_reported current r \<longleftrightarrow> ir_session_status r = Session_READY \<and> \<not> ir_nothing_to_interrupt r \<and> ir_conversation_id r = current"

lemma settles_to_interrupting:
  assumes "tb_sessions T sid = Some s" and "s_status s \<in> {Session_RUNNING, Session_PAUSED, Session_INTERRUPTING}"
    and "{Session_PAUSED, Session_INTERRUPTING} \<subseteq> S"
  shows "settles (these T y) (whenever (s_status s = Session_RUNNING)
      (bnd (h_app (transition_session sid Session_INTERRUPTING reason [])) (\<lambda>_. ret ())))
    (\<lambda>_ X h. left_in S sid X)"
proof (cases "s_status s = Session_RUNNING")
  case True
  have "achieves T (transition_session sid Session_INTERRUPTING reason [])
      (\<lambda>s' Y. moved_session Session_INTERRUPTING s s' \<and> Y = T\<lparr>tb_sessions := (tb_sessions T)(sid \<mapsto> s')\<rparr>)"
    by (rule achieves_transition_session [OF assms(1)]) (simp_all add: True can_transition_def)
  then have "achieves T (transition_session sid Session_INTERRUPTING reason []) (\<lambda>_. left_in S sid)"
    by (rule achieves_weaken) (use assms(3) moved_session_fields in \<open>auto simp: left_in_def\<close>)
  then show ?thesis
    unfolding whenever_def if_P [OF True] by (intro settles_bnd [OF settles_in_app settles_ret]) auto
next
  case False
  then show ?thesis unfolding whenever_def if_not_P [OF False] using assms by (intro settles_ret) (auto simp: left_in_def)
qed

definition freed :: "string \<Rightarrow> interruption_report \<Rightarrow> tables \<Rightarrow> handler \<Rightarrow> bool" where
  "freed sid report X h \<longleftrightarrow> (\<exists>s. resting sid s X \<and> s_status s = Session_READY \<and> well_reported (s_current_conversation_id s) report)
     \<and> dict_get (ih_tokens h) sid = Some new_cancellation"

lemma ends_run_interruption:
  assumes "orderly S sid su" and "tb_sessions T sid = Some s" and "s_session_id s = sid"
    and "s_status s \<in> {Session_RUNNING, Session_PAUSED, Session_INTERRUPTING}"
  shows "ends (these T y) (run_interruption su timeout s reason) (\<lambda>report X h. freed sid report X h) (\<lambda>e X h. refused_ready S sid e X)"
proof -
  let ?done = "\<lambda>sw ready X (h :: handler). s_status ready = Session_READY \<and> resting sid ready X \<and> s_current_conversation_id ready = sw_conversation_id sw"
  let ?tok = "\<lambda>sw ready X h. ?done sw ready X h \<and> dict_get (ih_tokens h) sid = Some new_cancellation"
  have token: "settles (?done sw ready) (h_set (\<lambda>h. h\<lparr>ih_tokens := dict_set sid new_cancellation (ih_tokens h)\<rparr>)) (\<lambda>_. ?tok sw ready)" for sw ready
    by (rule settles_modifying) simp
  have subset: "{Session_PAUSED, Session_INTERRUPTING} \<subseteq> S" using assms(1) by (simp add: orderly_def)
  have reported: "settles (?tok sw ready) (andthen (handler_publish ty at sid c None None None payload) (ret report)) (\<lambda>report X h. freed sid report X h)"
    if "ir_session_status report = s_status ready" "\<not> ir_nothing_to_interrupt report" "ir_conversation_id report = sw_conversation_id sw"
    for sw ready ty at c payload report
    by (rule settles_andthen [OF settles_any_publish settles_ret]) (use that in \<open>auto simp: freed_def well_reported_def\<close>)
  show ?thesis
    unfolding run_interruption_def bnd_ret assms(3)
    apply (rule ends_after [OF settles_any_clock])
    apply (rule ends_after [OF settles_any_monotonic])
    apply (rule ends_read, elim conjE)
    subgoal for asked t0 w r
      apply (rule ends_weaken [where P' = "these T y"])
       apply (rule ends_after_unit [OF settles_to_interrupting [OF assms(2,4) subset]])
       apply (rule ends_then [OF ends_catching [OF ends_stop_and_sweep [OF assms(1)]]])
        apply (erule refused_ready_plain)
       apply (clarsimp split: prod.split)
      subgoal for drained sw ready
        apply (rule settles_andthen [OF token])
        apply (rule settles_bnd [OF settles_any_clock])
        apply (rule settles_bnd [OF settles_any_monotonic])
        by (rule reported) simp_all
      by simp
    done
qed

section \<open>Properties\<close>


text \<open>
  C24. The sweep of a session always returns and does nothing but interrupt: a task, plan, cycle or conversation is either
  as it was or was under way and is now its interrupted form, an interrupted plan has taken its open tasks along,
  sessions and messages are untouched, and the session's conversation is at rest.
\<close>

theorem sweep_only_interrupts:
  assumes "sane w" and "get_session (w_store w) sid = Some s"
  shows "\<exists>sw w'. sweep_session sid reason (w, h) = (Inr sw, (w', h)) \<and> sane w'
     \<and> swept reason (tables_of (w_store w)) (tables_of (w_store w'))
     \<and> session_at_rest (s_current_conversation_id s) (tables_of (w_store w'))"
  using settlesD [OF settles_sweep_session [of "world w" sid s h reason] assms(1), of h] assms(2) by (auto simp: tables_get)

text \<open>
  The sweep of a conversation's plan reports the plan exactly when it ended interrupted, with exactly the tasks of it
  that are interrupted then, whoever interrupted them.
\<close>

theorem sweep_plan_reports:
  assumes "sane w"
  shows "\<exists>r w'. sweep_plan c reason (w, h) = (Inr r, (w', h)) \<and> plan_reported c (tables_of (w_store w')) r"
  using settlesD [OF settles_sweep_plan [of "world w" h c reason] assms, of h] by auto

text \<open>Whatever happens, an error included, an interruption that was not already under way leaves none in flight.\<close>

lemma interrupt_releases_session:
  assumes "sid \<notin> set (ih_in_flight h)" and "interrupt su timeout sid reason (w, h) = (r, (w', h'))"
  shows "sid \<notin> set (ih_in_flight h')"
  using assms by (auto simp: interrupt_def bnd_run reading_def andthen_run modifying_def throw_def ret_def on_part_def
      clock_now_run split: option.splits if_splits prod.splits)

text \<open>An idle session is answered at once and nothing is written.\<close>

lemma idle_interrupt_changes_nothing:
  assumes "get_session (w_store w) sid = Some s" and "s_status s \<in> IDLE_SESSION_STATES" and "sid \<notin> set (ih_in_flight h)"
  shows "\<exists>report w'. interrupt su timeout sid reason (w, h) = (Inr (Some report), (w', h)) \<and> ir_nothing_to_interrupt report
     \<and> ir_session_status report = s_status s \<and> w_store w' = w_store w \<and> w_delivered w' = w_delivered w"
  using assms by (simp add: interrupt_def bnd_run reading_def ret_def on_part_def clock_now_run idle_report_def)

section \<open>Witnesses\<close>

definition still :: surroundings where
  "still = \<lparr>su_transport = True, su_abandon = id, su_drain = id, su_set_in_time = True, su_close_remote = \<lambda>_. ret ()\<rparr>"

definition new_handler :: handler where
  "new_handler = \<lparr>ih_tokens = [], ih_loops = [], ih_events = 0, ih_set = [], ih_in_flight = []\<rparr>"

lemma crashed_sane: "sane (crashed_app x y ms)"
  using crashed_app_sane by (simp add: sane_def)

abbreviation "stuck \<equiv> crashed_app Session_RUNNING Conv_RUNNING_PLAN []"

text \<open>A loop that fails its session while it is drained.\<close>

definition failing_loop :: surroundings where
  "failing_loop = still\<lparr>su_drain := \<lambda>(w, h). (snd (transition_session ''s'' Session_FAILED None [] w), h)\<rparr>"

lemma failing_loop_orderly: "orderly {Session_PAUSED, Session_INTERRUPTING, Session_FAILED} ''s'' failing_loop"
proof -
  let ?S = "{Session_PAUSED, Session_INTERRUPTING, Session_FAILED}" and ?f = "\<lambda>w. snd (transition_session ''s'' Session_FAILED None [] w)"
  have "sane (?f w) \<and> left_in ?S ''s'' (world (?f w))" if w: "sane w" "left_in ?S ''s'' (world w)" for w
  proof -
    obtain s where s: "tb_sessions (world w) ''s'' = Some s" "s_status s \<in> ?S" using w(2) by (auto simp: left_in_def)
    show ?thesis
    proof (cases "can_transition SESSION_TRANSITIONS (s_status s) Session_FAILED")
      case True
      then have "achieves (world w) (transition_session ''s'' Session_FAILED None []) (\<lambda>_. left_in ?S ''s'')"
        by (rule achieves_weaken [OF achieves_transition_session [OF s(1)]]) (use moved_session_fields in \<open>auto simp: left_in_def\<close>)
      with w(1) show ?thesis unfolding achieves_def by fastforce
    next
      case False
      moreover have "get_session (w_store w) ''s'' = Some s" using s(1) by (simp add: tables_get)
      moreover have "s_session_id s = ''s''" using filed_keys(5) [of "w_store w" "''s''" s] s(1) w(1) by (simp add: sane_def)
      ultimately show ?thesis using transition_session_outcome [of w "''s''" s Session_FAILED None] w by (simp add: sane_def)
    qed
  qed
  then show ?thesis by (auto simp: orderly_def failing_loop_def still_def ret_def)
qed


theorem sweep_only_interrupts_witness:
  "\<exists>sw w'. sweep_session ''s'' ''user_interrupt'' (stuck, new_handler) = (Inr sw, (w', new_handler))
     \<and> swept ''user_interrupt'' (tables_of (w_store stuck)) (tables_of (w_store w'))"
  using sweep_only_interrupts [OF crashed_sane crashed_records(1)] by blast

theorem sweep_plan_reports_witness:
  "\<exists>r w'. sweep_plan (sample_conversation Conv_RUNNING_PLAN) ''user_interrupt'' (stuck, new_handler) = (Inr r, (w', new_handler))
     \<and> plan_reported (sample_conversation Conv_RUNNING_PLAN) (tables_of (w_store w')) r"
  by (rule sweep_plan_reports [OF crashed_sane])

end
