(* ===== verification/Outbound.thy ===== *)
theory Outbound
  imports Protocol
begin

text \<open>
  The messages the application sends (\<open>protocol/adapter.py\<close>, outbound half): the envelope around a content, the
  three substantive messages, and the correction request with its errors, its reminder, its example and the
  reductions that bring it under the size of a message.

  Pydantic's rendering of a content model in the reminder is the parameter \<open>digest\<close> (the text after the type's name),
  and \<open>shown\<close> is the text of an output inside a payload, whose characters may lie above those of \<^typ>\<open>char\<close>; the
  sizes count the real bytes. \<open>max_length\<close>-style bounds of the outbound models are left to pydantic, but for the one
  that depends on the refusal (a non-empty error code).
\<close>

section \<open>Envelopes\<close>

record outbound_message =
  om_envelope :: envelope
  om_payload :: details
  om_size_bytes :: int
  om_message_type :: message_type

definition remote_id :: "conversation_record \<Rightarrow> string" where
  "remote_id c = (case c_remote_conversation_id c of Some r \<Rightarrow> if r = [] then c_conversation_id c else r | None \<Rightarrow> c_conversation_id c)"

definition envelope_json :: "envelope \<Rightarrow> details" where
  "envelope_json e = [(''type'', JStr (message_type_value (en_type e))), (''conversation_id'', JStr (en_conversation_id e)),
     (''message_id'', JStr (en_message_id e)), (''content'', JObj (en_content e))]"

definition outbound :: "message_type \<Rightarrow> conversation_record \<Rightarrow> string \<Rightarrow> details \<Rightarrow> outbound_message" where
  "outbound ty c mid content =
     (let e = \<lparr>en_type = ty, en_conversation_id = remote_id c, en_message_id = mid, en_content = content\<rparr>
      in \<lparr>om_envelope = e, om_payload = envelope_json e, om_size_bytes = int (size_bytes (JObj (envelope_json e))),
          om_message_type = ty\<rparr>)"

section \<open>The substantive messages\<close>

definition build_user_request :: "conversation_record \<Rightarrow> string \<Rightarrow> string \<Rightarrow> string \<Rightarrow> session_budget \<Rightarrow> outbound_message" where
  "build_user_request c mid goal user_message budget =
     outbound USER_REQUEST c mid [(''goal'', JStr goal), (''user_message'', JStr user_message), (''session_budget'', JObj (budget_json budget))]"

definition content_fields :: "execution_result_content \<Rightarrow> details" where
  "content_fields content = (case content_json content of JObj d \<Rightarrow> d | _ \<Rightarrow> [])"

text \<open>A result with its texts in place.\<close>

definition shown_result :: "(utext \<Rightarrow> string) \<Rightarrow> task_result \<Rightarrow> json" where
  "shown_result shown r =
     (case task_result_json r of
        JObj d \<Rightarrow> JObj ((case tr_data r of None \<Rightarrow> id | Some t \<Rightarrow> dict_set ''data'' (JStr (shown t)))
                    (dict_set ''stderr'' (JStr (shown (tr_stderr r))) (dict_set ''stdout'' (JStr (shown (tr_stdout r))) d)))
      | j \<Rightarrow> j)"

definition build_execution_result ::
  "(utext \<Rightarrow> string) \<Rightarrow> conversation_record \<Rightarrow> string \<Rightarrow> execution_result_content \<Rightarrow> outbound_message" where
  "build_execution_result shown c mid content =
     (let bare = outbound EXECUTION_RESULT c mid (content_fields content);
          e = (om_envelope bare)\<lparr>en_content := dict_set ''results'' (JArr (map (shown_result shown) (er_results content))) (content_fields content)\<rparr>
      in bare\<lparr>om_envelope := e, om_payload := envelope_json e,
           om_size_bytes := om_size_bytes bare + int (sum_list (map texts_size (er_results content)))\<rparr>)"

definition build_context_resume_request ::
  "conversation_record \<Rightarrow> string \<Rightarrow> string \<Rightarrow> string \<Rightarrow> details \<Rightarrow> message_type \<Rightarrow> outbound_message" where
  "build_context_resume_request c mid original goal summary pending_type =
     outbound CONTEXT_RESUME_REQUEST c mid
       [(''original_conversation_id'', JStr original), (''goal'', JStr goal), (''context_summary'', JObj summary),
        (''pending_message_type'', JStr (message_type_value pending_type))]"

section \<open>Examples\<close>

definition CORRECTION_EXAMPLE_MESSAGE_ID :: string where "CORRECTION_EXAMPLE_MESSAGE_ID = ''<new-unique-message-id>''"

text \<open>\<open>model_dump(exclude_none=True)\<close> of the example plans, whose single task is a command with one flag.\<close>

definition example_plan :: "string \<Rightarrow> string \<Rightarrow> string \<Rightarrow> details" where
  "example_plan objective cmd flag =
     [(''plan_id'', JStr ''<new-unique-plan-id>''), (''objective'', JStr objective), (''execution_policy'', JStr ''sequential''),
      (''tasks'', JArr [JObj [(''task_id'', JStr ''<new-unique-task-id>''), (''type'', JStr ''cmd''), (''cmd'', JStr cmd),
         (flag, JBool True), (''depends_on'', JArr [])]])]"

fun EXAMPLE_CONTENT :: "message_type \<Rightarrow> details option" where
  "EXAMPLE_CONTENT DISCOVERY_PLAN = Some (example_plan ''Discover the execution environment'' ''uname -a'' ''continue_on_error'')"
| "EXAMPLE_CONTENT EXECUTION_PLAN =
     Some (example_plan ''Confirm the hypothesis with one command'' ''echo $JAVA_HOME'' ''continue_on_error'')"
| "EXAMPLE_CONTENT PRIORITY_CLARIFICATION =
     Some (example_plan ''Immediately confirm one fact before anything else'' ''mvn -version'' ''critical'')"
| "EXAMPLE_CONTENT FINAL_ANSWER =
     Some [(''status'', JStr ''completed''), (''diagnosis'', JStr ''What you concluded, in plain language, for the user.''),
       (''evidence'', JArr [JStr ''The task result that supports it'']),
       (''recommended_next_step'', JStr ''What the user should do now.'')]"
| "EXAMPLE_CONTENT USER_RESPONSE =
     Some [(''format'', JStr ''markdown''), (''body'', JStr ''What you want to tell the user, as text.''),
       (''status'', JStr ''completed''), (''expects_reply'', JBool False)]"
| "EXAMPLE_CONTENT CONTEXT_RESUME_ACK =
     Some [(''original_conversation_id'', JStr ''<the original_conversation_id you received>''), (''acknowledged'', JBool True)]"
| "EXAMPLE_CONTENT _ = None"

definition EXAMPLE_PREFERENCE :: "message_type list" where
  "EXAMPLE_PREFERENCE = [CONTEXT_RESUME_ACK, DISCOVERY_PLAN, EXECUTION_PLAN, PRIORITY_CLARIFICATION, FINAL_ANSWER, USER_RESPONSE]"

definition example_envelope_for :: "message_type \<Rightarrow> string \<Rightarrow> exn + details" where
  "example_envelope_for ty conversation_id =
     (case EXAMPLE_CONTENT ty of
        None \<Rightarrow> Inl (ValueError (''no minimal example for '' @ message_type_value ty))
      | Some content \<Rightarrow> Inr [(''type'', JStr (message_type_value ty)), (''conversation_id'', JStr conversation_id),
          (''message_id'', JStr CORRECTION_EXAMPLE_MESSAGE_ID), (''content'', JObj content)])"

text \<open>\<open>sorted\<close> by the place in \<open>EXAMPLE_PREFERENCE\<close>, the types it does not hold after it, by value.\<close>

definition preference :: "message_type \<Rightarrow> nat" where
  "preference ty = length (takeWhile (\<lambda>x. x \<noteq> ty) EXAMPLE_PREFERENCE)"

definition ordered_types :: "message_type set \<Rightarrow> message_type list" where
  "ordered_types expected = sort_key (\<lambda>ty. (preference ty, message_type_value ty)) (filter (\<lambda>ty. ty \<in> expected) all_message_types)"

definition message_type_of :: "string \<Rightarrow> message_type option" where
  \<comment> \<open>\<open>MessageType(value)\<close>, \<open>None\<close> for its \<open>ValueError\<close>\<close>
  "message_type_of v = find (\<lambda>ty. message_type_value ty = v) all_message_types"

definition attempted_type :: "details \<Rightarrow> message_type list \<Rightarrow> string \<Rightarrow> message_type option" where
  "attempted_type details candidates key =
     (case dict_get details key of
        Some (JStr v) \<Rightarrow> (case message_type_of v of Some ty \<Rightarrow> if ty \<in> set candidates then Some ty else None | None \<Rightarrow> None)
      | _ \<Rightarrow> None)"

definition correction_example :: "message_type set \<Rightarrow> details \<Rightarrow> string \<Rightarrow> exn + details" where
  "correction_example expected details remote =
     (let candidates = filter (\<lambda>ty. EXAMPLE_CONTENT ty \<noteq> None) (ordered_types expected)
      in if candidates = [] then Inr []
         else case attempted_type details candidates ''received'' of
           Some ty \<Rightarrow> example_envelope_for ty remote
         | None \<Rightarrow> (case attempted_type details candidates ''message_type'' of
             Some ty \<Rightarrow> example_envelope_for ty remote
           | None \<Rightarrow> example_envelope_for (hd candidates) remote))"

section \<open>The correction request\<close>

definition CORRECTION_HINTS :: "(string \<times> string) list" where
  "CORRECTION_HINTS =
    [(''SCHEMA_INVALID'', ''the message does not match the schema of its type''),
     (''UNEXPECTED_MESSAGE_TYPE'', ''that type is not one of the types expected at this point''),
     (''SYSTEM_ERROR_NOT_ALLOWED_INBOUND'', ''system_error is internal to the application and is never sent by you''),
     (''UNEXPECTED_EXTRA_MESSAGE'', ''one turn carries exactly one message, never two''),
     (''EMPTY_REPLY'', ''the reply carried no message at all''),
     (''CONVERSATION_MISMATCH'', ''conversation_id must repeat the id of the conversation you are in''),
     (''DUPLICATE_MESSAGE_ID'', ''message_id must be new: it is already taken in this session''),
     (''DUPLICATE_PLAN_ID'', ''plan_id must be new: it is already taken in this session''),
     (''DUPLICATE_TASK_ID'', ''task_id must be new: it is already taken in this session''),
     (''SELF_DEPENDENCY'', ''a task cannot depend on itself''),
     (''UNKNOWN_DEPENDENCY'', ''depends_on may only name tasks declared in the same plan''),
     (''DEPENDENCY_CYCLE'', ''the dependencies of the plan form a cycle''),
     (''FORWARD_DEPENDENCY_IN_SEQUENTIAL'', ''in sequential mode a task may only depend on tasks declared before it''),
     (''CHUNK_REF_UNKNOWN'', ''a chunk_request must name a task of this session whose output is stored''),
     (''STATE_SUMMARY_TOO_LARGE'', ''the state_summary is over its byte budget: make it denser''),
     (''USER_RESPONSE_TOO_LARGE'', ''the body is over its byte budget: make it shorter''),
     (''ACK_WRONG_ORIGINAL'', ''original_conversation_id must repeat the value of the resume request''),
     (''ACK_NOT_ACKNOWLEDGED'', ''the resume request must be acknowledged with acknowledged = true''),
     (''UNPARSEABLE_REPLY'', ''no JSON message envelope could be read in the reply: answer with the envelope alone'')]"

definition DEFAULT_HINT :: string where "DEFAULT_HINT = ''the reply could not be used as a protocol message''"
definition SHRINK_EXCERPT_CHARS :: nat where "SHRINK_EXCERPT_CHARS = 200"
definition SHRINK_REMINDER_CHARS :: nat where "SHRINK_REMINDER_CHARS = 400"
definition DETAIL_NOT_AN_ERROR :: "string list" where "DETAIL_NOT_AN_ERROR = [''errors'', ''excerpt'', ''operation'', ''http_status'']"

definition correction_reminder :: "(message_type \<Rightarrow> string) \<Rightarrow> string \<Rightarrow> message_type set \<Rightarrow> string \<Rightarrow> string" where
  "correction_reminder digest error_code expected conversation_id =
     (let hint = (case dict_get CORRECTION_HINTS error_code of Some h \<Rightarrow> h | None \<Rightarrow> DEFAULT_HINT);
          refused = ''Your last reply was refused ('' @ error_code @ ''): '' @ hint @ ''.'';
          types = ordered_types expected
      in if types = [] then join_with [CHR 0x0A] [refused, ''Nothing is expected from you in this conversation.'']
         else join_with [CHR 0x0A] ([refused,
             ''Send exactly one message, of one of these types: ''
               @ join_with '', '' (map (\<lambda>ty. [CHR 0x60] @ message_type_value ty @ [CHR 0x60]) types) @ ''.'']
           @ map (\<lambda>ty. ''- '' @ message_type_value ty @ ''.content '' @ digest ty) types
           @ [''The envelope is type, conversation_id, message_id, content. Use conversation_id ''
               @ [CHR 0x22] @ conversation_id @ [CHR 0x22]
               @ '' and a NEW message_id, unique in the session. Fix exactly what ''
               @ [CHR 0x60] @ ''errors'' @ [CHR 0x60] @ '' lists; do not resend the refused message unchanged.'']))"

definition is_object :: "json \<Rightarrow> bool" where
  "is_object j = (case j of JObj _ \<Rightarrow> True | _ \<Rightarrow> False)"

definition correction_errors :: "details \<Rightarrow> json list" where
  "correction_errors details =
     (let entry = filter (\<lambda>(k, v). k \<notin> set DETAIL_NOT_AN_ERROR \<and> v \<noteq> JNull) details
      in case dict_get details ''errors'' of
           Some (JArr listed) \<Rightarrow> if list_all is_object listed then listed else if entry = [] then [] else [JObj entry]
         | _ \<Rightarrow> if entry = [] then [] else [JObj entry])"

text \<open>The fields of a \<open>ProtocolCorrectionRequestContent\<close>.\<close>

record correction =
  cr_rejected_message_id :: "string option"
  cr_error_code :: string
  cr_errors :: "json list"
  cr_expected_types :: "string list"
  cr_reminder :: string
  cr_example :: details
  cr_raw_excerpt :: "string option"
  cr_attempt :: int
  cr_max_attempts :: int

definition correction_json :: "correction \<Rightarrow> details" where
  "correction_json f = opt_field ''rejected_message_id'' JStr (cr_rejected_message_id f)
     @ [(''error_code'', JStr (cr_error_code f)), (''errors'', JArr (cr_errors f)), (''expected_types'', JArr (map JStr (cr_expected_types f))),
        (''reminder'', JStr (cr_reminder f)), (''example'', JObj (cr_example f))]
     @ opt_field ''raw_excerpt'' JStr (cr_raw_excerpt f)
     @ [(''attempt'', JInt (cr_attempt f)), (''max_attempts'', JInt (cr_max_attempts f))]"

definition correction_message :: "conversation_record \<Rightarrow> string \<Rightarrow> correction \<Rightarrow> exn + outbound_message" where
  "correction_message c mid f =
     (if cr_error_code f = [] then Inl (Other_Exn ''ValidationError'' ''error_code'')
      else Inr (outbound PROTOCOL_CORRECTION_REQUEST c mid (correction_json f)))"

definition shrink_excerpt :: "correction \<Rightarrow> correction" where
  "shrink_excerpt f = f\<lparr>cr_raw_excerpt := map_option (take SHRINK_EXCERPT_CHARS) (cr_raw_excerpt f)\<rparr>"
definition drop_excerpt :: "correction \<Rightarrow> correction" where "drop_excerpt f = f\<lparr>cr_raw_excerpt := None\<rparr>"
definition shrink_errors :: "correction \<Rightarrow> correction" where "shrink_errors f = f\<lparr>cr_errors := take 1 (cr_errors f)\<rparr>"
definition drop_errors :: "correction \<Rightarrow> correction" where "drop_errors f = f\<lparr>cr_errors := []\<rparr>"
definition shrink_reminder :: "correction \<Rightarrow> correction" where
  "shrink_reminder f = f\<lparr>cr_reminder := take SHRINK_REMINDER_CHARS (cr_reminder f)\<rparr>"
definition drop_example :: "correction \<Rightarrow> correction" where "drop_example f = f\<lparr>cr_example := []\<rparr>"
definition drop_reminder :: "correction \<Rightarrow> correction" where "drop_reminder f = f\<lparr>cr_reminder := []\<rparr>"

definition CORRECTION_SHRINK_STEPS :: "(correction \<Rightarrow> correction) list" where
  "CORRECTION_SHRINK_STEPS = [shrink_excerpt, drop_excerpt, shrink_errors, drop_errors, shrink_reminder, drop_example, drop_reminder]"

text \<open>The \<open>for\<close> loop: \<open>message\<close> is its local variable.\<close>

fun fit_correction ::
  "(correction \<Rightarrow> exn + outbound_message) \<Rightarrow> int \<Rightarrow> (correction \<Rightarrow> correction) list \<Rightarrow> correction \<Rightarrow> outbound_message
   \<Rightarrow> exn + outbound_message" where
  "fit_correction message limit [] f m = Inr m"
| "fit_correction message limit (shrink # steps) f m =
     (if om_size_bytes m \<le> limit then Inr m
      else bindR (message (shrink f)) (\<lambda>m'. fit_correction message limit steps (shrink f) m'))"

definition correction_fields ::
  "(message_type \<Rightarrow> string) \<Rightarrow> conversation_record \<Rightarrow> normalized_error \<Rightarrow> message_type set \<Rightarrow> string option \<Rightarrow> int \<Rightarrow> int
   \<Rightarrow> exn + correction" where
  "correction_fields digest c e expected rejected attempt max_attempts =
     bindR (correction_example expected (ne_details e) (remote_id c)) (\<lambda>example.
     Inr \<lparr>cr_rejected_message_id = rejected, cr_error_code = ne_error_code e, cr_errors = correction_errors (ne_details e),
       cr_expected_types = sorted_values expected, cr_reminder = correction_reminder digest (ne_error_code e) expected (remote_id c),
       cr_example = example, cr_raw_excerpt = (case dict_get (ne_details e) ''excerpt'' of Some (JStr x) \<Rightarrow> Some x | _ \<Rightarrow> None),
       cr_attempt = attempt, cr_max_attempts = max_attempts\<rparr>)"

definition build_protocol_correction_request ::
  "payload_section \<Rightarrow> (message_type \<Rightarrow> string) \<Rightarrow> conversation_record \<Rightarrow> string \<Rightarrow> normalized_error \<Rightarrow> message_type set
   \<Rightarrow> string option \<Rightarrow> int \<Rightarrow> int \<Rightarrow> exn + outbound_message" where
  "build_protocol_correction_request cfg digest c mid e expected rejected attempt max_attempts =
     bindR (guardR (\<not> (attempt < 1 \<or> max_attempts < 1)) (ValueError ''a correction request needs attempt >= 1 and max_attempts >= 1'')) (\<lambda>_.
     bindR (correction_fields digest c e expected rejected attempt max_attempts) (\<lambda>f.
     bindR (correction_message c mid f) (\<lambda>m.
     fit_correction (correction_message c mid) (y_max_message_bytes cfg) CORRECTION_SHRINK_STEPS f m)))"

section \<open>The reductions\<close>

text \<open>The correction after the first \<open>k\<close> reductions.\<close>

definition reduced_correction :: "nat \<Rightarrow> correction \<Rightarrow> correction" where
  "reduced_correction k f = fold (\<lambda>shrink. shrink) (take k CORRECTION_SHRINK_STEPS) f"

lemmas shrink_steps = shrink_excerpt_def drop_excerpt_def shrink_errors_def drop_errors_def shrink_reminder_def drop_example_def
  drop_reminder_def

text \<open>What no reduction touches.\<close>

definition same_fault :: "correction \<Rightarrow> correction \<Rightarrow> bool" where
  "same_fault f g \<longleftrightarrow> cr_rejected_message_id g = cr_rejected_message_id f \<and> cr_error_code g = cr_error_code f
     \<and> cr_expected_types g = cr_expected_types f \<and> cr_attempt g = cr_attempt f \<and> cr_max_attempts g = cr_max_attempts f"

lemma fold_same_fault: "set steps \<subseteq> set CORRECTION_SHRINK_STEPS \<Longrightarrow> same_fault f (fold (\<lambda>shrink. shrink) steps f)"
proof (induction steps arbitrary: f)
  case (Cons x xs)
  then have "x \<in> set CORRECTION_SHRINK_STEPS" by simp
  then have "same_fault f (x f)" by (auto simp: CORRECTION_SHRINK_STEPS_def same_fault_def shrink_steps)
  moreover have "same_fault (x f) (fold (\<lambda>shrink. shrink) xs (x f))" using Cons by simp
  ultimately show ?case by (simp add: same_fault_def)
qed (simp add: same_fault_def)

lemma reduced_same_fault: "same_fault f (reduced_correction k f)"
  unfolding reduced_correction_def by (rule fold_same_fault) (rule set_take_subset)

lemma fit_correction_takes:
  assumes "fit_correction message limit steps f m0 = Inr m" and "message f = Inr m0"
  shows "\<exists>k \<le> length steps. message (fold (\<lambda>shrink. shrink) (take k steps) f) = Inr m
    \<and> (om_size_bytes m \<le> limit \<or> k = length steps)
    \<and> (\<forall>j < k. \<exists>m'. message (fold (\<lambda>shrink. shrink) (take j steps) f) = Inr m' \<and> limit < om_size_bytes m')"
  using assms
proof (induction message limit steps f m0 rule: fit_correction.induct)
  case (1 message limit f m0)
  then show ?case by simp
next
  case (2 message limit shrink steps f m0)
  show ?case
  proof (cases "om_size_bytes m0 \<le> limit")
    case True
    with 2 have "message (fold (\<lambda>shrink. shrink) (take 0 (shrink # steps)) f) = Inr m \<and> om_size_bytes m \<le> limit" by simp
    then show ?thesis by fastforce
  next
    case False
    with 2 obtain m1 where m1: "message (shrink f) = Inr m1" "fit_correction message limit steps (shrink f) m1 = Inr m"
      by (auto split: sum.splits elim!: bindR.elims)
    from 2(1) [OF False m1(2) m1(1)] obtain k where k: "k \<le> length steps"
      "message (fold (\<lambda>shrink. shrink) (take k steps) (shrink f)) = Inr m" "om_size_bytes m \<le> limit \<or> k = length steps"
      "\<forall>j < k. \<exists>m'. message (fold (\<lambda>shrink. shrink) (take j steps) (shrink f)) = Inr m' \<and> limit < om_size_bytes m'"
      by blast
    have "\<exists>m'. message (fold (\<lambda>shrink. shrink) (take j (shrink # steps)) f) = Inr m' \<and> limit < om_size_bytes m'" if "j < Suc k" for j
      using that k(4) False 2(3) by (cases j) auto
    with k show ?thesis by (intro exI [of _ "Suc k"]) auto
  qed
qed

text \<open>A correction can always be built.\<close>

lemma correction_example_total: "\<exists>x. correction_example expected details remote = Inr x"
proof -
  obtain cands where cands: "cands = filter (\<lambda>ty. EXAMPLE_CONTENT ty \<noteq> None) (ordered_types expected)" by blast
  have known: "\<exists>x. example_envelope_for ty remote = Inr x" if "ty \<in> set cands" for ty
    using that by (auto simp: example_envelope_for_def cands)
  have tried: "ty \<in> set cands" if "attempted_type details cands key = Some ty" for ty key
    using that by (auto simp: attempted_type_def split: option.splits json.splits if_splits)
  have first: "cands \<noteq> [] \<Longrightarrow> \<exists>x. example_envelope_for (hd cands) remote = Inr x" by (intro known hd_in_set)
  have "\<exists>x. example_envelope_for ty remote = Inr x" if "attempted_type details cands key = Some ty" for key ty
    using known tried that by blast
  with first show ?thesis unfolding correction_example_def cands [symmetric] Let_def
    by (cases "cands = []"; cases "attempted_type details cands ''received''"; cases "attempted_type details cands ''message_type''") simp_all
qed

lemma correction_fields_total: "\<exists>f. correction_fields digest c e expected rejected attempt max_attempts = Inr f \<and> cr_error_code f = ne_error_code e
    \<and> cr_rejected_message_id f = rejected \<and> cr_expected_types f = sorted_values expected
    \<and> cr_attempt f = attempt \<and> cr_max_attempts f = max_attempts"
  using correction_example_total [of expected "ne_details e" "remote_id c"] by (auto simp: correction_fields_def)

lemma correction_message_total: "cr_error_code f \<noteq> [] \<Longrightarrow> \<exists>m. correction_message c mid f = Inr m"
  by (simp add: correction_message_def)

lemma fit_correction_total:
  assumes "cr_error_code f \<noteq> []" and "set steps \<subseteq> set CORRECTION_SHRINK_STEPS"
  shows "\<exists>m'. fit_correction (correction_message c mid) limit steps f m = Inr m'"
  using assms
proof (induction steps arbitrary: f m)
  case (Cons x xs)
  then have "cr_error_code (x f) = cr_error_code f" by (auto simp: CORRECTION_SHRINK_STEPS_def shrink_steps)
  moreover from this Cons.prems obtain m1 where "correction_message c mid (x f) = Inr m1" using correction_message_total [of "x f" c mid] by auto
  ultimately show ?case using Cons by simp
qed simp

text \<open>
  C16. A correction request can always be built, and it stays under \<open>payload.max_message_bytes\<close> whenever some
  reduction brings it there: the message sent is the first of the eight forms, from the full one to the one without
  excerpt, errors, reminder and example, that fits, or the last one when none does. The reductions never touch
  what a correction is for: the error code, the refused message, the expected types and where the correction
  budget stands.
\<close>

theorem correction_request_is_reduced_minimally:
  assumes "ne_error_code e \<noteq> []" and "1 \<le> attempt" and "1 \<le> max_attempts"
  shows "\<exists>m f k. build_protocol_correction_request cfg digest c mid e expected rejected attempt max_attempts = Inr m
    \<and> correction_fields digest c e expected rejected attempt max_attempts = Inr f \<and> k \<le> 7
    \<and> correction_message c mid (reduced_correction k f) = Inr m
    \<and> (om_size_bytes m \<le> y_max_message_bytes cfg \<or> k = 7)
    \<and> (\<forall>j < k. \<exists>m'. correction_message c mid (reduced_correction j f) = Inr m' \<and> y_max_message_bytes cfg < om_size_bytes m')
    \<and> cr_error_code (reduced_correction k f) = ne_error_code e
    \<and> cr_rejected_message_id (reduced_correction k f) = rejected
    \<and> cr_expected_types (reduced_correction k f) = sorted_values expected
    \<and> cr_attempt (reduced_correction k f) = attempt \<and> cr_max_attempts (reduced_correction k f) = max_attempts"
proof -
  obtain f where f: "correction_fields digest c e expected rejected attempt max_attempts = Inr f" "cr_error_code f = ne_error_code e"
    "cr_rejected_message_id f = rejected" "cr_expected_types f = sorted_values expected" "cr_attempt f = attempt" "cr_max_attempts f = max_attempts"
    using correction_fields_total by blast
  with assms(1) obtain m0 where m0: "correction_message c mid f = Inr m0" using correction_message_total by metis
  obtain m where fit: "fit_correction (correction_message c mid) (y_max_message_bytes cfg) CORRECTION_SHRINK_STEPS f m0 = Inr m"
    using fit_correction_total [of f CORRECTION_SHRINK_STEPS] assms(1) f(2) by fastforce
  have built: "build_protocol_correction_request cfg digest c mid e expected rejected attempt max_attempts = Inr m"
    using assms f(1) m0 fit by (simp add: build_protocol_correction_request_def guardR_def)
  have seven: "length CORRECTION_SHRINK_STEPS = 7" by (simp add: CORRECTION_SHRINK_STEPS_def)
  from fit_correction_takes [OF fit m0] obtain k where "k \<le> 7"
    "correction_message c mid (reduced_correction k f) = Inr m" "om_size_bytes m \<le> y_max_message_bytes cfg \<or> k = 7"
    "\<forall>j < k. \<exists>m'. correction_message c mid (reduced_correction j f) = Inr m' \<and> y_max_message_bytes cfg < om_size_bytes m'"
    unfolding reduced_correction_def seven by blast
  then show ?thesis using built f reduced_same_fault [of f k] unfolding same_fault_def by metis
qed

definition sample_fault :: normalized_error where
  "sample_fault = err MODEL_PROTOCOL_ERROR ''EMPTY_REPLY'' ''ProtocolAdapter'' Severity_HIGH False False
     [(''expected'', JInt 1), (''received'', JInt 0), (''excerpt'', JStr ''hello'')]"

theorem correction_request_is_reduced_minimally_witness:
  "\<exists>m. build_protocol_correction_request small_payload (\<lambda>_. []) asked_conversation ''m9'' sample_fault {EXECUTION_PLAN} None 1 2 = Inr m"
  using correction_request_is_reduced_minimally [of sample_fault 1 2 small_payload "\<lambda>_. []" asked_conversation "''m9''" "{EXECUTION_PLAN}" None]
  by (auto simp: sample_fault_def err_def)

end
