(* ===== verification/Rotation.thy ===== *)
theory Rotation
  imports Outbound Failures Interruption
begin

text \<open>
  \<open>context/rotation.py\<close>: the rotation of a saturated conversation into a child, with the message \<open>M\<close> it is
  pending on. The transport is the record \<open>transport\<close> of what an awaited call may do: it may raise and, while the
  coroutine is suspended, anything may happen to the application and the interruption handler. Everything
  between two awaited calls is atomic, as in \<open>asyncio\<close>.
\<close>

section \<open>What surrounds a run\<close>

text \<open>\<open>GetResult\<close>; of a \<open>PostAck\<close> the code reads the status only.\<close>

record get_result =
  gr_messages :: "json list"
  gr_cursor :: "string option"
  gr_http_status :: int

record transport =
  tr_init :: "string \<Rightarrow> details \<Rightarrow> string handler_act"
  tr_post :: "string \<Rightarrow> details \<Rightarrow> int handler_act"
  tr_wait_for_reply :: "string \<Rightarrow> string option \<Rightarrow> get_result handler_act"
  tr_close :: "string \<Rightarrow> unit handler_act"

text \<open>\<open>store.transaction()\<close> around actions that read the clock: an exception puts the store back, nothing else.\<close>

definition app_transaction :: "'a app_act \<Rightarrow> 'a app_act" where
  "app_transaction body w =
     (if st_closed (w_store w) then (Inl (PersistenceError ''STORE_CLOSED'' False []), w)
      else case body w of
        (Inl e, w') \<Rightarrow> (Inl e, w'\<lparr>w_store := restore (w_store w) (w_store w')\<rparr>)
      | (Inr v, w') \<Rightarrow> (Inr v, w'))"

text \<open>\<open>except TransportError\<close> and the other classes: each writes its own origin and type.\<close>

definition is_transport_error :: "exn \<Rightarrow> bool" where
  "is_transport_error e = (case e of App_Error n \<Rightarrow> ne_origin n = ''TransportGateway'' | _ \<Rightarrow> False)"

definition is_protocol_error :: "exn \<Rightarrow> bool" where
  "is_protocol_error e = (case e of App_Error n \<Rightarrow> ne_origin n = ''ProtocolAdapter'' \<and> ne_error_type n = MODEL_PROTOCOL_ERROR | _ \<Rightarrow> False)"

definition is_rotation_failed :: "exn \<Rightarrow> bool" where
  "is_rotation_failed e = (case e of App_Error n \<Rightarrow> ne_error_type n = ROTATION_FAILED | _ \<Rightarrow> False)"

definition is_budget_exceeded :: "exn \<Rightarrow> bool" where
  "is_budget_exceeded e = (case e of App_Error n \<Rightarrow> ne_error_type n = BUDGET_EXCEEDED | _ \<Rightarrow> False)"

definition is_interrupted_transport :: "exn \<Rightarrow> bool" where
  "is_interrupted_transport e = (is_transport_error e \<and> (case e of App_Error n \<Rightarrow> ne_error_type n = INTERRUPTED | _ \<Rightarrow> False))"

section \<open>Constants and data\<close>

definition ROTATION_LIMIT_REACHED :: string where "ROTATION_LIMIT_REACHED = ''ROTATION_LIMIT_REACHED''"
definition RETRANSMITTABLE_MESSAGE_TYPES :: "message_type set" where "RETRANSMITTABLE_MESSAGE_TYPES = {USER_REQUEST, EXECUTION_RESULT}"
definition REASON_SATURATED :: string where "REASON_SATURATED = ''context_saturated''"
definition REASON_ROTATION_REQUESTED :: string where "REASON_ROTATION_REQUESTED = ''rotation_requested''"
definition REASON_ROTATION_FAILED :: string where "REASON_ROTATION_FAILED = ''rotation_failed''"
definition REASON_RESUME_ACKNOWLEDGED :: string where "REASON_RESUME_ACKNOWLEDGED = ''resume_acknowledged''"
definition REASON_ROTATED :: string where "REASON_ROTATED = ''rotated''"
definition REASON_ROTATION :: string where "REASON_ROTATION = ''rotation''"
definition AWAITING :: string where "AWAITING = ''awaiting''"
definition RECEIVED_VALID :: string where "RECEIVED_VALID = ''received_valid''"
definition RECEIVED_INVALID :: string where "RECEIVED_INVALID = ''received_invalid''"

record pending_outbound_message =
  po_message_type :: message_type
  po_original_message_id :: string
  po_build :: "store \<Rightarrow> conversation_record \<Rightarrow> string \<Rightarrow> exn + outbound_message"
  po_cycle_id :: "string option"

text \<open>\<open>PendingOutbound(...)\<close> with its \<open>__post_init__\<close>; the closure \<open>build\<close> reads the store when it is called.\<close>

definition make_pending_outbound ::
  "message_type \<Rightarrow> string \<Rightarrow> (store \<Rightarrow> conversation_record \<Rightarrow> string \<Rightarrow> exn + outbound_message) \<Rightarrow> string option
   \<Rightarrow> exn + pending_outbound_message" where
  "make_pending_outbound ty original bld cycle_id =
     (if ty \<notin> RETRANSMITTABLE_MESSAGE_TYPES
      then Inl (ValueError (message_type_value ty @ '' cannot be pending on a rotation''))
      else Inr \<lparr>po_message_type = ty, po_original_message_id = original, po_build = bld, po_cycle_id = cycle_id\<rparr>)"

record rotation_result =
  rr_child :: conversation_record
  rr_source :: conversation_record
  rr_summary :: context_summary_record
  rr_resume_cycle :: cycle_record
  rr_retransmitted_message_id :: string
  rr_ack_message_id :: string

record coordinator =
  rc_context :: context_section
  rc_payload :: payload_section
  rc_schemas :: schemas
  rc_instructions :: string
  rc_transport :: transport

section \<open>Helpers\<close>

definition rotation_publish ::
  "event_type \<Rightarrow> string \<Rightarrow> string option \<Rightarrow> string option \<Rightarrow> details \<Rightarrow> unit app_act" where
  "rotation_publish ty sid conversation cycle payload =
     bnd clock_now (\<lambda>now.
     publish \<lparr>ev_event_type = ty, ev_timestamp = now, ev_session_id = sid, ev_conversation_id = conversation, ev_cycle_id = cycle,
       ev_plan_id = None, ev_task_id = None, ev_payload = payload\<rparr>)"

definition outbound_record ::
  "conversation_record \<Rightarrow> outbound_message \<Rightarrow> string option \<Rightarrow> time \<Rightarrow> string option \<Rightarrow> message_record" where
  "outbound_record child message cycle_id now retransmission_of =
     \<lparr>m_message_id = en_message_id (om_envelope message), m_session_id = c_session_id child,
      m_conversation_id = c_conversation_id child, m_direction = OUTBOUND, m_message_type = om_message_type message,
      m_payload = om_payload message, m_size_bytes = om_size_bytes message, m_cycle_id = cycle_id, m_post_confirmed = False,
      m_posted_at = None, m_received_at = None, m_validation_status = None, m_retransmission_of = retransmission_of,
      m_created_at = now\<rparr>"

definition inbound_record ::
  "string \<Rightarrow> string \<Rightarrow> string \<Rightarrow> message_type \<Rightarrow> details \<Rightarrow> int \<Rightarrow> string option \<Rightarrow> time \<Rightarrow> string \<Rightarrow> message_record" where
  "inbound_record mid sid cid ty payload sz cycle_id now status =
     \<lparr>m_message_id = mid, m_session_id = sid, m_conversation_id = cid, m_direction = INBOUND, m_message_type = ty,
      m_payload = payload, m_size_bytes = sz, m_cycle_id = cycle_id, m_post_confirmed = False, m_posted_at = None,
      m_received_at = Some now, m_validation_status = Some status, m_retransmission_of = None, m_created_at = now\<rparr>"

text \<open>What \<open>_known_ids\<close> hands to the adapter: stored outputs are those of the session's tasks.\<close>

definition known_ids_of :: "store \<Rightarrow> string \<Rightarrow> string option \<Rightarrow> known_ids" where
  "known_ids_of st sid original =
     (let tasks = set (map t_task_id (list_tasks st sid None None))
      in \<lparr>kn_message_ids = set (concat (map (\<lambda>c. map m_message_id (list_messages st (c_conversation_id c) None)) (list_conversations st sid))),
          kn_plan_ids = set (map p_plan_id (list_plans st sid None)), kn_task_ids = tasks, kn_stored_output_task_ids = tasks,
          kn_expected_original = original\<rparr>)"

definition received_size :: "get_result \<Rightarrow> int" where
  "received_size reply = sum_list (map (\<lambda>m. int (size_bytes m)) (gr_messages reply))"

text \<open>What a refused reply lets read: its type and id as strings, and the type it is stored under.\<close>

definition peeked :: "(json \<Rightarrow> string) \<Rightarrow> get_result \<Rightarrow> string \<Rightarrow> json" where
  "peeked py_str reply key = peek_field py_str (case gr_messages reply of [] \<Rightarrow> JNull | first # _ \<Rightarrow> first) key"

definition peeked_type :: "(json \<Rightarrow> string) \<Rightarrow> get_result \<Rightarrow> string option" where
  "peeked_type py_str reply = (case peeked py_str reply ''type'' of JStr s \<Rightarrow> Some s | _ \<Rightarrow> None)"

definition peeked_id :: "(json \<Rightarrow> string) \<Rightarrow> get_result \<Rightarrow> string option" where
  "peeked_id py_str reply = (case peeked py_str reply ''message_id'' of JStr s \<Rightarrow> if s = [] then None else Some s | _ \<Rightarrow> None)"

definition rejected_type :: "string option \<Rightarrow> message_type" where
  "rejected_type ty = (case ty of None \<Rightarrow> Msg_SYSTEM_ERROR
     | Some v \<Rightarrow> (case message_type_of v of Some t \<Rightarrow> t | None \<Rightarrow> Msg_SYSTEM_ERROR))"

text \<open>The id a refused reply is stored under: its own when it is free, a new one otherwise.\<close>

definition rejected_id :: "string option \<Rightarrow> string app_act" where
  "rejected_id id_str =
     bnd (reading w_store) (\<lambda>st.
     case id_str of
       Some i \<Rightarrow> if get_message st i = None then ret i else new_message_id
     | None \<Rightarrow> new_message_id)"

text \<open>The payload of an accepted reply is its only message.\<close>

definition accepted_payload :: "get_result \<Rightarrow> details" where
  "accepted_payload reply = rejected_payload (gr_messages reply)"

definition counted_context :: "conversation_record \<Rightarrow> int \<Rightarrow> int app_act" where
  "counted_context c sz = lifting (account (c_context_bytes c) sz)"

section \<open>The steps of a rotation\<close>

definition check_guards :: "coordinator \<Rightarrow> session_record \<Rightarrow> conversation_record \<Rightarrow> unit app_act" where
  "check_guards rc session source =
     (let limit = x_max_rotations_per_session (rc_context rc);
          details = [(''rotations_count'', JInt (s_rotations_count session)), (''max_rotations_per_session'', JInt limit)]
      in if s_rotations_count session \<ge> limit then
           andthen (rotation_publish Event_ROTATION_FAILED (s_session_id session) (Some (c_conversation_id source)) None
             ([(''source_conversation_id'', JStr (c_conversation_id source)), (''error_code'', JStr ROTATION_LIMIT_REACHED)] @ details))
             (throw (RotationFailedError ROTATION_LIMIT_REACHED details))
         else if s_consumed_cycles session \<ge> max_cycles (s_budget session) then
           throw (BudgetExceededError ''max_cycles'' (max_cycles (s_budget session)) (s_consumed_cycles session))
         else if \<not> can_transition CONVERSATION_TRANSITIONS (c_status source) Conv_ROTATING then
           throw (InvalidTransitionError ''conversation'' (conversation_state_value (c_status source)) (conversation_state_value Conv_ROTATING))
         else ret ())"

definition mark_rotating :: "conversation_record \<Rightarrow> conversation_record app_act" where
  "mark_rotating source =
     bnd (if c_context_window_state source \<noteq> SATURATED
          then transition_context_window (c_conversation_id source) SATURATED (Some REASON_ROTATION_REQUESTED) else ret source) (\<lambda>source.
     transition_conversation (c_conversation_id source) Conv_ROTATING (Some REASON_SATURATED) [])"

definition detail_of :: "exn \<Rightarrow> string \<Rightarrow> json" where
  "detail_of e key = (case e of App_Error n \<Rightarrow> (case dict_get (ne_details n) key of Some v \<Rightarrow> v | None \<Rightarrow> JNull) | _ \<Rightarrow> JNull)"

definition compose_summary :: "coordinator \<Rightarrow> session_record \<Rightarrow> conversation_record \<Rightarrow> message_type \<Rightarrow> summary_draft app_act" where
  "compose_summary rc session source ty =
     catching (compose (rc_context rc) session source ty) (\<lambda>e.
       if \<not> is_rotation_failed e then throw e
       else bnd (transition_conversation (c_conversation_id source) Conv_FAILED (Some REASON_ROTATION_FAILED) []) (\<lambda>failed.
         andthen (rotation_publish Event_ROTATION_FAILED (s_session_id session) (Some (c_conversation_id failed)) None
           [(''source_conversation_id'', JStr (c_conversation_id failed)), (''error_code'', jstr_opt (error_code_of e)),
            (''summary_size_bytes'', detail_of e ''size_bytes''), (''summary_budget_bytes'', detail_of e ''budget_bytes''),
            (''reduction_step'', detail_of e ''step'')])
           (throw e)))"

definition new_cycle :: "string \<Rightarrow> string \<Rightarrow> string \<Rightarrow> cycle_type \<Rightarrow> string \<Rightarrow> time \<Rightarrow> cycle_record" where
  "new_cycle cycle_id cid sid ty outbound_id now =
     \<lparr>cy_cycle_id = cycle_id, cy_conversation_id = cid, cy_session_id = sid, cy_cycle_type = ty, cy_status = Cycle_RUNNING,
      cy_retry_count = 0, cy_outbound_message_id = Some outbound_id, cy_inbound_message_id = None, cy_plan_id = None,
      cy_started_at = now, cy_ended_at = None\<rparr>"

definition open_resume_cycle ::
  "conversation_record \<Rightarrow> outbound_message \<Rightarrow> (cycle_record \<times> message_record \<times> conversation_record) app_act" where
  "open_resume_cycle child request =
     bnd (ret (c_session_id child)) (\<lambda>sid.
     bnd clock_now (\<lambda>now.
     bnd new_cycle_id (\<lambda>cycle_id.
     bnd (ret (new_cycle cycle_id (c_conversation_id child) sid RESUME (en_message_id (om_envelope request)) now)) (\<lambda>cycle.
     bnd (ret (outbound_record child request (Some cycle_id) now None)) (\<lambda>record.
     bnd (app_transaction
       (bnd (require_session sid) (\<lambda>current.
        bnd (update_session sid [Set_rotations_count (s_rotations_count current + 1), Set_consumed_cycles (s_consumed_cycles current + 1)]) (\<lambda>session.
        andthen (on_store (save_cycle cycle))
       (andthen (on_store (save_message record))
       (bnd (update_conversation (c_conversation_id child)
           [Set_current_cycle_id (Some cycle_id), Set_last_outbound_message_id (Some (m_message_id record))]) (\<lambda>child.
        ret (session, child)))))))) (\<lambda>(session, child).
     andthen (rotation_publish CYCLE_STARTED sid (Some (c_conversation_id child)) (Some cycle_id)
        [(''cycle_type'', JStr (cycle_type_value RESUME)), (''outbound_message_type'', JStr (message_type_value (om_message_type request))),
         (''consumed_cycles'', JInt (s_consumed_cycles session))])
     (ret (cycle, record, child))))))))"

definition confirmed_record :: "time \<Rightarrow> message_record \<Rightarrow> message_record" where
  "confirmed_record now m = m\<lparr>m_post_confirmed := True, m_posted_at := Some now\<rparr>"

definition rotation_post :: "coordinator \<Rightarrow> conversation_record \<Rightarrow> outbound_message \<Rightarrow> message_record \<Rightarrow> conversation_record handler_act" where
  "rotation_post rc child message record =
     bnd (tr_post (rc_transport rc) (known_remote_id child) (om_payload message)) (\<lambda>status.
     h_app (bnd clock_now (\<lambda>posted_at.
     bnd (app_transaction
       (andthen (on_store (save_message (confirmed_record posted_at record)))
       (bnd (counted_context child (om_size_bytes message)) (\<lambda>bytes.
        update_conversation (c_conversation_id child) [Set_context_bytes bytes, Set_last_model_response_state AWAITING])))) (\<lambda>child.
     andthen (rotation_publish (if m_retransmission_of record = None then MESSAGE_OUTBOUND else MESSAGE_RETRANSMITTED)
        (c_session_id child) (Some (c_conversation_id child)) (m_cycle_id record)
        ([(''message_type'', JStr (message_type_value (om_message_type message))), (''message_id'', JStr (m_message_id record)),
          (''post_status'', JInt status), (''size_bytes'', JInt (om_size_bytes message))]
         @ (case m_retransmission_of record of None \<Rightarrow> [] | Some original \<Rightarrow>
             [(''retransmission_of'', JStr original), (''original_message_id'', JStr original),
              (''new_message_id'', JStr (m_message_id record)), (''reason'', JStr REASON_ROTATION)])))
     (ret child)))))"

definition cycle_ended_payload :: "time \<Rightarrow> cycle_record \<Rightarrow> details" where
  "cycle_ended_payload ended_at cycle =
     [(''status'', JStr (cycle_state_value (cy_status cycle))), (''duration_ms'', JInt (max 0 ((ended_at - cy_started_at cycle) div 1000))),
      (''retry_count'', JInt (cy_retry_count cycle))]"

definition reject_ack :: "coordinator \<Rightarrow> get_result \<Rightarrow> conversation_record \<Rightarrow> cycle_record \<Rightarrow> exn \<Rightarrow> unit app_act" where
  "reject_ack rc reply child cycle e =
     bnd (ret (peeked_type (sc_str (rc_schemas rc)) reply)) (\<lambda>type_str.
     bnd (ret (peeked_id (sc_str (rc_schemas rc)) reply)) (\<lambda>id_str.
     bnd (rejected_id id_str) (\<lambda>mid.
     bnd clock_now (\<lambda>now.
     bnd (ret (inbound_record mid (c_session_id child) (c_conversation_id child) (rejected_type type_str)
        (rejected_payload (gr_messages reply)) (received_size reply) (Some (cy_cycle_id cycle)) now ''invalid'')) (\<lambda>record.
     bnd (ret (cycle\<lparr>cy_status := Cycle_FAILED, cy_ended_at := Some now, cy_inbound_message_id := Some (m_message_id record)\<rparr>)) (\<lambda>failed.
     andthen (app_transaction
       (andthen (on_store (save_message record))
       (andthen (on_store (save_cycle failed))
       (bnd (counted_context child (received_size reply)) (\<lambda>bytes.
        update_conversation (c_conversation_id child)
          [Set_context_bytes bytes, Set_protocol_error_count (c_protocol_error_count child + 1), Set_get_cursor (gr_cursor reply),
           Set_last_inbound_message_id (Some (m_message_id record)), Set_last_model_response_state RECEIVED_INVALID])))))
    (andthen (rotation_publish MESSAGE_REJECTED (c_session_id child) (Some (c_conversation_id child)) (Some (cy_cycle_id cycle))
       [(''message_type'', jstr_opt type_str), (''message_id'', jstr_opt id_str), (''get_status'', JInt (gr_http_status reply)),
        (''validation_status'', JStr ''invalid''), (''error_code'', jstr_opt (error_code_of e)), (''size_bytes'', JInt (received_size reply))])
     (rotation_publish CYCLE_ENDED (c_session_id child) (Some (c_conversation_id child)) (Some (cy_cycle_id cycle))
       (cycle_ended_payload now failed @ [(''error_code'', jstr_opt (error_code_of e))])))))))))"

definition accept_ack ::
  "coordinator \<Rightarrow> get_result \<Rightarrow> conversation_record \<Rightarrow> cycle_record \<Rightarrow> string \<Rightarrow> (inbound_message \<times> conversation_record) app_act" where
  "accept_ack rc reply child cycle parent_remote =
     bnd (reading (\<lambda>w. parse_inbound (rc_schemas rc) (rc_payload rc) (gr_messages reply) {CONTEXT_RESUME_ACK} child
            (known_ids_of (w_store w) (c_session_id child) (Some parent_remote)))) (\<lambda>parsed.
     case parsed of
       Inl e \<Rightarrow> if is_protocol_error e then andthen (reject_ack rc reply child cycle e) (throw e) else throw e
     | Inr ack \<Rightarrow>
         bnd clock_now (\<lambda>now.
         bnd (ret (inbound_record (en_message_id (im_envelope ack)) (c_session_id child) (c_conversation_id child) (im_message_type ack)
            (accepted_payload reply) (im_size_bytes ack) (Some (cy_cycle_id cycle)) now ''valid'')) (\<lambda>record.
         bnd (app_transaction
           (andthen (on_store (save_message record))
           (bnd (counted_context child (im_size_bytes ack)) (\<lambda>bytes.
            update_conversation (c_conversation_id child)
              [Set_context_bytes bytes, Set_get_cursor (gr_cursor reply), Set_last_inbound_message_id (Some (m_message_id record)),
               Set_last_model_response_state RECEIVED_VALID])))) (\<lambda>child.
         andthen (rotation_publish MESSAGE_INBOUND (c_session_id child) (Some (c_conversation_id child)) (Some (cy_cycle_id cycle))
           [(''message_type'', JStr (message_type_value (im_message_type ack))), (''message_id'', JStr (m_message_id record)),
            (''get_status'', JInt (gr_http_status reply)), (''validation_status'', JStr ''valid''), (''size_bytes'', JInt (im_size_bytes ack))])
         (ret (ack, child))))))"

definition complete_resume_cycle :: "cycle_record \<Rightarrow> inbound_message \<Rightarrow> cycle_record app_act" where
  "complete_resume_cycle cycle ack =
     bnd clock_now (\<lambda>ended_at.
     bnd (ret (cycle\<lparr>cy_status := Cycle_COMPLETED, cy_ended_at := Some ended_at,
        cy_inbound_message_id := Some (en_message_id (im_envelope ack))\<rparr>)) (\<lambda>completed.
     andthen (on_store (save_cycle completed))
    (andthen (rotation_publish CYCLE_ENDED (cy_session_id cycle) (Some (cy_conversation_id cycle)) (Some (cy_cycle_id cycle))
       (cycle_ended_payload ended_at completed @ [(''inbound_message_type'', JStr (message_type_value (im_message_type ack)))]))
     (ret completed))))"

definition close_remote_parent :: "coordinator \<Rightarrow> conversation_record \<Rightarrow> unit handler_act" where
  "close_remote_parent rc source =
     (case c_remote_conversation_id source of
        None \<Rightarrow> ret ()
      | Some remote \<Rightarrow> catching (tr_close (rc_transport rc) remote) (\<lambda>e.
          if is_transport_error e \<and> \<not> is_interrupted_transport e then ret () else throw e))"

section \<open>\<open>rotate\<close>\<close>

text \<open>Up to the child that may post: guards, parent \<open>ROTATING\<close>, summary, remote \<open>init\<close>, child \<open>ACTIVE\<close>.\<close>

definition start_rotation :: "coordinator \<Rightarrow> session_record \<Rightarrow> conversation_record \<Rightarrow> message_type \<Rightarrow> (conversation_record \<times> summary_draft) app_act" where
  "start_rotation rc session source ty =
     andthen (check_guards rc session source)
    (bnd (mark_rotating source) (\<lambda>source.
     andthen (rotation_publish ROTATION_STARTED (s_session_id session) (Some (c_conversation_id source)) None
       [(''source_conversation_id'', JStr (c_conversation_id source)), (''context_bytes'', JInt (c_context_bytes source)),
        (''pending_message_type'', JStr (message_type_value ty)), (''rotations_count'', JInt (s_rotations_count session))])
    (bnd (compose_summary rc session source ty) (\<lambda>draft. ret (source, draft)))))"

definition create_child ::
  "coordinator \<Rightarrow> string \<Rightarrow> conversation_record \<Rightarrow> summary_draft \<Rightarrow> string \<Rightarrow> (conversation_record \<times> context_summary_record) app_act" where
  "create_child rc sid source draft remote =
     bnd (create_conversation sid (Some (c_conversation_id source)) SATURATED) (\<lambda>child.
     bnd (persist draft sid (c_conversation_id source) (c_conversation_id child)) (\<lambda>summary.
     bnd (update_conversation (c_conversation_id child)
        [Set_remote_conversation_id (Some remote), Set_context_bytes (instructions_bytes (rc_instructions rc))]) (\<lambda>child.
     bnd (transition_conversation (c_conversation_id child) Conv_ACTIVE (Some REASON_ROTATION) []) (\<lambda>child.
     ret (child, summary)))))"

definition request_resume ::
  "coordinator \<Rightarrow> session_record \<Rightarrow> string \<Rightarrow> context_summary_record \<Rightarrow> message_type \<Rightarrow> conversation_record
   \<Rightarrow> (outbound_message \<times> cycle_record \<times> message_record \<times> conversation_record) app_act" where
  "request_resume rc session parent_remote summary ty child =
     bnd new_message_id (\<lambda>mid.
     bnd (ret (build_context_resume_request child mid parent_remote (s_goal session) (cs_summary_payload summary) ty)) (\<lambda>request.
     bnd (open_resume_cycle child request) (\<lambda>(cycle, record, child).
     bnd (transition_conversation (c_conversation_id child) Conv_WAITING_MODEL_RESPONSE
            (Some (message_type_value (om_message_type request))) []) (\<lambda>child.
     ret (request, cycle, record, child)))))"

text \<open>From the acknowledgement to the copy of \<open>M\<close>, persisted and not yet posted.\<close>

definition close_rotation ::
  "coordinator \<Rightarrow> string \<Rightarrow> conversation_record \<Rightarrow> context_summary_record \<Rightarrow> string \<Rightarrow> conversation_record \<times> cycle_record \<times> inbound_message
   \<Rightarrow> (conversation_record \<times> conversation_record \<times> cycle_record) app_act" where
  "close_rotation rc sid source summary remote = (\<lambda>(child, cycle, ack).
     bnd (transition_context_window (c_conversation_id child) HEALTHY (Some REASON_RESUME_ACKNOWLEDGED)) (\<lambda>child.
     bnd (transition_conversation (c_conversation_id source) Conv_CLOSED (Some REASON_ROTATED) [Set_closure_reason (Some REASON_ROTATED)]) (\<lambda>source.
     bnd (complete_resume_cycle cycle ack) (\<lambda>cycle.
     andthen (rotation_publish ROTATION_COMPLETED sid (Some (c_conversation_id child)) None
       [(''source_conversation_id'', JStr (c_conversation_id source)), (''target_conversation_id'', JStr (c_conversation_id child)),
        (''remote_conversation_id'', JStr remote), (''summary_id'', JStr (cs_summary_id summary)),
        (''summary_size_bytes'', JInt (cs_summary_size_bytes summary)), (''reduction_step'', JInt (cs_reduction_step summary))])
     (ret (child, source, cycle))))))"

definition persist_retransmission ::
  "pending_outbound_message \<Rightarrow> conversation_record \<Rightarrow> (outbound_message \<times> message_record \<times> conversation_record) app_act" where
  "persist_retransmission pending child =
     bnd new_message_id (\<lambda>mid.
     bnd (reading w_store) (\<lambda>st.
     bnd (lifting (po_build pending st child mid)) (\<lambda>copy.
     andthen (lifting (guardR (om_message_type copy = po_message_type pending)
        (ValueError (''pending.build returned a '' @ message_type_value (om_message_type copy)))))
    (bnd clock_now (\<lambda>now.
     bnd (ret (outbound_record child copy (po_cycle_id pending) now (Some (po_original_message_id pending)))) (\<lambda>record.
     bnd (app_transaction
       (andthen (on_store (save_message record))
        (update_conversation (c_conversation_id child)
          [Set_current_cycle_id (po_cycle_id pending), Set_last_outbound_message_id (Some (m_message_id record))]))) (\<lambda>child.
     ret (copy, record, child))))))))"

definition rotate ::
  "coordinator \<Rightarrow> string \<Rightarrow> string \<Rightarrow> pending_outbound_message \<Rightarrow> rotation_result handler_act" where
  "rotate rc session_id source_id pending =
     bnd (h_app (require_session session_id)) (\<lambda>session.
     bnd (h_app (require_conversation source_id)) (\<lambda>source.
     bnd (ret (s_session_id session)) (\<lambda>sid.
     bnd (h_app (start_rotation rc session source (po_message_type pending))) (\<lambda>(source, draft).
     bnd (ret (known_remote_id source)) (\<lambda>parent_remote.
     bnd (tr_init (rc_transport rc) (rc_instructions rc)
        [(''session_id'', JStr sid), (''parent_conversation_id'', JStr (c_conversation_id source)),
         (''rotation_index'', JInt (s_rotations_count session + 1))]) (\<lambda>remote.
     bnd (h_app (create_child rc sid source draft remote)) (\<lambda>(child, summary).
     bnd (h_app (request_resume rc session parent_remote summary (po_message_type pending) child)) (\<lambda>(request, cycle, request_record, child).
     bnd (rotation_post rc child request request_record) (\<lambda>child.
     bnd (tr_wait_for_reply (rc_transport rc) remote None) (\<lambda>reply.
     bnd (h_app (accept_ack rc reply child cycle parent_remote)) (\<lambda>(ack, child).
     bnd (h_app (close_rotation rc sid source summary remote (child, cycle, ack))) (\<lambda>(child, source, cycle).
     bnd (h_app (persist_retransmission pending child)) (\<lambda>(copy, record, child).
     bnd (rotation_post rc child copy record) (\<lambda>child.
     andthen (close_remote_parent rc source)
     (ret \<lparr>rr_child = child, rr_source = source, rr_summary = summary, rr_resume_cycle = cycle,
        rr_retransmitted_message_id = en_message_id (om_envelope copy), rr_ack_message_id = en_message_id (im_envelope ack)\<rparr>)))))))))))))))"

end
