(* ===== verification/Orchestrator.thy ===== *)
theory Orchestrator
  imports Rotation Runner
begin

text \<open>
  \<open>orchestration/protocol_orchestrator.py\<close>, first half: the state of one run, the remote calls under the failure
  policy, windows, corrections, rotation, pause and the failure termination. A run stops on one of its internal
  exceptions or on any other one; \<open>Going_on\<close> stands for a run that the fuel of its loops does not take any
  further, \<open>Hanging\<close> for one that waits for ever, on a plan that the wakes given to it do not end or on a
  \<open>fit_message\<close> that does not return. Cancelling the task of the loop (\<open>asyncio.CancelledError\<close>) is an
  exception an awaited call may raise.
\<close>

section \<open>State and collaborators\<close>

text \<open>\<open>_Pending\<close>.\<close>

record pending_message =
  pm_message_type :: message_type
  pm_cycle_type :: cycle_type
  pm_follow_up :: bool
  pm_user_message :: "string option"
  pm_content :: "execution_result_content option"
  pm_fitted :: bool

text \<open>The fields of \<open>_SessionRun\<close> that change.\<close>

record session_run =
  sr_conv :: "conversation_record option"
  sr_cycle :: "cycle_record option"
  sr_last_outbound :: "message_record option"
  sr_pending :: "pending_message option"
  sr_unusable_replies :: int

definition new_session_run :: session_run where
  "new_session_run = \<lparr>sr_conv = None, sr_cycle = None, sr_last_outbound = None, sr_pending = None, sr_unusable_replies = 0\<rparr>"

datatype entry = Entry_START | Entry_FOLLOW_UP | Entry_RESUME

datatype stop =
  Interrupted_stop
| Rotate_requested normalized_error
| Paused_stop normalized_error string "string option"
| Failed_stop normalized_error string bool "string option" "string option"
| Raised exn
| Going_on
| Hanging

text \<open>
  The configuration and the collaborators outside the model: the sleep, what wakes the runner of a plan, pydantic
  reading a persisted content back, and the rendering of texts and schemas. The jitter is drawn when the clock
  has been read a given number of times.
\<close>

record orchestrator =
  oc_coordinator :: coordinator
  oc_runner :: runner
  oc_retry :: retry_section
  oc_breaker :: circuit_breaker_section
  oc_max_correction_attempts :: int
  oc_allow_direct_response :: bool
  oc_draw :: "nat \<Rightarrow> rat option"
  oc_sleep :: "int \<Rightarrow> unit handler_act"
  oc_wakes :: "string \<Rightarrow> drain \<times> wake list"
  oc_digest :: "message_type \<Rightarrow> string"
  oc_shown :: "utext \<Rightarrow> string"
  oc_read_user_request :: "json \<Rightarrow> exn + string"
  oc_read_execution_result :: "json \<Rightarrow> exn + execution_result_content"

abbreviation oc_context :: "orchestrator \<Rightarrow> context_section" where "oc_context oc \<equiv> rc_context (oc_coordinator oc)"
abbreviation oc_payload :: "orchestrator \<Rightarrow> payload_section" where "oc_payload oc \<equiv> rc_payload (oc_coordinator oc)"
abbreviation oc_schemas :: "orchestrator \<Rightarrow> schemas" where "oc_schemas oc \<equiv> rc_schemas (oc_coordinator oc)"
abbreviation oc_transport :: "orchestrator \<Rightarrow> transport" where "oc_transport oc \<equiv> rc_transport (oc_coordinator oc)"

type_synonym loop_state = "(app \<times> handler) \<times> session_run"
type_synonym 'a loop_act = "(loop_state, stop, 'a) act"

definition raising :: "('s, exn, 'a) act \<Rightarrow> ('s, stop, 'a) act" where
  "raising m s = (case m s of (r, s') \<Rightarrow> (map_sum Raised id r, s'))"

text \<open>The result of an action as a value, the exception included.\<close>

definition attempting :: "('s, 'e, 'a) act \<Rightarrow> ('s, 'e, 'e + 'a) act" where
  "attempting m s = (case m s of (r, s') \<Rightarrow> (Inr r, s'))"

abbreviation in_handler :: "'a handler_act \<Rightarrow> 'a loop_act" where
  "in_handler m \<equiv> raising (on_part fst (\<lambda>h s. (h, snd s)) m)"

abbreviation in_loop_app :: "'a app_act \<Rightarrow> 'a loop_act" where
  "in_loop_app m \<equiv> in_handler (h_app m)"

abbreviation loop_store :: "(store \<Rightarrow> 'a) \<Rightarrow> 'a loop_act" where
  "loop_store f \<equiv> reading (\<lambda>s. f (w_store (fst (fst s))))"

abbreviation sr_get :: "(session_run \<Rightarrow> 'a) \<Rightarrow> 'a loop_act" where
  "sr_get f \<equiv> reading (\<lambda>s. f (snd s))"

abbreviation sr_set :: "(session_run \<Rightarrow> session_run) \<Rightarrow> unit loop_act" where
  "sr_set f \<equiv> modifying (\<lambda>s. (fst s, f (snd s)))"

abbreviation raise_exn :: "exn \<Rightarrow> 'a loop_act" where
  "raise_exn e \<equiv> throw (Raised e)"

definition is_cancelled_error :: "exn \<Rightarrow> bool" where
  "is_cancelled_error e = (case e of Other_Exn name _ \<Rightarrow> name = ''CancelledError'' | _ \<Rightarrow> False)"

definition is_session_interrupted :: "exn \<Rightarrow> bool" where
  "is_session_interrupted e =
     (case e of App_Error n \<Rightarrow> ne_error_type n = INTERRUPTED \<and> \<not> is_transport_error e | _ \<Rightarrow> False)"

section \<open>Constants\<close>

definition REASON_USER_REQUEST :: string where "REASON_USER_REQUEST = ''user_request''"
definition REASON_PLAN_RECEIVED :: string where "REASON_PLAN_RECEIVED = ''plan_received''"
definition REASON_FINAL_ANSWER :: string where "REASON_FINAL_ANSWER = ''final_answer''"
definition REASON_USER_RESPONSE :: string where "REASON_USER_RESPONSE = ''user_response''"
definition REASON_REUSABLE :: string where "REASON_REUSABLE = ''reusable''"
definition REASON_AUTO_CLOSE :: string where "REASON_AUTO_CLOSE = ''auto_close''"
definition REASON_FAILURE :: string where "REASON_FAILURE = ''failure''"
definition REASON_BUDGET_EXCEEDED :: string where "REASON_BUDGET_EXCEEDED = ''budget_exceeded''"
definition REASON_CREDENTIALS_REQUIRED :: string where "REASON_CREDENTIALS_REQUIRED = ''credentials_required''"
definition REASON_CREDENTIALS_PROVIDED :: string where "REASON_CREDENTIALS_PROVIDED = ''credentials_provided''"
definition WINDOW_REASON_THRESHOLD :: string where "WINDOW_REASON_THRESHOLD = ''threshold''"
definition WINDOW_REASON_PROJECTION :: string where "WINDOW_REASON_PROJECTION = ''projection''"
definition WINDOW_REASON_SATURATION_RATIO :: string where "WINDOW_REASON_SATURATION_RATIO = ''saturation_ratio''"
definition WINDOW_REASON_CONTEXT_ERROR :: string where "WINDOW_REASON_CONTEXT_ERROR = ''context_window_error''"
definition WINDOW_REASON_UNUSABLE_REPLY :: string where "WINDOW_REASON_UNUSABLE_REPLY = ''unusable_reply''"
definition STAGE_BEFORE_CYCLE :: string where "STAGE_BEFORE_CYCLE = ''before_cycle''"
definition STAGE_BEFORE_PLAN :: string where "STAGE_BEFORE_PLAN = ''before_plan''"
definition STAGE_BETWEEN_TASKS :: string where "STAGE_BETWEEN_TASKS = ''between_tasks''"
definition CIRCUIT_OPEN_CODE :: string where "CIRCUIT_OPEN_CODE = ''CIRCUIT_OPEN''"
definition ROTATION_NOT_ALLOWED_CODE :: string where "ROTATION_NOT_ALLOWED_CODE = ''ROTATION_NOT_ALLOWED''"
definition OP_INIT :: string where "OP_INIT = ''INIT''"
definition OP_POST :: string where "OP_POST = ''POST''"
definition OP_GET :: string where "OP_GET = ''GET''"
definition INVALID_STATUS :: string where "INVALID_STATUS = ''invalid''"

section \<open>What the message trail says\<close>

text \<open>The two loops over the messages of a conversation, newest first.\<close>

fun pending_in_trail :: "message_record list \<Rightarrow> message_record option" where
  "pending_in_trail [] = None"
| "pending_in_trail (m # older) =
     (if m_direction m = INBOUND
      then (if m_validation_status m \<noteq> Some INVALID_STATUS then None else pending_in_trail older)
      else if m_message_type m = PROTOCOL_CORRECTION_REQUEST then pending_in_trail older
      else if m_message_type m \<in> {USER_REQUEST, EXECUTION_RESULT} then Some m else None)"

definition pending_outbound_of :: "store \<Rightarrow> conversation_record \<Rightarrow> message_record option" where
  "pending_outbound_of st c =
     (if c_status c \<noteq> Conv_WAITING_MODEL_RESPONSE then None
      else pending_in_trail (rev (list_messages st (c_conversation_id c) None)))"

fun unusable_in_trail :: "message_record list \<Rightarrow> int" where
  "unusable_in_trail [] = 0"
| "unusable_in_trail (m # older) =
     (if m_direction m = INBOUND
      then (if m_validation_status m \<noteq> Some INVALID_STATUS then 0 else 1 + unusable_in_trail older)
      else if m_message_type m \<noteq> PROTOCOL_CORRECTION_REQUEST then 0 else unusable_in_trail older)"

definition consecutive_unusable_replies :: "store \<Rightarrow> conversation_record \<Rightarrow> int" where
  "consecutive_unusable_replies st c = unusable_in_trail (rev (list_messages st (c_conversation_id c) None))"

section \<open>Records\<close>

definition run_session_record :: "string \<Rightarrow> session_record loop_act" where
  "run_session_record sid =
     bnd (loop_store (\<lambda>st. get_session st sid)) (\<lambda>r.
     case r of None \<Rightarrow> raise_exn (Other_Exn ''KeyError'' (''unknown session: '' @ sid)) | Some s \<Rightarrow> ret s)"

definition fresh_conversation :: "string \<Rightarrow> conversation_record loop_act" where
  "fresh_conversation cid =
     bnd (loop_store (\<lambda>st. get_conversation st cid)) (\<lambda>r.
     case r of None \<Rightarrow> raise_exn (Other_Exn ''KeyError'' (''unknown conversation: '' @ cid))
     | Some c \<Rightarrow> andthen (sr_set (\<lambda>r. r\<lparr>sr_conv := Some c\<rparr>)) (ret c))"

definition current_from_session :: "string \<Rightarrow> conversation_record loop_act" where
  "current_from_session sid =
     bnd (run_session_record sid) (\<lambda>s.
     case s_current_conversation_id s of
       None \<Rightarrow> raise_exn (Other_Exn ''KeyError'' (''session '' @ sid @ '' has no current conversation''))
     | Some cid \<Rightarrow> fresh_conversation cid)"

definition run_conversation :: "string \<Rightarrow> conversation_record loop_act" where
  "run_conversation sid =
     bnd (sr_get sr_conv) (\<lambda>conv.
     case conv of
       None \<Rightarrow> current_from_session sid
     | Some c \<Rightarrow> bnd (loop_store (\<lambda>st. get_conversation st (c_conversation_id c))) (\<lambda>r.
         case r of None \<Rightarrow> current_from_session sid
         | Some fresh \<Rightarrow> andthen (sr_set (\<lambda>r. r\<lparr>sr_conv := Some fresh\<rparr>)) (ret fresh)))"

definition run_conversation_id :: "session_run \<Rightarrow> string option" where
  "run_conversation_id r = map_option c_conversation_id (sr_conv r)"
definition run_cycle_id :: "session_run \<Rightarrow> string option" where
  "run_cycle_id r = map_option cy_cycle_id (sr_cycle r)"
definition run_plan_id :: "session_run \<Rightarrow> string option" where
  "run_plan_id r = (case sr_conv r of None \<Rightarrow> None | Some c \<Rightarrow> c_current_plan_id c)"
definition pending_message_id :: "session_run \<Rightarrow> string option" where
  "pending_message_id r = map_option m_message_id (sr_last_outbound r)"

definition run_remote :: "string \<Rightarrow> string loop_act" where
  "run_remote sid = bnd (run_conversation sid) (\<lambda>c. ret (known_remote_id c))"

definition require_pending :: "pending_message loop_act" where
  "require_pending = bnd (sr_get sr_pending) (\<lambda>p.
     case p of None \<Rightarrow> raise_exn (Other_Exn ''RuntimeError'' ''no pending outbound message'') | Some p \<Rightarrow> ret p)"

definition require_cycle :: "cycle_record loop_act" where
  "require_cycle = bnd (sr_get sr_cycle) (\<lambda>c.
     case c of None \<Rightarrow> raise_exn (Other_Exn ''RuntimeError'' ''no open cycle'') | Some c \<Rightarrow> ret c)"

text \<open>\<open>assert self._last_outbound is not None\<close>.\<close>

definition require_last_outbound :: "message_record loop_act" where
  "require_last_outbound = bnd (sr_get sr_last_outbound) (\<lambda>m.
     case m of None \<Rightarrow> raise_exn (Other_Exn ''AssertionError'' []) | Some m \<Rightarrow> ret m)"

definition check_interrupted :: "string \<Rightarrow> unit loop_act" where
  "check_interrupted sid = bnd (reading (\<lambda>s. raise_if_interrupted (snd (fst s)) sid)) (\<lambda>r. raising (lifting r))"

text \<open>\<open>_publish\<close>, at a given time or at the clock's.\<close>

definition run_publish ::
  "event_type \<Rightarrow> string \<Rightarrow> time \<Rightarrow> string option \<Rightarrow> string option \<Rightarrow> string option \<Rightarrow> string option \<Rightarrow> details \<Rightarrow> unit loop_act" where
  "run_publish ty sid now conversation cycle plan task payload =
     in_loop_app (publish \<lparr>ev_event_type = ty, ev_timestamp = now, ev_session_id = sid, ev_conversation_id = conversation,
       ev_cycle_id = cycle, ev_plan_id = plan, ev_task_id = task, ev_payload = payload\<rparr>)"

definition conv_publish ::
  "event_type \<Rightarrow> string \<Rightarrow> time \<Rightarrow> string option \<Rightarrow> string option \<Rightarrow> string option \<Rightarrow> details \<Rightarrow> unit loop_act" where
  "conv_publish ty sid now cycle plan task payload =
     bnd (sr_get run_conversation_id) (\<lambda>conversation. run_publish ty sid now conversation cycle plan task payload)"

definition consumed_duration_ms :: "session_record \<Rightarrow> int loop_act" where
  "consumed_duration_ms s =
     (case s_started_at s of
        None \<Rightarrow> ret 0
      | Some started \<Rightarrow>
          bnd (case s_ended_at s of Some t \<Rightarrow> ret t | None \<Rightarrow> in_loop_app clock_now) (\<lambda>end_time.
          ret (max 0 ((end_time - started) div 1000))))"

definition remaining_budget_ms :: "string \<Rightarrow> int loop_act" where
  "remaining_budget_ms sid =
     bnd (run_session_record sid) (\<lambda>s. bnd (consumed_duration_ms s) (\<lambda>d. ret (max 0 (max_total_duration_ms (s_budget s) - d))))"

definition publish_budget :: "string \<Rightarrow> session_record \<Rightarrow> unit loop_act" where
  "publish_budget sid s =
     bnd (in_loop_app clock_now) (\<lambda>now.
     bnd (consumed_duration_ms s) (\<lambda>d.
     run_publish BUDGET_UPDATED sid now None None None None
       [(''consumed_cycles'', JInt (s_consumed_cycles s)), (''consumed_plans'', JInt (s_consumed_plans s)),
        (''consumed_duration_ms'', JInt d), (''max_cycles'', JInt (max_cycles (s_budget s))),
        (''max_plans'', JInt (max_plans (s_budget s))), (''max_total_duration_ms'', JInt (max_total_duration_ms (s_budget s)))]))"

section \<open>Small steps\<close>

definition apply_window :: "string \<Rightarrow> context_window_state \<Rightarrow> string \<Rightarrow> unit loop_act" where
  "apply_window sid state reason =
     bnd (run_conversation sid) (\<lambda>c.
     whenever (state \<noteq> c_context_window_state c)
       (bnd (in_loop_app (transition_context_window (c_conversation_id c) state (Some reason))) (\<lambda>c.
        sr_set (\<lambda>r. r\<lparr>sr_conv := Some c\<rparr>))))"

definition run_transition :: "string \<Rightarrow> conversation_state \<Rightarrow> string \<Rightarrow> conversation_update list \<Rightarrow> conversation_record loop_act" where
  "run_transition sid to reason updates =
     bnd (run_conversation sid) (\<lambda>c.
     bnd (in_loop_app (transition_conversation (c_conversation_id c) to (Some reason) updates)) (\<lambda>c.
     andthen (sr_set (\<lambda>r. r\<lparr>sr_conv := Some c\<rparr>)) (ret c)))"

text \<open>\<open>monitor.evaluate(self._conversation())\<close> and \<open>_apply_window\<close>.\<close>

definition reevaluate_window :: "orchestrator \<Rightarrow> string \<Rightarrow> unit loop_act" where
  "reevaluate_window oc sid =
     bnd (run_conversation sid) (\<lambda>c. apply_window sid (evaluate_bytes (oc_context oc) c) WINDOW_REASON_THRESHOLD)"

definition envelope_overhead :: "conversation_record \<Rightarrow> string \<Rightarrow> message_type \<Rightarrow> int" where
  "envelope_overhead c mid ty =
     int (size_bytes (JObj [(''type'', JStr (message_type_value ty)), (''conversation_id'', JStr (known_remote_id c)),
       (''message_id'', JStr mid), (''content'', JObj [])])) - 2"

text \<open>\<open>_build\<close>; it reads the session.\<close>

definition build_message ::
  "orchestrator \<Rightarrow> string \<Rightarrow> pending_message \<Rightarrow> store \<Rightarrow> conversation_record \<Rightarrow> string \<Rightarrow> exn + outbound_message" where
  "build_message oc sid pending st c mid =
     (if pm_message_type pending = USER_REQUEST then
        (case get_session st sid of
           None \<Rightarrow> Inl (Other_Exn ''KeyError'' (''unknown session: '' @ sid))
         | Some s \<Rightarrow> Inr (build_user_request c mid (s_goal s)
             (case pm_user_message pending of Some u \<Rightarrow> u | None \<Rightarrow> s_user_message s) (s_budget s)))
      else case pm_content pending of
        None \<Rightarrow> Inl (Other_Exn ''AssertionError'' [])
      | Some content \<Rightarrow> Inr (build_execution_result (oc_shown oc) c mid content))"

definition run_build :: "orchestrator \<Rightarrow> string \<Rightarrow> pending_message \<Rightarrow> conversation_record \<Rightarrow> string \<Rightarrow> outbound_message loop_act" where
  "run_build oc sid pending c mid =
     bnd (loop_store (\<lambda>st. build_message oc sid pending st c mid)) (\<lambda>r. raising (lifting r))"

text \<open>The cycle as it stands in the store, ended when it is still running.\<close>

definition end_cycle :: "string \<Rightarrow> cycle_state \<Rightarrow> (cycle_record \<Rightarrow> cycle_record) \<Rightarrow> (cycle_record \<Rightarrow> time \<Rightarrow> cycle_record \<Rightarrow> details) \<Rightarrow> unit loop_act" where
  "end_cycle sid to update payload =
     bnd (sr_get sr_cycle) (\<lambda>cycle.
     case cycle of
       None \<Rightarrow> ret ()
     | Some cy \<Rightarrow>
         bnd (loop_store (\<lambda>st. case get_cycle st (cy_cycle_id cy) of Some x \<Rightarrow> x | None \<Rightarrow> cy)) (\<lambda>current.
         if cy_status current \<noteq> Cycle_RUNNING then sr_set (\<lambda>r. r\<lparr>sr_cycle := Some current\<rparr>)
         else andthen (raising (lifting (assert_transition CYCLE_TRANSITIONS cycle_state_value (cy_status current) to ''cycle'')))
           (bnd (in_loop_app clock_now) (\<lambda>ended_at.
            bnd (ret (update (current\<lparr>cy_status := to, cy_ended_at := Some ended_at\<rparr>))) (\<lambda>after.
            andthen (in_loop_app (on_store (save_cycle after)))
           (andthen (sr_set (\<lambda>r. r\<lparr>sr_cycle := Some after\<rparr>))
            (conv_publish CYCLE_ENDED sid ended_at (Some (cy_cycle_id after)) (cy_plan_id after) None (payload current ended_at after))))))))"

definition complete_cycle :: "string \<Rightarrow> string \<Rightarrow> message_type \<Rightarrow> unit loop_act" where
  "complete_cycle sid inbound_id inbound_type =
     end_cycle sid Cycle_COMPLETED (\<lambda>cy. cy\<lparr>cy_inbound_message_id := Some inbound_id\<rparr>) (\<lambda>current ended_at after.
       cycle_ended_payload ended_at after
         @ [(''inbound_message_id'', JStr inbound_id), (''inbound_message_type'', JStr (message_type_value inbound_type))])"

definition fail_cycle :: "string \<Rightarrow> string \<Rightarrow> unit loop_act" where
  "fail_cycle sid reason =
     end_cycle sid Cycle_FAILED id (\<lambda>current ended_at after.
       [(''status'', JStr (cycle_state_value (cy_status after))), (''reason'', JStr reason),
        (''duration_ms'', JInt (max 0 ((ended_at - cy_started_at current) div 1000))), (''retry_count'', JInt (cy_retry_count after)),
        (''inbound_message_id'', jstr_opt (cy_inbound_message_id after)), (''inbound_message_type'', JNull)])"

definition run_record_failure :: "string \<Rightarrow> normalized_error \<Rightarrow> string option \<Rightarrow> string loop_act" where
  "run_record_failure sid e plan_id =
     bnd (sr_get run_conversation_id) (\<lambda>cid.
     bnd (in_loop_app (record_failure_of e sid cid plan_id None)) (\<lambda>record. ret (f_failure_id record)))"

section \<open>Remote calls under the failure policy\<close>

definition interruptible_sleep :: "orchestrator \<Rightarrow> string \<Rightarrow> int \<Rightarrow> unit loop_act" where
  "interruptible_sleep oc sid delay =
     andthen (check_interrupted sid)
    (whenever (0 < delay)
      (andthen (in_handler (h_set (token_for sid)))
      (andthen (in_handler (catching (oc_sleep oc delay) (\<lambda>e. if is_cancelled_error e then throw e else ret ())))
       (check_interrupted sid))))"

definition bump_retry_count :: "unit loop_act" where
  "bump_retry_count =
     bnd (sr_get sr_cycle) (\<lambda>cycle.
     case cycle of
       None \<Rightarrow> ret ()
     | Some cy \<Rightarrow> andthen (sr_set (\<lambda>r. r\<lparr>sr_cycle := Some (cy\<lparr>cy_retry_count := cy_retry_count cy + 1\<rparr>)\<rparr>))
         (in_loop_app (on_store (save_cycle (cy\<lparr>cy_retry_count := cy_retry_count cy + 1\<rparr>)))))"

definition ensure_breaker_allows :: "orchestrator \<Rightarrow> string \<Rightarrow> string \<Rightarrow> unit loop_act" where
  "ensure_breaker_allows oc sid operation =
     bnd (in_loop_app (allow (oc_breaker oc))) (\<lambda>ok.
     unless ok
      (bnd (remaining_budget_ms sid) (\<lambda>remaining.
       bnd (ret (min (cb_open_duration_ms (oc_breaker oc)) remaining)) (\<lambda>wait_ms.
       andthen (whenever (0 < wait_ms) (interruptible_sleep oc sid wait_ms))
      (bnd (in_loop_app (allow (oc_breaker oc))) (\<lambda>ok.
       unless ok
        (bnd (reading (\<lambda>s. br_state (w_breaker (fst (fst s))))) (\<lambda>state.
         raise_exn (TransportError NETWORK_ERROR CIRCUIT_OPEN_CODE False
           [(''operation'', JStr operation), (''http_status'', JNull), (''breaker_state'', JStr (circuit_state_value state)),
            (''waited_ms'', JInt wait_ms)])))))))))"

text \<open>\<open>dict(details)\<close> and the three keys of the correction budget.\<close>

definition correction_details :: "orchestrator \<Rightarrow> session_run \<Rightarrow> details \<Rightarrow> details" where
  "correction_details oc r details =
     (let limit = oc_max_correction_attempts oc
      in if limit \<le> 0 then details
         else dict_set ''max_correction_attempts'' (JInt limit)
             (dict_set ''corrections_attempted'' (JInt (min (sr_unusable_replies r - 1) limit))
             (dict_set ''unusable_replies'' (JInt (sr_unusable_replies r)) details)))"

definition persist_unparseable :: "orchestrator \<Rightarrow> string \<Rightarrow> normalized_error \<Rightarrow> unit loop_act" where
  "persist_unparseable oc sid e =
     bnd (run_conversation sid) (\<lambda>c.
     bnd (ret [(''raw'', case dict_get (ne_details e) ''excerpt'' of Some (JStr x) \<Rightarrow> JStr x | _ \<Rightarrow> JNull),
        (''reason'', case dict_get (ne_details e) ''reason'' of Some (JStr x) \<Rightarrow> JStr x | _ \<Rightarrow> JStr (ne_error_code e))]) (\<lambda>payload.
     bnd (ret (int (size_bytes (JObj payload)))) (\<lambda>recorded_bytes.
     bnd (in_loop_app clock_now) (\<lambda>now.
     bnd (in_loop_app new_message_id) (\<lambda>mid.
     bnd (sr_get run_cycle_id) (\<lambda>cycle_id.
     bnd (ret (inbound_record mid sid (c_conversation_id c) Msg_SYSTEM_ERROR payload recorded_bytes cycle_id now INVALID_STATUS)) (\<lambda>record.
     bnd (in_loop_app (app_transaction
       (andthen (on_store (save_message record))
       (bnd (counted_context c recorded_bytes) (\<lambda>bytes.
        update_conversation (c_conversation_id c)
          [Set_context_bytes bytes, Set_protocol_error_count (c_protocol_error_count c + 1),
           Set_last_inbound_message_id (Some mid), Set_last_model_response_state RECEIVED_INVALID]))))) (\<lambda>c.
     andthen (sr_set (\<lambda>r. r\<lparr>sr_conv := Some c\<rparr>))
     (conv_publish MESSAGE_REJECTED sid now cycle_id None None
       [(''message_type'', JNull), (''message_id'', JNull),
        (''get_status'', case dict_get (ne_details e) ''http_status'' of Some (JInt i) \<Rightarrow> JInt i | Some (JBool b) \<Rightarrow> JBool b | _ \<Rightarrow> JNull),
        (''validation_status'', JStr INVALID_STATUS), (''error_code'', JStr (ne_error_code e)), (''size_bytes'', JInt recorded_bytes),
        (''details'', JObj (ne_details e))])))))))))"

definition note_unusable_reply :: "orchestrator \<Rightarrow> string \<Rightarrow> normalized_error \<Rightarrow> string \<Rightarrow> exn loop_act" where
  "note_unusable_reply oc sid e operation =
     (if operation \<noteq> OP_GET \<or> ne_error_type e \<noteq> MODEL_PROTOCOL_ERROR then ret (App_Error e)
      else andthen (persist_unparseable oc sid e)
          (andthen (sr_set (\<lambda>r. r\<lparr>sr_unusable_replies := sr_unusable_replies r + 1\<rparr>))
          (bnd (sr_get (\<lambda>r. correction_details oc r (ne_details e))) (\<lambda>details.
           ret (TransportError (ne_error_type e) (ne_error_code e) (ne_retryable e) details)))))"

definition handle_failure :: "orchestrator \<Rightarrow> string \<Rightarrow> exn \<Rightarrow> int \<Rightarrow> string \<Rightarrow> (normalized_error \<times> decision) loop_act" where
  "handle_failure oc sid e attempt operation =
     bnd (sr_get (\<lambda>r. (run_conversation_id r, run_cycle_id r))) (\<lambda>(cid, cycle_id).
     bnd (reading (\<lambda>s. oc_draw oc (w_clock_reads (fst (fst s))))) (\<lambda>draw.
     in_loop_app (handle (oc_retry oc) (oc_breaker oc) draw e attempt operation sid cid cycle_id None None)))"

text \<open>The \<open>except TransportError\<close> of \<open>_call\<close>: it returns when the operation is to be tried again.\<close>

definition after_transport_error :: "orchestrator \<Rightarrow> string \<Rightarrow> string \<Rightarrow> normalized_error \<Rightarrow> int \<Rightarrow> unit loop_act" where
  "after_transport_error oc sid operation e attempt =
     (if ne_error_type e = INTERRUPTED then throw Interrupted_stop
      else bnd (note_unusable_reply oc sid e operation) (\<lambda>noted.
           bnd (handle_failure oc sid noted attempt operation) (\<lambda>(error, d).
           case d_kind d of
             Retry \<Rightarrow> andthen bump_retry_count (interruptible_sleep oc sid (case d_delay_ms d of Some ms \<Rightarrow> ms | None \<Rightarrow> 0))
           | Rotate \<Rightarrow> throw (Rotate_requested error)
           | Pause \<Rightarrow> bnd (sr_get pending_message_id) (\<lambda>mid. throw (Paused_stop error operation mid))
           | Abort \<Rightarrow> throw Interrupted_stop
           | Fail \<Rightarrow> throw (Failed_stop error REASON_FAILURE True None None))))"

text \<open>\<open>_call\<close>; \<open>attempts\<close> is the number of attempts already made.\<close>

fun call_from :: "nat \<Rightarrow> orchestrator \<Rightarrow> string \<Rightarrow> string \<Rightarrow> 'a handler_act \<Rightarrow> int \<Rightarrow> ('a \<times> int) loop_act" where
  "call_from 0 oc sid operation fn attempts = throw Going_on"
| "call_from (Suc fuel) oc sid operation fn attempts =
     andthen (check_interrupted sid)
    (bnd (attempting (andthen (ensure_breaker_allows oc sid operation) (in_handler fn))) (\<lambda>r.
     case r of
       Inr v \<Rightarrow> andthen (in_loop_app note_success) (ret (v, attempts + 1))
     | Inl (Raised e) \<Rightarrow>
         (case e of
            App_Error n \<Rightarrow>
              if is_transport_error e
              then andthen (after_transport_error oc sid operation n (attempts + 1)) (call_from fuel oc sid operation fn (attempts + 1))
              else raise_exn e
          | _ \<Rightarrow> raise_exn e)
     | Inl x \<Rightarrow> throw x))"

definition call :: "nat \<Rightarrow> orchestrator \<Rightarrow> string \<Rightarrow> string \<Rightarrow> 'a handler_act \<Rightarrow> ('a \<times> int) loop_act" where
  "call fuel oc sid operation fn = call_from fuel oc sid operation fn 0"

section \<open>Rotation\<close>

definition run_rotate :: "orchestrator \<Rightarrow> string \<Rightarrow> unit loop_act" where
  "run_rotate oc sid =
     bnd require_pending (\<lambda>pending.
     bnd require_cycle (\<lambda>cycle.
     bnd require_last_outbound (\<lambda>last_outbound.
     bnd (raising (lifting (make_pending_outbound (pm_message_type pending) (m_message_id last_outbound)
            (build_message oc sid pending) (Some (cy_cycle_id cycle))))) (\<lambda>outbound.
     bnd (run_session_record sid) (\<lambda>session.
     bnd (run_conversation sid) (\<lambda>c.
     bnd (attempting (in_handler (rotate (oc_coordinator oc) (s_session_id session) (c_conversation_id c) outbound))) (\<lambda>r.
     case r of
       Inl (Raised (App_Error n)) \<Rightarrow>
         if is_rotation_failed (App_Error n) then throw (Failed_stop n REASON_ROTATION_FAILED False None None)
         else if is_budget_exceeded (App_Error n) then throw (Failed_stop n REASON_BUDGET_EXCEEDED False (Some STAGE_BEFORE_CYCLE) None)
         else if is_interrupted_transport (App_Error n) then throw Interrupted_stop
         else if is_transport_error (App_Error n) \<or> is_protocol_error (App_Error n)
         then andthen (bnd (run_record_failure sid n None) (\<lambda>_. ret ())) (throw (Failed_stop n REASON_ROTATION_FAILED True None None))
         else raise_exn (App_Error n)
     | Inl x \<Rightarrow> throw x
     | Inr res \<Rightarrow>
         bnd (fresh_conversation (c_conversation_id (rr_child res))) (\<lambda>child.
         bnd (if pm_message_type pending = USER_REQUEST \<and> pm_follow_up pending
              then in_loop_app (update_conversation (c_conversation_id child) [Set_final_answer_received True]) else ret child) (\<lambda>child.
         bnd (loop_store (\<lambda>st. get_message st (rr_retransmitted_message_id res))) (\<lambda>last_outbound.
         andthen (sr_set (\<lambda>r. r\<lparr>sr_conv := Some child, sr_last_outbound := last_outbound\<rparr>))
         (apply_window sid (evaluate_bytes (oc_context oc) child) WINDOW_REASON_THRESHOLD)))))))))))"

section \<open>Pause and failure\<close>

definition run_pause :: "string \<Rightarrow> normalized_error \<Rightarrow> string \<Rightarrow> string option \<Rightarrow> unit loop_act" where
  "run_pause sid e operation mid =
     bnd (run_session_record sid) (\<lambda>session.
     whenever (can_transition SESSION_TRANSITIONS (s_status session) Session_PAUSED)
       (bnd (in_loop_app (transition_session sid Session_PAUSED (Some REASON_CREDENTIALS_REQUIRED) [])) (\<lambda>_.
        bnd (in_loop_app clock_now) (\<lambda>now.
        bnd (sr_get run_cycle_id) (\<lambda>cycle_id.
        conv_publish SESSION_PAUSED sid now cycle_id None None
          [(''reason'', JStr REASON_CREDENTIALS_REQUIRED), (''error_code'', JStr (ne_error_code e)),
           (''error_type'', JStr (error_type_value (ne_error_type e))), (''operation'', JStr operation), (''message_id'', jstr_opt mid)])))))"

definition fail_conversation :: "conversation_record \<Rightarrow> string \<Rightarrow> conversation_record app_act" where
  "fail_conversation c reason = transition_conversation (c_conversation_id c) Conv_FAILED (Some reason) []"

definition fail_conversations :: "string \<Rightarrow> string \<Rightarrow> conversation_record list loop_act" where
  "fail_conversations sid reason =
     bnd (run_session_record sid) (\<lambda>session.
     case s_current_conversation_id session of
       None \<Rightarrow> ret []
     | Some current_id \<Rightarrow>
         bnd (loop_store (\<lambda>st. get_conversation st current_id)) (\<lambda>conv.
         case conv of
           None \<Rightarrow> ret []
         | Some c \<Rightarrow>
             bnd (loop_store (\<lambda>st. case c_parent_conversation_id c of None \<Rightarrow> None | Some pid \<Rightarrow> get_conversation st pid)) (\<lambda>parent.
             bnd (if can_transition CONVERSATION_TRANSITIONS (c_status c) Conv_FAILED
                  then bnd (in_loop_app (fail_conversation c reason)) (\<lambda>c. ret [c]) else ret []) (\<lambda>failed.
             bnd (case parent of
                    None \<Rightarrow> ret []
                  | Some p \<Rightarrow> if c_status p = Conv_ROTATING then bnd (in_loop_app (fail_conversation p reason)) (\<lambda>p. ret [p]) else ret []) (\<lambda>failed_parent.
             bnd (loop_store (\<lambda>st. get_conversation st current_id)) (\<lambda>conv.
             andthen (sr_set (\<lambda>r. r\<lparr>sr_conv := conv\<rparr>)) (ret (failed @ failed_parent))))))))"

definition run_close_remote :: "orchestrator \<Rightarrow> conversation_record list \<Rightarrow> unit loop_act" where
  "run_close_remote oc conversations =
     for_each conversations (\<lambda>c. case c_remote_conversation_id c of
       None \<Rightarrow> ret ()
     | Some remote \<Rightarrow> in_handler (catching (tr_close (oc_transport oc) remote) (\<lambda>e. if is_cancelled_error e then throw e else ret ())))"

definition terminate_failed ::
  "orchestrator \<Rightarrow> string \<Rightarrow> normalized_error \<Rightarrow> string \<Rightarrow> bool \<Rightarrow> string option \<Rightarrow> string option \<Rightarrow> unit loop_act" where
  "terminate_failed oc sid e reason recorded stage plan_id =
     bnd (if recorded
          then loop_store (\<lambda>st. case list_failures st sid of [] \<Rightarrow> None | failures \<Rightarrow> Some (f_failure_id (last failures)))
          else bnd (run_record_failure sid e plan_id) (\<lambda>fid. ret (Some fid))) (\<lambda>failure_id.
     andthen (case stage of
        None \<Rightarrow> ret ()
      | Some stage \<Rightarrow> bnd (in_loop_app clock_now) (\<lambda>now.
          conv_publish Event_BUDGET_EXCEEDED sid now None plan_id None
            [(''limit'', detail_of (App_Error e) ''limit''), (''limit_value'', detail_of (App_Error e) ''limit_value''),
             (''consumed'', detail_of (App_Error e) ''consumed''), (''stage'', JStr stage)]))
    (andthen (fail_cycle sid reason)
    (bnd (fail_conversations sid reason) (\<lambda>failed.
     bnd (run_session_record sid) (\<lambda>session.
     andthen (whenever (can_transition SESSION_TRANSITIONS (s_status session) Session_FAILED)
       (bnd (in_loop_app (transition_session sid Session_FAILED (Some reason) [Set_last_failure_id failure_id])) (\<lambda>_. ret ())))
     (run_close_remote oc failed))))))"

definition reason_for :: "normalized_error \<Rightarrow> string" where
  "reason_for e =
     (if ne_error_type e = BUDGET_EXCEEDED then REASON_BUDGET_EXCEEDED
      else if ne_error_type e = ROTATION_FAILED then REASON_ROTATION_FAILED else REASON_FAILURE)"

end
