(* ===== verification/ProtocolLoop.thy ===== *)
theory ProtocolLoop
  imports Orchestrator
begin

text \<open>
  \<open>orchestration/protocol_orchestrator.py\<close>, second half: the protocol loop. The entry points, then send, receive and
  process, and how a run ends. \<open>limits\<close> is the fuel of its three loops: the attempts of one call, the replies read
  before one is usable, the turns of the loop.
\<close>

record limits =
  li_attempts :: nat
  li_replies :: nat
  li_turns :: nat

definition budget_stop :: "string \<Rightarrow> int \<Rightarrow> int \<Rightarrow> string \<Rightarrow> string option \<Rightarrow> stop" where
  "budget_stop limit limit_value consumed stage plan_id =
     Failed_stop (classify (BudgetExceededError limit limit_value consumed)) REASON_BUDGET_EXCEEDED False (Some stage) plan_id"

section \<open>Sending\<close>

definition run_open_cycle :: "string \<Rightarrow> outbound_message \<Rightarrow> session_record \<Rightarrow> cycle_type \<Rightarrow> unit loop_act" where
  "run_open_cycle sid message session cycle_type =
     (if s_consumed_cycles session \<ge> max_cycles (s_budget session)
      then throw (budget_stop ''max_cycles'' (max_cycles (s_budget session)) (s_consumed_cycles session) STAGE_BEFORE_CYCLE None)
      else bnd (run_conversation sid) (\<lambda>c.
           bnd (in_loop_app clock_now) (\<lambda>now.
           bnd (in_loop_app new_cycle_id) (\<lambda>cycle_id.
           bnd (ret (new_cycle cycle_id (c_conversation_id c) sid cycle_type (en_message_id (om_envelope message)) now)) (\<lambda>cycle.
           bnd (ret ((outbound_record c message (Some cycle_id) now None)\<lparr>m_session_id := sid\<rparr>)) (\<lambda>record.
           bnd (in_loop_app (app_transaction
             (bnd (update_session sid [Set_consumed_cycles (s_consumed_cycles session + 1)]) (\<lambda>updated.
              andthen (on_store (save_cycle cycle))
             (andthen (on_store (save_message record))
             (bnd (update_conversation (c_conversation_id c)
                 [Set_current_cycle_id (Some cycle_id), Set_last_outbound_message_id (Some (m_message_id record))]) (\<lambda>c.
              ret (updated, c)))))))) (\<lambda>(updated, c).
           andthen (sr_set (\<lambda>r. r\<lparr>sr_conv := Some c, sr_cycle := Some cycle, sr_last_outbound := Some record\<rparr>))
          (andthen (conv_publish CYCLE_STARTED sid now (Some cycle_id) None None
             [(''cycle_type'', JStr (cycle_type_value cycle_type)), (''outbound_message_id'', JStr (m_message_id record)),
              (''outbound_message_type'', JStr (message_type_value (m_message_type record))),
              (''consumed_cycles'', JInt (s_consumed_cycles updated))])
           (publish_budget sid updated)))))))))"

definition run_post :: "limits \<Rightarrow> orchestrator \<Rightarrow> string \<Rightarrow> outbound_message \<Rightarrow> message_record \<Rightarrow> bool \<Rightarrow> unit loop_act" where
  "run_post li oc sid message record track_pending =
     bnd (run_remote sid) (\<lambda>remote.
     bnd (call (li_attempts li) oc sid OP_POST (tr_post (oc_transport oc) remote (om_payload message))) (\<lambda>(status, attempts).
     bnd (run_conversation sid) (\<lambda>c.
     bnd (in_loop_app clock_now) (\<lambda>now.
     bnd (in_loop_app (app_transaction
       (andthen (on_store (save_message (confirmed_record now record)))
       (bnd (counted_context c (om_size_bytes message)) (\<lambda>bytes.
        update_conversation (c_conversation_id c) [Set_context_bytes bytes, Set_last_model_response_state AWAITING]))))) (\<lambda>c.
     andthen (sr_set (\<lambda>r. r\<lparr>sr_conv := Some c, sr_last_outbound := (if track_pending then Some (confirmed_record now record) else sr_last_outbound r)\<rparr>))
    (andthen (conv_publish MESSAGE_OUTBOUND sid now (m_cycle_id record) None None
       [(''message_type'', JStr (message_type_value (om_message_type message))), (''message_id'', JStr (m_message_id record)),
        (''post_status'', JInt status), (''size_bytes'', JInt (om_size_bytes message)), (''attempts'', JInt attempts)])
     (reevaluate_window oc sid)))))))"

text \<open>\<open>fit_message\<close> when the content has not been fitted yet.\<close>

definition fit_pending :: "orchestrator \<Rightarrow> conversation_record \<Rightarrow> string \<Rightarrow> pending_message \<Rightarrow> pending_message loop_act" where
  "fit_pending oc c mid pending =
     (if pm_message_type pending = EXECUTION_RESULT \<and> \<not> pm_fitted pending
      then case pm_content pending of
        None \<Rightarrow> raise_exn (Other_Exn ''AssertionError'' [])
      | Some content \<Rightarrow>
          (case fit_message content (max 0 (y_max_message_bytes (oc_payload oc) - envelope_overhead c mid (pm_message_type pending))) of
             None \<Rightarrow> throw Hanging
           | Some fitted \<Rightarrow> bnd (ret (pending\<lparr>pm_content := Some fitted, pm_fitted := True\<rparr>)) (\<lambda>pending.
               andthen (sr_set (\<lambda>r. r\<lparr>sr_pending := Some pending\<rparr>)) (ret pending)))
      else ret pending)"

definition rotation_not_allowed :: "orchestrator \<Rightarrow> conversation_record \<Rightarrow> int \<Rightarrow> stop" where
  "rotation_not_allowed oc c projected =
     Failed_stop (classify (RotationFailedError ROTATION_NOT_ALLOWED_CODE
       [(''conversation_state'', JStr (conversation_state_value (c_status c))), (''context_bytes'', JInt (c_context_bytes c)),
        (''projected_outbound_bytes'', JInt projected), (''budget_bytes'', JInt (budget_bytes (thresholds (oc_context oc))))]))
       REASON_ROTATION_FAILED False None None"

text \<open>Once \<open>M\<close> is persisted: the window with its projected size, then a rotation or the POST.\<close>

definition dispatch_pending :: "limits \<Rightarrow> orchestrator \<Rightarrow> string \<Rightarrow> pending_message \<Rightarrow> outbound_message \<Rightarrow> unit loop_act" where
  "dispatch_pending li oc sid pending message =
     bnd (run_conversation sid) (\<lambda>c.
     bnd (raising (lifting (evaluate (oc_context oc) c (om_size_bytes message) None))) (\<lambda>state.
     andthen (apply_window sid state
       (if state = SATURATED
        then (if evaluate_bytes (oc_context oc) c = SATURATED then WINDOW_REASON_SATURATION_RATIO else WINDOW_REASON_PROJECTION)
        else WINDOW_REASON_THRESHOLD))
     (if state = SATURATED
      then if \<not> can_transition CONVERSATION_TRANSITIONS (c_status c) Conv_ROTATING
           then throw (rotation_not_allowed oc c (om_size_bytes message))
           else run_rotate oc sid
      else bnd (run_transition sid Conv_WAITING_MODEL_RESPONSE (message_type_value (pm_message_type pending)) []) (\<lambda>_.
           bnd require_last_outbound (\<lambda>record. run_post li oc sid message record True)))))"

definition send_pending :: "limits \<Rightarrow> orchestrator \<Rightarrow> string \<Rightarrow> unit loop_act" where
  "send_pending li oc sid =
     bnd require_pending (\<lambda>pending.
     andthen (check_interrupted sid)
    (bnd (run_session_record sid) (\<lambda>session.
     bnd (run_conversation sid) (\<lambda>c.
     bnd (in_loop_app new_message_id) (\<lambda>mid.
     bnd (fit_pending oc c mid pending) (\<lambda>pending.
     bnd (run_build oc sid pending c mid) (\<lambda>message.
     andthen (run_open_cycle sid message session (pm_cycle_type pending))
     (dispatch_pending li oc sid pending message))))))))"

section \<open>Entry points\<close>

definition run_start :: "limits \<Rightarrow> orchestrator \<Rightarrow> string \<Rightarrow> string option \<Rightarrow> unit loop_act" where
  "run_start li oc sid user_message =
     bnd (run_conversation sid) (\<lambda>c.
     bnd (if c_status c = Conv_NEW then run_transition sid Conv_ACTIVE REASON_USER_REQUEST [] else ret c) (\<lambda>c.
     andthen (whenever (c_remote_conversation_id c = None)
       (bnd (call (li_attempts li) oc sid OP_INIT (tr_init (oc_transport oc) (rc_instructions (oc_coordinator oc))
           [(''session_id'', JStr sid), (''parent_conversation_id'', jstr_opt (c_parent_conversation_id c))])) (\<lambda>(remote, _).
        bnd (in_loop_app (update_conversation (c_conversation_id c)
           [Set_remote_conversation_id (Some remote),
            Set_context_bytes (instructions_bytes (rc_instructions (oc_coordinator oc)))])) (\<lambda>c.
        sr_set (\<lambda>r. r\<lparr>sr_conv := Some c\<rparr>)))))
    (bnd (run_session_record sid) (\<lambda>session.
     andthen (sr_set (\<lambda>r. r\<lparr>sr_pending := Some \<lparr>pm_message_type = USER_REQUEST, pm_cycle_type = DISCOVERY, pm_follow_up = False,
        pm_user_message = Some (case user_message of Some u \<Rightarrow> u | None \<Rightarrow> s_user_message session),
        pm_content = None, pm_fitted = False\<rparr>\<rparr>))
     (send_pending li oc sid)))))"

definition run_follow_up :: "limits \<Rightarrow> orchestrator \<Rightarrow> string \<Rightarrow> string option \<Rightarrow> unit loop_act" where
  "run_follow_up li oc sid user_message =
     bnd (run_conversation sid) (\<lambda>c.
     andthen (whenever (c_status c = Conv_COMPLETED) (bnd (run_transition sid Conv_WAITING_USER REASON_REUSABLE []) (\<lambda>_. ret ())))
    (andthen (sr_set (\<lambda>r. r\<lparr>sr_pending := Some \<lparr>pm_message_type = USER_REQUEST, pm_cycle_type = EXECUTION, pm_follow_up = True,
        pm_user_message = user_message, pm_content = None, pm_fitted = False\<rparr>\<rparr>))
     (send_pending li oc sid)))"

definition record_content :: "message_record \<Rightarrow> json" where
  "record_content m = (case dict_get (m_payload m) ''content'' of Some j \<Rightarrow> j | None \<Rightarrow> JObj [])"

definition pending_from_record :: "orchestrator \<Rightarrow> message_record \<Rightarrow> conversation_record \<Rightarrow> exn + pending_message" where
  "pending_from_record oc m c =
     (if m_message_type m = USER_REQUEST
      then bindR (oc_read_user_request oc (record_content m)) (\<lambda>user_message.
           Inr \<lparr>pm_message_type = USER_REQUEST, pm_cycle_type = (if c_final_answer_received c then EXECUTION else DISCOVERY),
             pm_follow_up = c_final_answer_received c, pm_user_message = Some user_message, pm_content = None, pm_fitted = False\<rparr>)
      else bindR (oc_read_execution_result oc (record_content m)) (\<lambda>content.
           Inr \<lparr>pm_message_type = EXECUTION_RESULT, pm_cycle_type = EXECUTION, pm_follow_up = False, pm_user_message = None,
             pm_content = Some content, pm_fitted = True\<rparr>))"

text \<open>The cycle of the message, else the conversation's.\<close>

definition resumed_cycle :: "store \<Rightarrow> message_record \<Rightarrow> conversation_record \<Rightarrow> cycle_record option" where
  "resumed_cycle st m c =
     (case Option.bind (m_cycle_id m) (get_cycle st) of
        Some cy \<Rightarrow> Some cy | None \<Rightarrow> Option.bind (c_current_cycle_id c) (get_cycle st))"

definition run_resume :: "limits \<Rightarrow> orchestrator \<Rightarrow> string \<Rightarrow> unit loop_act" where
  "run_resume li oc sid =
     bnd (run_conversation sid) (\<lambda>c.
     bnd (loop_store (\<lambda>st. pending_outbound_of st c)) (\<lambda>found.
     case found of
       None \<Rightarrow> raise_exn (ValueError (''conversation '' @ c_conversation_id c @ '' has nothing to resume''))
     | Some record \<Rightarrow>
         bnd (loop_store (\<lambda>st. resumed_cycle st record c)) (\<lambda>cycle.
         andthen (sr_set (\<lambda>r. r\<lparr>sr_cycle := cycle, sr_last_outbound := Some record\<rparr>))
        (bnd (raising (lifting (pending_from_record oc record c))) (\<lambda>pending.
         andthen (sr_set (\<lambda>r. r\<lparr>sr_pending := Some pending\<rparr>))
        (bnd (loop_store (\<lambda>st. consecutive_unusable_replies st c)) (\<lambda>n.
         andthen (sr_set (\<lambda>r. r\<lparr>sr_unusable_replies := n\<rparr>))
         (unless (m_post_confirmed record)
           (bnd (run_build oc sid pending c (m_message_id record)) (\<lambda>message. run_post li oc sid message record True))))))))))"

section \<open>Receiving\<close>

definition persist_rejected :: "orchestrator \<Rightarrow> string \<Rightarrow> get_result \<Rightarrow> exn \<Rightarrow> string option loop_act" where
  "persist_rejected oc sid reply e =
     bnd (run_conversation sid) (\<lambda>c.
     bnd (ret (peeked_type (sc_str (oc_schemas oc)) reply)) (\<lambda>type_str.
     bnd (ret (peeked_id (sc_str (oc_schemas oc)) reply)) (\<lambda>id_str.
     bnd (in_loop_app (rejected_id id_str)) (\<lambda>mid.
     bnd (in_loop_app clock_now) (\<lambda>now.
     bnd (sr_get run_cycle_id) (\<lambda>cycle_id.
     bnd (ret (inbound_record mid sid (c_conversation_id c) (rejected_type type_str) (rejected_payload (gr_messages reply))
        (received_size reply) cycle_id now INVALID_STATUS)) (\<lambda>record.
     bnd (in_loop_app (app_transaction
       (andthen (on_store (save_message record))
       (bnd (counted_context c (received_size reply)) (\<lambda>bytes.
        update_conversation (c_conversation_id c)
          [Set_context_bytes bytes, Set_protocol_error_count (c_protocol_error_count c + 1),
           Set_get_cursor (case gr_cursor reply of Some x \<Rightarrow> Some x | None \<Rightarrow> c_get_cursor c),
           Set_last_inbound_message_id (Some mid), Set_last_model_response_state RECEIVED_INVALID]))))) (\<lambda>c.
     andthen (sr_set (\<lambda>r. r\<lparr>sr_conv := Some c\<rparr>))
    (andthen (conv_publish MESSAGE_REJECTED sid now cycle_id None None
       [(''message_type'', jstr_opt type_str), (''message_id'', jstr_opt id_str), (''get_status'', JInt (gr_http_status reply)),
        (''validation_status'', JStr INVALID_STATUS), (''error_code'', jstr_opt (error_code_of e)), (''size_bytes'', JInt (received_size reply)),
        (''details'', JObj (ne_details (classify e)))])
     (ret id_str))))))))))"

text \<open>\<open>adapter.expected_inbound(self._last_outbound, conv)\<close>.\<close>

definition run_expected :: "orchestrator \<Rightarrow> conversation_record \<Rightarrow> message_type set loop_act" where
  "run_expected oc c =
     bnd require_last_outbound (\<lambda>m. raising (lifting (expected_inbound (oc_allow_direct_response oc) (Some m) c)))"

definition request_correction ::
  "limits \<Rightarrow> orchestrator \<Rightarrow> string \<Rightarrow> normalized_error \<Rightarrow> string option \<Rightarrow> int \<Rightarrow> int \<Rightarrow> unit loop_act" where
  "request_correction li oc sid e rejected attempt max_attempts =
     andthen (check_interrupted sid)
    (bnd (run_conversation sid) (\<lambda>c.
     bnd (run_expected oc c) (\<lambda>expected.
     bnd (in_loop_app new_message_id) (\<lambda>mid.
     bnd (raising (lifting (build_protocol_correction_request (oc_payload oc) (oc_digest oc) c mid e expected rejected attempt max_attempts))) (\<lambda>message.
     bnd (in_loop_app clock_now) (\<lambda>now.
     bnd (sr_get run_cycle_id) (\<lambda>cycle_id.
     bnd (ret ((outbound_record c message cycle_id now None)\<lparr>m_session_id := sid\<rparr>)) (\<lambda>record.
     bnd (in_loop_app (app_transaction
       (andthen (on_store (save_message record))
        (update_conversation (c_conversation_id c) [Set_last_outbound_message_id (Some (m_message_id record))])))) (\<lambda>c.
     andthen (sr_set (\<lambda>r. r\<lparr>sr_conv := Some c\<rparr>))
    (andthen (run_post li oc sid message record False)
    (bnd (in_loop_app clock_now) (\<lambda>sent_at.
     conv_publish CORRECTION_REQUESTED sid sent_at cycle_id None None
       [(''message_id'', JStr (m_message_id record)), (''error_code'', JStr (ne_error_code e)), (''attempt'', JInt attempt),
        (''max_attempts'', JInt max_attempts), (''expected_types'', JArr (map JStr (sorted_values expected))),
        (''rejected_message_id'', jstr_opt rejected)]))))))))))))"

text \<open>The decision of ADR-023, as a function of the counter and of the window.\<close>

datatype unusable_outcome = Correct int | Rotate_away | Give_up

definition unusable_decision :: "orchestrator \<Rightarrow> int \<Rightarrow> conversation_record \<Rightarrow> normalized_error \<Rightarrow> unusable_outcome" where
  "unusable_decision oc unusable c e =
     (let limit = oc_max_correction_attempts oc
      in if 0 < limit \<and> unusable \<le> limit \<and> \<not> is_saturated (oc_context oc) c then Correct unusable
         else if should_rotate_on_unusable_reply (oc_context oc) c e then Rotate_away
         else Give_up)"

definition after_unusable_reply :: "limits \<Rightarrow> orchestrator \<Rightarrow> string \<Rightarrow> normalized_error \<Rightarrow> string option \<Rightarrow> unit loop_act" where
  "after_unusable_reply li oc sid e rejected =
     bnd (run_conversation sid) (\<lambda>c.
     bnd (sr_get sr_unusable_replies) (\<lambda>unusable.
     case unusable_decision oc unusable c e of
       Correct attempt \<Rightarrow> request_correction li oc sid e rejected attempt (oc_max_correction_attempts oc)
     | Rotate_away \<Rightarrow>
         andthen (apply_window sid SATURATED WINDOW_REASON_UNUSABLE_REPLY)
        (andthen (run_rotate oc sid) (sr_set (\<lambda>r. r\<lparr>sr_unusable_replies := 0\<rparr>)))
     | Give_up \<Rightarrow> throw (Failed_stop e REASON_FAILURE True None None)))"

definition accept_valid :: "orchestrator \<Rightarrow> string \<Rightarrow> get_result \<Rightarrow> conversation_record \<Rightarrow> inbound_message \<Rightarrow> unit loop_act" where
  "accept_valid oc sid reply c inbound =
     andthen (sr_set (\<lambda>r. r\<lparr>sr_unusable_replies := 0\<rparr>))
    (bnd (in_loop_app clock_now) (\<lambda>now.
     bnd (sr_get run_cycle_id) (\<lambda>cycle_id.
     bnd (ret (inbound_record (en_message_id (im_envelope inbound)) sid (c_conversation_id c) (im_message_type inbound)
        (accepted_payload reply) (im_size_bytes inbound) cycle_id now ''valid'')) (\<lambda>record.
     bnd (in_loop_app (app_transaction
       (andthen (on_store (save_message record))
       (bnd (counted_context c (im_size_bytes inbound)) (\<lambda>bytes.
        update_conversation (c_conversation_id c)
          [Set_context_bytes bytes, Set_get_cursor (gr_cursor reply), Set_last_inbound_message_id (Some (m_message_id record)),
           Set_last_model_response_state RECEIVED_VALID]))))) (\<lambda>c.
     andthen (sr_set (\<lambda>r. r\<lparr>sr_conv := Some c\<rparr>))
    (andthen (conv_publish MESSAGE_INBOUND sid now cycle_id None None
       [(''message_type'', JStr (message_type_value (im_message_type inbound))), (''message_id'', JStr (m_message_id record)),
        (''get_status'', JInt (gr_http_status reply)), (''validation_status'', JStr ''valid''), (''size_bytes'', JInt (im_size_bytes inbound))])
     (reevaluate_window oc sid)))))))"

definition accept_reply :: "limits \<Rightarrow> orchestrator \<Rightarrow> string \<Rightarrow> get_result \<Rightarrow> inbound_message option loop_act" where
  "accept_reply li oc sid reply =
     bnd (run_conversation sid) (\<lambda>c.
     bnd (run_expected oc c) (\<lambda>expected.
     bnd (loop_store (\<lambda>st. parse_inbound (oc_schemas oc) (oc_payload oc) (gr_messages reply) expected c (known_ids_of st sid None))) (\<lambda>parsed.
     case parsed of
       Inl e \<Rightarrow>
         if is_protocol_error e
         then bnd (persist_rejected oc sid reply e) (\<lambda>rejected.
              andthen (sr_set (\<lambda>r. r\<lparr>sr_unusable_replies := sr_unusable_replies r + 1\<rparr>))
             (bnd (sr_get (\<lambda>r. correction_details oc r (ne_details (classify e)))) (\<lambda>details.
              bnd (handle_failure oc sid (ProtocolError (ne_error_code (classify e)) details) 1 OP_GET) (\<lambda>(error, _).
              andthen (after_unusable_reply li oc sid error rejected) (ret None)))))
         else raise_exn e
     | Inr inbound \<Rightarrow> andthen (accept_valid oc sid reply c inbound) (ret (Some inbound)))))"

definition saturate_and_rotate :: "orchestrator \<Rightarrow> string \<Rightarrow> context_window_state \<Rightarrow> string \<Rightarrow> unit loop_act" where
  "saturate_and_rotate oc sid state reason = andthen (apply_window sid state reason) (run_rotate oc sid)"

text \<open>The two \<open>except\<close> clauses of \<open>_receive\<close>: it returns when the loop must read again.\<close>

definition after_failed_get :: "limits \<Rightarrow> orchestrator \<Rightarrow> string \<Rightarrow> stop \<Rightarrow> unit loop_act" where
  "after_failed_get li oc sid stop =
     (case stop of
        Rotate_requested e \<Rightarrow>
          bnd (run_conversation sid) (\<lambda>c.
          bnd (raising (lifting (evaluate (oc_context oc) c 0 (Some e)))) (\<lambda>state.
          saturate_and_rotate oc sid state WINDOW_REASON_CONTEXT_ERROR))
      | Failed_stop e reason recorded stage plan_id \<Rightarrow>
          if ne_error_type e = MODEL_PROTOCOL_ERROR then after_unusable_reply li oc sid e None
          else bnd (run_conversation sid) (\<lambda>c.
               if should_rotate_on_unusable_reply (oc_context oc) c e
               then saturate_and_rotate oc sid SATURATED WINDOW_REASON_UNUSABLE_REPLY
               else throw (Failed_stop e reason recorded stage plan_id))
      | other \<Rightarrow> throw other)"

fun receive :: "nat \<Rightarrow> limits \<Rightarrow> orchestrator \<Rightarrow> string \<Rightarrow> inbound_message loop_act" where
  "receive 0 li oc sid = throw Going_on"
| "receive (Suc fuel) li oc sid =
     andthen (check_interrupted sid)
    (bnd (run_remote sid) (\<lambda>remote.
     bnd (run_conversation sid) (\<lambda>c.
     bnd (attempting (call (li_attempts li) oc sid OP_GET (tr_wait_for_reply (oc_transport oc) remote (c_get_cursor c)))) (\<lambda>r.
     case r of
       Inl stop \<Rightarrow> andthen (after_failed_get li oc sid stop) (receive fuel li oc sid)
     | Inr (reply, _) \<Rightarrow> bnd (accept_reply li oc sid reply) (\<lambda>inbound.
         case inbound of Some m \<Rightarrow> ret m | None \<Rightarrow> receive fuel li oc sid)))))"

section \<open>Processing\<close>

definition plan_failed_before_start :: "string \<Rightarrow> time \<Rightarrow> nat \<Rightarrow> plan_record \<Rightarrow> plan_record" where
  "plan_failed_before_start stop_reason now skipped p =
     p\<lparr>p_status := Plan_FAILED, p_stop_reason := Some stop_reason, p_ended_at := Some now, p_updated_at := now,
       p_skipped_task_count := int skipped\<rparr>"

definition skipped_task :: "time \<Rightarrow> task_record \<Rightarrow> task_record" where
  "skipped_task now t = t\<lparr>t_status := Task_SKIPPED, t_reason := Some BUDGET_EXCEEDED_REASON, t_ended_at := Some now, t_updated_at := now\<rparr>"

definition fail_plan_before_start :: "string \<Rightarrow> plan_record \<Rightarrow> task_record list \<Rightarrow> string \<Rightarrow> int \<Rightarrow> int \<Rightarrow> unit loop_act" where
  "fail_plan_before_start sid plan tasks limit limit_value consumed =
     bnd (in_loop_app clock_now) (\<lambda>now.
     andthen (raising (lifting (assert_transition PLAN_TRANSITIONS plan_state_value (p_status plan) Plan_FAILED ''plan'')))
    (andthen (for_each tasks (\<lambda>t. raising (lifting (assert_transition TASK_TRANSITIONS task_state_value (t_status t) Task_SKIPPED ''task''))))
    (bnd (ret (BUDGET_EXCEEDED_REASON @ '':'' @ limit)) (\<lambda>stop_reason.
     bnd (ret (plan_failed_before_start stop_reason now (length tasks) plan)) (\<lambda>failed.
     andthen (in_loop_app (on_store (transaction (andthen (save_tasks (map (skipped_task now) tasks)) (save_plan failed)))))
    (andthen (for_each tasks (\<lambda>t. conv_publish TASK_STATE_CHANGED sid now (Some (p_cycle_id plan)) (Some (p_plan_id plan)) (Some (t_task_id t))
       (state_change_payload (Some (task_state_value (t_status t))) (task_state_value Task_SKIPPED) (Some BUDGET_EXCEEDED_REASON))))
    (andthen (conv_publish PLAN_STATE_CHANGED sid now (Some (p_cycle_id plan)) (Some (p_plan_id plan)) None
       (state_change_payload (Some (plan_state_value (p_status plan))) (plan_state_value (p_status failed)) (Some BUDGET_EXCEEDED_REASON)
        @ [(''stop_reason'', JStr stop_reason)]))
     (throw (budget_stop limit limit_value consumed STAGE_BEFORE_PLAN (Some (p_plan_id plan)))))))))))"

definition warning_code :: "string \<Rightarrow> string" where
  "warning_code w = takeWhile (\<lambda>c. c \<noteq> CHR '':'') w"
definition warning_argument :: "string \<Rightarrow> string" where
  "warning_argument w = drop 1 (dropWhile (\<lambda>c. c \<noteq> CHR '':'') w)"

definition announce_plan :: "string \<Rightarrow> time \<Rightarrow> inbound_message \<Rightarrow> plan_record \<Rightarrow> session_record \<Rightarrow> string \<Rightarrow> unit loop_act" where
  "announce_plan sid now inbound plan session cycle_id =
     andthen (conv_publish PLAN_RECEIVED sid now (Some cycle_id) (Some (p_plan_id plan)) None
       [(''plan_type'', JStr (plan_type_value (p_plan_type plan))), (''objective'', JStr (p_objective plan)),
        (''execution_policy'', JStr (execution_policy_value (p_execution_policy plan))),
        (''max_parallel_workers'', JInt (p_max_parallel_workers plan)), (''task_count'', JInt (p_task_count plan)),
        (''consumed_plans'', JInt (s_consumed_plans session)),
        (''contradictory_flags'', JArr (map (\<lambda>w. JStr (warning_argument w))
           (filter (starts_with ''CONTRADICTORY_FLAGS:'') (im_warnings inbound))))])
    (andthen (publish_budget sid session)
     (for_each (im_warnings inbound) (\<lambda>w. conv_publish AUDIT_WARNING sid now (Some cycle_id) (Some (p_plan_id plan)) None
       [(''code'', JStr w), (''entity'', JStr ''plan''), (''id'', JStr (p_plan_id plan)),
        (''details'', JObj (if warning_code w = ''CONTRADICTORY_FLAGS'' then [(''task_id'', JStr (warning_argument w))] else []))])))"

text \<open>The records of an accepted plan, and the counters with them.\<close>

definition persist_plan :: "orchestrator \<Rightarrow> string \<Rightarrow> inbound_message \<Rightarrow> (plan_record \<times> task_record list \<times> session_record) loop_act" where
  "persist_plan oc sid inbound =
     bnd (run_session_record sid) (\<lambda>session.
     bnd (run_conversation sid) (\<lambda>c.
     bnd require_cycle (\<lambda>cycle.
     bnd (in_loop_app clock_now) (\<lambda>created.
     bnd (raising (lifting (plan_to_records (oc_payload oc) (rn_exec (oc_runner oc)) inbound session c (cy_cycle_id cycle) created))) (\<lambda>(plan, tasks).
     bnd (in_loop_app clock_now) (\<lambda>now.
     bnd (ret (cycle\<lparr>cy_cycle_type := cycle_type_for_plan (p_plan_type plan), cy_plan_id := Some (p_plan_id plan)\<rparr>)) (\<lambda>refined.
     bnd (in_loop_app (app_transaction
       (andthen (on_store (save_plan plan))
       (andthen (on_store (save_tasks tasks))
       (bnd (update_session sid [Set_consumed_plans (s_consumed_plans session + 1)]) (\<lambda>session.
        andthen (on_store (save_cycle refined))
       (bnd (update_conversation (c_conversation_id c) [Set_current_plan_id (Some (p_plan_id plan))]) (\<lambda>c.
        ret (session, c)))))))) ) (\<lambda>(session, c).
     andthen (sr_set (\<lambda>r. r\<lparr>sr_conv := Some c, sr_cycle := Some refined\<rparr>))
    (andthen (announce_plan sid now inbound plan session (cy_cycle_id cycle))
     (ret (plan, tasks, session)))))))))))"

definition check_plan_budget :: "string \<Rightarrow> plan_record \<Rightarrow> task_record list \<Rightarrow> session_record \<Rightarrow> unit loop_act" where
  "check_plan_budget sid plan tasks session =
     andthen (whenever (s_consumed_plans session > max_plans (s_budget session))
       (fail_plan_before_start sid plan tasks ''max_plans'' (max_plans (s_budget session)) (s_consumed_plans session)))
    (bnd (consumed_duration_ms session) (\<lambda>elapsed.
     whenever (elapsed \<ge> max_total_duration_ms (s_budget session))
       (fail_plan_before_start sid plan tasks ''max_total_duration_ms'' (max_total_duration_ms (s_budget session)) elapsed)))"

definition drive_plan :: "orchestrator \<Rightarrow> string \<Rightarrow> plan_record \<Rightarrow> task_record list \<Rightarrow> session_record \<Rightarrow> plan_outcome loop_act" where
  "drive_plan oc sid plan tasks session =
     andthen (in_handler (h_set (token_for sid)))
    (bnd (reading (\<lambda>s. is_interrupting (snd (fst s)) sid)) (\<lambda>interrupted.
     bnd (in_loop_app (run_plan (oc_runner oc) plan tasks session interrupted
            (fst (oc_wakes oc (p_plan_id plan))) (snd (oc_wakes oc (p_plan_id plan))))) (\<lambda>progress.
     case progress of Returned outcome \<Rightarrow> ret outcome | _ \<Rightarrow> throw Hanging)))"

definition execute_plan :: "orchestrator \<Rightarrow> string \<Rightarrow> inbound_message \<Rightarrow> execution_result_content loop_act" where
  "execute_plan oc sid inbound =
     andthen (check_interrupted sid)
    (bnd (persist_plan oc sid inbound) (\<lambda>(plan, tasks, session).
     andthen (check_plan_budget sid plan tasks session)
    (bnd (run_transition sid Conv_RUNNING_PLAN REASON_PLAN_RECEIVED []) (\<lambda>_.
     bnd (drive_plan oc sid plan tasks session) (\<lambda>outcome.
     if po_interrupted outcome then throw Interrupted_stop
     else if po_budget_exceeded outcome
     then bnd (run_session_record sid) (\<lambda>s. bnd (consumed_duration_ms s) (\<lambda>consumed.
          throw (budget_stop ''max_total_duration_ms'' (max_total_duration_ms (s_budget session)) consumed STAGE_BETWEEN_TASKS (Some (p_plan_id plan)))))
     else case po_execution_result outcome of
       None \<Rightarrow> raise_exn (Other_Exn ''AssertionError'' [])
     | Some content \<Rightarrow>
         andthen (complete_cycle sid (en_message_id (im_envelope inbound)) (im_message_type inbound))
        (bnd (run_conversation sid) (\<lambda>c.
         bnd (in_loop_app (update_conversation (c_conversation_id c) [Set_last_completed_plan_id (Some (p_plan_id plan))])) (\<lambda>c.
         andthen (sr_set (\<lambda>r. r\<lparr>sr_conv := Some c\<rparr>)) (ret content)))))))))"

text \<open>\<open>str(content.get("status"))\<close>.\<close>

definition status_text :: "orchestrator \<Rightarrow> details \<Rightarrow> string" where
  "status_text oc content = (case dict_get content ''status'' of None \<Rightarrow> ''None'' | Some (JStr s) \<Rightarrow> s | Some j \<Rightarrow> sc_str (oc_schemas oc) j)"

text \<open>The session, whether to close, the reason, the event and its first fields.\<close>

definition conclude ::
  "orchestrator \<Rightarrow> string \<Rightarrow> inbound_message \<Rightarrow> (session_record \<times> bool \<times> string \<times> event_type \<times> details) loop_act" where
  "conclude oc sid inbound =
     (case im_content inbound of
        User_response u \<Rightarrow>
          bnd (run_session_record sid) (\<lambda>session.
          bnd (ret (s_auto_close_on_final_answer session \<and> ur_expects_reply u)) (\<lambda>skipped.
          ret (session, s_auto_close_on_final_answer session \<and> \<not> skipped, REASON_USER_RESPONSE, USER_RESPONSE_RECEIVED,
            [(''message_id'', JStr (en_message_id (im_envelope inbound))), (''format'', JStr (ur_format u)), (''status'', JStr (ur_status u)),
             (''expects_reply'', JBool (ur_expects_reply u)), (''body_bytes'', JInt (int (utf8_len (ur_body u)))),
             (''auto_close_on_final_answer'', JBool (s_auto_close_on_final_answer session)), (''auto_close_skipped'', JBool skipped)])))
      | _ \<Rightarrow>
          bnd (in_loop_app (update_session sid [Set_final_answer (Some (en_content (im_envelope inbound)))])) (\<lambda>session.
          ret (session, s_auto_close_on_final_answer session, REASON_FINAL_ANSWER, FINAL_ANSWER_RECEIVED,
            [(''message_id'', JStr (en_message_id (im_envelope inbound))), (''status'', JStr (status_text oc (en_content (im_envelope inbound)))),
             (''auto_close_on_final_answer'', JBool (s_auto_close_on_final_answer session))])))"

definition run_finish :: "orchestrator \<Rightarrow> string \<Rightarrow> inbound_message \<Rightarrow> unit loop_act" where
  "run_finish oc sid inbound =
     bnd (conclude oc sid inbound) (\<lambda>(session, close, reason, event_type, payload).
     bnd (consumed_duration_ms session) (\<lambda>elapsed.
     bnd (run_transition sid Conv_COMPLETED reason [Set_final_answer_received True]) (\<lambda>_.
     bnd (in_loop_app clock_now) (\<lambda>now.
     bnd (sr_get run_cycle_id) (\<lambda>cycle_id.
     andthen (conv_publish event_type sid now cycle_id None None
       (payload @ [(''consumed_cycles'', JInt (s_consumed_cycles session)), (''consumed_plans'', JInt (s_consumed_plans session)),
          (''session_duration_ms'', JInt elapsed)]))
    (andthen (complete_cycle sid (en_message_id (im_envelope inbound)) (im_message_type inbound))
    (bnd (if close then run_transition sid Conv_CLOSED REASON_AUTO_CLOSE [Set_closure_reason (Some REASON_AUTO_CLOSE)]
          else run_transition sid Conv_WAITING_USER REASON_REUSABLE []) (\<lambda>c.
     bnd (run_session_record sid) (\<lambda>current.
     andthen (whenever (s_status current = Session_RUNNING)
       (bnd (in_loop_app (transition_session sid Session_COMPLETED (Some reason) [])) (\<lambda>_. ret ())))
     (whenever (c_status c = Conv_CLOSED) (run_close_remote oc [c])))))))))))"

section \<open>The run\<close>

fun turns :: "nat \<Rightarrow> limits \<Rightarrow> orchestrator \<Rightarrow> string \<Rightarrow> unit loop_act" where
  "turns 0 li oc sid = throw Going_on"
| "turns (Suc fuel) li oc sid =
     bnd (receive (li_replies li) li oc sid) (\<lambda>inbound.
     if im_message_type inbound \<in> CONCLUDING_MESSAGE_TYPES then run_finish oc sid inbound
     else bnd (execute_plan oc sid inbound) (\<lambda>content.
          andthen (sr_set (\<lambda>r. r\<lparr>sr_pending := Some \<lparr>pm_message_type = EXECUTION_RESULT, pm_cycle_type = EXECUTION, pm_follow_up = False,
             pm_user_message = None, pm_content = Some content, pm_fitted = False\<rparr>\<rparr>))
         (andthen (send_pending li oc sid) (turns fuel li oc sid))))"

definition run_body :: "limits \<Rightarrow> orchestrator \<Rightarrow> string \<Rightarrow> entry \<Rightarrow> string option \<Rightarrow> unit loop_act" where
  "run_body li oc sid entry user_message =
     bnd (run_session_record sid) (\<lambda>session.
     if s_status session \<noteq> Session_RUNNING then ret ()
     else andthen (case entry of
            Entry_START \<Rightarrow> run_start li oc sid user_message
          | Entry_FOLLOW_UP \<Rightarrow> run_follow_up li oc sid user_message
          | Entry_RESUME \<Rightarrow> run_resume li oc sid)
         (turns (li_turns li) li oc sid))"

text \<open>What a \<open>_RotateRequestedError\<close> is when nothing catches it: its class and its text.\<close>

definition rotation_defect :: "normalized_error \<Rightarrow> exn" where
  "rotation_defect e = Other_Exn ''_RotateRequestedError'' (ne_error_code e)"

text \<open>The termination after an unexpected exception; what it raises itself is logged, unless it is a cancellation.\<close>

definition clean_up :: "orchestrator \<Rightarrow> string \<Rightarrow> normalized_error \<Rightarrow> string option \<Rightarrow> unit loop_act" where
  "clean_up oc sid e plan_id =
     catching (terminate_failed oc sid e REASON_FAILURE False None plan_id)
       (\<lambda>x. if (case x of Raised e' \<Rightarrow> is_cancelled_error e' | _ \<Rightarrow> False) then throw x else ret ())"

text \<open>The \<open>except\<close> clauses of \<open>run\<close>.\<close>

definition end_run :: "orchestrator \<Rightarrow> string \<Rightarrow> stop \<Rightarrow> unit loop_act" where
  "end_run oc sid stop =
     (case stop of
        Interrupted_stop \<Rightarrow> ret ()
      | Going_on \<Rightarrow> throw Going_on
      | Hanging \<Rightarrow> throw Hanging
      | Paused_stop e operation mid \<Rightarrow> run_pause sid e operation mid
      | Failed_stop e reason recorded stage plan_id \<Rightarrow> terminate_failed oc sid e reason recorded stage plan_id
      | Raised e \<Rightarrow>
          if is_session_interrupted e then ret ()
          else if is_cancelled_error e then raise_exn e
          else bnd (sr_get run_plan_id) (\<lambda>plan_id.
            case e of
              App_Error n \<Rightarrow> terminate_failed oc sid n (reason_for n) False None plan_id
            | _ \<Rightarrow> andthen (clean_up oc sid (classify e) plan_id) (raise_exn e))
      | Rotate_requested e \<Rightarrow>
          bnd (sr_get run_plan_id) (\<lambda>plan_id.
          andthen (clean_up oc sid (classify (rotation_defect e)) plan_id) (raise_exn (rotation_defect e))))"

text \<open>The \<open>finally\<close> of \<open>run\<close>.\<close>

definition signal_end :: "string \<Rightarrow> nat \<Rightarrow> handler \<Rightarrow> handler" where
  "signal_end sid event h = loop_finished sid (h\<lparr>ih_set := event # ih_set h\<rparr>)"

text \<open>The run of one session; \<open>Going_on\<close> and \<open>Hanging\<close> are no end, and nothing of the \<open>finally\<close> happens then.\<close>

definition run_loop_of :: "limits \<Rightarrow> orchestrator \<Rightarrow> string \<Rightarrow> entry \<Rightarrow> string option \<Rightarrow> session_record loop_act" where
  "run_loop_of li oc sid entry user_message =
     bnd (reading (\<lambda>s. fst (register_loop sid (snd (fst s))))) (\<lambda>event.
     andthen (in_handler (h_set (\<lambda>h. snd (register_loop sid h))))
    (bnd (attempting (catching (run_body li oc sid entry user_message) (end_run oc sid))) (\<lambda>r.
     case r of
       Inl Going_on \<Rightarrow> throw Going_on
     | Inl Hanging \<Rightarrow> throw Hanging
     | Inl x \<Rightarrow> andthen (in_handler (h_set (signal_end sid event))) (throw x)
     | Inr _ \<Rightarrow> andthen (in_handler (h_set (signal_end sid event))) (run_session_record sid))))"

definition run_session :: "limits \<Rightarrow> orchestrator \<Rightarrow> string \<Rightarrow> entry \<Rightarrow> string option \<Rightarrow> app \<times> handler \<Rightarrow> (stop + session_record) \<times> (app \<times> handler)" where
  "run_session li oc sid entry user_message s =
     (case run_loop_of li oc sid entry user_message (s, new_session_run) of (r, s') \<Rightarrow> (r, fst s'))"

end
