(* ===== verification/Driving.thy ===== *)
theory Driving
  imports ProtocolLoop
begin

text \<open>
  What a whole run preserves. The locale \<open>app_invariant\<close> is the contract between the application's primitives
  (clock, identifiers, bus, breaker, the saves of the store, the lifecycle manager) and what is built from them:
  a predicate every primitive keeps is kept by the plan runner, the failure manager, a rotation and the
  protocol loop, whatever the transport, the clock and the model do, as long as what happens during an await keeps it.
\<close>

section \<open>Rules by the shape of an action\<close>

lemma keeps_on_fst [keeps_intros]: "keeps P m \<Longrightarrow> keeps (\<lambda>s. P (fst s)) (on_part fst (\<lambda>a s. (a, snd s)) m)"
  by (auto simp: keeps_def on_part_def split: prod.splits)

lemma keeps_fst_set [keeps_intros]: "keeps (\<lambda>s. P (fst s)) (modifying (\<lambda>s. (fst s, f (snd s))))"
  by (simp add: keeps_def modifying_def)

lemma keeps_bnd_five:
  "keeps I m \<Longrightarrow> (\<And>a b c d e s s'. m s = (Inr (a, b, c, d, e), s') \<Longrightarrow> keeps I (f a b c d e))
   \<Longrightarrow> keeps I (bnd m (\<lambda>(a, b, c, d, e). f a b c d e))"
  by (auto simp: keeps_def bnd_def split: prod.splits sum.splits)

lemma keeps_raising [keeps_intros]: "keeps I m \<Longrightarrow> keeps I (raising m)"
  by (auto simp: keeps_def raising_def split: prod.splits)

lemma keeps_attempting [keeps_intros]: "keeps I m \<Longrightarrow> keeps I (attempting m)"
  by (auto simp: keeps_def attempting_def split: prod.splits)

lemma keeps_option [keeps_intros]: "keeps I m \<Longrightarrow> (\<And>x. keeps I (f x)) \<Longrightarrow> keeps I (case opt of None \<Rightarrow> m | Some x \<Rightarrow> f x)"
  by (cases opt) simp_all

lemma keeps_sum [keeps_intros]: "(\<And>x. keeps I (f x)) \<Longrightarrow> (\<And>y. keeps I (g y)) \<Longrightarrow> keeps I (case r of Inl x \<Rightarrow> f x | Inr y \<Rightarrow> g y)"
  by (cases r) simp_all

lemma keeps_pair [keeps_intros]: "(\<And>a b. keeps I (f a b)) \<Longrightarrow> keeps I (case p of (a, b) \<Rightarrow> f a b)"
  by (cases p) simp

lemma keeps_sum_option [keeps_intros]:
  "(\<And>x. keeps I (f x)) \<Longrightarrow> keeps I m \<Longrightarrow> (\<And>x. keeps I (g x)) \<Longrightarrow> keeps I (case r of Inl y \<Rightarrow> f y | Inr None \<Rightarrow> m | Inr (Some x) \<Rightarrow> g x)"
  by (cases r) (auto split: option.split)

lemma keeps_stop [keeps_intros]:
  "keeps I a \<Longrightarrow> (\<And>e. keeps I (b e)) \<Longrightarrow> (\<And>e x y. keeps I (c e x y)) \<Longrightarrow> (\<And>e x y z u. keeps I (d e x y z u))
   \<Longrightarrow> (\<And>e. keeps I (f e)) \<Longrightarrow> keeps I g \<Longrightarrow> keeps I g'
   \<Longrightarrow> keeps I (case stop of Interrupted_stop \<Rightarrow> a | Rotate_requested e \<Rightarrow> b e | Paused_stop e x y \<Rightarrow> c e x y
        | Failed_stop e x y z u \<Rightarrow> d e x y z u | Raised e \<Rightarrow> f e | Going_on \<Rightarrow> g | Hanging \<Rightarrow> g')"
  by (cases stop) simp_all

lemma keeps_exn [keeps_intros]:
  "(\<And>n. keeps I (a n)) \<Longrightarrow> (\<And>x y. keeps I (b x y)) \<Longrightarrow> (\<And>x y. keeps I (c x y)) \<Longrightarrow> (\<And>x y. keeps I (d x y))
   \<Longrightarrow> keeps I (case e of App_Error n \<Rightarrow> a n | Timeout_Exn x y \<Rightarrow> b x y | Network_Exn x y \<Rightarrow> c x y | Other_Exn x y \<Rightarrow> d x y)"
  by (cases e) simp_all

lemma on_store_andthen: "on_store (andthen m n) = andthen (on_store m) (on_store n)"
  by (auto simp: fun_eq_iff flow_simps split: prod.splits sum.splits)

lemma on_store_ret: "on_store (ret v) = ret v"
  by (simp add: fun_eq_iff flow_simps)

lemma on_store_for_each: "on_store (for_each xs f) = for_each xs (\<lambda>x. on_store (f x))"
  by (induction xs) (simp_all add: on_store_andthen on_store_ret)

section \<open>What a transaction's body leaves alone\<close>

text \<open>The environment and the audit log are untouched, nothing is published, and identifiers are only drawn, never given back.\<close>

definition onwards :: "app \<Rightarrow> app \<Rightarrow> bool" where
  "onwards w w' \<longleftrightarrow> w_env w' = w_env w \<and> w_audit_last w' = w_audit_last w \<and> w_delivered w' = w_delivered w \<and> w_ids w \<le> w_ids w'"

definition grows :: "'a app_act \<Rightarrow> bool" where
  "grows m \<longleftrightarrow> (\<forall>w. keeps (onwards w) m)"

named_theorems grows_intros

lemma grows_basic [grows_intros]:
  "grows (ret v)" "grows (throw e)" "grows (lifting r)" "grows (reading f)" "grows (on_store m)"
  "grows clock_now" "grows (new_id prefix)"
  by (auto simp: grows_def keeps_def onwards_def flow_simps clock_now_def new_id_def split: prod.splits)

lemma grows_bnd [grows_intros]: "grows m \<Longrightarrow> (\<And>v. grows (f v)) \<Longrightarrow> grows (bnd m f)"
  by (simp add: grows_def keeps_bnd)

lemma grows_andthen [grows_intros]: "grows m \<Longrightarrow> grows n \<Longrightarrow> grows (andthen m n)"
  by (simp add: grows_def keeps_andthen)

lemma grows_option [grows_intros]: "grows m \<Longrightarrow> (\<And>x. grows (f x)) \<Longrightarrow> grows (case opt of None \<Rightarrow> m | Some x \<Rightarrow> f x)"
  by (cases opt) simp_all

lemma grows_lifecycle [grows_intros]:
  "grows (require_session sid)" "grows (require_conversation cid)" "grows (update_session sid us)" "grows (update_conversation cid cs)"
  "grows (counted_context c sz)"
  by (simp_all add: require_session_def require_conversation_def update_session_def update_conversation_def counted_context_def grows_intros)

section \<open>The events of the lifecycle manager\<close>

text \<open>The changes of a session, a conversation and a window are announced by the lifecycle manager alone; every other event is ordinary.\<close>

definition ordinary :: "event_type \<Rightarrow> bool" where
  "ordinary ty \<longleftrightarrow> ty \<notin> {SESSION_STATE_CHANGED, CONVERSATION_STATE_CHANGED, CONTEXT_WINDOW_STATE_CHANGED}"

lemma ordinary_types [keeps_intros]:
  "ordinary SESSION_PAUSED" "ordinary MESSAGE_OUTBOUND" "ordinary MESSAGE_INBOUND" "ordinary MESSAGE_REJECTED" "ordinary CORRECTION_REQUESTED"
  "ordinary PLAN_RECEIVED" "ordinary PLAN_STATE_CHANGED" "ordinary TASK_STATE_CHANGED" "ordinary TASK_OUTPUT" "ordinary CYCLE_STARTED"
  "ordinary CYCLE_ENDED" "ordinary FAILURE_RECORDED" "ordinary RETRY_SCHEDULED" "ordinary BREAKER_STATE_CHANGED" "ordinary ROTATION_STARTED"
  "ordinary ROTATION_COMPLETED" "ordinary Event_ROTATION_FAILED" "ordinary BUDGET_UPDATED" "ordinary Event_BUDGET_EXCEEDED" "ordinary AUDIT_WARNING"
  "ordinary MESSAGE_RETRANSMITTED" "ordinary FINAL_ANSWER_RECEIVED" "ordinary USER_RESPONSE_RECEIVED" "ordinary a \<Longrightarrow> ordinary b \<Longrightarrow> ordinary (if c then a else b)"
  by (simp_all add: ordinary_def)

section \<open>What happens during an await\<close>

definition transport_keeps :: "(app \<times> handler \<Rightarrow> bool) \<Rightarrow> transport \<Rightarrow> bool" where
  "transport_keeps I tr \<longleftrightarrow> (\<forall>i d. keeps I (tr_init tr i d)) \<and> (\<forall>r p. keeps I (tr_post tr r p))
     \<and> (\<forall>r c. keeps I (tr_wait_for_reply tr r c)) \<and> (\<forall>r. keeps I (tr_close tr r))"

definition surroundings_keep :: "(app \<times> handler \<Rightarrow> bool) \<Rightarrow> orchestrator \<Rightarrow> bool" where
  "surroundings_keep I oc \<longleftrightarrow> transport_keeps I (oc_transport oc) \<and> (\<forall>ms. keeps I (oc_sleep oc ms))"

lemma transport_keepsD:
  assumes "transport_keeps I tr"
  shows "keeps I (tr_init tr i d)" "keeps I (tr_post tr r p)" "keeps I (tr_wait_for_reply tr r c)" "keeps I (tr_close tr r)"
  using assms by (simp_all add: transport_keeps_def)

section \<open>The contract\<close>

locale app_invariant =
  fixes J :: "app \<Rightarrow> bool" and allowed :: "session_update list \<Rightarrow> bool"
  assumes publish: "ordinary (ev_event_type e) \<Longrightarrow> keeps J (publish e)"
    and clock [keeps_intros]: "keeps J clock_now" "keeps J clock_monotonic_ms"
    and ids [keeps_intros]: "keeps J (new_id prefix)"
    and breaker [keeps_intros]: "keeps J (upd_breaker f)"
    and saves [keeps_intros]: "keeps J (on_store (save_task t))" "keeps J (on_store (save_plan p))" "keeps J (on_store (save_cycle cy))"
      "keeps J (on_store (save_message m))" "keeps J (on_store (save_failure fl))" "keeps J (on_store (save_retry_decision rd))"
      "keeps J (on_store (save_context_summary cs))" "keeps J (on_store (save_blob b))"
    and rollback: "J w \<Longrightarrow> J w' \<Longrightarrow> onwards w w' \<Longrightarrow> J (w'\<lparr>w_store := restore (w_store w) (w_store w')\<rparr>)"
    and sessions [keeps_intros]: "allowed us \<Longrightarrow> keeps J (update_session sid us)" "allowed us \<Longrightarrow> keeps J (transition_session sid to reason us)"
    and conversations [keeps_intros]: "keeps J (update_conversation cid cus)" "keeps J (transition_conversation cid cto reason cus)"
      "keeps J (transition_context_window cid x reason)" "keeps J (create_conversation sid parent x)"
    and allowed [keeps_intros]: "allowed []" "allowed [Set_last_failure_id f_id]" "allowed [Set_final_answer answer]" "allowed [Set_consumed_plans n]"
begin

abbreviation JH :: "app \<times> handler \<Rightarrow> bool" where "JH \<equiv> \<lambda>s. J (fst s)"
abbreviation JL :: "loop_state \<Rightarrow> bool" where "JL \<equiv> \<lambda>s. J (fst (fst s))"
abbreviation JX :: "app \<times> execution \<Rightarrow> bool" where "JX \<equiv> \<lambda>s. J (fst s)"

lemma publish_ordinary [keeps_intros]:
  "ordinary ty \<Longrightarrow> keeps J (publish \<lparr>ev_event_type = ty, ev_timestamp = t, ev_session_id = sid, ev_conversation_id = cid,
     ev_cycle_id = cy, ev_plan_id = p, ev_task_id = k, ev_payload = x\<rparr>)"
  by (rule publish) simp

lemma publish_breaker_event [keeps_intros]: "keeps J (publish (breaker_event sid from to n t))"
  unfolding breaker_event_def by (intro keeps_intros)

lemma ids_all [keeps_intros]:
  "keeps J new_message_id" "keeps J new_cycle_id" "keeps J new_blob_id" "keeps J new_failure_id" "keeps J new_summary_id" "keeps J new_decision_id"
  by (simp_all add: new_message_id_def new_cycle_id_def new_blob_id_def new_failure_id_def new_summary_id_def new_decision_id_def ids)

lemma kept_app_transaction [keeps_intros]:
  assumes "keeps J m" and "grows m"
  shows "keeps J (app_transaction m)"
  unfolding keeps_def
proof (intro allI impI)
  fix w assume w: "J w"
  obtain r w' where run: "m w = (r, w')" by (cases "m w")
  have "onwards w w" by (simp add: onwards_def)
  then have "onwards w w'" using assms(2) run unfolding grows_def keeps_def by (metis snd_conv)
  moreover have "J w'" using keepsD [OF assms(1) w] run by simp
  ultimately show "J (snd (app_transaction m w))"
    using w run rollback [of w w'] by (auto simp: app_transaction_def split: sum.splits)
qed

lemma kept_store_transaction [keeps_intros]:
  assumes "keeps J (on_store m)"
  shows "keeps J (on_store (transaction m))"
  unfolding keeps_def
proof (intro allI impI)
  fix w assume w: "J w"
  obtain r st where run: "m (w_store w) = (r, st)" by (cases "m (w_store w)")
  have later: "J (w\<lparr>w_store := st\<rparr>)" using keepsD [OF assms w] run by (simp add: on_part_def)
  moreover have "J (w\<lparr>w_store := restore (w_store w) st\<rparr>)" using rollback [OF w later] by (simp add: onwards_def)
  ultimately show "J (snd (on_store (transaction m) w))"
    using w run by (auto simp: on_part_def transaction_def split: sum.splits)
qed

lemma kept_store_parts [keeps_intros]:
  "keeps J (on_store m) \<Longrightarrow> keeps J (on_store n) \<Longrightarrow> keeps J (on_store (andthen m n))"
  "(\<And>x. keeps J (on_store (f x))) \<Longrightarrow> keeps J (on_store (for_each xs f))"
  by (simp_all add: on_store_andthen on_store_for_each keeps_intros)

lemma kept_save_tasks [keeps_intros]: "keeps J (on_store (save_tasks ts))"
  unfolding save_tasks_def by (intro keeps_intros)

lemma kept_readers [keeps_intros]: "keeps J (require_session sid)" "keeps J (require_conversation cid)"
  unfolding require_session_def require_conversation_def by (intro keeps_intros)+

section \<open>Breaker and failures\<close>

lemma kept_breaker_transition [keeps_intros]: "keeps J (breaker_transition target)"
  unfolding breaker_transition_def by (intro keeps_intros)

lemma kept_trial_call [keeps_intros]: "keeps J (trial_call cfg)"
  unfolding trial_call_def by (intro keeps_intros)

lemma kept_allow [keeps_intros]: "keeps J (allow cfg)"
  unfolding allow_def by (intro keeps_intros; (split circuit_state.split; intro conjI impI; intro keeps_intros))

lemma kept_open_breaker [keeps_intros]: "keeps J open_breaker"
  unfolding open_breaker_def by (intro keeps_intros)

lemma kept_record_failure [keeps_intros]: "keeps J (record_failure cfg)"
  unfolding record_failure_def by (intro keeps_intros; (split circuit_state.split; intro conjI impI; intro keeps_intros))

lemma kept_note_success [keeps_intros]: "keeps J note_success"
  unfolding note_success_def record_success_def by (intro keeps_intros; (split circuit_state.split; intro conjI impI; intro keeps_intros))

lemma kept_record_failure_of [keeps_intros]: "keeps J (record_failure_of e sid cid pid tid)"
  unfolding record_failure_of_def by (intro keeps_intros)

lemma kept_record_decision [keeps_intros]: "keeps J (record_decision retry d e sid cid cycle operation attempt)"
  unfolding record_decision_def by (intro keeps_intros)

lemma kept_decide [keeps_intros]: "keeps J (decide retry cb draw e attempt)"
  unfolding decide_def by (intro keeps_intros)

lemma kept_handle [keeps_intros]: "keeps J (handle retry cb draw x attempt operation sid cid cycle pid tid)"
  unfolding handle_def by (intro keeps_intros)

section \<open>The plan runner\<close>

lemma kept_publish_event [keeps_intros]: "ordinary ty \<Longrightarrow> keeps JX (publish_event ty now task payload)"
  unfolding publish_event_def by (intro keeps_intros; assumption)

lemma kept_apply_changes [keeps_intros]: "keeps JX (apply_changes changes blobs)"
  unfolding apply_changes_def commit_change_def by (intro keeps_intros)

lemma kept_transition_plan [keeps_intros]: "keeps JX (transition_plan to r)"
  unfolding transition_plan_def by (intro keeps_intros)

lemma kept_launch_ready [keeps_intros]: "keeps JX (launch_ready rn)"
  unfolding launch_ready_def launch_def decide_translation_def by (intro keeps_intros)

lemma kept_run_callback [keeps_intros]: "keeps JX (run_callback c)"
  unfolding run_callback_def persist_pid_def publish_output_def
  by (intro keeps_intros; (split callback.split; intro conjI allI impI; intro keeps_intros))

lemma kept_record_output [keeps_intros]: "keeps JX (record_output rn t now e)"
  unfolding record_output_def stream_blob_def
  by (split ended.split; intro conjI allI impI; intro keeps_intros; (split sum.split; intro conjI allI impI; intro keeps_intros)?)

lemma kept_record_run_failure [keeps_intros]: "keeps JX (record_run_failure rn t failure)"
  unfolding record_run_failure_def by (intro keeps_intros)

lemma kept_pop_and_finish [keeps_intros]: "keeps JX (pop_and_finish rn propagate kr)"
  unfolding pop_and_finish_def Runner.finish_def release_dependants_def skip_dependants_def by (intro keeps_intros)

lemma kept_drain_running [keeps_intros]: "keeps JX (drain_running rn dr reason)"
  unfolding drain_running_def by (intro keeps_intros)

lemma kept_outcomes [keeps_intros]:
  "keeps JX (outcome_with_result rn over)" "keeps JX (mark_remaining to reason)"
  unfolding outcome_with_result_def make_outcome_def mark_remaining_def by (intro keeps_intros)+

lemma kept_ends [keeps_intros]:
  "keeps JX (completed_run rn)" "keeps JX (stopped_run rn dr target)" "keeps JX (interrupted_run rn dr)" "keeps JX (budget_failed_run rn)"
  unfolding completed_run_def stopped_run_def interrupted_run_def budget_failed_run_def make_outcome_def by (intro keeps_intros)+

lemma kept_loop_head [keeps_intros]: "keeps JX (loop_head rn dr)"
  unfolding loop_head_def check_deadline_def start_plan_def by (intro keeps_intros)

lemma kept_finish_all [keeps_intros]: "keeps JX (finish_all rn dr ends)"
proof (induction ends)
  case (Cons kr rest)
  obtain k r where "kr = (k, r)" by (cases kr)
  then show ?case by (simp only: finish_all.simps) (intro keeps_intros Cons)
qed (simp add: keeps_intros)

lemma kept_wake_up [keeps_intros]: "keeps JX (wake_up rn dr wk)"
  unfolding wake_up_def by (intro keeps_intros)

lemma kept_run_loop [keeps_intros]: "keeps JX (run_loop rn dr wakes)"
  by (induction wakes) (simp_all add: keeps_intros)

lemma kept_run_plan [keeps_intros]: "keeps J (run_plan rn plan tasks session interrupted dr wakes)"
proof -
  have "keeps JX (andthen (lifting (validate_run (new_execution plan tasks session interrupted))) (run_loop rn dr wakes))"
    by (intro keeps_intros)
  then have kept: "J w \<Longrightarrow> J (fst (snd (andthen (lifting (validate_run (new_execution plan tasks session interrupted))) (run_loop rn dr wakes)
      (w, new_execution plan tasks session interrupted))))" for w
    using keepsD [of JX _ "(w, new_execution plan tasks session interrupted)"] by simp
  show ?thesis
    unfolding keeps_def
  proof (intro allI impI)
    fix w assume "J w"
    obtain r w' x where "andthen (lifting (validate_run (new_execution plan tasks session interrupted))) (run_loop rn dr wakes)
        (w, new_execution plan tasks session interrupted) = (r, (w', x))" by (metis prod_cases3)
    with kept [OF \<open>J w\<close>] show "J (snd (run_plan rn plan tasks session interrupted dr wakes w))" by (simp add: run_plan_def)
  qed
qed

section \<open>Rotation and the loop\<close>

lemma kept_rotation_publish [keeps_intros]: "ordinary ty \<Longrightarrow> keeps J (rotation_publish ty sid cid cycle payload)"
  unfolding rotation_publish_def by (intro keeps_intros; assumption)

lemma kept_start_rotation [keeps_intros]: "keeps J (start_rotation rc session source ty)"
  unfolding start_rotation_def check_guards_def mark_rotating_def compose_summary_def compose_def assemble_def budget_section_def Let_def
  by (intro keeps_intros)

lemma kept_create_child [keeps_intros]: "keeps J (create_child rc sid source draft remote)"
  unfolding create_child_def persist_def by (intro keeps_intros)

lemma kept_counted_context [keeps_intros]: "keeps J (counted_context c sz)"
  unfolding counted_context_def by (intro keeps_intros)

lemma kept_rejected_id [keeps_intros]: "keeps J (rejected_id i)"
  unfolding rejected_id_def by (intro keeps_intros)

lemma kept_accept_ack [keeps_intros]: "keeps J (accept_ack rc reply child cycle remote)"
  unfolding accept_ack_def reject_ack_def by (intro keeps_intros grows_intros)

lemma kept_close_rotation [keeps_intros]: "keeps J (close_rotation rc sid source summary remote x)"
  unfolding close_rotation_def complete_resume_cycle_def by (intro keeps_intros)

lemma kept_persist_retransmission [keeps_intros]: "keeps J (persist_retransmission pending child)"
  unfolding persist_retransmission_def by (intro keeps_intros grows_intros)

text \<open>The steps of the loop that do not open a cycle.\<close>

lemma kept_run_session_record [keeps_intros]: "keeps JL (run_session_record sid)"
  unfolding run_session_record_def by (intro keeps_intros)

lemma kept_fresh_conversation [keeps_intros]: "keeps JL (fresh_conversation cid)"
  unfolding fresh_conversation_def by (intro keeps_intros)

lemma kept_run_conversation [keeps_intros]: "keeps JL (run_conversation sid)"
  unfolding run_conversation_def current_from_session_def by (intro keeps_intros)

lemma kept_requires [keeps_intros]:
  "keeps JL (run_remote sid)" "keeps JL require_pending" "keeps JL require_cycle" "keeps JL require_last_outbound" "keeps JL (check_interrupted sid)"
  unfolding run_remote_def require_pending_def require_cycle_def require_last_outbound_def check_interrupted_def by (intro keeps_intros)+

lemma kept_publishing [keeps_intros]:
  "ordinary ty \<Longrightarrow> keeps JL (run_publish ty sid now cid cycle plan task payload)" "ordinary ty \<Longrightarrow> keeps JL (conv_publish ty sid now cycle plan task payload)"
  "keeps JL (consumed_duration_ms s)" "keeps JL (remaining_budget_ms sid)" "keeps JL (publish_budget sid s)"
  unfolding run_publish_def conv_publish_def consumed_duration_ms_def remaining_budget_ms_def publish_budget_def by (intro keeps_intros; assumption?)+

lemma kept_windows [keeps_intros]:
  "keeps JL (apply_window sid state reason)" "keeps JL (run_transition sid to why cus)" "keeps JL (reevaluate_window oc sid)"
  unfolding apply_window_def run_transition_def reevaluate_window_def by (intro keeps_intros)+

lemma kept_cycles [keeps_intros]:
  "keeps JL (run_build oc sid pending c mid)" "keeps JL (complete_cycle sid iid ity)" "keeps JL (fail_cycle sid why)"
  "keeps JL (run_record_failure sid e plan_id)" "keeps JL bump_retry_count"
  unfolding run_build_def complete_cycle_def fail_cycle_def end_cycle_def run_record_failure_def bump_retry_count_def by (intro keeps_intros)+

lemma kept_run_pause [keeps_intros]: "keeps JL (run_pause sid e operation mid)"
  unfolding run_pause_def by (intro keeps_intros)

lemma kept_fail_conversations [keeps_intros]: "keeps JL (fail_conversations sid why)"
  unfolding fail_conversations_def fail_conversation_def by (intro keeps_intros)

lemma kept_persisting [keeps_intros]:
  "keeps JL (persist_unparseable oc sid e)" "keeps JL (note_unusable_reply oc sid e operation)" "keeps JL (handle_failure oc sid x attempt operation)"
  "keeps JL (persist_rejected oc sid reply x)" "keeps JL (run_expected oc c)" "keeps JL (accept_valid oc sid reply c inbound)"
  unfolding persist_unparseable_def note_unusable_reply_def handle_failure_def persist_rejected_def run_expected_def accept_valid_def
  by (intro keeps_intros grows_intros)+

lemma kept_plan_steps [keeps_intros]:
  "keeps JL (persist_plan oc sid inbound)" "keeps JL (check_plan_budget sid plan tasks session)" "keeps JL (drive_plan oc sid plan tasks session)"
  unfolding persist_plan_def announce_plan_def check_plan_budget_def fail_plan_before_start_def drive_plan_def
  by (intro keeps_intros grows_intros; (split progress.split; intro conjI allI impI; intro keeps_intros)?)+

lemma kept_conclude [keeps_intros]: "keeps JL (conclude oc sid inbound)"
  unfolding conclude_def by (split inbound_content.split; intro conjI allI impI; intro keeps_intros)

section \<open>With the surroundings\<close>

text \<open>The steps that await, for surroundings that keep the predicate.\<close>

lemma awaits [keeps_intros]:
  "surroundings_keep JH oc \<Longrightarrow> keeps JH (tr_init (oc_transport oc) i d)" "surroundings_keep JH oc \<Longrightarrow> keeps JH (tr_post (oc_transport oc) r p)"
  "surroundings_keep JH oc \<Longrightarrow> keeps JH (tr_wait_for_reply (oc_transport oc) r c)"
  "surroundings_keep JH oc \<Longrightarrow> keeps JH (tr_close (oc_transport oc) r)" "surroundings_keep JH oc \<Longrightarrow> keeps JH (oc_sleep oc ms)"
  by (simp_all add: surroundings_keep_def transport_keeps_def)

lemma kept_sleeping [keeps_intros]:
  "surroundings_keep JH oc \<Longrightarrow> keeps JL (interruptible_sleep oc sid ms)"
  "surroundings_keep JH oc \<Longrightarrow> keeps JL (ensure_breaker_allows oc sid operation)"
  unfolding interruptible_sleep_def ensure_breaker_allows_def by (intro keeps_intros; assumption)+

lemma kept_after_transport_error [keeps_intros]:
  "surroundings_keep JH oc \<Longrightarrow> keeps JL (after_transport_error oc sid operation n attempt)"
  unfolding after_transport_error_def
  by (intro keeps_intros; (assumption | (split decision_kind.split; intro conjI allI impI; intro keeps_intros; assumption?))?)

lemma kept_call [keeps_intros]:
  assumes "surroundings_keep JH oc" and "keeps JH fn"
  shows "keeps JL (call fuel oc sid operation fn)"
proof -
  have "keeps JL (call_from fuel oc sid operation fn attempts)" for attempts
  proof (induction fuel arbitrary: attempts)
    case (Suc fuel)
    show ?case unfolding call_from.simps by (intro keeps_intros assms Suc)
  qed (simp add: keeps_intros)
  then show ?thesis by (simp add: call_def)
qed

lemma kept_posts [keeps_intros]:
  "surroundings_keep JH oc \<Longrightarrow> keeps JH (rotation_post (oc_coordinator oc) child message record)"
  "surroundings_keep JH oc \<Longrightarrow> keeps JH (close_remote_parent (oc_coordinator oc) source)"
  "surroundings_keep JH oc \<Longrightarrow> keeps JL (run_close_remote oc cs)"
  "surroundings_keep JH oc \<Longrightarrow> keeps JL (run_post li oc sid message record track)"
  unfolding rotation_post_def close_remote_parent_def run_close_remote_def run_post_def by (intro keeps_intros grows_intros; assumption)+

lemma kept_request_correction [keeps_intros]:
  "surroundings_keep JH oc \<Longrightarrow> keeps JL (request_correction li oc sid e rejected attempt mx)"
  unfolding request_correction_def by (intro keeps_intros grows_intros)

lemma kept_terminate_failed [keeps_intros]:
  "surroundings_keep JH oc \<Longrightarrow> keeps JL (terminate_failed oc sid e why recorded stage plan_id)"
  unfolding terminate_failed_def by (intro keeps_intros)

lemma kept_clean_up [keeps_intros]: "surroundings_keep JH oc \<Longrightarrow> keeps JL (clean_up oc sid e plan_id)"
  unfolding clean_up_def by (intro keeps_intros)

lemma kept_end_run [keeps_intros]: "surroundings_keep JH oc \<Longrightarrow> keeps JL (end_run oc sid stop)"
  unfolding end_run_def by (intro keeps_intros)

lemma conclude_ordinary: "conclude oc sid inbound s = (Inr (a, b, c, ty, d), t) \<Longrightarrow> ordinary ty"
  by (auto simp: conclude_def bnd_Inr ret_def keeps_intros split: inbound_content.splits)

lemma kept_run_finish [keeps_intros]:
  assumes "surroundings_keep JH oc"
  shows "keeps JL (run_finish oc sid inbound)"
  unfolding run_finish_def
  by (rule keeps_bnd_five [OF kept_conclude], drule conclude_ordinary) (intro keeps_intros assms; assumption)

lemma kept_processing [keeps_intros]: "surroundings_keep JH oc \<Longrightarrow> keeps JL (execute_plan oc sid inbound)"
  unfolding execute_plan_def by (intro keeps_intros; assumption)

end

text \<open>
  The run of one session, for a predicate that its rotations and its cycles keep when what happens during an await
  is \<open>calm\<close>.
\<close>

locale run_invariant = app_invariant +
  fixes run_sid :: string and calm :: "orchestrator \<Rightarrow> bool"
  assumes calm_surroundings: "calm oc \<Longrightarrow> surroundings_keep JH oc"
    and rotations [keeps_intros]: "calm oc \<Longrightarrow> keeps JL (run_rotate oc run_sid)"
    and cycles [keeps_intros]: "calm oc \<Longrightarrow> keeps JL (send_pending li oc run_sid)"
begin

lemmas calm_awaits [keeps_intros] =
  awaits [OF calm_surroundings] kept_call [OF calm_surroundings] kept_posts [OF calm_surroundings]
  kept_request_correction [OF calm_surroundings] kept_end_run [OF calm_surroundings] kept_processing [OF calm_surroundings]
  kept_run_finish [OF calm_surroundings]

lemma kept_entries [keeps_intros]:
  "calm oc \<Longrightarrow> keeps JL (run_start li oc run_sid msg)" "calm oc \<Longrightarrow> keeps JL (run_follow_up li oc run_sid msg)"
  "calm oc \<Longrightarrow> keeps JL (run_resume li oc run_sid)"
  unfolding run_start_def run_follow_up_def run_resume_def by (intro keeps_intros; assumption)+

lemma kept_after_unusable_reply [keeps_intros]: "calm oc \<Longrightarrow> keeps JL (after_unusable_reply li oc run_sid e rejected)"
  unfolding after_unusable_reply_def
  by (intro keeps_intros; (split unusable_outcome.split; intro conjI allI impI; intro keeps_intros)?)

lemma kept_replies [keeps_intros]:
  "calm oc \<Longrightarrow> keeps JL (accept_reply li oc run_sid reply)" "calm oc \<Longrightarrow> keeps JL (after_failed_get li oc run_sid stop)"
  unfolding accept_reply_def after_failed_get_def saturate_and_rotate_def by (intro keeps_intros; assumption)+

lemma kept_receive [keeps_intros]: "calm oc \<Longrightarrow> keeps JL (receive fuel li oc run_sid)"
proof (induction fuel)
  case (Suc fuel)
  then show ?case by (simp only: receive.simps) (intro keeps_intros Suc)
qed (simp add: keeps_intros)

lemma kept_turns [keeps_intros]: "calm oc \<Longrightarrow> keeps JL (turns fuel li oc run_sid)"
proof (induction fuel)
  case (Suc fuel)
  then show ?case by (simp only: turns.simps) (intro keeps_intros Suc)
qed (simp add: keeps_intros)

lemma kept_run_body [keeps_intros]: "calm oc \<Longrightarrow> keeps JL (run_body li oc run_sid entry msg)"
  unfolding run_body_def by (cases entry) (simp_all only: entry.case, (intro keeps_intros; assumption)+)

lemma kept_run_loop_of: "calm oc \<Longrightarrow> keeps JL (run_loop_of li oc run_sid entry msg)"
  unfolding run_loop_of_def by (intro keeps_intros)

lemma kept_run_session:
  assumes "calm oc" and "J (fst s)"
  shows "J (fst (snd (run_session li oc run_sid entry msg s)))"
proof -
  obtain r s' x where run: "run_loop_of li oc run_sid entry msg (s, new_session_run) = (r, s', x)" by (metis prod_cases3)
  have "JL (snd (run_loop_of li oc run_sid entry msg (s, new_session_run)))" by (rule keepsD [OF kept_run_loop_of [OF assms(1)]]) (use assms(2) in simp)
  with run show ?thesis by (simp add: run_session_def)
qed

end

text \<open>A predicate that no update of a session breaks is kept by every run, cycles and rotations included.\<close>

locale free_invariant = app_invariant +
  assumes free [keeps_intros]: "allowed us"
begin

lemma kept_request_resume [keeps_intros]: "keeps J (request_resume rc session remote summary ty child)"
  unfolding request_resume_def open_resume_cycle_def by (intro keeps_intros grows_intros)

lemma kept_rotate [keeps_intros]: "surroundings_keep JH oc \<Longrightarrow> keeps JH (rotate (oc_coordinator oc) sid cid pending)"
  unfolding rotate_def by (intro keeps_intros)

lemma kept_run_rotate [keeps_intros]: "surroundings_keep JH oc \<Longrightarrow> keeps JL (run_rotate oc sid)"
  unfolding run_rotate_def by (intro keeps_intros)

lemma kept_run_open_cycle [keeps_intros]: "keeps JL (run_open_cycle sid message session ty)"
  unfolding run_open_cycle_def by (intro keeps_intros grows_intros)

lemma kept_send_pending [keeps_intros]: "surroundings_keep JH oc \<Longrightarrow> keeps JL (send_pending li oc sid)"
  unfolding send_pending_def dispatch_pending_def fit_pending_def by (intro keeps_intros)

end

sublocale free_invariant \<subseteq> run_invariant J allowed sid "surroundings_keep JH" for sid
  by unfold_locales (simp_all add: kept_run_rotate kept_send_pending)

section \<open>The two invariants of the application\<close>

text \<open>A save is seen only in its own table.\<close>

definition leaves :: "(store \<Rightarrow> 'b) \<Rightarrow> 'a store_act \<Rightarrow> bool" where
  "leaves table m \<longleftrightarrow> (\<forall>st. table (snd (m st)) = table st)"

lemma keeps_sound_store:
  assumes "leaves st_sessions m" and "leaves st_conversations m"
  shows "keeps (sound st) (on_store m)"
  unfolding keeps_def
proof (intro allI impI)
  fix w assume "sound st w"
  obtain r s' where "m (w_store w) = (r, s')" by (cases "m (w_store w)")
  with assms \<open>sound st w\<close> show "sound st (snd (on_store m w))"
    unfolding leaves_def by (metis on_part_def sound_same [of st w] app.select_convs(1,4,5) app.surjective app.update_convs(5) case_prod_conv order_refl snd_conv)
qed

lemma keeps_audit_store:
  assumes "leaves st_audit m"
  shows "keeps audit_synced (on_store m)"
  unfolding keeps_def
proof (intro allI impI)
  fix w assume w: "audit_synced w"
  obtain r s' where run: "m (w_store w) = (r, s')" by (cases "m (w_store w)")
  then have "st_audit s' = st_audit (w_store w)" using assms unfolding leaves_def by (metis snd_conv)
  then have "audit_synced (w\<lparr>w_store := s'\<rparr>) = audit_synced w" by (intro audit_synced_cong) simp_all
  with w run show "audit_synced (snd (on_store m w))" by (simp add: on_part_def)
qed

lemma leaves_write:
  assumes "\<And>st. table (upd st) = table st" and "\<And>k st. table (touch k st) = table st"
    and "\<And>st b. table (st\<lparr>st_fail_next_write := b\<rparr>) = table st"
  shows "leaves table (write_record key upd)"
  using assms by (auto simp: leaves_def write_record_def flow_simps write_guard_def)

lemma leaves_saves:
  assumes "\<And>k st. table (touch k st) = table st" and "\<And>st b. table (st\<lparr>st_fail_next_write := b\<rparr>) = table st"
  shows "(\<And>st x. table (st\<lparr>st_tasks := x\<rparr>) = table st) \<Longrightarrow> leaves table (save_task t)"
    "(\<And>st x. table (st\<lparr>st_plans := x\<rparr>) = table st) \<Longrightarrow> leaves table (save_plan p)"
    "(\<And>st x. table (st\<lparr>st_cycles := x\<rparr>) = table st) \<Longrightarrow> leaves table (save_cycle cy)"
    "(\<And>st x. table (st\<lparr>st_messages := x\<rparr>) = table st) \<Longrightarrow> leaves table (save_message m)"
    "(\<And>st x. table (st\<lparr>st_failures := x\<rparr>) = table st) \<Longrightarrow> leaves table (save_failure fl)"
    "(\<And>st x. table (st\<lparr>st_retry_decisions := x\<rparr>) = table st) \<Longrightarrow> leaves table (save_retry_decision rd)"
    "(\<And>st x. table (st\<lparr>st_summaries := x\<rparr>) = table st) \<Longrightarrow> leaves table (save_context_summary cs)"
    "(\<And>st x. table (st\<lparr>st_sessions := x\<rparr>) = table st) \<Longrightarrow> leaves table (save_session ss)"
    "(\<And>st x. table (st\<lparr>st_conversations := x\<rparr>) = table st) \<Longrightarrow> leaves table (save_conversation cv)"
    "(\<And>st x. table (st\<lparr>st_blobs := x\<rparr>) = table st) \<Longrightarrow> leaves table (save_blob b)"
  unfolding save_defs using assms
  by (auto intro!: leaves_write) (auto simp: leaves_def save_blob_def write_record_def flow_simps write_guard_def)

lemma touch_leaves:
  "st_sessions (touch k st) = st_sessions st" "st_conversations (touch k st) = st_conversations st" "st_audit (touch k st) = st_audit st"
  by (simp_all add: touch_def)

lemmas saves_leave_records = leaves_saves [of st_sessions, OF touch_leaves(1)] leaves_saves [of st_conversations, OF touch_leaves(2)]
  leaves_saves [of st_audit, OF touch_leaves(3)]

lemma sound_restore: "sound st w \<Longrightarrow> onwards w w' \<Longrightarrow> sound st (w'\<lparr>w_store := restore (w_store w) (w_store w')\<rparr>)"
  by (rule sound_same [of st w]) (simp_all add: onwards_def restore_def)

lemma audit_synced_restore: "audit_synced w \<Longrightarrow> onwards w w' \<Longrightarrow> audit_synced (w'\<lparr>w_store := restore (w_store w) (w_store w')\<rparr>)"
  by (subst audit_synced_cong [of _ w]) (simp_all add: onwards_def restore_def)

interpretation tables: free_invariant "sound st" "\<lambda>_. True"
proof unfold_locales
  show "keeps (sound st) clock_monotonic_ms" "keeps (sound st) (new_id prefix)" "keeps (sound st) (upd_breaker f)" for prefix f
    by (auto simp: keeps_def clock_monotonic_ms_def new_id_def modifying_def intro: sound_same)
qed (simp_all add: keeps_intros keeps_sound_store saves_leave_records sound_restore)

text \<open>The lifecycle manager only publishes, reads the clock and writes sessions and conversations.\<close>

lemma leaves_parts:
  "leaves st_audit m \<Longrightarrow> leaves st_audit n \<Longrightarrow> leaves st_audit (andthen m n)"
  "leaves st_audit m \<Longrightarrow> leaves st_audit (transaction m)"
  unfolding leaves_def by (auto simp: flow_simps transaction_def restore_def split: prod.splits sum.splits) (metis snd_conv)+

lemma keeps_audit_basic [keeps_intros]:
  "keeps audit_synced clock_now" "keeps audit_synced clock_monotonic_ms" "keeps audit_synced (new_id prefix)" "keeps audit_synced (upd_breaker f)"
  by (auto simp: keeps_def clock_now_def clock_monotonic_ms_def new_id_def modifying_def audit_synced_def)

lemma keeps_audit_saves [keeps_intros]:
  "keeps audit_synced (on_store (save_task t))" "keeps audit_synced (on_store (save_plan p))" "keeps audit_synced (on_store (save_cycle cy))"
  "keeps audit_synced (on_store (save_message m))" "keeps audit_synced (on_store (save_failure fl))"
  "keeps audit_synced (on_store (save_retry_decision rd))" "keeps audit_synced (on_store (save_context_summary cs))"
  "keeps audit_synced (on_store (save_blob b))" "keeps audit_synced (on_store (save_session ss))"
  "keeps audit_synced (on_store (save_conversation cv))"
  "keeps audit_synced (on_store (transaction (andthen (save_conversation cv) (save_session ss))))"
  by (rule keeps_audit_store, simp add: saves_leave_records leaves_parts)+

lemma keeps_audit_lifecycle:
  "keeps audit_synced (update_session sid us)" "keeps audit_synced (transition_session sid sto why us)"
  "keeps audit_synced (update_conversation cid cus)" "keeps audit_synced (transition_conversation cid to why cus)"
  "keeps audit_synced (transition_context_window cid x why)" "keeps audit_synced (create_conversation sid parent x)"
  unfolding update_session_def transition_session_def update_conversation_def transition_conversation_def commit_conversation_transition_def
    transition_context_window_def create_conversation_def check_parent_def require_session_def require_conversation_def
    lifecycle_publish_def new_conversation_id_def
  by (intro keeps_intros)+

interpretation audit: free_invariant audit_synced "\<lambda>_. True"
  by unfold_locales (simp_all add: keeps_intros keeps_audit_lifecycle audit_synced_restore)

end
