(* ===== verification/Runs.thy ===== *)
theory Runs
  imports Driving Plans Restart Sweeping
begin

text \<open>
  What a run of a session promises: the tables and the audit trail it keeps, the end it always signals, what a resumed
  session waits for, and the two places where the loop drops what it should replay.
\<close>

section \<open>A surrounding for the witnesses\<close>

definition refusing_transport :: "exn \<Rightarrow> transport" where
  "refusing_transport e = \<lparr>tr_init = \<lambda>_ _. throw e, tr_post = \<lambda>_ _. throw e, tr_wait_for_reply = \<lambda>_ _. throw e, tr_close = \<lambda>_. ret ()\<rparr>"

definition sample_coordinator :: "exn \<Rightarrow> coordinator" where
  "sample_coordinator e = \<lparr>rc_context = default_context, rc_payload = small_payload,
     rc_schemas = sample_schemas sample_envelope (sample_plan []), rc_instructions = [], rc_transport = refusing_transport e\<rparr>"

definition sample_orchestrator :: "exn \<Rightarrow> orchestrator" where
  "sample_orchestrator e = \<lparr>oc_coordinator = sample_coordinator e, oc_runner = solo_runner, oc_retry = default_retry, oc_breaker = default_breaker,
     oc_max_correction_attempts = 2, oc_allow_direct_response = False, oc_draw = \<lambda>_. None, oc_sleep = \<lambda>_. ret (),
     oc_wakes = \<lambda>_. (idle_drain, []), oc_digest = \<lambda>_. [], oc_shown = \<lambda>_. [], oc_read_user_request = \<lambda>_. Inr ''m'',
     oc_read_execution_result = \<lambda>_. Inl (ValueError [])\<rparr>"

definition few :: limits where
  "few = \<lparr>li_attempts = 9, li_replies = 9, li_turns = 9\<rparr>"

lemma sample_surroundings_keep: "surroundings_keep I (sample_orchestrator e)"
  by (simp add: surroundings_keep_def transport_keeps_def sample_orchestrator_def sample_coordinator_def refusing_transport_def
      keeps_def flow_simps)

section \<open>Tables and audit trail\<close>

text \<open>
  C18. What has ended stays ended: a run, whatever the model answers, whatever the transport and the store do and however
  it ends, never moves a conversation that is INTERRUPTED, FAILED or CLOSED, nor a session that is FAILED, as long as
  what other tasks do meanwhile follows the transition tables.
\<close>

theorem run_leaves_ended_records:
  assumes "fresh_ids w" and "\<forall>i s. get_session (w_store w) i = Some s \<longrightarrow> s_session_id s = i"
    and "\<forall>i c. get_conversation (w_store w) i = Some c \<longrightarrow> c_conversation_id c = i"
    and "surroundings_keep (\<lambda>s. sound (w_store w) (fst s)) oc" and "run_session li oc sid entry msg (w, h) = (r, w', h')"
  shows "(\<forall>i c. get_conversation (w_store w) i = Some c \<longrightarrow> c_status c \<in> {Conv_INTERRUPTED, Conv_FAILED, Conv_CLOSED} \<longrightarrow>
      (\<exists>c'. get_conversation (w_store w') i = Some c' \<and> c_status c' = c_status c))
    \<and> (\<forall>i s. get_session (w_store w) i = Some s \<longrightarrow> s_status s = Session_FAILED \<longrightarrow>
      (\<exists>s'. get_session (w_store w') i = Some s' \<and> s_status s' = Session_FAILED))"
proof -
  have "evolved (w_store w) w" using assms(2,3) by (auto intro!: evolvedI)
  then have "sound (w_store w) w" using assms(1) by (simp add: sound_def)
  then have "sound (w_store w) w'" using tables.kept_run_session [OF assms(4), of "(w, h)" li sid entry msg] assms(5) by simp
  then have "evolved (w_store w) w'" by (simp add: sound_def)
  then show ?thesis
    using evolvedD(1,2) conversation_table.terminal_absorbing session_table.terminal_absorbing
    unfolding conversation_path_def session_path_def TERMINAL_CONVERSATION_STATES_def by (metis singletonI)
qed

text \<open>
  C11. The audit trail survives a run: if the chains verify when the run starts and what other tasks do meanwhile keeps
  them, then the verification of every session's chain still accepts all its events when the run ends, whatever
  the model, the transport, the clock and the store answered.
\<close>

theorem run_keeps_audit_trail:
  assumes "audit_synced w" and "surroundings_keep (\<lambda>s. audit_synced (fst s)) oc" and "0 < page_size"
    and "run_session li oc sid entry msg (w, h) = (r, w', h')"
  shows "verify (e_sha256_hex (w_env w')) (w_store w') i page_size = Inr (verified (length (audit_chain (w_store w') i)))"
proof -
  have "audit_synced w'" using audit.kept_run_session [OF assms(2), of "(w, h)" li sid entry msg] assms(1,4) by simp
  then show ?thesis using assms(3) by (rule audit_synced_verifies)
qed

section \<open>The end is signalled\<close>

lemma run_session_record_fst: "fst (snd (run_session_record sid s)) = fst s"
  by (auto simp: run_session_record_def flow_simps split: option.splits)

lemmas in_handler_simps = raising_def on_part_def modifying_def

text \<open>
  C12. A run that ends, however it ends, has set the event it registered when it started; so an interruption that
  waits for that loop does not wait any longer: the drain returns at once, without what its wait would
  have let happen.
\<close>

theorem run_signals_its_end:
  assumes "run_session li oc sid entry msg (w, h) = (r, w', h')" and "r \<noteq> Inl Going_on" and "r \<noteq> Inl Hanging"
    and "dict_get (ih_loops h') sid = Some (ih_events h)"
  shows "ih_events h \<in> set (ih_set h') \<and> drain_loop su sid (w', h') = (Inr True, (w', forget_loop sid h'))"
proof -
  have set: "ih_events h \<in> set (ih_set h')"
  proof -
    let ?s = "((w, snd (register_loop sid h)), new_session_run)"
    obtain x a b c where body: "catching (run_body li oc sid entry msg) (end_run oc sid) ?s = (x, ((a, b), c))" by (metis prod_cases3 prod.collapse)
    have event: "fst (register_loop sid h) = ih_events h" by (simp add: register_loop_def)
    have signals: "ih_events h \<in> set (ih_set (signal_end sid (ih_events h) b))"
      by (simp add: signal_end_def loop_finished_def split: option.splits)
    show ?thesis
    proof (cases x)
      case (Inl stop)
      with assms(1-3) body show ?thesis using signals
        by (cases stop) (auto simp: run_session_def run_loop_of_def bnd_run andthen_run event attempting_def in_handler_simps reading_def throw_def)
    next
      case (Inr v)
      obtain q t where q: "run_session_record sid ((a, signal_end sid (ih_events h) b), c) = (q, t)" by (metis surj_pair)
      then have "fst t = (a, signal_end sid (ih_events h) b)" using run_session_record_fst by (metis fst_conv snd_conv)
      with assms(1) body Inr q show ?thesis using signals
        by (auto simp: run_session_def run_loop_of_def bnd_run andthen_run event attempting_def in_handler_simps reading_def)
    qed
  qed
  with assms(4) show ?thesis by (simp add: drain_loop_def flow_simps)
qed

section \<open>Resuming\<close>

text \<open>
  C13. The recovery of a restart and the loop agree on what is pending: a conversation the recovery leaves resumable
  resumes on the very message the recovery saw, its last one, and with no unusable reply counted.
\<close>

theorem recovered_conversation_resumes:
  assumes "is_resumable st c"
  shows "\<exists>m. pending_outbound st c = Some m \<and> pending_outbound_of st c = Some m \<and> consecutive_unusable_replies st c = 0
    \<and> m_message_type m \<in> RETRANSMITTABLE_MESSAGE_TYPES"
proof -
  obtain m where m: "pending_outbound st c = Some m" and waiting: "c_status c = Conv_WAITING_MODEL_RESPONSE"
    using assms by (auto simp: is_resumable_def split: if_splits option.splits)
  obtain older where trail: "rev (list_messages st (c_conversation_id c) None) = m # older"
    and out: "m_direction m = OUTBOUND" "m_message_type m \<in> set RESUMABLE_MESSAGE_TYPES"
    using m by (cases "list_messages st (c_conversation_id c) None" rule: rev_cases) (auto simp: pending_outbound_def Let_def split: if_splits)
  have "m_message_type m \<noteq> PROTOCOL_CORRECTION_REQUEST" "m_message_type m \<in> {USER_REQUEST, EXECUTION_RESULT}"
    using out(2) by (auto simp: RESUMABLE_MESSAGE_TYPES_def)
  then show ?thesis
    using m trail out waiting by (simp add: pending_outbound_of_def consecutive_unusable_replies_def RETRANSMITTABLE_MESSAGE_TYPES_def)
qed

lemma run_conversation_first:
  assumes "sr_conv x = None" and "get_session (w_store w) sid = Some ss" and "s_current_conversation_id ss = Some cid"
    and "get_conversation (w_store w) cid = Some c"
  shows "run_conversation sid ((w, h), x) = (Inr c, ((w, h), x\<lparr>sr_conv := Some c\<rparr>))"
  using assms by (simp add: run_conversation_def current_from_session_def run_session_record_def fresh_conversation_def
      bnd_run andthen_run reading_def modifying_def ret_def)

text \<open>
  C14. A defect: a session that pauses because the POST of a correction request was refused (401) does not send it
  again when it resumes. The correction, persisted and not confirmed, is skipped over, the message it corrects is
  already confirmed, so the resumed loop goes on to wait for a reply: nothing is posted, no identifier is
  drawn, the clock is not even read.
\<close>

theorem refused_correction_is_not_sent_again:
  assumes "get_session (w_store w) sid = Some ss" and "s_current_conversation_id ss = Some cid"
    and "get_conversation (w_store w) cid = Some c" and "c_conversation_id c = cid" and "c_status c = Conv_WAITING_MODEL_RESPONSE"
    and "list_messages (w_store w) cid None = older @ [m, bad, correction]"
    and "m_direction m = OUTBOUND" and "m_message_type m \<in> {USER_REQUEST, EXECUTION_RESULT}" and "m_post_confirmed m"
    and "m_direction bad = INBOUND" and "m_validation_status bad = Some INVALID_STATUS"
    and "m_direction correction = OUTBOUND" and "m_message_type correction = PROTOCOL_CORRECTION_REQUEST"
    and "\<not> m_post_confirmed correction" and "pending_from_record oc m c = Inr p"
  shows "\<exists>x. run_resume li oc sid ((w, h), new_session_run) = (Inr (), ((w, h), x)) \<and> sr_last_outbound x = Some m
    \<and> sr_pending x = Some p \<and> sr_unusable_replies x = 1"
proof -
  have "m_message_type m \<noteq> PROTOCOL_CORRECTION_REQUEST" using assms(8) by auto
  then have pending: "pending_outbound_of (w_store w) c = Some m" and unusable: "consecutive_unusable_replies (w_store w) c = 1"
    using assms by (auto simp: pending_outbound_of_def consecutive_unusable_replies_def)
  have conv: "run_conversation sid ((w, h), new_session_run) = (Inr c, ((w, h), new_session_run\<lparr>sr_conv := Some c\<rparr>))"
    by (rule run_conversation_first) (use assms in \<open>simp_all add: new_session_run_def\<close>)
  show ?thesis
    using assms(9,15) by (simp add: run_resume_def bnd_run andthen_run conv reading_def modifying_def ret_def raising_def lifting_def
        pending unusable unless_def)
qed

section \<open>A context error outside a \<open>GET\<close>\<close>

lemma record_failure_of_healthy:
  assumes "healthy w"
  shows "\<exists>f w'. record_failure_of e sid cid pid tid w = (Inr f, w') \<and> healthy w'"
proof -
  let ?w = "w\<lparr>w_clock_reads := w_clock_reads w + 1, w_ids := w_ids w + 1\<rparr>"
  have "healthy (?w\<lparr>w_store := touch k ((w_store w)\<lparr>st_failures := x\<rparr>)\<rparr>)" for k x
    by (rule healthy_cong [OF assms]) (use assms in \<open>simp_all add: healthy_def touch_def\<close>)
  with publish_healthy [of "?w\<lparr>w_store := touch _ ((w_store w)\<lparr>st_failures := _\<rparr>)\<rparr>"] assms show ?thesis
    unfolding record_failure_of_def
    by (simp add: bnd_run andthen_run clock_now_run id_defs on_part_def save_defs write_record_def write_guard_def
        modifying_def ret_def healthy_def split: prod.splits sum.splits) (metis fst_conv snd_conv sum.inject(2) Inl_Inr_False Inr_inject prod.inject)
qed

lemma record_decision_healthy:
  assumes "healthy w" and "d_kind d \<noteq> Retry"
  shows "\<exists>r w'. record_decision retry d e sid cid cycle operation attempt w = (Inr r, w')"
  using assms unfolding record_decision_def healthy_def
  by (simp add: flow_simps id_defs save_defs write_record_def write_guard_def)

lemma handle_context_error:
  assumes "healthy w" and "ne_error_type n = MODEL_CONTEXT_WINDOW_ERROR"
  shows "\<exists>e d w'. handle retry cb draw (App_Error n) attempt operation sid cid cycle pid tid w = (Inr (e, d), w') \<and> d_kind d = Rotate"
proof -
  let ?e = "with_attempt (classify (App_Error n)) attempt (r_max_attempts retry)"
  have ty: "ne_error_type ?e = MODEL_CONTEXT_WINDOW_ERROR" using assms(2) by (simp add: with_attempt_def)
  obtain f w1 where w1: "record_failure_of ?e sid cid pid tid w = (Inr f, w1)" "healthy w1"
    using record_failure_of_healthy [OF assms(1)] by blast
  let ?d = "policy retry ?e attempt False"
  have d: "d_kind ?d = Rotate" using ty by (simp add: policy_def)
  obtain r w2 where "record_decision retry ?d ?e sid cid cycle operation attempt w1 = (Inr r, w2)"
    using record_decision_healthy [OF w1(2)] d by fastforce
  moreover have "\<not> asks_breaker retry ?e attempt" using policy_types [of ?e] ty by (simp add: asks_breaker_def)
  moreover have "\<not> feeds_breaker ?e" using ty by (simp add: feeds_breaker_def BREAKER_FED_ERROR_TYPES_def RETRYABLE_ERROR_TYPES_def)
  ultimately have "handle retry cb draw (App_Error n) attempt operation sid cid cycle pid tid w = (Inr (?e, ?d), w2)"
    using w1(1) by (simp add: handle_def bnd_run andthen_run ret_def whenever_def decide_not_asking)
  with d show ?thesis by blast
qed

lemma call_asks_for_rotation:
  assumes "healthy w" and "raise_if_interrupted h sid = Inr ()" and "br_state (w_breaker w) = Circuit_CLOSED" and "0 < fuel"
    and "fn (w, h) = (Inl (App_Error n), (w, h))" and "is_transport_error (App_Error n)" and "ne_error_type n = MODEL_CONTEXT_WINDOW_ERROR"
  shows "\<exists>e s. call fuel oc sid operation fn ((w, h), x) = (Inl (Rotate_requested e), s)"
proof -
  obtain k where k: "fuel = Suc k" using assms(4) by (cases fuel) auto
  obtain e d w' where handled: "handle (oc_retry oc) (oc_breaker oc) (oc_draw oc (w_clock_reads w)) (App_Error n) 1 operation sid
      (run_conversation_id x) (run_cycle_id x) None None w = (Inr (e, d), w')" "d_kind d = Rotate"
    using handle_context_error [OF assms(1,7)] by blast
  have "note_unusable_reply oc sid n operation ((w, h), x) = (Inr (App_Error n), ((w, h), x))"
    using assms(7) by (simp add: note_unusable_reply_def ret_def)
  then have "after_transport_error oc sid operation n 1 ((w, h), x) = (Inl (Rotate_requested e), ((w', h), x))"
    using assms(7) handled by (simp add: after_transport_error_def handle_failure_def bnd_run reading_def raising_def on_part_def throw_def)
  moreover have "ensure_breaker_allows oc sid operation ((w, h), x) = (Inr (), ((w, h), x))"
    using assms(3) by (simp add: ensure_breaker_allows_def bnd_run raising_def on_part_def allow_def reading_def ret_def unless_def)
  moreover have "check_interrupted sid ((w, h), x) = (Inr (), ((w, h), x))"
    using assms(2) by (simp add: check_interrupted_def bnd_run reading_def raising_def lifting_def)
  ultimately show ?thesis
    using assms(5,6) by (simp add: k call_def bnd_run andthen_run attempting_def raising_def on_part_def)
qed

lemma end_run_of_rotation:
  "\<exists>x s'. end_run oc sid (Rotate_requested e) s = (Inl (Raised x), s') \<and> (x = rotation_defect e \<or> is_cancelled_error x)"
proof -
  obtain p where p: "sr_get run_plan_id s = (Inr p, s)" by (simp add: reading_def)
  obtain r t where run: "clean_up oc sid (classify (rotation_defect e)) p s = (r, t)" by (metis surj_pair)
  have "r = Inr () \<or> (\<exists>x. r = Inl (Raised x) \<and> is_cancelled_error x)"
    using run by (auto simp: clean_up_def catching_def throw_def ret_def split: prod.splits sum.splits stop.splits if_splits)
  then show ?thesis using p run by (cases t) (auto simp: end_run_def bnd_run andthen_run throw_def)
qed

lemma run_body_rotation_crashes:
  assumes "run_body li oc sid entry msg ((w, snd (register_loop sid h)), new_session_run) = (Inl (Rotate_requested e), s)"
  shows "\<exists>x. fst (run_session li oc sid entry msg (w, h)) = Inl (Raised x) \<and> (x = rotation_defect e \<or> is_cancelled_error x)"
proof -
  obtain x t where "end_run oc sid (Rotate_requested e) s = (Inl (Raised x), t)" "x = rotation_defect e \<or> is_cancelled_error x"
    using end_run_of_rotation by metis
  with assms show ?thesis
    by (auto simp: run_session_def run_loop_of_def bnd_run andthen_run reading_def in_handler_simps attempting_def catching_def throw_def
        split: prod.splits)
qed

lemma pending_builds:
  assumes "get_session (w_store (fst (fst s))) sid = Some ss" and "pending_from_record oc m c = Inr p"
  shows "\<exists>message. run_build oc sid p c mid s = (Inr message, s)"
  using assms by (auto simp: run_build_def build_message_def pending_from_record_def bnd_run reading_def raising_def lifting_def
      split: if_splits option.splits)

text \<open>
  C15. A defect: a context error (HTTP 413) that answers a POST does not rotate the conversation. The request to
  rotate is only caught around a GET: when the POST of a resumed message, or any other call that is not a GET, is
  answered that way, the run is torn down as after an unexpected exception and raises the internal
  \<open>_RotateRequestedError\<close> to its caller.
\<close>

theorem context_error_on_post_crashes_the_run:
  assumes "healthy w" and "raise_if_interrupted h sid = Inr ()" and "br_state (w_breaker w) = Circuit_CLOSED" and "0 < li_attempts li"
    and "get_session (w_store w) sid = Some ss" and "s_status ss = Session_RUNNING" and "s_current_conversation_id ss = Some cid"
    and "get_conversation (w_store w) cid = Some c" and "c_conversation_id c = cid" and "pending_outbound_of (w_store w) c = Some m"
    and "\<not> m_post_confirmed m" and "pending_from_record oc m c = Inr p" and "\<And>r d. tr_post (oc_transport oc) r d = throw (App_Error n)"
    and "is_transport_error (App_Error n)" and "ne_error_type n = MODEL_CONTEXT_WINDOW_ERROR"
  shows "\<exists>e x. fst (run_session li oc sid Entry_RESUME msg (w, h)) = Inl (Raised x) \<and> (x = rotation_defect e \<or> is_cancelled_error x)"
proof -
  let ?h = "snd (register_loop sid h)" and ?x = "new_session_run\<lparr>sr_conv := Some c\<rparr>"
  let ?y = "?x\<lparr>sr_cycle := resumed_cycle (w_store w) m c, sr_last_outbound := Some m, sr_pending := Some p,
    sr_unusable_replies := consecutive_unusable_replies (w_store w) c\<rparr>"
  have alert: "raise_if_interrupted ?h sid = Inr ()" using assms(2) by (simp add: raise_if_interrupted_def register_loop_def)
  have conv: "run_conversation sid ((w, ?h), new_session_run) = (Inr c, ((w, ?h), ?x))"
    by (rule run_conversation_first) (use assms in \<open>simp_all add: new_session_run_def\<close>)
  obtain message where built: "run_build oc sid p c (m_message_id m) ((w, ?h), ?y) = (Inr message, ((w, ?h), ?y))"
    using pending_builds assms(5,12) by (metis fst_conv)
  have again: "run_conversation sid ((w, ?h), ?y) = (Inr c, ((w, ?h), ?y))"
    using assms(8,9) by (simp add: run_conversation_def bnd_run andthen_run reading_def modifying_def ret_def)
  obtain e s where "call (li_attempts li) oc sid OP_POST (tr_post (oc_transport oc) (known_remote_id c) (om_payload message)) ((w, ?h), ?y)
      = (Inl (Rotate_requested e), s)"
    using call_asks_for_rotation [OF assms(1) alert assms(3,4) _ assms(14,15)] assms(13) by (metis throw_def)
  then have "run_post li oc sid message m True ((w, ?h), ?y) = (Inl (Rotate_requested e), s)"
    by (simp add: run_post_def run_remote_def bnd_run again ret_def)
  then have "run_resume li oc sid ((w, ?h), new_session_run) = (Inl (Rotate_requested e), s)"
    using assms(10-12) built by (simp add: run_resume_def bnd_run andthen_run conv reading_def modifying_def raising_def lifting_def unless_def)
  then have "run_body li oc sid Entry_RESUME msg ((w, ?h), new_session_run) = (Inl (Rotate_requested e), s)"
    using assms(5,6) by (simp add: run_body_def run_session_record_def bnd_run andthen_run reading_def ret_def)
  then show ?thesis using run_body_rotation_crashes by blast
qed

section \<open>A refused rotation\<close>

definition rotation_refusal :: "coordinator \<Rightarrow> session_record \<Rightarrow> conversation_record \<Rightarrow> exn option" where
  "rotation_refusal rc session source =
     (let limit = x_max_rotations_per_session (rc_context rc)
      in if limit \<le> s_rotations_count session then Some (RotationFailedError ROTATION_LIMIT_REACHED
             [(''rotations_count'', JInt (s_rotations_count session)), (''max_rotations_per_session'', JInt limit)])
         else if max_cycles (s_budget session) \<le> s_consumed_cycles session
         then Some (BudgetExceededError ''max_cycles'' (max_cycles (s_budget session)) (s_consumed_cycles session))
         else if Conv_ROTATING \<notin> CONVERSATION_TRANSITIONS (c_status source)
         then Some (InvalidTransitionError ''conversation'' (conversation_state_value (c_status source)) (conversation_state_value Conv_ROTATING))
         else None)"

lemma rotation_publish_healthy:
  assumes "healthy w"
  shows "\<exists>w'. rotation_publish ty sid cid cycle payload w = (Inr (), w') \<and> healthy w' \<and> store_data (w_store w') = store_data (w_store w)"
proof -
  let ?w = "w\<lparr>w_clock_reads := w_clock_reads w + 1\<rparr>"
  obtain w' where w': "publish \<lparr>ev_event_type = ty, ev_timestamp = e_now (w_env w) (w_clock_reads w), ev_session_id = sid, ev_conversation_id = cid,
      ev_cycle_id = cycle, ev_plan_id = None, ev_task_id = None, ev_payload = payload\<rparr> ?w = (Inr (), w')" "healthy w'"
    using publish_healthy [OF healthy_clock [OF assms]] by blast
  have "store_data (w_store w') = store_data (w_store w)" using publish_data [OF w'(1)] by simp
  with w' show ?thesis by (simp add: rotation_publish_def bnd_run clock_now_run)
qed

lemma check_guards_refuses:
  assumes "healthy w" and "rotation_refusal rc session source = Some e"
  shows "\<exists>w'. check_guards rc session source w = (Inl e, w') \<and> store_data (w_store w') = store_data (w_store w)"
proof (cases "x_max_rotations_per_session (rc_context rc) \<le> s_rotations_count session")
  case True
  obtain w' where "rotation_publish Event_ROTATION_FAILED (s_session_id session) (Some (c_conversation_id source)) None
      ([(''source_conversation_id'', JStr (c_conversation_id source)), (''error_code'', JStr ROTATION_LIMIT_REACHED)]
       @ [(''rotations_count'', JInt (s_rotations_count session)), (''max_rotations_per_session'', JInt (x_max_rotations_per_session (rc_context rc)))]) w
      = (Inr (), w')" "store_data (w_store w') = store_data (w_store w)"
    using rotation_publish_healthy [OF assms(1)] by blast
  with True assms(2) show ?thesis by (simp add: check_guards_def rotation_refusal_def Let_def andthen_run throw_def)
next
  case False
  with assms(2) show ?thesis
    by (auto simp: check_guards_def rotation_refusal_def Let_def throw_def can_transition_def split: if_splits)
qed

text \<open>
  A rotation is decided before anything is done: it is refused exactly when the session has no rotation left, no
  cycle left, or the conversation cannot leave its state for \<open>ROTATING\<close>, in that order, with the error of
  that cause; nothing is called, no record changes and the handler is untouched.
\<close>

theorem refused_rotation_changes_no_record:
  assumes "healthy w" and "get_session (w_store w) sid = Some session" and "get_conversation (w_store w) cid = Some source"
    and "rotation_refusal rc session source = Some e"
  shows "\<exists>w'. rotate rc sid cid pending (w, h) = (Inl e, (w', h)) \<and> store_data (w_store w') = store_data (w_store w)"
proof -
  obtain w' where "check_guards rc session source w = (Inl e, w')" "store_data (w_store w') = store_data (w_store w)"
    using check_guards_refuses [OF assms(1,4)] by blast
  with assms(2,3) show ?thesis
    by (simp add: rotate_def start_rotation_def require_session_def require_conversation_def bnd_run andthen_run on_part_def reading_def ret_def)
qed

section \<open>Witnesses\<close>

theorem run_leaves_ended_records_witness:
  "\<exists>c'. get_conversation (w_store (fst (snd (run_session few (sample_orchestrator (ValueError [])) ''s'' Entry_RESUME None
     (failed_app, new_handler))))) ''c'' = Some c' \<and> c_status c' = Conv_FAILED"
proof -
  have names: "c_conversation_id (sample_conversation Conv_FAILED) = ''c''" "c_status (sample_conversation Conv_FAILED) = Conv_FAILED"
    by (simp_all add: sample_conversation_def new_conversation_def)
  have fresh: "fresh_ids failed_app"
    unfolding fresh_ids_def failed_app_records using inj_sample_uuid by (simp add: failed_app_def fresh_app_def)
  obtain r w' h' where run: "run_session few (sample_orchestrator (ValueError [])) ''s'' Entry_RESUME None (failed_app, new_handler) = (r, w', h')"
    by (metis surj_pair)
  have "\<exists>c'. get_conversation (w_store w') ''c'' = Some c' \<and> c_status c' = Conv_FAILED"
    using run_leaves_ended_records [OF fresh _ _ sample_surroundings_keep run] names by (simp add: failed_app_records)
  with run show ?thesis by simp
qed

theorem run_keeps_audit_trail_witness:
  "\<exists>w'. fst (snd (run_session few (sample_orchestrator (ValueError [])) ''s'' Entry_RESUME None (stuck, new_handler))) = w'
     \<and> verify (e_sha256_hex (w_env w')) (w_store w') ''s'' 10 = Inr (verified (length (audit_chain (w_store w') ''s'')))"
proof -
  have "audit_synced stuck" using crashed_app_sane(1) by (simp add: healthy_def)
  moreover obtain r w' h' where "run_session few (sample_orchestrator (ValueError [])) ''s'' Entry_RESUME None (stuck, new_handler) = (r, w', h')"
    by (metis surj_pair)
  ultimately show ?thesis
    using run_keeps_audit_trail [OF _ sample_surroundings_keep, where page_size = 10] by fastforce
qed

abbreviation "parked \<equiv> crashed_app Session_READY Conv_WAITING_USER []"

lemma parked_run:
  "run_session few (sample_orchestrator (ValueError [])) ''s'' Entry_START None (parked, new_handler)
     = (Inr (crashed_session Session_READY), (parked, \<lparr>ih_tokens = [], ih_loops = [(''s'', 0)], ih_events = 1, ih_set = [0, 0], ih_in_flight = []\<rparr>))"
  by (simp add: run_session_def run_loop_of_def bnd_run andthen_run reading_def in_handler_simps attempting_def catching_def
      run_body_def run_session_record_def crashed_records ret_def crashed_session_def new_session_def
      new_handler_def register_loop_def signal_end_def loop_finished_def)

theorem run_signals_its_end_witness:
  "fst (drain_loop still ''s'' (parked, \<lparr>ih_tokens = [], ih_loops = [(''s'', 0)], ih_events = 1, ih_set = [0, 0], ih_in_flight = []\<rparr>)) = Inr True"
  using run_signals_its_end [OF parked_run] by (simp add: new_handler_def)

definition asked_message :: "message_type \<Rightarrow> bool \<Rightarrow> message_record" where
  "asked_message ty confirmed = crashed_message\<lparr>m_message_id := ''m1'', m_message_type := ty, m_post_confirmed := confirmed\<rparr>"

definition refused_reply :: message_record where
  "refused_reply = crashed_message\<lparr>m_message_id := ''m2'', m_direction := INBOUND, m_message_type := Msg_SYSTEM_ERROR,
     m_validation_status := Some INVALID_STATUS\<rparr>"

definition unsent_correction :: message_record where
  "unsent_correction = crashed_message\<lparr>m_message_id := ''m3'', m_post_confirmed := False\<rparr>"

abbreviation "asking \<equiv> crashed_app Session_RUNNING Conv_WAITING_MODEL_RESPONSE"

lemmas trail_defs = order_of_def empty_store_def asked_message_def refused_reply_def unsent_correction_def crashed_message_def crashed_app_def list_messages_def by_order_def
  sample_conversation_def new_conversation_def crashed_session_def new_session_def

theorem recovered_conversation_resumes_witness:
  "\<exists>m. pending_outbound_of (w_store (asking [asked_message USER_REQUEST True])) (sample_conversation Conv_WAITING_MODEL_RESPONSE) = Some m"
  using recovered_conversation_resumes [of "w_store (asking [asked_message USER_REQUEST True])" "sample_conversation Conv_WAITING_MODEL_RESPONSE"]
  by (auto simp: is_resumable_def parent_rotating_def pending_outbound_def RESUMABLE_MESSAGE_TYPES_def get_session_def trail_defs)

theorem refused_correction_is_not_sent_again_witness:
  "\<exists>x. run_resume few (sample_orchestrator (ValueError [])) ''s''
       ((asking [asked_message USER_REQUEST True, refused_reply, unsent_correction], new_handler), new_session_run)
     = (Inr (), ((asking [asked_message USER_REQUEST True, refused_reply, unsent_correction], new_handler), x))
     \<and> sr_last_outbound x = Some (asked_message USER_REQUEST True)"
proof -
  obtain p where p: "pending_from_record (sample_orchestrator (ValueError [])) (asked_message USER_REQUEST True)
      (sample_conversation Conv_WAITING_MODEL_RESPONSE) = Inr p"
    by (simp add: pending_from_record_def sample_orchestrator_def asked_message_def)
  have "\<exists>x. run_resume few (sample_orchestrator (ValueError [])) ''s''
       ((asking [asked_message USER_REQUEST True, refused_reply, unsent_correction], new_handler), new_session_run)
     = (Inr (), ((asking [asked_message USER_REQUEST True, refused_reply, unsent_correction], new_handler), x))
     \<and> sr_last_outbound x = Some (asked_message USER_REQUEST True) \<and> sr_pending x = Some p \<and> sr_unusable_replies x = 1"
    by (rule refused_correction_is_not_sent_again [OF crashed_records(1) _ crashed_records(2), where older = "[]" and bad = refused_reply
          and correction = unsent_correction]; (rule p)?; simp add: trail_defs)
  then show ?thesis by blast
qed

definition too_large :: normalized_error where
  "too_large = err MODEL_CONTEXT_WINDOW_ERROR ''HTTP_413'' ''TransportGateway'' Severity_HIGH False True []"

theorem context_error_on_post_crashes_the_run_witness:
  "\<exists>x. fst (run_session few (sample_orchestrator (App_Error too_large)) ''s'' Entry_RESUME None
       (asking [asked_message USER_REQUEST False], new_handler)) = Inl (Raised x)"
proof -
  let ?c = "sample_conversation Conv_WAITING_MODEL_RESPONSE" and ?m = "asked_message USER_REQUEST False"
  obtain p where p: "pending_from_record (sample_orchestrator (App_Error too_large)) ?m ?c = Inr p"
    by (simp add: pending_from_record_def sample_orchestrator_def asked_message_def)
  have pending: "pending_outbound_of (w_store (asking [?m])) ?c = Some ?m"
    by (simp add: pending_outbound_of_def trail_defs)
  have closed: "br_state (w_breaker (asking [?m])) = Circuit_CLOSED" by (simp add: crashed_app_def fresh_app_def new_breaker_def)
  have "\<exists>e x. fst (run_session few (sample_orchestrator (App_Error too_large)) ''s'' Entry_RESUME None (asking [?m], new_handler)) = Inl (Raised x)
      \<and> (x = rotation_defect e \<or> is_cancelled_error x)"
    by (rule context_error_on_post_crashes_the_run [OF crashed_app_sane(1) _ closed _ crashed_records(1) _ _ crashed_records(2) _ pending _ p, where n = too_large])
      (simp_all add: few_def raise_if_interrupted_def new_handler_def crashed_session_def new_session_def sample_conversation_def new_conversation_def
        asked_message_def sample_orchestrator_def sample_coordinator_def refusing_transport_def is_transport_error_def too_large_def err_def)
  then show ?thesis by blast
qed

theorem refused_rotation_changes_no_record_witness:
  "\<forall>pending. \<exists>w'. rotate (sample_coordinator (ValueError [])) ''s'' ''c'' pending (crashed_app Session_RUNNING Conv_CLOSED [], new_handler)
     = (Inl (InvalidTransitionError ''conversation'' (conversation_state_value Conv_CLOSED) (conversation_state_value Conv_ROTATING)), (w', new_handler))"
proof -
  have "rotation_refusal (sample_coordinator (ValueError [])) (crashed_session Session_RUNNING) (sample_conversation Conv_CLOSED)
    = Some (InvalidTransitionError ''conversation'' (conversation_state_value Conv_CLOSED) (conversation_state_value Conv_ROTATING))"
    by (simp add: rotation_refusal_def sample_coordinator_def default_context_def crashed_session_def new_session_def sample_budget_def
        sample_conversation_def new_conversation_def)
  from refused_rotation_changes_no_record [OF crashed_app_sane(1) crashed_records this] show ?thesis by blast
qed

end
