(* ===== verification/Bounds.thy ===== *)
theory Bounds
  imports Runs
begin

text \<open>
  What a run consumes. \<open>counts\<close> fixes the budget and the two counters of a session; everything a run does keeps them
  but the opening of a cycle, of a rotation too, and those are guarded: a run stays \<open>in_budget\<close>.
\<close>

section \<open>The counters of a session\<close>

definition counts :: "string \<Rightarrow> session_budget \<Rightarrow> int \<Rightarrow> int \<Rightarrow> app \<Rightarrow> bool" where
  "counts sid B n m w \<longleftrightarrow> (\<forall>k s. get_session (w_store w) k = Some s \<longrightarrow> s_session_id s = k)
     \<and> (\<exists>s. get_session (w_store w) sid = Some s \<and> s_budget s = B \<and> s_consumed_cycles s = n \<and> s_rotations_count s = m)"

definition counter :: "session_update \<Rightarrow> bool" where
  "counter u = (case u of Set_budget _ \<Rightarrow> True | Set_consumed_cycles _ \<Rightarrow> True | Set_rotations_count _ \<Rightarrow> True | _ \<Rightarrow> False)"

definition uncounted :: "session_update list \<Rightarrow> bool" where
  "uncounted us \<longleftrightarrow> (\<forall>u \<in> set us. \<not> counter u)"

definition same_counts :: "session_record \<Rightarrow> session_record \<Rightarrow> bool" where
  "same_counts s s' \<longleftrightarrow> s_session_id s' = s_session_id s \<and> s_budget s' = s_budget s \<and> s_consumed_cycles s' = s_consumed_cycles s
     \<and> s_rotations_count s' = s_rotations_count s"

lemma same_counts_fields:
  "same_counts s (s'\<lparr>s_updated_at := t\<rparr>) = same_counts s s'" "same_counts s (s'\<lparr>s_status := x\<rparr>) = same_counts s s'"
  "same_counts s (s'\<lparr>s_current_conversation_id := c\<rparr>) = same_counts s s'" "same_counts s s"
  by (simp_all add: same_counts_def)

lemma apply_update_counts: "apply_session_update u s = Inr s' \<Longrightarrow> \<not> counter u \<Longrightarrow> same_counts s s'"
  by (cases u) (auto simp: counter_def same_counts_def)

lemma apply_session_counts: "apply_session us s = Inr s' \<Longrightarrow> uncounted us \<Longrightarrow> same_counts s s'"
proof (induction us arbitrary: s)
  case (Cons u us)
  then obtain s1 where "apply_session_update u s = Inr s1" "apply_session us s1 = Inr s'" by (auto simp: apply_session_def)
  with Cons show ?case using apply_update_counts [of u s s1] by (auto simp: uncounted_def same_counts_def)
qed (simp add: apply_session_def same_counts_def)

lemma uncounted_defaults: "uncounted us \<Longrightarrow> uncounted (session_defaults s to now @ us)"
  by (auto simp: uncounted_def session_defaults_def counter_def split: session_state.splits)

lemma counts_same: "counts sid B n m w \<Longrightarrow> st_sessions (w_store w') = st_sessions (w_store w) \<Longrightarrow> counts sid B n m w'"
  by (simp add: counts_def get_session_def)

text \<open>The counters and a record read from the store.\<close>

definition read_session :: "string \<Rightarrow> session_budget \<Rightarrow> int \<Rightarrow> int \<Rightarrow> session_record \<Rightarrow> app \<Rightarrow> bool" where
  "read_session sid B n m s w \<longleftrightarrow> counts sid B n m w \<and> get_session (w_store w) (s_session_id s) = Some s"

lemma read_session_counts: "read_session sid B n m s w \<Longrightarrow> counts sid B n m w"
  by (simp add: read_session_def)

lemma read_session_same:
  "read_session sid B n m s w \<Longrightarrow> st_sessions (w_store w') = st_sessions (w_store w) \<Longrightarrow> read_session sid B n m s w'"
  by (auto simp: read_session_def get_session_def intro: counts_same)

lemma triple_reads_session:
  "triple (counts sid B n m) (require_session k) (\<lambda>s w. read_session sid B n m s w \<and> s_session_id s = k) (counts sid B n m)"
  by (auto simp: triple_def require_session_def flow_simps read_session_def counts_def split: option.splits)

lemma save_session_cases:
  assumes "on_store (save_session s) w = (r, w')"
  shows "case r of Inl _ \<Rightarrow> st_sessions (w_store w') = st_sessions (w_store w)
    | Inr _ \<Rightarrow> (\<forall>k. get_session (w_store w') k = (if k = s_session_id s then Some s else get_session (w_store w) k))"
  using assms by (auto simp: on_part_def save_session_def write_record_Inr get_session_def split: prod.splits sum.splits dest!: write_record_Inl)

lemma triple_saves_session:
  assumes "s_session_id s' = s_session_id s" and "s_session_id s = sid \<Longrightarrow> s_budget s' = B \<and> s_consumed_cycles s' = n' \<and> s_rotations_count s' = m'"
    and "s_session_id s \<noteq> sid \<Longrightarrow> n' = n \<and> m' = m"
  shows "triple (read_session sid B n m s) (on_store (save_session s')) (\<lambda>_. counts sid B n' m') (counts sid B n m)"
  unfolding triple_def
proof (intro allI impI)
  fix w assume w: "read_session sid B n m s w"
  obtain r w' where run: "on_store (save_session s') w = (r, w')" by (metis surj_pair)
  show "case on_store (save_session s') w of (Inl _, w') \<Rightarrow> counts sid B n m w' | (Inr v, w') \<Rightarrow> counts sid B n' m' w'"
  proof (cases r)
    case Inl
    with run w save_session_cases [OF run] show ?thesis by (auto intro: counts_same read_session_counts)
  next
    case Inr
    with run w save_session_cases [OF run] assms show ?thesis by (auto simp: read_session_def counts_def)
  qed
qed

lemma triple_saves_same:
  assumes "same_counts s s'"
  shows "triple (read_session sid B n m s) (on_store (save_session s')) (\<lambda>_. counts sid B n m) (counts sid B n m)"
  unfolding triple_def
proof (intro allI impI)
  fix w assume w: "read_session sid B n m s w"
  have "s_session_id s = sid \<Longrightarrow> s_budget s' = B \<and> s_consumed_cycles s' = n \<and> s_rotations_count s' = m"
    using w assms by (auto simp: read_session_def counts_def same_counts_def)
  with assms have "triple (read_session sid B n m s) (on_store (save_session s')) (\<lambda>_. counts sid B n m) (counts sid B n m)"
    by (intro triple_saves_session) (simp_all add: same_counts_def)
  with w show "case on_store (save_session s') w of (Inl _, w') \<Rightarrow> counts sid B n m w' | (Inr v, w') \<Rightarrow> counts sid B n m w'"
    by (simp add: triple_def)
qed

section \<open>The application's primitives\<close>

lemma keeps_read_session:
  assumes "\<And>w. st_sessions (w_store (snd (q w))) = st_sessions (w_store w)"
  shows "keeps (read_session sid B n m s) q" "keeps (counts sid B n m) q"
  using assms by (auto simp: keeps_def intro: read_session_same counts_same)

lemma publish_sessions: "st_sessions (w_store (snd (publish e w))) = st_sessions (w_store w)"
  using publish_data [of e w] store_dataD(1) by (metis prod.collapse)

lemma on_store_sessions: "leaves st_sessions q \<Longrightarrow> st_sessions (w_store (snd (on_store q w))) = st_sessions (w_store w)"
  by (auto simp: leaves_def on_part_def split: prod.splits) (metis snd_conv)

lemma keeps_counts_basic [keeps_intros]:
  "keeps (counts sid B n m) (publish e)" "keeps (counts sid B n m) clock_now" "keeps (counts sid B n m) clock_monotonic_ms"
  "keeps (counts sid B n m) (new_id prefix)" "keeps (counts sid B n m) (upd_breaker f)"
  by (rule keeps_read_session(2), simp add: publish_sessions clock_now_def clock_monotonic_ms_def new_id_def modifying_def)+

lemma keeps_reads_basic [keeps_intros]:
  "keeps (read_session sid B n m s) clock_now" "keeps (read_session sid B n m s) (new_id prefix)"
  "keeps (read_session sid B n m s) (check_parent k p)"
  by (rule keeps_read_session(1), simp add: clock_now_def new_id_def check_parent_def require_conversation_def flow_simps split: option.splits)+

lemma keeps_counts_saves [keeps_intros]:
  "keeps (counts sid B n m) (on_store (save_task t))" "keeps (counts sid B n m) (on_store (save_plan p))"
  "keeps (counts sid B n m) (on_store (save_cycle cy))" "keeps (counts sid B n m) (on_store (save_message ms))"
  "keeps (counts sid B n m) (on_store (save_failure fl))" "keeps (counts sid B n m) (on_store (save_retry_decision rd))"
  "keeps (counts sid B n m) (on_store (save_context_summary cs))" "keeps (counts sid B n m) (on_store (save_blob b))"
  "keeps (counts sid B n m) (on_store (save_conversation cv))"
  by (rule keeps_read_session(2), simp add: on_store_sessions saves_leave_records)+

lemma counts_restore: "counts sid B n m w \<Longrightarrow> counts sid B n m (w'\<lparr>w_store := restore (w_store w) st\<rparr>)"
  by (erule counts_same) (simp add: restore_def)

lemma triple_kept: "keeps P q \<Longrightarrow> (\<And>s. P s \<Longrightarrow> E s) \<Longrightarrow> triple P q (\<lambda>_. P) E"
  using triple_weaken [of P q "\<lambda>_. P" P] by (simp add: triple_keeps)

text \<open>A method of the lifecycle manager on a session it has read.\<close>

lemma keeps_with_session:
  assumes "\<And>s. s_session_id s = k \<Longrightarrow> triple (read_session sid B n m s) (f s) (\<lambda>_. counts sid B n m) (counts sid B n m)"
  shows "keeps (counts sid B n m) (bnd (require_session k) f)"
  unfolding triple_keeps [symmetric] by (rule triple_bnd [OF triple_reads_session], rule triple_assume, rule assms)

lemmas read_steps = triple_check triple_checked_value triple_read triple_bnd [OF triple_kept] triple_andthen [OF triple_kept]
  triple_andthen [OF triple_saves_same]

lemma keeps_counts_update [keeps_intros]: "uncounted us \<Longrightarrow> keeps (counts sid B n m) (update_session k us)"
  unfolding update_session_def bnd_ret
  by (intro keeps_with_session read_steps triple_ret)
    (auto simp: same_counts_fields keeps_intros read_session_counts dest: apply_session_counts)

lemma keeps_counts_after: "keeps (counts sid B n m) (andthen (lifecycle_publish ty now k cid payload) (ret r))"
  unfolding lifecycle_publish_def by (intro keeps_intros)

lemma keeps_counts_transition [keeps_intros]: "uncounted us \<Longrightarrow> keeps (counts sid B n m) (transition_session k to reason us)"
  unfolding transition_session_def bnd_ret
  by (intro keeps_with_session read_steps triple_kept [OF keeps_counts_after])
    (auto simp: same_counts_fields keeps_intros read_session_counts uncounted_defaults dest: apply_session_counts)

lemma triple_both_saves:
  assumes "same_counts s s'"
  shows "triple (read_session sid B n m s) (on_store (transaction (andthen (save_conversation cv) (save_session s'))))
    (\<lambda>_. counts sid B n m) (counts sid B n m)"
  unfolding triple_def
proof (intro allI impI)
  fix w assume w: "read_session sid B n m s w"
  have saves: "triple (read_session sid B n m s) (andthen (on_store (save_conversation cv)) (on_store (save_session s'))) (\<lambda>_. counts sid B n m) (counts sid B n m)"
    by (intro triple_andthen [OF triple_kept] triple_saves_same assms keeps_read_session)
      (simp_all add: on_store_sessions saves_leave_records read_session_counts)
  obtain r st where run: "andthen (save_conversation cv) (save_session s') (w_store w) = (r, st)" by (metis surj_pair)
  then have "counts sid B n m (w\<lparr>w_store := st\<rparr>)"
    using triple_snd [OF saves w] by (subst (asm) on_store_andthen [symmetric]) (simp add: on_part_def)
  then show "case on_store (transaction (andthen (save_conversation cv) (save_session s'))) w of
      (Inl _, w') \<Rightarrow> counts sid B n m w' | (Inr v, w') \<Rightarrow> counts sid B n m w'"
    using run read_session_counts [OF w] counts_restore [OF read_session_counts [OF w]]
    by (auto simp: on_part_def transaction_def split: sum.splits)
qed

lemma keeps_counts_conversations [keeps_intros]:
  "keeps (counts sid B n m) (update_conversation cid cus)" "keeps (counts sid B n m) (transition_conversation cid cto reason cus)"
  "keeps (counts sid B n m) (transition_context_window cid x reason)"
  unfolding update_conversation_def transition_conversation_def commit_conversation_transition_def transition_context_window_def
    require_conversation_def lifecycle_publish_def
  by (intro keeps_intros)+

lemma keeps_counts_create [keeps_intros]: "keeps (counts sid B n m) (create_conversation k parent x)"
  unfolding create_conversation_def bnd_ret new_conversation_id_def
  by (intro keeps_with_session read_steps triple_andthen [OF triple_both_saves] triple_kept [OF keeps_counts_after])
    (auto simp: same_counts_fields keeps_intros read_session_counts)

interpretation counting: app_invariant "counts sid B n m" uncounted
  by unfold_locales (simp_all add: keeps_intros counts_restore, simp_all add: uncounted_def counter_def)

section \<open>Opening a cycle\<close>

text \<open>A transaction that fails puts the counters back.\<close>

lemma triple_transaction:
  assumes "triple (counts sid B n m) body Q (\<lambda>_. True)"
  shows "triple (counts sid B n m) (app_transaction body) Q (counts sid B n m)"
  unfolding triple_def
proof (intro allI impI)
  fix w assume w: "counts sid B n m w"
  obtain r w' where "body w = (r, w')" by (metis surj_pair)
  with w assms show "case app_transaction body w of (Inl _, w') \<Rightarrow> counts sid B n m w' | (Inr v, w') \<Rightarrow> Q v w'"
    by (auto simp: app_transaction_def triple_def counts_restore split: sum.splits)
qed

lemma triple_any: "triple P q Q E \<Longrightarrow> triple P q Q (\<lambda>_. True)"
  by (erule triple_weaken) simp_all

lemma triple_counts_update:
  assumes "\<And>s s'. s_session_id s = k \<Longrightarrow> apply_session us s = Inr s' \<Longrightarrow>
      s_session_id s' = k \<and> (k = sid \<longrightarrow> s_budget s = B \<longrightarrow> s_consumed_cycles s = n \<longrightarrow> s_rotations_count s = m \<longrightarrow>
        s_budget s' = B \<and> s_consumed_cycles s' = n' \<and> s_rotations_count s' = m')"
    and "k \<noteq> sid \<Longrightarrow> n' = n \<and> m' = m"
  shows "triple (counts sid B n m) (update_session k us) (\<lambda>_. counts sid B n' m') (counts sid B n m)"
proof -
  have save: "triple (\<lambda>w. read_session sid B n m s w) (bnd (lifting (apply_session us s)) (\<lambda>s'. andthen (on_store (save_session (s'\<lparr>s_updated_at := now\<rparr>))) (ret (s'\<lparr>s_updated_at := now\<rparr>))))
      (\<lambda>_. counts sid B n' m') (counts sid B n m)" if s: "s_session_id s = k" for s now
    unfolding triple_def
  proof (intro allI impI)
    fix w assume w: "read_session sid B n m s w"
    show "case bnd (lifting (apply_session us s)) (\<lambda>s'. andthen (on_store (save_session (s'\<lparr>s_updated_at := now\<rparr>))) (ret (s'\<lparr>s_updated_at := now\<rparr>))) w of
        (Inl _, w') \<Rightarrow> counts sid B n m w' | (Inr v, w') \<Rightarrow> counts sid B n' m' w'"
    proof (cases "apply_session us s")
      case (Inl e)
      then show ?thesis using w by (simp add: bnd_run lifting_def read_session_counts)
    next
      case (Inr s')
      have old: "k = sid \<Longrightarrow> s_budget s = B \<and> s_consumed_cycles s = n \<and> s_rotations_count s = m"
        using w s by (auto simp: read_session_def counts_def)
      have "triple (read_session sid B n m s) (andthen (on_store (save_session (s'\<lparr>s_updated_at := now\<rparr>))) (ret (s'\<lparr>s_updated_at := now\<rparr>)))
          (\<lambda>_. counts sid B n' m') (counts sid B n m)"
        by (intro triple_andthen [OF triple_saves_session] triple_ret) (use assms(1) [OF s Inr] assms(2) old s in auto)
      then show ?thesis using w Inr by (simp add: triple_def bnd_run lifting_def)
    qed
  qed
  show ?thesis
    unfolding update_session_def bnd_ret
    by (rule triple_bnd [OF triple_reads_session], rule triple_assume)
      (intro triple_check triple_bnd [OF triple_kept [OF keeps_reads_basic(1)]] save; simp add: read_session_counts)
qed

text \<open>The counters at most at their limits, for a configuration that allows \<open>R\<close> rotations.\<close>

definition in_budget :: "string \<Rightarrow> session_budget \<Rightarrow> int \<Rightarrow> app \<Rightarrow> bool" where
  "in_budget sid B R w \<longleftrightarrow> (\<exists>n m. counts sid B n m w \<and> n \<le> max_cycles B \<and> m \<le> R)"

definition calm :: "string \<Rightarrow> session_budget \<Rightarrow> int \<Rightarrow> orchestrator \<Rightarrow> bool" where
  "calm sid B R oc \<longleftrightarrow> (\<forall>n m. surroundings_keep (\<lambda>s. counts sid B n m (fst s)) oc) \<and> x_max_rotations_per_session (oc_context oc) = R"

lemma keeps_within_part:
  assumes "\<And>n m. keeps (\<lambda>s. counts sid B n m (f s)) q"
  shows "keeps (\<lambda>s. in_budget sid B R (f s)) q"
  using assms unfolding keeps_def in_budget_def by blast

lemma calm_keeps: "calm sid B R oc \<Longrightarrow> surroundings_keep (\<lambda>s. counts sid B n m (fst s)) oc"
  by (simp add: calm_def)

lemma calm_within: "calm sid B R oc \<Longrightarrow> surroundings_keep (\<lambda>s. in_budget sid B R (fst s)) oc"
  unfolding calm_def surroundings_keep_def transport_keeps_def by (simp add: keeps_within_part)

text \<open>A step of the loop keeps the counters, so it keeps them in budget.\<close>

abbreviation CL :: "string \<Rightarrow> session_budget \<Rightarrow> int \<Rightarrow> int \<Rightarrow> loop_state \<Rightarrow> bool" where
  "CL sid B n m \<equiv> \<lambda>s. counts sid B n m (fst (fst s))"

lemma triple_in_app: "triple P q Q E \<Longrightarrow> triple (\<lambda>s. P (fst (fst s))) (in_loop_app q) (\<lambda>v s. Q v (fst (fst s))) (\<lambda>s. E (fst (fst s)))"
  unfolding triple_def raising_def on_part_def by (fastforce split: prod.splits sum.splits)

lemma triple_h_app: "triple P q Q E \<Longrightarrow> triple (\<lambda>s. P (fst s)) (h_app q) (\<lambda>v s. Q v (fst s)) (\<lambda>s. E (fst s))"
  unfolding triple_def on_part_def by (fastforce split: prod.splits sum.splits)

lemma triple_last: "keeps P q \<Longrightarrow> (\<And>v s. P s \<Longrightarrow> Q v s) \<Longrightarrow> (\<And>s. P s \<Longrightarrow> E s) \<Longrightarrow> triple P q Q E"
  using triple_weaken [of P q "\<lambda>_. P" P P Q E] by (simp add: triple_keeps)

lemma triple_app_step:
  assumes "triple P q R E'" and "\<And>s. E' (fst s) \<Longrightarrow> E s" and "\<And>v. triple (\<lambda>s. R v (fst s)) (f v) Q E"
  shows "triple (\<lambda>s. P (fst s)) (bnd (h_app q) f) Q E"
  by (rule triple_bnd [OF triple_weaken [OF triple_h_app [OF assms(1)]]]) (use assms(2,3) in blast)+

lemma triple_step: "keeps P q \<Longrightarrow> (\<And>s. P s \<Longrightarrow> E s) \<Longrightarrow> (\<And>v. triple P (f v) Q E) \<Longrightarrow> triple P (bnd q f) Q E"
  by (rule triple_bnd [OF triple_kept])

lemma triple_then: "keeps P q \<Longrightarrow> (\<And>s. P s \<Longrightarrow> E s) \<Longrightarrow> triple P q' Q E \<Longrightarrow> triple P (andthen q q') Q E"
  unfolding andthen_def by (rule triple_step)

lemma opens_cycle:
  assumes "n < max_cycles B" and "m \<le> R" and "s_budget ss = B" and "s_consumed_cycles ss = n"
  shows "triple (CL sid B n m) (run_open_cycle sid message ss ty) (\<lambda>_. CL sid B (n + 1) m) (\<lambda>s. in_budget sid B R (fst (fst s)))"
proof -
  have still: "counts sid B n m w \<Longrightarrow> in_budget sid B R w" "counts sid B (n + 1) m w \<Longrightarrow> in_budget sid B R w" for w
    using assms(1,2) unfolding in_budget_def by (auto intro!: exI)
  have body: "triple (counts sid B n m) (bnd (update_session sid [Set_consumed_cycles (s_consumed_cycles ss + 1)]) (\<lambda>updated.
        andthen (on_store (save_cycle cycle)) (andthen (on_store (save_message copy))
          (bnd (update_conversation cid us) (\<lambda>c. ret (updated, c))))))
      (\<lambda>_. counts sid B (n + 1) m) (\<lambda>_. True)" for cycle copy cid us
  proof (rule triple_bnd [OF triple_any [OF triple_counts_update]])
    show "triple (counts sid B (n + 1) m) (andthen (on_store (save_cycle cycle)) (andthen (on_store (save_message copy))
          (bnd (update_conversation cid us) (\<lambda>c. ret (updated, c))))) (\<lambda>_. counts sid B (n + 1) m) (\<lambda>_. True)" for updated
      by (rule triple_kept) (intro keeps_intros, simp)
  qed (use assms(4) in \<open>auto simp: apply_session_def\<close>)
  have rest: "keeps (CL sid B (n + 1) m) (andthen (sr_set f) (andthen (conv_publish ty' k now cycle plan task payload) (publish_budget k updated)))"
    if "ordinary ty'" for f ty' k now cycle plan task payload updated using that by (intro keeps_intros)
  have guard: "\<not> max_cycles (s_budget ss) \<le> s_consumed_cycles ss" using assms by simp
  show ?thesis
    unfolding run_open_cycle_def bnd_ret if_not_P [OF guard]
    by ((rule triple_step, intro keeps_intros, erule still)+,
        rule triple_bnd [OF triple_weaken [OF triple_in_app [OF triple_transaction [OF body]]]], assumption, assumption, erule still,
        clarsimp, rule triple_kept [OF rest], intro keeps_intros, erule still)
qed

text \<open>The session a step has just read.\<close>

lemma triple_run_session_record:
  "triple (CL sid B n m) (run_session_record sid) (\<lambda>ss s. CL sid B n m s \<and> (s_session_id ss = sid \<and> s_budget ss = B \<and> s_consumed_cycles ss = n \<and> s_rotations_count ss = m)) (CL sid B n m)"
  by (auto simp: triple_def run_session_record_def bnd_run reading_def ret_def throw_def counts_def split: option.splits)

lemma triple_with_run_session:
  assumes "\<And>s. CL sid B n m s \<Longrightarrow> E s"
    and "\<And>ss. s_session_id ss = sid \<Longrightarrow> s_budget ss = B \<Longrightarrow> s_consumed_cycles ss = n \<Longrightarrow> s_rotations_count ss = m \<Longrightarrow> triple (CL sid B n m) (f ss) Q E"
  shows "triple (CL sid B n m) (bnd (run_session_record sid) f) Q E"
  by (rule triple_bnd [OF triple_weaken [OF triple_run_session_record]], assumption, assumption, erule assms(1), rule triple_assume)
    (use assms(2) in blast)

text \<open>A predicate on the counters as a precondition, case by case.\<close>

lemma keeps_in_budget:
  assumes "\<And>n m. n \<le> max_cycles B \<Longrightarrow> m \<le> R \<Longrightarrow> triple (\<lambda>s. counts sid B n m (f s)) q (\<lambda>_ s. in_budget sid B R (f s)) (\<lambda>s. in_budget sid B R (f s))"
  shows "keeps (\<lambda>s. in_budget sid B R (f s)) q"
  unfolding keeps_def
proof (intro allI impI)
  fix s assume "in_budget sid B R (f s)"
  then obtain n m where "counts sid B n m (f s)" "n \<le> max_cycles B" "m \<le> R" by (auto simp: in_budget_def)
  with assms [of n m] show "in_budget sid B R (f (snd (q s)))"
    by (cases "q s") (auto simp: triple_def split: sum.splits)
qed

lemma in_budget_I: "counts sid B n m w \<Longrightarrow> n \<le> max_cycles B \<Longrightarrow> m \<le> R \<Longrightarrow> in_budget sid B R w"
  by (auto simp: in_budget_def)

lemma run_open_cycle_guard:
  assumes "max_cycles (s_budget ss) \<le> s_consumed_cycles ss"
  shows "run_open_cycle sid message ss ty = throw (budget_stop ''max_cycles'' (max_cycles (s_budget ss)) (s_consumed_cycles ss) STAGE_BEFORE_CYCLE None)"
  using assms by (simp add: run_open_cycle_def)

lemma opens_cycle_in_budget:
  assumes "n \<le> max_cycles B" and "m \<le> R" and "s_budget ss = B" and "s_consumed_cycles ss = n"
  shows "triple (CL sid B n m) (run_open_cycle sid message ss ty) (\<lambda>_ s. in_budget sid B R (fst (fst s))) (\<lambda>s. in_budget sid B R (fst (fst s)))"
proof (cases "n < max_cycles B")
  case True
  then show ?thesis
    by (intro triple_weaken [OF opens_cycle [OF True assms(2-4)]]) (use assms(2) in \<open>auto intro: in_budget_I\<close>)
next
  case False
  with assms have "max_cycles (s_budget ss) \<le> s_consumed_cycles ss" by simp
  with assms show ?thesis by (simp add: run_open_cycle_guard) (rule triple_throw, erule in_budget_I, simp_all)
qed

section \<open>A rotation\<close>

abbreviation CH :: "string \<Rightarrow> session_budget \<Rightarrow> int \<Rightarrow> int \<Rightarrow> app \<times> handler \<Rightarrow> bool" where
  "CH sid B n m \<equiv> \<lambda>s. counts sid B n m (fst s)"

lemma triple_start_rotation:
  assumes "s_budget ss = B" and "s_consumed_cycles ss = n" and "s_rotations_count ss = m" and "x_max_rotations_per_session (rc_context rc) = R"
  shows "triple (counts sid B n m) (start_rotation rc ss source ty) (\<lambda>_ w. counts sid B n m w \<and> (n < max_cycles B \<and> m < R)) (counts sid B n m)"
proof (cases "n < max_cycles B \<and> m < R")
  case True
  then show ?thesis using triple_kept [OF counting.kept_start_rotation] by fastforce
next
  case False
  have "triple (counts sid B n m) (check_guards rc ss source) (\<lambda>_ _. False) (counts sid B n m)"
    using False assms by (auto simp: check_guards_def Let_def intro!: triple_then triple_throw keeps_intros)
  then show ?thesis unfolding start_rotation_def by (rule triple_andthen) (simp add: triple_def)
qed

lemma triple_require_own:
  "triple (counts sid B n m) (require_session k)
     (\<lambda>s w. counts sid B n m w \<and> (s_session_id s = k \<and> (k = sid \<longrightarrow> s_budget s = B \<and> s_consumed_cycles s = n \<and> s_rotations_count s = m)))
     (counts sid B n m)"
  by (auto simp: triple_def require_session_def flow_simps counts_def split: option.splits)

definition resumed_counts :: "string \<Rightarrow> string \<Rightarrow> session_budget \<Rightarrow> int \<Rightarrow> int \<Rightarrow> app \<Rightarrow> bool" where
  "resumed_counts k sid B n m = (if k = sid then counts sid B (n + 1) (m + 1) else counts sid B n m)"

lemma keeps_resumed: "(\<And>n m. keeps (counts sid B n m) q) \<Longrightarrow> keeps (resumed_counts k sid B n m) q"
  by (simp add: resumed_counts_def)

lemma triple_resume_body:
  "triple (counts sid B n m)
     (bnd (require_session k) (\<lambda>current.
      bnd (update_session k [Set_rotations_count (s_rotations_count current + 1), Set_consumed_cycles (s_consumed_cycles current + 1)]) (\<lambda>session.
      andthen (on_store (save_cycle cycle))
     (andthen (on_store (save_message copy))
     (bnd (update_conversation cid us) (\<lambda>child. ret (session, child)))))))
     (\<lambda>_. resumed_counts k sid B n m) (\<lambda>_. True)"
proof (rule triple_bnd [OF triple_any [OF triple_require_own]], rule triple_assume)
  fix current assume current: "s_session_id current = k
    \<and> (k = sid \<longrightarrow> s_budget current = B \<and> s_consumed_cycles current = n \<and> s_rotations_count current = m)"
  let ?us = "[Set_rotations_count (s_rotations_count current + 1), Set_consumed_cycles (s_consumed_cycles current + 1)]"
  have "triple (counts sid B n m) (update_session k ?us) (\<lambda>_. counts sid B (if k = sid then n + 1 else n) (if k = sid then m + 1 else m)) (counts sid B n m)"
    by (rule triple_counts_update) (use current in \<open>auto simp: apply_session_def\<close>)
  then have "triple (counts sid B n m) (update_session k ?us) (\<lambda>_. resumed_counts k sid B n m) (\<lambda>_. True)"
    by (rule triple_weaken) (simp_all add: resumed_counts_def split: if_splits)
  then show "triple (counts sid B n m) (bnd (update_session k ?us) (\<lambda>session.
      andthen (on_store (save_cycle cycle)) (andthen (on_store (save_message copy)) (bnd (update_conversation cid us) (\<lambda>child. ret (session, child))))))
     (\<lambda>_. resumed_counts k sid B n m) (\<lambda>_. True)"
    by (rule triple_bnd, intro triple_kept keeps_resumed keeps_intros)
qed

lemma triple_open_resume_cycle:
  "triple (counts sid B n m) (open_resume_cycle child request) (\<lambda>_. resumed_counts (c_session_id child) sid B n m)
     (\<lambda>w. counts sid B n m w \<or> resumed_counts (c_session_id child) sid B n m w)"
proof -
  have rest: "keeps (resumed_counts k sid B n m) (andthen (rotation_publish ty k cid cycle payload) (ret r))" if "ordinary ty" for k ty cid cycle payload r
    using that by (intro keeps_resumed keeps_intros)
  show ?thesis
    unfolding open_resume_cycle_def bnd_ret
    by (rule triple_step, intro keeps_intros, simp, rule triple_step, intro keeps_intros, simp,
        rule triple_bnd [OF triple_weaken [OF triple_transaction [OF triple_resume_body]]],
        assumption, assumption, simp, clarsimp, rule triple_kept [OF rest], intro keeps_intros, simp)
qed

text \<open>The child of a rotation is a conversation of the session that rotates.\<close>

definition owned :: "string \<Rightarrow> string \<Rightarrow> app \<Rightarrow> bool" where
  "owned cid k w \<longleftrightarrow> (\<exists>c. get_conversation (w_store w) cid = Some c \<and> c_conversation_id c = cid \<and> c_session_id c = k)"

abbreviation "anyhow \<equiv> \<lambda>_ :: app. True"

lemma keeps_owned:
  assumes "\<And>w. st_conversations (w_store (snd (q w))) = st_conversations (w_store w)"
  shows "keeps (owned cid k) q"
  using assms by (auto simp: keeps_def owned_def get_conversation_def)

lemma keeps_owned_basic [keeps_intros]:
  "keeps (owned cid k) (publish e)" "keeps (owned cid k) clock_now" "keeps (owned cid k) (new_id prefix)"
  "keeps (owned cid k) (on_store (save_context_summary cs))"
proof -
  show "keeps (owned cid k) (publish e)" using publish_data [of e] store_dataD(2) by (intro keeps_owned) (metis prod.collapse)
  have "leaves st_conversations (save_context_summary cs)" by (simp add: saves_leave_records)
  then show "keeps (owned cid k) (on_store (save_context_summary cs))"
    by (intro keeps_owned) (auto simp: leaves_def on_part_def split: prod.splits, metis snd_conv)
qed (auto intro!: keeps_owned simp: clock_now_def new_id_def)

lemma triple_saves_owned:
  assumes "c_conversation_id c = cid" and "c_session_id c = k"
  shows "triple anyhow (on_store (save_conversation c)) (\<lambda>_. owned cid k) anyhow"
  using assms by (auto simp: triple_def on_part_def owned_def conversations.accepted split: prod.splits sum.splits)

lemma triple_reads_owned: "triple (owned cid k) (require_conversation cid) (\<lambda>c w. True \<and> (c_conversation_id c = cid \<and> c_session_id c = k)) anyhow"
  by (auto simp: triple_def require_conversation_def flow_simps owned_def split: option.splits)

lemma triple_ret_owned: "triple (owned cid k) (ret c) (\<lambda>c' w. owned cid k w \<and> c' = c) anyhow"
  by (simp add: triple_def ret_def)

lemmas owned_steps = triple_check triple_checked_value triple_andthen [OF triple_saves_owned] triple_bnd [OF triple_kept]

lemma triple_owned_update:
  "triple (owned cid k) (update_conversation cid us) (\<lambda>c w. owned cid k w \<and> (c_conversation_id c = cid \<and> c_session_id c = k)) anyhow"
  unfolding update_conversation_def bnd_ret
  by (rule triple_bnd [OF triple_reads_owned], rule triple_assume, intro owned_steps)
    (auto dest!: apply_conversation_same simp: keeps_def intro: triple_weaken [OF triple_ret_owned])

lemma triple_owned_after:
  "triple (owned cid k) (andthen (lifecycle_publish ty now sid' cid' payload) (ret c)) (\<lambda>c' w. owned cid k w \<and> c' = c) anyhow"
  unfolding lifecycle_publish_def by (rule triple_then, intro keeps_intros, simp, rule triple_ret_owned)

lemma triple_owned_transition:
  "triple (owned cid k) (transition_conversation cid to why us) (\<lambda>c w. owned cid k w \<and> (c_conversation_id c = cid \<and> c_session_id c = k)) anyhow"
  unfolding transition_conversation_def commit_conversation_transition_def bnd_ret
  by (rule triple_bnd [OF triple_reads_owned], rule triple_assume, intro owned_steps)
    (auto dest!: apply_conversation_same simp: keeps_def intro: triple_weaken [OF triple_owned_after])

lemma triple_owned_create:
  "triple anyhow (create_conversation k parent x) (\<lambda>c w. owned (c_conversation_id c) k w \<and> c_session_id c = k) anyhow"
proof -
  have both: "triple anyhow (on_store (transaction (andthen (save_conversation c) (save_session s)))) (\<lambda>_. owned (c_conversation_id c) k) anyhow"
    if "c_session_id c = k" for c s
  proof -
    have "owned (c_conversation_id c) k (w\<lparr>w_store := st\<rparr>)" if run: "transaction (andthen (save_conversation c) (save_session s)) (w_store w) = (Inr v, st)" for w v st
    proof -
      obtain u st1 where "save_conversation c (w_store w) = (Inr u, st1)" "save_session s st1 = (Inr v, st)"
        using run by (auto simp: transaction_def andthen_run split: prod.splits sum.splits if_splits)
      then show ?thesis using \<open>c_session_id c = k\<close>
        by (auto simp: owned_def get_conversation_def save_conversation_def save_session_def write_record_Inr)
    qed
    then show ?thesis by (auto simp: triple_def on_part_def split: prod.splits sum.splits)
  qed
  show ?thesis
    unfolding create_conversation_def bnd_ret new_conversation_id_def
    by (auto intro!: triple_step triple_then triple_andthen [OF both] triple_weaken [OF triple_owned_after] simp: keeps_def)
qed

lemma triple_child_owned: "triple anyhow (create_child rc sid source draft remote) (\<lambda>(child, _) _. c_session_id child = sid) anyhow"
proof -
  have tail: "triple (owned cid sid) (bnd (transition_conversation cid to why us) (\<lambda>child. ret (child, summary)))
      (\<lambda>(child, _) _. c_session_id child = sid) anyhow" for cid to why us and summary :: context_summary_record
    by (rule triple_bnd [OF triple_owned_transition], rule triple_assume) (auto intro: triple_ret)
  have updated: "triple (owned cid sid) (bnd (update_conversation cid us) (\<lambda>child. bnd (transition_conversation (c_conversation_id child) to why []) (\<lambda>child. ret (child, summary))))
      (\<lambda>(child, _) _. c_session_id child = sid) anyhow" for cid us to why and summary :: context_summary_record
    by (rule triple_bnd [OF triple_owned_update], rule triple_assume) (use tail in simp)
  show ?thesis
    unfolding create_child_def persist_def new_summary_id_def
    by (rule triple_bnd [OF triple_owned_create], rule triple_assume, rule triple_step, intro keeps_intros, simp, rule updated)
qed

lemma triple_both: "triple P q Q E \<Longrightarrow> triple P' q Q' E' \<Longrightarrow> triple (\<lambda>s. P s \<and> P' s) q (\<lambda>v s. Q v s \<and> Q' v s) (\<lambda>s. E s \<and> E' s)"
  unfolding triple_def
proof (intro allI impI)
  fix s assume "\<forall>s. P s \<longrightarrow> (case q s of (Inl _, s') \<Rightarrow> E s' | (Inr v, s') \<Rightarrow> Q v s')"
    and "\<forall>s. P' s \<longrightarrow> (case q s of (Inl _, s') \<Rightarrow> E' s' | (Inr v, s') \<Rightarrow> Q' v s')" and "P s \<and> P' s"
  then show "case q s of (Inl _, s') \<Rightarrow> E s' \<and> E' s' | (Inr v, s') \<Rightarrow> Q v s' \<and> Q' v s'"
    by (cases "q s"; cases "fst (q s)") fastforce+
qed

lemma triple_pair: "(\<And>a b. v = (a, b) \<Longrightarrow> triple P (f a b) Q E) \<Longrightarrow> triple P (case v of (a, b) \<Rightarrow> f a b) Q E"
  by (cases v) simp

lemma triple_create_child:
  "triple (counts sid B n m) (create_child rc k source draft remote) (\<lambda>v w. counts sid B n m w \<and> c_session_id (fst v) = k) (counts sid B n m)"
  by (rule triple_weaken [OF triple_both [OF triple_kept [OF counting.kept_create_child] triple_child_owned]]) auto

lemma triple_request_resume:
  assumes "c_session_id child = sid"
  shows "triple (counts sid B n m) (request_resume rc session remote summary ty child) (\<lambda>_. counts sid B (n + 1) (m + 1))
    (\<lambda>w. counts sid B n m w \<or> counts sid B (n + 1) (m + 1) w)"
proof -
  have opened: "triple (counts sid B n m) (open_resume_cycle child request) (\<lambda>_. counts sid B (n + 1) (m + 1))
      (\<lambda>w. counts sid B n m w \<or> counts sid B (n + 1) (m + 1) w)" for request
    using triple_open_resume_cycle [of sid B n m child request] assms by (simp add: resumed_counts_def)
  show ?thesis
    unfolding request_resume_def bnd_ret
    by (rule triple_step, intro keeps_intros, simp, rule triple_bnd [OF opened], clarsimp, rule triple_kept, intro keeps_intros, simp)
qed

lemma triple_rotate:
  assumes "calm sid B R oc" and "n \<le> max_cycles B" and "m \<le> R"
  shows "triple (CH sid B n m) (rotate (oc_coordinator oc) sid cid pending)
    (\<lambda>_ s. CH sid B (n + 1) (m + 1) s \<and> (n < max_cycles B \<and> m < R)) (\<lambda>s. in_budget sid B R (fst s))"
proof -
  have still: "counts sid B n m w \<Longrightarrow> in_budget sid B R w" for w using assms(2,3) by (rule in_budget_I [rotated])
  have calm: "surroundings_keep (\<lambda>s. counts sid B n m (fst s)) oc" for n m using assms(1) by (simp add: calm_def)
  have limit: "x_max_rotations_per_session (rc_context (oc_coordinator oc)) = R" using assms(1) by (simp add: calm_def)
  have either: "counts sid B n m w \<or> counts sid B (n + 1) (m + 1) w \<Longrightarrow> n < max_cycles B \<Longrightarrow> m < R \<Longrightarrow> in_budget sid B R w" for w
    using still by (auto intro: in_budget_I)
  show ?thesis
    unfolding rotate_def bnd_ret
    apply (rule triple_app_step [OF triple_require_own], erule still, rule triple_assume)
    apply (rule triple_step, intro keeps_intros, erule still)
    apply (rule triple_app_step [OF triple_start_rotation [where B = B and n = n and m = m]], simp, simp, simp, rule limit, erule still, rule triple_assume, rule triple_pair)
    apply (rule triple_step, intro keeps_intros calm, erule still)
    apply (rule triple_app_step [OF triple_create_child], erule still, rule triple_assume, rule triple_pair)
    apply (rule triple_app_step [OF triple_request_resume], simp, erule either, simp, simp, rule triple_pair, rule triple_pair, rule triple_pair)
    apply (rule triple_last, intro keeps_intros calm, simp, rule either, rule disjI2, simp, simp, simp)
    done
qed

lemma triple_in_handler: "triple P q Q E \<Longrightarrow> triple (\<lambda>s. P (fst s)) (in_handler q) (\<lambda>v s. Q v (fst s)) (\<lambda>s. E (fst s))"
  unfolding triple_def raising_def on_part_def by (fastforce split: prod.splits sum.splits)

text \<open>An attempt: its exception is a result.\<close>

lemma triple_attempt:
  assumes "triple P q R E'" and "\<And>e. triple E' (f (Inl e)) Q E" and "\<And>v. triple (R v) (f (Inr v)) Q E"
  shows "triple P (bnd (attempting q) f) Q E"
  unfolding triple_def
proof (intro allI impI)
  fix s assume s: "P s"
  obtain r s' where run: "q s = (r, s')" by (metis surj_pair)
  show "case bnd (attempting q) f s of (Inl _, s') \<Rightarrow> E s' | (Inr v, s') \<Rightarrow> Q v s'"
  proof (cases r)
    case (Inl e)
    then have "E' s'" using assms(1) s run by (auto simp: triple_def)
    then show ?thesis using assms(2) [unfolded triple_def, rule_format, of s' e] run Inl by (simp add: bnd_run attempting_def)
  next
    case (Inr v)
    then have "R v s'" using assms(1) s run by (auto simp: triple_def)
    then show ?thesis using assms(3) [unfolded triple_def, rule_format, of v s'] run Inr by (simp add: bnd_run attempting_def)
  qed
qed

text \<open>What an exception is turned into keeps the counters in budget, and does not return.\<close>

definition fails :: "(loop_state \<Rightarrow> bool) \<Rightarrow> 'a loop_act \<Rightarrow> bool" where
  "fails E q \<longleftrightarrow> triple E q (\<lambda>_ _. False) E"

lemma failsD: "fails E q \<Longrightarrow> triple E q Q E"
  unfolding fails_def by (erule triple_weaken) simp_all

named_theorems fails_intros

lemma fails_shapes [fails_intros]:
  "fails E (throw x)" "keeps E a \<Longrightarrow> fails E b \<Longrightarrow> fails E (andthen a b)" "fails E c \<Longrightarrow> fails E d \<Longrightarrow> fails E (if x' then c else d)"
  "keeps E a \<Longrightarrow> (\<And>v. fails E (f v)) \<Longrightarrow> fails E (bnd a f)"
  unfolding fails_def by (simp_all add: triple_throw triple_then triple_step)

lemma fails_stop [fails_intros]:
  "fails E a \<Longrightarrow> (\<And>e. fails E (b e)) \<Longrightarrow> (\<And>e x y. fails E (c e x y)) \<Longrightarrow> (\<And>e x y z u. fails E (d e x y z u))
   \<Longrightarrow> (\<And>e. fails E (f e)) \<Longrightarrow> fails E g \<Longrightarrow> fails E g'
   \<Longrightarrow> fails E (case stop of Interrupted_stop \<Rightarrow> a | Rotate_requested e \<Rightarrow> b e | Paused_stop e x y \<Rightarrow> c e x y
        | Failed_stop e x y z u \<Rightarrow> d e x y z u | Raised e \<Rightarrow> f e | Going_on \<Rightarrow> g | Hanging \<Rightarrow> g')"
  by (cases stop) simp_all

lemma fails_exn [fails_intros]:
  "(\<And>n. fails E (a n)) \<Longrightarrow> (\<And>x y. fails E (b x y)) \<Longrightarrow> (\<And>x y. fails E (c x y)) \<Longrightarrow> (\<And>x y. fails E (d x y))
   \<Longrightarrow> fails E (case e of App_Error n \<Rightarrow> a n | Timeout_Exn x y \<Rightarrow> b x y | Network_Exn x y \<Rightarrow> c x y | Other_Exn x y \<Rightarrow> d x y)"
  by (cases e) simp_all

abbreviation BL :: "string \<Rightarrow> session_budget \<Rightarrow> int \<Rightarrow> loop_state \<Rightarrow> bool" where
  "BL sid B R \<equiv> \<lambda>s. in_budget sid B R (fst (fst s))"

lemma keeps_BL: "(\<And>n m. keeps (CL sid B n m) q) \<Longrightarrow> keeps (BL sid B R) q"
  by (rule keeps_within_part)

lemma triple_run_rotate:
  assumes "calm sid B R oc" and "n \<le> max_cycles B" and "m \<le> R"
  shows "triple (CL sid B n m) (run_rotate oc sid) (\<lambda>_ s. CL sid B (n + 1) (m + 1) s \<and> (n < max_cycles B \<and> m < R)) (BL sid B R)"
proof -
  have still: "counts sid B n m w \<Longrightarrow> in_budget sid B R w" for w using assms(2,3) by (rule in_budget_I [rotated])
  have grown: "counts sid B (n + 1) (m + 1) w \<Longrightarrow> n < max_cycles B \<Longrightarrow> m < R \<Longrightarrow> in_budget sid B R w" for w
    by (auto intro: in_budget_I)
  show ?thesis
    unfolding run_rotate_def
    apply (rule triple_step, intro keeps_intros, erule still)
    apply (rule triple_step, intro keeps_intros, erule still)
    apply (rule triple_step, intro keeps_intros, erule still)
    apply (rule triple_step, intro keeps_intros, erule still)
    apply (rule triple_with_run_session, erule still)
    apply (rule triple_step, intro keeps_intros, erule still)
    apply (simp only:)
    apply (rule triple_attempt [OF triple_in_handler [OF triple_rotate [OF assms]]])
     apply (simp only: sum.case, rule failsD, intro fails_intros keeps_intros keeps_BL)
    apply (simp only: sum.case, rule triple_assume, rule triple_last, intro keeps_intros, simp, erule grown, simp, simp)
    done
qed

section \<open>Sending\<close>

text \<open>At least the given counts, still in budget.\<close>

definition further :: "string \<Rightarrow> session_budget \<Rightarrow> int \<Rightarrow> int \<Rightarrow> int \<Rightarrow> app \<Rightarrow> bool" where
  "further sid B R n m w \<longleftrightarrow> (\<exists>n' m'. counts sid B n' m' w \<and> n \<le> n' \<and> n' \<le> max_cycles B \<and> m \<le> m' \<and> m' \<le> R)"

lemma further_I: "counts sid B n' m' w \<Longrightarrow> n \<le> n' \<Longrightarrow> n' \<le> max_cycles B \<Longrightarrow> m \<le> m' \<Longrightarrow> m' \<le> R \<Longrightarrow> further sid B R n m w"
  by (auto simp: further_def)

lemma further_in_budget: "further sid B R n m w \<Longrightarrow> in_budget sid B R w"
  by (auto simp: further_def in_budget_def)

lemma keeps_further:
  assumes "\<And>n m. keeps (\<lambda>s. counts sid B n m (f s)) q"
  shows "keeps (\<lambda>s. further sid B R n m (f s)) q"
  using assms unfolding keeps_def further_def by blast

lemma triple_dispatch_pending:
  assumes "calm sid B R oc" and "n \<le> max_cycles B" and "m \<le> R"
  shows "triple (CL sid B n m) (dispatch_pending li oc sid pending message) (\<lambda>_ s. further sid B R n m (fst (fst s))) (BL sid B R)"
proof -
  have still: "counts sid B n m w \<Longrightarrow> in_budget sid B R w" for w using assms(2,3) by (rule in_budget_I [rotated])
  have calm: "surroundings_keep (\<lambda>s. counts sid B n m (fst s)) oc" using assms(1) by (simp add: calm_def)
  have rotates: "triple (CL sid B n m) (run_rotate oc sid) (\<lambda>_ s. further sid B R n m (fst (fst s))) (BL sid B R)"
    by (rule triple_weaken [OF triple_run_rotate [OF assms]]) (auto intro: further_I)
  have posts: "triple (CL sid B n m) (bnd (run_transition sid to why []) (\<lambda>_. bnd require_last_outbound (\<lambda>record. run_post li oc sid message record True)))
      (\<lambda>_ s. further sid B R n m (fst (fst s))) (BL sid B R)" for to why
    by (rule triple_last, intro keeps_intros calm) (use assms(2,3) still in \<open>auto intro: further_I\<close>)
  show ?thesis
    unfolding dispatch_pending_def
    by (rule triple_step, intro keeps_intros, erule still, rule triple_step, intro keeps_intros, erule still,
        rule triple_then, intro keeps_intros, erule still)
      (use rotates posts in \<open>auto intro: triple_throw still\<close>)
qed

lemma triple_send_pending:
  assumes "calm sid B R oc" and "n \<le> max_cycles B" and "m \<le> R"
  shows "triple (CL sid B n m) (send_pending li oc sid) (\<lambda>_ s. further sid B R (n + 1) m (fst (fst s))) (BL sid B R)"
proof -
  have still: "counts sid B n m w \<Longrightarrow> in_budget sid B R w" for w using assms(2,3) by (rule in_budget_I [rotated])
  have opens: "triple (CL sid B n m) (andthen (run_open_cycle sid message ss ty) (dispatch_pending li oc sid pending message))
      (\<lambda>_ s. further sid B R (n + 1) m (fst (fst s))) (BL sid B R)"
    if "s_budget ss = B" "s_consumed_cycles ss = n" for ss message ty pending
  proof (cases "n < max_cycles B")
    case True
    then show ?thesis
      by (intro triple_andthen [OF opens_cycle [OF True assms(3) that]] triple_dispatch_pending assms) simp
  next
    case False
    with that assms(2) have "max_cycles (s_budget ss) \<le> s_consumed_cycles ss" by simp
    then show ?thesis
      by (intro triple_andthen [where R = "\<lambda>_. False"]) (auto simp: run_open_cycle_guard triple_def throw_def still)
  qed
  have fits: "keeps (CL sid B n m) (fit_pending oc c mid pending)" for c mid pending
    unfolding fit_pending_def by (intro keeps_intros)
  show ?thesis
    unfolding send_pending_def
    by (rule triple_step, intro keeps_intros, erule still, rule triple_then, intro keeps_intros, erule still,
        rule triple_with_run_session, erule still, rule triple_step, intro keeps_intros, erule still,
        rule triple_step, intro keeps_intros, erule still, rule triple_step, rule fits, erule still,
        rule triple_step, intro keeps_intros, erule still, rule opens)
qed

section \<open>The whole run\<close>

lemma keeps_budget_part: "(\<And>n m. keeps (counts sid B n m) q) \<Longrightarrow> keeps (in_budget sid B R) q"
  using keeps_within_part [of sid B id q R] by simp

interpretation budgeted: app_invariant "in_budget sid B R" uncounted
proof unfold_locales
  show "in_budget sid B R w \<Longrightarrow> in_budget sid B R w' \<Longrightarrow> onwards w w' \<Longrightarrow> in_budget sid B R (w'\<lparr>w_store := restore (w_store w) (w_store w')\<rparr>)" for w w'
    by (auto simp: in_budget_def intro: counts_restore)
qed ((rule keeps_budget_part, (intro keeps_intros; assumption)) | simp add: uncounted_def counter_def)+

lemma keeps_BL_triple:
  assumes "\<And>n m. n \<le> max_cycles B \<Longrightarrow> m \<le> R \<Longrightarrow> triple (CL sid B n m) q (\<lambda>_. BL sid B R) (BL sid B R)"
  shows "keeps (BL sid B R) q"
  by (rule keeps_in_budget, rule assms)

interpretation budgeted_run: run_invariant "in_budget sid B R" uncounted sid "calm sid B R"
proof unfold_locales
  show "calm sid B R oc \<Longrightarrow> surroundings_keep (\<lambda>s. in_budget sid B R (fst s)) oc" for oc by (rule calm_within)
  show "keeps (BL sid B R) (run_rotate oc sid)" if "calm sid B R oc" for oc
    by (rule keeps_BL_triple, rule triple_weaken [OF triple_run_rotate [OF that]]) (auto intro: in_budget_I)
  show "keeps (BL sid B R) (send_pending li oc sid)" if "calm sid B R oc" for li oc
    by (rule keeps_BL_triple, rule triple_weaken [OF triple_send_pending [OF that]]) (auto intro: further_in_budget)
qed

text \<open>
  C9. The budget of a session bounds a run, whatever the model answers: from a session within its budget of cycles and the
  limit of rotations, a run, with the rotations it makes and however it ends, leaves it with the same budget and
  within both, as long as what other tasks do meanwhile leaves the counters of the session alone.
\<close>

theorem run_stays_in_budget:
  assumes "get_session (w_store w) sid = Some s" and "\<forall>k t. get_session (w_store w) k = Some t \<longrightarrow> s_session_id t = k"
    and "s_consumed_cycles s \<le> max_cycles (s_budget s)" and "s_rotations_count s \<le> x_max_rotations_per_session (oc_context oc)"
    and "calm sid (s_budget s) (x_max_rotations_per_session (oc_context oc)) oc"
  shows "\<exists>s'. get_session (w_store (fst (snd (run_session li oc sid entry msg (w, h))))) sid = Some s' \<and> s_budget s' = s_budget s
     \<and> s_consumed_cycles s' \<le> max_cycles (s_budget s) \<and> s_rotations_count s' \<le> x_max_rotations_per_session (oc_context oc)"
proof -
  have "in_budget sid (s_budget s) (x_max_rotations_per_session (oc_context oc)) w"
    using assms(1-4) unfolding in_budget_def counts_def by blast
  then show ?thesis
    using budgeted_run.kept_run_session [OF assms(5), of "(w, h)" li entry msg] by (auto simp: in_budget_def counts_def)
qed

theorem run_stays_in_budget_witness:
  "\<exists>s'. get_session (w_store (fst (snd (run_session few (sample_orchestrator (App_Error too_large)) ''s'' Entry_RESUME None
        (asking [asked_message USER_REQUEST False], new_handler))))) ''s'' = Some s'
     \<and> s_consumed_cycles s' \<le> max_cycles sample_budget"
proof -
  let ?w = "asking [asked_message USER_REQUEST False]" and ?oc = "sample_orchestrator (App_Error too_large)"
  have limit: "x_max_rotations_per_session (oc_context ?oc) = x_max_rotations_per_session default_context"
    by (simp add: sample_orchestrator_def sample_coordinator_def)
  have "calm ''s'' (s_budget (crashed_session Session_RUNNING)) (x_max_rotations_per_session (oc_context ?oc)) ?oc"
    by (simp add: calm_def sample_surroundings_keep)
  moreover have "\<forall>k t. get_session (w_store ?w) k = Some t \<longrightarrow> s_session_id t = k"
    by (simp add: crashed_app_def get_session_def crashed_session_def new_session_def)
  ultimately have "\<exists>s'. get_session (w_store (fst (snd (run_session few ?oc ''s'' Entry_RESUME None (?w, new_handler))))) ''s'' = Some s'
      \<and> s_budget s' = s_budget (crashed_session Session_RUNNING) \<and> s_consumed_cycles s' \<le> max_cycles (s_budget (crashed_session Session_RUNNING))
      \<and> s_rotations_count s' \<le> x_max_rotations_per_session (oc_context ?oc)"
    by (intro run_stays_in_budget crashed_records)
      (simp_all add: limit crashed_session_def new_session_def sample_budget_def default_context_def)
  then show ?thesis by (auto simp: crashed_session_def new_session_def)
qed

end
