(* ===== verification/Ending.thy ===== *)
theory Ending
  imports Bounds
begin

text \<open>
  A run ends: its three loops (the attempts of a call, the replies read before one is usable, the turns) are bounded by
  the retry policy, the rotations left with the corrections in a row, and the cycles left.
\<close>

section \<open>How an action stops\<close>

text \<open>
  \<open>tame may q\<close>: it stops only in a way that it \<open>may\<close>, and the count of unusable replies does not decrease.
\<close>

abbreviation replies :: "loop_state \<Rightarrow> int" where
  "replies s \<equiv> sr_unusable_replies (snd s)"

definition tame :: "(stop \<Rightarrow> bool) \<Rightarrow> 'a loop_act \<Rightarrow> bool" where
  "tame may q \<longleftrightarrow> (\<forall>s. (\<forall>x. fst (q s) = Inl x \<longrightarrow> may x) \<and> replies s \<le> replies (snd (q s)))"

named_theorems tame_intros

lemma tameD: "tame may q \<Longrightarrow> q s = (r, s') \<Longrightarrow> (\<forall>x. r = Inl x \<longrightarrow> may x) \<and> replies s \<le> replies s'"
  unfolding tame_def by (metis fst_conv snd_conv)

lemma tameI: "(\<And>s r s'. q s = (r, s') \<Longrightarrow> (\<forall>x. r = Inl x \<longrightarrow> may x) \<and> replies s \<le> replies s') \<Longrightarrow> tame may q"
  unfolding tame_def by (metis prod.collapse)

lemma tame_basic [tame_intros]: "tame may (ret v)" "may x \<Longrightarrow> tame may (throw x)" "tame may (reading f)"
  by (auto simp: tame_def flow_simps)

lemma tame_sr_set: "(\<And>r. sr_unusable_replies r \<le> sr_unusable_replies (f r)) \<Longrightarrow> tame may (sr_set f)"
  by (auto simp: tame_def flow_simps)

lemma tame_bnd [tame_intros]: "tame may q \<Longrightarrow> (\<And>v. tame may (f v)) \<Longrightarrow> tame may (bnd q f)"
proof (rule tameI)
  fix s r s' assume q: "tame may q" and f: "\<And>v. tame may (f v)" and run: "bnd q f s = (r, s')"
  obtain x t where x: "q s = (x, t)" by (metis surj_pair)
  show "(\<forall>x. r = Inl x \<longrightarrow> may x) \<and> replies s \<le> replies s'"
  proof (cases x)
    case (Inr v)
    then have "f v t = (r, s')" using run x by (simp add: bnd_run)
    from tameD [OF f this] show ?thesis using tameD [OF q x] by auto
  qed (use tameD [OF q x] run x in \<open>auto simp: bnd_run\<close>)
qed

lemma tame_andthen [tame_intros]: "tame may q \<Longrightarrow> tame may p \<Longrightarrow> tame may (andthen q p)"
  by (simp add: andthen_def tame_bnd)

text \<open>A handler: what it handles is a stop of the action.\<close>

lemma tame_attempting [tame_intros]:
  assumes "tame may q" and "\<And>x. may x \<Longrightarrow> tame may (f (Inl x))" and "\<And>v. tame may (f (Inr v))"
  shows "tame may (bnd (attempting q) f)"
proof (rule tameI)
  fix s r s' assume run: "bnd (attempting q) f s = (r, s')"
  obtain x t where x: "q s = (x, t)" by (metis surj_pair)
  have "f x t = (r, s')" using run x by (simp add: bnd_run attempting_def)
  moreover have "tame may (f x)" using assms tameD [OF assms(1) x] by (cases x) auto
  ultimately show "(\<forall>x. r = Inl x \<longrightarrow> may x) \<and> replies s \<le> replies s'"
    using tameD [OF assms(1) x] tameD [of may "f x" t r s'] by auto
qed

lemma catching_as_attempt: "catching q h = bnd (attempting q) (\<lambda>r. case r of Inl e \<Rightarrow> h e | Inr v \<Rightarrow> ret v)"
  by (auto simp: fun_eq_iff catching_run bnd_run attempting_def ret_def split: prod.splits sum.splits)

lemma tame_catching [tame_intros]: "tame may q \<Longrightarrow> (\<And>x. may x \<Longrightarrow> tame may (h x)) \<Longrightarrow> tame may (catching q h)"
  unfolding catching_as_attempt by (rule tame_attempting) (simp_all add: tame_basic)

lemma tame_shapes [tame_intros]:
  "tame may q \<Longrightarrow> tame may (unless b q)" "tame may q \<Longrightarrow> tame may (whenever b q)" "tame may q' \<Longrightarrow> tame may p \<Longrightarrow> tame may (if b then q' else p)"
  "tame may p' \<Longrightarrow> (\<And>x. tame may (f x)) \<Longrightarrow> tame may (case opt of None \<Rightarrow> p' | Some x \<Rightarrow> f x)"
  "(\<And>a b. tame may (g a b)) \<Longrightarrow> tame may (case p'' of (a, b) \<Rightarrow> g a b)"
  by (auto simp: unless_def whenever_def tame_basic split: option.splits prod.splits)

lemma tame_for_each [tame_intros]: "(\<And>x. tame may (f x)) \<Longrightarrow> tame may (for_each xs f)"
  by (induction xs) (simp_all add: tame_intros)

lemma tame_exn [tame_intros]:
  "(\<And>n. tame may (a n)) \<Longrightarrow> (\<And>x y. tame may (b x y)) \<Longrightarrow> (\<And>x y. tame may (c x y)) \<Longrightarrow> (\<And>x y. tame may (d x y))
   \<Longrightarrow> tame may (case e of App_Error n \<Rightarrow> a n | Timeout_Exn x y \<Rightarrow> b x y | Network_Exn x y \<Rightarrow> c x y | Other_Exn x y \<Rightarrow> d x y)"
  by (cases e) simp_all

lemma tame_decision [tame_intros]:
  "tame may a \<Longrightarrow> tame may b \<Longrightarrow> tame may c \<Longrightarrow> tame may d \<Longrightarrow> tame may e
   \<Longrightarrow> tame may (case k of Retry \<Rightarrow> a | Abort \<Rightarrow> b | Rotate \<Rightarrow> c | Pause \<Rightarrow> d | Fail \<Rightarrow> e)"
  by (cases k) simp_all

section \<open>The small steps\<close>

text \<open>What is not a loop stops only on an exception of Python, or the way it is told to.\<close>

locale stopping =
  fixes may :: "stop \<Rightarrow> bool"
  assumes raised [tame_intros]: "may (Raised e)"
begin

lemma tame_lifting [tame_intros]: "tame may (raising (lifting r))"
  by (auto simp: tame_def raising_def lifting_def raised) (cases r; auto simp: raised)+

lemma tame_handler [tame_intros]: "tame may (in_handler q)"
proof (rule tameI)
  fix s r s' assume run: "in_handler q s = (r, s')"
  obtain x t where x: "q (fst s) = (x, t)" by (metis surj_pair)
  with run show "(\<forall>x. r = Inl x \<longrightarrow> may x) \<and> replies s \<le> replies s'"
    by (cases x) (auto simp: raising_def on_part_def raised)
qed

lemma tame_session_record [tame_intros]: "tame may (run_session_record sid)"
  unfolding run_session_record_def by (intro tame_intros)

lemma tame_fresh_conversation [tame_intros]: "tame may (fresh_conversation cid)"
  unfolding fresh_conversation_def by (intro tame_intros tame_sr_set; simp)

lemma tame_conversation [tame_intros]: "tame may (run_conversation sid)"
  unfolding run_conversation_def current_from_session_def by (intro tame_intros tame_sr_set; simp)

lemma tame_records [tame_intros]:
  "tame may (run_remote sid)" "tame may require_pending" "tame may require_cycle" "tame may require_last_outbound" "tame may (check_interrupted sid)"
  unfolding run_remote_def require_pending_def require_cycle_def require_last_outbound_def check_interrupted_def by (intro tame_intros)+

lemma tame_publishing [tame_intros]:
  "tame may (run_publish ty sid now cid cycle plan task payload)" "tame may (conv_publish ty sid now cycle plan task payload)"
  "tame may (consumed_duration_ms ss)" "tame may (remaining_budget_ms sid)" "tame may (publish_budget sid ss)"
  unfolding run_publish_def conv_publish_def consumed_duration_ms_def remaining_budget_ms_def publish_budget_def by (intro tame_intros)+

lemma tame_windows [tame_intros]:
  "tame may (apply_window sid state why)" "tame may (run_transition sid to why cus)" "tame may (reevaluate_window oc sid)"
  "tame may (run_build oc sid pending c mid)" "tame may (run_record_failure sid e plan_id)" "tame may bump_retry_count"
  unfolding apply_window_def run_transition_def reevaluate_window_def run_build_def run_record_failure_def bump_retry_count_def
  by (intro tame_intros tame_sr_set; simp)+

lemma tame_end_cycle [tame_intros]: "tame may (complete_cycle sid iid ity)" "tame may (fail_cycle sid why)"
  unfolding complete_cycle_def fail_cycle_def end_cycle_def by (intro tame_intros tame_sr_set; simp)+

lemma tame_sleeping [tame_intros]: "tame may (interruptible_sleep oc sid ms)" "tame may (ensure_breaker_allows oc sid operation)"
  unfolding interruptible_sleep_def ensure_breaker_allows_def by (intro tame_intros)+

lemma tame_persisting [tame_intros]:
  "tame may (persist_unparseable oc sid e)" "tame may (handle_failure oc sid x attempt operation)"
  "tame may (persist_rejected oc sid reply x)" "tame may (run_expected oc c)"
  unfolding persist_unparseable_def handle_failure_def persist_rejected_def run_expected_def
  by (intro tame_intros tame_sr_set; simp)+

lemma tame_note [tame_intros]: "tame may (note_unusable_reply oc sid e operation)"
  unfolding note_unusable_reply_def by (intro tame_intros tame_sr_set; simp)

lemma tame_close_remote [tame_intros]: "tame may (run_close_remote oc cs)"
  unfolding run_close_remote_def by (intro tame_intros)

lemma tame_fail_conversations [tame_intros]: "tame may (fail_conversations sid why)"
  unfolding fail_conversations_def by (intro tame_intros tame_sr_set; simp)

lemma tame_ends [tame_intros]:
  "tame may (run_pause sid e operation mid)" "tame may (terminate_failed oc sid e why recorded stage plan_id)"
  unfolding run_pause_def terminate_failed_def by (intro tame_intros)+

end

interpretation only_raises: stopping "\<lambda>x. \<exists>e. x = Raised e"
  by unfold_locales simp

interpretation ending: stopping "\<lambda>x. x \<noteq> Going_on"
  by unfold_locales simp

abbreviation ends :: "'a loop_act \<Rightarrow> bool" where
  "ends q \<equiv> tame (\<lambda>x. x \<noteq> Going_on) q"

section \<open>A remote call\<close>

text \<open>A call made again is one that the retry policy allows again.\<close>

lemma decide_retries: "decide retry cb draw e attempt w = (Inr d, w') \<Longrightarrow> d_kind d = Retry \<Longrightarrow> can_retry retry attempt"
  unfolding decide_def by (auto simp: bnd_Inr lifting_def make_decision_def split: if_splits sum.splits prod.splits)

lemma map_sum_Inr: "map_sum Raised id r = Inr v \<longleftrightarrow> r = Inr v"
  by (cases r) simp_all

lemma handle_failure_result:
  assumes "handle_failure oc sid x attempt operation s = (Inr (e, d), s')"
  shows "ne_error_type e = ne_error_type (classify x) \<and> (d_kind d = Retry \<longrightarrow> can_retry (oc_retry oc) attempt)"
proof -
  obtain cid cycle draw w w' where "handle (oc_retry oc) (oc_breaker oc) draw x attempt operation sid cid cycle None None w = (Inr (e, d), w')"
    using assms by (auto simp: handle_failure_def bnd_run reading_def raising_def on_part_def map_sum_Inr split: prod.splits)
  from handle_Inr [OF this] show ?thesis by (auto simp: with_attempt_def dest: decide_retries)
qed

lemma note_unusable_reply_result:
  assumes "note_unusable_reply oc sid e operation s = (Inr noted, s')"
  shows "ne_error_type (classify noted) = ne_error_type e
    \<and> (operation = OP_GET \<longrightarrow> ne_error_type e = MODEL_PROTOCOL_ERROR \<longrightarrow> replies s < replies s')"
proof (cases "operation \<noteq> OP_GET \<or> ne_error_type e \<noteq> MODEL_PROTOCOL_ERROR")
  case False
  then obtain t details where t: "persist_unparseable oc sid e s = (Inr (), t)" and "s' = (fst t, (snd t)\<lparr>sr_unusable_replies := replies t + 1\<rparr>)"
    and "noted = TransportError (ne_error_type e) (ne_error_code e) (ne_retryable e) details"
    using assms by (auto simp: note_unusable_reply_def andthen_Inr bnd_Inr modifying_def reading_def ret_def)
  with tameD [OF ending.tame_persisting(1) t] show ?thesis by (auto simp: TransportError_def err_def)
qed (use assms in \<open>auto simp: note_unusable_reply_def ret_def\<close>)

text \<open>An unusable reply that a call gives up on has been counted.\<close>

definition heard :: "string \<Rightarrow> int \<Rightarrow> stop \<Rightarrow> int \<Rightarrow> bool" where
  "heard operation u x u' \<longleftrightarrow> (\<forall>e why recorded stage plan_id. x = Failed_stop e why recorded stage plan_id \<longrightarrow> operation = OP_GET
     \<longrightarrow> ne_error_type e = MODEL_PROTOCOL_ERROR \<longrightarrow> u < u')"

lemma heard_other: "\<not> (\<exists>e why recorded stage plan_id. x = Failed_stop e why recorded stage plan_id) \<Longrightarrow> heard operation u x u'"
  by (auto simp: heard_def)

lemma heard_earlier: "heard operation u x u' \<Longrightarrow> t \<le> u \<Longrightarrow> heard operation t x u'"
  by (auto simp: heard_def)

lemma heard_raised [simp]: "heard operation u (Raised e) u'"
  by (simp add: heard_def)

lemma retry_steps_raise: "tame (\<lambda>x. \<exists>e. x = Raised e) (andthen bump_retry_count (interruptible_sleep oc sid ms))"
  by (intro tame_intros)

lemma after_transport_error_result:
  assumes run: "after_transport_error oc sid operation e attempt s = (r, s')"
  shows "(\<forall>x. r = Inl x \<longrightarrow> x \<noteq> Going_on \<and> heard operation (replies s) x (replies s')) \<and> replies s \<le> replies s'
    \<and> (r = Inr () \<longrightarrow> can_retry (oc_retry oc) attempt)"
proof (cases "ne_error_type e = INTERRUPTED")
  case False
  obtain rn s1 where noting: "note_unusable_reply oc sid e operation s = (rn, s1)" by (metis surj_pair)
  note n = tameD [OF only_raises.tame_note noting]
  show ?thesis
  proof (cases rn)
    case (Inr noted)
    obtain rh s2 where fails: "handle_failure oc sid noted attempt operation s1 = (rh, s2)" by (metis surj_pair)
    note h = tameD [OF only_raises.tame_persisting(2) fails]
    show ?thesis
    proof (cases rh)
      case Inl
      with run False noting Inr fails n h show ?thesis by (auto simp: after_transport_error_def bnd_run)
    next
      case (Inr p)
      then obtain error d where p: "rh = Inr (error, d)" by (cases p) auto
      note noted = note_unusable_reply_result [OF noting [unfolded \<open>rn = Inr noted\<close>]]
        and failed = handle_failure_result [OF fails [unfolded p]]
      have go: "(case d_kind d of
             Retry \<Rightarrow> andthen bump_retry_count (interruptible_sleep oc sid (case d_delay_ms d of Some ms \<Rightarrow> ms | None \<Rightarrow> 0))
           | Rotate \<Rightarrow> throw (Rotate_requested error)
           | Pause \<Rightarrow> bnd (sr_get pending_message_id) (\<lambda>mid. throw (Paused_stop error operation mid))
           | Abort \<Rightarrow> throw Interrupted_stop
           | Fail \<Rightarrow> throw (Failed_stop error REASON_FAILURE True None None)) s2 = (r, s')"
        using run False noting \<open>rn = Inr noted\<close> fails p by (simp add: after_transport_error_def bnd_run)
      show ?thesis
      proof (cases "d_kind d")
        case Retry
        with go have "andthen bump_retry_count (interruptible_sleep oc sid (case d_delay_ms d of Some ms \<Rightarrow> ms | None \<Rightarrow> 0)) s2 = (r, s')"
          by simp
        from tameD [OF retry_steps_raise this] Retry failed n h show ?thesis by auto
      qed (use go n h noted failed in \<open>auto simp: throw_def bnd_run reading_def heard_def\<close>)
    qed
  qed (use run False noting n in \<open>auto simp: after_transport_error_def bnd_run\<close>)
qed (use run in \<open>auto simp: after_transport_error_def throw_def heard_def\<close>)

text \<open>With an attempt of fuel for each one the policy allows, a call ends.\<close>

lemma call_from_ends:
  assumes "0 < fuel" and "r_max_attempts (oc_retry oc) \<le> int fuel + attempts"
    and "call_from fuel oc sid operation fn attempts s = (r, s')"
  shows "(\<forall>x. r = Inl x \<longrightarrow> x \<noteq> Going_on \<and> heard operation (replies s) x (replies s')) \<and> replies s \<le> replies s'"
  using assms
proof (induction fuel arbitrary: attempts s)
  case (Suc fuel)
  obtain rc s1 where check: "check_interrupted sid s = (rc, s1)" by (metis surj_pair)
  note c = tameD [OF only_raises.tame_records(5) check]
  show ?case
  proof (cases rc)
    case (Inr u)
    let ?attempt = "andthen (ensure_breaker_allows oc sid operation) (in_handler fn)"
    obtain rt s2 where tried: "?attempt s1 = (rt, s2)" by (metis surj_pair)
    have "tame (\<lambda>x. \<exists>e. x = Raised e) ?attempt" by (intro tame_intros)
    note t = tameD [OF this tried]
    show ?thesis
    proof (cases rt)
      case (Inl x)
      then obtain e where e: "rt = Inl (Raised e)" using t by auto
      show ?thesis
      proof (cases "\<exists>n. e = App_Error n \<and> is_transport_error e")
        case True
        then obtain n where n: "e = App_Error n" by blast
        obtain ra s3 where retry: "after_transport_error oc sid operation n (attempts + 1) s2 = (ra, s3)" by (metis surj_pair)
        note a = after_transport_error_result [OF retry]
        show ?thesis
        proof (cases ra)
          case Inl
          with Suc.prems(3) check Inr tried e n True retry a c t show ?thesis
            by (auto simp: andthen_run bnd_run attempting_def intro: heard_earlier)
        next
          case (Inr u')
          then have "attempts + 1 < r_max_attempts (oc_retry oc)" using a by (simp add: can_retry_def)
          moreover have "call_from fuel oc sid operation fn (attempts + 1) s3 = (r, s')"
            using Suc.prems(3) check \<open>rc = Inr u\<close> tried e n True retry Inr by (simp add: andthen_run bnd_run attempting_def)
          ultimately show ?thesis
            using Suc.IH [of "attempts + 1" s3] Suc.prems(2) a c t by (auto intro: heard_earlier)
        qed
      next
        case False
        with Suc.prems(3) check Inr tried e c t show ?thesis
          by (auto simp: andthen_run bnd_run attempting_def throw_def intro!: heard_other split: exn.splits if_splits)
      qed
    next
      case Inr': (Inr v)
      have last: "andthen (in_loop_app note_success) (ret (v, attempts + 1)) s2 = (r, s')"
        using Suc.prems(3) check Inr tried Inr' by (simp add: andthen_run bnd_run attempting_def)
      have "tame (\<lambda>x. \<exists>e. x = Raised e) (andthen (in_loop_app note_success) (ret (v, attempts + 1)))" by (intro tame_intros)
      from tameD [OF this last] show ?thesis using c t by auto
    qed
  qed (use Suc.prems(3) check c in \<open>auto simp: andthen_run\<close>)
qed simp

section \<open>The larger steps\<close>

text \<open>The fuel of a call is at least what the policy allows.\<close>

definition enough_attempts :: "limits \<Rightarrow> orchestrator \<Rightarrow> bool" where
  "enough_attempts li oc \<longleftrightarrow> 0 < li_attempts li \<and> r_max_attempts (oc_retry oc) \<le> int (li_attempts li)"

lemma call_result:
  assumes "enough_attempts li oc" and "call (li_attempts li) oc sid operation fn s = (r, s')"
  shows "(\<forall>x. r = Inl x \<longrightarrow> x \<noteq> Going_on \<and> heard operation (replies s) x (replies s')) \<and> replies s \<le> replies s'"
  using call_from_ends [of "li_attempts li" oc 0 sid operation fn s r s'] assms by (simp add: enough_attempts_def call_def)

lemma ends_call [tame_intros]: "enough_attempts li oc \<Longrightarrow> ends (call (li_attempts li) oc sid operation fn)"
  by (rule tameI) (use call_result in blast)

lemma tame_attempt_cases [tame_intros]:
  "tame may q \<Longrightarrow> (\<And>x. may x \<Longrightarrow> tame may (g x)) \<Longrightarrow> (\<And>v. tame may (k v)) \<Longrightarrow> tame may (bnd (attempting q) (case_sum g k))"
  by (rule tame_attempting) simp_all

lemma tame_stop [tame_intros]:
  "tame may a \<Longrightarrow> (\<And>e. tame may (b e)) \<Longrightarrow> (\<And>e y z. tame may (c e y z)) \<Longrightarrow> (\<And>e y z u v. tame may (d e y z u v))
   \<Longrightarrow> (\<And>e. tame may (f e)) \<Longrightarrow> (x = Going_on \<Longrightarrow> tame may g) \<Longrightarrow> tame may g'
   \<Longrightarrow> tame may (case x of Interrupted_stop \<Rightarrow> a | Rotate_requested e \<Rightarrow> b e | Paused_stop e y z \<Rightarrow> c e y z
        | Failed_stop e y z u v \<Rightarrow> d e y z u v | Raised e \<Rightarrow> f e | Going_on \<Rightarrow> g | Hanging \<Rightarrow> g')"
  by (cases x) simp_all

lemma tame_cases [tame_intros]:
  "(\<And>x. tame may (f1 x)) \<Longrightarrow> (\<And>v. tame may (f2 v)) \<Longrightarrow> tame may (case r of Inl x \<Rightarrow> f1 x | Inr v \<Rightarrow> f2 v)"
  "(\<And>y. tame may (p1 y)) \<Longrightarrow> tame may p2 \<Longrightarrow> tame may p3 \<Longrightarrow> tame may (case pr of Waiting \<Rightarrow> p2 | Refitting_forever \<Rightarrow> p3 | Returned y \<Rightarrow> p1 y)"
  by (simp_all split: sum.split progress.split)

lemma ends_posting [tame_intros]:
  assumes "enough_attempts li oc"
  shows "ends (run_post li oc sid message sent track)" "ends (request_correction li oc sid e rejected attempt mx)"
proof -
  show "ends (run_post li oc sid message sent track)" for message sent track
    unfolding run_post_def by (intro tame_intros tame_sr_set assms; simp)
  then show "ends (request_correction li oc sid e rejected attempt mx)"
    unfolding request_correction_def by (intro tame_intros tame_sr_set; simp)
qed

lemma ends_run_rotate [tame_intros]: "ends (run_rotate oc sid)"
  unfolding run_rotate_def by (intro tame_intros tame_sr_set; simp)

lemma ends_sending [tame_intros]:
  assumes "enough_attempts li oc"
  shows "ends (dispatch_pending li oc sid pending message)" "ends (send_pending li oc sid)"
proof -
  show "ends (dispatch_pending li oc sid pending message)" for pending message
    unfolding dispatch_pending_def rotation_not_allowed_def by (intro tame_intros assms; simp)
  then show "ends (send_pending li oc sid)"
    unfolding send_pending_def fit_pending_def run_open_cycle_def budget_stop_def by (intro tame_intros tame_sr_set; simp)
qed

lemma ends_plan_steps [tame_intros]:
  "ends (persist_plan oc sid inbound)" "ends (check_plan_budget sid plan tasks session)" "ends (drive_plan oc sid plan tasks session)"
  unfolding persist_plan_def announce_plan_def check_plan_budget_def fail_plan_before_start_def drive_plan_def budget_stop_def
  by (intro tame_intros tame_sr_set; simp)+

lemma ends_execute_plan [tame_intros]: "ends (execute_plan oc sid inbound)"
  unfolding execute_plan_def budget_stop_def by (intro tame_intros tame_sr_set; simp)

lemma ends_conclude [tame_intros]: "ends (conclude oc sid inbound)"
  unfolding conclude_def by (split inbound_content.split; intro conjI allI impI; intro tame_intros)

lemma ends_run_finish [tame_intros]: "ends (run_finish oc sid inbound)"
  unfolding run_finish_def by (intro tame_intros)

lemma ends_clean_up [tame_intros]: "ends (clean_up oc sid e plan_id)"
  unfolding clean_up_def by (intro tame_intros)

lemma ends_end_run [tame_intros]: "x \<noteq> Going_on \<Longrightarrow> ends (end_run oc sid x)"
  unfolding end_run_def by (intro tame_intros; simp)

section \<open>The loops\<close>

text \<open>\<open>closes P q Q\<close>: from \<open>P\<close>, the action does not run out of fuel, and \<open>Q\<close> holds when it returns.\<close>

definition closes :: "(loop_state \<Rightarrow> bool) \<Rightarrow> 'a loop_act \<Rightarrow> ('a \<Rightarrow> loop_state \<Rightarrow> bool) \<Rightarrow> bool" where
  "closes P q Q \<longleftrightarrow> (\<forall>s. P s \<longrightarrow> (case q s of (Inl x, _) \<Rightarrow> x \<noteq> Going_on | (Inr v, s') \<Rightarrow> Q v s'))"

text \<open>The counters of the session, and at least so many unusable replies.\<close>

abbreviation stage :: "string \<Rightarrow> session_budget \<Rightarrow> int \<Rightarrow> int \<Rightarrow> int \<Rightarrow> loop_state \<Rightarrow> bool" where
  "stage sid B n m u \<equiv> \<lambda>s. CL sid B n m s \<and> u \<le> replies s"

lemma closes_bnd: "closes P q R \<Longrightarrow> (\<And>v. closes (R v) (f v) Q) \<Longrightarrow> closes P (bnd q f) Q"
  unfolding closes_def bnd_def by (fastforce split: prod.splits sum.splits)

lemma closes_ret: "(\<And>s. P s \<Longrightarrow> Q v s) \<Longrightarrow> closes P (ret v) Q"
  by (simp add: closes_def ret_def)

lemma closes_throw: "x \<noteq> Going_on \<Longrightarrow> closes P (throw x) Q"
  by (simp add: closes_def throw_def)

lemma closes_weaken: "closes P' q Q' \<Longrightarrow> (\<And>s. P s \<Longrightarrow> P' s) \<Longrightarrow> (\<And>v s. Q' v s \<Longrightarrow> Q v s) \<Longrightarrow> closes P q Q"
  unfolding closes_def by (fastforce split: prod.splits sum.splits)

lemma closes_reading: "(\<And>v. closes (\<lambda>s. P s \<and> f s = v) (g v) Q) \<Longrightarrow> closes P (bnd (reading f) g) Q"
  unfolding closes_def by (simp add: bnd_run reading_def)

lemma closes_assume: "(b \<Longrightarrow> closes P q Q) \<Longrightarrow> closes (\<lambda>s. P s \<and> b) q Q"
  by (auto simp: closes_def)

lemma closes_cases: "closes P q Q \<Longrightarrow> closes P' q Q \<Longrightarrow> closes (\<lambda>s. P s \<or> P' s) q Q"
  by (auto simp: closes_def)

lemma closes_sr_set: "(\<And>s. P s \<Longrightarrow> Q () (fst s, f (snd s))) \<Longrightarrow> closes P (sr_set f) Q"
  by (simp add: closes_def modifying_def)

lemma closes_triple:
  assumes "ends q" and "triple P q Q E"
  shows "closes (\<lambda>s. P s \<and> u \<le> replies s) q (\<lambda>v s. Q v s \<and> u \<le> replies s)"
  unfolding closes_def
proof (intro allI impI)
  fix s assume s: "P s \<and> u \<le> replies s"
  obtain r s' where run: "q s = (r, s')" by (metis surj_pair)
  show "case q s of (Inl x, _) \<Rightarrow> x \<noteq> Going_on | (Inr v, s') \<Rightarrow> Q v s' \<and> u \<le> replies s'"
    using tameD [OF assms(1) run] tripleD [OF assms(2), of s] s run by (cases r) auto
qed

lemma closes_kept: "ends q \<Longrightarrow> keeps P q \<Longrightarrow> closes (\<lambda>s. P s \<and> u \<le> replies s) q (\<lambda>_ s. P s \<and> u \<le> replies s)"
  by (rule closes_triple [where E = P]) (simp_all add: triple_keeps)

text \<open>A step that keeps the counters.\<close>

lemma closes_step:
  "ends q \<Longrightarrow> keeps (CL sid B n m) q \<Longrightarrow> (\<And>v. closes (stage sid B n m u) (f v) Q) \<Longrightarrow> closes (stage sid B n m u) (bnd q f) Q"
  by (rule closes_bnd [OF closes_kept])

lemma closes_then:
  "ends q \<Longrightarrow> keeps (CL sid B n m) q \<Longrightarrow> closes (stage sid B n m u) p Q \<Longrightarrow> closes (stage sid B n m u) (andthen q p) Q"
  unfolding andthen_def by (rule closes_step)

lemma closes_last:
  "ends q \<Longrightarrow> keeps (CL sid B n m) q \<Longrightarrow> (\<And>v s. stage sid B n m u s \<Longrightarrow> Q v s) \<Longrightarrow> closes (stage sid B n m u) q Q"
  by (rule closes_weaken [OF closes_kept])

lemma closes_andthen: "closes P q (\<lambda>_. R) \<Longrightarrow> closes R p Q \<Longrightarrow> closes P (andthen q p) Q"
  unfolding andthen_def by (rule closes_bnd)

lemma closes_shapes:
  "(b \<Longrightarrow> closes P q Q) \<Longrightarrow> (\<not> b \<Longrightarrow> closes P p Q) \<Longrightarrow> closes P (if b then q else p) Q"
  "(\<And>x. r = Inl x \<Longrightarrow> closes P (f x) Q) \<Longrightarrow> (\<And>v. r = Inr v \<Longrightarrow> closes P (g v) Q) \<Longrightarrow> closes P (case r of Inl x \<Rightarrow> f x | Inr v \<Rightarrow> g v) Q"
  "(\<And>a b. closes P (k a b) Q) \<Longrightarrow> closes P (case p' of (a, b) \<Rightarrow> k a b) Q"
  "closes P g' Q \<Longrightarrow> (\<And>y. closes P (h y) Q) \<Longrightarrow> closes P (case opt of None \<Rightarrow> g' | Some y \<Rightarrow> h y) Q"
  by (simp_all split: sum.split prod.split option.split)

section \<open>Reading a reply\<close>

text \<open>An unusable reply is followed by a correction, of which there are so many, or by a rotation.\<close>

definition corrections :: "orchestrator \<Rightarrow> int" where
  "corrections oc = max 0 (oc_max_correction_attempts oc)"

abbreviation progress_made :: "string \<Rightarrow> session_budget \<Rightarrow> int \<Rightarrow> int \<Rightarrow> int \<Rightarrow> int \<Rightarrow> int \<Rightarrow> loop_state \<Rightarrow> bool" where
  "progress_made sid B R L n m u \<equiv> \<lambda>s. (stage sid B n m (u + 1) s \<and> u + 1 \<le> L)
     \<or> (stage sid B (n + 1) (m + 1) 0 s \<and> (n < max_cycles B \<and> m < R))"

lemma closes_rotating:
  assumes "calm sid B R oc" and "n \<le> max_cycles B" and "m \<le> R" and "0 \<le> u"
  shows "closes (stage sid B n m u) (run_rotate oc sid) (\<lambda>_. progress_made sid B R L n m u)"
  using closes_triple [OF ends_run_rotate triple_run_rotate [OF assms(1-3)], of u] by (rule closes_weaken) (use assms(4) in auto)

lemma closes_saturating:
  assumes "calm sid B R oc" and "n \<le> max_cycles B" and "m \<le> R" and "0 \<le> u"
  shows "closes (stage sid B n m u) (saturate_and_rotate oc sid state why) (\<lambda>_. progress_made sid B R L n m u)"
  unfolding saturate_and_rotate_def by (rule closes_then, intro tame_intros, intro keeps_intros, rule closes_rotating [OF assms])

lemma closes_after_unusable_reply:
  assumes "enough_attempts li oc" and "calm sid B R oc" and "n \<le> max_cycles B" and "m \<le> R" and "0 \<le> u"
  shows "closes (stage sid B n m (u + 1)) (after_unusable_reply li oc sid e rejected) (\<lambda>_. progress_made sid B R (corrections oc) n m u)"
proof -
  have calm: "surroundings_keep (\<lambda>s. counts sid B n m (fst s)) oc" using assms(2) by (rule calm_keeps)
  have corrects: "closes (\<lambda>s. stage sid B n m (u + 1) s \<and> replies s = v)
      (request_correction li oc sid e rejected attempt (oc_max_correction_attempts oc)) (\<lambda>_. progress_made sid B R (corrections oc) n m u)"
    if "v \<le> corrections oc" for v attempt
  proof (cases "u + 1 \<le> corrections oc")
    case True
    have "closes (stage sid B n m (u + 1)) (request_correction li oc sid e rejected attempt (oc_max_correction_attempts oc))
        (\<lambda>_. progress_made sid B R (corrections oc) n m u)"
      by (rule closes_last, intro tame_intros assms, intro keeps_intros calm, use True in simp)
    then show ?thesis by (rule closes_weaken) simp_all
  qed (use that in \<open>auto simp: closes_def\<close>)
  have rotates: "closes (stage sid B n m (u + 1)) (andthen (apply_window sid SATURATED WINDOW_REASON_UNUSABLE_REPLY)
        (andthen (run_rotate oc sid) (sr_set (\<lambda>r. r\<lparr>sr_unusable_replies := 0\<rparr>)))) (\<lambda>_. progress_made sid B R (corrections oc) n m u)"
    by (rule closes_then, intro tame_intros, intro keeps_intros,
        rule closes_andthen [OF closes_triple [OF ends_run_rotate triple_run_rotate [OF assms(2-4)]]], rule closes_sr_set, simp)
  show ?thesis
    unfolding after_unusable_reply_def
  proof (rule closes_step, intro tame_intros, intro keeps_intros, rule closes_reading)
    fix c v
    show "closes (\<lambda>s. stage sid B n m (u + 1) s \<and> replies s = v)
        (case unusable_decision oc v c e of
           Correct attempt \<Rightarrow> request_correction li oc sid e rejected attempt (oc_max_correction_attempts oc)
         | Rotate_away \<Rightarrow> andthen (apply_window sid SATURATED WINDOW_REASON_UNUSABLE_REPLY)
             (andthen (run_rotate oc sid) (sr_set (\<lambda>r. r\<lparr>sr_unusable_replies := 0\<rparr>)))
         | Give_up \<Rightarrow> throw (Failed_stop e REASON_FAILURE True None None)) (\<lambda>_. progress_made sid B R (corrections oc) n m u)"
    proof (cases "unusable_decision oc v c e")
      case Correct
      then have "v \<le> corrections oc" by (auto simp: unusable_decision_def corrections_def Let_def split: if_splits)
      with Correct corrects show ?thesis by simp
    next
      case Rotate_away
      with rotates show ?thesis by simp (rule closes_weaken, assumption, simp_all)
    qed (simp add: closes_throw)
  qed
qed

text \<open>After a GET that failed.\<close>

lemma closes_after_failed_get:
  assumes "enough_attempts li oc" and "calm sid B R oc" and "n \<le> max_cycles B" and "m \<le> R" and "0 \<le> u" and "x \<noteq> Going_on"
  shows "closes (\<lambda>s. stage sid B n m u s \<and> heard OP_GET u x (replies s)) (after_failed_get li oc sid x)
    (\<lambda>_. progress_made sid B R (corrections oc) n m u)"
proof (cases "\<exists>e why recorded place plan_id. x = Failed_stop e why recorded place plan_id \<and> ne_error_type e = MODEL_PROTOCOL_ERROR")
  case True
  then obtain e why recorded place plan_id where x: "x = Failed_stop e why recorded place plan_id" "ne_error_type e = MODEL_PROTOCOL_ERROR"
    by blast
  have "closes (stage sid B n m (u + 1)) (after_failed_get li oc sid x) (\<lambda>_. progress_made sid B R (corrections oc) n m u)"
    using closes_after_unusable_reply [OF assms(1-5)] by (simp add: after_failed_get_def x)
  then show ?thesis by (rule closes_weaken) (use x in \<open>auto simp: heard_def\<close>)
next
  case False
  note saturating = closes_saturating [OF assms(2-5)]
  have "closes (stage sid B n m u) (after_failed_get li oc sid x) (\<lambda>_. progress_made sid B R (corrections oc) n m u)"
  proof (cases x)
    case (Failed_stop e why recorded place plan_id)
    with False have "ne_error_type e \<noteq> MODEL_PROTOCOL_ERROR" by blast
    then show ?thesis
      unfolding after_failed_get_def Failed_stop stop.case if_not_P [OF \<open>ne_error_type e \<noteq> MODEL_PROTOCOL_ERROR\<close>]
      by (intro closes_step tame_intros keeps_intros closes_shapes saturating closes_throw) simp
  next
    case (Rotate_requested e)
    show ?thesis
      unfolding after_failed_get_def Rotate_requested stop.case by (intro closes_step tame_intros keeps_intros saturating)
  qed (use assms(6) in \<open>simp_all add: after_failed_get_def closes_throw\<close>)
  then show ?thesis by (rule closes_weaken) simp_all
qed

text \<open>After one that did not.\<close>

lemma closes_accept_valid: "closes (stage sid B n m u) (accept_valid oc sid reply c inbound) (\<lambda>_. stage sid B n m 0)"
  unfolding accept_valid_def
proof (rule closes_andthen [where R = "stage sid B n m 0"], rule closes_sr_set, simp, rule closes_kept)
qed (intro tame_intros tame_sr_set keeps_intros grows_intros; simp)+

definition reply_read :: "orchestrator \<Rightarrow> string \<Rightarrow> session_budget \<Rightarrow> int \<Rightarrow> int \<Rightarrow> int \<Rightarrow> int \<Rightarrow> inbound_message option \<Rightarrow> loop_state \<Rightarrow> bool" where
  "reply_read oc sid B R n m u r s = (case r of None \<Rightarrow> progress_made sid B R (corrections oc) n m u s | Some _ \<Rightarrow> stage sid B n m 0 s)"

lemma closes_accept_reply:
  assumes "enough_attempts li oc" and "calm sid B R oc" and "n \<le> max_cycles B" and "m \<le> R" and "0 \<le> u"
  shows "closes (stage sid B n m u) (accept_reply li oc sid reply) (reply_read oc sid B R n m u)"
proof -
  have again: "closes (stage sid B n m (u + 1)) (andthen (after_unusable_reply li oc sid error rejected) (ret None)) (reply_read oc sid B R n m u)"
    for error rejected
    by (rule closes_andthen [OF closes_after_unusable_reply [OF assms]], rule closes_ret) (simp add: reply_read_def)
  have one_more: "closes (stage sid B n m u) (sr_set (\<lambda>r. r\<lparr>sr_unusable_replies := sr_unusable_replies r + 1\<rparr>)) (\<lambda>_. stage sid B n m (u + 1))"
    by (rule closes_sr_set) simp
  have accepted: "closes (stage sid B n m u) (andthen (accept_valid oc sid reply c inbound) (ret (Some inbound))) (reply_read oc sid B R n m u)"
    for c inbound
    by (rule closes_andthen [OF closes_accept_valid], rule closes_ret) (simp add: reply_read_def)
  show ?thesis
    unfolding accept_reply_def
    by (intro closes_step closes_shapes tame_intros keeps_intros accepted closes_andthen [OF one_more] again closes_throw)
qed

text \<open>
  What is left to read: for each rotation left, the corrections in a row with their last reply and the reply that leads to the
  rotation.
\<close>

definition replies_left :: "int \<Rightarrow> int \<Rightarrow> int \<Rightarrow> int \<Rightarrow> int" where
  "replies_left R L m u = (R - m) * (L + 2) + max 0 (L + 1 - u)"

lemma replies_left_corrected: "u + 1 \<le> L \<Longrightarrow> replies_left R L m (u + 1) < replies_left R L m u"
  by (simp add: replies_left_def)

lemma replies_left_rotated: "0 \<le> L \<Longrightarrow> replies_left R L (m + 1) 0 < replies_left R L m u"
  by (simp add: replies_left_def algebra_simps)

lemma replies_left_nonneg: "0 \<le> L \<Longrightarrow> m \<le> R \<Longrightarrow> 0 \<le> replies_left R L m u"
  by (simp add: replies_left_def)

lemma replies_left_mono: "0 \<le> L \<Longrightarrow> m \<le> m' \<Longrightarrow> 0 \<le> u \<Longrightarrow> replies_left R L m' u \<le> replies_left R L m 0"
  by (simp add: replies_left_def add_mono mult_right_mono)

lemma corrections_nonneg: "0 \<le> corrections oc"
  by (simp add: corrections_def)

abbreviation in_hand :: "string \<Rightarrow> session_budget \<Rightarrow> int \<Rightarrow> int \<Rightarrow> int \<Rightarrow> loop_state \<Rightarrow> bool" where
  "in_hand sid B R n m \<equiv> \<lambda>s. further sid B R n m (fst (fst s)) \<and> 0 \<le> replies s"

lemma closes_attempt_call:
  assumes "enough_attempts li oc" and "keeps (\<lambda>s. counts sid B n m (fst s)) fn" and "surroundings_keep (\<lambda>s. counts sid B n m (fst s)) oc"
    and "\<And>x. x \<noteq> Going_on \<Longrightarrow> closes (\<lambda>s. stage sid B n m u s \<and> heard operation u x (replies s)) (f (Inl x)) Q"
    and "\<And>v. closes (stage sid B n m u) (f (Inr v)) Q"
  shows "closes (stage sid B n m u) (bnd (attempting (call (li_attempts li) oc sid operation fn)) f) Q"
  unfolding closes_def
proof (intro allI impI)
  fix s assume s: "stage sid B n m u s"
  obtain r s' where run: "call (li_attempts li) oc sid operation fn s = (r, s')" by (metis surj_pair)
  have "keeps (CL sid B n m) (call (li_attempts li) oc sid operation fn)" using assms(2,3) by (intro keeps_intros)
  from keepsD [OF this] s run have here: "CL sid B n m s'" by fastforce
  note ended = call_result [OF assms(1) run]
  show "case bnd (attempting (call (li_attempts li) oc sid operation fn)) f s of (Inl x, _) \<Rightarrow> x \<noteq> Going_on | (Inr v, s') \<Rightarrow> Q v s'"
  proof (cases r)
    case (Inl x)
    then have "x \<noteq> Going_on" and "stage sid B n m u s' \<and> heard operation u x (replies s')"
      using ended here s by (auto intro: heard_earlier)
    then show ?thesis using assms(4) [unfolded closes_def, rule_format, of x s'] run Inl by (simp add: bnd_run attempting_def)
  next
    case (Inr v)
    then have "stage sid B n m u s'" using ended here s by auto
    then show ?thesis using assms(5) [unfolded closes_def, rule_format, of s' v] run Inr by (simp add: bnd_run attempting_def)
  qed
qed

lemma closes_receive:
  assumes "enough_attempts li oc" and "calm sid B R oc" and "n \<le> max_cycles B" and "m \<le> R" and "0 \<le> u"
    and "replies_left R (corrections oc) m u < int fuel"
  shows "closes (stage sid B n m u) (receive fuel li oc sid) (\<lambda>_. in_hand sid B R n m)"
  using assms(3-6)
proof (induction fuel arbitrary: n m u)
  case 0
  with replies_left_nonneg [OF corrections_nonneg, of m R oc u] show ?case by simp
next
  case (Suc fuel)
  have calm: "surroundings_keep (\<lambda>s. counts sid B n m (fst s)) oc" using assms(2) by (rule calm_keeps)
  have further: "further sid B R (n + 1) (m + 1) w \<Longrightarrow> further sid B R n m w" for w
    by (fastforce simp: further_def)
  have again: "closes (progress_made sid B R (corrections oc) n m u) (receive fuel li oc sid) (\<lambda>_. in_hand sid B R n m)"
  proof (rule closes_cases; rule closes_assume)
    assume "u + 1 \<le> corrections oc"
    then have "replies_left R (corrections oc) m (u + 1) < int fuel"
      using replies_left_corrected [of u "corrections oc" R m] Suc.prems(4) by simp
    then show "closes (stage sid B n m (u + 1)) (receive fuel li oc sid) (\<lambda>_. in_hand sid B R n m)"
      using Suc.prems by (intro Suc.IH) simp_all
  next
    assume left: "n < max_cycles B \<and> m < R"
    have "replies_left R (corrections oc) (m + 1) 0 < int fuel"
      using replies_left_rotated [OF corrections_nonneg, of R oc m u] Suc.prems(4) by simp
    with left have "closes (stage sid B (n + 1) (m + 1) 0) (receive fuel li oc sid) (\<lambda>_. in_hand sid B R (n + 1) (m + 1))"
      by (intro Suc.IH) simp_all
    then show "closes (stage sid B (n + 1) (m + 1) 0) (receive fuel li oc sid) (\<lambda>_. in_hand sid B R n m)"
      by (rule closes_weaken) (use further in blast)+
  qed
  have failed: "closes (\<lambda>s. stage sid B n m u s \<and> heard OP_GET u x (replies s)) (andthen (after_failed_get li oc sid x) (receive fuel li oc sid))
      (\<lambda>_. in_hand sid B R n m)" if "x \<noteq> Going_on" for x
    by (rule closes_andthen [OF closes_after_failed_get again]) (use assms(1,2) Suc.prems that in simp_all)
  have answered: "closes (stage sid B n m u) (bnd (accept_reply li oc sid reply) (\<lambda>inbound.
         case inbound of Some i \<Rightarrow> ret i | None \<Rightarrow> receive fuel li oc sid)) (\<lambda>_. in_hand sid B R n m)" for reply
  proof (rule closes_bnd [OF closes_accept_reply [OF assms(1,2) Suc.prems(1-3)]])
    fix v
    show "closes (reply_read oc sid B R n m u v) (case v of Some i \<Rightarrow> ret i | None \<Rightarrow> receive fuel li oc sid) (\<lambda>_. in_hand sid B R n m)"
      using again Suc.prems(1,2) by (cases v) (auto simp: reply_read_def closes_def ret_def intro: further_I)
  qed
  show ?case
    unfolding receive.simps
    by (rule closes_then, intro tame_intros, intro keeps_intros, rule closes_step, intro tame_intros, intro keeps_intros,
        rule closes_step, intro tame_intros, intro keeps_intros, rule closes_attempt_call [OF assms(1) _ calm])
      (use failed answered in \<open>auto intro!: keeps_intros calm\<close>)
qed

section \<open>The run\<close>

lemma closes_in_hand:
  assumes "\<And>n' m'. n \<le> n' \<Longrightarrow> n' \<le> max_cycles B \<Longrightarrow> m \<le> m' \<Longrightarrow> m' \<le> R \<Longrightarrow> closes (stage sid B n' m' 0) q Q"
  shows "closes (in_hand sid B R n m) q Q"
  unfolding closes_def
proof (intro allI impI)
  fix s assume "in_hand sid B R n m s"
  then obtain n' m' where "n \<le> n'" "n' \<le> max_cycles B" "m \<le> m'" "m' \<le> R" and s: "stage sid B n' m' 0 s" by (auto simp: further_def)
  from assms [OF this(1-4), unfolded closes_def, rule_format, OF s]
  show "case q s of (Inl x, _) \<Rightarrow> x \<noteq> Going_on | (Inr v, s') \<Rightarrow> Q v s'" .
qed

lemma closes_send_pending:
  assumes "enough_attempts li oc" and "calm sid B R oc" and "n \<le> max_cycles B" and "m \<le> R"
  shows "closes (stage sid B n m 0) (send_pending li oc sid) (\<lambda>_. in_hand sid B R (n + 1) m)"
  by (rule closes_triple [OF ends_sending(2) triple_send_pending]) (rule assms)+

text \<open>A reply is always found or given up within this fuel, from any counters.\<close>

definition enough :: "limits \<Rightarrow> orchestrator \<Rightarrow> int \<Rightarrow> bool" where
  "enough li oc m \<longleftrightarrow> enough_attempts li oc
     \<and> replies_left (x_max_rotations_per_session (oc_context oc)) (corrections oc) m 0 < int (li_replies li)"

lemma closes_turns:
  assumes "enough li oc m0" and "calm sid B R oc" and "n \<le> max_cycles B" and "m0 \<le> m" and "m \<le> R" and "max_cycles B - n < int fuel"
  shows "closes (stage sid B n m 0) (turns fuel li oc sid) (\<lambda>_ _. True)"
  using assms(3-6)
proof (induction fuel arbitrary: n m)
  case (Suc fuel)
  have attempts: "enough_attempts li oc" using assms(1) by (simp add: enough_def)
  have "x_max_rotations_per_session (oc_context oc) = R" using assms(2) by (simp add: calm_def)
  then have replies: "replies_left R (corrections oc) m 0 < int (li_replies li)"
    using assms(1) replies_left_mono [OF corrections_nonneg [of oc] Suc.prems(2), of 0 R] by (simp add: enough_def)
  show ?case
    unfolding turns.simps
  proof (rule closes_bnd [OF closes_receive [OF attempts assms(2) Suc.prems(1,3) _ replies]], simp, rule closes_in_hand)
    fix inbound n' m' assume counted: "n \<le> n'" "n' \<le> max_cycles B" "m \<le> m'" "m' \<le> R"
    have calm: "surroundings_keep (\<lambda>s. counts sid B n' m' (fst s)) oc" using assms(2) by (rule calm_keeps)
    have next_turn: "closes (in_hand sid B R (n' + 1) m') (turns fuel li oc sid) (\<lambda>_ _. True)"
      using Suc.prems counted by (intro closes_in_hand Suc.IH) linarith+
    have finish: "closes (stage sid B n' m' 0) (run_finish oc sid inbound) (\<lambda>_ _. True)"
      using calm by (intro closes_last tame_intros keeps_intros)
    have sends: "closes (stage sid B n' m' 0) (andthen (send_pending li oc sid) (turns fuel li oc sid)) (\<lambda>_ _. True)"
      using attempts assms(2) counted next_turn by (intro closes_andthen [OF closes_send_pending])
    show "closes (stage sid B n' m' 0)
       (if im_message_type inbound \<in> CONCLUDING_MESSAGE_TYPES then run_finish oc sid inbound
        else bnd (execute_plan oc sid inbound) (\<lambda>content.
          andthen (sr_set (\<lambda>r. r\<lparr>sr_pending := Some \<lparr>pm_message_type = EXECUTION_RESULT, pm_cycle_type = EXECUTION, pm_follow_up = False,
             pm_user_message = None, pm_content = Some content, pm_fitted = False\<rparr>\<rparr>))
         (andthen (send_pending li oc sid) (turns fuel li oc sid)))) (\<lambda>_ _. True)"
      by (rule closes_shapes(1), rule finish, rule closes_step, intro tame_intros, intro keeps_intros calm,
          rule closes_then [OF tame_sr_set _ sends], simp, intro keeps_intros)
  qed
qed simp

lemma unusable_in_trail_nonneg: "0 \<le> unusable_in_trail ms"
  by (induction ms) simp_all

lemma closes_counted_replies:
  assumes "closes (stage sid B n m 0) q Q"
  shows "closes (stage sid B n m 0) (bnd (loop_store (\<lambda>st. consecutive_unusable_replies st c)) (\<lambda>v.
     andthen (sr_set (\<lambda>r. r\<lparr>sr_unusable_replies := v\<rparr>)) q)) Q"
proof (rule closes_reading)
  fix v
  show "closes (\<lambda>s. stage sid B n m 0 s \<and> consecutive_unusable_replies (w_store (fst (fst s))) c = v)
      (andthen (sr_set (\<lambda>r. r\<lparr>sr_unusable_replies := v\<rparr>)) q) Q"
    by (rule closes_andthen [OF closes_sr_set assms]) (auto simp: consecutive_unusable_replies_def unusable_in_trail_nonneg)
qed

text \<open>Each entry point leaves the counters in hand.\<close>

lemma closes_entry:
  assumes "enough_attempts li oc" and "calm sid B R oc" and "n \<le> max_cycles B" and "m \<le> R"
  shows "closes (stage sid B n m 0) (case entry of Entry_START \<Rightarrow> run_start li oc sid msg | Entry_FOLLOW_UP \<Rightarrow> run_follow_up li oc sid msg
      | Entry_RESUME \<Rightarrow> run_resume li oc sid) (\<lambda>_. in_hand sid B R n m)"
proof -
  have calm: "surroundings_keep (\<lambda>s. counts sid B n m (fst s)) oc" using assms(2) by (rule calm_keeps)
  have sends: "closes (stage sid B n m 0) (send_pending li oc sid) (\<lambda>_. in_hand sid B R n m)"
    by (rule closes_weaken [OF closes_send_pending [OF assms]]) (fastforce simp: further_def)+
  have posts: "closes (stage sid B n m 0) (unless b (bnd (run_build oc sid pending c mid) (\<lambda>message. run_post li oc sid message sent True)))
      (\<lambda>_. in_hand sid B R n m)" for b pending c mid sent
    by (rule closes_last, intro tame_intros assms(1), intro keeps_intros calm) (use assms(3,4) in \<open>auto intro: further_I\<close>)
  show ?thesis
  proof (cases entry)
    case Entry_START
    show ?thesis
      unfolding Entry_START entry.case run_start_def
      by (intro closes_step closes_then tame_intros tame_sr_set keeps_intros sends assms(1) calm; simp)
  next
    case Entry_FOLLOW_UP
    show ?thesis
      unfolding Entry_FOLLOW_UP entry.case run_follow_up_def
      by (intro closes_step closes_then tame_intros tame_sr_set keeps_intros sends; simp)
  next
    case Entry_RESUME
    show ?thesis
      unfolding Entry_RESUME entry.case run_resume_def
      by (intro closes_step closes_then closes_shapes closes_counted_replies closes_throw posts tame_intros tame_sr_set keeps_intros; simp)
  qed
qed

lemma closes_run_body:
  assumes "enough li oc m" and "calm sid B R oc" and "n \<le> max_cycles B" and "m \<le> R" and "max_cycles B - n < int (li_turns li)"
  shows "closes (stage sid B n m 0) (run_body li oc sid entry msg) (\<lambda>_ _. True)"
proof -
  have attempts: "enough_attempts li oc" using assms(1) by (simp add: enough_def)
  have loop: "closes (in_hand sid B R n m) (turns (li_turns li) li oc sid) (\<lambda>_ _. True)"
    using assms(3-5) by (intro closes_in_hand closes_turns [OF assms(1,2)]) linarith+
  show ?thesis
    unfolding run_body_def
    by (rule closes_step, intro tame_intros, intro keeps_intros, rule closes_shapes(1), rule closes_ret, simp,
        rule closes_andthen [OF closes_entry [OF attempts assms(2-4)] loop])
qed

lemma run_loop_of_ends:
  assumes "closes P (run_body li oc sid entry msg) (\<lambda>_ _. True)" and "P (s, new_session_run)"
    and "\<And>h. P ((fst s, h), new_session_run)"
  shows "fst (run_session li oc sid entry msg s) \<noteq> Inl Going_on"
proof -
  let ?s = "((fst s, snd (register_loop sid (snd s))), new_session_run)"
  obtain r t where body: "run_body li oc sid entry msg ?s = (r, t)" by (metis surj_pair)
  have ended: "x \<noteq> Going_on" if "r = Inl x" for x
    using assms(1) [unfolded closes_def, rule_format, OF assms(3), of "snd (register_loop sid (snd s))"] body that by simp
  obtain r' t' where caught: "catching (run_body li oc sid entry msg) (end_run oc sid) ?s = (r', t')" by (metis surj_pair)
  have "r' \<noteq> Inl Going_on"
  proof (cases r)
    case (Inl x)
    then have "end_run oc sid x t = (r', t')" using caught body by (simp add: catching_run)
    from tameD [OF ends_end_run [OF ended [OF Inl]] this] show ?thesis by blast
  qed (use caught body in \<open>auto simp: catching_run\<close>)
  moreover have "run_session_record sid x \<noteq> (Inl Going_on, y)" for x y
    using tameD [OF ending.tame_session_record, of sid x] by blast
  ultimately show ?thesis
    using caught by (cases r') (auto simp: run_session_def run_loop_of_def bnd_run andthen_run reading_def attempting_def throw_def in_handler_simps
        split: stop.splits prod.splits)
qed

text \<open>
  C8. A run ends. None of the three loops has an exit of its own: the retry policy bounds the attempts of a
  call, the corrections in a row and the rotations left bound the replies that are read before one is usable, and the
  cycles left bound the turns. With at least that much fuel (an attempt for each the policy allows; for each rotation
  left, a reply for each correction, one more and one for the rotation; a turn for each cycle left), a run of
  a session within its budget never needs more, whatever the model answers: an unbounded exchange is impossible. A run
  may still wait for a plan whose process never ends (\<open>Hanging\<close>).
\<close>

theorem run_ends:
  assumes "get_session (w_store w) sid = Some s" and "\<forall>k t. get_session (w_store w) k = Some t \<longrightarrow> s_session_id t = k"
    and "s_consumed_cycles s \<le> max_cycles (s_budget s)" and "s_rotations_count s \<le> x_max_rotations_per_session (oc_context oc)"
    and "calm sid (s_budget s) (x_max_rotations_per_session (oc_context oc)) oc"
    and "0 < li_attempts li" and "r_max_attempts (oc_retry oc) \<le> int (li_attempts li)"
    and "(x_max_rotations_per_session (oc_context oc) - s_rotations_count s) * (max 0 (oc_max_correction_attempts oc) + 2)
      + max 0 (oc_max_correction_attempts oc) + 1 < int (li_replies li)"
    and "max_cycles (s_budget s) - s_consumed_cycles s < int (li_turns li)"
  shows "fst (run_session li oc sid entry msg (w, h)) \<noteq> Inl Going_on"
proof -
  have "enough li oc (s_rotations_count s)"
    using assms(6-8) by (simp add: enough_def enough_attempts_def replies_left_def corrections_def)
  from closes_run_body [OF this assms(5,3,4,9)] show ?thesis
    by (rule run_loop_of_ends) (use assms(1,2) in \<open>auto simp: counts_def new_session_run_def\<close>)
qed

definition patient :: limits where
  "patient = \<lparr>li_attempts = 9, li_replies = 30, li_turns = 20\<rparr>"

theorem run_ends_witness:
  "fst (run_session patient (sample_orchestrator (App_Error too_large)) ''s'' Entry_RESUME None (asking [asked_message USER_REQUEST False], new_handler))
     \<noteq> Inl Going_on"
proof (rule run_ends [OF crashed_records(1)])
  show "calm ''s'' (s_budget (crashed_session Session_RUNNING))
      (x_max_rotations_per_session (oc_context (sample_orchestrator (App_Error too_large)))) (sample_orchestrator (App_Error too_large))"
    by (simp add: calm_def sample_surroundings_keep)
qed (auto simp: crashed_app_def get_session_def crashed_session_def new_session_def sample_orchestrator_def sample_coordinator_def
    default_context_def default_retry_def sample_budget_def patient_def)

end
