(* ===== verification/History.thy ===== *)
theory History
  imports Runs
begin

text \<open>
  The events of the bus as the history of the records. The lifecycle manager publishes one event per change of a session, a
  conversation or a context window; while the store takes writes, the states it announced for a record, replayed along
  the transition table from the state the record had, lead to the state the record has.
\<close>

section \<open>Replaying announced changes\<close>

type_synonym move = "(string \<times> string) option"

text \<open>\<open>replays T v s ms t\<close>: the announced changes \<open>ms\<close> are listed transitions that lead from \<open>s\<close> to \<open>t\<close>, each from where the one before ended.\<close>

inductive replays :: "('s \<Rightarrow> 's set) \<Rightarrow> ('s \<Rightarrow> string) \<Rightarrow> 's \<Rightarrow> move list \<Rightarrow> 's \<Rightarrow> bool" for T v where
  at_rest: "replays T v s [] s"
| moved_on: "u \<in> T s \<Longrightarrow> replays T v u ms t \<Longrightarrow> replays T v s (Some (v s, v u) # ms) t"

inductive_cases replays_Cons: "replays T v s (m # ms) t"

inductive_simps replays_Nil [simp]: "replays T v s [] t"

lemma replays_snoc: "replays T v s ms t \<Longrightarrow> u \<in> T t \<Longrightarrow> replays T v s (ms @ [Some (v t, v u)]) u"
  by (induction rule: replays.induct) (auto intro: replays.intros)

text \<open>The states a table of records had (\<open>was\<close>) and has (\<open>is\<close>); a record that was not there starts in a state \<open>born\<close> allows.\<close>

definition told :: "('s \<Rightarrow> 's set) \<Rightarrow> ('s \<Rightarrow> string) \<Rightarrow> (string \<Rightarrow> 's \<Rightarrow> bool) \<Rightarrow> (string \<Rightarrow> 's option) \<Rightarrow> (string \<Rightarrow> 's option)
   \<Rightarrow> (string \<Rightarrow> move list) \<Rightarrow> bool" where
  "told T v born was is ms \<longleftrightarrow> (\<forall>i. case is i of
     None \<Rightarrow> was i = None \<and> ms i = []
   | Some t \<Rightarrow> \<exists>s. (case was i of None \<Rightarrow> born i s | Some s' \<Rightarrow> s = s') \<and> replays T v s (ms i) t)"

lemma told_start: "told T v born is is (\<lambda>_. [])"
  by (auto simp: told_def split: option.split)

lemma told_weaken: "told T v born was is ms \<Longrightarrow> (\<And>i s. born i s \<Longrightarrow> born' i s) \<Longrightarrow> told T v born' was is ms"
  unfolding told_def by (fastforce split: option.splits)

lemma told_move:
  assumes "told T v born was is ms" and "is i = Some t" and "u \<in> T t"
  shows "told T v born was (is(i \<mapsto> u)) (\<lambda>j. ms j @ (if i = j then [Some (v t, v u)] else []))"
  unfolding told_def
proof
  fix j
  have j: "case is j of None \<Rightarrow> was j = None \<and> ms j = []
      | Some t \<Rightarrow> \<exists>s. (case was j of None \<Rightarrow> born j s | Some s' \<Rightarrow> s = s') \<and> replays T v s (ms j) t"
    using assms(1) unfolding told_def by blast
  show "case (is(i \<mapsto> u)) j of None \<Rightarrow> was j = None \<and> ms j @ (if i = j then [Some (v t, v u)] else []) = []
      | Some t' \<Rightarrow> \<exists>s. (case was j of None \<Rightarrow> born j s | Some s' \<Rightarrow> s = s')
          \<and> replays T v s (ms j @ (if i = j then [Some (v t, v u)] else [])) t'"
  proof (cases "i = j")
    case True
    then obtain s where "case was j of None \<Rightarrow> born j s | Some s' \<Rightarrow> s = s'" and "replays T v s (ms j) t" using j assms(2) by auto
    with replays_snoc [OF this(2) assms(3)] True show ?thesis by auto
  next
    case False
    then have "(is(i \<mapsto> u)) j = is j" by simp
    with j False show ?thesis by (simp only: if_False append_Nil2)
  qed
qed

lemma told_born:
  assumes "told T v born was is ms" and "is i = None" and "born i s"
  shows "told T v born was (is(i \<mapsto> s)) ms"
proof -
  have "was i = None \<and> ms i = []" using assms(1,2) unfolding told_def by (auto dest!: spec [of _ i])
  with assms show ?thesis unfolding told_def by auto
qed

section \<open>What the events announce\<close>

definition event_move :: "event \<Rightarrow> move" where
  "event_move e = (case (dict_get (ev_payload e) ''from'', dict_get (ev_payload e) ''to'') of
     (Some (JStr a), Some (JStr b)) \<Rightarrow> Some (a, b) | _ \<Rightarrow> None)"

definition session_moves :: "event list \<Rightarrow> string \<Rightarrow> move list" where
  "session_moves es i = map event_move (filter (\<lambda>e. ev_event_type e = SESSION_STATE_CHANGED \<and> ev_session_id e = i) es)"

definition conversation_moves :: "event list \<Rightarrow> string \<Rightarrow> move list" where
  "conversation_moves es i = map event_move (filter (\<lambda>e. ev_event_type e = CONVERSATION_STATE_CHANGED \<and> ev_conversation_id e = Some i) es)"

definition window_moves :: "event list \<Rightarrow> string \<Rightarrow> move list" where
  "window_moves es i = map event_move (filter (\<lambda>e. ev_event_type e = CONTEXT_WINDOW_STATE_CHANGED \<and> ev_conversation_id e = Some i) es)"

lemmas moves_def = session_moves_def conversation_moves_def window_moves_def

lemma moves_Nil [simp]: "session_moves [] = (\<lambda>_. [])" "conversation_moves [] = (\<lambda>_. [])" "window_moves [] = (\<lambda>_. [])"
  by (simp_all add: moves_def fun_eq_iff)

lemma event_move_payload: "ev_payload e = state_change_payload (Some a) b r @ x \<Longrightarrow> event_move e = Some (a, b)"
  by (simp add: event_move_def state_change_payload_def jopt_def)

text \<open>The window a conversation was announced with when it was created.\<close>

definition created_with :: "event list \<Rightarrow> string \<Rightarrow> context_window_state \<Rightarrow> bool" where
  "created_with es i x \<longleftrightarrow> (\<exists>e \<in> set es. ev_event_type e = CONVERSATION_CREATED \<and> ev_conversation_id e = Some i
     \<and> dict_get (ev_payload e) ''context_window_state'' = Some (JStr (window_state_value x)))"

section \<open>The chronicle\<close>

definition session_states :: "app \<Rightarrow> string \<Rightarrow> session_state option" where
  "session_states w i = map_option s_status (get_session (w_store w) i)"

definition conversation_states :: "app \<Rightarrow> string \<Rightarrow> conversation_state option" where
  "conversation_states w i = map_option c_status (get_conversation (w_store w) i)"

definition window_states :: "app \<Rightarrow> string \<Rightarrow> context_window_state option" where
  "window_states w i = map_option c_context_window_state (get_conversation (w_store w) i)"

text \<open>The events \<open>es\<close> tell how the records of \<open>b\<close> became those of \<open>w\<close>.\<close>

definition tells :: "app \<Rightarrow> event list \<Rightarrow> app \<Rightarrow> bool" where
  "tells b es w \<longleftrightarrow>
     told SESSION_TRANSITIONS session_state_value (\<lambda>_ s. s = Session_READY) (session_states b) (session_states w) (session_moves es)
   \<and> told CONVERSATION_TRANSITIONS conversation_state_value (\<lambda>_ c. c = Conv_NEW) (conversation_states b) (conversation_states w) (conversation_moves es)
   \<and> told CONTEXT_WINDOW_TRANSITIONS window_state_value (created_with es) (window_states b) (window_states w) (window_moves es)"

text \<open>The application takes writes, every record stands under its own id and the ids to come are not in use.\<close>

definition well_kept :: "app \<Rightarrow> bool" where
  "well_kept w \<longleftrightarrow> healthy w \<and> fresh_ids w
   \<and> (\<forall>i s. get_session (w_store w) i = Some s \<longrightarrow> s_session_id s = i)
   \<and> (\<forall>i c. get_conversation (w_store w) i = Some c \<longrightarrow> c_conversation_id c = i)"

definition chronicle :: "app \<Rightarrow> app \<Rightarrow> bool" where
  "chronicle b w \<longleftrightarrow> well_kept w \<and> (\<exists>es. w_delivered w = w_delivered b @ es \<and> tells b es w)"

lemma chronicle_start: "well_kept w \<Longrightarrow> chronicle w w"
  by (auto simp: chronicle_def tells_def told_start intro!: exI [of _ "[]"])

lemma states_cong:
  assumes "st_sessions (w_store w') = st_sessions (w_store w)" and "st_conversations (w_store w') = st_conversations (w_store w)"
  shows "session_states w' = session_states w" "conversation_states w' = conversation_states w" "window_states w' = window_states w"
  using assms by (simp_all add: fun_eq_iff session_states_def conversation_states_def window_states_def get_session_def get_conversation_def)

lemma tells_cong:
  assumes "st_sessions (w_store w') = st_sessions (w_store w)" and "st_conversations (w_store w') = st_conversations (w_store w)"
  shows "tells b es w' = tells b es w"
  using states_cong [OF assms] by (simp add: tells_def)

lemma well_kept_cong:
  assumes "well_kept w" and "healthy w'" and "st_sessions (w_store w') = st_sessions (w_store w)"
    and "st_conversations (w_store w') = st_conversations (w_store w)" and "w_env w' = w_env w" and "w_ids w \<le> w_ids w'"
  shows "well_kept w'"
  using assms by (simp add: well_kept_def fresh_ids_def get_session_def get_conversation_def)

lemma chronicle_same:
  assumes "chronicle b w" and "healthy w'" and "st_sessions (w_store w') = st_sessions (w_store w)"
    and "st_conversations (w_store w') = st_conversations (w_store w)" and "w_env w' = w_env w" and "w_ids w \<le> w_ids w'"
    and "w_delivered w' = w_delivered w"
  shows "chronicle b w'"
  using assms tells_cong [OF assms(3,4)] well_kept_cong [OF _ assms(2-6)] unfolding chronicle_def by auto

section \<open>Publishing and saving\<close>

lemma publish_run_healthy:
  assumes "healthy w"
  shows "\<exists>w'. publish e w = (Inr (), w') \<and> healthy w' \<and> w_delivered w' = w_delivered w @ [e]
    \<and> st_sessions (w_store w') = st_sessions (w_store w) \<and> st_conversations (w_store w') = st_conversations (w_store w)
    \<and> w_env w' = w_env w \<and> w_ids w \<le> w_ids w'"
proof -
  obtain w' where w': "publish e w = (Inr (), w')" "healthy w'" "w_delivered w' = w_delivered w @ [e]"
    using publish_healthy [OF assms] by blast
  show ?thesis using publish_records [OF w'(1)] publish_ids [OF w'(1)] w' by (intro exI [of _ w']) simp
qed

lemma moves_snoc:
  "session_moves (es @ [e]) = (\<lambda>i. session_moves es i @ (if ev_event_type e = SESSION_STATE_CHANGED \<and> ev_session_id e = i then [event_move e] else []))"
  "conversation_moves (es @ [e])
     = (\<lambda>i. conversation_moves es i @ (if ev_event_type e = CONVERSATION_STATE_CHANGED \<and> ev_conversation_id e = Some i then [event_move e] else []))"
  "window_moves (es @ [e])
     = (\<lambda>i. window_moves es i @ (if ev_event_type e = CONTEXT_WINDOW_STATE_CHANGED \<and> ev_conversation_id e = Some i then [event_move e] else []))"
  by (auto simp: moves_def)

lemma created_with_snoc: "created_with es i x \<Longrightarrow> created_with (es @ [e]) i x"
  by (auto simp: created_with_def)

lemma tells_ordinary: "tells b es w \<Longrightarrow> ordinary (ev_event_type e) \<Longrightarrow> tells b (es @ [e]) w"
  by (auto simp: tells_def moves_snoc ordinary_def intro: told_weaken created_with_snoc)

lemma keeps_chronicle_publish: "ordinary (ev_event_type e) \<Longrightarrow> keeps (chronicle b) (publish e)"
  unfolding keeps_def
proof (intro allI impI)
  fix w assume e: "ordinary (ev_event_type e)" and w: "chronicle b w"
  then have "healthy w" by (simp add: chronicle_def well_kept_def)
  then obtain w' where w': "publish e w = (Inr (), w')" "healthy w'" "w_delivered w' = w_delivered w @ [e]"
    "st_sessions (w_store w') = st_sessions (w_store w)" "st_conversations (w_store w') = st_conversations (w_store w)"
    "w_env w' = w_env w" "w_ids w \<le> w_ids w'"
    using publish_run_healthy by blast
  from w obtain es where es: "well_kept w" "w_delivered w = w_delivered b @ es" "tells b es w" by (auto simp: chronicle_def)
  have "tells b (es @ [e]) w'" using tells_ordinary [OF es(3) e] tells_cong [OF w'(4,5)] by simp
  then show "chronicle b (snd (publish e w))"
    using w' es(2) well_kept_cong [OF es(1) w'(2,4-7)] by (auto simp: chronicle_def)
qed

text \<open>A write that leaves the two tables and the audit chains alone and goes through in a store that takes writes.\<close>

definition steady_write :: "'a store_act \<Rightarrow> bool" where
  "steady_write m \<longleftrightarrow> (\<forall>st. \<not> st_closed st \<longrightarrow> \<not> st_fail_next_write st \<longrightarrow>
     \<not> st_closed (snd (m st)) \<and> \<not> st_fail_next_write (snd (m st)))"

lemma steady_saves:
  "steady_write (save_task t)" "steady_write (save_plan p)" "steady_write (save_cycle cy)" "steady_write (save_message m)"
  "steady_write (save_failure f)" "steady_write (save_retry_decision rd)" "steady_write (save_context_summary cs)"
  "steady_write (save_blob bl)" "steady_write (save_session ss)" "steady_write (save_conversation cv)"
  unfolding steady_write_def save_defs save_blob_def by (auto simp: write_record_def write_guard_def flow_simps touch_def)

lemma keeps_chronicle_store:
  assumes "leaves st_sessions m" and "leaves st_conversations m" and "leaves st_audit m" and "steady_write m"
  shows "keeps (chronicle b) (on_store m)"
  unfolding keeps_def
proof (intro allI impI)
  fix w assume w: "chronicle b w"
  obtain r st where run: "m (w_store w) = (r, st)" by (metis surj_pair)
  have healthy: "healthy w" using w by (simp add: chronicle_def well_kept_def)
  have st: "st_sessions st = st_sessions (w_store w)" "st_conversations st = st_conversations (w_store w)" "st_audit st = st_audit (w_store w)"
    "\<not> st_closed st" "\<not> st_fail_next_write st"
    using assms run healthy unfolding leaves_def steady_write_def healthy_def by (metis snd_conv)+
  have "healthy (w\<lparr>w_store := st\<rparr>)" by (rule healthy_cong [OF healthy]) (use st in simp_all)
  then show "chronicle b (snd (on_store m w))"
    using run st by (auto simp: on_part_def intro: chronicle_same [OF w])
qed

lemma keeps_chronicle_saves:
  "keeps (chronicle b) (on_store (save_task t))" "keeps (chronicle b) (on_store (save_plan p))" "keeps (chronicle b) (on_store (save_cycle cy))"
  "keeps (chronicle b) (on_store (save_message m))" "keeps (chronicle b) (on_store (save_failure fl))"
  "keeps (chronicle b) (on_store (save_retry_decision rd))" "keeps (chronicle b) (on_store (save_context_summary cs))"
  "keeps (chronicle b) (on_store (save_blob bl))"
  by (rule keeps_chronicle_store; simp add: saves_leave_records steady_saves)+

lemma healthy_reads:
  assumes "healthy w"
  shows "healthy (w\<lparr>w_clock_reads := n\<rparr>)" "healthy (w\<lparr>w_mono_reads := n\<rparr>)" "w_ids w \<le> n \<Longrightarrow> healthy (w\<lparr>w_ids := n\<rparr>)"
    "healthy (w\<lparr>w_breaker := br\<rparr>)"
  using assms by (auto intro!: healthy_cong [OF assms]) (simp_all add: healthy_def)

lemma chronicle_healthy: "chronicle b w \<Longrightarrow> healthy w"
  by (simp add: chronicle_def well_kept_def)

lemma keeps_chronicle_reads:
  "keeps (chronicle b) clock_now" "keeps (chronicle b) clock_monotonic_ms" "keeps (chronicle b) (new_id prefix)"
  "keeps (chronicle b) (upd_breaker f)"
  unfolding keeps_def
proof safe
  fix w assume w: "chronicle b w"
  note same = chronicle_same [OF w] healthy_reads [OF chronicle_healthy [OF w]]
  show "chronicle b (snd (clock_now w))" by (simp add: clock_now_def same)
  show "chronicle b (snd (clock_monotonic_ms w))" by (simp add: clock_monotonic_ms_def same)
  show "chronicle b (snd (new_id prefix w))" by (simp add: new_id_def same)
  show "chronicle b (snd (upd_breaker f w))" by (simp add: modifying_def same)
qed

section \<open>The lifecycle manager announces what it does\<close>

text \<open>A record that has been read and is about to be written.\<close>

definition at_session :: "app \<Rightarrow> session_record \<Rightarrow> app \<Rightarrow> bool" where
  "at_session b s w \<longleftrightarrow> chronicle b w \<and> get_session (w_store w) (s_session_id s) = Some s"

definition at_conversation :: "app \<Rightarrow> conversation_record \<Rightarrow> app \<Rightarrow> bool" where
  "at_conversation b c w \<longleftrightarrow> chronicle b w \<and> get_conversation (w_store w) (c_conversation_id c) = Some c"

lemma at_chronicle: "at_session b s w \<Longrightarrow> chronicle b w" "at_conversation b c w \<Longrightarrow> chronicle b w"
  by (simp_all add: at_session_def at_conversation_def)

lemma triple_at_session:
  "triple (chronicle b) (require_session sid) (\<lambda>s w. at_session b s w \<and> s_session_id s = sid) (chronicle b)"
  by (auto simp: triple_def require_session_def flow_simps at_session_def chronicle_def well_kept_def split: option.splits)

lemma triple_at_conversation:
  "triple (chronicle b) (require_conversation cid) (\<lambda>c w. at_conversation b c w \<and> c_conversation_id c = cid) (chronicle b)"
  by (auto simp: triple_def require_conversation_def flow_simps at_conversation_def chronicle_def well_kept_def split: option.splits)

lemma at_clock:
  "triple (at_session b s) clock_now (\<lambda>_. at_session b s) (chronicle b)"
  "triple (at_conversation b c) clock_now (\<lambda>_. at_conversation b c) (chronicle b)"
  using keepsD [OF keeps_chronicle_reads(1), of b]
  by (auto simp: triple_def at_session_def at_conversation_def clock_now_def)

lemma with_session:
  assumes "\<And>s. s_session_id s = sid \<Longrightarrow> triple (at_session b s) (f s) (\<lambda>_. chronicle b) (chronicle b)"
  shows "keeps (chronicle b) (bnd (require_session sid) f)"
  unfolding triple_keeps [symmetric] by (rule triple_bnd [OF triple_at_session], rule triple_assume, rule assms)

lemma with_conversation:
  assumes "\<And>c. c_conversation_id c = cid \<Longrightarrow> triple (at_conversation b c) (f c) (\<lambda>_. chronicle b) (chronicle b)"
  shows "keeps (chronicle b) (bnd (require_conversation cid) f)"
  unfolding triple_keeps [symmetric] by (rule triple_bnd [OF triple_at_conversation], rule triple_assume, rule assms)

lemmas at_steps = triple_check triple_checked_value triple_read triple_bnd [OF at_clock(1)] triple_bnd [OF at_clock(2)]

text \<open>A session is replaced in a healthy store.\<close>

lemma save_session_run:
  assumes "healthy w"
  shows "\<exists>w'. on_store (save_session s) w = (Inr (), w') \<and> healthy w' \<and> w_delivered w' = w_delivered w \<and> w_env w' = w_env w \<and> w_ids w' = w_ids w
    \<and> get_session (w_store w') = (get_session (w_store w))(s_session_id s \<mapsto> s) \<and> get_conversation (w_store w') = get_conversation (w_store w)"
proof -
  obtain st where run: "save_session s (w_store w) = (Inr (), st)"
    using assms by (simp add: healthy_def save_session_def write_record_Inr)
  obtain w' where "on_store (save_session s) w = (Inr (), w')" "healthy w'" using healthy_save_session [OF assms] by blast
  moreover from this run have "w' = w\<lparr>w_store := st\<rparr>" by (simp add: on_part_def)
  moreover have "get_conversation st = get_conversation (w_store w)"
    using run by (auto simp: save_session_def write_record_Inr get_conversation_def fun_eq_iff)
  ultimately show ?thesis using sessions.accepted [OF run] by (auto simp: fun_eq_iff)
qed

lemma save_conversation_run:
  assumes "healthy w"
  shows "\<exists>w'. on_store (save_conversation c) w = (Inr (), w') \<and> healthy w' \<and> w_delivered w' = w_delivered w \<and> w_env w' = w_env w \<and> w_ids w' = w_ids w
    \<and> get_conversation (w_store w') = (get_conversation (w_store w))(c_conversation_id c \<mapsto> c) \<and> get_session (w_store w') = get_session (w_store w)"
proof -
  obtain st where run: "save_conversation c (w_store w) = (Inr (), st)"
    using assms by (simp add: healthy_def save_conversation_def write_record_Inr)
  obtain w' where "on_store (save_conversation c) w = (Inr (), w')" "healthy w'" using healthy_save_conversation [OF assms] by blast
  moreover from this run have "w' = w\<lparr>w_store := st\<rparr>" by (simp add: on_part_def)
  moreover have "get_session st = get_session (w_store w)"
    using run by (auto simp: save_conversation_def write_record_Inr get_session_def fun_eq_iff)
  ultimately show ?thesis using conversations.accepted [OF run] by (auto simp: fun_eq_iff)
qed

text \<open>Every record stands under its own id still, and no identifier to come is taken.\<close>

lemma well_kept_replaced:
  assumes "well_kept w" and "healthy w'" and "w_env w' = w_env w" and "w_ids w' = w_ids w"
    and "\<And>k. get_session (w_store w) k = None \<Longrightarrow> get_session (w_store w') k = None"
    and "\<And>k. get_conversation (w_store w) k = None \<Longrightarrow> get_conversation (w_store w') k = None"
    and "\<And>k s. get_session (w_store w') k = Some s \<Longrightarrow> s_session_id s = k"
    and "\<And>k c. get_conversation (w_store w') k = Some c \<Longrightarrow> c_conversation_id c = k"
  shows "well_kept w'"
  using assms by (simp add: well_kept_def fresh_ids_def)

lemma well_kept_ids:
  assumes "well_kept w"
  shows "get_session (w_store w) k = Some s \<Longrightarrow> s_session_id s = k" "get_conversation (w_store w) k = Some c \<Longrightarrow> c_conversation_id c = k"
  using assms by (simp_all add: well_kept_def)

lemma well_kept_session:
  assumes "well_kept w" and "get_session (w_store w) (s_session_id s) \<noteq> None" and "healthy w'" and "w_env w' = w_env w" and "w_ids w' = w_ids w"
    and "get_session (w_store w') = (get_session (w_store w))(s_session_id s \<mapsto> s)" and "get_conversation (w_store w') = get_conversation (w_store w)"
  shows "well_kept w'"
  by (rule well_kept_replaced [OF assms(1,3-5)]) (use assms(2,6,7) well_kept_ids [OF assms(1)] in \<open>auto split: if_splits\<close>)

lemma well_kept_conversation:
  assumes "well_kept w" and "get_conversation (w_store w) (c_conversation_id c) \<noteq> None" and "healthy w'" and "w_env w' = w_env w" and "w_ids w' = w_ids w"
    and "get_conversation (w_store w') = (get_conversation (w_store w))(c_conversation_id c \<mapsto> c)" and "get_session (w_store w') = get_session (w_store w)"
  shows "well_kept w'"
  by (rule well_kept_replaced [OF assms(1,3-5)]) (use assms(2,6,7) well_kept_ids [OF assms(1)] in \<open>auto split: if_splits\<close>)

lemma states_of:
  "get_session (w_store w') = (get_session (w_store w))(i \<mapsto> s) \<Longrightarrow> session_states w' = (session_states w)(i \<mapsto> s_status s)"
  "get_session (w_store w') = get_session (w_store w) \<Longrightarrow> session_states w' = session_states w"
  "get_conversation (w_store w') = (get_conversation (w_store w))(i \<mapsto> c) \<Longrightarrow> conversation_states w' = (conversation_states w)(i \<mapsto> c_status c)"
  "get_conversation (w_store w') = (get_conversation (w_store w))(i \<mapsto> c) \<Longrightarrow> window_states w' = (window_states w)(i \<mapsto> c_context_window_state c)"
  "get_conversation (w_store w') = get_conversation (w_store w) \<Longrightarrow> conversation_states w' = conversation_states w"
  "get_conversation (w_store w') = get_conversation (w_store w) \<Longrightarrow> window_states w' = window_states w"
  by (auto simp: session_states_def conversation_states_def window_states_def fun_eq_iff)

lemma same_state: "f i = Some x \<Longrightarrow> f(i \<mapsto> x) = f"
  by auto

text \<open>After a save: the events tell the same, with one more announced change when the state has moved.\<close>

lemma session_saved:
  assumes "at_session b s w" and "s_session_id s' = s_session_id s"
  obtains w' es where "on_store (save_session s') w = (Inr (), w')" "well_kept w'" "w_delivered w' = w_delivered b @ es"
    "session_states w (s_session_id s) = Some (s_status s)" "session_states w' = (session_states w)(s_session_id s \<mapsto> s_status s')"
    "conversation_states w' = conversation_states w" "window_states w' = window_states w" "tells b es w"
proof -
  obtain es where es: "well_kept w" "w_delivered w = w_delivered b @ es" "tells b es w"
    and s: "get_session (w_store w) (s_session_id s) = Some s" using assms(1) by (auto simp: at_session_def chronicle_def)
  obtain w' where run: "on_store (save_session s') w = (Inr (), w')" and w': "healthy w'" "w_delivered w' = w_delivered w"
    "w_env w' = w_env w" "w_ids w' = w_ids w"
    "get_session (w_store w') = (get_session (w_store w))(s_session_id s' \<mapsto> s')" "get_conversation (w_store w') = get_conversation (w_store w)"
    using save_session_run [of w s'] es(1) unfolding well_kept_def by blast
  have "well_kept w'" by (rule well_kept_session [OF es(1) _ w'(1,3-6)]) (simp add: assms(2) s)
  moreover have "session_states w (s_session_id s) = Some (s_status s)" using s by (simp add: session_states_def)
  ultimately show ?thesis
    using that [OF run _ _ _ _ states_of(5,6) [OF w'(6)] es(3)] states_of(1) [OF w'(5)] w'(2) es(2) assms(2) by simp
qed

lemma conversation_saved:
  assumes "at_conversation b c w" and "c_conversation_id c' = c_conversation_id c"
  obtains w' es where "on_store (save_conversation c') w = (Inr (), w')" "well_kept w'" "w_delivered w' = w_delivered b @ es"
    "conversation_states w (c_conversation_id c) = Some (c_status c)" "window_states w (c_conversation_id c) = Some (c_context_window_state c)"
    "conversation_states w' = (conversation_states w)(c_conversation_id c \<mapsto> c_status c')"
    "window_states w' = (window_states w)(c_conversation_id c \<mapsto> c_context_window_state c')" "session_states w' = session_states w" "tells b es w"
proof -
  obtain es where es: "well_kept w" "w_delivered w = w_delivered b @ es" "tells b es w"
    and c: "get_conversation (w_store w) (c_conversation_id c) = Some c" using assms(1) by (auto simp: at_conversation_def chronicle_def)
  obtain w' where run: "on_store (save_conversation c') w = (Inr (), w')" and w': "healthy w'" "w_delivered w' = w_delivered w"
    "w_env w' = w_env w" "w_ids w' = w_ids w"
    "get_conversation (w_store w') = (get_conversation (w_store w))(c_conversation_id c' \<mapsto> c')" "get_session (w_store w') = get_session (w_store w)"
    using save_conversation_run [of w c'] es(1) unfolding well_kept_def by blast
  have "well_kept w'" by (rule well_kept_conversation [OF es(1) _ w'(1,3-6)]) (simp add: assms(2) c)
  moreover have "conversation_states w (c_conversation_id c) = Some (c_status c)" "window_states w (c_conversation_id c) = Some (c_context_window_state c)"
    using c by (simp_all add: conversation_states_def window_states_def)
  ultimately show ?thesis
    using that [OF run _ _ _ _ _ _ states_of(2) [OF w'(6)] es(3)] states_of(3,4) [OF w'(5)] w'(2) es(2) assms(2) by simp
qed

lemma triple_save_session_same:
  assumes "s_session_id s' = s_session_id s" and "s_status s' = s_status s"
  shows "triple (at_session b s) (on_store (save_session s')) (\<lambda>_. chronicle b) (chronicle b)"
proof (rule triple_from_snd)
  fix w assume w: "at_session b s w"
  obtain w' es where w': "on_store (save_session s') w = (Inr (), w')" "well_kept w'" "w_delivered w' = w_delivered b @ es"
    "session_states w (s_session_id s) = Some (s_status s)" "session_states w' = (session_states w)(s_session_id s \<mapsto> s_status s')"
    "conversation_states w' = conversation_states w" "window_states w' = window_states w" "tells b es w"
    using w assms(1) by (rule session_saved)
  then have "tells b es w'" by (simp add: tells_def assms(2) same_state)
  with w' show "chronicle b (snd (on_store (save_session s') w))" by (auto simp: chronicle_def)
qed

lemma triple_save_conversation_same:
  assumes "c_conversation_id c' = c_conversation_id c" and "c_status c' = c_status c" and "c_context_window_state c' = c_context_window_state c"
  shows "triple (at_conversation b c) (on_store (save_conversation c')) (\<lambda>_. chronicle b) (chronicle b)"
proof (rule triple_from_snd)
  fix w assume w: "at_conversation b c w"
  obtain w' es where w': "on_store (save_conversation c') w = (Inr (), w')" "well_kept w'" "w_delivered w' = w_delivered b @ es"
    "conversation_states w (c_conversation_id c) = Some (c_status c)" "window_states w (c_conversation_id c) = Some (c_context_window_state c)"
    "conversation_states w' = (conversation_states w)(c_conversation_id c \<mapsto> c_status c')"
    "window_states w' = (window_states w)(c_conversation_id c \<mapsto> c_context_window_state c')" "session_states w' = session_states w" "tells b es w"
    using w assms(1) by (rule conversation_saved)
  then have "tells b es w'" by (simp add: tells_def assms(2,3) same_state)
  with w' show "chronicle b (snd (on_store (save_conversation c') w))" by (auto simp: chronicle_def)
qed

text \<open>A change of state is written, then announced: the record and the events agree again.\<close>

lemma announced:
  assumes "well_kept w" and "w_delivered w = w_delivered b @ es" and "tells b (es @ [e]) w"
  shows "chronicle b (snd (publish e w))"
proof -
  obtain w' where w': "publish e w = (Inr (), w')" "healthy w'" "w_delivered w' = w_delivered w @ [e]"
    "st_sessions (w_store w') = st_sessions (w_store w)" "st_conversations (w_store w') = st_conversations (w_store w)"
    "w_env w' = w_env w" "w_ids w \<le> w_ids w'"
    using publish_run_healthy [of w e] assms(1) unfolding well_kept_def by blast
  then show ?thesis
    using assms tells_cong [OF w'(4,5)] well_kept_cong [OF assms(1) w'(2,4-7)] by (auto simp: chronicle_def)
qed

lemma announced_then:
  assumes "on_store m w = (Inr (), w')" and "well_kept w'" and "w_delivered w' = w_delivered b @ es"
    and "tells b (es @ [lifecycle_event ty now k cid payload]) w'"
  shows "chronicle b (snd (andthen (on_store m) (andthen (lifecycle_publish ty now k cid payload) (ret r)) w))"
  using announced [OF assms(2-4)] assms(1)
  by (simp add: andthen_run lifecycle_publish_alt ret_def split: prod.splits sum.splits) (metis snd_conv)

lemma lifecycle_event_move:
  "event_move (lifecycle_event ty now k cid (state_change_payload (Some a) x r @ p)) = Some (a, x)"
  "ev_event_type (lifecycle_event ty now k cid payload) = ty" "ev_session_id (lifecycle_event ty now k cid payload) = k"
  "ev_conversation_id (lifecycle_event ty now k cid payload) = cid" "ev_payload (lifecycle_event ty now k cid payload) = payload"
  by (simp_all add: lifecycle_event_def event_move_payload)

lemma triple_announce_session:
  assumes "s_session_id s' = s_session_id s" and "s_status s' \<in> SESSION_TRANSITIONS (s_status s)"
    and "payload = state_change_payload (Some (session_state_value (s_status s))) (session_state_value (s_status s')) why"
  shows "triple (at_session b s) (andthen (on_store (save_session s'))
      (andthen (lifecycle_publish SESSION_STATE_CHANGED now (s_session_id s) None payload) (ret r))) (\<lambda>_. chronicle b) (chronicle b)"
proof (rule triple_from_snd)
  fix w assume w: "at_session b s w"
  obtain w' es where w': "on_store (save_session s') w = (Inr (), w')" "well_kept w'" "w_delivered w' = w_delivered b @ es"
    "session_states w (s_session_id s) = Some (s_status s)" "session_states w' = (session_states w)(s_session_id s \<mapsto> s_status s')"
    "conversation_states w' = conversation_states w" "window_states w' = window_states w" "tells b es w"
    using w assms(1) by (rule session_saved)
  have "told SESSION_TRANSITIONS session_state_value (\<lambda>_ s. s = Session_READY) (session_states b) (session_states w')
      (\<lambda>j. session_moves es j @ (if s_session_id s = j then [Some (session_state_value (s_status s), session_state_value (s_status s'))] else []))"
    unfolding w'(5) by (rule told_move) (use w'(4,8) assms(2) in \<open>simp_all add: tells_def\<close>)
  then have "tells b (es @ [lifecycle_event SESSION_STATE_CHANGED now (s_session_id s) None payload]) w'"
    using w'(6-8) lifecycle_event_move(1) [where p = "[]"]
    by (auto simp: tells_def moves_snoc lifecycle_event_move assms(3) intro: told_weaken created_with_snoc cong: if_cong)
  with w' show "chronicle b (snd (andthen (on_store (save_session s'))
      (andthen (lifecycle_publish SESSION_STATE_CHANGED now (s_session_id s) None payload) (ret r)) w))"
    by (intro announced_then)
qed

lemma triple_announce_conversation:
  assumes "c_conversation_id c' = c_conversation_id c" and "c_status c' \<in> CONVERSATION_TRANSITIONS (c_status c)"
    and "c_context_window_state c' = c_context_window_state c"
    and "payload = state_change_payload (Some (conversation_state_value (c_status c))) (conversation_state_value (c_status c')) why"
  shows "triple (at_conversation b c) (andthen (on_store (save_conversation c'))
      (andthen (lifecycle_publish CONVERSATION_STATE_CHANGED now k (Some (c_conversation_id c)) payload) (ret r))) (\<lambda>_. chronicle b) (chronicle b)"
proof (rule triple_from_snd)
  fix w assume w: "at_conversation b c w"
  obtain w' es where w': "on_store (save_conversation c') w = (Inr (), w')" "well_kept w'" "w_delivered w' = w_delivered b @ es"
    "conversation_states w (c_conversation_id c) = Some (c_status c)" "window_states w (c_conversation_id c) = Some (c_context_window_state c)"
    "conversation_states w' = (conversation_states w)(c_conversation_id c \<mapsto> c_status c')"
    "window_states w' = (window_states w)(c_conversation_id c \<mapsto> c_context_window_state c')" "session_states w' = session_states w" "tells b es w"
    using w assms(1) by (rule conversation_saved)
  have "told CONVERSATION_TRANSITIONS conversation_state_value (\<lambda>_ c. c = Conv_NEW) (conversation_states b) (conversation_states w')
      (\<lambda>j. conversation_moves es j @ (if c_conversation_id c = j then [Some (conversation_state_value (c_status c), conversation_state_value (c_status c'))] else []))"
    unfolding w'(6) by (rule told_move) (use w'(4,9) assms(2) in \<open>simp_all add: tells_def\<close>)
  moreover have "window_states w' = window_states w" unfolding w'(7) assms(3) by (rule same_state) (rule w'(5))
  ultimately have "tells b (es @ [lifecycle_event CONVERSATION_STATE_CHANGED now k (Some (c_conversation_id c)) payload]) w'"
    using w'(8,9) lifecycle_event_move(1) [where p = "[]"]
    by (auto simp: tells_def moves_snoc lifecycle_event_move assms(4) intro: told_weaken created_with_snoc cong: if_cong)
  with w' show "chronicle b (snd (andthen (on_store (save_conversation c'))
      (andthen (lifecycle_publish CONVERSATION_STATE_CHANGED now k (Some (c_conversation_id c)) payload) (ret r)) w))"
    by (intro announced_then)
qed

lemma triple_announce_window:
  assumes "c_conversation_id c' = c_conversation_id c" and "c_context_window_state c' \<in> CONTEXT_WINDOW_TRANSITIONS (c_context_window_state c)"
    and "c_status c' = c_status c" and "c_conversation_id c = cid"
    and "payload = state_change_payload (Some (window_state_value (c_context_window_state c))) (window_state_value (c_context_window_state c')) why @ rest"
  shows "triple (at_conversation b c) (andthen (on_store (save_conversation c'))
      (andthen (lifecycle_publish CONTEXT_WINDOW_STATE_CHANGED now k (Some cid) payload) (ret r))) (\<lambda>_. chronicle b) (chronicle b)"
proof (rule triple_from_snd)
  fix w assume w: "at_conversation b c w"
  obtain w' es where w': "on_store (save_conversation c') w = (Inr (), w')" "well_kept w'" "w_delivered w' = w_delivered b @ es"
    "conversation_states w (c_conversation_id c) = Some (c_status c)" "window_states w (c_conversation_id c) = Some (c_context_window_state c)"
    "conversation_states w' = (conversation_states w)(c_conversation_id c \<mapsto> c_status c')"
    "window_states w' = (window_states w)(c_conversation_id c \<mapsto> c_context_window_state c')" "session_states w' = session_states w" "tells b es w"
    using w assms(1) by (rule conversation_saved)
  let ?e = "lifecycle_event CONTEXT_WINDOW_STATE_CHANGED now k (Some cid) payload"
  have "told CONTEXT_WINDOW_TRANSITIONS window_state_value (created_with es) (window_states b) (window_states w')
      (\<lambda>j. window_moves es j @ (if c_conversation_id c = j then [Some (window_state_value (c_context_window_state c), window_state_value (c_context_window_state c'))] else []))"
    unfolding w'(7) by (rule told_move) (use w'(5,9) assms(2) in \<open>simp_all add: tells_def\<close>)
  then have "told CONTEXT_WINDOW_TRANSITIONS window_state_value (created_with (es @ [?e])) (window_states b) (window_states w') (window_moves (es @ [?e]))"
    by (auto simp: moves_snoc lifecycle_event_move assms(4,5) intro: told_weaken created_with_snoc cong: if_cong)
  moreover have "conversation_states w' = conversation_states w" unfolding w'(6) assms(3) by (rule same_state) (rule w'(4))
  ultimately have "tells b (es @ [?e]) w'"
    using w'(8,9) by (simp add: tells_def moves_snoc lifecycle_event_move)
  with w' show "chronicle b (snd (andthen (on_store (save_conversation c'))
      (andthen (lifecycle_publish CONTEXT_WINDOW_STATE_CHANGED now k (Some cid) payload) (ret r)) w))"
    by (intro announced_then)
qed

section \<open>Every primitive keeps the chronicle\<close>

lemma keeps_chronicle_sessions: "keeps (chronicle b) (update_session sid us)" "keeps (chronicle b) (transition_session sid to why us)"
proof -
  show "keeps (chronicle b) (update_session sid us)"
    unfolding update_session_def bnd_ret
    by (intro with_session at_steps triple_andthen [OF triple_save_session_same] triple_ret)
      (auto simp: at_chronicle dest: apply_session_same)
  show "keeps (chronicle b) (transition_session sid to why us)"
    unfolding transition_session_def bnd_ret
    by (rule with_session, hypsubst, intro at_steps triple_announce_session)
      (auto simp: at_chronicle can_transition_def dest: apply_session_same)
qed

lemma triple_commit_announced:
  assumes "to \<in> CONVERSATION_TRANSITIONS (c_status c)"
  shows "triple (at_conversation b c) (commit_conversation_transition c to why us) (\<lambda>_. chronicle b) (chronicle b)"
  unfolding commit_conversation_transition_def bnd_ret
  by (intro at_steps; (frule apply_conversation_same)?; simp add: at_chronicle) (rule triple_announce_conversation; use assms in simp)

lemma keeps_chronicle_conversations:
  "keeps (chronicle b) (update_conversation cid us)" "keeps (chronicle b) (transition_conversation cid to why us)"
  "keeps (chronicle b) (transition_context_window cid x why)"
proof -
  show "keeps (chronicle b) (update_conversation cid us)"
    unfolding update_conversation_def bnd_ret
    by (intro with_conversation at_steps triple_andthen [OF triple_save_conversation_same] triple_ret)
      (auto simp: at_chronicle dest: apply_conversation_same)
  show "keeps (chronicle b) (transition_conversation cid to why us)"
    unfolding transition_conversation_def
    by (intro with_conversation at_steps triple_commit_announced) (auto simp: at_chronicle can_transition_def)
  show "keeps (chronicle b) (transition_context_window cid x why)"
    unfolding transition_context_window_def bnd_ret
    by (intro with_conversation at_steps triple_announce_window) (auto simp: at_chronicle can_transition_def)
qed

text \<open>A new conversation starts in state NEW, and its event names the window it starts with.\<close>

lemma create_both_healthy:
  assumes "healthy w"
  shows "\<exists>st'. transaction (andthen (save_conversation c) (save_session s)) (w_store w) = (Inr (), st') \<and> healthy (w\<lparr>w_store := st'\<rparr>)"
proof -
  obtain st1 where one: "save_conversation c (w_store w) = (Inr (), st1)" "\<not> st_closed st1" "\<not> st_fail_next_write st1" "st_audit st1 = st_audit (w_store w)"
    using assms by (auto simp: healthy_def save_conversation_def write_record_def write_guard_def flow_simps touch_def)
  obtain st2 where two: "save_session s st1 = (Inr (), st2)" "\<not> st_closed st2" "\<not> st_fail_next_write st2" "st_audit st2 = st_audit st1"
    using one(2,3) by (auto simp: save_session_def write_record_def write_guard_def flow_simps touch_def)
  have "transaction (andthen (save_conversation c) (save_session s)) (w_store w) = (Inr (), st2)"
    using assms one(1) two(1) by (simp add: transaction_def andthen_run healthy_def)
  moreover have "healthy (w\<lparr>w_store := st2\<rparr>)" by (rule healthy_cong [OF assms]) (use one two in simp_all)
  ultimately show ?thesis by blast
qed

lemma fresh_conversation_id:
  assumes "well_kept w"
  shows "get_conversation (w_store w) (''conv-'' @ e_uuid (w_env w) (w_ids w)) = None"
  using assms by (simp add: well_kept_def fresh_ids_def)

lemma well_kept_added:
  assumes "well_kept w" and "get_session (w_store w) (s_session_id s) \<noteq> None" and "c_conversation_id c = ''conv-'' @ e_uuid (w_env w) (w_ids w)"
    and "healthy w'" and "w_env w' = w_env w" and "w_ids w' = w_ids w + 1"
    and "get_session (w_store w') = (get_session (w_store w))(s_session_id s \<mapsto> s)"
    and "get_conversation (w_store w') = (get_conversation (w_store w))(c_conversation_id c \<mapsto> c)"
  shows "well_kept w'"
proof -
  have old: "inj (e_uuid (w_env w))" "\<And>n. w_ids w \<le> n \<Longrightarrow> get_session (w_store w) (''sess-'' @ e_uuid (w_env w) n) = None"
    "\<And>n. w_ids w \<le> n \<Longrightarrow> get_conversation (w_store w) (''conv-'' @ e_uuid (w_env w) n) = None"
    using assms(1) by (simp_all add: well_kept_def fresh_ids_def)
  have "get_session (w_store w') (''sess-'' @ e_uuid (w_env w) n) = None" if "w_ids w + 1 \<le> n" for n
  proof -
    have n: "get_session (w_store w) (''sess-'' @ e_uuid (w_env w) n) = None" using old(2) that by simp
    then have "''sess-'' @ e_uuid (w_env w) n \<noteq> s_session_id s" using assms(2) by metis
    with n show ?thesis unfolding assms(7) by (metis fun_upd_other)
  qed
  moreover have "get_conversation (w_store w') (''conv-'' @ e_uuid (w_env w) n) = None" if "w_ids w + 1 \<le> n" for n
  proof -
    have "e_uuid (w_env w) n \<noteq> e_uuid (w_env w) (w_ids w)" using old(1) that by (auto dest: injD)
    then have "''conv-'' @ e_uuid (w_env w) n \<noteq> c_conversation_id c" by (simp add: assms(3))
    moreover have "get_conversation (w_store w) (''conv-'' @ e_uuid (w_env w) n) = None" using that by (intro old(3)) simp
    ultimately show ?thesis unfolding assms(8) by (metis fun_upd_other)
  qed
  ultimately have "fresh_ids w'" using old(1) by (simp only: fresh_ids_def assms(5,6)) blast
  then show ?thesis
    using assms(4,7,8) well_kept_ids [OF assms(1)] by (auto simp: well_kept_def split: if_splits)
qed

lemma told_created:
  assumes "tells b es w" and "session_states w' = session_states w" and "conversation_states w i = None" and "window_states w i = None"
    and "conversation_states w' = (conversation_states w)(i \<mapsto> Conv_NEW)" and "window_states w' = (window_states w)(i \<mapsto> x)"
    and "ev_event_type e = CONVERSATION_CREATED" and "ev_conversation_id e = Some i"
    and "dict_get (ev_payload e) ''context_window_state'' = Some (JStr (window_state_value x))"
  shows "tells b (es @ [e]) w'"
proof -
  have ordinary: "ordinary (ev_event_type e)" by (simp add: assms(7) ordinary_def)
  have now: "tells b (es @ [e]) w" by (rule tells_ordinary [OF assms(1) ordinary])
  have "created_with (es @ [e]) i x" using assms(7-9) by (auto simp: created_with_def)
  then show ?thesis
    using now told_born [of CONVERSATION_TRANSITIONS _ _ _ _ _ i Conv_NEW] told_born [of CONTEXT_WINDOW_TRANSITIONS _ _ _ _ _ i x] assms(3,4)
    unfolding tells_def assms(2,5,6) by blast
qed

lemma keeps_chronicle_create: "keeps (chronicle b) (create_conversation sid parent x)"
proof -
  have tail: "triple (at_session b s) (bnd new_conversation_id (\<lambda>cid.
     andthen (on_store (transaction (andthen (save_conversation ((new_conversation cid s parent x now)\<lparr>c_session_id := sid\<rparr>))
        (save_session (s\<lparr>s_current_conversation_id := Some cid, s_updated_at := now\<rparr>)))))
    (andthen (lifecycle_publish CONVERSATION_CREATED now sid (Some cid)
        [(''parent_conversation_id'', p), (''context_window_state'', JStr (window_state_value x))]) (ret (result cid))))) (\<lambda>_. chronicle b) (chronicle b)"
    for s now p result
  proof (rule triple_from_snd)
    fix w assume at: "at_session b s w"
    let ?cid = "''conv-'' @ e_uuid (w_env w) (w_ids w)"
    let ?c = "(new_conversation ?cid s parent x now)\<lparr>c_session_id := sid\<rparr>"
    let ?s = "s\<lparr>s_current_conversation_id := Some ?cid, s_updated_at := now\<rparr>"
    let ?w = "w\<lparr>w_ids := w_ids w + 1\<rparr>"
    let ?p = "[(''parent_conversation_id'', p), (''context_window_state'', JStr (window_state_value x))]"
    obtain es where es: "well_kept w" "w_delivered w = w_delivered b @ es" "tells b es w"
      and s: "get_session (w_store w) (s_session_id s) = Some s" using at by (auto simp: at_session_def chronicle_def)
    have "healthy ?w" using healthy_reads(3) [of w] es(1) by (simp add: well_kept_def)
    then obtain st' where run: "transaction (andthen (save_conversation ?c) (save_session ?s)) (w_store w) = (Inr (), st')"
      and healthy: "healthy (?w\<lparr>w_store := st'\<rparr>)" using create_both_healthy [of ?w ?c ?s] by auto
    let ?w' = "?w\<lparr>w_store := st'\<rparr>"
    note records = create_both_run [OF run]
    have sessions: "get_session (w_store ?w') = (get_session (w_store w))(s_session_id s \<mapsto> ?s)" using records(1) by (auto simp: fun_eq_iff)
    have conversations: "get_conversation (w_store ?w') = (get_conversation (w_store w))(?cid \<mapsto> ?c)"
      using records(2) by (auto simp: fun_eq_iff new_conversation_def)
    have kept: "well_kept ?w'"
      by (rule well_kept_added [OF es(1) _ _ healthy, of ?s ?c]) (use s sessions conversations in \<open>simp_all add: new_conversation_def\<close>)
    have new: "conversation_states w ?cid = None" "window_states w ?cid = None"
      using fresh_conversation_id [OF es(1)] by (simp_all add: conversation_states_def window_states_def)
    have "session_states ?w' = session_states w"
      unfolding states_of(1) [OF sessions] using s by (intro ext) (simp add: session_states_def)
    moreover have "conversation_states ?w' = (conversation_states w)(?cid \<mapsto> Conv_NEW)" "window_states ?w' = (window_states w)(?cid \<mapsto> x)"
      using states_of(3,4) [OF conversations] by (simp_all add: new_conversation_def)
    ultimately have "tells b (es @ [lifecycle_event CONVERSATION_CREATED now sid (Some ?cid) ?p]) ?w'"
      by (intro told_created [OF es(3) _ new]) (simp_all add: lifecycle_event_move)
    then have "chronicle b (snd (publish (lifecycle_event CONVERSATION_CREATED now sid (Some ?cid) ?p) ?w'))"
      using announced [OF kept] es(2) by simp
    then show "chronicle b (snd (bnd new_conversation_id (\<lambda>cid.
       andthen (on_store (transaction (andthen (save_conversation ((new_conversation cid s parent x now)\<lparr>c_session_id := sid\<rparr>))
          (save_session (s\<lparr>s_current_conversation_id := Some cid, s_updated_at := now\<rparr>)))))
      (andthen (lifecycle_publish CONVERSATION_CREATED now sid (Some cid) ?p) (ret (result cid)))) w))"
      using run by (simp add: bnd_run id_defs on_part_def andthen_run lifecycle_publish_alt ret_def split: prod.splits sum.splits) (metis snd_conv)
  qed
  have parent: "triple (at_session b s) (check_parent sid parent) (\<lambda>_. at_session b s) (chronicle b)" for s
    by (auto simp: triple_def check_parent_def require_conversation_def guardR_def flow_simps at_session_def split: option.splits if_splits sum.splits)
  show ?thesis
    unfolding create_conversation_def bnd_ret
    by (intro with_session triple_andthen [OF parent] triple_bnd [OF at_clock(1)] tail)
qed

lemma chronicle_rollback:
  assumes "chronicle b w" and "chronicle b w'" and "onwards w w'"
  shows "chronicle b (w'\<lparr>w_store := restore (w_store w) (w_store w')\<rparr>)"
proof (rule chronicle_same [OF assms(1)])
  have healthy: "healthy w" "healthy w'" using assms(1,2) by (simp_all add: chronicle_healthy)
  show "healthy (w'\<lparr>w_store := restore (w_store w) (w_store w')\<rparr>)"
    by (rule healthy_cong [OF healthy(1)]) (use healthy(2) assms(3) in \<open>simp_all add: restore_def onwards_def healthy_def\<close>)
qed (use assms(3) in \<open>simp_all add: restore_def onwards_def\<close>)

interpretation chronicled: free_invariant "chronicle b" "\<lambda>_. True"
  by unfold_locales (rule keeps_chronicle_publish keeps_chronicle_reads keeps_chronicle_saves chronicle_rollback keeps_chronicle_sessions
      keeps_chronicle_conversations keeps_chronicle_create TrueI | assumption)+

section \<open>Property\<close>

text \<open>
  C10. The bus tells the whole history of a run: if the application takes writes and what other tasks do meanwhile is
  announced too, the events a run publishes, whatever the model answers and however it ends, account for every change of a
  state. For each session, the changes announced for it are listed transitions, each from where the one before ended, that
  lead from the state it had (READY for one that is new) to the state it has; the same for each conversation, new ones
  starting as NEW, and for each context window, new ones starting as their creation announced. No record has
  disappeared, and every one is still stored under its own id.
\<close>

theorem run_announces_its_changes:
  assumes "well_kept w" and "surroundings_keep (\<lambda>s. chronicle w (fst s)) oc"
    and "run_session li oc sid entry msg (w, h) = (r, w', h')"
  shows "\<exists>es. w_delivered w' = w_delivered w @ es \<and> well_kept w'
     \<and> told SESSION_TRANSITIONS session_state_value (\<lambda>_ s. s = Session_READY)
         (session_states w) (session_states w') (session_moves es)
     \<and> told CONVERSATION_TRANSITIONS conversation_state_value (\<lambda>_ c. c = Conv_NEW)
         (conversation_states w) (conversation_states w') (conversation_moves es)
     \<and> told CONTEXT_WINDOW_TRANSITIONS window_state_value (created_with es)
         (window_states w) (window_states w') (window_moves es)"
proof -
  have "chronicle w w'" using chronicled.kept_run_session [OF assms(2), of "(w, h)" li sid entry msg] chronicle_start [OF assms(1)] assms(3) by simp
  then show ?thesis unfolding chronicle_def tells_def by blast
qed

lemma well_kept_crashed_app: "well_kept (crashed_app x y [])"
  using crashed_app_sane(1) [of x y "[]"] inj_sample_uuid
  by (auto simp: well_kept_def fresh_ids_def crashed_app_def fresh_app_def get_session_def get_conversation_def empty_store_def
      crashed_session_def new_session_def sample_conversation_def new_conversation_def split: if_splits)

theorem run_announces_its_changes_witness:
  "\<exists>w' es. fst (snd (run_session few (sample_orchestrator (ValueError [])) ''s'' Entry_RESUME None (stuck, new_handler))) = w'
     \<and> w_delivered w' = w_delivered stuck @ es
     \<and> told SESSION_TRANSITIONS session_state_value (\<lambda>_ s. s = Session_READY) (session_states stuck) (session_states w') (session_moves es)"
proof -
  obtain r w' h' where run: "run_session few (sample_orchestrator (ValueError [])) ''s'' Entry_RESUME None (stuck, new_handler) = (r, w', h')"
    by (metis surj_pair)
  with run_announces_its_changes [OF well_kept_crashed_app sample_surroundings_keep run] show ?thesis by auto
qed

end
