(* ===== verification/Dialects.thy ===== *)
theory Dialects
  imports Collector
begin

text \<open>
  \<open>domain/dialects.py\<close>: the dictionary between a POSIX shell and PowerShell. The scan of a command line, the rewriting of
  its variables, the rules, the refusals and the translator. Text is a list of characters below 256, so the tests of
  \<open>str\<close> and of \<open>re\<close> (\<open>\w\<close>, \<open>isspace\<close>, \<open>isdigit\<close>) are those of Latin-1.
\<close>

section \<open>Characters\<close>

abbreviation code :: "char \<Rightarrow> nat" where "code c \<equiv> of_char c"

definition DOLLAR :: char where "DOLLAR = CHR ''$''"
definition NOWHERE_SPACES :: "nat set" where "NOWHERE_SPACES = {0x85, 0xA0}"
definition SUPERSCRIPTS :: "nat set" where "SUPERSCRIPTS = {0xB2, 0xB3, 0xB9}"

definition space_char :: "char \<Rightarrow> bool" where
  "space_char c \<longleftrightarrow> is_space c \<or> code c \<in> NOWHERE_SPACES"

text \<open>\<open>\w\<close>: letters, digits and the underscore; the superscripts and the fractions are numeric.\<close>

definition word_char :: "char \<Rightarrow> bool" where
  "word_char c \<longleftrightarrow> ident_start c \<or> is_digit c \<or> code c \<in> {0xAA, 0xB5, 0xBA, 0xBC, 0xBD, 0xBE} \<or> code c \<in> SUPERSCRIPTS
     \<or> (0xC0 \<le> code c \<and> code c \<noteq> 0xD7 \<and> code c \<noteq> 0xF7)"

definition digit_char :: "char \<Rightarrow> bool" where
  "digit_char c \<longleftrightarrow> is_digit c \<or> code c \<in> SUPERSCRIPTS"

text \<open>\<open>str.isdigit\<close>, and \<open>int\<close> of such a text: no superscript, and not more digits than CPython converts.\<close>

definition isdigit :: "string \<Rightarrow> bool" where
  "isdigit s \<longleftrightarrow> s \<noteq> [] \<and> list_all digit_char s"

definition INT_MAX_STR_DIGITS :: nat where "INT_MAX_STR_DIGITS = 4300"

definition py_int :: "string \<Rightarrow> exn + int" where
  "py_int s =
     (if \<not> list_all is_digit s then Inl (ValueError (''invalid literal for int() with base 10: '' @ [CHR 0x27] @ s @ [CHR 0x27]))
      else if length s > INT_MAX_STR_DIGITS then Inl (ValueError ''Exceeds the limit (4300 digits) for integer string conversion'')
      else Inr (int (digits_value s)))"

text \<open>\<open>name.upper()\<close> as far as it reaches ASCII: the sharp s becomes two letters.\<close>

definition upper_name :: "string \<Rightarrow> string" where
  "upper_name s = concat (map (\<lambda>c. if code c = 0xDF then ''SS'' else [upper_char c]) s)"

definition rstrip_by :: "(char \<Rightarrow> bool) \<Rightarrow> string \<Rightarrow> string" where
  "rstrip_by p s = rev (dropWhile p (rev s))"

section \<open>Variables\<close>

definition source_dialect_for :: "shell_dialect \<Rightarrow> shell_dialect" where
  "source_dialect_for target = (if target = Dialect_POWERSHELL then Dialect_POSIX else Dialect_POWERSHELL)"

definition TRANSLATABLE :: "shell_dialect set" where
  "TRANSLATABLE = {Dialect_POSIX, Dialect_POWERSHELL}"

definition POSIX_OWNED_NAMES :: "string set" where
  "POSIX_OWNED_NAMES = {''HOME'', ''PWD'', ''OLDPWD'', ''SHELL'', ''USER'', ''LOGNAME'', ''HOSTNAME'', ''UID'', ''EUID'', ''PPID'', ''IFS'',
     ''PS1'', ''PS2'', ''PS4'', ''RANDOM'', ''SECONDS'', ''LINENO'', ''SHLVL'', ''BASH'', ''BASH_VERSION'', ''BASHPID'', ''FUNCNAME'', ''REPLY'',
     ''OPTARG'', ''OPTIND''}"

definition WINDOWS_OWNED_NAMES :: "string set" where
  "WINDOWS_OWNED_NAMES = {''USERPROFILE'', ''USERNAME'', ''USERDOMAIN'', ''COMPUTERNAME'', ''APPDATA'', ''LOCALAPPDATA'', ''ALLUSERSPROFILE'',
     ''PROGRAMFILES'', ''PROGRAMDATA'', ''PUBLIC'', ''SYSTEMROOT'', ''SYSTEMDRIVE'', ''WINDIR'', ''COMSPEC'', ''PATHEXT'', ''HOMEDRIVE'',
     ''HOMEPATH'', ''TEMP'', ''TMP'', ''OS'', ''PROCESSOR_ARCHITECTURE''}"

text \<open>\<open>[A-Za-z_]\w*\<close> at the start of a text, with the rest.\<close>

definition read_name :: "string \<Rightarrow> (string \<times> string) option" where
  "read_name s = (case s of [] \<Rightarrow> None
     | c # cs \<Rightarrow> if ident_start c then Some (c # takeWhile word_char cs, dropWhile word_char cs) else None)"

text \<open>One match of a variable pattern: its text, the name, and what follows it.\<close>

record variable_match =
  vm_text :: string
  vm_name :: string
  vm_rest :: string

definition braced_variable :: "string \<Rightarrow> variable_match option" where
  "braced_variable s =
     (if starts_with ''${'' s
      then case read_name (drop 2 s) of
        Some (name, d # rest) \<Rightarrow> if d = CHR ''}'' then Some \<lparr>vm_text = ''${'' @ name @ ''}'', vm_name = name, vm_rest = rest\<rparr> else None
      | _ \<Rightarrow> None
      else None)"

definition plain_variable :: "string \<Rightarrow> variable_match option" where
  "plain_variable s =
     (if starts_with ''$'' s
      then map_option (\<lambda>(name, rest). \<lparr>vm_text = ''$'' @ name, vm_name = name, vm_rest = rest\<rparr>) (read_name (drop 1 s))
      else None)"

definition env_variable :: "string \<Rightarrow> variable_match option" where
  "env_variable s =
     (if lower (take 5 s) = ''$env:''
      then map_option (\<lambda>(name, rest). \<lparr>vm_text = take 5 s @ name, vm_name = name, vm_rest = rest\<rparr>) (read_name (drop 5 s))
      else None)"

definition match_variable :: "shell_dialect \<Rightarrow> string \<Rightarrow> variable_match option" where
  "match_variable source s =
     (if source = Dialect_POSIX then (case braced_variable s of Some m \<Rightarrow> Some m | None \<Rightarrow> plain_variable s) else env_variable s)"

lemma read_name_split: "read_name s = Some (name, rest) \<Longrightarrow> s = name @ rest \<and> name \<noteq> []"
  by (auto simp: read_name_def split: list.splits if_splits)

lemma starts_with_split: "starts_with p s \<Longrightarrow> s = p @ drop (length p) s"
  by (metis append_take_drop_id starts_with_def)

definition splits :: "string \<Rightarrow> variable_match \<Rightarrow> bool" where
  "splits s m \<longleftrightarrow> s = vm_text m @ vm_rest m \<and> vm_text m \<noteq> []"

lemma braced_variable_splits: "braced_variable s = Some m \<Longrightarrow> splits s m"
  by (auto simp: braced_variable_def splits_def numeral_2_eq_2 dest!: read_name_split starts_with_split split: if_splits option.splits list.splits)

lemma plain_variable_splits: "plain_variable s = Some m \<Longrightarrow> splits s m"
  by (auto simp: plain_variable_def splits_def dest!: read_name_split starts_with_split split: if_splits)

lemma env_variable_splits:
  assumes "env_variable s = Some m"
  shows "splits s m"
proof -
  obtain name rest where "read_name (drop 5 s) = Some (name, rest)" and m: "m = \<lparr>vm_text = take 5 s @ name, vm_name = name, vm_rest = rest\<rparr>"
    using assms by (auto simp: env_variable_def split: if_splits)
  then have "drop 5 s = name @ rest \<and> name \<noteq> []" by (simp add: read_name_split)
  with m show ?thesis unfolding splits_def by (metis append.assoc append_is_Nil_conv append_take_drop_id variable_match.select_convs(1,3))
qed

lemma match_variable_splits: "match_variable source s = Some m \<Longrightarrow> splits s m"
  by (auto simp: match_variable_def braced_variable_splits plain_variable_splits env_variable_splits split: if_splits option.splits)

lemma splits_shorter: "splits s m \<Longrightarrow> length (vm_rest m) < length s"
  by (auto simp: splits_def)

text \<open>\<open>pattern.finditer\<close> and \<open>pattern.sub\<close>: the text as characters and matches, leftmost first.\<close>

function variable_pieces :: "shell_dialect \<Rightarrow> string \<Rightarrow> (char + variable_match) list" where
  "variable_pieces source [] = []"
| "variable_pieces source (c # cs) =
     (case match_variable source (c # cs) of
        Some m \<Rightarrow> Inr m # variable_pieces source (vm_rest m)
      | None \<Rightarrow> Inl c # variable_pieces source cs)"
  by pat_completeness auto
termination
  by (relation "measure (\<lambda>(_, s). length s)") (auto dest!: match_variable_splits splits_shorter)

definition variable_matches :: "shell_dialect \<Rightarrow> string \<Rightarrow> variable_match list" where
  "variable_matches source s = List.map_filter (\<lambda>p. case p of Inr m \<Rightarrow> Some m | Inl _ \<Rightarrow> None) (variable_pieces source s)"

definition quoted_text :: "string \<Rightarrow> string" where
  "quoted_text t = ''`'' @ t @ ''`''"

definition unreadable :: "string \<Rightarrow> string" where
  "unreadable t = quoted_text t @ '' carries a `$` this dictionary does not read as an environment variable''"

definition owned_names :: "shell_dialect \<Rightarrow> string set" where
  "owned_names source = (if source = Dialect_POSIX then POSIX_OWNED_NAMES else WINDOWS_OWNED_NAMES)"

text \<open>The loop over the matches: the first one that cannot be rewritten.\<close>

fun refused_match :: "shell_dialect \<Rightarrow> string \<Rightarrow> variable_match list \<Rightarrow> string option" where
  "refused_match source t [] = None"
| "refused_match source t (m # ms) =
     (if source = Dialect_POSIX \<and> starts_with '':'' (vm_rest m) then Some (unreadable t)
      else if upper_name (vm_name m) \<in> owned_names source
      then Some (quoted_text (vm_text m) @ '' names something the shell itself provides, and ''
        @ (if source = Dialect_POSIX then ''PowerShell'' else ''a POSIX shell'') @ '' has no variable with the same meaning'')
      else refused_match source t ms)"

definition rewritten_variable :: "shell_dialect \<Rightarrow> string \<Rightarrow> string" where
  "rewritten_variable source name = (if source = Dialect_POSIX then ''$env:'' @ name else ''$'' @ name)"

definition rewrite_pieces :: "shell_dialect \<Rightarrow> (char + variable_match) list \<Rightarrow> string" where
  "rewrite_pieces source ps = concat (map (\<lambda>p. case p of Inl c \<Rightarrow> [c] | Inr m \<Rightarrow> rewritten_variable source (vm_name m)) ps)"

text \<open>The text and whether it changed, or the refusal.\<close>

definition rewrite_variables :: "string \<Rightarrow> shell_dialect \<Rightarrow> string + string \<times> bool" where
  "rewrite_variables t source =
     (if DOLLAR \<notin> set t then Inr (t, False)
      else if length (variable_matches source t) \<noteq> length (filter (\<lambda>c. c = DOLLAR) t) then Inl (unreadable t)
      else case refused_match source t (variable_matches source t) of
        Some refusal \<Rightarrow> Inl refusal
      | None \<Rightarrow> Inr (rewrite_pieces source (variable_pieces source t), rewrite_pieces source (variable_pieces source t) \<noteq> t))"

section \<open>The scan\<close>

definition REFUSED_CHARACTERS :: "(char, string) dict" where
  "REFUSED_CHARACTERS = [(CHR ''|'', ''a pipeline''), (CHR ''&'', ''a chaining or background operator''), (CHR ''>'', ''a redirection''),
     (CHR ''<'', ''a redirection''), (CHR 0x60, ''a backquote''), (CHR ''('', ''a grouping''), (CHR '')'', ''a grouping''),
     (CHR ''{'', ''a block''), (CHR ''}'', ''a block''), (CHR ''*'', ''a wildcard''), (CHR ''?'', ''a wildcard''), (CHR ''['', ''a wildcard''),
     (CHR '']'', ''a wildcard''), (CHR ''~'', ''a home-directory shortcut''), (CHR 0x5C, ''a backslash escape''), (CHR ''#'', ''a comment''),
     (CHR ''!'', ''an expansion or negation operator''), (CHR 0x0A, ''a line break''), (CHR 0x0D, ''a line break'')]"

record scanning =
  sg_segments :: "string list list"
  sg_tokens :: "string list"
  sg_token :: string
  sg_variables :: bool

definition new_scanning :: scanning where
  "new_scanning = \<lparr>sg_segments = [], sg_tokens = [], sg_token = [], sg_variables = False\<rparr>"

definition push_text :: "string \<Rightarrow> scanning \<Rightarrow> scanning" where
  "push_text t g = g\<lparr>sg_token := sg_token g @ t\<rparr>"

definition end_token :: "shell_dialect \<Rightarrow> scanning \<Rightarrow> string + scanning" where
  "end_token source g =
     (if sg_token g = [] then Inr g
      else bindR (rewrite_variables (sg_token g) source) (\<lambda>(t, changed).
           Inr (g\<lparr>sg_token := [], sg_tokens := sg_tokens g @ [t], sg_variables := sg_variables g \<or> changed\<rparr>)))"

definition end_segment :: "scanning \<Rightarrow> scanning" where
  "end_segment g = (if sg_tokens g = [] then g else g\<lparr>sg_segments := sg_segments g @ [sg_tokens g], sg_tokens := []\<rparr>)"

text \<open>The loop over the characters, in a quote or not; \<open>_Scanned\<close> is the refusal or the segments.\<close>

function scan_from :: "shell_dialect \<Rightarrow> char option \<Rightarrow> scanning \<Rightarrow> string \<Rightarrow> string + string list list \<times> bool" where
  "scan_from source quote g [] =
     (if quote \<noteq> None then Inl ''the command leaves a quote open''
      else bindR (end_token source g) (\<lambda>g.
           if sg_segments (end_segment g) = [] then Inl ''the command is empty''
           else Inr (sg_segments (end_segment g), sg_variables (end_segment g))))"
| "scan_from source (Some q) g (c # cs) = scan_from source (if c = q then None else Some q) (push_text [c] g) cs"
| "scan_from source None g (c # cs) =
     (if quote_char c then scan_from source (Some c) (push_text [c] g) cs
      else if c = DOLLAR \<and> starts_with ''('' cs then Inl ''the command uses a command substitution''
      else if c = DOLLAR \<and> starts_with ''{'' cs
      then (case braced_variable (c # cs) of
              None \<Rightarrow> Inl ''the command uses a block''
            | Some m \<Rightarrow> scan_from source None (push_text (vm_text m) g) (vm_rest m))
      else case dict_get REFUSED_CHARACTERS c of
        Some what \<Rightarrow> Inl (''the command uses '' @ what)
      | None \<Rightarrow>
          if c = CHR '';'' then bindR (end_token source g) (\<lambda>g. scan_from source None (end_segment g) cs)
          else if space_char c then bindR (end_token source g) (\<lambda>g. scan_from source None g cs)
          else scan_from source None (push_text [c] g) cs)"
  by pat_completeness auto
termination
  by (relation "measure (\<lambda>(_, _, _, s). length s)") (auto dest!: braced_variable_splits splits_shorter)

definition scan :: "string \<Rightarrow> shell_dialect \<Rightarrow> string + string list list \<times> bool" where
  "scan cmd source = scan_from source None new_scanning cmd"

section \<open>The rules\<close>

definition is_option :: "string \<Rightarrow> bool" where
  "is_option t \<longleftrightarrow> starts_with ''-'' t \<and> 1 < length t"

definition single_operand :: "string list \<Rightarrow> string option" where
  "single_operand ts = (case drop 1 ts of [t] \<Rightarrow> if is_option t then None else Some t | _ \<Rightarrow> None)"

definition no_operand :: "string list \<Rightarrow> bool" where
  "no_operand ts \<longleftrightarrow> length ts = 1"

text \<open>The loop of \<open>_posix_list_directory\<close>: whether hidden entries are asked for, and the paths.\<close>

fun posix_list_options :: "bool \<Rightarrow> string list \<Rightarrow> string list \<Rightarrow> (bool \<times> string list) option" where
  "posix_list_options force paths [] = Some (force, paths)"
| "posix_list_options force paths (t # ts) =
     (if starts_with ''-'' t
      then (if drop 1 t = [] \<or> \<not> set (drop 1 t) \<subseteq> {CHR ''a'', CHR ''A'', CHR ''l''} then None
            else posix_list_options (force \<or> set (drop 1 t) \<inter> {CHR ''a'', CHR ''A''} \<noteq> {}) paths ts)
      else posix_list_options force (paths @ [t]) ts)"

definition posix_list_directory :: "string list \<Rightarrow> string list option" where
  "posix_list_directory ts =
     (case posix_list_options False [] (drop 1 ts) of
        None \<Rightarrow> None
      | Some (force, paths) \<Rightarrow>
          if 1 < length paths then None else Some (''Get-ChildItem'' # (if force then [''-Force''] else []) @ paths))"

definition posix_print_file :: "string list \<Rightarrow> string list option" where
  "posix_print_file ts = map_option (\<lambda>operand. [''Get-Content'', operand]) (single_operand ts)"

text \<open>\<open>^-(?:n(\d+)?|(\d+))$\<close>: the digits, if any.\<close>

definition line_count_option :: "string \<Rightarrow> string option option" where
  "line_count_option t =
     (let body = (if ends_with [CHR 0x0A] t then butlast t else t)
      in if starts_with ''-n'' body \<and> list_all is_digit (drop 2 body) then Some (if drop 2 body = [] then None else Some (drop 2 body))
         else if starts_with ''-'' body \<and> drop 1 body \<noteq> [] \<and> list_all is_digit (drop 1 body) then Some (Some (drop 1 body))
         else None)"

fun lines_and_file_from :: "int \<Rightarrow> string option \<Rightarrow> string list \<Rightarrow> exn + (int \<times> string) option" where
  "lines_and_file_from lines file [] = Inr (map_option (\<lambda>f. (lines, f)) file)"
| "lines_and_file_from lines file (t # ts) =
     (if starts_with ''-'' t
      then (case line_count_option t of
              None \<Rightarrow> Inr None
            | Some (Some digits) \<Rightarrow> bindR (py_int digits) (\<lambda>n. lines_and_file_from n file ts)
            | Some None \<Rightarrow>
                (case ts of
                   [] \<Rightarrow> Inr None
                 | digits # rest \<Rightarrow>
                     if \<not> isdigit digits then Inr None else bindR (py_int digits) (\<lambda>n. lines_and_file_from n file rest)))
      else case file of None \<Rightarrow> lines_and_file_from lines (Some t) ts | Some _ \<Rightarrow> Inr None)"

definition lines_and_file :: "string list \<Rightarrow> exn + (int \<times> string) option" where
  "lines_and_file ts = lines_and_file_from 10 None (drop 1 ts)"

definition posix_head :: "string list \<Rightarrow> exn + string list option" where
  "posix_head ts = bindR (lines_and_file ts) (\<lambda>parsed. Inr (map_option (\<lambda>(n, f). [''Get-Content'', f, ''-TotalCount'', str_int n]) parsed))"

definition posix_tail :: "string list \<Rightarrow> exn + string list option" where
  "posix_tail ts = bindR (lines_and_file ts) (\<lambda>parsed. Inr (map_option (\<lambda>(n, f). [''Get-Content'', f, ''-Tail'', str_int n]) parsed))"

definition posix_pwd :: "string list \<Rightarrow> string list option" where
  "posix_pwd ts = (if no_operand ts then Some [''Get-Location''] else None)"

definition posix_echo :: "string list \<Rightarrow> string list option" where
  "posix_echo ts = map_option (\<lambda>operand. [''Write-Output'', operand]) (single_operand ts)"

definition posix_which :: "string list \<Rightarrow> string list option" where
  "posix_which ts = map_option (\<lambda>operand. [''Get-Command'', operand]) (single_operand ts)"

definition posix_env :: "string list \<Rightarrow> string list option" where
  "posix_env ts = (if no_operand ts then Some [''Get-ChildItem'', ''Env:''] else None)"

definition powershell_operands :: "string list \<Rightarrow> string list option" where
  "powershell_operands ts = (if \<exists>t \<in> set (drop 1 ts). starts_with ''-'' t then None else Some (drop 1 ts))"

definition names_environment :: "string \<Rightarrow> bool" where
  "names_environment t \<longleftrightarrow> rstrip_by (\<lambda>c. c = CHR 0x5C \<or> c = CHR ''/'') (lower t) = ''env:''"

fun powershell_list_options :: "bool \<Rightarrow> string list \<Rightarrow> string list \<Rightarrow> (bool \<times> string list) option" where
  "powershell_list_options force paths [] = Some (force, paths)"
| "powershell_list_options force paths (t # ts) =
     (if lower t = ''-force'' then powershell_list_options True paths ts
      else if starts_with ''-'' t then None
      else powershell_list_options force (paths @ [t]) ts)"

definition powershell_list_directory :: "string list \<Rightarrow> string list option" where
  "powershell_list_directory ts =
     (case powershell_list_options False [] (drop 1 ts) of
        None \<Rightarrow> None
      | Some (force, paths) \<Rightarrow>
          if 1 < length paths \<or> (paths \<noteq> [] \<and> names_environment (hd paths)) then None
          else Some (''ls'' # (if force then [''-a''] else []) @ paths))"

definition powershell_list_environment :: "string list \<Rightarrow> string list option" where
  "powershell_list_environment ts =
     (case powershell_operands ts of Some [t] \<Rightarrow> if names_environment t then Some [''env''] else None | _ \<Rightarrow> None)"

datatype content_mode = Mode_head | Mode_tail

text \<open>\<open>_powershell_get_content\<close>; \<open>mode\<close> is set with its count.\<close>

fun get_content_from :: "string option \<Rightarrow> (content_mode \<times> int) option \<Rightarrow> string list \<Rightarrow> exn + (string \<times> (content_mode \<times> int) option) option" where
  "get_content_from file mode [] = Inr (map_option (\<lambda>f. (f, mode)) file)"
| "get_content_from file mode (t # ts) =
     (if lower t \<in> {''-totalcount'', ''-head'', ''-first'', ''-tail'', ''-last''}
      then (case ts of
              [] \<Rightarrow> Inr None
            | digits # rest \<Rightarrow>
                if mode \<noteq> None \<or> \<not> isdigit digits then Inr None
                else bindR (py_int digits) (\<lambda>n. get_content_from file
                       (Some (if lower t \<in> {''-totalcount'', ''-head'', ''-first''} then Mode_head else Mode_tail, n)) rest))
      else if starts_with ''-'' t then Inr None
      else case file of None \<Rightarrow> get_content_from (Some t) mode ts | Some _ \<Rightarrow> Inr None)"

definition powershell_get_content :: "string list \<Rightarrow> exn + (string \<times> (content_mode \<times> int) option) option" where
  "powershell_get_content ts = get_content_from None None (drop 1 ts)"

definition powershell_print_file :: "string list \<Rightarrow> exn + string list option" where
  "powershell_print_file ts =
     bindR (powershell_get_content ts) (\<lambda>parsed. Inr (case parsed of Some (f, None) \<Rightarrow> Some [''cat'', f] | _ \<Rightarrow> None))"

definition powershell_head :: "string list \<Rightarrow> exn + string list option" where
  "powershell_head ts =
     bindR (powershell_get_content ts) (\<lambda>parsed. Inr (case parsed of Some (f, Some (Mode_head, n)) \<Rightarrow> Some [''head'', ''-n'', str_int n, f] | _ \<Rightarrow> None))"

definition powershell_tail :: "string list \<Rightarrow> exn + string list option" where
  "powershell_tail ts =
     bindR (powershell_get_content ts) (\<lambda>parsed. Inr (case parsed of Some (f, Some (Mode_tail, n)) \<Rightarrow> Some [''tail'', ''-n'', str_int n, f] | _ \<Rightarrow> None))"

definition powershell_pwd :: "string list \<Rightarrow> string list option" where
  "powershell_pwd ts = (if no_operand ts then Some [''pwd''] else None)"

definition powershell_echo :: "string list \<Rightarrow> string list option" where
  "powershell_echo ts = (case powershell_operands ts of Some [t] \<Rightarrow> Some [''echo'', t] | _ \<Rightarrow> None)"

definition powershell_which :: "string list \<Rightarrow> string list option" where
  "powershell_which ts = (case powershell_operands ts of Some [t] \<Rightarrow> Some [''command'', ''-v'', t] | _ \<Rightarrow> None)"

record translation_rule =
  ru_rule_id :: string
  ru_source :: shell_dialect
  ru_target :: shell_dialect
  ru_programs :: "string list"
  ru_source_form :: string
  ru_target_form :: string
  ru_apply :: "string list \<Rightarrow> exn + string list option"

definition rule_from ::
  "shell_dialect \<Rightarrow> string \<Rightarrow> string list \<Rightarrow> string \<Rightarrow> string \<Rightarrow> (string list \<Rightarrow> exn + string list option) \<Rightarrow> translation_rule" where
  "rule_from source rid programs source_form target_form f =
     \<lparr>ru_rule_id = rid, ru_source = source, ru_target = source_dialect_for source, ru_programs = programs,
       ru_source_form = source_form, ru_target_form = target_form, ru_apply = f\<rparr>"

definition POSIX_TO_POWERSHELL :: "translation_rule list" where
  "POSIX_TO_POWERSHELL =
     [rule_from Dialect_POSIX ''list-environment'' [''env'', ''printenv''] ''env'' ''Get-ChildItem Env:'' (Inr \<circ> posix_env),
      rule_from Dialect_POSIX ''list-directory'' [''ls''] ''ls [-a|-A|-l] [PATH]'' ''Get-ChildItem [-Force] [PATH]'' (Inr \<circ> posix_list_directory),
      rule_from Dialect_POSIX ''head-lines'' [''head''] ''head [-n N] FILE'' ''Get-Content FILE -TotalCount N'' posix_head,
      rule_from Dialect_POSIX ''tail-lines'' [''tail''] ''tail [-n N] FILE'' ''Get-Content FILE -Tail N'' posix_tail,
      rule_from Dialect_POSIX ''print-file'' [''cat''] ''cat FILE'' ''Get-Content FILE'' (Inr \<circ> posix_print_file),
      rule_from Dialect_POSIX ''print-working-directory'' [''pwd''] ''pwd'' ''Get-Location'' (Inr \<circ> posix_pwd),
      rule_from Dialect_POSIX ''print-text'' [''echo''] ''echo ARG'' ''Write-Output ARG'' (Inr \<circ> posix_echo),
      rule_from Dialect_POSIX ''locate-program'' [''which''] ''which NAME'' ''Get-Command NAME'' (Inr \<circ> posix_which)]"

definition POWERSHELL_TO_POSIX :: "translation_rule list" where
  "POWERSHELL_TO_POSIX =
     [rule_from Dialect_POWERSHELL ''list-environment'' [''get-childitem'', ''gci''] ''Get-ChildItem Env:'' ''env'' (Inr \<circ> powershell_list_environment),
      rule_from Dialect_POWERSHELL ''list-directory'' [''get-childitem'', ''gci''] ''Get-ChildItem [-Force] [PATH]'' ''ls [-a] [PATH]''
        (Inr \<circ> powershell_list_directory),
      rule_from Dialect_POWERSHELL ''head-lines'' [''get-content'', ''gc''] ''Get-Content FILE -TotalCount N'' ''head -n N FILE'' powershell_head,
      rule_from Dialect_POWERSHELL ''tail-lines'' [''get-content'', ''gc''] ''Get-Content FILE -Tail N'' ''tail -n N FILE'' powershell_tail,
      rule_from Dialect_POWERSHELL ''print-file'' [''get-content'', ''gc''] ''Get-Content FILE'' ''cat FILE'' powershell_print_file,
      rule_from Dialect_POWERSHELL ''print-working-directory'' [''get-location'', ''gl''] ''Get-Location'' ''pwd'' (Inr \<circ> powershell_pwd),
      rule_from Dialect_POWERSHELL ''print-text'' [''write-output''] ''Write-Output ARG'' ''echo ARG'' (Inr \<circ> powershell_echo),
      rule_from Dialect_POWERSHELL ''locate-program'' [''get-command''] ''Get-Command NAME'' ''command -v NAME'' (Inr \<circ> powershell_which)]"

definition TRANSLATION_RULES :: "translation_rule list" where
  "TRANSLATION_RULES = POSIX_TO_POWERSHELL @ POWERSHELL_TO_POSIX"

section \<open>The refusals\<close>

definition WRITES :: string where
  "WRITES = ''the dictionary translates only commands that read, never one that creates, moves or deletes''"
definition PATTERN :: string where
  "PATTERN = ''its pattern, field or expression language is not the same in the other dialect''"
definition EXIT_CODE :: string where
  "EXIT_CODE = ''it answers by its exit code, and the two dialects do not agree on exit codes''"
definition NO_EQUIVALENT :: string where
  "NO_EQUIVALENT = ''the other dialect has no command that answers exactly the same question''"

definition refused_as :: "string \<Rightarrow> string list \<Rightarrow> (string, string) dict" where
  "refused_as why names = map (\<lambda>name. (name, why)) names"

definition POSIX_REFUSALS :: "(string, string) dict" where
  "POSIX_REFUSALS =
     refused_as WRITES [''rm'', ''rmdir'', ''mv'', ''cp'', ''ln'', ''mkdir'', ''touch'', ''chmod'', ''chown'', ''dd'', ''truncate'', ''tee'',
       ''install'', ''kill'', ''pkill'', ''killall'']
     @ refused_as PATTERN [''grep'', ''egrep'', ''fgrep'', ''sed'', ''awk'', ''find'', ''cut'', ''tr'', ''sort'', ''uniq'', ''xargs'', ''wc'']
     @ refused_as EXIT_CODE [''test'']
     @ refused_as NO_EQUIVALENT [''uname'', ''df'', ''du'', ''ps'', ''stat'', ''date'', ''export'', ''source'', ''basename'', ''dirname'', ''readlink'']"

definition POWERSHELL_REFUSALS :: "(string, string) dict" where
  "POWERSHELL_REFUSALS =
     refused_as WRITES [''remove-item'', ''move-item'', ''copy-item'', ''rename-item'', ''new-item'', ''set-content'', ''add-content'',
       ''clear-content'', ''out-file'', ''set-itemproperty'', ''stop-process'']
     @ refused_as PATTERN [''select-string'', ''where-object'', ''foreach-object'', ''sort-object'', ''select-object'', ''measure-object'',
       ''group-object'', ''compare-object'']
     @ refused_as EXIT_CODE [''test-path'']
     @ refused_as NO_EQUIVALENT [''get-process'', ''get-service'', ''get-date'', ''start-sleep'', ''get-ciminstance'', ''get-wmiobject'',
       ''get-computerinfo'', ''get-acl'', ''get-item'', ''get-member'']"

fun rules_for :: "shell_dialect \<Rightarrow> translation_rule list" where
  "rules_for Dialect_POSIX = POSIX_TO_POWERSHELL"
| "rules_for Dialect_POWERSHELL = POWERSHELL_TO_POSIX"
| "rules_for _ = []"

fun refusals_for :: "shell_dialect \<Rightarrow> (string, string) dict" where
  "refusals_for Dialect_POSIX = POSIX_REFUSALS"
| "refusals_for Dialect_POWERSHELL = POWERSHELL_REFUSALS"
| "refusals_for _ = []"

record refused_program =
  rp_program :: string
  rp_source :: shell_dialect
  rp_target :: shell_dialect
  rp_reason :: string

definition REFUSED_PROGRAMS :: "refused_program list" where
  "REFUSED_PROGRAMS = concat (map (\<lambda>source. map (\<lambda>(program, reason).
       \<lparr>rp_program = program, rp_source = source, rp_target = source_dialect_for source, rp_reason = reason\<rparr>)
       (sort_key fst (refusals_for source))) [Dialect_POSIX, Dialect_POWERSHELL])"

definition known_programs :: "shell_dialect \<Rightarrow> string set" where
  "known_programs source = set (concat (map ru_programs (rules_for source))) \<union> set (dict_keys (refusals_for source))"

section \<open>The translator\<close>

record shell_translator =
  sl_target :: shell_dialect
  sl_source :: shell_dialect
  sl_enabled :: bool
  sl_known :: "string set"

definition make_translator :: "shell_dialect \<Rightarrow> bool \<Rightarrow> shell_translator" where
  "make_translator target enabled =
     \<lparr>sl_target = target, sl_source = source_dialect_for target, sl_enabled = (enabled \<and> target \<in> TRANSLATABLE),
       sl_known = (if enabled \<and> target \<in> TRANSLATABLE then known_programs (source_dialect_for target) else {})\<rparr>"

text \<open>\<open>NAME=value\<close>, with the \<open>\w\<close> of the dictionary.\<close>

definition assignment_prefix :: "string \<Rightarrow> bool" where
  "assignment_prefix t = (case read_name t of Some (_, d # _) \<Rightarrow> d = CHR ''='' | _ \<Rightarrow> False)"

definition stripped :: "string \<Rightarrow> string" where
  "stripped s = strip_by space_char s"

definition first_word :: "string \<Rightarrow> string" where
  "first_word cmd = takeWhile (\<lambda>c. \<not> (space_char c \<or> c = CHR '';'')) (stripped cmd)"

definition recognises :: "shell_translator \<Rightarrow> string \<Rightarrow> bool" where
  "recognises tr cmd \<longleftrightarrow>
     shell_name (first_word cmd) \<in> sl_known tr \<or> (sl_source tr = Dialect_POSIX \<and> assignment_prefix (first_word cmd))"

text \<open>The rules that claim the program, in order, and the first of them that reads the command.\<close>

fun first_rule :: "translation_rule list \<Rightarrow> string list \<Rightarrow> exn + (string list \<times> string) option" where
  "first_rule [] segment = Inr None"
| "first_rule (r # rs) segment =
     bindR (ru_apply r segment) (\<lambda>out. case out of Some ts \<Rightarrow> Inr (Some (ts, ru_rule_id r)) | None \<Rightarrow> first_rule rs segment)"

definition claiming :: "shell_dialect \<Rightarrow> string \<Rightarrow> translation_rule list" where
  "claiming source program = filter (\<lambda>r. program \<in> set (ru_programs r)) (rules_for source)"

text \<open>The translated words and the rule that produced them, or the reason there are none.\<close>

definition translate_segment :: "shell_translator \<Rightarrow> string list \<Rightarrow> exn + (string + string list \<times> string)" where
  "translate_segment tr segment =
     (let program = shell_name (hd segment); claimed = claiming (sl_source tr) program
      in if sl_source tr = Dialect_POSIX \<and> assignment_prefix (hd segment)
         then Inr (Inl (quoted_text (hd segment) @ '' is a `NAME=value` prefix, and PowerShell has no syntax for one''))
         else case dict_get (refusals_for (sl_source tr)) program of
           Some refusal \<Rightarrow> Inr (Inl (''no rule maps '' @ quoted_text program @ '': '' @ refusal))
         | None \<Rightarrow>
             bindR (first_rule claimed segment) (\<lambda>out. Inr (case out of
                Some (ts, rid) \<Rightarrow> Inr (ts, rid)
              | None \<Rightarrow>
                  if claimed \<noteq> []
                  then Inl (''the rule for '' @ quoted_text program @ '' covers ''
                    @ join_with '' or '' (map (\<lambda>r. quoted_text (ru_source_form r)) claimed) @ '' only, and this command is outside it'')
                  else Inl (''no rule maps '' @ quoted_text program))))"

text \<open>The loop over the segments: the rewritten segments and the rules that fired, or the first reason.\<close>

fun translate_segments ::
  "shell_translator \<Rightarrow> string list list \<Rightarrow> string list \<Rightarrow> string list list \<Rightarrow> exn + (string + string list list \<times> string list)" where
  "translate_segments tr rewritten fired [] = Inr (Inr (rewritten, fired))"
| "translate_segments tr rewritten fired (segment # segments) =
     bindR (translate_segment tr segment) (\<lambda>out.
     case out of
       Inl why \<Rightarrow> Inr (Inl why)
     | Inr (ts, rid) \<Rightarrow> translate_segments tr (rewritten @ [ts]) (if rid \<in> set fired then fired else fired @ [rid]) segments)"

definition VARIABLE_RULE_ID :: string where "VARIABLE_RULE_ID = ''environment-variable''"

definition unchanged :: "shell_translator \<Rightarrow> string \<Rightarrow> string \<Rightarrow> command_translation" where
  "unchanged tr cmd reason =
     \<lparr>ct_source = sl_source tr, ct_target = sl_target tr, ct_original = cmd, ct_executed = cmd, ct_rules = [], ct_reason = Some reason\<rparr>"

text \<open>The command line of translated segments.\<close>

definition command_line :: "string list list \<Rightarrow> string" where
  "command_line segments = join_with ''; '' (map (join_with '' '') segments)"

definition translate :: "shell_translator \<Rightarrow> string option \<Rightarrow> exn + command_translation option" where
  "translate tr command =
     (case command of
        None \<Rightarrow> Inr None
      | Some cmd \<Rightarrow>
          if \<not> sl_enabled tr \<or> stripped cmd = [] \<or> \<not> recognises tr cmd then Inr None
          else (case scan cmd (sl_source tr) of
            Inl refusal \<Rightarrow> Inr (Some (unchanged tr cmd refusal))
          | Inr (segments, variables) \<Rightarrow>
              bindR (translate_segments tr [] (if variables then [VARIABLE_RULE_ID] else []) segments) (\<lambda>out. Inr (Some (case out of
                 Inl why \<Rightarrow> unchanged tr cmd why
               | Inr (rewritten, fired) \<Rightarrow>
                   \<lparr>ct_source = sl_source tr, ct_target = sl_target tr, ct_original = cmd, ct_executed = command_line rewritten,
                     ct_rules = fired, ct_reason = None\<rparr>)))))"

definition VARIABLE_FORMS :: "(shell_dialect \<times> string \<times> string) list" where
  "VARIABLE_FORMS = [(Dialect_POSIX, ''$NAME / ${NAME}'', ''$env:NAME''), (Dialect_POWERSHELL, ''$env:NAME'', ''$NAME'')]"

definition dictionary_row :: "string \<Rightarrow> shell_dialect \<Rightarrow> shell_dialect \<Rightarrow> string \<Rightarrow> string \<Rightarrow> (string, string) dict" where
  "dictionary_row rid source target source_form target_form =
     [(''rule'', rid), (''from'', shell_dialect_value source), (''to'', shell_dialect_value target),
      (''source_form'', source_form), (''target_form'', target_form)]"

definition describe_dictionary :: "(string, string) dict list" where
  "describe_dictionary =
     map (\<lambda>r. dictionary_row (ru_rule_id r) (ru_source r) (ru_target r) (ru_source_form r) (ru_target_form r)) TRANSLATION_RULES
     @ map (\<lambda>(source, source_form, target_form). dictionary_row VARIABLE_RULE_ID source (source_dialect_for source) source_form target_form) VARIABLE_FORMS"

end
