(* ===== verification/Translating.thy ===== *)
theory Translating
  imports Dialects
begin

text \<open>
  What the dictionary of shell dialects guarantees: what it produces for a command without escapes between double quotes
  is a list of simple commands that read, made of the words of the command it read, in a line where no operator,
  substitution or escape of the shell that runs it is in force.
\<close>

section \<open>Characters\<close>

lemma word_char_code:
  "word_char c \<Longrightarrow> (48 \<le> code c \<and> code c \<le> 57) \<or> (65 \<le> code c \<and> code c \<le> 90) \<or> code c = 95 \<or> (97 \<le> code c \<and> code c \<le> 122) \<or> 0xA9 < code c"
  by (auto simp: word_char_def ident_start_def is_digit_def SUPERSCRIPTS_def Let_def less_eq_char_def)

lemma ident_start_word: "ident_start c \<Longrightarrow> word_char c"
  by (simp add: word_char_def)

lemma code_eqD: "c = d \<Longrightarrow> code c = code d"
  by simp

lemma word_char_plain:
  assumes "word_char c"
  shows "\<not> quote_char c" "\<not> space_char c" "c \<noteq> CHR '';''" "c \<noteq> DOLLAR" "c \<noteq> CHR ''}''" "c \<noteq> CHR ''{''" "c \<noteq> CHR '':''"
  using word_char_code [OF assms]
  by (auto simp: quote_char_def space_char_def is_space_def NOWHERE_SPACES_def DOLLAR_def Let_def dest!: code_eqD)

section \<open>Variables\<close>

definition is_name :: "string \<Rightarrow> bool" where
  "is_name n \<longleftrightarrow> n \<noteq> [] \<and> ident_start (hd n) \<and> list_all word_char n"

lemma read_name_Some:
  "read_name s = Some (n, rest) \<Longrightarrow> is_name n \<and> s = n @ rest \<and> (rest = [] \<or> \<not> word_char (hd rest))"
  by (cases s) (auto simp: read_name_def is_name_def ident_start_word list_all_iff dest: set_takeWhileD hd_dropWhile split: if_splits)

lemma read_name_append:
  "is_name n \<Longrightarrow> read_name (n @ r) = Some (n @ takeWhile word_char r, dropWhile word_char r)"
  by (cases n) (auto simp: read_name_def is_name_def list_all_iff)

text \<open>What a match is made of.\<close>

definition match_shape :: "shell_dialect \<Rightarrow> variable_match \<Rightarrow> bool" where
  "match_shape source m \<longleftrightarrow> is_name (vm_name m)
     \<and> (if source = Dialect_POSIX
        then vm_text m = ''${'' @ vm_name m @ ''}'' \<or> (vm_text m = ''$'' @ vm_name m \<and> (vm_rest m = [] \<or> \<not> word_char (hd (vm_rest m))))
        else (\<exists>e. length e = 4 \<and> lower e = ''env:'' \<and> vm_text m = DOLLAR # e @ vm_name m) \<and> (vm_rest m = [] \<or> \<not> word_char (hd (vm_rest m))))"

lemma lower_char_other:
  assumes "lower_char c = d" and "code d < 97 \<or> 122 < code d"
  shows "c = d"
proof (cases "65 \<le> code c \<and> code c \<le> 90")
  case True
  then have "code (char_of (code c + 32) :: char) = code c + 32" by (simp add: of_char_mod_256)
  with True assms show ?thesis by (auto simp: lower_char_def Let_def)
qed (use assms in \<open>auto simp: lower_char_def Let_def split: if_splits\<close>)

lemma env_text:
  assumes "lower t = ''$env:''"
  shows "\<exists>e. length e = 4 \<and> lower e = ''env:'' \<and> t = DOLLAR # e"
proof -
  from assms obtain c e where t: "t = c # e" and c: "lower_char c = CHR ''$''" and e: "lower e = ''env:''"
    by (cases t) (auto simp: lower_def)
  have "length e = length (lower e)" by (simp add: lower_def)
  with e have "length e = 4" by simp
  moreover have "c = CHR ''$''" using c by (rule lower_char_other) simp
  ultimately show ?thesis using t e by (auto simp: DOLLAR_def)
qed

lemma match_variable_shape:
  assumes "match_variable source s = Some m"
  shows "match_shape source m"
proof (cases "source = Dialect_POSIX")
  case True
  then consider "braced_variable s = Some m" | "plain_variable s = Some m" using assms by (auto simp: match_variable_def split: option.splits)
  then show ?thesis
    by cases (auto simp: match_shape_def True braced_variable_def plain_variable_def split: if_splits option.splits list.splits dest!: read_name_Some)
next
  case False
  with assms show ?thesis
    by (auto simp: match_shape_def match_variable_def env_variable_def split: if_splits dest!: read_name_Some env_text)
qed

text \<open>A match takes one \<open>$\<close>; the rest of the text is read as it is.\<close>

lemma match_has_dollar: "match_variable source (c # cs) = Some m \<Longrightarrow> c = DOLLAR"
  using match_variable_splits [of source "c # cs" m] match_variable_shape [of source "c # cs" m]
  by (auto simp: splits_def match_shape_def DOLLAR_def split: if_splits)

definition dollars :: "string \<Rightarrow> nat" where
  "dollars t = length (filter (\<lambda>c. c = DOLLAR) t)"

lemma dollars_simps [simp]: "dollars [] = 0" "dollars (c # cs) = (if c = DOLLAR then Suc (dollars cs) else dollars cs)"
  "dollars (s @ t) = dollars s + dollars t"
  by (simp_all add: dollars_def)

lemma no_dollars: "DOLLAR \<notin> set t \<Longrightarrow> dollars t = 0"
  by (auto simp: dollars_def filter_empty_conv)

lemma name_no_dollars: "list_all word_char n \<Longrightarrow> dollars n = 0"
  by (rule no_dollars) (auto simp: list_all_iff dest: word_char_plain(4))

lemma lower_mem: "c \<in> set e \<Longrightarrow> lower_char c \<in> set (lower e)"
  by (simp add: lower_def)

lemma env_no_dollars: "lower e = ''env:'' \<Longrightarrow> dollars e = 0"
  by (rule no_dollars) (use lower_mem [of DOLLAR e] in \<open>auto simp: DOLLAR_def lower_char_def Let_def\<close>)

lemma match_one_dollar: "match_shape source m \<Longrightarrow> dollars (vm_text m) = 1"
  by (auto simp: match_shape_def is_name_def name_no_dollars env_no_dollars DOLLAR_def split: if_splits)

text \<open>The literal \<open>$\<close> of a text.\<close>

definition readable :: "shell_dialect \<Rightarrow> string \<Rightarrow> bool" where
  "readable source t \<longleftrightarrow> Inl DOLLAR \<notin> set (variable_pieces source t)"

lemma dollars_matches:
  "dollars t = length (variable_matches source t) + length (filter (\<lambda>p. p = Inl DOLLAR) (variable_pieces source t))"
proof (induction source t rule: variable_pieces.induct)
  case (2 source c cs)
  show ?case
  proof (cases "match_variable source (c # cs)")
    case (Some m)
    note m = match_variable_splits [OF Some] match_one_dollar [OF match_variable_shape [OF Some]]
    have "dollars (c # cs) = dollars (vm_text m) + dollars (vm_rest m)" using m(1) by (metis dollars_simps(3) splits_def)
    with 2(2) [OF Some] m(2) Some show ?thesis by (simp add: variable_matches_def List.map_filter_def)
  next
    case None
    with 2(1) [OF None] show ?thesis by (simp add: variable_matches_def List.map_filter_def)
  qed
qed (simp add: variable_matches_def List.map_filter_def)

lemma readable_iff: "readable source t \<longleftrightarrow> length (variable_matches source t) = dollars t"
  using dollars_matches [of t source] by (auto simp: readable_def filter_empty_conv)

lemma variable_pieces_literal: "c \<noteq> DOLLAR \<Longrightarrow> variable_pieces source (c # cs) = Inl c # variable_pieces source cs"
  using match_has_dollar [of source c cs] by (cases "match_variable source (c # cs)") auto

section \<open>What is executed\<close>

text \<open>A reference reading of a command line: words and simple commands, quotes respected and kept.\<close>

fun split_from :: "char option \<Rightarrow> string list list \<Rightarrow> string list \<Rightarrow> string \<Rightarrow> string \<Rightarrow> string list list option" where
  "split_from quote segments tokens token [] =
     (let tokens = (if token = [] then tokens else tokens @ [token])
      in if quote = None then Some (if tokens = [] then segments else segments @ [tokens]) else None)"
| "split_from (Some q) segments tokens token (c # cs) =
     split_from (if c = q then None else Some q) segments tokens (token @ [c]) cs"
| "split_from None segments tokens token (c # cs) =
     (if quote_char c then split_from (Some c) segments tokens (token @ [c]) cs
      else if c = CHR '';''
      then (let tokens = (if token = [] then tokens else tokens @ [token])
            in split_from None (if tokens = [] then segments else segments @ [tokens]) [] [] cs)
      else if space_char c then split_from None segments (if token = [] then tokens else tokens @ [token]) [] cs
      else split_from None segments tokens (token @ [c]) cs)"

definition simple_commands :: "string \<Rightarrow> string list list option" where
  "simple_commands cmd = split_from None [] [] [] cmd"

text \<open>The quote a text ends in, when no word ends in it.\<close>

fun quote_after :: "char option \<Rightarrow> string \<Rightarrow> char option option" where
  "quote_after quote [] = Some quote"
| "quote_after (Some q) (c # cs) = quote_after (if c = q then None else Some q) cs"
| "quote_after None (c # cs) =
     (if quote_char c then quote_after (Some c) cs else if c = CHR '';'' \<or> space_char c then None else quote_after None cs)"

text \<open>What a shell reads as more than a word, outside quotes: pipeline, chaining, redirection, substitution, grouping,
  wildcards, home, escape, comment, history and line breaks.\<close>

definition OPERATORS :: "char set" where
  "OPERATORS = {CHR ''|'', CHR ''&'', CHR ''>'', CHR ''<'', CHR 0x60, CHR ''('', CHR '')'', CHR ''*'', CHR ''?'', CHR ''['', CHR '']'',
     CHR ''~'', CHR 0x5C, CHR ''#'', CHR ''!'', CHR 0x0A, CHR 0x0D}"

fun no_operator :: "char option \<Rightarrow> string \<Rightarrow> bool" where
  "no_operator quote [] = True"
| "no_operator (Some q) (c # cs) = no_operator (if c = q then None else Some q) cs"
| "no_operator None (c # cs) = (c \<notin> OPERATORS \<and> no_operator (if quote_char c then Some c else None) cs)"

definition one_word :: "string \<Rightarrow> bool" where
  "one_word t \<longleftrightarrow> t \<noteq> [] \<and> quote_after None t = Some None \<and> no_operator None t"

lemma no_operator_append: "quote_after q s = Some q' \<Longrightarrow> no_operator q (s @ t) \<longleftrightarrow> no_operator q s \<and> no_operator q' t"
  by (induction q s rule: quote_after.induct) (auto split: if_splits)

lemma quote_after_append: "quote_after q (s @ t) = Option.bind (quote_after q s) (\<lambda>q. quote_after q t)"
  by (induction q s rule: quote_after.induct) auto

lemma split_word: "quote_after q t = Some q' \<Longrightarrow> split_from q segments tokens token (t @ r) = split_from q' segments tokens (token @ t) r"
  by (induction q t arbitrary: token rule: quote_after.induct) (auto split: if_splits)

lemma space_char_space: "space_char CHR '' ''" "\<not> quote_char CHR '' ''" "\<not> quote_char CHR '';''" "CHR '' '' \<noteq> CHR '';''"
  by (simp_all add: space_char_def is_space_def quote_char_def)

lemma split_words:
  assumes "ts \<noteq> []" and "list_all one_word ts"
  shows "split_from None segments tokens [] (join_with '' '' ts @ r) = split_from None segments (tokens @ butlast ts) (last ts) r"
  using assms
proof (induction ts arbitrary: tokens rule: list_nonempty_induct)
  case (single t)
  then show ?case by (simp add: one_word_def split_word [of None t None])
next
  case (cons t ts)
  obtain u us where ts: "ts = u # us" using cons(1) by (cases ts) auto
  have "split_from None segments tokens [] (t @ '' '' @ join_with '' '' ts @ r) = split_from None segments (tokens @ [t]) [] (join_with '' '' ts @ r)"
    using cons.prems by (simp add: one_word_def split_word [of None t None] space_char_space)
  with cons.IH [of "tokens @ [t]"] cons.prems show ?case by (simp add: ts)
qed

definition simple_command :: "string list \<Rightarrow> bool" where
  "simple_command ts \<longleftrightarrow> ts \<noteq> [] \<and> list_all one_word ts"

lemma split_last_command:
  "simple_command ts \<Longrightarrow> split_from None segments [] [] (join_with '' '' ts) = Some (segments @ [ts])"
  using split_words [of ts segments "[]" "[]"] by (auto simp: simple_command_def one_word_def list_all_iff)

lemma split_next_command:
  "simple_command ts \<Longrightarrow> split_from None segments [] [] (join_with '' '' ts @ CHR '';'' # CHR '' '' # r) = split_from None (segments @ [ts]) [] [] r"
  using split_words [of ts segments "[]" "CHR '';'' # CHR '' '' # r"]
  by (auto simp: simple_command_def one_word_def list_all_iff space_char_space Let_def)

text \<open>Reading back the command line of simple commands gives those commands.\<close>

lemma simple_commands_line:
  assumes "list_all simple_command cmds"
  shows "simple_commands (command_line cmds) = Some cmds"
proof -
  have "split_from None segments [] [] (command_line cmds) = Some (segments @ cmds)" for segments
    using assms
  proof (induction cmds arbitrary: segments)
    case (Cons ts cmds)
    show ?case
    proof (cases cmds)
      case Nil
      with Cons.prems show ?thesis by (simp add: command_line_def split_last_command)
    next
      case (Cons us rest)
      with Cons.IH [of "segments @ [ts]"] Cons.prems show ?thesis by (simp add: command_line_def split_next_command)
    qed
  qed (simp add: command_line_def)
  from this [of "[]"] show ?thesis by (simp add: simple_commands_def)
qed

text \<open>
  When a line means no more to its shell than its words: no operator outside quotes; no escape between double quotes, where a
  POSIX shell reads the backslash and the backquote and PowerShell the backquote (between single quotes everything is
  literal); and a \<open>$\<close> that is not in single quotes is the start of a variable, so nothing is substituted but a value.
\<close>

definition escapes :: "shell_dialect \<Rightarrow> char set" where
  "escapes d = (if d = Dialect_POWERSHELL then {CHR 0x60} else {CHR 0x60, CHR 0x5C})"

definition begins_variable :: "shell_dialect \<Rightarrow> string \<Rightarrow> bool" where
  "begins_variable d cs \<longleftrightarrow>
     (if d = Dialect_POWERSHELL then starts_with ''env:'' cs \<and> (case drop 4 cs of [] \<Rightarrow> False | c # _ \<Rightarrow> ident_start c)
      else case cs of [] \<Rightarrow> False | c # _ \<Rightarrow> ident_start c)"

fun plain :: "shell_dialect \<Rightarrow> char option \<Rightarrow> string \<Rightarrow> bool" where
  "plain d quote [] = True"
| "plain d (Some q) (c # cs) =
     (if c = q then plain d None cs
      else (q = CHR 0x22 \<longrightarrow> c \<notin> escapes d \<and> (c = DOLLAR \<longrightarrow> begins_variable d cs)) \<and> plain d (Some q) cs)"
| "plain d None (c # cs) =
     (c \<notin> OPERATORS \<and> (c = DOLLAR \<longrightarrow> begins_variable d cs) \<and> plain d (if quote_char c then Some c else None) cs)"

text \<open>The commands a shell reads in a line that is plain to it.\<close>

definition target_commands :: "shell_dialect \<Rightarrow> string \<Rightarrow> string list list option" where
  "target_commands d line = (if plain d None line then simple_commands line else None)"

text \<open>A command whose double quotes hold no escape of the other shell.\<close>

fun unescaped :: "shell_dialect \<Rightarrow> char option \<Rightarrow> string \<Rightarrow> bool" where
  "unescaped d quote [] = True"
| "unescaped d (Some q) (c # cs) =
     (if c = q then unescaped d None cs else (q = CHR 0x22 \<longrightarrow> c \<notin> escapes d) \<and> unescaped d (Some q) cs)"
| "unescaped d None (c # cs) = unescaped d (if quote_char c then Some c else None) cs"

lemma begins_variable_append:
  assumes "begins_variable d cs"
  shows "begins_variable d (cs @ r)"
proof (cases "d = Dialect_POWERSHELL")
  case True
  with assms have env: "starts_with ''env:'' cs" and name: "case drop 4 cs of [] \<Rightarrow> False | c # _ \<Rightarrow> ident_start c" by (simp_all add: begins_variable_def)
  from name have "4 < length cs" by (cases "drop 4 cs") (auto, metis drop_all linorder_not_le list.distinct(1))
  then have "starts_with ''env:'' (cs @ r)" and "drop 4 (cs @ r) = drop 4 cs @ r" using env by (simp_all add: starts_with_def)
  with True name show ?thesis by (cases "drop 4 cs") (simp_all add: begins_variable_def)
next
  case False
  with assms show ?thesis by (cases cs) (simp_all add: begins_variable_def)
qed

lemma plain_append: "plain d q s \<Longrightarrow> quote_after q s = Some q' \<Longrightarrow> plain d q' t \<Longrightarrow> plain d q (s @ t)"
  by (induction d q s rule: plain.induct) (auto simp: begins_variable_append split: if_splits)

lemma unescaped_append: "quote_after q s = Some q' \<Longrightarrow> unescaped d q (s @ t) \<longleftrightarrow> unescaped d q s \<and> unescaped d q' t"
  by (induction d q s rule: unescaped.induct) (auto split: if_splits)

lemma dollar_no_operator: "DOLLAR \<notin> OPERATORS" "CHR '' '' \<notin> OPERATORS" "CHR '';'' \<notin> OPERATORS" "CHR '' '' \<noteq> DOLLAR" "CHR '';'' \<noteq> DOLLAR"
  by (simp_all add: DOLLAR_def OPERATORS_def)

lemma plain_separators: "plain d None (CHR '' '' # t) = plain d None t" "plain d None (CHR '';'' # t) = plain d None t"
  by (simp_all add: dollar_no_operator space_char_space)

definition plain_word :: "shell_dialect \<Rightarrow> string \<Rightarrow> bool" where
  "plain_word d w \<longleftrightarrow> one_word w \<and> plain d None w"

lemma plain_word_then: "plain_word d w \<Longrightarrow> plain d None t \<Longrightarrow> plain d None (w @ t)"
  using plain_append [of d None w None t] by (simp add: plain_word_def one_word_def)

lemma plain_command: "list_all (plain_word d) ts \<Longrightarrow> plain d None t \<Longrightarrow> plain d None (join_with '' '' ts @ t)"
proof (induction ts)
  case (Cons w ts)
  then show ?case by (cases ts) (auto simp: plain_word_then plain_separators simp del: plain.simps(3))
qed simp

lemma plain_line: "list_all (list_all (plain_word d)) cmds \<Longrightarrow> plain d None (command_line cmds)"
proof (induction cmds)
  case (Cons ts cmds)
  then show ?case
    using plain_command [of d ts "[]"] plain_command [of d ts "CHR '';'' # CHR '' '' # command_line cmds"]
    by (cases cmds) (simp_all add: command_line_def plain_separators del: plain.simps(3))
qed (simp add: command_line_def)

text \<open>What is neither a quote nor the end of a word leaves the reading as it is.\<close>

definition neutral :: "char \<Rightarrow> bool" where
  "neutral c \<longleftrightarrow> \<not> quote_char c \<and> \<not> space_char c \<and> c \<noteq> CHR '';'' \<and> c \<notin> OPERATORS"

definition quoting :: "char option \<Rightarrow> bool" where
  "quoting quote \<longleftrightarrow> (\<forall>q. quote = Some q \<longrightarrow> quote_char q)"

lemma quote_after_neutral: "list_all neutral v \<Longrightarrow> quoting quote \<Longrightarrow> quote_after quote (v @ r) = quote_after quote r"
  by (induction v) (cases quote; auto simp: neutral_def quoting_def)+

lemma no_operator_neutral: "list_all neutral v \<Longrightarrow> quoting quote \<Longrightarrow> no_operator quote (v @ r) = no_operator quote r"
  by (induction v) (cases quote; auto simp: neutral_def quoting_def)+

lemma neutral_one_word: "list_all neutral v \<Longrightarrow> v \<noteq> [] \<Longrightarrow> one_word v"
  using quote_after_neutral [of v None "[]"] no_operator_neutral [of v None "[]"] by (simp add: one_word_def quoting_def)

lemma operators_no_words: "\<forall>c \<in> OPERATORS. \<not> word_char c"
  by code_simp

lemma word_char_no_operator: "word_char c \<Longrightarrow> c \<notin> OPERATORS"
  using operators_no_words by blast

lemma neutral_word_chars: "list_all word_char v \<Longrightarrow> list_all neutral v"
  by (auto simp: list_all_iff neutral_def word_char_no_operator dest: word_char_plain)

lemma neutral_chars: "neutral CHR ''$''" "neutral CHR ''{''" "neutral CHR ''}''" "neutral CHR '':''" "neutral CHR ''e''" "neutral CHR ''n''" "neutral CHR ''v''"
  by (simp_all add: neutral_def quote_char_def space_char_def is_space_def NOWHERE_SPACES_def OPERATORS_def)

lemma lower_char_word: "word_char (lower_char c) \<Longrightarrow> word_char c"
  by (auto simp: lower_char_def word_char_def ident_start_def less_eq_char_def Let_def split: if_splits)

lemma env_letters: "list_all word_char ''env''"
  by code_simp

lemma neutral_env:
  assumes "lower e = ''env:''"
  shows "list_all neutral e"
  unfolding list_all_iff
proof
  fix c assume "c \<in> set e"
  then have "lower_char c \<in> set ''env:''" using lower_mem [of c e] assms by simp
  then consider "word_char (lower_char c)" | "lower_char c = CHR '':''" using env_letters by auto
  then show "neutral c"
  proof cases
    case 1
    then show ?thesis using neutral_word_chars [of "[c]"] lower_char_word by simp
  next
    case 2
    then have "c = CHR '':''" by (rule lower_char_other) simp
    then show ?thesis by (simp add: neutral_chars)
  qed
qed

lemma neutral_match: "match_shape source m \<Longrightarrow> list_all neutral (vm_text m)"
  by (auto simp: match_shape_def is_name_def neutral_word_chars neutral_chars neutral_env DOLLAR_def split: if_splits)

lemma neutral_rewritten: "is_name n \<Longrightarrow> list_all neutral (rewritten_variable source n)"
  by (simp add: rewritten_variable_def is_name_def neutral_word_chars neutral_chars)

lemma quote_after_rewrite:
  "quoting quote \<Longrightarrow> quote_after quote (rewrite_pieces source (variable_pieces source t)) = quote_after quote t"
proof (induction source t arbitrary: quote rule: variable_pieces.induct)
  case (2 source c cs)
  show ?case
  proof (cases "match_variable source (c # cs)")
    case None
    then show ?thesis
      using 2(1) [OF None] 2(3) by (cases quote) (auto simp: rewrite_pieces_def quoting_def)
  next
    case (Some m)
    note shape = match_variable_shape [OF Some]
    then have name: "is_name (vm_name m)" by (simp add: match_shape_def)
    have "quote_after quote (c # cs) = quote_after quote (vm_text m @ vm_rest m)" using match_variable_splits [OF Some] by (simp add: splits_def)
    with Some 2(2) [OF Some 2(3)] 2(3) show ?thesis
      by (simp add: rewrite_pieces_def quote_after_neutral neutral_match [OF shape] neutral_rewritten [OF name])
  qed
qed (simp add: rewrite_pieces_def)

lemma no_operator_rewrite:
  "quoting quote \<Longrightarrow> no_operator quote (rewrite_pieces source (variable_pieces source t)) = no_operator quote t"
proof (induction source t arbitrary: quote rule: variable_pieces.induct)
  case (2 source c cs)
  show ?case
  proof (cases "match_variable source (c # cs)")
    case None
    then show ?thesis
      using 2(1) [OF None] 2(3) by (cases quote) (auto simp: rewrite_pieces_def quoting_def)
  next
    case (Some m)
    note shape = match_variable_shape [OF Some]
    then have name: "is_name (vm_name m)" by (simp add: match_shape_def)
    have "no_operator quote (c # cs) = no_operator quote (vm_text m @ vm_rest m)" using match_variable_splits [OF Some] by (simp add: splits_def)
    with Some 2(2) [OF Some 2(3)] 2(3) show ?thesis
      by (simp add: rewrite_pieces_def no_operator_neutral neutral_match [OF shape] neutral_rewritten [OF name])
  qed
qed (simp add: rewrite_pieces_def)

lemma rewrite_one_word:
  assumes "rewrite_variables t source = Inr (t', changed)" and "one_word t"
  shows "one_word t'"
proof -
  have "rewrite_pieces source (variable_pieces source t) \<noteq> []"
    using assms(2) by (cases t) (auto simp: one_word_def rewrite_pieces_def rewritten_variable_def split: option.split)
  then show ?thesis
    using assms quote_after_rewrite [of None source t] no_operator_rewrite [of None source t]
    by (auto simp: rewrite_variables_def one_word_def quoting_def split: if_splits option.splits)
qed

text \<open>What the dictionary writes for a word is plain to the other shell.\<close>

definition calm :: "char \<Rightarrow> bool" where
  "calm c \<longleftrightarrow> neutral c \<and> c \<noteq> DOLLAR"

lemma escapes_operators: "escapes d \<subseteq> OPERATORS"
  by (auto simp: escapes_def OPERATORS_def)

lemma plain_calm: "list_all calm v \<Longrightarrow> quoting quote \<Longrightarrow> plain d quote r \<Longrightarrow> plain d quote (v @ r)"
  using escapes_operators [of d] by (induction v) (cases quote; auto simp: calm_def neutral_def quoting_def)+

lemma unescaped_neutral: "list_all neutral v \<Longrightarrow> quoting quote \<Longrightarrow> unescaped d quote (v @ r) \<Longrightarrow> unescaped d quote r"
  by (induction v) (cases quote; auto simp: neutral_def quoting_def split: if_splits)+

lemma unescaped_word: "list_all neutral v \<Longrightarrow> unescaped d None v"
  by (induction v) (auto simp: neutral_def)

lemma calm_name: "list_all word_char n \<Longrightarrow> list_all calm n"
  using neutral_word_chars [of n] by (auto simp: calm_def list_all_iff dest: word_char_plain(4))

lemma plain_rewritten:
  assumes "is_name n" and "source \<in> TRANSLATABLE" and "quoting quote" and "plain (source_dialect_for source) quote r"
  shows "plain (source_dialect_for source) quote (rewritten_variable source n @ r)"
proof -
  let ?d = "source_dialect_for source" and ?v = "tl (rewritten_variable source n)"
  have v: "rewritten_variable source n = DOLLAR # ?v" by (simp add: rewritten_variable_def DOLLAR_def)
  have env: "list_all calm ''env:''" by (simp add: calm_def neutral_chars DOLLAR_def)
  have name: "list_all calm n" "ident_start (hd n)" "n \<noteq> []" using assms(1) calm_name by (auto simp: is_name_def)
  have "list_all calm ?v" using name(1) env by (auto simp: rewritten_variable_def)
  then have rest: "plain ?d quote (?v @ r)" by (rule plain_calm [OF _ assms(3,4)])
  have "begins_variable ?d (?v @ r)"
    using name(2,3) assms(2) by (auto simp: begins_variable_def rewritten_variable_def source_dialect_for_def TRANSLATABLE_def starts_with_def neq_Nil_conv)
  moreover have "DOLLAR \<notin> escapes ?d" using escapes_operators [of ?d] dollar_no_operator(1) by blast
  moreover have "\<not> quote_char DOLLAR" by (simp add: quote_char_def DOLLAR_def)
  ultimately show ?thesis using rest assms(3) by (subst v) (cases quote; auto simp: dollar_no_operator quoting_def)
qed

lemma plain_rewrite:
  "quoting quote \<Longrightarrow> no_operator quote t \<Longrightarrow> unescaped (source_dialect_for source) quote t \<Longrightarrow> readable source t \<Longrightarrow> source \<in> TRANSLATABLE
   \<Longrightarrow> plain (source_dialect_for source) quote (rewrite_pieces source (variable_pieces source t))"
proof (induction source t arbitrary: quote rule: variable_pieces.induct)
  case (2 source c cs)
  show ?case
  proof (cases "match_variable source (c # cs)")
    case None
    then have c: "c \<noteq> DOLLAR" and r: "readable source cs" using 2(6) by (auto simp: readable_def)
    then show ?thesis
      using 2(1) [OF None] 2(3-5,7) None by (cases quote) (auto simp: rewrite_pieces_def quoting_def split: if_splits)
  next
    case (Some m)
    note shape = match_variable_shape [OF Some]
    then have name: "is_name (vm_name m)" by (simp add: match_shape_def)
    have whole: "c # cs = vm_text m @ vm_rest m" using match_variable_splits [OF Some] by (simp add: splits_def)
    have "no_operator quote (vm_rest m)" using 2(4) no_operator_neutral [OF neutral_match [OF shape] 2(3)] whole by simp
    moreover have "unescaped (source_dialect_for source) quote (vm_rest m)" using 2(5) unescaped_neutral [OF neutral_match [OF shape] 2(3)] whole by simp
    moreover have "readable source (vm_rest m)" using 2(6) Some by (simp add: readable_def)
    ultimately show ?thesis
      using plain_rewritten [OF name 2(7,3)] 2(2) [OF Some 2(3)] 2(7) Some by (simp add: rewrite_pieces_def)
  qed
qed (simp add: rewrite_pieces_def)

lemma no_dollar_pieces: "DOLLAR \<notin> set t \<Longrightarrow> variable_pieces source t = map Inl t"
  by (induction t) (auto simp: variable_pieces_literal not_sym simp del: variable_pieces.simps(2))

lemma rewrite_variables_pieces:
  assumes "rewrite_variables t source = Inr (t', changed)"
  shows "readable source t \<and> t' = rewrite_pieces source (variable_pieces source t)"
proof (cases "DOLLAR \<in> set t")
  case True
  with assms show ?thesis by (auto simp: rewrite_variables_def readable_iff dollars_def split: if_splits option.splits)
next
  case False
  with assms show ?thesis
    by (auto simp: rewrite_variables_def no_dollar_pieces readable_def rewrite_pieces_def comp_def)
qed

lemma rewrite_plain_word:
  assumes "rewrite_variables t source = Inr (t', changed)" and "one_word t" and "unescaped (source_dialect_for source) None t" and "source \<in> TRANSLATABLE"
  shows "plain_word (source_dialect_for source) t'"
  using rewrite_variables_pieces [OF assms(1)] plain_rewrite [of None t source] rewrite_one_word [OF assms(1,2)] assms(2-4)
  by (simp add: plain_word_def one_word_def quoting_def)

text \<open>The scan gives simple commands.\<close>

definition scanned_well :: "char option \<Rightarrow> scanning \<Rightarrow> bool" where
  "scanned_well quote g \<longleftrightarrow> quoting quote \<and> quote_after None (sg_token g) = Some quote \<and> no_operator None (sg_token g) \<and> list_all one_word (sg_tokens g)
     \<and> list_all simple_command (sg_segments g)"

lemma end_token_well:
  assumes "scanned_well None g" and "end_token source g = Inr g'"
  shows "scanned_well None g' \<and> sg_token g' = []"
proof (cases "sg_token g = []")
  case False
  then have "one_word (sg_token g)" using assms(1) by (simp add: scanned_well_def one_word_def)
  with rewrite_one_word [of "sg_token g" source] False assms show ?thesis
    by (auto simp: end_token_def scanned_well_def bindR_Inr_iff)
qed (use assms in \<open>auto simp: end_token_def\<close>)

lemma end_segment_well: "scanned_well None g \<Longrightarrow> sg_token g = [] \<Longrightarrow> scanned_well None (end_segment g)"
  by (auto simp: scanned_well_def end_segment_def simple_command_def)

lemma push_well:
  "scanned_well quote g \<Longrightarrow> quote_after quote t = Some quote' \<Longrightarrow> no_operator quote t \<Longrightarrow> quoting quote' \<Longrightarrow> scanned_well quote' (push_text t g)"
  by (simp add: scanned_well_def push_text_def quote_after_append no_operator_append)

lemma no_operator_iff: "no_operator None [c] \<longleftrightarrow> c \<notin> OPERATORS" "dict_get REFUSED_CHARACTERS c = None \<Longrightarrow> c \<notin> OPERATORS"
    "quote_char c \<Longrightarrow> c \<notin> OPERATORS"
  by (auto simp: OPERATORS_def dict_get_None_iff quote_char_def REFUSED_CHARACTERS_def)

lemma scan_from_well:
  "scan_from source quote g s = Inr (segments, v) \<Longrightarrow> scanned_well quote g \<Longrightarrow> list_all simple_command segments \<and> segments \<noteq> []"
proof (induction source quote g s rule: scan_from.induct)
  case (1 source quote g)
  then obtain g' where g': "quote = None" "end_token source g = Inr g'" "segments = sg_segments (end_segment g')" "segments \<noteq> []"
    by (auto simp: bindR_Inr_iff split: if_splits)
  with 1(2) end_token_well [of g source g'] end_segment_well [of g'] show ?case by (simp add: scanned_well_def)
next
  case (2 source q g c cs)
  have "quoting (Some q)" using 2(3) by (simp add: scanned_well_def)
  then have "scanned_well (if c = q then None else Some q) (push_text [c] g)" by (intro push_well [OF 2(3)]) (auto simp: quoting_def)
  with 2(1,2) show ?case by simp
next
  case (3 source g c cs)
  have braced: "scanned_well None (push_text (vm_text m) g)" if "braced_variable (c # cs) = Some m" for m
  proof -
    have "match_variable Dialect_POSIX (c # cs) = Some m" using that by (simp add: match_variable_def)
    from neutral_match [OF match_variable_shape [OF this]] 3(7) show ?thesis
      using quote_after_neutral [of "vm_text m" None "[]"] no_operator_neutral [of "vm_text m" None "[]"] by (intro push_well) (simp_all add: quoting_def)
  qed
  have plain: "scanned_well (if quote_char c then Some c else None) (push_text [c] g)" if "quote_char c \<or> (c \<noteq> CHR '';'' \<and> \<not> space_char c \<and> dict_get REFUSED_CHARACTERS c = None)"
    using that 3(7) by (intro push_well) (auto simp: quoting_def no_operator_iff)
  have ended: "scanned_well None g' \<and> scanned_well None (end_segment g')" if "end_token source g = Inr g'" for g'
    using end_token_well [OF 3(7) that] end_segment_well by blast
  show ?case
    using 3(6) 3(1-5) braced plain 3(7)
    by (auto simp: bindR_Inr_iff split: if_splits option.splits dest!: ended)
qed

text \<open>The scan of an unescaped command gives words that are plain to the other shell.\<close>

definition scanned_unescaped :: "shell_dialect \<Rightarrow> char option \<Rightarrow> scanning \<Rightarrow> bool" where
  "scanned_unescaped d quote g \<longleftrightarrow> scanned_well quote g \<and> unescaped d None (sg_token g) \<and> list_all (plain_word d) (sg_tokens g)
     \<and> list_all (list_all (plain_word d)) (sg_segments g)"

lemma end_token_unescaped:
  assumes "scanned_unescaped (source_dialect_for source) None g" and "end_token source g = Inr g'" and "source \<in> TRANSLATABLE"
  shows "scanned_unescaped (source_dialect_for source) None g' \<and> sg_token g' = []"
proof (cases "sg_token g = []")
  case False
  then have "one_word (sg_token g)" using assms(1) by (simp add: scanned_unescaped_def scanned_well_def one_word_def)
  with rewrite_plain_word [of "sg_token g" source] False assms end_token_well [of g source g'] show ?thesis
    by (auto simp: end_token_def scanned_unescaped_def bindR_Inr_iff)
qed (use assms in \<open>auto simp: end_token_def\<close>)

lemma end_segment_unescaped: "scanned_unescaped d None g \<Longrightarrow> sg_token g = [] \<Longrightarrow> scanned_unescaped d None (end_segment g)"
  using end_segment_well [of g] by (auto simp: scanned_unescaped_def end_segment_def)

lemma push_unescaped:
  assumes "scanned_unescaped d quote g" and "quote_after quote t = Some quote'" and "no_operator quote t" and "unescaped d quote t" and "quoting quote'"
  shows "scanned_unescaped d quote' (push_text t g)"
  using assms push_well [of quote g t quote'] unescaped_append [of None "sg_token g" quote d t]
  by (auto simp: scanned_unescaped_def push_text_def scanned_well_def)

lemma scan_from_unescaped:
  "scan_from source quote g s = Inr (segments, v) \<Longrightarrow> scanned_unescaped (source_dialect_for source) quote g \<Longrightarrow> unescaped (source_dialect_for source) quote s
   \<Longrightarrow> source \<in> TRANSLATABLE \<Longrightarrow> list_all (list_all (plain_word (source_dialect_for source))) segments"
proof (induction source quote g s rule: scan_from.induct)
  case (1 source quote g)
  then obtain g' where g': "quote = None" "end_token source g = Inr g'" "segments = sg_segments (end_segment g')"
    by (auto simp: bindR_Inr_iff split: if_splits)
  with 1(2,4) end_token_unescaped [of source g g'] end_segment_unescaped [of "source_dialect_for source" g'] show ?case by (simp add: scanned_unescaped_def)
next
  case (2 source q g c cs)
  have "quoting (Some q)" using 2(3) by (simp add: scanned_unescaped_def scanned_well_def)
  then have "scanned_unescaped (source_dialect_for source) (if c = q then None else Some q) (push_text [c] g)"
    using 2(4) by (intro push_unescaped [OF 2(3)]) (auto simp: quoting_def split: if_splits)
  with 2(1,2,4,5) show ?case by (simp split: if_splits)
next
  case (3 source g c cs)
  let ?d = "source_dialect_for source"
  have braced: "scanned_unescaped ?d None (push_text (vm_text m) g) \<and> unescaped ?d None (vm_rest m)" if "braced_variable (c # cs) = Some m" for m
  proof -
    have "match_variable Dialect_POSIX (c # cs) = Some m" using that by (simp add: match_variable_def)
    note calm = neutral_match [OF match_variable_shape [OF this]] and whole = match_variable_splits [OF this, unfolded splits_def]
    have "unescaped ?d None (vm_rest m)" using 3(8) whole unescaped_neutral [OF calm, of None ?d "vm_rest m"] by (simp add: quoting_def)
    moreover have "scanned_unescaped ?d None (push_text (vm_text m) g)"
      using quote_after_neutral [OF calm, of None "[]"] no_operator_neutral [OF calm, of None "[]"] unescaped_word [OF calm]
      by (intro push_unescaped [OF 3(7)]) (simp_all add: quoting_def)
    ultimately show ?thesis by blast
  qed
  have literal: "scanned_unescaped ?d (if quote_char c then Some c else None) (push_text [c] g)"
    if "quote_char c \<or> (c \<noteq> CHR '';'' \<and> \<not> space_char c \<and> dict_get REFUSED_CHARACTERS c = None)"
    using that by (intro push_unescaped [OF 3(7)]) (auto simp: quoting_def no_operator_iff)
  have rest: "unescaped ?d (if quote_char c then Some c else None) cs" using 3(8) by simp
  have ended: "scanned_unescaped ?d None g' \<and> scanned_unescaped ?d None (end_segment g')" if "end_token source g = Inr g'" for g'
    using end_token_unescaped [OF 3(7) that 3(9)] end_segment_unescaped by blast
  have apart: "\<not> quote_char CHR '';''" "space_char c \<Longrightarrow> \<not> quote_char c"
    by (auto simp: quote_char_def space_char_def is_space_def NOWHERE_SPACES_def)
  show ?case
    using 3(6) 3(1-5) braced literal rest 3(7,9) apart
    by (auto simp: bindR_Inr_iff split: if_splits option.splits dest!: ended)
qed

section \<open>The rules read\<close>

definition READERS :: "shell_dialect \<Rightarrow> string set" where
  "READERS target = (if target = Dialect_POWERSHELL
     then {''Get-ChildItem'', ''Get-Content'', ''Get-Location'', ''Write-Output'', ''Get-Command''}
     else {''ls'', ''env'', ''head'', ''tail'', ''cat'', ''pwd'', ''echo'', ''command''})"

definition OPTIONS :: "string set" where
  "OPTIONS = {''-Force'', ''-TotalCount'', ''-Tail'', ''Env:'', ''-a'', ''-n'', ''-v''}"

text \<open>
  A program that reads, with options of the dictionary, numbers, and words of the command it stands for;
  \<open>command\<close> only as \<open>command -v\<close> and \<open>env\<close> only alone, which run nothing.
\<close>

definition reads_only :: "shell_dialect \<Rightarrow> string list \<Rightarrow> string list \<Rightarrow> bool" where
  "reads_only target segment ts \<longleftrightarrow>
     (case ts of [] \<Rightarrow> False
      | program # args \<Rightarrow> program \<in> READERS target \<and> (program = ''command'' \<longrightarrow> (\<exists>name. args = [''-v'', name])) \<and> (program = ''env'' \<longrightarrow> args = [])
          \<and> set args \<subseteq> OPTIONS \<union> range str_int \<union> set (tl segment))"

lemma posix_list_options_paths:
  "posix_list_options force paths ts = Some (force', paths') \<Longrightarrow> x \<in> set paths' \<Longrightarrow> x \<in> set paths \<or> x \<in> set ts"
proof (induction force paths ts rule: posix_list_options.induct)
  case (2 force paths t ts)
  then show ?case by (cases "starts_with ''-'' t") (auto split: if_splits)
qed simp

lemma powershell_list_options_paths:
  "powershell_list_options force paths ts = Some (force', paths') \<Longrightarrow> x \<in> set paths' \<Longrightarrow> x \<in> set paths \<or> x \<in> set ts"
proof (induction force paths ts rule: powershell_list_options.induct)
  case (2 force paths t ts)
  then show ?case by (cases "lower t = ''-force''"; cases "starts_with ''-'' t") auto
qed simp

lemma lines_and_file_word:
  "lines_and_file_from n known ts = Inr (Some (n', f)) \<Longrightarrow> f \<in> set_option known \<union> set ts"
proof (induction n known ts rule: lines_and_file_from.induct)
  case (2 n known t ts)
  then show ?case
    by (cases "starts_with ''-'' t") (auto simp: bindR_Inr_iff split: if_splits option.splits list.splits)
qed auto

lemma get_content_word:
  "get_content_from known mode ts = Inr (Some (f, mode')) \<Longrightarrow> f \<in> set_option known \<union> set ts"
proof (induction known mode ts rule: get_content_from.induct)
  case (2 known mode t ts)
  then show ?case
    by (cases "lower t \<in> {''-totalcount'', ''-head'', ''-first'', ''-tail'', ''-last''}"; cases "starts_with ''-'' t")
      (auto simp: bindR_Inr_iff split: if_splits option.splits list.splits)
qed auto

lemma calm_plain_word: "list_all calm v \<Longrightarrow> v \<noteq> [] \<Longrightarrow> plain_word d v"
  using plain_calm [of v None d "[]"] neutral_one_word [of v] by (auto simp: plain_word_def quoting_def calm_def list_all_iff)

lemma constant_words:
  "plain_word d ''Get-ChildItem''" "plain_word d ''Get-Content''" "plain_word d ''Get-Location''" "plain_word d ''Write-Output''"
  "plain_word d ''Get-Command''" "plain_word d ''ls''" "plain_word d ''env''" "plain_word d ''head''" "plain_word d ''tail''"
  "plain_word d ''cat''" "plain_word d ''pwd''" "plain_word d ''echo''" "plain_word d ''command''" "plain_word d ''-Force''"
  "plain_word d ''-TotalCount''" "plain_word d ''-Tail''" "plain_word d ''Env:''" "plain_word d ''-a''" "plain_word d ''-n''"
  "plain_word d ''-v''"
  by (rule calm_plain_word; simp add: calm_def DOLLAR_def neutral_def quote_char_def space_char_def is_space_def NOWHERE_SPACES_def OPERATORS_def)+

lemma readers_are_words: "program \<in> READERS target \<Longrightarrow> plain_word d program"
  by (auto simp: READERS_def constant_words split: if_splits)

lemma options_are_words: "w \<in> OPTIONS \<Longrightarrow> plain_word d w"
  by (auto simp: OPTIONS_def constant_words)

lemma numbers_are_words: "plain_word d (str_int n)"
proof (rule calm_plain_word)
  have "calm c" if "is_int_char c" for c
    using that by (auto simp: calm_def DOLLAR_def is_int_char_def is_digit_def neutral_def quote_char_def space_char_def is_space_def NOWHERE_SPACES_def OPERATORS_def Let_def dest!: code_eqD)
  then show "list_all calm (str_int n)" using is_int_char_str_int by (auto simp: list_all_iff)
qed simp

lemma reads_only_plain:
  assumes "reads_only target segment ts" and "list_all (plain_word d) segment"
  shows "list_all (plain_word d) ts \<and> simple_command ts"
proof -
  obtain program args where ts: "ts = program # args" and program: "program \<in> READERS target"
    and args: "set args \<subseteq> OPTIONS \<union> range str_int \<union> set (tl segment)"
    using assms(1) by (auto simp: reads_only_def split: list.splits)
  have "plain_word d w" if "w \<in> set args" for w
  proof -
    from that args consider "w \<in> OPTIONS" | n where "w = str_int n" | "w \<in> set segment" by (cases segment) auto
    then show ?thesis using options_are_words numbers_are_words assms(2) by cases (auto simp: list_all_iff)
  qed
  with ts readers_are_words [OF program] have "ts \<noteq> [] \<and> list_all (plain_word d) ts" by (simp add: list_all_iff)
  then show ?thesis by (auto simp: simple_command_def list_all_iff plain_word_def)
qed

text \<open>What every rule of the dictionary produces.\<close>

lemma operand_word: "single_operand ts = Some t \<Longrightarrow> t \<in> set (tl ts)"
  by (auto simp: single_operand_def drop_Suc split: list.splits if_splits)

lemma operands_words: "powershell_operands ts = Some ws \<Longrightarrow> set ws \<subseteq> set (tl ts)"
  by (auto simp: powershell_operands_def drop_Suc split: if_splits)

text \<open>The shape of what a rule produces.\<close>

lemma list_shapes:
  "posix_list_directory ts = Some out \<Longrightarrow> \<exists>force paths. out = ''Get-ChildItem'' # (if force then [''-Force''] else []) @ paths \<and> set paths \<subseteq> set (tl ts)"
  "powershell_list_directory ts = Some out \<Longrightarrow> \<exists>force paths. out = ''ls'' # (if force then [''-a''] else []) @ paths \<and> set paths \<subseteq> set (tl ts)"
proof -
  assume "posix_list_directory ts = Some out"
  then obtain force paths where read: "posix_list_options False [] (tl ts) = Some (force, paths)" and out: "out = ''Get-ChildItem'' # (if force then [''-Force''] else []) @ paths"
    by (auto simp: posix_list_directory_def drop_Suc split: option.splits if_splits)
  then show "\<exists>force paths. out = ''Get-ChildItem'' # (if force then [''-Force''] else []) @ paths \<and> set paths \<subseteq> set (tl ts)"
    by (intro exI [of _ force] exI [of _ paths] conjI out subsetI) (use posix_list_options_paths [OF read] in auto)
next
  assume "powershell_list_directory ts = Some out"
  then obtain force paths where read: "powershell_list_options False [] (tl ts) = Some (force, paths)" and out: "out = ''ls'' # (if force then [''-a''] else []) @ paths"
    by (auto simp: powershell_list_directory_def drop_Suc split: option.splits if_splits)
  then show "\<exists>force paths. out = ''ls'' # (if force then [''-a''] else []) @ paths \<and> set paths \<subseteq> set (tl ts)"
    by (intro exI [of _ force] exI [of _ paths] conjI out subsetI) (use powershell_list_options_paths [OF read] in auto)
qed

lemma line_shapes:
  "posix_head ts = Inr (Some out) \<Longrightarrow> \<exists>n f. out = [''Get-Content'', f, ''-TotalCount'', str_int n] \<and> f \<in> set (tl ts)"
  "posix_tail ts = Inr (Some out) \<Longrightarrow> \<exists>n f. out = [''Get-Content'', f, ''-Tail'', str_int n] \<and> f \<in> set (tl ts)"
  by (auto simp: posix_head_def posix_tail_def bindR_Inr_iff lines_and_file_def drop_Suc dest!: lines_and_file_word)

lemma operand_shapes:
  "posix_env ts = Some out \<Longrightarrow> out = [''Get-ChildItem'', ''Env:'']"
  "posix_pwd ts = Some out \<Longrightarrow> out = [''Get-Location'']"
  "posix_print_file ts = Some out \<Longrightarrow> \<exists>t. out = [''Get-Content'', t] \<and> t \<in> set (tl ts)"
  "posix_echo ts = Some out \<Longrightarrow> \<exists>t. out = [''Write-Output'', t] \<and> t \<in> set (tl ts)"
  "posix_which ts = Some out \<Longrightarrow> \<exists>t. out = [''Get-Command'', t] \<and> t \<in> set (tl ts)"
  "powershell_list_environment ts = Some out \<Longrightarrow> out = [''env'']"
  "powershell_pwd ts = Some out \<Longrightarrow> out = [''pwd'']"
  "powershell_echo ts = Some out \<Longrightarrow> \<exists>t. out = [''echo'', t] \<and> t \<in> set (tl ts)"
  "powershell_which ts = Some out \<Longrightarrow> \<exists>t. out = [''command'', ''-v'', t] \<and> t \<in> set (tl ts)"
  by (auto simp: posix_env_def posix_pwd_def posix_print_file_def posix_echo_def posix_which_def powershell_list_environment_def
      powershell_pwd_def powershell_echo_def powershell_which_def split: if_splits option.splits list.splits
      dest!: operand_word operands_words)

lemma content_word: "powershell_get_content ts = Inr (Some (f, mode)) \<Longrightarrow> f \<in> set (tl ts)"
  by (auto simp: powershell_get_content_def drop_Suc dest: get_content_word)

lemma content_shapes:
  "powershell_head ts = Inr (Some out) \<Longrightarrow> \<exists>n f. out = [''head'', ''-n'', str_int n, f] \<and> f \<in> set (tl ts)"
  "powershell_tail ts = Inr (Some out) \<Longrightarrow> \<exists>n f. out = [''tail'', ''-n'', str_int n, f] \<and> f \<in> set (tl ts)"
  "powershell_print_file ts = Inr (Some out) \<Longrightarrow> \<exists>f. out = [''cat'', f] \<and> f \<in> set (tl ts)"
proof -
  show "\<exists>n f. out = [''head'', ''-n'', str_int n, f] \<and> f \<in> set (tl ts)" if "powershell_head ts = Inr (Some out)"
  proof -
    from that obtain p where "powershell_get_content ts = Inr p"
      "(case p of Some (f, Some (Mode_head, n)) \<Rightarrow> Some [''head'', ''-n'', str_int n, f] | _ \<Rightarrow> None) = Some out"
      by (auto simp: powershell_head_def bindR_Inr_iff)
    then show ?thesis by (cases p) (fastforce dest!: content_word split: option.splits content_mode.splits)+
  qed
  show "\<exists>n f. out = [''tail'', ''-n'', str_int n, f] \<and> f \<in> set (tl ts)" if "powershell_tail ts = Inr (Some out)"
  proof -
    from that obtain p where "powershell_get_content ts = Inr p"
      "(case p of Some (f, Some (Mode_tail, n)) \<Rightarrow> Some [''tail'', ''-n'', str_int n, f] | _ \<Rightarrow> None) = Some out"
      by (auto simp: powershell_tail_def bindR_Inr_iff)
    then show ?thesis by (cases p) (fastforce dest!: content_word split: option.splits content_mode.splits)+
  qed
  show "\<exists>f. out = [''cat'', f] \<and> f \<in> set (tl ts)" if "powershell_print_file ts = Inr (Some out)"
  proof -
    from that obtain p where "powershell_get_content ts = Inr p"
      "(case p of Some (f, None) \<Rightarrow> Some [''cat'', f] | _ \<Rightarrow> None) = Some out"
      by (auto simp: powershell_print_file_def bindR_Inr_iff)
    then show ?thesis by (cases p) (fastforce dest!: content_word split: option.splits)+
  qed
qed

lemma reads_only_I:
  "program \<in> READERS target \<Longrightarrow> (program = ''command'' \<longrightarrow> (\<exists>name. args = [''-v'', name])) \<and> (program = ''env'' \<longrightarrow> args = []) \<Longrightarrow> set args \<subseteq> OPTIONS \<union> range str_int \<union> set (tl segment)
   \<Longrightarrow> reads_only target segment (program # args)"
  by (simp add: reads_only_def)

lemma posix_rules_read:
  "posix_env ts = Some out \<Longrightarrow> reads_only Dialect_POWERSHELL ts out"
  "posix_list_directory ts = Some out \<Longrightarrow> reads_only Dialect_POWERSHELL ts out"
  "posix_head ts = Inr (Some out) \<Longrightarrow> reads_only Dialect_POWERSHELL ts out"
  "posix_tail ts = Inr (Some out) \<Longrightarrow> reads_only Dialect_POWERSHELL ts out"
  "posix_print_file ts = Some out \<Longrightarrow> reads_only Dialect_POWERSHELL ts out"
  "posix_pwd ts = Some out \<Longrightarrow> reads_only Dialect_POWERSHELL ts out"
  "posix_echo ts = Some out \<Longrightarrow> reads_only Dialect_POWERSHELL ts out"
  "posix_which ts = Some out \<Longrightarrow> reads_only Dialect_POWERSHELL ts out"
  by (drule operand_shapes list_shapes line_shapes, (elim exE conjE)?, hypsubst, rule reads_only_I, simp add: READERS_def, simp,
      fastforce simp: OPTIONS_def)+

lemma powershell_rules_read:
  "powershell_list_environment ts = Some out \<Longrightarrow> reads_only Dialect_POSIX ts out"
  "powershell_list_directory ts = Some out \<Longrightarrow> reads_only Dialect_POSIX ts out"
  "powershell_head ts = Inr (Some out) \<Longrightarrow> reads_only Dialect_POSIX ts out"
  "powershell_tail ts = Inr (Some out) \<Longrightarrow> reads_only Dialect_POSIX ts out"
  "powershell_print_file ts = Inr (Some out) \<Longrightarrow> reads_only Dialect_POSIX ts out"
  "powershell_pwd ts = Some out \<Longrightarrow> reads_only Dialect_POSIX ts out"
  "powershell_echo ts = Some out \<Longrightarrow> reads_only Dialect_POSIX ts out"
  "powershell_which ts = Some out \<Longrightarrow> reads_only Dialect_POSIX ts out"
  by (drule operand_shapes list_shapes content_shapes, (elim exE conjE)?, hypsubst, rule reads_only_I, simp add: READERS_def, simp,
      fastforce simp: OPTIONS_def)+

lemma rules_read:
  assumes "source \<in> TRANSLATABLE" and "r \<in> set (rules_for source)" and "ru_apply r segment = Inr (Some out)"
  shows "reads_only (source_dialect_for source) segment out"
proof (cases "source = Dialect_POSIX")
  case True
  with assms(2,3) show ?thesis
    by (auto simp: POSIX_TO_POWERSHELL_def rule_from_def source_dialect_for_def intro: posix_rules_read)
next
  case False
  with assms show ?thesis
    by (auto simp: TRANSLATABLE_def POWERSHELL_TO_POSIX_def rule_from_def source_dialect_for_def intro: powershell_rules_read)
qed

section \<open>What the translator answers\<close>

lemma first_rule_Some:
  "first_rule rs segment = Inr (Some (ts, rid)) \<Longrightarrow> \<exists>r \<in> set rs. ru_apply r segment = Inr (Some ts)"
  by (induction rs) (auto simp: bindR_Inr_iff split: option.splits)

lemma translate_segment_reads:
  assumes "sl_source tr \<in> TRANSLATABLE" and "translate_segment tr segment = Inr (Inr (ts, rid))"
  shows "reads_only (source_dialect_for (sl_source tr)) segment ts"
proof -
  have "first_rule (claiming (sl_source tr) (shell_name (hd segment))) segment = Inr (Some (ts, rid))"
    using assms(2) by (auto simp: translate_segment_def Let_def bindR_Inr_iff split: if_splits option.splits)
  then obtain r where "r \<in> set (rules_for (sl_source tr))" "ru_apply r segment = Inr (Some ts)"
    using first_rule_Some by (fastforce simp: claiming_def)
  then show ?thesis by (rule rules_read [OF assms(1)])
qed

lemma translate_segments_read:
  assumes "sl_source tr \<in> TRANSLATABLE" and "translate_segments tr rewritten fired segments = Inr (Inr (out, rules))"
  shows "(\<exists>more. out = rewritten @ more \<and> list_all2 (reads_only (source_dialect_for (sl_source tr))) segments more)
    \<and> (segments \<noteq> [] \<or> fired \<noteq> [] \<longrightarrow> rules \<noteq> [])"
  using assms(2)
proof (induction segments arbitrary: rewritten fired)
  case (Cons segment segments)
  then obtain ts rid where first: "translate_segment tr segment = Inr (Inr (ts, rid))"
    and rest: "translate_segments tr (rewritten @ [ts]) (if rid \<in> set fired then fired else fired @ [rid]) segments = Inr (Inr (out, rules))"
    by (cases "translate_segment tr segment") (auto split: sum.splits)
  from Cons.IH [OF rest] translate_segment_reads [OF assms(1) first] show ?case by (auto split: if_splits)
qed simp

lemma source_translatable: "target \<in> TRANSLATABLE \<Longrightarrow> source_dialect_for target \<in> TRANSLATABLE \<and> source_dialect_for (source_dialect_for target) = target"
  by (auto simp: TRANSLATABLE_def source_dialect_for_def)

lemma translated_cases:
  assumes "translate tr (Some cmd) = Inr (Some d)"
  shows "(\<exists>why. d = unchanged tr cmd why)
    \<or> (\<exists>segments variables commands. scan cmd (sl_source tr) = Inr (segments, variables)
        \<and> translate_segments tr [] (if variables then [VARIABLE_RULE_ID] else []) segments = Inr (Inr (commands, ct_rules d))
        \<and> ct_original d = cmd \<and> ct_target d = sl_target tr \<and> ct_source d = sl_source tr \<and> ct_executed d = command_line commands \<and> ct_reason d = None)"
proof (cases "scan cmd (sl_source tr)")
  case (Inr p)
  obtain segments variables where p: "p = (segments, variables)" by (cases p)
  show ?thesis
  proof (cases "translate_segments tr [] (if variables then [VARIABLE_RULE_ID] else []) segments")
    case (Inr out)
    with \<open>scan cmd (sl_source tr) = Inr p\<close> p assms show ?thesis by (cases out) (auto simp: translate_def split: if_splits)
  qed (use assms Inr p in \<open>auto simp: translate_def split: if_splits\<close>)
qed (use assms in \<open>auto simp: translate_def split: if_splits\<close>)



end
