(* ===== verification/Answering.thy ===== *)
theory Answering
  imports Translating
begin

text \<open>
  \<open>domain/dialects.py\<close>: when the translator raises, and what it does to quoted text.
\<close>

section \<open>When the translator raises\<close>

definition plain_number :: "string \<Rightarrow> bool" where
  "plain_number t \<longleftrightarrow> DOLLAR \<in> set t \<or> (length t \<le> INT_MAX_STR_DIGITS \<and> (\<forall>c \<in> set t. code c \<notin> SUPERSCRIPTS))"

definition misread :: "exn \<Rightarrow> string list \<Rightarrow> bool" where
  "misread e ts \<longleftrightarrow> (\<exists>m. e = ValueError m) \<and> (\<exists>t \<in> set ts. \<not> plain_number t)"

lemma misread_more:
  "misread e [t] \<Longrightarrow> misread e (t # ts)"
  "misread e ts \<Longrightarrow> misread e (t # ts)"
  by (auto simp: misread_def)

lemma misread_pair: "misread e (t # u # ts) \<longleftrightarrow> misread e [t] \<or> misread e [u] \<or> misread e ts"
  by (auto simp: misread_def)

lemma py_int_raises:
  assumes "py_int t = Inl e" and "isdigit t"
  shows "misread e [t]"
proof -
  have "DOLLAR \<notin> set t" using assms(2) by (auto simp: isdigit_def list_all_iff digit_char_def is_digit_def SUPERSCRIPTS_def DOLLAR_def Let_def)
  with assms show ?thesis
    by (auto simp: py_int_def misread_def plain_number_def isdigit_def list_all_iff digit_char_def split: if_splits)
qed

lemma ends_with_split: "ends_with [c] t \<Longrightarrow> t = butlast t @ [c]"
  by (cases t rule: rev_cases) (auto simp: ends_with_def)

lemma line_count_shape:
  assumes "line_count_option t = Some (Some ds)"
  shows "list_all is_digit ds" "DOLLAR \<notin> set t" "length ds \<le> length t"
proof -
  have nodollar: "DOLLAR \<notin> set ds" if "list_all is_digit ds" for ds using that by (auto simp: list_all_iff is_digit_def DOLLAR_def Let_def)
  define body where "body = (if ends_with [CHR 0x0A] t then butlast t else t)"
  have t: "t = body \<or> t = body @ [CHR 0x0A]" "length body \<le> length t"
    by (auto simp: body_def dest!: ends_with_split)
  have ds: "(starts_with ''-n'' body \<and> ds = drop 2 body \<or> starts_with ''-'' body \<and> ds = drop 1 body) \<and> list_all is_digit ds"
    using assms unfolding line_count_option_def Let_def body_def [symmetric] by (auto split: if_splits)
  then have "body = ''-n'' @ ds \<or> body = ''-'' @ ds" by (auto simp: numeral_2_eq_2 dest!: starts_with_split)
  with ds t nodollar [of ds] show "list_all is_digit ds" "DOLLAR \<notin> set t" "length ds \<le> length t" by (auto simp: DOLLAR_def)
qed

lemma line_count_raises:
  assumes "line_count_option t = Some (Some ds)" and "py_int ds = Inl e"
  shows "misread e [t]"
  using line_count_shape [OF assms(1)] assms(2) by (auto simp: misread_def plain_number_def py_int_def split: if_splits)

lemma lines_and_file_raises: "lines_and_file_from n known ts = Inl e \<Longrightarrow> misread e ts"
proof (induction n known ts rule: lines_and_file_from.induct)
  case (2 n known t ts)
  then show ?case
    by (cases "starts_with ''-'' t")
      (auto simp: bindR_Inl_iff misread_pair split: if_splits option.splits list.splits intro: misread_more py_int_raises line_count_raises)
qed simp

lemma get_content_raises: "get_content_from known mode ts = Inl e \<Longrightarrow> misread e ts"
proof (induction known mode ts rule: get_content_from.induct)
  case (2 known mode t ts)
  then show ?case
    by (cases "lower t \<in> {''-totalcount'', ''-head'', ''-first'', ''-tail'', ''-last''}"; cases "starts_with ''-'' t")
      (auto simp: bindR_Inl_iff misread_pair split: if_splits option.splits list.splits intro: misread_more py_int_raises)
qed simp

lemma rules_raise: "r \<in> set (rules_for source) \<Longrightarrow> ru_apply r segment = Inl e \<Longrightarrow> misread e (tl segment)"
  by (cases source)
    (auto simp: POSIX_TO_POWERSHELL_def POWERSHELL_TO_POSIX_def rule_from_def bindR_Inl_iff posix_head_def posix_tail_def lines_and_file_def
      powershell_head_def powershell_tail_def powershell_print_file_def powershell_get_content_def drop_Suc
      dest!: lines_and_file_raises get_content_raises)

lemma first_rule_raises: "first_rule rs segment = Inl e \<Longrightarrow> \<exists>r \<in> set rs. ru_apply r segment = Inl e"
  by (induction rs) (auto simp: bindR_Inl_iff split: option.splits)

lemma translate_segment_raises: "translate_segment tr segment = Inl e \<Longrightarrow> misread e (tl segment)"
  by (auto simp: translate_segment_def Let_def bindR_Inl_iff claiming_def split: if_splits option.splits dest!: first_rule_raises dest: rules_raise)

lemma translate_segments_raise:
  "translate_segments tr rewritten fired segments = Inl e \<Longrightarrow> \<exists>segment \<in> set segments. misread e (tl segment)"
proof (induction segments arbitrary: rewritten fired)
  case (Cons segment segments)
  show ?case
  proof (cases "translate_segment tr segment")
    case (Inl e')
    with Cons.prems show ?thesis using translate_segment_raises [OF Inl] by simp
  next
    case (Inr out)
    with Cons show ?thesis by (cases out) (auto split: prod.splits)
  qed
qed simp

text \<open>A word of a scanned command is as long as the command, or has a dollar sign.\<close>

definition no_superscript :: "string \<Rightarrow> bool" where
  "no_superscript t \<longleftrightarrow> (\<forall>c \<in> set t. code c \<notin> SUPERSCRIPTS)"

definition scanned_plain :: "string \<Rightarrow> scanning \<Rightarrow> bool" where
  "scanned_plain s g \<longleftrightarrow> length (sg_token g) + length s \<le> INT_MAX_STR_DIGITS \<and> no_superscript (sg_token g) \<and> no_superscript s
     \<and> list_all plain_number (sg_tokens g) \<and> list_all (list_all plain_number) (sg_segments g)"

lemma rewritten_dollar:
  assumes "rewrite_variables t source = Inr (t', changed)"
  shows "t' = t \<or> DOLLAR \<in> set t'"
proof (cases "DOLLAR \<in> set t")
  case True
  with assms have t': "t' = rewrite_pieces source (variable_pieces source t)"
    and "length (variable_matches source t) = length (filter (\<lambda>c. c = DOLLAR) t)"
    by (auto simp: rewrite_variables_def split: if_splits option.splits)
  moreover have "filter (\<lambda>c. c = DOLLAR) t \<noteq> []" using True by (auto simp: filter_empty_conv)
  ultimately have "variable_matches source t \<noteq> []" by auto
  then obtain p where p: "p \<in> set (variable_pieces source t)" "\<forall>c. p \<noteq> Inl c"
    by (auto simp: variable_matches_def map_filter_def filter_empty_conv split: sum.splits)
  then obtain m where "Inr m \<in> set (variable_pieces source t)" using p by - (cases p; auto)
  then have "set (rewritten_variable source (vm_name m)) \<subseteq> set t'" unfolding t' rewrite_pieces_def by force
  then show ?thesis by (auto simp: rewritten_variable_def DOLLAR_def split: if_splits)
qed (use assms in \<open>auto simp: rewrite_variables_def\<close>)

lemma end_token_plain: "scanned_plain s g \<Longrightarrow> end_token source g = Inr g' \<Longrightarrow> scanned_plain s g' \<and> scanned_plain s (end_segment g')"
  by (auto simp: scanned_plain_def end_token_def end_segment_def plain_number_def no_superscript_def split: if_splits dest!: rewritten_dollar)

lemma push_plain: "scanned_plain (t @ s) g \<Longrightarrow> scanned_plain s (push_text t g)"
  by (auto simp: scanned_plain_def push_text_def no_superscript_def)

lemma skip_plain: "scanned_plain (c # s) g \<Longrightarrow> scanned_plain s g"
  by (auto simp: scanned_plain_def no_superscript_def)

lemma scan_from_plain:
  "scan_from source quote g s = Inr (segments, v) \<Longrightarrow> scanned_plain s g \<Longrightarrow> list_all (list_all plain_number) segments"
proof (induction source quote g s rule: scan_from.induct)
  case (1 source quote g)
  then obtain g' where "quote = None" "end_token source g = Inr g'" "segments = sg_segments (end_segment g')" by (auto split: if_splits)
  with 1(2) end_token_plain [of "[]" g source g'] show ?case by (simp add: scanned_plain_def)
next
  case (2 source q g c cs)
  then show ?case using push_plain [of "[c]" cs g] by simp
next
  case (3 source g c cs)
  have braced: "scanned_plain (vm_rest m) (push_text (vm_text m) g)" if "braced_variable (c # cs) = Some m" for m
    using braced_variable_splits [OF that] 3(7) push_plain [of "vm_text m" "vm_rest m" g] by (simp add: splits_def)
  have pushed: "scanned_plain cs (push_text [c] g)" using 3(7) push_plain [of "[c]" cs g] by simp
  have ended: "scanned_plain cs g' \<and> scanned_plain cs (end_segment g')" if "end_token source g = Inr g'" for g'
    using end_token_plain [OF skip_plain [OF 3(7)] that] .
  show ?case
    using 3(6) 3(1-5) braced pushed by (auto split: if_splits option.splits dest!: ended)
qed

text \<open>
  C20. For a command of Latin-1 characters the translator raises only on a number of lines: when it does, it is a \<open>ValueError\<close>, and
  the command has a superscript digit, which \<open>str.isdigit\<close> takes for a digit and \<open>int\<close> does not, or is longer than the digits that \<open>int\<close>
  converts. Every other command of Latin-1 characters gets an answer. (Beyond Latin-1, which this model of text does not
  reach, there are other characters that \<open>str.isdigit\<close> accepts and \<open>int\<close> refuses, such as circled and Ethiopic digits.)
\<close>

theorem translation_raises_on_numbers:
  assumes "translate tr command = Inl e"
  shows "(\<exists>m. e = ValueError m) \<and> (\<exists>cmd. command = Some cmd \<and> ((\<exists>c \<in> set cmd. code c \<in> SUPERSCRIPTS) \<or> INT_MAX_STR_DIGITS < length cmd))"
proof -
  obtain cmd segments v where command: "command = Some cmd" and scanned: "scan cmd (sl_source tr) = Inr (segments, v)"
    and out: "translate_segments tr [] (if v then [VARIABLE_RULE_ID] else []) segments = Inl e"
    using assms by (auto simp: translate_def bindR_Inl_iff split: option.splits if_splits sum.splits)
  then obtain segment where bad: "segment \<in> set segments" "misread e (tl segment)" using translate_segments_raise [OF out] by blast
  have "\<not> scanned_plain cmd new_scanning"
  proof
    assume "scanned_plain cmd new_scanning"
    with scanned have "list_all (list_all plain_number) segments" by (auto simp: scan_def dest: scan_from_plain)
    with bad(1) have "list_all plain_number segment" by (simp add: list_all_iff)
    with bad(2) show False by - (cases segment; auto simp: misread_def list_all_iff)
  qed
  with bad(2) command show ?thesis by (auto simp: scanned_plain_def new_scanning_def misread_def no_superscript_def)
qed

text \<open>\<open>head -n\<close> with a superscript two.\<close>

theorem translation_raises_on_numbers_witness:
  "\<exists>e. translate (make_translator Dialect_POWERSHELL True) (Some (''head -n '' @ [CHR 0xB2] @ '' f'')) = Inl e \<and> (\<exists>m. e = ValueError m)"
proof -
  have "\<not> isl (translate (make_translator Dialect_POWERSHELL True) (Some (''head -n '' @ [CHR 0xB2] @ '' f''))) \<longleftrightarrow> False"
    by code_simp
  then obtain e where "translate (make_translator Dialect_POWERSHELL True) (Some (''head -n '' @ [CHR 0xB2] @ '' f'')) = Inl e" by (auto simp: isl_def)
  with translation_raises_on_numbers [OF this] show ?thesis by blast
qed

section \<open>Quoted text\<close>

lemma scan_quoted:
  "q \<notin> set t \<Longrightarrow> scan_from source (Some q) g (t @ q # r) = scan_from source None (push_text (t @ [q]) g) r"
  by (induction t arbitrary: g) (auto simp: push_text_def)

text \<open>The program that prints a word, in the dialect.\<close>

definition PRINTS :: "shell_dialect \<Rightarrow> string" where
  "PRINTS d = (if d = Dialect_POSIX then ''echo'' else ''Write-Output'')"

lemma scan_printing:
  assumes "quote_char q" and "q \<notin> set t" and "DOLLAR \<notin> set t" and "source \<in> TRANSLATABLE"
  shows "scan (PRINTS source @ '' '' @ [q] @ t @ [q]) source = Inr ([[PRINTS source, [q] @ t @ [q]]], False)"
proof -
  have q: "q \<noteq> DOLLAR" using assms(1) by (auto simp: quote_char_def DOLLAR_def)
  have first: "scan_from source None new_scanning (PRINTS source @ '' '' @ r) = scan_from source None (new_scanning\<lparr>sg_tokens := [PRINTS source]\<rparr>) r" for r
    using assms(4)
    by (auto simp: TRANSLATABLE_def PRINTS_def new_scanning_def push_text_def quote_char_def space_char_def is_space_def NOWHERE_SPACES_def DOLLAR_def
      REFUSED_CHARACTERS_def end_token_def rewrite_variables_def)
  show ?thesis
    using assms q unfolding scan_def first
    by (simp add: scan_quoted push_text_def new_scanning_def end_token_def rewrite_variables_def end_segment_def)
qed


lemma printing_program:
  "claiming Dialect_POSIX (shell_name ''echo'') = [rule_from Dialect_POSIX ''print-text'' [''echo''] ''echo ARG'' ''Write-Output ARG'' (Inr \<circ> posix_echo)]"
  "claiming Dialect_POWERSHELL (shell_name ''Write-Output'')
     = [rule_from Dialect_POWERSHELL ''print-text'' [''write-output''] ''Write-Output ARG'' ''echo ARG'' (Inr \<circ> powershell_echo)]"
  "dict_get POSIX_REFUSALS (shell_name ''echo'') = None" "dict_get POWERSHELL_REFUSALS (shell_name ''Write-Output'') = None"
  "\<not> assignment_prefix ''echo''" "shell_name ''echo'' \<in> known_programs Dialect_POSIX" "shell_name ''Write-Output'' \<in> known_programs Dialect_POWERSHELL"
proof -
  have names: "shell_name ''echo'' = ''echo''" "shell_name ''Write-Output'' = ''write-output''" by code_simp+
  show "claiming Dialect_POSIX (shell_name ''echo'') = [rule_from Dialect_POSIX ''print-text'' [''echo''] ''echo ARG'' ''Write-Output ARG'' (Inr \<circ> posix_echo)]"
    "claiming Dialect_POWERSHELL (shell_name ''Write-Output'')
     = [rule_from Dialect_POWERSHELL ''print-text'' [''write-output''] ''Write-Output ARG'' ''echo ARG'' (Inr \<circ> powershell_echo)]"
    unfolding names by (simp_all add: claiming_def POSIX_TO_POWERSHELL_def POWERSHELL_TO_POSIX_def rule_from_def)
  show "dict_get POSIX_REFUSALS (shell_name ''echo'') = None" "dict_get POWERSHELL_REFUSALS (shell_name ''Write-Output'') = None"
    "\<not> assignment_prefix ''echo''" by code_simp+
  show "shell_name ''echo'' \<in> known_programs Dialect_POSIX" "shell_name ''Write-Output'' \<in> known_programs Dialect_POWERSHELL"
    unfolding names by (simp_all add: known_programs_def POSIX_TO_POWERSHELL_def POWERSHELL_TO_POSIX_def rule_from_def)
qed

lemma printing_known: "source \<in> TRANSLATABLE \<Longrightarrow> shell_name (PRINTS source) \<in> known_programs source"
  using printing_program(6,7) unfolding TRANSLATABLE_def PRINTS_def by auto

lemma translate_printing:
  assumes "sl_source tr = source" and "source \<in> TRANSLATABLE" and "quote_char q"
  shows "translate_segment tr [PRINTS source, [q] @ t @ [q]] = Inr (Inr ([PRINTS (source_dialect_for source), [q] @ t @ [q]], ''print-text''))"
  using assms printing_program
  by (auto simp: TRANSLATABLE_def PRINTS_def translate_segment_def Let_def rule_from_def source_dialect_for_def posix_echo_def powershell_echo_def
      single_operand_def powershell_operands_def is_option_def starts_with_def quote_char_def)

lemma stripped_printing:
  assumes "source \<in> TRANSLATABLE" and "quote_char q"
  shows "stripped (PRINTS source @ '' '' @ [q] @ t @ [q]) = PRINTS source @ '' '' @ [q] @ t @ [q]"
    "first_word (PRINTS source @ '' '' @ [q] @ t @ [q]) = PRINTS source"
proof -
  show stripped: "stripped (PRINTS source @ '' '' @ [q] @ t @ [q]) = PRINTS source @ '' '' @ [q] @ t @ [q]"
    using assms by (auto simp: stripped_def strip_by_def TRANSLATABLE_def PRINTS_def quote_char_def space_char_def is_space_def NOWHERE_SPACES_def)
  show "first_word (PRINTS source @ '' '' @ [q] @ t @ [q]) = PRINTS source"
    unfolding first_word_def stripped using assms(1)
    by (auto simp: TRANSLATABLE_def PRINTS_def space_char_def is_space_def NOWHERE_SPACES_def)
qed

text \<open>
  C19. Quoted text is kept as it is: the command that prints a quoted word without that quote and without a dollar sign is
  executed as the printing command of the other dialect with the same quotes around the same characters, whatever they are.
  A backquote between double quotes is one of them, which PowerShell reads as an escape and a POSIX shell as a command to run.
\<close>

theorem quoted_text_is_kept:
  assumes "target \<in> TRANSLATABLE" and "quote_char q" and "q \<notin> set t" and "DOLLAR \<notin> set t"
  shows "translate (make_translator target True) (Some (PRINTS (source_dialect_for target) @ '' '' @ [q] @ t @ [q]))
    = Inr (Some \<lparr>ct_source = source_dialect_for target, ct_target = target, ct_original = PRINTS (source_dialect_for target) @ '' '' @ [q] @ t @ [q],
        ct_executed = PRINTS target @ '' '' @ [q] @ t @ [q], ct_rules = [''print-text''], ct_reason = None\<rparr>)"
proof -
  let ?source = "source_dialect_for target" and ?tr = "make_translator target True"
  note source = source_translatable [OF assms(1)]
  let ?cmd = "PRINTS ?source @ '' '' @ [q] @ t @ [q]"
  have tr: "sl_source ?tr = ?source" "sl_target ?tr = target" "sl_enabled ?tr" "sl_known ?tr = known_programs ?source"
    using assms(1) by (simp_all add: make_translator_def)
  have "first_word ?cmd = PRINTS ?source" using source assms(2) by (intro stripped_printing(2)) simp_all
  then have "recognises ?tr ?cmd" unfolding recognises_def tr using printing_known source by presburger
  moreover have "stripped ?cmd \<noteq> []" using stripped_printing(1) [of ?source q t] source assms(2) by simp
  moreover have "scan ?cmd ?source = Inr ([[PRINTS ?source, [q] @ t @ [q]]], False)" using scan_printing assms source by blast
  moreover have "translate_segment ?tr [PRINTS ?source, [q] @ t @ [q]] = Inr (Inr ([PRINTS target, [q] @ t @ [q]], ''print-text''))"
    using translate_printing [of ?tr ?source q t] tr source assms(2) by simp
  ultimately show ?thesis using tr by (simp add: translate_def command_line_def)
qed

text \<open>The command between the backquotes is run by the POSIX shell.\<close>

theorem quoted_text_is_kept_witness:
  "\<exists>d. translate (make_translator Dialect_POSIX True) (Some (''Write-Output '' @ [CHR 0x22] @ [CHR 0x60] @ ''rm x'' @ [CHR 0x60] @ [CHR 0x22])) = Inr (Some d)
     \<and> ct_executed d = ''echo '' @ [CHR 0x22] @ [CHR 0x60] @ ''rm x'' @ [CHR 0x60] @ [CHR 0x22] \<and> ct_reason d = None"
  using quoted_text_is_kept [of Dialect_POSIX "CHR 0x22" "[CHR 0x60] @ ''rm x'' @ [CHR 0x60]"]
  by (simp add: TRANSLATABLE_def PRINTS_def source_dialect_for_def quote_char_def DOLLAR_def)
end
