(* ===== verification/Scratch.thy ===== *)
theory Scratch
  imports App
begin

text \<open>
  \<open>execution/scratch.py\<close>: the working space of each session and its fate when the session ends. The file system is
  the record \<open>filesystem\<close> of what \<open>pathlib\<close> and \<open>shutil\<close> answer on a state of the disk; an \<open>OSError\<close> is its class
  and its text. The state of the manager is the disk, the folders it generated and the folders users own.
\<close>

section \<open>Values\<close>

record scratch_section =
  sn_enabled :: bool
  sn_root :: string
  sn_policy :: string
  sn_archive_root :: string
  sn_keep_on_failure :: bool
  sn_max_inventory_entries :: nat

type_synonym os_error = "string \<times> string"

definition os_exn :: "os_error \<Rightarrow> exn" where
  "os_exn e = Network_Exn (fst e) (snd e)"

record scratch_file =
  sf_relative_path :: string
  sf_size_bytes :: int
  sf_modified_at :: time

text \<open>\<open>fs_expand\<close> is \<open>str(Path(p).expanduser())\<close>, which has no answer without a home; \<open>fs_stat\<close> is
  \<open>exists\<close> and \<open>is_dir\<close>; \<open>fs_files\<close> are the files below a folder that can be read.\<close>

record 'd filesystem =
  fs_posix :: bool
  fs_expand :: "string \<Rightarrow> exn + string"
  fs_is_absolute :: "string \<Rightarrow> bool"
  fs_name :: "string \<Rightarrow> string"
  fs_join :: "string \<Rightarrow> string \<Rightarrow> string"
  fs_parent :: "string \<Rightarrow> string"
  fs_stat :: "string \<Rightarrow> 'd \<Rightarrow> os_error + bool \<times> bool"
  fs_mkdir :: "string \<Rightarrow> ('d, os_error, unit) act"
  fs_chmod :: "string \<Rightarrow> ('d, os_error, unit) act"
  fs_rmtree :: "string \<Rightarrow> ('d, os_error, unit) act"
  fs_move :: "string \<Rightarrow> string \<Rightarrow> ('d, os_error, unit) act"
  fs_files :: "string \<Rightarrow> 'd \<Rightarrow> scratch_file list"

record 'd space =
  sp_disk :: 'd
  sp_created :: "(string, string) dict"
  sp_bound :: "(string, string) dict"

definition new_space :: "'d \<Rightarrow> 'd space" where
  "new_space d = \<lparr>sp_disk = d, sp_created = [], sp_bound = []\<rparr>"

definition WORKING_SPACE_INVALID :: string where "WORKING_SPACE_INVALID = ''WORKING_SPACE_INVALID''"
definition ENV_SCRATCH_DIR :: string where "ENV_SCRATCH_DIR = ''AGENTIC_SCRATCH_DIR''"
definition ENV_WORKING_SPACE :: string where "ENV_WORKING_SPACE = ''AGENTIC_WORKING_SPACE''"
definition ENV_SESSION_ID :: string where "ENV_SESSION_ID = ''AGENTIC_SESSION_ID''"
definition REASON_DISABLED :: string where "REASON_DISABLED = ''disabled''"
definition REASON_NEVER_CREATED :: string where "REASON_NEVER_CREATED = ''never_created''"
definition REASON_BOUND_WORKING_SPACE :: string where "REASON_BOUND_WORKING_SPACE = ''bound_working_space''"
definition REASON_KEEP_ON_FAILURE :: string where "REASON_KEEP_ON_FAILURE = ''keep_on_failure''"
definition REASON_POLICY_DELETE :: string where "REASON_POLICY_DELETE = ''policy_delete''"
definition REASON_POLICY_KEEP :: string where "REASON_POLICY_KEEP = ''policy_keep''"
definition REASON_POLICY_ARCHIVE :: string where "REASON_POLICY_ARCHIVE = ''policy_archive''"

datatype scratch_action = Scratch_NONE | Scratch_KEPT | Scratch_DELETED | Scratch_ARCHIVED | Scratch_FAILED

record scratch_inventory =
  si_entries :: "scratch_file list"
  si_truncated :: bool

definition no_inventory :: scratch_inventory where
  "no_inventory = \<lparr>si_entries = [], si_truncated = False\<rparr>"

record scratch_outcome =
  so_session_id :: string
  so_action :: scratch_action
  so_reason :: string
  so_path :: "string option"
  so_archived_to :: "string option"
  so_inventory :: scratch_inventory
  so_error :: "string option"

section \<open>Helpers\<close>

definition leaf :: "'d filesystem \<Rightarrow> string \<Rightarrow> exn + string" where
  "leaf fs sid =
     (let name = strip sid
      in if name = [] \<or> name \<in> {''.'', ''..''} \<or> CHR ''/'' \<in> set name \<or> CHR 0x5C \<in> set name \<or> name \<noteq> fs_name fs name
         then Inl (ValueError ''session_id must be a plain directory name'') else Inr name)"

definition make_directory :: "'d filesystem \<Rightarrow> string \<Rightarrow> bool \<Rightarrow> ('d, os_error, unit) act" where
  "make_directory fs folder restrict =
     andthen (fs_mkdir fs folder) (whenever (restrict \<and> fs_posix fs) (fs_chmod fs folder))"

definition invalid_space :: "string \<Rightarrow> string \<Rightarrow> exn" where
  "invalid_space path reason = ConfigError WORKING_SPACE_INVALID [(''path'', JStr path), (''reason'', JStr reason)]"

definition validate_working_space :: "'d filesystem \<Rightarrow> string \<Rightarrow> 'd \<Rightarrow> exn + string" where
  "validate_working_space fs raw d =
     (if strip raw = [] then Inl (invalid_space raw ''blank'')
      else bindR (fs_expand fs raw) (\<lambda>folder.
        if \<not> fs_is_absolute fs folder then Inl (invalid_space folder ''not_absolute'')
        else case fs_stat fs folder d of
          Inl e \<Rightarrow> Inl (ConfigError WORKING_SPACE_INVALID
            [(''path'', JStr folder), (''reason'', JStr ''unreadable''), (''error'', JStr (snd e))])
        | Inr (exists, is_directory) \<Rightarrow>
            if \<not> exists then Inl (invalid_space folder ''does_not_exist'')
            else if \<not> is_directory then Inl (invalid_space folder ''not_a_directory'')
            else Inr folder))"

section \<open>The manager\<close>

type_synonym ('d, 'a) space_act = "(app \<times> 'd space, exn, 'a) act"

abbreviation in_space :: "('d space \<Rightarrow> 'a) \<Rightarrow> ('d, 'a) space_act" where
  "in_space f \<equiv> reading (\<lambda>s. f (snd s))"

abbreviation set_space :: "('d space \<Rightarrow> 'd space) \<Rightarrow> ('d, unit) space_act" where
  "set_space f \<equiv> modifying (\<lambda>s. (fst s, f (snd s)))"

text \<open>An operation on the disk, its \<open>OSError\<close> as a value or raised.\<close>

definition asking_disk :: "('d, os_error, 'a) act \<Rightarrow> ('d, os_error + 'a) space_act" where
  "asking_disk m = (\<lambda>s. case m (sp_disk (snd s)) of (r, d) \<Rightarrow> (Inr r, (fst s, (snd s)\<lparr>sp_disk := d\<rparr>)))"

definition on_disk :: "('d, os_error, 'a) act \<Rightarrow> ('d, 'a) space_act" where
  "on_disk m = bnd (asking_disk m) (\<lambda>r. lifting (map_sum os_exn id r))"

definition path_for :: "scratch_section \<Rightarrow> 'd filesystem \<Rightarrow> string \<Rightarrow> ('d, string option) space_act" where
  "path_for cfg fs sid =
     (if \<not> sn_enabled cfg then ret None
      else bnd (in_space (\<lambda>p. dict_get (sp_bound p) sid)) (\<lambda>bound.
        case bound of Some folder \<Rightarrow> ret (Some folder)
        | None \<Rightarrow> bnd (in_space (\<lambda>p. dict_get (sp_created p) sid)) (\<lambda>known.
            case known of Some folder \<Rightarrow> ret (Some folder)
            | None \<Rightarrow>
                bnd (lifting (fs_expand fs (sn_root cfg))) (\<lambda>root.
                bnd (lifting (leaf fs sid)) (\<lambda>name.
                andthen (on_disk (make_directory fs (fs_join fs root name) True))
               (andthen (set_space (\<lambda>p. p\<lparr>sp_created := dict_set sid (fs_join fs root name) (sp_created p)\<rparr>))
                (ret (Some (fs_join fs root name)))))))))"

definition bind_space :: "scratch_section \<Rightarrow> 'd filesystem \<Rightarrow> string \<Rightarrow> string option \<Rightarrow> ('d, string option) space_act" where
  "bind_space cfg fs sid working_space =
     (case working_space of
        None \<Rightarrow> andthen (set_space (\<lambda>p. p\<lparr>sp_bound := AList.delete sid (sp_bound p)\<rparr>)) (ret None)
      | Some raw \<Rightarrow>
          bnd (in_space (\<lambda>p. validate_working_space fs raw (sp_disk p))) (\<lambda>valid.
          bnd (lifting valid) (\<lambda>folder.
          if \<not> sn_enabled cfg then ret None
          else andthen (set_space (\<lambda>p. p\<lparr>sp_bound := dict_set sid folder (sp_bound p)\<rparr>)) (ret (Some folder)))))"

definition environment :: "scratch_section \<Rightarrow> 'd filesystem \<Rightarrow> string \<Rightarrow> ('d, (string, string) dict) space_act" where
  "environment cfg fs sid =
     bnd (path_for cfg fs sid) (\<lambda>folder.
     ret (case folder of None \<Rightarrow> [] | Some location \<Rightarrow>
       [(ENV_SCRATCH_DIR, location), (ENV_WORKING_SPACE, location), (ENV_SESSION_ID, sid)]))"

definition inventory_of :: "scratch_section \<Rightarrow> 'd filesystem \<Rightarrow> string \<Rightarrow> 'd \<Rightarrow> scratch_inventory" where
  "inventory_of cfg fs folder d =
     (let found = sort_key sf_relative_path (fs_files fs folder d)
      in \<lparr>si_entries = take (sn_max_inventory_entries cfg) found, si_truncated = sn_max_inventory_entries cfg < length found\<rparr>)"

definition known_path :: "scratch_section \<Rightarrow> string \<Rightarrow> 'd space \<Rightarrow> string option" where
  "known_path cfg sid p =
     (if \<not> sn_enabled cfg then None
      else case dict_get (sp_bound p) sid of Some folder \<Rightarrow> Some folder | None \<Rightarrow> dict_get (sp_created p) sid)"

definition inventory :: "scratch_section \<Rightarrow> 'd filesystem \<Rightarrow> string \<Rightarrow> ('d, scratch_inventory) space_act" where
  "inventory cfg fs sid =
     in_space (\<lambda>p. case known_path cfg sid p of None \<Rightarrow> no_inventory | Some folder \<Rightarrow> inventory_of cfg fs folder (sp_disk p))"

section \<open>The end of a session\<close>

definition outcome_of :: "string \<Rightarrow> scratch_action \<Rightarrow> string \<Rightarrow> string option \<Rightarrow> scratch_inventory \<Rightarrow> scratch_outcome" where
  "outcome_of sid action reason path found =
     \<lparr>so_session_id = sid, so_action = action, so_reason = reason, so_path = path, so_archived_to = None, so_inventory = found, so_error = None\<rparr>"

definition failed_outcome :: "string \<Rightarrow> string \<Rightarrow> scratch_inventory \<Rightarrow> string \<Rightarrow> os_error \<Rightarrow> scratch_outcome" where
  "failed_outcome sid folder found reason e =
     (outcome_of sid Scratch_FAILED reason (Some folder) found)\<lparr>so_error := Some (fst e @ '': '' @ snd e)\<rparr>"

text \<open>\<open>%Y%m%dT%H%M%S\<close>.\<close>

definition archive_stamp :: "time \<Rightarrow> string" where
  "archive_stamp us =
     (let rest = us mod 86400000000
      in case civil_from_days (us div 86400000000) of (y, m, d) \<Rightarrow>
        pad_left 4 y @ pad_left 2 m @ pad_left 2 d @ ''T'' @ pad_left 2 (rest div 3600000000)
        @ pad_left 2 (rest mod 3600000000 div 60000000) @ pad_left 2 (rest mod 60000000 div 1000000))"

definition move_away :: "'d filesystem \<Rightarrow> string \<Rightarrow> string \<Rightarrow> ('d, os_error, unit) act" where
  "move_away fs folder destination =
     bnd (reading (fs_stat fs destination)) (\<lambda>found.
     bnd (lifting found) (\<lambda>(exists, _).
     if exists then throw (''FileExistsError'', destination)
     else andthen (make_directory fs (fs_parent fs destination) True) (fs_move fs folder destination)))"

definition archive_folder ::
  "scratch_section \<Rightarrow> 'd filesystem \<Rightarrow> string \<Rightarrow> string \<Rightarrow> scratch_inventory \<Rightarrow> ('d, scratch_outcome) space_act" where
  "archive_folder cfg fs sid folder found =
     bnd (on_part fst (\<lambda>w s. (w, snd s)) clock_now) (\<lambda>now.
     bnd (lifting (fs_expand fs (sn_archive_root cfg))) (\<lambda>root.
     bnd (lifting (leaf fs sid)) (\<lambda>name.
     bnd (ret (fs_join fs root (name @ ''-'' @ archive_stamp now))) (\<lambda>destination.
     bnd (asking_disk (move_away fs folder destination)) (\<lambda>r.
     ret (case r of
       Inl e \<Rightarrow> failed_outcome sid folder found REASON_POLICY_ARCHIVE e
     | Inr _ \<Rightarrow> (outcome_of sid Scratch_ARCHIVED REASON_POLICY_ARCHIVE (Some folder) found)\<lparr>so_archived_to := Some destination\<rparr>))))))"

definition delete_folder :: "'d filesystem \<Rightarrow> string \<Rightarrow> string \<Rightarrow> scratch_inventory \<Rightarrow> ('d, scratch_outcome) space_act" where
  "delete_folder fs sid folder found =
     bnd (asking_disk (fs_rmtree fs folder)) (\<lambda>r.
     ret (case r of
       Inl e \<Rightarrow> failed_outcome sid folder found REASON_POLICY_DELETE e
     | Inr _ \<Rightarrow> outcome_of sid Scratch_DELETED REASON_POLICY_DELETE (Some folder) found))"

definition forget_space :: "string \<Rightarrow> 'd space \<Rightarrow> 'd space" where
  "forget_space sid p = p\<lparr>sp_bound := AList.delete sid (sp_bound p), sp_created := AList.delete sid (sp_created p)\<rparr>"

definition release :: "scratch_section \<Rightarrow> 'd filesystem \<Rightarrow> string \<Rightarrow> bool \<Rightarrow> ('d, scratch_outcome) space_act" where
  "release cfg fs sid failed =
     (if \<not> sn_enabled cfg then ret (outcome_of sid Scratch_NONE REASON_DISABLED None no_inventory)
      else bnd (in_space (\<lambda>p. dict_get (sp_bound p) sid)) (\<lambda>bound.
           bnd (in_space (\<lambda>p. dict_get (sp_created p) sid)) (\<lambda>folder.
           andthen (set_space (forget_space sid))
          (case folder of
             None \<Rightarrow>
               (case bound of
                  None \<Rightarrow> ret (outcome_of sid Scratch_NONE REASON_NEVER_CREATED None no_inventory)
                | Some b \<Rightarrow> bnd (in_space (\<lambda>p. inventory_of cfg fs b (sp_disk p))) (\<lambda>found.
                    ret (outcome_of sid Scratch_NONE REASON_BOUND_WORKING_SPACE (Some b) found)))
           | Some f \<Rightarrow>
               bnd (in_space (\<lambda>p. inventory_of cfg fs f (sp_disk p))) (\<lambda>found.
               if failed \<and> sn_keep_on_failure cfg then ret (outcome_of sid Scratch_KEPT REASON_KEEP_ON_FAILURE (Some f) found)
               else if sn_policy cfg = ''keep'' then ret (outcome_of sid Scratch_KEPT REASON_POLICY_KEEP (Some f) found)
               else if sn_policy cfg = ''archive'' then archive_folder cfg fs sid f found
               else delete_folder fs sid f found)))))"

fun release_each :: "scratch_section \<Rightarrow> 'd filesystem \<Rightarrow> bool \<Rightarrow> string list \<Rightarrow> ('d, scratch_outcome list) space_act" where
  "release_each cfg fs failed [] = ret []"
| "release_each cfg fs failed (sid # sids) =
     bnd (release cfg fs sid failed) (\<lambda>outcome. bnd (release_each cfg fs failed sids) (\<lambda>outcomes. ret (outcome # outcomes)))"

definition release_all :: "scratch_section \<Rightarrow> 'd filesystem \<Rightarrow> bool \<Rightarrow> ('d, scratch_outcome list) space_act" where
  "release_all cfg fs failed =
     bnd (in_space (\<lambda>p. sort (remdups (dict_keys (sp_created p) @ dict_keys (sp_bound p))))) (\<lambda>sids. release_each cfg fs failed sids)"

section \<open>Only generated folders are removed or moved\<close>

datatype scratch_call =
  Path_for string | Bind string "string option" | Environment string | Inventory string
| Release string bool | Release_all bool

definition ignoring :: "('d, 'a) space_act \<Rightarrow> app \<times> 'd space \<Rightarrow> app \<times> 'd space" where
  "ignoring m s = snd (m s)"

fun calling :: "scratch_section \<Rightarrow> 'd filesystem \<Rightarrow> scratch_call \<Rightarrow> app \<times> 'd space \<Rightarrow> app \<times> 'd space" where
  "calling cfg fs (Path_for sid) = ignoring (path_for cfg fs sid)"
| "calling cfg fs (Bind sid f) = ignoring (bind_space cfg fs sid f)"
| "calling cfg fs (Environment sid) = ignoring (environment cfg fs sid)"
| "calling cfg fs (Inventory sid) = ignoring (inventory cfg fs sid)"
| "calling cfg fs (Release sid failed) = ignoring (release cfg fs sid failed)"
| "calling cfg fs (Release_all failed) = ignoring (release_all cfg fs failed)"

definition plain_name :: "string \<Rightarrow> bool" where
  "plain_name l \<longleftrightarrow> l \<noteq> [] \<and> l \<noteq> ''.'' \<and> l \<noteq> ''..'' \<and> CHR ''/'' \<notin> set l \<and> CHR 0x5C \<notin> set l"

text \<open>A folder directly below the root, under a plain name.\<close>

definition generated :: "scratch_section \<Rightarrow> 'd filesystem \<Rightarrow> string \<Rightarrow> bool" where
  "generated cfg fs f \<longleftrightarrow> (\<exists>root l. fs_expand fs (sn_root cfg) = Inr root \<and> plain_name l \<and> f = fs_join fs root l)"

text \<open>A fact of the disk that folders made do not change, nor generated folders removed or moved.\<close>

definition respected :: "scratch_section \<Rightarrow> 'd filesystem \<Rightarrow> ('d \<Rightarrow> bool) \<Rightarrow> bool" where
  "respected cfg fs P \<longleftrightarrow> (\<forall>f. keeps P (fs_mkdir fs f) \<and> keeps P (fs_chmod fs f))
     \<and> (\<forall>f. generated cfg fs f \<longrightarrow> keeps P (fs_rmtree fs f) \<and> (\<forall>dest. keeps P (fs_move fs f dest)))"

definition tidy :: "scratch_section \<Rightarrow> 'd filesystem \<Rightarrow> ('d \<Rightarrow> bool) \<Rightarrow> app \<times> 'd space \<Rightarrow> bool" where
  "tidy cfg fs P s \<longleftrightarrow> P (sp_disk (snd s)) \<and> (\<forall>sid f. dict_get (sp_created (snd s)) sid = Some f \<longrightarrow> generated cfg fs f)"

lemma leaf_plain: "leaf fs sid = Inr l \<Longrightarrow> plain_name l"
  by (auto simp: leaf_def plain_name_def Let_def split: if_splits)

lemma keeps_read: "(\<And>s. I s \<Longrightarrow> keeps I (k (f s))) \<Longrightarrow> keeps I (bnd (reading f) k)"
  by (simp add: keeps_def bnd_def reading_def)

lemma keeps_lift: "(\<And>v. r = Inr v \<Longrightarrow> keeps I (k v)) \<Longrightarrow> keeps I (bnd (lifting r) k)"
  by (cases r) (simp_all add: keeps_def bnd_def lifting_def)

lemma tidy_disk:
  assumes "keeps P m"
  shows "keeps (tidy cfg fs P) (asking_disk m)" and "keeps (tidy cfg fs P) (on_disk m)"
proof -
  show asking: "keeps (tidy cfg fs P) (asking_disk m)"
    unfolding keeps_def
  proof (intro allI impI)
    fix s :: "app \<times> 'a space" assume s: "tidy cfg fs P s"
    obtain r d where m: "m (sp_disk (snd s)) = (r, d)" by fastforce
    then have "P d" using keepsD [OF assms, of "sp_disk (snd s)"] s by (simp add: tidy_def)
    with m s show "tidy cfg fs P (snd (asking_disk m s))" by (simp add: asking_disk_def tidy_def)
  qed
  show "keeps (tidy cfg fs P) (on_disk m)" unfolding on_disk_def by (intro keeps_bnd asking keeps_lifting)
qed

lemma tidy_moves:
  "keeps (tidy cfg fs P) (set_space (forget_space sid))"
  "keeps (tidy cfg fs P) (set_space (\<lambda>p. p\<lparr>sp_bound := b p\<rparr>))"
  "keeps (tidy cfg fs P) (on_part fst (\<lambda>w s. (w, snd s)) clock_now)"
  "generated cfg fs f \<Longrightarrow> keeps (tidy cfg fs P) (set_space (\<lambda>p. p\<lparr>sp_created := dict_set sid f (sp_created p)\<rparr>))"
  by (auto simp: keeps_def modifying_def on_part_def tidy_def forget_space_def AList.delete_conv' split: prod.splits if_splits)

lemma keeps_make_directory: "respected cfg fs P \<Longrightarrow> keeps P (make_directory fs f b)"
  by (simp add: make_directory_def respected_def keeps_andthen keeps_whenever)

lemma keeps_move_away: "respected cfg fs P \<Longrightarrow> generated cfg fs f \<Longrightarrow> keeps P (move_away fs f dest)"
  unfolding move_away_def
  by (intro keeps_bnd keeps_reading keeps_lifting) (auto simp: respected_def intro!: keeps_throw keeps_andthen keeps_make_directory split: prod.split)

lemma tidy_path_for:
  assumes "respected cfg fs P"
  shows "keeps (tidy cfg fs P) (path_for cfg fs sid)"
  unfolding path_for_def
proof (intro keeps_if keeps_ret keeps_bnd [OF keeps_reading])
  fix bound known
  have "keeps (tidy cfg fs P) (andthen (on_disk (make_directory fs (fs_join fs root name) True))
      (andthen (set_space (\<lambda>p. p\<lparr>sp_created := dict_set sid (fs_join fs root name) (sp_created p)\<rparr>)) (ret (Some (fs_join fs root name)))))"
    if "fs_expand fs (sn_root cfg) = Inr root" and "leaf fs sid = Inr name" for root name
    by (intro keeps_andthen tidy_disk keeps_make_directory [OF assms] tidy_moves keeps_ret)
      (use that leaf_plain in \<open>auto simp: generated_def\<close>)
  then show "keeps (tidy cfg fs P) (case bound of Some folder \<Rightarrow> ret (Some folder)
      | None \<Rightarrow> bnd (in_space (\<lambda>p. dict_get (sp_created p) sid)) (\<lambda>known.
          case known of Some folder \<Rightarrow> ret (Some folder)
          | None \<Rightarrow> bnd (lifting (fs_expand fs (sn_root cfg))) (\<lambda>root. bnd (lifting (leaf fs sid)) (\<lambda>name.
                andthen (on_disk (make_directory fs (fs_join fs root name) True))
               (andthen (set_space (\<lambda>p. p\<lparr>sp_created := dict_set sid (fs_join fs root name) (sp_created p)\<rparr>))
                (ret (Some (fs_join fs root name))))))))"
    by (auto intro!: keeps_ret keeps_read keeps_lift split: option.split)
qed

lemma tidy_archive:
  "respected cfg fs P \<Longrightarrow> generated cfg fs f \<Longrightarrow> keeps (tidy cfg fs P) (archive_folder cfg fs sid f found)"
  unfolding archive_folder_def
  by (intro keeps_bnd tidy_moves keeps_lifting keeps_ret tidy_disk keeps_move_away)

lemma tidy_delete: "respected cfg fs P \<Longrightarrow> generated cfg fs f \<Longrightarrow> keeps (tidy cfg fs P) (delete_folder fs sid f found)"
  unfolding delete_folder_def by (intro keeps_bnd keeps_ret tidy_disk) (auto simp: respected_def)

lemma tidy_release:
  assumes "respected cfg fs P"
  shows "keeps (tidy cfg fs P) (release cfg fs sid failed)"
  unfolding release_def
  by (intro keeps_if keeps_ret keeps_read)
    (auto simp: tidy_def [of cfg fs P] intro!: keeps_andthen tidy_moves keeps_ret keeps_bnd keeps_reading tidy_archive [OF assms] tidy_delete [OF assms]
      split: option.split)

lemma tidy_release_each: "respected cfg fs P \<Longrightarrow> keeps (tidy cfg fs P) (release_each cfg fs failed sids)"
  by (induction sids) (simp_all add: keeps_ret keeps_bnd tidy_release)

lemma tidy_calling:
  assumes "respected cfg fs P" and "tidy cfg fs P s"
  shows "tidy cfg fs P (calling cfg fs call s)"
proof -
  have "keeps (tidy cfg fs P) (environment cfg fs sid)" "keeps (tidy cfg fs P) (inventory cfg fs sid)"
    "keeps (tidy cfg fs P) (bind_space cfg fs sid f)" "keeps (tidy cfg fs P) (release_all cfg fs failed)" for sid f failed
    unfolding environment_def inventory_def bind_space_def release_all_def
    by (auto intro!: keeps_bnd tidy_path_for [OF assms(1)] keeps_ret keeps_reading keeps_lifting keeps_andthen tidy_moves
        tidy_release_each [OF assms(1)] split: option.split)
  then show ?thesis
    using tidy_path_for [OF assms(1)] tidy_release [OF assms(1)] assms(2)
    by (cases call) (simp_all add: ignoring_def keepsD)
qed

text \<open>
  C31. Only what the application generated is ever removed or moved: whatever the calls of the manager, in any order
  and whatever the file system refuses, a fact of the disk that making folders keeps, and that removing and moving keep
  for the folders directly below the root under a plain name, still holds. A folder a user designated is safe.
\<close>

theorem only_generated_folders_go:
  assumes "respected cfg fs P" and "P d"
  shows "P (sp_disk (snd (fold (calling cfg fs) calls (w, new_space d))))"
proof -
  have "tidy cfg fs P (w, new_space d)" using assms(2) by (simp add: tidy_def new_space_def)
  then have "tidy cfg fs P (fold (calling cfg fs) calls (w, new_space d))"
    by (induction calls arbitrary: rule: rev_induct) (simp_all add: tidy_calling [OF assms(1)])
  then show ?thesis by (simp add: tidy_def)
qed

text \<open>A disk as a list of paths, and a folder outside the root.\<close>

definition below :: "string \<Rightarrow> string \<Rightarrow> bool" where
  "below f p \<longleftrightarrow> p = f \<or> starts_with (f @ ''/'') p"

definition listing_fs :: "string list filesystem" where
  "listing_fs = \<lparr>fs_posix = True, fs_expand = Inr, fs_is_absolute = starts_with ''/'',
     fs_name = (\<lambda>p. rev (takeWhile (\<lambda>c. c \<noteq> CHR ''/'') (rev p))), fs_join = (\<lambda>a b. a @ ''/'' @ b),
     fs_parent = (\<lambda>p. rev (drop 1 (dropWhile (\<lambda>c. c \<noteq> CHR ''/'') (rev p)))), fs_stat = (\<lambda>p d. Inr (p \<in> set d, p \<in> set d)),
     fs_mkdir = (\<lambda>p. modifying (\<lambda>d. if p \<in> set d then d else d @ [p])), fs_chmod = (\<lambda>_. ret ()),
     fs_rmtree = (\<lambda>f. modifying (filter (\<lambda>p. \<not> below f p))),
     fs_move = (\<lambda>f dest. modifying (map (\<lambda>p. if below f p then dest @ drop (length f) p else p))), fs_files = (\<lambda>_ _. [])\<rparr>"

definition sample_scratch :: scratch_section where
  "sample_scratch = \<lparr>sn_enabled = True, sn_root = ''/data'', sn_policy = ''delete'', sn_archive_root = ''/old'',
     sn_keep_on_failure = True, sn_max_inventory_entries = 200\<rparr>"

lemma listing_respected: "respected sample_scratch listing_fs (\<lambda>d. ''/home/w'' \<in> set d)"
proof -
  have outside: "\<not> below f ''/home/w''" if "generated sample_scratch listing_fs f" for f
    using that by (auto simp: generated_def sample_scratch_def listing_fs_def below_def starts_with_def)
  then show ?thesis
    by (auto simp: respected_def keeps_def listing_fs_def modifying_def ret_def image_iff intro!: bexI [of _ "''/home/w''"] dest: outside)
qed

theorem only_generated_folders_go_witness:
  "''/home/w'' \<in> set (sp_disk (snd (fold (calling sample_scratch listing_fs)
     [Bind ''s'' (Some ''/home/w''), Path_for ''t'', Release ''s'' False, Release_all False] (fresh_app sample_env, new_space [''/home/w'']))))"
  by (rule only_generated_folders_go [OF listing_respected]) simp

end
