(* ===== verification/Manager.thy ===== *)
theory Manager
  imports Scratch Runs
begin

text \<open>
  \<open>orchestration/conversation_manager.py\<close>: the entry points of the interfaces. The background task of a session is a
  \<open>loop_task\<close>, launched but not run by the entry point, as \<open>asyncio.create_task\<close> does; \<open>drive_loop\<close> runs it to its end.
  What the process does while a call awaits a task is an argument. Pydantic reading a persisted content back and its
  rendering of a time are the functions \<open>mg_read_response\<close>, \<open>mg_read_correction\<close> and \<open>mg_dump_time\<close>; logging is left out.
\<close>

section \<open>State\<close>

datatype loop_end = Loop_returned session_record | Loop_raised exn | Loop_cancelled

record loop_task =
  lt_entry :: entry
  lt_user_message :: "string option"
  lt_end :: "loop_end option"

record 'd front =
  fr_loops :: "(string, loop_task) dict"
  fr_space :: "'d space"

record 'd manager =
  mg_budget :: session_budget
  mg_auto_close :: bool
  mg_given_user_id :: "string option"
  mg_transport_user_id :: string
  mg_scratch :: "scratch_section option"
  mg_filesystem :: "'d filesystem"
  mg_read_response :: "json \<Rightarrow> exn + details"
  mg_read_correction :: "json \<Rightarrow> exn + details"
  mg_dump_time :: "time option \<Rightarrow> json"

type_synonym 'd front_state = "(app \<times> handler) \<times> 'd front"
type_synonym ('d, 'a) front_act = "('d front_state, exn, 'a) act"

abbreviation f_handler :: "'a handler_act \<Rightarrow> ('d, 'a) front_act" where
  "f_handler \<equiv> on_part fst (\<lambda>h s. (h, snd s))"

abbreviation f_app :: "'a app_act \<Rightarrow> ('d, 'a) front_act" where
  "f_app \<equiv> on_part (\<lambda>s. fst (fst s)) (\<lambda>w s. ((w, snd (fst s)), snd s))"

abbreviation f_space :: "('d, 'a) space_act \<Rightarrow> ('d, 'a) front_act" where
  "f_space \<equiv> on_part (\<lambda>s. (fst (fst s), fr_space (snd s))) (\<lambda>(w, p) s. ((w, snd (fst s)), (snd s)\<lparr>fr_space := p\<rparr>))"

abbreviation f_store :: "(store \<Rightarrow> 'a) \<Rightarrow> ('d, 'a) front_act" where
  "f_store f \<equiv> reading (\<lambda>s. f (w_store (fst (fst s))))"

abbreviation f_get :: "('d front \<Rightarrow> 'a) \<Rightarrow> ('d, 'a) front_act" where
  "f_get f \<equiv> reading (\<lambda>s. f (snd s))"

abbreviation f_set :: "('d front \<Rightarrow> 'd front) \<Rightarrow> ('d, unit) front_act" where
  "f_set f \<equiv> modifying (\<lambda>s. (fst s, f (snd s)))"

definition SHUTDOWN_REASON :: string where "SHUTDOWN_REASON = ''shutdown''"
definition REUSABLE_CONVERSATION_STATES :: "conversation_state set" where
  "REUSABLE_CONVERSATION_STATES = {Conv_WAITING_USER, Conv_COMPLETED}"
definition RESUMABLE_SESSION_STATES :: "session_state set" where
  "RESUMABLE_SESSION_STATES = {Session_RUNNING, Session_PAUSED}"
definition UNSENT_CONVERSATION_STATES :: "conversation_state set" where
  "UNSENT_CONVERSATION_STATES = {Conv_NEW, Conv_ACTIVE}"
definition TERMINAL_SESSION_STATES :: "session_state set" where
  "TERMINAL_SESSION_STATES = {Session_COMPLETED, Session_FAILED}"

definition default_user_id :: "'d manager \<Rightarrow> string" where
  "default_user_id mg =
     (let u = strip (case mg_given_user_id mg of None \<Rightarrow> [] | Some u \<Rightarrow> u) in if u = [] then mg_transport_user_id mg else u)"

section \<open>Loops\<close>

definition loop_of :: "string \<Rightarrow> 'd front \<Rightarrow> loop_task option" where
  "loop_of sid f = dict_get (fr_loops f) sid"

definition loop_running :: "string \<Rightarrow> 'd front \<Rightarrow> bool" where
  "loop_running sid f = (case loop_of sid f of None \<Rightarrow> False | Some t \<Rightarrow> lt_end t = None)"

definition launch_loop :: "string \<Rightarrow> entry \<Rightarrow> string option \<Rightarrow> ('d, unit) front_act" where
  "launch_loop sid entry user_message =
     f_set (\<lambda>f. f\<lparr>fr_loops := dict_set sid \<lparr>lt_entry = entry, lt_user_message = user_message, lt_end = None\<rparr> (fr_loops f)\<rparr>)"

definition front_session :: "string \<Rightarrow> ('d, session_record) front_act" where
  "front_session sid = f_app (require_session sid)"

text \<open>What \<open>_release_working_space\<close> does once the outcome is known: a user's folder stays the session's.\<close>

definition bind_again :: "scratch_section \<Rightarrow> 'd filesystem \<Rightarrow> string \<Rightarrow> scratch_outcome \<Rightarrow> ('d, unit) space_act" where
  "bind_again cfg fs sid outcome =
     whenever (so_reason outcome = REASON_BOUND_WORKING_SPACE \<and> so_path outcome \<noteq> None)
       (bnd (bind_space cfg fs sid (so_path outcome)) (\<lambda>_. ret ()))"

definition release_working_space :: "'d manager \<Rightarrow> string \<Rightarrow> ('d, unit) front_act" where
  "release_working_space mg sid =
     (case mg_scratch mg of
        None \<Rightarrow> ret ()
      | Some cfg \<Rightarrow>
          bnd (f_store (\<lambda>st. get_session st sid)) (\<lambda>found.
          case found of
            None \<Rightarrow> ret ()
          | Some session \<Rightarrow>
              whenever (s_status session \<in> TERMINAL_SESSION_STATES)
                (f_space (catching
                   (bnd (release cfg (mg_filesystem mg) sid (s_status session = Session_FAILED)) (bind_again cfg (mg_filesystem mg) sid))
                   (\<lambda>_. ret ())))))"

text \<open>The completion callback.\<close>

definition loop_done :: "'d manager \<Rightarrow> string \<Rightarrow> loop_end \<Rightarrow> ('d, unit) front_act" where
  "loop_done mg sid e = (case e of Loop_cancelled \<Rightarrow> ret () | _ \<Rightarrow> release_working_space mg sid)"

definition stop_text :: "normalized_error \<Rightarrow> string" where
  "stop_text e = error_type_value (ne_error_type e) @ ''/'' @ ne_error_code e"

text \<open>How the task of a loop ends; \<open>None\<close> is a loop that goes on or waits for ever.\<close>

definition loop_end_of :: "stop + session_record \<Rightarrow> loop_end option" where
  "loop_end_of r =
     (case r of
        Inr s \<Rightarrow> Some (Loop_returned s)
      | Inl (Raised e) \<Rightarrow> Some (if is_cancelled_error e then Loop_cancelled else Loop_raised e)
      | Inl Going_on \<Rightarrow> None
      | Inl Hanging \<Rightarrow> None
      | Inl (Failed_stop e _ _ _ _) \<Rightarrow> Some (Loop_raised (Other_Exn ''_FailedError'' (stop_text e)))
      | Inl (Paused_stop e _ _) \<Rightarrow> Some (Loop_raised (Other_Exn ''_PausedError'' (stop_text e)))
      | Inl (Rotate_requested e) \<Rightarrow> Some (Loop_raised (Other_Exn ''_RotateRequestedError'' (ne_error_code e)))
      | Inl Interrupted_stop \<Rightarrow> Some (Loop_raised (Other_Exn ''_InterruptedError'' [])))"

text \<open>The background task of a session, run to its end.\<close>

definition drive_loop :: "'d manager \<Rightarrow> limits \<Rightarrow> orchestrator \<Rightarrow> string \<Rightarrow> ('d, unit) front_act" where
  "drive_loop mg li oc sid =
     bnd (f_get (loop_of sid)) (\<lambda>found.
     case found of
       None \<Rightarrow> ret ()
     | Some t \<Rightarrow>
         unless (lt_end t \<noteq> None)
           (bnd (\<lambda>s. case run_session li oc sid (lt_entry t) (lt_user_message t) (fst s) of (r, h) \<Rightarrow> (Inr (loop_end_of r), (h, snd s))) (\<lambda>e.
            case e of
              None \<Rightarrow> ret ()
            | Some e \<Rightarrow> andthen (f_set (\<lambda>f. f\<lparr>fr_loops := dict_set sid (t\<lparr>lt_end := Some e\<rparr>) (fr_loops f)\<rparr>)) (loop_done mg sid e))))"

section \<open>Requests\<close>

definition given :: "string option \<Rightarrow> string" where
  "given x = (case x of None \<Rightarrow> [] | Some t \<Rightarrow> t)"

text \<open>The session of a request, once it is created and its working space bound: nothing more without an opening message.\<close>

definition begin_work :: "string \<Rightarrow> string option \<Rightarrow> ('d, session_record) front_act" where
  "begin_work sid user_message =
     (if user_message = None then front_session sid
      else bnd (f_app (transition_session sid Session_RUNNING (Some REASON_USER_REQUEST) [])) (\<lambda>_.
           bnd (f_app (create_conversation sid None HEALTHY)) (\<lambda>c.
           bnd (f_app (transition_conversation (c_conversation_id c) Conv_ACTIVE (Some REASON_USER_REQUEST) [])) (\<lambda>_.
           andthen (launch_loop sid Entry_START None) (front_session sid)))))"

definition start_session ::
  "'d manager \<Rightarrow> string option \<Rightarrow> string option \<Rightarrow> session_budget option \<Rightarrow> bool option \<Rightarrow> string option \<Rightarrow> string list \<Rightarrow> string option
   \<Rightarrow> string option \<Rightarrow> ('d, session_record) front_act" where
  "start_session mg goal user_message budget auto_close working_space skills effort user_id =
     (if (goal = None) \<noteq> (user_message = None)
      then throw (ValueError (''an opening message needs both goal and user_message ('' @ (if goal \<noteq> None then ''user_message'' else ''goal'') @ '')''))
      else
        andthen (case working_space of None \<Rightarrow> ret ()
          | Some raw \<Rightarrow> bnd (f_get (\<lambda>f. validate_working_space (mg_filesystem mg) raw (sp_disk (fr_space f)))) (\<lambda>valid.
              bnd (lifting valid) (\<lambda>_. ret ())))
       (bnd (f_app (create_session (given goal) (given user_message)
              (let u = strip (given user_id) in if u = [] then default_user_id mg else u)
              (case budget of None \<Rightarrow> mg_budget mg | Some b \<Rightarrow> b) (case auto_close of None \<Rightarrow> mg_auto_close mg | Some b \<Rightarrow> b) skills effort)) (\<lambda>session.
        andthen (case (working_space, mg_scratch mg) of
            (Some raw, Some cfg) \<Rightarrow> bnd (f_space (bind_space cfg (mg_filesystem mg) (s_session_id session) (Some raw))) (\<lambda>_. ret ())
          | _ \<Rightarrow> ret ())
         (begin_work (s_session_id session) user_message))))"

definition continue_completed :: "string \<Rightarrow> string \<Rightarrow> session_record \<Rightarrow> ('d, session_record) front_act" where
  "continue_completed sid user_message session =
     bnd (f_store (\<lambda>st. Option.bind (s_current_conversation_id session) (get_conversation st))) (\<lambda>c.
     if (case c of None \<Rightarrow> True | Some c \<Rightarrow> c_status c \<notin> REUSABLE_CONVERSATION_STATES)
     then throw (ValueError (if s_auto_close_on_final_answer session then ''session '' @ sid @ '' was closed after its final answer''
            else ''session '' @ sid @ '' has no reusable conversation''))
     else bnd (f_app (transition_session sid Session_RUNNING (Some REASON_USER_REQUEST) [Set_final_answer None])) (\<lambda>_.
          andthen (launch_loop sid Entry_FOLLOW_UP (Some user_message)) (front_session sid)))"

definition continue_ready :: "string \<Rightarrow> string \<Rightarrow> session_record \<Rightarrow> ('d, session_record) front_act" where
  "continue_ready sid user_message session =
     bnd (f_app (transition_session sid Session_RUNNING (Some REASON_USER_REQUEST)
        ([Set_user_message user_message, Set_final_answer None] @ (if s_goal session = [] then [Set_goal user_message] else [])))) (\<lambda>_.
     bnd (f_app (create_conversation sid (s_current_conversation_id session) HEALTHY)) (\<lambda>c.
     bnd (f_app (transition_conversation (c_conversation_id c) Conv_ACTIVE (Some REASON_USER_REQUEST) [])) (\<lambda>_.
     andthen (launch_loop sid Entry_START (Some user_message)) (front_session sid))))"

definition continue_session :: "string \<Rightarrow> string \<Rightarrow> ('d, session_record) front_act" where
  "continue_session sid user_message =
     bnd (front_session sid) (\<lambda>session.
     bnd (f_get (loop_running sid)) (\<lambda>running.
     if running then throw (ValueError (''session '' @ sid @ '' is still running''))
     else if s_status session = Session_COMPLETED then continue_completed sid user_message session
     else if s_status session = Session_READY then continue_ready sid user_message session
     else throw (ValueError (''session '' @ sid @ '' is not reusable ('' @ session_state_value (s_status session) @ '')''))))"

definition resumed :: "string \<Rightarrow> ('d, unit) front_act" where
  "resumed sid = bnd (f_app (transition_session sid Session_RUNNING (Some REASON_CREDENTIALS_PROVIDED) [])) (\<lambda>_. ret ())"

definition no_pending_outbound :: "string \<Rightarrow> exn" where
  "no_pending_outbound sid = ValueError (''session '' @ sid @ '' has no pending outbound message to resume'')"

definition resume_session :: "string \<Rightarrow> ('d, session_record) front_act" where
  "resume_session sid =
     bnd (front_session sid) (\<lambda>session.
     bnd (f_get (loop_running sid)) (\<lambda>running.
     if running then throw (ValueError (''session '' @ sid @ '' is already running''))
     else if s_status session \<notin> RESUMABLE_SESSION_STATES \<or> s_current_conversation_id session = None
     then throw (ValueError (''session '' @ sid @ '' is not resumable ('' @ session_state_value (s_status session) @ '')''))
     else bnd (f_store (\<lambda>st. Option.bind (s_current_conversation_id session) (get_conversation st))) (\<lambda>c.
       bnd (f_store (\<lambda>st. Option.bind c (pending_outbound_of st))) (\<lambda>pending.
       let paused = s_status session = Session_PAUSED
       in case pending of
         None \<Rightarrow>
           if \<not> paused \<or> (case c of None \<Rightarrow> True | Some c \<Rightarrow> c_status c \<notin> UNSENT_CONVERSATION_STATES) then throw (no_pending_outbound sid)
           else andthen (resumed sid) (andthen (launch_loop sid Entry_START None) (front_session sid))
       | Some _ \<Rightarrow> andthen (whenever paused (resumed sid)) (andthen (launch_loop sid Entry_RESUME None) (front_session sid))))))"

definition paused_reason :: "'d manager \<Rightarrow> store \<Rightarrow> string \<Rightarrow> details option" where
  "paused_reason mg st sid =
     (case get_session st sid of
        None \<Rightarrow> None
      | Some session \<Rightarrow>
          if s_status session \<noteq> Session_PAUSED then None
          else let failures = list_failures st sid; failure = (if failures = [] then None else Some (last failures))
            in Some [(''reason'', JStr REASON_CREDENTIALS_REQUIRED),
                 (''error_code'', jstr_opt (map_option f_error_code failure)),
                 (''error_type'', jstr_opt (map_option (\<lambda>f. error_type_value (f_error_type f)) failure)),
                 (''operation'', case Option.bind failure (\<lambda>f. dict_get (f_details f) ''operation'') of Some (JStr t) \<Rightarrow> JStr t | _ \<Rightarrow> JNull),
                 (''since'', mg_dump_time mg (Some (s_updated_at session)))])"

definition front_interrupt :: "surroundings \<Rightarrow> int \<Rightarrow> string \<Rightarrow> string \<Rightarrow> ('d, interruption_report option) front_act" where
  "front_interrupt su timeout sid reason = f_handler (interrupt su timeout sid reason)"

text \<open>
  \<open>wait\<close>: \<open>meanwhile\<close> is what happens while the caller waits, \<open>cancelled\<close> that it was the caller who was cancelled when the
  loop is not over. A loop that raised its own \<open>TimeoutError\<close> is caught by the same clause.
\<close>

definition timed_out :: "string \<Rightarrow> string \<Rightarrow> exn" where
  "timed_out sid timeout = Timeout_Exn ''TimeoutError'' (''session '' @ sid @ '' still running after '' @ timeout @ '' ms'')"

definition wait_loop ::
  "('d front_state \<Rightarrow> 'd front_state) \<Rightarrow> bool \<Rightarrow> string \<Rightarrow> int option \<Rightarrow> ('d, session_record) front_act" where
  "wait_loop meanwhile cancelled sid timeout_ms =
     bnd (front_session sid) (\<lambda>_.
     bnd (f_get (loop_of sid)) (\<lambda>found.
     let shown = (case timeout_ms of None \<Rightarrow> ''None'' | Some n \<Rightarrow> str_int n)
     in case found of
       None \<Rightarrow> front_session sid
     | Some _ \<Rightarrow>
         andthen (modifying meanwhile)
        (bnd (f_get (loop_of sid)) (\<lambda>t.
         case Option.bind t lt_end of
           Some (Loop_raised (Timeout_Exn name text)) \<Rightarrow>
             if name = ''TimeoutError'' then throw (timed_out sid shown) else throw (Timeout_Exn name text)
         | Some (Loop_raised e) \<Rightarrow> throw e
         | Some Loop_cancelled \<Rightarrow> front_session sid
         | Some (Loop_returned _) \<Rightarrow> front_session sid
         | None \<Rightarrow> if cancelled then throw (Other_Exn ''CancelledError'' []) else throw (timed_out sid shown)))))"

section \<open>Reads\<close>

definition reply_head :: "'d manager \<Rightarrow> message_record \<Rightarrow> details" where
  "reply_head mg m =
     [(''message_id'', JStr (m_message_id m)), (''conversation_id'', JStr (m_conversation_id m)), (''cycle_id'', jstr_opt (m_cycle_id m)),
      (''received_at'', mg_dump_time mg (m_received_at m))]"

definition concluding_messages :: "store \<Rightarrow> string \<Rightarrow> message_record list" where
  "concluding_messages st sid =
     concat (map (\<lambda>c. filter (\<lambda>m. m_message_type m \<in> CONCLUDING_MESSAGE_TYPES \<and> m_validation_status m = Some ''valid'')
       (list_messages st (c_conversation_id c) (Some INBOUND))) (list_conversations st sid))"

definition content_of :: "message_record \<Rightarrow> exn + json" where
  "content_of m = (case dict_get (m_payload m) ''content'' of None \<Rightarrow> Inl (Other_Exn ''KeyError'' ''content'') | Some j \<Rightarrow> Inr j)"

fun mapR :: "('x \<Rightarrow> 'e + 'y) \<Rightarrow> 'x list \<Rightarrow> 'e + 'y list" where
  "mapR f [] = Inr []"
| "mapR f (x # xs) = bindR (f x) (\<lambda>y. bindR (mapR f xs) (\<lambda>ys. Inr (y # ys)))"

definition user_responses :: "'d manager \<Rightarrow> store \<Rightarrow> string \<Rightarrow> exn + details list" where
  "user_responses mg st sid =
     mapR (\<lambda>m. bindR (content_of m) (\<lambda>j. bindR (mg_read_response mg j) (\<lambda>d. Inr (reply_head mg m @ d))))
       (filter (\<lambda>m. m_message_type m = USER_RESPONSE) (concluding_messages st sid))"

definition last_reply :: "'d manager \<Rightarrow> store \<Rightarrow> string \<Rightarrow> details option" where
  "last_reply mg st sid =
     (let ms = concluding_messages st sid
      in if ms = [] then None
         else Some ((''type'', JStr (message_type_value (m_message_type (last ms)))) # reply_head mg (last ms)
           @ [(''content'', record_content (last ms))]))"

definition corrections :: "'d manager \<Rightarrow> store \<Rightarrow> string \<Rightarrow> exn + details list" where
  "corrections mg st sid =
     mapR (\<lambda>m. bindR (content_of m) (\<lambda>j. bindR (mg_read_correction mg j) (\<lambda>d. Inr
         ([(''message_id'', JStr (m_message_id m)), (''conversation_id'', JStr (m_conversation_id m)), (''cycle_id'', jstr_opt (m_cycle_id m)),
           (''created_at'', mg_dump_time mg (Some (m_created_at m))), (''posted_at'', mg_dump_time mg (m_posted_at m)),
           (''size_bytes'', JInt (m_size_bytes m))] @ d))))
       (concat (map (\<lambda>c. filter (\<lambda>m. m_message_type m = PROTOCOL_CORRECTION_REQUEST)
          (list_messages st (c_conversation_id c) (Some OUTBOUND))) (list_conversations st sid)))"

definition front_final_answer :: "store \<Rightarrow> string \<Rightarrow> details option" where
  "front_final_answer st sid = Option.bind (get_session st sid) s_final_answer"

definition running_task_ids :: "store \<Rightarrow> string \<Rightarrow> string list" where
  "running_task_ids st sid = map t_task_id (list_tasks st sid None (Some [Task_RUNNING]))"

section \<open>Shutdown\<close>

text \<open>What happens while a loop is given its time, and the end of a loop that is cancelled.\<close>

record 'd awaits =
  aw_surroundings :: surroundings
  aw_timeout :: int
  aw_settle :: "string \<Rightarrow> 'd front_state \<Rightarrow> 'd front_state"
  aw_cancel :: "string \<Rightarrow> 'd front_state \<Rightarrow> 'd front_state"

definition shutdown_loop :: "'d awaits \<Rightarrow> string \<Rightarrow> ('d, unit) front_act" where
  "shutdown_loop aw sid =
     bnd (f_get (loop_running sid)) (\<lambda>running.
     whenever running
       (bnd (f_store (\<lambda>st. get_session st sid)) (\<lambda>session.
        andthen (whenever (case session of None \<Rightarrow> False | Some s \<Rightarrow> s_status s \<in> {Session_RUNNING, Session_INTERRUPTING})
          (catching (bnd (front_interrupt (aw_surroundings aw) (aw_timeout aw) sid SHUTDOWN_REASON) (\<lambda>_. ret ()))
             (\<lambda>e. if is_cancelled_error e then throw e else ret ())))
       (bnd (f_get (loop_running sid)) (\<lambda>still.
        whenever still
          (andthen (modifying (aw_settle aw sid))
          (bnd (f_get (loop_running sid)) (\<lambda>pending. whenever pending (modifying (aw_cancel aw sid))))))))))"

definition shutdown :: "'d awaits \<Rightarrow> ('d, unit) front_act" where
  "shutdown aw = bnd (f_get (\<lambda>f. dict_keys (fr_loops f))) (\<lambda>sids. for_each sids (shutdown_loop aw))"

end
