(* ===== verification/Requests.thy ===== *)
theory Requests
  imports Manager
begin

text \<open>
  What the entry points of \<open>ConversationManager\<close> promise: which requests are accepted, what an accepted request does to the
  records, and that the loop it launches finds what it starts from.
\<close>

section \<open>The lifecycle calls of a request\<close>

lemma achieves_new_conversation_id: "achieves T new_conversation_id (\<lambda>_ T'. T' = T)"
proof (rule achieves_I)
  fix w assume w: "sane w" "world w = T"
  let ?w = "w\<lparr>w_ids := w_ids w + 1\<rparr>"
  have "healthy ?w" by (rule healthy_cong [of w]) (use w(1) in \<open>simp_all add: sane_def healthy_def\<close>)
  then have "sane ?w \<and> world ?w = T" using w by (simp add: sane_def)
  moreover have "new_conversation_id w = (Inr (''conv'' @ ''-'' @ e_uuid (w_env w) (w_ids w)), ?w)" by (simp add: id_defs)
  ultimately show "\<exists>v w'. new_conversation_id w = (Inr v, w') \<and> sane w' \<and> world w' = T" by blast
qed

lemma achieves_both:
  "achieves T (on_store (transaction (andthen (save_conversation c) (save_session s))))
     (\<lambda>_ X. X = T\<lparr>tb_conversations := (tb_conversations T)(c_conversation_id c \<mapsto> c), tb_sessions := (tb_sessions T)(s_session_id s \<mapsto> s)\<rparr>)"
proof (rule achieves_transaction)
  have "on_store (andthen (save_conversation c) (save_session s)) = andthen (on_store (save_conversation c)) (on_store (save_session s))"
    by (auto simp: fun_eq_iff on_part_def andthen_run split: prod.splits sum.splits)
  moreover have "achieves T (andthen (on_store (save_conversation c)) (on_store (save_session s)))
     (\<lambda>_ X. X = T\<lparr>tb_conversations := (tb_conversations T)(c_conversation_id c \<mapsto> c), tb_sessions := (tb_sessions T)(s_session_id s \<mapsto> s)\<rparr>)"
    by (rule achieves_andthen [OF achieves_saves(4)], hypsubst, rule achieves_weaken [OF achieves_saves(5)]) simp
  ultimately show "achieves T (on_store (andthen (save_conversation c) (save_session s)))
     (\<lambda>_ X. X = T\<lparr>tb_conversations := (tb_conversations T)(c_conversation_id c \<mapsto> c), tb_sessions := (tb_sessions T)(s_session_id s \<mapsto> s)\<rparr>)"
    by simp
qed

definition owned :: "tables \<Rightarrow> string \<Rightarrow> string option \<Rightarrow> bool" where
  "owned T sid parent \<longleftrightarrow> (\<forall>pid. parent = Some pid \<longrightarrow> (\<exists>p. tb_conversations T pid = Some p \<and> c_session_id p = sid))"

lemma achieves_unit: "achieves T (lifting (Inr ())) (\<lambda>_ X. X = T)"
  by (simp add: achieves_def lifting_def)

lemma achieves_check_parent: "owned T sid parent \<Longrightarrow> achieves T (check_parent sid parent) (\<lambda>_ X. X = T)"
  unfolding check_parent_def owned_def
  by (cases parent) (auto simp: achieves_ret achieves_unit guardR_def intro!: achieves_require_conversation)

text \<open>What a new conversation is.\<close>

definition opened :: "string \<Rightarrow> session_record \<Rightarrow> string option \<Rightarrow> conversation_record \<Rightarrow> tables \<Rightarrow> tables \<Rightarrow> bool" where
  "opened sid s parent c T X \<longleftrightarrow> (\<exists>cid now. c = (new_conversation cid s parent HEALTHY now)\<lparr>c_session_id := sid\<rparr>
     \<and> X = T\<lparr>tb_conversations := (tb_conversations T)(c_conversation_id c \<mapsto> c),
             tb_sessions := (tb_sessions T)(sid \<mapsto> s\<lparr>s_current_conversation_id := Some (c_conversation_id c), s_updated_at := now\<rparr>)\<rparr>)"

lemma achieves_create_conversation:
  assumes "tb_sessions T sid = Some s" and "owned T sid parent"
  shows "achieves T (create_conversation sid parent HEALTHY) (\<lambda>c X. opened sid s parent c T X)"
  unfolding create_conversation_def bnd_ret
proof (intro achieves_require_session [OF assms(1)] achieves_andthen [OF achieves_check_parent [OF assms(2)]]
    achieves_bnd [OF achieves_clock] achieves_bnd [OF achieves_new_conversation_id])
  fix T1 now T2 cid T3
  assume id: "s_session_id s = sid" and T: "T1 = T" "T2 = T1" "T3 = T2"
  show "achieves T3 (andthen (on_store (transaction (andthen (save_conversation ((new_conversation cid s parent HEALTHY now)\<lparr>c_session_id := sid\<rparr>))
        (save_session (s\<lparr>s_current_conversation_id := Some cid, s_updated_at := now\<rparr>)))))
    (andthen (lifecycle_publish CONVERSATION_CREATED now sid (Some cid)
        [(''parent_conversation_id'', jstr_opt parent), (''context_window_state'', JStr (window_state_value HEALTHY))])
     (ret ((new_conversation cid s parent HEALTHY now)\<lparr>c_session_id := sid\<rparr>)))) (\<lambda>c X. opened sid s parent c T X)"
    unfolding T by (rule achieves_then_publish [OF achieves_both]) (use id in \<open>auto simp: opened_def new_conversation_def\<close>)
qed

text \<open>A session put back to work, with the updates of the request.\<close>

definition waits_for_user :: "tables \<Rightarrow> session_record \<Rightarrow> bool" where
  "waits_for_user T s \<longleftrightarrow>
     (\<exists>cid c. s_current_conversation_id s = Some cid \<and> tb_conversations T cid = Some c \<and> c_status c = Conv_WAITING_USER)"

lemma waits_for_user_store: "conversation_waits_for_user st s = waits_for_user (tables_of st) s"
  by (auto simp: conversation_waits_for_user_def waits_for_user_def tables_get split: option.splits)

definition working :: "session_record \<Rightarrow> session_update list \<Rightarrow> session_record \<Rightarrow> bool" where
  "working s us s' \<longleftrightarrow> (\<exists>now a. apply_session (session_defaults s Session_RUNNING now @ us) s = Inr a
     \<and> s' = a\<lparr>s_status := Session_RUNNING, s_updated_at := now\<rparr>)"

lemma achieves_to_running:
  assumes "tb_sessions T sid = Some s" and "can_transition SESSION_TRANSITIONS (s_status s) Session_RUNNING"
    and "s_status s = Session_COMPLETED \<Longrightarrow> s_auto_close_on_final_answer s \<Longrightarrow> waits_for_user T s"
    and "reject_managed_session_fields us = Inr ()" and "\<And>now. \<exists>a. apply_session (session_defaults s Session_RUNNING now @ us) s = Inr a"
  shows "achieves T (transition_session sid Session_RUNNING reason us)
    (\<lambda>s' X. working s us s' \<and> X = T\<lparr>tb_sessions := (tb_sessions T)(sid \<mapsto> s')\<rparr>)"
  unfolding transition_session_def bnd_ret
proof (intro achieves_require_session [OF assms(1)] achieves_check achieves_reading achieves_bnd [OF achieves_clock])
  fix waits now T'
  assume id: "s_session_id s = sid" and T': "T' = T"
  obtain a where a: "apply_session (session_defaults s Session_RUNNING now @ us) s = Inr a" using assms(5) by blast
  let ?s = "a\<lparr>s_status := Session_RUNNING, s_updated_at := now\<rparr>"
  have sid: "s_session_id ?s = sid" using apply_session_same [OF a] id by simp
  show "achieves T' (bnd (lifting (apply_session (session_defaults s Session_RUNNING now @ us) s)) (\<lambda>applied.
      andthen (on_store (save_session (applied\<lparr>s_status := Session_RUNNING, s_updated_at := now\<rparr>)))
       (andthen (lifecycle_publish SESSION_STATE_CHANGED now sid None
          (state_change_payload (Some (session_state_value (s_status s))) (session_state_value Session_RUNNING) reason))
        (ret (applied\<lparr>s_status := Session_RUNNING, s_updated_at := now\<rparr>)))))
    (\<lambda>s' X. working s us s' \<and> X = T\<lparr>tb_sessions := (tb_sessions T)(sid \<mapsto> s')\<rparr>)"
    unfolding T'
    by (rule achieves_lifting [OF achieves_then_publish [OF achieves_saves(5)]]) (use a sid in \<open>auto simp: working_def\<close>)
next
  fix w
  assume "world w = T"
  then show "guardR (\<not> (s_status s = Session_COMPLETED \<and> Session_RUNNING = Session_RUNNING \<and> s_auto_close_on_final_answer s
      \<and> \<not> conversation_waits_for_user (w_store w) s)) (InvalidTransitionError ''session'' (session_state_value (s_status s)) (session_state_value Session_RUNNING)) = Inr ()"
    using assms(3) by (auto simp: guardR_def waits_for_user_store)
qed (use assms in \<open>auto simp: assert_transition_def\<close>)

text \<open>The three updates of a request apply to every session, and leave the rest as it is.\<close>

lemma request_updates:
  assumes "us \<in> {[], [Set_final_answer None]} \<union> {[Set_user_message m, Set_final_answer None] @ gs |m gs. gs = [] \<or> (\<exists>g. gs = [Set_goal g])}"
  shows "reject_managed_session_fields us = Inr ()" and "\<exists>a. apply_session (session_defaults s Session_RUNNING now @ us) s = Inr a"
  using assms by (auto simp: reject_managed_session_fields_def apply_session_def session_defaults_def guardR_def)

lemma working_fields:
  assumes "working s us s'" and "us \<in> {[], [Set_final_answer None]} \<union> {[Set_user_message m, Set_final_answer None] @ gs |m gs. gs = [] \<or> (\<exists>g. gs = [Set_goal g])}"
  shows "s_status s' = Session_RUNNING" "s_session_id s' = s_session_id s" "s_current_conversation_id s' = s_current_conversation_id s"
    "s_auto_close_on_final_answer s' = s_auto_close_on_final_answer s" "s_budget s' = s_budget s"
  using assms by (cases "s_started_at s"; auto simp: working_def apply_session_def session_defaults_def)+

text \<open>The lifecycle calls that open a conversation for a session, as one action on the application.\<close>

definition enter :: "string \<Rightarrow> session_update list \<Rightarrow> string option \<Rightarrow> conversation_record app_act" where
  "enter sid us parent =
     bnd (transition_session sid Session_RUNNING (Some REASON_USER_REQUEST) us) (\<lambda>_.
     bnd (create_conversation sid parent HEALTHY) (\<lambda>c.
     transition_conversation (c_conversation_id c) Conv_ACTIVE (Some REASON_USER_REQUEST) []))"

text \<open>What they achieve: the session runs on a new active conversation with the given parent.\<close>

definition entered :: "string \<Rightarrow> session_record \<Rightarrow> session_update list \<Rightarrow> string option \<Rightarrow> tables \<Rightarrow> tables \<Rightarrow> bool" where
  "entered sid s us parent T X \<longleftrightarrow> (\<exists>s' c now. working s us s' \<and> c_status c = Conv_ACTIVE \<and> c_session_id c = sid
     \<and> c_parent_conversation_id c = parent
     \<and> X = T\<lparr>tb_conversations := (tb_conversations T)(c_conversation_id c \<mapsto> c),
             tb_sessions := (tb_sessions T)(sid \<mapsto> s'\<lparr>s_current_conversation_id := Some (c_conversation_id c), s_updated_at := now\<rparr>)\<rparr>)"

lemma achieves_enter:
  assumes "tb_sessions T sid = Some s" and "s_status s = Session_READY" and "owned T sid parent"
    and "reject_managed_session_fields us = Inr ()" and "\<And>now. \<exists>a. apply_session (session_defaults s Session_RUNNING now @ us) s = Inr a"
  shows "achieves T (enter sid us parent) (\<lambda>_ X. entered sid s us parent T X)"
  unfolding enter_def
proof (rule achieves_bnd [OF achieves_to_running [OF assms(1) _ _ assms(4,5)]])
  show "can_transition SESSION_TRANSITIONS (s_status s) Session_RUNNING" using assms(2) by (simp add: table_simps)
  fix s' X
  assume s': "working s us s' \<and> X = T\<lparr>tb_sessions := (tb_sessions T)(sid \<mapsto> s')\<rparr>"
  then have X: "tb_sessions X sid = Some s'" "owned X sid parent" using assms(3) by (auto simp: owned_def)
  show "achieves X (bnd (create_conversation sid parent HEALTHY) (\<lambda>c. transition_conversation (c_conversation_id c) Conv_ACTIVE (Some REASON_USER_REQUEST) []))
     (\<lambda>_ X. entered sid s us parent T X)"
  proof (rule achieves_bnd [OF achieves_create_conversation [OF X]])
    fix c Y assume c: "opened sid s' parent c X Y"
    then have "tb_conversations Y (c_conversation_id c) = Some c" "c_status c = Conv_NEW" "c_session_id c = sid" "c_parent_conversation_id c = parent"
      by (auto simp: opened_def new_conversation_def)
    moreover from c s' obtain now where Y: "Y = T\<lparr>tb_conversations := (tb_conversations T)(c_conversation_id c \<mapsto> c),
        tb_sessions := (tb_sessions T)(sid \<mapsto> s'\<lparr>s_current_conversation_id := Some (c_conversation_id c), s_updated_at := now\<rparr>)\<rparr>"
      by (auto simp: opened_def)
    ultimately show "achieves Y (transition_conversation (c_conversation_id c) Conv_ACTIVE (Some REASON_USER_REQUEST) []) (\<lambda>_ X. entered sid s us parent T X)"
    proof (intro achieves_weaken [OF achieves_transition_conversation [of Y "c_conversation_id c" c Conv_ACTIVE "[]" c]])
      fix c' Z
      assume "(\<exists>t. c' = c\<lparr>c_status := Conv_ACTIVE, c_updated_at := t\<rparr>)
        \<and> Z = Y\<lparr>tb_conversations := (tb_conversations Y)(c_conversation_id c \<mapsto> c')\<rparr>"
      with Y s' \<open>c_session_id c = sid\<close> \<open>c_parent_conversation_id c = parent\<close> show "entered sid s us parent T Z"
        unfolding entered_def by (intro exI [of _ s'] exI [of _ c'] exI [of _ now]) auto
    qed (auto simp: table_simps apply_conversation_def reject_managed_conversation_fields_def guardR_def)
  qed
qed (use assms(2) in simp)

section \<open>What a request decides\<close>

definition launched :: "string \<Rightarrow> entry \<Rightarrow> string option \<Rightarrow> 'd front \<Rightarrow> 'd front" where
  "launched sid entry user_message f =
     f\<lparr>fr_loops := dict_set sid \<lparr>lt_entry = entry, lt_user_message = user_message, lt_end = None\<rparr> (fr_loops f)\<rparr>"

definition current_of :: "tables \<Rightarrow> session_record \<Rightarrow> conversation_record option" where
  "current_of T s = Option.bind (s_current_conversation_id s) (tb_conversations T)"

definition pending_of :: "tables \<Rightarrow> conversation_record \<Rightarrow> message_record option" where
  "pending_of T c = (if c_status c \<noteq> Conv_WAITING_MODEL_RESPONSE then None else pending_in_trail (rev (tb_messages T (c_conversation_id c))))"

text \<open>What the loop of an entry starts from.\<close>

definition ready_for :: "tables \<Rightarrow> string \<Rightarrow> entry \<Rightarrow> bool" where
  "ready_for T sid entry \<longleftrightarrow> (\<exists>s c. tb_sessions T sid = Some s \<and> s_status s = Session_RUNNING \<and> current_of T s = Some c
     \<and> (case entry of
          Entry_START \<Rightarrow> c_status c \<in> UNSENT_CONVERSATION_STATES
        | Entry_FOLLOW_UP \<Rightarrow> c_status c \<in> REUSABLE_CONVERSATION_STATES
        | Entry_RESUME \<Rightarrow> pending_of T c \<noteq> None))"

definition may_follow_up :: "tables \<Rightarrow> session_record \<Rightarrow> bool" where
  "may_follow_up T s \<longleftrightarrow> s_status s = Session_COMPLETED \<and> (\<exists>c. current_of T s = Some c \<and> c_status c \<in> REUSABLE_CONVERSATION_STATES
     \<and> (s_auto_close_on_final_answer s \<longrightarrow> c_status c = Conv_WAITING_USER))"

lemma pending_of_store: "pending_outbound_of st c = pending_of (tables_of st) c"
  by (simp add: pending_outbound_of_def pending_of_def tables_of_def)

lemma current_of_store: "Option.bind (s_current_conversation_id s) (get_conversation st) = current_of (tables_of st) s"
  by (cases "s_current_conversation_id s") (simp_all add: current_of_def tables_get)

lemma waits_for_user_current: "waits_for_user T s \<longleftrightarrow> (\<exists>c. current_of T s = Some c \<and> c_status c = Conv_WAITING_USER)"
  by (auto simp: waits_for_user_def current_of_def split: Option.bind_splits)

lemma f_app_run: "(f_app m :: ('d, 'a) front_act) ((w, h), f) = (case m w of (r, w') \<Rightarrow> (r, ((w', h), f)))"
  by (simp add: on_part_def split: prod.splits)

lemma front_session_run: "front_session sid ((w, h), f) =
    (case tb_sessions (world w) sid of
       None \<Rightarrow> (Inl (Other_Exn ''KeyError'' (''unknown session: '' @ sid)), ((w, h), f))
     | Some s \<Rightarrow> (Inr s, ((w, h), f)))"
  by (simp add: front_session_def f_app_run require_session_def bnd_run reading_def throw_def ret_def tables_get split: option.splits)

lemma launch_run: "launch_loop sid entry m ((w, h), f) = (Inr (), ((w, h), launched sid entry m f))"
  by (simp add: launch_loop_def launched_def modifying_def)

lemma refused_reopening:
  assumes "tb_sessions (world w) sid = Some s" and "s_status s = Session_COMPLETED" and "s_auto_close_on_final_answer s"
    and "\<not> waits_for_user (world w) s" and "reject_managed_session_fields us = Inr ()"
  shows "\<exists>e. transition_session sid Session_RUNNING reason us w = (Inl e, w)"
  using assms
  by (simp add: transition_session_def require_session_def bnd_run andthen_run reading_def ret_def lifting_def tables_get assert_transition_def
      guardR_def waits_for_user_store table_simps split: option.splits)

definition request_message_updates :: "string \<Rightarrow> session_record \<Rightarrow> session_update list" where
  "request_message_updates m s = [Set_user_message m, Set_final_answer None] @ (if s_goal s = [] then [Set_goal m] else [])"

lemma continue_ready_run:
  "continue_ready sid m s ((w, h), f) =
     (case enter sid (request_message_updates m s) (s_current_conversation_id s) w of
        (Inl e, w') \<Rightarrow> (Inl e, ((w', h), f))
      | (Inr _, w') \<Rightarrow> front_session sid ((w', h), launched sid Entry_START (Some m) f))"
  by (simp add: continue_ready_def enter_def request_message_updates_def bnd_run andthen_run f_app_run launch_run split: prod.splits sum.splits)

lemma continue_completed_run:
  "continue_completed sid m s ((w, h), f) =
     (if \<not> (\<exists>c. current_of (world w) s = Some c \<and> c_status c \<in> REUSABLE_CONVERSATION_STATES)
      then (Inl (ValueError (if s_auto_close_on_final_answer s then ''session '' @ sid @ '' was closed after its final answer''
            else ''session '' @ sid @ '' has no reusable conversation'')), ((w, h), f))
      else case transition_session sid Session_RUNNING (Some REASON_USER_REQUEST) [Set_final_answer None] w of
        (Inl e, w') \<Rightarrow> (Inl e, ((w', h), f))
      | (Inr _, w') \<Rightarrow> front_session sid ((w', h), launched sid Entry_FOLLOW_UP (Some m) f))"
  by (simp add: continue_completed_def bnd_run andthen_run f_app_run launch_run reading_def throw_def current_of_store split: prod.splits sum.splits option.splits)

text \<open>What a request that is let through leaves.\<close>

lemma current_of_update:
  "current_of (T\<lparr>tb_conversations := C, tb_sessions := S\<rparr>) s = Option.bind (s_current_conversation_id s) C"
  by (simp add: current_of_def)

definition taken_up :: "string \<Rightarrow> string \<Rightarrow> session_record \<Rightarrow> tables \<Rightarrow> tables \<Rightarrow> entry \<Rightarrow> bool" where
  "taken_up sid m s T X entry \<longleftrightarrow> (\<exists>s'. tb_sessions X sid = Some s' \<and> ready_for X sid entry \<and> s_final_answer s' = None
     \<and> (if s_status s = Session_COMPLETED
        then entry = Entry_FOLLOW_UP \<and> current_of X s' = current_of T s
        else entry = Entry_START \<and> s_user_message s' = m \<and> s_goal s' = (if s_goal s = [] then m else s_goal s)
          \<and> (\<exists>c. current_of X s' = Some c \<and> c_parent_conversation_id c = s_current_conversation_id s)))"

lemma working_request:
  assumes "working s (request_message_updates m s) s'"
  shows "s_status s' = Session_RUNNING \<and> s_final_answer s' = None \<and> s_user_message s' = m \<and> s_goal s' = (if s_goal s = [] then m else s_goal s)"
  using assms by (cases "s_started_at s"; auto simp: working_def apply_session_def session_defaults_def request_message_updates_def split: if_splits)

lemma enter_takes_up:
  assumes "entered sid s (request_message_updates m s) (s_current_conversation_id s) T X" and "s_status s = Session_READY"
  shows "taken_up sid m s T X Entry_START"
proof -
  obtain s' c now where w: "working s (request_message_updates m s) s'" and c: "c_status c = Conv_ACTIVE" "c_parent_conversation_id c = s_current_conversation_id s"
    and X: "X = T\<lparr>tb_conversations := (tb_conversations T)(c_conversation_id c \<mapsto> c),
             tb_sessions := (tb_sessions T)(sid \<mapsto> s'\<lparr>s_current_conversation_id := Some (c_conversation_id c), s_updated_at := now\<rparr>)\<rparr>"
    using assms(1) unfolding entered_def by blast
  with working_request [OF w] assms(2) show ?thesis
    by (simp add: taken_up_def ready_for_def current_of_def UNSENT_CONVERSATION_STATES_def)
qed

lemma follow_up_takes_up:
  assumes "working s [Set_final_answer None] s'" and "may_follow_up T s"
  shows "taken_up sid m s T (T\<lparr>tb_sessions := (tb_sessions T)(sid \<mapsto> s')\<rparr>) Entry_FOLLOW_UP"
proof -
  have "s_status s' = Session_RUNNING \<and> s_current_conversation_id s' = s_current_conversation_id s \<and> s_final_answer s' = None"
    using assms(1) by (cases "s_started_at s"; auto simp: working_def apply_session_def session_defaults_def)
  with assms(2) show ?thesis by (auto simp: taken_up_def ready_for_def may_follow_up_def current_of_def)
qed

lemma front_session_taken_up:
  assumes "taken_up sid m s T (world w) entry"
  shows "\<exists>s'. front_session sid ((w, h), f) = (Inr s', ((w, h), f)) \<and> tb_sessions (world w) sid = Some s'"
  using assms by (auto simp: taken_up_def front_session_run)

lemma continue_from_ready:
  assumes "sane w" and "tb_sessions (world w) sid = Some s" and "s_status s = Session_READY" and "owned (world w) sid (s_current_conversation_id s)"
  shows "\<exists>s' w'. continue_ready sid m s ((w, h), f) = (Inr s', ((w', h), launched sid Entry_START (Some m) f))
    \<and> taken_up sid m s (world w) (world w') Entry_START \<and> tb_sessions (world w') sid = Some s' \<and> sane w'"
proof -
  have "achieves (world w) (enter sid (request_message_updates m s) (s_current_conversation_id s))
      (\<lambda>_ X. entered sid s (request_message_updates m s) (s_current_conversation_id s) (world w) X)"
    by (rule achieves_enter [OF assms(2,3,4)]; rule request_updates) (auto simp: request_message_updates_def)
  then obtain c w' where e: "enter sid (request_message_updates m s) (s_current_conversation_id s) w = (Inr c, w')" "sane w'"
    and "entered sid s (request_message_updates m s) (s_current_conversation_id s) (world w) (world w')"
    using assms(1) unfolding achieves_def by blast
  then have up: "taken_up sid m s (world w) (world w') Entry_START" using enter_takes_up assms(3) by blast
  then show ?thesis using front_session_taken_up [OF up, of h "launched sid Entry_START (Some m) f"] e by (auto simp: continue_ready_run)
qed

lemma continue_from_completed:
  assumes "sane w" and "tb_sessions (world w) sid = Some s" and "may_follow_up (world w) s"
  shows "\<exists>s' w'. continue_completed sid m s ((w, h), f) = (Inr s', ((w', h), launched sid Entry_FOLLOW_UP (Some m) f))
    \<and> taken_up sid m s (world w) (world w') Entry_FOLLOW_UP \<and> tb_sessions (world w') sid = Some s' \<and> sane w'"
proof -
  have completed: "s_status s = Session_COMPLETED" using assms(3) by (simp add: may_follow_up_def)
  have "achieves (world w) (transition_session sid Session_RUNNING (Some REASON_USER_REQUEST) [Set_final_answer None])
      (\<lambda>s' X. working s [Set_final_answer None] s' \<and> X = (world w)\<lparr>tb_sessions := (tb_sessions (world w))(sid \<mapsto> s')\<rparr>)"
    by (rule achieves_to_running [OF assms(2) _ _ request_updates])
      (use assms(3) completed in \<open>auto simp: table_simps may_follow_up_def waits_for_user_current\<close>)
  then obtain s' w' where e: "transition_session sid Session_RUNNING (Some REASON_USER_REQUEST) [Set_final_answer None] w = (Inr s', w')" "sane w'"
    and "working s [Set_final_answer None] s'" "world w' = (world w)\<lparr>tb_sessions := (tb_sessions (world w))(sid \<mapsto> s')\<rparr>"
    using assms(1) unfolding achieves_def by blast
  then have up: "taken_up sid m s (world w) (world w') Entry_FOLLOW_UP" using follow_up_takes_up assms(3) by metis
  moreover have "\<exists>c. current_of (world w) s = Some c \<and> c_status c \<in> REUSABLE_CONVERSATION_STATES" using assms(3) by (auto simp: may_follow_up_def)
  ultimately show ?thesis
    using front_session_taken_up [OF up, of h "launched sid Entry_FOLLOW_UP (Some m) f"] e by (auto simp: continue_completed_run)
qed

text \<open>
  C21. A request on an existing session is accepted exactly when no loop runs for it and the session is \<open>READY\<close>, or \<open>COMPLETED\<close> on a
  reusable conversation that, under auto-close, waits for the user. Then the session runs, its answer forgotten, and the loop is launched
  with the message: a follow-up on the same conversation, or a start on a new child conversation, the message being the
  session's and its goal if it has none; the loop finds what it starts from. Otherwise the call raises and changes nothing.
\<close>

theorem continue_session_decides:
  assumes "sane w" and "\<And>s. tb_sessions (world w) sid = Some s \<Longrightarrow> owned (world w) sid (s_current_conversation_id s)"
  shows "case continue_session sid m ((w, h), f) of (r, ((w', h'), f')) \<Rightarrow>
    (case tb_sessions (world w) sid of
       Some s \<Rightarrow>
         if \<not> loop_running sid f \<and> (s_status s = Session_READY \<or> may_follow_up (world w) s)
         then \<exists>entry s'. taken_up sid m s (world w) (world w') entry \<and> f' = launched sid entry (Some m) f
                \<and> r = Inr s' \<and> tb_sessions (world w') sid = Some s' \<and> sane w' \<and> h' = h
         else (\<exists>e. r = Inl e) \<and> ((w', h'), f') = ((w, h), f)
     | None \<Rightarrow> (\<exists>e. r = Inl e) \<and> ((w', h'), f') = ((w, h), f))"
proof (cases "tb_sessions (world w) sid")
  case None
  then show ?thesis by (simp add: continue_session_def bnd_run front_session_run)
next
  case (Some s)
  note owned = assms(2) [OF Some]
  consider "loop_running sid f" | "\<not> loop_running sid f" "s_status s = Session_READY" | "\<not> loop_running sid f" "may_follow_up (world w) s"
    | "\<not> loop_running sid f" "s_status s \<noteq> Session_READY" "\<not> may_follow_up (world w) s" by blast
  then show ?thesis
  proof cases
    case 1
    then show ?thesis by (simp add: Some continue_session_def bnd_run front_session_run reading_def throw_def)
  next
    case 2
    then show ?thesis using continue_from_ready [OF assms(1) Some 2(2) owned, of m h f] by (auto simp: Some continue_session_def bnd_run front_session_run reading_def)
  next
    case 3
    then have "s_status s = Session_COMPLETED" by (simp add: may_follow_up_def)
    with 3 show ?thesis
      using continue_from_completed [OF assms(1) Some 3(2), of m h f] by (auto simp: Some continue_session_def bnd_run front_session_run reading_def)
  next
    case 4
    show ?thesis
    proof (cases "s_status s = Session_COMPLETED \<and> (\<exists>c. current_of (world w) s = Some c \<and> c_status c \<in> REUSABLE_CONVERSATION_STATES)")
      case True
      then have "s_auto_close_on_final_answer s" "\<not> waits_for_user (world w) s"
        using 4(3) by (auto simp: may_follow_up_def waits_for_user_current)
      with True refused_reopening [OF Some, of "[Set_final_answer None]" "Some REASON_USER_REQUEST"] request_updates(1) [of "[Set_final_answer None]"]
      show ?thesis using 4 by (auto simp: Some continue_session_def bnd_run front_session_run reading_def continue_completed_run)
    next
      case False
      then show ?thesis using 4 by (auto simp: Some continue_session_def bnd_run front_session_run reading_def throw_def continue_completed_run)
    qed
  qed
qed

definition quiet_front :: "unit front" where
  "quiet_front = \<lparr>fr_loops = [], fr_space = new_space ()\<rparr>"

lemma crashed_tables:
  "tb_sessions (world (crashed_app x y ms)) ''s'' = Some (crashed_session x)"
  "current_of (world (crashed_app x y ms)) (crashed_session x) = Some (sample_conversation y)"
  "owned (world (crashed_app x y ms)) ''s'' (s_current_conversation_id (crashed_session x))"
  "s_status (crashed_session x) = x" "c_status (sample_conversation y) = y"
  using crashed_records [of x y ms] unfolding tables_get
  by (simp_all add: current_of_def owned_def crashed_session_def new_session_def sample_conversation_def new_conversation_def)

lemma no_loop: "\<not> loop_running sid quiet_front"
  by (simp add: quiet_front_def loop_running_def loop_of_def)

text \<open>A completed session that waits for the user is followed up; its loop starts.\<close>

theorem continue_session_decides_witness:
  "\<exists>s' w' entry. continue_session ''s'' ''more'' ((crashed_app Session_COMPLETED Conv_WAITING_USER [], new_handler), quiet_front)
     = (Inr s', ((w', new_handler), launched ''s'' entry (Some ''more'') quiet_front)) \<and> ready_for (world w') ''s'' entry"
proof -
  let ?w = "crashed_app Session_COMPLETED Conv_WAITING_USER []"
  obtain r w' h' f' where run: "continue_session ''s'' ''more'' ((?w, new_handler), quiet_front) = (r, ((w', h'), f'))"
    by (metis surj_pair)
  have "may_follow_up (world ?w) (crashed_session Session_COMPLETED)"
    by (simp add: may_follow_up_def crashed_tables REUSABLE_CONVERSATION_STATES_def)
  moreover have "owned (world ?w) ''s'' (s_current_conversation_id s)" if "tb_sessions (world ?w) ''s'' = Some s" for s
    using that crashed_tables(1,3) [of Session_COMPLETED Conv_WAITING_USER "[]"] by simp
  ultimately show ?thesis
    using continue_session_decides [OF crashed_sane [of Session_COMPLETED Conv_WAITING_USER "[]"], where sid = "''s''" and m = "''more''" and h = new_handler and f = quiet_front] run
    by (auto simp: crashed_tables(1) no_loop taken_up_def)
qed

section \<open>Resuming\<close>

definition may_resume :: "tables \<Rightarrow> session_record \<Rightarrow> conversation_record \<Rightarrow> bool" where
  "may_resume T s c \<longleftrightarrow> s_status s \<in> RESUMABLE_SESSION_STATES \<and> current_of T s = Some c
     \<and> (pending_of T c \<noteq> None \<or> (s_status s = Session_PAUSED \<and> c_status c \<in> UNSENT_CONVERSATION_STATES))"

definition resumed_entry :: "tables \<Rightarrow> conversation_record \<Rightarrow> entry" where
  "resumed_entry T c = (if pending_of T c = None then Entry_START else Entry_RESUME)"

lemma ready_to_resume:
  assumes "may_resume T s c" and "tb_sessions X sid = Some s'" and "s_status s' = Session_RUNNING"
    and "s_current_conversation_id s' = s_current_conversation_id s" and "tb_conversations X = tb_conversations T" and "tb_messages X = tb_messages T"
  shows "ready_for X sid (resumed_entry T c)"
proof -
  have "current_of X s' = Some c" and "pending_of X c = pending_of T c"
    using assms by (simp_all add: may_resume_def current_of_def pending_of_def)
  with assms show ?thesis by (auto simp: ready_for_def may_resume_def resumed_entry_def)
qed

lemma resumed_run:
  assumes "sane w" and "tb_sessions (world w) sid = Some s" and "s_status s = Session_PAUSED"
  shows "\<exists>s' w'. (resumed sid :: ('d, unit) front_act) ((w, h), f) = (Inr (), ((w', h), f)) \<and> sane w' \<and> working s [] s'
    \<and> world w' = (world w)\<lparr>tb_sessions := (tb_sessions (world w))(sid \<mapsto> s')\<rparr>"
proof -
  have "achieves (world w) (transition_session sid Session_RUNNING (Some REASON_CREDENTIALS_PROVIDED) [])
      (\<lambda>s' X. working s [] s' \<and> X = (world w)\<lparr>tb_sessions := (tb_sessions (world w))(sid \<mapsto> s')\<rparr>)"
    by (rule achieves_to_running [OF assms(2) _ _ request_updates]) (use assms(3) in \<open>auto simp: table_simps\<close>)
  then obtain s' w' where "transition_session sid Session_RUNNING (Some REASON_CREDENTIALS_PROVIDED) [] w = (Inr s', w')" "sane w'" "working s [] s'"
    "world w' = (world w)\<lparr>tb_sessions := (tb_sessions (world w))(sid \<mapsto> s')\<rparr>"
    using assms(1) unfolding achieves_def by blast
  then show ?thesis by (auto simp: resumed_def bnd_run f_app_run ret_def)
qed

text \<open>The call once its guards are passed.\<close>

definition take_up_again :: "string \<Rightarrow> bool \<Rightarrow> entry \<Rightarrow> ('d, session_record) front_act" where
  "take_up_again sid paused entry = andthen (whenever paused (resumed sid)) (andthen (launch_loop sid entry None) (front_session sid))"

lemma resume_accepted:
  assumes "tb_sessions (world w) sid = Some s" and "\<not> loop_running sid f" and "may_resume (world w) s c"
  shows "resume_session sid ((w, h), f) = take_up_again sid (s_status s = Session_PAUSED) (resumed_entry (world w) c) ((w, h), f)"
proof -
  have "s_current_conversation_id s \<noteq> None" using assms(3) by (cases "s_current_conversation_id s") (simp_all add: may_resume_def current_of_def)
  with assms show ?thesis
    by (cases "pending_of (world w) c")
      (auto simp: resume_session_def bnd_run front_session_run reading_def may_resume_def take_up_again_def resumed_entry_def
        current_of_store pending_of_store whenever_def Let_def)
qed

lemma resume_refused:
  assumes "tb_sessions (world w) sid = Some s" and "loop_running sid f \<or> \<not> (\<exists>c. may_resume (world w) s c)"
  shows "\<exists>e. resume_session sid ((w, h), f) = (Inl e, ((w, h), f))"
proof (cases "loop_running sid f \<or> s_status s \<notin> RESUMABLE_SESSION_STATES \<or> s_current_conversation_id s = None")
  case True
  then show ?thesis using assms(1) by (auto simp: resume_session_def bnd_run front_session_run reading_def throw_def)
next
  case False
  with assms(2) have none: "\<not> may_resume (world w) s c" for c by blast
  show ?thesis
  proof (cases "current_of (world w) s")
    case None
    with False show ?thesis using assms(1)
      by (simp add: resume_session_def bnd_run front_session_run reading_def throw_def current_of_store Let_def)
  next
    case (Some c)
    with False none [of c] show ?thesis using assms(1)
      by (simp add: resume_session_def bnd_run front_session_run reading_def throw_def current_of_store pending_of_store Let_def may_resume_def)
  qed
qed

lemma resume_done:
  assumes "sane w" and "tb_sessions (world w) sid = Some s" and "may_resume (world w) s c"
  shows "\<exists>s' w'. take_up_again sid (s_status s = Session_PAUSED) (resumed_entry (world w) c) ((w, h), f)
      = (Inr s', ((w', h), launched sid (resumed_entry (world w) c) None f))
    \<and> sane w' \<and> tb_sessions (world w') sid = Some s' \<and> ready_for (world w') sid (resumed_entry (world w) c)
    \<and> (s_status s = Session_RUNNING \<longrightarrow> w' = w)"
proof (cases "s_status s = Session_PAUSED")
  case True
  obtain s' w' where run: "(resumed sid :: ('a, unit) front_act) ((w, h), f) = (Inr (), ((w', h), f))" and w': "sane w'" "working s [] s'"
    "world w' = (world w)\<lparr>tb_sessions := (tb_sessions (world w))(sid \<mapsto> s')\<rparr>"
    using resumed_run [OF assms(1,2) True] by blast
  note fields = working_fields [OF w'(2)]
  have "ready_for (world w') sid (resumed_entry (world w) c)"
    by (rule ready_to_resume [OF assms(3), of _ _ s']) (use w'(3) fields in auto)
  with True run w' show ?thesis by (simp add: take_up_again_def andthen_run whenever_def launch_run front_session_run)
next
  case False
  then have "s_status s = Session_RUNNING" using assms(3) by (auto simp: may_resume_def RESUMABLE_SESSION_STATES_def)
  then have "ready_for (world w) sid (resumed_entry (world w) c)" by (intro ready_to_resume [OF assms(3), of _ _ s]) (use assms(2) in auto)
  with False assms(1,2) show ?thesis by (simp add: take_up_again_def andthen_run whenever_def ret_def launch_run front_session_run)
qed

text \<open>
  C22. A session is resumed exactly when no loop runs for it and it is \<open>RUNNING\<close> or \<open>PAUSED\<close> on a conversation with a message whose
  reply is pending, or \<open>PAUSED\<close> on one that has sent nothing: the loop is launched to resume, in the other case to start again, on a
  \<open>RUNNING\<close> session and the same conversation, where it finds what it starts from. Otherwise the call raises and changes nothing.
\<close>

theorem resume_session_decides:
  assumes "sane w"
  shows "case resume_session sid ((w, h), f) of (r, ((w', h'), f')) \<Rightarrow>
    (case tb_sessions (world w) sid of
       Some s \<Rightarrow>
         if \<not> loop_running sid f \<and> (\<exists>c. may_resume (world w) s c)
         then \<exists>c s'. may_resume (world w) s c \<and> f' = launched sid (resumed_entry (world w) c) None f
                \<and> ready_for (world w') sid (resumed_entry (world w) c) \<and> (s_status s = Session_RUNNING \<longrightarrow> w' = w)
                \<and> r = Inr s' \<and> tb_sessions (world w') sid = Some s' \<and> sane w' \<and> h' = h
         else (\<exists>e. r = Inl e) \<and> ((w', h'), f') = ((w, h), f)
     | None \<Rightarrow> (\<exists>e. r = Inl e) \<and> ((w', h'), f') = ((w, h), f))"
proof (cases "tb_sessions (world w) sid")
  case None
  then show ?thesis by (simp add: resume_session_def bnd_run front_session_run)
next
  case (Some s)
  show ?thesis
  proof (cases "\<not> loop_running sid f \<and> (\<exists>c. may_resume (world w) s c)")
    case True
    then obtain c where "may_resume (world w) s c" by blast
    with True resume_done [OF assms Some this, of h f] show ?thesis by (auto simp: Some resume_accepted [OF Some])
  next
    case False
    then show ?thesis using resume_refused [OF Some, of f h] by (auto simp: Some)
  qed
qed

text \<open>A session paused before anything was sent starts again.\<close>

theorem resume_session_decides_witness:
  "\<exists>s' w' entry. resume_session ''s'' ((crashed_app Session_PAUSED Conv_ACTIVE [], new_handler), quiet_front)
     = (Inr s', ((w', new_handler), launched ''s'' entry None quiet_front)) \<and> ready_for (world w') ''s'' entry"
proof -
  let ?w = "crashed_app Session_PAUSED Conv_ACTIVE []"
  obtain r w' h' f' where run: "resume_session ''s'' ((?w, new_handler), quiet_front) = (r, ((w', h'), f'))"
    by (metis surj_pair)
  have "may_resume (world ?w) (crashed_session Session_PAUSED) (sample_conversation Conv_ACTIVE)"
    by (simp add: may_resume_def crashed_tables RESUMABLE_SESSION_STATES_def UNSENT_CONVERSATION_STATES_def)
  then have "\<exists>c. may_resume (world ?w) (crashed_session Session_PAUSED) c" by blast
  then show ?thesis
    using resume_session_decides [OF crashed_sane [of Session_PAUSED Conv_ACTIVE "[]"], where sid = "''s''" and h = new_handler and f = quiet_front] run
    by (auto simp: crashed_tables(1) no_loop)
qed

section \<open>Starting\<close>

lemma achieves_new_session_id: "achieves T new_session_id (\<lambda>_ T'. T' = T)"
proof (rule achieves_I)
  fix w assume w: "sane w" "world w = T"
  let ?w = "w\<lparr>w_ids := w_ids w + 1\<rparr>"
  have "healthy ?w" by (rule healthy_cong [of w]) (use w(1) in \<open>simp_all add: sane_def healthy_def\<close>)
  then have "sane ?w \<and> world ?w = T" using w by (simp add: sane_def)
  moreover have "new_session_id w = (Inr (''sess'' @ ''-'' @ e_uuid (w_env w) (w_ids w)), ?w)" by (simp add: id_defs)
  ultimately show "\<exists>v w'. new_session_id w = (Inr v, w') \<and> sane w' \<and> world w' = T" by blast
qed

lemma achieves_create_session:
  "achieves T (create_session goal m user budget auto skills effort)
     (\<lambda>s X. (\<exists>sid now. s = new_session sid goal m user budget auto now) \<and> X = T\<lparr>tb_sessions := (tb_sessions T)(s_session_id s \<mapsto> s)\<rparr>)"
  unfolding create_session_def bnd_ret
  by (intro achieves_bnd [OF achieves_clock] achieves_bnd [OF achieves_new_session_id] achieves_then_publish [OF achieves_saves(5)])
    (auto simp: new_session_def)

text \<open>The session of a request as it is created, and what is bound to it.\<close>

definition asked_session :: "'d manager \<Rightarrow> string option \<Rightarrow> string option \<Rightarrow> session_budget option \<Rightarrow> bool option \<Rightarrow> string option \<Rightarrow> session_record \<Rightarrow> bool" where
  "asked_session mg goal m budget auto user s \<longleftrightarrow> (\<exists>sid now. s = new_session sid (given goal) (given m)
     (let u = strip (given user) in if u = [] then default_user_id mg else u) (case budget of None \<Rightarrow> mg_budget mg | Some b \<Rightarrow> b)
     (case auto of None \<Rightarrow> mg_auto_close mg | Some b \<Rightarrow> b) now)"

definition space_refused :: "'d manager \<Rightarrow> string option \<Rightarrow> 'd front \<Rightarrow> bool" where
  "space_refused mg ws f \<longleftrightarrow> (\<exists>raw e. ws = Some raw \<and> validate_working_space (mg_filesystem mg) raw (sp_disk (fr_space f)) = Inl e)"

definition bound_to :: "'d manager \<Rightarrow> string \<Rightarrow> string option \<Rightarrow> 'd front \<Rightarrow> 'd front" where
  "bound_to mg sid ws f =
     (case (ws, mg_scratch mg) of
        (Some raw, Some cfg) \<Rightarrow>
          (case validate_working_space (mg_filesystem mg) raw (sp_disk (fr_space f)) of
             Inr folder \<Rightarrow> if sn_enabled cfg then f\<lparr>fr_space := (fr_space f)\<lparr>sp_bound := dict_set sid folder (sp_bound (fr_space f))\<rparr>\<rparr> else f
           | Inl _ \<Rightarrow> f)
      | _ \<Rightarrow> f)"

lemma bind_run:
  assumes "\<not> space_refused mg ws f"
  shows "(case ws of None \<Rightarrow> ret ()
      | Some raw \<Rightarrow> (case mg_scratch mg of None \<Rightarrow> ret ()
         | Some cfg \<Rightarrow> bnd (f_space (bind_space cfg (mg_filesystem mg) sid (Some raw))) (\<lambda>_. ret ()))) ((w, h), f) = (Inr (), ((w, h), bound_to mg sid ws f))"
proof (cases ws)
  case (Some raw)
  then obtain folder where "validate_working_space (mg_filesystem mg) raw (sp_disk (fr_space f)) = Inr folder"
    using assms by (cases "validate_working_space (mg_filesystem mg) raw (sp_disk (fr_space f))") (auto simp: space_refused_def)
  with Some show ?thesis
    by (simp add: bnd_run on_part_def bind_space_def reading_def lifting_def andthen_run modifying_def ret_def bound_to_def split: option.split)
qed (simp add: ret_def bound_to_def)

lemma check_space_run:
  "(case ws of None \<Rightarrow> ret ()
     | Some raw \<Rightarrow> bnd (f_get (\<lambda>f. validate_working_space (mg_filesystem mg) raw (sp_disk (fr_space f)))) (\<lambda>valid. bnd (lifting valid) (\<lambda>_. ret ())))
     ((w, h), f) = (if space_refused mg ws f
       then (Inl (projl (validate_working_space (mg_filesystem mg) (the ws) (sp_disk (fr_space f)))), ((w, h), f)) else (Inr (), ((w, h), f)))"
  by (cases ws; cases "validate_working_space (mg_filesystem mg) (the ws) (sp_disk (fr_space f))")
    (simp_all add: bnd_run reading_def lifting_def ret_def space_refused_def)

lemma begin_work_run:
  "begin_work sid m ((w, h), f) =
     (if m = None then front_session sid ((w, h), f)
      else case enter sid [] None w of
        (Inl e, w') \<Rightarrow> (Inl e, ((w', h), f))
      | (Inr _, w') \<Rightarrow> front_session sid ((w', h), launched sid Entry_START None f))"
  by (simp add: begin_work_def enter_def bnd_run andthen_run f_app_run launch_run split: prod.splits sum.splits)

lemma opened_done:
  assumes "sane w" and "tb_sessions (world w) sid = Some s" and "s_status s = Session_READY"
  shows "\<exists>s' w'. begin_work sid m ((w, h), f) = (Inr s', ((w', h), if m = None then f else launched sid Entry_START None f)) \<and> sane w'
    \<and> tb_sessions (world w') sid = Some s'
    \<and> (if m = None then w' = w else s_goal s' = s_goal s \<and> s_user_message s' = s_user_message s \<and> ready_for (world w') sid Entry_START)"
proof (cases m)
  case None
  with assms show ?thesis by (simp add: begin_work_run front_session_run)
next
  case (Some t)
  have "achieves (world w) (enter sid [] None) (\<lambda>_ X. entered sid s [] None (world w) X)"
    by (rule achieves_enter [OF assms(2,3)]; (rule request_updates)?) (auto simp: owned_def)
  then obtain c w' where e: "enter sid [] None w = (Inr c, w')" "sane w'" and "entered sid s [] None (world w) (world w')"
    using assms(1) unfolding achieves_def by blast
  then obtain s' c' now where s': "working s [] s'" "c_status c' = Conv_ACTIVE"
    and X: "world w' = (world w)\<lparr>tb_conversations := (tb_conversations (world w))(c_conversation_id c' \<mapsto> c'),
        tb_sessions := (tb_sessions (world w))(sid \<mapsto> s'\<lparr>s_current_conversation_id := Some (c_conversation_id c'), s_updated_at := now\<rparr>)\<rparr>"
    unfolding entered_def by blast
  have "s_goal s' = s_goal s \<and> s_user_message s' = s_user_message s"
    using s'(1) by (cases "s_started_at s"; auto simp: working_def apply_session_def session_defaults_def)
  with Some e X s' working_fields(1) [OF s'(1)] show ?thesis
    by (simp add: begin_work_run front_session_run ready_for_def current_of_def UNSENT_CONVERSATION_STATES_def)
qed

lemma start_refused:
  assumes "(goal = None) \<noteq> (m = None) \<or> space_refused mg ws f"
  shows "\<exists>e. start_session mg goal m budget auto ws skills effort user ((w, h), f) = (Inl e, ((w, h), f))"
proof (cases "(goal = None) = (m = None)")
  case True
  with assms have "space_refused mg ws f" by simp
  with True show ?thesis by (simp add: start_session_def andthen_run check_space_run)
qed (simp add: start_session_def throw_def)

lemma start_accepted:
  assumes "(goal = None) = (m = None)" and "\<not> space_refused mg ws f"
  shows "start_session mg goal m budget auto ws skills effort user ((w, h), f) =
    (case create_session (given goal) (given m) (let u = strip (given user) in if u = [] then default_user_id mg else u)
        (case budget of None \<Rightarrow> mg_budget mg | Some b \<Rightarrow> b) (case auto of None \<Rightarrow> mg_auto_close mg | Some b \<Rightarrow> b) skills effort w of
       (Inl e, w') \<Rightarrow> (Inl e, ((w', h), f))
     | (Inr s, w') \<Rightarrow> begin_work (s_session_id s) m ((w', h), bound_to mg (s_session_id s) ws f))"
  using assms
  by (simp add: start_session_def andthen_run check_space_run bnd_run f_app_run bind_run split: prod.splits sum.splits)

text \<open>
  C30. A new session is refused exactly when a goal or a message comes without the other or the working space cannot be used, and then
  nothing is created. Otherwise it is the session the caller asked for, its working space bound when spaces are managed: without an
  opening message \<open>READY\<close> with no conversation, no loop and nothing else changed; with one, at work on a first conversation
  where the loop that is launched finds what it starts from.
\<close>

theorem start_session_opens:
  assumes "sane w"
  shows "case start_session mg goal m budget auto ws skills effort user ((w, h), f) of (r, ((w', h'), f')) \<Rightarrow>
    if (goal = None) \<noteq> (m = None) \<or> space_refused mg ws f then (\<exists>e. r = Inl e) \<and> ((w', h'), f') = ((w, h), f)
    else \<exists>s s'. asked_session mg goal m budget auto user s \<and> r = Inr s' \<and> tb_sessions (world w') (s_session_id s) = Some s' \<and> sane w' \<and> h' = h
      \<and> (if m = None
         then s' = s \<and> f' = bound_to mg (s_session_id s) ws f \<and> world w' = (world w)\<lparr>tb_sessions := (tb_sessions (world w))(s_session_id s \<mapsto> s)\<rparr>
         else f' = launched (s_session_id s) Entry_START None (bound_to mg (s_session_id s) ws f) \<and> ready_for (world w') (s_session_id s) Entry_START
           \<and> s_goal s' = given goal \<and> s_user_message s' = given m)"
proof (cases "(goal = None) \<noteq> (m = None) \<or> space_refused mg ws f")
  case True
  then show ?thesis using start_refused [OF True, of budget auto skills effort user w h] by auto
next
  case False
  let ?create = "create_session (given goal) (given m) (let u = strip (given user) in if u = [] then default_user_id mg else u)
        (case budget of None \<Rightarrow> mg_budget mg | Some b \<Rightarrow> b) (case auto of None \<Rightarrow> mg_auto_close mg | Some b \<Rightarrow> b) skills effort"
  obtain s w1 where create: "?create w = (Inr s, w1)" "sane w1" and asked: "asked_session mg goal m budget auto user s"
    and w1: "world w1 = (world w)\<lparr>tb_sessions := (tb_sessions (world w))(s_session_id s \<mapsto> s)\<rparr>"
    using achieves_create_session [of "world w" "given goal" "given m" _ _ _ skills effort] assms unfolding achieves_def asked_session_def by blast
  have fields: "s_status s = Session_READY" "s_goal s = given goal" "s_user_message s = given m"
    using asked by (auto simp: asked_session_def new_session_def)
  have "tb_sessions (world w1) (s_session_id s) = Some s" by (simp add: w1)
  from opened_done [OF create(2) this fields(1), of m h "bound_to mg (s_session_id s) ws f"] obtain s' w2 where
    "begin_work (s_session_id s) m ((w1, h), bound_to mg (s_session_id s) ws f)
      = (Inr s', ((w2, h), if m = None then bound_to mg (s_session_id s) ws f else launched (s_session_id s) Entry_START None (bound_to mg (s_session_id s) ws f)))"
    "sane w2" "tb_sessions (world w2) (s_session_id s) = Some s'"
    "if m = None then w2 = w1 else s_goal s' = s_goal s \<and> s_user_message s' = s_user_message s \<and> ready_for (world w2) (s_session_id s) Entry_START"
    by blast
  with False asked create(1) w1 fields show ?thesis by (auto simp: start_accepted)
qed

text \<open>A first request with an opening message, and a working space the manager binds.\<close>

definition sample_manager :: "string list manager" where
  "sample_manager = \<lparr>mg_budget = sample_budget, mg_auto_close = True, mg_given_user_id = None, mg_transport_user_id = ''me'',
     mg_scratch = Some sample_scratch, mg_filesystem = listing_fs, mg_read_response = (\<lambda>_. Inr []), mg_read_correction = (\<lambda>_. Inr []),
     mg_dump_time = (\<lambda>_. JNull)\<rparr>"

definition home_front :: "string list front" where
  "home_front = \<lparr>fr_loops = [], fr_space = new_space [''/home/w'']\<rparr>"

theorem start_session_opens_witness:
  "\<exists>(s :: session_record) s' w'. start_session sample_manager (Some ''g'') (Some ''m'') None None (Some ''/home/w'') [] None None ((crashed_app Session_READY Conv_CLOSED [], new_handler), home_front)
     = (Inr s', ((w', new_handler), launched (s_session_id s) Entry_START None (bound_to sample_manager (s_session_id s) (Some ''/home/w'') home_front)))
   \<and> ready_for (world w') (s_session_id s) Entry_START \<and> s_user_id s = ''me''"
proof -
  let ?w = "crashed_app Session_READY Conv_CLOSED []"
  obtain r w' h' f' where run: "start_session sample_manager (Some ''g'') (Some ''m'') None None (Some ''/home/w'') [] None None ((?w, new_handler), home_front)
      = (r, ((w', h'), f'))"
    by (metis surj_pair)
  have "\<not> space_refused sample_manager (Some ''/home/w'') home_front"
    by (simp add: space_refused_def sample_manager_def listing_fs_def home_front_def new_space_def validate_working_space_def starts_with_def
        strip_def strip_by_def is_space_def)
  then have "\<exists>s s'. asked_session sample_manager (Some ''g'') (Some ''m'') None None None s \<and> r = Inr s' \<and> h' = new_handler
      \<and> f' = launched (s_session_id s) Entry_START None (bound_to sample_manager (s_session_id s) (Some ''/home/w'') home_front)
      \<and> ready_for (world w') (s_session_id s) Entry_START"
    using start_session_opens [OF crashed_sane [of Session_READY Conv_CLOSED "[]"], where mg = sample_manager and goal = "Some ''g''" and m = "Some ''m''"
        and budget = None and auto = None and ws = "Some ''/home/w''" and skills = "[]" and effort = None and user = None and h = new_handler and f = home_front] run
    by auto
  then obtain s s' where asked: "asked_session sample_manager (Some ''g'') (Some ''m'') None None None s"
    and ended: "r = Inr s'" "h' = new_handler" "f' = launched (s_session_id s) Entry_START None (bound_to sample_manager (s_session_id s) (Some ''/home/w'') home_front)"
      "ready_for (world w') (s_session_id s) Entry_START"
    by blast
  have "s_user_id s = ''me''" if "asked_session sample_manager (Some ''g'') (Some ''m'') None None None s" for s
    using that by (auto simp: asked_session_def new_session_def default_user_id_def sample_manager_def given_def strip_def strip_by_def)
  from this [OF asked] show ?thesis using run unfolding ended(1,2,3) using ended(4) by - (rule exI [of _ s], rule exI [of _ s'], rule exI [of _ w'], intro conjI; assumption)
qed

section \<open>Waiting and the working space\<close>

text \<open>A loop that ended on a \<open>TimeoutError\<close> of its own is reported as still running.\<close>

lemma wait_hides_a_timeout:
  assumes "tb_sessions (world w) sid = Some s" and "loop_of sid f = Some t" and "lt_end t = Some (Loop_raised (Timeout_Exn ''TimeoutError'' text))"
  shows "wait_loop id False sid None ((w, h), f) = (Inl (timed_out sid ''None''), ((w, h), f))"
  using assms by (simp add: wait_loop_def bnd_run front_session_run reading_def throw_def andthen_run modifying_def Let_def)

text \<open>When its loop ends a session keeps the folder of its user, and the disk is not touched.\<close>

lemma users_folder_survives_the_loop:
  assumes "mg_scratch mg = Some cfg" and "sn_enabled cfg" and "dict_get (sp_bound (fr_space f)) sid = Some folder"
    and "dict_get (sp_created (fr_space f)) sid = None"
    and "validate_working_space (mg_filesystem mg) folder (sp_disk (fr_space f)) = Inr folder"
  shows "\<exists>f'. release_working_space mg sid ((w, h), f) = (Inr (), ((w, h), f')) \<and> dict_get (sp_bound (fr_space f')) sid = Some folder
    \<and> sp_disk (fr_space f') = sp_disk (fr_space f)"
proof (cases "get_session (w_store w) sid")
  case None
  with assms show ?thesis by (simp add: release_working_space_def bnd_run reading_def ret_def)
next
  case (Some s)
  have "catching (bnd (release cfg (mg_filesystem mg) sid failed) (bind_again cfg (mg_filesystem mg) sid)) (\<lambda>_. ret ()) (w, fr_space f)
      = (Inr (), (w, (forget_space sid (fr_space f))\<lparr>sp_bound := dict_set sid folder (sp_bound (forget_space sid (fr_space f)))\<rparr>))" for failed
    using assms(2-5)
    by (simp add: catching_def release_def bnd_run andthen_run reading_def modifying_def ret_def outcome_of_def bind_again_def whenever_def
        bind_space_def lifting_def forget_space_def)
  with Some assms(1,3) show ?thesis
    by (auto simp: release_working_space_def bnd_run reading_def whenever_def ret_def on_part_def forget_space_def)
qed

end
