(* ===== verification/Spec2Isabelle.thy ===== *)
theory Spec2Isabelle
  imports Failures Breaking Lifecycle Window Plans Restart Sweeping Ending History Answering Requests
begin

text \<open>
  A verification library of the local agent runtime \<open>agentic_local_app\<close> (sources under
  \<open>src/src/agentic_local_app/\<close>). The program drives a remote model through a strict message protocol: a \<^emph>\<open>session\<close>
  holds \<^emph>\<open>conversations\<close>; in each \<^emph>\<open>cycle\<close> an outbound message is posted, a reply is validated, a reply that is a
  \<^emph>\<open>plan\<close> is run as \<^emph>\<open>tasks\<close> (local commands), and its \<open>execution_result\<close> is the next outbound message. Every
  change is validated against a transition table, persisted, then published and audited.

  \<^bold>\<open>Theories and sources\<close>, in the order of their dependencies:

  \<^item> \<open>Prelude\<close>: results, Python dictionaries (association lists in insertion order), text and list functions, the
    state-and-exception actions (\<open>act\<close>, \<open>bnd\<close>, \<open>catching\<close>, \<open>for_each\<close>) all stateful code is written in.
  \<^item> \<open>States\<close>: \<open>domain/states.py\<close>, \<open>domain/transitions.py\<close>. \<open>Canonical\<close>: \<open>domain/canonical.py\<close>. \<open>Errors\<close>:
    \<open>domain/errors.py\<close>. \<open>Events\<close>: \<open>domain/events.py\<close>. \<open>Models\<close>: the records of \<open>domain/models.py\<close>.
  \<^item> \<open>Store\<close>: \<open>persistence/memory.py\<close>. \<open>App\<close>: \<open>domain/clock.py\<close>, \<open>domain/ids.py\<close>, \<open>observability/event_bus.py\<close>,
    \<open>observability/audit_log.py\<close> and the state \<open>app\<close> of the running process.
  \<^item> \<open>Resilience\<close>: \<open>resilience/retry_controller.py\<close>, \<open>circuit_breaker.py\<close>, whose
    behaviour over a history of calls is proved in \<open>Breaking\<close>. \<open>Failures\<close>: \<open>failure_manager.py\<close>.
  \<^item> \<open>Lifecycle\<close>: \<open>lifecycle/conversation_lifecycle.py\<close>. \<open>Window\<close>: \<open>context/window.py\<close>. \<open>Reducer\<close>:
    \<open>context/reducer.py\<close>.
  \<^item> \<open>Utf8\<close>, \<open>Payload\<close>: \<open>execution/payload_guard.py\<close> with the results of \<open>protocol/messages.py\<close>.
  \<^item> \<open>Cycles\<close>, \<open>Protocol\<close>, \<open>Outbound\<close>: the inbound and the outbound half of \<open>protocol/adapter.py\<close>. \<open>Commands\<close>:
    \<open>domain/shell.py\<close>, \<open>domain/commands.py\<close>. \<open>Collector\<close>: \<open>execution/result_collector.py\<close>. \<open>Dialects\<close>:
    \<open>domain/dialects.py\<close>, proved in \<open>Translating\<close> and \<open>Answering\<close>. \<open>Scratch\<close>: \<open>execution/scratch.py\<close>.
  \<^item> \<open>Runner\<close>: \<open>execution/plan_runner.py\<close>; \<open>Scheduling\<close>, \<open>Running\<close>, \<open>Plans\<close> hold its proofs.
  \<^item> \<open>Tables\<close>: the store as finite maps and the total-correctness rules over them. \<open>Recovery\<close>:
    \<open>orchestration/recovery.py\<close>, proved in \<open>Settling\<close> and \<open>Restart\<close>. \<open>Interruption\<close>: \<open>interruption/handler.py\<close>,
    proved in \<open>Sweeping\<close>.
  \<^item> \<open>Rotation\<close>: \<open>context/rotation.py\<close>. \<open>Orchestrator\<close>, \<open>ProtocolLoop\<close>: \<open>orchestration/protocol_orchestrator.py\<close>, the pieces
    of a run and its loop. \<open>Driving\<close> lifts an invariant of the application's primitives to a whole run, \<open>Runs\<close>, \<open>History\<close>, \<open>Bounds\<close> and
    \<open>Ending\<close> hold what a run keeps, announces and consumes and how it ends.
  \<^item> \<open>Manager\<close>: \<open>orchestration/conversation_manager.py\<close>, proved in \<open>Requests\<close>.

  \<^bold>\<open>Correspondence.\<close> A class of the code is a record and its methods are actions on it; a keyword update
  (\<open>update_session\<close>) is a list of values of an update datatype; an exception is a value of \<open>exn\<close>, so every raise and
  early return is a branch. What the process gets from outside (clock readings, UUIDs, SHA-256, the shell lookup, the
  answers of pydantic, the outcome of a subprocess, the remote model, the file system, what runs while code awaits) is an
  argument: \<open>env\<close>, \<open>schemas\<close>, \<open>wake\<close> lists, \<open>surroundings\<close>, \<open>transport\<close>, \<open>orchestrator\<close>, \<open>filesystem\<close>, \<open>awaits\<close>. A call that
  awaits is an action of its own that may raise anything and change anything; what lies between two of them is atomic, as
  in \<open>asyncio\<close>. The asynchronous scheduler of a plan is a list of wakes: each wake names the running tasks that ended
  and whether the interruption was raised. A run of a session is an action on the application, the interruption handler and the
  fields of \<open>_SessionRun\<close>; its internal exceptions are the constructors of \<open>stop\<close>. A background task of the conversation
  manager is launched by an entry point and run to its end by \<open>drive_loop\<close>.

  \<^bold>\<open>What the lemmas show.\<close>
  \<^item> Store, bus and audit: write order, transactions, append-only hash chains that detect tampering.
  \<^item> Retry, breaker, failures: over any history of calls the breaker opens exactly at its threshold, refuses
    until its duration has passed, then grants the configured trials; the decisions are a table.
  \<^item> Lifecycle, window, reducer, payload: transitions along the tables only, exact thresholds, minimal reduction, fair
    truncation, and when \<open>fit_message\<close> ends (it does not for one non-ASCII character).
  \<^item> Adapter: acceptance of a reply is decided exactly, nothing but protocol errors escapes, the cycle search is right.
  \<^item> Plan runner: \<open>good\<close>-style invariants kept by every step; at every wait the schedule is right, no run stalls, a run
    ends, and its end leaves everything terminal.
  \<^item> Recovery: it always returns and implements its policy table by table (\<open>recovered\<close>), leaves nothing under way but
    what it would resume, and is idempotent.
  \<^item> Interruption: it returns with the session freed, unless the loop it drains moved the session to a state that does not lead to
    READY, and then raises that refused transition; its sweep always returns and only interrupts (\<open>swept\<close>).
  \<^item> Rotation and run: whatever the model and the transport do, the events a run publishes tell every change it makes to the state of a
    session, conversation or window, each along the tables (\<open>replays\<close>, \<open>told\<close>, \<open>chronicle\<close>); it moves nothing that has ended, keeps the audit trail verifiable, stays in its budget of cycles and rotations, ends, and signals its end; a conversation the
    recovery leaves resumable resumes on the message the recovery saw. Two places where the loop drops what it should replay
    are proved as such. A correction request is built with the least reduction that fits.
  \<^item> Dialects (Latin-1 commands): what the dictionary writes only reads, word by word from the command it stands for and with nothing in
    force but words and variables, if no escape of the other shell is between double quotes; quoted text is untouched (a
    backquote included); the translator raises only on a number that \<open>isdigit\<close> takes and \<open>int\<close> does not.
  \<^item> Working spaces and requests: only folders the application generated are removed or moved; each entry point of the manager
    accepts exactly the documented states, changes nothing when it refuses, and launches a loop that finds what it starts from.

  \<^bold>\<open>Bounds.\<close> The list of wakes of a run of a plan stands for its scheduler; \<open>runs_end\<close> shows that a run waits at most as many times as its
  plan has tasks, so a list of that length is enough. The three loops of the orchestrator carry a fuel, the record \<open>limits\<close>: the
  attempts of one remote call, the replies read before one is usable, the turns. \<open>run_ends\<close> shows how much is enough whatever the
  model answers: an attempt per retry allowed, a reply per correction and rotation left, a turn per cycle left; a run that is given
  them never ends on \<open>Going_on\<close>, which marks missing fuel. \<open>Hanging\<close> marks a run that waits for ever, on a plan that no wake
  ends or on a \<open>fit_message\<close> that diverges. The paging of \<open>recovery.py\<close> is recursion on the offset, terminating because each full page
  moves it by \<open>PAGE\<close>. The scan of a command line and of its variables is recursion on the text that is left. \<open>fit_message\<close> is a
  \<open>partial_function\<close>.

  \<^bold>\<open>Hypotheses that recur.\<close> \<open>healthy\<close>: the store is open, no simulated failure is armed, the audit cache is in step and
  UUIDs are drawn from an injective sequence; \<open>filed\<close>: every record is stored under its own key (which every write of
  the store keeps); \<open>sane\<close> is both. \<open>orderly S\<close> says that what runs while the interruption handler waits (the drained loop
  included) keeps the application sane and leaves the session's record in a state of \<open>S\<close>. \<open>well_kept\<close> adds to a healthy application
  that sessions and conversations stand under their own id and that identifiers to come are not in use. \<open>surroundings_keep\<close> says that what the process does during the awaited calls of a run keeps the invariant the
  property is about, as the other components do; without it nothing holds of a store that anything may write.

  \<^bold>\<open>Not modelled.\<close> The command line, the HTTP interface and server-sent events, the SQLite store, the transport and its
  providers and codecs, telemetry and the execution tracker, process groups and the launch of a shell, credentials, identity and skill
  files, the construction of the object graph: they are input and output, or adapters of third-party libraries, around the core
  above. Of the configuration, the sections the components read are records; its loading is left out. Text is a list of characters
  below 256 (bytes, in the payload guard); logging is left out. The plan runner and the collector take the
  translator as an argument that may raise.
\<close>

end
